(* ===== verification/Env_Prelude.thy ===== *)
theory Env_Prelude
  imports Main "HOL-Library.Word" "HOL-Library.Multiset" "HOL-Library.Product_Lexorder"
begin

section \<open>Prelude: faults, containers and words shared by the components\<close>

text \<open>
  What every component of the development uses:
  \<^item> the ways an operation of the C++ code can end other than by returning: a failed
    \<open>FOREVER_CHECK\<close> or \<open>FOREVER_DCHECK\<close> (\<open>log/logging.h\<close>; the debug build, in which the
    two macros are the same), the \<open>std::out_of_range\<close> thrown by \<open>std::map::at\<close>, the
    \<open>std::range_error\<close> thrown by the conversion of an ill-formed text, the
    \<open>std::bad_function_call\<close> thrown by calling an empty \<open>std::function\<close>, and
    undefined behaviour of the language (a null or dangling dereference, \<open>pop\<close> on an
    empty heap, signed overflow);
  \<^item> \<open>std::set\<close> and \<open>std::map\<close> as lists in iteration order, where the code iterates;
  \<^item> the widths of the C++ integer types (the 64-bit ABIs of the build).
\<close>

named_theorems fault_simps \<open>how the operations that can fail compute\<close>

subsection \<open>Faults and results\<close>

datatype fault = Check_Failed | Out_Of_Range | Bad_Function_Call | Range_Error | Undefined_Behaviour

type_synonym 'a outcome = "fault + 'a"

definition obind :: "'a outcome \<Rightarrow> ('a \<Rightarrow> 'b outcome) \<Rightarrow> 'b outcome" where
  "obind m f = (case m of Inl e \<Rightarrow> Inl e | Inr x \<Rightarrow> f x)"

text \<open>\<open>FOREVER_CHECK(condition)\<close>, and \<open>FOREVER_DCHECK(condition)\<close> in a debug build.\<close>

definition check :: "bool \<Rightarrow> unit outcome" where
  "check b = (if b then Inr () else Inl Check_Failed)"

text \<open>A precondition of the language or of its library whose violation is undefined.\<close>

definition defined :: "bool \<Rightarrow> unit outcome" where
  "defined b = (if b then Inr () else Inl Undefined_Behaviour)"

text \<open>\<open>std::map::at\<close>.\<close>

definition map_at :: "('k \<rightharpoonup> 'v) \<Rightarrow> 'k \<Rightarrow> 'v outcome" where
  "map_at m k = (case m k of None \<Rightarrow> Inl Out_Of_Range | Some v \<Rightarrow> Inr v)"

lemma obind_Inr [simp, fault_simps]: "obind (Inr x) f = f x"
  by (simp add: obind_def)

lemma obind_Inl [simp, fault_simps]: "obind (Inl e) f = Inl e"
  by (simp add: obind_def)

lemma obind_eq_Inr [fault_simps]: "obind m f = Inr y \<longleftrightarrow> (\<exists>x. m = Inr x \<and> f x = Inr y)"
  by (cases m) auto

lemma obind_eq_InrE:
  assumes "obind m f = Inr y"
  obtains x where "m = Inr x" and "f x = Inr y"
  using assms by (auto simp: obind_eq_Inr)

lemma obind_Inr_right [simp]: "obind m Inr = m"
  by (cases m) auto

lemma obind_assoc: "obind (obind m f) g = obind m (\<lambda>x. obind (f x) g)"
  by (cases m) auto

lemma check_True [simp, fault_simps]: "check True = Inr ()"
  and check_False [simp, fault_simps]: "check False = Inl Check_Failed"
  by (simp_all add: check_def)

lemma check_eq_Inr [simp, fault_simps]: "check b = Inr u \<longleftrightarrow> b"
  by (simp add: check_def)

lemma defined_True [simp, fault_simps]: "defined True = Inr ()"
  and defined_False [simp, fault_simps]: "defined False = Inl Undefined_Behaviour"
  by (simp_all add: defined_def)

lemma defined_eq_Inr [simp, fault_simps]: "defined b = Inr u \<longleftrightarrow> b"
  by (simp add: defined_def)

lemma map_at_Some [simp]: "m k = Some v \<Longrightarrow> map_at m k = Inr v"
  by (simp add: map_at_def)

lemma map_at_None [simp]: "m k = None \<Longrightarrow> map_at m k = Inl Out_Of_Range"
  by (simp add: map_at_def)

lemma map_at_eq_Inr [simp, fault_simps]: "map_at m k = Inr v \<longleftrightarrow> m k = Some v"
  by (simp add: map_at_def split: option.splits)

lemma map_at_eq_Inl [simp, fault_simps]: "map_at m k = Inl e \<longleftrightarrow> m k = None \<and> e = Out_Of_Range"
  by (auto simp add: map_at_def split: option.splits)

text \<open>A loop over the elements of a container whose body may fail.\<close>

fun ofold :: "('a \<Rightarrow> 'b \<Rightarrow> 'b outcome) \<Rightarrow> 'a list \<Rightarrow> 'b \<Rightarrow> 'b outcome" where
  "ofold f [] s = Inr s"
| "ofold f (x # xs) s = obind (f x s) (ofold f xs)"

lemma ofold_total:
  assumes "\<And>x s. x \<in> set xs \<Longrightarrow> f x s = Inr (g x s)"
  shows "ofold f xs s = Inr (fold g xs s)"
  using assms by (induction xs arbitrary: s) auto

lemma ofold_invariant:
  assumes "ofold f xs s = Inr s'" and "P s"
    and "\<And>x t t'. x \<in> set xs \<Longrightarrow> P t \<Longrightarrow> f x t = Inr t' \<Longrightarrow> P t'"
  shows "P s'"
  using assms by (induction xs arbitrary: s) (auto simp: obind_eq_Inr)

subsection \<open>Integer types\<close>

type_synonym size_t = "64 word"
type_synonym byte = "8 word"

definition INT_MAX :: int where "INT_MAX = 2 ^ 31 - 1"
definition INT64_MAX :: int where "INT64_MAX = 2 ^ 63 - 1"
definition INT64_MIN :: int where "INT64_MIN = - (2 ^ 63)"

definition is_int64 :: "int \<Rightarrow> bool" where
  "is_int64 i \<longleftrightarrow> INT64_MIN \<le> i \<and> i \<le> INT64_MAX"

text \<open>The result of signed 64-bit arithmetic: overflow is undefined behaviour.\<close>

definition int64 :: "int \<Rightarrow> int outcome" where
  "int64 i = (if is_int64 i then Inr i else Inl Undefined_Behaviour)"

lemma int64_eq_Inr [simp, fault_simps]: "int64 i = Inr j \<longleftrightarrow> is_int64 i \<and> j = i"
  by (auto simp: int64_def)

lemma int64_in_range [simp]: "is_int64 i \<Longrightarrow> int64 i = Inr i"
  by (simp add: int64_def)

lemma is_int64_zero [simp]: "is_int64 0"
  by (simp add: is_int64_def INT64_MIN_def INT64_MAX_def)

text \<open>C++ integer division truncates towards zero, and \<open>%\<close> goes with it.\<close>

definition cdiv :: "int \<Rightarrow> int \<Rightarrow> int" where
  "cdiv a b = sgn a * sgn b * (\<bar>a\<bar> div \<bar>b\<bar>)"

definition cmod :: "int \<Rightarrow> int \<Rightarrow> int" where
  "cmod a b = a - cdiv a b * b"

lemma cdiv_nonneg: "0 \<le> a \<Longrightarrow> 0 < b \<Longrightarrow> cdiv a b = a div b"
  by (cases "a = 0") (simp_all add: cdiv_def)

lemma cdiv_neg: "a < 0 \<Longrightarrow> 0 < b \<Longrightarrow> cdiv a b = - ((- a) div b)"
  by (simp add: cdiv_def)

lemma cmod_nonneg: "0 \<le> a \<Longrightarrow> 0 < b \<Longrightarrow> cmod a b = a mod b"
  by (simp add: cmod_def cdiv_nonneg minus_div_mult_eq_mod)

lemma cdiv_cmod: "cdiv a b * b + cmod a b = a"
  by (simp add: cmod_def)

subsection \<open>\<open>std::set\<close> as a strictly ascending list\<close>

definition oset_insert :: "'a::linorder \<Rightarrow> 'a list \<Rightarrow> 'a list" where
  "oset_insert x xs = (if x \<in> set xs then xs else insort x xs)"

definition oset_erase :: "'a \<Rightarrow> 'a list \<Rightarrow> 'a list" where
  "oset_erase x xs = filter (\<lambda>y. y \<noteq> x) xs"

definition oset :: "'a::linorder list \<Rightarrow> bool" where
  "oset xs \<longleftrightarrow> sorted xs \<and> distinct xs"

lemma oset_Nil [simp]: "oset []"
  by (simp add: oset_def)

lemma set_oset_insert [simp]: "set (oset_insert x xs) = insert x (set xs)"
  by (auto simp: oset_insert_def set_insort_key)

lemma set_oset_erase [simp]: "set (oset_erase x xs) = set xs - {x}"
  by (auto simp: oset_erase_def)

lemma oset_oset_insert [simp, intro]: "oset xs \<Longrightarrow> oset (oset_insert x xs)"
  by (auto simp: oset_def oset_insert_def sorted_insort distinct_insort)

lemma oset_oset_erase [simp, intro]: "oset xs \<Longrightarrow> oset (oset_erase x xs)"
  by (auto simp: oset_def oset_erase_def sorted_filter [where f = "\<lambda>x. x", simplified])

lemma oset_unique: "oset xs \<Longrightarrow> oset ys \<Longrightarrow> set xs = set ys \<Longrightarrow> xs = ys"
  by (auto simp: oset_def intro: sorted_distinct_set_unique)

lemma oset_erase_insert [simp]:
  "oset xs \<Longrightarrow> x \<notin> set xs \<Longrightarrow> oset_erase x (oset_insert x xs) = xs"
  by (rule oset_unique) auto

lemma oset_insert_not_Nil [simp]: "oset_insert x xs \<noteq> []"
  using set_oset_insert [of x xs] by fastforce

subsection \<open>\<open>std::map\<close> as an association list with ascending keys\<close>

fun omap_insert :: "'k::linorder \<Rightarrow> 'v \<Rightarrow> ('k \<times> 'v) list \<Rightarrow> ('k \<times> 'v) list" where
  "omap_insert k v [] = [(k, v)]"
| "omap_insert k v ((k', v') # m) =
     (if k < k' then (k, v) # (k', v') # m
      else if k = k' then (k, v) # m
      else (k', v') # omap_insert k v m)"

definition omap_erase :: "'k \<Rightarrow> ('k \<times> 'v) list \<Rightarrow> ('k \<times> 'v) list" where
  "omap_erase k m = filter (\<lambda>kv. fst kv \<noteq> k) m"

definition omap :: "('k::linorder \<times> 'v) list \<Rightarrow> bool" where
  "omap m \<longleftrightarrow> oset (map fst m)"

lemma omap_Nil [simp]: "omap []"
  by (simp add: omap_def)

lemma keys_omap_insert [simp]: "fst ` set (omap_insert k v m) = insert k (fst ` set m)"
  by (induction k v m rule: omap_insert.induct) auto

lemma keys_omap_erase [simp]: "fst ` set (omap_erase k m) = fst ` set m - {k}"
  by (auto simp: omap_erase_def)

lemma omap_Cons [simp]:
  "omap (kv # m) \<longleftrightarrow> (\<forall>k' \<in> fst ` set m. fst kv < k') \<and> omap m"
  by (auto simp: omap_def oset_def order.strict_iff_order)

lemma omap_omap_insert [simp, intro]: "omap m \<Longrightarrow> omap (omap_insert k v m)"
proof (induction k v m rule: omap_insert.induct)
  case (2 k v k' v' m)
  have keys: "\<And>a b. (a, b) \<in> set (omap_insert k v m) \<Longrightarrow> a = k \<or> a \<in> fst ` set m"
    using keys_omap_insert [of k v m] by (metis fst_conv image_eqI insert_iff)
  from 2 show ?case by (fastforce dest: keys)
qed simp

lemma omap_omap_erase [simp, intro]: "omap m \<Longrightarrow> omap (omap_erase k m)"
  by (induction m) (auto simp: omap_erase_def)

lemma map_of_omap_insert [simp]:
  "omap m \<Longrightarrow> map_of (omap_insert k v m) = (map_of m)(k \<mapsto> v)"
proof (induction k v m rule: omap_insert.induct)
  case (2 k v k' v' m)
  then show ?case by (cases "k = k'") (auto simp: fun_eq_iff)
qed simp

lemma map_of_omap_erase [simp]: "map_of (omap_erase k m) = (map_of m)(k := None)"
  by (induction m) (auto simp: omap_erase_def fun_eq_iff)

end
