(* ===== verification/Time_Points.thy ===== *)
theory Time_Points
  imports Env_Prelude
begin

section \<open>Time deltas, time points and the timer descriptor\<close>

text \<open>
  \<open>app/src/main/cpp/timer/time_delta.h\<close>, \<open>timer/time_point.h\<close>, \<open>timer/time_point.cc\<close> and
  \<open>linux/timerfd.cc\<close>. A \<open>TimeDelta\<close> and a \<open>TimePoint\<close> are one \<open>int64_t\<close> of nanoseconds; the
  arithmetic is that of \<open>int64_t\<close>, whose overflow is undefined behaviour and is an \<^term>\<open>Inl\<close>
  result here. The \<open>double\<close> conversions are in
  \<open>Time_Doubles\<close>. The clock reading is an argument.
\<close>

type_synonym TimeDelta = int
type_synonym TimePoint = int

subsection \<open>TimeDelta\<close>

definition TimeDelta_Zero :: TimeDelta where "TimeDelta_Zero = 0"
definition TimeDelta_Min :: TimeDelta where "TimeDelta_Min = INT64_MIN"
definition TimeDelta_Max :: TimeDelta where "TimeDelta_Max = INT64_MAX"

definition FromNanoseconds :: "int \<Rightarrow> TimeDelta" where
  "FromNanoseconds nanos = nanos"

definition FromMicroseconds :: "int \<Rightarrow> TimeDelta outcome" where
  "FromMicroseconds micros = obind (int64 (micros * 1000)) (\<lambda>n. Inr (FromNanoseconds n))"

definition FromMilliseconds :: "int \<Rightarrow> TimeDelta outcome" where
  "FromMilliseconds millis = obind (int64 (millis * 1000)) FromMicroseconds"

definition FromSeconds :: "int \<Rightarrow> TimeDelta outcome" where
  "FromSeconds seconds = obind (int64 (seconds * 1000)) FromMilliseconds"

definition ToNanoseconds :: "TimeDelta \<Rightarrow> int" where "ToNanoseconds d = d"
definition ToMicroseconds :: "TimeDelta \<Rightarrow> int" where "ToMicroseconds d = cdiv (ToNanoseconds d) 1000"
definition ToMilliseconds :: "TimeDelta \<Rightarrow> int" where "ToMilliseconds d = cdiv (ToMicroseconds d) 1000"
definition ToSeconds :: "TimeDelta \<Rightarrow> int" where "ToSeconds d = cdiv (ToMilliseconds d) 1000"

definition TimeDelta_minus :: "TimeDelta \<Rightarrow> TimeDelta \<Rightarrow> TimeDelta outcome" where
  "TimeDelta_minus d other = obind (int64 (d - other)) (\<lambda>n. Inr (FromNanoseconds n))"

definition TimeDelta_plus :: "TimeDelta \<Rightarrow> TimeDelta \<Rightarrow> TimeDelta outcome" where
  "TimeDelta_plus d other = obind (int64 (d + other)) (\<lambda>n. Inr (FromNanoseconds n))"

text \<open>Division by zero is undefined, and so is \<open>INT64_MIN / -1\<close>, whose quotient overflows;
  the remainder is undefined in the same cases.\<close>

definition int64_div :: "int \<Rightarrow> int \<Rightarrow> int outcome" where
  "int64_div a b = obind (defined (b \<noteq> 0)) (\<lambda>_. int64 (cdiv a b))"

definition TimeDelta_div :: "TimeDelta \<Rightarrow> int \<Rightarrow> TimeDelta outcome" where
  "TimeDelta_div d divisor = obind (int64_div d divisor) (\<lambda>n. Inr (FromNanoseconds n))"

definition TimeDelta_ratio :: "TimeDelta \<Rightarrow> TimeDelta \<Rightarrow> int outcome" where
  "TimeDelta_ratio d other = int64_div d other"

definition TimeDelta_times :: "TimeDelta \<Rightarrow> int \<Rightarrow> TimeDelta outcome" where
  "TimeDelta_times d multiplier = obind (int64 (d * multiplier)) (\<lambda>n. Inr (FromNanoseconds n))"

definition TimeDelta_mod :: "TimeDelta \<Rightarrow> TimeDelta \<Rightarrow> TimeDelta outcome" where
  "TimeDelta_mod d other = obind (int64_div d other) (\<lambda>_. Inr (FromNanoseconds (cmod d other)))"

record timespec =
  tv_sec :: int
  tv_nsec :: int

definition FromTimespec :: "timespec \<Rightarrow> TimeDelta outcome" where
  "FromTimespec ts =
     obind (FromSeconds (tv_sec ts)) (\<lambda>s. TimeDelta_plus s (FromNanoseconds (tv_nsec ts)))"

definition ToTimespec :: "TimeDelta \<Rightarrow> timespec" where
  "ToTimespec d = \<lparr>tv_sec = ToSeconds d, tv_nsec = cmod d 1000000000\<rparr>"

subsection \<open>TimePoint\<close>

definition TimePoint_Min :: TimePoint where "TimePoint_Min = INT64_MIN"
definition TimePoint_Max :: TimePoint where "TimePoint_Max = INT64_MAX"

definition FromEpochDelta :: "TimeDelta \<Rightarrow> TimePoint" where
  "FromEpochDelta ticks = ToNanoseconds ticks"

definition FromTicks :: "int \<Rightarrow> TimePoint" where "FromTicks ticks = ticks"

definition ToEpochDelta :: "TimePoint \<Rightarrow> TimeDelta" where
  "ToEpochDelta p = FromNanoseconds p"

definition TimePoint_diff :: "TimePoint \<Rightarrow> TimePoint \<Rightarrow> TimeDelta outcome" where
  "TimePoint_diff p other = obind (int64 (p - other)) (\<lambda>n. Inr (FromNanoseconds n))"

definition TimePoint_plus :: "TimePoint \<Rightarrow> TimeDelta \<Rightarrow> TimePoint outcome" where
  "TimePoint_plus p duration = int64 (p + ToNanoseconds duration)"

definition TimePoint_minus :: "TimePoint \<Rightarrow> TimeDelta \<Rightarrow> TimePoint outcome" where
  "TimePoint_minus p duration = int64 (p - ToNanoseconds duration)"

text \<open>\<open>TimePoint::Now\<close>: the clock source that \<open>SetClockSource\<close> stored, or the steady clock.
  Both readings are supplied by the environment.\<close>

record clock =
  gSteadyClockSource :: "TimePoint option"
  steady_clock :: int

definition SetClockSource :: "TimePoint option \<Rightarrow> clock \<Rightarrow> clock" where
  "SetClockSource source c = c\<lparr>gSteadyClockSource := source\<rparr>"

definition TimePoint_Now :: "clock \<Rightarrow> TimePoint" where
  "TimePoint_Now c = (case gSteadyClockSource c of Some t \<Rightarrow> t | None \<Rightarrow> steady_clock c)"

subsection \<open>Arming and draining the timer descriptor\<close>

record itimerspec =
  it_value :: timespec
  it_interval :: timespec

definition NSEC_PER_SEC :: nat where "NSEC_PER_SEC = 1000000000"

text \<open>The specification that \<open>TimerRearm\<close> passes to \<open>timerfd_settime\<close>: \<open>nano_secs\<close> is a
  \<open>uint64_t\<close>, so a negative count of nanoseconds wraps around.\<close>

definition timer_nano_secs :: "TimePoint \<Rightarrow> 64 word" where
  "timer_nano_secs time_point =
     (let nano_secs = word_of_int (ToNanoseconds (ToEpochDelta time_point))
      in if nano_secs < 1 then 1 else nano_secs)"

definition TimerRearm_spec :: "TimePoint \<Rightarrow> itimerspec" where
  "TimerRearm_spec time_point =
     (let nano_secs = unat (timer_nano_secs time_point);
          value = \<lparr>tv_sec = int (nano_secs div NSEC_PER_SEC),
                   tv_nsec = int (nano_secs mod NSEC_PER_SEC)\<rparr>
      in \<lparr>it_value = value, it_interval = value\<rparr>)"

text \<open>\<open>TimerRearm\<close>, with \<open>timerfd_settime\<close> as a parameter that returns 0 on success.\<close>

definition TimerRearm :: "(itimerspec \<Rightarrow> int) \<Rightarrow> TimePoint \<Rightarrow> bool" where
  "TimerRearm timerfd_settime time_point = (timerfd_settime (TimerRearm_spec time_point) = 0)"

text \<open>\<open>TimerDrain\<close>: \<open>read\<close> (retried on \<open>EINTR\<close>) returns a size and the fire count.\<close>

definition TimerDrain :: "int \<times> 64 word \<Rightarrow> bool" where
  "TimerDrain r = (case r of (n, fire_count) \<Rightarrow> if n \<noteq> 8 then False else fire_count > 0)"

subsection \<open>Conversions\<close>

lemma cdiv_cdiv: "0 < b \<Longrightarrow> 0 < c \<Longrightarrow> cdiv (cdiv a b) c = cdiv a (b * c)"
proof (cases "a < 0")
  case True
  assume b: "0 < b" and c: "0 < c"
  show ?thesis
  proof (cases "(- a) div b = 0")
    case True
    then show ?thesis
      using b c \<open>a < 0\<close> by (simp add: cdiv_neg cdiv_nonneg zdiv_zmult2_eq)
  next
    case False
    then have "0 < (- a) div b"
      using b \<open>a < 0\<close> by (simp add: pos_imp_zdiv_nonneg_iff order_less_le)
    then show ?thesis
      using b c \<open>a < 0\<close> by (simp add: cdiv_neg zdiv_zmult2_eq)
  qed
next
  case False
  assume "0 < b" "0 < c"
  then show ?thesis
    using False by (simp add: cdiv_nonneg zdiv_zmult2_eq pos_imp_zdiv_nonneg_iff)
qed

lemma ToSeconds_eq: "ToSeconds d = cdiv d 1000000000"
  by (simp add: ToSeconds_def ToMilliseconds_def ToMicroseconds_def ToNanoseconds_def cdiv_cdiv)

lemma cdiv_mult_self:
  assumes "0 < b"
  shows "cdiv (a * b) b = a"
proof (cases "a < 0")
  case True
  have "- (a * b) div b = - a"
    using assms by (metis minus_mult_left nonzero_mult_div_cancel_right order_less_irrefl)
  with True assms show ?thesis by (simp add: cdiv_neg mult_less_0_iff)
next
  case False
  with assms show ?thesis by (simp add: cdiv_nonneg)
qed

lemma FromSeconds_eq_Inr:
  "FromSeconds s = Inr d \<longleftrightarrow> is_int64 (s * 1000000000) \<and> d = s * 1000000000"
  by (auto simp: FromSeconds_def FromMilliseconds_def FromMicroseconds_def FromNanoseconds_def
      obind_eq_Inr is_int64_def INT64_MIN_def INT64_MAX_def)

lemma cdiv_times_nonneg:
  assumes "0 \<le> a" and "0 < b"
  shows "0 \<le> cdiv a b * b \<and> cdiv a b * b \<le> a"
proof -
  have "a div b * b = a - a mod b" by (simp add: minus_mod_eq_div_mult)
  moreover have "0 \<le> a mod b" and "a mod b \<le> a"
    using assms by (simp_all add: zmod_le_nonneg_dividend)
  ultimately show ?thesis using assms by (simp add: cdiv_nonneg)
qed

lemma cdiv_uminus: "cdiv (- a) b = - cdiv a b"
  by (simp add: cdiv_def sgn_if)

lemma cdiv_times_neg: "a \<le> 0 \<Longrightarrow> 0 < b \<Longrightarrow> a \<le> cdiv a b * b \<and> cdiv a b * b \<le> 0"
  using cdiv_times_nonneg [of "- a" b] by (simp add: cdiv_uminus)

lemma int64_seconds_in_range: "is_int64 d \<Longrightarrow> is_int64 (cdiv d 1000000000 * 1000000000)"
  using cdiv_times_nonneg [of d 1000000000] cdiv_times_neg [of d 1000000000]
  by (cases "0 \<le> d") (auto simp: is_int64_def INT64_MAX_def INT64_MIN_def)

lemma FromTimespec_ToTimespec_aux:
  assumes "is_int64 d"
  shows "FromTimespec (ToTimespec d) = Inr d"
proof -
  have "FromSeconds (ToSeconds d) = Inr (cdiv d 1000000000 * 1000000000)"
    using assms by (simp add: ToSeconds_eq FromSeconds_eq_Inr int64_seconds_in_range)
  then show ?thesis
    using assms
    by (simp add: FromTimespec_def ToTimespec_def TimeDelta_plus_def FromNanoseconds_def cdiv_cmod)
qed

subsection \<open>The armed time\<close>

lemma timer_nano_secs_nonneg:
  assumes "0 \<le> t" and "is_int64 t"
  shows "int (unat (timer_nano_secs t)) = max 1 t"
proof -
  have "t < 2 ^ 64" using assms by (simp add: is_int64_def INT64_MAX_def)
  with assms have u: "uint (word_of_int t :: 64 word) = t"
    by (simp add: uint_word_of_int take_bit_int_eq_self)
  show ?thesis
  proof (cases "t = 0")
    case True
    then show ?thesis
      by (simp add: timer_nano_secs_def ToNanoseconds_def ToEpochDelta_def FromNanoseconds_def)
  next
    case False
    with assms u have "\<not> (word_of_int t :: 64 word) < 1"
      by (simp add: word_less_def)
    with False assms u show ?thesis
      by (simp add: timer_nano_secs_def ToNanoseconds_def ToEpochDelta_def FromNanoseconds_def)
  qed
qed

lemma timer_nano_secs_neg:
  assumes "t < 0" and "is_int64 t"
  shows "int (unat (timer_nano_secs t)) = 2 ^ 64 + t"
proof -
  have "(t + 2 ^ 64) mod 2 ^ 64 = t + 2 ^ 64"
    using assms by (intro mod_pos_pos_trivial) (simp_all add: is_int64_def INT64_MIN_def)
  then have u: "uint (word_of_int t :: 64 word) = 2 ^ 64 + t"
    by (simp add: uint_word_of_int take_bit_eq_mod)
  with assms have "\<not> (word_of_int t :: 64 word) < 1"
    by (simp add: word_less_def is_int64_def INT64_MIN_def)
  with u show ?thesis
    by (simp add: timer_nano_secs_def ToNanoseconds_def ToEpochDelta_def FromNanoseconds_def)
qed

lemma timer_nano_secs_pos: "0 < unat (timer_nano_secs t)"
  by (auto simp: timer_nano_secs_def Let_def word_less_nat_alt unat_gt_0)

definition timespec_nanos :: "timespec \<Rightarrow> int" where
  "timespec_nanos ts = tv_sec ts * 1000000000 + tv_nsec ts"

lemma TimerRearm_spec_nanos:
  "timespec_nanos (it_value (TimerRearm_spec t)) = int (unat (timer_nano_secs t))"
proof -
  have "int (n div k) * int k + int (n mod k) = int n" for n k :: nat
    by (metis div_mult_mod_eq of_nat_add of_nat_mult)
  from this [of "unat (timer_nano_secs t)" NSEC_PER_SEC] show ?thesis
    by (simp add: timespec_nanos_def TimerRearm_spec_def NSEC_PER_SEC_def Let_def del: of_nat_unat)
qed

text \<open>Converting any \<open>TimeDelta\<close> to a \<open>timespec\<close> and back is the identity, with no
  overflow on the way: \<open>FromTimespec\<close> multiplies the truncated seconds three times by 1000 and
  adds the remainder, and the result is the delta itself, negative deltas included.\<close>

theorem timespec_roundtrip:
  assumes "is_int64 d"
  shows "FromTimespec (ToTimespec d) = Inr d"
  using assms by (rule FromTimespec_ToTimespec_aux)

theorem timespec_roundtrip_witness:
  "FromTimespec (ToTimespec (-1500000001)) = Inr (-1500000001)"
  by (rule timespec_roundtrip) (simp add: is_int64_def INT64_MIN_def INT64_MAX_def)

text \<open>C10: \<open>TimerRearm\<close> never disarms the timer (an all-zero \<open>it_value\<close> would), always passes a
  normalised \<open>tv_nsec\<close>, and for a time point at or after the epoch it arms exactly that time,
  or one nanosecond for the epoch itself. For a time point before the epoch the conversion to
  \<open>uint64_t\<close> wraps and the timer is armed more than 290 years ahead.\<close>

theorem TimerRearm_armed_time:
  assumes "is_int64 t"
  shows "timespec_nanos (it_value (TimerRearm_spec t)) = (if 0 \<le> t then max 1 t else 2 ^ 64 + t) \<and>
    0 \<le> tv_nsec (it_value (TimerRearm_spec t)) \<and>
    tv_nsec (it_value (TimerRearm_spec t)) < 1000000000 \<and>
    timespec_nanos (it_value (TimerRearm_spec t)) > 0"
proof -
  have "timespec_nanos (it_value (TimerRearm_spec t)) = (if 0 \<le> t then max 1 t else 2 ^ 64 + t)"
    using assms timer_nano_secs_nonneg [of t] timer_nano_secs_neg [of t]
    by (simp add: TimerRearm_spec_nanos)
  moreover have "timespec_nanos (it_value (TimerRearm_spec t)) > 0"
    using timer_nano_secs_pos [of t] by (simp add: TimerRearm_spec_nanos del: of_nat_unat)
  moreover have "0 \<le> tv_nsec (it_value (TimerRearm_spec t)) \<and>
      tv_nsec (it_value (TimerRearm_spec t)) < 1000000000"
    by (simp add: TimerRearm_spec_def NSEC_PER_SEC_def Let_def)
  ultimately show ?thesis by blast
qed

theorem TimerRearm_armed_time_witness:
  "timespec_nanos (it_value (TimerRearm_spec 1500000007)) = 1500000007 \<and>
   timespec_nanos (it_value (TimerRearm_spec (-1))) = 2 ^ 64 - 1"
  using TimerRearm_armed_time [of 1500000007] TimerRearm_armed_time [of "-1"]
  by (simp add: is_int64_def INT64_MIN_def INT64_MAX_def)

end
