(* ===== verification/Task_Source.thy ===== *)
theory Task_Source
  imports Time_Points
begin

section \<open>Delayed tasks and task sources\<close>

text \<open>
  \<open>app/src/main/cpp/delayed_task.{h,cc}\<close>, \<open>task_source_grade.h\<close>, \<open>task_queue_id.h\<close> and
  \<open>task_source.{h,cc}\<close>. A closure (\<open>std::function<void()>\<close>) is an \<open>option\<close>, \<^term>\<open>None\<close> for a
  null one; what a closure does when it is invoked is the business of the message loop.

  \<open>DelayedTaskQueue\<close> is a \<open>std::priority_queue\<close> ordered by \<open>std::greater\<close>: \<open>top()\<close> is an
  element that no other is smaller than. It is kept here as the ascending list of its elements;
  among elements that compare equal the C++ library leaves the choice open and the list takes
  the oldest. The locale \<open>task_heap\<close> says what the task source relies on.
\<close>

subsection \<open>Data\<close>

type_synonym TaskQueueId = size_t

definition kUnmerged :: TaskQueueId where
  "kUnmerged = - 1"

type_synonym 'c closure = "'c option"

datatype TaskSourceGrade = kUserInteraction | kDartMicroTasks | kUnspecified

record 'c DelayedTask =
  dt_order :: size_t
  dt_task :: "'c closure"
  dt_target_time :: TimePoint
  dt_grade :: TaskSourceGrade

text \<open>\<open>DelayedTask::operator>\<close>\<close>

definition DelayedTask_gt :: "'c DelayedTask \<Rightarrow> 'c DelayedTask \<Rightarrow> bool" where
  "DelayedTask_gt t other =
     (if dt_target_time t = dt_target_time other then dt_order t > dt_order other
      else dt_target_time t > dt_target_time other)"

type_synonym 'c DelayedTaskQueue = "'c DelayedTask list"

fun pq_push :: "'c DelayedTask \<Rightarrow> 'c DelayedTaskQueue \<Rightarrow> 'c DelayedTaskQueue" where
  "pq_push t [] = [t]"
| "pq_push t (x # xs) = (if DelayedTask_gt x t then t # x # xs else x # pq_push t xs)"

fun pq_top :: "'c DelayedTaskQueue \<Rightarrow> 'c DelayedTask outcome" where
  "pq_top [] = Inl Undefined_Behaviour"
| "pq_top (x # xs) = Inr x"

fun pq_pop :: "'c DelayedTaskQueue \<Rightarrow> 'c DelayedTaskQueue outcome" where
  "pq_pop [] = Inl Undefined_Behaviour"
| "pq_pop (x # xs) = Inr xs"

text \<open>Which of the two heaps of a source an operation works on.\<close>

datatype heap_kind = Primary | Secondary

record 'c TaskSource =
  ts_task_queue_id :: TaskQueueId
  ts_primary :: "'c DelayedTaskQueue"
  ts_secondary :: "'c DelayedTaskQueue"
  ts_pause_requests :: int

text \<open>\<open>TaskSource::TopTask\<close> holds a \<^emph>\<open>reference\<close> to the task at the front of one of the heaps,
  not a copy. \<open>tt_task\<close> is what the reference reads when it is made, \<open>tt_heap\<close> the heap whose
  front it designates, so that a later read through it can be told apart.\<close>

record 'c TopTask =
  tt_task_queue_id :: TaskQueueId
  tt_heap :: heap_kind
  tt_task :: "'c DelayedTask"

subsection \<open>Operations\<close>

definition TaskSource_new :: "TaskQueueId \<Rightarrow> 'c TaskSource" where
  "TaskSource_new task_queue_id =
     \<lparr>ts_task_queue_id = task_queue_id, ts_primary = [], ts_secondary = [], ts_pause_requests = 0\<rparr>"

definition TaskSource_ShutDown :: "'c TaskSource \<Rightarrow> 'c TaskSource" where
  "TaskSource_ShutDown s = s\<lparr>ts_primary := [], ts_secondary := []\<rparr>"

definition TaskSource_RegisterTask :: "'c DelayedTask \<Rightarrow> 'c TaskSource \<Rightarrow> 'c TaskSource" where
  "TaskSource_RegisterTask task s =
     (case dt_grade task of
        kUserInteraction \<Rightarrow> s\<lparr>ts_primary := pq_push task (ts_primary s)\<rparr>
      | kUnspecified \<Rightarrow> s\<lparr>ts_primary := pq_push task (ts_primary s)\<rparr>
      | kDartMicroTasks \<Rightarrow> s\<lparr>ts_secondary := pq_push task (ts_secondary s)\<rparr>)"

definition TaskSource_PopTask :: "TaskSourceGrade \<Rightarrow> 'c TaskSource \<Rightarrow> 'c TaskSource outcome" where
  "TaskSource_PopTask grade s =
     (case grade of
        kUserInteraction \<Rightarrow> obind (pq_pop (ts_primary s)) (\<lambda>q. Inr (s\<lparr>ts_primary := q\<rparr>))
      | kUnspecified \<Rightarrow> obind (pq_pop (ts_primary s)) (\<lambda>q. Inr (s\<lparr>ts_primary := q\<rparr>))
      | kDartMicroTasks \<Rightarrow> obind (pq_pop (ts_secondary s)) (\<lambda>q. Inr (s\<lparr>ts_secondary := q\<rparr>)))"

definition TaskSource_GetNumPendingTasks :: "'c TaskSource \<Rightarrow> nat" where
  "TaskSource_GetNumPendingTasks s =
     (let n = length (ts_primary s)
      in if ts_pause_requests s = 0 then n + length (ts_secondary s) else n)"

definition TaskSource_IsEmpty :: "'c TaskSource \<Rightarrow> bool" where
  "TaskSource_IsEmpty s \<longleftrightarrow> TaskSource_GetNumPendingTasks s = 0"

definition TaskSource_Top :: "'c TaskSource \<Rightarrow> 'c TopTask outcome" where
  "TaskSource_Top s =
     obind (check (\<not> TaskSource_IsEmpty s)) (\<lambda>_.
     if ts_pause_requests s > 0 \<or> ts_secondary s = [] then
       obind (pq_top (ts_primary s)) (\<lambda>primary_top.
       Inr \<lparr>tt_task_queue_id = ts_task_queue_id s, tt_heap = Primary, tt_task = primary_top\<rparr>)
     else if ts_primary s = [] then
       obind (pq_top (ts_secondary s)) (\<lambda>secondary_top.
       Inr \<lparr>tt_task_queue_id = ts_task_queue_id s, tt_heap = Secondary, tt_task = secondary_top\<rparr>)
     else
       obind (pq_top (ts_primary s)) (\<lambda>primary_top.
       obind (pq_top (ts_secondary s)) (\<lambda>secondary_top.
       if DelayedTask_gt primary_top secondary_top then
         Inr \<lparr>tt_task_queue_id = ts_task_queue_id s, tt_heap = Secondary, tt_task = secondary_top\<rparr>
       else
         Inr \<lparr>tt_task_queue_id = ts_task_queue_id s, tt_heap = Primary, tt_task = primary_top\<rparr>)))"

text \<open>\<open>secondary_pause_requests_\<close> is an \<open>int\<close>: incrementing \<open>INT_MAX\<close> is undefined.\<close>

definition TaskSource_PauseSecondary :: "'c TaskSource \<Rightarrow> 'c TaskSource outcome" where
  "TaskSource_PauseSecondary s =
     obind (defined (ts_pause_requests s < INT_MAX)) (\<lambda>_.
     Inr (s\<lparr>ts_pause_requests := ts_pause_requests s + 1\<rparr>))"

definition TaskSource_ResumeSecondary :: "'c TaskSource \<Rightarrow> 'c TaskSource outcome" where
  "TaskSource_ResumeSecondary s =
     (let s' = s\<lparr>ts_pause_requests := ts_pause_requests s - 1\<rparr>
      in obind (check (ts_pause_requests s' \<ge> 0)) (\<lambda>_. Inr s'))"

subsection \<open>Specification: the heap of a grade, the tasks on offer\<close>

definition grade_heap :: "TaskSourceGrade \<Rightarrow> heap_kind" where
  "grade_heap g = (if g = kDartMicroTasks then Secondary else Primary)"

definition source_heap :: "heap_kind \<Rightarrow> 'c TaskSource \<Rightarrow> 'c DelayedTaskQueue" where
  "source_heap k s = (case k of Primary \<Rightarrow> ts_primary s | Secondary \<Rightarrow> ts_secondary s)"

fun heap_sorted :: "'c DelayedTaskQueue \<Rightarrow> bool" where
  "heap_sorted [] = True"
| "heap_sorted (x # xs) = ((\<forall>y \<in> set xs. \<not> DelayedTask_gt x y) \<and> heap_sorted xs)"

definition source_ok :: "'c TaskSource \<Rightarrow> bool" where
  "source_ok s \<longleftrightarrow> heap_sorted (ts_primary s) \<and> heap_sorted (ts_secondary s) \<and>
     (\<forall>t \<in> set (ts_primary s). grade_heap (dt_grade t) = Primary) \<and>
     (\<forall>t \<in> set (ts_secondary s). grade_heap (dt_grade t) = Secondary) \<and>
     0 \<le> ts_pause_requests s \<and> ts_pause_requests s \<le> INT_MAX"

text \<open>The tasks a source holds, and those it offers: the secondary heap only while unpaused.\<close>

definition source_tasks :: "'c TaskSource \<Rightarrow> 'c DelayedTask multiset" where
  "source_tasks s = mset (ts_primary s) + mset (ts_secondary s)"

definition available :: "'c TaskSource \<Rightarrow> 'c DelayedTask multiset" where
  "available s = mset (ts_primary s) + (if ts_pause_requests s = 0 then mset (ts_secondary s) else {#})"

text \<open>\<open>earliest t M\<close>: the task \<open>t\<close> is in \<open>M\<close> and greater than none of \<open>M\<close>.\<close>

definition earliest :: "'c DelayedTask \<Rightarrow> 'c DelayedTask multiset \<Rightarrow> bool" where
  "earliest t M \<longleftrightarrow> t \<in># M \<and> (\<forall>u \<in># M. \<not> DelayedTask_gt t u)"

subsection \<open>The order of tasks\<close>

definition task_key :: "'c DelayedTask \<Rightarrow> TimePoint \<times> size_t" where
  "task_key t = (dt_target_time t, dt_order t)"

lemma DelayedTask_gt_key: "DelayedTask_gt t u \<longleftrightarrow> task_key u < task_key t"
  by (auto simp: DelayedTask_gt_def task_key_def less_prod_def)

lemma DelayedTask_gt_irrefl [simp]: "\<not> DelayedTask_gt t t"
  by (simp add: DelayedTask_gt_key)

lemma DelayedTask_gt_asym: "DelayedTask_gt t u \<Longrightarrow> \<not> DelayedTask_gt u t"
  by (simp add: DelayedTask_gt_key)

lemma not_DelayedTask_gt_trans:
  "\<not> DelayedTask_gt t u \<Longrightarrow> \<not> DelayedTask_gt u v \<Longrightarrow> \<not> DelayedTask_gt t v"
  by (simp add: DelayedTask_gt_key)

lemma earliest_key: "earliest t M \<longleftrightarrow> t \<in># M \<and> (\<forall>u \<in># M. task_key t \<le> task_key u)"
  by (auto simp: earliest_def DelayedTask_gt_key not_less)

lemma earliest_target_time: "earliest t M \<Longrightarrow> u \<in># M \<Longrightarrow> dt_target_time t \<le> dt_target_time u"
  by (auto simp: earliest_key task_key_def less_eq_prod_def)

subsection \<open>What a task source relies on: heaps\<close>

locale task_heap =
  fixes push :: "'t \<Rightarrow> 'q \<Rightarrow> 'q"
    and top :: "'q \<Rightarrow> 't outcome"
    and pop :: "'q \<Rightarrow> 'q outcome"
    and elems :: "'q \<Rightarrow> 't multiset"
    and gt :: "'t \<Rightarrow> 't \<Rightarrow> bool"
    and invar :: "'q \<Rightarrow> bool"
  assumes elems_push: "invar q \<Longrightarrow> elems (push t q) = add_mset t (elems q)"
    and invar_push: "invar q \<Longrightarrow> invar (push t q)"
    and top_defined: "invar q \<Longrightarrow> elems q \<noteq> {#} \<Longrightarrow> \<exists>t. top q = Inr t"
    and top_in: "invar q \<Longrightarrow> top q = Inr t \<Longrightarrow> t \<in># elems q"
    and top_least: "invar q \<Longrightarrow> top q = Inr t \<Longrightarrow> u \<in># elems q \<Longrightarrow> \<not> gt t u"
    and pop_top: "invar q \<Longrightarrow> top q = Inr t \<Longrightarrow>
      \<exists>q'. pop q = Inr q' \<and> invar q' \<and> elems q' = elems q - {#t#}"
begin

text \<open>Successive pops deliver the elements in ascending order.\<close>

lemma pops_ascending:
  assumes "invar q" "top q = Inr t" "pop q = Inr q'" "top q' = Inr t'"
  shows "\<not> gt t t'"
proof -
  from pop_top [OF assms(1,2)] assms(3) have "invar q'" "elems q' = elems q - {#t#}"
    by auto
  with top_in [of q' t'] assms(4) have "t' \<in># elems q" by (auto dest: in_diffD)
  with assms(1,2) show ?thesis by (blast dest: top_least)
qed

lemma push_then_top_least:
  assumes "invar q" "top (push t q) = Inr t'"
  shows "\<not> gt t' t \<and> (\<forall>u \<in># elems q. \<not> gt t' u)"
  using top_least [OF invar_push [OF assms(1)] assms(2)] assms(1) by (simp add: elems_push)

end

lemma set_pq_push [simp]: "set (pq_push t q) = insert t (set q)"
  by (induction q) auto

lemma mset_pq_push [simp]: "mset (pq_push t q) = add_mset t (mset q)"
  by (induction q) auto

lemma heap_sorted_pq_push [simp]: "heap_sorted q \<Longrightarrow> heap_sorted (pq_push t q)"
  by (induction q) (auto simp: DelayedTask_gt_key not_less)

lemma pq_top_eq_Inr [simp]: "pq_top q = Inr t \<longleftrightarrow> (\<exists>r. q = t # r)"
  by (cases q) auto

lemma pq_pop_eq_Inr [simp]: "pq_pop q = Inr r \<longleftrightarrow> (\<exists>t. q = t # r)"
  by (cases q) auto

interpretation hp: task_heap pq_push pq_top pq_pop mset DelayedTask_gt heap_sorted
proof unfold_locales
  fix q :: "'a DelayedTaskQueue" and t u
  show "heap_sorted q \<Longrightarrow> pq_top q = Inr t \<Longrightarrow> u \<in># mset q \<Longrightarrow> \<not> DelayedTask_gt t u"
    by (auto simp: DelayedTask_gt_asym)
  show "heap_sorted q \<Longrightarrow> mset q \<noteq> {#} \<Longrightarrow> \<exists>t. pq_top q = Inr t"
    by (cases q) auto
qed auto

subsection \<open>The task source\<close>

lemmas source_defs = source_ok_def source_tasks_def available_def grade_heap_def

lemma source_ok_new [simp]: "source_ok (TaskSource_new q)"
  by (simp add: source_ok_def TaskSource_new_def INT_MAX_def)

lemma available_new [simp]: "available (TaskSource_new q) = {#}"
  by (simp add: available_def TaskSource_new_def)

lemma source_ok_ShutDown [simp]: "source_ok s \<Longrightarrow> source_ok (TaskSource_ShutDown s)"
  by (simp add: source_ok_def TaskSource_ShutDown_def)

lemma source_tasks_ShutDown [simp]: "source_tasks (TaskSource_ShutDown s) = {#}"
  by (simp add: source_tasks_def TaskSource_ShutDown_def)

lemma available_ShutDown [simp]: "available (TaskSource_ShutDown s) = {#}"
  by (simp add: available_def TaskSource_ShutDown_def)

lemma source_ok_RegisterTask [simp]: "source_ok s \<Longrightarrow> source_ok (TaskSource_RegisterTask t s)"
  by (cases "dt_grade t") (auto simp: source_defs TaskSource_RegisterTask_def)

lemma source_tasks_RegisterTask [simp]:
  "source_tasks (TaskSource_RegisterTask t s) = add_mset t (source_tasks s)"
  by (cases "dt_grade t") (auto simp: source_tasks_def TaskSource_RegisterTask_def)

lemma available_RegisterTask:
  "available (TaskSource_RegisterTask t s) =
     (if grade_heap (dt_grade t) = Primary \<or> ts_pause_requests s = 0
      then add_mset t (available s) else available s)"
  by (cases "dt_grade t") (auto simp: available_def TaskSource_RegisterTask_def grade_heap_def)

lemma RegisterTask_frame [simp]:
  "ts_task_queue_id (TaskSource_RegisterTask t s) = ts_task_queue_id s"
  "ts_pause_requests (TaskSource_RegisterTask t s) = ts_pause_requests s"
  by (cases "dt_grade t"; simp add: TaskSource_RegisterTask_def)+

lemma ShutDown_frame [simp]:
  "ts_task_queue_id (TaskSource_ShutDown s) = ts_task_queue_id s"
  "ts_pause_requests (TaskSource_ShutDown s) = ts_pause_requests s"
  by (simp_all add: TaskSource_ShutDown_def)

lemma new_frame [simp]: "ts_task_queue_id (TaskSource_new q) = q"
  by (simp add: TaskSource_new_def)

lemma GetNumPendingTasks_available: "TaskSource_GetNumPendingTasks s = size (available s)"
  by (simp add: TaskSource_GetNumPendingTasks_def available_def)

lemma IsEmpty_available: "TaskSource_IsEmpty s \<longleftrightarrow> available s = {#}"
  by (simp add: TaskSource_IsEmpty_def GetNumPendingTasks_available)

text \<open>The top of a source: what the reference reads is the front of the heap it designates, it
  is the earliest of the tasks on offer, and the heap is the one its grade pops.\<close>

definition top_of :: "'c TopTask \<Rightarrow> 'c TaskSource \<Rightarrow> bool" where
  "top_of tt s \<longleftrightarrow> tt_task_queue_id tt = ts_task_queue_id s \<and>
     (\<exists>r. source_heap (tt_heap tt) s = tt_task tt # r) \<and>
     grade_heap (dt_grade (tt_task tt)) = tt_heap tt \<and>
     earliest (tt_task tt) (available s)"

lemma Top_empty: "TaskSource_IsEmpty s \<Longrightarrow> TaskSource_Top s = Inl Check_Failed"
  by (simp add: TaskSource_Top_def)

lemma Top_primary:
  assumes "source_ok s" "ts_pause_requests s > 0 \<or> ts_secondary s = []" "ts_primary s = t # r"
  shows "TaskSource_Top s = Inr \<lparr>tt_task_queue_id = ts_task_queue_id s, tt_heap = Primary, tt_task = t\<rparr> \<and>
    earliest t (available s)"
proof -
  have "available s = mset (ts_primary s)"
    using assms(2) by (auto simp: available_def)
  moreover have "\<not> TaskSource_IsEmpty s"
    using assms(3) by (simp add: IsEmpty_available available_def)
  ultimately show ?thesis
    using assms by (auto simp: TaskSource_Top_def earliest_def source_ok_def)
qed

lemma Top_secondary:
  assumes "source_ok s" "ts_pause_requests s = 0" "ts_secondary s = t # r" "ts_primary s = []"
  shows "TaskSource_Top s = Inr \<lparr>tt_task_queue_id = ts_task_queue_id s, tt_heap = Secondary, tt_task = t\<rparr> \<and>
    earliest t (available s)"
proof -
  have "available s = mset (ts_secondary s)"
    using assms(2,4) by (auto simp: available_def)
  moreover have "\<not> TaskSource_IsEmpty s"
    using assms(2,3) by (simp add: IsEmpty_available available_def)
  ultimately show ?thesis
    using assms by (auto simp: TaskSource_Top_def earliest_def source_ok_def)
qed

lemma Top_both:
  assumes "source_ok s" "ts_pause_requests s = 0" "ts_secondary s = u # v" "ts_primary s = t # r"
  shows "TaskSource_Top s =
      Inr (if DelayedTask_gt t u
           then \<lparr>tt_task_queue_id = ts_task_queue_id s, tt_heap = Secondary, tt_task = u\<rparr>
           else \<lparr>tt_task_queue_id = ts_task_queue_id s, tt_heap = Primary, tt_task = t\<rparr>) \<and>
    earliest (if DelayedTask_gt t u then u else t) (available s)"
proof -
  have "available s = mset (ts_primary s) + mset (ts_secondary s)"
    using assms(2) by (simp add: available_def)
  moreover have "\<not> TaskSource_IsEmpty s"
    using assms(4) by (simp add: IsEmpty_available available_def)
  moreover have "heap_sorted (t # r)" "heap_sorted (u # v)"
    using assms by (simp_all add: source_ok_def)
  ultimately show ?thesis
    using assms by (auto simp: TaskSource_Top_def earliest_key DelayedTask_gt_key not_less
        dest: order.trans order.strict_implies_order)
qed

lemma Top_top_of:
  assumes "source_ok s" and "\<not> TaskSource_IsEmpty s"
  obtains tt where "TaskSource_Top s = Inr tt" and "top_of tt s"
proof -
  have nonneg: "ts_pause_requests s \<ge> 0"
    using assms(1) by (simp add: source_ok_def)
  have "available s \<noteq> {#}" using assms(2) by (simp add: IsEmpty_available)
  then consider
      (prim) t r where "ts_pause_requests s > 0 \<or> ts_secondary s = []" "ts_primary s = t # r"
    | (sec) t r where "ts_pause_requests s = 0" "ts_secondary s = t # r" "ts_primary s = []"
    | (both) t r u v where "ts_pause_requests s = 0" "ts_secondary s = u # v" "ts_primary s = t # r"
    using nonneg
    by (cases "ts_primary s"; cases "ts_secondary s"; cases "ts_pause_requests s = 0")
      (auto simp: available_def)
  then show ?thesis
  proof cases
    case prim
    with assms(1) Top_primary [OF assms(1) prim] show ?thesis
      by (intro that) (auto simp: top_of_def source_heap_def source_ok_def)
  next
    case sec
    with assms(1) Top_secondary [OF assms(1) sec] show ?thesis
      by (intro that) (auto simp: top_of_def source_heap_def source_ok_def)
  next
    case both
    with assms(1) Top_both [OF assms(1) both] show ?thesis
      by (intro that) (auto simp: top_of_def source_heap_def source_ok_def)
  qed
qed

lemma Top_eq_Inr: "source_ok s \<Longrightarrow> TaskSource_Top s = Inr tt \<Longrightarrow> top_of tt s"
  by (cases "TaskSource_IsEmpty s") (auto simp: Top_empty elim: Top_top_of)

text \<open>Popping by the grade of the top removes exactly the top.\<close>

lemma PopTask_top:
  assumes "source_ok s" and "top_of tt s"
  obtains s' where "TaskSource_PopTask (dt_grade (tt_task tt)) s = Inr s'"
    and "source_ok s'" and "source_heap (tt_heap tt) s = tt_task tt # source_heap (tt_heap tt) s'"
    and "available s' = available s - {#tt_task tt#}"
    and "source_tasks s' = source_tasks s - {#tt_task tt#}"
    and "ts_task_queue_id s' = ts_task_queue_id s"
    and "ts_pause_requests s' = ts_pause_requests s"
proof -
  obtain r where r: "source_heap (tt_heap tt) s = tt_task tt # r"
    and g: "grade_heap (dt_grade (tt_task tt)) = tt_heap tt"
    and e: "tt_task tt \<in># available s"
    using assms(2) by (auto simp: top_of_def earliest_def)
  show ?thesis
  proof (cases "tt_heap tt")
    case Primary
    with r g assms(1) show ?thesis
      by (intro that [of "s\<lparr>ts_primary := r\<rparr>"]; cases "dt_grade (tt_task tt)")
        (auto simp: TaskSource_PopTask_def source_heap_def source_defs split: if_splits)
  next
    case Secondary
    with r g e assms(1) show ?thesis
      by (intro that [of "s\<lparr>ts_secondary := r\<rparr>"]; cases "dt_grade (tt_task tt)")
        (auto simp: TaskSource_PopTask_def source_heap_def source_defs split: if_splits)
  qed
qed

end
