(* ===== verification/Task_Queues.thy ===== *)
theory Task_Queues
  imports Task_Source
begin

section \<open>The task queues shared by all message loops\<close>

text \<open>
  \<open>app/src/main/cpp/message_loop_task_queues.{h,cc}\<close>: the singleton that owns every task queue,
  merges and unmerges them, and wakes the loops. Every public operation holds \<open>queue_mutex_\<close> for
  its whole body, so each is one atomic step here, a function from the state to the new state and
  the returned value, or a fault. \<open>queue_entries_\<close> is only looked up and updated by key and is a
  partial map; the \<open>std::set\<close> of owned queues and the \<open>std::map\<close> of observers are iterated, and
  are ascending lists. The calls to \<open>Wakeable::WakeUp\<close> are recorded in the order they happen.

  \<open>tls_task_source_grade\<close> is a thread-local pointer: one cell per thread, absent until the thread
  sets it. A cell read through a dangling reference is \<open>Indeterminate\<close>.
\<close>

subsection \<open>State\<close>

type_synonym thread_id = nat
type_synonym Wakeable = nat

record 'c TaskQueueEntry =
  te_wakeable :: "Wakeable option"
  te_task_observers :: "(int \<times> 'c closure) list"
  te_task_source :: "'c TaskSource"
  te_owner_of :: "TaskQueueId list"
  te_subsumed_by :: TaskQueueId
  te_created_for :: TaskQueueId

datatype grade_cell = Grade TaskSourceGrade | Indeterminate

record 'c MessageLoopTaskQueues =
  queue_entries :: "TaskQueueId \<rightharpoonup> 'c TaskQueueEntry"
  task_queue_id_counter :: size_t
  order_counter :: "32 word"
  tls_task_source_grade :: "thread_id \<rightharpoonup> grade_cell"
  wakeups :: "(Wakeable \<times> TimePoint) list"

definition TaskQueueEntry_new :: "TaskQueueId \<Rightarrow> 'c TaskQueueEntry" where
  "TaskQueueEntry_new created_for =
     \<lparr>te_wakeable = None, te_task_observers = [], te_task_source = TaskSource_new created_for,
      te_owner_of = [], te_subsumed_by = kUnmerged, te_created_for = created_for\<rparr>"

text \<open>The constructor runs once, on the thread that first calls \<open>GetInstance\<close>, and sets the
  grade of that thread only.\<close>

definition MessageLoopTaskQueues_new :: "thread_id \<Rightarrow> 'c MessageLoopTaskQueues" where
  "MessageLoopTaskQueues_new tid =
     \<lparr>queue_entries = Map.empty, task_queue_id_counter = 0, order_counter = 0,
      tls_task_source_grade = [tid \<mapsto> Grade kUnspecified], wakeups = []\<rparr>"

abbreviation entry_at :: "'c MessageLoopTaskQueues \<Rightarrow> TaskQueueId \<Rightarrow> 'c TaskQueueEntry outcome" where
  "entry_at q i \<equiv> map_at (queue_entries q) i"

text \<open>A write through \<open>queue_entries_.at(id)\<close>.\<close>

definition update_entry ::
  "TaskQueueId \<Rightarrow> ('c TaskQueueEntry \<Rightarrow> 'c TaskQueueEntry) \<Rightarrow> 'c MessageLoopTaskQueues \<Rightarrow>
   'c MessageLoopTaskQueues outcome" where
  "update_entry i f q =
     obind (entry_at q i) (\<lambda>e. Inr (q\<lparr>queue_entries := (queue_entries q)(i \<mapsto> f e)\<rparr>))"

definition update_source ::
  "TaskQueueId \<Rightarrow> ('c TaskSource \<Rightarrow> 'c TaskSource outcome) \<Rightarrow> 'c MessageLoopTaskQueues \<Rightarrow>
   'c MessageLoopTaskQueues outcome" where
  "update_source i f q =
     obind (entry_at q i) (\<lambda>e.
     obind (f (te_task_source e)) (\<lambda>s.
     Inr (q\<lparr>queue_entries := (queue_entries q)(i \<mapsto> e\<lparr>te_task_source := s\<rparr>)\<rparr>)))"

subsection \<open>Creating and disposing queues\<close>

definition MessageLoopTaskQueues_CreateTaskQueue ::
  "'c MessageLoopTaskQueues \<Rightarrow> 'c MessageLoopTaskQueues \<times> TaskQueueId" where
  "MessageLoopTaskQueues_CreateTaskQueue q =
     (let loop_id = task_queue_id_counter q
      in (q\<lparr>task_queue_id_counter := task_queue_id_counter q + 1,
            queue_entries := (queue_entries q)(loop_id \<mapsto> TaskQueueEntry_new loop_id)\<rparr>,
          loop_id))"

definition erase_entry :: "TaskQueueId \<Rightarrow> 'c MessageLoopTaskQueues \<Rightarrow> 'c MessageLoopTaskQueues" where
  "erase_entry i q = q\<lparr>queue_entries := (queue_entries q)(i := None)\<rparr>"

definition MessageLoopTaskQueues_Dispose ::
  "TaskQueueId \<Rightarrow> 'c MessageLoopTaskQueues \<Rightarrow> 'c MessageLoopTaskQueues outcome" where
  "MessageLoopTaskQueues_Dispose queue_id q =
     obind (entry_at q queue_id) (\<lambda>queue_entry.
     obind (check (te_subsumed_by queue_entry = kUnmerged)) (\<lambda>_.
     Inr (erase_entry queue_id (fold erase_entry (te_owner_of queue_entry) q))))"

definition MessageLoopTaskQueues_DisposeTasks ::
  "TaskQueueId \<Rightarrow> 'c MessageLoopTaskQueues \<Rightarrow> 'c MessageLoopTaskQueues outcome" where
  "MessageLoopTaskQueues_DisposeTasks queue_id q =
     obind (entry_at q queue_id) (\<lambda>queue_entry.
     obind (check (te_subsumed_by queue_entry = kUnmerged)) (\<lambda>_.
     obind (update_source queue_id (\<lambda>s. Inr (TaskSource_ShutDown s)) q) (\<lambda>q'.
     ofold (\<lambda>subsumed. update_source subsumed (\<lambda>s. Inr (TaskSource_ShutDown s)))
       (te_owner_of queue_entry) q')))"

text \<open>\<open>GetCurrentTaskSourceGrade\<close> dereferences the thread's pointer without a test.\<close>

definition MessageLoopTaskQueues_GetCurrentTaskSourceGrade ::
  "thread_id \<Rightarrow> 'c MessageLoopTaskQueues \<Rightarrow> grade_cell outcome" where
  "MessageLoopTaskQueues_GetCurrentTaskSourceGrade tid q =
     (case tls_task_source_grade q tid of None \<Rightarrow> Inl Undefined_Behaviour | Some g \<Rightarrow> Inr g)"

subsection \<open>Pending tasks\<close>

fun any_source_pending :: "'c MessageLoopTaskQueues \<Rightarrow> TaskQueueId list \<Rightarrow> bool outcome" where
  "any_source_pending q [] = Inr False"
| "any_source_pending q (subsumed # rest) =
     obind (entry_at q subsumed) (\<lambda>e.
     if \<not> TaskSource_IsEmpty (te_task_source e) then Inr True else any_source_pending q rest)"

definition HasPendingTasksUnlocked :: "'c MessageLoopTaskQueues \<Rightarrow> TaskQueueId \<Rightarrow> bool outcome" where
  "HasPendingTasksUnlocked q queue_id =
     obind (entry_at q queue_id) (\<lambda>entry.
     if te_subsumed_by entry \<noteq> kUnmerged then Inr False
     else if \<not> TaskSource_IsEmpty (te_task_source entry) then Inr True
     else any_source_pending q (te_owner_of entry))"

definition MessageLoopTaskQueues_HasPendingTasks ::
  "'c MessageLoopTaskQueues \<Rightarrow> TaskQueueId \<Rightarrow> bool outcome" where
  "MessageLoopTaskQueues_HasPendingTasks q queue_id = HasPendingTasksUnlocked q queue_id"

definition top_task_updater :: "'c TaskSource \<Rightarrow> 'c TopTask option \<Rightarrow> 'c TopTask option outcome" where
  "top_task_updater source top_task =
     (if \<not> TaskSource_IsEmpty source then
        obind (TaskSource_Top source) (\<lambda>other_task.
        Inr (case top_task of
               None \<Rightarrow> Some other_task
             | Some t \<Rightarrow> if DelayedTask_gt (tt_task t) (tt_task other_task) then Some other_task
                         else Some t))
      else Inr top_task)"

definition PeekNextTaskUnlocked :: "'c MessageLoopTaskQueues \<Rightarrow> TaskQueueId \<Rightarrow> 'c TopTask outcome" where
  "PeekNextTaskUnlocked q owner =
     obind (HasPendingTasksUnlocked q owner) (\<lambda>pending.
     obind (check pending) (\<lambda>_.
     obind (entry_at q owner) (\<lambda>entry.
     if te_owner_of entry = [] then
       obind (check (\<not> TaskSource_IsEmpty (te_task_source entry))) (\<lambda>_.
       TaskSource_Top (te_task_source entry))
     else
       obind (top_task_updater (te_task_source entry) None) (\<lambda>t0.
       obind (ofold (\<lambda>subsumed t. obind (entry_at q subsumed) (\<lambda>e. top_task_updater (te_task_source e) t))
                (te_owner_of entry) t0) (\<lambda>top_task.
       obind (check (top_task \<noteq> None)) (\<lambda>_. Inr (the top_task)))))))"

definition GetNextWakeTimeUnlocked :: "'c MessageLoopTaskQueues \<Rightarrow> TaskQueueId \<Rightarrow> TimePoint outcome" where
  "GetNextWakeTimeUnlocked q queue_id =
     obind (PeekNextTaskUnlocked q queue_id) (\<lambda>t. Inr (dt_target_time (tt_task t)))"

definition WakeUpUnlocked ::
  "TaskQueueId \<Rightarrow> TimePoint \<Rightarrow> 'c MessageLoopTaskQueues \<Rightarrow> 'c MessageLoopTaskQueues outcome" where
  "WakeUpUnlocked queue_id time q =
     obind (entry_at q queue_id) (\<lambda>e.
     case te_wakeable e of
       None \<Rightarrow> Inr q
     | Some w \<Rightarrow> Inr (q\<lparr>wakeups := wakeups q @ [(w, time)]\<rparr>))"

text \<open>The idiom \<open>if (HasPendingTasksUnlocked(id)) WakeUpUnlocked(id, GetNextWakeTimeUnlocked(id))\<close>
  that registering, merging, unmerging and resuming end with.\<close>

definition wake_if_pending ::
  "TaskQueueId \<Rightarrow> 'c MessageLoopTaskQueues \<Rightarrow> 'c MessageLoopTaskQueues outcome" where
  "wake_if_pending i q =
     obind (HasPendingTasksUnlocked q i) (\<lambda>pending.
     if pending then obind (GetNextWakeTimeUnlocked q i) (\<lambda>t. WakeUpUnlocked i t q) else Inr q)"

text \<open>\<open>size_t order = order_++\<close>: the atomic \<open>int\<close> wraps, and its value is sign-extended.\<close>

definition order_value :: "32 word \<Rightarrow> size_t" where
  "order_value n = scast n"

definition MessageLoopTaskQueues_RegisterTask ::
  "TaskQueueId \<Rightarrow> 'c closure \<Rightarrow> TimePoint \<Rightarrow> TaskSourceGrade \<Rightarrow> 'c MessageLoopTaskQueues \<Rightarrow>
   'c MessageLoopTaskQueues outcome" where
  "MessageLoopTaskQueues_RegisterTask queue_id task target_time grade q =
     (let order = order_value (order_counter q);
          q1 = q\<lparr>order_counter := order_counter q + 1\<rparr>;
          t = \<lparr>dt_order = order, dt_task = task, dt_target_time = target_time, dt_grade = grade\<rparr>
      in obind (entry_at q1 queue_id) (\<lambda>queue_entry.
         obind (update_source queue_id (\<lambda>s. Inr (TaskSource_RegisterTask t s)) q1) (\<lambda>q2.
         let loop_to_wake = (if te_subsumed_by queue_entry \<noteq> kUnmerged then te_subsumed_by queue_entry
                             else queue_id)
         in wake_if_pending loop_to_wake q2)))"

text \<open>What a read of \<open>top.task\<close> sees after \<open>PopTask\<close>: \<open>top.task\<close> is a reference to the first
  element of a \<open>std::deque\<close>, \<open>pop\<close> reorders the elements so that the first one is the new
  top, and only the erased last element is gone. So the reference reads the \<^emph>\<open>next\<close> task of the
  heap, and dangles when there is none.\<close>

definition reference_after_pop :: "heap_kind \<Rightarrow> 'c TaskSource \<Rightarrow> grade_cell" where
  "reference_after_pop k s =
     (case source_heap k s of [] \<Rightarrow> Indeterminate | t # _ \<Rightarrow> Grade (dt_grade t))"

definition MessageLoopTaskQueues_GetNextTaskToRun ::
  "thread_id \<Rightarrow> TaskQueueId \<Rightarrow> TimePoint \<Rightarrow> 'c MessageLoopTaskQueues \<Rightarrow>
   ('c MessageLoopTaskQueues \<times> 'c closure) outcome" where
  "MessageLoopTaskQueues_GetNextTaskToRun tid queue_id from_time q =
     obind (HasPendingTasksUnlocked q queue_id) (\<lambda>pending.
     if \<not> pending then Inr (q, None)
     else
       obind (PeekNextTaskUnlocked q queue_id) (\<lambda>top.
       obind (HasPendingTasksUnlocked q queue_id) (\<lambda>still_pending.
       obind (if \<not> still_pending then WakeUpUnlocked queue_id TimePoint_Max q
              else obind (GetNextWakeTimeUnlocked q queue_id) (\<lambda>t. WakeUpUnlocked queue_id t q)) (\<lambda>q1.
       if dt_target_time (tt_task top) > from_time then Inr (q1, None)
       else
         let invocation = dt_task (tt_task top)
         in obind (update_source (tt_task_queue_id top) (TaskSource_PopTask (dt_grade (tt_task top))) q1) (\<lambda>q2.
            obind (entry_at q2 (tt_task_queue_id top)) (\<lambda>e.
            Inr (q2\<lparr>tls_task_source_grade := (tls_task_source_grade q2)
                      (tid \<mapsto> reference_after_pop (tt_heap top) (te_task_source e))\<rparr>,
                 invocation)))))))"

fun count_sources :: "'c MessageLoopTaskQueues \<Rightarrow> TaskQueueId list \<Rightarrow> nat \<Rightarrow> nat outcome" where
  "count_sources q [] n = Inr n"
| "count_sources q (subsumed # rest) n =
     obind (entry_at q subsumed) (\<lambda>e.
     count_sources q rest (n + TaskSource_GetNumPendingTasks (te_task_source e)))"

definition MessageLoopTaskQueues_GetNumPendingTasks ::
  "'c MessageLoopTaskQueues \<Rightarrow> TaskQueueId \<Rightarrow> nat outcome" where
  "MessageLoopTaskQueues_GetNumPendingTasks q queue_id =
     obind (entry_at q queue_id) (\<lambda>queue_entry.
     if te_subsumed_by queue_entry \<noteq> kUnmerged then Inr 0
     else count_sources q (te_owner_of queue_entry)
            (TaskSource_GetNumPendingTasks (te_task_source queue_entry)))"

subsection \<open>Observers and wakeables\<close>

definition MessageLoopTaskQueues_AddTaskObserver ::
  "TaskQueueId \<Rightarrow> int \<Rightarrow> 'c closure \<Rightarrow> 'c MessageLoopTaskQueues \<Rightarrow> 'c MessageLoopTaskQueues outcome" where
  "MessageLoopTaskQueues_AddTaskObserver queue_id key callback q =
     obind (check (callback \<noteq> None)) (\<lambda>_.
     update_entry queue_id
       (\<lambda>e. e\<lparr>te_task_observers := omap_insert key callback (te_task_observers e)\<rparr>) q)"

definition MessageLoopTaskQueues_RemoveTaskObserver ::
  "TaskQueueId \<Rightarrow> int \<Rightarrow> 'c MessageLoopTaskQueues \<Rightarrow> 'c MessageLoopTaskQueues outcome" where
  "MessageLoopTaskQueues_RemoveTaskObserver queue_id key q =
     update_entry queue_id (\<lambda>e. e\<lparr>te_task_observers := omap_erase key (te_task_observers e)\<rparr>) q"

definition MessageLoopTaskQueues_GetObserversToNotify ::
  "'c MessageLoopTaskQueues \<Rightarrow> TaskQueueId \<Rightarrow> 'c closure list outcome" where
  "MessageLoopTaskQueues_GetObserversToNotify q queue_id =
     obind (entry_at q queue_id) (\<lambda>e.
     if te_subsumed_by e \<noteq> kUnmerged then Inr []
     else ofold (\<lambda>subsumed observers. obind (entry_at q subsumed) (\<lambda>e'.
              Inr (observers @ map snd (te_task_observers e'))))
            (te_owner_of e) (map snd (te_task_observers e)))"

definition MessageLoopTaskQueues_SetWakeable ::
  "TaskQueueId \<Rightarrow> Wakeable option \<Rightarrow> 'c MessageLoopTaskQueues \<Rightarrow> 'c MessageLoopTaskQueues outcome" where
  "MessageLoopTaskQueues_SetWakeable queue_id wakeable q =
     obind (entry_at q queue_id) (\<lambda>e.
     obind (check (te_wakeable e = None)) (\<lambda>_.
     update_entry queue_id (\<lambda>e. e\<lparr>te_wakeable := wakeable\<rparr>) q))"

subsection \<open>Merging and unmerging\<close>

definition MessageLoopTaskQueues_Merge ::
  "TaskQueueId \<Rightarrow> TaskQueueId \<Rightarrow> 'c MessageLoopTaskQueues \<Rightarrow> ('c MessageLoopTaskQueues \<times> bool) outcome" where
  "MessageLoopTaskQueues_Merge owner subsumed q =
     (if owner = subsumed then Inr (q, True)
      else
        obind (entry_at q owner) (\<lambda>owner_entry.
        obind (entry_at q subsumed) (\<lambda>subsumed_entry.
        if subsumed \<in> set (te_owner_of owner_entry) then Inr (q, True)
        else if te_subsumed_by owner_entry \<noteq> kUnmerged then Inr (q, False)
        else if te_owner_of subsumed_entry \<noteq> [] then Inr (q, False)
        else if te_subsumed_by subsumed_entry \<noteq> kUnmerged then Inr (q, False)
        else
          obind (update_entry owner (\<lambda>e. e\<lparr>te_owner_of := oset_insert subsumed (te_owner_of e)\<rparr>) q) (\<lambda>q1.
          obind (update_entry subsumed (\<lambda>e. e\<lparr>te_subsumed_by := owner\<rparr>) q1) (\<lambda>q2.
          obind (wake_if_pending owner q2) (\<lambda>q3. Inr (q3, True)))))))"

definition MessageLoopTaskQueues_Unmerge ::
  "TaskQueueId \<Rightarrow> TaskQueueId \<Rightarrow> 'c MessageLoopTaskQueues \<Rightarrow> ('c MessageLoopTaskQueues \<times> bool) outcome" where
  "MessageLoopTaskQueues_Unmerge owner subsumed q =
     obind (entry_at q owner) (\<lambda>owner_entry.
     if te_owner_of owner_entry = [] then Inr (q, False)
     else if te_subsumed_by owner_entry \<noteq> kUnmerged then Inr (q, False)
     else
       obind (entry_at q subsumed) (\<lambda>subsumed_entry.
       if te_subsumed_by subsumed_entry = kUnmerged then Inr (q, False)
       else if subsumed \<notin> set (te_owner_of owner_entry) then Inr (q, False)
       else
         obind (update_entry subsumed (\<lambda>e. e\<lparr>te_subsumed_by := kUnmerged\<rparr>) q) (\<lambda>q1.
         obind (update_entry owner (\<lambda>e. e\<lparr>te_owner_of := oset_erase subsumed (te_owner_of e)\<rparr>) q1) (\<lambda>q2.
         obind (wake_if_pending owner q2) (\<lambda>q3.
         obind (wake_if_pending subsumed q3) (\<lambda>q4. Inr (q4, True)))))))"

definition MessageLoopTaskQueues_Owns ::
  "'c MessageLoopTaskQueues \<Rightarrow> TaskQueueId \<Rightarrow> TaskQueueId \<Rightarrow> bool outcome" where
  "MessageLoopTaskQueues_Owns q owner subsumed =
     (if owner = kUnmerged \<or> subsumed = kUnmerged then Inr False
      else obind (entry_at q owner) (\<lambda>e. Inr (subsumed \<in> set (te_owner_of e))))"

definition MessageLoopTaskQueues_GetSubsumedTaskQueueId ::
  "'c MessageLoopTaskQueues \<Rightarrow> TaskQueueId \<Rightarrow> TaskQueueId list outcome" where
  "MessageLoopTaskQueues_GetSubsumedTaskQueueId q owner =
     obind (entry_at q owner) (\<lambda>e. Inr (te_owner_of e))"

definition MessageLoopTaskQueues_PauseSecondarySource ::
  "TaskQueueId \<Rightarrow> 'c MessageLoopTaskQueues \<Rightarrow> 'c MessageLoopTaskQueues outcome" where
  "MessageLoopTaskQueues_PauseSecondarySource queue_id q =
     update_source queue_id TaskSource_PauseSecondary q"

definition MessageLoopTaskQueues_ResumeSecondarySource ::
  "TaskQueueId \<Rightarrow> 'c MessageLoopTaskQueues \<Rightarrow> 'c MessageLoopTaskQueues outcome" where
  "MessageLoopTaskQueues_ResumeSecondarySource queue_id q =
     obind (update_source queue_id TaskSource_ResumeSecondary q) (wake_if_pending queue_id)"

end
