(* ===== verification/Task_Queue_Laws.thy ===== *)
theory Task_Queue_Laws
  imports Task_Queues
begin

section \<open>Laws of the task queues\<close>

text \<open>
  The well-formedness invariant of the task queues, its preservation by every operation, and what
  each operation does on every branch. The merge state of the queues is abstracted to a graph
  (who owns whom), on which merging and unmerging are specified; the tasks a loop can see are
  abstracted to one multiset, \<open>pending\<close>, on which registering, peeking and popping are specified.
\<close>

subsection \<open>Specification: the merge graph and the pending tasks\<close>

type_synonym merge_graph = "TaskQueueId \<rightharpoonup> (TaskQueueId list \<times> TaskQueueId)"

definition graph_of :: "'c MessageLoopTaskQueues \<Rightarrow> merge_graph" where
  "graph_of q = (\<lambda>i. map_option (\<lambda>e. (te_owner_of e, te_subsumed_by e)) (queue_entries q i))"

text \<open>A queue's \<open>owner_of\<close> is exactly the set of the queues that name it in \<open>subsumed_by\<close>; a
  subsumed queue owns nothing and names a queue that exists.\<close>

definition owned_by :: "merge_graph \<Rightarrow> TaskQueueId \<Rightarrow> TaskQueueId set" where
  "owned_by g i = {s. \<exists>os. g s = Some (os, i)}"

definition graph_ok :: "merge_graph \<Rightarrow> bool" where
  "graph_ok g \<longleftrightarrow>
     (\<forall>i os b. g i = Some (os, b) \<longrightarrow>
        i \<noteq> kUnmerged \<and> oset os \<and> set os = owned_by g i \<and>
        (b \<noteq> kUnmerged \<longrightarrow> os = [] \<and> g b \<noteq> None))"

definition entry_ok :: "TaskQueueId \<Rightarrow> 'c TaskQueueEntry \<Rightarrow> bool" where
  "entry_ok i e \<longleftrightarrow> te_created_for e = i \<and> ts_task_queue_id (te_task_source e) = i \<and>
     source_ok (te_task_source e) \<and> omap (te_task_observers e)"

definition queues_ok :: "'c MessageLoopTaskQueues \<Rightarrow> bool" where
  "queues_ok q \<longleftrightarrow> graph_ok (graph_of q) \<and>
     (\<forall>i e. queue_entries q i = Some e \<longrightarrow> i < task_queue_id_counter q \<and> entry_ok i e)"

definition available_at :: "'c MessageLoopTaskQueues \<Rightarrow> TaskQueueId \<Rightarrow> 'c DelayedTask multiset" where
  "available_at q i =
     (case queue_entries q i of None \<Rightarrow> {#} | Some e \<Rightarrow> available (te_task_source e))"

definition pending :: "'c MessageLoopTaskQueues \<Rightarrow> TaskQueueId \<Rightarrow> 'c DelayedTask multiset" where
  "pending q i =
     (case queue_entries q i of
        None \<Rightarrow> {#}
      | Some e \<Rightarrow> if te_subsumed_by e \<noteq> kUnmerged then {#}
                  else available (te_task_source e) + (\<Sum>s \<leftarrow> te_owner_of e. available_at q s))"

definition next_time :: "'c MessageLoopTaskQueues \<Rightarrow> TaskQueueId \<Rightarrow> TimePoint" where
  "next_time q i = Min (dt_target_time ` set_mset (pending q i))"

text \<open>The wake-up that the queue \<open>i\<close> is due: at the time of its earliest pending task, if it has
  one, and if a loop is attached.\<close>

definition due_wakeup :: "'c MessageLoopTaskQueues \<Rightarrow> TaskQueueId \<Rightarrow> (Wakeable \<times> TimePoint) list" where
  "due_wakeup q i =
     (case queue_entries q i of
        None \<Rightarrow> []
      | Some e \<Rightarrow> (case te_wakeable e of
            None \<Rightarrow> []
          | Some w \<Rightarrow> if pending q i = {#} then [] else [(w, next_time q i)]))"

subsection \<open>Reading the invariant\<close>

lemma queues_okD:
  assumes "queues_ok q" and "queue_entries q i = Some e"
  shows "i < task_queue_id_counter q" and "i \<noteq> kUnmerged" and "te_created_for e = i"
    and "ts_task_queue_id (te_task_source e) = i" and "source_ok (te_task_source e)"
    and "omap (te_task_observers e)" and "oset (te_owner_of e)"
    and "te_subsumed_by e \<noteq> kUnmerged \<Longrightarrow> te_owner_of e = []"
proof -
  have "graph_of q i = Some (te_owner_of e, te_subsumed_by e)"
    using assms(2) by (simp add: graph_of_def)
  with assms show "i \<noteq> kUnmerged" "oset (te_owner_of e)"
    "te_subsumed_by e \<noteq> kUnmerged \<Longrightarrow> te_owner_of e = []"
    unfolding queues_ok_def graph_ok_def by blast+
  from assms show "i < task_queue_id_counter q" "te_created_for e = i"
    "ts_task_queue_id (te_task_source e) = i" "source_ok (te_task_source e)"
    "omap (te_task_observers e)"
    unfolding queues_ok_def entry_ok_def by blast+
qed

lemma owned_entry:
  assumes "queues_ok q" and "queue_entries q i = Some e" and "s \<in> set (te_owner_of e)"
  obtains e' where "queue_entries q s = Some e'" and "te_subsumed_by e' = i"
    and "te_owner_of e' = []" and "s \<noteq> i"
proof -
  have g: "graph_of q i = Some (te_owner_of e, te_subsumed_by e)"
    using assms(2) by (simp add: graph_of_def)
  have ok: "graph_ok (graph_of q)" using assms(1) by (simp add: queues_ok_def)
  from ok [unfolded graph_ok_def, rule_format, OF g] assms(3) obtain os'
    where "graph_of q s = Some (os', i)" by (auto simp: owned_by_def)
  then obtain e' where e': "queue_entries q s = Some e'" "te_subsumed_by e' = i"
    by (auto simp: graph_of_def)
  have "i \<noteq> kUnmerged" using assms(1,2) by (rule queues_okD)
  with e' have o: "te_owner_of e' = []" using queues_okD(8) [OF assms(1) e'(1)] by simp
  with assms(2,3) e'(1) have "s \<noteq> i" by auto
  with e' o show ?thesis by (rule that)
qed

lemma owner_entry:
  assumes "queues_ok q" and "queue_entries q i = Some e" and "te_subsumed_by e \<noteq> kUnmerged"
  obtains e' where "queue_entries q (te_subsumed_by e) = Some e'" and "i \<in> set (te_owner_of e')"
    and "te_subsumed_by e' = kUnmerged"
proof -
  have g: "graph_of q i = Some (te_owner_of e, te_subsumed_by e)"
    using assms(2) by (simp add: graph_of_def)
  have ok: "graph_ok (graph_of q)" using assms(1) by (simp add: queues_ok_def)
  from ok [unfolded graph_ok_def, rule_format, OF g] assms(3) obtain e'
    where e': "queue_entries q (te_subsumed_by e) = Some e'" by (auto simp: graph_of_def)
  then have "graph_of q (te_subsumed_by e) = Some (te_owner_of e', te_subsumed_by e')"
    by (simp add: graph_of_def)
  from ok [unfolded graph_ok_def, rule_format, OF this] g have "i \<in> set (te_owner_of e')"
    by (auto simp: owned_by_def)
  note e' = e' this
  moreover have "te_subsumed_by e' = kUnmerged"
    using queues_okD(8) [OF assms(1) e'(1)] e'(2) by force
  ultimately show ?thesis by (rule that)
qed

subsection \<open>Looking at the pending tasks\<close>

lemma available_at_Some: "queue_entries q i = Some e \<Longrightarrow> available_at q i = available (te_task_source e)"
  by (simp add: available_at_def)

lemma any_source_pending_eq:
  assumes "\<And>s. s \<in> set xs \<Longrightarrow> queue_entries q s \<noteq> None"
  shows "any_source_pending q xs = Inr ((\<Sum>s \<leftarrow> xs. available_at q s) \<noteq> {#})"
  using assms
proof (induction xs)
  case (Cons s xs)
  then obtain e where "queue_entries q s = Some e" by fastforce
  with Cons show ?case by (simp add: IsEmpty_available available_at_Some)
qed simp

lemma count_sources_eq:
  assumes "\<And>s. s \<in> set xs \<Longrightarrow> queue_entries q s \<noteq> None"
  shows "count_sources q xs n = Inr (n + size (\<Sum>s \<leftarrow> xs. available_at q s))"
  using assms
proof (induction xs arbitrary: n)
  case (Cons s xs)
  then obtain e where "queue_entries q s = Some e" by fastforce
  with Cons show ?case by (simp add: GetNumPendingTasks_available available_at_Some)
qed simp

lemma owned_present:
  "queues_ok q \<Longrightarrow> queue_entries q i = Some e \<Longrightarrow> s \<in> set (te_owner_of e) \<Longrightarrow> queue_entries q s \<noteq> None"
  by (elim owned_entry) auto

lemma HasPendingTasksUnlocked_eq:
  assumes "queues_ok q" and "queue_entries q i = Some e"
  shows "HasPendingTasksUnlocked q i = Inr (pending q i \<noteq> {#})"
  using assms any_source_pending_eq [of "te_owner_of e" q] owned_present [OF assms]
  by (auto simp: HasPendingTasksUnlocked_def pending_def IsEmpty_available)

lemma GetNumPendingTasks_eq:
  assumes "queues_ok q" and "queue_entries q i = Some e"
  shows "MessageLoopTaskQueues_GetNumPendingTasks q i = Inr (size (pending q i))"
  using assms count_sources_eq [of "te_owner_of e" q] owned_present [OF assms]
  by (auto simp: MessageLoopTaskQueues_GetNumPendingTasks_def pending_def GetNumPendingTasks_available)

text \<open>A candidate for the next task: none if \<open>M\<close> is empty, else the earliest of \<open>M\<close>, at the
  front of a heap of a queue among \<open>ids\<close>.\<close>

definition candidate ::
  "'c MessageLoopTaskQueues \<Rightarrow> TaskQueueId set \<Rightarrow> 'c DelayedTask multiset \<Rightarrow> 'c TopTask option \<Rightarrow> bool" where
  "candidate q ids M c \<longleftrightarrow>
     (case c of
        None \<Rightarrow> M = {#}
      | Some tt \<Rightarrow> earliest (tt_task tt) M \<and> tt_task_queue_id tt \<in> ids \<and>
          (\<exists>e. queue_entries q (tt_task_queue_id tt) = Some e \<and> top_of tt (te_task_source e)))"

lemma top_task_updater_candidate:
  assumes q: "queues_ok q" "queue_entries q s = Some e" and c: "candidate q ids M c"
  obtains c' where "top_task_updater (te_task_source e) c = Inr c'"
    and "candidate q (insert s ids) (M + available_at q s) c'"
proof (cases "TaskSource_IsEmpty (te_task_source e)")
  case True
  then have "available_at q s = {#}" using q(2) by (simp add: available_at_Some IsEmpty_available)
  with True c show ?thesis
    by (intro that [of c]) (auto simp: top_task_updater_def candidate_def split: option.splits)
next
  case False
  have ok: "source_ok (te_task_source e)" using q by (rule queues_okD)
  from Top_top_of [OF this False] obtain tt
    where tt: "TaskSource_Top (te_task_source e) = Inr tt" "top_of tt (te_task_source e)" .
  have id: "tt_task_queue_id tt = s" using tt(2) queues_okD(4) [OF q] by (simp add: top_of_def)
  have e: "earliest (tt_task tt) (available_at q s)"
    using tt(2) q(2) by (simp add: top_of_def available_at_Some)
  show ?thesis
  proof (cases c)
    case None
    with c have "M = {#}" by (simp add: candidate_def)
    with None False tt e id q(2) show ?thesis
      by (intro that [of "Some tt"]) (auto simp: top_task_updater_def candidate_def)
  next
    case (Some t)
    let ?c = "Some (if DelayedTask_gt (tt_task t) (tt_task tt) then tt else t)"
    have "top_task_updater (te_task_source e) c = Inr ?c"
      using Some False tt(1) by (simp add: top_task_updater_def)
    moreover have "candidate q (insert s ids) (M + available_at q s) ?c"
    proof (cases "DelayedTask_gt (tt_task t) (tt_task tt)")
      case True
      then show ?thesis using Some c e id tt(2) q(2)
        by (auto simp: candidate_def earliest_key DelayedTask_gt_key dest: less_imp_le order.trans)
    next
      case False
      then show ?thesis using Some c e
        by (auto simp: candidate_def earliest_key DelayedTask_gt_key not_less dest: order.trans)
    qed
    ultimately show ?thesis by (rule that)
  qed
qed

lemma top_task_updater_fold:
  assumes "queues_ok q" and "\<And>s. s \<in> set xs \<Longrightarrow> queue_entries q s \<noteq> None"
    and "candidate q ids M c"
  obtains c' where
    "ofold (\<lambda>s t. obind (entry_at q s) (\<lambda>e. top_task_updater (te_task_source e) t)) xs c = Inr c'"
    and "candidate q (ids \<union> set xs) (M + (\<Sum>s \<leftarrow> xs. available_at q s)) c'"
  using assms(2,3)
proof (induction xs arbitrary: ids M c thesis)
  case Nil
  then show ?case by simp
next
  case (Cons s xs)
  from Cons.prems(2) [of s] obtain e where e: "queue_entries q s = Some e" by auto
  from top_task_updater_candidate [OF assms(1) e Cons.prems(3)] obtain c1 where
    c1: "top_task_updater (te_task_source e) c = Inr c1"
    "candidate q (insert s ids) (M + available_at q s) c1" .
  have present: "\<And>u. u \<in> set xs \<Longrightarrow> queue_entries q u \<noteq> None" using Cons.prems(2) by simp
  from Cons.IH [OF _ present c1(2)] obtain c2 where
    "ofold (\<lambda>s t. obind (entry_at q s) (\<lambda>e. top_task_updater (te_task_source e) t)) xs c1 = Inr c2"
    "candidate q (insert s ids \<union> set xs)
       (M + available_at q s + (\<Sum>s \<leftarrow> xs. available_at q s)) c2"
    by blast
  with e c1(1) show ?case
    by (intro Cons.prems(1) [of c2]) (simp_all add: add.assoc)
qed

lemma PeekNextTaskUnlocked_eq:
  assumes q: "queues_ok q" "queue_entries q i = Some e" and p: "pending q i \<noteq> {#}"
  obtains tt es where "PeekNextTaskUnlocked q i = Inr tt"
    and "earliest (tt_task tt) (pending q i)"
    and "tt_task_queue_id tt \<in> insert i (set (te_owner_of e))"
    and "queue_entries q (tt_task_queue_id tt) = Some es" and "top_of tt (te_task_source es)"
proof -
  have hp: "HasPendingTasksUnlocked q i = Inr True"
    using HasPendingTasksUnlocked_eq [OF q] p by simp
  have unm: "te_subsumed_by e = kUnmerged"
    using q(2) p by (auto simp: pending_def split: if_splits)
  then have pend: "pending q i = available_at q i + (\<Sum>s \<leftarrow> te_owner_of e. available_at q s)"
    using q(2) by (simp add: pending_def available_at_Some)
  show ?thesis
  proof (cases "te_owner_of e = []")
    case True
    then have ne: "\<not> TaskSource_IsEmpty (te_task_source e)"
      using p pend q(2) by (simp add: IsEmpty_available available_at_Some)
    from Top_top_of [OF queues_okD(5) [OF q] this] obtain tt
      where tt: "TaskSource_Top (te_task_source e) = Inr tt" "top_of tt (te_task_source e)" .
    with hp ne q True pend show ?thesis
      by (intro that [of tt e])
        (simp_all add: PeekNextTaskUnlocked_def top_of_def available_at_Some queues_okD(4) [OF q])
  next
    case False
    have "candidate q {} {#} None" by (simp add: candidate_def)
    from top_task_updater_candidate [OF q this] obtain c1 where
      c1: "top_task_updater (te_task_source e) None = Inr c1" "candidate q {i} (available_at q i) c1"
      by auto
    from top_task_updater_fold [OF q(1) owned_present [OF q] c1(2)] obtain c2 where
      c2: "ofold (\<lambda>s t. obind (entry_at q s) (\<lambda>e. top_task_updater (te_task_source e) t))
             (te_owner_of e) c1 = Inr c2"
      "candidate q ({i} \<union> set (te_owner_of e)) (pending q i) c2"
      unfolding pend by blast
    then obtain tt es where tt: "c2 = Some tt" "earliest (tt_task tt) (pending q i)"
      "tt_task_queue_id tt \<in> {i} \<union> set (te_owner_of e)"
      "queue_entries q (tt_task_queue_id tt) = Some es" "top_of tt (te_task_source es)"
      using p by (cases c2) (auto simp: candidate_def)
    have "PeekNextTaskUnlocked q i = Inr tt"
      using c2(1) c1(1) hp q(2) False tt(1) by (simp add: PeekNextTaskUnlocked_def)
    with tt(2-5) show ?thesis by (intro that [of tt es]) simp_all
  qed
qed

lemma earliest_next_time:
  "earliest t (pending q i) \<Longrightarrow> dt_target_time t = next_time q i"
  unfolding next_time_def
  by (rule sym, rule Min_eqI) (auto simp: earliest_def dest: earliest_target_time [rotated]
      intro: earliest_target_time simp: earliest_key)

subsection \<open>Frame: fields the invariant does not read\<close>

lemma entries_cong:
  assumes "queue_entries q = queue_entries q'"
  shows "graph_of q = graph_of q'" and "available_at q = available_at q'"
    and "pending q = pending q'" and "next_time q = next_time q'" and "due_wakeup q = due_wakeup q'"
proof -
  show "graph_of q = graph_of q'" using assms by (simp add: graph_of_def)
  show av: "available_at q = available_at q'" using assms by (simp add: available_at_def fun_eq_iff)
  show p: "pending q = pending q'" unfolding pending_def [abs_def] assms av ..
  show n: "next_time q = next_time q'" using p by (simp add: next_time_def fun_eq_iff)
  show "due_wakeup q = due_wakeup q'" unfolding due_wakeup_def [abs_def] assms p n ..
qed

lemma queues_ok_cong:
  "queue_entries q = queue_entries q' \<Longrightarrow> task_queue_id_counter q = task_queue_id_counter q' \<Longrightarrow>
   queues_ok q = queues_ok q'"
  using entries_cong(1) [of q q'] by (simp add: queues_ok_def)

lemma queues_frame [simp]:
  "queues_ok (q\<lparr>wakeups := w\<rparr>) = queues_ok q"
  "queues_ok (q\<lparr>tls_task_source_grade := g\<rparr>) = queues_ok q"
  "queues_ok (q\<lparr>order_counter := n\<rparr>) = queues_ok q"
  "pending (q\<lparr>wakeups := w\<rparr>) = pending q"
  "pending (q\<lparr>tls_task_source_grade := g\<rparr>) = pending q"
  "pending (q\<lparr>order_counter := n\<rparr>) = pending q"
  "graph_of (q\<lparr>wakeups := w\<rparr>) = graph_of q"
  "graph_of (q\<lparr>tls_task_source_grade := g\<rparr>) = graph_of q"
  "graph_of (q\<lparr>order_counter := n\<rparr>) = graph_of q"
  "due_wakeup (q\<lparr>wakeups := w\<rparr>) = due_wakeup q"
  "due_wakeup (q\<lparr>order_counter := n\<rparr>) = due_wakeup q"
  by (auto intro!: queues_ok_cong entries_cong)

lemma wake_if_pending_eq:
  assumes "queues_ok q" and "queue_entries q i = Some e"
  shows "wake_if_pending i q = Inr (q\<lparr>wakeups := wakeups q @ due_wakeup q i\<rparr>)"
proof (cases "pending q i = {#}")
  case True
  with assms show ?thesis
    by (simp add: wake_if_pending_def HasPendingTasksUnlocked_eq due_wakeup_def split: option.splits)
next
  case False
  from PeekNextTaskUnlocked_eq [OF assms False] obtain tt es where
    "PeekNextTaskUnlocked q i = Inr tt" "earliest (tt_task tt) (pending q i)" by blast
  with assms False show ?thesis
    by (simp add: wake_if_pending_def HasPendingTasksUnlocked_eq due_wakeup_def WakeUpUnlocked_def
        GetNextWakeTimeUnlocked_def earliest_next_time split: option.splits)
qed

subsection \<open>Updating one source\<close>

lemma sum_list_update_none: "j \<notin> set xs \<Longrightarrow> sum_list (map (f(j := v)) xs) = sum_list (map f xs)"
  by (rule arg_cong [where f = sum_list]) auto

lemma sum_list_update_one:
  fixes f :: "'a \<Rightarrow> 'b::comm_monoid_add"
  assumes "distinct xs" and "j \<in> set xs"
  shows "sum_list (map (f(j := v)) xs) + f j = sum_list (map f xs) + v"
  using assms
proof (induction xs)
  case (Cons x xs)
  show ?case
  proof (cases "x = j")
    case True
    with Cons.prems have "sum_list (map (f(j := v)) xs) = sum_list (map f xs)"
      by (intro sum_list_update_none) simp
    with True show ?thesis
      by (simp add: ac_simps del: fun_upd_apply) (simp only: fun_upd_same ac_simps)
  next
    case False
    with Cons have "sum_list (map (f(j := v)) xs) + f j = sum_list (map f xs) + v"
      by (simp del: fun_upd_apply)
    with False show ?thesis by (simp add: add.assoc del: fun_upd_apply) simp
  qed
qed simp

lemma update_source_eq:
  assumes "queue_entries q j = Some e" and "f (te_task_source e) = Inr s"
  shows "update_source j f q =
    Inr (q\<lparr>queue_entries := (queue_entries q)(j \<mapsto> e\<lparr>te_task_source := s\<rparr>)\<rparr>)"
  using assms by (simp add: update_source_def)

lemma graph_of_source_update:
  "queue_entries q j = Some e \<Longrightarrow>
   graph_of (q\<lparr>queue_entries := (queue_entries q)(j \<mapsto> e\<lparr>te_task_source := s\<rparr>)\<rparr>) = graph_of q"
  by (auto simp: graph_of_def)

lemma queues_ok_source_update:
  assumes "queues_ok q" and "queue_entries q j = Some e"
    and "source_ok s" and "ts_task_queue_id s = j"
  shows "queues_ok (q\<lparr>queue_entries := (queue_entries q)(j \<mapsto> e\<lparr>te_task_source := s\<rparr>)\<rparr>)"
  using assms by (auto simp: queues_ok_def graph_of_source_update entry_ok_def)

lemma available_at_source_update:
  "available_at (q\<lparr>queue_entries := (queue_entries q)(j \<mapsto> e\<lparr>te_task_source := s\<rparr>)\<rparr>) =
     (available_at q)(j := available s)"
  by (auto simp: available_at_def)

lemma pending_source_update:
  fixes q :: "'c MessageLoopTaskQueues" and s :: "'c TaskSource"
  assumes q: "queues_ok q" "queue_entries q i = Some e" "te_subsumed_by e = kUnmerged"
    and j: "queue_entries q j = Some ej" "j \<in> insert i (set (te_owner_of e))"
  defines "q' \<equiv> q\<lparr>queue_entries := (queue_entries q)(j \<mapsto> ej\<lparr>te_task_source := s\<rparr>)\<rparr>"
  shows "pending q' i + available (te_task_source ej) = pending q i + available s"
proof (cases "j = i")
  case True
  have "i \<notin> set (te_owner_of e)" using owned_entry [OF q(1,2), of i] by auto
  with True q j show ?thesis
    by (auto simp: pending_def q'_def available_at_source_update sum_list_update_none)
next
  case False
  then have "j \<in> set (te_owner_of e)" using j(2) by simp
  moreover have "distinct (te_owner_of e)" using queues_okD(7) [OF q(1,2)] by (simp add: oset_def)
  ultimately have "sum_list (map ((available_at q)(j := available s)) (te_owner_of e)) + available_at q j =
      sum_list (map (available_at q) (te_owner_of e)) + available s"
    by (rule sum_list_update_one [rotated])
  with False q j show ?thesis
    by (auto simp: pending_def q'_def available_at_source_update available_at_Some ac_simps)
qed

lemma pending_source_other:
  assumes q: "queues_ok q" "queue_entries q i = Some e" and j: "queue_entries q j = Some ej"
    and "j \<notin> insert i (set (te_owner_of e))"
  shows "pending (q\<lparr>queue_entries := (queue_entries q)(j \<mapsto> ej\<lparr>te_task_source := s\<rparr>)\<rparr>) i = pending q i"
  using assms by (auto simp: pending_def available_at_source_update sum_list_update_none)

subsection \<open>Taking the next task\<close>

text \<open>What \<open>GetNextTaskToRun\<close> does when a task is due: it takes the task \<open>t\<close> out of the queue
  \<open>j\<close>, from the heap of \<open>t\<close>'s grade, and sets the grade cell of the calling thread.\<close>

lemma GetNextTaskToRun_none:
  assumes "queues_ok q" and "queue_entries q i = Some e" and "pending q i = {#}"
  shows "MessageLoopTaskQueues_GetNextTaskToRun tid i now q = Inr (q, None)"
  using assms by (simp add: MessageLoopTaskQueues_GetNextTaskToRun_def HasPendingTasksUnlocked_eq)

lemma wake_before_pop:
  assumes "queues_ok q" and "queue_entries q i = Some e" and "pending q i \<noteq> {#}"
  shows "obind (GetNextWakeTimeUnlocked q i) (\<lambda>t. WakeUpUnlocked i t q) =
    Inr (q\<lparr>wakeups := wakeups q @ due_wakeup q i\<rparr>)"
  using wake_if_pending_eq [OF assms(1,2)] assms by (simp add: wake_if_pending_def HasPendingTasksUnlocked_eq)

lemma GetNextTaskToRun_later:
  assumes "queues_ok q" and "queue_entries q i = Some e" and "pending q i \<noteq> {#}"
    and "now < next_time q i"
  shows "MessageLoopTaskQueues_GetNextTaskToRun tid i now q =
    Inr (q\<lparr>wakeups := wakeups q @ due_wakeup q i\<rparr>, None)"
proof -
  from PeekNextTaskUnlocked_eq [OF assms(1-3)] obtain tt es where
    "PeekNextTaskUnlocked q i = Inr tt" "earliest (tt_task tt) (pending q i)" by blast
  with assms show ?thesis
    by (simp add: MessageLoopTaskQueues_GetNextTaskToRun_def HasPendingTasksUnlocked_eq
        wake_before_pop earliest_next_time)
qed

lemma GetNextTaskToRun_due:
  assumes q: "queues_ok q" "queue_entries q i = Some e" and p: "pending q i \<noteq> {#}"
    and now: "next_time q i \<le> now"
  obtains t j ej s where "earliest t (pending q i)" and "j \<in> insert i (set (te_owner_of e))"
    and "queue_entries q j = Some ej" and "source_ok s" and "ts_task_queue_id s = j"
    and "source_heap (grade_heap (dt_grade t)) (te_task_source ej) =
      t # source_heap (grade_heap (dt_grade t)) s"
    and "available s = available (te_task_source ej) - {#t#}"
    and "source_tasks s = source_tasks (te_task_source ej) - {#t#}"
    and "t \<in># available (te_task_source ej)"
    and "MessageLoopTaskQueues_GetNextTaskToRun tid i now q =
      Inr (q\<lparr>queue_entries := (queue_entries q)(j \<mapsto> ej\<lparr>te_task_source := s\<rparr>),
             tls_task_source_grade := (tls_task_source_grade q)
               (tid \<mapsto> reference_after_pop (grade_heap (dt_grade t)) s),
             wakeups := wakeups q @ due_wakeup q i\<rparr>, dt_task t)"
proof -
  from PeekNextTaskUnlocked_eq [OF q p] obtain tt ej where
    tt: "PeekNextTaskUnlocked q i = Inr tt" "earliest (tt_task tt) (pending q i)"
    "tt_task_queue_id tt \<in> insert i (set (te_owner_of e))"
    "queue_entries q (tt_task_queue_id tt) = Some ej" "top_of tt (te_task_source ej)" .
  let ?j = "tt_task_queue_id tt" and ?t = "tt_task tt"
  have heap: "tt_heap tt = grade_heap (dt_grade ?t)" and av: "?t \<in># available (te_task_source ej)"
    using tt(5) by (simp_all add: top_of_def earliest_def)
  from PopTask_top [OF queues_okD(5) [OF q(1) tt(4)] tt(5)] obtain s where
    s: "TaskSource_PopTask (dt_grade ?t) (te_task_source ej) = Inr s" "source_ok s"
    "source_heap (tt_heap tt) (te_task_source ej) = ?t # source_heap (tt_heap tt) s"
    "available s = available (te_task_source ej) - {#?t#}"
    "source_tasks s = source_tasks (te_task_source ej) - {#?t#}"
    "ts_task_queue_id s = ts_task_queue_id (te_task_source ej)" .
  have "\<not> dt_target_time ?t > now" using earliest_next_time [OF tt(2)] now by simp
  then have "MessageLoopTaskQueues_GetNextTaskToRun tid i now q =
      Inr (q\<lparr>queue_entries := (queue_entries q)(?j \<mapsto> ej\<lparr>te_task_source := s\<rparr>),
             tls_task_source_grade := (tls_task_source_grade q)
               (tid \<mapsto> reference_after_pop (grade_heap (dt_grade ?t)) s),
             wakeups := wakeups q @ due_wakeup q i\<rparr>, dt_task ?t)"
    using q p tt(1,4) s(1) heap
    by (simp add: MessageLoopTaskQueues_GetNextTaskToRun_def HasPendingTasksUnlocked_eq wake_before_pop
        update_source_def)
  moreover have "ts_task_queue_id s = ?j" using s(6) queues_okD(4) [OF q(1) tt(4)] by simp
  ultimately show ?thesis using tt(2-4) s(2-5) av by (intro that [of ?t ?j ej s]) (simp_all add: heap)
qed

subsection \<open>The merge graph: specification of merging, unmerging and disposing\<close>

definition graph_merge :: "TaskQueueId \<Rightarrow> TaskQueueId \<Rightarrow> merge_graph \<Rightarrow> merge_graph" where
  "graph_merge owner subsumed g =
     (case (g owner, g subsumed) of
        (Some (os, b), Some (os', b')) \<Rightarrow>
          g(owner \<mapsto> (oset_insert subsumed os, b), subsumed \<mapsto> (os', owner))
      | _ \<Rightarrow> g)"

definition graph_unmerge :: "TaskQueueId \<Rightarrow> TaskQueueId \<Rightarrow> merge_graph \<Rightarrow> merge_graph" where
  "graph_unmerge owner subsumed g =
     (case (g owner, g subsumed) of
        (Some (os, b), Some (os', b')) \<Rightarrow>
          g(subsumed \<mapsto> (os', kUnmerged), owner \<mapsto> (oset_erase subsumed os, b))
      | _ \<Rightarrow> g)"

lemma graph_okD:
  assumes "graph_ok g" and "g i = Some (os, b)"
  shows "i \<noteq> kUnmerged" and "oset os" and "set os = owned_by g i"
    and "b \<noteq> kUnmerged \<Longrightarrow> os = []" and "b \<noteq> kUnmerged \<Longrightarrow> g b \<noteq> None"
  using assms unfolding graph_ok_def by blast+

lemma graph_okI:
  assumes "\<And>i os b. g i = Some (os, b) \<Longrightarrow>
    i \<noteq> kUnmerged \<and> oset os \<and> set os = owned_by g i \<and> (b \<noteq> kUnmerged \<longrightarrow> os = [] \<and> g b \<noteq> None)"
  shows "graph_ok g"
  unfolding graph_ok_def using assms by blast

lemma owned_by_update:
  "owned_by (g(j \<mapsto> (os, b))) i = (if i = b then insert j (owned_by g i) else owned_by g i - {j})"
  by (auto simp: owned_by_def)

lemma owned_by_unmerged: "g j = Some (os, kUnmerged) \<Longrightarrow> i \<noteq> kUnmerged \<Longrightarrow> j \<notin> owned_by g i"
  by (auto simp: owned_by_def)

lemma graph_ok_create:
  assumes g: "graph_ok g" and n: "n \<noteq> kUnmerged" "g n = None"
  shows "graph_ok (g(n \<mapsto> ([], kUnmerged)))"
proof (rule graph_okI)
  fix i os b assume i: "(g(n \<mapsto> ([], kUnmerged))) i = Some (os, b)"
  have none: "owned_by g n = {}"
    using n by (auto simp: owned_by_def dest!: graph_okD(5) [OF g])
  have "n \<notin> owned_by g i" using n(2) by (simp add: owned_by_def)
  with i none n show "i \<noteq> kUnmerged \<and> oset os \<and> set os = owned_by (g(n \<mapsto> ([], kUnmerged))) i \<and>
      (b \<noteq> kUnmerged \<longrightarrow> os = [] \<and> (g(n \<mapsto> ([], kUnmerged))) b \<noteq> None)"
    by (auto simp: owned_by_update dest: graph_okD [OF g] split: if_splits)
qed

lemma graph_ok_merge:
  assumes g: "graph_ok g" and o: "g owner = Some (os, kUnmerged)" and s: "g sub = Some ([], kUnmerged)"
    and ne: "owner \<noteq> sub"
  shows "graph_ok (graph_merge owner sub g)"
proof -
  let ?g = "g(owner \<mapsto> (oset_insert sub os, kUnmerged), sub \<mapsto> ([], owner))"
  have "graph_ok ?g"
  proof (rule graph_okI)
    fix i os' b assume i: "?g i = Some (os', b)"
    have iu: "i \<noteq> kUnmerged" and oU: "owner \<noteq> kUnmerged"
      using i graph_okD(1) [OF g] o s by (auto split: if_splits)
    have owned: "owned_by ?g i = (if i = owner then insert sub (owned_by g i) else owned_by g i)"
      using iu ne owned_by_unmerged [of g, OF o iu] owned_by_unmerged [of g, OF s iu]
      by (auto simp: owned_by_update)
    have "owned_by g sub = {}" using graph_okD(3) [OF g s] by simp
    then show "i \<noteq> kUnmerged \<and> oset os' \<and> set os' = owned_by ?g i \<and>
        (b \<noteq> kUnmerged \<longrightarrow> os' = [] \<and> ?g b \<noteq> None)"
      using i iu oU ne o s unfolding owned
      by (auto split: if_splits simp: graph_okD(2,3) [OF g] dest: graph_okD(4,5) [OF g])
  qed
  then show ?thesis using o s by (simp add: graph_merge_def)
qed

lemma graph_ok_unmerge:
  assumes g: "graph_ok g" and o: "g owner = Some (os, kUnmerged)" and s: "sub \<in> set os"
  shows "graph_ok (graph_unmerge owner sub g)"
proof -
  obtain os' where s': "g sub = Some (os', owner)"
    using graph_okD(3) [OF g o] s by (auto simp: owned_by_def)
  have oU: "owner \<noteq> kUnmerged" using graph_okD(1) [OF g o] .
  then have os': "os' = []" using graph_okD(4) [OF g s'] by simp
  have ne: "owner \<noteq> sub" using o s' oU by auto
  let ?g = "g(sub \<mapsto> ([], kUnmerged), owner \<mapsto> (oset_erase sub os, kUnmerged))"
  have "graph_ok ?g"
  proof (rule graph_okI)
    fix i os2 b assume i: "?g i = Some (os2, b)"
    have iu: "i \<noteq> kUnmerged" using i graph_okD(1) [OF g] o s' by (auto split: if_splits)
    have owned: "owned_by ?g i = owned_by g i - {sub}"
      using iu owned_by_unmerged [of g, OF o iu] by (auto simp: owned_by_update)
    have "i \<noteq> owner \<Longrightarrow> sub \<notin> owned_by g i" using s' by (simp add: owned_by_def)
    moreover have "owned_by g sub = {}" using graph_okD(3) [OF g s'] os' by simp
    ultimately show "i \<noteq> kUnmerged \<and> oset os2 \<and> set os2 = owned_by ?g i \<and>
        (b \<noteq> kUnmerged \<longrightarrow> os2 = [] \<and> ?g b \<noteq> None)"
      using i iu oU ne o s' os' unfolding owned
      by (auto split: if_splits simp: graph_okD(2,3) [OF g] dest: graph_okD(4,5) [OF g])
  qed
  then show ?thesis using o s' os' by (simp add: graph_unmerge_def)
qed

lemma graph_ok_dispose:
  assumes g: "graph_ok g" and o: "g owner = Some (os, kUnmerged)"
  shows "graph_ok (\<lambda>i. if i = owner \<or> i \<in> set os then None else g i)"
proof (rule graph_okI)
  let ?g = "\<lambda>i. if i = owner \<or> i \<in> set os then None else g i"
  fix i os' b assume i': "?g i = Some (os', b)"
  then have i: "g i = Some (os', b)" "i \<noteq> owner" "i \<notin> set os" by (auto split: if_splits)
  have iu: "i \<noteq> kUnmerged" using graph_okD(1) [OF g i(1)] .
  have os: "x \<in> set os \<longleftrightarrow> (\<exists>ys. g x = Some (ys, owner))" for x
    using graph_okD(3) [OF g o] by (simp add: owned_by_def)
  have "owned_by ?g i = owned_by g i"
    using i(2) iu o by (auto simp: owned_by_def os)
  moreover have "?g b \<noteq> None" if "b \<noteq> kUnmerged"
  proof -
    from graph_okD(5) [OF g i(1) that] obtain os2 b2 where b: "g b = Some (os2, b2)" by auto
    have "b \<noteq> owner" using i(1,3) os by auto
    moreover have "b \<notin> set os"
    proof
      assume "b \<in> set os"
      then have "b2 \<noteq> kUnmerged" using b os [of b] graph_okD(1) [OF g o] by auto
      then have "os2 = []" using graph_okD(4) [OF g b] by simp
      moreover have "i \<in> set os2" using i(1) graph_okD(3) [OF g b] by (auto simp: owned_by_def)
      ultimately show False by simp
    qed
    ultimately show ?thesis using b by simp
  qed
  ultimately show "i \<noteq> kUnmerged \<and> oset os' \<and> set os' = owned_by ?g i \<and>
      (b \<noteq> kUnmerged \<longrightarrow> os' = [] \<and> ?g b \<noteq> None)"
    using iu graph_okD(2,3,4) [OF g i(1)] by blast
qed

subsection \<open>Merging and unmerging\<close>

lemma update_entry_eq:
  "queue_entries q i = Some e \<Longrightarrow>
   update_entry i f q = Inr (q\<lparr>queue_entries := (queue_entries q)(i \<mapsto> f e)\<rparr>)"
  by (simp add: update_entry_def)

text \<open>The entries after a successful merge, before the owner is woken.\<close>

definition merged :: "TaskQueueId \<Rightarrow> TaskQueueId \<Rightarrow> 'c TaskQueueEntry \<Rightarrow> 'c TaskQueueEntry \<Rightarrow>
    'c MessageLoopTaskQueues \<Rightarrow> 'c MessageLoopTaskQueues" where
  "merged owner sub eo es q = q\<lparr>queue_entries := (queue_entries q)
     (owner \<mapsto> eo\<lparr>te_owner_of := oset_insert sub (te_owner_of eo)\<rparr>,
      sub \<mapsto> es\<lparr>te_subsumed_by := owner\<rparr>)\<rparr>"

definition unmerged :: "TaskQueueId \<Rightarrow> TaskQueueId \<Rightarrow> 'c TaskQueueEntry \<Rightarrow> 'c TaskQueueEntry \<Rightarrow>
    'c MessageLoopTaskQueues \<Rightarrow> 'c MessageLoopTaskQueues" where
  "unmerged owner sub eo es q = q\<lparr>queue_entries := (queue_entries q)
     (sub \<mapsto> es\<lparr>te_subsumed_by := kUnmerged\<rparr>,
      owner \<mapsto> eo\<lparr>te_owner_of := oset_erase sub (te_owner_of eo)\<rparr>)\<rparr>"

definition mergeable :: "TaskQueueId \<Rightarrow> TaskQueueId \<Rightarrow> 'c TaskQueueEntry \<Rightarrow> 'c TaskQueueEntry \<Rightarrow> bool" where
  "mergeable owner sub eo es \<longleftrightarrow> owner \<noteq> sub \<and> sub \<notin> set (te_owner_of eo) \<and>
     te_subsumed_by eo = kUnmerged \<and> te_owner_of es = [] \<and> te_subsumed_by es = kUnmerged"

lemma graph_of_merged:
  assumes "queue_entries q owner = Some eo" and "queue_entries q sub = Some es" and "owner \<noteq> sub"
  shows "graph_of (merged owner sub eo es q) = graph_merge owner sub (graph_of q)"
  using assms by (auto simp: merged_def graph_of_def graph_merge_def)

lemma graph_of_unmerged:
  assumes "queue_entries q owner = Some eo" and "queue_entries q sub = Some es" and "owner \<noteq> sub"
  shows "graph_of (unmerged owner sub eo es q) = graph_unmerge owner sub (graph_of q)"
  using assms by (auto simp: unmerged_def graph_of_def graph_unmerge_def)

lemma queues_ok_merged:
  assumes q: "queues_ok q" "queue_entries q owner = Some eo" "queue_entries q sub = Some es"
    and m: "mergeable owner sub eo es"
  shows "queues_ok (merged owner sub eo es q)"
proof -
  have "graph_ok (graph_of (merged owner sub eo es q))"
    using q m graph_ok_merge [of "graph_of q" owner "te_owner_of eo" sub]
    by (simp add: graph_of_merged mergeable_def queues_ok_def) (simp add: graph_of_def)
  with q m show ?thesis
    by (auto simp: queues_ok_def merged_def entry_ok_def)
qed

lemma queues_ok_unmerged:
  assumes q: "queues_ok q" "queue_entries q owner = Some eo" "queue_entries q sub = Some es"
    and m: "te_subsumed_by eo = kUnmerged" "sub \<in> set (te_owner_of eo)"
  shows "queues_ok (unmerged owner sub eo es q)"
proof -
  have ne: "owner \<noteq> sub" using owned_entry [OF q(1,2) m(2)] by metis
  have "graph_ok (graph_of (unmerged owner sub eo es q))"
    using q m ne graph_ok_unmerge [of "graph_of q" owner "te_owner_of eo" sub]
    by (simp add: graph_of_unmerged queues_ok_def) (simp add: graph_of_def)
  with q show ?thesis
    by (auto simp: queues_ok_def unmerged_def entry_ok_def)
qed

lemma Merge_refused:
  assumes "queue_entries q owner = Some eo" and "queue_entries q sub = Some es"
    and "\<not> mergeable owner sub eo es"
  shows "MessageLoopTaskQueues_Merge owner sub q =
    Inr (q, owner = sub \<or> sub \<in> set (te_owner_of eo))"
  using assms by (auto simp: MessageLoopTaskQueues_Merge_def mergeable_def)

lemma Merge_done:
  assumes q: "queues_ok q" "queue_entries q owner = Some eo" "queue_entries q sub = Some es"
    and m: "mergeable owner sub eo es"
  shows "MessageLoopTaskQueues_Merge owner sub q =
    Inr ((merged owner sub eo es q)
           \<lparr>wakeups := wakeups q @ due_wakeup (merged owner sub eo es q) owner\<rparr>, True)"
proof -
  let ?q = "merged owner sub eo es q"
  have ok: "queues_ok ?q" using q m by (rule queues_ok_merged)
  have e: "queue_entries ?q owner = Some (eo\<lparr>te_owner_of := oset_insert sub (te_owner_of eo)\<rparr>)"
    using m by (simp add: merged_def mergeable_def)
  have "MessageLoopTaskQueues_Merge owner sub q = obind (wake_if_pending owner ?q) (\<lambda>q3. Inr (q3, True))"
    using q(2,3) m by (auto simp: MessageLoopTaskQueues_Merge_def mergeable_def update_entry_eq merged_def)
  also have "\<dots> = Inr (?q\<lparr>wakeups := wakeups ?q @ due_wakeup ?q owner\<rparr>, True)"
    by (simp add: wake_if_pending_eq [OF ok e])
  finally show ?thesis by (simp add: merged_def)
qed

definition unmergeable :: "TaskQueueId \<Rightarrow> 'c TaskQueueEntry \<Rightarrow> bool" where
  "unmergeable sub eo \<longleftrightarrow> te_subsumed_by eo = kUnmerged \<and> sub \<in> set (te_owner_of eo)"

lemma Unmerge_refused:
  assumes q: "queues_ok q" "queue_entries q owner = Some eo" "queue_entries q sub = Some es"
    and m: "\<not> unmergeable sub eo"
  shows "MessageLoopTaskQueues_Unmerge owner sub q = Inr (q, False)"
  using assms by (auto simp: MessageLoopTaskQueues_Unmerge_def unmergeable_def)

lemma Unmerge_done:
  assumes q: "queues_ok q" "queue_entries q owner = Some eo" "queue_entries q sub = Some es"
    and m: "unmergeable sub eo"
  defines "q' \<equiv> unmerged owner sub eo es q"
  shows "MessageLoopTaskQueues_Unmerge owner sub q =
    Inr (q'\<lparr>wakeups := wakeups q @ due_wakeup q' owner @ due_wakeup q' sub\<rparr>, True)"
proof -
  from m have m': "te_subsumed_by eo = kUnmerged" "sub \<in> set (te_owner_of eo)"
    by (simp_all add: unmergeable_def)
  have ne: "owner \<noteq> sub" and es: "te_subsumed_by es = owner"
    using owned_entry [OF q(1,2) m'(2)] q(3) by (metis option.inject)+
  have oU: "owner \<noteq> kUnmerged" using queues_okD(2) [OF q(1,2)] .
  have ok: "queues_ok q'" unfolding q'_def using q m' by (rule queues_ok_unmerged)
  have eo': "queue_entries q' owner = Some (eo\<lparr>te_owner_of := oset_erase sub (te_owner_of eo)\<rparr>)"
    by (simp add: q'_def unmerged_def)
  have es': "queue_entries q' sub = Some (es\<lparr>te_subsumed_by := kUnmerged\<rparr>)"
    using ne by (simp add: q'_def unmerged_def)
  let ?w = "q'\<lparr>wakeups := wakeups q' @ due_wakeup q' owner\<rparr>"
  have "MessageLoopTaskQueues_Unmerge owner sub q =
      obind (wake_if_pending owner q') (\<lambda>q3. obind (wake_if_pending sub q3) (\<lambda>q4. Inr (q4, True)))"
    using q(2,3) m' ne es oU
    by (auto simp: MessageLoopTaskQueues_Unmerge_def update_entry_eq q'_def unmerged_def)
  also have "\<dots> = obind (wake_if_pending sub ?w) (\<lambda>q4. Inr (q4, True))"
    by (simp add: wake_if_pending_eq [OF ok eo'])
  also have "\<dots> = Inr (?w\<lparr>wakeups := wakeups ?w @ due_wakeup ?w sub\<rparr>, True)"
    using ok es' by (simp add: wake_if_pending_eq)
  finally show ?thesis by (simp add: q'_def unmerged_def)
qed

end
