(* ===== verification/Task_Queue_Steps.thy ===== *)
theory Task_Queue_Steps
  imports Task_Queue_Laws
begin

section \<open>Runs of the task queues\<close>

text \<open>
  Every operation of \<open>MessageLoopTaskQueues\<close> keeps the invariant \<open>queues_ok\<close>; a run is any
  interleaving of the operations by any threads (each holds the mutex for its whole body), and the
  invariant holds in every state a run reaches.
\<close>

subsection \<open>Each operation keeps the invariant\<close>

lemma queues_ok_new: "queues_ok (MessageLoopTaskQueues_new tid)"
  by (simp add: queues_ok_def MessageLoopTaskQueues_new_def graph_ok_def graph_of_def)

lemma counter_self_less: "(n :: size_t) \<noteq> kUnmerged \<Longrightarrow> n < n + 1"
  by (simp add: kUnmerged_def inc_less_eq_self_iff_eq flip: not_le)

lemma counter_less_plus_one: "(n :: size_t) \<noteq> kUnmerged \<Longrightarrow> i < n \<Longrightarrow> i < n + 1"
  using counter_self_less by (rule order.strict_trans [rotated])

lemma CreateTaskQueue_ok:
  assumes q: "queues_ok q" and n: "task_queue_id_counter q \<noteq> kUnmerged"
    and c: "MessageLoopTaskQueues_CreateTaskQueue q = (q', i)"
  shows "queues_ok q' \<and> i = task_queue_id_counter q \<and> queue_entries q i = None \<and>
    queue_entries q' = (queue_entries q)(i \<mapsto> TaskQueueEntry_new i)"
proof -
  have fresh: "queue_entries q (task_queue_id_counter q) = None"
    using queues_okD(1) [OF q, of "task_queue_id_counter q"] by (cases "queue_entries q (task_queue_id_counter q)") auto
  have i: "i = task_queue_id_counter q"
    and q': "queue_entries q' = (queue_entries q)(i \<mapsto> TaskQueueEntry_new i)"
      "task_queue_id_counter q' = task_queue_id_counter q + 1"
    using c by (auto simp: MessageLoopTaskQueues_CreateTaskQueue_def Let_def)
  have g: "graph_of q' = (graph_of q)(i \<mapsto> ([], kUnmerged))"
    by (auto simp: graph_of_def q' TaskQueueEntry_new_def)
  have "graph_ok (graph_of q')"
    unfolding g using q n fresh i by (intro graph_ok_create) (simp_all add: queues_ok_def, simp add: graph_of_def)
  moreover have "j < task_queue_id_counter q' \<and> entry_ok j e" if "queue_entries q' j = Some e" for j e
  proof (cases "j = i")
    case True
    with that n i q' show ?thesis
      by (simp add: counter_self_less entry_ok_def) (auto simp: TaskQueueEntry_new_def)
  next
    case False
    with that q n q' show ?thesis by (auto simp: queues_ok_def intro: counter_less_plus_one)
  qed
  ultimately show ?thesis using i fresh q' by (auto simp: queues_ok_def)
qed

lemma update_source_ok:
  assumes q: "queues_ok q" and u: "update_source i f q = Inr q'"
    and f: "\<And>s s'. source_ok s \<Longrightarrow> f s = Inr s' \<Longrightarrow> source_ok s' \<and> ts_task_queue_id s' = ts_task_queue_id s"
  shows "queues_ok q'"
proof -
  from u obtain e s where e: "queue_entries q i = Some e" "f (te_task_source e) = Inr s"
    and q': "q' = q\<lparr>queue_entries := (queue_entries q)(i \<mapsto> e\<lparr>te_task_source := s\<rparr>)\<rparr>"
    by (auto simp: update_source_def obind_eq_Inr)
  have "source_ok s \<and> ts_task_queue_id s = i"
    using f [OF queues_okD(5) [OF q e(1)] e(2)] queues_okD(4) [OF q e(1)] by simp
  with q e(1) show ?thesis unfolding q' by (intro queues_ok_source_update) simp_all
qed

lemma update_entry_ok:
  assumes q: "queues_ok q" and u: "update_entry i f q = Inr q'"
    and f: "\<And>e. te_owner_of (f e) = te_owner_of e \<and> te_subsumed_by (f e) = te_subsumed_by e \<and>
      (entry_ok i e \<longrightarrow> entry_ok i (f e))"
  shows "queues_ok q'"
proof -
  from u obtain e where e: "queue_entries q i = Some e"
    and q': "q' = q\<lparr>queue_entries := (queue_entries q)(i \<mapsto> f e)\<rparr>"
    by (auto simp: update_entry_def obind_eq_Inr)
  have "graph_of q' = graph_of q" using e f [of e] by (auto simp: graph_of_def q')
  with q e f [of e] show ?thesis by (auto simp: queues_ok_def q')
qed

lemma wake_if_pending_ok:
  assumes "queues_ok q" and "wake_if_pending i q = Inr q'"
  shows "queues_ok q'"
proof -
  from assms(2) obtain e where "queue_entries q i = Some e"
    by (auto simp: wake_if_pending_def HasPendingTasksUnlocked_def obind_eq_Inr)
  with assms wake_if_pending_eq [of q i e] show ?thesis by auto
qed

lemma RegisterTask_ok:
  assumes "queues_ok q" and "MessageLoopTaskQueues_RegisterTask i c t g q = Inr q'"
  shows "queues_ok q'"
proof -
  let ?t = "\<lparr>dt_order = order_value (order_counter q), dt_task = c, dt_target_time = t, dt_grade = g\<rparr>"
  from assms(2) obtain q2 j where
    q2: "update_source i (\<lambda>s. Inr (TaskSource_RegisterTask ?t s)) (q\<lparr>order_counter := order_counter q + 1\<rparr>) = Inr q2"
    and w: "wake_if_pending j q2 = Inr q'"
    unfolding MessageLoopTaskQueues_RegisterTask_def Let_def by (elim obind_eq_InrE) blast
  from _ q2 have "queues_ok q2" by (rule update_source_ok) (use assms(1) in auto)
  then show ?thesis using w by (rule wake_if_pending_ok)
qed

lemma PauseSecondarySource_ok:
  "queues_ok q \<Longrightarrow> MessageLoopTaskQueues_PauseSecondarySource i q = Inr q' \<Longrightarrow> queues_ok q'"
  unfolding MessageLoopTaskQueues_PauseSecondarySource_def
  by (erule (1) update_source_ok)
    (auto simp: TaskSource_PauseSecondary_def obind_eq_Inr source_ok_def)

lemma ResumeSecondarySource_ok:
  assumes "queues_ok q" and "MessageLoopTaskQueues_ResumeSecondarySource i q = Inr q'"
  shows "queues_ok q'"
proof -
  from assms(2) obtain q1 where q1: "update_source i TaskSource_ResumeSecondary q = Inr q1"
    and w: "wake_if_pending i q1 = Inr q'"
    by (auto simp: MessageLoopTaskQueues_ResumeSecondarySource_def obind_eq_Inr)
  from assms(1) q1 have "queues_ok q1"
    by (rule update_source_ok)
      (auto simp: TaskSource_ResumeSecondary_def Let_def obind_eq_Inr source_ok_def)
  then show ?thesis using w by (rule wake_if_pending_ok)
qed

lemma AddTaskObserver_ok:
  "queues_ok q \<Longrightarrow> MessageLoopTaskQueues_AddTaskObserver i k c q = Inr q' \<Longrightarrow> queues_ok q'"
  by (auto simp: MessageLoopTaskQueues_AddTaskObserver_def obind_eq_Inr entry_ok_def
      elim!: update_entry_ok [rotated])

lemma RemoveTaskObserver_ok:
  "queues_ok q \<Longrightarrow> MessageLoopTaskQueues_RemoveTaskObserver i k q = Inr q' \<Longrightarrow> queues_ok q'"
  by (auto simp: MessageLoopTaskQueues_RemoveTaskObserver_def entry_ok_def
      elim!: update_entry_ok [rotated])

lemma SetWakeable_ok:
  "queues_ok q \<Longrightarrow> MessageLoopTaskQueues_SetWakeable i w q = Inr q' \<Longrightarrow> queues_ok q'"
  by (auto simp: MessageLoopTaskQueues_SetWakeable_def obind_eq_Inr entry_ok_def
      elim!: update_entry_ok [rotated])

lemma GetNextTaskToRun_present:
  "MessageLoopTaskQueues_GetNextTaskToRun tid i now q = Inr r \<Longrightarrow> \<exists>e. queue_entries q i = Some e"
  by (auto simp: MessageLoopTaskQueues_GetNextTaskToRun_def HasPendingTasksUnlocked_def obind_eq_Inr)

lemma GetNextTaskToRun_ok:
  assumes q: "queues_ok q" and r: "MessageLoopTaskQueues_GetNextTaskToRun tid i now q = Inr (q', c)"
  shows "queues_ok q'"
proof -
  obtain e where e: "queue_entries q i = Some e" using GetNextTaskToRun_present [OF r] by blast
  consider "pending q i = {#}" | "pending q i \<noteq> {#}" "now < next_time q i"
    | "pending q i \<noteq> {#}" "next_time q i \<le> now" by fastforce
  then show ?thesis
  proof cases
    case 1
    with GetNextTaskToRun_none [OF q e] r q show ?thesis by simp
  next
    case 2
    with GetNextTaskToRun_later [OF q e] r q show ?thesis by auto
  next
    case 3
    show ?thesis
    proof (rule GetNextTaskToRun_due [OF q e 3, of tid], goal_cases)
      case (1 t j ej s)
      let ?q = "q\<lparr>queue_entries := (queue_entries q)(j \<mapsto> ej\<lparr>te_task_source := s\<rparr>)\<rparr>"
      have "queues_ok ?q" using q 1(3-5) by (rule queues_ok_source_update)
      moreover have "queue_entries q' = queue_entries ?q"
        "task_queue_id_counter q' = task_queue_id_counter ?q"
        using 1(10) r by auto
      ultimately show ?case using queues_ok_cong by blast
    qed
  qed
qed

lemma Merge_present:
  assumes "MessageLoopTaskQueues_Merge owner sub q = Inr r" and "owner \<noteq> sub"
  obtains eo es where "queue_entries q owner = Some eo" and "queue_entries q sub = Some es"
  using assms by (auto simp: MessageLoopTaskQueues_Merge_def obind_eq_Inr)

lemma Merge_ok:
  assumes q: "queues_ok q" and m: "MessageLoopTaskQueues_Merge owner sub q = Inr (q', b)"
  shows "queues_ok q'"
proof (cases "owner = sub")
  case True
  with q m show ?thesis by (simp add: MessageLoopTaskQueues_Merge_def)
next
  case False
  from Merge_present [OF m this] obtain eo es
    where e: "queue_entries q owner = Some eo" "queue_entries q sub = Some es" .
  show ?thesis
  proof (cases "mergeable owner sub eo es")
    case True
    with Merge_done [OF q e True] m queues_ok_merged [OF q e True] show ?thesis by auto
  next
    case False
    with Merge_refused [OF e False] m q show ?thesis by simp
  qed
qed

lemma Unmerge_ok:
  assumes q: "queues_ok q" and m: "MessageLoopTaskQueues_Unmerge owner sub q = Inr (q', b)"
  shows "queues_ok q'"
proof -
  from m obtain eo where eo: "queue_entries q owner = Some eo"
    by (auto simp: MessageLoopTaskQueues_Unmerge_def obind_eq_Inr)
  show ?thesis
  proof (cases "unmergeable sub eo")
    case True
    then obtain es where es: "queue_entries q sub = Some es"
      using owned_present [OF q eo, of sub] by (auto simp: unmergeable_def)
    with Unmerge_done [OF q eo es True] m queues_ok_unmerged [OF q eo es] True show ?thesis
      by (auto simp: unmergeable_def)
  next
    case False
    with m eo q show ?thesis
      by (auto simp: MessageLoopTaskQueues_Unmerge_def unmergeable_def obind_eq_Inr split: if_splits)
  qed
qed

lemma entries_fold_erase:
  "queue_entries (fold erase_entry xs q) = (\<lambda>i. if i \<in> set xs then None else queue_entries q i)"
  by (induction xs arbitrary: q) (auto simp: erase_entry_def fun_eq_iff)

lemma counter_fold_erase: "task_queue_id_counter (fold erase_entry xs q) = task_queue_id_counter q"
  by (induction xs arbitrary: q) (simp_all add: erase_entry_def)

lemma Dispose_eq:
  assumes "queue_entries q i = Some e" and "te_subsumed_by e = kUnmerged"
  shows "\<exists>q'. MessageLoopTaskQueues_Dispose i q = Inr q' \<and>
    queue_entries q' = (\<lambda>j. if j = i \<or> j \<in> set (te_owner_of e) then None else queue_entries q j) \<and>
    task_queue_id_counter q' = task_queue_id_counter q"
  using assms
  by (auto simp: MessageLoopTaskQueues_Dispose_def erase_entry_def entries_fold_erase
      counter_fold_erase fun_eq_iff)

lemma Dispose_ok:
  assumes q: "queues_ok q" and d: "MessageLoopTaskQueues_Dispose i q = Inr q'"
  shows "queues_ok q'"
proof -
  from d obtain e where e: "queue_entries q i = Some e" "te_subsumed_by e = kUnmerged"
    by (auto simp: MessageLoopTaskQueues_Dispose_def obind_eq_Inr)
  from Dispose_eq [OF this] d have
    q': "queue_entries q' = (\<lambda>j. if j = i \<or> j \<in> set (te_owner_of e) then None else queue_entries q j)"
      "task_queue_id_counter q' = task_queue_id_counter q" by auto
  have "graph_of q' = (\<lambda>j. if j = i \<or> j \<in> set (te_owner_of e) then None else graph_of q j)"
    by (auto simp: graph_of_def q')
  moreover have "graph_ok (\<lambda>j. if j = i \<or> j \<in> set (te_owner_of e) then None else graph_of q j)"
    using q e by (intro graph_ok_dispose) (simp_all add: queues_ok_def, simp add: graph_of_def)
  ultimately show ?thesis using q by (auto simp: queues_ok_def q' split: if_splits)
qed

lemma DisposeTasks_ok:
  assumes q: "queues_ok q" and d: "MessageLoopTaskQueues_DisposeTasks i q = Inr q'"
  shows "queues_ok q'"
proof -
  have shut: "queues_ok q2" if "queues_ok q1" "update_source j (\<lambda>s. Inr (TaskSource_ShutDown s)) q1 = Inr q2"
    for j and q1 q2 :: "'a MessageLoopTaskQueues"
    using that by (rule update_source_ok) auto
  from d obtain xs q1 where q1: "update_source i (\<lambda>s. Inr (TaskSource_ShutDown s)) q = Inr q1"
    and f: "ofold (\<lambda>sub. update_source sub (\<lambda>s. Inr (TaskSource_ShutDown s))) xs q1 = Inr q'"
    unfolding MessageLoopTaskQueues_DisposeTasks_def by (elim obind_eq_InrE) blast
  from f show ?thesis
    by (rule ofold_invariant [where P = queues_ok]) (use shut q q1 in blast)+
qed

subsection \<open>Runs\<close>

inductive queues_step :: "'c MessageLoopTaskQueues \<Rightarrow> 'c MessageLoopTaskQueues \<Rightarrow> bool" where
  create: "task_queue_id_counter q \<noteq> kUnmerged \<Longrightarrow>
     MessageLoopTaskQueues_CreateTaskQueue q = (q', i) \<Longrightarrow> queues_step q q'"
| dispose: "MessageLoopTaskQueues_Dispose i q = Inr q' \<Longrightarrow> queues_step q q'"
| dispose_tasks: "MessageLoopTaskQueues_DisposeTasks i q = Inr q' \<Longrightarrow> queues_step q q'"
| register: "MessageLoopTaskQueues_RegisterTask i c t g q = Inr q' \<Longrightarrow> queues_step q q'"
| get_next: "MessageLoopTaskQueues_GetNextTaskToRun tid i now q = Inr (q', c) \<Longrightarrow> queues_step q q'"
| add_observer: "MessageLoopTaskQueues_AddTaskObserver i k c q = Inr q' \<Longrightarrow> queues_step q q'"
| remove_observer: "MessageLoopTaskQueues_RemoveTaskObserver i k q = Inr q' \<Longrightarrow> queues_step q q'"
| set_wakeable: "MessageLoopTaskQueues_SetWakeable i w q = Inr q' \<Longrightarrow> queues_step q q'"
| merge: "MessageLoopTaskQueues_Merge i j q = Inr (q', b) \<Longrightarrow> queues_step q q'"
| unmerge: "MessageLoopTaskQueues_Unmerge i j q = Inr (q', b) \<Longrightarrow> queues_step q q'"
| pause: "MessageLoopTaskQueues_PauseSecondarySource i q = Inr q' \<Longrightarrow> queues_step q q'"
| resume: "MessageLoopTaskQueues_ResumeSecondarySource i q = Inr q' \<Longrightarrow> queues_step q q'"

inductive queues_reachable :: "'c MessageLoopTaskQueues \<Rightarrow> bool" where
  start: "queues_reachable (MessageLoopTaskQueues_new tid)"
| step: "queues_reachable q \<Longrightarrow> queues_step q q' \<Longrightarrow> queues_reachable q'"

lemmas queues_ok_steps =
  CreateTaskQueue_ok Dispose_ok DisposeTasks_ok RegisterTask_ok GetNextTaskToRun_ok
  AddTaskObserver_ok RemoveTaskObserver_ok SetWakeable_ok Merge_ok Unmerge_ok
  PauseSecondarySource_ok ResumeSecondarySource_ok

lemma queues_step_ok: "queues_step q q' \<Longrightarrow> queues_ok q \<Longrightarrow> queues_ok q'"
  by (induction rule: queues_step.induct) (blast dest: queues_ok_steps)+

lemma queues_reachable_ok: "queues_reachable q \<Longrightarrow> queues_ok q"
  by (induction rule: queues_reachable.induct) (auto intro: queues_ok_new queues_step_ok)

end
