(* ===== verification/Task_Queue_Props.thy ===== *)
theory Task_Queue_Props
  imports Task_Queue_Steps
begin

section \<open>What the task queues guarantee\<close>

text \<open>
  The properties of \<open>MessageLoopTaskQueues\<close> in every state its operations can reach: the merge
  invariant that the header file states in prose, the functional behaviour of the operations, what
  merging does to the tasks a loop sees, the order in which tasks are handed out, and the two
  places where the thread-local grade is not what its readers expect.
\<close>

subsection \<open>A run to instantiate the theorems at\<close>

definition step_or_stay :: "'a outcome \<Rightarrow> 'a \<Rightarrow> 'a" where
  "step_or_stay r q = (case r of Inr q' \<Rightarrow> q' | Inl _ \<Rightarrow> q)"

text \<open>Two queues, 0 and 1, made on thread 0, with loops 10 and 11 attached.\<close>

definition sample_queues :: "nat MessageLoopTaskQueues" where
  "sample_queues =
     (let q0 = fst (MessageLoopTaskQueues_CreateTaskQueue (MessageLoopTaskQueues_new 0));
          q1 = fst (MessageLoopTaskQueues_CreateTaskQueue q0);
          q2 = step_or_stay (MessageLoopTaskQueues_SetWakeable 0 (Some 10) q1) q1
      in step_or_stay (MessageLoopTaskQueues_SetWakeable 1 (Some 11) q2) q2)"

text \<open>Queue 1 then gets two tasks for time 5, of different grades.\<close>

definition sample_tasks :: "nat MessageLoopTaskQueues" where
  "sample_tasks =
     (let q1 = step_or_stay (MessageLoopTaskQueues_RegisterTask 1 (Some 70) 5 kUserInteraction sample_queues)
                 sample_queues
      in step_or_stay (MessageLoopTaskQueues_RegisterTask 1 (Some 71) 5 kUnspecified q1) q1)"

text \<open>Queue 0 then subsumes queue 1.\<close>

definition sample_merged :: "nat MessageLoopTaskQueues" where
  "sample_merged = fst (step_or_stay (MessageLoopTaskQueues_Merge 0 1 sample_tasks) (sample_tasks, False))"

lemma reachable_step_or_stay:
  assumes "queues_reachable q" and "\<And>q'. r = Inr q' \<Longrightarrow> queues_step q q'"
  shows "queues_reachable (step_or_stay r q)"
  using assms by (cases r) (auto simp: step_or_stay_def intro: queues_reachable.step)

lemma reachable_CreateTaskQueue:
  assumes "queues_reachable q" and "task_queue_id_counter q \<noteq> kUnmerged"
  shows "queues_reachable (fst (MessageLoopTaskQueues_CreateTaskQueue q))"
  using queues_step.create [OF assms(2), of _ "snd (MessageLoopTaskQueues_CreateTaskQueue q)"] assms(1)
  by (metis prod.collapse queues_reachable.step)

lemma reachable_sample_queues: "queues_reachable sample_queues"
  unfolding sample_queues_def Let_def
  by (intro reachable_step_or_stay reachable_CreateTaskQueue queues_reachable.start)
    (auto simp: MessageLoopTaskQueues_CreateTaskQueue_def MessageLoopTaskQueues_new_def kUnmerged_def
      intro: queues_step.set_wakeable)

lemma reachable_sample_tasks: "queues_reachable sample_tasks"
  unfolding sample_tasks_def Let_def
  by (intro reachable_step_or_stay reachable_sample_queues) (auto intro: queues_step.register)

lemma reachable_sample_merged: "queues_reachable sample_merged"
proof (cases "MessageLoopTaskQueues_Merge 0 1 sample_tasks")
  case (Inl f)
  then show ?thesis by (simp add: sample_merged_def step_or_stay_def reachable_sample_tasks)
next
  case (Inr r)
  then have "queues_step sample_tasks (fst r)"
    by (intro queues_step.merge [of 0 1 _ _ "snd r"]) simp
  with Inr reachable_sample_tasks show ?thesis
    by (auto simp: sample_merged_def step_or_stay_def intro: queues_reachable.step)
qed

lemmas queue_eval =
  sample_queues_def sample_tasks_def sample_merged_def step_or_stay_def Let_def
  MessageLoopTaskQueues_new_def MessageLoopTaskQueues_CreateTaskQueue_def
  MessageLoopTaskQueues_SetWakeable_def MessageLoopTaskQueues_RegisterTask_def
  MessageLoopTaskQueues_Merge_def TaskQueueEntry_new_def TaskSource_new_def
  update_entry_def update_source_def map_at_def wake_if_pending_def HasPendingTasksUnlocked_def
  GetNextWakeTimeUnlocked_def PeekNextTaskUnlocked_def WakeUpUnlocked_def top_task_updater_def
  TaskSource_RegisterTask_def TaskSource_IsEmpty_def TaskSource_GetNumPendingTasks_def
  TaskSource_Top_def DelayedTask_gt_def kUnmerged_def order_value_def oset_insert_def

lemma sample_queues_entries:
  "queue_entries sample_queues = Map.empty(0 \<mapsto> (TaskQueueEntry_new 0)\<lparr>te_wakeable := Some 10\<rparr>,
     1 \<mapsto> (TaskQueueEntry_new 1)\<lparr>te_wakeable := Some 11\<rparr>)"
  by (simp add: queue_eval fun_eq_iff)

text \<open>The two tasks of queue 1 in \<open>sample_tasks\<close>, and the entries of the three sample states.\<close>

abbreviation task70 :: "nat DelayedTask" where
  "task70 \<equiv> \<lparr>dt_order = 0, dt_task = Some 70, dt_target_time = 5, dt_grade = kUserInteraction\<rparr>"

abbreviation task71 :: "nat DelayedTask" where
  "task71 \<equiv> \<lparr>dt_order = 1, dt_task = Some 71, dt_target_time = 5, dt_grade = kUnspecified\<rparr>"

abbreviation sample_source :: "nat TaskSource" where
  "sample_source \<equiv> (TaskSource_new 1)\<lparr>ts_primary := [task70, task71]\<rparr>"

lemma sample_tasks_entries:
  "queue_entries sample_tasks = Map.empty(0 \<mapsto> (TaskQueueEntry_new 0)\<lparr>te_wakeable := Some 10\<rparr>,
     1 \<mapsto> (TaskQueueEntry_new 1)\<lparr>te_wakeable := Some 11, te_task_source := sample_source\<rparr>)"
  by (simp add: queue_eval fun_eq_iff)

lemma sample_merged_entries:
  "queue_entries sample_merged = Map.empty(
     0 \<mapsto> (TaskQueueEntry_new 0)\<lparr>te_wakeable := Some 10, te_owner_of := [1]\<rparr>,
     1 \<mapsto> (TaskQueueEntry_new 1)\<lparr>te_wakeable := Some 11, te_task_source := sample_source, te_subsumed_by := 0\<rparr>)"
  by (simp add: queue_eval fun_eq_iff)

lemma sample_present:
  "queue_entries sample_tasks 0 = Some ((TaskQueueEntry_new 0)\<lparr>te_wakeable := Some 10\<rparr>)"
  "queue_entries sample_tasks 1 =
    Some ((TaskQueueEntry_new 1)\<lparr>te_wakeable := Some 11, te_task_source := sample_source\<rparr>)"
  "queue_entries sample_merged 0 =
    Some ((TaskQueueEntry_new 0)\<lparr>te_wakeable := Some 10, te_owner_of := [1]\<rparr>)"
  "queue_entries sample_merged 1 = Some ((TaskQueueEntry_new 1)
    \<lparr>te_wakeable := Some 11, te_task_source := sample_source, te_subsumed_by := 0\<rparr>)"
  by (simp_all add: sample_tasks_entries sample_merged_entries)

lemmas sample_entries = sample_queues_entries sample_tasks_entries sample_merged_entries

lemmas sample_reachable = reachable_sample_queues reachable_sample_tasks reachable_sample_merged

subsection \<open>Merging\<close>

text \<open>C2: the three states of the merge protocol, in every reachable state of the queues. A queue
  that is subsumed owns nothing, and its owner exists, lists it, and is not itself subsumed; every
  queue in \<open>owner_of\<close> exists, names its owner in \<open>subsumed_by\<close>, owns nothing and is not the
  owner; \<open>owner_of\<close> is a set.\<close>

theorem merge_states:
  assumes "queues_reachable q" and "queue_entries q i = Some e"
  shows "(te_subsumed_by e \<noteq> kUnmerged \<longrightarrow> te_owner_of e = [] \<and>
      (\<exists>eo. queue_entries q (te_subsumed_by e) = Some eo \<and> i \<in> set (te_owner_of eo) \<and>
        te_subsumed_by eo = kUnmerged)) \<and>
    (\<forall>s \<in> set (te_owner_of e). s \<noteq> i \<and>
      (\<exists>es. queue_entries q s = Some es \<and> te_subsumed_by es = i \<and> te_owner_of es = [])) \<and>
    oset (te_owner_of e)"
proof -
  have ok: "queues_ok q" using assms(1) by (rule queues_reachable_ok)
  show ?thesis
    using owner_entry [OF ok assms(2)] owned_entry [OF ok assms(2)] queues_okD(7,8) [OF ok assms(2)]
    by metis
qed

theorem merge_states_witness:
  "1 \<in> set (te_owner_of (the (queue_entries sample_merged 0))) \<and>
   te_subsumed_by (the (queue_entries sample_merged 1)) = 0 \<and>
   te_subsumed_by (the (queue_entries sample_merged 0)) = kUnmerged"
  using merge_states [OF reachable_sample_merged, of 1]
  by (simp add: sample_merged_entries kUnmerged_def TaskQueueEntry_new_def)

text \<open>C3: \<open>Merge\<close> and \<open>Unmerge\<close> refine the merge graph. On two queues that exist, \<open>Merge\<close> links
  them exactly when neither is subsumed, the second owns nothing and they differ and are not
  merged with each other already; otherwise nothing at all changes. It answers \<^term>\<open>True\<close> exactly
  when afterwards the two are the same queue or the first owns the second. \<open>Unmerge\<close> unlinks
  exactly when the first owns the second, and says so. Neither touches the tasks of any queue.\<close>

theorem merge_refines_graph:
  assumes r: "queues_reachable q" and o: "queue_entries q owner = Some eo"
    and s: "queue_entries q sub = Some es"
  shows "(\<exists>q' b. MessageLoopTaskQueues_Merge owner sub q = Inr (q', b) \<and>
      (if mergeable owner sub eo es then graph_of q' = graph_merge owner sub (graph_of q) else q' = q) \<and>
      b = (owner = sub \<or> sub \<in> set (te_owner_of (the (queue_entries q' owner)))) \<and>
      available_at q' = available_at q) \<and>
    (\<exists>q' b. MessageLoopTaskQueues_Unmerge owner sub q = Inr (q', b) \<and>
      b = (sub \<in> set (te_owner_of eo)) \<and>
      (if b then graph_of q' = graph_unmerge owner sub (graph_of q) else q' = q) \<and>
      available_at q' = available_at q)"
proof (intro conjI)
  have ok: "queues_ok q" using r by (rule queues_reachable_ok)
  show "\<exists>q' b. MessageLoopTaskQueues_Merge owner sub q = Inr (q', b) \<and>
      (if mergeable owner sub eo es then graph_of q' = graph_merge owner sub (graph_of q) else q' = q) \<and>
      b = (owner = sub \<or> sub \<in> set (te_owner_of (the (queue_entries q' owner)))) \<and>
      available_at q' = available_at q"
    using Merge_done [OF ok o s] Merge_refused [OF o s] graph_of_merged [OF o s] o s
    by (cases "mergeable owner sub eo es")
      (auto simp: merged_def mergeable_def available_at_def fun_eq_iff)
  show "\<exists>q' b. MessageLoopTaskQueues_Unmerge owner sub q = Inr (q', b) \<and>
      b = (sub \<in> set (te_owner_of eo)) \<and>
      (if b then graph_of q' = graph_unmerge owner sub (graph_of q) else q' = q) \<and>
      available_at q' = available_at q"
  proof (cases "sub \<in> set (te_owner_of eo)")
    case True
    then have u: "unmergeable sub eo" using queues_okD(8) [OF ok o] by (force simp: unmergeable_def)
    have "owner \<noteq> sub" using owned_entry [OF ok o True] by metis
    with True Unmerge_done [OF ok o s u] graph_of_unmerged [OF o s] o s show ?thesis
      by (auto simp: unmerged_def available_at_def fun_eq_iff)
  next
    case False
    with Unmerge_refused [OF ok o s] show ?thesis by (auto simp: unmergeable_def)
  qed
qed

theorem merge_refines_graph_witness:
  "\<exists>q' b. MessageLoopTaskQueues_Merge 0 1 sample_tasks = Inr (q', b) \<and>
     graph_of q' = graph_merge 0 1 (graph_of sample_tasks)"
  using merge_refines_graph [OF reachable_sample_tasks sample_present(1,2)]
  by (auto simp: mergeable_def TaskQueueEntry_new_def)

lemma pending_merged:
  assumes q: "queues_ok q" "queue_entries q owner = Some eo" "queue_entries q sub = Some es"
    and m: "mergeable owner sub eo es"
  shows "pending (merged owner sub eo es q) owner = pending q owner + pending q sub"
    and "pending (merged owner sub eo es q) sub = {#}"
    and "k \<noteq> owner \<Longrightarrow> k \<noteq> sub \<Longrightarrow> pending (merged owner sub eo es q) k = pending q k"
proof -
  have av: "available_at (merged owner sub eo es q) = available_at q"
    using q(2,3) by (auto simp: available_at_def merged_def)
  have ne: "owner \<noteq> sub" and oU: "owner \<noteq> kUnmerged"
    using m queues_okD(2) [OF q(1,2)] by (auto simp: mergeable_def)
  have "sum_list (map f (insort_key (\<lambda>x. x) sub xs)) = f sub + sum_list (map f xs)"
    for f :: "TaskQueueId \<Rightarrow> 'a DelayedTask multiset" and xs
    by (induction xs) (auto simp: ac_simps)
  then show "pending (merged owner sub eo es q) owner = pending q owner + pending q sub"
    using q(2,3) m ne unfolding pending_def av
    by (simp add: merged_def mergeable_def oset_insert_def available_at_Some ac_simps)
  show "pending (merged owner sub eo es q) sub = {#}"
    using oU by (simp add: pending_def merged_def)
  show "k \<noteq> owner \<Longrightarrow> k \<noteq> sub \<Longrightarrow> pending (merged owner sub eo es q) k = pending q k"
    unfolding pending_def av by (simp add: merged_def)
qed

text \<open>A merge moves tasks and loses none. After a merge that takes place, the owner sees its own
  pending tasks together with those the subsumed queue had, the subsumed queue sees none, every
  other queue sees what it saw; and the owner's loop, if attached, is woken for the earliest of
  them.\<close>

theorem merge_conserves_tasks:
  assumes "queues_reachable q" and "queue_entries q owner = Some eo"
    and "queue_entries q sub = Some es" and "mergeable owner sub eo es"
  shows "\<exists>q'. MessageLoopTaskQueues_Merge owner sub q = Inr (q', True) \<and>
    pending q' owner = pending q owner + pending q sub \<and> pending q' sub = {#} \<and>
    (\<forall>k. k \<noteq> owner \<and> k \<noteq> sub \<longrightarrow> pending q' k = pending q k) \<and>
    wakeups q' = wakeups q @ due_wakeup q' owner"
proof -
  have ok: "queues_ok q" using assms(1) by (rule queues_reachable_ok)
  show ?thesis
    unfolding Merge_done [OF ok assms(2-4)]
    by (simp add: pending_merged [OF ok assms(2-4)])
qed

lemma pending_new: "queue_entries q i = Some ((TaskQueueEntry_new i)\<lparr>te_wakeable := w\<rparr>) \<Longrightarrow> pending q i = {#}"
  by (simp add: pending_def TaskQueueEntry_new_def)

lemma pending_sample_tasks: "pending sample_tasks 1 = {#task70, task71#}"
  using sample_present(2) by (simp add: pending_def TaskQueueEntry_new_def available_def TaskSource_new_def)

lemma mergeable_sample:
  "mergeable 0 1 ((TaskQueueEntry_new 0)\<lparr>te_wakeable := Some 10\<rparr>)
     ((TaskQueueEntry_new 1)\<lparr>te_wakeable := Some 11, te_task_source := sample_source\<rparr>)"
  by (simp add: mergeable_def TaskQueueEntry_new_def)

theorem merge_conserves_tasks_witness:
  "\<exists>q'. MessageLoopTaskQueues_Merge 0 1 sample_tasks = Inr (q', True) \<and>
     pending q' 0 = {#task70, task71#} \<and> pending q' 1 = {#}"
  using merge_conserves_tasks [OF reachable_sample_tasks sample_present(1,2) mergeable_sample]
  by (auto simp: pending_new [OF sample_present(1)] pending_sample_tasks)

text \<open>Unmerging undoes merging. After a merge that takes place, unmerging the same two queues
  succeeds and restores every entry of every queue; only the wake-ups differ.\<close>

theorem merge_unmerge_roundtrip:
  assumes "queues_reachable q" and "queue_entries q owner = Some eo"
    and "queue_entries q sub = Some es" and "mergeable owner sub eo es"
  shows "\<exists>q1 q2. MessageLoopTaskQueues_Merge owner sub q = Inr (q1, True) \<and>
    MessageLoopTaskQueues_Unmerge owner sub q1 = Inr (q2, True) \<and>
    queue_entries q2 = queue_entries q \<and> task_queue_id_counter q2 = task_queue_id_counter q \<and>
    order_counter q2 = order_counter q"
proof -
  have ok: "queues_ok q" using assms(1) by (rule queues_reachable_ok)
  let ?eo = "eo\<lparr>te_owner_of := oset_insert sub (te_owner_of eo)\<rparr>"
  let ?es = "es\<lparr>te_subsumed_by := owner\<rparr>"
  let ?q1 = "(merged owner sub eo es q)\<lparr>wakeups := wakeups q @ due_wakeup (merged owner sub eo es q) owner\<rparr>"
  have m: "owner \<noteq> sub" "sub \<notin> set (te_owner_of eo)" "te_subsumed_by eo = kUnmerged"
    "te_subsumed_by es = kUnmerged" using assms(4) by (auto simp: mergeable_def)
  have e: "queues_ok ?q1" "queue_entries ?q1 owner = Some ?eo" "queue_entries ?q1 sub = Some ?es"
    using queues_ok_merged [OF ok assms(2-4)] m(1) by (simp_all add: merged_def)
  have u: "unmergeable sub ?eo" using m by (simp add: unmergeable_def)
  have "eo\<lparr>te_owner_of := te_owner_of eo\<rparr> = eo" "es\<lparr>te_subsumed_by := kUnmerged\<rparr> = es"
    using m(4) by simp_all
  then have "queue_entries (unmerged owner sub ?eo ?es ?q1) = queue_entries q"
    using m(1,2) queues_okD(7) [OF ok assms(2)] assms(2,3)
    by (auto simp: unmerged_def merged_def fun_eq_iff)
  with Unmerge_done [OF e u] Merge_done [OF ok assms(2-4)] show ?thesis
    by (simp add: unmerged_def merged_def)
qed

theorem merge_unmerge_roundtrip_witness:
  "\<exists>q1 q2. MessageLoopTaskQueues_Merge 0 1 sample_tasks = Inr (q1, True) \<and>
     MessageLoopTaskQueues_Unmerge 0 1 q1 = Inr (q2, True) \<and>
     queue_entries q2 = queue_entries sample_tasks"
  using merge_unmerge_roundtrip [OF reachable_sample_tasks sample_present(1,2) mergeable_sample]
  by blast

subsection \<open>Running tasks\<close>

lemma pending_subsumed: "queue_entries q k = Some ek \<Longrightarrow> te_subsumed_by ek \<noteq> kUnmerged \<Longrightarrow> pending q k = {#}"
  by (simp add: pending_def)

text \<open>Changing the source of a queue that the loop \<open>i\<close> serves changes what \<open>i\<close> sees and nothing
  that another loop sees.\<close>

lemma pending_source_elsewhere:
  assumes q: "queues_ok q" "queue_entries q i = Some e" "te_subsumed_by e = kUnmerged"
    and j: "queue_entries q j = Some ej" "j \<in> insert i (set (te_owner_of e))" and k: "k \<noteq> i"
  shows "pending (q\<lparr>queue_entries := (queue_entries q)(j \<mapsto> ej\<lparr>te_task_source := s\<rparr>)\<rparr>) k = pending q k"
proof (cases "queue_entries q k")
  case None
  with j(1) show ?thesis by (auto simp: pending_def)
next
  case (Some ek)
  have iU: "i \<noteq> kUnmerged" using queues_okD(2) [OF q(1,2)] .
  show ?thesis
  proof (cases "j \<in> insert k (set (te_owner_of ek))")
    case False
    with q(1) Some j(1) show ?thesis by (intro pending_source_other)
  next
    case True
    have "j \<noteq> i \<Longrightarrow> te_subsumed_by ej = i"
      using j owned_entry [OF q(1,2), of j] by (metis insertE option.inject)
    moreover have "j \<noteq> k \<Longrightarrow> te_subsumed_by ej = k"
      using True j(1) owned_entry [OF q(1) Some, of j] by (metis insertE option.inject)
    moreover have "j = i \<Longrightarrow> te_subsumed_by ej = kUnmerged" using q(2,3) j(1) by simp
    ultimately have "j = k \<and> te_subsumed_by ej = i"
      using k queues_okD(2) [OF q(1) Some] by metis
    with iU j(1) show ?thesis by (simp add: pending_def)
  qed
qed

definition observers_at :: "'c MessageLoopTaskQueues \<Rightarrow> TaskQueueId \<Rightarrow> 'c closure list" where
  "observers_at q i =
     (case queue_entries q i of None \<Rightarrow> [] | Some e \<Rightarrow> map snd (te_task_observers e))"

lemma GetNextTaskToRun_takes:
  fixes q :: "'c MessageLoopTaskQueues"
  assumes ok: "queues_ok q" and e: "queue_entries q i = Some e"
    and p: "pending q i \<noteq> {#}" "next_time q i \<le> now"
  obtains q' t where "MessageLoopTaskQueues_GetNextTaskToRun tid i now q = Inr (q', dt_task t)"
    and "earliest t (pending q i)" and "dt_target_time t \<le> now"
    and "pending q' i = pending q i - {#t#}" and "\<And>k. k \<noteq> i \<Longrightarrow> pending q' k = pending q k"
    and "graph_of q' = graph_of q" and "wakeups q' = wakeups q @ due_wakeup q i"
    and "observers_at q' = observers_at q"
proof (rule GetNextTaskToRun_due [OF ok e p, of tid], goal_cases)
  case (1 t j ej s)
  have unm: "te_subsumed_by e = kUnmerged" using e p by (auto simp: pending_def split: if_splits)
  let ?q = "q\<lparr>queue_entries := (queue_entries q)(j \<mapsto> ej\<lparr>te_task_source := s\<rparr>)\<rparr>"
  let ?q' = "?q\<lparr>tls_task_source_grade := (tls_task_source_grade q)
    (tid \<mapsto> reference_after_pop (grade_heap (dt_grade t)) s), wakeups := wakeups q @ due_wakeup q i\<rparr>"
  have "pending ?q i + available (te_task_source ej) = pending q i + available s"
    using ok e unm 1(4,3) by (rule pending_source_update)
  then have "pending ?q i + available (te_task_source ej) =
      (pending q i - {#t#}) + available (te_task_source ej)"
    using 1(2,8,10) by (simp add: earliest_def multiset_eq_iff)
  then have "pending ?q i = pending q i - {#t#}" by simp
  moreover have "pending ?q k = pending q k" if "k \<noteq> i" for k
    using ok e unm 1(4,3) that by (rule pending_source_elsewhere)
  moreover have "graph_of ?q = graph_of q" using 1(4) by (rule graph_of_source_update)
  moreover have "dt_target_time t \<le> now" using earliest_next_time [OF 1(2)] p by simp
  moreover have "MessageLoopTaskQueues_GetNextTaskToRun tid i now q = Inr (?q', dt_task t)" using 1(11) by simp
  moreover have "observers_at ?q' = observers_at q" using 1(4) by (auto simp: observers_at_def fun_eq_iff)
  ultimately show ?case using 1(2) by (intro 1(1) [of ?q' t]) simp_all
qed

text \<open>C1: what \<open>GetNextTaskToRun\<close> does, on every branch and in every reachable state. With nothing
  pending it returns the null closure and changes nothing. If the earliest pending task is not due
  it returns null, and only wakes the loop for the time of that task. Otherwise it returns the
  closure of the earliest pending task of the queue and of all the queues it owns; that task, and
  nothing else, leaves the queue's pending tasks, and no other queue's view and no merge state
  changes.\<close>

theorem GetNextTaskToRun_correct:
  assumes "queues_reachable q" and "queue_entries q i = Some e"
  shows "(pending q i = {#} \<longrightarrow> MessageLoopTaskQueues_GetNextTaskToRun tid i now q = Inr (q, None)) \<and>
    (pending q i \<noteq> {#} \<and> now < next_time q i \<longrightarrow>
      MessageLoopTaskQueues_GetNextTaskToRun tid i now q =
        Inr (q\<lparr>wakeups := wakeups q @ due_wakeup q i\<rparr>, None)) \<and>
    (pending q i \<noteq> {#} \<and> next_time q i \<le> now \<longrightarrow>
      (\<exists>q' t. MessageLoopTaskQueues_GetNextTaskToRun tid i now q = Inr (q', dt_task t) \<and>
        earliest t (pending q i) \<and> dt_target_time t \<le> now \<and>
        pending q' i = pending q i - {#t#} \<and> (\<forall>k. k \<noteq> i \<longrightarrow> pending q' k = pending q k) \<and>
        graph_of q' = graph_of q \<and> wakeups q' = wakeups q @ due_wakeup q i))"
proof (intro conjI impI)
  have ok: "queues_ok q" using assms(1) by (rule queues_reachable_ok)
  show "MessageLoopTaskQueues_GetNextTaskToRun tid i now q = Inr (q, None)" if "pending q i = {#}"
    using ok assms(2) that by (rule GetNextTaskToRun_none)
  show "MessageLoopTaskQueues_GetNextTaskToRun tid i now q =
      Inr (q\<lparr>wakeups := wakeups q @ due_wakeup q i\<rparr>, None)"
    if "pending q i \<noteq> {#} \<and> now < next_time q i"
    using ok assms(2) conjunct1 [OF that] conjunct2 [OF that] by (rule GetNextTaskToRun_later)
  show "\<exists>q' t. MessageLoopTaskQueues_GetNextTaskToRun tid i now q = Inr (q', dt_task t) \<and>
        earliest t (pending q i) \<and> dt_target_time t \<le> now \<and>
        pending q' i = pending q i - {#t#} \<and> (\<forall>k. k \<noteq> i \<longrightarrow> pending q' k = pending q k) \<and>
        graph_of q' = graph_of q \<and> wakeups q' = wakeups q @ due_wakeup q i"
    if "pending q i \<noteq> {#} \<and> next_time q i \<le> now"
    using that by (elim conjE) (rule GetNextTaskToRun_takes [OF ok assms(2)], blast+)
qed

lemma pending_sample_merged: "pending sample_merged 0 = {#task70, task71#}"
  using sample_present(3,4)
  by (simp add: pending_def TaskQueueEntry_new_def available_def available_at_def TaskSource_new_def)

lemma next_time_sample_merged: "next_time sample_merged 0 = 5"
  by (simp add: next_time_def pending_sample_merged)

lemma earliest_sample: "earliest t {#task70, task71#} \<Longrightarrow> t = task70"
  by (auto simp: earliest_def DelayedTask_gt_def)

theorem GetNextTaskToRun_correct_witness:
  "\<exists>q'. MessageLoopTaskQueues_GetNextTaskToRun 3 0 7 sample_merged = Inr (q', Some 70) \<and>
     pending q' 0 = {#task71#}"
  using GetNextTaskToRun_correct [OF reachable_sample_merged sample_present(3), of 3 7]
  by (auto simp: pending_sample_merged next_time_sample_merged dest!: earliest_sample)

text \<open>C7: the grade that \<open>GetNextTaskToRun\<close> leaves for \<open>GetCurrentTaskSourceGrade\<close> is not the
  grade of the task it returns: the reference \<open>top.task\<close> is read again after \<open>PopTask\<close>, so the
  grade is that of the task behind it in the same heap, and a dangling read if there is none.\<close>

theorem grade_read_after_pop:
  assumes "queues_reachable q" and "queue_entries q i = Some e"
    and "pending q i \<noteq> {#}" and "next_time q i \<le> now"
  shows "\<exists>q' t j ej rest. MessageLoopTaskQueues_GetNextTaskToRun tid i now q = Inr (q', dt_task t) \<and>
    earliest t (pending q i) \<and> queue_entries q j = Some ej \<and>
    source_heap (grade_heap (dt_grade t)) (te_task_source ej) = t # rest \<and>
    MessageLoopTaskQueues_GetCurrentTaskSourceGrade tid q' =
      Inr (case rest of [] \<Rightarrow> Indeterminate | u # _ \<Rightarrow> Grade (dt_grade u))"
proof (rule GetNextTaskToRun_due [OF queues_reachable_ok [OF assms(1)] assms(2-4), of tid], goal_cases)
  case (1 t j ej s)
  show ?case
    by (intro exI conjI, rule 1(10), rule 1(1), rule 1(3), rule 1(6))
      (simp add: MessageLoopTaskQueues_GetCurrentTaskSourceGrade_def reference_after_pop_def)
qed

lemma heap_of_sample:
  assumes "queue_entries sample_merged j = Some ej"
    and "source_heap k (te_task_source ej) = t # rest"
  shows "k = Primary \<and> t = task70 \<and> rest = [task71]"
  using assms
  by (cases k) (auto simp: sample_merged_entries TaskQueueEntry_new_def source_heap_def
      TaskSource_new_def split: if_splits)

theorem grade_read_after_pop_witness:
  "\<exists>q'. MessageLoopTaskQueues_GetNextTaskToRun 3 0 7 sample_merged = Inr (q', dt_task task70) \<and>
     dt_grade task70 = kUserInteraction \<and>
     MessageLoopTaskQueues_GetCurrentTaskSourceGrade 3 q' = Inr (Grade kUnspecified)"
  using grade_read_after_pop [OF reachable_sample_merged sample_present(3), of 7 3]
  by (fastforce simp: pending_sample_merged next_time_sample_merged dest!: heap_of_sample)

subsection \<open>Registering tasks\<close>

text \<open>The loop that serves a queue: its owner if it is subsumed, else itself.\<close>

definition serving :: "TaskQueueId \<Rightarrow> 'c TaskQueueEntry \<Rightarrow> TaskQueueId" where
  "serving i e = (if te_subsumed_by e \<noteq> kUnmerged then te_subsumed_by e else i)"

lemma serving_entry:
  assumes "queues_ok q" and "queue_entries q i = Some e"
  obtains el where "queue_entries q (serving i e) = Some el" and "te_subsumed_by el = kUnmerged"
    and "i \<in> insert (serving i e) (set (te_owner_of el))"
  using assms owner_entry [OF assms] by (cases "te_subsumed_by e = kUnmerged") (auto simp: serving_def)

lemma order_entries_commute:
  "q\<lparr>order_counter := n, queue_entries := m\<rparr> = q\<lparr>queue_entries := m, order_counter := n\<rparr>"
  for q :: "'c MessageLoopTaskQueues"
  by simp

lemma RegisterTask_eq:
  fixes q :: "'c MessageLoopTaskQueues" and c time g
  assumes q: "queues_ok q" "queue_entries q i = Some e"
  defines "t \<equiv> \<lparr>dt_order = order_value (order_counter q), dt_task = c, dt_target_time = time, dt_grade = g\<rparr>"
  defines "q2 \<equiv> q\<lparr>queue_entries := (queue_entries q)
    (i \<mapsto> e\<lparr>te_task_source := TaskSource_RegisterTask t (te_task_source e)\<rparr>),
    order_counter := order_counter q + 1\<rparr>"
  shows "MessageLoopTaskQueues_RegisterTask i c time g q =
    Inr (q2\<lparr>wakeups := wakeups q @ due_wakeup q2 (serving i e)\<rparr>)"
proof -
  have ok: "queues_ok q2"
    using queues_ok_source_update [of q i e "TaskSource_RegisterTask t (te_task_source e)"] q
      queues_okD(4,5) [OF q] by (simp add: q2_def)
  have "queue_entries q2 (serving i e) \<noteq> None"
    by (rule serving_entry [OF q]) (simp add: q2_def)
  then obtain el where el: "queue_entries q2 (serving i e) = Some el" by blast
  have "MessageLoopTaskQueues_RegisterTask i c time g q = wake_if_pending (serving i e) q2"
    using q(2) by (simp add: MessageLoopTaskQueues_RegisterTask_def update_source_def serving_def q2_def t_def
        order_entries_commute)
  also have "\<dots> = Inr (q2\<lparr>wakeups := wakeups q2 @ due_wakeup q2 (serving i e)\<rparr>)"
    using ok el by (rule wake_if_pending_eq)
  finally show ?thesis by (simp add: q2_def)
qed

text \<open>What registering a task does, on every branch.\<close>

lemma RegisterTask_pending:
  fixes q :: "'c MessageLoopTaskQueues" and c time g
  assumes ok: "queues_ok q" and e: "queue_entries q i = Some e"
  defines "t \<equiv> \<lparr>dt_order = order_value (order_counter q), dt_task = c, dt_target_time = time, dt_grade = g\<rparr>"
  shows "\<exists>q'. MessageLoopTaskQueues_RegisterTask i c time g q = Inr q' \<and>
    pending q' (serving i e) = pending q (serving i e) +
      (if g = kDartMicroTasks \<and> ts_pause_requests (te_task_source e) \<noteq> 0 then {#} else {#t#}) \<and>
    (\<forall>k. k \<noteq> serving i e \<longrightarrow> pending q' k = pending q k) \<and>
    (\<exists>e'. queue_entries q' i = Some e' \<and>
      source_tasks (te_task_source e') = add_mset t (source_tasks (te_task_source e))) \<and>
    wakeups q' = wakeups q @ due_wakeup q' (serving i e) \<and>
    (\<forall>k. map_option te_subsumed_by (queue_entries q' k) = map_option te_subsumed_by (queue_entries q k))"
proof -
  let ?s = "TaskSource_RegisterTask t (te_task_source e)" and ?l = "serving i e"
  let ?q = "q\<lparr>queue_entries := (queue_entries q)(i \<mapsto> e\<lparr>te_task_source := ?s\<rparr>)\<rparr>"
  let ?q2 = "?q\<lparr>order_counter := order_counter q + 1\<rparr>"
  let ?q' = "?q2\<lparr>wakeups := wakeups q @ due_wakeup ?q2 ?l\<rparr>"
  obtain el where el: "queue_entries q ?l = Some el" "te_subsumed_by el = kUnmerged"
    "i \<in> insert ?l (set (te_owner_of el))" by (rule serving_entry [OF ok e])
  have "pending ?q ?l + available (te_task_source e) = pending q ?l + available ?s"
    using ok el(1,2) e el(3) by (rule pending_source_update)
  then have "pending ?q ?l = pending q ?l +
      (if g = kDartMicroTasks \<and> ts_pause_requests (te_task_source e) \<noteq> 0 then {#} else {#t#})"
    by (auto simp: available_RegisterTask t_def grade_heap_def split: if_splits)
  moreover have "pending ?q k = pending q k" if "k \<noteq> ?l" for k
    using ok el(1,2) e el(3) that by (rule pending_source_elsewhere)
  moreover have "MessageLoopTaskQueues_RegisterTask i c time g q = Inr ?q'"
    using RegisterTask_eq [OF ok e, of c time g] by (simp add: t_def)
  ultimately show ?thesis using e by (intro exI [of _ ?q']) simp
qed

text \<open>C6: registering a task on a queue that exists always succeeds. The loop that serves the queue
  (its owner, if it is merged) sees exactly one more pending task, carrying the closure, target
  time and grade given and the next order number; while the secondary source is paused a
  micro-task is stored but not seen. No other loop's view changes. Then the serving loop is woken
  for its earliest pending task.\<close>

theorem RegisterTask_correct:
  fixes q :: "'c MessageLoopTaskQueues" and c time g
  assumes "queues_reachable q" and e: "queue_entries q i = Some e"
  defines "t \<equiv> \<lparr>dt_order = order_value (order_counter q), dt_task = c, dt_target_time = time, dt_grade = g\<rparr>"
  shows "\<exists>q'. MessageLoopTaskQueues_RegisterTask i c time g q = Inr q' \<and>
    pending q' (serving i e) = pending q (serving i e) +
      (if g = kDartMicroTasks \<and> ts_pause_requests (te_task_source e) \<noteq> 0 then {#} else {#t#}) \<and>
    (\<forall>k. k \<noteq> serving i e \<longrightarrow> pending q' k = pending q k) \<and>
    (\<exists>e'. queue_entries q' i = Some e' \<and>
      source_tasks (te_task_source e') = add_mset t (source_tasks (te_task_source e))) \<and>
    wakeups q' = wakeups q @ due_wakeup q' (serving i e)"
  using RegisterTask_pending [OF queues_reachable_ok [OF assms(1)] e, of c time g] by (auto simp: t_def)

theorem RegisterTask_correct_witness:
  "\<exists>q'. MessageLoopTaskQueues_RegisterTask 1 (Some 72) 2 kUserInteraction sample_merged = Inr q' \<and>
     size (pending q' 0) = 3 \<and> pending q' 1 = pending sample_merged 1"
  using RegisterTask_correct [OF reachable_sample_merged sample_present(4), of "Some 72" 2 kUserInteraction]
  by (auto simp: serving_def kUnmerged_def TaskQueueEntry_new_def pending_sample_merged)

subsection \<open>No operation fails on a queue that exists\<close>

lemma observers_fold:
  assumes "\<And>s. s \<in> set xs \<Longrightarrow> queue_entries q s \<noteq> None"
  shows "ofold (\<lambda>s observers. obind (entry_at q s) (\<lambda>e. Inr (observers @ map snd (te_task_observers e)))) xs os
    = Inr (os @ concat (map (observers_at q) xs))"
  using assms
proof (induction xs arbitrary: os)
  case (Cons s xs)
  then obtain e where "queue_entries q s = Some e" by fastforce
  with Cons show ?case by (simp add: observers_at_def)
qed simp

lemma GetObserversToNotify_eq:
  assumes "queues_ok q" and "queue_entries q i = Some e"
  shows "MessageLoopTaskQueues_GetObserversToNotify q i =
    Inr (if te_subsumed_by e \<noteq> kUnmerged then []
         else concat (map (observers_at q) (i # te_owner_of e)))"
  using assms observers_fold [OF owned_present [OF assms]]
  by (simp add: MessageLoopTaskQueues_GetObserversToNotify_def observers_at_def)

lemma ShutDown_fold_total:
  assumes "\<And>s. s \<in> set xs \<Longrightarrow> queue_entries q s \<noteq> None"
  shows "\<exists>q'. ofold (\<lambda>s. update_source s (\<lambda>s. Inr (TaskSource_ShutDown s))) xs q = Inr q'"
  using assms
proof (induction xs arbitrary: q)
  case (Cons s xs)
  then obtain e where e: "queue_entries q s = Some e" by fastforce
  let ?q = "q\<lparr>queue_entries := (queue_entries q)
    (s \<mapsto> e\<lparr>te_task_source := TaskSource_ShutDown (te_task_source e)\<rparr>)\<rparr>"
  have "\<exists>q'. ofold (\<lambda>s. update_source s (\<lambda>s. Inr (TaskSource_ShutDown s))) xs ?q = Inr q'"
    using Cons.prems by (intro Cons.IH) simp
  with e show ?case by (simp add: update_source_eq)
qed simp

lemma DisposeTasks_total:
  assumes "queues_ok q" and "queue_entries q i = Some e" and "te_subsumed_by e = kUnmerged"
  shows "\<exists>q'. MessageLoopTaskQueues_DisposeTasks i q = Inr q'"
proof -
  from assms(2) obtain q1 where q1: "update_source i (\<lambda>s. Inr (TaskSource_ShutDown s)) q = Inr q1"
    and "\<And>s. queue_entries q s \<noteq> None \<Longrightarrow> queue_entries q1 s \<noteq> None"
    by (auto simp: update_source_def)
  then have "\<exists>q'. ofold (\<lambda>s. update_source s (\<lambda>s. Inr (TaskSource_ShutDown s))) (te_owner_of e) q1 = Inr q'"
    using owned_present [OF assms(1,2)] by (intro ShutDown_fold_total) blast
  with assms q1 show ?thesis by (simp add: MessageLoopTaskQueues_DisposeTasks_def)
qed

text \<open>When \<open>GetNextTaskToRun\<close> takes a task, the grade it then reads is in memory that is gone exactly if
  the task was the only one of its heap.\<close>

lemma GetNextTaskToRun_gone:
  assumes "queues_ok q" and "queue_entries q i = Some e" and "pending q i \<noteq> {#}" and "next_time q i \<le> now"
  shows "\<exists>q' t j ej rest. MessageLoopTaskQueues_GetNextTaskToRun tid i now q = Inr (q', dt_task t) \<and>
    earliest t (pending q i) \<and> queue_entries q j = Some ej \<and>
    source_heap (grade_heap (dt_grade t)) (te_task_source ej) = t # rest \<and>
    (MessageLoopTaskQueues_GetCurrentTaskSourceGrade tid q' = Inr Indeterminate \<longleftrightarrow> rest = [])"
proof (rule GetNextTaskToRun_due [OF assms, of tid], goal_cases)
  case (1 t j ej s)
  show ?case
    by (intro exI conjI, rule 1(10), rule 1(1), rule 1(3), rule 1(6))
      (simp add: MessageLoopTaskQueues_GetCurrentTaskSourceGrade_def reference_after_pop_def split: list.split)
qed

text \<open>C4: on queues that exist, in every reachable state, \<open>at\<close> finds every entry it looks up, no check
  fails and no heap is popped empty, in any operation, exactly under the preconditions of its own that some
  have: disposing a queue or its tasks wants it not subsumed, resuming wants a pause to undo, pausing
  fewer pauses than an \<open>int\<close> can count, a wakeable is set once, an observer is not null, and the
  grade is asked for on a thread that has one. One access is left that no check guards: having taken a
  task, \<open>GetNextTaskToRun\<close> reads a grade from memory that is gone exactly if the task was the
  only one of its heap. (Creating a queue always succeeds.)\<close>

theorem queues_never_fault:
  assumes r: "queues_reachable q" and e: "queue_entries q i = Some e" and j: "queue_entries q j = Some ej"
  shows "(\<exists>b. MessageLoopTaskQueues_HasPendingTasks q i = Inr b) \<and>
    (\<exists>n. MessageLoopTaskQueues_GetNumPendingTasks q i = Inr n) \<and>
    (\<exists>q'. MessageLoopTaskQueues_RegisterTask i c time g q = Inr q') \<and>
    (\<exists>x. MessageLoopTaskQueues_GetNextTaskToRun tid i now q = Inr x) \<and>
    (pending q i \<noteq> {#} \<and> next_time q i \<le> now \<longrightarrow>
      (\<exists>q' t k ek rest. MessageLoopTaskQueues_GetNextTaskToRun tid i now q = Inr (q', dt_task t) \<and>
        earliest t (pending q i) \<and> queue_entries q k = Some ek \<and>
        source_heap (grade_heap (dt_grade t)) (te_task_source ek) = t # rest \<and>
        (MessageLoopTaskQueues_GetCurrentTaskSourceGrade tid q' = Inr Indeterminate \<longleftrightarrow> rest = []))) \<and>
    (\<exists>x. MessageLoopTaskQueues_Merge i j q = Inr x) \<and>
    (\<exists>x. MessageLoopTaskQueues_Unmerge i j q = Inr x) \<and>
    (\<exists>b. MessageLoopTaskQueues_Owns q i j = Inr b) \<and>
    (\<exists>is. MessageLoopTaskQueues_GetSubsumedTaskQueueId q i = Inr is) \<and>
    (\<exists>os. MessageLoopTaskQueues_GetObserversToNotify q i = Inr os) \<and>
    ((\<exists>q'. MessageLoopTaskQueues_AddTaskObserver i key callback q = Inr q') \<longleftrightarrow> callback \<noteq> None) \<and>
    (\<exists>q'. MessageLoopTaskQueues_RemoveTaskObserver i key q = Inr q') \<and>
    ((\<exists>q'. MessageLoopTaskQueues_Dispose i q = Inr q') \<longleftrightarrow> te_subsumed_by e = kUnmerged) \<and>
    ((\<exists>q'. MessageLoopTaskQueues_DisposeTasks i q = Inr q') \<longleftrightarrow> te_subsumed_by e = kUnmerged) \<and>
    ((\<exists>q'. MessageLoopTaskQueues_PauseSecondarySource i q = Inr q') \<longleftrightarrow>
       ts_pause_requests (te_task_source e) < INT_MAX) \<and>
    ((\<exists>q'. MessageLoopTaskQueues_ResumeSecondarySource i q = Inr q') \<longleftrightarrow>
       ts_pause_requests (te_task_source e) > 0) \<and>
    ((\<exists>q'. MessageLoopTaskQueues_SetWakeable i w q = Inr q') \<longleftrightarrow> te_wakeable e = None) \<and>
    ((\<exists>g. MessageLoopTaskQueues_GetCurrentTaskSourceGrade tid q = Inr g) \<longleftrightarrow> tls_task_source_grade q tid \<noteq> None)"
proof -
  have ok: "queues_ok q" using r by (rule queues_reachable_ok)
  have resume: "(\<exists>q'. MessageLoopTaskQueues_ResumeSecondarySource i q = Inr q') \<longleftrightarrow>
       ts_pause_requests (te_task_source e) > 0"
  proof (cases "ts_pause_requests (te_task_source e) > 0")
    case True
    let ?s = "(te_task_source e)\<lparr>ts_pause_requests := ts_pause_requests (te_task_source e) - 1\<rparr>"
    have "source_ok ?s \<and> ts_task_queue_id ?s = i"
      using True queues_okD(4,5) [OF ok e] by (simp add: source_ok_def)
    then have "queues_ok (q\<lparr>queue_entries := (queue_entries q)(i \<mapsto> e\<lparr>te_task_source := ?s\<rparr>)\<rparr>)"
      using ok e by (intro queues_ok_source_update) simp_all
    from wake_if_pending_eq [OF this, of i] e True show ?thesis
      by (simp add: MessageLoopTaskQueues_ResumeSecondarySource_def update_source_def
          TaskSource_ResumeSecondary_def)
  next
    case False
    with e show ?thesis
      by (simp add: MessageLoopTaskQueues_ResumeSecondarySource_def update_source_def
          TaskSource_ResumeSecondary_def)
  qed
  have next': "\<exists>x. MessageLoopTaskQueues_GetNextTaskToRun tid i now q = Inr x"
    using GetNextTaskToRun_none [OF ok e] GetNextTaskToRun_later [OF ok e, of now]
      GetNextTaskToRun_due [OF ok e, of now tid] by (metis not_le)
  have merge: "\<exists>x. MessageLoopTaskQueues_Merge i j q = Inr x"
    using Merge_done [OF ok e j] Merge_refused [OF e j] by blast
  have unmerge: "\<exists>x. MessageLoopTaskQueues_Unmerge i j q = Inr x"
    using Unmerge_done [OF ok e j] Unmerge_refused [OF ok e j] by blast
  have dispose: "(\<exists>q'. MessageLoopTaskQueues_Dispose i q = Inr q') \<longleftrightarrow> te_subsumed_by e = kUnmerged"
    using e by (auto simp: MessageLoopTaskQueues_Dispose_def obind_eq_Inr)
  have tasks: "(\<exists>q'. MessageLoopTaskQueues_DisposeTasks i q = Inr q') \<longleftrightarrow> te_subsumed_by e = kUnmerged"
    using DisposeTasks_total [OF ok e] e
    by (auto simp: MessageLoopTaskQueues_DisposeTasks_def obind_eq_Inr)
  have "(\<exists>q'. MessageLoopTaskQueues_SetWakeable i w q = Inr q') \<longleftrightarrow> te_wakeable e = None"
    using e by (auto simp: MessageLoopTaskQueues_SetWakeable_def update_entry_def obind_eq_Inr)
  moreover have "(\<exists>q'. MessageLoopTaskQueues_PauseSecondarySource i q = Inr q') \<longleftrightarrow>
      ts_pause_requests (te_task_source e) < INT_MAX"
    using e by (auto simp: MessageLoopTaskQueues_PauseSecondarySource_def update_source_def TaskSource_PauseSecondary_def
        obind_eq_Inr)
  moreover have "(\<exists>q'. MessageLoopTaskQueues_AddTaskObserver i key callback q = Inr q') \<longleftrightarrow> callback \<noteq> None"
    using e by (auto simp: MessageLoopTaskQueues_AddTaskObserver_def update_entry_def obind_eq_Inr)
  moreover have "\<exists>q'. MessageLoopTaskQueues_RemoveTaskObserver i key q = Inr q'"
    using e by (simp add: MessageLoopTaskQueues_RemoveTaskObserver_def update_entry_def)
  moreover have "\<exists>b. MessageLoopTaskQueues_Owns q i j = Inr b" "\<exists>is. MessageLoopTaskQueues_GetSubsumedTaskQueueId q i = Inr is"
    using e by (auto simp: MessageLoopTaskQueues_Owns_def MessageLoopTaskQueues_GetSubsumedTaskQueueId_def)
  moreover have "(\<exists>g. MessageLoopTaskQueues_GetCurrentTaskSourceGrade tid q = Inr g) \<longleftrightarrow> tls_task_source_grade q tid \<noteq> None"
    by (auto simp: MessageLoopTaskQueues_GetCurrentTaskSourceGrade_def split: option.split)
  moreover have "\<exists>b. MessageLoopTaskQueues_HasPendingTasks q i = Inr b" "\<exists>n. MessageLoopTaskQueues_GetNumPendingTasks q i = Inr n"
    "\<exists>q'. MessageLoopTaskQueues_RegisterTask i c time g q = Inr q'" "\<exists>os. MessageLoopTaskQueues_GetObserversToNotify q i = Inr os"
    using RegisterTask_eq [OF ok e] GetObserversToNotify_eq [OF ok e]
      HasPendingTasksUnlocked_eq [OF ok e] GetNumPendingTasks_eq [OF ok e]
    by (simp_all add: MessageLoopTaskQueues_HasPendingTasks_def)
  ultimately show ?thesis
    using next' merge unmerge dispose tasks resume GetNextTaskToRun_gone [OF ok e, of now tid] by simp
qed

theorem queues_never_fault_witness:
  "(\<exists>x. MessageLoopTaskQueues_GetNextTaskToRun 3 1 9 sample_merged = Inr x) \<and>
   \<not> (\<exists>q'. MessageLoopTaskQueues_Dispose 1 sample_merged = Inr q') \<and>
   (\<exists>q'. MessageLoopTaskQueues_AddTaskObserver 1 4 (Some 80) sample_merged = Inr q') \<and>
   \<not> (\<exists>q'. MessageLoopTaskQueues_AddTaskObserver 1 4 None sample_merged = Inr q')"
  using queues_never_fault [OF reachable_sample_merged sample_present(4) sample_present(3), of _ _ _ 3 9 4 "Some 80"]
    queues_never_fault [OF reachable_sample_merged sample_present(4) sample_present(3), of _ _ _ 3 9 4 None]
  by (simp add: TaskQueueEntry_new_def kUnmerged_def)

end
