(* ===== verification/Task_Order.thy ===== *)
theory Task_Order
  imports Task_Queue_Props
begin

section \<open>The order in which tasks run\<close>

text \<open>
  Tasks that become due at the same time run in the order they were registered. \<open>RegisterTask\<close>
  numbers tasks with \<open>size_t order = order_++\<close>, where \<open>order_\<close> is an atomic \<open>int\<close>: the number
  is sign-extended, so it keeps growing past \<open>INT_MAX\<close> and only falls back to 0 at the
  registration after the 2^32nd. Up to there every registration gets a larger number than all
  the tasks in the queues.
\<close>

subsection \<open>Order numbers grow\<close>

lemma sint_by_uint:
  fixes n :: "32 word"
  shows "sint n = (if uint n < 2 ^ 31 then uint n else uint n - 2 ^ 32)"
proof -
  have u: "0 \<le> uint n" "uint n < 2 ^ 32" using uint_lt2p [of n] by simp_all
  have "sint n = (uint n + 2 ^ 31) mod 2 ^ 32 - 2 ^ 31"
    using int_word_sint [of "uint n", where 'a = 32] by simp
  moreover have "uint n < 2 ^ 31 \<Longrightarrow> (uint n + 2 ^ 31) mod 2 ^ 32 = uint n + 2 ^ 31"
    using u by simp
  moreover have "\<not> uint n < 2 ^ 31 \<Longrightarrow> (uint n + 2 ^ 31) mod 2 ^ 32 = uint n + 2 ^ 31 - 2 ^ 32"
    using u by (simp add: mod_pos_geq)
  ultimately show ?thesis by simp
qed

lemma uint_order_value:
  "uint (order_value n) = (if uint n < 2 ^ 31 then uint n else uint n + (2 ^ 64 - 2 ^ 32))"
proof -
  have u: "0 \<le> uint n" "uint n < 2 ^ 32" using uint_lt2p [of n] by simp_all
  have "uint (order_value n) = sint n mod 2 ^ 64"
    unfolding order_value_def scast_eq uint_word_of_int take_bit_eq_mod by simp
  moreover have "\<not> uint n < 2 ^ 31 \<Longrightarrow> (uint n - 2 ^ 32) mod 2 ^ 64 = uint n - 2 ^ 32 + 2 ^ 64"
  proof -
    assume a: "\<not> uint n < 2 ^ 31"
    have "(uint n - 2 ^ 32 + 2 ^ 64) mod 2 ^ 64 = uint n - 2 ^ 32 + 2 ^ 64"
      using a u by (intro mod_pos_pos_trivial) simp_all
    then show ?thesis by (simp only: mod_add_self2)
  qed
  ultimately show ?thesis using u by (simp add: sint_by_uint)
qed

lemma uint_Suc_word:
  fixes n :: "32 word"
  assumes "n \<noteq> - 1"
  shows "uint (n + 1) = uint n + 1"
proof (rule ccontr)
  assume *: "uint (n + 1) \<noteq> uint n + 1"
  then have "uint (n + 1) = uint n + 1 - 2 ^ 32" and "\<not> uint n + 1 < 2 ^ 32"
    using uint_plus_if' [of n 1] by (simp_all split: if_splits)
  then have "uint (n + 1) = 0" using uint_lt2p [of n] by simp
  then have "n + 1 = 0" by (simp only: uint_0_iff)
  with assms show False by (simp add: add_eq_0_iff2)
qed

lemma order_value_Suc: "n \<noteq> - 1 \<Longrightarrow> order_value n < order_value (n + 1)"
  by (simp add: word_less_def uint_order_value uint_Suc_word)

subsection \<open>No operation but registering adds a task\<close>

definition all_tasks :: "'c MessageLoopTaskQueues \<Rightarrow> 'c DelayedTask set" where
  "all_tasks q = {t. \<exists>i e. queue_entries q i = Some e \<and> t \<in># source_tasks (te_task_source e)}"

definition tasks_within :: "'c DelayedTask set \<Rightarrow> 'c MessageLoopTaskQueues \<Rightarrow> 'c MessageLoopTaskQueues \<Rightarrow> bool" where
  "tasks_within A q q' \<longleftrightarrow> order_counter q' = order_counter q \<and> all_tasks q' \<subseteq> A \<union> all_tasks q"

lemma tasks_within_refl [simp]: "tasks_within A q q"
  by (simp add: tasks_within_def)

lemma tasks_within_trans: "tasks_within A q q1 \<Longrightarrow> tasks_within A q1 q2 \<Longrightarrow> tasks_within A q q2"
  by (auto simp: tasks_within_def)

lemma tasks_within_frame:
  "queue_entries q' = queue_entries q \<Longrightarrow> order_counter q' = order_counter q \<Longrightarrow> tasks_within A q q'"
  by (simp add: tasks_within_def all_tasks_def)

lemma tasks_withinI:
  assumes "order_counter q' = order_counter q"
    and "\<And>i e t. queue_entries q' i = Some e \<Longrightarrow> t \<in># source_tasks (te_task_source e) \<Longrightarrow> t \<in> A \<union> all_tasks q"
  shows "tasks_within A q q'"
proof -
  have "all_tasks q' \<subseteq> A \<union> all_tasks q" unfolding all_tasks_def [of q'] using assms(2) by blast
  with assms(1) show ?thesis by (simp add: tasks_within_def)
qed

lemma all_tasksI:
  "queue_entries q i = Some e \<Longrightarrow> t \<in># source_tasks (te_task_source e) \<Longrightarrow> t \<in> all_tasks q"
  by (auto simp: all_tasks_def)

lemma tasks_update_entry:
  assumes "update_entry i f q = Inr q'" and "\<And>e. te_task_source (f e) = te_task_source e"
  shows "tasks_within A q q'"
  using assms
  by (intro tasks_withinI)
    (auto 0 3 simp: update_entry_def obind_eq_Inr dest: all_tasksI split: if_splits)

lemma tasks_update_source:
  assumes "update_source i f q = Inr q'"
    and "\<And>s s'. f s = Inr s' \<Longrightarrow> set_mset (source_tasks s') \<subseteq> A \<union> set_mset (source_tasks s)"
  shows "tasks_within A q q'"
  using assms
  by (intro tasks_withinI)
    (fastforce simp: update_source_def obind_eq_Inr intro: all_tasksI split: if_splits)+

lemma update_owner_of_within:
  "update_entry i (\<lambda>e. e\<lparr>te_owner_of := h e\<rparr>) q = Inr q' \<Longrightarrow> tasks_within A q q'"
  "update_entry i (\<lambda>e. e\<lparr>te_subsumed_by := k\<rparr>) q = Inr q' \<Longrightarrow> tasks_within A q q'"
  by (erule tasks_update_entry, simp)+

lemma WakeUpUnlocked_within: "WakeUpUnlocked i t q = Inr q' \<Longrightarrow> tasks_within A q q'"
  by (rule tasks_within_frame) (auto simp: WakeUpUnlocked_def obind_eq_Inr split: option.splits)

lemma wake_if_pending_within: "wake_if_pending i q = Inr q' \<Longrightarrow> tasks_within A q q'"
  by (auto simp: wake_if_pending_def obind_eq_Inr split: if_splits intro: WakeUpUnlocked_within)

lemma source_tasks_PopTask:
  "TaskSource_PopTask g s = Inr s' \<Longrightarrow> set_mset (source_tasks s') \<subseteq> A \<union> set_mset (source_tasks s)"
  by (cases g) (auto simp: TaskSource_PopTask_def obind_eq_Inr source_tasks_def)

lemma GetNextTaskToRun_within:
  assumes "MessageLoopTaskQueues_GetNextTaskToRun tid i now q = Inr (q', c)"
  shows "tasks_within A q q'"
proof -
  from assms consider "q' = q"
    | t where "obind (GetNextWakeTimeUnlocked q i) (\<lambda>t. WakeUpUnlocked i t q) = Inr t" "q' = t"
    | j g q1 q2 cell where "obind (GetNextWakeTimeUnlocked q i) (\<lambda>t. WakeUpUnlocked i t q) = Inr q1"
      "update_source j (TaskSource_PopTask g) q1 = Inr q2" "q' = q2\<lparr>tls_task_source_grade := cell\<rparr>"
    by (auto simp: MessageLoopTaskQueues_GetNextTaskToRun_def Let_def obind_eq_Inr split: if_splits)
  then show ?thesis
  proof cases
    case 3
    from 3(1) have "tasks_within A q q1" by (auto simp: obind_eq_Inr intro: WakeUpUnlocked_within)
    moreover have "tasks_within A q1 q2"
      using 3(2) by (rule tasks_update_source) (rule source_tasks_PopTask)
    moreover have "tasks_within A q2 q'" by (rule tasks_within_frame) (simp_all add: 3(3))
    ultimately show ?thesis by (blast intro: tasks_within_trans)
  qed (auto simp: obind_eq_Inr intro: WakeUpUnlocked_within)
qed

lemma Merge_within:
  "MessageLoopTaskQueues_Merge owner sub q = Inr (q', b) \<Longrightarrow> tasks_within A q q'"
  unfolding MessageLoopTaskQueues_Merge_def
  by (auto simp: obind_eq_Inr split: if_splits dest!: wake_if_pending_within [where A = A]
      update_owner_of_within [where A = A] intro: tasks_within_trans)

lemma Unmerge_within:
  "MessageLoopTaskQueues_Unmerge owner sub q = Inr (q', b) \<Longrightarrow> tasks_within A q q'"
  unfolding MessageLoopTaskQueues_Unmerge_def
  by (auto simp: obind_eq_Inr split: if_splits dest!: wake_if_pending_within [where A = A]
      update_owner_of_within [where A = A] intro: tasks_within_trans)

lemma RegisterTask_within:
  assumes "MessageLoopTaskQueues_RegisterTask i c time g q = Inr q'"
  shows "order_counter q' = order_counter q + 1 \<and> all_tasks q' \<subseteq> insert
    \<lparr>dt_order = order_value (order_counter q), dt_task = c, dt_target_time = time, dt_grade = g\<rparr> (all_tasks q)"
proof -
  let ?t = "\<lparr>dt_order = order_value (order_counter q), dt_task = c, dt_target_time = time, dt_grade = g\<rparr>"
  let ?q1 = "q\<lparr>order_counter := order_counter q + 1\<rparr>"
  from assms obtain q2 l where
    u: "update_source i (\<lambda>s. Inr (TaskSource_RegisterTask ?t s)) ?q1 = Inr q2"
    and w: "wake_if_pending l q2 = Inr q'"
    unfolding MessageLoopTaskQueues_RegisterTask_def Let_def by (elim obind_eq_InrE) blast
  have "tasks_within {?t} ?q1 q2" using u by (rule tasks_update_source) auto
  moreover have "tasks_within {?t} q2 q'" using w by (rule wake_if_pending_within)
  ultimately have "tasks_within {?t} ?q1 q'" by (rule tasks_within_trans)
  then show ?thesis by (simp add: tasks_within_def all_tasks_def)
qed

lemma Dispose_within: "MessageLoopTaskQueues_Dispose i q = Inr q' \<Longrightarrow> tasks_within A q q'"
proof -
  have "order_counter (fold erase_entry xs q) = order_counter q" for xs
    by (induction xs arbitrary: q) (simp_all add: erase_entry_def)
  then show "MessageLoopTaskQueues_Dispose i q = Inr q' \<Longrightarrow> tasks_within A q q'"
    by (intro tasks_withinI)
      (auto simp: MessageLoopTaskQueues_Dispose_def obind_eq_Inr erase_entry_def entries_fold_erase
        intro: all_tasksI split: if_splits)
qed

lemma DisposeTasks_within:
  assumes "MessageLoopTaskQueues_DisposeTasks i q = Inr q'"
  shows "tasks_within A q q'"
proof -
  have shut: "tasks_within A q1 q2" if "update_source j (\<lambda>s. Inr (TaskSource_ShutDown s)) q1 = Inr q2"
    for j and q1 q2 :: "'a MessageLoopTaskQueues"
    using that by (rule tasks_update_source) auto
  from assms obtain xs q1 where q1: "update_source i (\<lambda>s. Inr (TaskSource_ShutDown s)) q = Inr q1"
    and f: "ofold (\<lambda>sub. update_source sub (\<lambda>s. Inr (TaskSource_ShutDown s))) xs q1 = Inr q'"
    unfolding MessageLoopTaskQueues_DisposeTasks_def by (elim obind_eq_InrE) blast
  from f show ?thesis
    by (rule ofold_invariant [where P = "tasks_within A q"])
      (use shut q1 in \<open>blast intro: tasks_within_trans\<close>)+
qed

lemma source_pause_within:
  "MessageLoopTaskQueues_PauseSecondarySource i q = Inr q' \<Longrightarrow> tasks_within A q q'"
  "update_source i TaskSource_ResumeSecondary q = Inr q' \<Longrightarrow> tasks_within A q q'"
  unfolding MessageLoopTaskQueues_PauseSecondarySource_def
  by (erule tasks_update_source, auto simp: TaskSource_PauseSecondary_def TaskSource_ResumeSecondary_def
      Let_def obind_eq_Inr source_tasks_def)+

lemma ResumeSecondarySource_within:
  "MessageLoopTaskQueues_ResumeSecondarySource i q = Inr q' \<Longrightarrow> tasks_within A q q'"
  by (auto simp: MessageLoopTaskQueues_ResumeSecondarySource_def obind_eq_Inr
      dest!: source_pause_within(2) [where A = A] wake_if_pending_within [where A = A]
      intro: tasks_within_trans)

lemma entry_fields_within:
  "MessageLoopTaskQueues_AddTaskObserver i k c q = Inr q' \<Longrightarrow> tasks_within A q q'"
  "MessageLoopTaskQueues_RemoveTaskObserver i k q = Inr q' \<Longrightarrow> tasks_within A q q'"
  "MessageLoopTaskQueues_SetWakeable i w q = Inr q' \<Longrightarrow> tasks_within A q q'"
  by (auto simp: MessageLoopTaskQueues_AddTaskObserver_def MessageLoopTaskQueues_RemoveTaskObserver_def
      MessageLoopTaskQueues_SetWakeable_def obind_eq_Inr elim: tasks_update_entry)

lemma source_tasks_new [simp]: "source_tasks (te_task_source (TaskQueueEntry_new i)) = {#}"
  by (simp add: TaskQueueEntry_new_def TaskSource_new_def source_tasks_def)

lemma CreateTaskQueue_within:
  "MessageLoopTaskQueues_CreateTaskQueue q = (q', i) \<Longrightarrow> tasks_within A q q'"
  by (intro tasks_withinI)
    (auto 0 3 simp: MessageLoopTaskQueues_CreateTaskQueue_def Let_def dest: all_tasksI split: if_splits)

lemmas within_steps =
  CreateTaskQueue_within Dispose_within DisposeTasks_within GetNextTaskToRun_within
  entry_fields_within Merge_within Unmerge_within source_pause_within(1) ResumeSecondarySource_within

lemma queues_step_tasks:
  assumes "queues_step q q'"
  shows "tasks_within {} q q' \<or>
    (\<exists>t. dt_order t = order_value (order_counter q) \<and> order_counter q' = order_counter q + 1 \<and>
       all_tasks q' \<subseteq> insert t (all_tasks q))"
  using assms
proof cases
  case (register i c t g)
  then show ?thesis using RegisterTask_within [OF register] by fastforce
qed (blast intro: within_steps)+

subsection \<open>First in, first out\<close>

text \<open>A run together with the tasks registered in it, in the order of their registration, as long as there are
  fewer than 2^32 of them. Any other operation may come between two registrations; it leaves the
  counter alone.\<close>

inductive queues_history :: "'c MessageLoopTaskQueues \<Rightarrow> 'c DelayedTask list \<Rightarrow> bool" where
  start: "queues_history (MessageLoopTaskQueues_new tid) []"
| register: "queues_history q reg \<Longrightarrow> order_counter q \<noteq> - 1 \<Longrightarrow>
    MessageLoopTaskQueues_RegisterTask i c time g q = Inr q' \<Longrightarrow>
    queues_history q' (reg @ [\<lparr>dt_order = order_value (order_counter q), dt_task = c, dt_target_time = time, dt_grade = g\<rparr>])"
| other: "queues_history q reg \<Longrightarrow> queues_step q q' \<Longrightarrow> order_counter q' = order_counter q \<Longrightarrow> queues_history q' reg"

text \<open>The numbers of the registered tasks grow, and whatever is in the queues has been registered.\<close>

definition history_ok :: "'c MessageLoopTaskQueues \<Rightarrow> 'c DelayedTask list \<Rightarrow> bool" where
  "history_ok q reg \<longleftrightarrow> all_tasks q \<subseteq> set reg \<and> sorted_wrt (\<lambda>t u. dt_order t < dt_order u) reg \<and>
     (\<forall>t \<in> set reg. dt_order t < order_value (order_counter q))"

lemma queues_history_ok: "queues_history q reg \<Longrightarrow> history_ok q reg"
proof (induction rule: queues_history.induct)
  case (start tid)
  show ?case by (simp add: history_ok_def all_tasks_def MessageLoopTaskQueues_new_def)
next
  case (register q reg i c time g q')
  have "order_value (order_counter q) < order_value (order_counter q + 1)"
    using register(2) by (rule order_value_Suc)
  with register(4) RegisterTask_within [OF register(3)] show ?case
    by (auto simp: history_ok_def sorted_wrt_append intro: less_trans)
next
  case (other q reg q')
  have "order_counter q + 1 \<noteq> order_counter q" by simp
  with queues_step_tasks [OF other(2)] other(3) have "tasks_within {} q q'" by auto
  with other(4) show ?case by (auto simp: history_ok_def tasks_within_def)
qed

lemma queues_history_reachable: "queues_history q reg \<Longrightarrow> queues_reachable q"
  by (induction rule: queues_history.induct) (auto intro: queues_reachable.intros queues_step.register)

lemma available_source_tasks: "t \<in># available s \<Longrightarrow> t \<in># source_tasks s"
  by (auto simp: available_def source_tasks_def split: if_splits)

lemma pending_all_tasks: "t \<in># pending q i \<Longrightarrow> t \<in> all_tasks q"
  by (auto simp: pending_def available_at_def dest!: available_source_tasks split: option.splits if_splits
      intro: all_tasksI)

text \<open>C5: first in, first out. In a run with fewer than 2^32 registrations, let tasks be due at a loop. The task
  that \<open>GetNextTaskToRun\<close> takes and returns is the \<open>b\<close>-th one registered in the run for some \<open>b\<close>, and no task
  registered before it for the same or an earlier time is available at that loop: each of these has been taken or
  disposed of, is a micro-task whose source is paused, or is in a queue that the loop does not serve.\<close>

theorem registration_order_kept:
  assumes "queues_history q reg" and "queue_entries q i = Some e" and "pending q i \<noteq> {#}" and "next_time q i \<le> now"
  shows "\<exists>q' b. MessageLoopTaskQueues_GetNextTaskToRun tid i now q = Inr (q', dt_task (reg ! b)) \<and> b < length reg \<and>
    reg ! b \<in># pending q i \<and> pending q' i = pending q i - {#reg ! b#} \<and>
    (\<forall>a < b. dt_target_time (reg ! a) \<le> dt_target_time (reg ! b) \<longrightarrow> reg ! a \<notin># pending q i)"
proof -
  have ok: "queues_ok q" using assms(1) by (intro queues_reachable_ok queues_history_reachable)
  have h: "history_ok q reg" using assms(1) by (rule queues_history_ok)
  obtain q' t where t: "MessageLoopTaskQueues_GetNextTaskToRun tid i now q = Inr (q', dt_task t)"
    "earliest t (pending q i)" "pending q' i = pending q i - {#t#}"
    by (rule GetNextTaskToRun_takes [OF ok assms(2-4)])
  have here: "t \<in># pending q i" using t(2) by (simp add: earliest_def)
  then have "t \<in> set reg" using pending_all_tasks [OF here] h by (auto simp: history_ok_def)
  then obtain b where b: "b < length reg" "reg ! b = t" by (auto simp: in_set_conv_nth)
  have "reg ! a \<notin># pending q i" if "a < b" "dt_target_time (reg ! a) \<le> dt_target_time t" for a
  proof -
    have "dt_order (reg ! a) < dt_order t" using h that(1) b by (auto simp: history_ok_def sorted_wrt_iff_nth_less)
    then have "DelayedTask_gt t (reg ! a)" using that(2) by (auto simp: DelayedTask_gt_def)
    with t(2) show ?thesis by (auto simp: earliest_def)
  qed
  with t b here show ?thesis by (intro exI [of _ q'] exI [of _ b]) simp
qed

text \<open>The two tasks of the sample, which are for the same time.\<close>

lemma history_new: "queues_history sample_queues [] \<and> order_counter sample_queues = 0"
proof -
  note m = MessageLoopTaskQueues_CreateTaskQueue_def MessageLoopTaskQueues_SetWakeable_def update_entry_def
    MessageLoopTaskQueues_new_def Let_def step_or_stay_def TaskQueueEntry_new_def
  let ?q0 = "fst (MessageLoopTaskQueues_CreateTaskQueue (MessageLoopTaskQueues_new 0 :: nat MessageLoopTaskQueues))"
  let ?q1 = "fst (MessageLoopTaskQueues_CreateTaskQueue ?q0)"
  let ?q2 = "step_or_stay (MessageLoopTaskQueues_SetWakeable 0 (Some 10) ?q1) ?q1"
  let ?q3 = "step_or_stay (MessageLoopTaskQueues_SetWakeable 1 (Some 11) ?q2) ?q2"
  have "queues_history ?q0 []"
    by (rule queues_history.other [OF queues_history.start queues_step.create [OF _ prod.collapse [symmetric]]])
      (simp_all add: m kUnmerged_def)
  then have "queues_history ?q1 []"
    by (rule queues_history.other [OF _ queues_step.create [OF _ prod.collapse [symmetric]]])
      (simp_all add: m kUnmerged_def)
  moreover have "MessageLoopTaskQueues_SetWakeable 0 (Some 10) ?q1 = Inr ?q2" by (simp add: m)
  ultimately have "queues_history ?q2 []"
    by (rule queues_history.other [OF _ queues_step.set_wakeable]) (simp add: m)
  moreover have "MessageLoopTaskQueues_SetWakeable 1 (Some 11) ?q2 = Inr ?q3" by (simp add: m)
  ultimately have "queues_history ?q3 []"
    by (rule queues_history.other [OF _ queues_step.set_wakeable]) (simp add: m)
  moreover have "sample_queues = ?q3" by (simp add: sample_queues_def Let_def)
  moreover have "order_counter ?q3 = 0" by (simp add: m)
  ultimately show ?thesis by simp
qed

lemma history_sample_tasks: "queues_history sample_tasks [task70, task71]"
proof -
  note h = history_new [THEN conjunct1] history_new [THEN conjunct2]
  note ok = queues_history_reachable [THEN queues_reachable_ok]
  have "queue_entries sample_queues 1 = Some ((TaskQueueEntry_new 1)\<lparr>te_wakeable := Some 11\<rparr>)"
    by (simp add: sample_queues_entries)
  from RegisterTask_eq [OF ok [OF h(1)] this] obtain q1 where
    q1: "MessageLoopTaskQueues_RegisterTask 1 (Some 70) 5 kUserInteraction sample_queues = Inr q1"
      "queue_entries q1 1 \<noteq> None" by auto
  have n1: "order_counter q1 = 1" using RegisterTask_within [OF q1(1)] h(2) by simp
  have h1: "queues_history q1 [task70]"
    using queues_history.register [OF h(1) _ q1(1)] by (simp add: h(2) order_value_def)
  from q1(2) obtain e1 where "queue_entries q1 1 = Some e1" by blast
  from RegisterTask_eq [OF ok [OF h1] this] obtain q2 where
    q2: "MessageLoopTaskQueues_RegisterTask 1 (Some 71) 5 kUnspecified q1 = Inr q2" by auto
  have "queues_history q2 [task70, task71]"
    using queues_history.register [OF h1 _ q2] by (simp add: n1 order_value_def)
  moreover have "sample_tasks = q2" by (simp add: sample_tasks_def step_or_stay_def q1(1) q2 Let_def)
  ultimately show ?thesis by simp
qed

lemma history_sample_merged: "queues_history sample_merged [task70, task71]"
proof (cases "MessageLoopTaskQueues_Merge 0 1 sample_tasks")
  case (Inl f)
  then show ?thesis by (simp add: sample_merged_def step_or_stay_def history_sample_tasks)
next
  case (Inr r)
  have m: "MessageLoopTaskQueues_Merge 0 1 sample_tasks = Inr (sample_merged, snd r)"
    using Inr by (simp add: sample_merged_def step_or_stay_def)
  have "tasks_within {} sample_tasks sample_merged" using m by (rule Merge_within)
  then have "order_counter sample_merged = order_counter sample_tasks" by (simp add: tasks_within_def)
  with history_sample_tasks queues_step.merge [OF m] show ?thesis by (rule queues_history.other)
qed

theorem registration_order_kept_witness:
  "\<exists>q'. MessageLoopTaskQueues_GetNextTaskToRun 3 0 7 sample_merged = Inr (q', Some 70) \<and> pending q' 0 = {#task71#}"
proof -
  have "pending sample_merged 0 \<noteq> {#}" "next_time sample_merged 0 \<le> 7"
    by (simp_all add: pending_sample_merged next_time_sample_merged)
  from registration_order_kept [OF history_sample_merged sample_present(3) this, of 3] obtain q' b where
    q': "MessageLoopTaskQueues_GetNextTaskToRun 3 0 7 sample_merged = Inr (q', dt_task ([task70, task71] ! b))" "b < 2"
      "pending q' 0 = pending sample_merged 0 - {#[task70, task71] ! b#}"
    and first: "\<forall>a < b. dt_target_time ([task70, task71] ! a) \<le> dt_target_time ([task70, task71] ! b) \<longrightarrow>
      [task70, task71] ! a \<notin># pending sample_merged 0" by auto
  have "b = 0"
  proof (rule ccontr)
    assume "b \<noteq> 0"
    with q'(2) have "b = 1" by simp
    with first [rule_format, of 0] show False by (simp add: pending_sample_merged)
  qed
  with q' show ?thesis by (simp add: pending_sample_merged)
qed

end
