(* ===== verification/Message_Loop.thy ===== *)
theory Message_Loop
  imports Task_Order
begin

section \<open>Message loops and task runners\<close>

text \<open>
  \<open>app/src/main/cpp/message_loop_impl.{h,cc}\<close>, \<open>message_loop.{h,cc}\<close>, \<open>task_runner.{h,cc}\<close>,
  \<open>task_runners.{h,cc}\<close>, \<open>memory/task_runner_checker.{h,cc}\<close> and
  \<open>android/message_loop_android.{h,cc}\<close>. The world holds the task queues, the loop objects by
  address, the thread-local \<open>MessageLoop\<close> of each thread and the clock. What a closure does when
  it is called is a parameter, \<open>exec\<close>: a function from the world to the world, which may post
  further tasks, merge queues or fault. The NDK calls (\<open>ALooper_\<close>*, \<open>timerfd_create\<close>) are the
  fields of a record of results.

  The log is a history variable: the closures a loop has called, in order.
\<close>

subsection \<open>State\<close>

type_synonym loop_addr = nat

record MessageLoopImpl =
  ml_queue_id :: TaskQueueId
  ml_terminated :: bool
  ml_looper :: nat
  ml_timer_fd :: int
  ml_running :: bool

record TaskRunner =
  tr_loop :: "loop_addr option"

record MessageLoop =
  lp_loop :: loop_addr
  lp_task_runner :: TaskRunner

datatype 'c event = Task 'c | Observer 'c

record 'c world =
  w_queues :: "'c MessageLoopTaskQueues"
  w_loops :: "loop_addr \<rightharpoonup> MessageLoopImpl"
  w_next_loop :: loop_addr
  w_tls_message_loop :: "thread_id \<rightharpoonup> MessageLoop"
  w_clock :: clock
  w_log :: "'c event list"

type_synonym 'c exec = "'c \<Rightarrow> 'c world \<Rightarrow> 'c world outcome"

text \<open>A loop is only reached through a pointer; a dangling one is undefined behaviour.\<close>

definition loop_at :: "'c world \<Rightarrow> loop_addr \<Rightarrow> MessageLoopImpl outcome" where
  "loop_at w a = (case w_loops w a of None \<Rightarrow> Inl Undefined_Behaviour | Some l \<Rightarrow> Inr l)"

definition update_loop ::
  "loop_addr \<Rightarrow> (MessageLoopImpl \<Rightarrow> MessageLoopImpl) \<Rightarrow> 'c world \<Rightarrow> 'c world outcome" where
  "update_loop a f w = obind (loop_at w a) (\<lambda>l. Inr (w\<lparr>w_loops := (w_loops w)(a \<mapsto> f l)\<rparr>))"

definition on_queues ::
  "('c MessageLoopTaskQueues \<Rightarrow> 'c MessageLoopTaskQueues outcome) \<Rightarrow> 'c world \<Rightarrow> 'c world outcome" where
  "on_queues f w = obind (f (w_queues w)) (\<lambda>q. Inr (w\<lparr>w_queues := q\<rparr>))"

text \<open>Calling a \<open>std::function\<close>.\<close>

definition invoke :: "'c exec \<Rightarrow> ('c \<Rightarrow> 'c event) \<Rightarrow> 'c closure \<Rightarrow> 'c world \<Rightarrow> 'c world outcome" where
  "invoke exec kind c w =
     (case c of
        None \<Rightarrow> Inl Bad_Function_Call
      | Some f \<Rightarrow> exec f (w\<lparr>w_log := w_log w @ [kind f]\<rparr>))"

subsection \<open>MessageLoopAndroid: construction\<close>

record ndk =
  ALooper_forThread :: "thread_id \<Rightarrow> nat"
  ALooper_prepare :: "thread_id \<Rightarrow> nat"
  timerfd_create :: int
  ALooper_addFd :: int
  ALooper_removeFd :: int

definition AcquireLooperForThread :: "ndk \<Rightarrow> thread_id \<Rightarrow> nat" where
  "AcquireLooperForThread n tid =
     (let looper = ALooper_forThread n tid in if looper = 0 then ALooper_prepare n tid else looper)"

text \<open>The constructor of the base class (a queue, whose wakeable is the new loop), then that of
  \<open>MessageLoopAndroid\<close>.\<close>

definition MessageLoopImpl_init :: "'c world \<Rightarrow> ('c world \<times> loop_addr \<times> TaskQueueId) outcome" where
  "MessageLoopImpl_init w =
     (let (q1, queue_id) = MessageLoopTaskQueues_CreateTaskQueue (w_queues w);
          this = w_next_loop w
      in obind (MessageLoopTaskQueues_SetWakeable queue_id (Some this) q1) (\<lambda>q2.
         Inr (w\<lparr>w_queues := q2, w_next_loop := this + 1\<rparr>, this, queue_id)))"

definition MessageLoopAndroid_new :: "ndk \<Rightarrow> thread_id \<Rightarrow> 'c world \<Rightarrow> ('c world \<times> loop_addr) outcome" where
  "MessageLoopAndroid_new n tid w =
     obind (MessageLoopImpl_init w) (\<lambda>(w1, this, queue_id).
     let looper = AcquireLooperForThread n tid; timer_fd = timerfd_create n
     in obind (check (looper \<noteq> 0)) (\<lambda>_.
        obind (check (timer_fd \<ge> 0)) (\<lambda>_.
        obind (check (ALooper_addFd n = 1)) (\<lambda>_.
        Inr (w1\<lparr>w_loops := (w_loops w1)(this \<mapsto>
                \<lparr>ml_queue_id = queue_id, ml_terminated = False, ml_looper = looper,
                 ml_timer_fd = timer_fd, ml_running = False\<rparr>)\<rparr>, this)))))"

text \<open>The destructors, in C++ order: the derived class removes the descriptor, the base class
  disposes the queue.\<close>

definition MessageLoopAndroid_destroy :: "ndk \<Rightarrow> loop_addr \<Rightarrow> 'c world \<Rightarrow> 'c world outcome" where
  "MessageLoopAndroid_destroy n this w =
     obind (loop_at w this) (\<lambda>l.
     obind (check (ALooper_removeFd n = 1)) (\<lambda>_.
     obind (on_queues (MessageLoopTaskQueues_Dispose (ml_queue_id l)) w) (\<lambda>w1.
     Inr (w1\<lparr>w_loops := (w_loops w1)(this := None)\<rparr>))))"

subsection \<open>The loop of a thread\<close>

definition MessageLoop_GetCurrent :: "thread_id \<Rightarrow> 'c world \<Rightarrow> MessageLoop outcome" where
  "MessageLoop_GetCurrent tid w =
     obind (check (w_tls_message_loop w tid \<noteq> None)) (\<lambda>_. Inr (the (w_tls_message_loop w tid)))"

definition MessageLoop_EnsureInitializedForCurrentThread ::
  "ndk \<Rightarrow> thread_id \<Rightarrow> 'c world \<Rightarrow> 'c world outcome" where
  "MessageLoop_EnsureInitializedForCurrentThread n tid w =
     (if w_tls_message_loop w tid \<noteq> None then Inr w
      else obind (MessageLoopAndroid_new n tid w) (\<lambda>(w1, loop).
           Inr (w1\<lparr>w_tls_message_loop := (w_tls_message_loop w1)
                  (tid \<mapsto> \<lparr>lp_loop = loop, lp_task_runner = \<lparr>tr_loop = Some loop\<rparr>\<rparr>)\<rparr>)))"

definition MessageLoop_IsInitializedForCurrentThread :: "thread_id \<Rightarrow> 'c world \<Rightarrow> bool" where
  "MessageLoop_IsInitializedForCurrentThread tid w \<longleftrightarrow> w_tls_message_loop w tid \<noteq> None"

definition MessageLoop_GetCurrentTaskQueueId :: "thread_id \<Rightarrow> 'c world \<Rightarrow> TaskQueueId outcome" where
  "MessageLoop_GetCurrentTaskQueueId tid w =
     obind (check (w_tls_message_loop w tid \<noteq> None)) (\<lambda>_.
     obind (loop_at w (lp_loop (the (w_tls_message_loop w tid)))) (\<lambda>l. Inr (ml_queue_id l)))"

subsection \<open>Posting tasks and observers\<close>

definition MessageLoopImpl_PostTask ::
  "loop_addr \<Rightarrow> 'c closure \<Rightarrow> TimePoint \<Rightarrow> 'c world \<Rightarrow> 'c world outcome" where
  "MessageLoopImpl_PostTask this task target_time w =
     obind (loop_at w this) (\<lambda>l.
     obind (check (task \<noteq> None)) (\<lambda>_.
     if ml_terminated l then Inr w
     else on_queues (MessageLoopTaskQueues_RegisterTask (ml_queue_id l) task target_time kUnspecified) w))"

definition MessageLoopImpl_AddTaskObserver ::
  "thread_id \<Rightarrow> loop_addr \<Rightarrow> int \<Rightarrow> 'c closure \<Rightarrow> 'c world \<Rightarrow> 'c world outcome" where
  "MessageLoopImpl_AddTaskObserver tid this key callback w =
     obind (loop_at w this) (\<lambda>l.
     obind (check (callback \<noteq> None)) (\<lambda>_.
     obind (MessageLoop_GetCurrent tid w) (\<lambda>current.
     obind (check (lp_loop current = this)) (\<lambda>_.
     if callback \<noteq> None then on_queues (MessageLoopTaskQueues_AddTaskObserver (ml_queue_id l) key callback) w
     else Inr w))))"

definition MessageLoopImpl_RemoveTaskObserver ::
  "thread_id \<Rightarrow> loop_addr \<Rightarrow> int \<Rightarrow> 'c world \<Rightarrow> 'c world outcome" where
  "MessageLoopImpl_RemoveTaskObserver tid this key w =
     obind (loop_at w this) (\<lambda>l.
     obind (MessageLoop_GetCurrent tid w) (\<lambda>current.
     obind (check (lp_loop current = this)) (\<lambda>_.
     on_queues (MessageLoopTaskQueues_RemoveTaskObserver (ml_queue_id l) key) w)))"

subsection \<open>Running tasks\<close>

text \<open>A run may also never end, if the closures keep posting tasks that are already due: then
  there is no result at all.\<close>

type_synonym 'a run = "'a outcome option"

definition dbind :: "'a run \<Rightarrow> ('a \<Rightarrow> 'b run) \<Rightarrow> 'b run" where
  "dbind m f = (case m of None \<Rightarrow> None | Some (Inl e) \<Rightarrow> Some (Inl e) | Some (Inr x) \<Rightarrow> f x)"

lemma dbind_simps [simp, fault_simps]:
  "dbind None f = None" "dbind (Some (Inl e)) f = Some (Inl e)" "dbind (Some (Inr x)) f = f x"
  by (simp_all add: dbind_def)

lemma dbind_eq_Some_Inr [fault_simps]:
  "dbind m f = Some (Inr y) \<longleftrightarrow> (\<exists>x. m = Some (Inr x) \<and> f x = Some (Inr y))"
  by (simp add: dbind_def split: option.splits sum.splits)

datatype FlushType = kSingle | kAll

text \<open>The \<open>do\<close> ... \<open>while\<close> loop of \<open>FlushTasks\<close>: \<open>next\<close> supplies the next invocation, or a null
  one, and \<open>body\<close> is what is done with it.\<close>

partial_function (option) drain ::
  "('s \<Rightarrow> ('s \<times> 'c closure) outcome) \<Rightarrow> ('c \<Rightarrow> 's \<Rightarrow> 's outcome) \<Rightarrow> FlushType \<Rightarrow> 's \<Rightarrow> 's run" where
  "drain next body type s =
     (case next s of
        Inl e \<Rightarrow> Some (Inl e)
      | Inr r \<Rightarrow> (case snd r of
            None \<Rightarrow> Some (Inr (fst r))
          | Some c \<Rightarrow> (case body c (fst r) of
                Inl e \<Rightarrow> Some (Inl e)
              | Inr s' \<Rightarrow> if type = kSingle then Some (Inr s') else drain next body type s')))"

definition next_invocation ::
  "thread_id \<Rightarrow> TaskQueueId \<Rightarrow> TimePoint \<Rightarrow> 'c world \<Rightarrow> ('c world \<times> 'c closure) outcome" where
  "next_invocation tid queue_id now w =
     obind (MessageLoopTaskQueues_GetNextTaskToRun tid queue_id now (w_queues w)) (\<lambda>(q, c).
     Inr (w\<lparr>w_queues := q\<rparr>, c))"

definition run_and_notify :: "'c exec \<Rightarrow> TaskQueueId \<Rightarrow> 'c \<Rightarrow> 'c world \<Rightarrow> 'c world outcome" where
  "run_and_notify exec queue_id invocation w =
     obind (invoke exec Task (Some invocation) w) (\<lambda>w1.
     obind (MessageLoopTaskQueues_GetObserversToNotify (w_queues w1) queue_id) (\<lambda>observers.
     ofold (invoke exec Observer) observers w1))"

definition MessageLoopImpl_FlushTasks ::
  "'c exec \<Rightarrow> thread_id \<Rightarrow> loop_addr \<Rightarrow> FlushType \<Rightarrow> 'c world \<Rightarrow> 'c world run" where
  "MessageLoopImpl_FlushTasks exec tid this type w =
     dbind (Some (loop_at w this)) (\<lambda>l.
     let now = TimePoint_Now (w_clock w)
     in drain (next_invocation tid (ml_queue_id l) now) (run_and_notify exec (ml_queue_id l)) type w)"

definition MessageLoopImpl_RunExpiredTasksNow ::
  "'c exec \<Rightarrow> thread_id \<Rightarrow> loop_addr \<Rightarrow> 'c world \<Rightarrow> 'c world run" where
  "MessageLoopImpl_RunExpiredTasksNow exec tid this = MessageLoopImpl_FlushTasks exec tid this kAll"

definition MessageLoopImpl_RunSingleExpiredTaskNow ::
  "'c exec \<Rightarrow> thread_id \<Rightarrow> loop_addr \<Rightarrow> 'c world \<Rightarrow> 'c world run" where
  "MessageLoopImpl_RunSingleExpiredTaskNow exec tid this = MessageLoopImpl_FlushTasks exec tid this kSingle"

subsection \<open>MessageLoopAndroid: waiting for events\<close>

definition MessageLoopAndroid_WakeUp :: "(itimerspec \<Rightarrow> int) \<Rightarrow> TimePoint \<Rightarrow> unit outcome" where
  "MessageLoopAndroid_WakeUp timerfd_settime time_point = check (TimerRearm timerfd_settime time_point)"

definition MessageLoopAndroid_OnEventFired ::
  "'c exec \<Rightarrow> thread_id \<Rightarrow> loop_addr \<Rightarrow> int \<times> 64 word \<Rightarrow> 'c world \<Rightarrow> 'c world run" where
  "MessageLoopAndroid_OnEventFired exec tid this timer_read w =
     (if TimerDrain timer_read then MessageLoopImpl_RunExpiredTasksNow exec tid this w else Some (Inr w))"

definition ALOOPER_POLL_TIMEOUT :: int where "ALOOPER_POLL_TIMEOUT = - 3"
definition ALOOPER_POLL_ERROR :: int where "ALOOPER_POLL_ERROR = - 4"

text \<open>One return of \<open>ALooper_pollOnce\<close>: what other threads did meanwhile, what the timer descriptor
  holds if the callback was called for an input event, and the result.\<close>

record 'c poll =
  poll_meanwhile :: "'c world \<Rightarrow> 'c world outcome"
  poll_event :: "(int \<times> 64 word) option"
  poll_result :: int

text \<open>\<open>while (running_)\<close>: with no further poll result the loop is still waiting.\<close>

fun MessageLoopAndroid_poll_loop ::
  "'c exec \<Rightarrow> thread_id \<Rightarrow> loop_addr \<Rightarrow> 'c poll list \<Rightarrow> 'c world \<Rightarrow> 'c world run" where
  "MessageLoopAndroid_poll_loop exec tid this polls w =
     dbind (Some (loop_at w this)) (\<lambda>l.
     if \<not> ml_running l then Some (Inr w)
     else (case polls of
        [] \<Rightarrow> None
      | p # rest \<Rightarrow>
          dbind (Some (poll_meanwhile p w)) (\<lambda>w1.
          dbind (case poll_event p of None \<Rightarrow> Some (Inr w1)
                 | Some r \<Rightarrow> MessageLoopAndroid_OnEventFired exec tid this r w1) (\<lambda>w2.
          dbind (Some (if poll_result p = ALOOPER_POLL_TIMEOUT \<or> poll_result p = ALOOPER_POLL_ERROR
                       then update_loop this (\<lambda>l. l\<lparr>ml_running := False\<rparr>) w2 else Inr w2))
            (MessageLoopAndroid_poll_loop exec tid this rest)))))"

declare MessageLoopAndroid_poll_loop.simps [simp del]

definition MessageLoopAndroid_Run ::
  "ndk \<Rightarrow> 'c exec \<Rightarrow> thread_id \<Rightarrow> loop_addr \<Rightarrow> 'c poll list \<Rightarrow> 'c world \<Rightarrow> 'c world run" where
  "MessageLoopAndroid_Run n exec tid this polls w =
     dbind (Some (loop_at w this)) (\<lambda>l.
     dbind (Some (check (ml_looper l = ALooper_forThread n tid))) (\<lambda>_.
     dbind (Some (update_loop this (\<lambda>l. l\<lparr>ml_running := True\<rparr>) w))
       (MessageLoopAndroid_poll_loop exec tid this polls)))"

definition MessageLoopAndroid_Terminate :: "loop_addr \<Rightarrow> 'c world \<Rightarrow> 'c world outcome" where
  "MessageLoopAndroid_Terminate this = update_loop this (\<lambda>l. l\<lparr>ml_running := False\<rparr>)"

subsection \<open>Running and terminating a loop\<close>

definition MessageLoopImpl_DoRun ::
  "ndk \<Rightarrow> 'c exec \<Rightarrow> thread_id \<Rightarrow> loop_addr \<Rightarrow> 'c poll list \<Rightarrow> 'c world \<Rightarrow> 'c world run" where
  "MessageLoopImpl_DoRun n exec tid this polls w =
     dbind (Some (loop_at w this)) (\<lambda>l.
     if ml_terminated l then Some (Inr w)
     else
       dbind (MessageLoopAndroid_Run n exec tid this polls w) (\<lambda>w1.
       dbind (Some (update_loop this (\<lambda>l. l\<lparr>ml_terminated := True\<rparr>) w1)) (\<lambda>w2.
       dbind (MessageLoopImpl_RunExpiredTasksNow exec tid this w2) (\<lambda>w3.
       Some (on_queues (MessageLoopTaskQueues_DisposeTasks (ml_queue_id l)) w3)))))"

definition MessageLoopImpl_DoTerminate :: "loop_addr \<Rightarrow> 'c world \<Rightarrow> 'c world outcome" where
  "MessageLoopImpl_DoTerminate this w =
     obind (update_loop this (\<lambda>l. l\<lparr>ml_terminated := True\<rparr>) w) (MessageLoopAndroid_Terminate this)"

subsection \<open>Task runners\<close>

text \<open>\<open>RefPtr::operator->\<close> checks that the pointer is not null.\<close>

definition runner_loop :: "TaskRunner \<Rightarrow> loop_addr outcome" where
  "runner_loop r = (case tr_loop r of None \<Rightarrow> Inl Check_Failed | Some a \<Rightarrow> Inr a)"

definition TaskRunner_PostTask :: "TaskRunner \<Rightarrow> 'c closure \<Rightarrow> 'c world \<Rightarrow> 'c world outcome" where
  "TaskRunner_PostTask r task w =
     obind (runner_loop r) (\<lambda>a. MessageLoopImpl_PostTask a task (TimePoint_Now (w_clock w)) w)"

definition TaskRunner_PostTaskForTime ::
  "TaskRunner \<Rightarrow> 'c closure \<Rightarrow> TimePoint \<Rightarrow> 'c world \<Rightarrow> 'c world outcome" where
  "TaskRunner_PostTaskForTime r task target_time w =
     obind (runner_loop r) (\<lambda>a. MessageLoopImpl_PostTask a task target_time w)"

definition TaskRunner_PostDelayedTask ::
  "TaskRunner \<Rightarrow> 'c closure \<Rightarrow> TimeDelta \<Rightarrow> 'c world \<Rightarrow> 'c world outcome" where
  "TaskRunner_PostDelayedTask r task delay w =
     obind (runner_loop r) (\<lambda>a.
     obind (TimePoint_plus (TimePoint_Now (w_clock w)) delay) (\<lambda>t. MessageLoopImpl_PostTask a task t w))"

definition TaskRunner_GetTaskQueueId :: "TaskRunner \<Rightarrow> 'c world \<Rightarrow> TaskQueueId outcome" where
  "TaskRunner_GetTaskQueueId r w =
     obind (check (tr_loop r \<noteq> None)) (\<lambda>_.
     obind (runner_loop r) (\<lambda>a. obind (loop_at w a) (\<lambda>l. Inr (ml_queue_id l))))"

definition TaskRunnerChecker_RunsOnTheSameThread ::
  "'c MessageLoopTaskQueues \<Rightarrow> TaskQueueId \<Rightarrow> TaskQueueId \<Rightarrow> bool outcome" where
  "TaskRunnerChecker_RunsOnTheSameThread q queue_a queue_b =
     (if queue_a = queue_b then Inr True
      else obind (MessageLoopTaskQueues_Owns q queue_a queue_b) (\<lambda>ab.
           if ab then Inr True
           else obind (MessageLoopTaskQueues_Owns q queue_b queue_a) (\<lambda>ba.
                if ba then Inr True else Inr False)))"

definition TaskRunner_RunsTasksOnCurrentThread :: "TaskRunner \<Rightarrow> thread_id \<Rightarrow> 'c world \<Rightarrow> bool outcome" where
  "TaskRunner_RunsTasksOnCurrentThread r tid w =
     (if \<not> MessageLoop_IsInitializedForCurrentThread tid w then Inr False
      else obind (MessageLoop_GetCurrentTaskQueueId tid w) (\<lambda>current_queue_id.
           obind (runner_loop r) (\<lambda>a.
           obind (loop_at w a) (\<lambda>l.
           TaskRunnerChecker_RunsOnTheSameThread (w_queues w) current_queue_id (ml_queue_id l)))))"

definition TaskRunner_RunNowOrPostTask ::
  "'c exec \<Rightarrow> TaskRunner option \<Rightarrow> 'c closure \<Rightarrow> thread_id \<Rightarrow> 'c world \<Rightarrow> 'c world outcome" where
  "TaskRunner_RunNowOrPostTask exec runner task tid w =
     obind (check (runner \<noteq> None)) (\<lambda>_.
     obind (TaskRunner_RunsTasksOnCurrentThread (the runner) tid w) (\<lambda>here.
     if here then invoke exec Task task w else TaskRunner_PostTask (the runner) task w))"

record TaskRunnerChecker =
  initialized_queue_id :: TaskQueueId
  subsumed_queue_ids :: "TaskQueueId list"

definition TaskRunnerChecker_new :: "ndk \<Rightarrow> thread_id \<Rightarrow> 'c world \<Rightarrow> ('c world \<times> TaskRunnerChecker) outcome" where
  "TaskRunnerChecker_new n tid w =
     obind (MessageLoop_EnsureInitializedForCurrentThread n tid w) (\<lambda>w1.
     obind (MessageLoop_GetCurrentTaskQueueId tid w1) (\<lambda>i.
     obind (MessageLoopTaskQueues_GetSubsumedTaskQueueId (w_queues w1) i) (\<lambda>subs.
     Inr (w1, \<lparr>initialized_queue_id = i, subsumed_queue_ids = subs\<rparr>))))"

fun any_on_same_thread :: "'c MessageLoopTaskQueues \<Rightarrow> TaskQueueId \<Rightarrow> TaskQueueId list \<Rightarrow> bool outcome" where
  "any_on_same_thread q current [] = Inr False"
| "any_on_same_thread q current (s # rest) =
     obind (TaskRunnerChecker_RunsOnTheSameThread q current s) (\<lambda>b.
     if b then Inr True else any_on_same_thread q current rest)"

definition TaskRunnerChecker_RunsOnCreationTaskRunner ::
  "TaskRunnerChecker \<Rightarrow> thread_id \<Rightarrow> 'c world \<Rightarrow> bool outcome" where
  "TaskRunnerChecker_RunsOnCreationTaskRunner c tid w =
     obind (check (MessageLoop_IsInitializedForCurrentThread tid w)) (\<lambda>_.
     obind (MessageLoop_GetCurrentTaskQueueId tid w) (\<lambda>current.
     any_on_same_thread (w_queues w) current (initialized_queue_id c # subsumed_queue_ids c)))"

record TaskRunners =
  trs_label :: string
  trs_platform :: "TaskRunner option"
  trs_raster :: "TaskRunner option"
  trs_ui :: "TaskRunner option"
  trs_io :: "TaskRunner option"

definition TaskRunners_new ::
  "string \<Rightarrow> TaskRunner option \<Rightarrow> TaskRunner option \<Rightarrow> TaskRunner option \<Rightarrow> TaskRunner option \<Rightarrow> TaskRunners" where
  "TaskRunners_new label platform raster ui io =
     \<lparr>trs_label = label, trs_platform = platform, trs_raster = raster, trs_ui = ui, trs_io = io\<rparr>"

definition TaskRunners_IsValid :: "TaskRunners \<Rightarrow> bool" where
  "TaskRunners_IsValid r \<longleftrightarrow>
     trs_platform r \<noteq> None \<and> trs_raster r \<noteq> None \<and> trs_ui r \<noteq> None \<and> trs_io r \<noteq> None"

end
