(* ===== verification/Message_Loop_Laws.thy ===== *)
theory Message_Loop_Laws
  imports Message_Loop
begin

section \<open>What a message loop guarantees\<close>

text \<open>
  Flushing: the loop of \<open>FlushTasks\<close> is verified once against an interface, the locale
  \<open>task_supply\<close> (something that hands out the tasks that are due, earliest first), and the task
  queues are shown to provide it as long as the closures that run add no further due task. Then
  shutting down, and which threads a task runner takes for its own.
\<close>

subsection \<open>The interface of a flush\<close>

locale task_supply =
  fixes fetch :: "'s \<Rightarrow> ('s \<times> 'c closure) outcome"
    and body :: "'c \<Rightarrow> 's \<Rightarrow> 's outcome"
    and due :: "'s \<Rightarrow> 't multiset"
    and later :: "'t \<Rightarrow> 't \<Rightarrow> bool"
    and closure_of :: "'t \<Rightarrow> 'c"
    and invar :: "'s \<Rightarrow> bool"
    and history :: "'s \<Rightarrow> 'e list"
    and events :: "'c \<Rightarrow> 'e list"
  assumes fetch_none: "invar s \<Longrightarrow> due s = {#} \<Longrightarrow>
      \<exists>s'. fetch s = Inr (s', None) \<and> invar s' \<and> due s' = {#} \<and> history s' = history s"
    and fetch_some: "invar s \<Longrightarrow> due s \<noteq> {#} \<Longrightarrow>
      \<exists>s' t. fetch s = Inr (s', Some (closure_of t)) \<and> t \<in># due s \<and> (\<forall>u \<in># due s. \<not> later t u) \<and>
        invar s' \<and> due s' = due s - {#t#} \<and> history s' = history s"
    and body_runs: "invar s \<Longrightarrow>
      \<exists>s'. body c s = Inr s' \<and> invar s' \<and> due s' = due s \<and> history s' = history s @ events c"
begin

lemma one_round:
  assumes "invar s" and "due s \<noteq> {#}"
  obtains t s1 s2 where "fetch s = Inr (s1, Some (closure_of t))" and "body (closure_of t) s1 = Inr s2"
    and "t \<in># due s" and "\<And>u. u \<in># due s \<Longrightarrow> \<not> later t u" and "invar s2"
    and "due s2 = due s - {#t#}" and "history s2 = history s @ events (closure_of t)"
proof -
  from fetch_some [OF assms] obtain s1 t where s1: "fetch s = Inr (s1, Some (closure_of t))"
    "t \<in># due s" "\<forall>u \<in># due s. \<not> later t u" "invar s1" "due s1 = due s - {#t#}" "history s1 = history s" by blast
  moreover from body_runs [OF s1(4), of "closure_of t"] obtain s2 where
    "body (closure_of t) s1 = Inr s2" "invar s2" "due s2 = due s1" "history s2 = history s1 @ events (closure_of t)"
    by blast
  ultimately show ?thesis by (intro that [of s1 t s2]) simp_all
qed

text \<open>Flushing all ends, having run exactly the due tasks, earliest first.\<close>

lemma drain_all:
  assumes "invar s"
  shows "\<exists>s' ts. drain fetch body kAll s = Some (Inr s') \<and> mset ts = due s \<and>
    sorted_wrt (\<lambda>t u. \<not> later t u) ts \<and> invar s' \<and> due s' = {#} \<and>
    history s' = history s @ concat (map (\<lambda>t. events (closure_of t)) ts)"
  using assms
proof (induction "size (due s)" arbitrary: s)
  case 0
  with fetch_none [of s] show ?case by (auto simp: drain.simps [of fetch] intro!: exI [of _ "[]"])
next
  case (Suc n)
  then have "due s \<noteq> {#}" by auto
  with Suc.prems obtain t s1 s2 where r: "fetch s = Inr (s1, Some (closure_of t))"
    "body (closure_of t) s1 = Inr s2" "t \<in># due s" "\<And>u. u \<in># due s \<Longrightarrow> \<not> later t u" "invar s2"
    "due s2 = due s - {#t#}" "history s2 = history s @ events (closure_of t)"
    using one_round by metis
  have "n = size (due s2)" using Suc.hyps(2) r(3,6) by (simp add: size_Diff_singleton)
  from Suc.hyps(1) [OF this r(5)] obtain s' ts where s': "drain fetch body kAll s2 = Some (Inr s')"
    "mset ts = due s2" "sorted_wrt (\<lambda>t u. \<not> later t u) ts" "invar s'" "due s' = {#}"
    "history s' = history s2 @ concat (map (\<lambda>t. events (closure_of t)) ts)" by blast
  have "drain fetch body kAll s = Some (Inr s')" using r(1,2) s'(1) by (simp add: drain.simps [of fetch])
  moreover have "mset (t # ts) = due s" using s'(2) r(3,6) by simp
  moreover have "sorted_wrt (\<lambda>t u. \<not> later t u) (t # ts)"
    using s'(2,3) r(4,6) by (auto dest: in_diffD simp flip: set_mset_mset)
  ultimately show ?case using s'(4-6) r(7) by (intro exI [of _ s'] exI [of _ "t # ts"]) simp
qed

text \<open>A single flush runs the earliest due task only.\<close>

lemma drain_single:
  assumes "invar s" and "due s \<noteq> {#}"
  shows "\<exists>s' t. drain fetch body kSingle s = Some (Inr s') \<and> t \<in># due s \<and>
    (\<forall>u \<in># due s. \<not> later t u) \<and> due s' = due s - {#t#} \<and> history s' = history s @ events (closure_of t)"
proof -
  from one_round [OF assms] obtain t s1 s2 where "fetch s = Inr (s1, Some (closure_of t))"
    "body (closure_of t) s1 = Inr s2" "t \<in># due s" "\<And>u. u \<in># due s \<Longrightarrow> \<not> later t u"
    "due s2 = due s - {#t#}" "history s2 = history s @ events (closure_of t)" by metis
  then show ?thesis by (intro exI [of _ s2] exI [of _ t]) (simp add: drain.simps [of fetch])
qed

end

subsection \<open>The task queues provide it\<close>

definition due_tasks :: "TimePoint \<Rightarrow> TaskQueueId \<Rightarrow> 'c world \<Rightarrow> 'c DelayedTask multiset" where
  "due_tasks now i w = filter_mset (\<lambda>t. dt_target_time t \<le> now) (pending (w_queues w) i)"

definition flush_ok :: "TaskQueueId \<Rightarrow> 'c closure list \<Rightarrow> 'c world \<Rightarrow> bool" where
  "flush_ok i os w \<longleftrightarrow> queues_ok (w_queues w) \<and> queue_entries (w_queues w) i \<noteq> None \<and>
     (\<forall>t \<in># pending (w_queues w) i. dt_task t \<noteq> None) \<and> None \<notin> set os \<and>
     MessageLoopTaskQueues_GetObserversToNotify (w_queues w) i = Inr os"

text \<open>Closures that return, add no task that is already due to the queue \<open>i\<close>, leave its observers
  and keep the queues well formed. They may post tasks for later and work on other queues.\<close>

definition quiet :: "'c exec \<Rightarrow> TimePoint \<Rightarrow> TaskQueueId \<Rightarrow> 'c closure list \<Rightarrow> bool" where
  "quiet exec now i os \<longleftrightarrow>
     (\<forall>c w. flush_ok i os w \<longrightarrow>
        (\<exists>w'. exec c w = Inr w' \<and> flush_ok i os w' \<and> due_tasks now i w' = due_tasks now i w \<and>
           w_log w' = w_log w))"

lemma GetObserversToNotify_cong:
  assumes "queues_ok q" and "queues_ok q'" and "graph_of q' = graph_of q" and "observers_at q' = observers_at q"
    and "queue_entries q i \<noteq> None"
  shows "MessageLoopTaskQueues_GetObserversToNotify q' i = MessageLoopTaskQueues_GetObserversToNotify q i"
proof -
  from assms(5) obtain e where e: "queue_entries q i = Some e" by blast
  from assms(3) have "graph_of q' i = graph_of q i" by simp
  with e obtain e' where e': "queue_entries q' i = Some e'" "te_owner_of e' = te_owner_of e"
    "te_subsumed_by e' = te_subsumed_by e" by (auto simp: graph_of_def)
  show ?thesis
    by (simp add: GetObserversToNotify_eq [OF assms(1) e] GetObserversToNotify_eq [OF assms(2) e'(1)] e' assms(4))
qed

lemma due_tasks_iff: "t \<in># due_tasks now i w \<longleftrightarrow> t \<in># pending (w_queues w) i \<and> dt_target_time t \<le> now"
  by (auto simp: due_tasks_def)

lemma due_tasks_none:
  assumes "due_tasks now i w = {#}" and "pending (w_queues w) i \<noteq> {#}"
  shows "now < next_time (w_queues w) i"
  using assms due_tasks_iff [of _ now i w] by (auto simp: next_time_def not_le)

lemma due_tasks_some:
  assumes "due_tasks now i w \<noteq> {#}"
  shows "pending (w_queues w) i \<noteq> {#}" and "next_time (w_queues w) i \<le> now"
proof -
  from assms obtain t where t: "t \<in># pending (w_queues w) i" "dt_target_time t \<le> now"
    by (metis due_tasks_iff multiset_nonemptyE)
  then show "pending (w_queues w) i \<noteq> {#}" by auto
  have "next_time (w_queues w) i \<le> dt_target_time t" unfolding next_time_def using t by (intro Min_le) auto
  with t show "next_time (w_queues w) i \<le> now" by simp
qed

lemma next_invocation_none:
  assumes "flush_ok i os w" and "due_tasks now i w = {#}"
  shows "\<exists>w'. next_invocation tid i now w = Inr (w', None) \<and> flush_ok i os w' \<and>
    due_tasks now i w' = {#} \<and> w_log w' = w_log w"
proof -
  let ?q = "w_queues w"
  from assms(1) obtain e where ok: "queues_ok ?q" "queue_entries ?q i = Some e" by (auto simp: flush_ok_def)
  show ?thesis
  proof (cases "pending ?q i = {#}")
    case True
    with GetNextTaskToRun_none [OF ok] assms show ?thesis by (simp add: next_invocation_def)
  next
    case False
    let ?w = "w\<lparr>w_queues := ?q\<lparr>wakeups := wakeups ?q @ due_wakeup ?q i\<rparr>\<rparr>"
    have "next_invocation tid i now w = Inr (?w, None)"
      using GetNextTaskToRun_later [OF ok False] due_tasks_none [OF assms(2) False]
      by (simp add: next_invocation_def)
    moreover have "MessageLoopTaskQueues_GetObserversToNotify (w_queues ?w) i =
        MessageLoopTaskQueues_GetObserversToNotify ?q i"
      using ok by (intro GetObserversToNotify_cong) (simp_all add: observers_at_def fun_eq_iff)
    ultimately show ?thesis using assms by (simp add: flush_ok_def due_tasks_def)
  qed
qed

lemma next_invocation_some:
  assumes "flush_ok i os w" and "due_tasks now i w \<noteq> {#}"
  shows "\<exists>w' t. next_invocation tid i now w = Inr (w', Some (the (dt_task t))) \<and> t \<in># due_tasks now i w \<and>
    (\<forall>u \<in># due_tasks now i w. \<not> DelayedTask_gt t u) \<and> flush_ok i os w' \<and>
    due_tasks now i w' = due_tasks now i w - {#t#} \<and> w_log w' = w_log w"
proof -
  let ?q = "w_queues w"
  from assms(1) obtain e where ok: "queues_ok ?q" "queue_entries ?q i = Some e" by (auto simp: flush_ok_def)
  show ?thesis
  proof (rule GetNextTaskToRun_takes [OF ok due_tasks_some [OF assms(2)], of tid], goal_cases)
    case (1 q' t)
    let ?w = "w\<lparr>w_queues := q'\<rparr>"
    have t: "t \<in># pending ?q i" "\<And>u. u \<in># pending ?q i \<Longrightarrow> \<not> DelayedTask_gt t u"
      using 1(2) by (auto simp: earliest_def)
    obtain c where c: "dt_task t = Some c" using assms(1) t(1) by (auto simp: flush_ok_def)
    have ok': "queues_ok q'" using ok(1) 1(1) by (rule GetNextTaskToRun_ok)
    have "graph_of q' i \<noteq> None" using 1(6) ok(2) by (simp add: graph_of_def)
    then have "queue_entries q' i \<noteq> None" by (simp add: graph_of_def)
    moreover have "MessageLoopTaskQueues_GetObserversToNotify q' i = Inr os"
      using GetObserversToNotify_cong [OF ok(1) ok' 1(6,8)] ok(2) assms(1) by (simp add: flush_ok_def)
    ultimately have "flush_ok i os ?w"
      using assms(1) ok' 1(4) by (auto simp: flush_ok_def dest: in_diffD)
    moreover have "due_tasks now i ?w = due_tasks now i w - {#t#}"
      using 1(3,4) by (simp add: due_tasks_def)
    moreover have "t \<in># due_tasks now i w" using t(1) 1(3) by (simp add: due_tasks_def)
    moreover have "next_invocation tid i now w = Inr (?w, Some (the (dt_task t)))"
      using 1(1) c by (simp add: next_invocation_def)
    ultimately show ?case using t(2) by (intro exI [of _ ?w] exI [of _ t]) (simp add: due_tasks_def)
  qed
qed

text \<open>What one call leaves in the log: the task, then each observer.\<close>

definition round_events :: "'c closure list \<Rightarrow> 'c \<Rightarrow> 'c event list" where
  "round_events os c = Task c # map (\<lambda>o'. Observer (the o')) os"

lemma flush_ok_log [simp]: "flush_ok i os (w\<lparr>w_log := l\<rparr>) = flush_ok i os w"
  by (simp add: flush_ok_def)

lemma due_tasks_log [simp]: "due_tasks now i (w\<lparr>w_log := l\<rparr>) = due_tasks now i w"
  by (simp add: due_tasks_def)

lemma invoke_quiet:
  assumes "quiet exec now i os" and "flush_ok i os w"
  obtains w' where "invoke exec kind (Some c) w = Inr w'" and "flush_ok i os w'"
    and "due_tasks now i w' = due_tasks now i w" and "w_log w' = w_log w @ [kind c]"
proof -
  let ?w = "w\<lparr>w_log := w_log w @ [kind c]\<rparr>"
  have "flush_ok i os ?w" using assms(2) by simp
  then obtain w' where "exec c ?w = Inr w'" "flush_ok i os w'" "due_tasks now i w' = due_tasks now i ?w"
    "w_log w' = w_log ?w" using assms(1) unfolding quiet_def by blast
  then show ?thesis by (intro that [of w']) (simp_all add: invoke_def)
qed

lemma observers_quiet:
  assumes "quiet exec now i os" and "flush_ok i os w" and "None \<notin> set xs"
  shows "\<exists>w'. ofold (invoke exec Observer) xs w = Inr w' \<and> flush_ok i os w' \<and>
    due_tasks now i w' = due_tasks now i w \<and> w_log w' = w_log w @ map (\<lambda>o'. Observer (the o')) xs"
  using assms(2,3)
proof (induction xs arbitrary: w)
  case (Cons x xs)
  then obtain c where x: "x = Some c" by (cases x) auto
  from invoke_quiet [OF assms(1) Cons.prems(1), of Observer c] obtain w1 where w1:
    "invoke exec Observer (Some c) w = Inr w1" "flush_ok i os w1"
    "due_tasks now i w1 = due_tasks now i w" "w_log w1 = w_log w @ [Observer c]" .
  from Cons.IH [OF w1(2)] Cons.prems(2) w1 x show ?case by auto
qed simp

lemma run_and_notify_quiet:
  assumes "quiet exec now i os" and "flush_ok i os w"
  shows "\<exists>w'. run_and_notify exec i c w = Inr w' \<and> flush_ok i os w' \<and>
    due_tasks now i w' = due_tasks now i w \<and> w_log w' = w_log w @ round_events os c"
proof -
  from invoke_quiet [OF assms, of Task c] obtain w1 where w1: "invoke exec Task (Some c) w = Inr w1"
    "flush_ok i os w1" "due_tasks now i w1 = due_tasks now i w" "w_log w1 = w_log w @ [Task c]" .
  with observers_quiet [OF assms(1) w1(2), of os] show ?thesis
    by (auto simp: run_and_notify_def round_events_def flush_ok_def)
qed

lemma flush_task_supply:
  assumes "quiet exec now i os"
  shows "task_supply (next_invocation tid i now) (run_and_notify exec i) (due_tasks now i) DelayedTask_gt
    (\<lambda>t. the (dt_task t)) (flush_ok i os) w_log (round_events os)"
  by unfold_locales
    (use next_invocation_none next_invocation_some run_and_notify_quiet [OF assms] in blast)+

lemma quiet_idle: "quiet (\<lambda>_. Inr) now i os"
  by (simp add: quiet_def)

interpretation idle_flush: task_supply "next_invocation tid i now" "run_and_notify (\<lambda>_. Inr) i"
  "due_tasks now i" DelayedTask_gt "\<lambda>t. the (dt_task t)" "flush_ok i os" w_log "round_events os"
  by (rule flush_task_supply [OF quiet_idle])

text \<open>C8: flushing a loop ends and does its work. If the closures that run add no due task to the
  loop's queue, \<open>RunExpiredTasksNow\<close> returns, and it has called exactly the tasks that were due
  at the time it started, each once, earliest first and in registration order among equals, and
  after each of them every observer of the loop and of the queues it owns; no due task is left.\<close>

theorem RunExpiredTasksNow_runs_due_tasks:
  assumes "w_loops w this = Some l" and "flush_ok (ml_queue_id l) os w"
    and "quiet exec (TimePoint_Now (w_clock w)) (ml_queue_id l) os"
  shows "\<exists>w' ts. MessageLoopImpl_RunExpiredTasksNow exec tid this w = Some (Inr w') \<and>
    mset ts = due_tasks (TimePoint_Now (w_clock w)) (ml_queue_id l) w \<and>
    sorted_wrt (\<lambda>t u. \<not> DelayedTask_gt t u) ts \<and>
    due_tasks (TimePoint_Now (w_clock w)) (ml_queue_id l) w' = {#} \<and>
    w_log w' = w_log w @ concat (map (\<lambda>t. round_events os (the (dt_task t))) ts)"
  using task_supply.drain_all [OF flush_task_supply [OF assms(3)] assms(2), of tid] assms(1)
  by (auto simp: MessageLoopImpl_RunExpiredTasksNow_def MessageLoopImpl_FlushTasks_def loop_at_def Let_def)

definition sample_world :: "nat world" where
  "sample_world = \<lparr>w_queues = sample_merged,
     w_loops = [10 \<mapsto> \<lparr>ml_queue_id = 0, ml_terminated = False, ml_looper = 1, ml_timer_fd = 3, ml_running = False\<rparr>],
     w_next_loop = 12, w_tls_message_loop = [0 \<mapsto> \<lparr>lp_loop = 10, lp_task_runner = \<lparr>tr_loop = Some 10\<rparr>\<rparr>],
     w_clock = \<lparr>gSteadyClockSource = None, steady_clock = 7\<rparr>, w_log = []\<rparr>"

lemma flush_ok_sample: "flush_ok 0 [] sample_world"
  using queues_reachable_ok [OF reachable_sample_merged] sample_present(3,4)
    GetObserversToNotify_eq [OF queues_reachable_ok [OF reachable_sample_merged] sample_present(3)]
  by (simp add: flush_ok_def sample_world_def pending_sample_merged observers_at_def TaskQueueEntry_new_def)

theorem RunExpiredTasksNow_runs_due_tasks_witness:
  "\<exists>w' ts. MessageLoopImpl_RunExpiredTasksNow (\<lambda>_. Inr) 0 10 sample_world = Some (Inr w') \<and>
     mset ts = {#task70, task71#} \<and> w_log w' = concat (map (\<lambda>t. round_events [] (the (dt_task t))) ts)"
proof -
  let ?l = "\<lparr>ml_queue_id = 0, ml_terminated = False, ml_looper = 1, ml_timer_fd = 3, ml_running = False\<rparr>"
  have l: "w_loops sample_world 10 = Some ?l" "flush_ok (ml_queue_id ?l) [] sample_world"
    using flush_ok_sample by (simp_all add: sample_world_def)
  have "due_tasks (TimePoint_Now (w_clock sample_world)) (ml_queue_id ?l) sample_world = {#task70, task71#}"
    by (simp add: due_tasks_def sample_world_def pending_sample_merged TimePoint_Now_def)
  with RunExpiredTasksNow_runs_due_tasks [OF l quiet_idle, of 0] show ?thesis
    by (auto simp: sample_world_def)
qed

subsection \<open>Shutting down\<close>

definition step_keeps :: "('s \<Rightarrow> bool) \<Rightarrow> ('s \<Rightarrow> ('s \<times> 'c closure) outcome) \<Rightarrow> ('c \<Rightarrow> 's \<Rightarrow> 's outcome) \<Rightarrow> bool" where
  "step_keeps P fetch body \<longleftrightarrow> (\<forall>s r. fetch s = Inr r \<longrightarrow> P s \<longrightarrow> P (fst r)) \<and>
     (\<forall>c s s'. body c s = Inr s' \<longrightarrow> P s \<longrightarrow> P s')"

lemma step_keepsD:
  "step_keeps P fetch body \<Longrightarrow> fetch s = Inr (s', c) \<Longrightarrow> P s \<Longrightarrow> P s'"
  "step_keeps P fetch body \<Longrightarrow> body f s = Inr s' \<Longrightarrow> P s \<Longrightarrow> P s'"
  unfolding step_keeps_def by fastforce+

lemma drain_keeps:
  assumes "drain fetch body type s = Some r" and "step_keeps P fetch body" and "P s" and "r = Inr s'"
  shows "P s'"
proof -
  have "step_keeps P fetch body \<longrightarrow> P s \<longrightarrow> (\<forall>s'. r = Inr s' \<longrightarrow> P s')"
    using assms(1)
  proof (rule drain.raw_induct [where P = "\<lambda>fetch body type s r. step_keeps P fetch body \<longrightarrow> P s \<longrightarrow>
      (\<forall>s'. r = Inr s' \<longrightarrow> P s')", rotated], goal_cases)
    case (1 drain' fetch body type s r)
    from 1(2) show ?case
      by (auto split: sum.splits option.splits if_splits dest!: 1(1)) (meson step_keepsD)+
  qed
  with assms show ?thesis by blast
qed

definition terminated_at :: "'c world \<Rightarrow> loop_addr \<Rightarrow> bool" where
  "terminated_at w a \<longleftrightarrow> (\<exists>l. w_loops w a = Some l \<and> ml_terminated l)"

text \<open>Closures never clear \<open>terminated_\<close>: no function of the program does.\<close>

definition keeps_terminated :: "'c exec \<Rightarrow> loop_addr \<Rightarrow> bool" where
  "keeps_terminated exec a \<longleftrightarrow>
     (\<forall>c w w'. exec c w = Inr w' \<longrightarrow> terminated_at w a \<longrightarrow> terminated_at w' a)"

lemma invoke_keeps_terminated:
  "keeps_terminated exec a \<Longrightarrow> invoke exec kind c w = Inr w' \<Longrightarrow> terminated_at w a \<Longrightarrow> terminated_at w' a"
  unfolding keeps_terminated_def invoke_def
  by (auto simp: terminated_at_def split: option.splits)

lemma run_and_notify_keeps_terminated:
  assumes "keeps_terminated exec a" and "run_and_notify exec i c w = Inr w'" and "terminated_at w a"
  shows "terminated_at w' a"
proof -
  from assms(2) obtain w1 os where "invoke exec Task (Some c) w = Inr w1"
    and f: "ofold (invoke exec Observer) os w1 = Inr w'"
    by (auto simp: run_and_notify_def obind_eq_Inr)
  then have "terminated_at w1 a" using assms by (blast intro: invoke_keeps_terminated)
  with f show ?thesis
    by (rule ofold_invariant) (use assms(1) invoke_keeps_terminated in blast)
qed

lemma FlushTasks_keeps_terminated:
  assumes "MessageLoopImpl_FlushTasks exec tid this type w = Some (Inr w')"
    and "keeps_terminated exec a" and "terminated_at w a"
  shows "terminated_at w' a"
proof -
  from assms(1) obtain i where d: "drain (next_invocation tid i (TimePoint_Now (w_clock w)))
      (run_and_notify exec i) type w = Some (Inr w')"
    unfolding MessageLoopImpl_FlushTasks_def Let_def dbind_eq_Some_Inr by blast
  have "step_keeps (\<lambda>w. terminated_at w a) (next_invocation tid i now) (run_and_notify exec i)" for now
    using run_and_notify_keeps_terminated [OF assms(2)]
    by (auto simp: step_keeps_def next_invocation_def obind_eq_Inr terminated_at_def)
  from drain_keeps [OF d this assms(3)] show ?thesis by simp
qed

lemma DisposeTasks_drops:
  assumes "MessageLoopTaskQueues_DisposeTasks i q = Inr q'"
  shows "pending q' i = {#}"
proof -
  let ?shut = "\<lambda>j. update_source j (\<lambda>s. Inr (TaskSource_ShutDown s))"
  from assms obtain e q1 where e: "queue_entries q i = Some e" and q1: "?shut i q = Inr q1"
    and f: "ofold ?shut (te_owner_of e) q1 = Inr q'"
    unfolding MessageLoopTaskQueues_DisposeTasks_def by (elim obind_eq_InrE) simp
  have keep: "(\<exists>ei. queue_entries q2 i = Some ei \<and> te_owner_of ei = te_owner_of e) \<and> available_at q2 i = {#}"
    if "ofold ?shut xs q1 = Inr q2" for xs q2
    using that
    by (rule ofold_invariant)
      (use e q1 in \<open>auto simp: update_source_def obind_eq_Inr available_at_def split: if_splits\<close>)
  have empty: "\<forall>j \<in> set xs. available_at q3 j = {#}" if "ofold ?shut xs q2 = Inr q3" for xs q2 q3
    using that
  proof (induction xs arbitrary: q2)
    case (Cons x xs)
    from Cons.prems obtain q4 where q4: "?shut x q2 = Inr q4" "ofold ?shut xs q4 = Inr q3"
      by (auto simp: obind_eq_Inr)
    have "available_at q4 x = {#}"
      using q4(1) by (auto simp: update_source_def obind_eq_Inr available_at_def)
    with q4(2) have "available_at q3 x = {#}"
      by (rule ofold_invariant [where P = "\<lambda>q. available_at q x = {#}"])
        (auto simp: update_source_def obind_eq_Inr available_at_def split: if_splits)
    with Cons.IH [OF q4(2)] show ?case by simp
  qed simp
  from keep [OF f] obtain ei where "queue_entries q' i = Some ei" "te_owner_of ei = te_owner_of e"
    "available_at q' i = {#}" by blast
  moreover have "(\<Sum>j \<leftarrow> xs. available_at q' j) = {#}" if "\<forall>j \<in> set xs. available_at q' j = {#}" for xs
    using that by (induction xs) simp_all
  ultimately show ?thesis using empty [OF f] by (auto simp: pending_def available_at_Some)
qed

text \<open>C9: a loop that has run is closed for good. When \<open>DoRun\<close> returns, the loop is terminated and
  posting another task to it does nothing, provided the closures that ran do not clear \<open>terminated_\<close>,
  which no function of the program does. If the loop had not been terminated before, no task is pending in
  its queue or in a queue it owns. If it had been, \<open>DoRun\<close> has done nothing at all, and the tasks
  that were pending still are.\<close>

theorem DoRun_shuts_down:
  assumes "MessageLoopImpl_DoRun n exec tid this polls w = Some (Inr w')"
    and "w_loops w this = Some l" and "keeps_terminated exec this"
  shows "terminated_at w' this \<and> MessageLoopImpl_PostTask this (Some c) time w' = Inr w' \<and>
    (if ml_terminated l then w' = w else pending (w_queues w') (ml_queue_id l) = {#})"
proof (cases "ml_terminated l")
  case True
  with assms(1,2) show ?thesis
    by (auto simp: MessageLoopImpl_DoRun_def loop_at_def terminated_at_def MessageLoopImpl_PostTask_def)
next
  case False
  with assms(1,2) obtain w1 w2 w3 where
    w2: "update_loop this (\<lambda>l. l\<lparr>ml_terminated := True\<rparr>) w1 = Inr w2"
    and w3: "MessageLoopImpl_RunExpiredTasksNow exec tid this w2 = Some (Inr w3)"
    and w': "on_queues (MessageLoopTaskQueues_DisposeTasks (ml_queue_id l)) w3 = Inr w'"
    by (auto simp: MessageLoopImpl_DoRun_def loop_at_def dbind_eq_Some_Inr)
  have "terminated_at w2 this" using w2 by (auto simp: update_loop_def obind_eq_Inr terminated_at_def)
  with w3 assms(3) have "terminated_at w3 this"
    unfolding MessageLoopImpl_RunExpiredTasksNow_def by (blast intro: FlushTasks_keeps_terminated)
  with w' have t: "terminated_at w' this" by (auto simp: on_queues_def obind_eq_Inr terminated_at_def)
  moreover have "pending (w_queues w') (ml_queue_id l) = {#}"
    using w' by (auto simp: on_queues_def obind_eq_Inr intro: DisposeTasks_drops)
  moreover have "MessageLoopImpl_PostTask this (Some c) time w' = Inr w'"
    using t by (auto simp: terminated_at_def MessageLoopImpl_PostTask_def loop_at_def)
  ultimately show ?thesis using False by simp
qed

text \<open>A loop with an empty queue, whose looper reports an error at the first poll.\<close>

definition idle_world :: "nat world" where
  "idle_world = sample_world\<lparr>w_queues := sample_queues\<rparr>"

abbreviation idle_loop :: MessageLoopImpl where
  "idle_loop \<equiv> \<lparr>ml_queue_id = 0, ml_terminated = False, ml_looper = 1, ml_timer_fd = 3, ml_running = False\<rparr>"

abbreviation one_looper :: ndk where
  "one_looper \<equiv> \<lparr>ALooper_forThread = (\<lambda>_. 1), ALooper_prepare = (\<lambda>_. 0), timerfd_create = 3,
     ALooper_addFd = 1, ALooper_removeFd = 1\<rparr>"

abbreviation error_poll :: "nat poll" where
  "error_poll \<equiv> \<lparr>poll_meanwhile = Inr, poll_event = None, poll_result = ALOOPER_POLL_ERROR\<rparr>"

lemma sample_queues_present:
  "queue_entries sample_queues 0 = Some ((TaskQueueEntry_new 0)\<lparr>te_wakeable := Some 10\<rparr>)"
  by (simp add: sample_queues_entries)

lemma idle_flush_returns:
  assumes "w_queues w = sample_queues" and "w_loops w this = Some l" and "ml_queue_id l = 0"
  shows "MessageLoopImpl_RunExpiredTasksNow exec tid this w = Some (Inr w)"
  using assms GetNextTaskToRun_none [OF queues_reachable_ok [OF reachable_sample_queues]
      sample_queues_present pending_new [OF sample_queues_present]]
  by (simp add: MessageLoopImpl_RunExpiredTasksNow_def MessageLoopImpl_FlushTasks_def loop_at_def
      drain.simps next_invocation_def)

lemma idle_DoRun:
  "\<exists>w'. MessageLoopImpl_DoRun one_looper (\<lambda>_. Inr) 0 10 [error_poll] idle_world = Some (Inr w')"
proof -
  have "\<exists>q'. MessageLoopTaskQueues_DisposeTasks 0 sample_queues = Inr q'"
    using queues_reachable_ok [OF reachable_sample_queues] sample_queues_present
    by (rule DisposeTasks_total) (simp add: TaskQueueEntry_new_def)
  then show ?thesis
    by (auto simp: MessageLoopImpl_DoRun_def MessageLoopAndroid_Run_def idle_world_def sample_world_def
        loop_at_def update_loop_def MessageLoopAndroid_poll_loop.simps ALOOPER_POLL_ERROR_def
        idle_flush_returns on_queues_def)
qed

theorem DoRun_shuts_down_witness:
  "\<exists>w'. MessageLoopImpl_DoRun one_looper (\<lambda>_. Inr) 0 10 [error_poll] idle_world = Some (Inr w') \<and>
     terminated_at w' 10 \<and> MessageLoopImpl_PostTask 10 (Some 5) 0 w' = Inr w' \<and> pending (w_queues w') 0 = {#}"
proof -
  obtain w' where w': "MessageLoopImpl_DoRun one_looper (\<lambda>_. Inr) 0 10 [error_poll] idle_world = Some (Inr w')"
    using idle_DoRun by blast
  have "w_loops idle_world 10 = Some idle_loop" by (simp add: idle_world_def sample_world_def)
  from DoRun_shuts_down [OF w' this, of 5 0] w' show ?thesis by (simp add: keeps_terminated_def)
qed

subsection \<open>Whose thread is this?\<close>

lemma Owns_eq:
  assumes "queues_ok q" and "queue_entries q a = Some ea" and "queue_entries q b = Some eb"
  shows "MessageLoopTaskQueues_Owns q a b = Inr (te_subsumed_by eb = a)"
proof -
  have u: "a \<noteq> kUnmerged" "b \<noteq> kUnmerged" using queues_okD(2) [OF assms(1)] assms(2,3) by auto
  have "b \<in> set (te_owner_of ea) \<longleftrightarrow> te_subsumed_by eb = a"
    using owned_entry [OF assms(1,2), of b] owner_entry [OF assms(1,3)] u assms(2,3) by (metis option.inject)
  with u assms(2) show ?thesis by (simp add: MessageLoopTaskQueues_Owns_def)
qed

text \<open>Which queues count as running on the same thread. \<open>RunsOnTheSameThread\<close> answers yes exactly
  for a queue and itself, and for a queue and its owner, in either order. Two queues subsumed by
  the same owner, whose tasks are run by the owner's loop and so on one thread, are told apart.\<close>

theorem RunsOnTheSameThread_iff:
  assumes "queues_reachable q" and "queue_entries q a = Some ea" and "queue_entries q b = Some eb"
  shows "TaskRunnerChecker_RunsOnTheSameThread q a b =
      Inr (a = b \<or> te_subsumed_by eb = a \<or> te_subsumed_by ea = b) \<and>
    (a \<noteq> b \<and> te_subsumed_by ea \<noteq> kUnmerged \<and> te_subsumed_by ea = te_subsumed_by eb \<longrightarrow>
      TaskRunnerChecker_RunsOnTheSameThread q a b = Inr False \<and> serving a ea = serving b eb)"
proof -
  have ok: "queues_ok q" using assms(1) by (rule queues_reachable_ok)
  have r: "TaskRunnerChecker_RunsOnTheSameThread q a b =
      Inr (a = b \<or> te_subsumed_by eb = a \<or> te_subsumed_by ea = b)"
    using Owns_eq [OF ok assms(2,3)] Owns_eq [OF ok assms(3,2)]
    by (simp add: TaskRunnerChecker_RunsOnTheSameThread_def)
  moreover have "te_subsumed_by eb \<noteq> a" "te_subsumed_by ea \<noteq> b"
    if "te_subsumed_by ea \<noteq> kUnmerged" "te_subsumed_by ea = te_subsumed_by eb"
    using that owner_entry [OF ok assms(2)] owner_entry [OF ok assms(3)] assms(2,3)
    by (metis option.inject)+
  ultimately show ?thesis by (auto simp: serving_def)
qed

theorem RunsOnTheSameThread_iff_witness:
  "TaskRunnerChecker_RunsOnTheSameThread sample_merged 0 1 = Inr True"
  using RunsOnTheSameThread_iff [OF reachable_sample_merged sample_present(3,4)]
  by (simp add: TaskQueueEntry_new_def)

end
