(* ===== verification/Ref_Counting.thy ===== *)
theory Ref_Counting
  imports Env_Prelude
begin

section \<open>Intrusive reference counting\<close>

text \<open>
  \<open>app/src/main/cpp/memory/ref_counted_internal.h\<close>, \<open>ref_counted.h\<close>, \<open>ref_ptr.h\<close> and
  \<open>ref_ptr_internal.h\<close>. The heap holds the reference-counted objects by address and the
  \<open>RefPtr\<close> variables that are alive, each null or pointing at an address; an access to an address
  with no object is undefined behaviour. The counter is a \<open>uint_fast32_t\<close>, 64 bits wide on the
  ABIs of the build, and wraps. The debug build is modelled: adoption and destruction flags, and
  the checks. What the destructor of a \<open>T\<close> checks of the object is a parameter, \<open>dtor_ok\<close>.
  The atomic operations make each \<open>AddRef\<close> and \<open>Release\<close> one step.
\<close>

subsection \<open>Objects and the heap\<close>

type_synonym addr = nat
type_synonym var = nat
type_synonym ptr = "addr option"

record 'v ref_counted =
  rc_ref_count :: "64 word"
  rc_adoption_required :: bool
  rc_destruction_started :: bool
  rc_value :: 'v

record 'v ref_heap =
  rh_objects :: "addr \<rightharpoonup> 'v ref_counted"
  rh_vars :: "var \<rightharpoonup> ptr"
  rh_next :: addr

definition object_at :: "'v ref_heap \<Rightarrow> addr \<Rightarrow> 'v ref_counted outcome" where
  "object_at h a = (case rh_objects h a of None \<Rightarrow> Inl Undefined_Behaviour | Some x \<Rightarrow> Inr x)"

definition set_object :: "addr \<Rightarrow> 'v ref_counted \<Rightarrow> 'v ref_heap \<Rightarrow> 'v ref_heap" where
  "set_object a x h = h\<lparr>rh_objects := (rh_objects h)(a \<mapsto> x)\<rparr>"

definition var_at :: "'v ref_heap \<Rightarrow> var \<Rightarrow> ptr outcome" where
  "var_at h x = (case rh_vars h x of None \<Rightarrow> Inl Undefined_Behaviour | Some p \<Rightarrow> Inr p)"

definition set_var :: "var \<Rightarrow> ptr \<Rightarrow> 'v ref_heap \<Rightarrow> 'v ref_heap" where
  "set_var x p h = h\<lparr>rh_vars := (rh_vars h)(x \<mapsto> p)\<rparr>"

definition RefCountedThreadSafeBase_new :: "'v \<Rightarrow> 'v ref_counted" where
  "RefCountedThreadSafeBase_new v =
     \<lparr>rc_ref_count = 1, rc_adoption_required = True, rc_destruction_started = False, rc_value = v\<rparr>"

definition AddRef :: "addr \<Rightarrow> 'v ref_heap \<Rightarrow> 'v ref_heap outcome" where
  "AddRef a h =
     obind (object_at h a) (\<lambda>x.
     obind (check (\<not> rc_adoption_required x)) (\<lambda>_.
     obind (check (\<not> rc_destruction_started x)) (\<lambda>_.
     Inr (set_object a (x\<lparr>rc_ref_count := rc_ref_count x + 1\<rparr>) h))))"

definition HasOneRef :: "addr \<Rightarrow> 'v ref_heap \<Rightarrow> bool outcome" where
  "HasOneRef a h = obind (object_at h a) (\<lambda>x. Inr (rc_ref_count x = 1))"

definition AssertHasOneRef :: "addr \<Rightarrow> 'v ref_heap \<Rightarrow> unit outcome" where
  "AssertHasOneRef a h = obind (HasOneRef a h) check"

text \<open>\<open>RefCountedThreadSafeBase::Release\<close> answers whether the object should self-delete.\<close>

definition Base_Release :: "addr \<Rightarrow> 'v ref_heap \<Rightarrow> ('v ref_heap \<times> bool) outcome" where
  "Base_Release a h =
     obind (object_at h a) (\<lambda>x.
     obind (check (\<not> rc_adoption_required x)) (\<lambda>_.
     obind (check (\<not> rc_destruction_started x)) (\<lambda>_.
     obind (check (rc_ref_count x \<noteq> 0)) (\<lambda>_.
     let x1 = x\<lparr>rc_ref_count := rc_ref_count x - 1\<rparr>
     in if rc_ref_count x = 1 then Inr (set_object a (x1\<lparr>rc_destruction_started := True\<rparr>) h, True)
        else Inr (set_object a x1 h, False)))))"

definition Base_Adopt :: "addr \<Rightarrow> 'v ref_heap \<Rightarrow> 'v ref_heap outcome" where
  "Base_Adopt a h =
     obind (object_at h a) (\<lambda>x.
     obind (check (rc_adoption_required x)) (\<lambda>_.
     Inr (set_object a (x\<lparr>rc_adoption_required := False\<rparr>) h)))"

text \<open>\<open>delete\<close>: the destructor of \<open>T\<close>, then that of the base class, then the storage.\<close>

definition delete_object :: "('v \<Rightarrow> bool) \<Rightarrow> addr \<Rightarrow> 'v ref_heap \<Rightarrow> 'v ref_heap outcome" where
  "delete_object dtor_ok a h =
     obind (object_at h a) (\<lambda>x.
     obind (check (dtor_ok (rc_value x))) (\<lambda>_.
     obind (check (\<not> rc_adoption_required x)) (\<lambda>_.
     obind (check (rc_destruction_started x)) (\<lambda>_.
     Inr (h\<lparr>rh_objects := (rh_objects h)(a := None)\<rparr>)))))"

definition RefCounted_Release :: "('v \<Rightarrow> bool) \<Rightarrow> addr \<Rightarrow> 'v ref_heap \<Rightarrow> 'v ref_heap outcome" where
  "RefCounted_Release dtor_ok a h =
     obind (Base_Release a h) (\<lambda>(h1, last_ref). if last_ref then delete_object dtor_ok a h1 else Inr h1)"

subsection \<open>RefPtr\<close>

definition maybe_AddRef :: "ptr \<Rightarrow> 'v ref_heap \<Rightarrow> 'v ref_heap outcome" where
  "maybe_AddRef p h = (case p of None \<Rightarrow> Inr h | Some a \<Rightarrow> AddRef a h)"

definition maybe_Release :: "('v \<Rightarrow> bool) \<Rightarrow> ptr \<Rightarrow> 'v ref_heap \<Rightarrow> 'v ref_heap outcome" where
  "maybe_Release dtor_ok p h = (case p of None \<Rightarrow> Inr h | Some a \<Rightarrow> RefCounted_Release dtor_ok a h)"

definition RefPtr_null :: "var \<Rightarrow> 'v ref_heap \<Rightarrow> 'v ref_heap" where
  "RefPtr_null x h = set_var x None h"

definition RefPtr_plain :: "var \<Rightarrow> ptr \<Rightarrow> 'v ref_heap \<Rightarrow> 'v ref_heap outcome" where
  "RefPtr_plain x p h = maybe_AddRef p (set_var x p h)"

definition RefPtr_copy :: "var \<Rightarrow> var \<Rightarrow> 'v ref_heap \<Rightarrow> 'v ref_heap outcome" where
  "RefPtr_copy x r h = obind (var_at h r) (\<lambda>p. maybe_AddRef p (set_var x p h))"

definition RefPtr_move :: "var \<Rightarrow> var \<Rightarrow> 'v ref_heap \<Rightarrow> 'v ref_heap outcome" where
  "RefPtr_move x r h = obind (var_at h r) (\<lambda>p. Inr (set_var r None (set_var x p h)))"

definition RefPtr_destroy :: "('v \<Rightarrow> bool) \<Rightarrow> var \<Rightarrow> 'v ref_heap \<Rightarrow> 'v ref_heap outcome" where
  "RefPtr_destroy dtor_ok x h =
     obind (var_at h x) (\<lambda>p.
     obind (maybe_Release dtor_ok p h) (\<lambda>h1.
     Inr (h1\<lparr>rh_vars := (rh_vars h1)(x := None)\<rparr>)))"

definition RefPtr_get :: "var \<Rightarrow> 'v ref_heap \<Rightarrow> ptr outcome" where
  "RefPtr_get x h = var_at h x"

definition RefPtr_deref :: "var \<Rightarrow> 'v ref_heap \<Rightarrow> 'v outcome" where
  "RefPtr_deref x h =
     obind (var_at h x) (\<lambda>p.
     obind (check (p \<noteq> None)) (\<lambda>_. obind (object_at h (the p)) (\<lambda>y. Inr (rc_value y))))"

definition RefPtr_copy_assign :: "('v \<Rightarrow> bool) \<Rightarrow> var \<Rightarrow> var \<Rightarrow> 'v ref_heap \<Rightarrow> 'v ref_heap outcome" where
  "RefPtr_copy_assign dtor_ok x r h =
     obind (var_at h r) (\<lambda>rp.
     obind (var_at h x) (\<lambda>old_ptr.
     if rp = old_ptr then Inr h
     else obind (maybe_AddRef rp h) (\<lambda>h1. maybe_Release dtor_ok old_ptr (set_var x rp h1))))"

text \<open>Move assignment makes a temporary from \<open>r\<close>, swaps it with \<open>x\<close> and destroys it; the
  temporary's pointer is the local \<open>t\<close>.\<close>

definition RefPtr_move_assign :: "('v \<Rightarrow> bool) \<Rightarrow> var \<Rightarrow> var \<Rightarrow> 'v ref_heap \<Rightarrow> 'v ref_heap outcome" where
  "RefPtr_move_assign dtor_ok x r h =
     obind (var_at h r) (\<lambda>t.
     let h1 = set_var r None h
     in obind (var_at h1 x) (\<lambda>p. maybe_Release dtor_ok p (set_var x t h1)))"

definition RefPtr_swap :: "var \<Rightarrow> var \<Rightarrow> 'v ref_heap \<Rightarrow> 'v ref_heap outcome" where
  "RefPtr_swap x r h =
     obind (var_at h x) (\<lambda>p. obind (var_at h r) (\<lambda>rp. Inr (set_var r p (set_var x rp h))))"

definition RefPtr_bool :: "var \<Rightarrow> 'v ref_heap \<Rightarrow> bool outcome" where
  "RefPtr_bool x h = obind (var_at h x) (\<lambda>p. Inr (p \<noteq> None))"

definition RefPtr_eq :: "var \<Rightarrow> var \<Rightarrow> 'v ref_heap \<Rightarrow> bool outcome" where
  "RefPtr_eq x r h = obind (var_at h x) (\<lambda>p. obind (var_at h r) (\<lambda>rp. Inr (p = rp)))"

definition AdoptRef :: "var \<Rightarrow> addr \<Rightarrow> 'v ref_heap \<Rightarrow> 'v ref_heap outcome" where
  "AdoptRef x a h = obind (Base_Adopt a h) (\<lambda>h1. Inr (set_var x (Some a) h1))"

definition MakeRefCounted :: "var \<Rightarrow> 'v \<Rightarrow> 'v ref_heap \<Rightarrow> 'v ref_heap outcome" where
  "MakeRefCounted x v h =
     (let a = rh_next h
      in AdoptRef x a ((set_object a (RefCountedThreadSafeBase_new v) h)\<lparr>rh_next := a + 1\<rparr>))"

end
