(* ===== verification/Ref_Counting_Laws.thy ===== *)
theory Ref_Counting_Laws
  imports Ref_Counting
begin

section \<open>Reference counts count references\<close>

text \<open>
  The invariant that ties the counters to the \<open>RefPtr\<close> variables, relative to a number of
  temporary references \<open>E a\<close> that an operation holds in the middle of its body; every operation
  on \<open>RefPtr\<close>s is a composition of taking and dropping a reference and of binding and unbinding a
  variable. Runs of the operations keep it with no temporary left over.
\<close>

subsection \<open>The invariant\<close>

definition holders :: "'v ref_heap \<Rightarrow> addr \<Rightarrow> var set" where
  "holders h a = {x. rh_vars h x = Some (Some a)}"

definition object_ok :: "nat \<Rightarrow> 'v ref_counted \<Rightarrow> bool" where
  "object_ok n x \<longleftrightarrow> \<not> rc_adoption_required x \<and> \<not> rc_destruction_started x \<and>
     unat (rc_ref_count x) = n \<and> 0 < n"

definition refs_ok :: "(addr \<Rightarrow> nat) \<Rightarrow> 'v ref_heap \<Rightarrow> bool" where
  "refs_ok E h \<longleftrightarrow> finite (dom (rh_vars h)) \<and> (\<forall>a. rh_next h \<le> a \<longrightarrow> rh_objects h a = None) \<and>
     (\<forall>a. case rh_objects h a of
            None \<Rightarrow> holders h a = {} \<and> E a = 0
          | Some x \<Rightarrow> object_ok (card (holders h a) + E a) x)"

definition inc :: "ptr \<Rightarrow> (addr \<Rightarrow> nat) \<Rightarrow> addr \<Rightarrow> nat" where
  "inc p E = (case p of None \<Rightarrow> E | Some a \<Rightarrow> E(a := E a + 1))"

definition dec :: "ptr \<Rightarrow> (addr \<Rightarrow> nat) \<Rightarrow> addr \<Rightarrow> nat" where
  "dec p E = (case p of None \<Rightarrow> E | Some a \<Rightarrow> E(a := E a - 1))"

definition held :: "ptr \<Rightarrow> (addr \<Rightarrow> nat) \<Rightarrow> bool" where
  "held p E = (case p of None \<Rightarrow> True | Some a \<Rightarrow> 0 < E a)"

definition unset_var :: "var \<Rightarrow> 'v ref_heap \<Rightarrow> 'v ref_heap" where
  "unset_var x h = h\<lparr>rh_vars := (rh_vars h)(x := None)\<rparr>"

lemma dec_inc [simp]: "dec p (inc p E) = E"
  by (cases p) (simp_all add: dec_def inc_def)

lemma held_inc [simp]: "held p (inc p E)"
  by (cases p) (simp_all add: held_def inc_def)

lemma held_inc_mono [simp]: "held p E \<Longrightarrow> held p (inc q E)"
  by (cases p; cases q) (simp_all add: held_def inc_def)

lemma holders_simps [simp]:
  "holders (set_object a x h) = holders h"
  "holders (h\<lparr>rh_objects := m\<rparr>) = holders h"
  "holders (h\<lparr>rh_next := n\<rparr>) = holders h"
  by (simp_all add: holders_def set_object_def fun_eq_iff)

lemma holders_set_var:
  "holders (set_var x p h) a = (if p = Some a then insert x (holders h a) else holders h a - {x})"
  by (auto simp: holders_def set_var_def)

lemma holders_unset_var [simp]: "holders (unset_var x h) a = holders h a - {x}"
  by (auto simp: holders_def unset_var_def)

lemma finite_holders: "refs_ok E h \<Longrightarrow> finite (holders h a)"
  by (rule finite_subset [of _ "dom (rh_vars h)"]) (auto simp: refs_ok_def holders_def)

lemma card_holders_pos: "refs_ok E h \<Longrightarrow> holders h a \<noteq> {} \<Longrightarrow> 0 < card (holders h a)"
  using finite_holders [of E h a] by (simp add: card_gt_0_iff)

lemma refs_okD:
  assumes "refs_ok E h"
  shows "rh_objects h a = Some x \<Longrightarrow> object_ok (card (holders h a) + E a) x"
    and "rh_objects h a = None \<Longrightarrow> holders h a = {} \<and> E a = 0"
    and "rh_next h \<le> a \<Longrightarrow> rh_objects h a = None" and "finite (dom (rh_vars h))"
  using assms unfolding refs_ok_def by (auto split: option.splits dest: spec [of _ a])

lemma refs_okI:
  assumes "finite (dom (rh_vars h))" and "\<And>a. rh_next h \<le> a \<Longrightarrow> rh_objects h a = None"
    and "\<And>a x. rh_objects h a = Some x \<Longrightarrow> object_ok (card (holders h a) + E a) x"
    and "\<And>a. rh_objects h a = None \<Longrightarrow> holders h a = {} \<and> E a = 0"
  shows "refs_ok E h"
  using assms unfolding refs_ok_def by (auto split: option.splits)

lemma refs_live: "refs_ok E h \<Longrightarrow> holders h a \<noteq> {} \<or> 0 < E a \<Longrightarrow> \<exists>x. rh_objects h a = Some x"
  using refs_okD(2) [of E h a] by (cases "rh_objects h a") auto

subsection \<open>Taking and dropping a reference\<close>

lemma unat_count_Suc: "unat (c :: 64 word) + 1 < 2 ^ 64 \<Longrightarrow> unat (c + 1) = unat c + 1"
  using unat_add_lem [of c 1] by simp

lemma unat_count_pred: "0 < unat (c :: 64 word) \<Longrightarrow> unat (c - 1) = unat c - 1"
  by (simp add: unat_sub word_le_nat_alt)

lemma AddRef_ok:
  assumes ok: "refs_ok E h" and live: "rh_objects h a = Some x"
    and room: "card (holders h a) + E a + 1 < 2 ^ 64"
  shows "\<exists>h'. AddRef a h = Inr h' \<and> refs_ok (inc (Some a) E) h' \<and> rh_vars h' = rh_vars h \<and>
    (\<forall>b. map_option rc_value (rh_objects h' b) = map_option rc_value (rh_objects h b))"
proof -
  let ?h = "set_object a (x\<lparr>rc_ref_count := rc_ref_count x + 1\<rparr>) h"
  have x: "object_ok (card (holders h a) + E a) x" using ok live by (rule refs_okD)
  then have "AddRef a h = Inr ?h" using live by (simp add: AddRef_def object_at_def object_ok_def)
  moreover have "refs_ok (inc (Some a) E) ?h"
  proof (rule refs_okI)
    fix b y assume b: "rh_objects ?h b = Some y"
    show "object_ok (card (holders ?h b) + inc (Some a) E b) y"
      using b x room unat_count_Suc [of "rc_ref_count x"] refs_okD(1) [OF ok, of b y]
      by (auto simp: set_object_def inc_def object_ok_def split: if_splits)
  qed (use refs_okD [OF ok] live in \<open>auto simp: set_object_def inc_def split: if_splits\<close>)
  ultimately show ?thesis using live by (auto simp: set_object_def)
qed

lemma Release_ok:
  assumes ok: "refs_ok E h" and e: "0 < E a"
    and dtor: "\<And>x. rh_objects h a = Some x \<Longrightarrow> holders h a = {} \<Longrightarrow> E a = 1 \<Longrightarrow> dtor_ok (rc_value x)"
  shows "\<exists>h'. RefCounted_Release dtor_ok a h = Inr h' \<and> refs_ok (dec (Some a) E) h' \<and>
    rh_vars h' = rh_vars h \<and>
    (\<forall>b. map_option rc_value (rh_objects h' b) =
      (if b = a \<and> holders h a = {} \<and> E a = 1 then None else map_option rc_value (rh_objects h b)))"
proof -
  obtain x where live: "rh_objects h a = Some x" using refs_live [OF ok] e by blast
  have x: "object_ok (card (holders h a) + E a) x" using ok live by (rule refs_okD)
  then have nz: "rc_ref_count x \<noteq> 0" by (auto simp: object_ok_def)
  have one: "rc_ref_count x = 1 \<longleftrightarrow> holders h a = {} \<and> E a = 1"
  proof -
    have "unat (rc_ref_count x) = card (holders h a) + E a" using x by (simp add: object_ok_def)
    moreover have "rc_ref_count x = 1 \<longleftrightarrow> unat (rc_ref_count x) = 1" by (simp add: word_unat_eq_iff)
    ultimately show ?thesis using e card_holders_pos [OF ok, of a] by (cases "holders h a = {}") simp_all
  qed
  show ?thesis
  proof (cases "rc_ref_count x = 1")
    case True
    let ?h = "h\<lparr>rh_objects := (rh_objects h)(a := None)\<rparr>"
    have "RefCounted_Release dtor_ok a h = Inr ?h"
      using True live x dtor [OF live] one
      by (simp add: RefCounted_Release_def Base_Release_def delete_object_def object_at_def object_ok_def
          set_object_def)
    moreover have "refs_ok (dec (Some a) E) ?h"
      using refs_okD [OF ok] True one
      by (intro refs_okI) (auto simp: dec_def split: if_splits)
    ultimately show ?thesis using True one by auto
  next
    case False
    let ?h = "set_object a (x\<lparr>rc_ref_count := rc_ref_count x - 1\<rparr>) h"
    have "RefCounted_Release dtor_ok a h = Inr ?h"
      using False live x nz by (simp add: RefCounted_Release_def Base_Release_def object_at_def object_ok_def)
    moreover have "refs_ok (dec (Some a) E) ?h"
    proof (rule refs_okI)
      fix b y assume b: "rh_objects ?h b = Some y"
      have "0 < card (holders h a) + E a - 1"
        using False one e card_holders_pos [OF ok, of a] by (cases "holders h a = {}") simp_all
      with b x e unat_count_pred [of "rc_ref_count x"] refs_okD(1) [OF ok, of b y]
      show "object_ok (card (holders ?h b) + dec (Some a) E b) y"
        by (auto simp: set_object_def dec_def object_ok_def split: if_splits)
    qed (use refs_okD [OF ok] live in \<open>auto simp: set_object_def dec_def split: if_splits\<close>)
    ultimately show ?thesis using live False one by (auto simp: set_object_def)
  qed
qed

subsection \<open>Binding and unbinding a variable\<close>

lemma bind_ok:
  assumes ok: "refs_ok E h" and x: "x \<notin> dom (rh_vars h)" and p: "held p E"
  shows "refs_ok (dec p E) (set_var x p h)"
proof -
  have fresh: "x \<notin> holders h b" for b using x by (auto simp: holders_def)
  have card: "card (holders (set_var x p h) b) + dec p E b = card (holders h b) + E b" for b
    using p fresh [of b] finite_holders [OF ok, of b]
    by (cases p) (auto simp: holders_set_var dec_def held_def)
  show ?thesis
  proof (rule refs_okI)
    fix b assume b: "rh_objects (set_var x p h) b = None"
    then have b: "holders h b = {}" "E b = 0" using refs_okD(2) [OF ok, of b] by (auto simp: set_var_def)
    then have "p \<noteq> Some b" using p by (auto simp: held_def)
    with b show "holders (set_var x p h) b = {} \<and> dec p E b = 0"
      by (auto simp: holders_set_var dec_def split: option.splits)
  qed (use refs_okD [OF ok] card in \<open>auto simp: set_var_def\<close>)
qed

lemma unbind_ok:
  assumes ok: "refs_ok E h" and x: "rh_vars h x = Some p"
  shows "refs_ok (inc p E) (unset_var x h)"
proof -
  have card: "card (holders (unset_var x h) b) + inc p E b = card (holders h b) + E b" for b
  proof (cases "p = Some b")
    case True
    then have "x \<in> holders h b" using x by (simp add: holders_def)
    then have "card (holders h b) = Suc (card (holders h b - {x}))"
      using finite_holders [OF ok] by (metis card_Suc_Diff1)
    with True show ?thesis by (simp add: inc_def)
  next
    case False
    then have "x \<notin> holders h b" using x by (auto simp: holders_def)
    with False show ?thesis by (auto simp: inc_def split: option.splits)
  qed
  show ?thesis
  proof (rule refs_okI)
    fix b assume b: "rh_objects (unset_var x h) b = None"
    then have b: "holders h b = {}" "E b = 0" using refs_okD(2) [OF ok, of b] by (auto simp: unset_var_def)
    then have "p \<noteq> Some b" using x by (auto simp: holders_def)
    with b show "holders (unset_var x h) b = {} \<and> inc p E b = 0"
      by (auto simp: inc_def split: option.splits)
  qed (use refs_okD [OF ok] card in \<open>auto simp: unset_var_def\<close>)
qed

lemma set_unset [simp]: "set_var x p (unset_var x h) = set_var x p h"
  by (simp add: set_var_def unset_var_def)

lemma rebind_ok:
  assumes ok: "refs_ok E h" and x: "rh_vars h x = Some p" and q: "held q E"
  shows "refs_ok (dec q (inc p E)) (set_var x q h)"
proof -
  have "x \<notin> dom (rh_vars (unset_var x h))" by (simp add: unset_var_def)
  from bind_ok [OF unbind_ok [OF ok x] this] q show ?thesis by simp
qed

lemma dec_inc_commute: "held q E \<Longrightarrow> dec q (inc p E) = inc p (dec q E)"
  by (cases p; cases q) (auto simp: dec_def inc_def held_def fun_eq_iff)

lemma maybe_AddRef_ok:
  assumes ok: "refs_ok E h" and p: "case p of None \<Rightarrow> True | Some a \<Rightarrow> rh_objects h a \<noteq> None"
    and room: "\<And>a. card (holders h a) + E a + 1 < 2 ^ 64"
  shows "\<exists>h'. maybe_AddRef p h = Inr h' \<and> refs_ok (inc p E) h' \<and> rh_vars h' = rh_vars h \<and>
    (\<forall>b. map_option rc_value (rh_objects h' b) = map_option rc_value (rh_objects h b))"
proof (cases p)
  case None
  with ok show ?thesis by (simp add: maybe_AddRef_def inc_def)
next
  case (Some a)
  with p obtain x where "rh_objects h a = Some x" by auto
  from AddRef_ok [OF ok this room] Some show ?thesis by (auto simp: maybe_AddRef_def)
qed

lemma maybe_Release_ok:
  assumes ok: "refs_ok E h" and p: "held p E"
    and dtor: "\<And>a x. p = Some a \<Longrightarrow> rh_objects h a = Some x \<Longrightarrow> holders h a = {} \<Longrightarrow> E a = 1 \<Longrightarrow> dtor_ok (rc_value x)"
  shows "\<exists>h'. maybe_Release dtor_ok p h = Inr h' \<and> refs_ok (dec p E) h' \<and> rh_vars h' = rh_vars h \<and>
    (\<forall>b. map_option rc_value (rh_objects h' b) =
      (if p = Some b \<and> holders h b = {} \<and> E b = 1 then None else map_option rc_value (rh_objects h b)))"
proof (cases p)
  case None
  with ok show ?thesis by (simp add: maybe_Release_def dec_def)
next
  case (Some a)
  with p have e: "0 < E a" by (simp add: held_def)
  from Release_ok [OF ok e, where dtor_ok = dtor_ok] dtor [OF Some] obtain h' where
    h': "RefCounted_Release dtor_ok a h = Inr h'" "refs_ok (dec (Some a) E) h'" "rh_vars h' = rh_vars h"
    and v: "\<And>b. map_option rc_value (rh_objects h' b) =
      (if b = a \<and> holders h a = {} \<and> E a = 1 then None else map_option rc_value (rh_objects h b))"
    by blast
  have "map_option rc_value (rh_objects h' b) =
      (if p = Some b \<and> holders h b = {} \<and> E b = 1 then None else map_option rc_value (rh_objects h b))" for b
    using v [of b] Some by (cases "b = a") simp_all
  with h' Some show ?thesis by (intro exI [of _ h']) (simp add: maybe_Release_def)
qed

lemma maybe_AddRef_set_var:
  "maybe_AddRef p (set_var x q h) = obind (maybe_AddRef p h) (\<lambda>h1. Inr (set_var x q h1))"
  by (cases p; cases "rh_objects h (the p)")
    (auto simp: maybe_AddRef_def AddRef_def object_at_def set_var_def set_object_def check_def)

lemma maybe_Release_unset_var:
  "obind (maybe_Release dtor_ok p h) (\<lambda>h1. Inr (unset_var x h1)) = maybe_Release dtor_ok p (unset_var x h)"
  by (cases p; cases "rh_objects h (the p)")
    (auto simp: maybe_Release_def RefCounted_Release_def Base_Release_def delete_object_def object_at_def
      unset_var_def set_object_def check_def Let_def)

subsection \<open>The operations on RefPtrs\<close>

abbreviation counted :: "'v ref_heap \<Rightarrow> bool" where
  "counted \<equiv> refs_ok (\<lambda>_. 0)"

abbreviation room :: "'v ref_heap \<Rightarrow> bool" where
  "room h \<equiv> card (dom (rh_vars h)) + 1 < 2 ^ 64"

text \<open>\<open>last_ref h x a\<close>: the variable \<open>x\<close> holds the only reference to \<open>a\<close>.\<close>

definition last_ref :: "'v ref_heap \<Rightarrow> var \<Rightarrow> addr \<Rightarrow> bool" where
  "last_ref h x a \<longleftrightarrow> holders h a = {x}"

lemma room_holders:
  assumes "refs_ok E h" and "room h"
  shows "card (holders h a) + 1 < 2 ^ 64"
proof -
  have "card (holders h a) \<le> card (dom (rh_vars h))"
    using refs_okD(4) [OF assms(1)] by (intro card_mono) (auto simp: holders_def)
  with assms(2) show ?thesis by simp
qed

lemma pointee_live: "counted h \<Longrightarrow> rh_vars h x = Some (Some a) \<Longrightarrow> \<exists>y. rh_objects h a = Some y"
  by (rule refs_live) (auto simp: holders_def)

lemma counted_addref:
  assumes "counted h" and "case p of None \<Rightarrow> True | Some a \<Rightarrow> rh_objects h a \<noteq> None" and "room h"
  obtains h' where "maybe_AddRef p h = Inr h'" and "refs_ok (inc p (\<lambda>_. 0)) h'" and "rh_vars h' = rh_vars h"
    and "\<And>b. map_option rc_value (rh_objects h' b) = map_option rc_value (rh_objects h b)"
  using maybe_AddRef_ok [OF assms(1,2)] room_holders [OF assms(1,3)] by auto

lemma RefPtr_plain_ok:
  assumes ok: "counted h" and x: "x \<notin> dom (rh_vars h)" and r: "room h"
    and p: "case p of None \<Rightarrow> True | Some a \<Rightarrow> rh_objects h a \<noteq> None"
  shows "\<exists>h'. RefPtr_plain x p h = Inr h' \<and> counted h' \<and> rh_vars h' = (rh_vars h)(x \<mapsto> p) \<and>
    (\<forall>b. map_option rc_value (rh_objects h' b) = map_option rc_value (rh_objects h b))"
proof (rule counted_addref [OF ok p r])
  fix h' assume h': "maybe_AddRef p h = Inr h'" "refs_ok (inc p (\<lambda>_. 0)) h'" "rh_vars h' = rh_vars h"
    "\<And>b. map_option rc_value (rh_objects h' b) = map_option rc_value (rh_objects h b)"
  have "counted (set_var x p h')" using bind_ok [OF h'(2), of x p] x h'(3) by simp
  with h' show ?thesis by (simp add: RefPtr_plain_def maybe_AddRef_set_var) (simp add: set_var_def)
qed

lemma RefPtr_copy_ok:
  assumes ok: "counted h" and x: "x \<notin> dom (rh_vars h)" and r: "room h" and p: "rh_vars h r = Some p"
  shows "\<exists>h'. RefPtr_copy x r h = Inr h' \<and> counted h' \<and> rh_vars h' = (rh_vars h)(x \<mapsto> p) \<and>
    (\<forall>b. map_option rc_value (rh_objects h' b) = map_option rc_value (rh_objects h b))"
proof -
  have "case p of None \<Rightarrow> True | Some a \<Rightarrow> rh_objects h a \<noteq> None"
    using pointee_live [OF ok] p by (auto split: option.splits)
  from RefPtr_plain_ok [OF ok x r this] p show ?thesis
    by (simp add: RefPtr_copy_def RefPtr_plain_def var_at_def)
qed

lemma RefPtr_destroy_ok:
  assumes ok: "counted h" and p: "rh_vars h x = Some p"
    and dtor: "\<And>a y. p = Some a \<Longrightarrow> rh_objects h a = Some y \<Longrightarrow> last_ref h x a \<Longrightarrow> dtor_ok (rc_value y)"
  shows "\<exists>h'. RefPtr_destroy dtor_ok x h = Inr h' \<and> counted h' \<and> rh_vars h' = (rh_vars h)(x := None) \<and>
    (\<forall>b. map_option rc_value (rh_objects h' b) =
      (if p = Some b \<and> last_ref h x b then None else map_option rc_value (rh_objects h b)))"
proof -
  have last: "p = Some a \<Longrightarrow> holders (unset_var x h) a = {} \<longleftrightarrow> last_ref h x a" for a
  proof -
    assume "p = Some a"
    then have "x \<in> holders h a" using p by (simp add: holders_def)
    then show ?thesis by (auto simp: last_ref_def)
  qed
  have one: "p = Some a \<Longrightarrow> inc p (\<lambda>_. 0) a = 1" for a by (simp add: inc_def)
  have "\<exists>h'. maybe_Release dtor_ok p (unset_var x h) = Inr h' \<and> refs_ok (dec p (inc p (\<lambda>_. 0))) h' \<and>
      rh_vars h' = rh_vars (unset_var x h) \<and> (\<forall>b. map_option rc_value (rh_objects h' b) =
        (if p = Some b \<and> holders (unset_var x h) b = {} \<and> inc p (\<lambda>_. 0) b = 1 then None
         else map_option rc_value (rh_objects (unset_var x h) b)))"
    by (rule maybe_Release_ok [OF unbind_ok [OF ok p]]) (use dtor last in \<open>simp_all add: unset_var_def\<close>)
  then obtain h' where h': "maybe_Release dtor_ok p (unset_var x h) = Inr h'" "counted h'"
    "rh_vars h' = rh_vars (unset_var x h)"
    and v: "\<And>b. map_option rc_value (rh_objects h' b) =
        (if p = Some b \<and> holders (unset_var x h) b = {} \<and> inc p (\<lambda>_. 0) b = 1 then None
         else map_option rc_value (rh_objects (unset_var x h) b))" by auto
  have "RefPtr_destroy dtor_ok x h = Inr h'"
    using h'(1) p maybe_Release_unset_var [of dtor_ok p h x]
    by (simp add: RefPtr_destroy_def var_at_def unset_var_def)
  moreover have "map_option rc_value (rh_objects h' b) =
      (if p = Some b \<and> last_ref h x b then None else map_option rc_value (rh_objects h b))" for b
    using v [of b] last [of b] one [of b] by (auto simp: unset_var_def)
  ultimately show ?thesis using h' by (intro exI [of _ h']) (simp add: unset_var_def)
qed

lemma zero_held [simp]: "held p (\<lambda>_. 0) \<longleftrightarrow> p = None"
  by (cases p) (simp_all add: held_def)

lemma inc_None [simp]: "inc None E = E" and dec_None [simp]: "dec None E = E"
  by (simp_all add: inc_def dec_def)

lemma RefPtr_null_ok:
  assumes "counted h" and "x \<notin> dom (rh_vars h)"
  shows "counted (RefPtr_null x h)"
  using bind_ok [OF assms, of None] by (simp add: RefPtr_null_def)

lemma RefPtr_move_ok:
  assumes ok: "counted h" and x: "x \<notin> dom (rh_vars h)" and p: "rh_vars h r = Some p"
  shows "\<exists>h'. RefPtr_move x r h = Inr h' \<and> counted h' \<and> rh_vars h' = (rh_vars h)(x \<mapsto> p, r \<mapsto> None) \<and>
    rh_objects h' = rh_objects h"
proof -
  have ne: "x \<noteq> r" using x p by auto
  have "refs_ok (inc p (\<lambda>_. 0)) (set_var r None h)"
    using rebind_ok [OF ok p, of None] by simp
  from bind_ok [OF this, of x p] x ne have "counted (set_var x p (set_var r None h))"
    by (auto simp: set_var_def)
  moreover have "set_var r None (set_var x p h) = set_var x p (set_var r None h)"
    using ne by (simp add: set_var_def fun_upd_twist)
  ultimately show ?thesis using p ne
    by (simp add: RefPtr_move_def var_at_def) (simp add: set_var_def fun_upd_twist)
qed

text \<open>Overwriting \<open>x\<close> and then dropping the reference it held.\<close>

lemma overwrite_ok:
  assumes ok: "refs_ok (inc q (\<lambda>_. 0)) h" and x: "rh_vars h x = Some p"
    and dtor: "\<And>a y. p = Some a \<Longrightarrow> p \<noteq> q \<Longrightarrow> rh_objects h a = Some y \<Longrightarrow> last_ref h x a \<Longrightarrow> dtor_ok (rc_value y)"
  obtains h' where "maybe_Release dtor_ok p (set_var x q h) = Inr h'" and "counted h'"
    and "rh_vars h' = (rh_vars h)(x \<mapsto> q)"
    and "\<And>b. map_option rc_value (rh_objects h' b) =
      (if p = Some b \<and> p \<noteq> q \<and> last_ref h x b then None else map_option rc_value (rh_objects h b))"
proof -
  have last: "p = Some a \<Longrightarrow> holders (set_var x q h) a = {} \<longleftrightarrow> p \<noteq> q \<and> last_ref h x a" for a
  proof -
    assume "p = Some a"
    then have "x \<in> holders h a" using x by (simp add: holders_def)
    with \<open>p = Some a\<close> show ?thesis by (auto simp: last_ref_def holders_set_var)
  qed
  have one: "p = Some a \<Longrightarrow> inc p (\<lambda>_. 0) a = 1" for a by (simp add: inc_def)
  have "refs_ok (inc p (\<lambda>_. 0)) (set_var x q h)"
    using rebind_ok [OF ok x held_inc] by (simp add: dec_inc_commute)
  from maybe_Release_ok [OF this held_inc, of dtor_ok] last dtor obtain h' where
    h': "maybe_Release dtor_ok p (set_var x q h) = Inr h'" "counted h'" "rh_vars h' = rh_vars (set_var x q h)"
    and v: "\<And>b. map_option rc_value (rh_objects h' b) =
      (if p = Some b \<and> holders (set_var x q h) b = {} \<and> inc p (\<lambda>_. 0) b = 1 then None
       else map_option rc_value (rh_objects (set_var x q h) b))"
    by (auto simp: set_var_def)
  have "map_option rc_value (rh_objects h' b) =
      (if p = Some b \<and> p \<noteq> q \<and> last_ref h x b then None else map_option rc_value (rh_objects h b))" for b
    using v [of b] last [of b] one [of b] by (cases "p = Some b") (simp_all add: set_var_def)
  with h' show ?thesis by (intro that [of h']) (simp_all add: set_var_def)
qed

lemma RefPtr_copy_assign_ok:
  assumes ok: "counted h" and x: "rh_vars h x = Some p" and q: "rh_vars h r = Some q" and m: "room h"
    and dtor: "\<And>a y. p = Some a \<Longrightarrow> p \<noteq> q \<Longrightarrow> rh_objects h a = Some y \<Longrightarrow> last_ref h x a \<Longrightarrow> dtor_ok (rc_value y)"
  shows "\<exists>h'. RefPtr_copy_assign dtor_ok x r h = Inr h' \<and> counted h' \<and> rh_vars h' = (rh_vars h)(x \<mapsto> q) \<and>
    (\<forall>b. map_option rc_value (rh_objects h' b) =
      (if p = Some b \<and> p \<noteq> q \<and> last_ref h x b then None else map_option rc_value (rh_objects h b)))"
proof (cases "p = q")
  case True
  with ok x q show ?thesis by (auto simp: RefPtr_copy_assign_def var_at_def fun_upd_idem)
next
  case False
  have live: "case q of None \<Rightarrow> True | Some a \<Rightarrow> rh_objects h a \<noteq> None"
    using pointee_live [OF ok] q by (auto split: option.splits)
  show ?thesis
  proof (rule counted_addref [OF ok live m])
    fix h1 assume h1: "maybe_AddRef q h = Inr h1" "refs_ok (inc q (\<lambda>_. 0)) h1" "rh_vars h1 = rh_vars h"
      and v: "\<And>b. map_option rc_value (rh_objects h1 b) = map_option rc_value (rh_objects h b)"
    have l: "last_ref h1 x a = last_ref h x a" for a using h1(3) by (simp add: last_ref_def holders_def)
    have d: "dtor_ok (rc_value y)"
      if "p = Some a" "p \<noteq> q" "rh_objects h1 a = Some y" "last_ref h1 x a" for a y
      using that v [of a] l dtor [of a] by (cases "rh_objects h a") auto
    show ?thesis
    proof (rule overwrite_ok [OF h1(2), of x p dtor_ok])
      fix h' assume "maybe_Release dtor_ok p (set_var x q h1) = Inr h'" "counted h'"
        "rh_vars h' = (rh_vars h1)(x \<mapsto> q)" "\<And>b. map_option rc_value (rh_objects h' b) =
          (if p = Some b \<and> p \<noteq> q \<and> last_ref h1 x b then None else map_option rc_value (rh_objects h1 b))"
      with False x q h1 v l show ?thesis by (simp add: RefPtr_copy_assign_def var_at_def)
    qed (use h1(3) x d in auto)
  qed
qed

lemma RefPtr_move_assign_ok:
  assumes ok: "counted h" and x: "rh_vars h x = Some p" and q: "rh_vars h r = Some q"
    and dtor: "\<And>a y. p = Some a \<Longrightarrow> rh_objects h a = Some y \<Longrightarrow> last_ref h x a \<Longrightarrow> dtor_ok (rc_value y)"
  shows "\<exists>h'. RefPtr_move_assign dtor_ok x r h = Inr h' \<and> counted h' \<and>
    rh_vars h' = (rh_vars h)(r \<mapsto> None, x \<mapsto> q) \<and>
    (\<forall>b. map_option rc_value (rh_objects h' b) =
      (if p = Some b \<and> p \<noteq> q \<and> last_ref h x b then None else map_option rc_value (rh_objects h b)))"
proof -
  let ?h1 = "set_var r None h"
  define p' where "p' = (if x = r then None else p)"
  have p': "rh_vars ?h1 x = Some p'" using x by (auto simp: set_var_def p'_def)
  have l: "p' = Some a \<Longrightarrow> p \<noteq> q \<Longrightarrow> last_ref ?h1 x a = last_ref h x a" for a
  proof -
    assume "p' = Some a" "p \<noteq> q"
    then have "r \<notin> holders h a" using q by (auto simp: holders_def p'_def split: if_splits)
    then show ?thesis by (simp add: last_ref_def holders_set_var)
  qed
  have o: "rh_objects ?h1 = rh_objects h" by (simp add: set_var_def)
  have "refs_ok (inc q (\<lambda>_. 0)) ?h1" using rebind_ok [OF ok q, of None] by simp
  then show ?thesis
  proof (rule overwrite_ok [of q ?h1 x p' dtor_ok, OF _ p'])
    fix h' assume h': "maybe_Release dtor_ok p' (set_var x q ?h1) = Inr h'" "counted h'"
      "rh_vars h' = (rh_vars ?h1)(x \<mapsto> q)" and v: "\<And>b. map_option rc_value (rh_objects h' b) =
        (if p' = Some b \<and> p' \<noteq> q \<and> last_ref ?h1 x b then None else map_option rc_value (rh_objects ?h1 b))"
    have "(p' = Some b \<and> p' \<noteq> q \<and> last_ref ?h1 x b) = (p = Some b \<and> p \<noteq> q \<and> last_ref h x b)" for b
      using l [of b] x q by (cases "x = r") (auto simp: p'_def)
    with h' v p' q show ?thesis
      by (simp add: RefPtr_move_assign_def var_at_def o) (auto simp: set_var_def)
  qed (use l dtor in \<open>auto simp: o p'_def split: if_splits\<close>)
qed

lemma RefPtr_swap_ok:
  assumes ok: "counted h" and x: "rh_vars h x = Some p" and q: "rh_vars h r = Some q"
  shows "\<exists>h'. RefPtr_swap x r h = Inr h' \<and> counted h' \<and> rh_vars h' = (rh_vars h)(x \<mapsto> q, r \<mapsto> p)"
proof (cases "x = r")
  case True
  with ok x q show ?thesis by (auto simp: RefPtr_swap_def var_at_def set_var_def fun_upd_idem)
next
  case False
  have 1: "refs_ok (inc q (\<lambda>_. 0)) (unset_var r h)" using unbind_ok [OF ok q] .
  then have "refs_ok (inc p (\<lambda>_. 0)) (set_var x q (unset_var r h))"
    using rebind_ok [of "inc q (\<lambda>_. 0)" "unset_var r h" x p q] x False
    by (simp add: unset_var_def dec_inc_commute)
  from bind_ok [OF this, of r p] False have "counted (set_var r p (set_var x q (unset_var r h)))"
    by (simp add: set_var_def unset_var_def)
  moreover have "set_var r p (set_var x q (unset_var r h)) = set_var r p (set_var x q h)"
    using False by (auto simp: set_var_def unset_var_def fun_upd_twist)
  ultimately show ?thesis using x q by (auto simp: RefPtr_swap_def var_at_def set_var_def)
qed

lemma MakeRefCounted_ok:
  assumes ok: "counted h" and x: "x \<notin> dom (rh_vars h)"
  shows "\<exists>h'. MakeRefCounted x v h = Inr h' \<and> counted h' \<and> rh_vars h' = (rh_vars h)(x \<mapsto> Some (rh_next h)) \<and>
    rh_objects h (rh_next h) = None \<and>
    (\<forall>b. map_option rc_value (rh_objects h' b) =
      (if b = rh_next h then Some v else map_option rc_value (rh_objects h b)))"
proof -
  let ?a = "rh_next h"
  have none: "rh_objects h ?a = None" using refs_okD(3) [OF ok, of ?a] by simp
  let ?h = "(set_object ?a ((RefCountedThreadSafeBase_new v)\<lparr>rc_adoption_required := False\<rparr>) h)\<lparr>rh_next := ?a + 1\<rparr>"
  have "refs_ok (inc (Some ?a) (\<lambda>_. 0)) ?h"
    using refs_okD [OF ok] none
    by (intro refs_okI) (auto simp: set_object_def object_ok_def inc_def RefCountedThreadSafeBase_new_def
        split: if_splits)
  from bind_ok [OF this, of x "Some ?a"] x have "counted (set_var x (Some ?a) ?h)"
    by (simp add: set_object_def)
  moreover have "MakeRefCounted x v h = Inr (set_var x (Some ?a) ?h)"
    by (simp add: MakeRefCounted_def AdoptRef_def Base_Adopt_def object_at_def set_object_def set_var_def
        RefCountedThreadSafeBase_new_def Let_def)
  ultimately show ?thesis using none
    by (auto simp: set_var_def set_object_def RefCountedThreadSafeBase_new_def)
qed

subsection \<open>Runs\<close>

text \<open>Programs that only use \<open>RefPtr\<close> variables: a constructor makes a variable that is not alive, a
  destructor ends one that is, \<open>RefPtr(T*)\<close> is given an object that has been adopted, and there
  are fewer than 2^64 - 1 variables. The destructor of a \<open>T\<close> checks nothing.\<close>

inductive ref_step :: "'v ref_heap \<Rightarrow> 'v ref_heap \<Rightarrow> bool" where
  null: "x \<notin> dom (rh_vars h) \<Longrightarrow> ref_step h (RefPtr_null x h)"
| plain: "x \<notin> dom (rh_vars h) \<Longrightarrow> room h \<Longrightarrow> rh_objects h a \<noteq> None \<Longrightarrow>
    RefPtr_plain x (Some a) h = Inr h' \<Longrightarrow> ref_step h h'"
| copy: "x \<notin> dom (rh_vars h) \<Longrightarrow> r \<in> dom (rh_vars h) \<Longrightarrow> room h \<Longrightarrow> RefPtr_copy x r h = Inr h' \<Longrightarrow> ref_step h h'"
| move: "x \<notin> dom (rh_vars h) \<Longrightarrow> r \<in> dom (rh_vars h) \<Longrightarrow> RefPtr_move x r h = Inr h' \<Longrightarrow> ref_step h h'"
| destroy: "x \<in> dom (rh_vars h) \<Longrightarrow> RefPtr_destroy (\<lambda>_. True) x h = Inr h' \<Longrightarrow> ref_step h h'"
| copy_assign: "x \<in> dom (rh_vars h) \<Longrightarrow> r \<in> dom (rh_vars h) \<Longrightarrow> room h \<Longrightarrow>
    RefPtr_copy_assign (\<lambda>_. True) x r h = Inr h' \<Longrightarrow> ref_step h h'"
| move_assign: "x \<in> dom (rh_vars h) \<Longrightarrow> r \<in> dom (rh_vars h) \<Longrightarrow>
    RefPtr_move_assign (\<lambda>_. True) x r h = Inr h' \<Longrightarrow> ref_step h h'"
| swap: "x \<in> dom (rh_vars h) \<Longrightarrow> r \<in> dom (rh_vars h) \<Longrightarrow> RefPtr_swap x r h = Inr h' \<Longrightarrow> ref_step h h'"
| make: "x \<notin> dom (rh_vars h) \<Longrightarrow> MakeRefCounted x v h = Inr h' \<Longrightarrow> ref_step h h'"

definition empty_heap :: "'v ref_heap" where
  "empty_heap = \<lparr>rh_objects = Map.empty, rh_vars = Map.empty, rh_next = 0\<rparr>"

inductive ref_reachable :: "'v ref_heap \<Rightarrow> bool" where
  start: "ref_reachable empty_heap"
| step: "ref_reachable h \<Longrightarrow> ref_step h h' \<Longrightarrow> ref_reachable h'"

lemma ref_step_counted: "ref_step h h' \<Longrightarrow> counted h \<Longrightarrow> counted h'"
proof (induction rule: ref_step.induct)
  case (plain x h a h')
  then show ?case using RefPtr_plain_ok [of h x "Some a"] by auto
next
  case (copy x h r h')
  then show ?case using RefPtr_copy_ok [of h x r] by auto
next
  case (move x h r h')
  then show ?case using RefPtr_move_ok [of h x r] by auto
next
  case (destroy x h h')
  then show ?case using RefPtr_destroy_ok [of h x _ "\<lambda>_. True"] by auto
next
  case (copy_assign x h r h')
  then show ?case using RefPtr_copy_assign_ok [of h x _ r _ "\<lambda>_. True"] by auto
next
  case (move_assign x h r h')
  then show ?case using RefPtr_move_assign_ok [of h x _ r _ "\<lambda>_. True"] by auto
next
  case (swap x h r h')
  then show ?case using RefPtr_swap_ok [of h x _ r] by auto
next
  case (make x h v h')
  then show ?case using MakeRefCounted_ok [of h x v] by auto
qed (auto intro: RefPtr_null_ok)

lemma ref_reachable_counted: "ref_reachable h \<Longrightarrow> counted h"
proof (induction rule: ref_reachable.induct)
  case start
  show ?case by (simp add: refs_ok_def empty_heap_def holders_def)
qed (auto intro: ref_step_counted)

text \<open>C11: an object lives exactly as long as a \<open>RefPtr\<close> points at it. In every heap that a program
  using only \<open>RefPtr\<close>s can reach, an address holds an object exactly if some live \<open>RefPtr\<close>
  points at it, its counter is the number of those \<open>RefPtr\<close>s, and reading through any non-null
  \<open>RefPtr\<close> is defined: no dangling pointer, no leak.\<close>

theorem ref_count_is_reference_count:
  assumes "ref_reachable h"
  shows "((rh_objects h a \<noteq> None) \<longleftrightarrow> (\<exists>x. rh_vars h x = Some (Some a))) \<and>
    (\<forall>y. rh_objects h a = Some y \<longrightarrow> unat (rc_ref_count y) = card {x. rh_vars h x = Some (Some a)}) \<and>
    (\<forall>x. rh_vars h x = Some (Some a) \<longrightarrow> (\<exists>v. RefPtr_deref x h = Inr v))"
proof -
  have ok: "counted h" using assms by (rule ref_reachable_counted)
  show ?thesis
  proof (cases "rh_objects h a")
    case None
    with refs_okD(2) [OF ok, of a] show ?thesis by (auto simp: holders_def)
  next
    case (Some y)
    with refs_okD(1) [OF ok Some] show ?thesis
      by (auto simp: object_ok_def holders_def RefPtr_deref_def var_at_def object_at_def card_gt_0_iff)
  qed
qed

text \<open>No operation on \<open>RefPtr\<close>s faults, and none deletes too early or too late. Constructors,
  assignments and swaps (of a pointer with itself too) succeed in every reachable heap; destroying
  a \<open>RefPtr\<close> succeeds and deletes the object it points at exactly if no other \<open>RefPtr\<close> does.\<close>

theorem RefPtr_operations_total:
  assumes "ref_reachable h" and "rh_vars h x = Some p" and "rh_vars h r = Some q"
    and "room h" and "y \<notin> dom (rh_vars h)"
  shows "(\<exists>h'. RefPtr_copy y r h = Inr h') \<and> (\<exists>h'. RefPtr_move y r h = Inr h') \<and>
    (\<exists>h'. RefPtr_copy_assign (\<lambda>_. True) x r h = Inr h' \<and> rh_vars h' = (rh_vars h)(x \<mapsto> q)) \<and>
    (\<exists>h'. RefPtr_move_assign (\<lambda>_. True) x r h = Inr h' \<and> rh_vars h' = (rh_vars h)(r \<mapsto> None, x \<mapsto> q)) \<and>
    (\<exists>h'. RefPtr_swap x r h = Inr h' \<and> rh_vars h' = (rh_vars h)(x \<mapsto> q, r \<mapsto> p)) \<and>
    (\<exists>h'. RefPtr_destroy (\<lambda>_. True) x h = Inr h' \<and>
      (\<forall>a. rh_objects h' a = None \<longleftrightarrow> rh_objects h a = None \<or> p = Some a \<and> (\<forall>z. rh_vars h z = Some (Some a) \<longrightarrow> z = x)))"
proof -
  have ok: "counted h" using assms(1) by (rule ref_reachable_counted)
  have last: "last_ref h x a \<longleftrightarrow> (\<forall>z. rh_vars h z = Some (Some a) \<longrightarrow> z = x)" if "p = Some a" for a
    using that assms(2) by (auto simp: last_ref_def holders_def)
  obtain h' where h': "RefPtr_destroy (\<lambda>_. True) x h = Inr h'"
    "\<And>b. map_option rc_value (rh_objects h' b) =
      (if p = Some b \<and> last_ref h x b then None else map_option rc_value (rh_objects h b))"
    using RefPtr_destroy_ok [OF ok assms(2), of "\<lambda>_. True"] by auto
  have "rh_objects h' a = None \<longleftrightarrow> map_option rc_value (rh_objects h' a) = None" for a by simp
  then have "rh_objects h' a = None \<longleftrightarrow> rh_objects h a = None \<or> p = Some a \<and> last_ref h x a" for a
    by (simp only: h'(2)) auto
  with h'(1) last have "\<exists>h'. RefPtr_destroy (\<lambda>_. True) x h = Inr h' \<and>
      (\<forall>a. rh_objects h' a = None \<longleftrightarrow> rh_objects h a = None \<or> p = Some a \<and> (\<forall>z. rh_vars h z = Some (Some a) \<longrightarrow> z = x))"
    by (intro exI [of _ h']) auto
  then show ?thesis
    using RefPtr_copy_ok [OF ok assms(5,4,3)] RefPtr_move_ok [OF ok assms(5,3)]
      RefPtr_copy_assign_ok [OF ok assms(2,3,4), of "\<lambda>_. True"]
      RefPtr_move_assign_ok [OF ok assms(2,3), of "\<lambda>_. True"] RefPtr_swap_ok [OF ok assms(2,3)] by blast
qed

subsection \<open>A heap to instantiate the theorems at\<close>

text \<open>One object, made through the variable 0 and copied to 1.\<close>

definition sample_heap :: "nat ref_heap" where
  "sample_heap = \<lparr>rh_objects = [0 \<mapsto> \<lparr>rc_ref_count = 2, rc_adoption_required = False,
       rc_destruction_started = False, rc_value = 5\<rparr>],
     rh_vars = [0 \<mapsto> Some 0, 1 \<mapsto> Some 0], rh_next = 1\<rparr>"

lemma reachable_sample_heap: "ref_reachable sample_heap"
proof -
  let ?h = "\<lparr>rh_objects = [0 \<mapsto> \<lparr>rc_ref_count = 1, rc_adoption_required = False,
      rc_destruction_started = False, rc_value = 5\<rparr>], rh_vars = [0 \<mapsto> Some 0], rh_next = 1\<rparr> :: nat ref_heap"
  have "MakeRefCounted 0 5 empty_heap = Inr ?h"
    by (simp add: MakeRefCounted_def empty_heap_def AdoptRef_def Base_Adopt_def object_at_def set_object_def
        RefCountedThreadSafeBase_new_def set_var_def)
  then have "ref_step empty_heap ?h" by (intro ref_step.make) (simp_all add: empty_heap_def)
  moreover have "RefPtr_copy 1 0 ?h = Inr sample_heap"
    by (simp add: RefPtr_copy_def var_at_def maybe_AddRef_def AddRef_def object_at_def set_var_def
        set_object_def sample_heap_def)
  then have "ref_step ?h sample_heap" by (intro ref_step.copy [of 1 ?h 0]) simp_all
  ultimately show ?thesis by (blast intro: ref_reachable.intros)
qed

theorem ref_count_is_reference_count_witness:
  "(\<exists>v. RefPtr_deref 1 sample_heap = Inr v) \<and> rh_objects sample_heap 0 \<noteq> None"
  using ref_count_is_reference_count [OF reachable_sample_heap, of 0] by (simp add: sample_heap_def)

theorem RefPtr_operations_total_witness:
  "\<exists>h'. RefPtr_destroy (\<lambda>_. True) 0 sample_heap = Inr h' \<and> rh_objects h' 0 \<noteq> None"
proof -
  have "rh_vars sample_heap 0 = Some (Some 0)" "rh_vars sample_heap 1 = Some (Some 0)"
    "room sample_heap" "2 \<notin> dom (rh_vars sample_heap)" by (simp_all add: sample_heap_def)
  from RefPtr_operations_total [OF reachable_sample_heap this] obtain h' where
    h': "RefPtr_destroy (\<lambda>_. True) 0 sample_heap = Inr h'"
    "rh_objects h' 0 = None \<longleftrightarrow> rh_objects sample_heap 0 = None \<or>
       (\<forall>z. rh_vars sample_heap z = Some (Some 0) \<longrightarrow> z = 0)" by auto
  have "rh_vars sample_heap 1 = Some (Some 0)" "rh_objects sample_heap 0 \<noteq> None"
    by (simp_all add: sample_heap_def)
  with h' show ?thesis by auto
qed

end
