(* ===== verification/Weak_Pointers.thy ===== *)
theory Weak_Pointers
  imports Ref_Counting_Laws
begin

section \<open>Weak pointers\<close>

text \<open>
  \<open>app/src/main/cpp/memory/weak_ptr.h\<close>, \<open>weak_ptr_internal.{h,cc}\<close> and \<open>thread_checker.h\<close>: a
  \<open>WeakPtr\<close> is a plain pointer beside a \<open>RefPtr\<close> to a flag that its factory clears when it is
  destroyed. The flags live in a heap of reference-counted objects whose value is \<open>is_valid_\<close>;
  the member \<open>flag_\<close> of a \<open>WeakPtr\<close> or of a factory is the \<open>RefPtr\<close> variable of the same name.
  \<open>WeakPtr\<close> and \<open>TaskRunnerAffineWeakPtr\<close>, with their factories, differ only in the checker they
  carry; \<open>passes\<close> says whether a checker passes on the current thread.
\<close>

subsection \<open>State\<close>

record 'k WeakPtr =
  wp_ptr :: ptr
  wp_checker :: 'k

record 'k WeakPtrFactory =
  wf_ptr :: addr
  wf_checker :: 'k

record 'k weak_state =
  ws_flags :: "bool ref_heap"
  ws_ptrs :: "var \<rightharpoonup> 'k WeakPtr"
  ws_factories :: "var \<rightharpoonup> 'k WeakPtrFactory"

definition on_flags :: "(bool ref_heap \<Rightarrow> bool ref_heap outcome) \<Rightarrow> 'k weak_state \<Rightarrow> 'k weak_state outcome" where
  "on_flags f s = obind (f (ws_flags s)) (\<lambda>h. Inr (s\<lparr>ws_flags := h\<rparr>))"

definition weak_at :: "'k weak_state \<Rightarrow> var \<Rightarrow> 'k WeakPtr outcome" where
  "weak_at s x = (case ws_ptrs s x of None \<Rightarrow> Inl Undefined_Behaviour | Some w \<Rightarrow> Inr w)"

definition factory_at :: "'k weak_state \<Rightarrow> var \<Rightarrow> 'k WeakPtrFactory outcome" where
  "factory_at s x = (case ws_factories s x of None \<Rightarrow> Inl Undefined_Behaviour | Some w \<Rightarrow> Inr w)"

definition set_weak :: "var \<Rightarrow> 'k WeakPtr \<Rightarrow> 'k weak_state \<Rightarrow> 'k weak_state" where
  "set_weak x w s = s\<lparr>ws_ptrs := (ws_ptrs s)(x \<mapsto> w)\<rparr>"

subsection \<open>The thread checker\<close>

text \<open>\<open>ThreadChecker\<close> keeps \<open>pthread_self()\<close>; the checker passes on that thread.\<close>

definition ThreadChecker_new :: "nat \<Rightarrow> nat" where "ThreadChecker_new current = current"

definition IsCreationThreadCurrent :: "nat \<Rightarrow> nat \<Rightarrow> bool" where
  "IsCreationThreadCurrent current self \<longleftrightarrow> current = self"

subsection \<open>The flag\<close>

definition WeakPtrFlag_new :: bool where "WeakPtrFlag_new = True"

definition WeakPtrFlag_dtor_ok :: "bool \<Rightarrow> bool" where "WeakPtrFlag_dtor_ok is_valid \<longleftrightarrow> \<not> is_valid"

definition WeakPtrFlag_Invalidate :: "addr \<Rightarrow> bool ref_heap \<Rightarrow> bool ref_heap outcome" where
  "WeakPtrFlag_Invalidate a h =
     obind (object_at h a) (\<lambda>y.
     obind (check (rc_value y)) (\<lambda>_. Inr (set_object a (y\<lparr>rc_value := False\<rparr>) h)))"

subsection \<open>WeakPtr\<close>

definition WeakPtr_null :: "'k \<Rightarrow> var \<Rightarrow> 'k weak_state \<Rightarrow> 'k weak_state" where
  "WeakPtr_null k x s =
     set_weak x \<lparr>wp_ptr = None, wp_checker = k\<rparr> (s\<lparr>ws_flags := RefPtr_null x (ws_flags s)\<rparr>)"

definition WeakPtr_copy :: "var \<Rightarrow> var \<Rightarrow> 'k weak_state \<Rightarrow> 'k weak_state outcome" where
  "WeakPtr_copy x r s =
     obind (weak_at s r) (\<lambda>w. obind (on_flags (RefPtr_copy x r) s) (\<lambda>s1. Inr (set_weak x w s1)))"

definition WeakPtr_move :: "var \<Rightarrow> var \<Rightarrow> 'k weak_state \<Rightarrow> 'k weak_state outcome" where
  "WeakPtr_move x r s =
     obind (weak_at s r) (\<lambda>w. obind (on_flags (RefPtr_move x r) s) (\<lambda>s1. Inr (set_weak x w s1)))"

definition WeakPtr_destroy :: "var \<Rightarrow> 'k weak_state \<Rightarrow> 'k weak_state outcome" where
  "WeakPtr_destroy x s =
     obind (weak_at s x) (\<lambda>_.
     obind (on_flags (RefPtr_destroy WeakPtrFlag_dtor_ok x) s) (\<lambda>s1.
     Inr (s1\<lparr>ws_ptrs := (ws_ptrs s1)(x := None)\<rparr>)))"

definition WeakPtr_copy_assign :: "var \<Rightarrow> var \<Rightarrow> 'k weak_state \<Rightarrow> 'k weak_state outcome" where
  "WeakPtr_copy_assign x r s =
     obind (weak_at s x) (\<lambda>_. obind (weak_at s r) (\<lambda>w.
     obind (on_flags (RefPtr_copy_assign WeakPtrFlag_dtor_ok x r) s) (\<lambda>s1. Inr (set_weak x w s1))))"

definition WeakPtr_move_assign :: "var \<Rightarrow> var \<Rightarrow> 'k weak_state \<Rightarrow> 'k weak_state outcome" where
  "WeakPtr_move_assign x r s =
     obind (weak_at s x) (\<lambda>_. obind (weak_at s r) (\<lambda>w.
     obind (on_flags (RefPtr_move_assign WeakPtrFlag_dtor_ok x r) s) (\<lambda>s1. Inr (set_weak x w s1))))"

text \<open>\<open>flag_ = nullptr\<close> move-assigns a null temporary.\<close>

definition WeakPtr_reset :: "var \<Rightarrow> 'k weak_state \<Rightarrow> 'k weak_state outcome" where
  "WeakPtr_reset x s =
     obind (weak_at s x) (\<lambda>_.
     on_flags (\<lambda>h. obind (var_at h x) (\<lambda>p. maybe_Release WeakPtrFlag_dtor_ok p (set_var x None h))) s)"

definition CheckThreadSafety :: "('k \<Rightarrow> bool) \<Rightarrow> 'k \<Rightarrow> unit outcome" where
  "CheckThreadSafety passes k = check (passes k)"

definition WeakPtr_bool :: "('k \<Rightarrow> bool) \<Rightarrow> var \<Rightarrow> 'k weak_state \<Rightarrow> bool outcome" where
  "WeakPtr_bool passes x s =
     obind (weak_at s x) (\<lambda>w.
     obind (CheckThreadSafety passes (wp_checker w)) (\<lambda>_.
     obind (var_at (ws_flags s) x) (\<lambda>flag.
     case flag of
       None \<Rightarrow> Inr False
     | Some a \<Rightarrow> obind (object_at (ws_flags s) a) (\<lambda>y. Inr (rc_value y)))))"

definition WeakPtr_get :: "('k \<Rightarrow> bool) \<Rightarrow> var \<Rightarrow> 'k weak_state \<Rightarrow> ptr outcome" where
  "WeakPtr_get passes x s =
     obind (weak_at s x) (\<lambda>w.
     obind (CheckThreadSafety passes (wp_checker w)) (\<lambda>_.
     obind (WeakPtr_bool passes x s) (\<lambda>b. Inr (if b then wp_ptr w else None))))"

definition WeakPtr_deref :: "('k \<Rightarrow> bool) \<Rightarrow> var \<Rightarrow> 'k weak_state \<Rightarrow> addr outcome" where
  "WeakPtr_deref passes x s =
     obind (weak_at s x) (\<lambda>w.
     obind (CheckThreadSafety passes (wp_checker w)) (\<lambda>_.
     obind (WeakPtr_bool passes x s) (\<lambda>b.
     obind (check b) (\<lambda>_.
     obind (WeakPtr_get passes x s) (\<lambda>p.
     case p of None \<Rightarrow> Inl Undefined_Behaviour | Some a \<Rightarrow> Inr a)))))"

subsection \<open>WeakPtrFactory\<close>

definition WeakPtrFactory_new :: "'k \<Rightarrow> var \<Rightarrow> ptr \<Rightarrow> 'k weak_state \<Rightarrow> 'k weak_state outcome" where
  "WeakPtrFactory_new k f p s =
     obind (on_flags (MakeRefCounted f WeakPtrFlag_new) s) (\<lambda>s1.
     obind (check (p \<noteq> None)) (\<lambda>_.
     Inr (s1\<lparr>ws_factories := (ws_factories s1)(f \<mapsto> \<lparr>wf_ptr = the p, wf_checker = k\<rparr>)\<rparr>)))"

definition WeakPtrFactory_destroy :: "('k \<Rightarrow> bool) \<Rightarrow> var \<Rightarrow> 'k weak_state \<Rightarrow> 'k weak_state outcome" where
  "WeakPtrFactory_destroy passes f s =
     obind (factory_at s f) (\<lambda>w.
     obind (CheckThreadSafety passes (wf_checker w)) (\<lambda>_.
     obind (var_at (ws_flags s) f) (\<lambda>flag.
     obind (check (flag \<noteq> None)) (\<lambda>_.
     obind (on_flags (WeakPtrFlag_Invalidate (the flag)) s) (\<lambda>s1.
     obind (on_flags (RefPtr_destroy WeakPtrFlag_dtor_ok f) s1) (\<lambda>s2.
     Inr (s2\<lparr>ws_factories := (ws_factories s2)(f := None)\<rparr>)))))))"

definition WeakPtrFactory_GetWeakPtr :: "var \<Rightarrow> var \<Rightarrow> 'k weak_state \<Rightarrow> 'k weak_state outcome" where
  "WeakPtrFactory_GetWeakPtr f x s =
     obind (factory_at s f) (\<lambda>w.
     obind (on_flags (RefPtr_copy x f) s) (\<lambda>s1.
     Inr (set_weak x \<lparr>wp_ptr = Some (wf_ptr w), wp_checker = wf_checker w\<rparr> s1)))"

subsection \<open>The invariant\<close>

definition valid_flag :: "bool ref_heap \<Rightarrow> addr \<Rightarrow> bool" where
  "valid_flag h a \<longleftrightarrow> map_option rc_value (rh_objects h a) = Some True"

text \<open>In terms of the flag variables \<open>V\<close>, the weak pointers \<open>P\<close>, the factories \<open>F\<close> and the valid
  flags: each factory has a valid flag of its own, and a weak pointer with a valid flag shares it
  with a factory, for whose object it stands.\<close>

definition weak_inv ::
  "(var \<rightharpoonup> ptr) \<Rightarrow> (var \<rightharpoonup> 'k WeakPtr) \<Rightarrow> (var \<rightharpoonup> 'k WeakPtrFactory) \<Rightarrow> (addr \<Rightarrow> bool) \<Rightarrow> bool" where
  "weak_inv V P F valid \<longleftrightarrow>
     dom V = dom P \<union> dom F \<and> dom P \<inter> dom F = {} \<and>
     (\<forall>f v. F f = Some v \<longrightarrow> (\<exists>a. V f = Some (Some a) \<and> valid a)) \<and>
     (\<forall>f g u v. F f = Some v \<longrightarrow> F g = Some u \<longrightarrow> V f = V g \<longrightarrow> f = g) \<and>
     (\<forall>x w a. P x = Some w \<longrightarrow> V x = Some (Some a) \<longrightarrow> valid a \<longrightarrow>
        (\<exists>f v. F f = Some v \<and> V f = Some (Some a) \<and> wp_ptr w = Some (wf_ptr v)))"

definition weak_ok :: "'k weak_state \<Rightarrow> bool" where
  "weak_ok s \<longleftrightarrow> counted (ws_flags s) \<and>
     weak_inv (rh_vars (ws_flags s)) (ws_ptrs s) (ws_factories s) (valid_flag (ws_flags s))"

lemma weak_invD:
  assumes "weak_inv V P F valid"
  shows "dom V = dom P \<union> dom F" and "dom P \<inter> dom F = {}"
    and "F f = Some v \<Longrightarrow> \<exists>a. V f = Some (Some a) \<and> valid a"
    and "F f = Some v \<Longrightarrow> F g = Some u \<Longrightarrow> V f = V g \<Longrightarrow> f = g"
    and "P x = Some w \<Longrightarrow> V x = Some (Some a) \<Longrightarrow> valid a \<Longrightarrow>
      \<exists>f v. F f = Some v \<and> V f = Some (Some a) \<and> wp_ptr w = Some (wf_ptr v)"
  using assms unfolding weak_inv_def by (simp, simp, blast, blast, blast)

lemma weak_invI:
  assumes "dom V = dom P \<union> dom F" and "dom P \<inter> dom F = {}"
    and "\<And>f v. F f = Some v \<Longrightarrow> \<exists>a. V f = Some (Some a) \<and> valid a"
    and "\<And>f g u v. F f = Some v \<Longrightarrow> F g = Some u \<Longrightarrow> V f = V g \<Longrightarrow> f = g"
    and "\<And>x w a. P x = Some w \<Longrightarrow> V x = Some (Some a) \<Longrightarrow> valid a \<Longrightarrow>
      \<exists>f v. F f = Some v \<and> V f = Some (Some a) \<and> wp_ptr w = Some (wf_ptr v)"
  shows "weak_inv V P F valid"
  unfolding weak_inv_def
  using assms by (intro conjI allI impI)

text \<open>Giving a weak pointer \<open>x\<close>, new or old, the pointer and flag of a weak pointer or a factory, or
  a null flag.\<close>

lemma weak_inv_set:
  assumes inv: "weak_inv V P F valid" and x: "x \<notin> dom F"
    and src: "p = None \<or> (\<exists>r. P r = Some w \<and> V r = Some p) \<or>
      (\<exists>f v. F f = Some v \<and> V f = Some p \<and> wp_ptr w = Some (wf_ptr v))"
  shows "weak_inv (V(x \<mapsto> p)) (P(x \<mapsto> w)) F valid"
proof (rule weak_invI)
  have nx: "F f = Some v \<Longrightarrow> f \<noteq> x" for f v using x by auto
  show "dom (V(x \<mapsto> p)) = dom (P(x \<mapsto> w)) \<union> dom F" "dom (P(x \<mapsto> w)) \<inter> dom F = {}"
    using weak_invD(1,2) [OF inv] x by auto
  show "\<exists>a. (V(x \<mapsto> p)) f = Some (Some a) \<and> valid a" if "F f = Some v" for f v
    using weak_invD(3) [OF inv that] nx [OF that] by simp
  show "f = g" if "F f = Some v" "F g = Some u" "(V(x \<mapsto> p)) f = (V(x \<mapsto> p)) g" for f g u v
    using that weak_invD(4) [OF inv that(1,2)] nx [OF that(1)] nx [OF that(2)] by simp
  fix y u a assume y: "(P(x \<mapsto> w)) y = Some u" "(V(x \<mapsto> p)) y = Some (Some a)" "valid a"
  have "\<exists>f v. F f = Some v \<and> V f = Some (Some a) \<and> wp_ptr u = Some (wf_ptr v)"
    using y src weak_invD(5) [OF inv, of y u a] weak_invD(5) [OF inv, of _ w a]
    by (cases "y = x") auto
  then show "\<exists>f v. F f = Some v \<and> (V(x \<mapsto> p)) f = Some (Some a) \<and> wp_ptr u = Some (wf_ptr v)"
    using nx by fastforce
qed

lemma weak_inv_null:
  assumes "weak_inv V P F valid" and "x \<in> dom P"
  shows "weak_inv (V(x \<mapsto> None)) P F valid"
proof -
  from assms(2) obtain w where w: "P x = Some w" by blast
  have "x \<notin> dom F" using assms weak_invD(2) by blast
  from weak_inv_set [OF assms(1) this, of None w] w show ?thesis by (simp add: fun_upd_idem)
qed

lemma weak_inv_drop:
  assumes inv: "weak_inv V P F valid" and x: "x \<in> dom P"
  shows "weak_inv (V(x := None)) (P(x := None)) F valid"
proof (rule weak_invI)
  have x': "x \<notin> dom F" using inv x weak_invD(2) by blast
  then have nx: "F f = Some v \<Longrightarrow> f \<noteq> x" for f v by auto
  show "dom (V(x := None)) = dom (P(x := None)) \<union> dom F" "dom (P(x := None)) \<inter> dom F = {}"
    using weak_invD(1,2) [OF inv] x' by auto
  show "\<exists>a. (V(x := None)) f = Some (Some a) \<and> valid a" if "F f = Some v" for f v
    using weak_invD(3) [OF inv that] nx [OF that] by simp
  show "f = g" if "F f = Some v" "F g = Some u" "(V(x := None)) f = (V(x := None)) g" for f g u v
    using that weak_invD(4) [OF inv that(1,2)] nx [OF that(1)] nx [OF that(2)] by simp
  fix y u a assume "(P(x := None)) y = Some u" "(V(x := None)) y = Some (Some a)" "valid a"
  then have "\<exists>f v. F f = Some v \<and> V f = Some (Some a) \<and> wp_ptr u = Some (wf_ptr v)"
    using weak_invD(5) [OF inv, of y u a] by (auto split: if_splits)
  then show "\<exists>f v. F f = Some v \<and> (V(x := None)) f = Some (Some a) \<and> wp_ptr u = Some (wf_ptr v)"
    using nx by fastforce
qed

lemma weak_inv_factory:
  assumes inv: "weak_inv V P F valid" and f: "f \<notin> dom V" and a: "\<And>x. V x \<noteq> Some (Some a)"
    and valid': "\<And>b. valid' b \<longleftrightarrow> valid b \<or> b = a"
  shows "weak_inv (V(f \<mapsto> Some a)) P (F(f \<mapsto> v)) valid'"
proof (rule weak_invI)
  have f': "f \<notin> dom P" "f \<notin> dom F" using f weak_invD(1) [OF inv] by auto
  show "dom (V(f \<mapsto> Some a)) = dom P \<union> dom (F(f \<mapsto> v))" "dom P \<inter> dom (F(f \<mapsto> v)) = {}"
    using weak_invD(1,2) [OF inv] f' by auto
  show "\<exists>b. (V(f \<mapsto> Some a)) g = Some (Some b) \<and> valid' b" if "(F(f \<mapsto> v)) g = Some u" for g u
    using that weak_invD(3) [OF inv, of g u] valid' by (cases "g = f") auto
  show "g = g'" if "(F(f \<mapsto> v)) g = Some u" "(F(f \<mapsto> v)) g' = Some u'"
    "(V(f \<mapsto> Some a)) g = (V(f \<mapsto> Some a)) g'" for g g' u u'
    using that weak_invD(4) [OF inv, of g u g' u'] a by (auto split: if_splits)
  fix y w b assume y: "P y = Some w" "(V(f \<mapsto> Some a)) y = Some (Some b)" "valid' b"
  then have "V y = Some (Some b)" "b \<noteq> a" using f' a by (auto split: if_splits)
  with y valid' obtain g u where "F g = Some u" "V g = Some (Some b)" "wp_ptr w = Some (wf_ptr u)"
    using weak_invD(5) [OF inv, of y w b] by blast
  with f' show "\<exists>g u. (F(f \<mapsto> v)) g = Some u \<and> (V(f \<mapsto> Some a)) g = Some (Some b) \<and> wp_ptr w = Some (wf_ptr u)"
    by (intro exI [of _ g] exI [of _ u]) auto
qed

lemma weak_inv_unfactory:
  assumes inv: "weak_inv V P F valid" and f: "F f = Some v" "V f = Some (Some a)"
    and valid': "\<And>b. valid' b \<longleftrightarrow> valid b \<and> b \<noteq> a"
  shows "weak_inv (V(f := None)) P (F(f := None)) valid'"
proof (rule weak_invI)
  have f': "f \<notin> dom P" using f weak_invD(2) [OF inv] by blast
  show "dom (V(f := None)) = dom P \<union> dom (F(f := None))" "dom P \<inter> dom (F(f := None)) = {}"
    using weak_invD(1,2) [OF inv] f' by auto
  show "\<exists>b. (V(f := None)) g = Some (Some b) \<and> valid' b" if "(F(f := None)) g = Some u" for g u
  proof -
    from that have g: "g \<noteq> f" "F g = Some u" by (auto split: if_splits)
    from weak_invD(3) [OF inv g(2)] obtain b where "V g = Some (Some b)" "valid b" by blast
    moreover have "b \<noteq> a" using weak_invD(4) [OF inv g(2) f(1)] f(2) g(1) \<open>V g = Some (Some b)\<close> by auto
    ultimately show ?thesis using g(1) valid' by auto
  qed
  show "g = g'" if "(F(f := None)) g = Some u" "(F(f := None)) g' = Some u'"
    "(V(f := None)) g = (V(f := None)) g'" for g g' u u'
    using that weak_invD(4) [OF inv, of g u g' u'] by (auto split: if_splits)
  fix y w b assume y: "P y = Some w" "(V(f := None)) y = Some (Some b)" "valid' b"
  then obtain g u where "F g = Some u" "V g = Some (Some b)" "wp_ptr w = Some (wf_ptr u)"
    using weak_invD(5) [OF inv, of y w b] valid' by (auto split: if_splits)
  moreover have "b \<noteq> a" using y(3) valid' by blast
  ultimately show "\<exists>g u. (F(f := None)) g = Some u \<and> (V(f := None)) g = Some (Some b) \<and> wp_ptr w = Some (wf_ptr u)"
    using f by (intro exI [of _ g] exI [of _ u]) auto
qed

subsection \<open>Every operation keeps it\<close>

lemma weak_okD:
  assumes "weak_ok s"
  shows "counted (ws_flags s)"
    and "weak_inv (rh_vars (ws_flags s)) (ws_ptrs s) (ws_factories s) (valid_flag (ws_flags s))"
  using assms by (simp_all add: weak_ok_def)

lemma flag_not_last:
  assumes ok: "weak_ok s" and x: "x \<in> dom (ws_ptrs s)" and l: "last_ref (ws_flags s) x a"
  shows "\<not> valid_flag (ws_flags s) a"
proof
  assume v: "valid_flag (ws_flags s) a"
  from x obtain w where w: "ws_ptrs s x = Some w" by blast
  have xa: "rh_vars (ws_flags s) x = Some (Some a)" using l by (auto simp: last_ref_def holders_def)
  from weak_invD(5) [OF weak_okD(2) [OF ok] w xa v] obtain f u where
    f: "ws_factories s f = Some u" "rh_vars (ws_flags s) f = Some (Some a)" by blast
  then have "f = x" using l by (auto simp: last_ref_def holders_def)
  with f(1) x weak_invD(2) [OF weak_okD(2) [OF ok]] show False by blast
qed

lemma valid_flag_same:
  assumes "\<And>b. map_option rc_value (rh_objects h' b) = map_option rc_value (rh_objects h b)"
  shows "valid_flag h' = valid_flag h"
  using assms by (simp add: valid_flag_def fun_eq_iff)

lemma valid_flag_dropped:
  assumes "\<And>b. map_option rc_value (rh_objects h' b) =
      (if C b then None else map_option rc_value (rh_objects h b))" and "\<And>b. C b \<Longrightarrow> \<not> valid_flag h b"
  shows "valid_flag h' = valid_flag h"
proof
  fix b
  show "valid_flag h' b = valid_flag h b" using assms [of b] by (cases "C b") (simp_all add: valid_flag_def)
qed

lemma dtor_of_invalid: "\<not> valid_flag h a \<Longrightarrow> rh_objects h a = Some y \<Longrightarrow> WeakPtrFlag_dtor_ok (rc_value y)"
  by (simp add: valid_flag_def WeakPtrFlag_dtor_ok_def)

lemma weak_vars:
  assumes "weak_ok s"
  shows "x \<in> dom (ws_ptrs s) \<Longrightarrow> \<exists>p. rh_vars (ws_flags s) x = Some p"
    and "x \<in> dom (ws_ptrs s) \<Longrightarrow> x \<notin> dom (ws_factories s)"
    and "x \<notin> dom (rh_vars (ws_flags s)) \<Longrightarrow> x \<notin> dom (ws_factories s)"
  using weak_invD(1,2) [OF weak_okD(2) [OF assms]] by blast+

lemma WeakPtr_copy_ok:
  assumes ok: "weak_ok s" and x: "x \<notin> dom (rh_vars (ws_flags s))" and r: "r \<in> dom (ws_ptrs s)"
    and m: "room (ws_flags s)"
  shows "\<exists>s'. WeakPtr_copy x r s = Inr s' \<and> weak_ok s'"
proof -
  obtain w p where w: "ws_ptrs s r = Some w" "rh_vars (ws_flags s) r = Some p"
    using r weak_vars(1) [OF ok r] by blast
  obtain h where
    h: "RefPtr_copy x r (ws_flags s) = Inr h" "counted h" "rh_vars h = (rh_vars (ws_flags s))(x \<mapsto> p)"
    "valid_flag h = valid_flag (ws_flags s)"
    using RefPtr_copy_ok [OF weak_okD(1) [OF ok] x m w(2)] valid_flag_same by metis
  have "weak_inv (rh_vars h) ((ws_ptrs s)(x \<mapsto> w)) (ws_factories s) (valid_flag h)"
    unfolding h(3,4) using weak_okD(2) [OF ok] weak_vars(3) [OF ok x] w by (intro weak_inv_set) blast+
  with h w show ?thesis by (simp add: WeakPtr_copy_def weak_at_def on_flags_def set_weak_def weak_ok_def)
qed

lemma WeakPtr_move_ok:
  assumes ok: "weak_ok s" and x: "x \<notin> dom (rh_vars (ws_flags s))" and r: "r \<in> dom (ws_ptrs s)"
  shows "\<exists>s'. WeakPtr_move x r s = Inr s' \<and> weak_ok s'"
proof -
  obtain w p where w: "ws_ptrs s r = Some w" "rh_vars (ws_flags s) r = Some p"
    using r weak_vars(1) [OF ok r] by blast
  from RefPtr_move_ok [OF weak_okD(1) [OF ok] x w(2)] obtain h where
    h: "RefPtr_move x r (ws_flags s) = Inr h" "counted h" "rh_vars h = (rh_vars (ws_flags s))(x \<mapsto> p, r \<mapsto> None)"
    "valid_flag h = valid_flag (ws_flags s)" by (auto simp: valid_flag_def fun_eq_iff)
  have "weak_inv ((rh_vars (ws_flags s))(x \<mapsto> p)) ((ws_ptrs s)(x \<mapsto> w)) (ws_factories s) (valid_flag h)"
    unfolding h(4) using weak_okD(2) [OF ok] weak_vars(3) [OF ok x] w by (intro weak_inv_set) blast+
  then have "weak_inv (rh_vars h) ((ws_ptrs s)(x \<mapsto> w)) (ws_factories s) (valid_flag h)"
    unfolding h(3) by (rule weak_inv_null) (use r in auto)
  with h w show ?thesis by (simp add: WeakPtr_move_def weak_at_def on_flags_def set_weak_def weak_ok_def)
qed

lemma WeakPtr_destroy_ok:
  assumes ok: "weak_ok s" and x: "x \<in> dom (ws_ptrs s)"
  shows "\<exists>s'. WeakPtr_destroy x s = Inr s' \<and> weak_ok s'"
proof -
  obtain w p where w: "ws_ptrs s x = Some w" "rh_vars (ws_flags s) x = Some p"
    using x weak_vars(1) [OF ok x] by blast
  have "\<exists>h. RefPtr_destroy WeakPtrFlag_dtor_ok x (ws_flags s) = Inr h \<and> counted h \<and>
      rh_vars h = (rh_vars (ws_flags s))(x := None) \<and> (\<forall>b. map_option rc_value (rh_objects h b) =
        (if p = Some b \<and> last_ref (ws_flags s) x b then None else map_option rc_value (rh_objects (ws_flags s) b)))"
    using weak_okD(1) [OF ok] w(2)
    by (rule RefPtr_destroy_ok) (use flag_not_last [OF ok x] dtor_of_invalid in blast)
  then obtain h where h: "RefPtr_destroy WeakPtrFlag_dtor_ok x (ws_flags s) = Inr h" "counted h"
    "rh_vars h = (rh_vars (ws_flags s))(x := None)" "valid_flag h = valid_flag (ws_flags s)"
    using valid_flag_dropped [of _ "\<lambda>b. p = Some b \<and> last_ref (ws_flags s) x b" "ws_flags s"]
      flag_not_last [OF ok x] by metis
  have "weak_inv (rh_vars h) ((ws_ptrs s)(x := None)) (ws_factories s) (valid_flag h)"
    unfolding h(3,4) using weak_okD(2) [OF ok] x by (rule weak_inv_drop)
  with h w show ?thesis by (simp add: WeakPtr_destroy_def weak_at_def on_flags_def weak_ok_def)
qed

lemma WeakPtr_copy_assign_ok:
  assumes ok: "weak_ok s" and x: "x \<in> dom (ws_ptrs s)" and r: "r \<in> dom (ws_ptrs s)"
    and m: "room (ws_flags s)"
  shows "\<exists>s'. WeakPtr_copy_assign x r s = Inr s' \<and> weak_ok s'"
proof -
  obtain w p where w: "ws_ptrs s x = Some w" "rh_vars (ws_flags s) x = Some p"
    using x weak_vars(1) [OF ok x] by blast
  obtain v q where v: "ws_ptrs s r = Some v" "rh_vars (ws_flags s) r = Some q"
    using r weak_vars(1) [OF ok r] by blast
  have "\<exists>h. RefPtr_copy_assign WeakPtrFlag_dtor_ok x r (ws_flags s) = Inr h \<and> counted h \<and>
      rh_vars h = (rh_vars (ws_flags s))(x \<mapsto> q) \<and> (\<forall>b. map_option rc_value (rh_objects h b) =
        (if p = Some b \<and> p \<noteq> q \<and> last_ref (ws_flags s) x b then None
         else map_option rc_value (rh_objects (ws_flags s) b)))"
    using weak_okD(1) [OF ok] w(2) v(2) m
    by (rule RefPtr_copy_assign_ok) (use flag_not_last [OF ok x] dtor_of_invalid in blast)
  then obtain h where h: "RefPtr_copy_assign WeakPtrFlag_dtor_ok x r (ws_flags s) = Inr h" "counted h"
    "rh_vars h = (rh_vars (ws_flags s))(x \<mapsto> q)" "valid_flag h = valid_flag (ws_flags s)"
    using valid_flag_dropped [of _ "\<lambda>b. p = Some b \<and> p \<noteq> q \<and> last_ref (ws_flags s) x b" "ws_flags s"]
      flag_not_last [OF ok x] by metis
  have "weak_inv (rh_vars h) ((ws_ptrs s)(x \<mapsto> v)) (ws_factories s) (valid_flag h)"
    unfolding h(3,4) using weak_okD(2) [OF ok] weak_vars(2) [OF ok x] v by (intro weak_inv_set) blast+
  with h w v show ?thesis by (simp add: WeakPtr_copy_assign_def weak_at_def on_flags_def set_weak_def weak_ok_def)
qed

lemma WeakPtr_move_assign_ok:
  assumes ok: "weak_ok s" and x: "x \<in> dom (ws_ptrs s)" and r: "r \<in> dom (ws_ptrs s)"
  shows "\<exists>s'. WeakPtr_move_assign x r s = Inr s' \<and> weak_ok s'"
proof -
  obtain w p where w: "ws_ptrs s x = Some w" "rh_vars (ws_flags s) x = Some p"
    using x weak_vars(1) [OF ok x] by blast
  obtain v q where v: "ws_ptrs s r = Some v" "rh_vars (ws_flags s) r = Some q"
    using r weak_vars(1) [OF ok r] by blast
  have "\<exists>h. RefPtr_move_assign WeakPtrFlag_dtor_ok x r (ws_flags s) = Inr h \<and> counted h \<and>
      rh_vars h = (rh_vars (ws_flags s))(r \<mapsto> None, x \<mapsto> q) \<and> (\<forall>b. map_option rc_value (rh_objects h b) =
        (if p = Some b \<and> p \<noteq> q \<and> last_ref (ws_flags s) x b then None
         else map_option rc_value (rh_objects (ws_flags s) b)))"
    using weak_okD(1) [OF ok] w(2) v(2)
    by (rule RefPtr_move_assign_ok) (use flag_not_last [OF ok x] dtor_of_invalid in blast)
  then obtain h where h: "RefPtr_move_assign WeakPtrFlag_dtor_ok x r (ws_flags s) = Inr h" "counted h"
    "rh_vars h = (rh_vars (ws_flags s))(r \<mapsto> None, x \<mapsto> q)" "valid_flag h = valid_flag (ws_flags s)"
    using valid_flag_dropped [of _ "\<lambda>b. p = Some b \<and> p \<noteq> q \<and> last_ref (ws_flags s) x b" "ws_flags s"]
      flag_not_last [OF ok x] by metis
  let ?V = "rh_vars (ws_flags s)" and ?P = "(ws_ptrs s)(x \<mapsto> v)"
  have 1: "weak_inv (?V(x \<mapsto> q)) ?P (ws_factories s) (valid_flag h)"
    unfolding h(4) using weak_okD(2) [OF ok] weak_vars(2) [OF ok x] v by (intro weak_inv_set) blast+
  have "weak_inv (rh_vars h) ?P (ws_factories s) (valid_flag h)"
  proof (cases "x = r")
    case True
    with 1 show ?thesis by (simp add: h(3))
  next
    case False
    then have "rh_vars h = ?V(x \<mapsto> q, r \<mapsto> None)" by (simp add: h(3) fun_upd_twist)
    with weak_inv_null [OF 1, of r] r show ?thesis by simp
  qed
  with h w v show ?thesis by (simp add: WeakPtr_move_assign_def weak_at_def on_flags_def set_weak_def weak_ok_def)
qed

lemma WeakPtr_reset_ok:
  assumes ok: "weak_ok s" and x: "x \<in> dom (ws_ptrs s)"
  shows "\<exists>s'. WeakPtr_reset x s = Inr s' \<and> weak_ok s'"
proof -
  let ?h = "ws_flags s"
  obtain w p where w: "ws_ptrs s x = Some w" "rh_vars ?h x = Some p"
    using x weak_vars(1) [OF ok x] by blast
  have ok': "refs_ok (inc None (\<lambda>_. 0)) ?h" using weak_okD(1) [OF ok] by simp
  show ?thesis
  proof (rule overwrite_ok [OF ok' w(2), of WeakPtrFlag_dtor_ok])
    fix a y assume "rh_objects ?h a = Some y" "last_ref ?h x a"
    then show "WeakPtrFlag_dtor_ok (rc_value y)" using flag_not_last [OF ok x] dtor_of_invalid by blast
  next
    fix h assume h: "maybe_Release WeakPtrFlag_dtor_ok p (set_var x None ?h) = Inr h" "counted h"
      "rh_vars h = (rh_vars ?h)(x \<mapsto> None)"
      and v: "\<And>b. map_option rc_value (rh_objects h b) =
        (if p = Some b \<and> p \<noteq> None \<and> last_ref ?h x b then None else map_option rc_value (rh_objects ?h b))"
    have "valid_flag h = valid_flag ?h"
      using flag_not_last [OF ok x]
      by (intro valid_flag_dropped [of _ "\<lambda>b. p = Some b \<and> p \<noteq> None \<and> last_ref ?h x b"]) (rule v, blast)
    then have "weak_inv (rh_vars h) (ws_ptrs s) (ws_factories s) (valid_flag h)"
      using weak_inv_null [OF weak_okD(2) [OF ok] x] h(3) by simp
    with h w show ?thesis by (simp add: WeakPtr_reset_def weak_at_def on_flags_def var_at_def weak_ok_def)
  qed
qed

lemma WeakPtr_null_ok:
  assumes ok: "weak_ok s" and x: "x \<notin> dom (rh_vars (ws_flags s))"
  shows "weak_ok (WeakPtr_null k x s)"
  using weak_inv_set [OF weak_okD(2) [OF ok] weak_vars(3) [OF ok x], of None] RefPtr_null_ok [OF weak_okD(1) [OF ok] x]
  by (simp add: weak_ok_def WeakPtr_null_def set_weak_def RefPtr_null_def set_var_def valid_flag_def [abs_def])

lemma GetWeakPtr_ok:
  assumes ok: "weak_ok s" and x: "x \<notin> dom (rh_vars (ws_flags s))" and f: "ws_factories s f = Some w"
    and m: "room (ws_flags s)"
  shows "\<exists>s'. WeakPtrFactory_GetWeakPtr f x s = Inr s' \<and> weak_ok s'"
proof -
  obtain p where p: "rh_vars (ws_flags s) f = Some p" using weak_invD(3) [OF weak_okD(2) [OF ok] f] by blast
  obtain h where
    h: "RefPtr_copy x f (ws_flags s) = Inr h" "counted h" "rh_vars h = (rh_vars (ws_flags s))(x \<mapsto> p)"
    "valid_flag h = valid_flag (ws_flags s)"
    using RefPtr_copy_ok [OF weak_okD(1) [OF ok] x m p] valid_flag_same by metis
  let ?w = "\<lparr>wp_ptr = Some (wf_ptr w), wp_checker = wf_checker w\<rparr>"
  have "weak_inv (rh_vars h) ((ws_ptrs s)(x \<mapsto> ?w)) (ws_factories s) (valid_flag h)"
    unfolding h(3,4) using weak_okD(2) [OF ok] weak_vars(3) [OF ok x] f p by (intro weak_inv_set) auto
  with h f show ?thesis
    by (simp add: WeakPtrFactory_GetWeakPtr_def factory_at_def on_flags_def set_weak_def weak_ok_def)
qed

lemma WeakPtrFactory_new_ok:
  assumes ok: "weak_ok s" and f: "f \<notin> dom (rh_vars (ws_flags s))"
  shows "\<exists>s'. WeakPtrFactory_new k f (Some a) s = Inr s' \<and> weak_ok s'"
proof -
  let ?h = "ws_flags s" and ?n = "rh_next (ws_flags s)"
  from MakeRefCounted_ok [OF weak_okD(1) [OF ok] f, of WeakPtrFlag_new] obtain h where
    h: "MakeRefCounted f WeakPtrFlag_new ?h = Inr h" "counted h" "rh_vars h = (rh_vars ?h)(f \<mapsto> Some ?n)"
    and none: "rh_objects ?h ?n = None" and v: "\<And>b. map_option rc_value (rh_objects h b) =
      (if b = ?n then Some WeakPtrFlag_new else map_option rc_value (rh_objects ?h b))" by auto
  have fresh: "rh_vars ?h x \<noteq> Some (Some ?n)" for x
    using refs_okD(2) [OF weak_okD(1) [OF ok] none] by (auto simp: holders_def)
  have valid: "valid_flag h b \<longleftrightarrow> valid_flag ?h b \<or> b = ?n" for b
    using v [of b] none by (simp add: valid_flag_def WeakPtrFlag_new_def)
  have "weak_inv (rh_vars h) (ws_ptrs s) ((ws_factories s)(f \<mapsto> \<lparr>wf_ptr = a, wf_checker = k\<rparr>)) (valid_flag h)"
    unfolding h(3) by (rule weak_inv_factory [OF weak_okD(2) [OF ok] f fresh valid])
  with h show ?thesis by (simp add: WeakPtrFactory_new_def on_flags_def weak_ok_def)
qed

lemma Invalidate_ok:
  assumes ok: "counted h" and y: "rh_objects h a = Some y" "rc_value y"
  shows "\<exists>h'. WeakPtrFlag_Invalidate a h = Inr h' \<and> counted h' \<and> rh_vars h' = rh_vars h \<and>
    (\<forall>b. valid_flag h' b \<longleftrightarrow> valid_flag h b \<and> b \<noteq> a)"
proof -
  let ?h = "set_object a (y\<lparr>rc_value := False\<rparr>) h"
  have "counted ?h"
    using refs_okD [OF ok] y(1)
    by (intro refs_okI) (auto simp: set_object_def object_ok_def split: if_splits)
  then show ?thesis
    using y by (auto simp: WeakPtrFlag_Invalidate_def object_at_def set_object_def valid_flag_def)
qed

lemma WeakPtrFactory_destroy_ok:
  assumes ok: "weak_ok s" and f: "ws_factories s f = Some w" and k: "passes (wf_checker w)"
  shows "\<exists>s'. WeakPtrFactory_destroy passes f s = Inr s' \<and> weak_ok s' \<and> ws_ptrs s' = ws_ptrs s \<and>
    ws_factories s' = (ws_factories s)(f := None) \<and> rh_vars (ws_flags s') = (rh_vars (ws_flags s))(f := None)"
proof -
  let ?h = "ws_flags s"
  from weak_invD(3) [OF weak_okD(2) [OF ok] f] obtain a where
    a: "rh_vars ?h f = Some (Some a)" "valid_flag ?h a" by blast
  then obtain y where y: "rh_objects ?h a = Some y" "rc_value y" by (auto simp: valid_flag_def)
  from Invalidate_ok [OF weak_okD(1) [OF ok] y] obtain h1 where
    h1: "WeakPtrFlag_Invalidate a ?h = Inr h1" "counted h1" "rh_vars h1 = rh_vars ?h"
    and v1: "\<And>b. valid_flag h1 b \<longleftrightarrow> valid_flag ?h b \<and> b \<noteq> a" by blast
  have inv: "\<not> valid_flag h1 a" using v1 by simp
  have "\<exists>h. RefPtr_destroy WeakPtrFlag_dtor_ok f h1 = Inr h \<and> counted h \<and> rh_vars h = (rh_vars h1)(f := None) \<and>
      (\<forall>b. map_option rc_value (rh_objects h b) =
        (if Some a = Some b \<and> last_ref h1 f b then None else map_option rc_value (rh_objects h1 b)))"
    using h1(2) by (rule RefPtr_destroy_ok) (use h1(3) a inv dtor_of_invalid in auto)
  then obtain h2 where h2: "RefPtr_destroy WeakPtrFlag_dtor_ok f h1 = Inr h2" "counted h2"
    "rh_vars h2 = (rh_vars ?h)(f := None)" "valid_flag h2 = valid_flag h1"
    using valid_flag_dropped [of _ "\<lambda>b. Some a = Some b \<and> last_ref h1 f b" h1] inv h1(3)
    by (metis option.inject)
  have "weak_inv (rh_vars h2) (ws_ptrs s) ((ws_factories s)(f := None)) (valid_flag h2)"
    unfolding h2(3,4) using weak_okD(2) [OF ok] f a(1) v1 by (rule weak_inv_unfactory)
  with h1 h2 a f k show ?thesis
    by (simp add: WeakPtrFactory_destroy_def factory_at_def CheckThreadSafety_def var_at_def on_flags_def weak_ok_def)
qed

subsection \<open>Reachable states\<close>

text \<open>Everything a program can do with weak pointers and factories: an operation that constructs
  does so on a variable that is not in use, the others on variables that are. A factory is
  destroyed where its checker passes.\<close>

inductive weak_step :: "('k \<Rightarrow> bool) \<Rightarrow> 'k weak_state \<Rightarrow> 'k weak_state \<Rightarrow> bool" for passes where
  null: "x \<notin> dom (rh_vars (ws_flags s)) \<Longrightarrow> weak_step passes s (WeakPtr_null k x s)"
| copy: "x \<notin> dom (rh_vars (ws_flags s)) \<Longrightarrow> r \<in> dom (ws_ptrs s) \<Longrightarrow> room (ws_flags s) \<Longrightarrow>
    WeakPtr_copy x r s = Inr s' \<Longrightarrow> weak_step passes s s'"
| move: "x \<notin> dom (rh_vars (ws_flags s)) \<Longrightarrow> r \<in> dom (ws_ptrs s) \<Longrightarrow> WeakPtr_move x r s = Inr s' \<Longrightarrow>
    weak_step passes s s'"
| destroy: "x \<in> dom (ws_ptrs s) \<Longrightarrow> WeakPtr_destroy x s = Inr s' \<Longrightarrow> weak_step passes s s'"
| copy_assign: "x \<in> dom (ws_ptrs s) \<Longrightarrow> r \<in> dom (ws_ptrs s) \<Longrightarrow> room (ws_flags s) \<Longrightarrow>
    WeakPtr_copy_assign x r s = Inr s' \<Longrightarrow> weak_step passes s s'"
| move_assign: "x \<in> dom (ws_ptrs s) \<Longrightarrow> r \<in> dom (ws_ptrs s) \<Longrightarrow> WeakPtr_move_assign x r s = Inr s' \<Longrightarrow>
    weak_step passes s s'"
| reset: "x \<in> dom (ws_ptrs s) \<Longrightarrow> WeakPtr_reset x s = Inr s' \<Longrightarrow> weak_step passes s s'"
| new_factory: "f \<notin> dom (rh_vars (ws_flags s)) \<Longrightarrow> WeakPtrFactory_new k f (Some a) s = Inr s' \<Longrightarrow>
    weak_step passes s s'"
| get_weak: "x \<notin> dom (rh_vars (ws_flags s)) \<Longrightarrow> f \<in> dom (ws_factories s) \<Longrightarrow> room (ws_flags s) \<Longrightarrow>
    WeakPtrFactory_GetWeakPtr f x s = Inr s' \<Longrightarrow> weak_step passes s s'"
| del_factory: "ws_factories s f = Some w \<Longrightarrow> passes (wf_checker w) \<Longrightarrow>
    WeakPtrFactory_destroy passes f s = Inr s' \<Longrightarrow> weak_step passes s s'"

definition no_weak :: "'k weak_state" where
  "no_weak = \<lparr>ws_flags = empty_heap, ws_ptrs = Map.empty, ws_factories = Map.empty\<rparr>"

inductive weak_reachable :: "('k \<Rightarrow> bool) \<Rightarrow> 'k weak_state \<Rightarrow> bool" for passes where
  start: "weak_reachable passes no_weak"
| step: "weak_reachable passes s \<Longrightarrow> weak_step passes s s' \<Longrightarrow> weak_reachable passes s'"

lemma weak_step_ok: "weak_step passes s s' \<Longrightarrow> weak_ok s \<Longrightarrow> weak_ok s'"
proof (induction rule: weak_step.induct)
  case null then show ?case by (rule WeakPtr_null_ok [rotated])
next
  case (copy x s r s') then show ?case using WeakPtr_copy_ok [of s x r] by auto
next
  case (move x s r s') then show ?case using WeakPtr_move_ok [of s x r] by auto
next
  case (destroy x s s') then show ?case using WeakPtr_destroy_ok [of s x] by auto
next
  case (copy_assign x s r s') then show ?case using WeakPtr_copy_assign_ok [of s x r] by auto
next
  case (move_assign x s r s') then show ?case using WeakPtr_move_assign_ok [of s x r] by auto
next
  case (reset x s s') then show ?case using WeakPtr_reset_ok [of s x] by auto
next
  case (new_factory f s k a s') then show ?case using WeakPtrFactory_new_ok [of s f k a] by auto
next
  case (get_weak x s f s') then show ?case using GetWeakPtr_ok [of s x f] by auto
next
  case (del_factory s f w s') then show ?case using WeakPtrFactory_destroy_ok [of s f w passes] by auto
qed

lemma no_weak_ok: "weak_ok no_weak"
  using ref_reachable_counted [OF ref_reachable.start]
  by (simp add: weak_ok_def no_weak_def weak_inv_def empty_heap_def)

lemma weak_reachable_ok: "weak_reachable passes s \<Longrightarrow> weak_ok s"
  by (induction rule: weak_reachable.induct) (simp_all add: no_weak_ok weak_step_ok)

subsection \<open>Properties\<close>

text \<open>The factories whose flag a weak pointer shares.\<close>

definition factories_of :: "'k weak_state \<Rightarrow> var \<Rightarrow> 'k WeakPtrFactory set" where
  "factories_of s x = {v. \<exists>f a. ws_factories s f = Some v \<and> rh_vars (ws_flags s) f = Some (Some a) \<and>
     rh_vars (ws_flags s) x = Some (Some a)}"

lemma WeakPtr_bool_valid:
  assumes ok: "weak_ok s" and x: "ws_ptrs s x = Some w" and k: "passes (wp_checker w)"
  shows "WeakPtr_bool passes x s =
    Inr (\<exists>a. rh_vars (ws_flags s) x = Some (Some a) \<and> valid_flag (ws_flags s) a)"
proof -
  obtain p where p: "rh_vars (ws_flags s) x = Some p" using weak_vars(1) [OF ok, of x] x by blast
  show ?thesis
  proof (cases p)
    case None
    with p x k show ?thesis by (simp add: WeakPtr_bool_def weak_at_def CheckThreadSafety_def var_at_def)
  next
    case (Some a)
    then obtain y where "rh_objects (ws_flags s) a = Some y"
      using refs_okD(2) [OF weak_okD(1) [OF ok], of a] p by (fastforce simp: holders_def)
    with p Some x k show ?thesis
      by (simp add: WeakPtr_bool_def weak_at_def CheckThreadSafety_def var_at_def object_at_def valid_flag_def)
  qed
qed

lemma valid_iff_factory:
  assumes ok: "weak_ok s" and x: "ws_ptrs s x = Some w"
  shows "(\<exists>a. rh_vars (ws_flags s) x = Some (Some a) \<and> valid_flag (ws_flags s) a) \<longleftrightarrow> factories_of s x \<noteq> {}"
    and "v \<in> factories_of s x \<Longrightarrow> wp_ptr w = Some (wf_ptr v)"
proof -
  note inv = weak_okD(2) [OF ok]
  show "(\<exists>a. rh_vars (ws_flags s) x = Some (Some a) \<and> valid_flag (ws_flags s) a) \<longleftrightarrow> factories_of s x \<noteq> {}"
    using weak_invD(5) [OF inv x] weak_invD(3) [OF inv] by (fastforce simp: factories_of_def)
  assume "v \<in> factories_of s x"
  then obtain f a where f: "ws_factories s f = Some v" "rh_vars (ws_flags s) f = Some (Some a)"
    "rh_vars (ws_flags s) x = Some (Some a)" by (auto simp: factories_of_def)
  with weak_invD(3) [OF inv f(1)] have "valid_flag (ws_flags s) a" by auto
  from weak_invD(5) [OF inv x f(3) this] obtain g u where
    g: "ws_factories s g = Some u" "rh_vars (ws_flags s) g = Some (Some a)" "wp_ptr w = Some (wf_ptr u)" by blast
  then have "f = g" using weak_invD(4) [OF inv f(1) g(1)] f(2) by simp
  with f g show "wp_ptr w = Some (wf_ptr v)" by simp
qed

lemma weak_answers:
  assumes ok: "weak_ok s" and x: "ws_ptrs s x = Some w" and k: "passes (wp_checker w)"
  shows "WeakPtr_get passes x s = Inr (if factories_of s x = {} then None else wp_ptr w)"
    and "WeakPtr_bool passes x s = Inr (factories_of s x \<noteq> {})"
  using WeakPtr_bool_valid [where passes = passes, OF ok x k] valid_iff_factory(1) [OF ok x] x k
  by (simp_all add: WeakPtr_get_def weak_at_def CheckThreadSafety_def)

lemma factories_of_removed:
  assumes "ws_ptrs s x = Some w" and "weak_ok s" and "ws_factories s' = (ws_factories s)(f := None)"
    and "rh_vars (ws_flags s') = (rh_vars (ws_flags s))(f := None)" and "ws_factories s f = Some u"
  shows "factories_of s' x =
    (if rh_vars (ws_flags s) x = rh_vars (ws_flags s) f then {} else factories_of s x)"
proof -
  note inv = weak_okD(2) [OF assms(2)]
  have "x \<noteq> f" using assms(1,5) weak_invD(2) [OF inv] by blast
  moreover have "rh_vars (ws_flags s) g = rh_vars (ws_flags s) f \<Longrightarrow> ws_factories s g = Some v \<Longrightarrow> g = f" for g v
    using weak_invD(4) [OF inv _ assms(5)] by blast
  ultimately show ?thesis by (auto simp: factories_of_def assms(3,4) split: if_splits) metis+
qed

text \<open>C12: a weak pointer never dangles. Used where its checker passes, in any reachable state, it
  yields the object of the factory whose flag it shares as long as that factory is alive, and a null
  pointer, or a failed check on a dereference, once there is none.\<close>

theorem WeakPtr_never_dangles:
  assumes "weak_reachable passes s" and "ws_ptrs s x = Some w" and "passes (wp_checker w)"
  shows "(\<forall>v \<in> factories_of s x. WeakPtr_get passes x s = Inr (Some (wf_ptr v)) \<and>
      WeakPtr_bool passes x s = Inr True \<and> WeakPtr_deref passes x s = Inr (wf_ptr v)) \<and>
    (factories_of s x = {} \<longrightarrow> WeakPtr_get passes x s = Inr None \<and>
      WeakPtr_bool passes x s = Inr False \<and> WeakPtr_deref passes x s = Inl Check_Failed)"
proof -
  have ok: "weak_ok s" using assms(1) by (rule weak_reachable_ok)
  note a = weak_answers [where passes = passes, OF ok assms(2,3)]
  have d: "WeakPtr_deref passes x s =
      (if factories_of s x = {} then Inl Check_Failed
       else case wp_ptr w of None \<Rightarrow> Inl Undefined_Behaviour | Some a \<Rightarrow> Inr a)"
    using assms(2,3) by (simp add: WeakPtr_deref_def weak_at_def CheckThreadSafety_def a)
  show ?thesis using valid_iff_factory(2) [OF ok assms(2)] by (auto simp: a d)
qed

text \<open>Destroying a factory, where its checker passes, succeeds in every reachable state; it
  nulls the weak pointers the factory handed out, and their copies, and changes what no other weak
  pointer yields. The weak pointers keep existing and can still be destroyed.\<close>

theorem WeakPtrFactory_destroy_invalidates:
  assumes "weak_reachable passes s" and "ws_factories s f = Some v" and "passes (wf_checker v)"
    and "ws_ptrs s x = Some w" and "passes (wp_checker w)"
  shows "\<exists>s' s''. WeakPtrFactory_destroy passes f s = Inr s' \<and> weak_reachable passes s' \<and>
    WeakPtr_get passes x s' =
      (if rh_vars (ws_flags s) x = rh_vars (ws_flags s) f then Inr None else WeakPtr_get passes x s) \<and>
    WeakPtr_destroy x s' = Inr s''"
proof -
  have ok: "weak_ok s" using assms(1) by (rule weak_reachable_ok)
  from WeakPtrFactory_destroy_ok [where passes = passes, OF ok assms(2,3)] obtain s' where
    s': "WeakPtrFactory_destroy passes f s = Inr s'" "weak_ok s'" "ws_ptrs s' = ws_ptrs s"
    "ws_factories s' = (ws_factories s)(f := None)" "rh_vars (ws_flags s') = (rh_vars (ws_flags s))(f := None)"
    by blast
  have r: "weak_reachable passes s'"
    using assms(1) weak_step.del_factory [of s f v passes s'] assms(2,3) s'(1) by (auto intro: weak_reachable.step)
  have x': "ws_ptrs s' x = Some w" using s'(3) assms(4) by simp
  have "WeakPtr_get passes x s' =
      (if rh_vars (ws_flags s) x = rh_vars (ws_flags s) f then Inr None else WeakPtr_get passes x s)"
    using weak_answers(1) [where passes = passes, OF s'(2) x' assms(5)]
      weak_answers(1) [where passes = passes, OF ok assms(4,5)]
      factories_of_removed [OF assms(4) ok s'(4,5) assms(2)] by simp
  moreover obtain s'' where "WeakPtr_destroy x s' = Inr s''"
    using WeakPtr_destroy_ok [OF s'(2), of x] x' by blast
  ultimately show ?thesis using s'(1) r by blast
qed

subsection \<open>Witnesses\<close>

text \<open>A factory for the object at address 7, and one weak pointer from it, on thread 2.\<close>

definition sample_weak :: "nat weak_state" where
  "sample_weak =
     \<lparr>ws_flags = \<lparr>rh_objects = [0 \<mapsto> \<lparr>rc_ref_count = 2, rc_adoption_required = False,
          rc_destruction_started = False, rc_value = True\<rparr>], rh_vars = [0 \<mapsto> Some 0, 2 \<mapsto> Some 0], rh_next = 1\<rparr>,
      ws_ptrs = [2 \<mapsto> \<lparr>wp_ptr = Some 7, wp_checker = 2\<rparr>],
      ws_factories = [0 \<mapsto> \<lparr>wf_ptr = 7, wf_checker = 2\<rparr>]\<rparr>"

lemma sample_weak_reachable: "weak_reachable (IsCreationThreadCurrent 2) sample_weak"
proof -
  obtain s1 where s1: "WeakPtrFactory_new 2 0 (Some 7) (no_weak :: nat weak_state) = Inr s1"
    and d1: "2 \<notin> dom (rh_vars (ws_flags s1))" "0 \<in> dom (ws_factories s1)" "room (ws_flags s1)"
    and g: "WeakPtrFactory_GetWeakPtr 0 2 s1 = Inr sample_weak"
    by (auto simp: WeakPtrFactory_new_def no_weak_def on_flags_def MakeRefCounted_def AdoptRef_def Base_Adopt_def
      object_at_def set_object_def set_var_def empty_heap_def RefCountedThreadSafeBase_new_def WeakPtrFlag_new_def
      WeakPtrFactory_GetWeakPtr_def factory_at_def RefPtr_copy_def var_at_def maybe_AddRef_def AddRef_def
      set_weak_def sample_weak_def)
  have "weak_step (IsCreationThreadCurrent 2) no_weak s1"
    by (rule weak_step.new_factory [OF _ s1]) (simp add: no_weak_def empty_heap_def)
  moreover have "weak_step (IsCreationThreadCurrent 2) s1 sample_weak"
    using d1 g by (rule weak_step.get_weak)
  ultimately show ?thesis by (blast intro: weak_reachable.intros)
qed

lemma sample_weak_fields [simp]:
  "ws_ptrs sample_weak 2 = Some \<lparr>wp_ptr = Some 7, wp_checker = 2\<rparr>"
  "ws_factories sample_weak 0 = Some \<lparr>wf_ptr = 7, wf_checker = 2\<rparr>"
  "rh_vars (ws_flags sample_weak) 0 = Some (Some 0)" "rh_vars (ws_flags sample_weak) 2 = Some (Some 0)"
  by (simp_all add: sample_weak_def)

theorem WeakPtr_never_dangles_witness:
  "WeakPtr_get (IsCreationThreadCurrent 2) 2 sample_weak = Inr (Some 7)"
proof -
  have "\<lparr>wf_ptr = 7, wf_checker = 2\<rparr> \<in> factories_of sample_weak 2"
    unfolding factories_of_def by (intro CollectI exI [of _ 0]) simp
  then show ?thesis
    using WeakPtr_never_dangles [OF sample_weak_reachable sample_weak_fields(1)]
    by (auto simp: IsCreationThreadCurrent_def)
qed

theorem WeakPtrFactory_destroy_invalidates_witness:
  "\<exists>s'. WeakPtrFactory_destroy (IsCreationThreadCurrent 2) 0 sample_weak = Inr s' \<and>
    WeakPtr_get (IsCreationThreadCurrent 2) 2 s' = Inr None"
  using WeakPtrFactory_destroy_invalidates [OF sample_weak_reachable sample_weak_fields(2) _ sample_weak_fields(1)]
  by (auto simp: IsCreationThreadCurrent_def)

end
