(* ===== verification/Unique_Ownership.thy ===== *)
theory Unique_Ownership
  imports Ref_Counting
begin

section \<open>Exclusive ownership: UniquePtr, UniqueObject and the descriptors\<close>

text \<open>
  \<open>app/src/main/cpp/memory/unique_ptr.h\<close>, \<open>unique_object.h\<close> and \<open>unique_fd.{h,cc}\<close> (the branch of
  the build, without \<open>FML_OS_WIN\<close>). The state of each holds the owners that are alive, by variable,
  and the resources: the allocated objects of a heap, or what the operating system has open.
  Deleting an address with no object is undefined behaviour; so is \<open>closedir\<close> on a stream that is
  not open, while \<open>close\<close> on a descriptor that is not open fails with an error the code ignores,
  which the model records.
\<close>

subsection \<open>What exclusive ownership means\<close>

text \<open>\<open>V\<close> gives each owner alive the resource it owns, if any; \<open>L\<close> are the resources in existence.\<close>

definition owns_ok :: "(var \<rightharpoonup> 'r option) \<Rightarrow> 'r set \<Rightarrow> bool" where
  "owns_ok V L \<longleftrightarrow>
     (\<forall>x r. V x = Some (Some r) \<longrightarrow> r \<in> L) \<and>
     (\<forall>x y r. V x = Some (Some r) \<longrightarrow> V y = Some (Some r) \<longrightarrow> x = y)"

definition unowned :: "(var \<rightharpoonup> 'r option) \<Rightarrow> 'r \<Rightarrow> bool" where
  "unowned V r \<longleftrightarrow> (\<forall>x. V x \<noteq> Some (Some r))"

lemma owns_ok_empty [simp]: "owns_ok Map.empty L"
  by (simp add: owns_ok_def)

lemma owns_okD:
  assumes "owns_ok V L"
  shows "V x = Some (Some r) \<Longrightarrow> r \<in> L"
    and "V x = Some (Some r) \<Longrightarrow> V y = Some (Some r) \<Longrightarrow> x = y"
  using assms unfolding owns_ok_def by blast+

lemma owns_ok_none [intro]: "owns_ok V L \<Longrightarrow> owns_ok (V(x \<mapsto> None)) L"
  and owns_ok_del [intro]: "owns_ok V L \<Longrightarrow> owns_ok (V(x := None)) L"
  and owns_ok_more [intro]: "owns_ok V L \<Longrightarrow> owns_ok V (insert r L)"
  by (auto simp: owns_ok_def)

lemma owns_ok_adopt: "owns_ok V L \<Longrightarrow> r \<in> L \<Longrightarrow> unowned V r \<Longrightarrow> owns_ok (V(x \<mapsto> Some r)) L"
  by (auto simp: owns_ok_def unowned_def)

text \<open>Freeing a resource that only \<open>x\<close> owned, or that nobody owned.\<close>

lemma owns_ok_free: "owns_ok V L \<Longrightarrow> V x = Some (Some r) \<Longrightarrow> owns_ok (V(x \<mapsto> None)) (L - {r})"
  by (auto simp: owns_ok_def)

lemma owns_ok_take:
  assumes "owns_ok V L" and "V r = Some p"
  shows "owns_ok (V(r \<mapsto> None)) L" and "p = Some a \<Longrightarrow> unowned (V(r \<mapsto> None)) a"
    and "p = Some a \<Longrightarrow> a \<in> L"
  using assms by (auto simp: owns_ok_def unowned_def)

lemma owns_ok_swap:
  "owns_ok V L \<Longrightarrow> V x = Some p \<Longrightarrow> V y = Some q \<Longrightarrow> owns_ok (V(x \<mapsto> q, y \<mapsto> p)) L"
  by (auto simp: owns_ok_def split: if_splits)

lemma unowned_free: "unowned V a \<Longrightarrow> V x = Some (Some r) \<Longrightarrow> a \<noteq> r"
  by (auto simp: unowned_def)

lemma unowned_none [simp]: "unowned V r \<Longrightarrow> unowned (V(x \<mapsto> None)) r"
  by (auto simp: unowned_def)

subsection \<open>UniquePtr\<close>

record 'v unique_heap =
  uh_objects :: "addr \<rightharpoonup> 'v"
  uh_vars :: "var \<rightharpoonup> ptr"
  uh_next :: addr

text \<open>\<open>delete\<close> on a plain pointer.\<close>

definition delete_ptr :: "ptr \<Rightarrow> 'v unique_heap \<Rightarrow> 'v unique_heap outcome" where
  "delete_ptr p h =
     (case p of
        None \<Rightarrow> Inr h
      | Some a \<Rightarrow> obind (defined (uh_objects h a \<noteq> None)) (\<lambda>_. Inr (h\<lparr>uh_objects := (uh_objects h)(a := None)\<rparr>)))"

definition uvar_at :: "'v unique_heap \<Rightarrow> var \<Rightarrow> ptr outcome" where
  "uvar_at h x = (case uh_vars h x of None \<Rightarrow> Inl Undefined_Behaviour | Some p \<Rightarrow> Inr p)"

definition set_uvar :: "var \<Rightarrow> ptr \<Rightarrow> 'v unique_heap \<Rightarrow> 'v unique_heap" where
  "set_uvar x p h = h\<lparr>uh_vars := (uh_vars h)(x \<mapsto> p)\<rparr>"

text \<open>\<open>new T(...)\<close>.\<close>

definition new_object :: "'v \<Rightarrow> 'v unique_heap \<Rightarrow> 'v unique_heap \<times> addr" where
  "new_object v h =
     (h\<lparr>uh_objects := (uh_objects h)(uh_next h \<mapsto> v), uh_next := uh_next h + 1\<rparr>, uh_next h)"

definition UniquePtr_new :: "var \<Rightarrow> ptr \<Rightarrow> 'v unique_heap \<Rightarrow> 'v unique_heap" where
  "UniquePtr_new x p h = set_uvar x p h"

definition UniquePtr_release :: "var \<Rightarrow> 'v unique_heap \<Rightarrow> ('v unique_heap \<times> ptr) outcome" where
  "UniquePtr_release x h = obind (uvar_at h x) (\<lambda>released. Inr (set_uvar x None h, released))"

text \<open>The move constructor, and the copy constructor, which moves too.\<close>

definition UniquePtr_move :: "var \<Rightarrow> var \<Rightarrow> 'v unique_heap \<Rightarrow> 'v unique_heap outcome" where
  "UniquePtr_move x r h = obind (UniquePtr_release r h) (\<lambda>(h1, p). Inr (set_uvar x p h1))"

definition UniquePtr_destroy :: "var \<Rightarrow> 'v unique_heap \<Rightarrow> 'v unique_heap outcome" where
  "UniquePtr_destroy x h =
     obind (uvar_at h x) (\<lambda>p.
     obind (delete_ptr p h) (\<lambda>h1. Inr (h1\<lparr>uh_vars := (uh_vars h1)(x := None)\<rparr>)))"

definition UniquePtr_reset :: "var \<Rightarrow> ptr \<Rightarrow> 'v unique_heap \<Rightarrow> 'v unique_heap outcome" where
  "UniquePtr_reset x p h =
     obind (uvar_at h x) (\<lambda>old. obind (delete_ptr old h) (\<lambda>h1. Inr (set_uvar x p h1)))"

text \<open>Move assignment, and copy assignment, which moves too.\<close>

definition UniquePtr_assign :: "var \<Rightarrow> var \<Rightarrow> 'v unique_heap \<Rightarrow> 'v unique_heap outcome" where
  "UniquePtr_assign x r h = obind (UniquePtr_release r h) (\<lambda>(h1, p). UniquePtr_reset x p h1)"

definition UniquePtr_get :: "var \<Rightarrow> 'v unique_heap \<Rightarrow> ptr outcome" where
  "UniquePtr_get x h = uvar_at h x"

definition UniquePtr_deref :: "var \<Rightarrow> 'v unique_heap \<Rightarrow> 'v outcome" where
  "UniquePtr_deref x h =
     obind (uvar_at h x) (\<lambda>p. case Option.bind p (uh_objects h) of
        None \<Rightarrow> Inl Undefined_Behaviour | Some v \<Rightarrow> Inr v)"

definition UniquePtr_bool :: "var \<Rightarrow> 'v unique_heap \<Rightarrow> bool outcome" where
  "UniquePtr_bool x h = obind (uvar_at h x) (\<lambda>p. Inr (p \<noteq> None))"

definition MakeUnique :: "var \<Rightarrow> 'v \<Rightarrow> 'v unique_heap \<Rightarrow> 'v unique_heap" where
  "MakeUnique x v h = (let (h1, a) = new_object v h in UniquePtr_new x (Some a) h1)"

text \<open>No two \<open>UniquePtr\<close>s own one object, and what they own is allocated.\<close>

definition unique_ok :: "'v unique_heap \<Rightarrow> bool" where
  "unique_ok h \<longleftrightarrow> owns_ok (uh_vars h) (dom (uh_objects h)) \<and> (\<forall>a. uh_next h \<le> a \<longrightarrow> uh_objects h a = None)"

text \<open>A plain pointer given to a \<open>UniquePtr\<close> is null, or points at an object nobody owns.\<close>

definition may_own :: "ptr \<Rightarrow> 'v unique_heap \<Rightarrow> bool" where
  "may_own p h \<longleftrightarrow> (case p of None \<Rightarrow> True | Some a \<Rightarrow> uh_objects h a \<noteq> None \<and> unowned (uh_vars h) a)"

lemma unique_ok_set: "unique_ok h \<Longrightarrow> may_own p h \<Longrightarrow> unique_ok (set_uvar x p h)"
  by (auto simp: unique_ok_def may_own_def set_uvar_def intro: owns_ok_adopt split: option.splits)

text \<open>Deleting what \<open>x\<close> owns.\<close>

lemma delete_owned:
  assumes "unique_ok h" and "uh_vars h x = Some p"
  shows "\<exists>h'. delete_ptr p h = Inr h' \<and> uh_vars h' = uh_vars h \<and> uh_next h' = uh_next h \<and>
    uh_objects h' = (uh_objects h)|`(- set_option p) \<and> unique_ok (set_uvar x None h') \<and>
    (\<forall>q. may_own q h \<longrightarrow> may_own q (set_uvar x None h'))"
proof (cases p)
  case None
  with assms show ?thesis
    by (auto simp: delete_ptr_def set_uvar_def unique_ok_def may_own_def split: option.splits)
next
  case (Some a)
  with assms have a: "uh_vars h x = Some (Some a)" "uh_objects h a \<noteq> None"
    by (auto simp: unique_ok_def dest: owns_okD(1))
  have "unique_ok (set_uvar x None (h\<lparr>uh_objects := (uh_objects h)(a := None)\<rparr>))"
    using assms(1) owns_ok_free [of "uh_vars h" "dom (uh_objects h)" x a] a
    by (auto simp: unique_ok_def set_uvar_def)
  moreover have "may_own q h \<longrightarrow> may_own q (set_uvar x None (h\<lparr>uh_objects := (uh_objects h)(a := None)\<rparr>))" for q
    using unowned_free [of "uh_vars h" _ x a] a(1) by (auto simp: may_own_def set_uvar_def split: option.splits)
  moreover have "(uh_objects h)(a := None) = uh_objects h |` (- {a})"
    by (auto simp: restrict_map_def)
  ultimately show ?thesis using a Some by (auto simp: delete_ptr_def)
qed

lemma set_uvar_twice [simp]: "set_uvar x p (set_uvar x q h) = set_uvar x p h"
  by (simp add: set_uvar_def)

lemma UniquePtr_reset_ok:
  assumes "unique_ok h" and "uh_vars h x = Some old" and "may_own p h"
  shows "\<exists>h'. UniquePtr_reset x p h = Inr h' \<and> unique_ok h' \<and> uh_vars h' = (uh_vars h)(x \<mapsto> p) \<and>
    uh_objects h' = (uh_objects h)|`(- set_option old)"
proof -
  from delete_owned [OF assms(1,2)] assms(3) obtain h1 where
    h1: "delete_ptr old h = Inr h1" "uh_vars h1 = uh_vars h" "uh_objects h1 = (uh_objects h)|`(- set_option old)"
    "unique_ok (set_uvar x None h1)" "may_own p (set_uvar x None h1)" by auto
  have "unique_ok (set_uvar x p h1)" using unique_ok_set [OF h1(4,5), of x] by simp
  with h1 assms(2) show ?thesis by (auto simp: UniquePtr_reset_def uvar_at_def set_uvar_def)
qed

lemma UniquePtr_release_ok:
  assumes "unique_ok h" and "uh_vars h r = Some p"
  shows "UniquePtr_release r h = Inr (set_uvar r None h, p) \<and> unique_ok (set_uvar r None h) \<and>
    may_own p (set_uvar r None h)"
  using assms owns_ok_take [of "uh_vars h" "dom (uh_objects h)" r p]
  by (auto simp: UniquePtr_release_def uvar_at_def set_uvar_def unique_ok_def may_own_def split: option.splits)

lemma UniquePtr_move_ok:
  assumes "unique_ok h" and "uh_vars h r = Some p"
  shows "\<exists>h'. UniquePtr_move x r h = Inr h' \<and> unique_ok h' \<and> uh_vars h' = (uh_vars h)(r \<mapsto> None, x \<mapsto> p) \<and>
    uh_objects h' = uh_objects h"
  using UniquePtr_release_ok [OF assms] unique_ok_set [of "set_uvar r None h" p x]
  by (auto simp: UniquePtr_move_def) (auto simp: set_uvar_def)

lemma UniquePtr_assign_ok:
  assumes "unique_ok h" and "uh_vars h x = Some old" and "uh_vars h r = Some p"
  shows "\<exists>h'. UniquePtr_assign x r h = Inr h' \<and> unique_ok h' \<and> uh_vars h' = (uh_vars h)(r \<mapsto> None, x \<mapsto> p) \<and>
    uh_objects h' = (if x = r then uh_objects h else (uh_objects h)|`(- set_option old))"
proof -
  note rel = UniquePtr_release_ok [OF assms(1,3)]
  let ?old = "if x = r then None else old"
  have x: "uh_vars (set_uvar r None h) x = Some ?old" using assms(2) by (simp add: set_uvar_def)
  from UniquePtr_reset_ok [OF _ x, of p] rel obtain h' where
    "UniquePtr_reset x p (set_uvar r None h) = Inr h'" "unique_ok h'"
    "uh_vars h' = (uh_vars h)(r \<mapsto> None, x \<mapsto> p)"
    "uh_objects h' = (uh_objects h)|`(- set_option ?old)" by (auto simp: set_uvar_def)
  with rel show ?thesis by (auto simp: UniquePtr_assign_def)
qed

lemma UniquePtr_destroy_ok:
  assumes "unique_ok h" and "uh_vars h x = Some p"
  shows "\<exists>h'. UniquePtr_destroy x h = Inr h' \<and> unique_ok h' \<and> uh_vars h' = (uh_vars h)(x := None) \<and>
    uh_objects h' = (uh_objects h)|`(- set_option p)"
proof -
  from delete_owned [OF assms] obtain h1 where
    h1: "delete_ptr p h = Inr h1" "uh_vars h1 = uh_vars h" "uh_objects h1 = (uh_objects h)|`(- set_option p)"
    "unique_ok (set_uvar x None h1)" by auto
  have "unique_ok (h1\<lparr>uh_vars := (uh_vars h1)(x := None)\<rparr>)"
    using h1(4) owns_ok_del [of "(uh_vars h1)(x \<mapsto> None)" _ x] by (auto simp: unique_ok_def set_uvar_def)
  with h1 assms(2) show ?thesis by (auto simp: UniquePtr_destroy_def uvar_at_def)
qed

lemma MakeUnique_ok:
  assumes "unique_ok h" and "uh_vars h x = None"
  shows "unique_ok (MakeUnique x v h)"
proof -
  have "unowned (uh_vars h) (uh_next h)" and "uh_objects h (uh_next h) = None"
    using assms(1) by (auto simp: unique_ok_def unowned_def dest: owns_okD(1))
  then show ?thesis
    using assms(1) owns_ok_adopt [OF owns_ok_more, of "uh_vars h" "dom (uh_objects h)" "uh_next h" "uh_next h" x]
    by (auto simp: MakeUnique_def new_object_def UniquePtr_new_def set_uvar_def unique_ok_def)
qed

subsection \<open>UniqueObject\<close>

text \<open>The traits a \<open>UniqueObject\<close> is instantiated with; both instances of the repository are empty
  classes of static functions.\<close>

record ('t, 'os) UniqueTraits =
  ut_InvalidValue :: 't
  ut_IsValid :: "'t \<Rightarrow> bool"
  ut_Free :: "'t \<Rightarrow> 'os \<Rightarrow> 'os outcome"

record ('t, 'os) unique_objects =
  uo_generic :: "var \<rightharpoonup> 't"
  uo_os :: 'os

definition generic_at :: "('t, 'os) unique_objects \<Rightarrow> var \<Rightarrow> 't outcome" where
  "generic_at s x = (case uo_generic s x of None \<Rightarrow> Inl Undefined_Behaviour | Some v \<Rightarrow> Inr v)"

definition set_generic :: "var \<Rightarrow> 't \<Rightarrow> ('t, 'os) unique_objects \<Rightarrow> ('t, 'os) unique_objects" where
  "set_generic x v s = s\<lparr>uo_generic := (uo_generic s)(x \<mapsto> v)\<rparr>"

definition UniqueObject_new :: "('t, 'os) UniqueTraits \<Rightarrow> var \<Rightarrow> ('t, 'os) unique_objects \<Rightarrow> ('t, 'os) unique_objects" where
  "UniqueObject_new T x s = set_generic x (ut_InvalidValue T) s"

definition UniqueObject_value :: "var \<Rightarrow> 't \<Rightarrow> ('t, 'os) unique_objects \<Rightarrow> ('t, 'os) unique_objects" where
  "UniqueObject_value x v s = set_generic x v s"

definition UniqueObject_release ::
  "('t, 'os) UniqueTraits \<Rightarrow> var \<Rightarrow> ('t, 'os) unique_objects \<Rightarrow> (('t, 'os) unique_objects \<times> 't) outcome" where
  "UniqueObject_release T x s =
     obind (generic_at s x) (\<lambda>old_generic. Inr (set_generic x (ut_InvalidValue T) s, old_generic))"

definition UniqueObject_move ::
  "('t, 'os) UniqueTraits \<Rightarrow> var \<Rightarrow> var \<Rightarrow> ('t, 'os) unique_objects \<Rightarrow> ('t, 'os) unique_objects outcome" where
  "UniqueObject_move T x r s = obind (UniqueObject_release T r s) (\<lambda>(s1, v). Inr (set_generic x v s1))"

definition FreeIfNecessary ::
  "('t, 'os) UniqueTraits \<Rightarrow> var \<Rightarrow> ('t, 'os) unique_objects \<Rightarrow> ('t, 'os) unique_objects outcome" where
  "FreeIfNecessary T x s =
     obind (generic_at s x) (\<lambda>v.
     if v \<noteq> ut_InvalidValue T
     then obind (ut_Free T v (uo_os s)) (\<lambda>os. Inr (set_generic x (ut_InvalidValue T) (s\<lparr>uo_os := os\<rparr>)))
     else Inr s)"

definition UniqueObject_destroy ::
  "('t, 'os) UniqueTraits \<Rightarrow> var \<Rightarrow> ('t, 'os) unique_objects \<Rightarrow> ('t, 'os) unique_objects outcome" where
  "UniqueObject_destroy T x s =
     obind (FreeIfNecessary T x s) (\<lambda>s1. Inr (s1\<lparr>uo_generic := (uo_generic s1)(x := None)\<rparr>))"

definition UniqueObject_reset ::
  "('t, 'os) UniqueTraits \<Rightarrow> var \<Rightarrow> 't \<Rightarrow> ('t, 'os) unique_objects \<Rightarrow> ('t, 'os) unique_objects outcome" where
  "UniqueObject_reset T x v s =
     obind (generic_at s x) (\<lambda>g.
     obind (check (g = ut_InvalidValue T \<or> g \<noteq> v)) (\<lambda>_.
     obind (FreeIfNecessary T x s) (\<lambda>s1. Inr (set_generic x v s1))))"

definition UniqueObject_move_assign ::
  "('t, 'os) UniqueTraits \<Rightarrow> var \<Rightarrow> var \<Rightarrow> ('t, 'os) unique_objects \<Rightarrow> ('t, 'os) unique_objects outcome" where
  "UniqueObject_move_assign T x r s = obind (UniqueObject_release T r s) (\<lambda>(s1, v). UniqueObject_reset T x v s1)"

definition UniqueObject_swap ::
  "var \<Rightarrow> var \<Rightarrow> ('t, 'os) unique_objects \<Rightarrow> ('t, 'os) unique_objects outcome" where
  "UniqueObject_swap x y s =
     obind (generic_at s x) (\<lambda>v. obind (generic_at s y) (\<lambda>w. Inr (set_generic y v (set_generic x w s))))"

definition UniqueObject_get :: "var \<Rightarrow> ('t, 'os) unique_objects \<Rightarrow> 't outcome" where
  "UniqueObject_get x s = generic_at s x"

definition UniqueObject_is_valid :: "('t, 'os) UniqueTraits \<Rightarrow> var \<Rightarrow> ('t, 'os) unique_objects \<Rightarrow> bool outcome" where
  "UniqueObject_is_valid T x s = obind (generic_at s x) (\<lambda>v. Inr (ut_IsValid T v))"

definition UniqueObject_eq :: "var \<Rightarrow> 't \<Rightarrow> ('t, 'os) unique_objects \<Rightarrow> bool outcome" where
  "UniqueObject_eq x v s = obind (generic_at s x) (\<lambda>w. Inr (w = v))"

text \<open>What the object at each variable owns.\<close>

definition owned_by :: "('t, 'os) UniqueTraits \<Rightarrow> ('t, 'os) unique_objects \<Rightarrow> var \<rightharpoonup> 't option" where
  "owned_by T s x = map_option (\<lambda>v. if v = ut_InvalidValue T then None else Some v) (uo_generic s x)"

text \<open>The interface of the traits: freeing an open resource works and closes that one, the invalid
  value is never open.\<close>

locale unique_traits =
  fixes T :: "('t, 'os) UniqueTraits" and opened :: "'os \<Rightarrow> 't set" and clean :: "'os \<Rightarrow> bool"
  assumes free_open: "r \<in> opened os \<Longrightarrow> clean os \<Longrightarrow>
      \<exists>os'. ut_Free T r os = Inr os' \<and> opened os' = opened os - {r} \<and> clean os'"
    and invalid_closed: "ut_InvalidValue T \<notin> opened os"
begin

definition objects_ok :: "('t, 'os) unique_objects \<Rightarrow> bool" where
  "objects_ok s \<longleftrightarrow> owns_ok (owned_by T s) (opened (uo_os s)) \<and> clean (uo_os s)"

definition may_hold :: "'t \<Rightarrow> ('t, 'os) unique_objects \<Rightarrow> bool" where
  "may_hold v s \<longleftrightarrow> v = ut_InvalidValue T \<or> v \<in> opened (uo_os s) \<and> unowned (owned_by T s) v"

lemma owned_set [simp]:
  "owned_by T (set_generic x v s) = (owned_by T s)(x \<mapsto> if v = ut_InvalidValue T then None else Some v)"
  by (auto simp: owned_by_def set_generic_def)

lemma os_set [simp]: "uo_os (set_generic x v s) = uo_os s"
  by (simp add: set_generic_def)

lemma set_ok: "objects_ok s \<Longrightarrow> may_hold v s \<Longrightarrow> objects_ok (set_generic x v s)"
  by (auto simp: objects_ok_def may_hold_def intro: owns_ok_adopt)

lemma free_ok:
  assumes ok: "objects_ok s" and x: "uo_generic s x = Some v"
  shows "\<exists>s'. FreeIfNecessary T x s = Inr s' \<and> objects_ok s' \<and>
    uo_generic s' = (uo_generic s)(x \<mapsto> ut_InvalidValue T) \<and> opened (uo_os s') = opened (uo_os s) - {v} \<and>
    (\<forall>w. may_hold w s \<longrightarrow> may_hold w s')"
proof (cases "v = ut_InvalidValue T")
  case True
  with ok x invalid_closed show ?thesis
    by (auto simp: FreeIfNecessary_def generic_at_def fun_upd_idem)
next
  case False
  then have v: "owned_by T s x = Some (Some v)" using x by (simp add: owned_by_def)
  then have "v \<in> opened (uo_os s)" "clean (uo_os s)" using ok owns_okD(1) by (fastforce simp: objects_ok_def)+
  from free_open [OF this] obtain os where
    os: "ut_Free T v (uo_os s) = Inr os" "opened os = opened (uo_os s) - {v}" "clean os" by blast
  let ?s = "set_generic x (ut_InvalidValue T) (s\<lparr>uo_os := os\<rparr>)"
  have same: "owned_by T (s\<lparr>uo_os := os\<rparr>) = owned_by T s" by (simp add: owned_by_def fun_eq_iff)
  have "objects_ok ?s"
    using ok os v owns_ok_free [of "owned_by T s" "opened (uo_os s)" x v] by (simp add: objects_ok_def same)
  moreover have "may_hold w s \<longrightarrow> may_hold w ?s" for w
    using unowned_free [of "owned_by T s" w x v] v os(2) by (auto simp: may_hold_def same)
  moreover have "FreeIfNecessary T x s = Inr ?s"
    using False x os(1) by (simp add: FreeIfNecessary_def generic_at_def)
  ultimately show ?thesis using os(2) by (auto simp: set_generic_def)
qed

lemma destroy_ok:
  assumes "objects_ok s" and "uo_generic s x = Some v"
  shows "\<exists>s'. UniqueObject_destroy T x s = Inr s' \<and> objects_ok s' \<and>
    uo_generic s' = (uo_generic s)(x := None) \<and> opened (uo_os s') = opened (uo_os s) - {v}"
proof -
  from free_ok [OF assms] obtain s1 where
    s1: "FreeIfNecessary T x s = Inr s1" "objects_ok s1" "uo_generic s1 = (uo_generic s)(x \<mapsto> ut_InvalidValue T)"
    "opened (uo_os s1) = opened (uo_os s) - {v}" by blast
  let ?s = "s1\<lparr>uo_generic := (uo_generic s1)(x := None)\<rparr>"
  have "owned_by T ?s = (owned_by T s1)(x := None)" by (auto simp: owned_by_def)
  with s1(2) have "objects_ok ?s" by (auto simp: objects_ok_def)
  with s1 show ?thesis by (auto simp: UniqueObject_destroy_def)
qed

lemma reset_ok:
  assumes "objects_ok s" and "uo_generic s x = Some g" and "may_hold v s"
  shows "\<exists>s'. UniqueObject_reset T x v s = Inr s' \<and> objects_ok s' \<and>
    uo_generic s' = (uo_generic s)(x \<mapsto> v) \<and> opened (uo_os s') = opened (uo_os s) - {g}"
proof -
  from free_ok [OF assms(1,2)] assms(3) obtain s1 where
    s1: "FreeIfNecessary T x s = Inr s1" "objects_ok s1" "uo_generic s1 = (uo_generic s)(x \<mapsto> ut_InvalidValue T)"
    "opened (uo_os s1) = opened (uo_os s) - {g}" "may_hold v s1" by blast
  have "g = ut_InvalidValue T \<or> g \<noteq> v"
    using assms(2,3) by (fastforce simp: may_hold_def unowned_def owned_by_def)
  with s1(1) assms(2) have "UniqueObject_reset T x v s = Inr (set_generic x v s1)"
    by (simp add: UniqueObject_reset_def generic_at_def check_def)
  moreover have "uo_generic (set_generic x v s1) = (uo_generic s)(x \<mapsto> v)"
    using s1(3) by (simp add: set_generic_def)
  ultimately show ?thesis using set_ok [OF s1(2,5), of x] s1(4) by auto
qed

lemma release_ok:
  assumes "objects_ok s" and "uo_generic s r = Some v"
  shows "UniqueObject_release T r s = Inr (set_generic r (ut_InvalidValue T) s, v) \<and>
    objects_ok (set_generic r (ut_InvalidValue T) s) \<and> may_hold v (set_generic r (ut_InvalidValue T) s)"
proof -
  let ?p = "if v = ut_InvalidValue T then None else Some v"
  have "owned_by T s r = Some ?p" using assms(2) by (simp add: owned_by_def)
  with assms owns_ok_take [of "owned_by T s" "opened (uo_os s)" r ?p] show ?thesis
    by (auto simp: UniqueObject_release_def generic_at_def objects_ok_def may_hold_def)
qed

lemma move_ok:
  assumes "objects_ok s" and "uo_generic s r = Some v"
  shows "\<exists>s'. UniqueObject_move T x r s = Inr s' \<and> objects_ok s' \<and>
    uo_generic s' = (uo_generic s)(r \<mapsto> ut_InvalidValue T, x \<mapsto> v) \<and> opened (uo_os s') = opened (uo_os s)"
proof -
  let ?s = "set_generic r (ut_InvalidValue T) s"
  note rel = release_ok [OF assms]
  have "objects_ok (set_generic x v ?s)" using rel set_ok [of ?s v x] by blast
  moreover have "UniqueObject_move T x r s = Inr (set_generic x v ?s)" using rel by (simp add: UniqueObject_move_def)
  moreover have "uo_generic (set_generic x v ?s) = (uo_generic s)(r \<mapsto> ut_InvalidValue T, x \<mapsto> v)"
    by (simp add: set_generic_def)
  ultimately show ?thesis by auto
qed

lemma move_assign_ok:
  assumes "objects_ok s" and "uo_generic s x = Some g" and "uo_generic s r = Some v"
  shows "\<exists>s'. UniqueObject_move_assign T x r s = Inr s' \<and> objects_ok s' \<and>
    uo_generic s' = (uo_generic s)(r \<mapsto> ut_InvalidValue T, x \<mapsto> v) \<and>
    opened (uo_os s') = (if x = r then opened (uo_os s) else opened (uo_os s) - {g})"
proof -
  let ?s = "set_generic r (ut_InvalidValue T) s"
  note rel = release_ok [OF assms(1,3)]
  have x: "uo_generic ?s x = Some (if x = r then ut_InvalidValue T else g)"
    using assms(2) by (simp add: set_generic_def)
  from rel have "objects_ok ?s" "may_hold v ?s" by blast+
  from reset_ok [OF this(1) x this(2)] obtain s' where
    s': "UniqueObject_reset T x v ?s = Inr s'" "objects_ok s'" "uo_generic s' = (uo_generic ?s)(x \<mapsto> v)"
    "opened (uo_os s') = opened (uo_os s) - {if x = r then ut_InvalidValue T else g}" by auto
  have "UniqueObject_move_assign T x r s = Inr s'" using rel s'(1) by (simp add: UniqueObject_move_assign_def)
  moreover have "uo_generic s' = (uo_generic s)(r \<mapsto> ut_InvalidValue T, x \<mapsto> v)"
    using s'(3) by (simp add: set_generic_def)
  moreover have "opened (uo_os s') = (if x = r then opened (uo_os s) else opened (uo_os s) - {g})"
    using s'(4) invalid_closed by auto
  ultimately show ?thesis using s'(2) by blast
qed

lemma swap_ok:
  assumes "objects_ok s" and "uo_generic s x = Some v" and "uo_generic s y = Some w"
  shows "\<exists>s'. UniqueObject_swap x y s = Inr s' \<and> objects_ok s' \<and> uo_generic s' = (uo_generic s)(x \<mapsto> w, y \<mapsto> v) \<and>
    opened (uo_os s') = opened (uo_os s)"
proof -
  let ?o = "\<lambda>u. if u = ut_InvalidValue T then None else Some u"
  have "owned_by T s x = Some (?o v)" "owned_by T s y = Some (?o w)" using assms by (simp_all add: owned_by_def)
  then have "owns_ok ((owned_by T s)(x \<mapsto> ?o w, y \<mapsto> ?o v)) (opened (uo_os s))"
    using owns_ok_swap assms(1) unfolding objects_ok_def by blast
  with assms have "objects_ok (set_generic y v (set_generic x w s))" by (simp add: objects_ok_def)
  with assms show ?thesis by (auto simp: UniqueObject_swap_def generic_at_def) (simp add: set_generic_def)
qed

end

subsection \<open>UniqueFD and UniqueDir\<close>

text \<open>The descriptors of the process; \<open>close\<close> on one that is not open returns \<open>EBADF\<close>.\<close>

record fd_table =
  open_fds :: "int set"
  bad_closes :: "int list"

definition close_fd :: "int \<Rightarrow> fd_table \<Rightarrow> fd_table" where
  "close_fd fd t =
     (if fd \<in> open_fds t then t\<lparr>open_fds := open_fds t - {fd}\<rparr> else t\<lparr>bad_closes := fd # bad_closes t\<rparr>)"

definition UniqueFDTraits :: "(int, fd_table) UniqueTraits" where
  "UniqueFDTraits = \<lparr>ut_InvalidValue = - 1, ut_IsValid = (\<lambda>v. v \<ge> 0), ut_Free = (\<lambda>fd t. Inr (close_fd fd t))\<rparr>"

definition opened_fds :: "fd_table \<Rightarrow> int set" where
  "opened_fds t = {fd \<in> open_fds t. fd \<ge> 0}"

text \<open>The directory streams of the process.\<close>

definition closedir_stream :: "ptr \<Rightarrow> addr set \<Rightarrow> addr set outcome" where
  "closedir_stream p t =
     (case p of None \<Rightarrow> Inl Undefined_Behaviour | Some a \<Rightarrow> obind (defined (a \<in> t)) (\<lambda>_. Inr (t - {a})))"

definition UniqueDirTraits :: "(ptr, addr set) UniqueTraits" where
  "UniqueDirTraits = \<lparr>ut_InvalidValue = None, ut_IsValid = (\<lambda>v. v \<noteq> None), ut_Free = closedir_stream\<rparr>"

lemma traits_simps [simp]:
  "ut_InvalidValue UniqueFDTraits = - 1" "ut_IsValid UniqueFDTraits v \<longleftrightarrow> v \<ge> 0"
  "ut_Free UniqueFDTraits fd t = Inr (close_fd fd t)"
  "ut_InvalidValue UniqueDirTraits = None" "ut_IsValid UniqueDirTraits p \<longleftrightarrow> p \<noteq> None"
  "ut_Free UniqueDirTraits = closedir_stream"
  by (simp_all add: UniqueFDTraits_def UniqueDirTraits_def)

interpretation fd: unique_traits UniqueFDTraits opened_fds "\<lambda>t. bad_closes t = []"
  by unfold_locales (auto simp: close_fd_def opened_fds_def)

interpretation dir: unique_traits UniqueDirTraits "\<lambda>t. Some ` t" "\<lambda>_. True"
  by unfold_locales (auto simp: closedir_stream_def)

subsection \<open>Reachable states\<close>

text \<open>What a program does with \<open>UniqueFD\<close>s; a descriptor given to one is open and not owned.\<close>

definition given_fd :: "int \<Rightarrow> (int, fd_table) unique_objects \<Rightarrow> bool" where
  "given_fd v s \<longleftrightarrow> v = - 1 \<or> v \<in> opened_fds (uo_os s) \<and> (\<forall>x. uo_generic s x \<noteq> Some v)"

inductive fd_step :: "(int, fd_table) unique_objects \<Rightarrow> (int, fd_table) unique_objects \<Rightarrow> bool" where
  opens: "v \<ge> 0 \<Longrightarrow> v \<notin> open_fds (uo_os s) \<Longrightarrow> fd_step s (s\<lparr>uo_os := (uo_os s)\<lparr>open_fds := insert v (open_fds (uo_os s))\<rparr>\<rparr>)"
| default: "fd_step s (UniqueObject_new UniqueFDTraits x s)" if "uo_generic s x = None"
| of_value: "fd_step s (UniqueObject_value x v s)" if "uo_generic s x = None" and "given_fd v s"
| move: "uo_generic s x = None \<Longrightarrow> UniqueObject_move UniqueFDTraits x r s = Inr s' \<Longrightarrow> fd_step s s'"
| destroy: "UniqueObject_destroy UniqueFDTraits x s = Inr s' \<Longrightarrow> fd_step s s'"
| reset: "given_fd v s \<Longrightarrow> UniqueObject_reset UniqueFDTraits x v s = Inr s' \<Longrightarrow> fd_step s s'"
| move_assign: "UniqueObject_move_assign UniqueFDTraits x r s = Inr s' \<Longrightarrow> fd_step s s'"
| swap: "UniqueObject_swap x y s = Inr s' \<Longrightarrow> fd_step s s'"
| release: "UniqueObject_release UniqueFDTraits x s = Inr (s', v) \<Longrightarrow> fd_step s s'"

inductive fd_reachable :: "(int, fd_table) unique_objects \<Rightarrow> bool" where
  start: "fd_reachable \<lparr>uo_generic = Map.empty, uo_os = \<lparr>open_fds = {}, bad_closes = []\<rparr>\<rparr>"
| step: "fd_reachable s \<Longrightarrow> fd_step s s' \<Longrightarrow> fd_reachable s'"

lemma given_fd_may_hold: "given_fd v s \<Longrightarrow> fd.may_hold v s"
  by (auto simp: given_fd_def fd.may_hold_def unowned_def owned_by_def)

text \<open>An operation that returned was on an object that is alive.\<close>

lemma generic_at_Inr [simp]: "generic_at s x = Inr v \<longleftrightarrow> uo_generic s x = Some v"
  by (simp add: generic_at_def split: option.splits)

lemma fd_step_ok: "fd_step s s' \<Longrightarrow> fd.objects_ok s \<Longrightarrow> fd.objects_ok s'"
proof (induction rule: fd_step.induct)
  case (opens v s)
  let ?s = "s\<lparr>uo_os := (uo_os s)\<lparr>open_fds := insert v (open_fds (uo_os s))\<rparr>\<rparr>"
  have "owned_by UniqueFDTraits ?s = owned_by UniqueFDTraits s" by (simp add: owned_by_def fun_eq_iff)
  moreover have "opened_fds (uo_os ?s) = insert v (opened_fds (uo_os s))" using opens by (auto simp: opened_fds_def)
  ultimately show ?case using opens by (auto simp: fd.objects_ok_def)
next
  case (default s x)
  then show ?case by (simp add: UniqueObject_new_def fd.set_ok fd.may_hold_def)
next
  case (of_value s x v)
  then show ?case by (simp add: UniqueObject_value_def fd.set_ok given_fd_may_hold)
next
  case (move s x r s')
  then obtain v where "uo_generic s r = Some v"
    by (auto simp: UniqueObject_move_def UniqueObject_release_def obind_eq_Inr)
  with move fd.move_ok [of s r v x] show ?case by auto
next
  case (destroy x s s')
  then obtain v where "uo_generic s x = Some v"
    by (auto simp: UniqueObject_destroy_def FreeIfNecessary_def obind_eq_Inr)
  with destroy fd.destroy_ok [of s x v] show ?case by auto
next
  case (reset v s x s')
  then obtain g where "uo_generic s x = Some g" by (auto simp: UniqueObject_reset_def obind_eq_Inr)
  with reset fd.reset_ok [of s x g v] given_fd_may_hold [of v s] show ?case by auto
next
  case (move_assign x r s s')
  then obtain v where v: "uo_generic s r = Some v" and "\<exists>g. uo_generic s x = Some g"
    by (auto simp: UniqueObject_move_assign_def UniqueObject_release_def UniqueObject_reset_def set_generic_def
      obind_eq_Inr split: if_splits)
  then obtain g where "uo_generic s x = Some g" by blast
  from fd.move_assign_ok [OF move_assign(2) this v] move_assign(1) show ?case by auto
next
  case (swap x y s s')
  then obtain v w where "uo_generic s x = Some v" "uo_generic s y = Some w"
    by (auto simp: UniqueObject_swap_def obind_eq_Inr)
  from fd.swap_ok [OF swap(2) this] swap(1) show ?case by auto
next
  case (release x s s' v)
  then have "uo_generic s x = Some v" by (auto simp: UniqueObject_release_def obind_eq_Inr)
  from fd.release_ok [OF release(2) this] release(1) show ?case by simp
qed

lemma fd_reachable_ok: "fd_reachable s \<Longrightarrow> fd.objects_ok s"
  by (induction rule: fd_reachable.induct) (simp add: fd.objects_ok_def owned_by_def [abs_def], rule fd_step_ok)

text \<open>The same for \<open>UniquePtr\<close>s; a plain pointer given to one is null or points at an object that
  is alive and not owned.\<close>

inductive uptr_step :: "'v unique_heap \<Rightarrow> 'v unique_heap \<Rightarrow> bool" where
  allocate: "uptr_step h (fst (new_object v h))"
| make: "uptr_step h (MakeUnique x v h)" if "uh_vars h x = None"
| take: "uptr_step h (UniquePtr_new x p h)" if "uh_vars h x = None" and "may_own p h"
| move: "uh_vars h x = None \<Longrightarrow> UniquePtr_move x r h = Inr h' \<Longrightarrow> uptr_step h h'"
| destroy: "UniquePtr_destroy x h = Inr h' \<Longrightarrow> uptr_step h h'"
| reset: "may_own p h \<Longrightarrow> UniquePtr_reset x p h = Inr h' \<Longrightarrow> uptr_step h h'"
| assign: "UniquePtr_assign x r h = Inr h' \<Longrightarrow> uptr_step h h'"
| release: "UniquePtr_release x h = Inr (h', p) \<Longrightarrow> uptr_step h h'"

inductive uptr_reachable :: "'v unique_heap \<Rightarrow> bool" where
  start: "uptr_reachable \<lparr>uh_objects = Map.empty, uh_vars = Map.empty, uh_next = 0\<rparr>"
| step: "uptr_reachable h \<Longrightarrow> uptr_step h h' \<Longrightarrow> uptr_reachable h'"

lemma uvar_at_Inr [simp]: "uvar_at h x = Inr p \<longleftrightarrow> uh_vars h x = Some p"
  by (simp add: uvar_at_def split: option.splits)

lemma uptr_step_ok: "uptr_step h h' \<Longrightarrow> unique_ok h \<Longrightarrow> unique_ok h'"
proof (induction rule: uptr_step.induct)
  case (allocate h v)
  then show ?case by (auto simp: new_object_def unique_ok_def)
next
  case (make h x v) then show ?case by (simp add: MakeUnique_ok)
next
  case (take h x p) then show ?case by (simp add: UniquePtr_new_def unique_ok_set)
next
  case (move h x r h')
  then obtain p where "uh_vars h r = Some p"
    by (auto simp: UniquePtr_move_def UniquePtr_release_def obind_eq_Inr)
  from UniquePtr_move_ok [OF move(3) this, of x] move(2) show ?case by auto
next
  case (destroy x h h')
  then obtain p where "uh_vars h x = Some p" by (auto simp: UniquePtr_destroy_def obind_eq_Inr)
  from UniquePtr_destroy_ok [OF destroy(2) this] destroy(1) show ?case by auto
next
  case (reset p h x h')
  then obtain q where "uh_vars h x = Some q" by (auto simp: UniquePtr_reset_def obind_eq_Inr)
  from UniquePtr_reset_ok [OF reset(3) this reset(1)] reset(2) show ?case by auto
next
  case (assign x r h h')
  then obtain p where p: "uh_vars h r = Some p" and "\<exists>q. uh_vars h x = Some q"
    by (auto simp: UniquePtr_assign_def UniquePtr_release_def UniquePtr_reset_def set_uvar_def
      obind_eq_Inr split: if_splits)
  then obtain q where "uh_vars h x = Some q" by blast
  from UniquePtr_assign_ok [OF assign(2) this p] assign(1) show ?case by auto
next
  case (release x h h' p)
  then have "uh_vars h x = Some p" by (auto simp: UniquePtr_release_def obind_eq_Inr)
  from UniquePtr_release_ok [OF release(2) this] release(1) show ?case by simp
qed

lemma uptr_reachable_ok: "uptr_reachable h \<Longrightarrow> unique_ok h"
  by (induction rule: uptr_reachable.induct) (simp add: unique_ok_def, rule uptr_step_ok)

subsection \<open>Properties\<close>

text \<open>C15: a \<open>UniqueFD\<close> closes its descriptor once. However descriptors are moved, swapped, reset and
  released, no descriptor that is not open is ever closed, a descriptor that is held is open and
  held by one \<open>UniqueFD\<close> alone, and destroying or resetting the \<open>UniqueFD\<close> closes it and no other.\<close>

theorem UniqueFD_closes_once:
  assumes "fd_reachable s" and "uo_generic s x = Some v"
  shows "bad_closes (uo_os s) = [] \<and>
    (v \<noteq> - 1 \<longrightarrow> v \<in> opened_fds (uo_os s) \<and> (\<forall>y. uo_generic s y = Some v \<longrightarrow> y = x)) \<and>
    (\<exists>s'. UniqueObject_destroy UniqueFDTraits x s = Inr s' \<and> opened_fds (uo_os s') = opened_fds (uo_os s) - {v} \<and>
      bad_closes (uo_os s') = []) \<and>
    (\<exists>s'. UniqueObject_reset UniqueFDTraits x (- 1) s = Inr s' \<and>
      opened_fds (uo_os s') = opened_fds (uo_os s) - {v} \<and> uo_generic s' = (uo_generic s)(x \<mapsto> - 1))"
proof -
  have ok: "fd.objects_ok s" using assms(1) by (rule fd_reachable_ok)
  then have own: "owns_ok (owned_by UniqueFDTraits s) (opened_fds (uo_os s))" and "bad_closes (uo_os s) = []"
    by (simp_all add: fd.objects_ok_def)
  moreover have "v \<in> opened_fds (uo_os s) \<and> (\<forall>y. uo_generic s y = Some v \<longrightarrow> y = x)" if "v \<noteq> - 1"
  proof -
    have "owned_by UniqueFDTraits s y = Some (Some v)" if "uo_generic s y = Some v" for y
      using that \<open>v \<noteq> - 1\<close> by (simp add: owned_by_def)
    with owns_okD [OF own] assms(2) show ?thesis by blast
  qed
  moreover have "\<exists>s'. UniqueObject_destroy UniqueFDTraits x s = Inr s' \<and>
      opened_fds (uo_os s') = opened_fds (uo_os s) - {v} \<and> bad_closes (uo_os s') = []"
    using fd.destroy_ok [OF ok assms(2)] by (auto simp: fd.objects_ok_def)
  moreover have "fd.may_hold (- 1) s" by (simp add: fd.may_hold_def)
  ultimately show ?thesis using fd.reset_ok [OF ok assms(2), of "- 1"] by blast
qed

text \<open>A \<open>UniquePtr\<close> owns its object alone. In every reachable heap an object a \<open>UniquePtr\<close>
  holds exists, so a dereference is defined, and no other \<open>UniquePtr\<close> holds it; destroying it,
  resetting it to null or assigning another \<open>UniquePtr\<close> to it (itself too) deletes that object
  exactly when it is not the one assigned, and no other.\<close>

theorem UniquePtr_owns_alone:
  assumes "uptr_reachable h" and "uh_vars h x = Some p" and "uh_vars h r = Some q"
  shows "(\<forall>a. p = Some a \<longrightarrow> (\<exists>v. UniquePtr_deref x h = Inr v) \<and> (\<forall>y. uh_vars h y = Some (Some a) \<longrightarrow> y = x)) \<and>
    (\<exists>h'. UniquePtr_destroy x h = Inr h' \<and> uh_objects h' = (uh_objects h)|`(- set_option p)) \<and>
    (\<exists>h'. UniquePtr_reset x None h = Inr h' \<and> uh_objects h' = (uh_objects h)|`(- set_option p)) \<and>
    (\<exists>h'. UniquePtr_assign x r h = Inr h' \<and> uh_vars h' = (uh_vars h)(r \<mapsto> None, x \<mapsto> q) \<and>
      uh_objects h' = (if x = r then uh_objects h else (uh_objects h)|`(- set_option p)))"
proof -
  have ok: "unique_ok h" using assms(1) by (rule uptr_reachable_ok)
  have own: "owns_ok (uh_vars h) (dom (uh_objects h))" using ok by (simp add: unique_ok_def)
  have "(\<exists>v. UniquePtr_deref x h = Inr v) \<and> (\<forall>y. uh_vars h y = Some (Some a) \<longrightarrow> y = x)" if "p = Some a" for a
  proof
    from owns_okD(1) [OF own] assms(2) that obtain v where "uh_objects h a = Some v" by blast
    with assms(2) that show "\<exists>v. UniquePtr_deref x h = Inr v" by (simp add: UniquePtr_deref_def uvar_at_def)
    show "\<forall>y. uh_vars h y = Some (Some a) \<longrightarrow> y = x" using owns_okD(2) [OF own] assms(2) that by blast
  qed
  moreover have "\<exists>h'. UniquePtr_destroy x h = Inr h' \<and> uh_objects h' = (uh_objects h)|`(- set_option p)"
    using UniquePtr_destroy_ok [OF ok assms(2)] by auto
  moreover have "\<exists>h'. UniquePtr_reset x None h = Inr h' \<and> uh_objects h' = (uh_objects h)|`(- set_option p)"
    using UniquePtr_reset_ok [OF ok assms(2), of None] by (auto simp: may_own_def)
  moreover have "\<exists>h'. UniquePtr_assign x r h = Inr h' \<and> uh_vars h' = (uh_vars h)(r \<mapsto> None, x \<mapsto> q) \<and>
      uh_objects h' = (if x = r then uh_objects h else (uh_objects h)|`(- set_option p))"
    using UniquePtr_assign_ok [OF ok assms(2,3)] by auto
  ultimately show ?thesis by simp
qed

text \<open>Giving an owner the resource it owns already. \<open>UniqueObject::reset\<close> fails its check and
  leaves the resource alone; \<open>UniquePtr::reset\<close> has no such check: it deletes the object, keeps the
  dangling pointer, and the next dereference or destruction is undefined.\<close>

theorem reset_to_owned:
  assumes "uptr_reachable h" and "uh_vars h x = Some (Some a)"
    and "uo_generic s y = Some v" and "v \<noteq> ut_InvalidValue T"
  shows "UniqueObject_reset T y v s = Inl Check_Failed \<and>
    (\<exists>h'. UniquePtr_reset x (Some a) h = Inr h' \<and> UniquePtr_get x h' = Inr (Some a) \<and>
      UniquePtr_deref x h' = Inl Undefined_Behaviour \<and> UniquePtr_destroy x h' = Inl Undefined_Behaviour)"
proof -
  have "uh_objects h a \<noteq> None"
    using uptr_reachable_ok [OF assms(1)] assms(2) by (auto simp: unique_ok_def dest: owns_okD(1))
  then have "UniquePtr_reset x (Some a) h = Inr (set_uvar x (Some a) (h\<lparr>uh_objects := (uh_objects h)(a := None)\<rparr>))"
    using assms(2) by (simp add: UniquePtr_reset_def delete_ptr_def uvar_at_def)
  moreover have "UniqueObject_reset T y v s = Inl Check_Failed"
    using assms(3,4) by (simp add: UniqueObject_reset_def generic_at_def)
  ultimately show ?thesis
    by (simp add: UniquePtr_get_def UniquePtr_deref_def UniquePtr_destroy_def delete_ptr_def uvar_at_def set_uvar_def)
qed

subsection \<open>Witnesses\<close>

definition sample_fds :: "(int, fd_table) unique_objects" where
  "sample_fds = \<lparr>uo_generic = [0 \<mapsto> 7], uo_os = \<lparr>open_fds = {7}, bad_closes = []\<rparr>\<rparr>"

definition sample_unique :: "nat unique_heap" where
  "sample_unique = \<lparr>uh_objects = [0 \<mapsto> 9], uh_vars = [3 \<mapsto> Some 0], uh_next = 1\<rparr>"

lemma sample_fds_reachable: "fd_reachable sample_fds"
proof -
  let ?s = "\<lparr>uo_generic = Map.empty, uo_os = \<lparr>open_fds = {}, bad_closes = []\<rparr>\<rparr> :: (int, fd_table) unique_objects"
  let ?t = "?s\<lparr>uo_os := (uo_os ?s)\<lparr>open_fds := insert 7 (open_fds (uo_os ?s))\<rparr>\<rparr>"
  have "fd_step ?s ?t" by (rule fd_step.opens) simp_all
  moreover have "fd_step ?t (UniqueObject_value 0 7 ?t)"
    by (rule fd_step.of_value) (simp_all add: given_fd_def opened_fds_def)
  moreover have "UniqueObject_value 0 7 ?t = sample_fds"
    by (simp add: UniqueObject_value_def set_generic_def sample_fds_def)
  ultimately show ?thesis using fd_reachable.start fd_reachable.step by metis
qed

lemma sample_unique_reachable: "uptr_reachable sample_unique"
proof -
  let ?h = "\<lparr>uh_objects = Map.empty, uh_vars = Map.empty, uh_next = 0\<rparr> :: nat unique_heap"
  have "uptr_step ?h (MakeUnique 3 9 ?h)" by (rule uptr_step.make) simp
  moreover have "MakeUnique 3 9 ?h = sample_unique"
    by (simp add: MakeUnique_def new_object_def UniquePtr_new_def set_uvar_def sample_unique_def)
  ultimately show ?thesis using uptr_reachable.start uptr_reachable.step by metis
qed

theorem UniqueFD_closes_once_witness:
  "\<exists>s'. UniqueObject_destroy UniqueFDTraits 0 sample_fds = Inr s' \<and> opened_fds (uo_os s') = {}"
proof -
  have "opened_fds (uo_os sample_fds) = {7}" by (auto simp: sample_fds_def opened_fds_def)
  with UniqueFD_closes_once [OF sample_fds_reachable, of 0 7] show ?thesis by (auto simp: sample_fds_def)
qed

theorem UniquePtr_owns_alone_witness:
  "\<exists>h'. UniquePtr_destroy 3 sample_unique = Inr h' \<and> uh_objects h' 0 = None"
proof -
  have "uh_vars sample_unique 3 = Some (Some 0)" by (simp add: sample_unique_def)
  from UniquePtr_owns_alone [OF sample_unique_reachable this this]
  have "\<exists>h'. UniquePtr_destroy 3 sample_unique = Inr h' \<and>
    uh_objects h' = (uh_objects sample_unique)|`(- set_option (Some 0))" by (elim conjE)
  then show ?thesis by auto
qed

theorem reset_to_owned_witness:
  "UniqueObject_reset UniqueFDTraits 0 7 sample_fds = Inl Check_Failed \<and>
    (\<exists>h'. UniquePtr_reset 3 (Some 0) sample_unique = Inr h' \<and> UniquePtr_destroy 3 h' = Inl Undefined_Behaviour)"
  using reset_to_owned [OF sample_unique_reachable, of 3 0 sample_fds 0 7 UniqueFDTraits]
  by (auto simp: sample_unique_def sample_fds_def)

end
