(* ===== verification/Shared_Pointers.thy ===== *)
theory Shared_Pointers
  imports Unique_Ownership
begin

section \<open>Shared ownership: Atomic, ControlBlock and SharedPtr\<close>

text \<open>
  \<open>app/src/main/cpp/memory/atomic.h\<close> and \<open>shared_ptr.h\<close>. A \<open>SharedPtr\<close> is a pointer to the managed
  object beside a pointer to a control block with an atomic 64-bit count. The heap has the managed
  objects, the control blocks and the \<open>SharedPtr\<close> variables that are alive; each access to an
  object or a block that is not there is undefined behaviour.
\<close>

subsection \<open>Atomic and ControlBlock\<close>

text \<open>\<open>Atomic<uint64_t>\<close>: the stored value; the read-modify-write operations return what was there.\<close>

type_synonym atomic64 = "64 word"

definition Atomic_new :: "64 word \<Rightarrow> atomic64" where "Atomic_new v = v"
definition Atomic_load :: "atomic64 \<Rightarrow> 64 word" where "Atomic_load x = x"
definition Atomic_store :: "64 word \<Rightarrow> atomic64 \<Rightarrow> atomic64" where "Atomic_store v x = v"
definition Atomic_fetch_add :: "64 word \<Rightarrow> atomic64 \<Rightarrow> atomic64 \<times> 64 word" where
  "Atomic_fetch_add arg x = (x + arg, x)"
definition Atomic_fetch_sub :: "64 word \<Rightarrow> atomic64 \<Rightarrow> atomic64 \<times> 64 word" where
  "Atomic_fetch_sub arg x = (x - arg, x)"

record SharedPtr =
  sp_ptr :: ptr
  sp_ctrl :: ptr

record 'v shared_heap =
  sh_objects :: "addr \<rightharpoonup> 'v"
  sh_ctrls :: "addr \<rightharpoonup> atomic64"
  sh_vars :: "var \<rightharpoonup> SharedPtr"
  sh_next :: addr

definition ctrl_at :: "'v shared_heap \<Rightarrow> ptr \<Rightarrow> (addr \<times> atomic64) outcome" where
  "ctrl_at h p =
     (case p of
        None \<Rightarrow> Inl Undefined_Behaviour
      | Some c \<Rightarrow> (case sh_ctrls h c of None \<Rightarrow> Inl Undefined_Behaviour | Some n \<Rightarrow> Inr (c, n)))"

definition ControlBlock_new :: atomic64 where "ControlBlock_new = Atomic_new 1"

text \<open>\<open>ref\<close> and \<open>deref\<close> through a pointer, with the count they return.\<close>

definition ControlBlock_ref :: "ptr \<Rightarrow> 'v shared_heap \<Rightarrow> ('v shared_heap \<times> 64 word) outcome" where
  "ControlBlock_ref p h =
     obind (ctrl_at h p) (\<lambda>(c, n).
     let (n', old) = Atomic_fetch_add 1 n
     in Inr (h\<lparr>sh_ctrls := (sh_ctrls h)(c \<mapsto> n')\<rparr>, old + 1))"

definition ControlBlock_deref :: "ptr \<Rightarrow> 'v shared_heap \<Rightarrow> ('v shared_heap \<times> 64 word) outcome" where
  "ControlBlock_deref p h =
     obind (ctrl_at h p) (\<lambda>(c, n).
     let (n', old) = Atomic_fetch_sub 1 n
     in Inr (h\<lparr>sh_ctrls := (sh_ctrls h)(c \<mapsto> n')\<rparr>, old - 1))"

definition ControlBlock_ref_count :: "ptr \<Rightarrow> 'v shared_heap \<Rightarrow> 64 word outcome" where
  "ControlBlock_ref_count p h = obind (ctrl_at h p) (\<lambda>(c, n). Inr (Atomic_load n))"

subsection \<open>SharedPtr\<close>

definition sp_at :: "'v shared_heap \<Rightarrow> var \<Rightarrow> SharedPtr outcome" where
  "sp_at h x = (case sh_vars h x of None \<Rightarrow> Inl Undefined_Behaviour | Some s \<Rightarrow> Inr s)"

definition set_sp :: "var \<Rightarrow> SharedPtr \<Rightarrow> 'v shared_heap \<Rightarrow> 'v shared_heap" where
  "set_sp x s h = h\<lparr>sh_vars := (sh_vars h)(x \<mapsto> s)\<rparr>"

definition SharedPtr_Clear :: "var \<Rightarrow> 'v shared_heap \<Rightarrow> 'v shared_heap" where
  "SharedPtr_Clear x h = set_sp x \<lparr>sp_ptr = None, sp_ctrl = None\<rparr> h"

definition delete_managed :: "addr \<Rightarrow> 'v shared_heap \<Rightarrow> 'v shared_heap outcome" where
  "delete_managed a h =
     obind (defined (sh_objects h a \<noteq> None)) (\<lambda>_. Inr (h\<lparr>sh_objects := (sh_objects h)(a := None)\<rparr>))"

definition delete_ctrl :: "ptr \<Rightarrow> 'v shared_heap \<Rightarrow> 'v shared_heap outcome" where
  "delete_ctrl p h =
     obind (ctrl_at h p) (\<lambda>(c, n). Inr (h\<lparr>sh_ctrls := (sh_ctrls h)(c := None)\<rparr>))"

definition SharedPtr_MaybeDestroy :: "var \<Rightarrow> 'v shared_heap \<Rightarrow> 'v shared_heap outcome" where
  "SharedPtr_MaybeDestroy x h =
     obind (sp_at h x) (\<lambda>s.
     case sp_ptr s of
       None \<Rightarrow> Inr h
     | Some a \<Rightarrow>
         obind (ControlBlock_deref (sp_ctrl s) h) (\<lambda>(h1, n).
         if n = 0 then obind (delete_managed a h1) (delete_ctrl (sp_ctrl s)) else Inr h1))"

definition SharedPtr_new :: "var \<Rightarrow> 'v shared_heap \<Rightarrow> 'v shared_heap" where
  "SharedPtr_new x h = set_sp x \<lparr>sp_ptr = None, sp_ctrl = None\<rparr> h"

text \<open>The \<open>UniquePtr\<close> that holds the object while the block is allocated is released again.\<close>

definition SharedPtr_of :: "var \<Rightarrow> ptr \<Rightarrow> 'v shared_heap \<Rightarrow> 'v shared_heap" where
  "SharedPtr_of x p h =
     (case p of
        None \<Rightarrow> set_sp x \<lparr>sp_ptr = None, sp_ctrl = None\<rparr> h
      | Some a \<Rightarrow>
          let c = sh_next h
          in set_sp x \<lparr>sp_ptr = Some a, sp_ctrl = Some c\<rparr>
               (h\<lparr>sh_ctrls := (sh_ctrls h)(c \<mapsto> ControlBlock_new), sh_next := c + 1\<rparr>))"

definition SharedPtr_copy :: "var \<Rightarrow> var \<Rightarrow> 'v shared_heap \<Rightarrow> 'v shared_heap outcome" where
  "SharedPtr_copy x r h =
     obind (sp_at h r) (\<lambda>s.
     let h1 = set_sp x s h
     in if sp_ptr s \<noteq> None then obind (ControlBlock_ref (sp_ctrl s) h1) (\<lambda>(h2, n). Inr h2) else Inr h1)"

definition SharedPtr_move :: "var \<Rightarrow> var \<Rightarrow> 'v shared_heap \<Rightarrow> 'v shared_heap outcome" where
  "SharedPtr_move x r h = obind (sp_at h r) (\<lambda>s. Inr (SharedPtr_Clear r (set_sp x s h)))"

definition SharedPtr_copy_assign :: "var \<Rightarrow> var \<Rightarrow> 'v shared_heap \<Rightarrow> 'v shared_heap outcome" where
  "SharedPtr_copy_assign x r h =
     obind (SharedPtr_MaybeDestroy x h) (\<lambda>h1.
     obind (sp_at h1 r) (\<lambda>s.
     obind (ControlBlock_ref (sp_ctrl s) (set_sp x s h1)) (\<lambda>(h2, n). Inr h2)))"

definition SharedPtr_move_assign :: "var \<Rightarrow> var \<Rightarrow> 'v shared_heap \<Rightarrow> 'v shared_heap outcome" where
  "SharedPtr_move_assign x r h =
     obind (SharedPtr_MaybeDestroy x h) (\<lambda>h1.
     obind (sp_at h1 r) (\<lambda>s. Inr (SharedPtr_Clear r (set_sp x s h1))))"

definition SharedPtr_get :: "var \<Rightarrow> 'v shared_heap \<Rightarrow> ptr outcome" where
  "SharedPtr_get x h = obind (sp_at h x) (\<lambda>s. Inr (sp_ptr s))"

definition SharedPtr_deref :: "var \<Rightarrow> 'v shared_heap \<Rightarrow> 'v outcome" where
  "SharedPtr_deref x h =
     obind (sp_at h x) (\<lambda>s. case Option.bind (sp_ptr s) (sh_objects h) of
        None \<Rightarrow> Inl Undefined_Behaviour | Some v \<Rightarrow> Inr v)"

definition SharedPtr_use_count :: "var \<Rightarrow> 'v shared_heap \<Rightarrow> 64 word outcome" where
  "SharedPtr_use_count x h =
     obind (sp_at h x) (\<lambda>s. if sp_ptr s \<noteq> None then ControlBlock_ref_count (sp_ctrl s) h else Inr 0)"

definition SharedPtr_reset :: "var \<Rightarrow> 'v shared_heap \<Rightarrow> 'v shared_heap outcome" where
  "SharedPtr_reset x h = obind (SharedPtr_MaybeDestroy x h) (\<lambda>h1. Inr (SharedPtr_Clear x h1))"

definition SharedPtr_destroy :: "var \<Rightarrow> 'v shared_heap \<Rightarrow> 'v shared_heap outcome" where
  "SharedPtr_destroy x h =
     obind (SharedPtr_MaybeDestroy x h) (\<lambda>h1. Inr (h1\<lparr>sh_vars := (sh_vars h1)(x := None)\<rparr>))"

definition SharedPtr_bool :: "var \<Rightarrow> 'v shared_heap \<Rightarrow> bool outcome" where
  "SharedPtr_bool x h = obind (sp_at h x) (\<lambda>s. Inr (sp_ptr s \<noteq> None))"

text \<open>\<open>WrapShared(ptr)\<close> is \<open>SharedPtr_of\<close>; \<open>MakeShared\<close> allocates first.\<close>

definition MakeShared :: "var \<Rightarrow> 'v \<Rightarrow> 'v shared_heap \<Rightarrow> 'v shared_heap" where
  "MakeShared x v h =
     (let a = sh_next h
      in SharedPtr_of x (Some a) (h\<lparr>sh_objects := (sh_objects h)(a \<mapsto> v), sh_next := a + 1\<rparr>))"

subsection \<open>The invariant\<close>

text \<open>A variable in use is empty or holds an object with its control block.\<close>

type_synonym sharing = "var \<rightharpoonup> (addr \<times> addr) option"

definition sp_of :: "(addr \<times> addr) option \<Rightarrow> SharedPtr" where
  "sp_of p = \<lparr>sp_ptr = map_option fst p, sp_ctrl = map_option snd p\<rparr>"

definition sharers :: "sharing \<Rightarrow> addr \<Rightarrow> var set" where
  "sharers V c = {x. \<exists>a. V x = Some (Some (a, c))}"

definition shared_inv :: "sharing \<Rightarrow> (addr \<rightharpoonup> 64 word) \<Rightarrow> addr set \<Rightarrow> bool" where
  "shared_inv V C L \<longleftrightarrow> finite (dom V) \<and>
     (\<forall>c n. C c = Some n \<longrightarrow> unat n = card (sharers V c) \<and> sharers V c \<noteq> {}) \<and>
     (\<forall>x a c. V x = Some (Some (a, c)) \<longrightarrow> a \<in> L \<and> C c \<noteq> None) \<and>
     (\<forall>x y a b c d. V x = Some (Some (a, c)) \<longrightarrow> V y = Some (Some (b, d)) \<longrightarrow> (a = b \<longleftrightarrow> c = d))"

definition shares :: "'v shared_heap \<Rightarrow> sharing \<Rightarrow> bool" where
  "shares h V \<longleftrightarrow> (\<forall>x. sh_vars h x = map_option sp_of (V x)) \<and> shared_inv V (sh_ctrls h) (dom (sh_objects h)) \<and>
     (\<forall>a. sh_next h \<le> a \<longrightarrow> sh_ctrls h a = None \<and> sh_objects h a = None)"

lemma shared_invD:
  assumes "shared_inv V C L"
  shows "finite (dom V)" and "C c = Some n \<Longrightarrow> unat n = card (sharers V c)"
    and "C c = Some n \<Longrightarrow> sharers V c \<noteq> {}"
    and "V x = Some (Some (a, c)) \<Longrightarrow> a \<in> L" and "V x = Some (Some (a, c)) \<Longrightarrow> \<exists>n. C c = Some n"
    and "V x = Some (Some (a, c)) \<Longrightarrow> V y = Some (Some (b, d)) \<Longrightarrow> a = b \<longleftrightarrow> c = d"
  using assms unfolding shared_inv_def by (simp, blast, blast, blast, blast, blast)

lemma shared_invI:
  assumes "finite (dom V)" and "\<And>c n. C c = Some n \<Longrightarrow> unat n = card (sharers V c)"
    and "\<And>c n. C c = Some n \<Longrightarrow> sharers V c \<noteq> {}"
    and "\<And>x a c. V x = Some (Some (a, c)) \<Longrightarrow> a \<in> L" and "\<And>x a c. V x = Some (Some (a, c)) \<Longrightarrow> C c \<noteq> None"
    and "\<And>x y a b c d. V x = Some (Some (a, c)) \<Longrightarrow> V y = Some (Some (b, d)) \<Longrightarrow> a = b \<longleftrightarrow> c = d"
  shows "shared_inv V C L"
  unfolding shared_inv_def using assms by (intro conjI allI impI)

lemma finite_sharers: "finite (dom V) \<Longrightarrow> finite (sharers V c)"
  by (rule finite_subset [of _ "dom V"]) (auto simp: sharers_def)

lemma sharers_upd:
  "sharers (V(x \<mapsto> None)) d = sharers V d - {x}"
  "sharers (V(x := None)) d = sharers V d - {x}"
  "sharers (V(x \<mapsto> Some (a, c))) d = (if d = c then insert x (sharers V d) else sharers V d - {x})"
  by (auto simp: sharers_def)

definition vacant :: "sharing \<Rightarrow> var \<Rightarrow> bool" where
  "vacant V x \<longleftrightarrow> (\<forall>p. V x \<noteq> Some (Some p))"

lemma vacant_none [simp]: "vacant (V(x \<mapsto> None)) x"
  by (simp add: vacant_def)

lemma sharers_vacant: "vacant V x \<Longrightarrow> x \<notin> sharers V c"
  by (simp add: vacant_def sharers_def)

lemma unat_succ: "unat n + 1 < 2 ^ 64 \<Longrightarrow> unat (n + 1 :: 64 word) = unat n + 1"
  using unat_add_lem [of n 1] by simp

lemma unat_pred: "n \<noteq> (0 :: 64 word) \<Longrightarrow> unat (n - 1) = unat n - 1"
  using unat_minus_one by blast

text \<open>A new assignment of objects to variables in which nothing is held that was not held before.\<close>

lemma inv_from:
  assumes inv: "shared_inv V C L" and fin: "finite (dom W)"
    and old: "\<And>y a c. W y = Some (Some (a, c)) \<Longrightarrow> \<exists>z. V z = Some (Some (a, c))"
    and cnt: "\<And>c n. C' c = Some n \<Longrightarrow> unat n = card (sharers W c) \<and> sharers W c \<noteq> {}"
    and live: "\<And>y a c. W y = Some (Some (a, c)) \<Longrightarrow> a \<in> L' \<and> C' c \<noteq> None"
  shows "shared_inv W C' L'"
proof (rule shared_invI)
  fix y z a b c d assume "W y = Some (Some (a, c))" "W z = Some (Some (b, d))"
  then obtain y' z' where "V y' = Some (Some (a, c))" "V z' = Some (Some (b, d))" using old by metis
  then show "a = b \<longleftrightarrow> c = d" by (rule shared_invD(6) [OF inv])
qed (use fin cnt live in blast)+

lemma inv_counts:
  assumes inv: "shared_inv V C L" and c: "C c = Some n"
  shows "unat n = card (sharers V c) \<and> sharers V c \<noteq> {}"
  using shared_invD(2,3) [OF inv c] by blast

lemma inv_held:
  assumes inv: "shared_inv V C L" and x: "V x = Some (Some (a, c))"
  shows "a \<in> L \<and> C c \<noteq> None"
  using shared_invD(4) [OF inv x] shared_invD(5) [OF inv x] by auto

lemma inv_set_none:
  assumes inv: "shared_inv V C L" and x: "vacant V x"
  shows "shared_inv (V(x \<mapsto> None)) C L" and "shared_inv (V(x := None)) C L"
proof -
  have *: "sharers (V(x \<mapsto> None)) c = sharers V c" "sharers (V(x := None)) c = sharers V c" for c
    using sharers_vacant [OF x] by (simp_all add: sharers_upd)
  show "shared_inv (V(x \<mapsto> None)) C L"
    using inv by (rule inv_from) (use shared_invD(1) [OF inv] inv_counts [OF inv] inv_held [OF inv] * in
      \<open>auto split: if_splits\<close>)
  show "shared_inv (V(x := None)) C L"
    using inv by (rule inv_from) (use shared_invD(1) [OF inv] inv_counts [OF inv] inv_held [OF inv] * in
      \<open>auto split: if_splits\<close>)
qed

lemma inv_join:
  assumes inv: "shared_inv V C L" and x: "vacant V x" and r: "V r = Some (Some (a, c))" and n: "C c = Some n"
    and m: "card (dom V) + 1 < 2 ^ 64"
  shows "shared_inv (V(x \<mapsto> Some (a, c))) (C(c \<mapsto> n + 1)) L"
proof -
  have sh: "sharers (V(x \<mapsto> Some (a, c))) d = (if d = c then insert x (sharers V d) else sharers V d)" for d
    using sharers_vacant [OF x] by (simp add: sharers_upd)
  have fin: "finite (sharers V d)" for d using finite_sharers [OF shared_invD(1) [OF inv]] .
  have "card (sharers V c) \<le> card (dom V)"
    using shared_invD(1) [OF inv] by (intro card_mono) (auto simp: sharers_def)
  then have n1: "unat (n + 1) = card (insert x (sharers V c))"
    using m inv_counts [OF inv n] unat_succ [of n] sharers_vacant [OF x] fin by simp
  have old: "V (if y = x then r else y) = Some (Some (b, d))" if "(V(x \<mapsto> Some (a, c))) y = Some (Some (b, d))" for y b d
    using that r by (auto split: if_splits)
  show ?thesis using inv
  proof (rule inv_from)
    show "unat k = card (sharers (V(x \<mapsto> Some (a, c))) d) \<and> sharers (V(x \<mapsto> Some (a, c))) d \<noteq> {}"
      if "(C(c \<mapsto> n + 1)) d = Some k" for d k
      using that n1 inv_counts [OF inv, of d k] by (cases "d = c") (auto simp: sh)
    show "b \<in> L \<and> (C(c \<mapsto> n + 1)) d \<noteq> None" if "(V(x \<mapsto> Some (a, c))) y = Some (Some (b, d))" for y b d
      using inv_held [OF inv old [OF that]] by auto
  qed (use shared_invD(1) [OF inv] old in auto)
qed

lemma inv_leave_one:
  assumes inv: "shared_inv V C L" and x: "V x = Some (Some (a, c))" and n: "C c = Some n"
  shows "n \<noteq> 0" and "n = 1 \<longleftrightarrow> sharers V c = {x}"
proof -
  have xs: "x \<in> sharers V c" using x by (auto simp: sharers_def)
  have "0 < card (sharers V c)"
    using xs finite_sharers [OF shared_invD(1) [OF inv]] card_gt_0_iff by blast
  with inv_counts [OF inv n] show "n \<noteq> 0" by auto
  have "n = 1 \<longleftrightarrow> unat n = 1" by (metis unat_1 word_unat_eq_iff)
  also have "\<dots> \<longleftrightarrow> sharers V c = {x}"
    using inv_counts [OF inv n] xs by (auto simp: card_1_singleton_iff)
  finally show "n = 1 \<longleftrightarrow> sharers V c = {x}" .
qed

lemma inv_leave:
  assumes inv: "shared_inv V C L" and x: "V x = Some (Some (a, c))" and n: "C c = Some n"
  shows "n \<noteq> 1 \<Longrightarrow> shared_inv (V(x \<mapsto> None)) (C(c \<mapsto> n - 1)) L"
    and "n = 1 \<Longrightarrow> shared_inv (V(x \<mapsto> None)) (C(c := None)) (L - {a})"
proof -
  let ?W = "V(x \<mapsto> None)"
  note one = inv_leave_one [OF inv x n]
  have fin: "finite (dom ?W)" using shared_invD(1) [OF inv] by simp
  have xs: "x \<in> sharers V c" using x by (auto simp: sharers_def)
  have other: "sharers ?W d = sharers V d" if "d \<noteq> c" for d using x that by (auto simp: sharers_def)
  have sub: "V y = Some (Some (b, d)) \<and> y \<noteq> x" if "?W y = Some (Some (b, d))" for y b d
    using that by (auto split: if_splits)
  show "shared_inv ?W (C(c \<mapsto> n - 1)) L" if n1: "n \<noteq> 1"
    using inv fin
  proof (rule inv_from)
    have "sharers ?W c = sharers V c - {x}" by (simp add: sharers_upd)
    then have "unat (n - 1) = card (sharers ?W c)" "sharers ?W c \<noteq> {}"
      using inv_counts [OF inv n] one n1 xs unat_pred [of n] by auto
    then show "unat k = card (sharers ?W d) \<and> sharers ?W d \<noteq> {}" if "(C(c \<mapsto> n - 1)) d = Some k" for d k
      using that other [of d] inv_counts [OF inv, of d k] by (cases "d = c") auto
    show "b \<in> L \<and> (C(c \<mapsto> n - 1)) d \<noteq> None" if "?W y = Some (Some (b, d))" for y b d
      using inv_held [OF inv, of y b d] sub [OF that] by auto
  qed (use sub in blast)
  show "shared_inv ?W (C(c := None)) (L - {a})" if n1: "n = 1"
    using inv fin
  proof (rule inv_from)
    show "unat k = card (sharers ?W d) \<and> sharers ?W d \<noteq> {}" if "(C(c := None)) d = Some k" for d k
      using that other [of d] inv_counts [OF inv, of d k] by (cases "d = c") auto
    show "b \<in> L - {a} \<and> (C(c := None)) d \<noteq> None" if y: "?W y = Some (Some (b, d))" for y b d
    proof -
      have "y \<notin> sharers V c" using sub [OF y] one n1 by blast
      then have "d \<noteq> c" using sub [OF y] by (auto simp: sharers_def)
      moreover have "a \<noteq> b" using shared_invD(6) [OF inv x, of y b d] sub [OF y] \<open>d \<noteq> c\<close> by auto
      ultimately show ?thesis using inv_held [OF inv, of y b d] sub [OF y] by auto
    qed
  qed (use sub in blast)
qed

lemma inv_transfer:
  assumes inv: "shared_inv V C L" and x: "vacant V x" and r: "V r = Some p" and "x \<noteq> r"
  shows "shared_inv (V(x \<mapsto> p, r \<mapsto> None)) C L"
proof -
  let ?W = "V(x \<mapsto> p, r \<mapsto> None)"
  have sh: "sharers ?W c = (if r \<in> sharers V c then insert x (sharers V c - {r}) else sharers V c)" for c
    using x r \<open>x \<noteq> r\<close> by (auto simp: sharers_def vacant_def split: if_splits)
  have card: "card (sharers ?W c) = card (sharers V c)" for c
    using sharers_vacant [OF x, of c] finite_sharers [OF shared_invD(1) [OF inv], of c]
      card.remove [of "sharers V c" r] by (auto simp: sh)
  have empty: "sharers ?W c = {} \<longleftrightarrow> sharers V c = {}" for c by (auto simp: sh)
  have old: "V (if y = x then r else y) = Some (Some (a, c))" if "?W y = Some (Some (a, c))" for y a c
    using that r \<open>x \<noteq> r\<close> by (auto split: if_splits)
  show ?thesis using inv
  proof (rule inv_from)
    show "unat n = card (sharers ?W c) \<and> sharers ?W c \<noteq> {}" if "C c = Some n" for c n
      using inv_counts [OF inv that] card empty by simp
    show "a \<in> L \<and> C c \<noteq> None" if "?W y = Some (Some (a, c))" for y a c using inv_held [OF inv old [OF that]] .
    show "\<exists>z. V z = Some (Some (a, c))" if "?W y = Some (Some (a, c))" for y a c using old [OF that] by blast
  qed (use shared_invD(1) [OF inv] in simp)
qed

lemma inv_fresh:
  assumes inv: "shared_inv V C L" and x: "vacant V x" and a: "a \<in> L" "\<And>y d. V y \<noteq> Some (Some (a, d))"
    and c: "C c = None"
  shows "shared_inv (V(x \<mapsto> Some (a, c))) (C(c \<mapsto> 1)) L"
proof (rule shared_invI)
  let ?W = "V(x \<mapsto> Some (a, c))"
  have none: "V y \<noteq> Some (Some (b, c))" for y b using inv_held [OF inv, of y b c] c by auto
  then have "sharers V c = {}" by (auto simp: sharers_def)
  then have sh: "sharers ?W d = (if d = c then {x} else sharers V d)" for d
    using sharers_vacant [OF x] by (simp add: sharers_upd)
  show "unat n = card (sharers ?W d)" "sharers ?W d \<noteq> {}" if "(C(c \<mapsto> 1)) d = Some n" for d n
    using that inv_counts [OF inv, of d n] by (auto simp: sh split: if_splits)
  have split: "y = x \<and> b = a \<and> d = c \<or> V y = Some (Some (b, d)) \<and> b \<noteq> a \<and> d \<noteq> c"
    if "?W y = Some (Some (b, d))" for y b d using that a(2) [of y d] none [of y b] by (auto split: if_splits)
  show "b \<in> L" "(C(c \<mapsto> 1)) d \<noteq> None" if "?W y = Some (Some (b, d))" for y b d
    using split [OF that] a(1) inv_held [OF inv, of y b d] by auto
  show "b = b' \<longleftrightarrow> d = d'" if "?W y = Some (Some (b, d))" "?W z = Some (Some (b', d'))" for y z b b' d d'
    using split [OF that(1)] split [OF that(2)] shared_invD(6) [OF inv, of y b d z b' d'] by auto
qed (use shared_invD(1) [OF inv] in simp)

lemma inv_more: "shared_inv V C L \<Longrightarrow> shared_inv V C (insert a L)"
  unfolding shared_inv_def by blast

subsection \<open>The operations keep the invariant\<close>

lemma sharesD:
  assumes "shares h V"
  shows "sh_vars h x = map_option sp_of (V x)" and "shared_inv V (sh_ctrls h) (dom (sh_objects h))"
    and "sh_next h \<le> a \<Longrightarrow> sh_ctrls h a = None" and "sh_next h \<le> a \<Longrightarrow> sh_objects h a = None"
  using assms by (simp_all add: shares_def)

lemma sp_at_shares: "shares h V \<Longrightarrow> V x = Some p \<Longrightarrow> sp_at h x = Inr (sp_of p)"
  by (simp add: sp_at_def sharesD(1))

lemma sp_of_simps [simp]:
  "sp_ptr (sp_of None) = None" "sp_ctrl (sp_of None) = None"
  "sp_ptr (sp_of (Some (a, c))) = Some a" "sp_ctrl (sp_of (Some (a, c))) = Some c"
  "sp_ptr (sp_of p) = None \<longleftrightarrow> p = None"
  by (simp_all add: sp_of_def)

lemma sp_of_None: "\<lparr>sp_ptr = None, sp_ctrl = None\<rparr> = sp_of None"
  by (simp add: sp_of_def)

lemma sp_of_Some: "\<lparr>sp_ptr = Some a, sp_ctrl = Some c\<rparr> = sp_of (Some (a, c))"
  by (simp add: sp_of_def)

text \<open>A heap between \<open>MaybeDestroy\<close> and the update of the variable: \<open>x\<close> does not count any more.\<close>

definition left_by :: "'v shared_heap \<Rightarrow> sharing \<Rightarrow> var \<Rightarrow> 'v shared_heap \<Rightarrow> bool" where
  "left_by h V x h1 \<longleftrightarrow> sh_vars h1 = sh_vars h \<and>
     shared_inv (V(x \<mapsto> None)) (sh_ctrls h1) (dom (sh_objects h1)) \<and>
     (\<forall>a. sh_next h1 \<le> a \<longrightarrow> sh_ctrls h1 a = None \<and> sh_objects h1 a = None) \<and>
     sh_objects h1 = sh_objects h |` (- {a. \<exists>c. V x = Some (Some (a, c)) \<and> sharers V c = {x}}) \<and>
     (\<forall>a c. V x = Some (Some (a, c)) \<longrightarrow> (sh_ctrls h1 c = None \<longleftrightarrow> sharers V c = {x}))"

lemma MaybeDestroy_ok:
  assumes ok: "shares h V" and x: "V x = Some p"
  shows "\<exists>h1. SharedPtr_MaybeDestroy x h = Inr h1 \<and> left_by h V x h1"
proof (cases p)
  case None
  with x have "vacant V x" by (simp add: vacant_def)
  then have "left_by h V x h"
    using ok x None inv_set_none(1) [OF sharesD(2) [OF ok]] by (auto simp: left_by_def shares_def restrict_map_def)
  with None ok x show ?thesis by (simp add: SharedPtr_MaybeDestroy_def sp_at_shares)
next
  case (Some ac)
  obtain a c where p: "p = Some (a, c)" using Some by (cases ac) auto
  note inv = sharesD(2) [OF ok] and xac = x [unfolded p]
  from inv_held [OF inv xac] obtain v n where v: "sh_objects h a = Some v" and n: "sh_ctrls h c = Some n" by auto
  note one = inv_leave_one [OF inv xac n] and lv = inv_leave [OF inv xac n]
  have at: "sp_at h x = Inr (sp_of (Some (a, c)))" using sp_at_shares [OF ok xac] .
  show ?thesis
  proof (cases "n = 1")
    case True
    let ?h = "h\<lparr>sh_ctrls := (sh_ctrls h)(c := None), sh_objects := (sh_objects h)(a := None)\<rparr>"
    have "SharedPtr_MaybeDestroy x h = Inr ?h"
      using True v n by (simp add: SharedPtr_MaybeDestroy_def at ControlBlock_deref_def ctrl_at_def
        Atomic_fetch_sub_def delete_managed_def delete_ctrl_def)
    moreover have "dom (sh_objects ?h) = dom (sh_objects h) - {a}" by auto
    moreover have "sh_objects ?h = sh_objects h |` (- {a})" by (auto simp: restrict_map_def)
    moreover have "{b. \<exists>d. V x = Some (Some (b, d)) \<and> sharers V d = {x}} = {a}" using xac one(2) True by auto
    ultimately show ?thesis
      using lv(2) True ok one(2) xac unfolding left_by_def by (auto simp: sharesD(3,4) restrict_map_def)
  next
    case False
    let ?h = "h\<lparr>sh_ctrls := (sh_ctrls h)(c \<mapsto> n - 1)\<rparr>"
    have "n - 1 \<noteq> 0" using False by (metis diff_eq_eq add.left_neutral)
    then have "SharedPtr_MaybeDestroy x h = Inr ?h"
      using v n by (simp add: SharedPtr_MaybeDestroy_def at ControlBlock_deref_def ctrl_at_def Atomic_fetch_sub_def)
    moreover have "{b. \<exists>d. V x = Some (Some (b, d)) \<and> sharers V d = {x}} = {}" using xac one(2) False by auto
    moreover have "sh_ctrls ?h b = None" if "sh_next ?h \<le> b" for b
      using that sharesD(3) [OF ok, of b] n by auto
    ultimately show ?thesis
      using lv(1) False ok one(2) xac unfolding left_by_def by (auto simp: sharesD(4))
  qed
qed

lemma shares_set:
  assumes "\<And>y. sh_vars h y = map_option sp_of (V y)" and "shared_inv (V(x \<mapsto> p)) C L"
    and "C = sh_ctrls h'" "L = dom (sh_objects h')" "sh_vars h' = (sh_vars h)(x \<mapsto> sp_of p)"
    and "\<And>a. sh_next h' \<le> a \<Longrightarrow> sh_ctrls h' a = None \<and> sh_objects h' a = None"
  shows "shares h' (V(x \<mapsto> p))"
  using assms by (auto simp: shares_def)

text \<open>Overwriting a variable that does not count with nothing, or dropping it.\<close>

lemma left_cleared:
  assumes ok: "shares h V" and l: "left_by h V x h1"
  shows "shares (SharedPtr_Clear x h1) (V(x \<mapsto> None))"
    and "shares (h1\<lparr>sh_vars := (sh_vars h1)(x := None)\<rparr>) (V(x := None))"
proof -
  show "shares (SharedPtr_Clear x h1) (V(x \<mapsto> None))"
    using l sharesD(1) [OF ok] by (auto simp: left_by_def shares_def SharedPtr_Clear_def set_sp_def sp_of_None)
  have "shared_inv (V(x := None)) (sh_ctrls h1) (dom (sh_objects h1))"
    using inv_set_none(2) [of "V(x \<mapsto> None)" _ _ x] l unfolding left_by_def by auto
  then show "shares (h1\<lparr>sh_vars := (sh_vars h1)(x := None)\<rparr>) (V(x := None))"
    using l sharesD(1) [OF ok] by (auto simp: left_by_def shares_def)
qed

text \<open>Taking a share of what \<open>r\<close> holds, for a variable that does not count.\<close>

lemma take_share:
  assumes vars: "\<And>y. y \<noteq> x \<Longrightarrow> sh_vars h y = map_option sp_of (V y)"
    and inv: "shared_inv V (sh_ctrls h) (dom (sh_objects h))" and x: "vacant V x"
    and r: "V r = Some (Some (a, c))" and m: "card (dom V) + 1 < 2 ^ 64"
    and next_ok: "\<And>a. sh_next h \<le> a \<Longrightarrow> sh_ctrls h a = None \<and> sh_objects h a = None"
  shows "\<exists>h' n. ControlBlock_ref (Some c) (set_sp x (sp_of (Some (a, c))) h) = Inr (h', n) \<and>
    shares h' (V(x \<mapsto> Some (a, c))) \<and> sh_objects h' = sh_objects h"
proof -
  from inv_held [OF inv r] obtain n where n: "sh_ctrls h c = Some n" by auto
  let ?h = "h\<lparr>sh_vars := (sh_vars h)(x \<mapsto> sp_of (Some (a, c))), sh_ctrls := (sh_ctrls h)(c \<mapsto> n + 1)\<rparr>"
  have "ControlBlock_ref (Some c) (set_sp x (sp_of (Some (a, c))) h) = Inr (?h, n + 1)"
    using n by (simp add: ControlBlock_ref_def ctrl_at_def set_sp_def Atomic_fetch_add_def)
  moreover have "shares ?h (V(x \<mapsto> Some (a, c)))"
    using inv_join [OF inv x r n m] vars next_ok n by (auto simp: shares_def)
  ultimately show ?thesis by auto
qed

abbreviation sroom :: "sharing \<Rightarrow> bool" where
  "sroom V \<equiv> card (dom V) + 1 < 2 ^ 64"

lemma SharedPtr_copy_ok:
  assumes ok: "shares h V" and x: "V x = None" and r: "V r = Some p" and m: "sroom V"
  shows "\<exists>h'. SharedPtr_copy x r h = Inr h' \<and> shares h' (V(x \<mapsto> p)) \<and> sh_objects h' = sh_objects h"
proof -
  have vac: "vacant V x" using x by (simp add: vacant_def)
  note inv = sharesD(2) [OF ok]
  show ?thesis
  proof (cases p)
    case None
    have "shares (set_sp x (sp_of None) h) (V(x \<mapsto> None))"
      using inv_set_none(1) [OF inv vac] ok by (auto simp: shares_def set_sp_def)
    with None r ok show ?thesis by (simp add: SharedPtr_copy_def sp_at_shares) (simp add: set_sp_def)
  next
    case (Some ac)
    obtain a c where p: "p = Some (a, c)" using Some by (cases ac) auto
    from take_share [OF _ inv vac _ m, of r a c] ok r p obtain h' n where
      "ControlBlock_ref (Some c) (set_sp x (sp_of (Some (a, c))) h) = Inr (h', n)"
      "shares h' (V(x \<mapsto> Some (a, c)))" "sh_objects h' = sh_objects h" by (auto simp: shares_def)
    with p r ok show ?thesis by (simp add: SharedPtr_copy_def sp_at_shares)
  qed
qed

lemma moved_ok:
  assumes vars: "\<And>y. y \<noteq> x \<Longrightarrow> sh_vars h y = map_option sp_of (V y)"
    and inv: "shared_inv V (sh_ctrls h) (dom (sh_objects h))" and x: "vacant V x" and r: "V r = Some p" and "x \<noteq> r"
    and next_ok: "\<And>a. sh_next h \<le> a \<Longrightarrow> sh_ctrls h a = None \<and> sh_objects h a = None"
  shows "shares (SharedPtr_Clear r (set_sp x (sp_of p) h)) (V(x \<mapsto> p, r \<mapsto> None))"
  using inv_transfer [OF inv x r \<open>x \<noteq> r\<close>] vars next_ok
  by (auto simp: shares_def SharedPtr_Clear_def set_sp_def sp_of_None)

lemma SharedPtr_move_ok:
  assumes ok: "shares h V" and x: "V x = None" and r: "V r = Some p"
  shows "\<exists>h'. SharedPtr_move x r h = Inr h' \<and> shares h' (V(x \<mapsto> p, r \<mapsto> None)) \<and> sh_objects h' = sh_objects h"
proof -
  have "vacant V x" "x \<noteq> r" using x r by (auto simp: vacant_def)
  with moved_ok [OF _ sharesD(2) [OF ok], of x r p] sharesD [OF ok] r
  have "shares (SharedPtr_Clear r (set_sp x (sp_of p) h)) (V(x \<mapsto> p, r \<mapsto> None))" by simp
  with sp_at_shares [OF ok r] show ?thesis by (simp add: SharedPtr_move_def) (simp add: SharedPtr_Clear_def set_sp_def)
qed

lemma SharedPtr_reset_ok:
  assumes ok: "shares h V" and x: "V x = Some p"
  shows "\<exists>h'. SharedPtr_reset x h = Inr h' \<and> shares h' (V(x \<mapsto> None)) \<and>
    sh_objects h' = sh_objects h |` (- {a. \<exists>c. V x = Some (Some (a, c)) \<and> sharers V c = {x}})"
  using MaybeDestroy_ok [OF ok x] left_cleared(1) [OF ok]
  by (auto simp: SharedPtr_reset_def left_by_def) (auto simp: SharedPtr_Clear_def set_sp_def)

lemma SharedPtr_destroy_ok:
  assumes ok: "shares h V" and x: "V x = Some p"
  shows "\<exists>h'. SharedPtr_destroy x h = Inr h' \<and> shares h' (V(x := None)) \<and>
    sh_objects h' = sh_objects h |` (- {a. \<exists>c. V x = Some (Some (a, c)) \<and> sharers V c = {x}})"
  using MaybeDestroy_ok [OF ok x] left_cleared(2) [OF ok] by (auto simp: SharedPtr_destroy_def left_by_def)

lemma left_sp_at: "shares h V \<Longrightarrow> left_by h V x h1 \<Longrightarrow> V r = Some p \<Longrightarrow> sp_at h1 r = Inr (sp_of p)"
  by (simp add: left_by_def sp_at_def sharesD(1))

lemma left_byD:
  assumes "shares h V" and "left_by h V x h1"
  shows "y \<noteq> x \<Longrightarrow> sh_vars h1 y = map_option sp_of ((V(x \<mapsto> None)) y)"
    and "shared_inv (V(x \<mapsto> None)) (sh_ctrls h1) (dom (sh_objects h1))"
    and "sh_next h1 \<le> a \<Longrightarrow> sh_ctrls h1 a = None \<and> sh_objects h1 a = None"
    and "V x = Some (Some (a, c)) \<Longrightarrow> sh_ctrls h1 c = None \<longleftrightarrow> sharers V c = {x}"
  using assms sharesD(1) [OF assms(1)] unfolding left_by_def by (simp, blast, blast, blast)

lemma SharedPtr_move_assign_ok:
  assumes ok: "shares h V" and x: "V x = Some p" and r: "V r = Some q"
  shows "\<exists>h'. SharedPtr_move_assign x r h = Inr h' \<and> shares h' (V(x \<mapsto> q, r \<mapsto> None)) \<and>
    sh_objects h' = sh_objects h |` (- {a. \<exists>c. V x = Some (Some (a, c)) \<and> sharers V c = {x}})"
proof -
  from MaybeDestroy_ok [OF ok x] obtain h1 where h1: "SharedPtr_MaybeDestroy x h = Inr h1" and l: "left_by h V x h1"
    by blast
  let ?h = "SharedPtr_Clear r (set_sp x (sp_of q) h1)"
  have "SharedPtr_move_assign x r h = Inr ?h"
    using h1 left_sp_at [OF ok l r] by (simp add: SharedPtr_move_assign_def)
  moreover have "shares ?h (V(x \<mapsto> q, r \<mapsto> None))"
  proof (cases "x = r")
    case True
    then have "?h = SharedPtr_Clear x h1" by (simp add: SharedPtr_Clear_def set_sp_def)
    with left_cleared(1) [OF ok l] True show ?thesis by simp
  next
    case False
    with r have r': "(V(x \<mapsto> None)) r = Some q" by simp
    from moved_ok [where V = "V(x \<mapsto> None)", OF left_byD(1) [OF ok l] left_byD(2) [OF ok l] vacant_none r' False left_byD(3) [OF ok l]]
    show ?thesis by simp
  qed
  moreover have "sh_objects ?h = sh_objects h1" by (simp add: SharedPtr_Clear_def set_sp_def)
  ultimately show ?thesis using l unfolding left_by_def by auto
qed

text \<open>Copy assignment: the outcome on each of its cases.\<close>

lemma SharedPtr_copy_assign_ok:
  assumes ok: "shares h V" and x: "V x = Some p" and r: "V r = Some (Some (b, d))" and m: "sroom V"
    and self: "x \<noteq> r \<or> sharers V d \<noteq> {x}"
  shows "\<exists>h'. SharedPtr_copy_assign x r h = Inr h' \<and> shares h' (V(x \<mapsto> Some (b, d))) \<and>
    sh_objects h' = sh_objects h |` (- {a. \<exists>c. V x = Some (Some (a, c)) \<and> sharers V c = {x}})"
proof -
  from MaybeDestroy_ok [OF ok x] obtain h1 where h1: "SharedPtr_MaybeDestroy x h = Inr h1" and l: "left_by h V x h1"
    by blast
  let ?V = "V(x \<mapsto> None)"
  note L = left_byD [OF ok l]
  obtain z b' where "?V z = Some (Some (b', d))"
  proof (cases "x = r")
    case True
    with r have "x \<in> sharers V d" by (auto simp: sharers_def)
    with self True obtain z where "z \<in> sharers V d" "z \<noteq> x" by blast
    then show thesis using that by (fastforce simp: sharers_def)
  next
    case False
    with r that show thesis by fastforce
  qed
  moreover from this have "b' = b"
    using shared_invD(6) [OF sharesD(2) [OF ok] r, of z b' d] by (auto split: if_splits)
  ultimately have z: "?V z = Some (Some (b, d))" by simp
  have "dom ?V = dom V" using x by auto
  then have m': "sroom ?V" using m by simp
  from take_share [OF L(1) L(2) vacant_none z m' L(3)] obtain h' n where
    h': "ControlBlock_ref (Some d) (set_sp x (sp_of (Some (b, d))) h1) = Inr (h', n)"
    "shares h' (V(x \<mapsto> Some (b, d)))" "sh_objects h' = sh_objects h1" by auto
  then have "SharedPtr_copy_assign x r h = Inr h'"
    using h1 left_sp_at [OF ok l r] by (simp add: SharedPtr_copy_assign_def)
  with h' l show ?thesis unfolding left_by_def by auto
qed

lemma SharedPtr_copy_assign_fault:
  assumes ok: "shares h V" and x: "V x = Some p" and r: "V r = Some q"
    and bad: "q = None \<or> x = r \<and> (\<exists>b d. q = Some (b, d) \<and> sharers V d = {x})"
  shows "SharedPtr_copy_assign x r h = Inl Undefined_Behaviour"
proof -
  from MaybeDestroy_ok [OF ok x] obtain h1 where h1: "SharedPtr_MaybeDestroy x h = Inr h1" and l: "left_by h V x h1"
    by blast
  have "ctrl_at (set_sp x (sp_of q) h1) (sp_ctrl (sp_of q)) = Inl Undefined_Behaviour"
  proof (cases q)
    case None
    then show ?thesis by (simp add: ctrl_at_def)
  next
    case (Some bd)
    then obtain b d where q: "q = Some (b, d)" by (cases bd) auto
    with bad r have "sh_ctrls h1 d = None" using left_byD(4) [OF ok l, of b d] by auto
    with q show ?thesis by (simp add: ctrl_at_def set_sp_def)
  qed
  with h1 left_sp_at [OF ok l r] show ?thesis by (simp add: SharedPtr_copy_assign_def ControlBlock_ref_def)
qed

lemma SharedPtr_of_ok:
  assumes ok: "shares h V" and x: "V x = None" and a: "sh_objects h a \<noteq> None" "\<And>y d. V y \<noteq> Some (Some (a, d))"
  shows "shares (SharedPtr_of x (Some a) h) (V(x \<mapsto> Some (a, sh_next h)))"
proof -
  have "vacant V x" using x by (simp add: vacant_def)
  with inv_fresh [OF sharesD(2) [OF ok] this, of a "sh_next h"] a sharesD(3) [OF ok]
  have "shared_inv (V(x \<mapsto> Some (a, sh_next h))) ((sh_ctrls h)(sh_next h \<mapsto> 1)) (dom (sh_objects h))" by auto
  then show ?thesis
    using ok by (auto simp: SharedPtr_of_def Let_def set_sp_def ControlBlock_new_def Atomic_new_def sp_of_Some shares_def)
qed

lemma MakeShared_ok:
  assumes ok: "shares h V" and x: "V x = None"
  shows "shares (MakeShared x v h) (V(x \<mapsto> Some (sh_next h, sh_next h + 1)))"
proof -
  let ?h = "h\<lparr>sh_objects := (sh_objects h)(sh_next h \<mapsto> v), sh_next := sh_next h + 1\<rparr>"
  have "V y \<noteq> Some (Some (sh_next h, d))" for y d
    using inv_held [OF sharesD(2) [OF ok], of y "sh_next h" d] sharesD(4) [OF ok, of "sh_next h"] by auto
  moreover have "shares ?h V"
    using ok inv_more [OF sharesD(2) [OF ok], of "sh_next h"] by (auto simp: shares_def)
  ultimately show ?thesis using SharedPtr_of_ok [of ?h V x "sh_next h"] x by (simp add: MakeShared_def Let_def)
qed

lemma SharedPtr_new_ok:
  assumes ok: "shares h V" and x: "V x = None"
  shows "shares (SharedPtr_new x h) (V(x \<mapsto> None))"
  using ok inv_set_none(1) [OF sharesD(2) [OF ok], of x] x
  by (auto simp: SharedPtr_new_def set_sp_def sp_of_None shares_def vacant_def)

subsection \<open>Reachable heaps\<close>

definition in_use :: "var \<Rightarrow> 'v shared_heap \<Rightarrow> bool" where
  "in_use x h \<longleftrightarrow> sh_vars h x \<noteq> None"

text \<open>Copying needs fewer than \<open>2 ^ 64\<close> pointers; a plain pointer given to a \<open>SharedPtr\<close> points at an
  object no other \<open>SharedPtr\<close> manages.\<close>

inductive shared_step :: "'v shared_heap \<Rightarrow> 'v shared_heap \<Rightarrow> bool" where
  default: "shared_step h (SharedPtr_new x h)" if "\<not> in_use x h"
| allocate: "shared_step h (h\<lparr>sh_objects := (sh_objects h)(sh_next h \<mapsto> v), sh_next := sh_next h + 1\<rparr>)"
| of_pointer: "shared_step h (SharedPtr_of x (Some a) h)"
    if "\<not> in_use x h" and "sh_objects h a \<noteq> None" and "\<forall>y s. sh_vars h y = Some s \<longrightarrow> sp_ptr s \<noteq> Some a"
| make: "shared_step h (MakeShared x v h)" if "\<not> in_use x h"
| copy: "\<not> in_use x h \<Longrightarrow> card (dom (sh_vars h)) + 1 < 2 ^ 64 \<Longrightarrow> SharedPtr_copy x r h = Inr h' \<Longrightarrow> shared_step h h'"
| move: "\<not> in_use x h \<Longrightarrow> SharedPtr_move x r h = Inr h' \<Longrightarrow> shared_step h h'"
| copy_assign: "card (dom (sh_vars h)) + 1 < 2 ^ 64 \<Longrightarrow> SharedPtr_copy_assign x r h = Inr h' \<Longrightarrow> shared_step h h'"
| move_assign: "SharedPtr_move_assign x r h = Inr h' \<Longrightarrow> shared_step h h'"
| reset: "SharedPtr_reset x h = Inr h' \<Longrightarrow> shared_step h h'"
| destroy: "SharedPtr_destroy x h = Inr h' \<Longrightarrow> shared_step h h'"

definition no_shared :: "'v shared_heap" where
  "no_shared = \<lparr>sh_objects = Map.empty, sh_ctrls = Map.empty, sh_vars = Map.empty, sh_next = 0\<rparr>"

inductive shared_reachable :: "'v shared_heap \<Rightarrow> bool" where
  start: "shared_reachable no_shared"
| step: "shared_reachable h \<Longrightarrow> shared_step h h' \<Longrightarrow> shared_reachable h'"

lemma shares_dom: "shares h V \<Longrightarrow> dom (sh_vars h) = dom V"
  by (auto simp: sharesD(1))

lemma shares_in_use: "shares h V \<Longrightarrow> in_use x h \<longleftrightarrow> V x \<noteq> None"
  by (simp add: in_use_def sharesD(1))

lemma sp_at_alive: "shares h V \<Longrightarrow> sp_at h x = Inr s \<Longrightarrow> \<exists>p. V x = Some p"
  by (auto simp: sp_at_def sharesD(1) split: option.splits)

lemma MaybeDestroy_alive: "SharedPtr_MaybeDestroy x h = Inr h1 \<Longrightarrow> \<exists>s. sp_at h x = Inr s"
  by (auto simp: SharedPtr_MaybeDestroy_def obind_eq_Inr)

lemma assign_alive:
  assumes ok: "shares h V" and f: "obind (SharedPtr_MaybeDestroy x h) (\<lambda>h1. obind (sp_at h1 r) (f h1)) = Inr h'"
  shows "\<exists>p q. V x = Some p \<and> V r = Some q"
proof -
  from f obtain h1 where h1: "SharedPtr_MaybeDestroy x h = Inr h1" by (auto simp: obind_eq_Inr)
  with MaybeDestroy_alive sp_at_alive [OF ok] obtain p where x: "V x = Some p" by blast
  from MaybeDestroy_ok [OF ok x] h1 have "sh_vars h1 = sh_vars h" by (auto simp: left_by_def)
  with f h1 obtain s where "sp_at h r = Inr s" by (auto simp: obind_eq_Inr sp_at_def split: option.splits)
  with x sp_at_alive [OF ok] show ?thesis by blast
qed

lemma shared_step_ok: "shared_step h h' \<Longrightarrow> shares h V \<Longrightarrow> \<exists>V'. shares h' V'"
proof (induction rule: shared_step.induct)
  case (default x h) then show ?case using SharedPtr_new_ok [of h V x] by (auto simp: shares_in_use)
next
  case (allocate h v)
  then show ?case using inv_more [of V "sh_ctrls h" "dom (sh_objects h)" "sh_next h"]
    by (intro exI [of _ V]) (auto simp: shares_def)
next
  case (of_pointer x h a)
  then have "V y \<noteq> Some (Some (a, d))" for y d using sharesD(1) [OF of_pointer(4), of y] by (cases "V y") fastforce+
  with of_pointer SharedPtr_of_ok [of h V x a] show ?case by (auto simp: shares_in_use)
next
  case (make x h v) then show ?case using MakeShared_ok [of h V x v] by (auto simp: shares_in_use)
next
  case (copy x h r h')
  then have "\<exists>p. V r = Some p" using sp_at_alive [OF copy(4)] by (auto simp: SharedPtr_copy_def obind_eq_Inr)
  with copy SharedPtr_copy_ok [of h V x r] show ?case by (auto simp: shares_in_use shares_dom)
next
  case (move x h r h')
  then have "\<exists>p. V r = Some p" using sp_at_alive [OF move(3)] by (auto simp: SharedPtr_move_def obind_eq_Inr)
  with move SharedPtr_move_ok [of h V x r] show ?case by (auto simp: shares_in_use)
next
  case (copy_assign h x r h')
  from assign_alive [OF copy_assign(3) copy_assign(2) [unfolded SharedPtr_copy_assign_def]] obtain p q where
    pq: "V x = Some p" "V r = Some q" by blast
  have "\<not> (q = None \<or> x = r \<and> (\<exists>b d. q = Some (b, d) \<and> sharers V d = {x}))"
    using SharedPtr_copy_assign_fault [OF copy_assign(3) pq] copy_assign(2) by (metis Inl_Inr_False)
  then obtain b d where "q = Some (b, d)" "x \<noteq> r \<or> sharers V d \<noteq> {x}" by (cases q) auto
  with SharedPtr_copy_assign_ok [OF copy_assign(3) pq(1), of r b d] pq copy_assign show ?case
    by (auto simp: shares_dom)
next
  case (move_assign x r h h')
  from assign_alive [OF move_assign(2) move_assign(1) [unfolded SharedPtr_move_assign_def]] obtain p q where
    "V x = Some p" "V r = Some q" by blast
  with SharedPtr_move_assign_ok [OF move_assign(2)] move_assign(1) show ?case by fastforce
next
  case (reset x h h')
  then obtain p where "V x = Some p"
    using MaybeDestroy_alive sp_at_alive [OF reset(2)] by (fastforce simp: SharedPtr_reset_def obind_eq_Inr)
  from SharedPtr_reset_ok [OF reset(2) this] reset(1) show ?case by auto
next
  case (destroy x h h')
  then obtain p where "V x = Some p"
    using MaybeDestroy_alive sp_at_alive [OF destroy(2)] by (fastforce simp: SharedPtr_destroy_def obind_eq_Inr)
  from SharedPtr_destroy_ok [OF destroy(2) this] destroy(1) show ?case by auto
qed

lemma shared_reachable_ok: "shared_reachable h \<Longrightarrow> \<exists>V. shares h V"
proof (induction rule: shared_reachable.induct)
  case start
  have "shares no_shared Map.empty" by (simp add: shares_def no_shared_def shared_inv_def)
  then show ?case by blast
next
  case (step h h')
  then show ?case using shared_step_ok by blast
qed

subsection \<open>Properties\<close>

definition pointing_at :: "addr \<Rightarrow> 'v shared_heap \<Rightarrow> var set" where
  "pointing_at a h = {y. \<exists>t. sh_vars h y = Some t \<and> sp_ptr t = Some a}"

lemma pointing_at_sharers:
  assumes ok: "shares h V" and x: "V x = Some (Some (a, c))"
  shows "pointing_at a h = sharers V c"
proof -
  have "sp_ptr (sp_of p) = Some a \<longleftrightarrow> (\<exists>d. p = Some (a, d))" for p by (cases p) (auto simp: sp_of_def)
  then have "pointing_at a h = {y. \<exists>d. V y = Some (Some (a, d))}"
    using sharesD(1) [OF ok] by (auto simp: pointing_at_def)
  also have "\<dots> = sharers V c" using shared_invD(6) [OF sharesD(2) [OF ok] x] by (auto simp: sharers_def)
  finally show ?thesis .
qed

lemma use_count_sharers:
  assumes ok: "shares h V" and x: "V x = Some (Some (a, c))"
  shows "\<exists>n. SharedPtr_use_count x h = Inr n \<and> unat n = card (sharers V c) \<and> (n = 1 \<longleftrightarrow> sharers V c = {x})"
proof -
  from inv_held [OF sharesD(2) [OF ok] x] obtain n where n: "sh_ctrls h c = Some n" by auto
  then have "SharedPtr_use_count x h = Inr n"
    by (simp add: SharedPtr_use_count_def sp_at_shares [OF ok x] ControlBlock_ref_count_def ctrl_at_def Atomic_load_def)
  then show ?thesis
    using inv_counts [OF sharesD(2) [OF ok] n] inv_leave_one(2) [OF sharesD(2) [OF ok] x n] by blast
qed

lemma shares_pointer:
  assumes ok: "shares h V" and x: "sh_vars h x = Some s"
  obtains p where "V x = Some p" and "s = sp_of p"
  using assms sharesD(1) [OF ok, of x] by auto

text \<open>C13: the use count of a \<open>SharedPtr\<close> is the number of \<open>SharedPtr\<close>s that point at its object, in
  every reachable heap, and 0 for an empty one; the object is alive, and destroying the \<open>SharedPtr\<close>
  succeeds and deletes the object exactly if no other points at it.\<close>

theorem SharedPtr_use_count_exact:
  assumes "shared_reachable h" and "sh_vars h x = Some s"
  shows "(\<forall>a. sp_ptr s = Some a \<longrightarrow> (\<exists>v. SharedPtr_deref x h = Inr v) \<and>
      (\<exists>n. SharedPtr_use_count x h = Inr n \<and> unat n = card (pointing_at a h))) \<and>
    (sp_ptr s = None \<longrightarrow> SharedPtr_use_count x h = Inr 0) \<and>
    (\<exists>h'. SharedPtr_destroy x h = Inr h' \<and>
      sh_objects h' = sh_objects h |` (- {a. sp_ptr s = Some a \<and> pointing_at a h = {x}}))"
proof -
  from shared_reachable_ok [OF assms(1)] obtain V where ok: "shares h V" by blast
  obtain p where p: "V x = Some p" "s = sp_of p" using ok assms(2) by (rule shares_pointer)
  note at = sp_at_shares [OF ok p(1)]
  have gone: "{a. \<exists>c. V x = Some (Some (a, c)) \<and> sharers V c = {x}} = {a. sp_ptr s = Some a \<and> pointing_at a h = {x}}"
    using p pointing_at_sharers [OF ok, of x] by (cases p) auto
  show ?thesis
  proof (cases p)
    case None
    with SharedPtr_destroy_ok [OF ok p(1)] gone p at show ?thesis by (auto simp: SharedPtr_use_count_def)
  next
    case (Some ac)
    then obtain a c where x: "V x = Some (Some (a, c))" and s: "sp_ptr s = Some a" using p by (cases ac) auto
    from inv_held [OF sharesD(2) [OF ok] x] obtain v where "sh_objects h a = Some v" by auto
    then have "SharedPtr_deref x h = Inr v"
      using sp_at_shares [OF ok x] by (simp add: SharedPtr_deref_def)
    with use_count_sharers [OF ok x] pointing_at_sharers [OF ok x] SharedPtr_destroy_ok [OF ok p(1)] gone s
    show ?thesis by auto
  qed
qed

text \<open>C14: exactly when copy assignment is defined. \<open>x = r\<close> is undefined behaviour if \<open>r\<close> is empty
  (the control block is dereferenced without a test), and if \<open>x\<close> and \<open>r\<close> are the same variable and
  it holds the last reference (the block is used after it was deleted); in every other case of a
  reachable heap it succeeds and makes \<open>x\<close> point at the object of \<open>r\<close>.\<close>

theorem SharedPtr_copy_assign_defined_iff:
  assumes "shared_reachable h" and "sh_vars h x = Some s" and "sh_vars h r = Some t"
    and "card (dom (sh_vars h)) + 1 < 2 ^ 64"
  shows "if sp_ptr t = None \<or> x = r \<and> SharedPtr_use_count x h = Inr 1
    then SharedPtr_copy_assign x r h = Inl Undefined_Behaviour
    else \<exists>h'. SharedPtr_copy_assign x r h = Inr h' \<and> sh_vars h' = (sh_vars h)(x \<mapsto> t)"
proof -
  from shared_reachable_ok [OF assms(1)] obtain V where ok: "shares h V" by blast
  obtain p where p: "V x = Some p" "s = sp_of p" using ok assms(2) by (rule shares_pointer)
  obtain q where q: "V r = Some q" "t = sp_of q" using ok assms(3) by (rule shares_pointer)
  have m: "sroom V" using assms(4) shares_dom [OF ok] by simp
  have vars: "sh_vars h' = (sh_vars h)(x \<mapsto> t)" if "shares h' (V(x \<mapsto> q))" for h'
    using sharesD(1) [OF that] sharesD(1) [OF ok] q(2) by (auto simp: fun_eq_iff)
  have null: "sp_ptr t = None \<longleftrightarrow> q = None" using q(2) by simp
  show ?thesis
  proof (cases q)
    case None
    with SharedPtr_copy_assign_fault [OF ok p(1) q(1)] null show ?thesis by auto
  next
    case (Some bd)
    then obtain b d where bd: "q = Some (b, d)" by (cases bd) auto
    have count: "SharedPtr_use_count x h = Inr 1 \<longleftrightarrow> sharers V d = {x}" if "x = r"
      using use_count_sharers [OF ok, of x b d] that q bd by auto
    show ?thesis
      using SharedPtr_copy_assign_fault [OF ok p(1) q(1)] SharedPtr_copy_assign_ok [OF ok p(1) q(1) [unfolded bd] m]
        count bd null vars by auto
  qed
qed

subsection \<open>Witnesses\<close>

definition sample_shared :: "nat shared_heap" where
  "sample_shared = \<lparr>sh_objects = [0 \<mapsto> 9], sh_ctrls = [1 \<mapsto> 1],
     sh_vars = [5 \<mapsto> \<lparr>sp_ptr = Some 0, sp_ctrl = Some 1\<rparr>], sh_next = 2\<rparr>"

lemma sample_shared_reachable: "shared_reachable sample_shared"
proof -
  have "shared_step (no_shared :: nat shared_heap) (MakeShared 5 9 no_shared)"
    by (rule shared_step.make) (simp add: no_shared_def in_use_def)
  moreover have "MakeShared 5 9 no_shared = sample_shared"
    by (simp add: MakeShared_def SharedPtr_of_def Let_def no_shared_def set_sp_def ControlBlock_new_def
      Atomic_new_def sample_shared_def)
  ultimately show ?thesis using shared_reachable.start shared_reachable.step by metis
qed

lemma sample_shared_var: "sh_vars sample_shared 5 = Some \<lparr>sp_ptr = Some 0, sp_ctrl = Some 1\<rparr>"
  by (simp add: sample_shared_def)

theorem SharedPtr_use_count_exact_witness:
  "\<exists>n. SharedPtr_use_count 5 sample_shared = Inr n \<and> unat n = 1"
proof -
  have "pointing_at 0 sample_shared = {5}" by (auto simp: pointing_at_def sample_shared_def split: if_splits)
  with SharedPtr_use_count_exact [OF sample_shared_reachable sample_shared_var] show ?thesis by auto
qed

theorem SharedPtr_copy_assign_defined_iff_witness:
  "SharedPtr_copy_assign 5 5 sample_shared = Inl Undefined_Behaviour"
proof -
  have "SharedPtr_use_count 5 sample_shared = Inr 1"
    by (simp add: SharedPtr_use_count_def sp_at_def sample_shared_def ControlBlock_ref_count_def ctrl_at_def
      Atomic_load_def)
  moreover have "card (dom (sh_vars sample_shared)) + 1 < 2 ^ 64" by (simp add: sample_shared_def)
  ultimately show ?thesis
    using SharedPtr_copy_assign_defined_iff [OF sample_shared_reachable sample_shared_var sample_shared_var] by simp
qed

end
