(* ===== verification/Waitable_Events.thy ===== *)
theory Waitable_Events
  imports Time_Points
begin

section \<open>Waitable events\<close>

text \<open>
  \<open>app/src/main/cpp/synchronization/waitable_event.{h,cc}\<close>. Every operation holds the event's mutex
  except while it is inside \<open>cv_.wait\<close> or \<open>cv_.wait_for\<close>, so it is a sequence of atomic segments: one
  from its start to its first wait and one from each wake-up to the next wait or the return. A
  segment is a function of the event; what it does next is its \<open>progress\<close>. The systems below
  interleave the segments of any number of threads. A wait can end without a notification, and
  \<open>wait_for\<close> answers \<open>timeout\<close> only when the time it was given has expired, which may be so for a
  notified thread as well: the C++ standard asks no more.
\<close>

subsection \<open>Segments\<close>

datatype ('w, 'r) progress = Blocks 'w | Returns 'r

datatype cv_status = no_timeout | timeout

record timed_wait =
  tw_timeout :: TimeDelta
  tw_start :: TimePoint
  tw_remaining :: TimeDelta

text \<open>\<open>WaitWithTimeoutImpl\<close>, whose caller owns the lock, with the value of \<open>condition()\<close>: up to the
  first \<open>wait_for\<close>, and from its return to the next.\<close>

definition WaitWithTimeoutImpl_enter :: "bool \<Rightarrow> TimeDelta \<Rightarrow> TimePoint \<Rightarrow> (timed_wait, bool) progress" where
  "WaitWithTimeoutImpl_enter cond d now =
     (if cond then Returns False else Blocks \<lparr>tw_timeout = d, tw_start = now, tw_remaining = d\<rparr>)"

definition WaitWithTimeoutImpl_wake ::
  "bool \<Rightarrow> cv_status \<Rightarrow> TimePoint \<Rightarrow> timed_wait \<Rightarrow> (timed_wait, bool) progress outcome" where
  "WaitWithTimeoutImpl_wake cond status now w =
     (if status = timeout then Inr (Returns True)
      else if cond then Inr (Returns False)
      else
        obind (check (now \<ge> tw_start w)) (\<lambda>_.
        obind (TimePoint_diff now (tw_start w)) (\<lambda>elapsed.
        if elapsed \<ge> tw_timeout w then Inr (Returns True)
        else obind (TimeDelta_minus (tw_timeout w) elapsed) (\<lambda>r. Inr (Blocks (w\<lparr>tw_remaining := r\<rparr>))))))"

subsection \<open>AutoResetWaitableEvent\<close>

record AutoResetWaitableEvent =
  ae_signaled :: bool

definition AutoResetWaitableEvent_new :: AutoResetWaitableEvent where
  "AutoResetWaitableEvent_new = \<lparr>ae_signaled = False\<rparr>"

text \<open>The notification of \<open>Signal\<close> is a part of the step of the system.\<close>

definition AutoReset_Signal :: "AutoResetWaitableEvent \<Rightarrow> AutoResetWaitableEvent" where
  "AutoReset_Signal e = e\<lparr>ae_signaled := True\<rparr>"

definition AutoReset_Reset :: "AutoResetWaitableEvent \<Rightarrow> AutoResetWaitableEvent" where
  "AutoReset_Reset e = e\<lparr>ae_signaled := False\<rparr>"

text \<open>One turn of the loop of \<open>Wait\<close>: from the start, and from each wake-up.\<close>

definition AutoReset_Wait :: "AutoResetWaitableEvent \<Rightarrow> AutoResetWaitableEvent \<times> (unit, unit) progress" where
  "AutoReset_Wait e = (if \<not> ae_signaled e then (e, Blocks ()) else (e\<lparr>ae_signaled := False\<rparr>, Returns ()))"

definition AutoReset_WaitWithTimeout_enter ::
  "TimeDelta \<Rightarrow> TimePoint \<Rightarrow> AutoResetWaitableEvent \<Rightarrow> AutoResetWaitableEvent \<times> (timed_wait, bool) progress" where
  "AutoReset_WaitWithTimeout_enter d now e =
     (if ae_signaled e then (e\<lparr>ae_signaled := False\<rparr>, Returns False)
      else (e, Blocks \<lparr>tw_timeout = d, tw_start = now, tw_remaining = d\<rparr>))"

definition AutoReset_WaitWithTimeout_wake ::
  "cv_status \<Rightarrow> TimePoint \<Rightarrow> timed_wait \<Rightarrow> AutoResetWaitableEvent \<Rightarrow>
   (AutoResetWaitableEvent \<times> (timed_wait, bool) progress) outcome" where
  "AutoReset_WaitWithTimeout_wake status now w e =
     (if status = timeout then Inr (e, Returns True)
      else if ae_signaled e then Inr (e\<lparr>ae_signaled := False\<rparr>, Returns False)
      else
        obind (check (now \<ge> tw_start w)) (\<lambda>_.
        obind (TimePoint_diff now (tw_start w)) (\<lambda>elapsed.
        if elapsed \<ge> tw_timeout w then Inr (e, Returns True)
        else obind (TimeDelta_minus (tw_timeout w) elapsed) (\<lambda>r. Inr (e, Blocks (w\<lparr>tw_remaining := r\<rparr>))))))"

definition AutoReset_IsSignaledForTest :: "AutoResetWaitableEvent \<Rightarrow> bool" where
  "AutoReset_IsSignaledForTest e = ae_signaled e"

subsection \<open>ManualResetWaitableEvent\<close>

record ManualResetWaitableEvent =
  me_signaled :: bool
  me_signal_id :: "32 word"

definition ManualResetWaitableEvent_new :: ManualResetWaitableEvent where
  "ManualResetWaitableEvent_new = \<lparr>me_signaled = False, me_signal_id = 0\<rparr>"

definition ManualReset_Signal :: "ManualResetWaitableEvent \<Rightarrow> ManualResetWaitableEvent" where
  "ManualReset_Signal e = e\<lparr>me_signaled := True, me_signal_id := me_signal_id e + 1\<rparr>"

definition ManualReset_Reset :: "ManualResetWaitableEvent \<Rightarrow> ManualResetWaitableEvent" where
  "ManualReset_Reset e = e\<lparr>me_signaled := False\<rparr>"

text \<open>A thread that waits remembers \<open>last_signal_id\<close>.\<close>

definition ManualReset_Wait_enter :: "ManualResetWaitableEvent \<Rightarrow> (32 word, unit) progress" where
  "ManualReset_Wait_enter e = (if me_signaled e then Returns () else Blocks (me_signal_id e))"

definition ManualReset_Wait_wake :: "32 word \<Rightarrow> ManualResetWaitableEvent \<Rightarrow> (32 word, unit) progress" where
  "ManualReset_Wait_wake last_id e = (if me_signal_id e = last_id then Blocks last_id else Returns ())"

definition signaled_since :: "32 word \<Rightarrow> ManualResetWaitableEvent \<Rightarrow> bool" where
  "signaled_since last_id e \<longleftrightarrow> me_signaled e \<or> me_signal_id e \<noteq> last_id"

text \<open>The check after \<open>WaitWithTimeoutImpl\<close> has returned.\<close>

definition checked_return :: "32 word \<Rightarrow> ManualResetWaitableEvent \<Rightarrow> (timed_wait, bool) progress \<Rightarrow>
    (32 word \<times> timed_wait, bool) progress outcome" where
  "checked_return last_id e p =
     (case p of
        Blocks w \<Rightarrow> Inr (Blocks (last_id, w))
      | Returns rv \<Rightarrow> obind (check (rv \<or> me_signaled e \<or> me_signal_id e \<noteq> last_id)) (\<lambda>_. Inr (Returns rv)))"

definition ManualReset_WaitWithTimeout_enter ::
  "TimeDelta \<Rightarrow> TimePoint \<Rightarrow> ManualResetWaitableEvent \<Rightarrow> (32 word \<times> timed_wait, bool) progress outcome" where
  "ManualReset_WaitWithTimeout_enter d now e =
     (let last_id = me_signal_id e
      in checked_return last_id e (WaitWithTimeoutImpl_enter (signaled_since last_id e) d now))"

definition ManualReset_WaitWithTimeout_wake ::
  "cv_status \<Rightarrow> TimePoint \<Rightarrow> 32 word \<times> timed_wait \<Rightarrow> ManualResetWaitableEvent \<Rightarrow>
   (32 word \<times> timed_wait, bool) progress outcome" where
  "ManualReset_WaitWithTimeout_wake status now lw e =
     (case lw of (last_id, w) \<Rightarrow>
        obind (WaitWithTimeoutImpl_wake (signaled_since last_id e) status now w) (checked_return last_id e))"

definition ManualReset_IsSignaledForTest :: "ManualResetWaitableEvent \<Rightarrow> bool" where
  "ManualReset_IsSignaledForTest e = me_signaled e"

subsection \<open>The timed loop\<close>

text \<open>The auto-reset event writes the loop out; it is \<open>WaitWithTimeoutImpl\<close> with the condition
  \<open>signaled_\<close>, which it then clears.\<close>

definition clear_on_success ::
  "AutoResetWaitableEvent \<Rightarrow> (timed_wait, bool) progress \<Rightarrow> AutoResetWaitableEvent \<times> (timed_wait, bool) progress" where
  "clear_on_success e p = (if p = Returns False then e\<lparr>ae_signaled := False\<rparr> else e, p)"

lemma AutoReset_wake_Impl:
  "AutoReset_WaitWithTimeout_wake status now w e =
     obind (WaitWithTimeoutImpl_wake (ae_signaled e) status now w) (\<lambda>p. Inr (clear_on_success e p))"
  by (auto simp: AutoReset_WaitWithTimeout_wake_def WaitWithTimeoutImpl_wake_def clear_on_success_def obind_def
      split: sum.splits)

lemma AutoReset_enter_Impl:
  "AutoReset_WaitWithTimeout_enter d now e =
     clear_on_success e (WaitWithTimeoutImpl_enter (ae_signaled e) d now)"
  by (simp add: AutoReset_WaitWithTimeout_enter_def WaitWithTimeoutImpl_enter_def clear_on_success_def)

text \<open>The whole call against what its waits see: for each wake-up the status, the clock and the
  condition. \<open>None\<close> is a call that is still waiting when the list ends.\<close>

fun timed_loop :: "timed_wait \<Rightarrow> (cv_status \<times> TimePoint \<times> bool) list \<Rightarrow> bool option outcome" where
  "timed_loop w [] = Inr None"
| "timed_loop w ((status, now, cond) # ws) =
     obind (WaitWithTimeoutImpl_wake cond status now w) (\<lambda>p.
     case p of Returns r \<Rightarrow> Inr (Some r) | Blocks w' \<Rightarrow> timed_loop w' ws)"

definition WaitWithTimeoutImpl ::
  "bool \<Rightarrow> TimeDelta \<Rightarrow> TimePoint \<Rightarrow> (cv_status \<times> TimePoint \<times> bool) list \<Rightarrow> bool option outcome" where
  "WaitWithTimeoutImpl cond d now ws =
     (case WaitWithTimeoutImpl_enter cond d now of Returns r \<Rightarrow> Inr (Some r) | Blocks w \<Rightarrow> timed_loop w ws)"

text \<open>A wake-up that ends the wait of a call that began at \<open>start\<close>.\<close>

definition decisive :: "TimeDelta \<Rightarrow> TimePoint \<Rightarrow> cv_status \<times> TimePoint \<times> bool \<Rightarrow> bool" where
  "decisive d start wake = (case wake of (status, now, cond) \<Rightarrow> status = timeout \<or> cond \<or> now - start \<ge> d)"

definition timed_out :: "cv_status \<times> TimePoint \<times> bool \<Rightarrow> bool" where
  "timed_out wake = (case wake of (status, now, cond) \<Rightarrow> status = timeout \<or> \<not> cond)"

lemma wake_cases:
  assumes "is_int64 (tw_timeout w)" and "tw_start w \<le> now" and "0 \<le> tw_start w" and "is_int64 now"
  shows "WaitWithTimeoutImpl_wake cond status now w =
    Inr (if decisive (tw_timeout w) (tw_start w) (status, now, cond) then Returns (timed_out (status, now, cond))
         else Blocks (w\<lparr>tw_remaining := tw_timeout w - (now - tw_start w)\<rparr>))"
proof -
  have "is_int64 (now - tw_start w)" using assms by (simp add: is_int64_def INT64_MIN_def INT64_MAX_def)
  moreover have "is_int64 (tw_timeout w - (now - tw_start w))" if "\<not> now - tw_start w \<ge> tw_timeout w"
    using that assms by (simp add: is_int64_def INT64_MIN_def INT64_MAX_def)
  ultimately show ?thesis
    using assms(2) by (auto simp: WaitWithTimeoutImpl_wake_def decisive_def timed_out_def TimePoint_diff_def
      TimeDelta_minus_def FromNanoseconds_def int64_def)
qed

lemma timed_loop_outcome:
  assumes "is_int64 (tw_timeout w)" and "0 \<le> tw_start w"
    and "\<forall>(status, now, cond) \<in> set ws. tw_start w \<le> now \<and> is_int64 now"
  shows "timed_loop w ws =
    Inr (map_option timed_out (find (decisive (tw_timeout w) (tw_start w)) ws))"
  using assms
proof (induction ws arbitrary: w)
  case (Cons wake ws)
  obtain status now cond where wake: "wake = (status, now, cond)" by (cases wake)
  with Cons.prems have "tw_start w \<le> now" "is_int64 now" by auto
  note c = wake_cases [OF Cons.prems(1) this(1) Cons.prems(2) this(2)]
  show ?case
    using Cons.IH [of "w\<lparr>tw_remaining := tw_timeout w - (now - tw_start w)\<rparr>"] Cons.prems
    by (simp add: wake c)
qed simp

text \<open>The outcome of a timed wait. With a clock that does not run backwards it never fails a check
  or overflows; it returns at once if the condition holds, and otherwise at the first wake-up that
  is a time-out, sees the condition, or comes when the time has passed, answering whether it timed
  out; it returns as soon as there is such a wake-up. The condition is not looked at on a time-out.\<close>

theorem timed_wait_outcome:
  assumes "is_int64 d" and "0 \<le> start"
    and "\<forall>(status, now, cond) \<in> set ws. start \<le> now \<and> is_int64 now"
  shows "WaitWithTimeoutImpl cond d start ws =
    Inr (if cond then Some False else map_option timed_out (find (decisive d start) ws))"
  using timed_loop_outcome [of "\<lparr>tw_timeout = d, tw_start = start, tw_remaining = d\<rparr>" ws] assms
  by (simp add: WaitWithTimeoutImpl_def WaitWithTimeoutImpl_enter_def)

theorem timed_wait_outcome_witness:
  "WaitWithTimeoutImpl False 10 0 [(no_timeout, 4, False), (no_timeout, 12, False)] = Inr (Some True)"
proof -
  have "is_int64 10" "is_int64 4" "is_int64 12" by (simp_all add: is_int64_def INT64_MIN_def INT64_MAX_def)
  then show ?thesis
    using timed_wait_outcome [of 10 0 "[(no_timeout, 4, False), (no_timeout, 12, False)]" False]
    by (simp add: decisive_def timed_out_def)
qed

subsection \<open>Threads on an auto-reset event\<close>

text \<open>A thread is not in a call, blocked in a wait, or awake and about to take the mutex again; a
  timed wait is marked by its data. \<open>au_signals\<close> and \<open>au_taken\<close> count the calls of \<open>Signal\<close> and the
  waits that returned because of one.\<close>

datatype auto_pc = Idle | Blocked "timed_wait option" | Awake "timed_wait option"

record auto_sys =
  au_event :: AutoResetWaitableEvent
  au_pc :: "nat \<Rightarrow> auto_pc"
  au_signals :: nat
  au_taken :: nat

definition auto_start :: auto_sys where
  "auto_start = \<lparr>au_event = AutoResetWaitableEvent_new, au_pc = (\<lambda>_. Idle), au_signals = 0, au_taken = 0\<rparr>"

text \<open>After a segment of an untimed and of a timed wait.\<close>

definition after_wait :: "nat \<Rightarrow> AutoResetWaitableEvent \<times> (unit, unit) progress \<Rightarrow> auto_sys \<Rightarrow> auto_sys" where
  "after_wait t ep s =
     (case snd ep of
        Blocks _ \<Rightarrow> s\<lparr>au_event := fst ep, au_pc := (au_pc s)(t := Blocked None)\<rparr>
      | Returns _ \<Rightarrow> s\<lparr>au_event := fst ep, au_pc := (au_pc s)(t := Idle), au_taken := au_taken s + 1\<rparr>)"

definition after_timed :: "nat \<Rightarrow> AutoResetWaitableEvent \<times> (timed_wait, bool) progress \<Rightarrow> auto_sys \<Rightarrow> auto_sys" where
  "after_timed t ep s =
     (case snd ep of
        Blocks w \<Rightarrow> s\<lparr>au_event := fst ep, au_pc := (au_pc s)(t := Blocked (Some w))\<rparr>
      | Returns r \<Rightarrow> s\<lparr>au_event := fst ep, au_pc := (au_pc s)(t := Idle),
                       au_taken := au_taken s + (if r then 0 else 1)\<rparr>)"

text \<open>The flag says whether timed waits are used.\<close>

inductive auto_step :: "bool \<Rightarrow> auto_sys \<Rightarrow> auto_sys \<Rightarrow> bool" for timed where
  signal_nobody: "(\<And>t w. au_pc s t \<noteq> Blocked w) \<Longrightarrow>
    auto_step timed s (s\<lparr>au_event := AutoReset_Signal (au_event s), au_signals := au_signals s + 1\<rparr>)"
| signal_one: "au_pc s t = Blocked w \<Longrightarrow>
    auto_step timed s (s\<lparr>au_event := AutoReset_Signal (au_event s), au_pc := (au_pc s)(t := Awake w),
      au_signals := au_signals s + 1\<rparr>)"
| reset: "auto_step timed s (s\<lparr>au_event := AutoReset_Reset (au_event s)\<rparr>)"
| wait: "au_pc s t = Idle \<or> au_pc s t = Awake None \<Longrightarrow>
    auto_step timed s (after_wait t (AutoReset_Wait (au_event s)) s)"
| unnotified: "au_pc s t = Blocked w \<Longrightarrow> auto_step timed s (s\<lparr>au_pc := (au_pc s)(t := Awake w)\<rparr>)"
| timed_wait: "timed \<Longrightarrow> au_pc s t = Idle \<Longrightarrow>
    auto_step timed s (after_timed t (AutoReset_WaitWithTimeout_enter d now (au_event s)) s)"
| timed_resume: "timed \<Longrightarrow> au_pc s t = Awake (Some w) \<Longrightarrow>
    (status = timeout \<longrightarrow> tw_start w + tw_timeout w \<le> now) \<Longrightarrow>
    AutoReset_WaitWithTimeout_wake status now w (au_event s) = Inr ep \<Longrightarrow> auto_step timed s (after_timed t ep s)"

inductive auto_reachable :: "bool \<Rightarrow> auto_sys \<Rightarrow> bool" for timed where
  start: "auto_reachable timed auto_start"
| step: "auto_reachable timed s \<Longrightarrow> auto_step timed s s' \<Longrightarrow> auto_reachable timed s'"

lemmas auto_defs = AutoReset_Signal_def AutoReset_Reset_def AutoReset_Wait_def AutoReset_WaitWithTimeout_enter_def
  after_wait_def after_timed_def

definition pending :: "auto_sys \<Rightarrow> nat" where
  "pending s = (if ae_signaled (au_event s) then 1 else 0)"

lemma wake_accounts:
  assumes "AutoReset_WaitWithTimeout_wake status now w e = Inr ep"
  shows "fst ep = (if snd ep = Returns False then e\<lparr>ae_signaled := False\<rparr> else e) \<and>
    (snd ep = Returns False \<longrightarrow> ae_signaled e)"
  using assms unfolding AutoReset_wake_Impl
  by (auto simp: obind_eq_Inr clear_on_success_def WaitWithTimeoutImpl_wake_def split: if_splits)

lemma after_timed_accounts:
  assumes "fst ep = (if snd ep = Returns False then (au_event s)\<lparr>ae_signaled := False\<rparr> else au_event s)"
    and "snd ep = Returns False \<Longrightarrow> ae_signaled (au_event s)"
  shows "au_taken (after_timed t ep s) + pending (after_timed t ep s) = au_taken s + pending s \<and>
    au_signals (after_timed t ep s) = au_signals s"
  using assms by (cases "snd ep") (auto simp: after_timed_def pending_def split: bool.splits)

lemma auto_step_counts:
  "auto_step timed s s' \<Longrightarrow> au_taken s + pending s \<le> au_signals s \<Longrightarrow> au_taken s' + pending s' \<le> au_signals s'"
proof (induction rule: auto_step.induct)
  case (wait s t)
  then show ?case by (auto simp: auto_defs pending_def)
next
  case (timed_wait s t d now)
  then show ?case by (auto simp: auto_defs pending_def)
next
  case (timed_resume s t w status now ep)
  from after_timed_accounts [of ep s t] wake_accounts [OF timed_resume(4)] timed_resume(5) show ?case by auto
qed (auto simp: auto_defs pending_def)

lemma auto_reachable_counts: "auto_reachable timed s \<Longrightarrow> au_taken s + pending s \<le> au_signals s"
  by (induction rule: auto_reachable.induct)
    (simp add: auto_start_def pending_def AutoResetWaitableEvent_new_def, rule auto_step_counts)

text \<open>Without timed waits, a pending signal leaves nobody asleep: the event is taken, or a thread is
  awake that will take it.\<close>

definition nobody_forgotten :: "auto_sys \<Rightarrow> bool" where
  "nobody_forgotten s \<longleftrightarrow>
     (ae_signaled (au_event s) \<longrightarrow> (\<exists>t. au_pc s t = Blocked None) \<longrightarrow> (\<exists>t. au_pc s t = Awake None)) \<and>
     (\<forall>t w. au_pc s t = Blocked w \<or> au_pc s t = Awake w \<longrightarrow> w = None)"

lemma auto_step_nobody: "auto_step False s s' \<Longrightarrow> nobody_forgotten s \<Longrightarrow> nobody_forgotten s'"
proof (induction rule: auto_step.induct)
  case (wait s t)
  then show ?case by (cases "ae_signaled (au_event s)") (auto simp: auto_defs nobody_forgotten_def split: if_splits)
qed (auto simp: auto_defs nobody_forgotten_def split: if_splits)

lemma auto_reachable_nobody: "auto_reachable False s \<Longrightarrow> nobody_forgotten s"
proof (induction rule: auto_reachable.induct)
  case start show ?case by (simp add: auto_start_def nobody_forgotten_def)
next
  case (step s s') show ?case using step(2,3) by (rule auto_step_nobody)
qed

text \<open>C16: an auto-reset event lets at most one wait through per signal. Whatever the threads do, timed
  waits, resets and spurious wake-ups included, the waits that returned because of a signal, and the
  signal still pending, are no more than the calls of \<open>Signal\<close>; and a wait that begins or resumes
  while a signal is pending takes it. Without timed waits no wake-up is lost: if a signal is pending
  while a thread is blocked, a thread is awake that has not run yet.\<close>

theorem auto_event_signals:
  assumes "auto_reachable timed s"
  shows "au_taken s + (if AutoReset_IsSignaledForTest (au_event s) then 1 else 0) \<le> au_signals s \<and>
    (ae_signaled (au_event s) \<longrightarrow>
      AutoReset_Wait (au_event s) = ((au_event s)\<lparr>ae_signaled := False\<rparr>, Returns ())) \<and>
    (\<not> timed \<longrightarrow> ae_signaled (au_event s) \<longrightarrow> au_pc s t = Blocked None \<longrightarrow> (\<exists>u. au_pc s u = Awake None))"
proof -
  have "\<not> timed \<longrightarrow> nobody_forgotten s" using auto_reachable_nobody assms by (cases timed) auto
  then show ?thesis
    using auto_reachable_counts [OF assms]
    by (auto simp: pending_def AutoReset_IsSignaledForTest_def AutoReset_Wait_def nobody_forgotten_def)
qed

text \<open>Two threads wait, and the event is signaled once: thread 0 has been woken and has not run yet.\<close>

definition one_woken :: auto_sys where
  "one_woken =
     \<lparr>au_event = \<lparr>ae_signaled = True\<rparr>, au_pc = (\<lambda>_. Idle)(0 := Awake None, 1 := Blocked None), au_signals = 1, au_taken = 0\<rparr>"

lemma reachable_one_woken: "auto_reachable False one_woken"
proof -
  let ?s1 = "auto_start\<lparr>au_pc := (\<lambda>_. Idle)(0 := Blocked None)\<rparr>"
  let ?s2 = "auto_start\<lparr>au_pc := (\<lambda>_. Idle)(0 := Blocked None, 1 := Blocked None)\<rparr>"
  have "auto_step False auto_start ?s1"
    using auto_step.wait [of auto_start 0 False] by (simp add: auto_defs auto_start_def AutoResetWaitableEvent_new_def)
  moreover have "auto_step False ?s1 ?s2"
    using auto_step.wait [of ?s1 1 False] by (simp add: auto_defs auto_start_def AutoResetWaitableEvent_new_def)
  moreover have "auto_step False ?s2 one_woken"
    using auto_step.signal_one [of ?s2 0 None False]
    by (simp add: auto_defs auto_start_def AutoResetWaitableEvent_new_def one_woken_def fun_upd_twist)
  ultimately show ?thesis by (meson auto_reachable.intros)
qed

theorem auto_event_signals_witness:
  "ae_signaled (au_event one_woken) \<and> au_pc one_woken 1 = Blocked None \<and>
   au_taken one_woken + (if AutoReset_IsSignaledForTest (au_event one_woken) then 1 else 0) \<le> au_signals one_woken \<and>
   AutoReset_Wait (au_event one_woken) = ((au_event one_woken)\<lparr>ae_signaled := False\<rparr>, Returns ()) \<and>
   (\<exists>u. au_pc one_woken u = Awake None)"
  using auto_event_signals [OF reachable_one_woken, of 1] by (simp add: one_woken_def)

text \<open>Thread 0 waits with a timeout of 5 from time 0, thread 1 without one; thread 0 is notified.\<close>

definition lost_wake :: auto_sys where
  "lost_wake =
     \<lparr>au_event = \<lparr>ae_signaled = True\<rparr>, au_pc = (\<lambda>_. Idle)(1 := Blocked None), au_signals = 1, au_taken = 0\<rparr>"

text \<open>C17: a timed wait can swallow the notification of another thread. A run leads to a state in
  which the event is signaled, one thread is blocked in \<open>Wait\<close> and no thread is awake: the notified
  thread found its time expired and returned without looking at \<open>signaled_\<close>. Nothing but another
  signal, a spurious wake-up or a new wait changes that.\<close>

theorem timed_wait_loses_wakeup:
  "auto_reachable True lost_wake \<and> ae_signaled (au_event lost_wake) \<and>
    au_pc lost_wake = (\<lambda>_. Idle)(1 := Blocked None)"
proof -
  let ?w = "\<lparr>tw_timeout = 5, tw_start = 0, tw_remaining = 5\<rparr>"
  let ?s1 = "auto_start\<lparr>au_pc := (\<lambda>_. Idle)(0 := Blocked (Some ?w))\<rparr>"
  let ?s2 = "auto_start\<lparr>au_pc := (\<lambda>_. Idle)(0 := Blocked (Some ?w), 1 := Blocked None)\<rparr>"
  let ?s3 = "\<lparr>au_event = \<lparr>ae_signaled = True\<rparr>, au_pc = (\<lambda>_. Idle)(0 := Awake (Some ?w), 1 := Blocked None),
    au_signals = 1, au_taken = 0\<rparr>"
  have "auto_step True auto_start ?s1"
    using auto_step.timed_wait [of True auto_start 0 5 0]
    by (simp add: auto_defs auto_start_def AutoResetWaitableEvent_new_def)
  moreover have "auto_step True ?s1 ?s2"
    using auto_step.wait [of ?s1 1 True] by (simp add: auto_defs auto_start_def AutoResetWaitableEvent_new_def)
  moreover have "auto_step True ?s2 ?s3"
    using auto_step.signal_one [of ?s2 0 "Some ?w" True]
    by (simp add: auto_defs auto_start_def AutoResetWaitableEvent_new_def fun_upd_twist)
  moreover have "auto_step True ?s3 lost_wake"
    using auto_step.timed_resume [of True ?s3 0 ?w timeout 5 "(\<lparr>ae_signaled = True\<rparr>, Returns True)"]
    by (simp add: auto_defs lost_wake_def AutoReset_WaitWithTimeout_wake_def fun_upd_twist fun_upd_idem)
  ultimately have "auto_reachable True lost_wake" by (meson auto_reachable.intros)
  then show ?thesis by (simp add: lost_wake_def)
qed

subsection \<open>Threads on a manual-reset event\<close>

text \<open>\<open>ma_since t\<close> counts the calls of \<open>Signal\<close> since thread \<open>t\<close> began its wait.\<close>

datatype manual_pc = MIdle | MBlocked "32 word" "timed_wait option" | MAwake "32 word" "timed_wait option"

record manual_sys =
  ma_event :: ManualResetWaitableEvent
  ma_pc :: "nat \<Rightarrow> manual_pc"
  ma_since :: "nat \<Rightarrow> nat"

definition manual_start :: manual_sys where
  "manual_start = \<lparr>ma_event = ManualResetWaitableEvent_new, ma_pc = (\<lambda>_. MIdle), ma_since = (\<lambda>_. 0)\<rparr>"

text \<open>\<open>notify_all\<close>.\<close>

definition awaken :: "manual_pc \<Rightarrow> manual_pc" where
  "awaken pc = (case pc of MBlocked i w \<Rightarrow> MAwake i w | _ \<Rightarrow> pc)"

definition untimed_pc :: "(32 word, unit) progress \<Rightarrow> manual_pc" where
  "untimed_pc p = (case p of Blocks i \<Rightarrow> MBlocked i None | Returns _ \<Rightarrow> MIdle)"

definition timed_pc :: "(32 word \<times> timed_wait, bool) progress \<Rightarrow> manual_pc" where
  "timed_pc p = (case p of Blocks iw \<Rightarrow> MBlocked (fst iw) (Some (snd iw)) | Returns _ \<Rightarrow> MIdle)"

inductive manual_step :: "manual_sys \<Rightarrow> manual_sys \<Rightarrow> bool" where
  signal: "manual_step s (s\<lparr>ma_event := ManualReset_Signal (ma_event s), ma_pc := (\<lambda>t. awaken (ma_pc s t)),
    ma_since := (\<lambda>t. ma_since s t + 1)\<rparr>)"
| reset: "manual_step s (s\<lparr>ma_event := ManualReset_Reset (ma_event s)\<rparr>)"
| wait: "ma_pc s t = MIdle \<Longrightarrow>
    manual_step s (s\<lparr>ma_pc := (ma_pc s)(t := untimed_pc (ManualReset_Wait_enter (ma_event s))),
      ma_since := (ma_since s)(t := 0)\<rparr>)"
| timed_wait: "ma_pc s t = MIdle \<Longrightarrow> ManualReset_WaitWithTimeout_enter d now (ma_event s) = Inr p \<Longrightarrow>
    manual_step s (s\<lparr>ma_pc := (ma_pc s)(t := timed_pc p), ma_since := (ma_since s)(t := 0)\<rparr>)"
| unnotified: "ma_pc s t = MBlocked i w \<Longrightarrow> manual_step s (s\<lparr>ma_pc := (ma_pc s)(t := MAwake i w)\<rparr>)"
| resume: "ma_pc s t = MAwake i None \<Longrightarrow>
    manual_step s (s\<lparr>ma_pc := (ma_pc s)(t := untimed_pc (ManualReset_Wait_wake i (ma_event s)))\<rparr>)"
| timed_resume: "ma_pc s t = MAwake i (Some w) \<Longrightarrow>
    ManualReset_WaitWithTimeout_wake status now (i, w) (ma_event s) = Inr p \<Longrightarrow>
    manual_step s (s\<lparr>ma_pc := (ma_pc s)(t := timed_pc p)\<rparr>)"

inductive manual_reachable :: "manual_sys \<Rightarrow> bool" where
  start: "manual_reachable manual_start"
| step: "manual_reachable s \<Longrightarrow> manual_step s s' \<Longrightarrow> manual_reachable s'"

text \<open>What a thread in a wait remembers is the signal count when it began; it is blocked only if that
  count is the present one modulo \<open>2 ^ 32\<close>.\<close>

definition wait_ok :: "32 word \<Rightarrow> nat \<Rightarrow> manual_pc \<Rightarrow> bool" where
  "wait_ok now_id k pc =
     (case pc of
        MIdle \<Rightarrow> True
      | MBlocked i w \<Rightarrow> i = now_id - of_nat k \<and> i = now_id
      | MAwake i w \<Rightarrow> i = now_id - of_nat k)"

lemma wait_ok_idle [simp]: "wait_ok n k MIdle"
  by (simp add: wait_ok_def)

lemma timed_enter_pc:
  assumes "ManualReset_WaitWithTimeout_enter d now e = Inr p"
  shows "wait_ok (me_signal_id e) 0 (timed_pc p)"
  using assms
  by (auto simp: ManualReset_WaitWithTimeout_enter_def checked_return_def WaitWithTimeoutImpl_enter_def Let_def
      timed_pc_def wait_ok_def obind_eq_Inr split: if_splits progress.splits)

lemma Impl_wake_blocks:
  "WaitWithTimeoutImpl_wake cond status now w = Inr (Blocks w') \<Longrightarrow> \<not> cond"
  by (auto simp: WaitWithTimeoutImpl_wake_def split: if_splits)

lemma timed_wake_pc:
  assumes "ManualReset_WaitWithTimeout_wake status now (i, w) e = Inr p" and "i = me_signal_id e - of_nat k"
  shows "wait_ok (me_signal_id e) k (timed_pc p)"
proof -
  from assms(1) obtain q where q: "WaitWithTimeoutImpl_wake (signaled_since i e) status now w = Inr q"
    "checked_return i e q = Inr p" by (auto simp: ManualReset_WaitWithTimeout_wake_def obind_eq_Inr)
  show ?thesis
  proof (cases q)
    case (Blocks w')
    then have "i = me_signal_id e" using Impl_wake_blocks q(1) by (fastforce simp: signaled_since_def)
    with q(2) Blocks assms(2) show ?thesis by (auto simp: checked_return_def timed_pc_def wait_ok_def)
  next
    case (Returns r)
    with q(2) show ?thesis by (auto simp: checked_return_def timed_pc_def obind_eq_Inr)
  qed
qed

lemma awaken_ok: "wait_ok n k pc \<Longrightarrow> wait_ok (n + 1) (k + 1) (awaken pc)"
  by (auto simp: awaken_def wait_ok_def split: manual_pc.splits)

lemma manual_step_ok:
  "manual_step s s' \<Longrightarrow> (\<And>t. wait_ok (me_signal_id (ma_event s)) (ma_since s t) (ma_pc s t)) \<Longrightarrow>
    wait_ok (me_signal_id (ma_event s')) (ma_since s' t) (ma_pc s' t)"
proof (induction rule: manual_step.induct)
  case (signal s)
  then show ?case using awaken_ok [OF signal, of t] by (simp add: ManualReset_Signal_def)
next
  case (reset s) then show ?case by (simp add: ManualReset_Reset_def)
next
  case (wait s u)
  then show ?case
    by (cases "t = u") (auto simp: untimed_pc_def ManualReset_Wait_enter_def wait_ok_def)
next
  case (timed_wait s u d now p)
  then show ?case using timed_enter_pc [OF timed_wait(2)] by auto
next
  case (unnotified s u i w)
  then show ?case using unnotified(2) [of u] unnotified(2) [of t] by (auto simp: wait_ok_def)
next
  case (resume s u i)
  then have "i = me_signal_id (ma_event s) - of_nat (ma_since s u)"
    using resume(2) [of u] by (simp add: wait_ok_def)
  then have "wait_ok (me_signal_id (ma_event s)) (ma_since s u) (untimed_pc (ManualReset_Wait_wake i (ma_event s)))"
    by (simp add: untimed_pc_def ManualReset_Wait_wake_def wait_ok_def)
  with resume(2) [of t] show ?case by (cases "t = u") simp_all
next
  case (timed_resume s u i w status now p)
  have "i = me_signal_id (ma_event s) - of_nat (ma_since s u)"
    using timed_resume(1) timed_resume(3) [of u] by (simp add: wait_ok_def)
  from timed_wake_pc [OF timed_resume(2) this] timed_resume(3) [of t] show ?case by (cases "t = u") simp_all
qed

lemma manual_reachable_ok:
  "manual_reachable s \<Longrightarrow> wait_ok (me_signal_id (ma_event s)) (ma_since s t) (ma_pc s t)"
proof (induction arbitrary: t rule: manual_reachable.induct)
  case start show ?case by (simp add: manual_start_def)
next
  case (step s s') show ?case using step(2,3) by (rule manual_step_ok)
qed

lemma of_nat_32_eq_0: "(of_nat k :: 32 word) = 0 \<longleftrightarrow> 2 ^ 32 dvd k"
  by (simp add: word_of_nat_eq_0_iff)

text \<open>A manual-reset event releases every thread that waits when it is signaled, even if it is
  reset before the thread runs. In every reachable state a thread is blocked only if the number of
  signals since its wait began is a multiple of \<open>2 ^ 32\<close>, so not after a single one, and when it
  runs it returns exactly if that number is not such a multiple: it misses its signals only when
  \<open>2 ^ 32\<close> of them came before it ran.\<close>

theorem manual_event_releases_waiters:
  assumes "manual_reachable s"
  shows "(ma_pc s t = MBlocked i w \<longrightarrow> 2 ^ 32 dvd ma_since s t) \<and>
    (ma_pc s t = MAwake i None \<longrightarrow>
      ManualReset_Wait_wake i (ma_event s) = (if 2 ^ 32 dvd ma_since s t then Blocks i else Returns ()))"
  using manual_reachable_ok [OF assms, of t] of_nat_32_eq_0 [of "ma_since s t"]
  by (auto simp: wait_ok_def ManualReset_Wait_wake_def)

text \<open>A thread waits, the event is signaled and reset.\<close>

definition signaled_and_reset :: manual_sys where
  "signaled_and_reset = \<lparr>ma_event = \<lparr>me_signaled = False, me_signal_id = 1\<rparr>,
     ma_pc = (\<lambda>_. MIdle)(2 := MAwake 0 None), ma_since = (\<lambda>_. 1)\<rparr>"

lemma signaled_and_reset_reachable: "manual_reachable signaled_and_reset"
proof -
  let ?s1 = "manual_start\<lparr>ma_pc := (\<lambda>_. MIdle)(2 := MBlocked 0 None)\<rparr>"
  let ?s2 = "\<lparr>ma_event = \<lparr>me_signaled = True, me_signal_id = 1\<rparr>,
     ma_pc = (\<lambda>_. MIdle)(2 := MAwake 0 None), ma_since = (\<lambda>_. 1)\<rparr>"
  have "manual_step manual_start ?s1"
    using manual_step.wait [of manual_start 2]
    by (simp add: manual_start_def untimed_pc_def ManualReset_Wait_enter_def ManualResetWaitableEvent_new_def fun_upd_idem)
  moreover have "(\<lambda>t :: nat. awaken (((\<lambda>_. MIdle)(2 := MBlocked 0 None)) t)) = (\<lambda>_. MIdle)(2 := MAwake 0 None)"
    by (auto simp: awaken_def)
  then have "manual_step ?s1 ?s2"
    using manual_step.signal [of ?s1]
    by (simp add: manual_start_def ManualReset_Signal_def ManualResetWaitableEvent_new_def)
  moreover have "manual_step ?s2 signaled_and_reset"
    using manual_step.reset [of ?s2] by (simp add: signaled_and_reset_def ManualReset_Reset_def)
  ultimately show ?thesis by (meson manual_reachable.intros)
qed

theorem manual_event_releases_waiters_witness:
  "ManualReset_Wait_wake 0 (ma_event signaled_and_reset) = Returns ()"
  using manual_event_releases_waiters [OF signaled_and_reset_reachable, of 2 0 None]
  by (simp add: signaled_and_reset_def)

end
