(* ===== verification/Latches_And_Switches.thy ===== *)
theory Latches_And_Switches
  imports Waitable_Events
begin

section \<open>Latches, semaphores, shared locks and switches\<close>

text \<open>
  \<open>app/src/main/cpp/synchronization/count_down_latch.{h,cc}\<close>, \<open>semaphore.{h,cc}\<close>,
  \<open>shared_mutex.h\<close>, \<open>shared_mutex_std.{h,cc}\<close>, \<open>sync_switch.{h,cc}\<close>, \<open>atomic_object.h\<close> and
  \<open>app/src/main/cpp/closure.h\<close>. The POSIX semaphore and \<open>std::shared_timed_mutex\<close> are modelled by
  what their documentation promises: a counter with a maximum, and a lock held by any number of
  readers or one writer.
\<close>

subsection \<open>CountDownLatch\<close>

record CountDownLatch =
  cl_count :: "64 word"
  cl_event :: ManualResetWaitableEvent

definition CountDownLatch_new :: "64 word \<Rightarrow> CountDownLatch" where
  "CountDownLatch_new n =
     \<lparr>cl_count = n,
      cl_event = (if n = 0 then ManualReset_Signal ManualResetWaitableEvent_new else ManualResetWaitableEvent_new)\<rparr>"

definition CountDownLatch_Wait_enter :: "CountDownLatch \<Rightarrow> (32 word, unit) progress" where
  "CountDownLatch_Wait_enter l = ManualReset_Wait_enter (cl_event l)"

definition CountDownLatch_Wait_wake :: "32 word \<Rightarrow> CountDownLatch \<Rightarrow> (32 word, unit) progress" where
  "CountDownLatch_Wait_wake i l = ManualReset_Wait_wake i (cl_event l)"

text \<open>\<open>CountDown\<close> is two atomic steps: the decrement, whose result says whether to signal, and the
  signal.\<close>

definition CountDown_decrement :: "CountDownLatch \<Rightarrow> CountDownLatch \<times> bool" where
  "CountDown_decrement l = (let n = cl_count l - 1 in (l\<lparr>cl_count := n\<rparr>, n = 0))"

definition CountDown_signal :: "CountDownLatch \<Rightarrow> CountDownLatch" where
  "CountDown_signal l = l\<lparr>cl_event := ManualReset_Signal (cl_event l)\<rparr>"

text \<open>Threads on a latch: \<open>lt_pc\<close> says of each that waits what it remembers; \<open>lt_signalling\<close> counts the
  threads between the two steps of \<open>CountDown\<close>, \<open>lt_calls\<close> the decrements.\<close>

datatype latch_pc = LIdle | LBlocked "32 word" | LAwake "32 word" | LThrough

record latch_sys =
  lt_latch :: CountDownLatch
  lt_pc :: "nat \<Rightarrow> latch_pc"
  lt_signalling :: nat
  lt_calls :: nat

definition latch_start :: "64 word \<Rightarrow> latch_sys" where
  "latch_start n = \<lparr>lt_latch = CountDownLatch_new n, lt_pc = (\<lambda>_. LIdle), lt_signalling = 0, lt_calls = 0\<rparr>"

definition latch_pc_of :: "(32 word, unit) progress \<Rightarrow> latch_pc" where
  "latch_pc_of p = (case p of Blocks i \<Rightarrow> LBlocked i | Returns _ \<Rightarrow> LThrough)"

definition latch_awaken :: "latch_pc \<Rightarrow> latch_pc" where
  "latch_awaken pc = (case pc of LBlocked i \<Rightarrow> LAwake i | _ \<Rightarrow> pc)"

inductive latch_step :: "latch_sys \<Rightarrow> latch_sys \<Rightarrow> bool" where
  wait: "lt_pc s t = LIdle \<Longrightarrow>
    latch_step s (s\<lparr>lt_pc := (lt_pc s)(t := latch_pc_of (CountDownLatch_Wait_enter (lt_latch s)))\<rparr>)"
| unnotified: "lt_pc s t = LBlocked i \<Longrightarrow> latch_step s (s\<lparr>lt_pc := (lt_pc s)(t := LAwake i)\<rparr>)"
| resume: "lt_pc s t = LAwake i \<Longrightarrow>
    latch_step s (s\<lparr>lt_pc := (lt_pc s)(t := latch_pc_of (CountDownLatch_Wait_wake i (lt_latch s)))\<rparr>)"
| decrement: "CountDown_decrement (lt_latch s) = (l, zero) \<Longrightarrow>
    latch_step s (s\<lparr>lt_latch := l, lt_signalling := lt_signalling s + (if zero then 1 else 0), lt_calls := lt_calls s + 1\<rparr>)"
| signal: "lt_signalling s > 0 \<Longrightarrow>
    latch_step s (s\<lparr>lt_latch := CountDown_signal (lt_latch s), lt_pc := (\<lambda>t. latch_awaken (lt_pc s t)),
      lt_signalling := lt_signalling s - 1\<rparr>)"

inductive latch_reachable :: "64 word \<Rightarrow> latch_sys \<Rightarrow> bool" for n where
  start: "latch_reachable n (latch_start n)"
| step: "latch_reachable n s \<Longrightarrow> latch_step s s' \<Longrightarrow> latch_reachable n s'"

text \<open>While no more than \<open>n\<close> calls were made: the count is what is left; the event is signaled, once,
  when the last caller has signalled; until then every waiter remembers 0.\<close>

definition latch_ok :: "64 word \<Rightarrow> latch_sys \<Rightarrow> bool" where
  "latch_ok n s \<longleftrightarrow> (lt_calls s \<le> unat n \<longrightarrow>
     cl_count (lt_latch s) = n - of_nat (lt_calls s) \<and>
     (let e = cl_event (lt_latch s); opened = (lt_calls s = unat n \<and> lt_signalling s = 0) in
        me_signaled e = opened \<and> me_signal_id e = (if opened then 1 else 0) \<and>
        lt_signalling s \<le> (if lt_calls s = unat n \<and> 0 < n then 1 else 0) \<and>
        (\<forall>t. case lt_pc s t of
               LIdle \<Rightarrow> True
             | LBlocked i \<Rightarrow> i = 0 \<and> \<not> opened
             | LAwake i \<Rightarrow> i = 0
             | LThrough \<Rightarrow> opened)))"

lemma count_zero_iff: "k \<le> unat (n :: 64 word) \<Longrightarrow> n - of_nat k = 0 \<longleftrightarrow> k = unat n"
  using of_nat_inverse [of k n] unsigned_less [of n, where ?'a = nat] by auto

lemma latch_step_calls: "latch_step s s' \<Longrightarrow> lt_calls s \<le> lt_calls s'"
  by (induction rule: latch_step.induct) auto

lemma latch_start_ok: "latch_ok n (latch_start n)"
  by (auto simp: latch_ok_def latch_start_def CountDownLatch_new_def ManualReset_Signal_def
      ManualResetWaitableEvent_new_def Let_def unat_eq_0 word_neq_0_conv)

lemma latch_okD:
  assumes "latch_ok n s" and "lt_calls s \<le> unat n"
  shows "cl_count (lt_latch s) = n - of_nat (lt_calls s)"
    and "me_signaled (cl_event (lt_latch s)) \<longleftrightarrow> lt_calls s = unat n \<and> lt_signalling s = 0"
    and "me_signal_id (cl_event (lt_latch s)) = (if lt_calls s = unat n \<and> lt_signalling s = 0 then 1 else 0)"
    and "lt_signalling s \<le> (if lt_calls s = unat n \<and> 0 < n then 1 else 0)"
    and "lt_pc s t = LBlocked i \<Longrightarrow> i = 0 \<and> \<not> (lt_calls s = unat n \<and> lt_signalling s = 0)"
    and "lt_pc s t = LAwake i \<Longrightarrow> i = 0"
    and "lt_pc s t = LThrough \<Longrightarrow> lt_calls s = unat n \<and> lt_signalling s = 0"
proof -
  note D = assms(1) [unfolded latch_ok_def Let_def, rule_format, OF assms(2)]
  from D show "cl_count (lt_latch s) = n - of_nat (lt_calls s)"
    "me_signaled (cl_event (lt_latch s)) \<longleftrightarrow> lt_calls s = unat n \<and> lt_signalling s = 0"
    "me_signal_id (cl_event (lt_latch s)) = (if lt_calls s = unat n \<and> lt_signalling s = 0 then 1 else 0)"
    "lt_signalling s \<le> (if lt_calls s = unat n \<and> 0 < n then 1 else 0)" by simp_all
  from D have pc: "case lt_pc s t of LIdle \<Rightarrow> True
       | LBlocked i \<Rightarrow> i = 0 \<and> \<not> (lt_calls s = unat n \<and> lt_signalling s = 0)
       | LAwake i \<Rightarrow> i = 0 | LThrough \<Rightarrow> lt_calls s = unat n \<and> lt_signalling s = 0" by blast
  then show "lt_pc s t = LBlocked i \<Longrightarrow> i = 0 \<and> \<not> (lt_calls s = unat n \<and> lt_signalling s = 0)"
    "lt_pc s t = LAwake i \<Longrightarrow> i = 0" "lt_pc s t = LThrough \<Longrightarrow> lt_calls s = unat n \<and> lt_signalling s = 0"
    by simp_all
qed

text \<open>A step that leaves the latch as it is and moves one thread.\<close>

lemma latch_ok_pc:
  assumes "latch_ok n s"
    and "lt_calls s \<le> unat n \<Longrightarrow> (case pc of LIdle \<Rightarrow> True
       | LBlocked i \<Rightarrow> i = 0 \<and> \<not> (lt_calls s = unat n \<and> lt_signalling s = 0)
       | LAwake i \<Rightarrow> i = 0 | LThrough \<Rightarrow> lt_calls s = unat n \<and> lt_signalling s = 0)"
  shows "latch_ok n (s\<lparr>lt_pc := (lt_pc s)(t := pc)\<rparr>)"
  using assms by (simp add: latch_ok_def Let_def)

lemma latch_step_ok: "latch_step s s' \<Longrightarrow> latch_ok n s \<Longrightarrow> latch_ok n s'"
proof (induction rule: latch_step.induct)
  case (wait s t)
  show ?case using wait(2)
    by (rule latch_ok_pc) (use latch_okD(2,3) [OF wait(2)] in
      \<open>auto simp: latch_pc_of_def CountDownLatch_Wait_enter_def ManualReset_Wait_enter_def\<close>)
next
  case (unnotified s t i)
  show ?case using unnotified(2) by (rule latch_ok_pc) (use latch_okD(5) [OF unnotified(2) _ unnotified(1)] in simp)
next
  case (resume s t i)
  show ?case using resume(2)
    by (rule latch_ok_pc) (use latch_okD(3) [OF resume(2)] latch_okD(6) [OF resume(2) _ resume(1)] in
      \<open>auto simp: latch_pc_of_def CountDownLatch_Wait_wake_def ManualReset_Wait_wake_def\<close>)
next
  case (decrement s l zero)
  show ?case
  proof (cases "lt_calls s < unat n")
    case True
    note D = latch_okD [OF decrement(2)]
    have "n \<noteq> 0" using True by auto
    have k: "cl_count (lt_latch s) - 1 = n - of_nat (lt_calls s + 1)" using D(1) True by simp
    have z: "zero \<longleftrightarrow> lt_calls s + 1 = unat n"
      using decrement(1) k count_zero_iff [of "lt_calls s + 1" n] True by (auto simp: CountDown_decrement_def Let_def)
    have l: "cl_event l = cl_event (lt_latch s)" "cl_count l = n - of_nat (lt_calls s + 1)"
      using decrement(1) k by (auto simp: CountDown_decrement_def Let_def)
    have pc: "case lt_pc s t of LIdle \<Rightarrow> True
       | LBlocked i \<Rightarrow> i = 0 \<and> \<not> opened | LAwake i \<Rightarrow> i = 0 | LThrough \<Rightarrow> opened" if "\<not> opened" for t opened
      using that D(5,6,7) [of t] True by (cases "lt_pc s t") auto
    have "lt_signalling s = 0" using D(4) True by simp
    then show ?thesis
      using l z D(2,3) True \<open>n \<noteq> 0\<close> pc by (auto simp: latch_ok_def Let_def word_neq_0_conv)
  next
    case False
    then show ?thesis by (simp add: latch_ok_def)
  qed
next
  case (signal s)
  show ?case
  proof (cases "lt_calls s \<le> unat n")
    case True
    note D = latch_okD [OF signal(2) True]
    have "lt_signalling s = 1" "lt_calls s = unat n" using D(4) signal(1) by (auto split: if_splits)
    moreover have "case latch_awaken (lt_pc s t) of LIdle \<Rightarrow> True
       | LBlocked i \<Rightarrow> i = 0 \<and> \<not> True | LAwake i \<Rightarrow> i = 0 | LThrough \<Rightarrow> True" for t
      using D(5,6) [of t] by (cases "lt_pc s t") (auto simp: latch_awaken_def)
    ultimately show ?thesis
      using D(1,3) by (simp add: latch_ok_def CountDown_signal_def ManualReset_Signal_def)
  next
    case False
    then show ?thesis by (simp add: latch_ok_def)
  qed
qed

lemma latch_reachable_ok: "latch_reachable n s \<Longrightarrow> latch_ok n s"
proof (induction rule: latch_reachable.induct)
  case start show ?case by (rule latch_start_ok)
next
  case (step s s') show ?case using step(2,3) by (rule latch_step_ok)
qed

text \<open>C18: a latch of \<open>n\<close> opens at the \<open>n\<close>-th \<open>CountDown\<close> and not before. While at most \<open>n\<close> calls have
  been made, in any interleaving: no wait has come through unless \<open>n\<close> calls have decremented the
  count and the last has signalled; and then no thread is blocked and every wait that begins or
  resumes returns. A latch of 0 is open from the start.\<close>

theorem latch_opens_at_n:
  assumes "latch_reachable n s" and "lt_calls s \<le> unat n"
  shows "(lt_pc s t = LThrough \<longrightarrow> lt_calls s = unat n \<and> lt_signalling s = 0) \<and>
    (if lt_calls s = unat n \<and> lt_signalling s = 0
     then (\<forall>i. lt_pc s t \<noteq> LBlocked i) \<and> CountDownLatch_Wait_enter (lt_latch s) = Returns () \<and>
       (\<forall>i. lt_pc s t = LAwake i \<longrightarrow> CountDownLatch_Wait_wake i (lt_latch s) = Returns ())
     else CountDownLatch_Wait_enter (lt_latch s) = Blocks 0 \<and>
       (\<forall>i. lt_pc s t = LAwake i \<longrightarrow> CountDownLatch_Wait_wake i (lt_latch s) = Blocks i))"
  using latch_okD(2,3,7) [OF latch_reachable_ok [OF assms(1)] assms(2)]
    latch_okD(5,6) [OF latch_reachable_ok [OF assms(1)] assms(2), of t]
  by (fastforce simp: CountDownLatch_Wait_enter_def ManualReset_Wait_enter_def CountDownLatch_Wait_wake_def
      ManualReset_Wait_wake_def)

theorem latch_opens_at_n_witness:
  "CountDownLatch_Wait_enter (lt_latch (latch_start 2)) = Blocks 0"
  using latch_opens_at_n [OF latch_reachable.start [of 2]] by (simp add: latch_start_def)

subsection \<open>Semaphore\<close>

text \<open>\<open>FOREVER_HANDLE_EINTR\<close>: the results of the successive calls, each with whether \<open>errno\<close> is
  \<open>EINTR\<close>; \<open>None\<close> when every call of the list was interrupted.\<close>

fun HANDLE_EINTR :: "(int \<times> bool) list \<Rightarrow> int option" where
  "HANDLE_EINTR [] = None"
| "HANDLE_EINTR ((result, eintr) # rs) = (if result = - 1 \<and> eintr then HANDLE_EINTR rs else Some result)"

text \<open>The semaphore of the system: its value, which has a maximum. \<open>sem_wait\<close> is given when it can
  decrement; \<open>k\<close> is the number of times it was interrupted before.\<close>

record PlatformSemaphore =
  ps_valid :: bool
  ps_sem :: nat

definition PlatformSemaphore_new :: "nat \<Rightarrow> nat \<Rightarrow> PlatformSemaphore" where
  "PlatformSemaphore_new sem_value_max c0 =
     (if c0 \<le> sem_value_max then \<lparr>ps_valid = True, ps_sem = c0\<rparr> else \<lparr>ps_valid = False, ps_sem = 0\<rparr>)"

definition sem_wait_results :: "nat \<Rightarrow> (int \<times> bool) list" where
  "sem_wait_results k = replicate k (- 1, True) @ [(0, False)]"

definition PlatformSemaphore_Wait :: "nat \<Rightarrow> PlatformSemaphore \<Rightarrow> PlatformSemaphore \<times> (unit, bool) progress" where
  "PlatformSemaphore_Wait k s =
     (if \<not> ps_valid s then (s, Returns False)
      else if ps_sem s = 0 then (s, Blocks ())
      else (s\<lparr>ps_sem := ps_sem s - 1\<rparr>, Returns (HANDLE_EINTR (sem_wait_results k) = Some 0)))"

definition PlatformSemaphore_TryWait :: "PlatformSemaphore \<Rightarrow> PlatformSemaphore \<times> bool" where
  "PlatformSemaphore_TryWait s =
     (if \<not> ps_valid s then (s, False)
      else if ps_sem s = 0 then (s, HANDLE_EINTR [(- 1, False)] = Some 0)
      else (s\<lparr>ps_sem := ps_sem s - 1\<rparr>, HANDLE_EINTR [(0, False)] = Some 0))"

definition PlatformSemaphore_Signal :: "nat \<Rightarrow> PlatformSemaphore \<Rightarrow> PlatformSemaphore" where
  "PlatformSemaphore_Signal sem_value_max s =
     (if \<not> ps_valid s then s
      else if ps_sem s < sem_value_max then s\<lparr>ps_sem := ps_sem s + 1\<rparr> else s)"

text \<open>\<open>Semaphore\<close> holds a \<open>PlatformSemaphore\<close> and passes every call on. A run of calls, in the order in
  which they take effect, counts the waits that were granted.\<close>

datatype sem_call = Sem_Signal | Sem_Wait nat | Sem_TryWait

definition Semaphore_call :: "nat \<Rightarrow> sem_call \<Rightarrow> PlatformSemaphore \<times> nat \<Rightarrow> PlatformSemaphore \<times> nat" where
  "Semaphore_call sem_value_max c sn =
     (case c of
        Sem_Signal \<Rightarrow> (PlatformSemaphore_Signal sem_value_max (fst sn), snd sn)
      | Sem_Wait k \<Rightarrow> (let (s, r) = PlatformSemaphore_Wait k (fst sn) in (s, snd sn + (if r = Returns True then 1 else 0)))
      | Sem_TryWait \<Rightarrow> (let (s, r) = PlatformSemaphore_TryWait (fst sn) in (s, snd sn + (if r then 1 else 0))))"

definition sem_signals :: "sem_call list \<Rightarrow> nat" where
  "sem_signals cs = length (filter (\<lambda>c. c = Sem_Signal) cs)"

lemma HANDLE_EINTR_waits [simp]: "HANDLE_EINTR (sem_wait_results k) = Some 0"
  by (induction k) (simp_all add: sem_wait_results_def)

lemma sem_signals_simps [simp]:
  "sem_signals [] = 0" "sem_signals (c # cs) = (if c = Sem_Signal then 1 else 0) + sem_signals cs"
  by (simp_all add: sem_signals_def)

lemma semaphore_run:
  assumes "ps_valid s" and "ps_sem s + sem_signals cs \<le> m"
  shows "case fold (Semaphore_call m) cs (s, n) of (s', n') \<Rightarrow>
    ps_valid s' \<and> ps_sem s' + n' = ps_sem s + n + sem_signals cs"
  using assms
proof (induction cs arbitrary: s n)
  case (Cons c cs)
  obtain s1 n1 where c: "Semaphore_call m c (s, n) = (s1, n1)" by (cases "Semaphore_call m c (s, n)")
  have "ps_valid s1 \<and> ps_sem s1 + n1 = ps_sem s + n + (if c = Sem_Signal then 1 else 0) \<and>
      ps_sem s1 + sem_signals cs \<le> m"
    using c Cons.prems by (cases c) (auto simp: Semaphore_call_def PlatformSemaphore_Signal_def
      PlatformSemaphore_Wait_def PlatformSemaphore_TryWait_def split: if_splits)
  with Cons.IH [of s1 n1] c show ?case by (auto split: prod.splits)
qed simp

text \<open>A semaphore grants as many waits as it has tokens. After any run of calls on a semaphore
  created with \<open>c0\<close>, whose signals do not exceed the maximum, what is left and what was granted
  add up to \<open>c0\<close> and the signals; a wait, however often interrupted, and a \<open>TryWait\<close> are granted
  exactly if something is left. If creation failed, every wait fails and nothing changes.\<close>

theorem semaphore_conserves_tokens:
  assumes "fold (Semaphore_call m) cs (PlatformSemaphore_new m c0, 0) = (s, granted)"
  shows "(c0 + sem_signals cs \<le> m \<longrightarrow> ps_sem s + granted = c0 + sem_signals cs \<and>
      (PlatformSemaphore_TryWait s = (if ps_sem s > 0 then (s\<lparr>ps_sem := ps_sem s - 1\<rparr>, True) else (s, False))) \<and>
      (PlatformSemaphore_Wait k s = (if ps_sem s > 0 then (s\<lparr>ps_sem := ps_sem s - 1\<rparr>, Returns True) else (s, Blocks ())))) \<and>
    (\<not> c0 \<le> m \<longrightarrow> granted = 0 \<and> s = PlatformSemaphore_new m c0 \<and>
      PlatformSemaphore_TryWait s = (s, False) \<and> PlatformSemaphore_Wait k s = (s, Returns False))"
proof -
  have 1: "ps_sem s + granted = c0 + sem_signals cs \<and> ps_valid s" if "c0 + sem_signals cs \<le> m"
    using semaphore_run [of "PlatformSemaphore_new m c0" cs m 0] assms that by (simp add: PlatformSemaphore_new_def)
  have "fold (Semaphore_call m) cs (t, 0) = (t, 0)" if "\<not> ps_valid t" for t
    using that by (induction cs) (auto simp: Semaphore_call_def PlatformSemaphore_Signal_def
      PlatformSemaphore_Wait_def PlatformSemaphore_TryWait_def split: sem_call.splits)
  then have 2: "granted = 0 \<and> s = PlatformSemaphore_new m c0 \<and> \<not> ps_valid s" if "\<not> c0 \<le> m"
    using assms that by (auto simp: PlatformSemaphore_new_def)
  show ?thesis using 1 2 by (auto simp: PlatformSemaphore_TryWait_def PlatformSemaphore_Wait_def)
qed

theorem semaphore_conserves_tokens_witness:
  "ps_sem \<lparr>ps_valid = True, ps_sem = 0\<rparr> + 3 = 2 + sem_signals [Sem_Signal, Sem_TryWait, Sem_Wait 3, Sem_TryWait]"
proof -
  have "fold (Semaphore_call 100) [Sem_Signal, Sem_TryWait, Sem_Wait 3, Sem_TryWait] (PlatformSemaphore_new 100 2, 0) =
    (\<lparr>ps_valid = True, ps_sem = 0\<rparr>, 3)"
    by (simp add: Semaphore_call_def PlatformSemaphore_Signal_def PlatformSemaphore_Wait_def
      PlatformSemaphore_TryWait_def PlatformSemaphore_new_def)
  from semaphore_conserves_tokens [OF this] show ?thesis by simp
qed

subsection \<open>SharedMutex and SyncSwitch\<close>

text \<open>\<open>SharedMutexStd\<close>: \<open>None\<close> when the call has to wait.\<close>

record SharedMutexStd =
  sm_readers :: nat
  sm_writer :: bool

definition SharedMutex_Create :: SharedMutexStd where
  "SharedMutex_Create = \<lparr>sm_readers = 0, sm_writer = False\<rparr>"

definition SharedMutexStd_Lock :: "SharedMutexStd \<Rightarrow> SharedMutexStd option" where
  "SharedMutexStd_Lock m = (if sm_readers m = 0 \<and> \<not> sm_writer m then Some (m\<lparr>sm_writer := True\<rparr>) else None)"

definition SharedMutexStd_LockShared :: "SharedMutexStd \<Rightarrow> SharedMutexStd option" where
  "SharedMutexStd_LockShared m = (if \<not> sm_writer m then Some (m\<lparr>sm_readers := sm_readers m + 1\<rparr>) else None)"

definition SharedMutexStd_Unlock :: "SharedMutexStd \<Rightarrow> SharedMutexStd" where
  "SharedMutexStd_Unlock m = m\<lparr>sm_writer := False\<rparr>"

definition SharedMutexStd_UnlockShared :: "SharedMutexStd \<Rightarrow> SharedMutexStd" where
  "SharedMutexStd_UnlockShared m = m\<lparr>sm_readers := sm_readers m - 1\<rparr>"

text \<open>The handlers, either of which does nothing unless set.\<close>

record 'h Handlers =
  true_handler :: "'h option"
  false_handler :: "'h option"

definition Handlers_new :: "'h Handlers" where
  "Handlers_new = \<lparr>true_handler = None, false_handler = None\<rparr>"

definition SetIfTrue :: "'h \<Rightarrow> 'h Handlers \<Rightarrow> 'h Handlers" where
  "SetIfTrue h hs = hs\<lparr>true_handler := Some h\<rparr>"

definition SetIfFalse :: "'h \<Rightarrow> 'h Handlers \<Rightarrow> 'h Handlers" where
  "SetIfFalse h hs = hs\<lparr>false_handler := Some h\<rparr>"

record SyncSwitch =
  ss_mutex :: SharedMutexStd
  ss_value :: bool

definition SyncSwitch_new :: "bool \<Rightarrow> SyncSwitch" where
  "SyncSwitch_new v = \<lparr>ss_mutex = SharedMutex_Create, ss_value = v\<rparr>"

text \<open>\<open>Execute\<close>: taking the shared lock and choosing the handler, and giving the lock back when the
  handler has returned; between the two the handler runs.\<close>

definition Execute_enter :: "'h Handlers \<Rightarrow> SyncSwitch \<Rightarrow> (SyncSwitch \<times> 'h option) option" where
  "Execute_enter hs w =
     map_option (\<lambda>m. (w\<lparr>ss_mutex := m\<rparr>, if ss_value w then true_handler hs else false_handler hs))
       (SharedMutexStd_LockShared (ss_mutex w))"

definition Execute_leave :: "SyncSwitch \<Rightarrow> SyncSwitch" where
  "Execute_leave w = w\<lparr>ss_mutex := SharedMutexStd_UnlockShared (ss_mutex w)\<rparr>"

text \<open>\<open>SetSwitch\<close>: taking the lock, and the assignment with giving it back.\<close>

definition SetSwitch_enter :: "SyncSwitch \<Rightarrow> SyncSwitch option" where
  "SetSwitch_enter w = map_option (\<lambda>m. w\<lparr>ss_mutex := m\<rparr>) (SharedMutexStd_Lock (ss_mutex w))"

definition SetSwitch_leave :: "bool \<Rightarrow> SyncSwitch \<Rightarrow> SyncSwitch" where
  "SetSwitch_leave v w = w\<lparr>ss_value := v, ss_mutex := SharedMutexStd_Unlock (ss_mutex w)\<rparr>"

text \<open>Threads on a switch: running a handler of \<open>Handlers\<close> \<open>hs\<close>, or about to set a value.\<close>

datatype 'h switch_pc = Outside | Running "'h Handlers" "'h option" | Setting bool

record 'h switch_sys =
  sw_switch :: SyncSwitch
  sw_pc :: "nat \<Rightarrow> 'h switch_pc"

inductive switch_step :: "'h switch_sys \<Rightarrow> 'h switch_sys \<Rightarrow> bool" where
  execute: "sw_pc s t = Outside \<Longrightarrow> Execute_enter hs (sw_switch s) = Some (w, h) \<Longrightarrow>
    switch_step s (s\<lparr>sw_switch := w, sw_pc := (sw_pc s)(t := Running hs h)\<rparr>)"
| executed: "sw_pc s t = Running hs h \<Longrightarrow>
    switch_step s (s\<lparr>sw_switch := Execute_leave (sw_switch s), sw_pc := (sw_pc s)(t := Outside)\<rparr>)"
| set: "sw_pc s t = Outside \<Longrightarrow> SetSwitch_enter (sw_switch s) = Some w \<Longrightarrow>
    switch_step s (s\<lparr>sw_switch := w, sw_pc := (sw_pc s)(t := Setting v)\<rparr>)"
| was_set: "sw_pc s t = Setting v \<Longrightarrow>
    switch_step s (s\<lparr>sw_switch := SetSwitch_leave v (sw_switch s), sw_pc := (sw_pc s)(t := Outside)\<rparr>)"

inductive switch_reachable :: "'h switch_sys \<Rightarrow> bool" where
  start: "switch_reachable \<lparr>sw_switch = SyncSwitch_new v, sw_pc = (\<lambda>_. Outside)\<rparr>"
| step: "switch_reachable s \<Longrightarrow> switch_step s s' \<Longrightarrow> switch_reachable s'"

definition runners :: "'h switch_sys \<Rightarrow> nat set" where
  "runners s = {t. \<exists>hs h. sw_pc s t = Running hs h}"

definition setters :: "'h switch_sys \<Rightarrow> nat set" where
  "setters s = {t. \<exists>v. sw_pc s t = Setting v}"

definition switch_ok :: "'h switch_sys \<Rightarrow> bool" where
  "switch_ok s \<longleftrightarrow> finite (runners s) \<and> sm_readers (ss_mutex (sw_switch s)) = card (runners s) \<and>
     (sm_writer (ss_mutex (sw_switch s)) \<longleftrightarrow> setters s \<noteq> {}) \<and>
     (setters s \<noteq> {} \<longrightarrow> runners s = {}) \<and> (\<forall>t u. t \<in> setters s \<longrightarrow> u \<in> setters s \<longrightarrow> t = u) \<and>
     (\<forall>t hs h. sw_pc s t = Running hs h \<longrightarrow>
        h = (if ss_value (sw_switch s) then true_handler hs else false_handler hs))"

lemma pc_upd:
  "runners (s\<lparr>sw_switch := w, sw_pc := (sw_pc s)(t := Running hs h)\<rparr>) = insert t (runners s)"
  "runners (s\<lparr>sw_switch := w, sw_pc := (sw_pc s)(t := Outside)\<rparr>) = runners s - {t}"
  "runners (s\<lparr>sw_switch := w, sw_pc := (sw_pc s)(t := Setting v)\<rparr>) = runners s - {t}"
  "setters (s\<lparr>sw_switch := w, sw_pc := (sw_pc s)(t := Running hs h)\<rparr>) = setters s - {t}"
  "setters (s\<lparr>sw_switch := w, sw_pc := (sw_pc s)(t := Outside)\<rparr>) = setters s - {t}"
  "setters (s\<lparr>sw_switch := w, sw_pc := (sw_pc s)(t := Setting v)\<rparr>) = insert t (setters s)"
  by (auto simp: runners_def setters_def)

lemma switch_step_ok: "switch_step s s' \<Longrightarrow> switch_ok s \<Longrightarrow> switch_ok s'"
proof (induction rule: switch_step.induct)
  case (execute s t hs w h)
  have t: "t \<notin> runners s" "t \<notin> setters s" using execute(1) by (simp_all add: runners_def setters_def)
  from execute(2) have w: "w = (sw_switch s)\<lparr>ss_mutex := (ss_mutex (sw_switch s))\<lparr>sm_readers := sm_readers (ss_mutex (sw_switch s)) + 1\<rparr>\<rparr>"
    "h = (if ss_value (sw_switch s) then true_handler hs else false_handler hs)" "\<not> sm_writer (ss_mutex (sw_switch s))"
    by (auto simp: Execute_enter_def SharedMutexStd_LockShared_def split: if_splits)
  with execute(3) t show ?case by (auto simp: switch_ok_def pc_upd)
next
  case (executed s t hs h)
  have t: "t \<in> runners s" "t \<notin> setters s" using executed(1) by (auto simp: runners_def setters_def)
  with executed(2) show ?case
    by (auto simp: switch_ok_def pc_upd Execute_leave_def SharedMutexStd_UnlockShared_def)
next
  case (set s t w v)
  have t: "t \<notin> runners s" "t \<notin> setters s" using set(1) by (simp_all add: runners_def setters_def)
  from set(2) have "w = (sw_switch s)\<lparr>ss_mutex := (ss_mutex (sw_switch s))\<lparr>sm_writer := True\<rparr>\<rparr>"
    "sm_readers (ss_mutex (sw_switch s)) = 0" "\<not> sm_writer (ss_mutex (sw_switch s))"
    by (auto simp: SetSwitch_enter_def SharedMutexStd_Lock_def split: if_splits)
  with set(3) t show ?case by (auto simp: switch_ok_def pc_upd)
next
  case (was_set s t v)
  have t: "t \<notin> runners s" "t \<in> setters s" using was_set(1) by (auto simp: runners_def setters_def)
  then have "runners s = {}" "setters s = {t}" using was_set(2) by (auto simp: switch_ok_def)
  moreover from this have "sw_pc s u \<noteq> Running hs h" for u hs h by (auto simp: runners_def)
  ultimately show ?case
    using was_set(2) by (auto simp: switch_ok_def pc_upd SetSwitch_leave_def SharedMutexStd_Unlock_def)
qed

lemma switch_reachable_ok: "switch_reachable s \<Longrightarrow> switch_ok s"
proof (induction rule: switch_reachable.induct)
  case start
  show ?case by (simp add: switch_ok_def runners_def setters_def SyncSwitch_new_def SharedMutex_Create_def)
next
  case (step s s') show ?case using step(2,3) by (rule switch_step_ok)
qed

text \<open>A switch does not change while a handler runs. In every reachable state the handler a thread
  runs is the one for the value the switch has now; no thread is setting the switch then, at most
  one ever is, and \<open>SetSwitch\<close> cannot proceed, from inside a handler least of all; while nobody
  sets the switch \<open>Execute\<close> does not wait.\<close>

theorem switch_stable_during_execute:
  assumes "switch_reachable s"
  shows "(sw_pc s t = Running hs h \<longrightarrow>
      h = (if ss_value (sw_switch s) then true_handler hs else false_handler hs) \<and>
      (\<forall>u v. sw_pc s u \<noteq> Setting v) \<and> SetSwitch_enter (sw_switch s) = None) \<and>
    (sw_pc s t = Setting v \<longrightarrow> (\<forall>u w. sw_pc s u = Setting w \<longrightarrow> u = t)) \<and>
    ((\<forall>u w. sw_pc s u \<noteq> Setting w) \<longrightarrow> Execute_enter hs (sw_switch s) \<noteq> None)"
proof -
  note ok = switch_reachable_ok [OF assms, unfolded switch_ok_def]
  have 1: "h = (if ss_value (sw_switch s) then true_handler hs else false_handler hs) \<and>
      (\<forall>u v. sw_pc s u \<noteq> Setting v) \<and> SetSwitch_enter (sw_switch s) = None" if r: "sw_pc s t = Running hs h"
  proof -
    have "t \<in> runners s" using r by (auto simp: runners_def)
    then have "setters s = {}" "sm_readers (ss_mutex (sw_switch s)) \<noteq> 0" using ok by auto
    then have "(\<forall>u v. sw_pc s u \<noteq> Setting v) \<and> SetSwitch_enter (sw_switch s) = None"
      by (auto simp: setters_def SetSwitch_enter_def SharedMutexStd_Lock_def)
    with ok r show ?thesis by blast
  qed
  have 2: "u = t" if "sw_pc s t = Setting v" "sw_pc s u = Setting w" for u w
    using ok that by (auto simp: setters_def)
  have 3: "Execute_enter hs (sw_switch s) \<noteq> None" if "\<forall>u w. sw_pc s u \<noteq> Setting w"
    using ok that by (auto simp: setters_def Execute_enter_def SharedMutexStd_LockShared_def)
  show ?thesis using 1 2 3 by simp
qed

theorem switch_stable_during_execute_witness:
  "Execute_enter (SetIfTrue (5::nat) Handlers_new) (SyncSwitch_new True) \<noteq> None"
  using switch_stable_during_execute [OF switch_reachable.start [of True], of 0 "SetIfTrue (5::nat) Handlers_new"]
  by simp

subsection \<open>AtomicObject\<close>

text \<open>Each operation holds the mutex from start to end.\<close>

type_synonym 'a AtomicObject = 'a

definition AtomicObject_new :: "'a \<Rightarrow> 'a AtomicObject" where "AtomicObject_new x = x"
definition AtomicObject_Load :: "'a AtomicObject \<Rightarrow> 'a" where "AtomicObject_Load c = c"
definition AtomicObject_Store :: "'a \<Rightarrow> 'a AtomicObject \<Rightarrow> 'a AtomicObject" where "AtomicObject_Store x c = x"

subsection \<open>ScopedCleanupClosure\<close>

text \<open>The closure held, null when it is \<open>None\<close>; what the destructor runs.\<close>

record 'c ScopedCleanupClosure =
  sc_closure :: "'c option"

definition ScopedCleanupClosure_new :: "'c option \<Rightarrow> 'c ScopedCleanupClosure" where
  "ScopedCleanupClosure_new c = \<lparr>sc_closure = c\<rparr>"

definition ScopedCleanupClosure_destroy :: "'c ScopedCleanupClosure \<Rightarrow> 'c list" where
  "ScopedCleanupClosure_destroy s = (case sc_closure s of Some c \<Rightarrow> [c] | None \<Rightarrow> [])"

definition ScopedCleanupClosure_SetClosure ::
  "'c option \<Rightarrow> 'c ScopedCleanupClosure \<Rightarrow> 'c ScopedCleanupClosure \<times> 'c option" where
  "ScopedCleanupClosure_SetClosure c s = (s\<lparr>sc_closure := c\<rparr>, sc_closure s)"

definition ScopedCleanupClosure_Release :: "'c ScopedCleanupClosure \<Rightarrow> 'c ScopedCleanupClosure \<times> 'c option" where
  "ScopedCleanupClosure_Release s = (s\<lparr>sc_closure := None\<rparr>, sc_closure s)"

text \<open>A sequence of calls, each \<open>SetClosure\<close> (with its argument) or \<open>Release\<close>, with what they return.\<close>

datatype 'c cleanup_call = Set_Closure "'c option" | Release_Closure

fun cleanup_run :: "'c cleanup_call list \<Rightarrow> 'c ScopedCleanupClosure \<Rightarrow> 'c ScopedCleanupClosure \<times> 'c option list" where
  "cleanup_run [] s = (s, [])"
| "cleanup_run (Set_Closure c # cs) s =
     (let (s1, r) = ScopedCleanupClosure_SetClosure c s; (s2, rs) = cleanup_run cs s1 in (s2, r # rs))"
| "cleanup_run (Release_Closure # cs) s =
     (let (s1, r) = ScopedCleanupClosure_Release s; (s2, rs) = cleanup_run cs s1 in (s2, r # rs))"

definition given :: "'c cleanup_call list \<Rightarrow> 'c list" where
  "given cs = List.map_filter (\<lambda>c. case c of Set_Closure (Some x) \<Rightarrow> Some x | _ \<Rightarrow> None) cs"

definition non_null :: "'c option list \<Rightarrow> 'c list" where
  "non_null rs = List.map_filter (\<lambda>r. r) rs"

lemma given_simps [simp]:
  "given [] = []" "given (Set_Closure None # cs) = given cs" "given (Set_Closure (Some c) # cs) = c # given cs"
  "given (Release_Closure # cs) = given cs"
  by (simp_all add: given_def List.map_filter_def)

lemma non_null_simps [simp]: "non_null [] = []" "non_null (None # rs) = non_null rs" "non_null (Some c # rs) = c # non_null rs"
  by (simp_all add: non_null_def List.map_filter_def)

text \<open>No clean-up is lost and none runs twice. After any sequence of \<open>SetClosure\<close> and \<open>Release\<close>, the
  closures given to the object, at construction and later, are exactly those it returned to its
  callers and those its destructor runs, each as often as it was given.\<close>

theorem cleanup_runs_or_returns:
  shows "case cleanup_run cs (ScopedCleanupClosure_new c) of (s, rs) \<Rightarrow>
    mset (non_null rs) + mset (ScopedCleanupClosure_destroy s) = mset (non_null [c]) + mset (given cs)"
proof (induction cs arbitrary: c)
  case Nil
  show ?case by (cases c) (simp_all add: ScopedCleanupClosure_new_def ScopedCleanupClosure_destroy_def)
next
  case (Cons call cs)
  have "case cleanup_run cs (ScopedCleanupClosure_new c') of (s, rs) \<Rightarrow>
    mset (non_null (c # rs)) + mset (ScopedCleanupClosure_destroy s) = mset (non_null [c]) + mset (non_null [c']) + mset (given cs)" for c'
    using Cons.IH [of c'] by (cases c) (auto split: prod.splits)
  from this [of "case call of Set_Closure x \<Rightarrow> x | Release_Closure \<Rightarrow> None"] show ?case
    by (cases call rule: cleanup_call.exhaust; cases "case call of Set_Closure x \<Rightarrow> x | Release_Closure \<Rightarrow> None")
      (auto simp: ScopedCleanupClosure_SetClosure_def ScopedCleanupClosure_Release_def ScopedCleanupClosure_new_def
        split: prod.splits)
qed

end
