(* ===== verification/Base64_Codec.thy ===== *)
theory Base64_Codec
  imports Env_Prelude
begin

unbundle bit_operations_syntax

section \<open>Base64\<close>

text \<open>
  \<open>CheckEnv/src/main/cpp/base64.cc\<close>: strings are lists of bytes. An output buffer is written by
  index; a write or a table access out of range is undefined behaviour, and so is the overflow of
  the \<open>int\<close> indices. Whether \<open>char\<close> is signed depends on the ABI (it is on x86, it is not on ARM):
  \<open>char_signed\<close>. The output string exists before the call, and \<open>resize\<close> keeps what it holds. A call
  whose output is the input string itself works on an empty buffer, which it copies to the output
  when it succeeds: it answers as a call with an empty output does.
\<close>

subsection \<open>Tables\<close>

definition bytes_of :: "string \<Rightarrow> byte list" where
  "bytes_of s = map of_char s"

definition kBase64Table :: "byte list" where
  "kBase64Table = bytes_of ''ABCDEFGHIJKLMNOPQRSTUVWXYZabcdefghijklmnopqrstuvwxyz0123456789+/''"

definition kBase64TableUrlSafe :: "byte list" where
  "kBase64TableUrlSafe = bytes_of ''ABCDEFGHIJKLMNOPQRSTUVWXYZabcdefghijklmnopqrstuvwxyz0123456789-_''"

definition kBase64TableReverse :: "int list" where
  "kBase64TableReverse =
    [-1, -1, -1, -1, -1, -1, -1, -1, -1, -1, -1, -1, -1, -1, -1, -1,
     -1, -1, -1, -1, -1, -1, -1, -1, -1, -1, -1, -1, -1, -1, -1, -1,
     -1, -1, -1, -1, -1, -1, -1, -1, -1, -1, -1, 62, -1, 62, -1, 63,
     52, 53, 54, 55, 56, 57, 58, 59, 60, 61, -1, -1, -1,  0, -1, -1,
     -1,  0,  1,  2,  3,  4,  5,  6,  7,  8,  9, 10, 11, 12, 13, 14,
     15, 16, 17, 18, 19, 20, 21, 22, 23, 24, 25, -1, -1, -1, -1, 63,
     -1, 26, 27, 28, 29, 30, 31, 32, 33, 34, 35, 36, 37, 38, 39, 40,
     41, 42, 43, 44, 45, 46, 47, 48, 49, 50, 51, -1, -1, -1, -1, -1] @ replicate 128 (- 1)"

definition kBase64NullEnding :: byte where "kBase64NullEnding = 61"

subsection \<open>Buffers\<close>

text \<open>\<open>std::string::resize\<close> and a write through \<open>operator[]\<close>.\<close>

definition resize :: "nat \<Rightarrow> byte list \<Rightarrow> byte list" where
  "resize n xs = take n xs @ replicate (n - length xs) 0"

definition put :: "nat \<Rightarrow> byte \<Rightarrow> byte list \<Rightarrow> byte list outcome" where
  "put i v xs = obind (defined (i < length xs)) (\<lambda>_. Inr (xs[i := v]))"

definition byte_at :: "byte list \<Rightarrow> nat \<Rightarrow> byte outcome" where
  "byte_at xs i = obind (defined (i < length xs)) (\<lambda>_. Inr (xs ! i))"

lemma length_resize [simp]: "length (resize n xs) = n"
  by (simp add: resize_def)

subsection \<open>Encoding\<close>

definition stream_of :: "byte \<Rightarrow> byte \<Rightarrow> byte \<Rightarrow> 32 word" where
  "stream_of b0 b1 b2 =
     (ucast b2 AND 0xFF) OR push_bit 8 (ucast b1 AND 0xFF) OR push_bit 16 (ucast b0 AND 0xFF)"

definition sextet :: "nat \<Rightarrow> 32 word \<Rightarrow> nat" where
  "sextet k stream = unat (drop_bit k stream AND 0x3F)"

definition GetBase64EncodedSize :: "byte list \<Rightarrow> nat" where
  "GetBase64EncodedSize input = ((length input + 2) div 3) * 4"

function encode_loop :: "byte list \<Rightarrow> byte list \<Rightarrow> nat \<Rightarrow> nat \<Rightarrow> byte list \<Rightarrow> byte list outcome" where
  "encode_loop base64_table input i p out =
     (if i < length input
      then
        let b0 = input ! i;
            b1 = (if i + 1 < length input then input ! (i + 1) else 0);
            b2 = (if i + 2 < length input then input ! (i + 2) else 0);
            stream = stream_of b0 b1 b2
        in obind (put p (base64_table ! sextet 18 stream) out) (\<lambda>out.
           obind (put (p + 1) (base64_table ! sextet 12 stream) out) (\<lambda>out.
           obind (put (p + 2) (if i + 1 < length input then base64_table ! sextet 6 stream else kBase64NullEnding) out) (\<lambda>out.
           obind (put (p + 3) (if i + 2 < length input then base64_table ! sextet 0 stream else kBase64NullEnding) out) (\<lambda>out.
           obind (defined (int (p + 4) \<le> INT_MAX)) (\<lambda>_.
           encode_loop base64_table input (i + 3) (p + 4) out)))))
      else Inr out)"
  by pat_completeness auto

termination
  by (relation "measure (\<lambda>(t, input, i, p, out). length input - i)") auto

definition trim_padding :: "byte list \<Rightarrow> byte list" where
  "trim_padding out =
     (if out \<noteq> [] \<and> out ! (length out - 1) = kBase64NullEnding
      then if length out > 1 \<and> out ! (length out - 2) = kBase64NullEnding
           then resize (length out - 2) out else resize (length out - 1) out
      else out)"

text \<open>\<open>output\<close> is null, or the string it points at; the answer, and that string afterwards.\<close>

definition Base64EncodeInternal ::
  "byte list \<Rightarrow> byte list option \<Rightarrow> bool \<Rightarrow> bool \<Rightarrow> (bool \<times> byte list option) outcome" where
  "Base64EncodeInternal input output url_safe pad_to_32_bits =
     (case output of
        None \<Rightarrow> Inr (False, None)
      | Some old \<Rightarrow>
          let base64_table = (if url_safe then kBase64TableUrlSafe else kBase64Table)
          in obind (encode_loop base64_table input 0 0 (resize (GetBase64EncodedSize input) old)) (\<lambda>out.
             Inr (True, Some (if \<not> pad_to_32_bits then trim_padding out else out))))"

definition Base64Encode :: "byte list \<Rightarrow> byte list option \<Rightarrow> (bool \<times> byte list option) outcome" where
  "Base64Encode input output = Base64EncodeInternal input output False False"

definition Base64EncodeWithPadding :: "byte list \<Rightarrow> byte list option \<Rightarrow> (bool \<times> byte list option) outcome" where
  "Base64EncodeWithPadding input output = Base64EncodeInternal input output False True"

definition Base64EncodeUrlSafe :: "byte list \<Rightarrow> byte list option \<Rightarrow> (bool \<times> byte list option) outcome" where
  "Base64EncodeUrlSafe input output = Base64EncodeInternal input output True False"

definition Base64EncodeUrlSafeWithPadding :: "byte list \<Rightarrow> byte list option \<Rightarrow> (bool \<times> byte list option) outcome" where
  "Base64EncodeUrlSafeWithPadding input output = Base64EncodeInternal input output True True"

subsection \<open>Decoding\<close>

definition GetBase64DecodedSize :: "byte list \<Rightarrow> nat" where
  "GetBase64DecodedSize input =
     (let m = length input mod 4
      in if input = [] \<or> m = 1 then 0
         else
           let padded_size = ((length input + 3) div 4) * 3
           in if m \<ge> 2 \<or> (m = 0 \<and> input ! (length input - 1) = kBase64NullEnding)
              then if m = 2 \<or> (m = 0 \<and> input ! (length input - 2) = kBase64NullEnding)
                   then padded_size - 2 else padded_size - 1
              else padded_size)"

text \<open>\<open>kBase64TableReverse[c]\<close>.\<close>

definition char_index :: "bool \<Rightarrow> byte \<Rightarrow> int" where
  "char_index char_signed c = (if char_signed then sint c else uint c)"

definition reverse_at :: "bool \<Rightarrow> byte \<Rightarrow> int outcome" where
  "reverse_at char_signed c =
     obind (defined (0 \<le> char_index char_signed c)) (\<lambda>_.
     Inr (kBase64TableReverse ! nat (char_index char_signed c)))"

fun any_unknown :: "bool \<Rightarrow> byte list \<Rightarrow> bool outcome" where
  "any_unknown char_signed [] = Inr False"
| "any_unknown char_signed (c # cs) =
     obind (reverse_at char_signed c) (\<lambda>r. if r < 0 then Inr True else any_unknown char_signed cs)"

definition six_bits :: "int \<Rightarrow> 32 word" where
  "six_bits r = word_of_int r AND 0x3f"

definition join_sextets :: "32 word \<Rightarrow> 32 word \<Rightarrow> 32 word \<Rightarrow> 32 word \<Rightarrow> 32 word" where
  "join_sextets b0 b1 b2 b3 = push_bit 18 b0 OR push_bit 12 b1 OR push_bit 6 b2 OR b3"

definition group_stream :: "bool \<Rightarrow> byte \<Rightarrow> byte \<Rightarrow> byte \<Rightarrow> byte \<Rightarrow> 32 word outcome" where
  "group_stream char_signed input0 input1 input2 input3 =
     obind (reverse_at char_signed input0) (\<lambda>r0. obind (reverse_at char_signed input1) (\<lambda>r1.
     obind (reverse_at char_signed input2) (\<lambda>r2. obind (reverse_at char_signed input3) (\<lambda>r3.
     Inr (join_sextets (six_bits r0) (six_bits r1) (six_bits r2) (six_bits r3))))))"

definition octet :: "nat \<Rightarrow> 32 word \<Rightarrow> byte" where
  "octet k stream = ucast (drop_bit k stream AND 0xFF)"

function decode_loop ::
  "bool \<Rightarrow> byte list \<Rightarrow> nat \<Rightarrow> nat \<Rightarrow> byte list \<Rightarrow> (bool \<times> byte list) outcome" where
  "decode_loop char_signed input i p out =
     (if i < length input
      then
        obind (byte_at input i) (\<lambda>input0.
        obind (byte_at input (i + 1)) (\<lambda>input1.
        let input2 = (if i + 2 < length input then input ! (i + 2) else kBase64NullEnding);
            input3 = (if i + 3 < length input then input ! (i + 3) else kBase64NullEnding)
        in obind (any_unknown char_signed [input0, input1, input2, input3]) (\<lambda>unknown.
           if unknown then Inr (False, out)
           else
             let at_end = (i + 4 \<ge> length input)
             in if input0 = kBase64NullEnding \<or> input1 = kBase64NullEnding \<or>
                   (input2 = kBase64NullEnding \<and> \<not> at_end) \<or>
                   (input2 = kBase64NullEnding \<and> input3 \<noteq> kBase64NullEnding) \<or>
                   (input3 = kBase64NullEnding \<and> \<not> at_end)
                then Inr (False, out)
                else
                  obind (group_stream char_signed input0 input1 input2 input3) (\<lambda>stream.
                     obind (put p (octet 16 stream) out) (\<lambda>out.
                     if input2 = kBase64NullEnding \<and> octet 8 stream \<noteq> 0 then Inr (False, out)
                     else
                       obind (if input2 \<noteq> kBase64NullEnding then put (p + 1) (octet 8 stream) out else Inr out) (\<lambda>out.
                       if input3 = kBase64NullEnding \<and> octet 0 stream \<noteq> 0 then Inr (False, out)
                       else
                         obind (if input3 \<noteq> kBase64NullEnding then put (p + 2) (octet 0 stream) out else Inr out) (\<lambda>out.
                         obind (defined (int (i + 4) \<le> INT_MAX)) (\<lambda>_.
                         decode_loop char_signed input (i + 4) (p + 3) out))))))))
      else Inr (True, out))"
  by pat_completeness auto

termination
  by (relation "measure (\<lambda>(c, input, i, p, out). length input - i)") auto

definition Base64Decode ::
  "bool \<Rightarrow> byte list \<Rightarrow> byte list option \<Rightarrow> (bool \<times> byte list option) outcome" where
  "Base64Decode char_signed input output =
     (case output of
        None \<Rightarrow> Inr (False, None)
      | Some old \<Rightarrow>
          if length input mod 4 = 1 then Inr (False, Some old)
          else
            obind (decode_loop char_signed input 0 0 (resize (GetBase64DecodedSize input) old)) (\<lambda>(ok, out).
            Inr (ok, Some out)))"

declare encode_loop.simps [simp del] decode_loop.simps [simp del]

subsection \<open>Encoding is grouping by three\<close>

fun encode_ref :: "byte list \<Rightarrow> byte list \<Rightarrow> byte list" where
  "encode_ref t [] = []"
| "encode_ref t [a] =
     (let s = stream_of a 0 0 in [t ! sextet 18 s, t ! sextet 12 s, kBase64NullEnding, kBase64NullEnding])"
| "encode_ref t [a, b] =
     (let s = stream_of a b 0 in [t ! sextet 18 s, t ! sextet 12 s, t ! sextet 6 s, kBase64NullEnding])"
| "encode_ref t (a # b # c # xs) =
     (let s = stream_of a b c
      in t ! sextet 18 s # t ! sextet 12 s # t ! sextet 6 s # t ! sextet 0 s # encode_ref t xs)"

lemma put_ok [simp]: "i < length xs \<Longrightarrow> put i v xs = Inr (xs[i := v])"
  by (simp add: put_def)

lemma put_four:
  assumes "p + 4 \<le> length out"
  shows "out[p := a, p + 1 := b, p + 2 := c, p + 3 := d] = take p out @ [a, b, c, d] @ drop (p + 4) out"
  using assms
  by (intro nth_equalityI) (auto simp: nth_append nth_list_update nth_Cons' split: if_splits)

text \<open>The bytes of a group, in terms of what is left of the input.\<close>

lemma drop_nth:
  assumes "drop i xs = ys"
  shows "i + k < length xs \<longleftrightarrow> k < length ys" and "k < length ys \<Longrightarrow> xs ! (i + k) = ys ! k"
    and "drop (i + k) xs = drop k ys" and "length xs - i = length ys"
  using assms by (auto simp: drop_drop add.commute)

lemma encode_group:
  assumes "p + 4 \<le> length out" and "int (length out) \<le> INT_MAX" and "i < length input"
    and "b1 = (if i + 1 < length input then input ! (i + 1) else 0)"
    and "b2 = (if i + 2 < length input then input ! (i + 2) else 0)"
    and "s = stream_of (input ! i) b1 b2"
  shows "encode_loop t input i p out = encode_loop t input (i + 3) (p + 4)
    (take p out @ [t ! sextet 18 s, t ! sextet 12 s,
       if i + 1 < length input then t ! sextet 6 s else kBase64NullEnding,
       if i + 2 < length input then t ! sextet 0 s else kBase64NullEnding] @ drop (p + 4) out)"
proof -
  have "defined (int (p + 4) \<le> INT_MAX) = Inr ()" using assms(1,2) by simp
  then show ?thesis
    unfolding encode_loop.simps [of t input i p out] Let_def assms(4,5,6)
    using assms(1,3) put_four [of p out] by simp
qed

lemma encode_loop_ref:
  assumes "length out = p + 4 * ((length (drop i input) + 2) div 3)" and "int (length out) \<le> INT_MAX"
  shows "encode_loop t input i p out = Inr (take p out @ encode_ref t (drop i input))"
  using assms
proof (induction t "drop i input" arbitrary: i p out rule: encode_ref.induct)
  case (1 t)
  then show ?case using encode_loop.simps [of t input i p out] by simp
next
  case (2 t a)
  note d = drop_nth [OF 2(1) [symmetric]]
  have "i < length input" "input ! i = a" "\<not> i + 1 < length input" "\<not> i + 2 < length input"
    using d(1) [of 0] d(2) [of 0] d(1) [of 1] d(1) [of 2] by auto
  moreover have "encode_loop t input (i + 3) (p + 4) out' = Inr out'" for out'
    using encode_loop.simps [of t input "i + 3" "p + 4" out'] d(1) [of 3] by simp
  ultimately show ?case
    using encode_group [of p out i input _ _ _ t, OF _ _ _ refl refl refl] 2(2,3) by (simp add: 2(1) [symmetric] Let_def)
next
  case (3 t a b)
  note d = drop_nth [OF 3(1) [symmetric]]
  have "i < length input" "input ! i = a" "i + 1 < length input" "input ! (i + 1) = b" "\<not> i + 2 < length input"
    using d(1) [of 0] d(2) [of 0] d(1) [of 1] d(2) [of 1] d(1) [of 2] by auto
  moreover have "encode_loop t input (i + 3) (p + 4) out' = Inr out'" for out'
    using encode_loop.simps [of t input "i + 3" "p + 4" out'] d(1) [of 3] by simp
  ultimately show ?case
    using encode_group [of p out i input _ _ _ t, OF _ _ _ refl refl refl] 3(2,3) by (simp add: 3(1) [symmetric] Let_def)
next
  case (4 t a b c xs)
  note d = drop_nth [OF 4(2) [symmetric]]
  have at: "i < length input" "input ! i = a" "i + 1 < length input" "input ! (i + 1) = b"
    "i + 2 < length input" "input ! (i + 2) = c"
    using d(1) [of 0] d(2) [of 0] d(1) [of 1] d(2) [of 1] d(1) [of 2] d(2) [of 2] by auto
  have xs: "xs = drop (i + 3) input" using d(3) [of 3] by simp
  let ?s = "stream_of a b c"
  let ?out = "take p out @ [t ! sextet 18 ?s, t ! sextet 12 ?s, t ! sextet 6 ?s, t ! sextet 0 ?s] @ drop (p + 4) out"
  have l: "p + 4 \<le> length out" using 4(2,3) by (simp add: 4(2) [symmetric])
  have len: "length ?out = p + 4 + 4 * ((length (drop (i + 3) input) + 2) div 3)"
  proof -
    have "length out = p + 4 * ((length xs + 5) div 3)" using 4(3) by (simp add: 4(2) [symmetric] add.commute)
    moreover have "(length xs + 5) div 3 = (length xs + 2) div 3 + 1" by presburger
    moreover have "length ?out = length out" using l by simp
    ultimately show ?thesis by (simp add: xs [symmetric] del: length_drop)
  qed
  have "encode_loop t input i p out = encode_loop t input (i + 3) (p + 4) ?out"
    using encode_group [OF l 4(4) at(1) refl refl refl, of t] at by simp
  also have "\<dots> = Inr (take (p + 4) ?out @ encode_ref t xs)"
    using 4(1) [OF refl xs len] 4(4) l unfolding xs by simp
  finally show ?case using l by (simp add: 4(2) [symmetric] Let_def)
qed

subsection \<open>Decoding is grouping by four\<close>

definition rev_index :: "byte \<Rightarrow> int" where
  "rev_index c = kBase64TableReverse ! unat c"

definition group_of :: "byte \<Rightarrow> byte \<Rightarrow> byte \<Rightarrow> byte \<Rightarrow> 32 word" where
  "group_of a b c d =
     join_sextets (six_bits (rev_index a)) (six_bits (rev_index b)) (six_bits (rev_index c)) (six_bits (rev_index d))"

text \<open>The bytes of a group that may end the text.\<close>

definition decode_group :: "byte \<Rightarrow> byte \<Rightarrow> byte \<Rightarrow> byte \<Rightarrow> byte list option" where
  "decode_group a b c d =
     (let s = group_of a b c d
      in if rev_index a < 0 \<or> rev_index b < 0 \<or> rev_index c < 0 \<or> rev_index d < 0 \<or>
            a = kBase64NullEnding \<or> b = kBase64NullEnding \<or> (c = kBase64NullEnding \<and> d \<noteq> kBase64NullEnding)
         then None
         else if c = kBase64NullEnding then (if octet 8 s = 0 \<and> octet 0 s = 0 then Some [octet 16 s] else None)
         else if d = kBase64NullEnding then (if octet 0 s = 0 then Some [octet 16 s, octet 8 s] else None)
         else Some [octet 16 s, octet 8 s, octet 0 s])"

fun decode_ref :: "byte list \<Rightarrow> byte list option" where
  "decode_ref [] = Some []"
| "decode_ref [a] = None"
| "decode_ref [a, b] = decode_group a b kBase64NullEnding kBase64NullEnding"
| "decode_ref [a, b, c] = decode_group a b c kBase64NullEnding"
| "decode_ref [a, b, c, d] = decode_group a b c d"
| "decode_ref (a # b # c # d # e # xs) =
     (if c = kBase64NullEnding \<or> d = kBase64NullEnding then None
      else Option.bind (decode_group a b c d) (\<lambda>bs. map_option ((@) bs) (decode_ref (e # xs))))"

text \<open>The bytes the reverse table can be indexed with.\<close>

definition indexable :: "bool \<Rightarrow> byte \<Rightarrow> bool" where
  "indexable char_signed c \<longleftrightarrow> \<not> char_signed \<or> unat c < 128"

lemma sint_small: "unat (c :: byte) < 128 \<Longrightarrow> sint c = int (unat c)"
proof -
  assume "unat c < 128"
  moreover have c: "int (unat c) = uint c" by simp
  ultimately have "uint c < 128" by linarith
  moreover have "- 128 \<le> uint c" using unsigned_greater_eq [of c, where ?'a = int] by linarith
  ultimately have "signed_take_bit 7 (uint c) = uint c" by (intro signed_take_bit_int_eq_self) simp_all
  with c show ?thesis by (simp only: sint_uint) simp
qed

lemma reverse_at_ok: "indexable cs c \<Longrightarrow> reverse_at cs c = Inr (rev_index c)"
  by (auto simp: reverse_at_def char_index_def indexable_def rev_index_def sint_small)

lemma indexable_padding [simp]: "indexable cs kBase64NullEnding"
  by (simp add: indexable_def kBase64NullEnding_def)

lemma any_unknown_ok:
  "(\<And>c. c \<in> set xs \<Longrightarrow> indexable cs c) \<Longrightarrow> any_unknown cs xs = Inr (\<exists>c \<in> set xs. rev_index c < 0)"
  by (induction xs) (auto simp: reverse_at_ok)

lemma group_stream_ok:
  "indexable cs a \<Longrightarrow> indexable cs b \<Longrightarrow> indexable cs c \<Longrightarrow> indexable cs d \<Longrightarrow>
    group_stream cs a b c d = Inr (group_of a b c d)"
  by (simp add: group_stream_def reverse_at_ok group_of_def)

lemma put_up_to_three:
  "p + 3 \<le> length out \<Longrightarrow> out[p := a, p + 1 := b, p + 2 := c] = take p out @ [a, b, c] @ drop (p + 3) out"
  "p + 2 \<le> length out \<Longrightarrow> out[p := a, p + 1 := b] = take p out @ [a, b] @ drop (p + 2) out"
  "p + 1 \<le> length out \<Longrightarrow> out[p := a] = take p out @ [a] @ drop (p + 1) out"
  by (intro nth_equalityI; auto simp: nth_append nth_list_update nth_Cons' intro!: arg_cong [where f = "(!) out"]
      split: if_splits)+

lemma decode_step:
  assumes i: "i + 1 < length input" and ab: "input ! i = a" "input ! (i + 1) = b"
    and c: "c = (if i + 2 < length input then input ! (i + 2) else kBase64NullEnding)"
    and d: "d = (if i + 3 < length input then input ! (i + 3) else kBase64NullEnding)"
    and idx: "indexable cs a" "indexable cs b" "indexable cs c" "indexable cs d"
    and int: "int (i + 4) \<le> INT_MAX"
    and room: "p + (if c = kBase64NullEnding then 1 else if d = kBase64NullEnding then 2 else 3) \<le> length out"
  shows "decode_group a b c d = None \<Longrightarrow> \<exists>out'. decode_loop cs input i p out = Inr (False, out')"
    and "\<not> i + 4 \<ge> length input \<Longrightarrow> c = kBase64NullEnding \<or> d = kBase64NullEnding \<Longrightarrow>
      \<exists>out'. decode_loop cs input i p out = Inr (False, out')"
    and "decode_group a b c d = Some bs \<Longrightarrow> i + 4 \<ge> length input \<or> c \<noteq> kBase64NullEnding \<and> d \<noteq> kBase64NullEnding \<Longrightarrow>
      decode_loop cs input i p out = decode_loop cs input (i + 4) (p + 3) (take p out @ bs @ drop (p + length bs) out) \<and>
      p + length bs \<le> length out"
proof -
  have unk: "any_unknown cs [a, b, c, d] = Inr (rev_index a < 0 \<or> rev_index b < 0 \<or> rev_index c < 0 \<or> rev_index d < 0)"
    using any_unknown_ok [of "[a, b, c, d]" cs] idx by auto
  note st = group_stream_ok [OF idx]
  have df: "defined (int (i + 4) \<le> INT_MAX) = Inr ()" using int by simp
  have "i < length input" using i by simp
  then have bytes: "byte_at input i = Inr a" "byte_at input (i + 1) = Inr b" using i ab by (simp_all add: byte_at_def)
  have unfold: "decode_loop cs input i p out =
      (if rev_index a < 0 \<or> rev_index b < 0 \<or> rev_index c < 0 \<or> rev_index d < 0 then Inr (False, out)
       else if a = kBase64NullEnding \<or> b = kBase64NullEnding \<or> (c = kBase64NullEnding \<and> \<not> i + 4 \<ge> length input) \<or>
          (c = kBase64NullEnding \<and> d \<noteq> kBase64NullEnding) \<or> (d = kBase64NullEnding \<and> \<not> i + 4 \<ge> length input)
       then Inr (False, out)
       else
         let s = group_of a b c d
         in obind (put p (octet 16 s) out) (\<lambda>out.
            if c = kBase64NullEnding \<and> octet 8 s \<noteq> 0 then Inr (False, out)
            else obind (if c \<noteq> kBase64NullEnding then put (p + 1) (octet 8 s) out else Inr out) (\<lambda>out.
              if d = kBase64NullEnding \<and> octet 0 s \<noteq> 0 then Inr (False, out)
              else obind (if d \<noteq> kBase64NullEnding then put (p + 2) (octet 0 s) out else Inr out) (\<lambda>out.
                decode_loop cs input (i + 4) (p + 3) out))))"
    unfolding decode_loop.simps [of cs input i p out] Let_def c [symmetric] d [symmetric] df obind_Inr bytes
    using \<open>i < length input\<close> by (simp add: unk st del: any_unknown.simps)
  show "decode_group a b c d = None \<Longrightarrow> \<exists>out'. decode_loop cs input i p out = Inr (False, out')"
    using room unfolding unfold by (auto simp: decode_group_def Let_def split: if_splits)
  show "\<not> i + 4 \<ge> length input \<Longrightarrow> c = kBase64NullEnding \<or> d = kBase64NullEnding \<Longrightarrow>
      \<exists>out'. decode_loop cs input i p out = Inr (False, out')"
    unfolding unfold by auto
  show "decode_loop cs input i p out = decode_loop cs input (i + 4) (p + 3) (take p out @ bs @ drop (p + length bs) out) \<and>
      p + length bs \<le> length out" if "decode_group a b c d = Some bs"
    "i + 4 \<ge> length input \<or> c \<noteq> kBase64NullEnding \<and> d \<noteq> kBase64NullEnding"
    using that room put_up_to_three [of p out] unfolding unfold
    by (auto simp: decode_group_def Let_def numeral_3_eq_3 split: if_splits)
qed

lemma decoded_size_small:
  "GetBase64DecodedSize [] = 0"
  "GetBase64DecodedSize [a, b] = 1" "GetBase64DecodedSize [a, b, c] = 2"
  "GetBase64DecodedSize [a, b, c, d] =
     (if d = kBase64NullEnding then if c = kBase64NullEnding then 1 else 2 else 3)"
  by (simp_all add: GetBase64DecodedSize_def)

lemma decoded_size_Cons:
  assumes "length (e # xs) mod 4 \<noteq> 1"
  shows "GetBase64DecodedSize (a # b # c # d # e # xs) = 3 + GetBase64DecodedSize (e # xs)"
proof -
  let ?ys = "e # xs" and ?zs = "a # b # c # d # e # xs"
  have m: "length ?zs mod 4 = length ?ys mod 4" by simp presburger
  have last1: "?zs ! (length ?zs - 1) = ?ys ! (length ?ys - 1)" by simp
  have last2: "?zs ! (length ?zs - 2) = ?ys ! (length ?ys - 2)" if "length ?ys mod 4 = 0"
  proof -
    from that have "length ?ys \<ge> 4" by (cases "length ?ys < 4") auto
    then show ?thesis by (auto simp: nth_Cons' numeral_eq_Suc)
  qed
  have p: "(length ?zs + 3) div 4 * 3 = 3 + (length ?ys + 3) div 4 * 3" by simp presburger
  have g: "(length ?ys + 3) div 4 * 3 \<ge> 3" by simp
  show ?thesis
    unfolding GetBase64DecodedSize_def Let_def m last1 p using last2 g assms by auto
qed

lemma decode_last:
  assumes i: "i + 1 < length input" and ab: "input ! i = a" "input ! (i + 1) = b"
    and c: "c = (if i + 2 < length input then input ! (i + 2) else kBase64NullEnding)"
    and d: "d = (if i + 3 < length input then input ! (i + 3) else kBase64NullEnding)"
    and idx: "\<forall>x \<in> set input. indexable cs x" and int: "int (length input) + 4 \<le> INT_MAX"
    and room: "p + (if c = kBase64NullEnding then 1 else if d = kBase64NullEnding then 2 else 3) \<le> length out"
    and at_end: "i + 4 \<ge> length input"
  shows "case decode_group a b c d of
      None \<Rightarrow> \<exists>out'. decode_loop cs input i p out = Inr (False, out')
    | Some bs \<Rightarrow> decode_loop cs input i p out = Inr (True, take p out @ bs @ drop (p + length bs) out) \<and>
        p + length bs \<le> length out"
proof -
  have "indexable cs a" "indexable cs b" "indexable cs c" "indexable cs d"
    using idx i ab c d by auto
  note st = decode_step [OF i ab c d this _ room]
  have int4: "int (i + 4) \<le> INT_MAX" using int i by simp
  have stop: "decode_loop cs input (i + 4) q o' = Inr (True, o')" for q o'
    using decode_loop.simps [of cs input "i + 4" q o'] at_end by simp
  show ?thesis
  proof (cases "decode_group a b c d")
    case None
    with st(1) [OF int4] show ?thesis by simp
  next
    case (Some bs)
    with st(3) [OF int4 Some] at_end stop show ?thesis by simp
  qed
qed

lemma decode_loop_ref:
  assumes idx: "\<forall>c \<in> set input. indexable cs c" and int: "int (length input) + 4 \<le> INT_MAX"
    and "length (drop i input) mod 4 \<noteq> 1" and "p + GetBase64DecodedSize (drop i input) \<le> length out"
  shows "case decode_ref (drop i input) of
      None \<Rightarrow> \<exists>out'. decode_loop cs input i p out = Inr (False, out')
    | Some bs \<Rightarrow> decode_loop cs input i p out = Inr (True, take p out @ bs @ drop (p + length bs) out) \<and>
        p + length bs \<le> length out"
  using assms(3,4)
proof (induction "drop i input" arbitrary: i p out rule: decode_ref.induct)
  case 1
  then show ?case using decode_loop.simps [of cs input i p out] by simp
next
  case (2 a)
  then show ?case by (simp add: 2(1) [symmetric])
next
  case (3 a b)
  note d = drop_nth [OF 3(1) [symmetric]]
  have "i + 1 < length input" "input ! i = a" "input ! (i + 1) = b" "\<not> i + 2 < length input" "\<not> i + 3 < length input"
    "i + 4 \<ge> length input"
    using d(1) [of 1] d(2) [of 0] d(2) [of 1] d(1) [of 2] d(1) [of 3] d(1) [of 4] by auto
  with 3(3) decode_last [OF _ _ _ _ _ idx int, of i a b kBase64NullEnding kBase64NullEnding p out]
  show ?case by (simp add: 3(1) [symmetric] decoded_size_small)
next
  case (4 a b c)
  note d = drop_nth [OF 4(1) [symmetric]]
  have "i + 1 < length input" "input ! i = a" "input ! (i + 1) = b" "i + 2 < length input" "input ! (i + 2) = c"
    "\<not> i + 3 < length input" "i + 4 \<ge> length input"
    using d(1) [of 1] d(2) [of 0] d(2) [of 1] d(1) [of 2] d(2) [of 2] d(1) [of 3] d(1) [of 4] by auto
  with 4(3) decode_last [OF _ _ _ _ _ idx int, of i a b c kBase64NullEnding p out]
  show ?case by (simp add: 4(1) [symmetric] decoded_size_small split: if_splits)
next
  case (5 a b c e)
  note d = drop_nth [OF 5(1) [symmetric]]
  have "i + 1 < length input" "input ! i = a" "input ! (i + 1) = b" "i + 2 < length input" "input ! (i + 2) = c"
    "i + 3 < length input" "input ! (i + 3) = e" "i + 4 \<ge> length input"
    using d(1) [of 1] d(2) [of 0] d(2) [of 1] d(1) [of 2] d(2) [of 2] d(1) [of 3] d(2) [of 3] d(1) [of 4] by auto
  moreover have "p + (if c = kBase64NullEnding then 1 else if e = kBase64NullEnding then 2 else 3) \<le> length out"
    using 5(3) by (auto simp: 5(1) [symmetric] decoded_size_small split: if_splits)
  ultimately show ?case
    using decode_last [OF _ _ _ _ _ idx int, of i a b c e p out] by (simp add: 5(1) [symmetric])
next
  case (6 a b c e f xs)
  note d = drop_nth [OF 6(2) [symmetric]]
  have at: "i + 1 < length input" "input ! i = a" "input ! (i + 1) = b" "i + 2 < length input" "input ! (i + 2) = c"
    "i + 3 < length input" "input ! (i + 3) = e" "i + 4 < length input"
    using d(1) [of 1] d(2) [of 0] d(2) [of 1] d(1) [of 2] d(2) [of 2] d(1) [of 3] d(2) [of 3] d(1) [of 4] by auto
  have xs: "f # xs = drop (i + 4) input" using d(3) [of 4] by simp
  have mod: "length (f # xs) mod 4 \<noteq> 1" using 6(3) unfolding 6(2) [symmetric] by simp presburger
  have size: "p + 3 + GetBase64DecodedSize (f # xs) \<le> length out"
    using 6(4) decoded_size_Cons [OF mod] unfolding 6(2) [symmetric] by simp
  then have room: "p + (if c = kBase64NullEnding then 1 else if e = kBase64NullEnding then 2 else 3) \<le> length out"
    by (auto split: if_splits)
  have ix: "indexable cs a" "indexable cs b" "indexable cs c" "indexable cs e" using idx at by auto
  have int4: "int (i + 4) \<le> INT_MAX" using int at by simp
  have c: "c = (if i + 2 < length input then input ! (i + 2) else kBase64NullEnding)"
    and e: "e = (if i + 3 < length input then input ! (i + 3) else kBase64NullEnding)" using at by simp_all
  note step = decode_step [OF at(1-3) c e ix int4 room]
  have st: "decode_group a b c e = None \<Longrightarrow> \<exists>out'. decode_loop cs input i p out = Inr (False, out')"
    "c = kBase64NullEnding \<or> e = kBase64NullEnding \<Longrightarrow> \<exists>out'. decode_loop cs input i p out = Inr (False, out')"
    "\<And>bs. decode_group a b c e = Some bs \<Longrightarrow> c \<noteq> kBase64NullEnding \<and> e \<noteq> kBase64NullEnding \<Longrightarrow>
      decode_loop cs input i p out = decode_loop cs input (i + 4) (p + 3) (take p out @ bs @ drop (p + length bs) out)"
    using step(1) step(2) step(3) at(8) by (blast, fastforce, blast)
  show ?case
  proof (cases "c = kBase64NullEnding \<or> e = kBase64NullEnding \<or> decode_group a b c e = None")
    case True
    with st(1,2) show ?thesis by (auto simp: 6(2) [symmetric])
  next
    case False
    then obtain bs where bs: "decode_group a b c e = Some bs" and len: "length bs = 3"
      by (auto simp: decode_group_def Let_def split: if_splits)
    let ?out = "take p out @ bs @ drop (p + 3) out"
    have "case decode_ref (f # xs) of
        None \<Rightarrow> \<exists>out'. decode_loop cs input (i + 4) (p + 3) ?out = Inr (False, out')
      | Some cs' \<Rightarrow> decode_loop cs input (i + 4) (p + 3) ?out =
            Inr (True, take (p + 3) ?out @ cs' @ drop (p + 3 + length cs') ?out) \<and> p + 3 + length cs' \<le> length ?out"
      using 6(1) [of bs "i + 4" "p + 3" ?out] False bs xs mod size len by simp
    moreover have "take (p + 3) ?out = take p out @ bs" "drop (p + 3 + k) ?out = drop (p + 3 + k) out" for k
      using size len by (simp_all add: add.commute)
    moreover have "length ?out = length out" using size len by simp
    ultimately show ?thesis
      using st(3) [OF bs] False bs len by (auto simp: 6(2) [symmetric] ac_simps split: option.splits)
  qed
qed

subsection \<open>Bits and tables\<close>

lemma AND_masks: "w AND 63 = take_bit 6 w" "w AND 255 = take_bit 8 w" for w :: "32 word"
  by (simp_all add: take_bit_eq_mask mask_eq_exp_minus_1)

lemma bit_stream: "bit (stream_of a b c) n \<longleftrightarrow>
   (n < 8 \<and> bit c n) \<or> (8 \<le> n \<and> n < 16 \<and> bit b (n - 8)) \<or> (16 \<le> n \<and> n < 24 \<and> bit a (n - 16))"
  by (auto simp: stream_of_def bit_simps AND_masks)

lemma octets: "octet 16 (stream_of a b c) = a" "octet 8 (stream_of a b c) = b" "octet 0 (stream_of a b c) = c"
  unfolding octet_def AND_masks
  by (intro bit_word_eqI; simp add: bit_simps bit_stream)+

lemma six_sextet: "six_bits (int (sextet k s)) = drop_bit k s AND 63"
  by (simp add: six_bits_def sextet_def)

lemma join_stream:
  assumes "\<And>n. bit s n \<Longrightarrow> n < 24"
  shows "join_sextets (drop_bit 18 s AND 63) (drop_bit 12 s AND 63) (drop_bit 6 s AND 63) (drop_bit 0 s AND 63) = s"
proof (rule bit_word_eqI)
  fix n :: nat
  consider "n < 6" | "6 \<le> n" "n < 12" | "12 \<le> n" "n < 18" | "18 \<le> n" "n < 24" | "24 \<le> n" by linarith
  then show "bit (join_sextets (drop_bit 18 s AND 63) (drop_bit 12 s AND 63) (drop_bit 6 s AND 63) (drop_bit 0 s AND 63)) n =
      bit s n"
    using assms [of n] by cases (auto simp: join_sextets_def AND_masks bit_simps)
qed

lemma sextet_less: "sextet k s < 64"
  using take_bit_nat_less_exp [of 6 "unat (drop_bit k s)"] by (simp add: sextet_def AND_masks unsigned_take_bit_eq)

lemma sextet_zero:
  "sextet 6 (stream_of a 0 0) = 0" "sextet 0 (stream_of a b 0) = 0"
proof -
  have "drop_bit 6 (stream_of a 0 0) AND 63 = 0" "drop_bit 0 (stream_of a b 0) AND 63 = 0"
    unfolding AND_masks by (intro bit_word_eqI; simp add: bit_simps bit_stream)+
  then show "sextet 6 (stream_of a 0 0) = 0" "sextet 0 (stream_of a b 0) = 0" by (simp_all add: sextet_def)
qed

definition base64_tables :: "byte list set" where
  "base64_tables = {kBase64Table, kBase64TableUrlSafe}"

lemma tables_checked:
  "\<forall>t \<in> {kBase64Table, kBase64TableUrlSafe}. \<forall>k \<in> set [0..<64].
     rev_index (t ! k) = int k \<and> t ! k \<noteq> kBase64NullEnding \<and> unat (t ! k) < 128"
  by code_simp

lemma table_entry:
  assumes "t \<in> base64_tables"
  shows "rev_index (t ! sextet k s) = int (sextet k s)" and "t ! sextet k s \<noteq> kBase64NullEnding"
    and "unat (t ! sextet k s) < 128"
  using assms tables_checked sextet_less [of k s] by (auto simp: base64_tables_def)

lemma rev_index_padding: "rev_index kBase64NullEnding = 0"
  by code_simp

subsection \<open>Round trip\<close>

lemma stream_small: "bit (stream_of a b c) n \<Longrightarrow> n < 24"
  by (auto simp: bit_stream)

text \<open>The four characters of a full group, and those that a text of one or two last bytes has.\<close>

lemma decode_full:
  assumes t: "t \<in> base64_tables" and s: "s = stream_of a b c"
  shows "decode_group (t ! sextet 18 s) (t ! sextet 12 s) (t ! sextet 6 s) (t ! sextet 0 s) = Some [a, b, c]"
proof -
  have "group_of (t ! sextet 18 s) (t ! sextet 12 s) (t ! sextet 6 s) (t ! sextet 0 s) = s"
    unfolding group_of_def table_entry(1) [OF t] six_sextet s by (rule join_stream [OF stream_small])
  with octets [of a b c] s show ?thesis by (simp add: decode_group_def table_entry [OF t] Let_def)
qed

lemma decode_two:
  assumes t: "t \<in> base64_tables" and s: "s = stream_of a b 0"
  shows "decode_group (t ! sextet 18 s) (t ! sextet 12 s) (t ! sextet 6 s) kBase64NullEnding = Some [a, b]"
proof -
  have "six_bits 0 = drop_bit 0 s AND 63" using six_sextet [of 0 s] sextet_zero(2) s by simp
  then have "group_of (t ! sextet 18 s) (t ! sextet 12 s) (t ! sextet 6 s) kBase64NullEnding = s"
    unfolding group_of_def table_entry(1) [OF t] six_sextet rev_index_padding s
    using join_stream [OF stream_small] s by simp
  with octets [of a b 0] s show ?thesis
    by (simp add: decode_group_def table_entry [OF t] rev_index_padding Let_def)
qed

lemma decode_one:
  assumes t: "t \<in> base64_tables" and s: "s = stream_of a 0 0"
  shows "decode_group (t ! sextet 18 s) (t ! sextet 12 s) kBase64NullEnding kBase64NullEnding = Some [a]"
proof -
  have z: "drop_bit 0 s AND 63 = six_bits 0" "drop_bit 6 s AND 63 = six_bits 0"
    using six_sextet [of 0 s] six_sextet [of 6 s] sextet_zero s by simp_all
  have "join_sextets (drop_bit 18 s AND 63) (drop_bit 12 s AND 63) (drop_bit 6 s AND 63) (drop_bit 0 s AND 63) = s"
    unfolding s by (rule join_stream [OF stream_small])
  then have "group_of (t ! sextet 18 s) (t ! sextet 12 s) kBase64NullEnding kBase64NullEnding = s"
    unfolding z group_of_def table_entry(1) [OF t] six_sextet rev_index_padding .
  with octets [of a 0 0] s show ?thesis
    by (simp add: decode_group_def table_entry [OF t] rev_index_padding Let_def)
qed

text \<open>The text without its padding.\<close>

fun encode_bare :: "byte list \<Rightarrow> byte list \<Rightarrow> byte list" where
  "encode_bare t [] = []"
| "encode_bare t [a] = (let s = stream_of a 0 0 in [t ! sextet 18 s, t ! sextet 12 s])"
| "encode_bare t [a, b] = (let s = stream_of a b 0 in [t ! sextet 18 s, t ! sextet 12 s, t ! sextet 6 s])"
| "encode_bare t (a # b # c # xs) =
     (let s = stream_of a b c
      in t ! sextet 18 s # t ! sextet 12 s # t ! sextet 6 s # t ! sextet 0 s # encode_bare t xs)"

lemma encode_ref_bare:
  "encode_ref t xs = encode_bare t xs @ replicate ((3 - length xs mod 3) mod 3) kBase64NullEnding"
proof (induction t xs rule: encode_ref.induct)
  case (4 t a b c xs)
  have "length (a # b # c # xs) mod 3 = length xs mod 3" by simp
  with 4 show ?case by (simp only: encode_ref.simps encode_bare.simps Let_def append.simps)
qed (simp_all add: Let_def numeral_2_eq_2)

lemma encode_bare_last:
  assumes "t \<in> base64_tables"
  shows "xs \<noteq> [] \<Longrightarrow> encode_bare t xs \<noteq> [] \<and> last (encode_bare t xs) \<noteq> kBase64NullEnding"
  using assms
proof (induction t xs rule: encode_bare.induct)
  case (4 t a b c xs)
  then show ?case by (cases xs) (auto simp: Let_def table_entry(2))
qed (auto simp: Let_def table_entry(2))

lemma resize_prefix: "n \<le> length xs \<Longrightarrow> resize n xs = take n xs"
  by (simp add: resize_def)

lemma trim_padding_bare:
  assumes "ys = [] \<and> k = 0 \<or> ys \<noteq> [] \<and> last ys \<noteq> kBase64NullEnding \<and> k \<le> 2"
  shows "trim_padding (ys @ replicate k kBase64NullEnding) = ys"
proof -
  have ends: "ys \<noteq> [] \<Longrightarrow> ys ! (length ys - 1) \<noteq> kBase64NullEnding" using assms by (auto simp: last_conv_nth)
  consider "k = 0" | "k = 1" "ys \<noteq> []" | "k = 2" "ys \<noteq> []" using assms by (auto simp: le_Suc_eq numeral_2_eq_2)
  then show ?thesis
    using ends by cases (auto simp: trim_padding_def resize_prefix numeral_2_eq_2 nth_append)
qed

lemma decode_ref_more:
  assumes "decode_group w x y z = Some bs" and "y \<noteq> kBase64NullEnding" and "z \<noteq> kBase64NullEnding"
  shows "decode_ref (w # x # y # z # ys) = map_option ((@) bs) (decode_ref ys)"
  using assms by (cases ys) simp_all

lemma decode_encode:
  assumes "t \<in> base64_tables"
  shows "decode_ref (encode_ref t xs) = Some xs" and "decode_ref (encode_bare t xs) = Some xs"
proof -
  show "decode_ref (encode_ref t xs) = Some xs"
    using assms
  proof (induction t xs rule: encode_ref.induct)
    case (4 t a b c xs)
    from decode_ref_more [OF decode_full [OF 4(2) refl, of a b c]] 4 show ?case by (simp add: Let_def table_entry(2))
  qed (simp_all add: Let_def decode_one decode_two)
  show "decode_ref (encode_bare t xs) = Some xs"
    using assms
  proof (induction t xs rule: encode_bare.induct)
    case (4 t a b c xs)
    from decode_ref_more [OF decode_full [OF 4(2) refl, of a b c]] 4 show ?case by (simp add: Let_def table_entry(2))
  qed (simp_all add: Let_def decode_one decode_two)
qed

text \<open>How much longer than its bytes a decoded text is.\<close>

definition stray_padding :: "byte list \<Rightarrow> bool" where
  "stray_padding input \<longleftrightarrow> length input mod 4 = 3 \<and> last input = kBase64NullEnding"

lemma decode_group_length:
  "decode_group a b c d = Some bs \<Longrightarrow>
    length bs = (if c = kBase64NullEnding then 1 else if d = kBase64NullEnding then 2 else 3) \<and>
    (c = kBase64NullEnding \<longrightarrow> d = kBase64NullEnding)"
  by (auto simp: decode_group_def Let_def split: if_splits)

lemma decode_ref_length:
  "decode_ref input = Some bs \<Longrightarrow> length input mod 4 \<noteq> 1 \<and>
    GetBase64DecodedSize input = length bs + (if stray_padding input then 1 else 0)"
proof (induction input arbitrary: bs rule: decode_ref.induct)
  case (3 a b) then show ?case
    using decode_group_length by (fastforce simp: decoded_size_small stray_padding_def)
next
  case (4 a b c) then show ?case
    using decode_group_length by (fastforce simp: decoded_size_small stray_padding_def)
next
  case (5 a b c d) then show ?case
    using decode_group_length by (fastforce simp: decoded_size_small stray_padding_def)
next
  case (6 a b c d e xs)
  then obtain bs1 bs2 where g: "decode_group a b c d = Some bs1" and r: "decode_ref (e # xs) = Some bs2"
    and bs: "bs = bs1 @ bs2" and cd: "c \<noteq> kBase64NullEnding" "d \<noteq> kBase64NullEnding"
    by (auto split: if_splits bind_splits)
  have "length (e # xs) mod 4 \<noteq> 1" and
    size: "GetBase64DecodedSize (e # xs) = length bs2 + (if stray_padding (e # xs) then 1 else 0)"
    using 6(1) [OF _ g r] cd by auto
  moreover have "length (a # b # c # d # e # xs) mod 4 = length (e # xs) mod 4" by simp presburger
  moreover have "stray_padding (a # b # c # d # e # xs) = stray_padding (e # xs)"
    using calculation(3) by (simp add: stray_padding_def)
  moreover have "length bs1 = 3" using decode_group_length [OF g] cd by simp
  ultimately show ?case using decoded_size_Cons [of e xs a b c d] bs by (simp only: length_append) simp
qed (auto simp: decoded_size_small stray_padding_def)

lemma length_encode_ref: "length (encode_ref t xs) = 4 * ((length xs + 2) div 3)"
proof (induction t xs rule: encode_ref.induct)
  case (4 t a b c xs)
  have "(length (a # b # c # xs) + 2) div 3 = (length xs + 2) div 3 + 1" by simp
  with 4 show ?case by (simp only: encode_ref.simps Let_def list.size) simp
qed (simp_all add: Let_def)

lemma encode_ref_indexable:
  "t \<in> base64_tables \<Longrightarrow> \<forall>c \<in> set (encode_ref t xs). indexable cs c"
  by (induction t xs rule: encode_ref.induct) (auto simp: Let_def indexable_def table_entry(3) kBase64NullEnding_def)

lemma resize_tail:
  "drop n (resize n old) = []"
  "drop n (resize (n + 1) old) = [if n < length old then old ! n else 0]"
proof -
  show "drop n (resize n old) = []" by simp
  show "drop n (resize (n + 1) old) = [if n < length old then old ! n else 0]"
    by (rule nth_equalityI) (auto simp: resize_def nth_append)
qed

lemma Base64Decode_ref:
  assumes "\<forall>c \<in> set input. indexable cs c" and "int (length input) + 4 \<le> INT_MAX"
  shows "case decode_ref input of
      None \<Rightarrow> \<exists>out. Base64Decode cs input (Some old) = Inr (False, Some out)
    | Some bs \<Rightarrow> Base64Decode cs input (Some old) =
        Inr (True, Some (bs @ (if stray_padding input then [if length bs < length old then old ! length bs else 0] else [])))"
proof (cases "length input mod 4 = 1")
  case True
  then have "decode_ref input = None" using decode_ref_length [of input] by (cases "decode_ref input") auto
  with True show ?thesis by (simp add: Base64Decode_def)
next
  case False
  let ?out = "resize (GetBase64DecodedSize input) old"
  have loop: "case decode_ref input of
      None \<Rightarrow> \<exists>out'. decode_loop cs input 0 0 ?out = Inr (False, out')
    | Some bs \<Rightarrow> decode_loop cs input 0 0 ?out = Inr (True, bs @ drop (length bs) ?out)"
    using decode_loop_ref [OF assms, of 0 0 ?out] False by (auto split: option.splits)
  show ?thesis
  proof (cases "decode_ref input")
    case None
    with loop False show ?thesis by (auto simp: Base64Decode_def)
  next
    case (Some bs)
    then have "drop (length bs) ?out =
        (if stray_padding input then [if length bs < length old then old ! length bs else 0] else [])"
      using decode_ref_length [OF Some] resize_tail [of "length bs" old] by auto
    with loop Some False show ?thesis by (simp add: Base64Decode_def)
  qed
qed

text \<open>C20: decoding accepts exactly the texts of the grouping \<open>decode_ref\<close> and yields their bytes, with no
  access out of range, for bytes the table can be indexed with (all, where \<open>char\<close> is unsigned). The
  one departure: to a text whose size is 3 modulo 4 and that ends in \<open>=\<close> it appends a byte, which is
  the one the output string held there before the call, or 0.\<close>

theorem Base64Decode_correct:
  assumes "\<forall>c \<in> set input. indexable char_signed c" and "int (length input) + 4 \<le> INT_MAX"
  shows "(decode_ref input = None \<longrightarrow> (\<exists>out. Base64Decode char_signed input (Some old) = Inr (False, Some out))) \<and>
    (\<forall>bs. decode_ref input = Some bs \<longrightarrow>
      (if stray_padding input
       then Base64Decode char_signed input (Some old) =
         Inr (True, Some (bs @ [if length bs < length old then old ! length bs else 0]))
       else Base64Decode char_signed input (Some old) = Inr (True, Some bs)))"
  using Base64Decode_ref [OF assms, of old] by auto

theorem Base64Decode_correct_witness:
  "Base64Decode False (bytes_of ''QQ='') (Some (bytes_of ''xyz'')) = Inr (True, Some (bytes_of ''Ay''))"
proof -
  have "decode_ref (bytes_of ''QQ='') = Some (bytes_of ''A'')" by code_simp
  moreover have "stray_padding (bytes_of ''QQ='')" by code_simp
  moreover have "\<forall>c \<in> set (bytes_of ''QQ=''). indexable False c" by (simp add: indexable_def)
  moreover have "int (length (bytes_of ''QQ='')) + 4 \<le> INT_MAX" by (simp add: bytes_of_def INT_MAX_def)
  ultimately show ?thesis
    using Base64Decode_correct [of "bytes_of ''QQ=''" False "bytes_of ''xyz''"] by (simp add: bytes_of_def)
qed

lemma encode_bare_prefix: "set (encode_bare t xs) \<subseteq> set (encode_ref t xs)"
  by (auto simp: encode_ref_bare)

lemma Base64Encode_text:
  assumes "int (4 * ((length input + 2) div 3)) \<le> INT_MAX"
  shows "\<exists>t \<in> base64_tables. Base64EncodeInternal input (Some old) url_safe pad =
    Inr (True, Some (if pad then encode_ref t input else encode_bare t input))"
proof -
  let ?t = "if url_safe then kBase64TableUrlSafe else kBase64Table"
  have t: "?t \<in> base64_tables" by (simp add: base64_tables_def)
  have "encode_loop ?t input 0 0 (resize (GetBase64EncodedSize input) old) = Inr (encode_ref ?t input)"
    using encode_loop_ref [of "resize (GetBase64EncodedSize input) old" 0 0 input ?t] assms
    by (simp add: GetBase64EncodedSize_def mult.commute)
  moreover have "trim_padding (encode_ref ?t input) = encode_bare ?t input"
    unfolding encode_ref_bare using encode_bare_last [OF t, of input] by (intro trim_padding_bare) (cases input, auto)
  ultimately have "Base64EncodeInternal input (Some old) url_safe pad =
      Inr (True, Some (if pad then encode_ref ?t input else encode_bare ?t input))"
    by (simp add: Base64EncodeInternal_def Let_def)
  with t show ?thesis by blast
qed

lemma base64_decodes_encoded:
  assumes "int (GetBase64EncodedSize input) + 4 \<le> INT_MAX"
  shows "\<exists>text. Base64EncodeInternal input (Some old) url_safe pad = Inr (True, Some text) \<and>
    (pad \<longrightarrow> length text = GetBase64EncodedSize input) \<and> (\<forall>c \<in> set text. unat c < 128) \<and>
    Base64Decode char_signed text (Some old') = Inr (True, Some input)"
proof -
  have size: "int (4 * ((length input + 2) div 3)) \<le> INT_MAX"
    using assms by (simp add: GetBase64EncodedSize_def mult.commute)
  from Base64Encode_text [OF size, of old url_safe pad] obtain t where t: "t \<in> base64_tables"
    and enc: "Base64EncodeInternal input (Some old) url_safe pad =
      Inr (True, Some (if pad then encode_ref t input else encode_bare t input))" by blast
  let ?text = "if pad then encode_ref t input else encode_bare t input"
  have "\<forall>c \<in> set ?text. indexable char_signed c"
    using encode_ref_indexable [OF t, of input char_signed] encode_bare_prefix [of t input] by auto
  moreover have "length (encode_bare t input) \<le> length (encode_ref t input)" by (simp add: encode_ref_bare)
  then have "int (length ?text) + 4 \<le> INT_MAX"
    using assms length_encode_ref [of t input] by (auto simp: GetBase64EncodedSize_def mult.commute)
  moreover have dec: "decode_ref ?text = Some input" using decode_encode [OF t] by simp
  moreover have "\<not> stray_padding ?text"
  proof (cases pad)
    case True
    then show ?thesis by (simp add: stray_padding_def length_encode_ref)
  next
    case False
    with encode_bare_last [OF t, of input] show ?thesis by (cases input) (auto simp: stray_padding_def)
  qed
  ultimately have "Base64Decode char_signed ?text (Some old') = Inr (True, Some input)"
    using Base64Decode_ref [of ?text char_signed old'] by simp
  moreover have "pad \<longrightarrow> length ?text = GetBase64EncodedSize input"
    by (simp add: length_encode_ref GetBase64EncodedSize_def)
  moreover have "\<forall>c \<in> set ?text. unat c < 128"
    using encode_ref_indexable [OF t, of input True] encode_bare_prefix [of t input] by (auto simp: indexable_def)
  ultimately show ?thesis using enc by blast
qed

text \<open>C19: decoding undoes encoding, for every input whose encoding is shorter than \<open>INT_MAX - 4\<close>, with
  either alphabet, with or without padding, whatever the signedness of \<open>char\<close>, and whatever the output
  strings held before; encoding succeeds and yields \<open>GetBase64EncodedSize\<close> characters with padding.\<close>

theorem base64_roundtrip:
  assumes "int (GetBase64EncodedSize input) + 4 \<le> INT_MAX"
  shows "\<exists>text. Base64EncodeInternal input (Some old) url_safe pad = Inr (True, Some text) \<and>
    (pad \<longrightarrow> length text = GetBase64EncodedSize input) \<and>
    Base64Decode char_signed text (Some old') = Inr (True, Some input)"
  using base64_decodes_encoded [OF assms, of old url_safe pad char_signed old'] by blast

theorem base64_roundtrip_witness:
  "\<exists>text. Base64Encode [1, 2, 255, 7] (Some []) = Inr (True, Some text) \<and>
    Base64Decode True text (Some [9]) = Inr (True, Some [1, 2, 255, 7])"
  using base64_roundtrip [of "[1, 2, 255, 7]" "[]" False False True "[9]"]
  by (auto simp: Base64Encode_def GetBase64EncodedSize_def INT_MAX_def)

end
