(* ===== verification/Base32_Codec.thy ===== *)
theory Base32_Codec
  imports Base64_Codec
begin

section \<open>Base32 and hexadecimal\<close>

text \<open>
  \<open>app/src/main/cpp/base32.{h,cc}\<close> and \<open>hex_codec.cc\<close>, of which \<open>CheckEnv\<close> has a copy. The
  \<open>BitConverter\<close> is generic in its three lengths, as the template is; its buffer is an \<open>int\<close> that
  stays below \<open>2 ^ 24\<close>. Its specification is a queue of bits.
\<close>

unbundle bit_operations_syntax

subsection \<open>BitConverter\<close>

record BitConverter =
  bc_buffer :: int
  bc_lower_free_bits :: nat

definition BitConverter_new :: "nat \<Rightarrow> BitConverter" where
  "BitConverter_new buffer_length = \<lparr>bc_buffer = 0, bc_lower_free_bits = buffer_length\<rparr>"

definition BitsAvailable :: "nat \<Rightarrow> BitConverter \<Rightarrow> nat" where
  "BitsAvailable buffer_length c = buffer_length - bc_lower_free_bits c"

definition CanAppend :: "nat \<Rightarrow> BitConverter \<Rightarrow> bool" where
  "CanAppend from_length c \<longleftrightarrow> bc_lower_free_bits c \<ge> from_length"

definition CanExtract :: "nat \<Rightarrow> nat \<Rightarrow> BitConverter \<Rightarrow> bool" where
  "CanExtract to_length buffer_length c \<longleftrightarrow> BitsAvailable buffer_length c \<ge> to_length"

definition Peek :: "nat \<Rightarrow> nat \<Rightarrow> BitConverter \<Rightarrow> int" where
  "Peek to_length buffer_length c = drop_bit (buffer_length - to_length) (bc_buffer c)"

definition Append :: "nat \<Rightarrow> int \<Rightarrow> BitConverter \<Rightarrow> BitConverter outcome" where
  "Append from_length b c =
     obind (check (0 \<le> b \<and> b < 2 ^ from_length)) (\<lambda>_.
     obind (check (CanAppend from_length c)) (\<lambda>_.
     let l = bc_lower_free_bits c - from_length
     in Inr \<lparr>bc_buffer = bc_buffer c OR push_bit l b, bc_lower_free_bits = l\<rparr>))"

definition Extract :: "nat \<Rightarrow> nat \<Rightarrow> BitConverter \<Rightarrow> (BitConverter \<times> int) outcome" where
  "Extract to_length buffer_length c =
     obind (check (CanExtract to_length buffer_length c)) (\<lambda>_.
     Inr (\<lparr>bc_buffer = push_bit to_length (bc_buffer c) AND (2 ^ buffer_length - 1),
           bc_lower_free_bits = bc_lower_free_bits c + to_length\<rparr>, Peek to_length buffer_length c))"

subsection \<open>Base32\<close>

definition kEncoding32 :: "byte list" where
  "kEncoding32 = bytes_of ''ABCDEFGHIJKLMNOPQRSTUVWXYZ234567''"

definition kDecodeMap :: "int list" where
  "kDecodeMap =
    [26, 27, 28, 29, 30, 31, -1, -1, -1, -1, -1, -1, -1, -1,
     -1, 0,  1,  2,  3,  4,  5,  6,  7,  8,  9,  10, 11, 12,
     13, 14, 15, 16, 17, 18, 19, 20, 21, 22, 23, 24, 25]"

text \<open>The loop of \<open>Base32Encode\<close>, with what is left of the input. Each turn extracts five bits and
  appends at most eight, so that with \<open>n\<close> bytes left it turns at most \<open>16 + 8 n\<close> times; the fuel is
  that bound.\<close>

fun encode32_loop :: "nat \<Rightarrow> BitConverter \<Rightarrow> byte list \<Rightarrow> byte list \<Rightarrow> (BitConverter \<times> byte list) option outcome" where
  "encode32_loop 0 c rest output = Inr None"
| "encode32_loop (Suc fuel) c rest output =
     (if CanExtract 5 16 c
      then
        obind (Extract 5 16 c) (\<lambda>(c1, v).
        let output1 = output @ [kEncoding32 ! nat v]
        in case rest of
             [] \<Rightarrow> encode32_loop fuel c1 rest output1
           | b # rest1 \<Rightarrow>
               if CanAppend 8 c1
               then obind (Append 8 (uint b) c1) (\<lambda>c2. encode32_loop fuel c2 rest1 output1)
               else encode32_loop fuel c1 rest output1)
      else Inr (Some (c, output)))"

definition encode32_fuel :: "byte list \<Rightarrow> nat" where
  "encode32_fuel input = 8 * length input + 16"

definition Base32Encode :: "byte list \<Rightarrow> (bool \<times> byte list) option outcome" where
  "Base32Encode input =
     (case input of
        [] \<Rightarrow> Inr (Some (True, []))
      | b # rest \<Rightarrow>
          if length input > (2 ^ 64 - 1) div 8 then Inr (Some (False, []))
          else
            obind (Append 8 (uint b) (BitConverter_new 16)) (\<lambda>c.
            obind (encode32_loop (encode32_fuel input) c rest []) (\<lambda>r.
            case r of
              None \<Rightarrow> Inr None
            | Some (c1, output) \<Rightarrow>
                Inr (Some (True, if BitsAvailable 16 c1 > 0 then output @ [kEncoding32 ! nat (Peek 5 16 c1)] else output)))))"

fun decode32_loop :: "bool \<Rightarrow> byte list \<Rightarrow> BitConverter \<Rightarrow> byte list \<Rightarrow> (bool \<times> byte list) outcome" where
  "decode32_loop char_signed [] c result =
     (if Peek 8 16 c \<noteq> 0 then Inr (False, result) else Inr (True, result))"
| "decode32_loop char_signed (ch # rest) c result =
     (let map_index = char_index char_signed ch - 50
      in if map_index < 0 \<or> map_index \<ge> int (length kDecodeMap) \<or> kDecodeMap ! nat map_index = - 1
         then Inr (False, result)
         else
           obind (Append 5 (kDecodeMap ! nat map_index) c) (\<lambda>c1.
           if CanExtract 8 16 c1
           then obind (Extract 8 16 c1) (\<lambda>(c2, v). decode32_loop char_signed rest c2 (result @ [word_of_int v]))
           else decode32_loop char_signed rest c1 result))"

definition Base32Decode :: "bool \<Rightarrow> byte list \<Rightarrow> (bool \<times> byte list) outcome" where
  "Base32Decode char_signed input = decode32_loop char_signed input (BitConverter_new 16) []"

subsection \<open>Hexadecimal\<close>

definition kEncoding16 :: "byte list" where
  "kEncoding16 = bytes_of ''0123456789abcdef''"

definition HexEncode :: "byte list \<Rightarrow> byte list" where
  "HexEncode input =
     concat (map (\<lambda>b. [kEncoding16 ! unat (drop_bit 4 b), kEncoding16 ! unat (b AND 0xF)]) input)"

subsection \<open>Numbers as bits\<close>

text \<open>The low \<open>k\<close> bits of a number, highest first, and back.\<close>

fun bits_of :: "nat \<Rightarrow> int \<Rightarrow> bool list" where
  "bits_of 0 v = []"
| "bits_of (Suc k) v = bit v k # bits_of k v"

fun val :: "bool list \<Rightarrow> int" where
  "val [] = 0"
| "val (b # bs) = of_bool b * 2 ^ length bs + val bs"

lemma length_bits_of [simp]: "length (bits_of k v) = k"
  by (induction k) simp_all

lemma val_bounds: "0 \<le> val bs" "val bs < 2 ^ length bs"
  by (induction bs) auto

lemma val_append: "val (as @ bs) = val as * 2 ^ length bs + val bs"
  by (induction as) (auto simp: algebra_simps power_add)

lemma val_bits_of: "val (bits_of k v) = take_bit k v"
proof (induction k)
  case (Suc k)
  have "take_bit (Suc k) v = of_bool (bit v k) * 2 ^ k + take_bit k v"
    using take_bit_Suc_from_most [of k v] by simp
  with Suc show ?case by simp
qed simp

lemma bits_of_val: "length bs = k \<Longrightarrow> bits_of k (val bs) = bs"
proof (induction bs arbitrary: k)
  case (Cons b bs)
  have "bits_of n (of_bool b * 2 ^ length bs + val bs) = bits_of n (val bs)" if "n \<le> length bs" for n
    using that
  proof (induction n)
    case (Suc n)
    then have "bit (2 ^ length bs + val bs) n = bit (val bs) n"
      using bit_take_bit_iff [of "length bs" "2 ^ length bs + val bs" n] bit_take_bit_iff [of "length bs" "val bs" n]
        take_bit_int_eq_self [of "val bs" "length bs"] val_bounds [of bs]
      by (simp add: take_bit_eq_mod)
    with Suc show ?case by simp
  qed simp
  moreover have "bit (of_bool b * 2 ^ length bs + val bs) (length bs) = b"
    using val_bounds [of bs] by (simp add: bit_iff_odd)
  ultimately show ?case using Cons by auto
qed simp

lemma val_inject: "length as = length bs \<Longrightarrow> val as = val bs \<Longrightarrow> as = bs"
  using bits_of_val by metis

lemma val_zeros [simp]: "val (replicate n False) = 0"
  by (induction n) simp_all

lemma val_eq_0: "val bs = 0 \<longleftrightarrow> bs = replicate (length bs) False"
  by (metis length_replicate val_inject val_zeros)

subsection \<open>A converter is a queue of bits\<close>

definition holds :: "nat \<Rightarrow> BitConverter \<Rightarrow> bool list \<Rightarrow> bool" where
  "holds n c bs \<longleftrightarrow> length bs + bc_lower_free_bits c = n \<and> bc_buffer c = val bs * 2 ^ bc_lower_free_bits c"

lemma holds_new: "holds n (BitConverter_new n) []"
  by (simp add: holds_def BitConverter_new_def)

lemma or_low:
  fixes b v :: int
  assumes "0 \<le> b" and "b < 2 ^ k"
  shows "v * 2 ^ k OR b = v * 2 ^ k + b"
proof -
  have "b = take_bit k b" using assms by (simp add: take_bit_int_eq_self)
  then have "bit b m \<Longrightarrow> m < k" for m by (metis bit_take_bit_iff)
  moreover have "bit (v * 2 ^ k) m \<Longrightarrow> k \<le> m" for m
    using bit_push_bit_iff [of k v m] by (simp add: push_bit_eq_mult)
  ultimately show ?thesis
    by (intro disjunctive_add [symmetric]) (metis not_le)
qed

lemma Append_bits:
  assumes c: "holds n c bs" and f: "k \<le> bc_lower_free_bits c" and b: "0 \<le> b" "b < 2 ^ k"
  shows "\<exists>c'. Append k b c = Inr c' \<and> holds n c' (bs @ bits_of k b)"
proof -
  let ?f = "bc_lower_free_bits c" and ?l = "bc_lower_free_bits c - k"
  have p: "(2 :: int) ^ ?f = 2 ^ k * 2 ^ ?l" using f by (metis le_add_diff_inverse power_add)
  have "b * 2 ^ ?l < 2 ^ ?f" using b(2) unfolding p by simp
  then have "val bs * 2 ^ ?f OR push_bit ?l b = val bs * 2 ^ ?f + b * 2 ^ ?l"
    using or_low [of "b * 2 ^ ?l" ?f "val bs"] b(1) by (simp add: push_bit_eq_mult)
  also have "\<dots> = val (bs @ bits_of k b) * 2 ^ ?l"
    using b by (simp add: val_append val_bits_of take_bit_int_eq_self p algebra_simps)
  finally show ?thesis using c f b by (auto simp: Append_def CanAppend_def holds_def Let_def)
qed

lemma Extract_bits:
  assumes c: "holds n c bs" and k: "k \<le> length bs"
  shows "\<exists>c'. Extract k n c = Inr (c', val (take k bs)) \<and> holds n c' (drop k bs)"
proof -
  let ?f = "bc_lower_free_bits c" and ?d = "length bs - k"
  have n: "n - k = ?d + ?f" "n = k + (?d + ?f)" using c k by (auto simp: holds_def)
  have v: "val bs = val (take k bs) * 2 ^ ?d + val (drop k bs)"
    using val_append [of "take k bs" "drop k bs"] by simp
  have b: "0 \<le> val (drop k bs)" "val (drop k bs) < 2 ^ ?d" using val_bounds [of "drop k bs"] by simp_all
  have buf: "bc_buffer c = val bs * 2 ^ ?f" using c by (simp add: holds_def)
  have "Peek k n c = (val bs * 2 ^ ?f) div (2 ^ ?d * 2 ^ ?f)"
    unfolding Peek_def n(1) buf by (simp add: drop_bit_eq_div power_add)
  also have "\<dots> = val bs div 2 ^ ?d" by (rule div_mult_mult2) simp
  also have "\<dots> = val (take k bs)" using b by (simp add: v)
  finally have peek: "Peek k n c = val (take k bs)" .
  have "val (take k bs) < 2 ^ k" using val_bounds(2) [of "take k bs"] k by (simp add: min_absorb2)
  have "push_bit k (bc_buffer c) AND (2 ^ n - 1) = (val bs * 2 ^ ?f * 2 ^ k) mod 2 ^ n"
    unfolding buf by (simp add: push_bit_eq_mult take_bit_eq_mask [symmetric] mask_eq_exp_minus_1 [symmetric] take_bit_eq_mod)
  also have "\<dots> = (val (take k bs) * 2 ^ n + val (drop k bs) * 2 ^ (?f + k)) mod 2 ^ n"
    unfolding v by (subst (2) n(2)) (simp add: power_add algebra_simps)
  also have "\<dots> = val (drop k bs) * 2 ^ (?f + k)"
  proof -
    have "(2 :: int) ^ n = 2 ^ ?d * 2 ^ (?f + k)" by (subst n(2)) (simp add: power_add algebra_simps)
    then have "val (drop k bs) * 2 ^ (?f + k) < 2 ^ n" using b(2) by simp
    then show ?thesis using b(1) by simp
  qed
  finally have "push_bit k (bc_buffer c) AND (2 ^ n - 1) = val (drop k bs) * 2 ^ (?f + k)" .
  then show ?thesis
    using peek c k by (auto simp: Extract_def CanExtract_def BitsAvailable_def holds_def)
qed

lemma Peek_bits:
  assumes c: "holds n c bs" and k: "length bs \<le> k" "k \<le> n"
  shows "Peek k n c = val (bs @ replicate (k - length bs) False)"
proof -
  let ?f = "bc_lower_free_bits c"
  have "bc_buffer c = val bs * 2 ^ (k - length bs) * 2 ^ (n - k)" "?f = (k - length bs) + (n - k)"
    using c k by (auto simp: holds_def power_add [symmetric] mult.assoc)
  then show ?thesis by (simp add: Peek_def drop_bit_eq_div val_append)
qed

lemma holds_available: "holds n c bs \<Longrightarrow> BitsAvailable n c = length bs"
  by (auto simp: holds_def BitsAvailable_def)

lemma holds_can:
  "holds n c bs \<Longrightarrow> CanExtract k n c \<longleftrightarrow> k \<le> length bs"
  "holds n c bs \<Longrightarrow> CanAppend k c \<longleftrightarrow> length bs + k \<le> n"
  by (auto simp: holds_def CanExtract_def BitsAvailable_def CanAppend_def)

subsection \<open>Encoding and decoding as regrouping of bits\<close>

definition bits8 :: "byte list \<Rightarrow> bool list" where
  "bits8 xs = concat (map (\<lambda>b. bits_of 8 (uint b)) xs)"

function chunks5 :: "bool list \<Rightarrow> int list" where
  "chunks5 bs =
     (if bs = [] then []
      else if length bs < 5 then [val (bs @ replicate (5 - length bs) False)]
      else val (take 5 bs) # chunks5 (drop 5 bs))"
  by pat_completeness auto

termination by (relation "measure length") auto

function octets8 :: "bool list \<Rightarrow> byte list" where
  "octets8 bs = (if length bs < 8 then [] else word_of_int (val (take 8 bs)) # octets8 (drop 8 bs))"
  by pat_completeness auto

termination by (relation "measure length") auto

function rem8 :: "bool list \<Rightarrow> bool list" where
  "rem8 bs = (if length bs < 8 then bs else rem8 (drop 8 bs))"
  by pat_completeness auto

termination by (relation "measure length") auto

declare chunks5.simps [simp del] octets8.simps [simp del] rem8.simps [simp del]

lemma bits8_simps [simp]: "bits8 [] = []" "bits8 (b # xs) = bits_of 8 (uint b) @ bits8 xs"
  by (simp_all add: bits8_def)

lemma uint_byte: "0 \<le> uint (b :: byte)" "uint (b :: byte) < 2 ^ 8"
  using unsigned_less [of b, where ?'a = int] by simp_all

text \<open>What the loop leaves: the characters of the full chunks, and fewer than five bits.\<close>

lemma encode32_loop_ok:
  assumes "holds 16 c bs" and "rest \<noteq> [] \<longrightarrow> 5 \<le> length bs" and "length bs + 8 * length rest < fuel"
  shows "\<exists>c1 bs1 vs. encode32_loop fuel c rest out = Inr (Some (c1, out @ map (\<lambda>v. kEncoding32 ! nat v) vs)) \<and>
    holds 16 c1 bs1 \<and> length bs1 < 5 \<and>
    chunks5 (bs @ bits8 rest) = vs @ (if bs1 = [] then [] else [val (bs1 @ replicate (5 - length bs1) False)])"
  using assms
proof (induction fuel arbitrary: c bs rest out)
  case (Suc fuel)
  show ?case
  proof (cases "5 \<le> length bs")
    case False
    with Suc.prems have "rest = []" "\<not> CanExtract 5 16 c" by (auto simp: holds_can)
    with Suc.prems False show ?thesis
      by (intro exI [of _ c] exI [of _ bs] exI [of _ "[]"]) (simp add: chunks5.simps [of bs])
  next
    case True
    from Extract_bits [OF Suc.prems(1) True] obtain c1 where
      c1: "Extract 5 16 c = Inr (c1, val (take 5 bs))" "holds 16 c1 (drop 5 bs)" by blast
    have ex: "CanExtract 5 16 c" using Suc.prems(1) True by (simp add: holds_can)
    have ch: "chunks5 (bs @ xs) = val (take 5 bs) # chunks5 (drop 5 bs @ xs)" for xs
      using True by (subst chunks5.simps) auto
    let ?res = "out @ [kEncoding32 ! nat (val (take 5 bs))]"
    have finish: "\<exists>c1 bs1 vs. encode32_loop (Suc fuel) c rest out = Inr (Some (c1, out @ map (\<lambda>v. kEncoding32 ! nat v) vs)) \<and>
        holds 16 c1 bs1 \<and> length bs1 < 5 \<and>
        chunks5 (bs @ bits8 rest) = vs @ (if bs1 = [] then [] else [val (bs1 @ replicate (5 - length bs1) False)])"
      if "encode32_loop (Suc fuel) c rest out = encode32_loop fuel c' rest' ?res"
        "drop 5 bs @ bits8 rest = bs' @ bits8 rest'" "holds 16 c' bs'" "rest' \<noteq> [] \<longrightarrow> 5 \<le> length bs'"
        "length bs' + 8 * length rest' < fuel" for c' bs' rest'
    proof -
      from Suc.IH [OF that(3,4,5), of ?res] obtain c2 bs1 vs where
        "encode32_loop fuel c' rest' ?res = Inr (Some (c2, ?res @ map (\<lambda>v. kEncoding32 ! nat v) vs))"
        "holds 16 c2 bs1" "length bs1 < 5"
        "chunks5 (bs' @ bits8 rest') = vs @ (if bs1 = [] then [] else [val (bs1 @ replicate (5 - length bs1) False)])"
        by blast
      with that(1,2) ch [of "bits8 rest"] show ?thesis
        by (intro exI [of _ c2] exI [of _ bs1] exI [of _ "val (take 5 bs) # vs"]) simp
    qed
    show ?thesis
    proof (cases rest)
      case Nil
      show ?thesis by (rule finish [of c1 "[]" "drop 5 bs"]) (use Nil c1 ex Suc.prems(3) True in simp_all)
    next
      case (Cons b rest1)
      show ?thesis
      proof (cases "CanAppend 8 c1")
        case True
        then have "8 \<le> bc_lower_free_bits c1" by (simp add: CanAppend_def)
        from Append_bits [OF c1(2) this uint_byte] obtain c2 where
          "Append 8 (uint b) c1 = Inr c2" "holds 16 c2 (drop 5 bs @ bits_of 8 (uint b))" by blast
        with Cons c1(1) ex True Suc.prems(3) \<open>5 \<le> length bs\<close> show ?thesis
          by (intro finish [of c2 rest1 "drop 5 bs @ bits_of 8 (uint b)"]) simp_all
      next
        case False
        then have "8 < length (drop 5 bs)" using holds_can(2) [OF c1(2), of 8] by simp
        with False Cons c1 ex Suc.prems(3) \<open>5 \<le> length bs\<close> show ?thesis
          by (intro finish [of c1 rest "drop 5 bs"]) simp_all
      qed
    qed
  qed
qed simp

lemma Base32Encode_chunks:
  assumes "length input \<le> (2 ^ 64 - 1) div 8"
  shows "Base32Encode input = Inr (Some (True, map (\<lambda>v. kEncoding32 ! nat v) (chunks5 (bits8 input))))"
proof (cases input)
  case Nil
  then show ?thesis by (simp add: Base32Encode_def chunks5.simps)
next
  case (Cons b rest)
  from Append_bits [OF holds_new, of 8 16 "uint b"] uint_byte [of b] obtain c where
    c: "Append 8 (uint b) (BitConverter_new 16) = Inr c" "holds 16 c (bits_of 8 (uint b))"
    by (auto simp: BitConverter_new_def)
  from encode32_loop_ok [OF c(2), of rest "encode32_fuel input" "[]"] Cons obtain c1 bs1 vs where
    l: "encode32_loop (encode32_fuel input) c rest [] = Inr (Some (c1, map (\<lambda>v. kEncoding32 ! nat v) vs))"
    "holds 16 c1 bs1" "length bs1 < 5"
    "chunks5 (bits8 input) = vs @ (if bs1 = [] then [] else [val (bs1 @ replicate (5 - length bs1) False)])"
    by (auto simp: encode32_fuel_def)
  have "Peek 5 16 c1 = val (bs1 @ replicate (5 - length bs1) False)" using Peek_bits [OF l(2)] l(3) by simp
  with l c(1) Cons assms show ?thesis by (simp add: Base32Encode_def holds_available [OF l(2)])
qed

definition value32 :: "bool \<Rightarrow> byte \<Rightarrow> int option" where
  "value32 char_signed ch =
     (let i = char_index char_signed ch - 50
      in if i < 0 \<or> i \<ge> int (length kDecodeMap) \<or> kDecodeMap ! nat i = - 1 then None else Some (kDecodeMap ! nat i))"

definition bits5 :: "int list \<Rightarrow> bool list" where
  "bits5 vs = concat (map (bits_of 5) vs)"

lemma bits5_simps [simp]: "bits5 [] = []" "bits5 (v # vs) = bits_of 5 v @ bits5 vs" "bits5 (vs @ ws) = bits5 vs @ bits5 ws"
  by (simp_all add: bits5_def)

lemma kDecodeMap_range: "v \<in> set kDecodeMap \<Longrightarrow> v = - 1 \<or> 0 \<le> v \<and> v < 2 ^ 5"
  by (auto simp: kDecodeMap_def)

lemma value32_range: "value32 cs ch = Some v \<Longrightarrow> 0 \<le> v \<and> v < 2 ^ 5"
  using kDecodeMap_range [of "kDecodeMap ! nat (char_index cs ch - 50)"]
  by (auto simp: value32_def Let_def nth_mem split: if_splits)

lemma decode32_step:
  "decode32_loop cs (ch # rest) c result =
     (case value32 cs ch of
        None \<Rightarrow> Inr (False, result)
      | Some v \<Rightarrow>
          obind (Append 5 v c) (\<lambda>c1.
          if CanExtract 8 16 c1
          then obind (Extract 8 16 c1) (\<lambda>(c2, v). decode32_loop cs rest c2 (result @ [word_of_int v]))
          else decode32_loop cs rest c1 result))"
  by (simp add: value32_def Let_def)

declare decode32_loop.simps(2) [simp del]

lemma decode32_loop_ok:
  assumes "holds 16 c bs" and "length bs < 8"
  shows "case those (map (value32 cs) input) of
      None \<Rightarrow> \<exists>r. decode32_loop cs input c result = Inr (False, r)
    | Some vs \<Rightarrow> decode32_loop cs input c result =
        (let all_bits = bs @ bits5 vs
         in Inr (rem8 all_bits = replicate (length (rem8 all_bits)) False, result @ octets8 all_bits))"
  using assms
proof (induction input arbitrary: c bs result)
  case Nil
  have "Peek 8 16 c = val (bs @ replicate (8 - length bs) False)" using Peek_bits [OF Nil(1)] Nil(2) by simp
  then have "Peek 8 16 c = 0 \<longleftrightarrow> bs = replicate (length bs) False" by (simp add: val_append val_eq_0)
  with Nil show ?case by (simp add: rem8.simps [of bs] octets8.simps [of bs] Let_def)
next
  case (Cons ch input)
  show ?case
  proof (cases "value32 cs ch")
    case None
    then show ?thesis by (simp add: decode32_step)
  next
    case (Some v)
    have "5 \<le> bc_lower_free_bits c" using Cons.prems by (simp add: holds_def)
    from Append_bits [OF Cons.prems(1) this, of v] value32_range [OF Some] obtain c1 where
      c1: "Append 5 v c = Inr c1" "holds 16 c1 (bs @ bits_of 5 v)" by blast
    let ?b = "bs @ bits_of 5 v"
    show ?thesis
    proof (cases "8 \<le> length ?b")
      case False
      then have "decode32_loop cs (ch # input) c result = decode32_loop cs input c1 result"
        using c1 Some by (simp add: decode32_step holds_can [OF c1(2)])
      with Cons.IH [OF c1(2), of result] False Some show ?thesis by (auto simp: Let_def split: option.splits)
    next
      case True
      from Extract_bits [OF c1(2) True] obtain c2 where
        c2: "Extract 8 16 c1 = Inr (c2, val (take 8 ?b))" "holds 16 c2 (drop 8 ?b)" by blast
      let ?r = "result @ [word_of_int (val (take 8 ?b))]"
      have step: "decode32_loop cs (ch # input) c result = decode32_loop cs input c2 ?r"
        using c1 c2 Some True by (simp add: decode32_step holds_can [OF c1(2)])
      have "length (drop 8 ?b) < 8" using Cons.prems(2) by simp
      note IH = Cons.IH [OF c2(2) this, of ?r]
      have o: "octets8 (?b @ xs) = word_of_int (val (take 8 ?b)) # octets8 (drop 8 ?b @ xs)"
        and m: "rem8 (?b @ xs) = rem8 (drop 8 ?b @ xs)" for xs
        using True by (subst octets8.simps, simp, subst rem8.simps, simp)
      show ?thesis
        using IH Some unfolding step
        by (auto simp: Let_def o [simplified] m [simplified] simp del: append_assoc split: option.splits)
          (use o m in \<open>simp_all\<close>)
    qed
  qed
qed

subsection \<open>Properties\<close>

lemma chunks5_bits:
  "\<exists>k. bits5 (chunks5 bs) = bs @ replicate k False \<and> k < 5"
proof (induction bs rule: chunks5.induct)
  case (1 bs)
  consider "bs = []" | "bs \<noteq> []" "length bs < 5" | "5 \<le> length bs" by linarith
  then show ?case
  proof cases
    case 1
    then show ?thesis by (simp add: chunks5.simps)
  next
    case 2
    then have "bits5 (chunks5 bs) = bs @ replicate (5 - length bs) False"
      by (simp add: chunks5.simps [of bs] bits_of_val)
    with 2 show ?thesis by (intro exI [of _ "5 - length bs"]) simp
  next
    case 3
    then have "chunks5 bs = val (take 5 bs) # chunks5 (drop 5 bs)" by (subst chunks5.simps) auto
    moreover have "bits_of 5 (val (take 5 bs)) = take 5 bs" using 3 by (intro bits_of_val) simp
    moreover obtain k where "bits5 (chunks5 (drop 5 bs)) = drop 5 bs @ replicate k False" "k < 5"
      using 1 3 by fastforce
    ultimately show ?thesis by (metis append_assoc append_take_drop_id bits5_simps(2))
  qed
qed

lemma chunks5_range: "v \<in> set (chunks5 bs) \<Longrightarrow> 0 \<le> v \<and> v < 32"
proof (induction bs rule: chunks5.induct)
  case (1 bs)
  show ?case
  proof (cases "length bs < 5")
    case True
    then have "v = val (bs @ replicate (5 - length bs) False)"
      using 1(2) by (subst (asm) chunks5.simps) (auto split: if_splits)
    with val_bounds [of "bs @ replicate (5 - length bs) False"] True show ?thesis by simp
  next
    case False
    then have "v = val (take 5 bs) \<or> v \<in> set (chunks5 (drop 5 bs))"
      using 1(2) by (subst (asm) chunks5.simps) (auto split: if_splits)
    with 1(1) False val_bounds [of "take 5 bs"] show ?thesis by fastforce
  qed
qed

lemma octets8_bits8: "k < 8 \<Longrightarrow> octets8 (bits8 xs @ replicate k False) = xs \<and> rem8 (bits8 xs @ replicate k False) = replicate k False"
proof (induction xs)
  case Nil
  then show ?case by (simp add: octets8.simps rem8.simps)
next
  case (Cons b xs)
  have "take_bit 8 (uint b) = uint b" using uint_byte [of b] by (intro take_bit_int_eq_self)
  then have "word_of_int (val (bits_of 8 (uint b))) = b" by (simp add: val_bits_of)
  with Cons show ?case by (subst octets8.simps, subst rem8.simps) simp
qed

lemma values32_checked:
  "\<forall>char_signed. \<forall>k \<in> set [0..<32]. value32 char_signed (kEncoding32 ! k) = Some (int k)"
  by code_simp

lemma values32_encoded:
  "(\<And>v. v \<in> set vs \<Longrightarrow> 0 \<le> v \<and> v < 32) \<Longrightarrow>
    those (map (value32 cs) (map (\<lambda>v. kEncoding32 ! nat v) vs)) = Some vs"
proof (induction vs)
  case (Cons v vs)
  have "0 \<le> v" "v < 32" using Cons.prems by simp_all
  then have "value32 cs (kEncoding32 ! nat v) = Some v"
    using values32_checked [rule_format, of "nat v" cs] by simp
  with Cons show ?case by simp
qed simp

text \<open>Decoding undoes Base32 encoding. Encoding terminates, fails none of the converter's checks and
  succeeds on every input of at most \<open>SIZE_MAX / 8\<close> bytes; decoding what it yields succeeds and gives
  the input back, whatever the signedness of \<open>char\<close>.\<close>

theorem base32_roundtrip:
  assumes "length input \<le> (2 ^ 64 - 1) div 8"
  shows "\<exists>text. Base32Encode input = Inr (Some (True, text)) \<and> Base32Decode char_signed text = Inr (True, input)"
proof -
  let ?vs = "chunks5 (bits8 input)"
  obtain k where k: "bits5 ?vs = bits8 input @ replicate k False" "k < 5" using chunks5_bits by blast
  have those: "those (map (value32 char_signed) (map (\<lambda>v. kEncoding32 ! nat v) ?vs)) = Some ?vs"
    by (rule values32_encoded) (rule chunks5_range)
  have "Base32Decode char_signed (map (\<lambda>v. kEncoding32 ! nat v) ?vs) = Inr (True, input)"
    using decode32_loop_ok [OF holds_new, of char_signed "map (\<lambda>v. kEncoding32 ! nat v) ?vs" "[]"]
      octets8_bits8 [of k input] k unfolding those by (simp add: Base32Decode_def)
  with Base32Encode_chunks [OF assms] show ?thesis by blast
qed

theorem base32_roundtrip_witness:
  "\<exists>text. Base32Encode [72, 105] = Inr (Some (True, text)) \<and> Base32Decode True text = Inr (True, [72, 105])"
  using base32_roundtrip [of "[72, 105]" True] by simp

text \<open>Decoding Base32 regroups bits. It never fails a check of the converter; it succeeds exactly if
  every character is in the alphabet and the bits that do not fill a byte are zero, and then yields
  the bytes that the characters' bits fill.\<close>

theorem Base32Decode_correct:
  "case those (map (value32 char_signed) input) of
      None \<Rightarrow> \<exists>r. Base32Decode char_signed input = Inr (False, r)
    | Some vs \<Rightarrow> Base32Decode char_signed input =
        Inr (rem8 (bits5 vs) = replicate (length (rem8 (bits5 vs))) False, octets8 (bits5 vs))"
  using decode32_loop_ok [OF holds_new, of char_signed input "[]"]
  by (simp add: Base32Decode_def Let_def split: option.splits)

text \<open>The value of a hexadecimal digit.\<close>

definition hex_value :: "byte \<Rightarrow> nat" where
  "hex_value c = (if unat c < 58 then unat c - 48 else unat c - 87)"

lemma hex_digits: "k < 16 \<Longrightarrow> hex_value (kEncoding16 ! k) = k"
proof -
  have "\<forall>k \<in> set [0..<16]. hex_value (kEncoding16 ! k) = k" by code_simp
  then show "k < 16 \<Longrightarrow> hex_value (kEncoding16 ! k) = k" by simp
qed

lemma hex_byte:
  "hex_value (kEncoding16 ! unat (drop_bit 4 b)) = unat b div 16"
  "hex_value (kEncoding16 ! unat (b AND 0xF)) = unat b mod 16" for b :: byte
proof -
  have hi: "unat (drop_bit 4 b) = unat b div 16" by (simp only: unat_drop_bit_eq) (simp add: drop_bit_eq_div)
  have m: "b AND 0xF = take_bit 4 b" by (simp add: take_bit_eq_mask mask_eq_exp_minus_1)
  have lo: "unat (b AND 0xF) = unat b mod 16"
    unfolding m by (simp only: unsigned_take_bit_eq) (simp add: take_bit_eq_mod)
  have "unat b < 256" using unsigned_less [of b, where ?'a = nat] by simp
  then have "unat b div 16 < 16" by linarith
  with hi lo show "hex_value (kEncoding16 ! unat (drop_bit 4 b)) = unat b div 16"
    "hex_value (kEncoding16 ! unat (b AND 0xF)) = unat b mod 16" by (simp_all add: hex_digits)
qed

text \<open>A hexadecimal text determines its input: it has two digits for each byte, in order, the
  first worth the high half and the second the low half of the byte.\<close>

theorem HexEncode_correct:
  "length (HexEncode input) = 2 * length input \<and>
    (\<forall>i < length input. 16 * hex_value (HexEncode input ! (2 * i)) + hex_value (HexEncode input ! (2 * i + 1)) =
      unat (input ! i))"
proof (induction input)
  case Nil
  show ?case by (simp add: HexEncode_def)
next
  case (Cons b input)
  have e: "HexEncode (b # input) = kEncoding16 ! unat (drop_bit 4 b) # kEncoding16 ! unat (b AND 0xF) # HexEncode input"
    by (simp add: HexEncode_def)
  show ?case
  proof (intro conjI allI impI)
    show "length (HexEncode (b # input)) = 2 * length (b # input)" using Cons e by simp
    fix i assume "i < length (b # input)"
    with Cons show "16 * hex_value (HexEncode (b # input) ! (2 * i)) + hex_value (HexEncode (b # input) ! (2 * i + 1)) =
        unat ((b # input) ! i)"
      by (cases i) (simp_all add: e hex_byte)
  qed
qed

theorem HexEncode_correct_witness: "length (HexEncode [254]) = 2"
  using HexEncode_correct [of "[254]"] by simp

end
