(* ===== verification/Ascii_Trie.thy ===== *)
theory Ascii_Trie
  imports Base64_Codec "HOL-Library.Sublist"
begin

section \<open>The prefix trie\<close>

text \<open>
  \<open>app/src/main/cpp/ascii_trie.{h,cc}\<close>. The array of children of a node is a function of the index,
  every access to it guarded by the bounds of the array; a null child is \<open>None\<close>. A \<open>const char*\<close> is
  the list of the bytes before its terminator, and an embedded 0 ends it, as for the code. What
  a query answers is stated over the set of entries alone.
\<close>

subsection \<open>The model\<close>

datatype TrieNode = TrieNode (children: "nat \<Rightarrow> TrieNode option")

type_synonym TrieNodePtr = "TrieNode option"

definition kMaxAsciiValue :: int where "kMaxAsciiValue = 128"

definition make_unique_node :: TrieNode where
  "make_unique_node = TrieNode (\<lambda>_. None)"

definition child_at :: "TrieNode \<Rightarrow> int \<Rightarrow> TrieNodePtr outcome" where
  "child_at n ch = obind (defined (0 \<le> ch \<and> ch < kMaxAsciiValue)) (\<lambda>_. Inr (children n (nat ch)))"

fun Add :: "bool \<Rightarrow> TrieNodePtr \<Rightarrow> byte list \<Rightarrow> TrieNodePtr outcome" where
  "Add char_signed trie [] = Inr trie"
| "Add char_signed trie (c # entry) =
     (let ch = char_index char_signed c
      in obind (check (ch < kMaxAsciiValue)) (\<lambda>_.
         if ch \<noteq> 0
         then
           let node = (case trie of None \<Rightarrow> make_unique_node | Some n \<Rightarrow> n)
           in obind (child_at node ch) (\<lambda>child.
              obind (Add char_signed child entry) (\<lambda>child1.
              Inr (Some (TrieNode ((children node)(nat ch := child1))))))
         else Inr trie))"

definition MakeTrie :: "bool \<Rightarrow> byte list list \<Rightarrow> TrieNodePtr outcome" where
  "MakeTrie char_signed entries = ofold (\<lambda>entry result. Add char_signed result entry) entries None"

definition Fill :: "bool \<Rightarrow> byte list list \<Rightarrow> TrieNodePtr \<Rightarrow> TrieNodePtr outcome" where
  "Fill char_signed entries trie_root = MakeTrie char_signed entries"

text \<open>The loop of the static \<open>Query\<close>: where it stands, whether that is another node than the root
  (\<open>trie_position != trie\<close>; a walk down a tree never comes back), and whether \<open>child\<close> is null.\<close>

fun query_loop :: "bool \<Rightarrow> TrieNode \<Rightarrow> bool \<Rightarrow> bool \<Rightarrow> byte list \<Rightarrow> bool outcome" where
  "query_loop char_signed trie_position moved no_child [] = Inr (no_child \<and> moved)"
| "query_loop char_signed trie_position moved no_child (c # rest) =
     (let ch = char_index char_signed c
      in if ch = 0 then Inr (no_child \<and> moved)
         else
           obind (child_at trie_position ch) (\<lambda>child.
           case child of
             None \<Rightarrow> Inr moved
           | Some n \<Rightarrow> query_loop char_signed n True False rest))"

definition Query_static :: "bool \<Rightarrow> TrieNode \<Rightarrow> byte list \<Rightarrow> bool outcome" where
  "Query_static char_signed trie query = query_loop char_signed trie False True query"

definition Query :: "bool \<Rightarrow> TrieNodePtr \<Rightarrow> byte list \<Rightarrow> bool outcome" where
  "Query char_signed trie_root argument =
     (case trie_root of None \<Rightarrow> Inr True | Some n \<Rightarrow> Query_static char_signed n argument)"

subsection \<open>The nodes of a filled trie\<close>

text \<open>Text the trie is meant for: ASCII without an embedded terminator.\<close>

definition ascii :: "byte list \<Rightarrow> bool" where
  "ascii s \<longleftrightarrow> (\<forall>c \<in> set s. 0 < unat c \<and> unat c < 128)"

fun node_at :: "TrieNodePtr \<Rightarrow> byte list \<Rightarrow> bool" where
  "node_at None w = False"
| "node_at (Some n) [] = True"
| "node_at (Some n) (c # w) = node_at (children n (unat c)) w"

lemma ascii_simps [simp]:
  "ascii []" "ascii (c # s) \<longleftrightarrow> 0 < unat c \<and> unat c < 128 \<and> ascii s"
  by (auto simp: ascii_def)

lemma char_index_ascii:
  assumes "0 < unat c" and "unat c < 128"
  shows "char_index cs c \<noteq> 0" and "char_index cs c < kMaxAsciiValue" and "nat (char_index cs c) = unat c"
    and "child_at n (char_index cs c) = Inr (children n (unat c))"
proof -
  have i: "char_index cs c = int (unat c)" using assms by (simp only: char_index_def sint_small) simp
  show 1: "char_index cs c \<noteq> 0" and 2: "char_index cs c < kMaxAsciiValue" and 3: "nat (char_index cs c) = unat c"
    using i assms by (simp_all only: kMaxAsciiValue_def)
  have "0 \<le> char_index cs c" unfolding i by simp
  with 2 3 show "child_at n (char_index cs c) = Inr (children n (unat c))" by (simp add: child_at_def)
qed

lemma node_at_Nil [simp]: "node_at t [] \<longleftrightarrow> t \<noteq> None"
  by (cases t) auto

lemma strict_prefix_Cons_Cons [simp]: "strict_prefix (a # v) (b # w) \<longleftrightarrow> a = b \<and> strict_prefix v w"
  by (auto simp: strict_prefix_def)

lemma Add_nodes:
  "ascii e \<Longrightarrow> \<exists>t'. Add cs t e = Inr t' \<and> (\<forall>w. ascii w \<longrightarrow> (node_at t' w \<longleftrightarrow> node_at t w \<or> strict_prefix w e))"
proof (induction e arbitrary: t)
  case (Cons c e)
  let ?n = "case t of None \<Rightarrow> make_unique_node | Some n \<Rightarrow> n"
  from Cons.prems have c: "0 < unat c" "unat c < 128" by simp_all
  from Cons obtain k where k: "Add cs (children ?n (unat c)) e = Inr k"
    and nodes: "\<forall>w. ascii w \<longrightarrow> (node_at k w \<longleftrightarrow> node_at (children ?n (unat c)) w \<or> strict_prefix w e)" by fastforce
  let ?t = "Some (TrieNode ((children ?n)(unat c := k)))"
  have "Add cs t (c # e) = Inr ?t"
    using c k by (simp add: char_index_ascii Let_def)
  moreover have "node_at ?t w \<longleftrightarrow> node_at t w \<or> strict_prefix w (c # e)" if w: "ascii w" for w
  proof (cases w)
    case (Cons d v)
    have "node_at t w \<longleftrightarrow> node_at (children ?n (unat d)) v"
      using Cons by (cases t) (simp_all add: make_unique_node_def)
    with Cons nodes w show ?thesis by (cases "d = c") (auto simp: word_unat_eq_iff)
  qed simp
  ultimately show ?case by blast
qed simp

lemma fill_nodes:
  "\<forall>e \<in> set entries. ascii e \<Longrightarrow> \<exists>t'. ofold (\<lambda>e r. Add cs r e) entries t = Inr t' \<and>
    (\<forall>w. ascii w \<longrightarrow> (node_at t' w \<longleftrightarrow> node_at t w \<or> (\<exists>e \<in> set entries. strict_prefix w e)))"
proof (induction entries arbitrary: t)
  case (Cons e entries)
  then obtain t1 where "Add cs t e = Inr t1"
    and "\<forall>w. ascii w \<longrightarrow> (node_at t1 w \<longleftrightarrow> node_at t w \<or> strict_prefix w e)"
    using Add_nodes [of e cs t] by auto
  with Cons show ?case by fastforce
qed simp

subsection \<open>What a query answers\<close>

lemma query_loop_below:
  "ascii q \<Longrightarrow> query_loop cs n True False q = Inr (\<not> node_at (Some n) q)"
proof (induction q arbitrary: n)
  case (Cons c q)
  then show ?case by (auto simp: Let_def char_index_ascii split: option.splits)
qed simp

lemma Query_nodes:
  assumes "ascii q"
  shows "Query cs t q = Inr (t = None \<or> q \<noteq> [] \<and> node_at t [hd q] \<and> \<not> node_at t q)"
proof (cases t)
  case (Some n)
  show ?thesis
  proof (cases q)
    case (Cons c q')
    with Some assms query_loop_below [of q'] show ?thesis
      by (cases "children n (unat c)") (auto simp: Query_def Query_static_def Let_def char_index_ascii)
  qed (simp add: Query_def Query_static_def Some)
qed (simp add: Query_def)

text \<open>C21: filling a trie with ASCII entries and querying it with ASCII text never fails, and answers from
  the first letter of the text and its whole alone: it is true when every entry is empty, and
  otherwise exactly when some entry starts with the first letter and goes on, and no entry properly
  extends the text. So of the entry \<open>foo\<close> any text that starts with \<open>f\<close>, other than \<open>f\<close> and \<open>fo\<close>,
  is said to have it as a prefix, and an entry of one letter is never found.\<close>

theorem Query_correct:
  assumes "\<forall>e \<in> set entries. ascii e" and "ascii argument"
  shows "\<exists>node. Fill char_signed entries old = Inr node \<and>
    Query char_signed node argument =
      Inr ((\<forall>e \<in> set entries. e = []) \<or>
        argument \<noteq> [] \<and> (\<exists>e \<in> set entries. e \<noteq> [] \<and> hd e = hd argument \<and> length e > 1) \<and>
        \<not> (\<exists>e \<in> set entries. strict_prefix argument e))"
proof -
  obtain t where t: "Fill char_signed entries old = Inr t"
    and nodes: "\<forall>w. ascii w \<longrightarrow> (node_at t w \<longleftrightarrow> (\<exists>e \<in> set entries. strict_prefix w e))"
    using fill_nodes [OF assms(1), of char_signed None] by (auto simp: Fill_def MakeTrie_def)
  have root: "t = None \<longleftrightarrow> (\<forall>e \<in> set entries. e = [])" using nodes [rule_format, of "[]"] by (auto simp: strict_prefix_def)
  have letter: "strict_prefix [c] e \<longleftrightarrow> e \<noteq> [] \<and> hd e = c \<and> length e > 1" for c :: byte and e
    by (cases e) (auto simp: strict_prefix_def)
  have "node_at t [hd argument] \<longleftrightarrow> (\<exists>e \<in> set entries. e \<noteq> [] \<and> hd e = hd argument \<and> length e > 1)"
    if "argument \<noteq> []"
    using nodes [rule_format, of "[hd argument]"] that assms(2) unfolding letter by (cases argument) auto
  with t root nodes assms(2) show ?thesis by (auto simp: Query_nodes)
qed

theorem Query_correct_witness:
  "\<exists>node. Fill True [bytes_of ''foo''] None = Inr node \<and> Query True node (bytes_of ''fx'') = Inr True"
  using Query_correct [of "[bytes_of ''foo'']" "bytes_of ''fx''" True None]
  by (auto simp: bytes_of_def strict_prefix_def)

end
