(* ===== verification/Concurrent_Loop.thy ===== *)
theory Concurrent_Loop
  imports Task_Queues
begin

section \<open>The concurrent message loop\<close>

text \<open>
  \<open>app/src/main/cpp/concurrent_message_loop.{h,cc}\<close>: a pool of workers that share a queue of closures
  under one mutex, with one condition variable. Every operation is one atomic segment under the
  mutex, together with what it does after it has released it: the closures the caller runs itself
  and the notification it sends. A worker is a thread that repeats \<open>WorkerMain\<close>; the system below
  interleaves the segments of the workers with those of any other threads. A wait can end without
  a notification, and \<open>notify_one\<close> of a post comes some time after the post. A closure that itself
  posts tasks does so through the same operations, at any point at which another thread may run.

  Shown: no task is run twice or forgotten while the loop runs, no notification is lost, and what
  becomes of the queue when the loop is shut down.
\<close>

subsection \<open>The loop and its operations\<close>

record 'c ConcurrentMessageLoop =
  cm_worker_count :: nat
  cm_tasks :: "'c list"
  cm_worker_thread_ids :: "thread_id list"
  cm_thread_tasks :: "thread_id \<rightharpoonup> 'c list"
  cm_shutdown :: bool

datatype notice = No_Notice | Notify_One | Notify_All

text \<open>The constructor, with the identifiers the system gives to the threads it starts.\<close>

definition ConcurrentMessageLoop_new :: "nat \<Rightarrow> (nat \<Rightarrow> thread_id) \<Rightarrow> 'c ConcurrentMessageLoop" where
  "ConcurrentMessageLoop_new worker_count thread_of =
     (let n = max worker_count 1
      in \<lparr>cm_worker_count = n, cm_tasks = [], cm_worker_thread_ids = map thread_of [0..<n],
          cm_thread_tasks = Map.empty, cm_shutdown = False\<rparr>)"

definition ConcurrentMessageLoop_GetWorkerCount :: "'c ConcurrentMessageLoop \<Rightarrow> nat" where
  "ConcurrentMessageLoop_GetWorkerCount l = cm_worker_count l"

text \<open>The new state, the closures run on the caller's thread, and the notification.\<close>

definition ConcurrentMessageLoop_PostTask ::
  "'c closure \<Rightarrow> 'c ConcurrentMessageLoop \<Rightarrow> 'c ConcurrentMessageLoop \<times> 'c list \<times> notice" where
  "ConcurrentMessageLoop_PostTask task l =
     (case task of
        None \<Rightarrow> (l, [], No_Notice)
      | Some c \<Rightarrow>
          if cm_shutdown l then (l, [c], No_Notice)
          else (l\<lparr>cm_tasks := cm_tasks l @ [c]\<rparr>, [], Notify_One))"

definition ConcurrentMessageLoop_Terminate ::
  "'c ConcurrentMessageLoop \<Rightarrow> 'c ConcurrentMessageLoop \<times> notice" where
  "ConcurrentMessageLoop_Terminate l = (l\<lparr>cm_shutdown := True\<rparr>, Notify_All)"

text \<open>\<open>thread_tasks_[id].emplace_back(task)\<close>.\<close>

definition emplace_thread_task :: "'c \<Rightarrow> thread_id \<Rightarrow> (thread_id \<rightharpoonup> 'c list) \<Rightarrow> (thread_id \<rightharpoonup> 'c list)" where
  "emplace_thread_task c t m = m(t \<mapsto> (case m t of None \<Rightarrow> [] | Some cs \<Rightarrow> cs) @ [c])"

definition ConcurrentMessageLoop_PostTaskToAllWorkers ::
  "'c closure \<Rightarrow> 'c ConcurrentMessageLoop \<Rightarrow> 'c ConcurrentMessageLoop \<times> notice" where
  "ConcurrentMessageLoop_PostTaskToAllWorkers task l =
     (case task of
        None \<Rightarrow> (l, No_Notice)
      | Some c \<Rightarrow>
          (l\<lparr>cm_thread_tasks := fold (emplace_thread_task c) (cm_worker_thread_ids l) (cm_thread_tasks l)\<rparr>, Notify_All))"

definition HasThreadTasksLocked :: "thread_id \<Rightarrow> 'c ConcurrentMessageLoop \<Rightarrow> bool" where
  "HasThreadTasksLocked self l \<longleftrightarrow> cm_thread_tasks l self \<noteq> None"

definition GetThreadTasksLocked ::
  "thread_id \<Rightarrow> 'c ConcurrentMessageLoop \<Rightarrow> ('c ConcurrentMessageLoop \<times> 'c list) outcome" where
  "GetThreadTasksLocked self l =
     (case cm_thread_tasks l self of
        None \<Rightarrow> Inl Check_Failed
      | Some pending_tasks \<Rightarrow> Inr (l\<lparr>cm_thread_tasks := (cm_thread_tasks l)(self := None)\<rparr>, pending_tasks))"

text \<open>The predicate of the wait in \<open>WorkerMain\<close>, the segment from there to the release of the mutex
  (with \<open>shutdown_now\<close>, \<open>task\<close> and \<open>thread_tasks\<close>), and the closures called after it.\<close>

definition worker_predicate :: "thread_id \<Rightarrow> 'c ConcurrentMessageLoop \<Rightarrow> bool" where
  "worker_predicate self l \<longleftrightarrow> cm_tasks l \<noteq> [] \<or> cm_shutdown l \<or> HasThreadTasksLocked self l"

definition WorkerMain_take ::
  "thread_id \<Rightarrow> 'c ConcurrentMessageLoop \<Rightarrow> ('c ConcurrentMessageLoop \<times> bool \<times> 'c closure \<times> 'c list) outcome" where
  "WorkerMain_take self l =
     (let shutdown_now = cm_shutdown l;
          (l1, task) = (case cm_tasks l of [] \<Rightarrow> (l, None) | c # cs \<Rightarrow> (l\<lparr>cm_tasks := cs\<rparr>, Some c))
      in if HasThreadTasksLocked self l1
         then obind (GetThreadTasksLocked self l1) (\<lambda>(l2, thread_tasks).
              obind (check (\<not> HasThreadTasksLocked self l2)) (\<lambda>_.
              Inr (l2, shutdown_now, task, thread_tasks)))
         else Inr (l1, shutdown_now, task, []))"

definition WorkerMain_calls :: "'c closure \<Rightarrow> 'c list \<Rightarrow> 'c list" where
  "WorkerMain_calls task thread_tasks = (case task of None \<Rightarrow> [] | Some c \<Rightarrow> [c]) @ thread_tasks"

subsection \<open>The task runner of the loop\<close>

record ConcurrentTaskRunner =
  cr_weak_loop :: nat

definition ConcurrentMessageLoop_GetTaskRunner :: "nat \<Rightarrow> ConcurrentTaskRunner" where
  "ConcurrentMessageLoop_GetTaskRunner this = \<lparr>cr_weak_loop = this\<rparr>"

text \<open>With the loops that are still alive; \<open>weak_loop_.lock()\<close> is null for the others.\<close>

definition ConcurrentTaskRunner_PostTask ::
  "ConcurrentTaskRunner \<Rightarrow> 'c closure \<Rightarrow> (nat \<rightharpoonup> 'c ConcurrentMessageLoop) \<Rightarrow>
   (nat \<rightharpoonup> 'c ConcurrentMessageLoop) \<times> 'c list \<times> notice" where
  "ConcurrentTaskRunner_PostTask r task loops =
     (case task of
        None \<Rightarrow> (loops, [], No_Notice)
      | Some c \<Rightarrow>
          case loops (cr_weak_loop r) of
            Some l \<Rightarrow>
              (case ConcurrentMessageLoop_PostTask task l of
                 (l', inline_calls, n) \<Rightarrow> (loops(cr_weak_loop r \<mapsto> l'), inline_calls, n))
          | None \<Rightarrow> (loops, [c], No_Notice))"

subsection \<open>Workers and other threads\<close>

datatype 'c worker_pc =
    At_Lock
  | Waiting
  | Notified
  | Running bool "'c list"
  | Exited

text \<open>\<open>cs_notices\<close> counts the posts whose \<open>notify_one\<close> is still to come; \<open>cs_called\<close> and \<open>cs_posted\<close>
  are histories: the closures called so far and the closures handed to the loop (once for every
  worker, when posted to all workers).\<close>

record 'c conc_sys =
  cs_loop :: "'c ConcurrentMessageLoop"
  cs_pc :: "thread_id \<Rightarrow> 'c worker_pc"
  cs_notices :: nat
  cs_called :: "'c list"
  cs_posted :: "'c multiset"

abbreviation worker_ids :: "'c conc_sys \<Rightarrow> thread_id set" where
  "worker_ids s \<equiv> set (cm_worker_thread_ids (cs_loop s))"

definition conc_start :: "nat \<Rightarrow> (nat \<Rightarrow> thread_id) \<Rightarrow> 'c conc_sys" where
  "conc_start worker_count thread_of =
     \<lparr>cs_loop = ConcurrentMessageLoop_new worker_count thread_of, cs_pc = (\<lambda>_. At_Lock), cs_notices = 0,
      cs_called = [], cs_posted = {#}\<rparr>"

definition notify_all :: "(thread_id \<Rightarrow> 'c worker_pc) \<Rightarrow> thread_id \<Rightarrow> 'c worker_pc" where
  "notify_all pc t = (case pc t of Waiting \<Rightarrow> Notified | p \<Rightarrow> p)"

definition wants_lock :: "'c worker_pc \<Rightarrow> bool" where
  "wants_lock p \<longleftrightarrow> (case p of At_Lock \<Rightarrow> True | Notified \<Rightarrow> True | _ \<Rightarrow> False)"

text \<open>What a notice does: \<open>notify_all\<close> wakes every waiting worker, \<open>notify_one\<close> is on its way until
  it is delivered, and no notice changes nothing.\<close>

definition give_notice :: "notice \<Rightarrow> 'c conc_sys \<Rightarrow> 'c conc_sys" where
  "give_notice n s =
     (case n of
        No_Notice \<Rightarrow> s
      | Notify_One \<Rightarrow> s\<lparr>cs_notices := Suc (cs_notices s)\<rparr>
      | Notify_All \<Rightarrow> s\<lparr>cs_pc := notify_all (cs_pc s)\<rparr>)"

text \<open>The segments of the workers alone. A worker that waits does nothing until it has been woken.\<close>

inductive worker_step :: "'c conc_sys \<Rightarrow> 'c conc_sys \<Rightarrow> bool" where
  proceed: "t \<in> worker_ids s \<Longrightarrow> wants_lock (cs_pc s t) \<Longrightarrow> worker_predicate t (cs_loop s) \<Longrightarrow>
    WorkerMain_take t (cs_loop s) = Inr (l, shutdown_now, task, thread_tasks) \<Longrightarrow>
    worker_step s (s\<lparr>cs_loop := l, cs_pc := (cs_pc s)(t := Running shutdown_now (WorkerMain_calls task thread_tasks))\<rparr>)"
| sleep: "t \<in> worker_ids s \<Longrightarrow> wants_lock (cs_pc s t) \<Longrightarrow> \<not> worker_predicate t (cs_loop s) \<Longrightarrow>
    worker_step s (s\<lparr>cs_pc := (cs_pc s)(t := Waiting)\<rparr>)"
| call: "t \<in> worker_ids s \<Longrightarrow> cs_pc s t = Running shutdown_now (c # cs) \<Longrightarrow>
    worker_step s (s\<lparr>cs_called := cs_called s @ [c], cs_pc := (cs_pc s)(t := Running shutdown_now cs)\<rparr>)"
| turn: "t \<in> worker_ids s \<Longrightarrow> cs_pc s t = Running shutdown_now [] \<Longrightarrow>
    worker_step s (s\<lparr>cs_pc := (cs_pc s)(t := if shutdown_now then Exited else At_Lock)\<rparr>)"

text \<open>The workers among the other threads. Every operation gives the notice it answers; a wait may also
  end by itself (\<open>spurious\<close>).\<close>

inductive conc_step :: "'c conc_sys \<Rightarrow> 'c conc_sys \<Rightarrow> bool" where
  worker: "worker_step s s' \<Longrightarrow> conc_step s s'"
| post: "ConcurrentMessageLoop_PostTask task (cs_loop s) = (l, inline_calls, n) \<Longrightarrow>
    conc_step s (give_notice n (s\<lparr>cs_loop := l, cs_called := cs_called s @ inline_calls,
      cs_posted := cs_posted s + (case task of None \<Rightarrow> {#} | Some c \<Rightarrow> {#c#})\<rparr>))"
| terminate: "ConcurrentMessageLoop_Terminate (cs_loop s) = (l, n) \<Longrightarrow>
    conc_step s (give_notice n (s\<lparr>cs_loop := l\<rparr>))"
| post_all: "ConcurrentMessageLoop_PostTaskToAllWorkers task (cs_loop s) = (l, n) \<Longrightarrow>
    conc_step s (give_notice n (s\<lparr>cs_loop := l, cs_posted := cs_posted s +
      (case task of None \<Rightarrow> {#} | Some c \<Rightarrow> replicate_mset (length (cm_worker_thread_ids (cs_loop s))) c)\<rparr>))"
| notify_nobody: "cs_notices s = Suc k \<Longrightarrow> \<forall>t \<in> worker_ids s. cs_pc s t \<noteq> Waiting \<Longrightarrow>
    conc_step s (s\<lparr>cs_notices := k\<rparr>)"
| notify_one: "cs_notices s = Suc k \<Longrightarrow> t \<in> worker_ids s \<Longrightarrow> cs_pc s t = Waiting \<Longrightarrow>
    conc_step s (s\<lparr>cs_notices := k, cs_pc := (cs_pc s)(t := Notified)\<rparr>)"
| spurious: "t \<in> worker_ids s \<Longrightarrow> cs_pc s t = Waiting \<Longrightarrow>
    conc_step s (s\<lparr>cs_pc := (cs_pc s)(t := Notified)\<rparr>)"

inductive conc_reachable :: "nat \<Rightarrow> (nat \<Rightarrow> thread_id) \<Rightarrow> 'c conc_sys \<Rightarrow> bool" for worker_count thread_of where
  start: "conc_reachable worker_count thread_of (conc_start worker_count thread_of)"
| step: "conc_reachable worker_count thread_of s \<Longrightarrow> conc_step s s' \<Longrightarrow> conc_reachable worker_count thread_of s'"

subsection \<open>What the operations do\<close>

text \<open>The check after \<open>GetThreadTasksLocked\<close> never fails, and the segment takes what there is.\<close>

lemma WorkerMain_take_total:
  "WorkerMain_take t l =
     Inr (l\<lparr>cm_tasks := tl (cm_tasks l), cm_thread_tasks := (cm_thread_tasks l)(t := None)\<rparr>, cm_shutdown l,
       case cm_tasks l of [] \<Rightarrow> None | c # cs \<Rightarrow> Some c,
       case cm_thread_tasks l t of None \<Rightarrow> [] | Some cs \<Rightarrow> cs)"
proof (cases "cm_thread_tasks l t")
  case None
  then have "(cm_thread_tasks l)(t := None) = cm_thread_tasks l" by (simp add: fun_upd_idem)
  with None show ?thesis
    by (simp add: WorkerMain_take_def HasThreadTasksLocked_def Let_def split: list.split)
next
  case (Some cs)
  then show ?thesis
    by (simp add: WorkerMain_take_def HasThreadTasksLocked_def GetThreadTasksLocked_def Let_def split: list.split)
qed

lemma fold_emplace:
  "distinct ts \<Longrightarrow> fold (emplace_thread_task c) ts m =
     (\<lambda>t. if t \<in> set ts then Some ((case m t of None \<Rightarrow> [] | Some cs \<Rightarrow> cs) @ [c]) else m t)"
proof (induction ts arbitrary: m)
  case (Cons t ts)
  then show ?case by (auto simp: emplace_thread_task_def fun_eq_iff)
qed simp

lemma notify_all_simps [simp]:
  "notify_all pc t \<noteq> Waiting" "notify_all pc t = Running b cs \<longleftrightarrow> pc t = Running b cs"
  "notify_all pc t = Exited \<longleftrightarrow> pc t = Exited"
  by (auto simp: notify_all_def split: worker_pc.splits)

lemmas conc_defs = ConcurrentMessageLoop_PostTask_def ConcurrentMessageLoop_Terminate_def
  ConcurrentMessageLoop_PostTaskToAllWorkers_def WorkerMain_take_total

lemma give_notice_simps [simp]:
  "cs_loop (give_notice n s) = cs_loop s" "cs_called (give_notice n s) = cs_called s"
  "cs_posted (give_notice n s) = cs_posted s"
  "cs_pc (give_notice n s) t = Running b cs \<longleftrightarrow> cs_pc s t = Running b cs"
  "cs_pc (give_notice n s) t = Exited \<longleftrightarrow> cs_pc s t = Exited"
  by (simp_all add: give_notice_def split: notice.split)

lemma worker_ids_worker_step:
  "worker_step s s' \<Longrightarrow> cm_worker_thread_ids (cs_loop s') = cm_worker_thread_ids (cs_loop s)"
  by (induction rule: worker_step.induct) (auto simp: conc_defs)

lemma worker_ids_step:
  "conc_step s s' \<Longrightarrow> cm_worker_thread_ids (cs_loop s') = cm_worker_thread_ids (cs_loop s)"
  by (induction rule: conc_step.induct) (auto simp: conc_defs worker_ids_worker_step split: option.splits if_splits)

lemma distinct_ids:
  assumes "conc_reachable worker_count thread_of s" and "inj_on thread_of {..<max worker_count 1}"
  shows "distinct (cm_worker_thread_ids (cs_loop s))"
  using assms(1)
proof (induction rule: conc_reachable.induct)
  case start
  have "{0..<max worker_count 1} = {..<max worker_count 1}" by auto
  with assms(2) show ?case by (simp add: conc_start_def ConcurrentMessageLoop_new_def Let_def distinct_map)
next
  case (step s s')
  then show ?case by (simp add: worker_ids_step)
qed

subsection \<open>Tasks are conserved\<close>

definition held :: "'c conc_sys \<Rightarrow> thread_id \<Rightarrow> 'c multiset" where
  "held s t = (case cs_pc s t of Running _ cs \<Rightarrow> mset cs | _ \<Rightarrow> {#}) +
     (case cm_thread_tasks (cs_loop s) t of None \<Rightarrow> {#} | Some cs \<Rightarrow> mset cs)"

definition outstanding :: "'c conc_sys \<Rightarrow> 'c multiset" where
  "outstanding s = mset (cm_tasks (cs_loop s)) + (\<Sum>t \<in> worker_ids s. held s t)"

text \<open>A step of one worker changes one summand.\<close>

lemma sum_one_changed:
  fixes f :: "'a \<Rightarrow> 'b multiset"
  assumes "finite A" and "t \<in> A" and "\<And>u. u \<in> A \<Longrightarrow> u \<noteq> t \<Longrightarrow> g u = f u"
  shows "sum g A + f t = sum f A + g t"
proof -
  have "sum g (A - {t}) = sum f (A - {t})" using assms(3) by (intro sum.cong) auto
  then show ?thesis by (simp add: sum.remove [OF assms(1,2)])
qed

lemma exchange:
  fixes b :: "'b multiset"
  assumes "A' + b = A + b'" and "X' + b' = X + b"
  shows "X' + A' = X + A"
proof (rule multiset_eqI)
  fix x
  from assms(1) have "count A' x + count b x = count A x + count b' x" by (metis count_union)
  moreover from assms(2) have "count X' x + count b' x = count X x + count b x" by (metis count_union)
  ultimately show "count (X' + A') x = count (X + A) x" by simp
qed

lemma sum_singletons: "finite A \<Longrightarrow> (\<Sum>t \<in> A. {#c#}) = replicate_mset (card A) c"
  by (induction rule: finite_induct) simp_all

lemma held_worker_step:
  assumes "t \<in> worker_ids s" and "cm_worker_thread_ids (cs_loop s') = cm_worker_thread_ids (cs_loop s)"
    and "\<And>u. u \<noteq> t \<Longrightarrow> held s' u = held s u"
    and "mset (cs_called s') + mset (cm_tasks (cs_loop s')) + held s' t =
      mset (cs_called s) + mset (cm_tasks (cs_loop s)) + held s t"
  shows "mset (cs_called s') + outstanding s' = mset (cs_called s) + outstanding s"
proof -
  have "sum (held s') (worker_ids s) + held s t = sum (held s) (worker_ids s) + held s' t"
    using assms(1,3) by (intro sum_one_changed) auto
  from exchange [OF this assms(4)] show ?thesis by (simp add: outstanding_def assms(2) add.assoc)
qed

lemma held_same:
  assumes "cs_pc s' t = cs_pc s t \<or> (\<forall>b cs. cs_pc s' t \<noteq> Running b cs) \<and> (\<forall>b cs. cs_pc s t \<noteq> Running b cs)"
    and "cm_thread_tasks (cs_loop s') t = cm_thread_tasks (cs_loop s) t"
  shows "held s' t = held s t"
  using assms by (auto simp: held_def split: worker_pc.split)

lemma held_notice [simp]: "held (give_notice n s) = held s"
proof
  show "held (give_notice n s) t = held s t" for t by (cases "cs_pc s t"; intro held_same) auto
qed

lemma outstanding_notice [simp]: "outstanding (give_notice n s) = outstanding s"
  by (simp add: outstanding_def)

lemma held_post_all:
  assumes "distinct (cm_worker_thread_ids l)" and "cs_loop s = l"
  shows "(\<Sum>t \<in> set (cm_worker_thread_ids l). held (s\<lparr>cs_loop := l\<lparr>cm_thread_tasks :=
      fold (emplace_thread_task c) (cm_worker_thread_ids l) (cm_thread_tasks l)\<rparr>, cs_posted := p\<rparr>) t) =
    (\<Sum>t \<in> set (cm_worker_thread_ids l). held s t) + replicate_mset (length (cm_worker_thread_ids l)) c"
proof -
  have "(\<Sum>t \<in> set (cm_worker_thread_ids l). held (s\<lparr>cs_loop := l\<lparr>cm_thread_tasks :=
      fold (emplace_thread_task c) (cm_worker_thread_ids l) (cm_thread_tasks l)\<rparr>, cs_posted := p\<rparr>) t) =
    (\<Sum>t \<in> set (cm_worker_thread_ids l). held s t + {#c#})"
    using assms by (intro sum.cong) (simp_all add: held_def fold_emplace split: option.split)
  also have "\<dots> = (\<Sum>t \<in> set (cm_worker_thread_ids l). held s t) + replicate_mset (length (cm_worker_thread_ids l)) c"
    using assms(1) by (simp only: sum.distrib sum_singletons distinct_card finite_set)
  finally show ?thesis .
qed

lemma outstanding_same:
  assumes "cm_worker_thread_ids (cs_loop s') = cm_worker_thread_ids (cs_loop s)"
    and "cm_tasks (cs_loop s') = cm_tasks (cs_loop s)" and "\<And>t. held s' t = held s t"
  shows "outstanding s' = outstanding s"
  using assms by (simp add: outstanding_def)

lemma proceed_conserves:
  assumes "t \<in> worker_ids s" and "wants_lock (cs_pc s t)"
    and "WorkerMain_take t (cs_loop s) = Inr (l, b, task, tts)"
  shows "mset (cs_called s) + outstanding (s\<lparr>cs_loop := l, cs_pc := (cs_pc s)(t := Running b (WorkerMain_calls task tts))\<rparr>) =
    mset (cs_called s) + outstanding s"
proof -
  let ?s = "s\<lparr>cs_loop := l, cs_pc := (cs_pc s)(t := Running b (WorkerMain_calls task tts))\<rparr>"
  have "mset (cs_called ?s) + outstanding ?s = mset (cs_called s) + outstanding s"
  proof (rule held_worker_step [OF assms(1)])
    show "held ?s u = held s u" if "u \<noteq> t" for u
      using that assms(3) by (auto simp: WorkerMain_take_total held_def)
    show "mset (cs_called ?s) + mset (cm_tasks (cs_loop ?s)) + held ?s t =
      mset (cs_called s) + mset (cm_tasks (cs_loop s)) + held s t"
      using assms(2,3) by (auto simp: WorkerMain_take_total WorkerMain_calls_def held_def wants_lock_def
          split: list.splits option.splits worker_pc.splits)
  qed (use assms(3) in \<open>auto simp: WorkerMain_take_total\<close>)
  then show ?thesis by simp
qed

lemma call_conserves:
  assumes "t \<in> worker_ids s" and "cs_pc s t = Running b (c # cs)"
  shows "mset (cs_called s @ [c]) + outstanding (s\<lparr>cs_called := cs_called s @ [c], cs_pc := (cs_pc s)(t := Running b cs)\<rparr>) =
    mset (cs_called s) + outstanding s"
proof -
  let ?s = "s\<lparr>cs_called := cs_called s @ [c], cs_pc := (cs_pc s)(t := Running b cs)\<rparr>"
  have "mset (cs_called ?s) + outstanding ?s = mset (cs_called s) + outstanding s"
    by (rule held_worker_step [OF assms(1)]) (use assms(2) in \<open>auto simp: held_def\<close>)
  then show ?thesis by simp
qed

lemma worker_step_conserves:
  assumes "worker_step s s'"
  shows "cs_posted s' = cs_posted s \<and> mset (cs_called s') + outstanding s' = mset (cs_called s) + outstanding s"
  using assms
proof (cases rule: worker_step.cases)
  case (proceed t l b task tts)
  with proceed_conserves [OF proceed(2,3,5)] show ?thesis by simp
next
  case (sleep t)
  then have "outstanding s' = outstanding s"
    by (intro outstanding_same) (auto simp: held_def wants_lock_def split: worker_pc.splits)
  with sleep show ?thesis by simp
next
  case (call t b c cs)
  with call_conserves [OF call(2,3)] show ?thesis by simp
next
  case (turn t b)
  then have "outstanding s' = outstanding s" by (intro outstanding_same) (auto simp: held_def)
  with turn show ?thesis by simp
qed

lemma conc_step_conserves:
  assumes "conc_step s s'" and "distinct (cm_worker_thread_ids (cs_loop s))"
    and "cs_posted s = mset (cs_called s) + outstanding s"
  shows "cs_posted s' = mset (cs_called s') + outstanding s'"
  using assms
proof (cases rule: conc_step.cases)
  case worker
  from worker_step_conserves [OF this] assms(3) show ?thesis by simp
next
  case (post task l r n)
  have "outstanding s' + mset r = outstanding s + (case task of None \<Rightarrow> {#} | Some c \<Rightarrow> {#c#})"
    using post by (auto simp: outstanding_def conc_defs held_def split: option.splits if_splits)
  with post assms(3) show ?thesis by (simp add: ac_simps)
next
  case (notify_nobody k)
  then have "outstanding s' = outstanding s" by (intro outstanding_same held_same) auto
  with notify_nobody assms(3) show ?thesis by simp
next
  case (notify_one k t)
  then have "outstanding s' = outstanding s" by (intro outstanding_same held_same) auto
  with notify_one assms(3) show ?thesis by simp
next
  case (spurious t)
  then have "outstanding s' = outstanding s" by (intro outstanding_same held_same) auto
  with spurious assms(3) show ?thesis by simp
next
  case (terminate l n)
  then have "outstanding s' = outstanding s" by (auto simp: conc_defs outstanding_def held_def)
  with terminate assms(3) show ?thesis by simp
next
  case (post_all task l n)
  then have "outstanding s' = outstanding s + (case task of None \<Rightarrow> {#}
      | Some c \<Rightarrow> replicate_mset (length (cm_worker_thread_ids (cs_loop s))) c)"
    using held_post_all [OF assms(2) refl] by (auto simp: outstanding_def conc_defs held_def split: option.splits)
  with post_all assms(3) show ?thesis by simp
qed

text \<open>C22: no task is lost or run twice. The closures handed to the loop are exactly those that have been
  called, by a worker or by the poster, and those still in the queue, in the list of a worker, or
  taken by a worker that is about to call them.\<close>

theorem concurrent_tasks_conserved:
  assumes "conc_reachable worker_count thread_of s" and "inj_on thread_of {..<max worker_count 1}"
  shows "cs_posted s = mset (cs_called s) + outstanding s"
  using assms(1)
proof (induction rule: conc_reachable.induct)
  case start
  show ?case by (simp add: conc_start_def ConcurrentMessageLoop_new_def Let_def outstanding_def held_def)
next
  case (step s s')
  from step(2) distinct_ids [OF step(1) assms(2)] step(3) show ?case by (rule conc_step_conserves)
qed

lemma reachable_post:
  "conc_reachable 2 Suc ((conc_start 2 Suc)\<lparr>cs_loop := (ConcurrentMessageLoop_new 2 Suc)\<lparr>cm_tasks := [c]\<rparr>,
     cs_called := [], cs_posted := {#c#}, cs_notices := 1\<rparr>)"
  using conc_reachable.step [OF conc_reachable.start conc_step.post [of "Some c" "conc_start 2 Suc"]]
  by (simp add: conc_defs give_notice_def conc_start_def ConcurrentMessageLoop_new_def Let_def)

theorem concurrent_tasks_conserved_witness:
  "\<exists>s. cs_posted s = {#7 :: nat#} \<and> cs_posted s = mset (cs_called s) + outstanding s"
  using concurrent_tasks_conserved [OF reachable_post [of "7 :: nat"]]
  by (auto simp: intro!: exI [of _ "(conc_start 2 Suc)\<lparr>cs_loop := (ConcurrentMessageLoop_new 2 Suc)\<lparr>cm_tasks := [7]\<rparr>,
     cs_called := [], cs_posted := {#7#}, cs_notices := 1\<rparr>"])

subsection \<open>No notification is lost\<close>

definition notified :: "'c conc_sys \<Rightarrow> thread_id set" where
  "notified s = {t \<in> worker_ids s. cs_pc s t = Notified}"

definition awake_for_tasks :: "'c conc_sys \<Rightarrow> bool" where
  "awake_for_tasks s \<longleftrightarrow> (\<forall>t \<in> worker_ids s. cs_pc s t = Waiting \<longrightarrow>
     \<not> cm_shutdown (cs_loop s) \<and> cm_thread_tasks (cs_loop s) t = None \<and>
     length (cm_tasks (cs_loop s)) \<le> card (notified s) + cs_notices s)"

lemma finite_notified [simp]: "finite (notified s)"
  by (simp add: notified_def)

lemma awake_if_no_waiter: "(\<And>t. t \<in> worker_ids s \<Longrightarrow> cs_pc s t \<noteq> Waiting) \<Longrightarrow> awake_for_tasks s"
  by (auto simp: awake_for_tasks_def)

lemma card_notified_proceed:
  assumes "cm_worker_thread_ids l = cm_worker_thread_ids (cs_loop s)" and "p \<noteq> Notified"
  shows "card (notified s) \<le> card (notified (s\<lparr>cs_loop := l, cs_pc := (cs_pc s)(t := p)\<rparr>)) + 1"
proof -
  have "notified (s\<lparr>cs_loop := l, cs_pc := (cs_pc s)(t := p)\<rparr>) = notified s - {t}"
    using assms by (auto simp: notified_def)
  then show ?thesis using card_Suc_Diff1 [of "notified s" t] by (cases "t \<in> notified s") auto
qed

text \<open>A notice to all leaves nobody waiting; the others keep the workers as they are.\<close>

lemma awake_notice:
  assumes "cs_pc r = cs_pc s" and "cs_notices r = cs_notices s"
    and "cm_worker_thread_ids (cs_loop r) = cm_worker_thread_ids (cs_loop s)"
    and "awake_for_tasks s"
    and "n = Notify_All \<or> cs_loop r = cs_loop s \<or>
      n = Notify_One \<and> (\<exists>c. cs_loop r = (cs_loop s)\<lparr>cm_tasks := cm_tasks (cs_loop s) @ [c]\<rparr>)"
  shows "awake_for_tasks (give_notice n r)"
proof (cases "n = Notify_All")
  case True
  then show ?thesis by (intro awake_if_no_waiter) (simp add: give_notice_def)
next
  case False
  then have pc: "cs_pc (give_notice n r) = cs_pc s"
    and nt: "cs_notices (give_notice n r) = cs_notices s + (if n = Notify_One then 1 else 0)"
    using assms(1,2) by (simp_all add: give_notice_def split: notice.split)
  have "notified (give_notice n r) = notified s" using pc assms(3) by (simp add: notified_def)
  then show ?thesis using assms(3-5) pc nt False by (auto simp: awake_for_tasks_def)
qed

lemma worker_step_awake:
  assumes "worker_step s s'" and "awake_for_tasks s"
  shows "awake_for_tasks s'"
  using assms
proof (cases rule: worker_step.cases)
  case (proceed t l b task tts)
  then have l: "l = (cs_loop s)\<lparr>cm_tasks := tl (cm_tasks (cs_loop s)),
      cm_thread_tasks := (cm_thread_tasks (cs_loop s))(t := None)\<rparr>" by (simp add: WorkerMain_take_total)
  then have "card (notified s) \<le> card (notified s') + 1"
    unfolding proceed(1) by (intro card_notified_proceed) simp_all
  with assms(2) show ?thesis unfolding proceed(1) l awake_for_tasks_def by auto
next
  case (sleep t)
  then have "cm_tasks (cs_loop s) = []" "\<not> cm_shutdown (cs_loop s)" "cm_thread_tasks (cs_loop s) t = None"
    by (auto simp: worker_predicate_def HasThreadTasksLocked_def)
  with sleep assms(2) show ?thesis by (auto simp: awake_for_tasks_def)
next
  case (call t b c cs)
  then have "notified s' = notified s" by (auto simp: notified_def)
  with call assms(2) show ?thesis by (auto simp: awake_for_tasks_def)
next
  case (turn t b)
  then have "notified s' = notified s" by (auto simp: notified_def)
  with turn assms(2) show ?thesis by (auto simp: awake_for_tasks_def split: if_splits)
qed

lemma conc_step_awake:
  assumes "conc_step s s'" and "awake_for_tasks s"
  shows "awake_for_tasks s'"
  using assms
proof (cases rule: conc_step.cases)
  case worker
  then show ?thesis using assms(2) by (rule worker_step_awake)
next
  case (post task l r n)
  then show ?thesis
    using assms(2) by (auto simp: conc_defs split: option.splits if_splits intro!: awake_notice [of _ s])
next
  case (notify_nobody k)
  then show ?thesis by (intro awake_if_no_waiter) auto
next
  case (notify_one k t)
  then have "notified s' = insert t (notified s)" and "t \<notin> notified s" by (auto simp: notified_def)
  then have "card (notified s') + cs_notices s' = card (notified s) + cs_notices s" using notify_one by simp
  then show ?thesis using assms(2) notify_one by (auto simp: awake_for_tasks_def)
next
  case (terminate l n)
  then show ?thesis
    using assms(2) by (auto simp: conc_defs intro!: awake_notice [of _ s])
next
  case (post_all task l n)
  then show ?thesis
    using assms(2) by (auto simp: conc_defs split: option.splits intro!: awake_notice [of _ s])
next
  case (spurious t)
  then have "notified s' = insert t (notified s)" and "t \<notin> notified s" by (auto simp: notified_def)
  then have "card (notified s') = card (notified s) + 1" by simp
  then show ?thesis using assms(2) spurious by (force simp: awake_for_tasks_def)
qed

lemma reachable_awake: "conc_reachable worker_count thread_of s \<Longrightarrow> awake_for_tasks s"
proof (induction rule: conc_reachable.induct)
  case start
  show ?case by (auto simp: awake_for_tasks_def conc_start_def)
next
  case (step s s')
  show ?case using step(2,3) by (rule conc_step_awake)
qed

text \<open>C23: nobody sleeps through work. If a worker waits unnotified, then the loop is not shut down, no task
  was posted to it, and there are at most as many tasks in the queue as workers that have been
  notified and calls of \<open>notify_one\<close> on their way. So once every notification has been delivered and
  taken up, a worker waits only if the queue is empty.\<close>

theorem no_worker_sleeps_through_work:
  assumes "conc_reachable worker_count thread_of s" and "t \<in> worker_ids s" and "cs_pc s t = Waiting"
  shows "\<not> cm_shutdown (cs_loop s) \<and> \<not> HasThreadTasksLocked t (cs_loop s) \<and>
    length (cm_tasks (cs_loop s)) \<le> card {u \<in> worker_ids s. cs_pc s u = Notified} + cs_notices s"
  using reachable_awake [OF assms(1)] assms(2,3)
  by (auto simp: awake_for_tasks_def notified_def HasThreadTasksLocked_def)

text \<open>Two workers: one sleeps, and a task is posted.\<close>

definition sleeping_example :: "nat conc_sys" where
  "sleeping_example = (conc_start 2 Suc)\<lparr>cs_loop := (ConcurrentMessageLoop_new 2 Suc)\<lparr>cm_tasks := [7]\<rparr>,
     cs_pc := (\<lambda>_. At_Lock)(1 := Waiting), cs_notices := 1, cs_posted := {#7#}\<rparr>"

lemma reachable_sleep:
  "conc_reachable 2 Suc ((conc_start 2 Suc :: nat conc_sys)\<lparr>cs_pc := (\<lambda>_. At_Lock)(1 := Waiting)\<rparr>)"
  using conc_reachable.step [OF conc_reachable.start conc_step.worker [OF worker_step.sleep [of 1 "conc_start 2 Suc"]]]
  by (simp add: wants_lock_def worker_predicate_def HasThreadTasksLocked_def conc_start_def
      ConcurrentMessageLoop_new_def Let_def)

lemma reachable_sleeping_example: "conc_reachable 2 Suc sleeping_example"
  using conc_reachable.step [OF reachable_sleep conc_step.post [of "Some 7"]]
  by (simp add: conc_defs give_notice_def sleeping_example_def conc_start_def ConcurrentMessageLoop_new_def Let_def)

theorem no_worker_sleeps_through_work_witness:
  "cm_tasks (cs_loop sleeping_example) = [7] \<and> cs_pc sleeping_example 1 = Waiting \<and>
   length (cm_tasks (cs_loop sleeping_example)) \<le>
     card {u \<in> worker_ids sleeping_example. cs_pc sleeping_example u = Notified} + cs_notices sleeping_example"
  using no_worker_sleeps_through_work [OF reachable_sleeping_example, of 1]
  by (simp add: sleeping_example_def conc_start_def ConcurrentMessageLoop_new_def Let_def)

subsection \<open>Shutting down\<close>

text \<open>A worker that has read \<open>shutdown_\<close> as set leaves after its present turn.\<close>

definition leaving :: "'c worker_pc \<Rightarrow> bool" where
  "leaving p \<longleftrightarrow> (case p of Running b _ \<Rightarrow> b | Exited \<Rightarrow> True | _ \<Rightarrow> False)"

definition staying :: "'c conc_sys \<Rightarrow> nat" where
  "staying s = card {t \<in> worker_ids s. \<not> leaving (cs_pc s t)}"

definition all_exited :: "'c conc_sys \<Rightarrow> bool" where
  "all_exited s \<longleftrightarrow> (\<forall>t \<in> worker_ids s. cs_pc s t = Exited)"

lemma staying_same:
  assumes "cm_worker_thread_ids (cs_loop s') = cm_worker_thread_ids (cs_loop s)"
    and "\<And>t. leaving (cs_pc s' t) \<longleftrightarrow> leaving (cs_pc s t)"
  shows "staying s' = staying s"
  using assms by (simp add: staying_def)

lemma shutdown_worker_step:
  assumes "worker_step s s'" and "cm_shutdown (cs_loop s)"
  shows "cm_shutdown (cs_loop s') \<and>
    drop (staying s') (cm_tasks (cs_loop s')) = drop (staying s) (cm_tasks (cs_loop s))"
  using assms(1)
proof (cases rule: worker_step.cases)
  case (proceed t l b task tts)
  then have l: "l = (cs_loop s)\<lparr>cm_tasks := tl (cm_tasks (cs_loop s)),
      cm_thread_tasks := (cm_thread_tasks (cs_loop s))(t := None)\<rparr>" and b
    using assms(2) by (simp_all add: WorkerMain_take_total)
  have "{u \<in> worker_ids s. \<not> leaving (cs_pc s u)} = insert t {u \<in> worker_ids s'. \<not> leaving (cs_pc s' u)}"
    using proceed \<open>b\<close> l by (auto simp: leaving_def wants_lock_def split: worker_pc.splits if_splits)
  moreover have "t \<notin> {u \<in> worker_ids s'. \<not> leaving (cs_pc s' u)}" using proceed \<open>b\<close> by (simp add: leaving_def)
  ultimately have "staying s = Suc (staying s')" by (simp add: staying_def)
  with proceed l assms(2) show ?thesis by (simp add: drop_Suc)
next
  case (sleep t)
  with assms(2) show ?thesis by (simp add: worker_predicate_def)
next
  case (turn t b)
  then have "staying s' = staying s" by (intro staying_same) (auto simp: leaving_def)
  with turn assms(2) show ?thesis by simp
next
  case (call t b c cs)
  then have "staying s' = staying s" by (intro staying_same) (auto simp: leaving_def)
  with call assms(2) show ?thesis by simp
qed

lemma leaving_notice [simp]: "leaving (cs_pc (give_notice n s) t) \<longleftrightarrow> leaving (cs_pc s t)"
  by (auto simp: give_notice_def leaving_def notify_all_def split: notice.split worker_pc.splits)

lemma staying_notice [simp]: "staying (give_notice n s) = staying s"
  by (intro staying_same) simp_all

lemma shutdown_step:
  assumes "conc_step s s'" and "cm_shutdown (cs_loop s)"
  shows "cm_shutdown (cs_loop s') \<and>
    drop (staying s') (cm_tasks (cs_loop s')) = drop (staying s) (cm_tasks (cs_loop s))"
  using assms(1)
proof (cases rule: conc_step.cases)
  case worker
  then show ?thesis using assms(2) by (rule shutdown_worker_step)
next
  case (post task l r n)
  then have "staying s' = staying s" and "l = cs_loop s"
    using assms(2) by (auto simp: staying_def conc_defs split: option.splits)
  with post assms(2) show ?thesis by simp
next
  case (terminate l n)
  then have "staying s' = staying s" by (auto simp: conc_defs staying_def)
  with terminate show ?thesis by (auto simp: conc_defs)
next
  case (post_all task l n)
  then have "staying s' = staying s" by (auto simp: conc_defs staying_def split: option.splits)
  with post_all assms(2) show ?thesis by (auto simp: conc_defs split: option.splits)
next
  case (notify_one k t)
  then have "staying s' = staying s" by (intro staying_same) (auto simp: leaving_def)
  with notify_one assms(2) show ?thesis by simp
next
  case (spurious t)
  then have "staying s' = staying s" by (intro staying_same) (auto simp: leaving_def)
  with spurious assms(2) show ?thesis by simp
next
  case (notify_nobody k)
  then have "staying s' = staying s" by (intro staying_same) auto
  with notify_nobody assms(2) show ?thesis by simp
qed

lemma shutdown_steps:
  "conc_step\<^sup>*\<^sup>* s s' \<Longrightarrow> cm_shutdown (cs_loop s) \<Longrightarrow>
    cm_shutdown (cs_loop s') \<and> drop (staying s') (cm_tasks (cs_loop s')) = drop (staying s) (cm_tasks (cs_loop s)) \<and>
    cm_worker_thread_ids (cs_loop s') = cm_worker_thread_ids (cs_loop s)"
  by (induction rule: rtranclp_induct) (auto dest: shutdown_step worker_ids_step)

lemma worker_steps: "worker_step\<^sup>*\<^sup>* s s' \<Longrightarrow> conc_step\<^sup>*\<^sup>* s s'"
  by (erule rtranclp_mono [THEN predicate2D, rotated]) (auto intro: conc_step.worker)

lemma all_exited_staying: "all_exited s \<Longrightarrow> staying s = 0"
  by (auto simp: all_exited_def staying_def leaving_def)

text \<open>Left alone, a worker that is awake comes to its end, and disturbs no other.\<close>

lemma finishes_calls:
  "t \<in> worker_ids s \<Longrightarrow> cs_pc s t = Running b cs \<Longrightarrow>
    \<exists>s'. worker_step\<^sup>*\<^sup>* s s' \<and> cs_pc s' t = (if b then Exited else At_Lock) \<and> (\<forall>u. u \<noteq> t \<longrightarrow> cs_pc s' u = cs_pc s u)"
proof (induction cs arbitrary: s)
  case Nil
  then have "worker_step s (s\<lparr>cs_pc := (cs_pc s)(t := if b then Exited else At_Lock)\<rparr>)" using worker_step.turn [of t s b] by simp
  then show ?case by (intro exI [of _ "s\<lparr>cs_pc := (cs_pc s)(t := if b then Exited else At_Lock)\<rparr>"]) auto
next
  case (Cons c cs)
  let ?s = "s\<lparr>cs_called := cs_called s @ [c], cs_pc := (cs_pc s)(t := Running b cs)\<rparr>"
  have "worker_step s ?s" using Cons.prems by (rule worker_step.call)
  moreover obtain s' where "worker_step\<^sup>*\<^sup>* ?s s'" "cs_pc s' t = (if b then Exited else At_Lock)" "\<forall>u. u \<noteq> t \<longrightarrow> cs_pc s' u = cs_pc ?s u"
    using Cons.IH [of ?s] Cons.prems by auto
  ultimately show ?case by (intro exI [of _ s']) (auto intro: converse_rtranclp_into_rtranclp)
qed

lemma proceeds_to_exit:
  assumes "t \<in> worker_ids s" and "wants_lock (cs_pc s t)" and "cm_shutdown (cs_loop s)"
  shows "\<exists>s'. worker_step\<^sup>*\<^sup>* s s' \<and> cs_pc s' t = Exited \<and> (\<forall>u. u \<noteq> t \<longrightarrow> cs_pc s' u = cs_pc s u)"
proof -
  obtain l task tts where take: "WorkerMain_take t (cs_loop s) = Inr (l, True, task, tts)"
    using assms(3) by (simp add: WorkerMain_take_total)
  let ?s = "s\<lparr>cs_loop := l, cs_pc := (cs_pc s)(t := Running True (WorkerMain_calls task tts))\<rparr>"
  have "worker_step s ?s"
    using assms take by (intro worker_step.proceed) (auto simp: worker_predicate_def)
  moreover obtain s' where "worker_step\<^sup>*\<^sup>* ?s s'" "cs_pc s' t = Exited" "\<forall>u. u \<noteq> t \<longrightarrow> cs_pc s' u = cs_pc ?s u"
    using finishes_calls [of t ?s] assms(1) worker_ids_worker_step [OF \<open>worker_step s ?s\<close>] by auto
  ultimately show ?thesis by (intro exI [of _ s']) (auto intro: converse_rtranclp_into_rtranclp)
qed

lemma worker_exits:
  assumes "t \<in> worker_ids s" and "cm_shutdown (cs_loop s)" and "cs_pc s t \<noteq> Waiting"
  shows "\<exists>s'. worker_step\<^sup>*\<^sup>* s s' \<and> cs_pc s' t = Exited \<and> (\<forall>u. u \<noteq> t \<longrightarrow> cs_pc s' u = cs_pc s u)"
proof (cases "cs_pc s t")
  case (Running b cs)
  from finishes_calls [OF assms(1) this] obtain s1 where s1: "worker_step\<^sup>*\<^sup>* s s1"
    "cs_pc s1 t = (if b then Exited else At_Lock)" "\<forall>u. u \<noteq> t \<longrightarrow> cs_pc s1 u = cs_pc s u" by blast
  show ?thesis
  proof (cases b)
    case True
    with s1 show ?thesis by auto
  next
    case False
    obtain s' where "worker_step\<^sup>*\<^sup>* s1 s'" "cs_pc s' t = Exited" "\<forall>u. u \<noteq> t \<longrightarrow> cs_pc s' u = cs_pc s1 u"
      using proceeds_to_exit [of t s1] shutdown_steps [OF worker_steps [OF s1(1)] assms(2)] s1(2) False assms(1)
      by (auto simp: wants_lock_def)
    with s1 show ?thesis by (intro exI [of _ s']) auto
  qed
qed (use assms proceeds_to_exit [of t s] in \<open>auto simp: wants_lock_def\<close>)

lemma workers_exit:
  assumes "set ts \<subseteq> worker_ids s" and "cm_shutdown (cs_loop s)" and "\<forall>t \<in> set ts. cs_pc s t \<noteq> Waiting"
  shows "\<exists>s'. worker_step\<^sup>*\<^sup>* s s' \<and> (\<forall>t. (t \<in> set ts \<or> cs_pc s t = Exited) \<longrightarrow> cs_pc s' t = Exited)"
  using assms
proof (induction ts arbitrary: s)
  case (Cons t ts)
  then obtain s1 where s1: "worker_step\<^sup>*\<^sup>* s s1" "cs_pc s1 t = Exited" "\<forall>u. u \<noteq> t \<longrightarrow> cs_pc s1 u = cs_pc s u"
    using worker_exits [of t s] by auto
  have awake: "\<forall>u \<in> set ts. cs_pc s1 u \<noteq> Waiting"
  proof
    show "cs_pc s1 u \<noteq> Waiting" if "u \<in> set ts" for u using Cons.prems(3) s1(2,3) that by (cases "u = t") auto
  qed
  with Cons.prems shutdown_steps [OF worker_steps [OF s1(1)]] obtain s' where s': "worker_step\<^sup>*\<^sup>* s1 s'"
    "\<forall>u. (u \<in> set ts \<or> cs_pc s1 u = Exited) \<longrightarrow> cs_pc s' u = Exited" using Cons.IH [of s1] by auto
  have "cs_pc s' u = Exited" if "u \<in> set (t # ts) \<or> cs_pc s u = Exited" for u
    using that s1 s'(2) by (cases "u = t") auto
  with s1(1) s'(1) show ?case by (intro exI [of _ s']) auto
qed auto

text \<open>C24: whatever has happened before, once the loop is shut down no worker waits, and the workers alone,
  with no further notification and no wait that ends by itself, can run to their end from there, so that
  the joins of the destructor return. And whatever else happens meanwhile, each worker that had not yet
  seen the shutdown takes exactly one more task from the queue. With more tasks than such workers the
  rest is left in the queue, where nobody will call it.\<close>

theorem shutdown_leaves_tasks:
  assumes "conc_reachable worker_count thread_of s" and "cm_shutdown (cs_loop s)"
  shows "(\<forall>t \<in> worker_ids s. cs_pc s t \<noteq> Waiting) \<and>
    (\<exists>s'. worker_step\<^sup>*\<^sup>* s s' \<and> all_exited s') \<and>
    (\<forall>s'. conc_step\<^sup>*\<^sup>* s s' \<and> all_exited s' \<longrightarrow>
      cm_tasks (cs_loop s') = drop (staying s) (cm_tasks (cs_loop s)))"
proof (intro conjI)
  show awake: "\<forall>t \<in> worker_ids s. cs_pc s t \<noteq> Waiting"
    using reachable_awake [OF assms(1)] assms(2) by (auto simp: awake_for_tasks_def)
  obtain s' where s': "worker_step\<^sup>*\<^sup>* s s'" "\<forall>t \<in> worker_ids s. cs_pc s' t = Exited"
    using workers_exit [OF subset_refl assms(2) awake] by blast
  have "cm_worker_thread_ids (cs_loop s') = cm_worker_thread_ids (cs_loop s)"
    using shutdown_steps [OF worker_steps [OF s'(1)] assms(2)] by simp
  with s' show "\<exists>s'. worker_step\<^sup>*\<^sup>* s s' \<and> all_exited s'" by (intro exI [of _ s']) (simp add: all_exited_def)
  have "cm_tasks (cs_loop s') = drop (staying s) (cm_tasks (cs_loop s))"
    if "conc_step\<^sup>*\<^sup>* s s'" and "all_exited s'" for s'
    using shutdown_steps [OF that(1) assms(2)] all_exited_staying [OF that(2)] by simp
  then show "\<forall>s'. conc_step\<^sup>*\<^sup>* s s' \<and> all_exited s' \<longrightarrow>
      cm_tasks (cs_loop s') = drop (staying s) (cm_tasks (cs_loop s))" by blast
qed

text \<open>One worker falls asleep, three tasks are posted, and the loop is terminated before the first
  notification is delivered: one task is run, two are left.\<close>

definition posts_example :: "nat list \<Rightarrow> nat conc_sys" where
  "posts_example cs = (conc_start 1 Suc)\<lparr>cs_loop := (ConcurrentMessageLoop_new 1 Suc)\<lparr>cm_tasks := cs\<rparr>,
     cs_pc := (\<lambda>_. At_Lock)(1 := Waiting), cs_notices := length cs, cs_posted := mset cs\<rparr>"

lemma posts_example_reachable: "conc_reachable 1 Suc (posts_example cs)"
proof (induction cs rule: rev_induct)
  case Nil
  show ?case
    using conc_reachable.step [OF conc_reachable.start conc_step.worker [OF worker_step.sleep [of 1 "conc_start 1 Suc"]]]
    by (simp add: posts_example_def wants_lock_def worker_predicate_def HasThreadTasksLocked_def conc_start_def
        ConcurrentMessageLoop_new_def Let_def)
next
  case (snoc c cs)
  from conc_reachable.step [OF this conc_step.post [of "Some c"]] show ?case
    by (simp add: posts_example_def conc_defs give_notice_def conc_start_def ConcurrentMessageLoop_new_def Let_def)
qed

definition shutdown_example :: "nat conc_sys" where
  "shutdown_example =
     (case ConcurrentMessageLoop_Terminate (cs_loop (posts_example [5, 6, 7])) of
        (l, n) \<Rightarrow> give_notice n ((posts_example [5, 6, 7])\<lparr>cs_loop := l\<rparr>))"

lemma shutdown_example_reachable: "conc_reachable 1 Suc shutdown_example"
  unfolding shutdown_example_def
  by (cases "ConcurrentMessageLoop_Terminate (cs_loop (posts_example [5, 6, 7]))")
    (use conc_reachable.step [OF posts_example_reachable conc_step.terminate] in simp)

theorem shutdown_leaves_tasks_witness:
  "\<exists>s'. worker_step\<^sup>*\<^sup>* shutdown_example s' \<and> all_exited s' \<and> cm_tasks (cs_loop s') = [6, 7]"
proof -
  have "{t. t = Suc 0} = {Suc 0}" by auto
  then have s: "staying shutdown_example = 1" "cm_shutdown (cs_loop shutdown_example)"
    "cm_tasks (cs_loop shutdown_example) = [5, 6, 7]"
    by (simp_all add: shutdown_example_def posts_example_def staying_def leaving_def conc_start_def
        ConcurrentMessageLoop_new_def ConcurrentMessageLoop_Terminate_def give_notice_def notify_all_def Let_def)
  note run = shutdown_leaves_tasks [OF shutdown_example_reachable s(2)]
  from run obtain s' where s': "worker_step\<^sup>*\<^sup>* shutdown_example s'" "all_exited s'" by blast
  with run have "cm_tasks (cs_loop s') = drop 1 [5, 6, 7]" using worker_steps [OF s'(1)] s by metis
  with s' show ?thesis by auto
qed

end
