(* ===== verification/C_Text.thy ===== *)
theory C_Text
  imports Env_Prelude "HOL-Library.Sublist"
begin

section \<open>C strings, line input and decimal numbers\<close>

text \<open>
  What the detectors of \<open>CheckEnv\<close> use of the C library: strings that end at the first \<open>NUL\<close>,
  \<open>strstr\<close>, \<open>strncmp\<close>, \<open>fgets\<close> on an open stream, \<open>sprintf\<close> into a buffer of fixed size, \<open>%d\<close> and \<open>atoi\<close>.
  A stream is what is left to read of it; a \<open>while (fgets(...))\<close> loop goes through \<open>fgets_all\<close>.
\<close>

named_theorems c_text \<open>how the C string functions compute\<close>

subsection \<open>Strings\<close>

abbreviation NUL :: char where "NUL \<equiv> CHR 0x00"
abbreviation NL :: char where "NL \<equiv> CHR 0x0A"

definition c_str :: "string \<Rightarrow> string" where
  "c_str s = takeWhile (\<lambda>c. c \<noteq> NUL) s"

lemma c_str_id [c_text]: "NUL \<notin> set s \<Longrightarrow> c_str s = s"
  by (auto simp: c_str_def takeWhile_eq_all_conv)

lemma c_str_NUL [c_text, simp]: "NUL \<notin> set s \<Longrightarrow> c_str (s @ NUL # t) = s"
  by (simp add: c_str_def takeWhile_append)

fun strstr :: "string \<Rightarrow> string \<Rightarrow> bool" where
  "strstr [] needle = (needle = [])"
| "strstr (c # hay) needle = (take (length needle) (c # hay) = needle \<or> strstr hay needle)"

lemma take_eq_prefix: "take (length p) s = p \<longleftrightarrow> prefix p s"
  by (metis append_eq_conv_conj prefix_def)

lemma strstr_sublist: "strstr hay needle \<longleftrightarrow> sublist needle hay"
proof (induction hay)
  case (Cons c hay)
  then show ?case by (simp only: strstr.simps take_eq_prefix sublist_Cons_right)
qed simp

definition strncmp_eq :: "string \<Rightarrow> string \<Rightarrow> nat \<Rightarrow> bool" where
  "strncmp_eq s t n \<longleftrightarrow> take n (c_str s) = take n (c_str t)"

text \<open>\<open>sprintf(buf, ...)\<close> into a \<open>char buf[n]\<close>: the text and its terminator have to fit.\<close>

definition sprintf_into :: "nat \<Rightarrow> string \<Rightarrow> string outcome" where
  "sprintf_into n s = obind (defined (length s < n)) (\<lambda>_. Inr s)"

lemma sprintf_into_fits [simp]: "length s < n \<Longrightarrow> sprintf_into n s = Inr s"
  by (simp add: sprintf_into_def)

subsection \<open>Line input\<close>

fun take_line :: "nat \<Rightarrow> string \<Rightarrow> string" where
  "take_line 0 s = []"
| "take_line (Suc k) [] = []"
| "take_line (Suc k) (c # s) = (if c = NL then [c] else c # take_line k s)"

text \<open>\<open>fgets(buf, n, f)\<close> for \<open>n > 1\<close>: what is stored before the terminator, and the rest.\<close>

definition fgets :: "nat \<Rightarrow> string \<Rightarrow> (string \<times> string) option" where
  "fgets n s =
     (if s = [] then None
      else let line = take_line (n - 1) s in Some (line, drop (length line) s))"

lemma take_line_prefix: "take_line k s = take (length (take_line k s)) s"
  by (induction k s rule: take_line.induct) auto

lemma take_line_append [simp]: "take_line k s @ drop (length (take_line k s)) s = s"
  by (metis append_take_drop_id take_line_prefix)

lemma take_line_not_Nil: "0 < k \<Longrightarrow> s \<noteq> [] \<Longrightarrow> take_line k s \<noteq> []"
  by (cases "(k, s)" rule: take_line.cases) auto

lemma length_take_line: "length (take_line k s) \<le> k"
  by (induction k s rule: take_line.induct) auto

text \<open>All that a loop over \<open>fgets\<close> sees; a buffer of one byte would never get on.\<close>

function fgets_all :: "nat \<Rightarrow> string \<Rightarrow> string list" where
  "fgets_all n s =
     (case fgets n s of None \<Rightarrow> [] | Some (line, rest) \<Rightarrow> if n < 2 then [] else line # fgets_all n rest)"
  by pat_completeness auto

termination
proof (relation "measure (\<lambda>(n, s). length s)")
  fix n s r line rest
  assume "fgets n s = Some r" "(line, rest) = r" "\<not> n < 2"
  then show "((n, rest), (n, s)) \<in> measure (\<lambda>(n, s). length s)"
    using take_line_not_Nil [of "n - 1" s]
    by (auto simp: fgets_def Let_def split: if_splits)
qed simp

declare fgets_all.simps [simp del]

lemma fgets_all_Nil [simp]: "fgets_all n [] = []"
  by (simp add: fgets_all.simps fgets_def)

lemma concat_fgets_all: "2 \<le> n \<Longrightarrow> concat (fgets_all n s) = s"
proof (induction n s rule: fgets_all.induct)
  case (1 n s)
  show ?case
  proof (cases "s = []")
    case False
    let ?line = "take_line (n - 1) s"
    have f: "fgets n s = Some (?line, drop (length ?line) s)" using False by (simp add: fgets_def Let_def)
    with 1 have "concat (fgets_all n (drop (length ?line) s)) = drop (length ?line) s" by auto
    with f 1(2) show ?thesis by (subst fgets_all.simps) simp
  qed simp
qed

lemma fgets_all_bound: "line \<in> set (fgets_all n s) \<Longrightarrow> length line < n"
proof (induction n s rule: fgets_all.induct)
  case (1 n s)
  then show ?case
    using length_take_line [of "n - 1" s]
    by (subst (asm) (2) fgets_all.simps) (fastforce simp: fgets_def Let_def split: if_splits)
qed

text \<open>A line that fits into the buffer: it ends in its only newline.\<close>

definition line_ok :: "nat \<Rightarrow> string \<Rightarrow> bool" where
  "line_ok n l \<longleftrightarrow> (\<exists>l'. l = l' @ [NL] \<and> NL \<notin> set l') \<and> length l < n"

lemma take_line_line: "NL \<notin> set l \<Longrightarrow> length l < k \<Longrightarrow> take_line k (l @ NL # s) = l @ [NL]"
proof (induction l arbitrary: k)
  case Nil
  then show ?case by (cases k) auto
next
  case (Cons c l)
  then show ?case by (cases k) auto
qed

lemma take_line_short: "NL \<notin> set s \<Longrightarrow> length s \<le> k \<Longrightarrow> take_line k s = s"
  by (induction k s rule: take_line.induct) auto

lemma fgets_all_line: "line_ok n l \<Longrightarrow> fgets_all n (l @ s) = l # fgets_all n s"
proof -
  assume "line_ok n l"
  then obtain l' where l: "l = l' @ [NL]" "NL \<notin> set l'" "length l < n" by (auto simp: line_ok_def)
  have "fgets n (l @ s) = Some (l, s)"
    using l take_line_line [OF l(2), of "n - 1" s] by (simp add: fgets_def Let_def)
  moreover have "\<not> n < 2" using l(1,3) by simp
  ultimately show ?thesis by (subst fgets_all.simps) simp
qed

lemma fgets_all_lines: "\<forall>l \<in> set ls. line_ok n l \<Longrightarrow> fgets_all n (concat ls) = ls"
  by (induction ls) (auto simp: fgets_all_line)

subsection \<open>Decimal numbers\<close>

definition digit :: "nat \<Rightarrow> char" where "digit d = char_of (48 + d)"

function dec_nat :: "nat \<Rightarrow> string" where
  "dec_nat n = (if n < 10 then [digit n] else dec_nat (n div 10) @ [digit (n mod 10)])"
  by pat_completeness auto

termination by (relation "measure (\<lambda>n. n)") auto

declare dec_nat.simps [simp del]

definition dec :: "int \<Rightarrow> string" where
  "dec i = (if i < 0 then CHR ''-'' # dec_nat (nat (- i)) else dec_nat (nat i))"

lemma dec_nat_induct: "(\<And>n :: nat. n < 10 \<Longrightarrow> P n) \<Longrightarrow> (\<And>n d. 0 < n \<Longrightarrow> d < 10 \<Longrightarrow> P n \<Longrightarrow> P (n * 10 + d)) \<Longrightarrow> P n"
proof (induction n rule: dec_nat.induct)
  case (1 n)
  show ?case
  proof (cases "n < 10")
    case False
    then have "P (n div 10)" using 1 by simp
    moreover have "0 < n div 10" "n mod 10 < 10" using False by auto
    ultimately have "P (n div 10 * 10 + n mod 10)" by (rule 1(3) [rotated 2])
    then show ?thesis by simp
  qed (rule 1(2))
qed

lemma dec_nat_simps [simp]:
  "n < 10 \<Longrightarrow> dec_nat n = [digit n]" "0 < n \<Longrightarrow> d < 10 \<Longrightarrow> dec_nat (n * 10 + d) = dec_nat n @ [digit d]"
  by (subst dec_nat.simps, simp)+

lemma of_char_digit: "d < 10 \<Longrightarrow> of_char (digit d) = 48 + d"
  by (simp add: digit_def)

lemma length_dec_nat: "n < 10 ^ Suc k \<Longrightarrow> length (dec_nat n) \<le> Suc k"
proof (induction k arbitrary: n)
  case (Suc k)
  show ?case
  proof (cases "n < 10")
    case False
    have "n div 10 < 10 ^ Suc k" using Suc.prems by (simp add: less_mult_imp_div_less mult.commute)
    from Suc.IH [OF this] False show ?thesis by (subst dec_nat.simps) simp
  qed simp
qed simp

definition isspace :: "char \<Rightarrow> bool" where
  "isspace c \<longleftrightarrow> c \<in> {CHR '' '', CHR 0x09, CHR 0x0A, CHR 0x0B, CHR 0x0C, CHR 0x0D}"

definition isdigit :: "char \<Rightarrow> bool" where
  "isdigit c \<longleftrightarrow> 48 \<le> (of_char c :: nat) \<and> (of_char c :: nat) \<le> 57"

definition digits_value :: "string \<Rightarrow> int" where
  "digits_value s = foldl (\<lambda>v c. v * 10 + int (of_char c - 48)) 0 s"

text \<open>\<open>atoi\<close>: the behaviour is undefined when the value is no \<open>int\<close>.\<close>

definition atoi :: "string \<Rightarrow> int outcome" where
  "atoi s =
     (let t = dropWhile isspace (c_str s);
          negative = (t \<noteq> [] \<and> hd t = CHR ''-'');
          digits = takeWhile isdigit (if t \<noteq> [] \<and> hd t \<in> {CHR ''-'', CHR ''+''} then tl t else t);
          v = (if negative then - digits_value digits else digits_value digits)
      in obind (defined (- INT_MAX - 1 \<le> v \<and> v \<le> INT_MAX)) (\<lambda>_. Inr v))"

lemma isdigit_digit [simp]: "d < 10 \<Longrightarrow> isdigit (digit d)"
  by (simp add: isdigit_def of_char_digit)

lemma isdigit_dec_nat: "c \<in> set (dec_nat n) \<Longrightarrow> isdigit c"
  by (induction n rule: dec_nat_induct) auto

lemma dec_nat_not_Nil [simp]: "dec_nat n \<noteq> []"
  by (subst dec_nat.simps) simp

lemma digits_value_dec_nat: "digits_value (dec_nat n) = int n"
  by (induction n rule: dec_nat_induct) (simp_all add: digits_value_def of_char_digit)

lemma not_digit: "\<not> isdigit NUL" "\<not> isdigit NL" "\<not> isdigit (CHR ''-'')" "\<not> isdigit (CHR ''+'')" "isspace c \<Longrightarrow> \<not> isdigit c"
  by (auto simp: isdigit_def isspace_def)

lemma isspace_NUL: "\<not> isspace NUL"
  by (simp add: isspace_def)

lemma hd_dec_nat: "isdigit (hd (dec_nat n))"
  by (rule isdigit_dec_nat [of _ n]) simp

text \<open>Reading back a printed number, after white space and before anything but a digit.\<close>

lemma atoi_dec_nat:
  assumes "int n \<le> INT_MAX" and "\<forall>c \<in> set ws. isspace c" and "t = [] \<or> \<not> isdigit (hd t)"
  shows "atoi (ws @ dec_nat n @ t) = Inr (int n)"
proof -
  have nul: "NUL \<notin> set ws" "NUL \<notin> set (dec_nat n)"
    using assms(2) isdigit_dec_nat [of NUL n] not_digit(1) isspace_NUL by blast+
  have "c_str (ws @ dec_nat n @ t) = ws @ dec_nat n @ c_str t"
    using nul by (simp add: c_str_def takeWhile_append)
  moreover have "dropWhile isspace (ws @ dec_nat n @ c_str t) = dec_nat n @ c_str t"
    using assms(2) hd_dec_nat [of n] not_digit(5) [of "hd (dec_nat n)"]
    by (cases "dec_nat n") (auto simp: dropWhile_append)
  moreover have "hd (dec_nat n @ c_str t) \<notin> {CHR ''-'', CHR ''+''}"
    using hd_dec_nat [of n] not_digit by (metis dec_nat_not_Nil hd_append2 insertE singletonD)
  moreover have "takeWhile isdigit (dec_nat n @ c_str t) = dec_nat n"
    using assms(3) isdigit_dec_nat [of _ n] by (cases t) (auto simp: c_str_def takeWhile_append)
  ultimately show ?thesis
    using assms(1) by (simp add: atoi_def Let_def digits_value_dec_nat INT_MAX_def)
qed

end
