(* ===== verification/Threads.thy ===== *)
theory Threads
  imports Message_Loop C_Text
begin

section \<open>Threads and the thread host\<close>

text \<open>
  \<open>app/src/main/cpp/thread.{h,cc}\<close>, \<open>thread_host.{h,cc}\<close> and \<open>thread_local.{h,cc}\<close>. A thread is started
  with a configuration that a setter applies on the new thread; its constructor waits on an
  auto-reset event until the new thread has made its message loop, so that the part of the new
  thread before \<open>latch.Signal()\<close> comes before the rest of the constructor. From then on the thread is in
  \<open>loop.Run()\<close>. The host starts one thread for each bit of a mask. The state is the world of the
  message loops, the names given to the threads, and the identifier the next thread will get. A thread
  that has not been given a name keeps the one it was started with, and has none in the model.
  \<open>pthread_key_t\<close> slots are maps from threads to pointers.
\<close>

unbundle bit_operations_syntax

subsection \<open>Thread\<close>

datatype ThreadPriority = BACKGROUND | NORMAL | DISPLAY | RASTER_PRIORITY

record ThreadConfig =
  tc_name :: string
  tc_priority :: ThreadPriority

definition ThreadConfig_named :: "string \<Rightarrow> ThreadConfig" where
  "ThreadConfig_named name = \<lparr>tc_name = name, tc_priority = NORMAL\<rparr>"

definition ThreadConfig_default :: ThreadConfig where
  "ThreadConfig_default = \<lparr>tc_name = [], tc_priority = NORMAL\<rparr>"

type_synonym thread_names = "thread_id \<rightharpoonup> string"
type_synonym ThreadConfigSetter = "thread_id \<Rightarrow> ThreadConfig \<Rightarrow> thread_names \<Rightarrow> thread_names"

text \<open>\<open>pthread_setname_np\<close> takes at most 15 bytes before the terminating zero. It fails with
  \<open>ERANGE\<close> and names nothing otherwise, and \<open>SetThreadName\<close> does not look at what it returns.\<close>

definition ERANGE :: int where "ERANGE = 34"

definition pthread_setname_np :: "thread_id \<Rightarrow> string \<Rightarrow> thread_names \<Rightarrow> thread_names \<times> int" where
  "pthread_setname_np thread name names =
     (if length name \<ge> 16 then (names, ERANGE) else (names(thread \<mapsto> name), 0))"

definition SetThreadName :: "thread_id \<Rightarrow> string \<Rightarrow> thread_names \<Rightarrow> thread_names" where
  "SetThreadName self name names =
     (if name = [] then names else fst (pthread_setname_np self (c_str name) names))"

definition Thread_SetCurrentThreadName :: ThreadConfigSetter where
  "Thread_SetCurrentThreadName self config = SetThreadName self (tc_name config)"

record Thread =
  th_thread :: thread_id
  th_task_runner :: TaskRunner
  th_joined :: bool

record 'c process =
  pr_world :: "'c world"
  pr_names :: thread_names
  pr_next_thread :: thread_id

definition Thread_new ::
  "ndk \<Rightarrow> ThreadConfigSetter \<Rightarrow> ThreadConfig \<Rightarrow> 'c process \<Rightarrow> ('c process \<times> Thread) outcome" where
  "Thread_new n setter config p =
     (let self = pr_next_thread p;
          names = setter self config (pr_names p)
      in obind (MessageLoop_EnsureInitializedForCurrentThread n self (pr_world p)) (\<lambda>w.
         obind (MessageLoop_GetCurrent self w) (\<lambda>loop.
         Inr (\<lparr>pr_world = w, pr_names = names, pr_next_thread = self + 1\<rparr>,
              \<lparr>th_thread = self, th_task_runner = lp_task_runner loop, th_joined = False\<rparr>))))"

definition Thread_new_named :: "ndk \<Rightarrow> string \<Rightarrow> 'c process \<Rightarrow> ('c process \<times> Thread) outcome" where
  "Thread_new_named n name = Thread_new n Thread_SetCurrentThreadName (ThreadConfig_named name)"

definition Thread_GetTaskRunner :: "Thread \<Rightarrow> TaskRunner" where
  "Thread_GetTaskRunner t = th_task_runner t"

text \<open>The closure \<open>terminate\<close> calls \<open>MessageLoop::GetCurrent().Terminate()\<close> on the thread. The result
  says whether \<open>thread_->join()\<close> is called, which returns when the thread's \<open>loop.Run()\<close> has.\<close>

definition Thread_Join :: "'c \<Rightarrow> Thread \<Rightarrow> 'c world \<Rightarrow> ('c world \<times> Thread \<times> bool) outcome" where
  "Thread_Join terminate t w =
     (if th_joined t then Inr (w, t, False)
      else obind (TaskRunner_PostTask (th_task_runner t) (Some terminate) w) (\<lambda>w1.
           Inr (w1, t\<lparr>th_joined := True\<rparr>, True)))"

definition Thread_destroy :: "'c \<Rightarrow> Thread \<Rightarrow> 'c world \<Rightarrow> ('c world \<times> bool) outcome" where
  "Thread_destroy terminate t w = obind (Thread_Join terminate t w) (\<lambda>(w1, _, join). Inr (w1, join))"

subsection \<open>ThreadHost\<close>

datatype ThreadHost_Type = Platform | UI | RASTER | IO | Profiler

fun Type_value :: "ThreadHost_Type \<Rightarrow> 64 word" where
  "Type_value Platform = push_bit 0 1"
| "Type_value UI = push_bit 1 1"
| "Type_value RASTER = push_bit 2 1"
| "Type_value IO = push_bit 3 1"
| "Type_value Profiler = push_bit 4 1"

record ThreadHostConfig =
  hc_type_mask :: "64 word"
  hc_name_prefix :: string
  hc_config_setter :: ThreadConfigSetter
  hc_platform_config :: "ThreadConfig option"
  hc_ui_config :: "ThreadConfig option"
  hc_raster_config :: "ThreadConfig option"
  hc_io_config :: "ThreadConfig option"
  hc_profiler_config :: "ThreadConfig option"

definition ThreadHostConfig_masked :: "string \<Rightarrow> 64 word \<Rightarrow> ThreadConfigSetter \<Rightarrow> ThreadHostConfig" where
  "ThreadHostConfig_masked name_prefix type_mask setter =
     \<lparr>hc_type_mask = type_mask, hc_name_prefix = name_prefix, hc_config_setter = setter, hc_platform_config = None,
      hc_ui_config = None, hc_raster_config = None, hc_io_config = None, hc_profiler_config = None\<rparr>"

definition ThreadHostConfig_new :: "ThreadConfigSetter \<Rightarrow> ThreadHostConfig" where
  "ThreadHostConfig_new setter =
     \<lparr>hc_type_mask = 0, hc_name_prefix = [], hc_config_setter = setter, hc_platform_config = None,
      hc_ui_config = None, hc_raster_config = None, hc_io_config = None, hc_profiler_config = None\<rparr>"

definition isThreadNeeded :: "ThreadHostConfig \<Rightarrow> ThreadHost_Type \<Rightarrow> bool" where
  "isThreadNeeded c type \<longleftrightarrow> hc_type_mask c AND Type_value type \<noteq> 0"

fun MakeThreadName :: "ThreadHost_Type \<Rightarrow> string \<Rightarrow> string" where
  "MakeThreadName Platform name_prefix = name_prefix @ ''.platform''"
| "MakeThreadName UI name_prefix = name_prefix @ ''.ui''"
| "MakeThreadName IO name_prefix = name_prefix @ ''.io''"
| "MakeThreadName RASTER name_prefix = name_prefix @ ''.raster''"
| "MakeThreadName Profiler name_prefix = name_prefix @ ''.profiler''"

definition SetIOConfig :: "ThreadConfig \<Rightarrow> ThreadHostConfig \<Rightarrow> ThreadHostConfig" where
  "SetIOConfig config c = c\<lparr>hc_type_mask := hc_type_mask c OR Type_value IO, hc_io_config := Some config\<rparr>"

definition SetUIConfig :: "ThreadConfig \<Rightarrow> ThreadHostConfig \<Rightarrow> ThreadHostConfig" where
  "SetUIConfig config c = c\<lparr>hc_type_mask := hc_type_mask c OR Type_value UI, hc_ui_config := Some config\<rparr>"

definition SetPlatformConfig :: "ThreadConfig \<Rightarrow> ThreadHostConfig \<Rightarrow> ThreadHostConfig" where
  "SetPlatformConfig config c =
     c\<lparr>hc_type_mask := hc_type_mask c OR Type_value Platform, hc_platform_config := Some config\<rparr>"

definition SetRasterConfig :: "ThreadConfig \<Rightarrow> ThreadHostConfig \<Rightarrow> ThreadHostConfig" where
  "SetRasterConfig config c =
     c\<lparr>hc_type_mask := hc_type_mask c OR Type_value RASTER, hc_raster_config := Some config\<rparr>"

definition SetProfilerConfig :: "ThreadConfig \<Rightarrow> ThreadHostConfig \<Rightarrow> ThreadHostConfig" where
  "SetProfilerConfig config c =
     c\<lparr>hc_type_mask := hc_type_mask c OR Type_value Profiler, hc_profiler_config := Some config\<rparr>"

record ThreadHost =
  ho_name_prefix :: string
  ho_platform_thread :: "Thread option"
  ho_ui_thread :: "Thread option"
  ho_raster_thread :: "Thread option"
  ho_io_thread :: "Thread option"
  ho_profiler_thread :: "Thread option"

definition ThreadHost_CreateThread ::
  "ndk \<Rightarrow> ThreadHost_Type \<Rightarrow> ThreadConfig option \<Rightarrow> ThreadHostConfig \<Rightarrow> 'c process \<Rightarrow> ('c process \<times> Thread) outcome" where
  "ThreadHost_CreateThread n type thread_config c =
     (let config = (case thread_config of
                      None \<Rightarrow> ThreadConfig_named (MakeThreadName type (hc_name_prefix c))
                    | Some tc \<Rightarrow> tc)
      in Thread_new n (hc_config_setter c) config)"

text \<open>\<open>if (host_config.isThreadNeeded(type)) thread = CreateThread(type, config, host_config)\<close>.\<close>

definition create_if_needed ::
  "ndk \<Rightarrow> ThreadHost_Type \<Rightarrow> ThreadConfig option \<Rightarrow> ThreadHostConfig \<Rightarrow> 'c process \<Rightarrow>
   ('c process \<times> Thread option) outcome" where
  "create_if_needed n type config c p =
     (if isThreadNeeded c type
      then obind (ThreadHost_CreateThread n type config c p) (\<lambda>(p1, t). Inr (p1, Some t))
      else Inr (p, None))"

definition ThreadHost_new :: "ndk \<Rightarrow> ThreadHostConfig \<Rightarrow> 'c process \<Rightarrow> ('c process \<times> ThreadHost) outcome" where
  "ThreadHost_new n c p =
     obind (create_if_needed n Platform (hc_platform_config c) c p) (\<lambda>(p1, platform).
     obind (create_if_needed n UI (hc_ui_config c) c p1) (\<lambda>(p2, ui).
     obind (create_if_needed n RASTER (hc_raster_config c) c p2) (\<lambda>(p3, raster).
     obind (create_if_needed n IO (hc_io_config c) c p3) (\<lambda>(p4, io).
     obind (create_if_needed n Profiler (hc_profiler_config c) c p4) (\<lambda>(p5, profiler).
     Inr (p5, \<lparr>ho_name_prefix = hc_name_prefix c, ho_platform_thread = platform, ho_ui_thread = ui,
               ho_raster_thread = raster, ho_io_thread = io, ho_profiler_thread = profiler\<rparr>))))))"

definition ThreadHost_new_masked ::
  "ndk \<Rightarrow> string \<Rightarrow> 64 word \<Rightarrow> 'c process \<Rightarrow> ('c process \<times> ThreadHost) outcome" where
  "ThreadHost_new_masked n name_prefix type_mask =
     ThreadHost_new n (ThreadHostConfig_masked name_prefix type_mask Thread_SetCurrentThreadName)"

subsection \<open>Thread-local pointers\<close>

text \<open>One \<open>pthread_key_t\<close>: each thread's pointer, null where there is none. \<open>pthread_setspecific\<close> may
  report an error. \<open>reset\<close> gives the pointer that \<open>destroy\<close> deletes.\<close>

type_synonym 'p tls_slot = "thread_id \<Rightarrow> 'p option"

definition ThreadLocalPointer_new :: "int \<Rightarrow> 'p tls_slot outcome" where
  "ThreadLocalPointer_new pthread_key_create = obind (check (pthread_key_create = 0)) (\<lambda>_. Inr (\<lambda>_. None))"

definition ThreadLocalPointer_destroy :: "int \<Rightarrow> unit outcome" where
  "ThreadLocalPointer_destroy pthread_key_delete = check (pthread_key_delete = 0)"

definition ThreadLocalPointer_get :: "thread_id \<Rightarrow> 'p tls_slot \<Rightarrow> 'p option" where
  "ThreadLocalPointer_get self s = s self"

definition ThreadLocalPointer_swap ::
  "int \<Rightarrow> thread_id \<Rightarrow> 'p option \<Rightarrow> 'p tls_slot \<Rightarrow> ('p tls_slot \<times> 'p option) outcome" where
  "ThreadLocalPointer_swap pthread_setspecific self ptr s =
     (let old_ptr = ThreadLocalPointer_get self s
      in if pthread_setspecific \<noteq> 0 then Inl Check_Failed else Inr (s(self := ptr), old_ptr))"

definition ThreadLocalUniquePtr_reset ::
  "int \<Rightarrow> thread_id \<Rightarrow> 'p option \<Rightarrow> 'p tls_slot \<Rightarrow> ('p tls_slot \<times> 'p option) outcome" where
  "ThreadLocalUniquePtr_reset = ThreadLocalPointer_swap"

definition ThreadLocalUniquePtr_get :: "thread_id \<Rightarrow> 'p tls_slot \<Rightarrow> 'p option" where
  "ThreadLocalUniquePtr_get = ThreadLocalPointer_get"

subsection \<open>The threads of a host\<close>

fun host_thread :: "ThreadHost \<Rightarrow> ThreadHost_Type \<Rightarrow> Thread option" where
  "host_thread h Platform = ho_platform_thread h"
| "host_thread h UI = ho_ui_thread h"
| "host_thread h RASTER = ho_raster_thread h"
| "host_thread h IO = ho_io_thread h"
| "host_thread h Profiler = ho_profiler_thread h"

fun config_for :: "ThreadHostConfig \<Rightarrow> ThreadHost_Type \<Rightarrow> ThreadConfig option" where
  "config_for c Platform = hc_platform_config c"
| "config_for c UI = hc_ui_config c"
| "config_for c RASTER = hc_raster_config c"
| "config_for c IO = hc_io_config c"
| "config_for c Profiler = hc_profiler_config c"

text \<open>The name a thread of the host should have.\<close>

definition expected_name :: "ThreadHostConfig \<Rightarrow> ThreadHost_Type \<Rightarrow> string" where
  "expected_name c type =
     (case config_for c type of None \<Rightarrow> MakeThreadName type (hc_name_prefix c) | Some tc \<Rightarrow> tc_name tc)"

text \<open>The name a thread really has once it has been configured with a name.\<close>

definition name_given :: "string \<Rightarrow> string option" where
  "name_given name = (if name = [] \<or> length (c_str name) \<ge> 16 then None else Some (c_str name))"

lemma SetThreadName_given:
  "names self = None \<Longrightarrow> SetThreadName self name names self = name_given name"
  by (simp add: SetThreadName_def pthread_setname_np_def name_given_def)

lemma SetThreadName_other: "k \<noteq> self \<Longrightarrow> SetThreadName self name names k = names k"
  by (simp add: SetThreadName_def pthread_setname_np_def)

text \<open>What the code relies on of the NDK, and of thread identifiers: no loop and no name is left over from
  another thread.\<close>

definition ndk_ok :: "ndk \<Rightarrow> bool" where
  "ndk_ok n \<longleftrightarrow> (\<forall>tid. ALooper_forThread n tid \<noteq> 0 \<or> ALooper_prepare n tid \<noteq> 0) \<and> timerfd_create n \<ge> 0 \<and> ALooper_addFd n = 1"

definition fresh_threads :: "'c process \<Rightarrow> bool" where
  "fresh_threads p \<longleftrightarrow> (\<forall>tid \<ge> pr_next_thread p.
     w_tls_message_loop (pr_world p) tid = None \<and> pr_names p tid = None)"

text \<open>A started thread: its task runner posts to the loop it runs, which is alive and
  not terminated.\<close>

definition serves :: "'c process \<Rightarrow> Thread \<Rightarrow> bool" where
  "serves p t \<longleftrightarrow> th_thread t < pr_next_thread p \<and> \<not> th_joined t \<and>
     (\<exists>a l. th_task_runner t = \<lparr>tr_loop = Some a\<rparr> \<and> a < w_next_loop (pr_world p) \<and>
        w_loops (pr_world p) a = Some l \<and> \<not> ml_terminated l \<and>
        w_tls_message_loop (pr_world p) (th_thread t) = Some \<lparr>lp_loop = a, lp_task_runner = th_task_runner t\<rparr>)"

definition extends :: "'c process \<Rightarrow> 'c process \<Rightarrow> bool" where
  "extends p p' \<longleftrightarrow> pr_next_thread p \<le> pr_next_thread p' \<and> w_next_loop (pr_world p) \<le> w_next_loop (pr_world p') \<and>
     (\<forall>tid < pr_next_thread p. pr_names p' tid = pr_names p tid \<and>
        w_tls_message_loop (pr_world p') tid = w_tls_message_loop (pr_world p) tid) \<and>
     (\<forall>a < w_next_loop (pr_world p). w_loops (pr_world p') a = w_loops (pr_world p) a)"

lemma extends_refl [simp]: "extends p p"
  by (simp add: extends_def)

lemma extends_trans: "extends p q \<Longrightarrow> extends q r \<Longrightarrow> extends p r"
  by (auto simp: extends_def)

lemma serves_extends: "serves p t \<Longrightarrow> extends p p' \<Longrightarrow> serves p' t"
  unfolding serves_def extends_def by fastforce

lemma names_extends: "serves p t \<Longrightarrow> extends p p' \<Longrightarrow> pr_names p' (th_thread t) = pr_names p (th_thread t)"
  by (auto simp: serves_def extends_def)

lemma EnsureInitialized_new:
  assumes "ndk_ok n" and "w_tls_message_loop w tid = None"
  shows "\<exists>l w'. MessageLoop_EnsureInitializedForCurrentThread n tid w = Inr w' \<and> \<not> ml_terminated l \<and>
    w_loops w' = (w_loops w)(w_next_loop w \<mapsto> l) \<and> w_next_loop w' = w_next_loop w + 1 \<and>
    w_tls_message_loop w' = (w_tls_message_loop w)
      (tid \<mapsto> \<lparr>lp_loop = w_next_loop w, lp_task_runner = \<lparr>tr_loop = Some (w_next_loop w)\<rparr>\<rparr>)"
proof -
  let ?l = "\<lparr>ml_queue_id = task_queue_id_counter (w_queues w), ml_terminated = False,
    ml_looper = AcquireLooperForThread n tid, ml_timer_fd = timerfd_create n, ml_running = False\<rparr>"
  have "ALooper_forThread n tid \<noteq> 0 \<or> ALooper_prepare n tid \<noteq> 0" using assms(1) unfolding ndk_ok_def by blast
  then have "AcquireLooperForThread n tid \<noteq> 0" by (auto simp: AcquireLooperForThread_def Let_def)
  with assms show ?thesis
    by (intro exI [of _ ?l]) (simp add: MessageLoop_EnsureInitializedForCurrentThread_def MessageLoopAndroid_new_def
      MessageLoopImpl_init_def MessageLoopTaskQueues_CreateTaskQueue_def MessageLoopTaskQueues_SetWakeable_def
      update_entry_def TaskQueueEntry_new_def ndk_ok_def Let_def)
qed

lemma Thread_new_serves:
  assumes "ndk_ok n" and "fresh_threads p"
  shows "\<exists>p' t. Thread_new n Thread_SetCurrentThreadName config p = Inr (p', t) \<and> extends p p' \<and> fresh_threads p' \<and>
    serves p' t \<and> pr_next_thread p \<le> th_thread t \<and>
    pr_names p' (th_thread t) = name_given (tc_name config)"
proof -
  let ?self = "pr_next_thread p"
  have "w_tls_message_loop (pr_world p) ?self = None" using assms(2) by (simp add: fresh_threads_def)
  from EnsureInitialized_new [OF assms(1) this] obtain l w' where
    w': "MessageLoop_EnsureInitializedForCurrentThread n ?self (pr_world p) = Inr w'" "\<not> ml_terminated l"
    "w_loops w' = (w_loops (pr_world p))(w_next_loop (pr_world p) \<mapsto> l)"
    "w_next_loop w' = w_next_loop (pr_world p) + 1"
    "w_tls_message_loop w' = (w_tls_message_loop (pr_world p))(?self \<mapsto> \<lparr>lp_loop = w_next_loop (pr_world p),
        lp_task_runner = \<lparr>tr_loop = Some (w_next_loop (pr_world p))\<rparr>\<rparr>)" by blast
  let ?p = "\<lparr>pr_world = w', pr_names = SetThreadName ?self (tc_name config) (pr_names p), pr_next_thread = ?self + 1\<rparr>"
  let ?t = "\<lparr>th_thread = ?self, th_task_runner = \<lparr>tr_loop = Some (w_next_loop (pr_world p))\<rparr>, th_joined = False\<rparr>"
  have "Thread_new n Thread_SetCurrentThreadName config p = Inr (?p, ?t)"
    using w' by (simp add: Thread_new_def Thread_SetCurrentThreadName_def MessageLoop_GetCurrent_def Let_def)
  moreover have "extends p ?p" using w' by (simp add: extends_def SetThreadName_other)
  moreover have "fresh_threads ?p" using w' assms(2) by (simp add: fresh_threads_def SetThreadName_other)
  moreover have "serves ?p ?t" using w' by (simp add: serves_def)
  ultimately show ?thesis by (intro exI [of _ ?p] exI [of _ ?t]) (use assms(2) in \<open>simp add: SetThreadName_given fresh_threads_def\<close>)
qed

lemma create_if_needed_serves:
  assumes "ndk_ok n" and "fresh_threads p" and "hc_config_setter c = Thread_SetCurrentThreadName"
    and "config = config_for c type"
  shows "\<exists>p' r. create_if_needed n type config c p = Inr (p', r) \<and> extends p p' \<and> fresh_threads p' \<and>
    (r \<noteq> None \<longleftrightarrow> isThreadNeeded c type) \<and>
    (\<forall>t. r = Some t \<longrightarrow> serves p' t \<and> pr_next_thread p \<le> th_thread t \<and>
      pr_names p' (th_thread t) = name_given (expected_name c type))"
proof (cases "isThreadNeeded c type")
  case True
  let ?config = "case config of None \<Rightarrow> ThreadConfig_named (MakeThreadName type (hc_name_prefix c)) | Some tc \<Rightarrow> tc"
  have "tc_name ?config = expected_name c type"
    using assms(4) by (cases type; auto simp: expected_name_def ThreadConfig_named_def split: option.splits)
  with Thread_new_serves [OF assms(1,2), of ?config] True assms(3) show ?thesis
    by (auto simp: create_if_needed_def ThreadHost_CreateThread_def Let_def)
qed (use assms(2) in \<open>auto simp: create_if_needed_def\<close>)

text \<open>The five steps are one loop over the types.\<close>

fun create_all :: "ndk \<Rightarrow> ThreadHostConfig \<Rightarrow> ThreadHost_Type list \<Rightarrow> 'c process \<Rightarrow>
    ('c process \<times> (ThreadHost_Type \<times> Thread option) list) outcome" where
  "create_all n c [] p = Inr (p, [])"
| "create_all n c (type # types) p =
     obind (create_if_needed n type (config_for c type) c p) (\<lambda>(p1, r).
     obind (create_all n c types p1) (\<lambda>(p2, rs). Inr (p2, (type, r) # rs)))"

abbreviation all_types :: "ThreadHost_Type list" where
  "all_types \<equiv> [Platform, UI, RASTER, IO, Profiler]"

lemma ThreadHost_new_all:
  "ThreadHost_new n c p = obind (create_all n c all_types p) (\<lambda>(p1, rs).
     Inr (p1, \<lparr>ho_name_prefix = hc_name_prefix c, ho_platform_thread = snd (rs ! 0), ho_ui_thread = snd (rs ! 1),
       ho_raster_thread = snd (rs ! 2), ho_io_thread = snd (rs ! 3), ho_profiler_thread = snd (rs ! 4)\<rparr>))"
  by (simp add: ThreadHost_new_def obind_def split: sum.split prod.split)

definition slot_ok :: "ThreadHostConfig \<Rightarrow> 'c process \<Rightarrow> 'c process \<Rightarrow> ThreadHost_Type \<times> Thread option \<Rightarrow> bool" where
  "slot_ok c p p' slot \<longleftrightarrow> (case slot of (type, r) \<Rightarrow>
     (r \<noteq> None \<longleftrightarrow> isThreadNeeded c type) \<and>
     (\<forall>t. r = Some t \<longrightarrow> serves p' t \<and> pr_next_thread p \<le> th_thread t \<and>
        pr_names p' (th_thread t) = name_given (expected_name c type)))"

lemma slot_ok_extends:
  assumes "slot_ok c q q' slot" and "extends p q" and "extends q' p'"
  shows "slot_ok c p p' slot"
proof (cases slot)
  case (Pair type r)
  have "pr_next_thread p \<le> pr_next_thread q" using assms(2) by (simp add: extends_def)
  with assms serves_extends [OF _ assms(3)] names_extends [OF _ assms(3)] Pair show ?thesis
    by (fastforce simp: slot_ok_def)
qed

definition threads_in :: "(ThreadHost_Type \<times> Thread option) list \<Rightarrow> Thread list" where
  "threads_in rs = concat (map (\<lambda>(type, r). case r of None \<Rightarrow> [] | Some t \<Rightarrow> [t]) rs)"

lemma threads_in_ge: "\<forall>slot \<in> set rs. slot_ok c p p' slot \<Longrightarrow> t \<in> set (threads_in rs) \<Longrightarrow> pr_next_thread p \<le> th_thread t"
  by (fastforce simp: threads_in_def slot_ok_def split: option.splits)

lemma create_all_serves:
  assumes "ndk_ok n" and "hc_config_setter c = Thread_SetCurrentThreadName" and "fresh_threads p"
  shows "\<exists>p' rs. create_all n c types p = Inr (p', rs) \<and> map fst rs = types \<and> extends p p' \<and>
    (\<forall>slot \<in> set rs. slot_ok c p p' slot) \<and> distinct (map th_thread (threads_in rs))"
  using assms(3)
proof (induction types arbitrary: p)
  case (Cons type types)
  obtain p1 r where r: "create_if_needed n type (config_for c type) c p = Inr (p1, r)" "extends p p1" "fresh_threads p1"
    and ok: "slot_ok c p p1 (type, r)"
    using create_if_needed_serves [OF assms(1) Cons.prems assms(2) refl, of type]
    by (auto simp: slot_ok_def)
  from Cons.IH [OF r(3)] obtain p2 rs where rs: "create_all n c types p1 = Inr (p2, rs)" "map fst rs = types"
    "extends p1 p2" "\<forall>slot \<in> set rs. slot_ok c p1 p2 slot" "distinct (map th_thread (threads_in rs))" by blast
  have "th_thread t \<noteq> th_thread u" if "r = Some t" "u \<in> set (threads_in rs)" for t u
    using ok that(1) threads_in_ge [OF rs(4) that(2)] by (auto simp: slot_ok_def serves_def)
  then have "distinct (map th_thread (threads_in ((type, r) # rs)))"
    using rs(5) by (cases r) (auto simp: threads_in_def)
  moreover have "\<forall>slot \<in> set ((type, r) # rs). slot_ok c p p2 slot"
    using slot_ok_extends [OF ok extends_refl rs(3)] slot_ok_extends [OF _ r(2) extends_refl] rs(4) by simp
  ultimately show ?case using r(1) rs(1,2) extends_trans [OF r(2) rs(3)] by (intro exI [of _ p2] exI [of _ "(type, r) # rs"]) simp
qed (simp add: threads_in_def)

text \<open>C25: a thread host starts exactly the threads of its mask, each on a thread of its own; when the
  constructor returns, the task runner of each of them posts to the message loop of that thread, which is
  alive. A thread has the name of its configuration, or the one made of the prefix and its type, exactly
  if that is not empty and at most 15 bytes long; otherwise it is not named.\<close>

theorem ThreadHost_starts_threads:
  assumes "ndk_ok n" and "fresh_threads p" and "hc_config_setter c = Thread_SetCurrentThreadName"
  shows "\<exists>p' h. ThreadHost_new n c p = Inr (p', h) \<and>
    (\<forall>type. (host_thread h type \<noteq> None \<longleftrightarrow> isThreadNeeded c type) \<and>
      (\<forall>t. host_thread h type = Some t \<longrightarrow> serves p' t \<and>
        pr_names p' (th_thread t) =
          (let name = (case config_for c type of
                         None \<Rightarrow> MakeThreadName type (hc_name_prefix c)
                       | Some tc \<Rightarrow> tc_name tc)
           in if name \<noteq> [] \<and> length (c_str name) \<le> 15 then Some (c_str name) else None))) \<and>
    distinct (map th_thread (threads_in (map (\<lambda>type. (type, host_thread h type)) all_types)))"
proof -
  have named: "name_given (expected_name c type) =
      (let name = (case config_for c type of None \<Rightarrow> MakeThreadName type (hc_name_prefix c) | Some tc \<Rightarrow> tc_name tc)
       in if name \<noteq> [] \<and> length (c_str name) \<le> 15 then Some (c_str name) else None)" for type
    by (auto simp: name_given_def expected_name_def Let_def)
  from create_all_serves [OF assms(1,3,2), of all_types] obtain p' rs where
    rs: "create_all n c all_types p = Inr (p', rs)" "map fst rs = all_types"
    "\<forall>slot \<in> set rs. slot_ok c p p' slot" "distinct (map th_thread (threads_in rs))" by (elim exE conjE) (rule that)
  from rs(2) obtain r1 r2 r3 r4 r5 where
    r: "rs = [(Platform, r1), (UI, r2), (RASTER, r3), (IO, r4), (Profiler, r5)]" by (auto simp: map_eq_Cons_conv)
  let ?h = "\<lparr>ho_name_prefix = hc_name_prefix c, ho_platform_thread = r1, ho_ui_thread = r2,
               ho_raster_thread = r3, ho_io_thread = r4, ho_profiler_thread = r5\<rparr>"
  have "ThreadHost_new n c p = Inr (p', ?h)" using rs(1) r by (simp add: ThreadHost_new_all del: create_all.simps)
  moreover have "(type, host_thread ?h type) \<in> set rs" for type using r by (cases type) simp_all
  with rs(3) have "slot_ok c p p' (type, host_thread ?h type)" for type by blast
  moreover have "map (\<lambda>type. (type, host_thread ?h type)) all_types = rs" using r by simp
  ultimately show ?thesis using rs(4) by (intro exI [of _ p'] exI [of _ ?h]) (simp add: slot_ok_def named del: host_thread.simps)
qed

definition sample_process :: "nat process" where
  "sample_process = \<lparr>pr_world = \<lparr>w_queues = MessageLoopTaskQueues_new 0, w_loops = Map.empty, w_next_loop = 0,
     w_tls_message_loop = Map.empty, w_clock = \<lparr>gSteadyClockSource = None, steady_clock = 7\<rparr>, w_log = []\<rparr>,
     pr_names = Map.empty, pr_next_thread = 1\<rparr>"

definition sample_ndk :: ndk where
  "sample_ndk = \<lparr>ALooper_forThread = (\<lambda>_. 0), ALooper_prepare = Suc, timerfd_create = 3, ALooper_addFd = 1, ALooper_removeFd = 1\<rparr>"

text \<open>With a short prefix the thread has its name; the prefix that the application uses is too long.\<close>

theorem ThreadHost_starts_threads_witness:
  "(\<exists>p' h t. ThreadHost_new_masked sample_ndk ''env'' 3 sample_process = Inr (p', h) \<and>
     host_thread h UI = Some t \<and> pr_names p' (th_thread t) = Some ''env.ui'' \<and> host_thread h IO = None) \<and>
   (\<exists>p' h t. ThreadHost_new_masked sample_ndk ''Forever_ArchTaskExecutor'' 3 sample_process = Inr (p', h) \<and>
     host_thread h UI = Some t \<and> pr_names p' (th_thread t) = None)"
proof -
  have "\<exists>p' h t. ThreadHost_new_masked sample_ndk name_prefix 3 sample_process = Inr (p', h) \<and>
      host_thread h UI = Some t \<and> pr_names p' (th_thread t) = name_given (name_prefix @ ''.ui'') \<and> host_thread h IO = None"
    for name_prefix
  proof -
    let ?c = "ThreadHostConfig_masked name_prefix 3 Thread_SetCurrentThreadName"
    have "ndk_ok sample_ndk" by (simp add: ndk_ok_def sample_ndk_def)
    moreover have "fresh_threads sample_process" by (simp add: fresh_threads_def sample_process_def)
    moreover have "hc_config_setter ?c = Thread_SetCurrentThreadName" by (simp add: ThreadHostConfig_masked_def)
    ultimately obtain p' h where h: "ThreadHost_new sample_ndk ?c sample_process = Inr (p', h)"
      and slots: "\<And>type. host_thread h type \<noteq> None \<longleftrightarrow> isThreadNeeded ?c type"
        "\<And>t. host_thread h UI = Some t \<Longrightarrow> pr_names p' (th_thread t) = name_given (name_prefix @ ''.ui'')"
      using ThreadHost_starts_threads [of sample_ndk sample_process ?c]
      by (fastforce simp: name_given_def ThreadHostConfig_masked_def Let_def simp del: host_thread.simps)
    have needed: "isThreadNeeded ?c UI" "\<not> isThreadNeeded ?c IO"
      by (simp_all add: isThreadNeeded_def ThreadHostConfig_masked_def)
    then obtain t where "host_thread h UI = Some t" using slots(1) [of UI] by blast
    then show ?thesis
      using h slots(1) [of IO] needed(2) slots(2) unfolding ThreadHost_new_masked_def by auto
  qed
  from this [of "''env''"] this [of "''Forever_ArchTaskExecutor''"]
  show ?thesis
    by (auto simp: name_given_def c_str_def)
qed

end
