(* ===== verification/Detectors.thy ===== *)
theory Detectors
  imports C_Text
begin

section \<open>The detectors of CheckEnv\<close>

text \<open>
  \<open>CheckEnv/src/main/cpp\<close>: \<open>common.cpp\<close>, \<open>mobile_info.cpp\<close>, \<open>check_multi_open.cpp\<close>, \<open>check_debug.cpp\<close>,
  \<open>check_root.cpp\<close>, \<open>check_cpu.cpp\<close>, \<open>check_hook.cpp\<close> and \<open>check_device_uuid.cpp\<close>. The system is a record
  of what its calls answer: the contents of the files that can be opened, the output of shell commands,
  what \<open>access\<close> allows, the symbols of the libraries that \<open>dlopen\<close> finds, and the numbers of the
  process. Log output is left out, except where it is all that a function does.
\<close>

record os =
  os_file :: "string \<Rightarrow> string option"
  os_command :: "string \<Rightarrow> string option"
  os_F_OK :: "string \<Rightarrow> bool"
  os_R_OK :: "string \<Rightarrow> bool"
  os_X_OK :: "string \<Rightarrow> bool"
  os_dlopen :: "string \<Rightarrow> (string \<Rightarrow> bool) option"
  os_getpid :: int
  os_getppid :: int
  os_getuid :: nat
  os_ptrace :: int
  os_nprocessors_conf :: int
  os_property :: "string \<Rightarrow> string"

subsection \<open>\<open>common.cpp\<close>\<close>

definition getMyPid :: "os \<Rightarrow> string outcome" where
  "getMyPid s = sprintf_into 16 (dec (os_getpid s))"

definition getParentPid :: "os \<Rightarrow> string outcome" where
  "getParentPid s = sprintf_into 16 (dec (os_getppid s))"

text \<open>\<open>while (fgets(buf, n, pf)) resultStr += buf;\<close>, then the last newline is cut off.\<close>

definition cut_newline :: "string \<Rightarrow> string" where
  "cut_newline r = (if length r > 0 \<and> r ! (length r - 1) = NL then take (length r - 1) r else r)"

definition readFile :: "os \<Rightarrow> string \<Rightarrow> string" where
  "readFile s path =
     (if path = [] then []
      else case os_file s path of
             None \<Rightarrow> []
           | Some content \<Rightarrow> cut_newline (concat (map c_str (fgets_all 512 content))))"

definition shellExecute :: "os \<Rightarrow> string \<Rightarrow> string" where
  "shellExecute s cmd =
     (case os_command s cmd of
        None \<Rightarrow> []
      | Some out \<Rightarrow> cut_newline (concat (map c_str (fgets_all 128 out))))"

definition getPackageName :: "os \<Rightarrow> string \<Rightarrow> string" where
  "getPackageName s pid =
     (if pid = [] then []
      else let result = readFile s (''/proc/'' @ pid @ ''/cmdline'') in if result = [] then [] else result)"

definition existsFile :: "os \<Rightarrow> string \<Rightarrow> bool" where
  "existsFile s path = os_F_OK s path"

text \<open>\<open>__system_property_get\<close> stores at most 91 characters and a terminator.\<close>

definition getBuildInfo64 :: "os \<Rightarrow> string \<Rightarrow> string outcome" where
  "getBuildInfo64 s name = sprintf_into 64 (os_property s name)"

definition getBuildInfo256 :: "os \<Rightarrow> string \<Rightarrow> string outcome" where
  "getBuildInfo256 s name = sprintf_into 256 (os_property s name)"

subsection \<open>\<open>mobile_info.cpp\<close>: kernel information\<close>

text \<open>The first seven functions are one text with different names.\<close>

definition read_or_cat :: "os \<Rightarrow> string \<Rightarrow> string" where
  "read_or_cat s path =
     (let r = readFile s path in if length (c_str r) = 0 then shellExecute s (''cat '' @ path) else r)"

definition getBootId :: "os \<Rightarrow> string" where
  "getBootId s = read_or_cat s ''/proc/sys/kernel/random/boot_id''"

definition getEntropyAvail :: "os \<Rightarrow> string" where
  "getEntropyAvail s = read_or_cat s ''/proc/sys/kernel/random/entropy_avail''"

definition getPoolSize :: "os \<Rightarrow> string" where
  "getPoolSize s = read_or_cat s ''/proc/sys/kernel/random/poolsize''"

definition getReadWakeupThreshold :: "os \<Rightarrow> string" where
  "getReadWakeupThreshold s = read_or_cat s ''/proc/sys/kernel/random/read_wakeup_threshold''"

definition getWriteWakeupThreshold :: "os \<Rightarrow> string" where
  "getWriteWakeupThreshold s = read_or_cat s ''/proc/sys/kernel/random/write_wakeup_threshold''"

definition getUuid :: "os \<Rightarrow> string" where
  "getUuid s = read_or_cat s ''/proc/sys/kernel/random/uuid''"

definition getURandomMinReseedSecs :: "os \<Rightarrow> string" where
  "getURandomMinReseedSecs s = read_or_cat s ''/proc/sys/kernel/random/urandom_min_reseed_secs''"

definition getKennel :: "os \<Rightarrow> string" where
  "getKennel s =
     (let kennel = readFile s ''/proc/version''
      in if length (c_str kennel) = 0
         then let r = shellExecute s ''uname -r''; v = shellExecute s ''uname -v''
              in if length (c_str r) \<noteq> 0
                 then if length (c_str v) \<noteq> 0 then r @ '' '' @ v else r
                 else []
         else kennel)"

subsection \<open>\<open>mobile_info.cpp\<close>: hooks and multiple instances\<close>

definition checkMoreOpenByUid :: "os \<Rightarrow> int outcome" where
  "checkMoreOpenByUid s =
     (if existsFile s ''/system/bin/ls''
      then
        obind (getMyPid s) (\<lambda>pid.
        let name = getPackageName s pid
        in obind (sprintf_into 256 (''ls /data/data/'' @ c_str name)) (\<lambda>path.
           if shellExecute s path = [] then Inr 1 else Inr 0))
      else Inr 0)"

definition library_symbol :: "os \<Rightarrow> string \<Rightarrow> string \<Rightarrow> bool" where
  "library_symbol s library symbol =
     (case os_dlopen s library of None \<Rightarrow> False | Some symbols \<Rightarrow> symbols symbol)"

definition checkSubstrateBySo :: "os \<Rightarrow> int" where
  "checkSubstrateBySo s = (if library_symbol s ''libsubstrate-dvm.so'' ''MSJavaHookMethod'' then 1 else 0)"

definition xHookCheck :: "os \<Rightarrow> int" where
  "xHookCheck s = (if library_symbol s ''libxhook.so'' ''xhook_register'' then 1 else 0)"

definition hook_marker :: "string \<Rightarrow> bool" where
  "hook_marker buf \<longleftrightarrow> strstr buf ''frida'' \<or> strstr buf ''com.saurik.substrate'' \<or> strstr buf ''XposedBridge.jar''"

text \<open>When the file cannot be opened, \<open>fclose(nullptr)\<close>.\<close>

definition frameCheck :: "os \<Rightarrow> int outcome" where
  "frameCheck s =
     obind (sprintf_into 32 (''/proc/'' @ dec (os_getpid s) @ ''/maps'')) (\<lambda>path.
     case os_file s path of
       None \<Rightarrow> Inl Undefined_Behaviour
     | Some content \<Rightarrow> Inr (if \<exists>buf \<in> set (fgets_all 512 content). hook_marker (c_str buf) then 1 else 0))"

definition checkHookByMap :: "os \<Rightarrow> string outcome" where
  "checkHookByMap s =
     obind (frameCheck s) (\<lambda>_.
     let mapsStr = readFile s ''/proc/self/maps'';
         mapsStr = (if mapsStr = [] then shellExecute s ''/proc/myself/maps'' else mapsStr)
     in if mapsStr = [] then Inr []
        else
          let maps = c_str mapsStr
          in Inr ((if strstr maps ''frida'' then ''frida'' else []) @
                  (if strstr maps ''com.saurik.substrate'' then ''substrate'' else []) @
                  (if strstr maps ''XposedBridge.jar'' then ''xposed'' else [])))"

definition checkHookByPackage :: "os \<Rightarrow> string" where
  "checkHookByPackage s =
     (if existsFile s ''/data/data/de.robv.android.xposed.installer'' \<or> existsFile s ''/data/data/io.va.exposed''
      then ''xposed'' else []) @
     (if existsFile s ''/data/data/com.saurik.substrate'' then ''substrate'' else [])"

subsection \<open>\<open>check_multi_open.cpp\<close>\<close>

text \<open>\<open>getPackageName\<close> on the 64-byte buffer of its caller: failure, or the text in the buffer.\<close>

definition getPackageName_into :: "os \<Rightarrow> string \<Rightarrow> string option outcome" where
  "getPackageName_into s buffer =
     obind (sprintf_into 64 (''/proc/'' @ dec (os_getpid s) @ ''/cmdline'')) (\<lambda>path.
     case os_file s path of
       None \<Rightarrow> Inr None
     | Some content \<Rightarrow>
         Inr (Some (case fgets 64 content of None \<Rightarrow> buffer | Some (line, _) \<Rightarrow> c_str line)))"

definition moreOpenCheck :: "os \<Rightarrow> int outcome" where
  "moreOpenCheck s =
     (if os_F_OK s ''/system/bin/ls''
      then
        obind (getPackageName_into s ''$unknown'') (\<lambda>r.
        case r of
          None \<Rightarrow> Inr 2
        | Some packageName \<Rightarrow>
            obind (sprintf_into 128 (''ls /data/data/'' @ packageName)) (\<lambda>path.
            case os_command s path of
              None \<Rightarrow> Inr 2
            | Some out \<Rightarrow>
                (case fgets 32 out of
                   None \<Rightarrow> Inr 1
                 | Some (buff, _) \<Rightarrow> if length (c_str buff) = 0 then Inr 1 else Inr 0)))
      else Inr 2)"

text \<open>The variant that asks the context for the package name (null when JNI fails).\<close>

definition moreOpenCheckExt :: "string option \<Rightarrow> os \<Rightarrow> int outcome" where
  "moreOpenCheckExt package s =
     (if os_F_OK s ''/system/bin/ls''
      then
        (case package of
           None \<Rightarrow> Inr (- 1)
         | Some name \<Rightarrow>
             obind (sprintf_into 256 (''ls /data/data/'' @ name)) (\<lambda>path.
             case os_command s path of
               None \<Rightarrow> Inr (- 1)
             | Some out \<Rightarrow>
                 (case fgets 32 out of
                    None \<Rightarrow> Inr 1
                  | Some (buff, _) \<Rightarrow> if length (c_str buff) \<noteq> 0 then Inr 0 else Inr 1)))
      else Inr (- 1))"

definition isSystemDualApp :: "os \<Rightarrow> bool" where
  "isSystemDualApp s \<longleftrightarrow> 0 \<noteq> os_getuid s div 100000"

definition isUserDualApp :: "os \<Rightarrow> string \<Rightarrow> bool" where
  "isUserDualApp s dataDir = os_R_OK s (dataDir @ ''/../'')"

subsection \<open>\<open>check_debug.cpp\<close>\<close>

text \<open>The lines of \<open>ps\<close> that are reported.\<close>

definition SearchObjProcess :: "os \<Rightarrow> string list" where
  "SearchObjProcess s =
     (case os_command s ''ps'' of
        None \<Rightarrow> []
      | Some out \<Rightarrow>
          filter (\<lambda>buf. strstr (c_str buf) ''android_server'' \<or> strstr (c_str buf) ''gdbserver'' \<or>
                        strstr (c_str buf) ''gdb'' \<or> strstr (c_str buf) ''fuwu'') (fgets_all 4096 out))"

definition CheckParents :: "os \<Rightarrow> bool outcome" where
  "CheckParents s =
     obind (getParentPid s) (\<lambda>pid. Inr (strstr (c_str (readFile s (''/proc/'' @ pid @ ''/cmdline''))) ''zygote''))"

definition ptraceCheck :: "os \<Rightarrow> bool" where
  "ptraceCheck s \<longleftrightarrow> os_ptrace s = - 1"

text \<open>The loop over the status file, with the whole buffer: a line overwrites its beginning.\<close>

definition store_line :: "string \<Rightarrow> string \<Rightarrow> string" where
  "store_line line buffer = line @ NUL # drop (length line + 1) buffer"

fun tracer_loop :: "string list \<Rightarrow> string \<Rightarrow> int outcome" where
  "tracer_loop [] buffer = Inr 0"
| "tracer_loop (line # rest) buffer =
     (let buffer1 = store_line line buffer
      in if strncmp_eq buffer1 ''TracerPid'' 9
         then obind (atoi (drop 10 buffer1)) (\<lambda>status. if status \<noteq> 0 then Inr (- 1) else tracer_loop rest buffer1)
         else tracer_loop rest buffer1)"

text \<open>The result is a \<open>jboolean\<close>, an unsigned byte.\<close>

definition nativeReadTracerPid :: "os \<Rightarrow> byte outcome" where
  "nativeReadTracerPid s =
     (let found = SearchObjProcess s
      in obind (CheckParents s) (\<lambda>_.
         let traced = ptraceCheck s
         in obind (sprintf_into 128 (''/proc/'' @ dec (os_getpid s) @ ''/status'')) (\<lambda>file_path.
            case os_file s file_path of
              None \<Rightarrow> Inr (word_of_int (- 2))
            | Some content \<Rightarrow>
                obind (tracer_loop (fgets_all 1024 content) (replicate 1024 NUL)) (\<lambda>r. Inr (word_of_int r)))))"

subsection \<open>\<open>check_root.cpp\<close> and \<open>check_cpu.cpp\<close>\<close>

definition root_paths :: "string list" where
  "root_paths =
    [''/system/bin/su'', ''/system/xbin/su'', ''/system/bin/.ext/su'', ''/system/bin/failsafe/su'',
     ''/system/sd/xbin/su'', ''/system/usr/we-need-root/su'', ''/system/xbin/busybox'', ''/system/bin/busybox'',
     ''/cache/su'', ''/data/su'', ''/dev/su'', ''/data/local/tmp/busybox'', ''/data/local/su'',
     ''/data/local/bin/su'', ''/data/local/xbin/su'', ''/sbin/su'', ''/su/bin/su'']"

fun count_accessible :: "os \<Rightarrow> string list \<Rightarrow> int \<Rightarrow> int" where
  "count_accessible s [] result = result"
| "count_accessible s (path # paths) result =
     count_accessible s paths (if os_F_OK s path \<and> os_X_OK s path then result + 1 else result)"

definition nativeCheckIsRoot :: "os \<Rightarrow> bool" where
  "nativeCheckIsRoot s \<longleftrightarrow> count_accessible s root_paths 0 > 0"

text \<open>\<open>ncpus\<close> is the static variable of \<open>GetCPUCount\<close>.\<close>

definition GetCPUCount :: "os \<Rightarrow> 32 word \<Rightarrow> 32 word \<times> 32 word" where
  "GetCPUCount s ncpus =
     (let ncpus1 = (if ncpus = 0
                    then let n = os_nprocessors_conf s in if n > 0 then word_of_int n else 1
                    else ncpus)
      in (ncpus1, ncpus1))"

definition getCpuCores :: "os \<Rightarrow> 32 word \<Rightarrow> 32 word \<times> int" where
  "getCpuCores s ncpus = (case GetCPUCount s ncpus of (ncpus1, n) \<Rightarrow> (ncpus1, sint n))"

datatype target = i386 | x86_64 | aarch64 | arm | other_target

fun nativeCheckCpuAbi :: "target \<Rightarrow> string" where
  "nativeCheckCpuAbi i386 = ''x86''"
| "nativeCheckCpuAbi x86_64 = ''x86_64''"
| "nativeCheckCpuAbi aarch64 = ''arm64-v8a''"
| "nativeCheckCpuAbi arm = ''armeabi-v7''"
| "nativeCheckCpuAbi other_target = ''un know''"

end
