(* ===== verification/Detector_Props.thy ===== *)
theory Detector_Props
  imports Detectors
begin

section \<open>What the detectors find\<close>

text \<open>
  Properties of the detectors on systems that answer as Linux does: reading files and command output,
  the two searches for hooking frameworks, the debugger test and the three tests for a second
  instance of the application.
\<close>

subsection \<open>Reading\<close>

lemma c_str_chunks:
  assumes "NUL \<notin> set s" and "2 \<le> n"
  shows "concat (map c_str (fgets_all n s)) = s"
proof -
  have "set (concat (fgets_all n s)) = set s" using concat_fgets_all [OF assms(2)] by simp
  then have "\<forall>l \<in> set (fgets_all n s). NUL \<notin> set l" using assms(1) by auto
  then have "map c_str (fgets_all n s) = fgets_all n s" by (simp add: map_idI c_str_id)
  with concat_fgets_all [OF assms(2), of s] show ?thesis by simp
qed

lemma fgets_all_one: "s \<noteq> [] \<Longrightarrow> NL \<notin> set s \<Longrightarrow> length s < n \<Longrightarrow> fgets_all n s = [s]"
proof -
  assume s: "s \<noteq> []" "NL \<notin> set s" "length s < n"
  then have "take_line (n - 1) s = s" by (intro take_line_short) auto
  moreover have "2 \<le> n" using s(1,3) by (cases s) auto
  ultimately show ?thesis using s(1) by (subst fgets_all.simps) (simp add: fgets_def)
qed

lemma cut_newline_simps [simp]:
  "cut_newline (r @ [NL]) = r" "cut_newline [] = []"
  by (simp_all add: cut_newline_def)

lemma cut_newline_none [simp]: "NL \<notin> set r \<Longrightarrow> cut_newline r = r"
proof (cases "r = []")
  case False
  then have "r ! (length r - 1) \<in> set r" by (intro nth_mem) simp
  moreover assume "NL \<notin> set r"
  ultimately have "r ! (length r - 1) \<noteq> NL" by metis
  then show ?thesis by (simp add: cut_newline_def)
qed simp

lemma readFile_NUL_free:
  assumes "path \<noteq> []" and "os_file s path = Some content" and "NUL \<notin> set content"
  shows "readFile s path = cut_newline content"
  using assms c_str_chunks [OF assms(3), of 512] by (simp add: readFile_def)

lemma readFile_one_chunk:
  assumes "path \<noteq> []" and "os_file s path = Some content" and "NL \<notin> set content" and "length content < 512"
  shows "readFile s path = c_str content"
proof (cases "content = []")
  case False
  have "NL \<notin> set (c_str content)" using assms(3) by (auto simp: c_str_def dest: set_takeWhileD)
  with fgets_all_one [OF False assms(3,4)] assms(1,2) show ?thesis by (simp add: readFile_def)
qed (use assms in \<open>simp add: readFile_def c_str_def\<close>)

lemma shellExecute_NUL_free:
  assumes "os_command s cmd = Some out" and "NUL \<notin> set out"
  shows "shellExecute s cmd = cut_newline out"
  using assms c_str_chunks [OF assms(2), of 128] by (simp add: shellExecute_def)

text \<open>\<open>readFile\<close> gives the text of a file whatever its length and its lines, without the last newline;
  of a file such as \<open>/proc/self/cmdline\<close>, whose arguments end in \<open>NUL\<close>, it gives the first argument; and
  nothing for a file that cannot be opened.\<close>

theorem readFile_correct:
  assumes "path \<noteq> []"
  shows "(os_file s path = None \<longrightarrow> readFile s path = []) \<and>
    (\<forall>content. os_file s path = Some content \<longrightarrow>
      (NUL \<notin> set content \<longrightarrow> readFile s path = cut_newline content) \<and>
      (NL \<notin> set content \<and> length content < 512 \<longrightarrow> readFile s path = c_str content))"
  using readFile_NUL_free [OF assms] readFile_one_chunk [OF assms] by (simp add: readFile_def)

text \<open>A system to try things on: no file, no command, nothing accessible.\<close>

definition bare_os :: os where
  "bare_os = \<lparr>os_file = (\<lambda>_. None), os_command = (\<lambda>_. None), os_F_OK = (\<lambda>_. False), os_R_OK = (\<lambda>_. False),
     os_X_OK = (\<lambda>_. False), os_dlopen = (\<lambda>_. None), os_getpid = 42, os_getppid = 7, os_getuid = 10123, os_ptrace = 0,
     os_nprocessors_conf = 8, os_property = (\<lambda>_. [])\<rparr>"

theorem readFile_correct_witness:
  "readFile (bare_os\<lparr>os_file := (\<lambda>_. Some (''com.mgg'' @ [NUL, CHR ''x'', NUL]))\<rparr>) ''/proc/42/cmdline'' = ''com.mgg''"
  using readFile_correct [of "''/proc/42/cmdline''" "bare_os\<lparr>os_file := (\<lambda>_. Some (''com.mgg'' @ [NUL, CHR ''x'', NUL]))\<rparr>"]
  by (simp add: c_str_def)

subsection \<open>Numbers of processes\<close>

lemma length_dec:
  assumes "0 \<le> i" and "i \<le> INT_MAX"
  shows "length (dec i) \<le> 10"
proof -
  have "nat i < 10 ^ Suc 9" using assms by (simp add: INT_MAX_def)
  from length_dec_nat [OF this] assms(1) show ?thesis by (simp add: dec_def)
qed

lemma pid_paths_fit:
  assumes "0 \<le> os_getpid s" and "os_getpid s \<le> INT_MAX"
  shows "sprintf_into 32 (''/proc/'' @ dec (os_getpid s) @ ''/maps'') = Inr (''/proc/'' @ dec (os_getpid s) @ ''/maps'')"
    and "sprintf_into 64 (''/proc/'' @ dec (os_getpid s) @ ''/cmdline'') = Inr (''/proc/'' @ dec (os_getpid s) @ ''/cmdline'')"
    and "sprintf_into 128 (''/proc/'' @ dec (os_getpid s) @ ''/status'') = Inr (''/proc/'' @ dec (os_getpid s) @ ''/status'')"
    and "getMyPid s = Inr (dec (os_getpid s))"
  using length_dec [OF assms] by (simp_all add: getMyPid_def)

subsection \<open>Hooking frameworks\<close>

lemma sublist_around_newline:
  assumes "NL \<notin> set m" and "m \<noteq> []"
  shows "sublist m (a @ NL # b) \<longleftrightarrow> sublist m a \<or> sublist m b"
proof
  assume "sublist m (a @ NL # b)"
  moreover have "\<not> (\<exists>x y. m = x @ y \<and> suffix x a \<and> prefix y (NL # b) \<and> y \<noteq> [])"
    using assms(1) by (auto simp: prefix_Cons)
  ultimately show "sublist m a \<or> sublist m b"
    using assms by (auto simp: sublist_append sublist_Cons_right prefix_Cons suffix_imp_sublist)
next
  assume "sublist m a \<or> sublist m b"
  then show "sublist m (a @ NL # b)" by (auto simp: sublist_append sublist_Cons_right)
qed

lemma sublist_last_newline: "NL \<notin> set m \<Longrightarrow> m \<noteq> [] \<Longrightarrow> sublist m (a @ [NL]) \<longleftrightarrow> sublist m a"
  using sublist_around_newline [of m a "[]"] by auto

lemma sublist_lines:
  assumes "NL \<notin> set m" and "m \<noteq> []" and "\<forall>l \<in> set ls. line_ok n l"
  shows "sublist m (concat ls) \<longleftrightarrow> (\<exists>l \<in> set ls. sublist m l)"
  using assms(3)
proof (induction ls)
  case (Cons l ls)
  then obtain l' where l: "l = l' @ [NL]" by (auto simp: line_ok_def)
  have "sublist m (concat (l # ls)) \<longleftrightarrow> sublist m l' \<or> sublist m (concat ls)"
    using sublist_around_newline [OF assms(1,2), of l' "concat ls"] by (simp add: l)
  moreover have "sublist m l \<longleftrightarrow> sublist m l'" unfolding l by (rule sublist_last_newline [OF assms(1,2)])
  ultimately show ?case using Cons by simp
qed (use assms(2) in simp)

lemma concat_lines_newline:
  assumes "ls \<noteq> []" and "\<forall>l \<in> set ls. line_ok n l"
  shows "\<exists>c. concat ls = c @ [NL]"
proof -
  have "concat ls = concat (butlast ls) @ last ls" using assms(1) by (metis append_butlast_last_id concat_append concat.simps(1,2) append_Nil2)
  moreover have "line_ok n (last ls)" using assms by simp
  ultimately show ?thesis by (auto simp: line_ok_def)
qed

lemma hook_marker_lines:
  assumes "ls \<noteq> []" and "\<forall>l \<in> set ls. line_ok n l"
  shows "hook_marker (cut_newline (concat ls)) \<longleftrightarrow> (\<exists>l \<in> set ls. hook_marker l)"
proof -
  obtain c where c: "concat ls = c @ [NL]" using concat_lines_newline [OF assms] by blast
  have "sublist m c \<longleftrightarrow> (\<exists>l \<in> set ls. sublist m l)" if "NL \<notin> set m" "m \<noteq> []" for m
    using sublist_lines [OF that assms(2)] sublist_last_newline [OF that, of c] unfolding c by simp
  from this [of "''frida''"] this [of "''com.saurik.substrate''"] this [of "''XposedBridge.jar''"] show ?thesis
    unfolding hook_marker_def strstr_sublist c by auto
qed

text \<open>The two searches of the memory map agree. \<open>frameCheck\<close> looks at the map line by line through a
  buffer of 512 bytes, \<open>checkHookByMap\<close> at the whole text; if no line is longer than the buffer,
  \<open>frameCheck\<close> answers 1 exactly if \<open>checkHookByMap\<close> names a framework. Both rely on the map of
  the process being there under its number and under \<open>self\<close>.\<close>

theorem hook_checks_agree:
  assumes "0 \<le> os_getpid s" and "os_getpid s \<le> INT_MAX"
    and "os_file s (''/proc/'' @ dec (os_getpid s) @ ''/maps'') = Some (concat ls)"
    and "os_file s ''/proc/self/maps'' = Some (concat ls)"
    and "ls \<noteq> []" and "concat ls \<noteq> [NL]" and "\<forall>l \<in> set ls. line_ok 512 l \<and> NUL \<notin> set l"
  shows "\<exists>f names. frameCheck s = Inr f \<and> checkHookByMap s = Inr names \<and> (f = 1 \<longleftrightarrow> names \<noteq> []) \<and>
    (f = 1 \<longleftrightarrow> (\<exists>l \<in> set ls. hook_marker l)) \<and> (f = 1 \<or> f = 0)"
proof -
  have lines: "\<forall>l \<in> set ls. line_ok 512 l" and nul: "NUL \<notin> set (concat ls)" using assms(7) by auto
  have "map c_str (fgets_all 512 (concat ls)) = ls"
    unfolding fgets_all_lines [OF lines] using assms(7) by (simp add: map_idI c_str_id)
  then have "(\<exists>buf \<in> set (fgets_all 512 (concat ls)). hook_marker (c_str buf)) \<longleftrightarrow> (\<exists>l \<in> set ls. hook_marker l)"
    by (metis (no_types, lifting) image_iff list.set_map)
  then have f: "frameCheck s = Inr (if \<exists>l \<in> set ls. hook_marker l then 1 else 0)"
    using pid_paths_fit(1) [OF assms(1,2)] assms(3) by (simp add: frameCheck_def)
  obtain c where c: "concat ls = c @ [NL]" using concat_lines_newline [OF assms(5) lines] by blast
  have "c \<noteq> []" using c assms(6) by auto
  moreover have "readFile s ''/proc/self/maps'' = c"
    using readFile_NUL_free [OF _ assms(4) nul] c by simp
  moreover have "c_str c = c" using nul c by (intro c_str_id) auto
  moreover have "hook_marker c \<longleftrightarrow> (\<exists>l \<in> set ls. hook_marker l)" using hook_marker_lines [OF assms(5) lines] c by simp
  ultimately show ?thesis using f by (auto simp: checkHookByMap_def Let_def hook_marker_def)
qed

definition hooked_os :: os where
  "hooked_os = bare_os\<lparr>os_file := (\<lambda>_. Some (''7f00 libc.so'' @ [NL] @ ''7f10 frida-agent.so'' @ [NL]))\<rparr>"

theorem hook_checks_agree_witness: "frameCheck hooked_os = Inr 1"
proof -
  let ?ls = "[''7f00 libc.so'' @ [NL], ''7f10 frida-agent.so'' @ [NL]]"
  have "\<forall>l \<in> set ?ls. line_ok 512 l \<and> NUL \<notin> set l" by (simp add: line_ok_def)
  moreover have "hook_marker (''7f10 frida-agent.so'' @ [NL])" by (simp add: hook_marker_def)
  ultimately show ?thesis
    using hook_checks_agree [of hooked_os ?ls] by (auto simp: hooked_os_def bare_os_def INT_MAX_def)
qed

subsection \<open>The debugger test\<close>

definition tracer_line :: "nat \<Rightarrow> string" where
  "tracer_line n = ''TracerPid:'' @ [CHR 0x09] @ dec_nat n @ [NL]"

lemma store_line_NUL_free: "NUL \<notin> set line \<Longrightarrow> c_str (store_line line buffer) = line"
  by (simp add: store_line_def)

lemma tracer_line_atoi:
  assumes "int n \<le> INT_MAX"
  shows "atoi (drop 10 (store_line (tracer_line n) buffer)) = Inr (int n)"
proof -
  have "drop 10 (store_line (tracer_line n) buffer) =
      [CHR 0x09] @ dec_nat n @ (NL # NUL # drop (length (tracer_line n) + 1) buffer)"
    by (simp add: store_line_def tracer_line_def)
  then show ?thesis
    using atoi_dec_nat [OF assms, of "[CHR 0x09]"] not_digit(2) by (simp add: isspace_def)
qed

lemma tracer_line_NUL: "NUL \<notin> set (tracer_line n)"
  using isdigit_dec_nat [of NUL n] not_digit(1) by (auto simp: tracer_line_def)

lemma tracer_line_inj: "tracer_line n = tracer_line m \<Longrightarrow> n = m"
proof -
  assume "tracer_line n = tracer_line m"
  then have "dec_nat n = dec_nat m" by (simp add: tracer_line_def)
  then have "int n = int m" by (simp only: digits_value_dec_nat [symmetric])
  then show "n = m" by simp
qed

lemma tracer_line_ok: "n < 10 ^ Suc 9 \<Longrightarrow> line_ok 1024 (tracer_line n)"
  using isdigit_dec_nat [of NL n] not_digit(2) length_dec_nat [of n 9]
  by (auto simp: line_ok_def tracer_line_def intro!: exI [of _ "''TracerPid:'' @ [CHR 0x09] @ dec_nat n"])

definition status_ok :: "string list \<Rightarrow> bool" where
  "status_ok ls \<longleftrightarrow> (\<forall>l \<in> set ls. line_ok 1024 l \<and> NUL \<notin> set l \<and>
     (take 9 l = ''TracerPid'' \<longrightarrow> (\<exists>n. int n \<le> INT_MAX \<and> l = tracer_line n)))"

definition traced :: "string list \<Rightarrow> bool" where
  "traced ls \<longleftrightarrow> (\<exists>n > 0. tracer_line n \<in> set ls)"

lemma traced_simps:
  "\<not> traced []" "traced (tracer_line n # ls) \<longleftrightarrow> n > 0 \<or> traced ls"
  "take 9 l \<noteq> ''TracerPid'' \<Longrightarrow> traced (l # ls) \<longleftrightarrow> traced ls"
proof -
  show "traced (tracer_line n # ls) \<longleftrightarrow> n > 0 \<or> traced ls" using tracer_line_inj by (auto simp: traced_def)
  assume "take 9 l \<noteq> ''TracerPid''"
  then have "tracer_line n \<noteq> l" for n by (auto simp: tracer_line_def)
  then show "traced (l # ls) \<longleftrightarrow> traced ls" by (auto simp: traced_def)
qed (simp add: traced_def)

lemma tracer_loop_result:
  assumes "status_ok ls"
  shows "tracer_loop ls buffer = Inr (if traced ls then - 1 else 0)"
  using assms
proof (induction ls arbitrary: buffer)
  case (Cons l ls)
  then have ok: "status_ok ls" and nul: "NUL \<notin> set l" by (simp_all add: status_ok_def)
  have cmp: "strncmp_eq (store_line l buffer) ''TracerPid'' 9 \<longleftrightarrow> take 9 l = ''TracerPid''"
    using nul by (simp add: strncmp_eq_def store_line_NUL_free c_str_id)
  show ?case
  proof (cases "take 9 l = ''TracerPid''")
    case True
    with Cons.prems obtain n where n: "int n \<le> INT_MAX" "l = tracer_line n" by (auto simp: status_ok_def)
    with tracer_line_atoi [OF n(1), of buffer] cmp True Cons.IH [OF ok] show ?thesis
      by (simp add: Let_def traced_simps(2))
  next
    case False
    with cmp Cons.IH [OF ok] show ?thesis by (simp add: Let_def traced_simps(3))
  qed
qed (simp add: traced_simps(1))

text \<open>The debugger test reads \<open>TracerPid\<close> right: on the status file of a process it answers 255 (\<open>-1\<close>
  as a \<open>jboolean\<close>) if a tracer other than 0 is recorded and 0 otherwise; and 254 if there is no status
  file, so that a caller who takes every value but 0 for true takes a failure for a debugger.\<close>

theorem nativeReadTracerPid_correct:
  assumes "0 \<le> os_getpid s" and "os_getpid s \<le> INT_MAX" and "0 \<le> os_getppid s" and "os_getppid s \<le> INT_MAX"
  shows "(os_file s (''/proc/'' @ dec (os_getpid s) @ ''/status'') = None \<longrightarrow> nativeReadTracerPid s = Inr 254) \<and>
    (\<forall>ls. os_file s (''/proc/'' @ dec (os_getpid s) @ ''/status'') = Some (concat ls) \<and> status_ok ls \<longrightarrow>
      nativeReadTracerPid s = Inr (if traced ls then 255 else 0))"
proof -
  have parents: "\<exists>b. CheckParents s = Inr b"
    using length_dec [OF assms(3,4)] by (simp add: CheckParents_def getParentPid_def)
  note path = pid_paths_fit(3) [OF assms(1,2)]
  have "nativeReadTracerPid s = Inr (if traced ls then 255 else 0)"
    if "os_file s (''/proc/'' @ dec (os_getpid s) @ ''/status'') = Some (concat ls)" "status_ok ls" for ls
  proof -
    have "fgets_all 1024 (concat ls) = ls" using that(2) by (intro fgets_all_lines) (simp add: status_ok_def)
    with parents path that tracer_loop_result [OF that(2)] show ?thesis by (auto simp: nativeReadTracerPid_def Let_def)
  qed
  with parents path show ?thesis by (auto simp: nativeReadTracerPid_def Let_def)
qed

theorem nativeReadTracerPid_correct_witness:
  "nativeReadTracerPid bare_os = Inr 254 \<and>
   nativeReadTracerPid (bare_os\<lparr>os_file := (\<lambda>_. Some (tracer_line 5))\<rparr>) = Inr 255"
proof -
  have "status_ok [tracer_line 5]"
    using tracer_line_NUL [of 5] tracer_line_ok [of 5] by (auto simp: status_ok_def INT_MAX_def intro: exI [of _ 5])
  moreover have "traced [tracer_line 5]" by (simp add: traced_simps(2))
  ultimately show ?thesis
    using nativeReadTracerPid_correct [of bare_os]
      nativeReadTracerPid_correct [of "bare_os\<lparr>os_file := (\<lambda>_. Some (tracer_line 5))\<rparr>"]
    by (auto simp: bare_os_def INT_MAX_def dest!: spec [of _ "[tracer_line 5]"])
qed

subsection \<open>Second instances of the application\<close>

lemma take_line_take: "NL \<notin> set s \<Longrightarrow> take_line k s = take k s"
  by (induction k s rule: take_line.induct) auto

lemma c_str_take: "NUL \<notin> set s \<Longrightarrow> length s \<le> k \<Longrightarrow> c_str (take k (s @ NUL # t)) = s"
  by (cases "k - length s") (simp_all add: c_str_id)

lemma cut_newline_Nil: "cut_newline r = [] \<longleftrightarrow> r = [] \<or> r = [NL]"
  by (cases r rule: rev_cases) (auto simp: cut_newline_def)

lemma fgets_nonempty:
  assumes "r \<noteq> []" and "NUL \<notin> set r"
  shows "\<exists>line rest. fgets 32 r = Some (line, rest) \<and> c_str line \<noteq> []"
proof -
  let ?line = "take_line 31 r"
  have "NUL \<notin> set ?line" using assms(2) take_line_append [of 31 r] by (metis Un_iff set_append)
  moreover have "?line \<noteq> []" using assms(1) by (intro take_line_not_Nil) simp_all
  ultimately show ?thesis using assms(1) by (simp add: fgets_def Let_def c_str_id)
qed

text \<open>A process that has been given its package name as the first argument, on a system with \<open>ls\<close>.\<close>

definition package_process :: "os \<Rightarrow> string \<Rightarrow> string \<Rightarrow> bool" where
  "package_process s name rest \<longleftrightarrow>
     0 \<le> os_getpid s \<and> os_getpid s \<le> INT_MAX \<and> os_F_OK s ''/system/bin/ls'' \<and>
     os_file s (''/proc/'' @ dec (os_getpid s) @ ''/cmdline'') = Some (name @ NUL # rest) \<and>
     name \<noteq> [] \<and> NUL \<notin> set name \<and> NL \<notin> set name \<and> length name < 64 \<and>
     NL \<notin> set rest \<and> length name + length rest < 511"

lemma package_processD:
  assumes "package_process s name rest"
  shows "0 \<le> os_getpid s" "os_getpid s \<le> INT_MAX" "os_F_OK s ''/system/bin/ls''"
    "os_file s (''/proc/'' @ dec (os_getpid s) @ ''/cmdline'') = Some (name @ NUL # rest)"
    "name \<noteq> []" "NUL \<notin> set name" "NL \<notin> set name" "length name < 64"
    "NL \<notin> set rest" "length name + length rest < 511"
  using assms by (simp_all add: package_process_def)

lemma package_name_read:
  assumes "package_process s name rest"
  shows "getPackageName s (dec (os_getpid s)) = name"
proof -
  note d = package_processD [OF assms]
  have "readFile s (''/proc/'' @ dec (os_getpid s) @ ''/cmdline'') = c_str (name @ NUL # rest)"
    using d(7,9,10) by (intro readFile_one_chunk [OF _ d(4)]) simp_all
  moreover have "dec (os_getpid s) \<noteq> []" using d(1) by (simp add: dec_def)
  ultimately show ?thesis using d(5,6) by (simp add: getPackageName_def)
qed

lemma package_name_stored:
  assumes "package_process s name rest"
  shows "getPackageName_into s ''$unknown'' = Inr (Some name)"
proof -
  note d = package_processD [OF assms]
  have "take_line 63 (name @ NUL # rest) = take 63 (name @ NUL # rest)"
    using d(7,9) by (intro take_line_take) simp
  moreover have "c_str (take 63 (name @ NUL # rest)) = name" using d(6,8) by (intro c_str_take) simp_all
  ultimately show ?thesis
    using pid_paths_fit(2) [OF d(1,2)] d(4) by (simp add: getPackageName_into_def fgets_def Let_def)
qed

lemma checks_unfold:
  assumes "package_process s name rest"
  shows "checkMoreOpenByUid s = Inr (if shellExecute s (''ls /data/data/'' @ name) = [] then 1 else 0)"
  "moreOpenCheck s =
    (case os_command s (''ls /data/data/'' @ name) of None \<Rightarrow> Inr 2
     | Some r \<Rightarrow> (case fgets 32 r of None \<Rightarrow> Inr 1 | Some (buff, _) \<Rightarrow> if length (c_str buff) = 0 then Inr 1 else Inr 0))"
  "moreOpenCheckExt (Some name) s =
    (case os_command s (''ls /data/data/'' @ name) of None \<Rightarrow> Inr (- 1)
     | Some r \<Rightarrow> (case fgets 32 r of None \<Rightarrow> Inr 1 | Some (buff, _) \<Rightarrow> if length (c_str buff) \<noteq> 0 then Inr 0 else Inr 1))"
proof -
  note d = package_processD [OF assms]
  show "checkMoreOpenByUid s = Inr (if shellExecute s (''ls /data/data/'' @ name) = [] then 1 else 0)"
    using d(3,6,8) pid_paths_fit(4) [OF d(1,2)] package_name_read [OF assms] by (simp add: checkMoreOpenByUid_def existsFile_def c_str_id Let_def)
  show "moreOpenCheck s =
    (case os_command s (''ls /data/data/'' @ name) of None \<Rightarrow> Inr 2
     | Some r \<Rightarrow> (case fgets 32 r of None \<Rightarrow> Inr 1 | Some (buff, _) \<Rightarrow> if length (c_str buff) = 0 then Inr 1 else Inr 0))"
    using d(3,8) package_name_stored [OF assms] by (simp add: moreOpenCheck_def)
  show "moreOpenCheckExt (Some name) s =
    (case os_command s (''ls /data/data/'' @ name) of None \<Rightarrow> Inr (- 1)
     | Some r \<Rightarrow> (case fgets 32 r of None \<Rightarrow> Inr 1 | Some (buff, _) \<Rightarrow> if length (c_str buff) \<noteq> 0 then Inr 0 else Inr 1))"
    using d(3,8) by (simp add: moreOpenCheckExt_def)
qed

lemma checks_on_output:
  assumes p: "package_process s name rest" and "os_command s (''ls /data/data/'' @ name) = Some r" and "NUL \<notin> set r" and "r \<noteq> [NL]"
  shows "checkMoreOpenByUid s = Inr (if r = [] then 1 else 0)" and "moreOpenCheck s = Inr (if r = [] then 1 else 0)"
    and "moreOpenCheckExt (Some name) s = Inr (if r = [] then 1 else 0)"
proof -
  show "checkMoreOpenByUid s = Inr (if r = [] then 1 else 0)"
    using shellExecute_NUL_free [OF assms(2,3)] assms(4) by (simp add: checks_unfold(1) [OF p] cut_newline_Nil)
  have "fgets 32 [] = None" by (simp add: fgets_def)
  with fgets_nonempty [OF _ assms(3)] show "moreOpenCheck s = Inr (if r = [] then 1 else 0)"
    "moreOpenCheckExt (Some name) s = Inr (if r = [] then 1 else 0)"
    unfolding checks_unfold(2,3) [OF p] assms(2) by fastforce+
qed

lemma checks_without_shell:
  assumes p: "package_process s name rest" and "os_command s (''ls /data/data/'' @ name) = None"
  shows "checkMoreOpenByUid s = Inr 1" and "moreOpenCheck s = Inr 2" and "moreOpenCheckExt (Some name) s = Inr (- 1)"
  using assms(2) by (simp_all add: checks_unfold [OF p] shellExecute_def)

text \<open>The three tests for a second instance agree when the listing of the data directory can be made: for
  a package name of fewer than 64 characters all answer 1 exactly if the listing is empty. If the
  shell cannot be started they disagree: two report failure, each with its own code, and
  \<open>checkMoreOpenByUid\<close> reports a second instance.\<close>

theorem multi_open_checks_agree:
  assumes "package_process s name rest"
  shows "(\<forall>r. os_command s (''ls /data/data/'' @ name) = Some r \<and> NUL \<notin> set r \<and> r \<noteq> [NL] \<longrightarrow>
      moreOpenCheck s = Inr (if r = [] then 1 else 0) \<and> checkMoreOpenByUid s = moreOpenCheck s \<and>
      moreOpenCheckExt (Some name) s = moreOpenCheck s) \<and>
    (os_command s (''ls /data/data/'' @ name) = None \<longrightarrow>
      moreOpenCheck s = Inr 2 \<and> checkMoreOpenByUid s = Inr 1 \<and> moreOpenCheckExt (Some name) s = Inr (- 1))"
  using checks_on_output [OF assms] checks_without_shell [OF assms] by metis

definition package_os :: os where
  "package_os = bare_os\<lparr>os_F_OK := (\<lambda>_. True), os_file := (\<lambda>_. Some (''com.mgg'' @ [NUL]))\<rparr>"

theorem multi_open_checks_agree_witness: "moreOpenCheck package_os = Inr 2 \<and> checkMoreOpenByUid package_os = Inr 1"
proof -
  have "package_process package_os ''com.mgg'' []" by (simp add: package_process_def package_os_def bare_os_def INT_MAX_def)
  from multi_open_checks_agree [OF this] show ?thesis by (simp add: package_os_def bare_os_def)
qed

subsection \<open>Roots and processors\<close>

lemma count_accessible_length:
  "count_accessible s paths n = n + int (length (filter (\<lambda>p. os_F_OK s p \<and> os_X_OK s p) paths))"
  by (induction paths arbitrary: n) auto

lemma nativeCheckIsRoot_iff: "nativeCheckIsRoot s \<longleftrightarrow> (\<exists>p \<in> set root_paths. os_F_OK s p \<and> os_X_OK s p)"
  by (auto simp: nativeCheckIsRoot_def count_accessible_length filter_empty_conv)

text \<open>The processor count is at least 1 and the same at every call.\<close>

lemma GetCPUCount_stable:
  assumes "os_nprocessors_conf s < 2 ^ 32"
  shows "GetCPUCount s ncpus = (c, n) \<Longrightarrow> 0 < n \<and> GetCPUCount s' c = (c, n)"
proof -
  have "(word_of_int (os_nprocessors_conf s) :: 32 word) \<noteq> 0" if "0 < os_nprocessors_conf s"
    using that assms by (simp add: word_of_int_eq_0_iff zdvd_not_zless)
  then show "GetCPUCount s ncpus = (c, n) \<Longrightarrow> 0 < n \<and> GetCPUCount s' c = (c, n)"
    by (auto simp: GetCPUCount_def Let_def word_neq_0_conv split: if_splits)
qed

end
