(* ===== verification/Signatures.thy ===== *)
theory Signatures
  imports C_Text
begin

section \<open>Signatures of the application\<close>

text \<open>
  \<open>CheckEnv/src/main/cpp/check_sign.cpp\<close>: the fingerprint of the signing certificate, printed as pairs of
  capital hexadecimal digits with colons between them, and its comparison with the expected one. The
  bytes of the certificate, which the code fetches through a chain of JNI calls, and the hash functions
  (\<open>md5.h\<close>, \<open>sha1.h\<close>, \<open>sha256.h\<close>, a library that is not part of the repository) are parameters.
\<close>

subsection \<open>The model\<close>

datatype HASH = HASH_MD5 | HASH_SHA1 | HASH_SHA256

record hash_library =
  md5 :: "byte list \<Rightarrow> string"
  sha1 :: "byte list \<Rightarrow> string"
  sha256 :: "byte list \<Rightarrow> string"

definition toupper :: "char \<Rightarrow> char" where
  "toupper c = (if 97 \<le> (of_char c :: nat) \<and> (of_char c :: nat) \<le> 122 then char_of (of_char c - 32 :: nat) else c)"

text \<open>\<open>buf[k] = c\<close>.\<close>

definition put_char :: "nat \<Rightarrow> char \<Rightarrow> string \<Rightarrow> string outcome" where
  "put_char k c buf = obind (defined (k < length buf)) (\<lambda>_. Inr (buf[k := c]))"

function format_loop :: "string \<Rightarrow> nat \<Rightarrow> nat \<Rightarrow> string \<Rightarrow> string outcome" where
  "format_loop data i resultIndex resultData =
     (if i < length data
      then
        obind (put_char resultIndex (toupper (data ! i)) resultData) (\<lambda>resultData.
        if i mod 2 = 1 \<and> i \<noteq> length data - 1
        then obind (put_char (resultIndex + 1) (CHR '':'') resultData) (\<lambda>resultData.
             format_loop data (i + 1) (resultIndex + 2) resultData)
        else format_loop data (i + 1) (resultIndex + 1) resultData)
      else Inr resultData)"
  by pat_completeness auto

termination by (relation "measure (\<lambda>(data, i, r, buf). length data - i)") auto

declare format_loop.simps [simp del]

definition formatSignature :: "string \<Rightarrow> string \<Rightarrow> string outcome" where
  "formatSignature data resultData = format_loop (c_str data) 0 0 resultData"

definition hashByteArray :: "hash_library \<Rightarrow> HASH \<Rightarrow> byte list \<Rightarrow> string \<Rightarrow> string outcome" where
  "hashByteArray h type data resultData =
     (case type of
        HASH_MD5 \<Rightarrow> formatSignature (md5 h data) resultData
      | HASH_SHA1 \<Rightarrow> formatSignature (sha1 h data) resultData
      | HASH_SHA256 \<Rightarrow> formatSignature (sha256 h data) resultData)"

definition getSignature :: "hash_library \<Rightarrow> byte list \<Rightarrow> string outcome" where
  "getSignature h cert =
     obind (hashByteArray h HASH_MD5 cert (replicate 128 NUL)) (\<lambda>certMD5.
     obind (hashByteArray h HASH_SHA1 cert (replicate 128 NUL)) (\<lambda>certSHA1.
     obind (hashByteArray h HASH_SHA256 cert (replicate 128 NUL)) (\<lambda>certSHA256.
     sprintf_into 1000
       (''MD5: '' @ c_str certMD5 @ [NL, NL] @ ''SHA1: '' @ c_str certSHA1 @ [NL, NL] @ ''SHA256: '' @ c_str certSHA256))))"

text \<open>The Chinese texts of \<open>checkSignature\<close> in UTF-8: the expected signature, the actual signature, the
  result; normal, abnormal.\<close>

definition expected_label :: string where "expected_label = map char_of ([0xE7, 0x9C, 0x9F, 0xE5, 0xAE, 0x9E, 0xE7, 0xAD, 0xBE, 0xE5, 0x90, 0x8D, 0xEF, 0xBC, 0x9A] :: nat list)"
definition actual_label :: string where "actual_label = [NL, NL] @ map char_of ([0xE8, 0x8E, 0xB7, 0xE5, 0x8F, 0x96, 0xE5, 0x88, 0xB0, 0xE7, 0x9A, 0x84, 0xE7, 0xAD, 0xBE, 0xE5, 0x90, 0x8D, 0xEF, 0xBC, 0x9A] :: nat list)"
definition result_label :: string where "result_label = [NL, NL] @ map char_of ([0xE6, 0xA3, 0x80, 0xE6, 0x9F, 0xA5, 0xE7, 0xBB, 0x93, 0xE6, 0x9E, 0x9C, 0xEF, 0xBC, 0x9A] :: nat list)"
definition normal_text :: string where "normal_text = map char_of ([0xE6, 0xAD, 0xA3, 0xE5, 0xB8, 0xB8, 0xEF, 0xBC, 0x88, 0xE2, 0x88, 0x9A, 0xEF, 0xBC, 0x89] :: nat list)"
definition abnormal_text :: string where "abnormal_text = map char_of ([0xE5, 0xBC, 0x82, 0xE5, 0xB8, 0xB8, 0xEF, 0xBC, 0x88, 0xC3, 0x97, 0xEF, 0xBC, 0x89] :: nat list)"

definition checkSignature :: "hash_library \<Rightarrow> byte list \<Rightarrow> string \<Rightarrow> string outcome" where
  "checkSignature h cert signature_md5 =
     obind (hashByteArray h HASH_MD5 cert (replicate 128 NUL)) (\<lambda>certMD5.
     let equal = (c_str certMD5 = c_str signature_md5)
     in sprintf_into 1000
          (expected_label @ c_str signature_md5 @ actual_label @ c_str certMD5 @ result_label @
           (if equal then normal_text else abnormal_text)))"

subsection \<open>The format\<close>

fun colon_pairs :: "string \<Rightarrow> string" where
  "colon_pairs [] = []"
| "colon_pairs [a] = [toupper a]"
| "colon_pairs [a, b] = [toupper a, toupper b]"
| "colon_pairs (a # b # c # s) = toupper a # toupper b # CHR '':'' # colon_pairs (c # s)"

lemma put_char_inside: "put_char (length p) c (p @ d # q) = Inr (p @ c # q)"
  by (simp add: put_char_def)

lemma format_even:
  assumes "even (length pre)"
  shows "format_loop (pre @ a # s) (length pre) (length p) (p @ d # q) =
    format_loop (pre @ a # s) (length pre + 1) (length p + 1) (p @ toupper a # q)"
  using assms by (subst format_loop.simps) (simp add: put_char_inside even_iff_mod_2_eq_zero)

lemma format_odd:
  assumes "even (length pre)"
  shows "format_loop (pre @ a # b # c # s) (length pre + 1) (length p) (p @ d # e # q) =
    format_loop (pre @ a # b # c # s) (length pre + 2) (length p + 2) (p @ toupper b # CHR '':'' # q)"
proof -
  have "(length pre + 1) mod 2 = 1" using assms by presburger
  moreover have "put_char (length p + 1) (CHR '':'') (p @ toupper b # e # q) = Inr (p @ toupper b # CHR '':'' # q)"
    using put_char_inside [of "p @ [toupper b]"] by simp
  ultimately show ?thesis by (subst format_loop.simps) (simp add: put_char_inside nth_append)
qed

lemma format_loop_pairs:
  assumes "even (length pre)" and "length q = length (colon_pairs s)"
  shows "format_loop (pre @ s) (length pre) (length p) (p @ q @ t) = Inr (p @ colon_pairs s @ t)"
  using assms
proof (induction s arbitrary: pre p q rule: colon_pairs.induct)
  case (4 a b c s)
  then obtain d e f q' where q: "q = d # e # f # q'" "length q' = length (colon_pairs (c # s))"
    by (auto simp: length_Suc_conv)
  have "format_loop (pre @ a # b # c # s) (length pre) (length p) (p @ q @ t) =
      format_loop (pre @ a # b # c # s) (length pre + 2) (length p + 2 + 1) (p @ toupper a # toupper b # CHR '':'' # q' @ t)"
    using format_even [OF 4(2), of a "b # c # s" p d "e # f # q' @ t"]
      format_odd [OF 4(2), of a b c s "p @ [toupper a]" e f "q' @ t"] q(1) by (simp add: numeral_eq_Suc)
  also have "\<dots> = Inr (p @ toupper a # toupper b # CHR '':'' # colon_pairs (c # s) @ t)"
    using 4(1) [of "pre @ [a, b]" q' "p @ [toupper a, toupper b, CHR '':'']"] 4(2) q(2)
    by simp
  finally show ?case by simp
next
  case 1
  then show ?case by (subst format_loop.simps) simp
next
  case (2 a)
  then obtain d where "q = [d]" by (auto simp: length_Suc_conv)
  with format_even [OF 2(1), of a "[]" p d t] show ?case by (simp add: format_loop.simps [of _ "Suc (length pre)"])
next
  case (3 a b)
  then obtain d e where q: "q = [d, e]" by (auto simp: length_Suc_conv)
  have "format_loop (pre @ [a, b]) (length pre + 1) (length p + 1) (p @ toupper a # e # t) =
      Inr (p @ toupper a # toupper b # t)"
    using put_char_inside [of "p @ [toupper a]" "toupper b" e t]
    by (simp add: format_loop.simps [of _ "Suc (length pre)"] format_loop.simps [of _ "Suc (Suc (length pre))"] nth_append)
  with format_even [OF 3(1), of a "[b]" p d "e # t"] q show ?case by simp
qed

lemma length_colon_pairs: "length (colon_pairs s) = length s + (length s - 1) div 2"
  by (induction s rule: colon_pairs.induct) auto

definition hex_digits :: string where "hex_digits = ''0123456789abcdef''"

lemma hex_digit_facts:
  "c \<in> set hex_digits \<Longrightarrow> toupper c \<noteq> CHR '':'' \<and> toupper c \<noteq> NUL \<and> c \<noteq> NUL"
  "c \<in> set hex_digits \<Longrightarrow> d \<in> set hex_digits \<Longrightarrow> toupper c = toupper d \<Longrightarrow> c = d"
proof -
  have "\<forall>c \<in> set hex_digits. toupper c \<noteq> CHR '':'' \<and> toupper c \<noteq> NUL \<and> c \<noteq> NUL" by code_simp
  moreover have "\<forall>c \<in> set hex_digits. \<forall>d \<in> set hex_digits. toupper c = toupper d \<longrightarrow> c = d" by code_simp
  ultimately show "c \<in> set hex_digits \<Longrightarrow> toupper c \<noteq> CHR '':'' \<and> toupper c \<noteq> NUL \<and> c \<noteq> NUL"
    "c \<in> set hex_digits \<Longrightarrow> d \<in> set hex_digits \<Longrightarrow> toupper c = toupper d \<Longrightarrow> c = d" by blast+
qed

lemma colon_pairs_filter: "set s \<subseteq> set hex_digits \<Longrightarrow> filter (\<lambda>c. c \<noteq> CHR '':'') (colon_pairs s) = map toupper s"
  by (induction s rule: colon_pairs.induct) (auto simp: hex_digit_facts(1))

lemma colon_pairs_NUL: "set s \<subseteq> set hex_digits \<Longrightarrow> NUL \<notin> set (colon_pairs s)"
  by (induction s rule: colon_pairs.induct) (auto simp: hex_digit_facts(1) dest: hex_digit_facts(1))

lemma colon_pairs_inj:
  assumes "set s \<subseteq> set hex_digits" and "set t \<subseteq> set hex_digits" and "colon_pairs s = colon_pairs t"
  shows "s = t"
proof -
  have "map toupper s = map toupper t" using colon_pairs_filter [OF assms(1)] colon_pairs_filter [OF assms(2)] assms(3) by simp
  moreover have "inj_on toupper (set s \<union> set t)"
    using assms(1,2) hex_digit_facts(2) by (intro inj_onI) (meson UnE subsetD)
  ultimately show ?thesis by (simp add: inj_on_map_eq_map)
qed

lemma formatSignature_hex:
  assumes "set s \<subseteq> set hex_digits" and "length s \<le> 64"
  shows "\<exists>r. formatSignature s (replicate 128 NUL) = Inr r \<and> c_str r = colon_pairs s"
proof -
  let ?n = "length (colon_pairs s)"
  have n: "?n < 128" using assms(2) unfolding length_colon_pairs by linarith
  have s: "c_str s = s" using assms(1) hex_digit_facts(1) by (intro c_str_id) blast
  have "replicate 128 NUL = [] @ replicate ?n NUL @ replicate (128 - ?n) NUL"
    using n by (simp add: replicate_add [symmetric])
  then have "formatSignature s (replicate 128 NUL) = Inr (colon_pairs s @ replicate (128 - ?n) NUL)"
    using format_loop_pairs [of "[]" "replicate ?n NUL" s "[]"] s by (simp add: formatSignature_def)
  moreover have "replicate (128 - ?n) NUL = NUL # replicate (127 - ?n) NUL" using n by (simp add: Suc_diff_le flip: replicate_Suc)
  then have "c_str (colon_pairs s @ replicate (128 - ?n) NUL) = colon_pairs s" using colon_pairs_NUL [OF assms(1)] by simp
  ultimately show ?thesis by blast
qed

text \<open>What the code relies on of the hash library: the MD5 is printed as 32 lower-case hexadecimal digits.\<close>

definition md5_text :: "hash_library \<Rightarrow> bool" where
  "md5_text h \<longleftrightarrow> (\<forall>b. length (md5 h b) = 32 \<and> set (md5 h b) \<subseteq> set hex_digits)"

lemma checkSignature_text:
  assumes "md5_text h" and "NUL \<notin> set expected" and "length expected \<le> 800"
  shows "checkSignature h cert expected =
      Inr (expected_label @ expected @ actual_label @ colon_pairs (md5 h cert) @ result_label @
        (if expected = colon_pairs (md5 h cert) then normal_text else abnormal_text))"
proof -
  have md5: "length (md5 h b) = 32" "set (md5 h b) \<subseteq> set hex_digits" for b using assms(1) by (simp_all add: md5_text_def)
  obtain r where r: "formatSignature (md5 h cert) (replicate 128 NUL) = Inr r" "c_str r = colon_pairs (md5 h cert)"
    using formatSignature_hex [OF md5(2)] md5(1) by force
  have "length (colon_pairs (md5 h cert)) = 47" using md5(1) by (simp add: length_colon_pairs)
  moreover have "length expected_label = 15" "length actual_label = 23" "length result_label = 17"
    "length normal_text = 15" "length abnormal_text = 14"
    by (simp_all add: expected_label_def actual_label_def result_label_def normal_text_def abnormal_text_def)
  ultimately show ?thesis
    using r assms(2,3) by (auto simp: checkSignature_def hashByteArray_def Let_def c_str_id)
qed

text \<open>\<open>checkSignature\<close> reports the expected fingerprint, the fingerprint of the certificate as capital
  pairs with colons, and that all is normal exactly if the two are the same; no buffer overflows
  as long as the expected text has at most 800 bytes. Two certificates with the same printed
  fingerprint have the same MD5.\<close>

theorem checkSignature_correct:
  assumes "md5_text h" and "NUL \<notin> set expected" and "length expected \<le> 800"
  shows "checkSignature h cert expected =
      Inr (expected_label @ expected @ actual_label @ colon_pairs (md5 h cert) @ result_label @
        (if expected = colon_pairs (md5 h cert) then normal_text else abnormal_text)) \<and>
    (colon_pairs (md5 h cert) = colon_pairs (md5 h cert') \<longrightarrow> md5 h cert = md5 h cert')"
proof -
  have "set (md5 h b) \<subseteq> set hex_digits" for b using assms(1) by (simp add: md5_text_def)
  with checkSignature_text [OF assms] colon_pairs_inj show ?thesis by blast
qed

definition constant_hash :: hash_library where
  "constant_hash = \<lparr>md5 = (\<lambda>_. replicate 32 (CHR ''a'')), sha1 = (\<lambda>_. []), sha256 = (\<lambda>_. [])\<rparr>"

theorem checkSignature_correct_witness:
  "\<exists>p. checkSignature constant_hash [1] ''AA'' = Inr (p @ abnormal_text)"
proof -
  have "length (colon_pairs (md5 constant_hash [1])) = 47" by (simp add: length_colon_pairs constant_hash_def)
  moreover have "length ''AA'' \<noteq> 47" by simp
  ultimately have "''AA'' \<noteq> colon_pairs (md5 constant_hash [1])" by metis
  moreover have "NUL \<notin> set ''AA''" "length ''AA'' \<le> 800" by simp_all
  moreover have "md5_text constant_hash" by (simp add: md5_text_def constant_hash_def hex_digits_def)
  ultimately have "checkSignature constant_hash [1] ''AA'' = Inr (expected_label @ ''AA'' @ actual_label @
      colon_pairs (md5 constant_hash [1]) @ result_label @ abnormal_text)"
    using checkSignature_correct [of constant_hash "''AA''" "[1]" "[1]"] by simp
  then show ?thesis by (metis append_assoc)
qed

end
