(* ===== verification/Logging.thy ===== *)
theory Logging
  imports C_Text
begin

section \<open>Logging\<close>

text \<open>
  \<open>app/src/main/cpp/log/logging.{h,cc}\<close>, \<open>log_settings.{h,cc}\<close>, \<open>log_settings_state.cc\<close> and \<open>log_level.h\<close>: which
  messages are made, what they say, and that a fatal one ends the process. This is what the checks of
  the other components come down to: \<open>FOREVER_CHECK\<close> of a false condition aborts (\<open>FOREVER_CHECK_aborts\<close>),
  which their models have as the fault \<open>Check_Failed\<close>. The process-wide settings are an argument.
\<close>

subsection \<open>Severities and settings\<close>

type_synonym LogSeverity = int

definition LOG_INFO :: LogSeverity where "LOG_INFO = 0"
definition LOG_WARNING :: LogSeverity where "LOG_WARNING = 1"
definition LOG_ERROR :: LogSeverity where "LOG_ERROR = 2"
definition LOG_FATAL :: LogSeverity where "LOG_FATAL = 3"
definition LOG_NUM_SEVERITIES :: LogSeverity where "LOG_NUM_SEVERITIES = 4"

text \<open>\<open>debug\<close> says that \<open>NDEBUG\<close> is not defined.\<close>

definition LOG_DFATAL :: "bool \<Rightarrow> LogSeverity" where "LOG_DFATAL debug = (if debug then LOG_FATAL else LOG_ERROR)"

lemmas severity_defs = LOG_INFO_def LOG_WARNING_def LOG_ERROR_def LOG_FATAL_def LOG_NUM_SEVERITIES_def

record LogSettings =
  min_log_level :: LogSeverity

definition g_log_settings :: LogSettings where
  "g_log_settings = \<lparr>min_log_level = LOG_INFO\<rparr>"

definition SetLogSettings :: "LogSettings \<Rightarrow> LogSettings \<Rightarrow> LogSettings" where
  "SetLogSettings settings g = g\<lparr>min_log_level := min LOG_FATAL (min_log_level settings)\<rparr>"

definition GetLogSettings :: "LogSettings \<Rightarrow> LogSettings" where
  "GetLogSettings g = g"

definition GetMinLogLevel :: "LogSettings \<Rightarrow> int" where
  "GetMinLogLevel g = min (min_log_level g) LOG_FATAL"

text \<open>\<open>ScopedSetLogSettings\<close>: the new settings, and the old ones kept in the object.\<close>

definition ScopedSetLogSettings_new :: "LogSettings \<Rightarrow> LogSettings \<Rightarrow> LogSettings \<times> LogSettings" where
  "ScopedSetLogSettings_new settings g =
     (let old_settings = GetLogSettings g in (SetLogSettings settings g, old_settings))"

definition ScopedSetLogSettings_destroy :: "LogSettings \<Rightarrow> LogSettings \<Rightarrow> LogSettings" where
  "ScopedSetLogSettings_destroy old_settings g = SetLogSettings old_settings g"

definition GetVlogVerbosity :: "LogSettings \<Rightarrow> int" where
  "GetVlogVerbosity g = max (- 1) (LOG_INFO - GetMinLogLevel g)"

definition ShouldCreateLogMessage :: "LogSettings \<Rightarrow> LogSeverity \<Rightarrow> bool" where
  "ShouldCreateLogMessage g severity \<longleftrightarrow> severity \<ge> GetMinLogLevel g"

subsection \<open>Messages\<close>

definition kLogSeverityNames :: "string list" where
  "kLogSeverityNames = [''INFO'', ''WARNING'', ''ERROR'', ''FATAL'']"

definition GetNameForLogSeverity :: "LogSeverity \<Rightarrow> string" where
  "GetNameForLogSeverity severity =
     (if severity \<ge> LOG_INFO \<and> severity < LOG_NUM_SEVERITIES then kLogSeverityNames ! nat severity else ''UNKNOWN'')"

function StripDots :: "string \<Rightarrow> string" where
  "StripDots path = (if take 3 path = ''../'' then StripDots (drop 3 path) else path)"
  by pat_completeness auto

termination
proof (relation "measure length")
  fix path :: string
  assume "take 3 path = ''../''"
  then have "path \<noteq> []" by auto
  then show "(drop 3 path, path) \<in> measure length" by simp
qed simp

declare StripDots.simps [simp del]

definition StripPath :: "string \<Rightarrow> string" where
  "StripPath path =
     (if CHR ''/'' \<in> set path then rev (takeWhile (\<lambda>c. c \<noteq> CHR ''/'') (rev path)) else path)"

record LogMessage =
  lm_stream :: string
  lm_severity :: LogSeverity
  lm_file :: string
  lm_line :: int

definition LogMessage_new :: "LogSeverity \<Rightarrow> string \<Rightarrow> int \<Rightarrow> string option \<Rightarrow> LogMessage" where
  "LogMessage_new severity file line condition =
     \<lparr>lm_stream = ''['' @
        (if severity \<ge> LOG_INFO then GetNameForLogSeverity severity else ''VERBOSE'' @ dec (- severity)) @
        '':'' @ (if severity > LOG_INFO then StripDots file else StripPath file) @ ''('' @ dec line @ '')] '' @
        (case condition of None \<Rightarrow> [] | Some c \<Rightarrow> ''Check failed: '' @ c @ ''. ''),
      lm_severity = severity, lm_file = file, lm_line = line\<rparr>"

datatype android_LogPriority =
    ANDROID_LOG_UNKNOWN | ANDROID_LOG_VERBOSE | ANDROID_LOG_INFO | ANDROID_LOG_WARN | ANDROID_LOG_ERROR | ANDROID_LOG_FATAL

text \<open>What the destructor writes, and whether it kills the process.\<close>

definition LogMessage_destroy :: "LogMessage \<Rightarrow> (android_LogPriority \<times> string) \<times> bool" where
  "LogMessage_destroy m =
     (let text = lm_stream m @ [NL];
          priority =
            (if lm_severity m = LOG_INFO then ANDROID_LOG_INFO
             else if lm_severity m = LOG_WARNING then ANDROID_LOG_WARN
             else if lm_severity m = LOG_ERROR then ANDROID_LOG_ERROR
             else if lm_severity m = LOG_FATAL then ANDROID_LOG_FATAL
             else if lm_severity m < 0 then ANDROID_LOG_VERBOSE else ANDROID_LOG_UNKNOWN)
      in ((priority, text), lm_severity m \<ge> LOG_FATAL))"

text \<open>The macros, with the text that is streamed into the message: what is written, if anything, and
  whether the process is killed.\<close>

definition log_stream :: "LogSeverity \<Rightarrow> string \<Rightarrow> int \<Rightarrow> string option \<Rightarrow> string \<Rightarrow>
    (android_LogPriority \<times> string) option \<times> bool" where
  "log_stream severity file line condition text =
     (let m = LogMessage_new severity file line condition;
          (out, killed) = LogMessage_destroy (m\<lparr>lm_stream := lm_stream m @ text\<rparr>)
      in (Some out, killed))"

definition FOREVER_LOG :: "LogSettings \<Rightarrow> LogSeverity \<Rightarrow> string \<Rightarrow> int \<Rightarrow> string \<Rightarrow>
    (android_LogPriority \<times> string) option \<times> bool" where
  "FOREVER_LOG g severity file line text =
     (if ShouldCreateLogMessage g severity then log_stream severity file line None text else (None, False))"

definition FOREVER_CHECK :: "bool \<Rightarrow> string \<Rightarrow> string \<Rightarrow> int \<Rightarrow> string \<Rightarrow>
    (android_LogPriority \<times> string) option \<times> bool" where
  "FOREVER_CHECK condition condition_text file line text =
     (if \<not> condition then log_stream LOG_FATAL file line (Some condition_text) text else (None, False))"

definition FOREVER_VLOG :: "LogSettings \<Rightarrow> int \<Rightarrow> string \<Rightarrow> int \<Rightarrow> string \<Rightarrow>
    (android_LogPriority \<times> string) option \<times> bool" where
  "FOREVER_VLOG g verbose_level file line text =
     (if verbose_level \<le> GetVlogVerbosity g then log_stream (- verbose_level) file line None text else (None, False))"

text \<open>The forms for debug builds, which evaluate nothing in a release build, and \<open>FOREVER_UNREACHABLE\<close>.\<close>

definition FOREVER_DLOG :: "bool \<Rightarrow> LogSettings \<Rightarrow> LogSeverity \<Rightarrow> string \<Rightarrow> int \<Rightarrow> string \<Rightarrow>
    (android_LogPriority \<times> string) option \<times> bool" where
  "FOREVER_DLOG debug g severity file line text =
     (if debug then FOREVER_LOG g severity file line text else (None, False))"

definition FOREVER_DCHECK :: "bool \<Rightarrow> bool \<Rightarrow> string \<Rightarrow> string \<Rightarrow> int \<Rightarrow> string \<Rightarrow>
    (android_LogPriority \<times> string) option \<times> bool" where
  "FOREVER_DCHECK debug condition condition_text file line text =
     (if debug then FOREVER_CHECK condition condition_text file line text else (None, False))"

definition FOREVER_UNREACHABLE :: "LogSettings \<Rightarrow> string \<Rightarrow> int \<Rightarrow> (android_LogPriority \<times> string) option \<times> bool" where
  "FOREVER_UNREACHABLE g file line =
     (let (out, killed) = FOREVER_LOG g LOG_ERROR file line ''Reached unreachable code.'' in (out, True))"

subsection \<open>Properties\<close>

text \<open>A failed check aborts, whatever the settings; a check that holds does nothing.\<close>

lemma FOREVER_CHECK_aborts: "snd (FOREVER_CHECK condition t file line text) \<longleftrightarrow> \<not> condition"
  by (simp add: FOREVER_CHECK_def log_stream_def LogMessage_destroy_def LogMessage_new_def Let_def severity_defs)

lemma FOREVER_DCHECK_aborts: "snd (FOREVER_DCHECK debug condition t file line text) \<longleftrightarrow> debug \<and> \<not> condition"
  by (simp add: FOREVER_DCHECK_def FOREVER_CHECK_aborts)

text \<open>A log statement ends the process exactly if it is fatal, and fatal ones cannot be turned off.\<close>

lemma fatal_always_logged: "severity \<ge> LOG_FATAL \<Longrightarrow> ShouldCreateLogMessage g severity"
  by (simp add: ShouldCreateLogMessage_def GetMinLogLevel_def)

lemma FOREVER_LOG_kills: "snd (FOREVER_LOG g severity file line text) \<longleftrightarrow> severity \<ge> LOG_FATAL"
  using fatal_always_logged [of severity g]
  by (auto simp: FOREVER_LOG_def log_stream_def LogMessage_destroy_def LogMessage_new_def Let_def)

text \<open>Verbose logging at level \<open>v \<ge> 0\<close> is on exactly if messages of severity \<open>- v\<close> are made.\<close>

lemma verbose_is_negative_severity:
  "0 \<le> v \<Longrightarrow> v \<le> GetVlogVerbosity g \<longleftrightarrow> ShouldCreateLogMessage g (- v)"
  by (auto simp: GetVlogVerbosity_def ShouldCreateLogMessage_def GetMinLogLevel_def severity_defs)

text \<open>Scoped settings are in force for the scope and then taken back, for settings that were set by
  \<open>SetLogSettings\<close>.\<close>

lemma ScopedSetLogSettings_restores:
  assumes "min_log_level g \<le> LOG_FATAL" and "ScopedSetLogSettings_new settings g = (g1, old)"
  shows "ScopedSetLogSettings_destroy old g1 = g" and "GetMinLogLevel g1 = min LOG_FATAL (min_log_level settings)"
  using assms
  by (auto simp: ScopedSetLogSettings_new_def ScopedSetLogSettings_destroy_def SetLogSettings_def GetLogSettings_def
      GetMinLogLevel_def Let_def)

lemma StripDots_suffix: "suffix (StripDots path) path \<and> take 3 (StripDots path) \<noteq> ''../''"
proof (induction path rule: StripDots.induct)
  case (1 path)
  then show ?case using suffix_drop [of 3 path] by (subst (1 2) StripDots.simps) (auto intro: suffix_order.trans)
qed

lemma StripPath_suffix: "suffix (StripPath path) path \<and> CHR ''/'' \<notin> set (StripPath path)"
proof -
  have "suffix (rev (takeWhile P (rev path))) path" for P
    by (metis rev_rev_ident suffix_to_prefix takeWhile_is_prefix)
  then show ?thesis by (auto simp: StripPath_def dest: set_takeWhileD)
qed

end
