(* ===== verification/Snappy_Bindings.thy ===== *)
theory Snappy_Bindings
  imports Env_Prelude
begin

section \<open>The bindings of the snappy library\<close>

text \<open>
  \<open>app/src/main/cpp/snappy_natvie.cpp\<close>: the JNI entry points through which Java compresses and uncompresses
  native memory, direct byte buffers and arrays. The snappy library is a parameter; what the bindings do
  to memory, to the pins of arrays and to Java exceptions is the state. Memory is a partial map of
  addresses; an access outside it is undefined behaviour, and the bindings check no offset or length.
  The address of a direct buffer and of a pinned array are given by the Java virtual machine, 0 for none.
\<close>

subsection \<open>Memory, pins and exceptions\<close>

type_synonym memory = "int \<rightharpoonup> byte"

definition load :: "memory \<Rightarrow> int \<Rightarrow> nat \<Rightarrow> byte list outcome" where
  "load m a n =
     (if \<forall>i < n. m (a + int i) \<noteq> None then Inr (map (\<lambda>i. the (m (a + int i))) [0..<n])
      else Inl Undefined_Behaviour)"

definition store :: "memory \<Rightarrow> int \<Rightarrow> byte list \<Rightarrow> memory outcome" where
  "store m a bs =
     (if \<forall>i < length bs. m (a + int i) \<noteq> None
      then Inr (\<lambda>x. if a \<le> x \<and> x < a + int (length bs) then Some (bs ! nat (x - a)) else m x)
      else Inl Undefined_Behaviour)"

definition mapped :: "memory \<Rightarrow> int \<Rightarrow> nat \<Rightarrow> bool" where
  "mapped m a n \<longleftrightarrow> (\<forall>i < n. m (a + int i) \<noteq> None)"

text \<open>Two ranges that share no address.\<close>

definition apart :: "int \<Rightarrow> nat \<Rightarrow> int \<Rightarrow> nat \<Rightarrow> bool" where
  "apart a n b k \<longleftrightarrow> n = 0 \<or> k = 0 \<or> a + int n \<le> b \<or> b + int k \<le> a"

record jni_state =
  js_memory :: memory
  js_pins :: "nat \<Rightarrow> nat"
  js_thrown :: "int list"

text \<open>The virtual machine: buffer addresses, and what \<open>throw_exception\<close> finds.\<close>

record jni_vm =
  GetDirectBufferAddress :: "nat \<Rightarrow> int"
  critical_address :: "nat \<Rightarrow> int"
  throw_error_found :: bool

text \<open>The snappy library: uncompressing answers whether it succeeded, and the bytes it has written.\<close>

record snappy =
  RawCompress :: "byte list \<Rightarrow> byte list"
  RawUncompress :: "byte list \<Rightarrow> bool \<times> byte list"
  GetUncompressedLength :: "byte list \<Rightarrow> nat option"
  IsValidCompressedBuffer :: "byte list \<Rightarrow> bool"
  MaxCompressedLength :: "nat \<Rightarrow> nat"

text \<open>\<open>(size_t)n\<close>, \<open>(jint)n\<close> and \<open>(jlong)n\<close>.\<close>

definition to_size_t :: "int \<Rightarrow> nat" where
  "to_size_t n = nat (n mod 2 ^ 64)"

definition to_jint :: "nat \<Rightarrow> int" where
  "to_jint n = sint (word_of_nat n :: 32 word)"

definition to_jlong :: "nat \<Rightarrow> int" where
  "to_jlong n = sint (word_of_nat n :: 64 word)"

definition throw_exception :: "jni_vm \<Rightarrow> int \<Rightarrow> jni_state \<Rightarrow> jni_state" where
  "throw_exception vm errorCode s =
     (if throw_error_found vm then s\<lparr>js_thrown := js_thrown s @ [errorCode]\<rparr> else s)"

definition GetPrimitiveArrayCritical :: "jni_vm \<Rightarrow> nat \<Rightarrow> jni_state \<Rightarrow> jni_state \<times> int" where
  "GetPrimitiveArrayCritical vm array s =
     (if critical_address vm array = 0 then (s, 0)
      else (s\<lparr>js_pins := (js_pins s)(array := js_pins s array + 1)\<rparr>, critical_address vm array))"

definition ReleasePrimitiveArrayCritical :: "nat \<Rightarrow> jni_state \<Rightarrow> jni_state outcome" where
  "ReleasePrimitiveArrayCritical array s =
     (if js_pins s array = 0 then Inl Undefined_Behaviour
      else Inr (s\<lparr>js_pins := (js_pins s)(array := js_pins s array - 1)\<rparr>))"

subsection \<open>The calls of the library\<close>

text \<open>\<open>snappy::RawCompress(src, length, dest, &compressedLength)\<close>, and \<open>GetUncompressedLength\<close> followed by
  \<open>RawUncompress\<close>: the result of the former is not looked at, so on success a length that was never
  set is read. The library needs a destination that does not overlap the source and, to compress, has room
  for the largest compressed form; without it the call is undefined.\<close>

definition raw_compress :: "snappy \<Rightarrow> int \<Rightarrow> nat \<Rightarrow> int \<Rightarrow> jni_state \<Rightarrow> (jni_state \<times> nat) outcome" where
  "raw_compress sn src n dest s =
     obind (load (js_memory s) src n) (\<lambda>input.
     obind (defined (mapped (js_memory s) dest (MaxCompressedLength sn n) \<and> apart src n dest (MaxCompressedLength sn n))) (\<lambda>_.
     obind (store (js_memory s) dest (RawCompress sn input)) (\<lambda>m.
     Inr (s\<lparr>js_memory := m\<rparr>, length (RawCompress sn input)))))"

definition raw_uncompress :: "snappy \<Rightarrow> int \<Rightarrow> nat \<Rightarrow> int \<Rightarrow> jni_state \<Rightarrow> (jni_state \<times> bool \<times> nat option) outcome" where
  "raw_uncompress sn src n dest s =
     obind (load (js_memory s) src n) (\<lambda>input.
     let uncompressedLength = GetUncompressedLength sn input; (ret, out) = RawUncompress sn input
     in obind (defined (apart src n dest (length out))) (\<lambda>_.
        obind (store (js_memory s) dest out) (\<lambda>m. Inr (s\<lparr>js_memory := m\<rparr>, ret, uncompressedLength))))"

definition read_length :: "nat option \<Rightarrow> nat outcome" where
  "read_length l = (case l of None \<Rightarrow> Inl Undefined_Behaviour | Some n \<Rightarrow> Inr n)"

subsection \<open>Entry points on addresses\<close>

definition rawCompress_JJJ :: "snappy \<Rightarrow> int \<Rightarrow> int \<Rightarrow> int \<Rightarrow> jni_state \<Rightarrow> (jni_state \<times> int) outcome" where
  "rawCompress_JJJ sn srcAddr len destAddr s =
     obind (raw_compress sn srcAddr (to_size_t len) destAddr s) (\<lambda>(s1, n). Inr (s1, to_jlong n))"

definition rawUncompress_JJJ :: "snappy \<Rightarrow> jni_vm \<Rightarrow> int \<Rightarrow> int \<Rightarrow> int \<Rightarrow> jni_state \<Rightarrow> (jni_state \<times> int) outcome" where
  "rawUncompress_JJJ sn vm srcAddr len destAddr s =
     obind (raw_uncompress sn srcAddr (to_size_t len) destAddr s) (\<lambda>(s1, ret, l).
     if \<not> ret then Inr (throw_exception vm 5 s1, 0) else obind (read_length l) (\<lambda>n. Inr (s1, to_jlong n)))"

definition uncompressedLength_JJ :: "snappy \<Rightarrow> jni_vm \<Rightarrow> int \<Rightarrow> int \<Rightarrow> jni_state \<Rightarrow> (jni_state \<times> int) outcome" where
  "uncompressedLength_JJ sn vm inputAddr len s =
     obind (load (js_memory s) inputAddr (to_size_t len)) (\<lambda>input.
     case GetUncompressedLength sn input of
       None \<Rightarrow> Inr (throw_exception vm 2 s, 0)
     | Some result \<Rightarrow> Inr (s, to_jint result))"

definition isValidCompressedBuffer_JJJ ::
  "snappy \<Rightarrow> jni_vm \<Rightarrow> int \<Rightarrow> int \<Rightarrow> int \<Rightarrow> jni_state \<Rightarrow> (jni_state \<times> bool) outcome" where
  "isValidCompressedBuffer_JJJ sn vm inputAddr offset len s =
     (if inputAddr = 0 then Inr (throw_exception vm 4 s, False)
      else obind (load (js_memory s) (inputAddr + offset) (to_size_t len)) (\<lambda>input.
           Inr (s, IsValidCompressedBuffer sn input)))"

definition maxCompressedLength :: "snappy \<Rightarrow> int \<Rightarrow> int" where
  "maxCompressedLength sn n = to_jint (MaxCompressedLength sn (to_size_t n))"

definition nativeLibraryVersion :: string where
  "nativeLibraryVersion = ''1.1.7''"

subsection \<open>Entry points on direct buffers\<close>

definition rawCompress_buffer ::
  "snappy \<Rightarrow> jni_vm \<Rightarrow> nat \<Rightarrow> int \<Rightarrow> int \<Rightarrow> nat \<Rightarrow> int \<Rightarrow> jni_state \<Rightarrow> (jni_state \<times> int) outcome" where
  "rawCompress_buffer sn vm uncompressed upos ulen compressed cpos s =
     (let u = GetDirectBufferAddress vm uncompressed; c = GetDirectBufferAddress vm compressed
      in if u = 0 \<or> c = 0 then Inr (throw_exception vm 3 s, 0)
         else obind (raw_compress sn (u + upos) (to_size_t ulen) (c + cpos) s) (\<lambda>(s1, n). Inr (s1, to_jint n)))"

definition rawUncompress_buffer ::
  "snappy \<Rightarrow> jni_vm \<Rightarrow> nat \<Rightarrow> int \<Rightarrow> int \<Rightarrow> nat \<Rightarrow> int \<Rightarrow> jni_state \<Rightarrow> (jni_state \<times> int) outcome" where
  "rawUncompress_buffer sn vm compressed cpos clen decompressed dpos s =
     (let c = GetDirectBufferAddress vm compressed; d = GetDirectBufferAddress vm decompressed
      in if c = 0 \<or> d = 0 then Inr (throw_exception vm 3 s, 0)
         else obind (raw_uncompress sn (c + cpos) (to_size_t clen) (d + dpos) s) (\<lambda>(s1, ret, l).
              if \<not> ret then Inr (throw_exception vm 5 s1, 0) else obind (read_length l) (\<lambda>n. Inr (s1, to_jint n))))"

definition uncompressedLength_buffer ::
  "snappy \<Rightarrow> jni_vm \<Rightarrow> nat \<Rightarrow> int \<Rightarrow> int \<Rightarrow> jni_state \<Rightarrow> (jni_state \<times> int) outcome" where
  "uncompressedLength_buffer sn vm compressed cpos clen s =
     (let c = GetDirectBufferAddress vm compressed
      in if c = 0 then Inr (throw_exception vm 3 s, 0)
         else obind (load (js_memory s) (c + cpos) (to_size_t clen)) (\<lambda>input.
              case GetUncompressedLength sn input of
                None \<Rightarrow> Inr (throw_exception vm 2 s, 0)
              | Some result \<Rightarrow> Inr (s, to_jint result)))"

definition isValidCompressedBuffer_buffer ::
  "snappy \<Rightarrow> jni_vm \<Rightarrow> nat \<Rightarrow> int \<Rightarrow> int \<Rightarrow> jni_state \<Rightarrow> (jni_state \<times> bool) outcome" where
  "isValidCompressedBuffer_buffer sn vm compressed cpos clen s =
     (let c = GetDirectBufferAddress vm compressed
      in if c = 0 then Inr (throw_exception vm 3 s, False)
         else obind (load (js_memory s) (c + cpos) (to_size_t clen)) (\<lambda>input.
              Inr (s, IsValidCompressedBuffer sn input)))"

subsection \<open>Entry points on arrays\<close>

text \<open>Pin two arrays; if one cannot be pinned, release the other, throw and give up. Else do the work on
  their addresses and release them.\<close>

definition with_arrays ::
  "jni_vm \<Rightarrow> nat \<Rightarrow> nat \<Rightarrow> 'r \<Rightarrow> (int \<Rightarrow> int \<Rightarrow> jni_state \<Rightarrow> (jni_state \<times> 'r) outcome) \<Rightarrow> jni_state \<Rightarrow> (jni_state \<times> 'r) outcome" where
  "with_arrays vm input output_array give_up work s =
     (let (s1, inp) = GetPrimitiveArrayCritical vm input s; (s2, out) = GetPrimitiveArrayCritical vm output_array s1
      in if inp = 0 \<or> out = 0
         then obind (if inp \<noteq> 0 then ReleasePrimitiveArrayCritical input s2 else Inr s2) (\<lambda>s3.
              obind (if out \<noteq> 0 then ReleasePrimitiveArrayCritical output_array s3 else Inr s3) (\<lambda>s4.
              Inr (throw_exception vm 4 s4, give_up)))
         else obind (work inp out s2) (\<lambda>(s3, r).
              obind (ReleasePrimitiveArrayCritical input s3) (\<lambda>s4.
              obind (ReleasePrimitiveArrayCritical output_array s4) (\<lambda>s5. Inr (s5, r)))))"

definition rawCompress_array ::
  "snappy \<Rightarrow> jni_vm \<Rightarrow> nat \<Rightarrow> int \<Rightarrow> int \<Rightarrow> nat \<Rightarrow> int \<Rightarrow> jni_state \<Rightarrow> (jni_state \<times> int) outcome" where
  "rawCompress_array sn vm input inputOffset inputLen output_array outputOffset =
     with_arrays vm input output_array 0 (\<lambda>inp out s.
       obind (raw_compress sn (inp + inputOffset) (to_size_t inputLen) (out + outputOffset) s) (\<lambda>(s1, n). Inr (s1, to_jint n)))"

text \<open>The exception is thrown after the arrays have been released.\<close>

definition rawUncompress_array ::
  "snappy \<Rightarrow> jni_vm \<Rightarrow> nat \<Rightarrow> int \<Rightarrow> int \<Rightarrow> nat \<Rightarrow> int \<Rightarrow> jni_state \<Rightarrow> (jni_state \<times> int) outcome" where
  "rawUncompress_array sn vm input inputOffset inputLength output_array outputOffset s =
     obind (with_arrays vm input output_array None (\<lambda>inp out s.
       obind (raw_uncompress sn (inp + inputOffset) (to_size_t inputLength) (out + outputOffset) s) (\<lambda>(s1, r).
       Inr (s1, Some r))) s) (\<lambda>(s1, r).
     case r of
       None \<Rightarrow> Inr (s1, 0)
     | Some (ret, l) \<Rightarrow>
         if \<not> ret then Inr (throw_exception vm 5 s1, 0) else obind (read_length l) (\<lambda>n. Inr (s1, to_jint n)))"

text \<open>\<open>memcpy\<close> of overlapping ranges is undefined as well.\<close>

definition arrayCopy ::
  "jni_vm \<Rightarrow> nat \<Rightarrow> int \<Rightarrow> int \<Rightarrow> nat \<Rightarrow> int \<Rightarrow> jni_state \<Rightarrow> (jni_state \<times> unit) outcome" where
  "arrayCopy vm input offset len output_array output_offset =
     with_arrays vm input output_array () (\<lambda>src dest s.
       obind (defined (apart (src + offset) (to_size_t len) (dest + output_offset) (to_size_t len))) (\<lambda>_.
       obind (load (js_memory s) (src + offset) (to_size_t len)) (\<lambda>bs.
       obind (store (js_memory s) (dest + output_offset) bs) (\<lambda>m. Inr (s\<lparr>js_memory := m\<rparr>, ())))))"

definition with_array ::
  "jni_vm \<Rightarrow> nat \<Rightarrow> (byte list \<Rightarrow> 'r) \<Rightarrow> int \<Rightarrow> int \<Rightarrow> jni_state \<Rightarrow> (jni_state \<times> 'r option) outcome" where
  "with_array vm input query offset len s =
     (let (s1, inp) = GetPrimitiveArrayCritical vm input s
      in if inp = 0 then Inr (throw_exception vm 4 s1, None)
         else obind (load (js_memory s1) (inp + offset) (to_size_t len)) (\<lambda>bs.
              obind (ReleasePrimitiveArrayCritical input s1) (\<lambda>s2. Inr (s2, Some (query bs)))))"

definition uncompressedLength_array ::
  "snappy \<Rightarrow> jni_vm \<Rightarrow> nat \<Rightarrow> int \<Rightarrow> int \<Rightarrow> jni_state \<Rightarrow> (jni_state \<times> int) outcome" where
  "uncompressedLength_array sn vm input offset len s =
     obind (with_array vm input (GetUncompressedLength sn) offset len s) (\<lambda>(s1, r).
     case r of
       None \<Rightarrow> Inr (s1, 0)
     | Some None \<Rightarrow> Inr (throw_exception vm 2 s1, 0)
     | Some (Some n) \<Rightarrow> Inr (s1, to_jint n))"

definition isValidCompressedBuffer_array ::
  "snappy \<Rightarrow> jni_vm \<Rightarrow> nat \<Rightarrow> int \<Rightarrow> int \<Rightarrow> jni_state \<Rightarrow> (jni_state \<times> bool) outcome" where
  "isValidCompressedBuffer_array sn vm input offset len s =
     obind (with_array vm input (IsValidCompressedBuffer sn) offset len s) (\<lambda>(s1, r).
     Inr (s1, case r of None \<Rightarrow> False | Some b \<Rightarrow> b))"

subsection \<open>Memory\<close>






subsection \<open>Pins\<close>

lemma raw_compress_keeps: "raw_compress sn a n b s = Inr (s', r) \<Longrightarrow> js_pins s' = js_pins s \<and> js_thrown s' = js_thrown s"
  by (auto simp: raw_compress_def obind_eq_Inr)

lemma raw_uncompress_keeps:
  "raw_uncompress sn a n b s = Inr (s', r) \<Longrightarrow> js_pins s' = js_pins s \<and> js_thrown s' = js_thrown s"
  by (auto simp: raw_uncompress_def obind_eq_Inr Let_def case_prod_unfold)

lemma throw_keeps [simp]: "js_pins (throw_exception vm e s) = js_pins s" "js_memory (throw_exception vm e s) = js_memory s"
  by (simp_all add: throw_exception_def)

lemma with_arrays_pins:
  assumes "with_arrays vm a b g work s = Inr (s', r)"
    and "\<And>x y t t' r. work x y t = Inr (t', r) \<Longrightarrow> js_pins t' = js_pins t"
  shows "js_pins s' = js_pins s"
  using assms(1)
  by (cases "critical_address vm a = 0"; cases "critical_address vm b = 0"; cases "a = b")
    (auto simp: with_arrays_def GetPrimitiveArrayCritical_def ReleasePrimitiveArrayCritical_def obind_eq_Inr
      fun_eq_iff split: if_splits prod.splits dest!: assms(2))

lemma with_array_pins: "with_array vm a q off len s = Inr (s', r) \<Longrightarrow> js_pins s' = js_pins s"
  by (auto simp: with_array_def GetPrimitiveArrayCritical_def ReleasePrimitiveArrayCritical_def obind_eq_Inr
      fun_eq_iff split: if_splits)

lemma with_arrays_fail:
  assumes "critical_address vm a = 0 \<or> critical_address vm b = 0"
  shows "with_arrays vm a b g work s = Inr (throw_exception vm 4 s, g)"
  using assms
  by (auto simp: with_arrays_def GetPrimitiveArrayCritical_def ReleasePrimitiveArrayCritical_def Let_def)

text \<open>Every entry point that pins arrays releases them: on each path on which it returns, successful or
  not, each array has as many pins as before. When one of two arrays cannot be pinned, the entry point
  returns, throws error 4 and changes nothing else.\<close>

theorem arrays_released:
  "(rawCompress_array sn vm a ao n b bo s = Inr (s1, r1) \<longrightarrow> js_pins s1 = js_pins s) \<and>
    (rawUncompress_array sn vm a ao n b bo s = Inr (s2, r2) \<longrightarrow> js_pins s2 = js_pins s) \<and>
    (arrayCopy vm a ao n b bo s = Inr (s3, r3) \<longrightarrow> js_pins s3 = js_pins s) \<and>
    (uncompressedLength_array sn vm a ao n s = Inr (s4, r4) \<longrightarrow> js_pins s4 = js_pins s) \<and>
    (isValidCompressedBuffer_array sn vm a ao n s = Inr (s5, r5) \<longrightarrow> js_pins s5 = js_pins s) \<and>
    (critical_address vm a = 0 \<or> critical_address vm b = 0 \<longrightarrow>
      rawCompress_array sn vm a ao n b bo s = Inr (throw_exception vm 4 s, 0) \<and>
      rawUncompress_array sn vm a ao n b bo s = Inr (throw_exception vm 4 s, 0) \<and>
      arrayCopy vm a ao n b bo s = Inr (throw_exception vm 4 s, ()))"
proof (intro conjI impI)
  show "js_pins s1 = js_pins s" if "rawCompress_array sn vm a ao n b bo s = Inr (s1, r1)"
    using that unfolding rawCompress_array_def
    by (rule with_arrays_pins) (auto simp: obind_eq_Inr dest: raw_compress_keeps)
  show "js_pins s2 = js_pins s" if "rawUncompress_array sn vm a ao n b bo s = Inr (s2, r2)"
  proof -
    from that obtain s' r where w: "with_arrays vm a b None (\<lambda>inp out s.
       obind (raw_uncompress sn (inp + ao) (to_size_t n) (out + bo) s) (\<lambda>(s1, r). Inr (s1, Some r))) s = Inr (s', r)"
      and k: "(case r of None \<Rightarrow> Inr (s', 0) | Some (ret, l) \<Rightarrow>
         if \<not> ret then Inr (throw_exception vm 5 s', 0) else obind (read_length l) (\<lambda>n. Inr (s', to_jint n))) = Inr (s2, r2)"
      by (auto simp: rawUncompress_array_def elim!: obind_eq_InrE)
    have "js_pins s2 = js_pins s'"
      using k by (cases r) (auto simp: case_prod_unfold obind_eq_Inr split: if_splits)
    moreover have "js_pins s' = js_pins s"
      using w by (rule with_arrays_pins) (auto simp: obind_eq_Inr dest: raw_uncompress_keeps)
    ultimately show ?thesis by simp
  qed
  show "js_pins s3 = js_pins s" if "arrayCopy vm a ao n b bo s = Inr (s3, r3)"
    using that unfolding arrayCopy_def by (rule with_arrays_pins) (auto simp: obind_eq_Inr)
  show "js_pins s4 = js_pins s" if "uncompressedLength_array sn vm a ao n s = Inr (s4, r4)"
  proof -
    from that obtain s' r where w: "with_array vm a (GetUncompressedLength sn) ao n s = Inr (s', r)"
      and k: "(case r of None \<Rightarrow> Inr (s', 0) | Some None \<Rightarrow> Inr (throw_exception vm 2 s', 0)
        | Some (Some n) \<Rightarrow> Inr (s', to_jint n)) = (Inr (s4, r4) :: (jni_state \<times> int) outcome)"
      by (auto simp: uncompressedLength_array_def elim!: obind_eq_InrE)
    have "js_pins s4 = js_pins s'" using k by (cases r; cases "the r") auto
    with with_array_pins [OF w] show ?thesis by simp
  qed
  show "js_pins s5 = js_pins s" if "isValidCompressedBuffer_array sn vm a ao n s = Inr (s5, r5)"
    using that by (auto simp: isValidCompressedBuffer_array_def obind_eq_Inr dest: with_array_pins)
qed (simp_all add: rawCompress_array_def rawUncompress_array_def arrayCopy_def with_arrays_fail)

subsection \<open>What the entry points on arrays hand over\<close>




text \<open>A library that stores its input.\<close>

definition storing_snappy :: snappy where
  "storing_snappy = \<lparr>RawCompress = (\<lambda>xs. 0 # xs), RawUncompress = (\<lambda>ys. (True, tl ys)),
     GetUncompressedLength = (\<lambda>ys. Some (length ys - 1)), IsValidCompressedBuffer = (\<lambda>ys. ys \<noteq> []),
     MaxCompressedLength = Suc\<rparr>"

definition sample_vm :: jni_vm where
  "sample_vm = \<lparr>GetDirectBufferAddress = (\<lambda>_. 0), critical_address = (\<lambda>a. 100 * int a), throw_error_found = True\<rparr>"

definition sample_jni :: jni_state where
  "sample_jni = \<lparr>js_memory = (\<lambda>_. Some 9), js_pins = (\<lambda>_. 0), js_thrown = []\<rparr>"


theorem arrays_released_witness:
  "rawCompress_array storing_snappy sample_vm 0 0 2 2 0 sample_jni = Inr (sample_jni\<lparr>js_thrown := [4]\<rparr>, 0) \<and>
    js_pins (sample_jni\<lparr>js_thrown := [4]\<rparr>) = js_pins sample_jni"
proof -
  have "rawCompress_array storing_snappy sample_vm 0 0 2 2 0 sample_jni = Inr (sample_jni\<lparr>js_thrown := [4]\<rparr>, 0)"
    by (simp add: rawCompress_array_def with_arrays_def GetPrimitiveArrayCritical_def ReleasePrimitiveArrayCritical_def
        sample_vm_def sample_jni_def throw_exception_def fun_upd_idem)
  then show ?thesis
    using arrays_released [of storing_snappy sample_vm 0 0 2 2 0 sample_jni "sample_jni\<lparr>js_thrown := [4]\<rparr>" 0] by blast
qed

end
