(* ===== verification/Java_References.thy ===== *)
theory Java_References
  imports Unique_Ownership Threads
begin

section \<open>References to Java objects\<close>

text \<open>
  \<open>app/src/main/cpp/android/scoped_java_ref.{h,cc}\<close>, \<open>jni_weak_ref.{h,cc}\<close> and the attachment of threads in
  \<open>jni_util.cc\<close>. The state holds the references the Java virtual machine has handed out, and the
  variables of the three reference classes. A reference is a number that is never used again; using
  one that was deleted, or a local one of another thread, is undefined. A \<open>JNIEnv*\<close> is the thread it belongs
  to. The virtual machine may run out of memory at any request for a reference, which then is null.
\<close>

subsection \<open>The virtual machine\<close>

datatype ref_kind = LocalRef thread_id | GlobalRef | WeakGlobalRef

text \<open>A variable of class \<open>ScopedJavaLocalRef\<close> (\<open>env_\<close>, \<open>obj_\<close>), \<open>ScopedJavaGlobalRef\<close> or
  \<open>JavaObjectWeakGlobalRef\<close> (\<open>obj_\<close>).\<close>

datatype holder = ScopedJavaLocalRef "thread_id option" ptr | ScopedJavaGlobalRef ptr | JavaObjectWeakGlobalRef ptr

record jvm =
  g_jvm :: bool
  tls_jni_detach :: "unit tls_slot"
  jv_attached :: "thread_id set"
  jv_refs :: "nat \<rightharpoonup> ref_kind \<times> nat"
  jv_next :: nat
  jv_frames :: "thread_id \<Rightarrow> nat set list"
  jv_collected :: "nat set"
  jv_vars :: "var \<rightharpoonup> holder"

text \<open>What the virtual machine and the operating system answer: whether a thread can be attached, whether
  there is memory for a reference, whether there is room for a frame, the result of \<open>pthread_setspecific\<close>.\<close>

record java_answers =
  ja_attach :: "thread_id \<Rightarrow> bool"
  ja_room :: "nat \<Rightarrow> bool"
  ja_frame :: "int \<Rightarrow> bool"
  ja_setspecific :: int

text \<open>\<open>InitJavaVM\<close>, \<open>AttachCurrentThread\<close>, \<open>DetachFromVM\<close> and the destructor of \<open>JNIDetach\<close>.\<close>

definition InitJavaVM :: "jvm \<Rightarrow> jvm outcome" where
  "InitJavaVM j = obind (check (\<not> g_jvm j)) (\<lambda>_. Inr (j\<lparr>g_jvm := True\<rparr>))"

definition AttachCurrentThread :: "java_answers \<Rightarrow> thread_id \<Rightarrow> jvm \<Rightarrow> (jvm \<times> thread_id) outcome" where
  "AttachCurrentThread vm t j =
     obind (check (g_jvm j)) (\<lambda>_.
     if t \<in> jv_attached j then Inr (j, t)
     else
       obind (check (ja_attach vm t)) (\<lambda>_.
       obind (check (ThreadLocalUniquePtr_get t (tls_jni_detach j) = None)) (\<lambda>_.
       obind (ThreadLocalUniquePtr_reset (ja_setspecific vm) t (Some ()) (tls_jni_detach j)) (\<lambda>(tls, old).
       Inr (j\<lparr>jv_attached := insert t (jv_attached j), tls_jni_detach := tls\<rparr>, t)))))"

definition is_local_of :: "thread_id \<Rightarrow> (ref_kind \<times> nat) option \<Rightarrow> bool" where
  "is_local_of t r \<longleftrightarrow> (\<exists>o'. r = Some (LocalRef t, o'))"

definition DetachFromVM :: "thread_id \<Rightarrow> jvm \<Rightarrow> jvm" where
  "DetachFromVM t j =
     (if g_jvm j
      then j\<lparr>jv_attached := jv_attached j - {t},
             jv_refs := (\<lambda>h. if is_local_of t (jv_refs j h) then None else jv_refs j h),
             jv_frames := (jv_frames j)(t := [])\<rparr>
      else j)"

definition JNIDetach_destroy :: "thread_id \<Rightarrow> jvm \<Rightarrow> jvm" where
  "JNIDetach_destroy t j = DetachFromVM t j"

text \<open>The end of a thread. \<open>tls_jni_detach\<close> is declared \<open>static thread_local\<close>, so each thread has an object of
  its own, and a \<open>pthread\<close> key of its own in it. The objects of a thread that ends are destroyed before the
  destructors of its keys are called, so \<open>~ThreadLocalPointer\<close> deletes the key, and with it goes the pointer:
  the \<open>JNIDetach\<close> it pointed to is never destroyed.\<close>

definition thread_end :: "int \<Rightarrow> thread_id \<Rightarrow> jvm \<Rightarrow> jvm outcome" where
  "thread_end pthread_key_delete t j =
     obind (ThreadLocalPointer_destroy pthread_key_delete) (\<lambda>_.
     Inr (j\<lparr>tls_jni_detach := (tls_jni_detach j)(t := None)\<rparr>))"

text \<open>\<open>NewLocalRef\<close>, \<open>NewGlobalRef\<close> and \<open>NewWeakGlobalRef\<close>: null for null, for a weak reference whose object was
  collected, and without memory. A local reference belongs to the innermost frame of its thread.\<close>

definition usable :: "thread_id \<Rightarrow> nat \<Rightarrow> jvm \<Rightarrow> bool" where
  "usable t h j \<longleftrightarrow>
     (case jv_refs j h of None \<Rightarrow> False | Some (LocalRef t', _) \<Rightarrow> t' = t | Some _ \<Rightarrow> True)"

definition note_frame :: "ref_kind \<Rightarrow> nat \<Rightarrow> (thread_id \<Rightarrow> nat set list) \<Rightarrow> thread_id \<Rightarrow> nat set list" where
  "note_frame k h fs =
     (case k of LocalRef t \<Rightarrow> (case fs t of [] \<Rightarrow> fs | f # rest \<Rightarrow> fs(t := insert h f # rest)) | _ \<Rightarrow> fs)"

definition hand_out :: "java_answers \<Rightarrow> ref_kind \<Rightarrow> nat \<Rightarrow> jvm \<Rightarrow> jvm \<times> ptr" where
  "hand_out vm k obj j =
     (let h = jv_next j
      in if ja_room vm h
         then (j\<lparr>jv_refs := (jv_refs j)(h \<mapsto> (k, obj)), jv_next := h + 1, jv_frames := note_frame k h (jv_frames j)\<rparr>, Some h)
         else (j\<lparr>jv_next := h + 1\<rparr>, None))"

definition NewRef :: "java_answers \<Rightarrow> thread_id \<Rightarrow> ref_kind \<Rightarrow> ptr \<Rightarrow> jvm \<Rightarrow> (jvm \<times> ptr) outcome" where
  "NewRef vm t k p j =
     obind (defined (t \<in> jv_attached j)) (\<lambda>_.
     case p of
       None \<Rightarrow> Inr (j, None)
     | Some h \<Rightarrow>
         obind (defined (usable t h j)) (\<lambda>_.
         let obj = snd (the (jv_refs j h))
         in if obj \<in> jv_collected j then Inr (j, None) else Inr (hand_out vm k obj j)))"

text \<open>\<open>DeleteLocalRef\<close>, \<open>DeleteGlobalRef\<close>, \<open>DeleteWeakGlobalRef\<close>: of a reference of that kind.\<close>

definition DeleteRef :: "thread_id \<Rightarrow> ref_kind \<Rightarrow> ptr \<Rightarrow> jvm \<Rightarrow> jvm outcome" where
  "DeleteRef t k p j =
     (case p of
        None \<Rightarrow> Inr j
      | Some h \<Rightarrow>
          obind (defined (t \<in> jv_attached j \<and> (\<exists>obj. jv_refs j h = Some (k, obj)))) (\<lambda>_.
          Inr (j\<lparr>jv_refs := (jv_refs j)(h := None)\<rparr>)))"

subsection \<open>JavaRef\<close>

text \<open>The members of the base class, on the value \<open>p\<close> of \<open>obj_\<close>: the new state and the new value.\<close>

definition JavaRef_new :: "thread_id \<Rightarrow> thread_id option \<Rightarrow> ptr \<Rightarrow> jvm \<Rightarrow> ptr outcome" where
  "JavaRef_new t env obj j =
     (case obj of
        None \<Rightarrow> Inr None
      | Some h \<Rightarrow>
          obind (check (env \<noteq> None)) (\<lambda>_.
          obind (defined (env = Some t)) (\<lambda>_.
          obind (check (is_local_of t (jv_refs j h))) (\<lambda>_. Inr obj))))"

definition SetNewLocalRef ::
  "java_answers \<Rightarrow> thread_id \<Rightarrow> thread_id option \<Rightarrow> ptr \<Rightarrow> ptr \<Rightarrow> jvm \<Rightarrow> (jvm \<times> thread_id \<times> ptr) outcome" where
  "SetNewLocalRef vm t env obj p j =
     obind (AttachCurrentThread vm t j) (\<lambda>(j1, e).
     obind (check (env = None \<or> env = Some e)) (\<lambda>_.
     obind (NewRef vm t (LocalRef t) obj j1) (\<lambda>(j2, q).
     obind (DeleteRef t (LocalRef t) p j2) (\<lambda>j3. Inr (j3, e, q)))))"

definition SetNewGlobalRef ::
  "java_answers \<Rightarrow> thread_id \<Rightarrow> thread_id option \<Rightarrow> ptr \<Rightarrow> ptr \<Rightarrow> jvm \<Rightarrow> (jvm \<times> ptr) outcome" where
  "SetNewGlobalRef vm t env obj p j =
     obind (AttachCurrentThread vm t j) (\<lambda>(j1, e).
     obind (check (env = None \<or> env = Some e)) (\<lambda>_.
     obind (NewRef vm t GlobalRef obj j1) (\<lambda>(j2, q).
     obind (DeleteRef t GlobalRef p j2) (\<lambda>j3. Inr (j3, q)))))"

definition ResetLocalRef :: "java_answers \<Rightarrow> thread_id \<Rightarrow> thread_id option \<Rightarrow> ptr \<Rightarrow> jvm \<Rightarrow> (jvm \<times> ptr) outcome" where
  "ResetLocalRef vm t env p j =
     (if p = None then Inr (j, p)
      else
        obind (AttachCurrentThread vm t j) (\<lambda>(j1, e).
        obind (check (env = Some e)) (\<lambda>_.
        obind (DeleteRef t (LocalRef t) p j1) (\<lambda>j2. Inr (j2, None)))))"

definition ResetGlobalRef :: "java_answers \<Rightarrow> thread_id \<Rightarrow> ptr \<Rightarrow> jvm \<Rightarrow> (jvm \<times> ptr) outcome" where
  "ResetGlobalRef vm t p j =
     (if p = None then Inr (j, p)
      else
        obind (AttachCurrentThread vm t j) (\<lambda>(j1, e).
        obind (DeleteRef t GlobalRef p j1) (\<lambda>j2. Inr (j2, None))))"

text \<open>\<open>ReleaseInternal\<close>: the value given away, and the new one.\<close>

definition ReleaseInternal :: "ptr \<Rightarrow> ptr \<times> ptr" where
  "ReleaseInternal p = (p, None)"
subsection \<open>ScopedJavaLocalRef\<close>

text \<open>\<open>x\<close> and \<open>y\<close> are variables; reading one that does not exist, or as another class, is undefined.\<close>

definition set_holder :: "var \<Rightarrow> holder \<Rightarrow> jvm \<Rightarrow> jvm" where
  "set_holder x hl j = j\<lparr>jv_vars := (jv_vars j)(x \<mapsto> hl)\<rparr>"

definition drop_holder :: "var \<Rightarrow> jvm \<Rightarrow> jvm" where
  "drop_holder x j = j\<lparr>jv_vars := (jv_vars j)(x := None)\<rparr>"

definition local_at :: "jvm \<Rightarrow> var \<Rightarrow> (thread_id option \<times> ptr) outcome" where
  "local_at j x = (case jv_vars j x of Some (ScopedJavaLocalRef env p) \<Rightarrow> Inr (env, p) | _ \<Rightarrow> Inl Undefined_Behaviour)"

text \<open>\<open>obj()\<close> of any \<open>JavaRef\<close>.\<close>

definition JavaRef_obj :: "jvm \<Rightarrow> var \<Rightarrow> ptr outcome" where
  "JavaRef_obj j x =
     (case jv_vars j x of
        Some (ScopedJavaLocalRef env p) \<Rightarrow> Inr p
      | Some (ScopedJavaGlobalRef p) \<Rightarrow> Inr p
      | _ \<Rightarrow> Inl Undefined_Behaviour)"

definition JavaRef_is_null :: "jvm \<Rightarrow> var \<Rightarrow> bool outcome" where
  "JavaRef_is_null j x = obind (JavaRef_obj j x) (\<lambda>p. Inr (p = None))"

definition ScopedJavaLocalRef_new :: "var \<Rightarrow> jvm \<Rightarrow> jvm" where
  "ScopedJavaLocalRef_new x j = set_holder x (ScopedJavaLocalRef None None) j"

text \<open>The copy constructor takes \<open>env_\<close> of the other and ignores the one that \<open>SetNewLocalRef\<close> returns.\<close>

definition ScopedJavaLocalRef_copy :: "java_answers \<Rightarrow> thread_id \<Rightarrow> var \<Rightarrow> var \<Rightarrow> jvm \<Rightarrow> jvm outcome" where
  "ScopedJavaLocalRef_copy vm t x y j =
     obind (local_at j y) (\<lambda>(env, obj).
     obind (SetNewLocalRef vm t env obj None j) (\<lambda>(j1, e, q). Inr (set_holder x (ScopedJavaLocalRef env q) j1)))"

definition ScopedJavaLocalRef_Reset_obj ::
  "java_answers \<Rightarrow> thread_id \<Rightarrow> var \<Rightarrow> thread_id option \<Rightarrow> ptr \<Rightarrow> jvm \<Rightarrow> jvm outcome" where
  "ScopedJavaLocalRef_Reset_obj vm t x env obj j =
     obind (local_at j x) (\<lambda>(env', p).
     obind (SetNewLocalRef vm t env obj p j) (\<lambda>(j1, e, q). Inr (set_holder x (ScopedJavaLocalRef (Some e) q) j1)))"

text \<open>\<open>Reset(other)\<close> for another \<open>ScopedJavaLocalRef\<close>, which is the assignment operator too, and for a
  reference of another class.\<close>

definition ScopedJavaLocalRef_assign :: "java_answers \<Rightarrow> thread_id \<Rightarrow> var \<Rightarrow> var \<Rightarrow> jvm \<Rightarrow> jvm outcome" where
  "ScopedJavaLocalRef_assign vm t x y j =
     obind (local_at j y) (\<lambda>(env, obj). ScopedJavaLocalRef_Reset_obj vm t x env obj j)"

definition ScopedJavaLocalRef_Reset_from :: "java_answers \<Rightarrow> thread_id \<Rightarrow> var \<Rightarrow> var \<Rightarrow> jvm \<Rightarrow> jvm outcome" where
  "ScopedJavaLocalRef_Reset_from vm t x y j =
     obind (local_at j x) (\<lambda>(env, p).
     obind (JavaRef_obj j y) (\<lambda>obj. ScopedJavaLocalRef_Reset_obj vm t x env obj j))"

text \<open>The constructor from a reference of another type: it has the right one of these called.\<close>

definition ScopedJavaLocalRef_from :: "java_answers \<Rightarrow> thread_id \<Rightarrow> var \<Rightarrow> var \<Rightarrow> jvm \<Rightarrow> jvm outcome" where
  "ScopedJavaLocalRef_from vm t x y j =
     (case jv_vars j y of
        Some (ScopedJavaLocalRef _ _) \<Rightarrow> ScopedJavaLocalRef_assign vm t x y (ScopedJavaLocalRef_new x j)
      | _ \<Rightarrow> ScopedJavaLocalRef_Reset_from vm t x y (ScopedJavaLocalRef_new x j))"

text \<open>The constructor that takes over a local reference.\<close>

definition ScopedJavaLocalRef_take :: "thread_id \<Rightarrow> var \<Rightarrow> thread_id option \<Rightarrow> ptr \<Rightarrow> jvm \<Rightarrow> jvm outcome" where
  "ScopedJavaLocalRef_take t x env obj j =
     obind (JavaRef_new t env obj j) (\<lambda>p. Inr (set_holder x (ScopedJavaLocalRef env p) j))"

definition ScopedJavaLocalRef_Reset :: "java_answers \<Rightarrow> thread_id \<Rightarrow> var \<Rightarrow> jvm \<Rightarrow> jvm outcome" where
  "ScopedJavaLocalRef_Reset vm t x j =
     obind (local_at j x) (\<lambda>(env, p).
     obind (ResetLocalRef vm t env p j) (\<lambda>(j1, q). Inr (set_holder x (ScopedJavaLocalRef env q) j1)))"

definition ScopedJavaLocalRef_destroy :: "java_answers \<Rightarrow> thread_id \<Rightarrow> var \<Rightarrow> jvm \<Rightarrow> jvm outcome" where
  "ScopedJavaLocalRef_destroy vm t x j = obind (ScopedJavaLocalRef_Reset vm t x j) (\<lambda>j1. Inr (drop_holder x j1))"

definition ScopedJavaLocalRef_Release :: "var \<Rightarrow> jvm \<Rightarrow> (jvm \<times> ptr) outcome" where
  "ScopedJavaLocalRef_Release x j =
     obind (local_at j x) (\<lambda>(env, p). let (given, q) = ReleaseInternal p
     in Inr (set_holder x (ScopedJavaLocalRef env q) j, given))"

subsection \<open>ScopedJavaGlobalRef\<close>

definition global_at :: "jvm \<Rightarrow> var \<Rightarrow> ptr outcome" where
  "global_at j x = (case jv_vars j x of Some (ScopedJavaGlobalRef p) \<Rightarrow> Inr p | _ \<Rightarrow> Inl Undefined_Behaviour)"

definition ScopedJavaGlobalRef_new :: "var \<Rightarrow> jvm \<Rightarrow> jvm" where
  "ScopedJavaGlobalRef_new x j = set_holder x (ScopedJavaGlobalRef None) j"

definition ScopedJavaGlobalRef_Reset_obj ::
  "java_answers \<Rightarrow> thread_id \<Rightarrow> var \<Rightarrow> thread_id option \<Rightarrow> ptr \<Rightarrow> jvm \<Rightarrow> jvm outcome" where
  "ScopedJavaGlobalRef_Reset_obj vm t x env obj j =
     obind (global_at j x) (\<lambda>p.
     obind (SetNewGlobalRef vm t env obj p j) (\<lambda>(j1, q). Inr (set_holder x (ScopedJavaGlobalRef q) j1)))"

definition ScopedJavaGlobalRef_Reset_from :: "java_answers \<Rightarrow> thread_id \<Rightarrow> var \<Rightarrow> var \<Rightarrow> jvm \<Rightarrow> jvm outcome" where
  "ScopedJavaGlobalRef_Reset_from vm t x y j =
     obind (JavaRef_obj j y) (\<lambda>obj. ScopedJavaGlobalRef_Reset_obj vm t x None obj j)"

text \<open>The copy constructor and the one for other classes, and the one for an object.\<close>

definition ScopedJavaGlobalRef_from :: "java_answers \<Rightarrow> thread_id \<Rightarrow> var \<Rightarrow> var \<Rightarrow> jvm \<Rightarrow> jvm outcome" where
  "ScopedJavaGlobalRef_from vm t x y j =
     ScopedJavaGlobalRef_Reset_from vm t x y (ScopedJavaGlobalRef_new x j)"

definition ScopedJavaGlobalRef_of ::
  "java_answers \<Rightarrow> thread_id \<Rightarrow> var \<Rightarrow> thread_id option \<Rightarrow> ptr \<Rightarrow> jvm \<Rightarrow> jvm outcome" where
  "ScopedJavaGlobalRef_of vm t x env obj j =
     ScopedJavaGlobalRef_Reset_obj vm t x env obj (ScopedJavaGlobalRef_new x j)"

definition ScopedJavaGlobalRef_Reset :: "java_answers \<Rightarrow> thread_id \<Rightarrow> var \<Rightarrow> jvm \<Rightarrow> jvm outcome" where
  "ScopedJavaGlobalRef_Reset vm t x j =
     obind (global_at j x) (\<lambda>p.
     obind (ResetGlobalRef vm t p j) (\<lambda>(j1, q). Inr (set_holder x (ScopedJavaGlobalRef q) j1)))"

definition ScopedJavaGlobalRef_destroy :: "java_answers \<Rightarrow> thread_id \<Rightarrow> var \<Rightarrow> jvm \<Rightarrow> jvm outcome" where
  "ScopedJavaGlobalRef_destroy vm t x j = obind (ScopedJavaGlobalRef_Reset vm t x j) (\<lambda>j1. Inr (drop_holder x j1))"

definition ScopedJavaGlobalRef_Release :: "var \<Rightarrow> jvm \<Rightarrow> (jvm \<times> ptr) outcome" where
  "ScopedJavaGlobalRef_Release x j =
     obind (global_at j x) (\<lambda>p. let (given, q) = ReleaseInternal p
     in Inr (set_holder x (ScopedJavaGlobalRef q) j, given))"

subsection \<open>JavaObjectWeakGlobalRef\<close>

definition weak_at :: "jvm \<Rightarrow> var \<Rightarrow> ptr outcome" where
  "weak_at j x = (case jv_vars j x of Some (JavaObjectWeakGlobalRef p) \<Rightarrow> Inr p | _ \<Rightarrow> Inl Undefined_Behaviour)"

definition JavaObjectWeakGlobalRef_new :: "var \<Rightarrow> jvm \<Rightarrow> jvm" where
  "JavaObjectWeakGlobalRef_new x j = set_holder x (JavaObjectWeakGlobalRef None) j"

definition JavaObjectWeakGlobalRef_Assign :: "java_answers \<Rightarrow> thread_id \<Rightarrow> var \<Rightarrow> var \<Rightarrow> jvm \<Rightarrow> jvm outcome" where
  "JavaObjectWeakGlobalRef_Assign vm t x y j =
     (if y = x then obind (weak_at j x) (\<lambda>_. Inr j)
      else
        obind (weak_at j x) (\<lambda>p.
        obind (AttachCurrentThread vm t j) (\<lambda>(j1, env).
        obind (DeleteRef t WeakGlobalRef p j1) (\<lambda>j2.
        obind (weak_at j2 y) (\<lambda>obj.
        obind (NewRef vm t WeakGlobalRef obj j2) (\<lambda>(j3, q). Inr (set_holder x (JavaObjectWeakGlobalRef q) j3)))))))"

definition JavaObjectWeakGlobalRef_copy :: "java_answers \<Rightarrow> thread_id \<Rightarrow> var \<Rightarrow> var \<Rightarrow> jvm \<Rightarrow> jvm outcome" where
  "JavaObjectWeakGlobalRef_copy vm t x y j =
     JavaObjectWeakGlobalRef_Assign vm t x y (JavaObjectWeakGlobalRef_new x j)"

definition JavaObjectWeakGlobalRef_of ::
  "java_answers \<Rightarrow> thread_id \<Rightarrow> var \<Rightarrow> thread_id \<Rightarrow> ptr \<Rightarrow> jvm \<Rightarrow> jvm outcome" where
  "JavaObjectWeakGlobalRef_of vm t x env obj j =
     obind (defined (env = t)) (\<lambda>_.
     obind (NewRef vm t WeakGlobalRef obj j) (\<lambda>(j1, q).
     obind (check (q \<noteq> None)) (\<lambda>_. Inr (set_holder x (JavaObjectWeakGlobalRef q) j1))))"

definition JavaObjectWeakGlobalRef_reset :: "java_answers \<Rightarrow> thread_id \<Rightarrow> var \<Rightarrow> jvm \<Rightarrow> jvm outcome" where
  "JavaObjectWeakGlobalRef_reset vm t x j =
     obind (weak_at j x) (\<lambda>p.
     if p = None then Inr j
     else
       obind (AttachCurrentThread vm t j) (\<lambda>(j1, env).
       obind (DeleteRef t WeakGlobalRef p j1) (\<lambda>j2. Inr (set_holder x (JavaObjectWeakGlobalRef None) j2))))"

definition JavaObjectWeakGlobalRef_destroy :: "java_answers \<Rightarrow> thread_id \<Rightarrow> var \<Rightarrow> jvm \<Rightarrow> jvm outcome" where
  "JavaObjectWeakGlobalRef_destroy vm t x j =
     obind (JavaObjectWeakGlobalRef_reset vm t x j) (\<lambda>j1. Inr (drop_holder x j1))"

definition JavaObjectWeakGlobalRef_is_empty :: "jvm \<Rightarrow> var \<Rightarrow> bool outcome" where
  "JavaObjectWeakGlobalRef_is_empty j x = obind (weak_at j x) (\<lambda>p. Inr (p = None))"

text \<open>\<open>GetRealObject\<close> and \<open>get\<close>: the \<open>ScopedJavaLocalRef\<close> that is returned is made in the variable \<open>z\<close> of the caller.\<close>

definition GetRealObject :: "java_answers \<Rightarrow> thread_id \<Rightarrow> var \<Rightarrow> thread_id \<Rightarrow> ptr \<Rightarrow> jvm \<Rightarrow> jvm outcome" where
  "GetRealObject vm t z env obj j =
     obind (if obj = None then Inr (j, None) else obind (defined (env = t)) (\<lambda>_. NewRef vm t (LocalRef t) obj j)) (\<lambda>(j1, real).
     ScopedJavaLocalRef_take t z (Some env) real j1)"

definition JavaObjectWeakGlobalRef_get :: "java_answers \<Rightarrow> thread_id \<Rightarrow> var \<Rightarrow> var \<Rightarrow> thread_id \<Rightarrow> jvm \<Rightarrow> jvm outcome" where
  "JavaObjectWeakGlobalRef_get vm t z x env j = obind (weak_at j x) (\<lambda>p. GetRealObject vm t z env p j)"

subsection \<open>ScopedJavaLocalFrame\<close>

definition kDefaultLocalFrameCapacity :: int where
  "kDefaultLocalFrameCapacity = 16"

definition ScopedJavaLocalFrame_new :: "java_answers \<Rightarrow> thread_id \<Rightarrow> thread_id \<Rightarrow> int \<Rightarrow> jvm \<Rightarrow> jvm outcome" where
  "ScopedJavaLocalFrame_new vm t env capacity j =
     obind (defined (env = t \<and> t \<in> jv_attached j)) (\<lambda>_.
     obind (check (ja_frame vm capacity)) (\<lambda>_.
     Inr (j\<lparr>jv_frames := (jv_frames j)(t := {} # jv_frames j t)\<rparr>)))"

definition ScopedJavaLocalFrame_default :: "java_answers \<Rightarrow> thread_id \<Rightarrow> thread_id \<Rightarrow> jvm \<Rightarrow> jvm outcome" where
  "ScopedJavaLocalFrame_default vm t env = ScopedJavaLocalFrame_new vm t env kDefaultLocalFrameCapacity"

text \<open>\<open>PopLocalFrame(NULL)\<close> frees every reference of the frame.\<close>

definition ScopedJavaLocalFrame_destroy :: "thread_id \<Rightarrow> thread_id \<Rightarrow> jvm \<Rightarrow> jvm outcome" where
  "ScopedJavaLocalFrame_destroy t env j =
     obind (defined (env = t \<and> t \<in> jv_attached j)) (\<lambda>_.
     case jv_frames j t of
       [] \<Rightarrow> Inl Undefined_Behaviour
     | f # rest \<Rightarrow>
         Inr (j\<lparr>jv_refs := (\<lambda>h. if h \<in> f then None else jv_refs j h), jv_frames := (jv_frames j)(t := rest)\<rparr>))"

end
