(* ===== verification/Java_Reference_Laws.thy ===== *)
theory Java_Reference_Laws
  imports Java_References
begin

section \<open>Ownership of Java references\<close>

text \<open>
  What the reference classes of \<open>Java_References\<close> promise: a reference held by a variable is alive, of the
  kind and the thread of the variable, and held by that variable alone; no global or weak reference is
  alive that nobody holds. The primitives of the virtual machine are proved to keep this for any view \<open>V\<close> of
  the variables and a set \<open>R\<close> of references that are held outside of them, with their kinds; an operation
  takes a reference out of its variable, calls primitives, and puts a reference back.
\<close>

subsection \<open>The invariant\<close>

primrec holder_obj :: "holder \<Rightarrow> ptr" where
  "holder_obj (ScopedJavaLocalRef env p) = p"
| "holder_obj (ScopedJavaGlobalRef p) = p"
| "holder_obj (JavaObjectWeakGlobalRef p) = p"

primrec fits :: "holder \<Rightarrow> ref_kind \<Rightarrow> bool" where
  "fits (ScopedJavaLocalRef env p) k \<longleftrightarrow> (\<exists>t. env = Some t \<and> k = LocalRef t)"
| "fits (ScopedJavaGlobalRef p) k \<longleftrightarrow> k = GlobalRef"
| "fits (JavaObjectWeakGlobalRef p) k \<longleftrightarrow> k = WeakGlobalRef"

primrec local_kind :: "ref_kind \<Rightarrow> bool" where
  "local_kind (LocalRef t) \<longleftrightarrow> True"
| "local_kind GlobalRef \<longleftrightarrow> False"
| "local_kind WeakGlobalRef \<longleftrightarrow> False"

definition held :: "(var \<rightharpoonup> holder) \<Rightarrow> var \<rightharpoonup> ptr" where
  "held V x = map_option holder_obj (V x)"

definition jrefs_ok :: "jvm \<Rightarrow> bool" where
  "jrefs_ok j \<longleftrightarrow> g_jvm j \<and>
     (\<forall>h. jv_next j \<le> h \<longrightarrow> jv_refs j h = None) \<and>
     (\<forall>h t obj. jv_refs j h = Some (LocalRef t, obj) \<longrightarrow> t \<in> jv_attached j) \<and>
     (\<forall>t. tls_jni_detach j t \<noteq> None \<longrightarrow> t \<in> jv_attached j) \<and>
     (\<forall>h k obj. jv_refs j h = Some (k, obj) \<longrightarrow> k \<noteq> WeakGlobalRef \<longrightarrow> obj \<notin> jv_collected j) \<and>
     (\<forall>t f h. f \<in> set (jv_frames j t) \<longrightarrow> h \<in> f \<longrightarrow> h < jv_next j \<and> (\<forall>k obj. jv_refs j h = Some (k, obj) \<longrightarrow> k = LocalRef t))"

definition owned_ok :: "(nat \<rightharpoonup> ref_kind \<times> nat) \<Rightarrow> (var \<rightharpoonup> holder) \<Rightarrow> (nat \<times> ref_kind) set \<Rightarrow> bool" where
  "owned_ok refs V R \<longleftrightarrow>
     owns_ok (held V) (dom refs) \<and>
     (\<forall>x hl h. V x = Some hl \<longrightarrow> holder_obj hl = Some h \<longrightarrow> (\<exists>k obj. refs h = Some (k, obj) \<and> fits hl k)) \<and>
     (\<forall>h k. (h, k) \<in> R \<longrightarrow> unowned (held V) h \<and> (\<exists>obj. refs h = Some (k, obj))) \<and>
     (\<forall>h k obj. refs h = Some (k, obj) \<longrightarrow> \<not> local_kind k \<longrightarrow> \<not> unowned (held V) h \<or> (h, k) \<in> R)"

lemma owned_okI:
  assumes "owns_ok (held V) (dom refs)"
    and "\<And>x hl h. V x = Some hl \<Longrightarrow> holder_obj hl = Some h \<Longrightarrow> \<exists>k obj. refs h = Some (k, obj) \<and> fits hl k"
    and "\<And>h k. (h, k) \<in> R \<Longrightarrow> unowned (held V) h \<and> (\<exists>obj. refs h = Some (k, obj))"
    and "\<And>h k obj. refs h = Some (k, obj) \<Longrightarrow> \<not> local_kind k \<Longrightarrow> unowned (held V) h \<Longrightarrow> (h, k) \<in> R"
  shows "owned_ok refs V R"
  using assms unfolding owned_ok_def by blast

lemma owned_okD:
  assumes "owned_ok refs V R"
  shows "owns_ok (held V) (dom refs)"
    and "V x = Some hl \<Longrightarrow> holder_obj hl = Some h \<Longrightarrow> \<exists>k obj. refs h = Some (k, obj) \<and> fits hl k"
    and "(h, k) \<in> R \<Longrightarrow> unowned (held V) h \<and> (\<exists>obj. refs h = Some (k, obj))"
    and "refs h = Some (k, obj) \<Longrightarrow> \<not> local_kind k \<Longrightarrow> unowned (held V) h \<Longrightarrow> (h, k) \<in> R"
  using assms unfolding owned_ok_def by blast+

definition jv_ok :: "jvm \<Rightarrow> (var \<rightharpoonup> holder) \<Rightarrow> (nat \<times> ref_kind) set \<Rightarrow> bool" where
  "jv_ok j V R \<longleftrightarrow> jrefs_ok j \<and> owned_ok (jv_refs j) V R"

text \<open>A pointer with its kind, as a set.\<close>

definition tag :: "ref_kind \<Rightarrow> ptr \<Rightarrow> (nat \<times> ref_kind) set" where
  "tag k p = (\<lambda>h. (h, k)) ` set_option p"

lemma tag_simps [simp]: "tag k None = {}" "tag k (Some h) = {(h, k)}"
  by (simp_all add: tag_def)

definition works :: "java_answers \<Rightarrow> bool" where
  "works vm \<longleftrightarrow> (\<forall>t. ja_attach vm t) \<and> ja_setspecific vm = 0"

subsection \<open>Variables\<close>

lemma held_upd: "held (V(x \<mapsto> hl)) = (held V)(x \<mapsto> holder_obj hl)" "held (V(x := None)) = (held V)(x := None)"
  by (auto simp: held_def fun_eq_iff)

text \<open>A variable that holds nothing can be removed, or hold nothing in another way.\<close>

lemma none_upd:
  assumes "m x = None \<or> m x = Some None"
  shows "(m(x := None)) y = Some (Some h) \<longleftrightarrow> m y = Some (Some h)"
    and "(m(x \<mapsto> None)) y = Some (Some h) \<longleftrightarrow> m y = Some (Some h)"
    and "(m(x \<mapsto> Some a)) y = Some (Some h) \<longleftrightarrow> m y = Some (Some h) \<or> y = x \<and> h = a"
  using assms by (auto simp: fun_upd_apply)

lemma unowned_upd:
  assumes "held V x = None \<or> held V x = Some None"
  shows "unowned (held (V(x := None))) h \<longleftrightarrow> unowned (held V) h"
    and "holder_obj hl = None \<Longrightarrow> unowned (held (V(x \<mapsto> hl))) h \<longleftrightarrow> unowned (held V) h"
    and "holder_obj hl = Some a \<Longrightarrow> unowned (held (V(x \<mapsto> hl))) h \<longleftrightarrow> unowned (held V) h \<and> h \<noteq> a"
  unfolding held_upd unowned_def by (simp_all only: none_upd [where m = "held V", OF assms]) blast

lemma owned_ok_drop:
  assumes "owned_ok refs V R" and "held V x = None \<or> held V x = Some None"
  shows "owned_ok refs (V(x := None)) R" and "holder_obj hl = None \<Longrightarrow> owned_ok refs (V(x \<mapsto> hl)) R"
proof -
  show "owned_ok refs (V(x := None)) R"
    using assms(1) unfolding owned_ok_def unowned_upd(1) [OF assms(2)] by (auto simp: held_upd)
  show "owned_ok refs (V(x \<mapsto> hl)) R" if hl: "holder_obj hl = None"
    using assms(1) hl unfolding owned_ok_def unowned_upd(2) [OF assms(2) hl] by (auto simp: held_upd)
qed

text \<open>Taking the reference out of a variable.\<close>

lemma owned_ok_take:
  assumes "owned_ok refs V R" and "V x = Some hl" and "holder_obj hl = Some h" and "holder_obj hl' = None"
  obtains k obj where "fits hl k" and "refs h = Some (k, obj)" and "owned_ok refs (V(x \<mapsto> hl')) (insert (h, k) R)"
proof -
  from assms obtain k obj where k: "fits hl k" "refs h = Some (k, obj)" unfolding owned_ok_def by metis
  have x: "held V x = Some (Some h)" using assms(2,3) by (simp add: held_def)
  have u: "unowned (held (V(x \<mapsto> hl'))) a \<longleftrightarrow> unowned (held V) a \<or> a = h" for a
  proof -
    have "owns_ok (held V) (dom refs)" using assms(1) by (simp add: owned_ok_def)
    from owns_okD(2) [OF this] x assms(4) show ?thesis
      unfolding held_upd unowned_def by (metis fun_upd_apply option.distinct(1) option.inject)
  qed
  note D = owned_okD [OF assms(1)]
  have "owned_ok refs (V(x \<mapsto> hl')) (insert (h, k) R)"
  proof (rule owned_okI)
    show "owns_ok (held (V(x \<mapsto> hl'))) (dom refs)" using D(1) assms(4) by (auto simp: held_upd)
    show "\<exists>k obj. refs a = Some (k, obj) \<and> fits g k" if "(V(x \<mapsto> hl')) y = Some g" "holder_obj g = Some a" for y g a
      using that assms(4) D(2) [of y g a] by (auto split: if_splits)
    show "unowned (held (V(x \<mapsto> hl'))) a \<and> (\<exists>obj. refs a = Some (l, obj))" if "(a, l) \<in> insert (h, k) R" for a l
      using that D(3) [of a l] k(2) unfolding u by auto
    show "(a, l) \<in> insert (h, k) R" if "refs a = Some (l, obj')" "\<not> local_kind l" "unowned (held (V(x \<mapsto> hl'))) a" for a l obj'
      using that D(4) [of a l obj'] k(2) unfolding u by auto
  qed
  with k that show thesis by blast
qed

text \<open>Putting one into a variable that holds nothing.\<close>

lemma owned_ok_give:
  assumes "owned_ok refs V R" and "held V x = None \<or> held V x = Some None"
    and "(h, k) \<in> R" and "fits hl k" and "holder_obj hl = Some h"
  shows "owned_ok refs (V(x \<mapsto> hl)) (R - {(h, k)})"
proof -
  from assms(1,3) obtain obj where r: "refs h = Some (k, obj)" "unowned (held V) h" unfolding owned_ok_def by blast
  have "owns_ok (held (V(x \<mapsto> hl))) (dom refs)"
    using assms(1,5) r owns_ok_adopt [of "held V" "dom refs" h x] by (auto simp: owned_ok_def held_upd)
  moreover have "(a, l) \<in> R - {(h, k)} \<Longrightarrow> a \<noteq> h" for a l
    using assms(1) r(1) unfolding owned_ok_def by (metis DiffE insertI1 option.inject prod.inject)
  ultimately show ?thesis
    using assms(1,4,5) r unfolding owned_ok_def unowned_upd(3) [OF assms(2,5)] by auto
qed

lemma owned_ok_forget:
  assumes "owned_ok refs V (insert (h, LocalRef t) R)"
  shows "owned_ok refs V R"
  using assms unfolding owned_ok_def by (metis (no_types, lifting) insert_iff local_kind.simps(1) prod.inject)
subsection \<open>Primitives\<close>

lemma owned_ok_new:
  assumes "owned_ok refs V R" and "refs h = None"
  shows "owned_ok (refs(h \<mapsto> (k, obj))) V (insert (h, k) R)"
proof (rule owned_okI)
  note D = owned_okD [OF assms(1)]
  have h: "unowned (held V) h" using D(1) assms(2) owns_okD(1) [of "held V" "dom refs"] by (force simp: unowned_def)
  show "owns_ok (held V) (dom (refs(h \<mapsto> (k, obj))))" using D(1) by auto
  show "\<exists>k' obj'. (refs(h \<mapsto> (k, obj))) a = Some (k', obj') \<and> fits g k'" if "V y = Some g" "holder_obj g = Some a" for y g a
    using D(2) [OF that] assms(2) by auto
  show "unowned (held V) a \<and> (\<exists>obj'. (refs(h \<mapsto> (k, obj))) a = Some (l, obj'))" if "(a, l) \<in> insert (h, k) R" for a l
    using that D(3) [of a l] h assms(2) by auto
  show "(a, l) \<in> insert (h, k) R" if "(refs(h \<mapsto> (k, obj))) a = Some (l, obj')" "\<not> local_kind l" "unowned (held V) a" for a l obj'
    using that D(4) [of a l obj'] by (auto split: if_splits)
qed

text \<open>Deleting references that no variable holds and that are either local or in \<open>R\<close>.\<close>

lemma owned_ok_delete:
  assumes "owned_ok refs V R" and "\<And>h. h \<in> D \<Longrightarrow> unowned (held V) h"
  shows "owned_ok (\<lambda>h. if h \<in> D then None else refs h) V {(h, k). (h, k) \<in> R \<and> h \<notin> D}"
proof (rule owned_okI)
  note O = owned_okD [OF assms(1)]
  show "owns_ok (held V) (dom (\<lambda>h. if h \<in> D then None else refs h))"
    unfolding owns_ok_def
  proof (intro conjI allI impI)
    show "r \<in> dom (\<lambda>h. if h \<in> D then None else refs h)" if "held V y = Some (Some r)" for y r
      using that assms(2) [of r] owns_okD(1) [OF O(1) that] by (auto simp: unowned_def split: if_splits)
  qed (use owns_okD(2) [OF O(1)] in blast)
  show "\<exists>k obj. (if a \<in> D then None else refs a) = Some (k, obj) \<and> fits g k" if "V y = Some g" "holder_obj g = Some a" for y g a
  proof -
    have "held V y = Some (Some a)" using that by (simp add: held_def)
    then have "a \<notin> D" using assms(2) [of a] by (auto simp: unowned_def)
    with O(2) [OF that] show ?thesis by simp
  qed
  show "unowned (held V) a \<and> (\<exists>obj. (if a \<in> D then None else refs a) = Some (l, obj))"
    if "(a, l) \<in> {(h, k). (h, k) \<in> R \<and> h \<notin> D}" for a l
    using that O(3) [of a l] by simp
  show "(a, l) \<in> {(h, k). (h, k) \<in> R \<and> h \<notin> D}"
    if "(if a \<in> D then None else refs a) = Some (l, obj)" "\<not> local_kind l" "unowned (held V) a" for a l obj
    using that O(4) [of a l obj] by (simp split: if_splits)
qed

lemma jrefs_okD:
  assumes "jrefs_ok j"
  shows "g_jvm j" and "jv_next j \<le> h \<Longrightarrow> jv_refs j h = None"
    and "jv_refs j h = Some (LocalRef t, obj) \<Longrightarrow> t \<in> jv_attached j"
    and "tls_jni_detach j t \<noteq> None \<Longrightarrow> t \<in> jv_attached j"
    and "jv_refs j h = Some (k, obj) \<Longrightarrow> k \<noteq> WeakGlobalRef \<Longrightarrow> obj \<notin> jv_collected j"
    and "f \<in> set (jv_frames j t) \<Longrightarrow> h \<in> f \<Longrightarrow> h < jv_next j"
    and "f \<in> set (jv_frames j t) \<Longrightarrow> h \<in> f \<Longrightarrow> jv_refs j h = Some (k, obj) \<Longrightarrow> k = LocalRef t"
  using assms unfolding jrefs_ok_def by blast+

lemma jrefs_ok_delete:
  assumes "jrefs_ok j"
  shows "jrefs_ok (j\<lparr>jv_refs := (\<lambda>h. if h \<in> D then None else jv_refs j h)\<rparr>)"
  using assms unfolding jrefs_ok_def by simp

text \<open>Attaching a thread changes nothing else, and puts the thread among the attached ones.\<close>

lemma AttachCurrentThread_ok:
  assumes "works vm" and "jv_ok j V R"
  obtains j' where "AttachCurrentThread vm t j = Inr (j', t)" and "jv_ok j' V R" and "t \<in> jv_attached j'"
    and "jv_vars j' = jv_vars j" and "jv_refs j' = jv_refs j" and "jv_next j' = jv_next j" and "jv_collected j' = jv_collected j"
    and "jv_attached j \<subseteq> jv_attached j'"
proof (cases "t \<in> jv_attached j")
  case True
  with assms that [of j] show thesis by (simp add: AttachCurrentThread_def jv_ok_def jrefs_ok_def)
next
  case False
  let ?j = "j\<lparr>jv_attached := insert t (jv_attached j), tls_jni_detach := (tls_jni_detach j)(t := Some ())\<rparr>"
  have "tls_jni_detach j t = None" using False assms(2) jrefs_okD(4) [of j t] unfolding jv_ok_def by blast
  then have "AttachCurrentThread vm t j = Inr (?j, t)"
    using assms False by (simp add: AttachCurrentThread_def jv_ok_def jrefs_ok_def works_def ThreadLocalUniquePtr_get_def
        ThreadLocalPointer_get_def ThreadLocalUniquePtr_reset_def ThreadLocalPointer_swap_def)
  moreover have "jrefs_ok ?j" using assms(2) unfolding jv_ok_def jrefs_ok_def by simp
  ultimately show thesis using that [of ?j] assms(2) by (auto simp: jv_ok_def)
qed
lemma frames_note:
  "f \<in> set (note_frame k h fs t) \<Longrightarrow> a \<in> f \<Longrightarrow> (\<exists>f' \<in> set (fs t). a \<in> f') \<or> a = h \<and> k = LocalRef t"
  by (auto simp: note_frame_def split: ref_kind.splits list.splits if_splits)

lemma hand_out_refs_ok:
  assumes "jrefs_ok j" and "\<And>t. k = LocalRef t \<Longrightarrow> t \<in> jv_attached j" and "obj \<notin> jv_collected j"
  shows "jrefs_ok (fst (hand_out vm k obj j))"
proof (cases "ja_room vm (jv_next j)")
  case True
  let ?h = "jv_next j"
  note D = jrefs_okD [OF assms(1)]
  have "a < Suc ?h \<and> (\<forall>l obj'. ((jv_refs j)(?h \<mapsto> (k, obj))) a = Some (l, obj') \<longrightarrow> l = LocalRef t)"
    if "f \<in> set (note_frame k ?h (jv_frames j) t)" "a \<in> f" for t f a
    using frames_note [OF that] D(6,7) by (auto simp: less_Suc_eq)
  then show ?thesis
    using True D(1-5) assms(2,3) unfolding jrefs_ok_def by (simp add: hand_out_def Let_def) blast
next
  case False
  with assms(1) show ?thesis
    unfolding jrefs_ok_def by (simp add: hand_out_def Let_def less_Suc_eq)
qed

lemma hand_out_ok:
  assumes "jv_ok j V R" and "\<And>t. k = LocalRef t \<Longrightarrow> t \<in> jv_attached j" and "obj \<notin> jv_collected j"
    and "hand_out vm k obj j = (j', q)"
  shows "jv_ok j' V (R \<union> tag k q)" and "jv_vars j' = jv_vars j" and "jv_attached j' = jv_attached j"
    and "q \<noteq> None \<longleftrightarrow> ja_room vm (jv_next j)" and "q = Some h \<Longrightarrow> jv_refs j' h = Some (k, obj)"
    and "tag k q \<inter> R = {}"
proof -
  have "jrefs_ok j" "jv_refs j (jv_next j) = None" using assms(1) jrefs_okD(2) [of j "jv_next j"] by (auto simp: jv_ok_def)
  then have "jrefs_ok j'" "owned_ok (jv_refs j') V (R \<union> tag k q)"
    using hand_out_refs_ok [of j k obj vm] assms owned_ok_new [of "jv_refs j" V R "jv_next j" k obj]
    by (auto simp: hand_out_def Let_def jv_ok_def split: if_splits)
  then show "jv_ok j' V (R \<union> tag k q)" by (simp add: jv_ok_def)
  have "(jv_next j, k) \<notin> R"
    using assms(1) \<open>jv_refs j (jv_next j) = None\<close> owned_okD(3) [of "jv_refs j" V R "jv_next j" k] by (auto simp: jv_ok_def)
  then show "tag k q \<inter> R = {}" using assms(4) by (auto simp: hand_out_def Let_def split: if_splits)
qed (use assms(4) in \<open>auto simp: hand_out_def Let_def split: if_splits\<close>)

text \<open>A reference that may be passed to the virtual machine on thread \<open>t\<close>.\<close>

definition arg_ok :: "thread_id \<Rightarrow> ptr \<Rightarrow> jvm \<Rightarrow> bool" where
  "arg_ok t p j \<longleftrightarrow> (case p of None \<Rightarrow> True | Some h \<Rightarrow> usable t h j)"

lemma NewRef_ok:
  assumes "jv_ok j V R" and "t \<in> jv_attached j" and "arg_ok t p j" and "\<And>t'. k = LocalRef t' \<Longrightarrow> t' = t"
  obtains j' q where "NewRef vm t k p j = Inr (j', q)" and "jv_ok j' V (R \<union> tag k q)" and "tag k q \<inter> R = {}"
    and "jv_vars j' = jv_vars j" and "jv_attached j' = jv_attached j" and "q = None \<longrightarrow> p = None \<or> \<not> ja_room vm (jv_next j) \<or>
      snd (the (jv_refs j (the p))) \<in> jv_collected j"
    and "\<And>h. q = Some h \<Longrightarrow> jv_refs j' h = Some (k, snd (the (jv_refs j (the p))))"
proof (cases p)
  case None
  with assms that [of j None] show thesis by (simp add: NewRef_def)
next
  case (Some h)
  let ?obj = "snd (the (jv_refs j h))"
  show thesis
  proof (cases "?obj \<in> jv_collected j")
    case True
    with assms Some that [of j None] show thesis by (simp add: NewRef_def arg_ok_def Let_def)
  next
    case False
    obtain j' q where o: "hand_out vm k ?obj j = (j', q)" by (cases "hand_out vm k ?obj j")
    have k: "t' \<in> jv_attached j" if "k = LocalRef t'" for t' using assms(2,4) that by blast
    have "NewRef vm t k p j = Inr (j', q)" using assms Some False o by (simp add: NewRef_def arg_ok_def Let_def)
    with hand_out_ok [OF assms(1) k False o] Some show thesis by (intro that [of j' q]) auto
  qed
qed

lemma DeleteRef_ok:
  assumes "jv_ok j V R" and "t \<in> jv_attached j" and "tag k p \<subseteq> R"
  obtains j' where "DeleteRef t k p j = Inr j'" and "jv_ok j' V (R - tag k p)" and "jv_vars j' = jv_vars j"
    and "jv_attached j' = jv_attached j" and "\<And>h. p \<noteq> Some h \<Longrightarrow> jv_refs j' h = jv_refs j h"
    and "jv_collected j' = jv_collected j" and "jv_next j' = jv_next j"
proof (cases p)
  case None
  with assms that [of j] show thesis by (simp add: DeleteRef_def)
next
  case (Some h)
  let ?j = "j\<lparr>jv_refs := (jv_refs j)(h := None)\<rparr>"
  have h: "unowned (held V) h" "\<exists>obj. jv_refs j h = Some (k, obj)"
    using assms(1,3) Some owned_okD(3) [of "jv_refs j" V R h k] by (auto simp: jv_ok_def)
  have f: "(jv_refs j)(h := None) = (\<lambda>a. if a \<in> {h} then None else jv_refs j a)" by auto
  have "l = k" if "(h, l) \<in> R" for l
    using assms(1) h(2) owned_okD(3) [of "jv_refs j" V R h l] that by (auto simp: jv_ok_def)
  then have "{(a, l). (a, l) \<in> R \<and> a \<notin> {h}} = R - tag k p" using Some by auto
  then have "jv_ok ?j V (R - tag k p)"
    using assms(1) h(1) owned_ok_delete [of "jv_refs j" V R "{h}"] jrefs_ok_delete [of j "{h}"] unfolding f jv_ok_def by simp
  moreover have "DeleteRef t k p j = Inr ?j" using Some assms(2) h(2) by (simp add: DeleteRef_def)
  ultimately show thesis using that [of ?j] Some by auto
qed
lemma arg_ok_refs: "jv_refs j' = jv_refs j \<Longrightarrow> arg_ok t p j' = arg_ok t p j"
  by (simp add: arg_ok_def usable_def split: option.splits)

subsection \<open>JavaRef\<close>

text \<open>\<open>p\<close> is replaced by a new reference to what \<open>obj\<close> refers to.\<close>

lemma replace_ref:
  assumes "works vm" and "jv_ok j V (R \<union> tag k p)" and "tag k p \<inter> R = {}" and "arg_ok t obj j" and "\<And>t'. k = LocalRef t' \<Longrightarrow> t' = t"
  obtains j1 j2 j3 q where "AttachCurrentThread vm t j = Inr (j1, t)" and "NewRef vm t k obj j1 = Inr (j2, q)"
    and "DeleteRef t k p j2 = Inr j3" and "jv_ok j3 V (R \<union> tag k q)" and "tag k q \<inter> R = {}" and "jv_vars j3 = jv_vars j"
proof -
  obtain j1 where j1: "AttachCurrentThread vm t j = Inr (j1, t)" "jv_ok j1 V (R \<union> tag k p)" "t \<in> jv_attached j1"
    "jv_vars j1 = jv_vars j" "jv_refs j1 = jv_refs j"
    by (rule AttachCurrentThread_ok [OF assms(1,2), of t]) blast
  have a: "arg_ok t obj j1" using assms(4) arg_ok_refs [OF j1(5)] by simp
  obtain j2 q where j2: "NewRef vm t k obj j1 = Inr (j2, q)" "jv_ok j2 V (R \<union> tag k p \<union> tag k q)"
    "tag k q \<inter> (R \<union> tag k p) = {}" "jv_vars j2 = jv_vars j1" "jv_attached j2 = jv_attached j1"
    by (rule NewRef_ok [OF j1(2,3) a, of k vm]) (erule assms(5), blast)
  obtain j3 where j3: "DeleteRef t k p j2 = Inr j3" "jv_ok j3 V (R \<union> tag k p \<union> tag k q - tag k p)" "jv_vars j3 = jv_vars j2"
    by (rule DeleteRef_ok [OF j2(2), of t k p]) (use j1(3) j2(5) in auto)
  have "R \<union> tag k p \<union> tag k q - tag k p = R \<union> tag k q" using assms(3) j2(3) by blast
  with j3(2) have "jv_ok j3 V (R \<union> tag k q)" by simp
  with j1(1,4) j2(1,3,4) j3(1,3) show thesis by (intro that [of j1 j2 q j3]) auto
qed

lemma SetNewLocalRef_ok:
  assumes "works vm" and "jv_ok j V (R \<union> tag (LocalRef t) p)" and "tag (LocalRef t) p \<inter> R = {}" and "arg_ok t obj j"
    and "env = None \<or> env = Some t"
  obtains j' q where "SetNewLocalRef vm t env obj p j = Inr (j', t, q)"
    and "jv_ok j' V (R \<union> tag (LocalRef t) q)" and "tag (LocalRef t) q \<inter> R = {}" and "jv_vars j' = jv_vars j"
proof -
  obtain j1 j2 j3 q where "AttachCurrentThread vm t j = Inr (j1, t)"
    "NewRef vm t (LocalRef t) obj j1 = Inr (j2, q)" "DeleteRef t (LocalRef t) p j2 = Inr j3"
    "jv_ok j3 V (R \<union> tag (LocalRef t) q)" "tag (LocalRef t) q \<inter> R = {}" "jv_vars j3 = jv_vars j"
    by (rule replace_ref [OF assms(1-4)]) (simp, blast)
  with assms(5) that show thesis by (auto simp: SetNewLocalRef_def)
qed

lemma SetNewGlobalRef_ok:
  assumes "works vm" and "jv_ok j V (R \<union> tag GlobalRef p)" and "tag GlobalRef p \<inter> R = {}" and "arg_ok t obj j"
    and "env = None \<or> env = Some t"
  obtains j' q where "SetNewGlobalRef vm t env obj p j = Inr (j', q)"
    and "jv_ok j' V (R \<union> tag GlobalRef q)" and "tag GlobalRef q \<inter> R = {}" and "jv_vars j' = jv_vars j"
proof -
  obtain j1 j2 j3 q where "AttachCurrentThread vm t j = Inr (j1, t)"
    "NewRef vm t GlobalRef obj j1 = Inr (j2, q)" "DeleteRef t GlobalRef p j2 = Inr j3"
    "jv_ok j3 V (R \<union> tag GlobalRef q)" "tag GlobalRef q \<inter> R = {}" "jv_vars j3 = jv_vars j"
    by (rule replace_ref [OF assms(1-4)]) (simp, blast)
  with assms(5) that show thesis by (auto simp: SetNewGlobalRef_def)
qed

lemma reset_ref:
  assumes "works vm" and "jv_ok j V (R \<union> tag k p)" and "tag k p \<inter> R = {}"
  obtains j1 j2 where "AttachCurrentThread vm t j = Inr (j1, t)" and "DeleteRef t k p j1 = Inr j2"
    and "jv_ok j2 V R" and "jv_vars j2 = jv_vars j" and "t \<in> jv_attached j2"
    and "\<And>h. p \<noteq> Some h \<Longrightarrow> jv_refs j2 h = jv_refs j h"
proof -
  obtain j1 where j1: "AttachCurrentThread vm t j = Inr (j1, t)" "jv_ok j1 V (R \<union> tag k p)" "t \<in> jv_attached j1"
    "jv_vars j1 = jv_vars j" "jv_refs j1 = jv_refs j"
    by (rule AttachCurrentThread_ok [OF assms(1,2), of t]) blast
  obtain j2 where j2: "DeleteRef t k p j1 = Inr j2" "jv_ok j2 V (R \<union> tag k p - tag k p)" "jv_vars j2 = jv_vars j1"
    "jv_attached j2 = jv_attached j1" "\<And>h. p \<noteq> Some h \<Longrightarrow> jv_refs j2 h = jv_refs j1 h"
    by (rule DeleteRef_ok [OF j1(2,3), of k p]) (simp, blast)
  have "R \<union> tag k p - tag k p = R" using assms(3) by blast
  with j1 j2 show thesis by (intro that [of j1 j2]) simp_all
qed

lemma ResetLocalRef_ok:
  assumes "works vm" and "jv_ok j V (R \<union> tag (LocalRef t) p)" and "tag (LocalRef t) p \<inter> R = {}" and "p = None \<or> env = Some t"
  obtains j' where "ResetLocalRef vm t env p j = Inr (j', None)" and "jv_ok j' V R" and "jv_vars j' = jv_vars j"
proof (cases "p = None")
  case True
  with assms(2) that [of j] show thesis by (simp add: ResetLocalRef_def)
next
  case False
  obtain j1 j2 where "AttachCurrentThread vm t j = Inr (j1, t)" "DeleteRef t (LocalRef t) p j1 = Inr j2"
    "jv_ok j2 V R" "jv_vars j2 = jv_vars j"
    by (rule reset_ref [OF assms(1-3)]) blast
  with False assms(4) that [of j2] show thesis by (auto simp: ResetLocalRef_def)
qed

lemma ResetGlobalRef_ok:
  assumes "works vm" and "jv_ok j V (R \<union> tag GlobalRef p)" and "tag GlobalRef p \<inter> R = {}"
  obtains j' where "ResetGlobalRef vm t p j = Inr (j', None)" and "jv_ok j' V R" and "jv_vars j' = jv_vars j"
proof (cases "p = None")
  case True
  with assms(2) that [of j] show thesis by (simp add: ResetGlobalRef_def)
next
  case False
  obtain j1 j2 where "AttachCurrentThread vm t j = Inr (j1, t)" "DeleteRef t GlobalRef p j1 = Inr j2"
    "jv_ok j2 V R" "jv_vars j2 = jv_vars j"
    by (rule reset_ref [OF assms]) blast
  with False that [of j2] show thesis by (auto simp: ResetGlobalRef_def)
qed

end
