(* ===== verification/Utf_Conversion.thy ===== *)
theory Utf_Conversion
  imports Env_Prelude
begin

section \<open>Conversion between UTF-8 and UTF-16\<close>

text \<open>
  \<open>app/src/main/cpp/string_conversion.{h,cc}\<close> and the converters of \<open>jni_string.hpp\<close>, with their copies under
  \<open>CheckEnv/src/main/cpp\<close>. Both use \<open>std::wstring_convert\<close> with the facet \<open>std::codecvt_utf8_utf16\<close> of
  the C++ library, which is modelled by way of the code points: \<open>None\<close> is the \<open>std::range_error\<close> that it
  throws for a text that is not well formed. The converters of \<open>string_conversion.cc\<close> pass only the address
  of the first character, so that the text ends at its first zero.
\<close>

subsection \<open>The facet: code points\<close>

type_synonym char16 = "16 word"

definition surrogate :: "nat \<Rightarrow> bool" where
  "surrogate p \<longleftrightarrow> 0xD800 \<le> p \<and> p < 0xE000"

definition code_point :: "nat \<Rightarrow> bool" where
  "code_point p \<longleftrightarrow> p < 0x110000 \<and> \<not> surrogate p"

definition byte_of :: "nat \<Rightarrow> byte" where "byte_of n = word_of_nat n"

definition unit_of :: "nat \<Rightarrow> char16" where "unit_of n = word_of_nat n"

text \<open>The UTF-8 form of a code point, and the bytes that continue one.\<close>

definition utf8_bytes :: "nat \<Rightarrow> byte list" where
  "utf8_bytes p =
     map byte_of
       (if p < 0x80 then [p]
        else if p < 0x800 then [0xC0 + p div 64, 0x80 + p mod 64]
        else if p < 0x10000 then [0xE0 + p div 4096, 0x80 + p div 64 mod 64, 0x80 + p mod 64]
        else [0xF0 + p div 262144, 0x80 + p div 4096 mod 64, 0x80 + p div 64 mod 64, 0x80 + p mod 64])"

definition continues :: "byte \<Rightarrow> bool" where
  "continues b \<longleftrightarrow> 0x80 \<le> unat b \<and> unat b < 0xC0"

fun utf8_points :: "byte list \<Rightarrow> nat list option" where
  "utf8_points [] = Some []"
| "utf8_points (a # bs) =
     (let n = unat a in
      if n < 0x80 then map_option (Cons n) (utf8_points bs)
      else if n < 0xC2 then None
      else if n < 0xE0 then
        (case bs of
           b # rest \<Rightarrow>
             let p = (n - 0xC0) * 64 + (unat b - 0x80) in
             if continues b then map_option (Cons p) (utf8_points rest) else None
         | _ \<Rightarrow> None)
      else if n < 0xF0 then
        (case bs of
           b # c # rest \<Rightarrow>
             let p = ((n - 0xE0) * 64 + (unat b - 0x80)) * 64 + (unat c - 0x80) in
             if continues b \<and> continues c \<and> 0x800 \<le> p \<and> \<not> surrogate p
             then map_option (Cons p) (utf8_points rest) else None
         | _ \<Rightarrow> None)
      else if n < 0xF5 then
        (case bs of
           b # c # d # rest \<Rightarrow>
             let p = (((n - 0xF0) * 64 + (unat b - 0x80)) * 64 + (unat c - 0x80)) * 64 + (unat d - 0x80) in
             if continues b \<and> continues c \<and> continues d \<and> 0x10000 \<le> p \<and> p < 0x110000
             then map_option (Cons p) (utf8_points rest) else None
         | _ \<Rightarrow> None)
      else None)"

text \<open>UTF-16: a code point above the basic plane is a high and a low surrogate.\<close>

definition utf16_units :: "nat \<Rightarrow> char16 list" where
  "utf16_units p =
     map unit_of
       (if p < 0x10000 then [p] else [0xD800 + (p - 0x10000) div 1024, 0xDC00 + (p - 0x10000) mod 1024])"

fun utf16_points :: "char16 list \<Rightarrow> nat list option" where
  "utf16_points [] = Some []"
| "utf16_points (a # ws) =
     (let n = unat a in
      if \<not> surrogate n then map_option (Cons n) (utf16_points ws)
      else if n < 0xDC00 then
        (case ws of
           w # rest \<Rightarrow>
             if 0xDC00 \<le> unat w \<and> unat w < 0xE000
             then map_option (Cons (0x10000 + (n - 0xD800) * 1024 + (unat w - 0xDC00))) (utf16_points rest) else None
         | _ \<Rightarrow> None)
      else None)"

definition to_bytes :: "char16 list \<Rightarrow> byte list option" where
  "to_bytes ws = map_option (\<lambda>ps. concat (map utf8_bytes ps)) (utf16_points ws)"

definition from_bytes :: "byte list \<Rightarrow> char16 list option" where
  "from_bytes bs = map_option (\<lambda>ps. concat (map utf16_units ps)) (utf8_points bs)"

subsection \<open>The converters\<close>

text \<open>\<open>string.data()\<close> passed as a pointer to a text that ends at the first zero. The text of a
  \<open>string_view\<close> need not have one behind it; the callers pass whole strings, which do.\<close>

definition until_zero :: "'a::zero list \<Rightarrow> 'a list" where
  "until_zero xs = takeWhile (\<lambda>x. x \<noteq> 0) xs"

definition Utf16ToUtf8 :: "char16 list \<Rightarrow> byte list option" where
  "Utf16ToUtf8 s = to_bytes (until_zero s)"

definition Utf8ToUtf16 :: "byte list \<Rightarrow> char16 list option" where
  "Utf8ToUtf16 s = from_bytes (until_zero s)"

definition UTF16StringToUTF8String :: "char16 list \<Rightarrow> byte list option" where
  "UTF16StringToUTF8String s = to_bytes s"

definition UTF8StringToUTF16String :: "byte list \<Rightarrow> char16 list option" where
  "UTF8StringToUTF16String s = from_bytes s"

subsection \<open>Laws\<close>

lemma unat_byte: "n < 256 \<Longrightarrow> unat (byte_of n) = n"
  by (simp add: byte_of_def unsigned_of_nat take_bit_nat_eq_self)

lemma unat_char16: "n < 65536 \<Longrightarrow> unat (unit_of n) = n"
  by (simp add: unit_of_def unsigned_of_nat take_bit_nat_eq_self)

lemma unat_byte_less: "unat (b :: byte) < 256"
  using unsigned_less [of b] by simp

lemma unat_char16_less: "unat (w :: char16) < 65536"
  using unsigned_less [of w] by simp

text \<open>Decoding what was encoded.\<close>

lemma utf8_points_bytes:
  assumes "code_point p"
  shows "utf8_points (utf8_bytes p @ bs) = map_option (Cons p) (utf8_points bs)"
proof -
  consider "p < 0x80" | "0x80 \<le> p" "p < 0x800" | "0x800 \<le> p" "p < 0x10000" | "0x10000 \<le> p" by linarith
  then show ?thesis
  proof cases
    case 1
    then show ?thesis by (simp add: utf8_bytes_def unat_byte)
  next
    case 2
    then have d: "p div 64 < 32" "2 \<le> p div 64" by auto
    have "(0xC0 + p div 64 - 0xC0) * 64 + (0x80 + p mod 64 - 0x80) = p" by simp
    with 2 d show ?thesis by (simp add: utf8_bytes_def unat_byte continues_def)
  next
    case 3
    then have d: "p div 4096 < 16" by auto
    have "p div 64 = p div 4096 * 64 + p div 64 mod 64" by (simp add: div_mult2_eq [of p 64 64, simplified])
    then have e: "(p div 4096 * 64 + p div 64 mod 64) * 64 + p mod 64 = p" by (metis div_mult_mod_eq)
    from 3 d e assms show ?thesis by (simp add: utf8_bytes_def unat_byte continues_def code_point_def)
  next
    case 4
    with assms have d: "p div 262144 < 5" by (auto simp: code_point_def)
    have "p div 4096 = p div 262144 * 64 + p div 4096 mod 64" by (simp add: div_mult2_eq [of p 4096 64, simplified])
    moreover have "p div 64 = p div 4096 * 64 + p div 64 mod 64" by (simp add: div_mult2_eq [of p 64 64, simplified])
    ultimately have e: "((p div 262144 * 64 + p div 4096 mod 64) * 64 + p div 64 mod 64) * 64 + p mod 64 = p"
      by (metis div_mult_mod_eq)
    from 4 d e assms show ?thesis by (simp add: utf8_bytes_def unat_byte continues_def code_point_def)
  qed
qed

lemma utf16_points_units:
  assumes "code_point p"
  shows "utf16_points (utf16_units p @ ws) = map_option (Cons p) (utf16_points ws)"
proof (cases "p < 0x10000")
  case True
  with assms show ?thesis by (simp add: utf16_units_def unat_char16 code_point_def)
next
  case False
  with assms have d: "(p - 0x10000) div 1024 < 1024" by (auto simp: code_point_def div_less_iff_less_mult)
  from False d show ?thesis by (simp add: utf16_units_def unat_char16 surrogate_def)
qed

lemma utf8_points_encode:
  "\<forall>p \<in> set ps. code_point p \<Longrightarrow> utf8_points (concat (map utf8_bytes ps)) = Some ps"
  by (induction ps) (auto simp: utf8_points_bytes)

lemma utf16_points_encode:
  "\<forall>p \<in> set ps. code_point p \<Longrightarrow> utf16_points (concat (map utf16_units ps)) = Some ps"
  by (induction ps) (auto simp: utf16_points_units)
text \<open>Encoding what was decoded.\<close>

lemma byte_of_unat [simp]: "byte_of (unat a) = a"
  by (simp add: byte_of_def)

lemma unit_of_unat [simp]: "unit_of (unat w) = w"
  by (simp add: unit_of_def)

lemma split_base: "m < b \<Longrightarrow> (k * b + m) div b = k" "m < b \<Longrightarrow> (k * b + m) mod b = m" for k m b :: nat
  by auto

lemma low_bits: "continues b \<Longrightarrow> unat b - 0x80 < 64" "continues b \<Longrightarrow> byte_of (0x80 + (unat b - 0x80)) = b"
  by (auto simp: continues_def)

lemma utf8_bytes_1: "unat a < 0x80 \<Longrightarrow> utf8_bytes (unat a) = [a] \<and> code_point (unat a)"
  by (simp add: utf8_bytes_def code_point_def surrogate_def)

lemma utf8_bytes_2:
  assumes "0xC2 \<le> unat a" "unat a < 0xE0" "continues b"
  shows "utf8_bytes ((unat a - 0xC0) * 64 + (unat b - 0x80)) = [a, b] \<and> code_point ((unat a - 0xC0) * 64 + (unat b - 0x80))"
    (is "utf8_bytes ?p = _ \<and> _")
proof -
  note m = low_bits [OF assms(3)]
  have "?p div 64 = unat a - 0xC0" "?p mod 64 = unat b - 0x80" using split_base [OF m(1)] by auto
  moreover have "0x80 \<le> ?p" "?p < 0x800" using assms m(1) by auto
  ultimately show ?thesis using assms m by (simp add: utf8_bytes_def code_point_def surrogate_def)
qed

lemma utf8_bytes_3:
  assumes "0xE0 \<le> unat a" "unat a < 0xF0" "continues b" "continues c"
    and "0x800 \<le> p" "\<not> surrogate p" "p = ((unat a - 0xE0) * 64 + (unat b - 0x80)) * 64 + (unat c - 0x80)"
  shows "utf8_bytes p = [a, b, c] \<and> code_point p"
proof -
  note m = low_bits [OF assms(3)] and n = low_bits [OF assms(4)]
  have d: "p div 64 = (unat a - 0xE0) * 64 + (unat b - 0x80)" "p mod 64 = unat c - 0x80"
    unfolding assms(7) by (rule split_base [OF n(1)])+
  have "p div 4096 = p div 64 div 64" by (simp add: div_mult2_eq [of p 64 64, simplified])
  then have "p div 4096 = unat a - 0xE0" "p div 64 mod 64 = unat b - 0x80"
    unfolding d(1) by (simp_all only: split_base [OF m(1)])
  moreover have "p < 0x10000" using assms(2,7) m(1) n(1) by auto
  moreover have "byte_of (0xE0 + (unat a - 0xE0)) = a" using assms(1) by simp
  ultimately show ?thesis using assms(5,6) m(2) n(2) d(2) by (simp add: utf8_bytes_def code_point_def)
qed

lemma utf8_bytes_4:
  assumes "0xF0 \<le> unat a" "unat a < 0xF5" "continues b" "continues c" "continues d"
    and "0x10000 \<le> p" "p < 0x110000"
    and "p = (((unat a - 0xF0) * 64 + (unat b - 0x80)) * 64 + (unat c - 0x80)) * 64 + (unat d - 0x80)"
  shows "utf8_bytes p = [a, b, c, d] \<and> code_point p"
proof -
  note m = low_bits [OF assms(3)] and n = low_bits [OF assms(4)] and l = low_bits [OF assms(5)]
  have e: "p div 64 = ((unat a - 0xF0) * 64 + (unat b - 0x80)) * 64 + (unat c - 0x80)" "p mod 64 = unat d - 0x80"
    unfolding assms(8) by (rule split_base [OF l(1)])+
  have "p div 4096 = p div 64 div 64" by (simp add: div_mult2_eq [of p 64 64, simplified])
  then have f: "p div 4096 = (unat a - 0xF0) * 64 + (unat b - 0x80)" "p div 64 mod 64 = unat c - 0x80"
    unfolding e(1) by (simp_all only: split_base [OF n(1)])
  have "p div 262144 = p div 4096 div 64" by (simp add: div_mult2_eq [of p 4096 64, simplified])
  then have "p div 262144 = unat a - 0xF0" "p div 4096 mod 64 = unat b - 0x80"
    unfolding f(1) by (simp_all only: split_base [OF m(1)])
  moreover have "byte_of (0xF0 + (unat a - 0xF0)) = a" using assms(1) by simp
  ultimately show ?thesis using assms(6,7) m(2) n(2) l(2) e(2) f(2)
    by (simp add: utf8_bytes_def code_point_def surrogate_def)
qed

lemma utf8_encode_points:
  "utf8_points bs = Some ps \<Longrightarrow> concat (map utf8_bytes ps) = bs \<and> (\<forall>p \<in> set ps. code_point p)"
proof (induction bs arbitrary: ps rule: utf8_points.induct)
  case (2 a bs)
  note IH = "2.IH" [OF refl]
  consider "unat a < 0x80" | "0xC2 \<le> unat a" "unat a < 0xE0" | "0xE0 \<le> unat a" "unat a < 0xF0" | "0xF0 \<le> unat a" "unat a < 0xF5"
    using "2.prems" by (simp add: Let_def split: if_splits)
  then show ?case
  proof cases
    case 1
    with "2.prems" IH(1) utf8_bytes_1 [OF 1] show ?thesis by auto
  next
    case c: 2
    with "2.prems" obtain b rest qs where b: "bs = b # rest" "continues b" "utf8_points rest = Some qs"
      and ps: "ps = ((unat a - 0xC0) * 64 + (unat b - 0x80)) # qs"
      by (auto simp: Let_def split: list.splits if_splits)
    have "concat (map utf8_bytes qs) = rest \<and> (\<forall>p \<in> set qs. code_point p)"
      using IH(2) [OF _ _ _ b(1) refl b(2) b(3)] c by simp
    with utf8_bytes_2 [OF c b(2)] b(1) ps show ?thesis by simp
  next
    case c: 3
    with "2.prems" obtain b d rest qs p where b: "bs = b # d # rest" "continues b" "continues d" "utf8_points rest = Some qs"
      and p: "p = ((unat a - 0xE0) * 64 + (unat b - 0x80)) * 64 + (unat d - 0x80)" "0x800 \<le> p" "\<not> surrogate p"
      and ps: "ps = p # qs"
      by (auto simp: Let_def split: list.splits if_splits)
    have "concat (map utf8_bytes qs) = rest \<and> (\<forall>p \<in> set qs. code_point p)"
      by (rule IH(3) [OF _ _ _ _ b(1) refl p(1) _ b(4)]) (use c b p(2,3) in simp_all)
    with utf8_bytes_3 [OF c b(2,3) p(2,3,1)] b(1) ps show ?thesis by simp
  next
    case c: 4
    with "2.prems" obtain b d e rest qs p where b: "bs = b # d # e # rest" "continues b" "continues d" "continues e"
      "utf8_points rest = Some qs"
      and p: "p = (((unat a - 0xF0) * 64 + (unat b - 0x80)) * 64 + (unat d - 0x80)) * 64 + (unat e - 0x80)"
      "0x10000 \<le> p" "p < 0x110000" and ps: "ps = p # qs"
      by (auto simp: Let_def split: list.splits if_splits)
    have "concat (map utf8_bytes qs) = rest \<and> (\<forall>p \<in> set qs. code_point p)"
      by (rule IH(4) [OF _ _ _ _ _ b(1) refl refl p(1) _ b(5)]) (use c b p(2,3) in simp_all)
    with utf8_bytes_4 [OF c b(2-4) p(2,3,1)] b(1) ps show ?thesis by simp
  qed
qed simp
lemma utf16_units_pair:
  assumes "0xD800 \<le> unat a" "unat a < 0xDC00" "0xDC00 \<le> unat w" "unat w < 0xE000"
    and "p = 0x10000 + (unat a - 0xD800) * 1024 + (unat w - 0xDC00)"
  shows "utf16_units p = [a, w] \<and> code_point p"
proof -
  have l: "unat w - 0xDC00 < 1024" using assms(3,4) by simp
  have "p - 0x10000 = (unat a - 0xD800) * 1024 + (unat w - 0xDC00)" unfolding assms(5) by simp
  then have "(p - 0x10000) div 1024 = unat a - 0xD800" "(p - 0x10000) mod 1024 = unat w - 0xDC00"
    using split_base [OF l] by simp_all
  moreover have "0x10000 \<le> p" "p < 0x110000" using assms by auto
  moreover have "unit_of (0xD800 + (unat a - 0xD800)) = a" "unit_of (0xDC00 + (unat w - 0xDC00)) = w"
    using assms(1,3) by simp_all
  ultimately show ?thesis by (simp add: utf16_units_def code_point_def surrogate_def)
qed

lemma utf16_encode_points:
  "utf16_points ws = Some ps \<Longrightarrow> concat (map utf16_units ps) = ws \<and> (\<forall>p \<in> set ps. code_point p)"
proof (induction ws arbitrary: ps rule: utf16_points.induct)
  case (2 a ws)
  note IH = "2.IH" [OF refl]
  show ?case
  proof (cases "surrogate (unat a)")
    case False
    with "2.prems" obtain qs where "utf16_points ws = Some qs" "ps = unat a # qs" by auto
    with False IH(1) unat_char16_less [of a] show ?thesis by (auto simp: utf16_units_def code_point_def)
  next
    case True
    with "2.prems" obtain w rest qs p where w: "ws = w # rest" "0xDC00 \<le> unat w" "unat w < 0xE000" "utf16_points rest = Some qs"
      and p: "p = 0x10000 + (unat a - 0xD800) * 1024 + (unat w - 0xDC00)" and a: "unat a < 0xDC00" and ps: "ps = p # qs"
      by (auto simp: Let_def split: list.splits if_splits)
    have "concat (map utf16_units qs) = rest \<and> (\<forall>p \<in> set qs. code_point p)"
      by (rule IH(2) [OF _ _ w(1) _ w(4)]) (use True a w in simp_all)
    moreover have "0xD800 \<le> unat a" using True by (simp add: surrogate_def)
    ultimately show ?thesis using utf16_units_pair [OF _ a w(2,3) p] w(1) ps by simp
  qed
qed simp

lemma conversions_inverse: "from_bytes bs = Some ws \<longleftrightarrow> to_bytes ws = Some bs"
  by (auto simp: from_bytes_def to_bytes_def utf8_points_encode utf16_points_encode
      dest!: utf8_encode_points utf16_encode_points)

text \<open>Only the code point zero has a zero in its form.\<close>

lemma zero_in_utf8_bytes: "code_point p \<Longrightarrow> 0 \<in> set (utf8_bytes p) \<longleftrightarrow> p = 0"
proof -
  have z: "byte_of n = 0 \<longleftrightarrow> n = 0" if "n < 256" for n
    using unat_byte [OF that] by (metis byte_of_unat unat_eq_zero)
  show "code_point p \<Longrightarrow> 0 \<in> set (utf8_bytes p) \<longleftrightarrow> p = 0"
    by (auto simp: utf8_bytes_def z code_point_def eq_commute [of "0 :: byte"] less_mult_imp_div_less)
qed

lemma zero_in_utf16_units: "code_point p \<Longrightarrow> 0 \<in> set (utf16_units p) \<longleftrightarrow> p = 0"
proof -
  have z: "unit_of n = 0 \<longleftrightarrow> n = 0" if "n < 65536" for n
    using unat_char16 [OF that] by (metis unit_of_unat unat_eq_zero)
  show "code_point p \<Longrightarrow> 0 \<in> set (utf16_units p) \<longleftrightarrow> p = 0"
    by (auto simp: utf16_units_def z code_point_def eq_commute [of "0 :: char16"] div_less_iff_less_mult)
qed

lemma zero_kept: "from_bytes bs = Some ws \<Longrightarrow> 0 \<in> set ws \<longleftrightarrow> 0 \<in> set bs"
  by (auto simp: from_bytes_def zero_in_utf16_units zero_in_utf8_bytes dest!: utf8_encode_points)

lemma until_zero_id: "0 \<notin> set xs \<Longrightarrow> until_zero xs = xs"
  by (auto simp: until_zero_def takeWhile_eq_all_conv)

lemma until_zero_no_zero [simp]: "0 \<notin> set (until_zero xs)"
  by (auto simp: until_zero_def dest: set_takeWhileD)
lemma from_bytes_defined:
  "from_bytes bs \<noteq> None \<longleftrightarrow> (\<exists>ps. list_all code_point ps \<and> bs = concat (map utf8_bytes ps))"
  by (auto simp: from_bytes_def list_all_iff utf8_points_encode dest!: utf8_encode_points)

lemma to_bytes_defined:
  "to_bytes ws \<noteq> None \<longleftrightarrow> (\<exists>ps. list_all code_point ps \<and> ws = concat (map utf16_units ps))"
  by (auto simp: to_bytes_def list_all_iff utf16_points_encode dest!: utf16_encode_points)

text \<open>C29: the conversions. The converters of \<open>jni_string.hpp\<close> are inverse to each other and succeed exactly
  on the encodings of code points: overlong forms, surrogates in UTF-8 and unpaired surrogates throw.
  Those of \<open>string_conversion.cc\<close> are inverse to each other up to the first zero, at which they cut off.\<close>

theorem utf_conversions:
  "(UTF8StringToUTF16String bs = Some ws \<longleftrightarrow> UTF16StringToUTF8String ws = Some bs) \<and>
   (UTF8StringToUTF16String bs \<noteq> None \<longleftrightarrow> (\<exists>ps. list_all code_point ps \<and> bs = concat (map utf8_bytes ps))) \<and>
   (UTF16StringToUTF8String ws \<noteq> None \<longleftrightarrow> (\<exists>ps. list_all code_point ps \<and> ws = concat (map utf16_units ps))) \<and>
   (Utf8ToUtf16 bs = Some ws \<longleftrightarrow> 0 \<notin> set ws \<and> Utf16ToUtf8 ws = Some (until_zero bs))"
proof (intro conjI)
  show "Utf8ToUtf16 bs = Some ws \<longleftrightarrow> 0 \<notin> set ws \<and> Utf16ToUtf8 ws = Some (until_zero bs)"
    using conversions_inverse [of "until_zero bs" ws] zero_kept [of "until_zero bs" ws]
    by (auto simp: Utf8ToUtf16_def Utf16ToUtf8_def until_zero_id)
qed (simp_all only: UTF8StringToUTF16String_def UTF16StringToUTF8String_def conversions_inverse from_bytes_defined to_bytes_defined)

end
