(* ===== verification/Java_Strings.thy ===== *)
theory Java_Strings
  imports Java_Reference_Laws Utf_Conversion Base64_Codec Logging
begin

section \<open>Strings and arrays between Java and C++\<close>

text \<open>
  The helpers of \<open>app/src/main/cpp/android/jni_util.cc\<close> for strings, arrays, lists and exceptions, those of
  \<open>jni_string.hpp\<close>, and the entry points of \<open>CheckEnv/src/main/cpp/jni_base64.cpp\<close>, over the references of
  \<open>Java_References\<close> and a heap of Java objects. A scoped reference lives in a variable of the caller,
  \<open>x\<close>, \<open>y\<close> or \<open>z\<close>.
\<close>

subsection \<open>Java objects\<close>

datatype java_object = JString "char16 list" | JArray "nat option list" | JList "nat option list" | JBuffer "byte list" | JClass | JOther

record jenv =
  je_vm :: jvm
  je_objects :: "nat \<rightharpoonup> java_object"
  je_next_object :: nat
  je_pending :: bool
  je_exception :: nat

text \<open>What else the virtual machine answers: the object of a class, whether the characters of a string can be
  had, and the text of the stack trace of an exception, none if printing it throws.\<close>

record jni_answers =
  jn_refs :: java_answers
  jn_class :: "string \<Rightarrow> nat option"
  jn_chars :: "nat \<Rightarrow> bool"
  jn_stack_trace :: "nat \<Rightarrow> char16 list option"

text \<open>A local reference to an object, or to a new one; none, and a pending exception, without memory.\<close>

definition local_ref :: "jni_answers \<Rightarrow> thread_id \<Rightarrow> nat \<Rightarrow> jenv \<Rightarrow> jenv \<times> ptr" where
  "local_ref jn t obj s =
     (let (j, p) = hand_out (jn_refs jn) (LocalRef t) obj (je_vm s)
      in (s\<lparr>je_vm := j, je_pending := je_pending s \<or> p = None\<rparr>, p))"

definition new_object_ref :: "jni_answers \<Rightarrow> thread_id \<Rightarrow> java_object \<Rightarrow> jenv \<Rightarrow> jenv \<times> ptr" where
  "new_object_ref jn t ob s =
     local_ref jn t (je_next_object s)
       (s\<lparr>je_objects := (je_objects s)(je_next_object s \<mapsto> ob), je_next_object := je_next_object s + 1\<rparr>)"

definition FindClass :: "jni_answers \<Rightarrow> thread_id \<Rightarrow> string \<Rightarrow> jenv \<Rightarrow> jenv \<times> ptr" where
  "FindClass jn t name s =
     (case jn_class jn name of None \<Rightarrow> (s\<lparr>je_pending := True\<rparr>, None) | Some c \<Rightarrow> local_ref jn t c s)"

text \<open>The object behind a reference.\<close>

definition object_at :: "thread_id \<Rightarrow> ptr \<Rightarrow> jenv \<Rightarrow> (nat \<times> java_object) outcome" where
  "object_at t p s =
     (case p of
        None \<Rightarrow> Inl Undefined_Behaviour
      | Some h \<Rightarrow>
          obind (defined (usable t h (je_vm s))) (\<lambda>_.
          let obj = snd (the (jv_refs (je_vm s) h))
          in case je_objects s obj of None \<Rightarrow> Inl Undefined_Behaviour | Some ob \<Rightarrow> Inr (obj, ob)))"

definition string_at :: "thread_id \<Rightarrow> ptr \<Rightarrow> jenv \<Rightarrow> (nat \<times> char16 list) outcome" where
  "string_at t p s =
     obind (object_at t p s) (\<lambda>(obj, ob). case ob of JString ws \<Rightarrow> Inr (obj, ws) | _ \<Rightarrow> Inl Undefined_Behaviour)"

definition array_at :: "thread_id \<Rightarrow> ptr \<Rightarrow> jenv \<Rightarrow> (nat \<times> nat option list) outcome" where
  "array_at t p s =
     obind (object_at t p s) (\<lambda>(obj, ob). case ob of JArray es \<Rightarrow> Inr (obj, es) | _ \<Rightarrow> Inl Undefined_Behaviour)"

definition list_at :: "thread_id \<Rightarrow> ptr \<Rightarrow> jenv \<Rightarrow> (nat \<times> nat option list) outcome" where
  "list_at t p s =
     obind (object_at t p s) (\<lambda>(obj, ob). case ob of JList es \<Rightarrow> Inr (obj, es) | _ \<Rightarrow> Inl Undefined_Behaviour)"

text \<open>The element of an array or list, as a new local reference.\<close>

definition element_ref :: "jni_answers \<Rightarrow> thread_id \<Rightarrow> nat option \<Rightarrow> jenv \<Rightarrow> jenv \<times> ptr" where
  "element_ref jn t e s = (case e of None \<Rightarrow> (s, None) | Some obj \<Rightarrow> local_ref jn t obj s)"

definition SetObjectArrayElement :: "thread_id \<Rightarrow> ptr \<Rightarrow> nat \<Rightarrow> ptr \<Rightarrow> jenv \<Rightarrow> jenv outcome" where
  "SetObjectArrayElement t arr i p s =
     obind (array_at t arr s) (\<lambda>(a, es).
     obind (if p = None then Inr None else obind (object_at t p s) (\<lambda>(obj, ob). Inr (Some obj))) (\<lambda>e.
     if i < length es then Inr (s\<lparr>je_objects := (je_objects s)(a \<mapsto> JArray (es[i := e]))\<rparr>) else Inr (s\<lparr>je_pending := True\<rparr>)))"

definition on_vm :: "(jvm \<Rightarrow> jvm outcome) \<Rightarrow> jenv \<Rightarrow> jenv outcome" where
  "on_vm f s = obind (f (je_vm s)) (\<lambda>j. Inr (s\<lparr>je_vm := j\<rparr>))"

definition throw_range_error :: "'a option \<Rightarrow> 'a outcome" where
  "throw_range_error r = (case r of None \<Rightarrow> Inl Range_Error | Some x \<Rightarrow> Inr x)"

definition ASSERT_NO_EXCEPTION :: "jenv \<Rightarrow> unit outcome" where
  "ASSERT_NO_EXCEPTION s = check (\<not> je_pending s)"

subsection \<open>jni\_util.cc\<close>

definition JavaStringToString :: "jni_answers \<Rightarrow> thread_id \<Rightarrow> thread_id option \<Rightarrow> ptr \<Rightarrow> jenv \<Rightarrow> (jenv \<times> byte list) outcome" where
  "JavaStringToString jn t env str s =
     (if env = None \<or> str = None then Inr (s, [])
      else
        obind (defined (env = Some t)) (\<lambda>_.
        obind (string_at t str s) (\<lambda>(obj, u16_string).
        if \<not> jn_chars jn obj then Inr (s\<lparr>je_pending := True\<rparr>, [])
        else
          obind (throw_range_error (Utf16ToUtf8 u16_string)) (\<lambda>u8_string.
          obind (ASSERT_NO_EXCEPTION s) (\<lambda>_. Inr (s, u8_string))))))"

text \<open>The result is made in the variable \<open>z\<close>.\<close>

definition StringToJavaString :: "jni_answers \<Rightarrow> thread_id \<Rightarrow> var \<Rightarrow> thread_id \<Rightarrow> byte list \<Rightarrow> jenv \<Rightarrow> jenv outcome" where
  "StringToJavaString jn t z env u8_string s =
     obind (throw_range_error (Utf8ToUtf16 u8_string)) (\<lambda>u16_string.
     obind (defined (env = t)) (\<lambda>_.
     let (s1, p) = new_object_ref jn t (JString u16_string) s
     in obind (on_vm (ScopedJavaLocalRef_take t z (Some env) p) s1) (\<lambda>s2.
        obind (ASSERT_NO_EXCEPTION s2) (\<lambda>_. Inr s2))))"

text \<open>The loop body of both conversions to a vector: a scoped reference in \<open>x\<close> to one element.\<close>

definition convert_element ::
  "jni_answers \<Rightarrow> thread_id \<Rightarrow> var \<Rightarrow> thread_id \<Rightarrow> nat option \<Rightarrow> jenv \<Rightarrow> (jenv \<times> byte list) outcome" where
  "convert_element jn t x env e s =
     (let (s1, p) = element_ref jn t e s
      in obind (on_vm (ScopedJavaLocalRef_take t x (Some env) p) s1) (\<lambda>s2.
         obind (JavaRef_obj (je_vm s2) x) (\<lambda>str.
         obind (JavaStringToString jn t (Some env) str s2) (\<lambda>(s3, text).
         obind (on_vm (ScopedJavaLocalRef_destroy (jn_refs jn) t x) s3) (\<lambda>s4. Inr (s4, text))))))"

fun convert_elements ::
  "jni_answers \<Rightarrow> thread_id \<Rightarrow> var \<Rightarrow> thread_id \<Rightarrow> nat option list \<Rightarrow> jenv \<Rightarrow> (jenv \<times> byte list list) outcome" where
  "convert_elements jn t x env [] s = Inr (s, [])"
| "convert_elements jn t x env (e # es) s =
     obind (convert_element jn t x env e s) (\<lambda>(s1, text).
     obind (convert_elements jn t x env es s1) (\<lambda>(s2, texts). Inr (s2, text # texts)))"

text \<open>The elements are read when the loop gets to them; the loop changes no Java object, so it reads those
  the array had at first.\<close>

definition StringArrayToVector ::
  "jni_answers \<Rightarrow> thread_id \<Rightarrow> var \<Rightarrow> thread_id option \<Rightarrow> ptr \<Rightarrow> jenv \<Rightarrow> (jenv \<times> byte list list) outcome" where
  "StringArrayToVector jn t x env array s =
     (if env = None \<or> array = None then Inr (s, [])
      else
        obind (defined (env = Some t)) (\<lambda>_.
        obind (array_at t array s) (\<lambda>(a, es). convert_elements jn t x (the env) es s)))"

definition StringListToVector ::
  "jni_answers \<Rightarrow> thread_id \<Rightarrow> var \<Rightarrow> var \<Rightarrow> thread_id option \<Rightarrow> ptr \<Rightarrow> jenv \<Rightarrow> (jenv \<times> byte list list) outcome" where
  "StringListToVector jn t x y env lst s =
     (if env = None \<or> lst = None then Inr (s, [])
      else
        obind (defined (env = Some t)) (\<lambda>_.
        let (s1, c) = FindClass jn t ''java/util/List'' s
        in obind (on_vm (ScopedJavaLocalRef_take t y env c) s1) (\<lambda>s2.
           obind (JavaRef_is_null (je_vm s2) y) (\<lambda>null.
           obind (check (\<not> null)) (\<lambda>_.
           obind (list_at t lst s2) (\<lambda>(l, es).
           obind (if es = [] then Inr (s2, []) else convert_elements jn t x (the env) es s2) (\<lambda>(s3, out).
           obind (on_vm (ScopedJavaLocalRef_destroy (jn_refs jn) t y) s3) (\<lambda>s4. Inr (s4, out)))))))))"

text \<open>The loop that fills an array: \<open>mk\<close> makes the scoped reference in \<open>x\<close> to the object for an element.\<close>

fun fill_array ::
  "jni_answers \<Rightarrow> thread_id \<Rightarrow> var \<Rightarrow> ('a \<Rightarrow> jenv \<Rightarrow> jenv outcome) \<Rightarrow> ptr \<Rightarrow> nat \<Rightarrow> 'a list \<Rightarrow> jenv \<Rightarrow> jenv outcome" where
  "fill_array jn t x mk arr i [] s = Inr s"
| "fill_array jn t x mk arr i (v # vs) s =
     obind (mk v s) (\<lambda>s1.
     obind (JavaRef_obj (je_vm s1) x) (\<lambda>item.
     obind (SetObjectArrayElement t arr i item s1) (\<lambda>s2.
     obind (on_vm (ScopedJavaLocalRef_destroy (jn_refs jn) t x) s2) (\<lambda>s3.
     fill_array jn t x mk arr (i + 1) vs s3))))"

text \<open>The class reference is in \<open>y\<close>, the result in \<open>z\<close>; \<open>y\<close> goes when the function returns.\<close>

definition vector_to_array ::
  "jni_answers \<Rightarrow> thread_id \<Rightarrow> var \<Rightarrow> var \<Rightarrow> var \<Rightarrow> thread_id option \<Rightarrow> string \<Rightarrow> ('a \<Rightarrow> jenv \<Rightarrow> jenv outcome) \<Rightarrow> 'a list \<Rightarrow>
    jenv \<Rightarrow> jenv outcome" where
  "vector_to_array jn t x y z env class mk vs s =
     obind (check (env \<noteq> None)) (\<lambda>_.
     obind (defined (env = Some t)) (\<lambda>_.
     let (s1, c) = FindClass jn t class s
     in obind (on_vm (ScopedJavaLocalRef_take t y env c) s1) (\<lambda>s2.
        obind (JavaRef_is_null (je_vm s2) y) (\<lambda>null.
        obind (check (\<not> null)) (\<lambda>_.
        let (s3, java_array) = new_object_ref jn t (JArray (replicate (length vs) None)) s2
        in obind (ASSERT_NO_EXCEPTION s3) (\<lambda>_.
           obind (fill_array jn t x mk java_array 0 vs s3) (\<lambda>s4.
           obind (on_vm (ScopedJavaLocalRef_take t z env java_array) s4) (\<lambda>s5.
           on_vm (ScopedJavaLocalRef_destroy (jn_refs jn) t y) s5))))))))"

definition VectorToStringArray ::
  "jni_answers \<Rightarrow> thread_id \<Rightarrow> var \<Rightarrow> var \<Rightarrow> var \<Rightarrow> thread_id option \<Rightarrow> byte list list \<Rightarrow> jenv \<Rightarrow> jenv outcome" where
  "VectorToStringArray jn t x y z env =
     vector_to_array jn t x y z env ''java/lang/String'' (StringToJavaString jn t x (the env))"

definition VectorToBufferArray ::
  "jni_answers \<Rightarrow> thread_id \<Rightarrow> var \<Rightarrow> var \<Rightarrow> var \<Rightarrow> thread_id option \<Rightarrow> byte list list \<Rightarrow> jenv \<Rightarrow> jenv outcome" where
  "VectorToBufferArray jn t x y z env =
     vector_to_array jn t x y z env ''java/nio/ByteBuffer'' (\<lambda>data s.
       let (s1, p) = new_object_ref jn t (JBuffer data) s in on_vm (ScopedJavaLocalRef_take t x env p) s1)"

definition HasException :: "jenv \<Rightarrow> bool" where
  "HasException s \<longleftrightarrow> je_pending s"

definition ClearException :: "jenv \<Rightarrow> jenv \<times> bool" where
  "ClearException s = (if \<not> HasException s then (s, False) else (s\<lparr>je_pending := False\<rparr>, True))"

text \<open>A scoped reference in the variable \<open>x\<close>, for as long as \<open>body\<close> runs. Asking a null class for a method is undefined.\<close>

definition with_scoped ::
  "jni_answers \<Rightarrow> thread_id \<Rightarrow> var \<Rightarrow> (jenv \<Rightarrow> jenv \<times> ptr) \<Rightarrow> (ptr \<Rightarrow> jenv \<Rightarrow> (jenv \<times> 'r) outcome) \<Rightarrow> jenv \<Rightarrow> (jenv \<times> 'r) outcome" where
  "with_scoped jn t x mk body s =
     (let (s1, p) = mk s
      in obind (on_vm (ScopedJavaLocalRef_take t x (Some t) p) s1) (\<lambda>s2.
         obind (body p s2) (\<lambda>(s3, r).
         obind (on_vm (ScopedJavaLocalRef_destroy (jn_refs jn) t x) s3) (\<lambda>s4. Inr (s4, r)))))"

definition need_class :: "ptr \<Rightarrow> unit outcome" where
  "need_class c = defined (c \<noteq> None)"

text \<open>\<open>printStackTrace(printstream)\<close> on the exception, and \<open>toString()\<close> of the stream.\<close>

definition print_stack_trace :: "jni_answers \<Rightarrow> thread_id \<Rightarrow> ptr \<Rightarrow> ptr \<Rightarrow> jenv \<Rightarrow> (jenv \<times> char16 list option) outcome" where
  "print_stack_trace jn t java_throwable printstream s =
     obind (object_at t java_throwable s) (\<lambda>(obj, ob).
     obind (object_at t printstream s) (\<lambda>_.
     let trace = jn_stack_trace jn obj in Inr (s\<lparr>je_pending := je_pending s \<or> trace = None\<rparr>, trace)))"

definition stream_to_string :: "jni_answers \<Rightarrow> thread_id \<Rightarrow> char16 list option \<Rightarrow> jenv \<Rightarrow> jenv \<times> ptr" where
  "stream_to_string jn t trace s =
     (case trace of None \<Rightarrow> (s, None) | Some ws \<Rightarrow> new_object_ref jn t (JString ws) s)"

definition exception_string :: "jni_answers \<Rightarrow> thread_id \<Rightarrow> ptr \<Rightarrow> jenv \<Rightarrow> (jenv \<times> byte list) outcome" where
  "exception_string jn t str s =
     (let (s1, cleared) = ClearException s
      in if cleared then Inr (s1, bytes_of ''Java OOM'd in exception handling, check logcat'')
         else JavaStringToString jn t (Some t) str s1)"

definition GetJavaExceptionInfo ::
  "jni_answers \<Rightarrow> thread_id \<Rightarrow> (nat \<Rightarrow> var) \<Rightarrow> ptr \<Rightarrow> jenv \<Rightarrow> (jenv \<times> byte list) outcome" where
  "GetJavaExceptionInfo jn t x java_throwable =
     with_scoped jn t (x 0) (FindClass jn t ''java/lang/Throwable'') (\<lambda>throwable_clazz s0. obind (need_class throwable_clazz) (\<lambda>_.
     with_scoped jn t (x 1) (FindClass jn t ''java/io/ByteArrayOutputStream'') (\<lambda>stream_clazz s1. obind (need_class stream_clazz) (\<lambda>_.
     with_scoped jn t (x 2) (new_object_ref jn t JOther) (\<lambda>bytearray_output_stream.
     with_scoped jn t (x 3) (FindClass jn t ''java/io/PrintStream'') (\<lambda>printstream_clazz s3. obind (need_class printstream_clazz) (\<lambda>_.
     with_scoped jn t (x 4) (new_object_ref jn t JOther) (\<lambda>printstream s4.
       obind (print_stack_trace jn t java_throwable printstream s4) (\<lambda>(s5, trace).
       with_scoped jn t (x 5) (stream_to_string jn t trace) (exception_string jn t) s5)) s3))) s1)) s0))"

text \<open>The text is only made if errors are logged.\<close>

definition CheckException :: "LogSettings \<Rightarrow> jni_answers \<Rightarrow> thread_id \<Rightarrow> (nat \<Rightarrow> var) \<Rightarrow> jenv \<Rightarrow> (jenv \<times> bool) outcome" where
  "CheckException g jn t x s =
     (if \<not> HasException s then Inr (s, True)
      else
        let (s1, exception) = local_ref jn t (je_exception s) s; s2 = s1\<lparr>je_pending := False\<rparr>
        in obind (if ShouldCreateLogMessage g LOG_ERROR then GetJavaExceptionInfo jn t x exception s2 else Inr (s2, [])) (\<lambda>(s3, info).
           obind (on_vm (DeleteRef t (LocalRef t) exception) s3) (\<lambda>s4. Inr (s4, False))))"

subsection \<open>jni\_string.hpp and jni\_base64.cpp\<close>

text \<open>These return a plain reference and look at no exception.\<close>

definition STRING_CONVERT_JavaStringToString ::
  "jni_answers \<Rightarrow> thread_id \<Rightarrow> thread_id option \<Rightarrow> ptr \<Rightarrow> jenv \<Rightarrow> (jenv \<times> byte list) outcome" where
  "STRING_CONVERT_JavaStringToString jn t env str s =
     (if env = None \<or> str = None then Inr (s, [])
      else
        obind (defined (env = Some t)) (\<lambda>_.
        obind (string_at t str s) (\<lambda>(obj, chars).
        if \<not> jn_chars jn obj then Inr (s\<lparr>je_pending := True\<rparr>, [])
        else obind (throw_range_error (UTF16StringToUTF8String chars)) (\<lambda>u8_string. Inr (s, u8_string)))))"

definition STRING_CONVERT_StringToJavaString ::
  "jni_answers \<Rightarrow> thread_id \<Rightarrow> thread_id \<Rightarrow> byte list \<Rightarrow> jenv \<Rightarrow> (jenv \<times> ptr) outcome" where
  "STRING_CONVERT_StringToJavaString jn t env u8_string s =
     obind (throw_range_error (UTF8StringToUTF16String u8_string)) (\<lambda>u16_string.
     obind (defined (env = t)) (\<lambda>_. Inr (new_object_ref jn t (JString u16_string) s)))"

text \<open>The five entry points differ in the function they call.\<close>

definition base64_entry ::
  "jni_answers \<Rightarrow> thread_id \<Rightarrow> (byte list \<Rightarrow> byte list option \<Rightarrow> (bool \<times> byte list option) outcome) \<Rightarrow> ptr \<Rightarrow> jenv \<Rightarrow>
    (jenv \<times> ptr) outcome" where
  "base64_entry jn t codec orig s =
     obind (STRING_CONVERT_JavaStringToString jn t (Some t) orig s) (\<lambda>(s1, orig_str).
     obind (codec orig_str (Some [])) (\<lambda>(success, encoded).
     if success then STRING_CONVERT_StringToJavaString jn t t (the encoded) s1 else Inr (s1, None)))"

definition Base64_encode :: "jni_answers \<Rightarrow> thread_id \<Rightarrow> ptr \<Rightarrow> jenv \<Rightarrow> (jenv \<times> ptr) outcome" where
  "Base64_encode jn t = base64_entry jn t Base64Encode"

definition Base64_decode :: "bool \<Rightarrow> jni_answers \<Rightarrow> thread_id \<Rightarrow> ptr \<Rightarrow> jenv \<Rightarrow> (jenv \<times> ptr) outcome" where
  "Base64_decode char_signed jn t = base64_entry jn t (Base64Decode char_signed)"

definition Base64_encodeWithPadding :: "jni_answers \<Rightarrow> thread_id \<Rightarrow> ptr \<Rightarrow> jenv \<Rightarrow> (jenv \<times> ptr) outcome" where
  "Base64_encodeWithPadding jn t = base64_entry jn t Base64EncodeWithPadding"

definition Base64_encodeUrlSafe :: "jni_answers \<Rightarrow> thread_id \<Rightarrow> ptr \<Rightarrow> jenv \<Rightarrow> (jenv \<times> ptr) outcome" where
  "Base64_encodeUrlSafe jn t = base64_entry jn t Base64EncodeUrlSafe"

definition Base64_encodeUrlSafeWithPadding :: "jni_answers \<Rightarrow> thread_id \<Rightarrow> ptr \<Rightarrow> jenv \<Rightarrow> (jenv \<times> ptr) outcome" where
  "Base64_encodeUrlSafeWithPadding jn t = base64_entry jn t Base64EncodeUrlSafeWithPadding"
subsection \<open>Scoped references leave nothing behind\<close>

text \<open>A thread that can call Java: it is attached, no exception is pending, references and objects that are made
  are new.\<close>

definition env_ok :: "thread_id \<Rightarrow> jenv \<Rightarrow> bool" where
  "env_ok t s \<longleftrightarrow> g_jvm (je_vm s) \<and> t \<in> jv_attached (je_vm s) \<and> \<not> je_pending s \<and>
     (\<forall>h. jv_next (je_vm s) \<le> h \<longrightarrow> jv_refs (je_vm s) h = None) \<and>
     (\<forall>obj. je_next_object s \<le> obj \<longrightarrow> je_objects s obj = None)"

text \<open>There is memory.\<close>

definition has_memory :: "jni_answers \<Rightarrow> bool" where
  "has_memory jn \<longleftrightarrow> (\<forall>n. ja_room (jn_refs jn) n) \<and> (\<forall>obj. jn_chars jn obj)"

text \<open>The same references and variables.\<close>

definition same_refs :: "jenv \<Rightarrow> jenv \<Rightarrow> bool" where
  "same_refs s s' \<longleftrightarrow> jv_refs (je_vm s') = jv_refs (je_vm s) \<and> jv_vars (je_vm s') = jv_vars (je_vm s)"

lemma same_refs_trans: "same_refs s s' \<Longrightarrow> same_refs s' s'' \<Longrightarrow> same_refs s s''"
  by (simp add: same_refs_def)

text \<open>Making a scoped local reference in \<open>x\<close>, and destroying it.\<close>

definition scoped :: "thread_id \<Rightarrow> var \<Rightarrow> nat \<Rightarrow> jenv \<Rightarrow> jenv" where
  "scoped t x obj s =
     s\<lparr>je_vm := (je_vm s)\<lparr>jv_refs := (jv_refs (je_vm s))(jv_next (je_vm s) \<mapsto> (LocalRef t, obj)),
       jv_next := jv_next (je_vm s) + 1,
       jv_frames := note_frame (LocalRef t) (jv_next (je_vm s)) (jv_frames (je_vm s)),
       jv_vars := (jv_vars (je_vm s))(x \<mapsto> ScopedJavaLocalRef (Some t) (Some (jv_next (je_vm s))))\<rparr>\<rparr>"

lemma local_ref_eq:
  assumes "has_memory jn"
  shows "local_ref jn t obj s =
    (s\<lparr>je_vm := (je_vm s)\<lparr>jv_refs := (jv_refs (je_vm s))(jv_next (je_vm s) \<mapsto> (LocalRef t, obj)), jv_next := jv_next (je_vm s) + 1,
      jv_frames := note_frame (LocalRef t) (jv_next (je_vm s)) (jv_frames (je_vm s))\<rparr>\<rparr>, Some (jv_next (je_vm s)))"
  using assms by (simp add: local_ref_def hand_out_def Let_def has_memory_def)

lemma take_scoped:
  assumes "has_memory jn"
  shows "(case local_ref jn t obj s of (s1, p) \<Rightarrow> on_vm (ScopedJavaLocalRef_take t x (Some t) p) s1) = Inr (scoped t x obj s)"
  using assms by (simp add: local_ref_eq on_vm_def ScopedJavaLocalRef_take_def JavaRef_new_def is_local_of_def
      set_holder_def scoped_def)

lemma scoped_obj:
  "JavaRef_obj (je_vm (scoped t x obj s)) x = Inr (Some (jv_next (je_vm s)))"
  by (simp add: JavaRef_obj_def scoped_def)

lemma destroy_scoped:
  assumes "env_ok t s" and "jv_vars (je_vm s') x = Some (ScopedJavaLocalRef (Some t) (Some h))"
    and "jv_refs (je_vm s') h = Some (LocalRef t, obj)" and "g_jvm (je_vm s')" and "t \<in> jv_attached (je_vm s')"
  shows "on_vm (ScopedJavaLocalRef_destroy vm t x) s' =
    Inr (s'\<lparr>je_vm := (je_vm s')\<lparr>jv_refs := (jv_refs (je_vm s'))(h := None), jv_vars := (jv_vars (je_vm s'))(x := None)\<rparr>\<rparr>)"
  using assms by (simp add: on_vm_def ScopedJavaLocalRef_destroy_def ScopedJavaLocalRef_Reset_def local_at_def ResetLocalRef_def
      AttachCurrentThread_def DeleteRef_def set_holder_def drop_holder_def)

text \<open>One element of an array: its text, and nothing changes.\<close>

definition holds_text :: "(nat \<rightharpoonup> java_object) \<Rightarrow> nat option \<Rightarrow> byte list \<Rightarrow> bool" where
  "holds_text objs e text \<longleftrightarrow> (\<exists>obj ws. e = Some obj \<and> objs obj = Some (JString ws) \<and> Utf16ToUtf8 ws = Some text)"

lemma convert_element_ok:
  assumes "env_ok t s" and "has_memory jn" and "jv_vars (je_vm s) x = None" and "holds_text (je_objects s) e text"
  obtains s' where "convert_element jn t x t e s = Inr (s', text)" and "env_ok t s'" and "same_refs s s'"
    and "je_objects s' = je_objects s"
proof -
  from assms(4) obtain obj ws where e: "e = Some obj" "je_objects s obj = Some (JString ws)" "Utf16ToUtf8 ws = Some text"
    unfolding holds_text_def by blast
  let ?h = "jv_next (je_vm s)"
  let ?s1 = "scoped t x obj s"
  let ?s2 = "?s1\<lparr>je_vm := (je_vm ?s1)\<lparr>jv_refs := (jv_refs (je_vm ?s1))(?h := None), jv_vars := (jv_vars (je_vm ?s1))(x := None)\<rparr>\<rparr>"
  have str: "JavaStringToString jn t (Some t) (Some ?h) ?s1 = Inr (?s1, text)"
    using assms(1,2) e(2,3) by (simp add: JavaStringToString_def string_at_def object_at_def usable_def scoped_def
        has_memory_def throw_range_error_def ASSERT_NO_EXCEPTION_def env_ok_def)
  have d: "on_vm (ScopedJavaLocalRef_destroy (jn_refs jn) t x) ?s1 = Inr ?s2"
    using assms(1) by (intro destroy_scoped) (simp_all add: scoped_def env_ok_def)
  have "convert_element jn t x t e s = Inr (?s2, text)"
    using take_scoped [OF assms(2), of t x obj s] str d scoped_obj [of t x obj s] e(1)
    by (simp add: convert_element_def element_ref_def local_ref_eq [OF assms(2)])
  moreover have "env_ok t ?s2" using assms(1) by (simp add: env_ok_def scoped_def)
  moreover have "jv_refs (je_vm s) ?h = None" using assms(1) by (simp add: env_ok_def)
  then have "same_refs s ?s2" using assms(3) by (simp add: same_refs_def scoped_def fun_upd_idem)
  ultimately show thesis using that by (simp add: scoped_def)
qed

lemma convert_elements_ok:
  assumes "env_ok t s" and "has_memory jn" and "jv_vars (je_vm s) x = None"
    and "list_all2 (holds_text (je_objects s)) es texts"
  shows "\<exists>s'. convert_elements jn t x t es s = Inr (s', texts) \<and> env_ok t s' \<and> same_refs s s'"
  using assms(1,3,4)
proof (induction es arbitrary: s texts)
  case Nil
  then show ?case by (simp add: same_refs_def)
next
  case (Cons e es)
  from Cons.prems(3) obtain v vs where v: "texts = v # vs" "holds_text (je_objects s) e v"
    "list_all2 (holds_text (je_objects s)) es vs" by (auto simp: list_all2_Cons1)
  obtain s1 where s1: "convert_element jn t x t e s = Inr (s1, v)" "env_ok t s1" "same_refs s s1"
    "je_objects s1 = je_objects s"
    by (rule convert_element_ok [OF Cons.prems(1) assms(2) Cons.prems(2) v(2)])
  have "jv_vars (je_vm s1) x = None" using s1(3) Cons.prems(2) by (simp add: same_refs_def)
  with Cons.IH [of s1 vs] s1 v show ?case by (auto intro: same_refs_trans)
qed
subsection \<open>Filling an array\<close>

definition with_object :: "java_object \<Rightarrow> jenv \<Rightarrow> jenv" where
  "with_object ob s = s\<lparr>je_objects := (je_objects s)(je_next_object s \<mapsto> ob), je_next_object := je_next_object s + 1\<rparr>"

lemma with_object_simps [simp]:
  "je_vm (with_object ob s) = je_vm s" "je_pending (with_object ob s) = je_pending s"
  "je_objects (with_object ob s) = (je_objects s)(je_next_object s \<mapsto> ob)"
  "je_next_object (with_object ob s) = je_next_object s + 1"
  by (simp_all add: with_object_def)

lemma scoped_simps [simp]:
  "je_objects (scoped t x obj s) = je_objects s" "je_next_object (scoped t x obj s) = je_next_object s"
  "je_pending (scoped t x obj s) = je_pending s"
  "jv_refs (je_vm (scoped t x obj s)) = (jv_refs (je_vm s))(jv_next (je_vm s) \<mapsto> (LocalRef t, obj))"
  "jv_vars (je_vm (scoped t x obj s)) = (jv_vars (je_vm s))(x \<mapsto> ScopedJavaLocalRef (Some t) (Some (jv_next (je_vm s))))"
  "jv_next (je_vm (scoped t x obj s)) = jv_next (je_vm s) + 1" "g_jvm (je_vm (scoped t x obj s)) = g_jvm (je_vm s)"
  "jv_attached (je_vm (scoped t x obj s)) = jv_attached (je_vm s)"
  by (simp_all add: scoped_def)

lemma env_ok_scoped: "env_ok t s \<Longrightarrow> env_ok t (scoped t x obj s)"
  and env_ok_with_object: "env_ok t s \<Longrightarrow> env_ok t (with_object ob s)"
  by (simp_all add: env_ok_def)

text \<open>One round of the loop, with a body that makes a scoped reference to a new object.\<close>

lemma fill_step:
  assumes "env_ok t s" and "jv_vars (je_vm s) x = None" and "mk v s = Inr (scoped t x (je_next_object s) (with_object ob s))"
    and "jv_refs (je_vm s) ha = Some (LocalRef t, a)" and "je_objects s a = Some (JArray es)" and "i < length es"
  obtains s' where "fill_array jn t x mk (Some ha) i (v # vs) s = fill_array jn t x mk (Some ha) (i + 1) vs s'"
    and "env_ok t s'" and "same_refs s s'" and "je_next_object s' = je_next_object s + 1"
    and "je_objects s' = (je_objects s)(je_next_object s \<mapsto> ob, a \<mapsto> JArray (es[i := Some (je_next_object s)]))"
proof -
  let ?h = "jv_next (je_vm s)" and ?n = "je_next_object s"
  let ?s1 = "scoped t x ?n (with_object ob s)"
  let ?s2 = "?s1\<lparr>je_objects := (je_objects ?s1)(a \<mapsto> JArray (es[i := Some ?n]))\<rparr>"
  let ?s3 = "?s2\<lparr>je_vm := (je_vm ?s2)\<lparr>jv_refs := (jv_refs (je_vm ?s2))(?h := None), jv_vars := (jv_vars (je_vm ?s2))(x := None)\<rparr>\<rparr>"
  have ne: "ha \<noteq> ?h" "a \<noteq> ?n" and fresh: "jv_refs (je_vm s) ?h = None" using assms(1,4,5) by (auto simp: env_ok_def)
  have arr: "array_at t (Some ha) ?s1 = Inr (a, es)"
    using ne assms(4,5) by (simp add: array_at_def object_at_def usable_def)
  have ob: "object_at t (Some ?h) ?s1 = Inr (?n, ob)" by (simp add: object_at_def usable_def)
  have set: "SetObjectArrayElement t (Some ha) i (Some ?h) ?s1 = Inr ?s2"
    unfolding SetObjectArrayElement_def by (simp add: arr ob assms(6))
  have d: "on_vm (ScopedJavaLocalRef_destroy (jn_refs jn) t x) ?s2 = Inr ?s3"
    by (rule destroy_scoped [OF assms(1)]) (use assms(1) in \<open>simp_all add: env_ok_def\<close>)
  have o: "JavaRef_obj (je_vm ?s1) x = Inr (Some ?h)" using scoped_obj [of t x ?n "with_object ob s"] by simp
  have "fill_array jn t x mk (Some ha) i (v # vs) s = fill_array jn t x mk (Some ha) (i + 1) vs ?s3"
    using assms(3) o set d by simp
  moreover have "env_ok t ?s3" using assms(1,5) unfolding env_ok_def by (auto dest: spec)
  moreover have "same_refs s ?s3" using fresh assms(2) by (simp add: same_refs_def fun_upd_idem)
  moreover have "je_next_object ?s3 = je_next_object s + 1"
    "je_objects ?s3 = (je_objects s)(je_next_object s \<mapsto> ob, a \<mapsto> JArray (es[i := Some (je_next_object s)]))" by simp_all
  ultimately show thesis by (rule that)
qed

lemma fill_array_ok:
  assumes "env_ok t s" and "jv_vars (je_vm s) x = None" and "jv_refs (je_vm s) ha = Some (LocalRef t, a)"
    and "je_objects s a = Some (JArray es)" and "length es = i + length vs"
    and "\<And>v s. v \<in> set vs \<Longrightarrow> env_ok t s \<Longrightarrow> mk v s = Inr (scoped t x (je_next_object s) (with_object (ob v) s))"
  shows "\<exists>s' news. fill_array jn t x mk (Some ha) i vs s = Inr s' \<and> env_ok t s' \<and> same_refs s s' \<and>
    je_objects s' a = Some (JArray (take i es @ map Some news)) \<and>
    list_all2 (\<lambda>n v. je_objects s' n = Some (ob v)) news vs \<and>
    (\<forall>c < je_next_object s. c \<noteq> a \<longrightarrow> je_objects s' c = je_objects s c)"
  using assms
proof (induction vs arbitrary: i es s)
  case Nil
  then show ?case by (auto simp: same_refs_def intro!: exI [of _ "[]"])
next
  case (Cons v vs)
  let ?n = "je_next_object s"
  have a: "a < ?n" "a \<noteq> ?n" using Cons.prems(1,4) by (auto simp: env_ok_def not_le [symmetric])
  have mk: "mk v s = Inr (scoped t x ?n (with_object (ob v) s))" using Cons.prems(1,6) by simp
  have i: "i < length es" using Cons.prems(5) by simp
  obtain s1 where s1: "fill_array jn t x mk (Some ha) i (v # vs) s = fill_array jn t x mk (Some ha) (i + 1) vs s1"
    "env_ok t s1" "same_refs s s1" "je_next_object s1 = ?n + 1"
    "je_objects s1 = (je_objects s)(?n \<mapsto> ob v, a \<mapsto> JArray (es[i := Some ?n]))"
    by (rule fill_step [where mk = mk and v = v, OF Cons.prems(1,2) mk Cons.prems(3,4) i])
  have IH: "\<exists>s' news. fill_array jn t x mk (Some ha) (i + 1) vs s1 = Inr s' \<and> env_ok t s' \<and> same_refs s1 s' \<and>
    je_objects s' a = Some (JArray (take (i + 1) (es[i := Some ?n]) @ map Some news)) \<and>
    list_all2 (\<lambda>n v. je_objects s' n = Some (ob v)) news vs \<and>
    (\<forall>c < je_next_object s1. c \<noteq> a \<longrightarrow> je_objects s' c = je_objects s1 c)"
    by (rule Cons.IH) (use Cons.prems s1 in \<open>auto simp: same_refs_def\<close>)
  then obtain s' news where s': "fill_array jn t x mk (Some ha) (i + 1) vs s1 = Inr s'" "env_ok t s'" "same_refs s1 s'"
    "je_objects s' a = Some (JArray (take (i + 1) (es[i := Some ?n]) @ map Some news))"
    "list_all2 (\<lambda>n v. je_objects s' n = Some (ob v)) news vs"
    "\<And>c. c < ?n + 1 \<Longrightarrow> c \<noteq> a \<Longrightarrow> je_objects s' c = je_objects s1 c" using s1(4) by auto
  have "take (i + 1) (es[i := Some ?n]) @ map Some news = take i es @ map Some (?n # news)"
    using i by (simp add: take_Suc_conv_app_nth)
  moreover have "je_objects s' ?n = Some (ob v)" using s'(6) [of ?n] a s1(5) by simp
  moreover have "je_objects s' c = je_objects s c" if "c < ?n" "c \<noteq> a" for c using s'(6) [of c] that s1(5) by simp
  ultimately show ?case
    using s1(1) s' same_refs_trans [OF s1(3) s'(3)] by (intro exI [of _ s'] exI [of _ "?n # news"]) auto
qed
lemma vector_to_array_ok:
  assumes "env_ok t s" and "has_memory jn" and "jn_class jn class = Some c"
    and "jv_vars (je_vm s) x = None" "jv_vars (je_vm s) y = None" "jv_vars (je_vm s) z = None" and "x \<noteq> y" "y \<noteq> z"
    and "\<And>v s. v \<in> set vs \<Longrightarrow> env_ok t s \<Longrightarrow> mk v s = Inr (scoped t x (je_next_object s) (with_object (ob v) s))"
  obtains s' h a news where "vector_to_array jn t x y z (Some t) class mk vs s = Inr s'" and "env_ok t s'"
    and "jv_refs (je_vm s) h = None" and "jv_refs (je_vm s') = (jv_refs (je_vm s))(h \<mapsto> (LocalRef t, a))"
    and "jv_vars (je_vm s') = (jv_vars (je_vm s))(z \<mapsto> ScopedJavaLocalRef (Some t) (Some h))"
    and "je_objects s' a = Some (JArray (map Some news))" and "list_all2 (\<lambda>n v. je_objects s' n = Some (ob v)) news vs"
proof -
  let ?k = "jv_next (je_vm s)" and ?h = "jv_next (je_vm s) + 1" and ?a = "je_next_object s"
  let ?s2 = "scoped t y c s"
  let ?w = "with_object (JArray (replicate (length vs) None)) ?s2"
  let ?s3 = "?w\<lparr>je_vm := (je_vm ?w)\<lparr>jv_refs := (jv_refs (je_vm ?w))(?h \<mapsto> (LocalRef t, ?a)), jv_next := ?h + 1,
      jv_frames := note_frame (LocalRef t) ?h (jv_frames (je_vm ?w))\<rparr>\<rparr>"
  have fresh: "jv_refs (je_vm s) ?k = None" "jv_refs (je_vm s) ?h = None" using assms(1) by (simp_all add: env_ok_def)
  have ok3: "env_ok t ?s3" using assms(1) by (simp add: env_ok_def)
  have new: "new_object_ref jn t (JArray (replicate (length vs) None)) ?s2 = (?s3, Some ?h)"
    unfolding new_object_ref_def with_object_def [symmetric] by (simp add: local_ref_eq [OF assms(2)])
  have vars3: "jv_vars (je_vm ?s3) = (jv_vars (je_vm s))(y \<mapsto> ScopedJavaLocalRef (Some t) (Some ?k))"
    and refs3: "jv_refs (je_vm ?s3) = (jv_refs (je_vm s))(?k \<mapsto> (LocalRef t, c), ?h \<mapsto> (LocalRef t, ?a))" by simp_all
  have "\<exists>s4 news. fill_array jn t x mk (Some ?h) 0 vs ?s3 = Inr s4 \<and> env_ok t s4 \<and> same_refs ?s3 s4 \<and>
    je_objects s4 ?a = Some (JArray (take 0 (replicate (length vs) None) @ map Some news)) \<and>
    list_all2 (\<lambda>n v. je_objects s4 n = Some (ob v)) news vs \<and>
    (\<forall>b < je_next_object ?s3. b \<noteq> ?a \<longrightarrow> je_objects s4 b = je_objects ?s3 b)"
    by (rule fill_array_ok [OF ok3]) (use assms(4,7,9) in simp_all)
  then obtain s4 news where s4: "fill_array jn t x mk (Some ?h) 0 vs ?s3 = Inr s4" "env_ok t s4" "same_refs ?s3 s4"
    "je_objects s4 ?a = Some (JArray (map Some news))" "list_all2 (\<lambda>n v. je_objects s4 n = Some (ob v)) news vs" by auto
  let ?s5 = "s4\<lparr>je_vm := set_holder z (ScopedJavaLocalRef (Some t) (Some ?h)) (je_vm s4)\<rparr>"
  have r4: "jv_refs (je_vm s4) = (jv_refs (je_vm s))(?k \<mapsto> (LocalRef t, c), ?h \<mapsto> (LocalRef t, ?a))"
    "jv_vars (je_vm s4) = (jv_vars (je_vm s))(y \<mapsto> ScopedJavaLocalRef (Some t) (Some ?k))"
    using s4(3) vars3 refs3 by (simp_all add: same_refs_def)
  have take: "on_vm (ScopedJavaLocalRef_take t z (Some t) (Some ?h)) s4 = Inr ?s5"
    using r4(1) by (simp add: on_vm_def ScopedJavaLocalRef_take_def JavaRef_new_def is_local_of_def)
  let ?s6 = "?s5\<lparr>je_vm := (je_vm ?s5)\<lparr>jv_refs := (jv_refs (je_vm ?s5))(?k := None), jv_vars := (jv_vars (je_vm ?s5))(y := None)\<rparr>\<rparr>"
  have d: "on_vm (ScopedJavaLocalRef_destroy (jn_refs jn) t y) ?s5 = Inr ?s6"
    by (rule destroy_scoped [OF assms(1)]) (use r4 assms(8) s4(2) in \<open>simp_all add: set_holder_def env_ok_def\<close>)
  have cls: "(case FindClass jn t class s of (s1, p) \<Rightarrow> on_vm (ScopedJavaLocalRef_take t y (Some t) p) s1) = Inr ?s2"
    using take_scoped [OF assms(2)] assms(3) by (simp add: FindClass_def)
  have null: "JavaRef_is_null (je_vm ?s2) y = Inr False" by (simp add: JavaRef_is_null_def scoped_obj)
  have assert: "ASSERT_NO_EXCEPTION ?s3 = Inr ()" using assms(1) by (simp add: ASSERT_NO_EXCEPTION_def env_ok_def)
  have "vector_to_array jn t x y z (Some t) class mk vs s =
      obind (case FindClass jn t class s of (s1, p) \<Rightarrow> on_vm (ScopedJavaLocalRef_take t y (Some t) p) s1) (\<lambda>s2.
      obind (JavaRef_is_null (je_vm s2) y) (\<lambda>null. obind (check (\<not> null)) (\<lambda>_.
        let (s3, java_array) = new_object_ref jn t (JArray (replicate (length vs) None)) s2
        in obind (ASSERT_NO_EXCEPTION s3) (\<lambda>_. obind (fill_array jn t x mk java_array 0 vs s3) (\<lambda>s4.
           obind (on_vm (ScopedJavaLocalRef_take t z (Some t) java_array) s4) (\<lambda>s5.
           on_vm (ScopedJavaLocalRef_destroy (jn_refs jn) t y) s5))))))"
    by (simp add: vector_to_array_def split: prod.splits)
  also have "\<dots> = Inr ?s6"
    by (simp only: cls obind_Inr null not_False_eq_True check_True new Let_def prod.case assert s4(1) take d)
  finally have "vector_to_array jn t x y z (Some t) class mk vs s = Inr ?s6" .
  moreover have "env_ok t ?s6" using s4(2) by (simp add: env_ok_def set_holder_def)
  moreover have "jv_refs (je_vm ?s6) = (jv_refs (je_vm s))(?h \<mapsto> (LocalRef t, ?a))"
    "jv_vars (je_vm ?s6) = (jv_vars (je_vm s))(z \<mapsto> ScopedJavaLocalRef (Some t) (Some ?h))"
    using r4 fresh(1) assms(5,8) by (auto simp: set_holder_def fun_eq_iff)
  ultimately show thesis using fresh(2) s4(4,5) by (intro that [of ?s6 ?h ?a news]) simp_all
qed

lemma StringToJavaString_eq:
  assumes "has_memory jn" and "env_ok t s" and "Utf8ToUtf16 v = Some ws"
  shows "StringToJavaString jn t x t v s = Inr (scoped t x (je_next_object s) (with_object (JString ws) s))"
proof -
  have "(case new_object_ref jn t (JString ws) s of (s1, p) \<Rightarrow> on_vm (ScopedJavaLocalRef_take t x (Some t) p) s1) =
    Inr (scoped t x (je_next_object s) (with_object (JString ws) s))"
    unfolding new_object_ref_def with_object_def [symmetric] by (rule take_scoped [OF assms(1)])
  moreover have "\<not> je_pending s" using assms(2) by (simp add: env_ok_def)
  ultimately show ?thesis
    using assms(3) by (simp add: StringToJavaString_def throw_range_error_def ASSERT_NO_EXCEPTION_def split: prod.splits)
qed
subsection \<open>Properties\<close>

text \<open>A thread that is about to call the helpers, with free variables and memory.\<close>

definition ready :: "jni_answers \<Rightarrow> thread_id \<Rightarrow> var \<Rightarrow> var \<Rightarrow> var \<Rightarrow> jenv \<Rightarrow> bool" where
  "ready jn t x y z s \<longleftrightarrow> env_ok t s \<and> has_memory jn \<and> jn_class jn ''java/lang/String'' \<noteq> None \<and>
     jn_class jn ''java/nio/ByteBuffer'' \<noteq> None \<and> distinct [x, y, z] \<and> (\<forall>v \<in> {x, y, z}. jv_vars (je_vm s) v = None)"

lemma text_of_string:
  assumes "Utf8ToUtf16 v \<noteq> None" and "0 \<notin> set v" and "objs n = Some (JString (the (Utf8ToUtf16 v)))"
  shows "holds_text objs (Some n) v"
proof -
  obtain ws where "Utf8ToUtf16 v = Some ws" using assms(1) by blast
  with assms(2,3) show ?thesis
    using conversions_inverse [of v ws] zero_kept [of v ws]
    by (auto simp: holds_text_def Utf8ToUtf16_def Utf16ToUtf8_def until_zero_id)
qed

text \<open>C30: string arrays. Converting well-formed texts without zeros (a text is cut off at a zero, as C29 says) to a Java array and
  the array back gives the same texts in the same order, when the virtual machine has memory and finds the class of strings, the
  thread is attached without a pending exception, and the three variables are distinct and not in use. The first conversion leaves one
  new local reference, the result in \<open>z\<close>; the second leaves none: the scoped references to the class and the elements are gone.\<close>

theorem string_array_roundtrip:
  assumes "ready jn t x y z s" and "\<And>v. v \<in> set vs \<Longrightarrow> Utf8ToUtf16 v \<noteq> None \<and> 0 \<notin> set v"
  shows "\<exists>s1 s2 h a. VectorToStringArray jn t x y z (Some t) vs s = Inr s1 \<and>
    jv_refs (je_vm s) h = None \<and> jv_refs (je_vm s1) = (jv_refs (je_vm s))(h \<mapsto> (LocalRef t, a)) \<and>
    jv_vars (je_vm s1) = (jv_vars (je_vm s))(z \<mapsto> ScopedJavaLocalRef (Some t) (Some h)) \<and>
    StringArrayToVector jn t x (Some t) (Some h) s1 = Inr (s2, vs) \<and> same_refs s1 s2"
proof -
  from assms(1) obtain c where r: "env_ok t s" "has_memory jn" "jn_class jn ''java/lang/String'' = Some c"
    "jv_vars (je_vm s) x = None" "jv_vars (je_vm s) y = None" "jv_vars (je_vm s) z = None" "x \<noteq> y" "y \<noteq> z" "x \<noteq> z"
    unfolding ready_def by auto
  have mk: "StringToJavaString jn t x t v u = Inr (scoped t x (je_next_object u) (with_object (JString (the (Utf8ToUtf16 v))) u))"
    if "v \<in> set vs" "env_ok t u" for v u
    using assms(2) [OF that(1)] StringToJavaString_eq [OF r(2) that(2), of v] by force
  obtain s1 h a news where s1: "vector_to_array jn t x y z (Some t) ''java/lang/String'' (StringToJavaString jn t x t) vs s = Inr s1"
    "env_ok t s1" "jv_refs (je_vm s) h = None" "jv_refs (je_vm s1) = (jv_refs (je_vm s))(h \<mapsto> (LocalRef t, a))"
    "jv_vars (je_vm s1) = (jv_vars (je_vm s))(z \<mapsto> ScopedJavaLocalRef (Some t) (Some h))"
    "je_objects s1 a = Some (JArray (map Some news))"
    "list_all2 (\<lambda>n v. je_objects s1 n = Some (JString (the (Utf8ToUtf16 v)))) news vs"
    by (rule vector_to_array_ok [where mk = "StringToJavaString jn t x t" and vs = vs and
      ob = "\<lambda>v. JString (the (Utf8ToUtf16 v))", OF r(1-8) mk]) blast
  have texts: "list_all2 (holds_text (je_objects s1)) (map Some news) vs"
    using s1(7) assms(2) by (auto simp: list_all2_conv_all_nth intro!: text_of_string)
  have "jv_vars (je_vm s1) x = None" using s1(5) r(4,9) by simp
  then obtain s2 where s2: "convert_elements jn t x t (map Some news) s1 = Inr (s2, vs)" "same_refs s1 s2"
    using convert_elements_ok [OF s1(2) r(2) _ texts] by blast
  have "array_at t (Some h) s1 = Inr (a, map Some news)"
    using s1(4,6) by (simp add: array_at_def object_at_def usable_def)
  then have "StringArrayToVector jn t x (Some t) (Some h) s1 = Inr (s2, vs)"
    using s2(1) by (simp add: StringArrayToVector_def)
  with s1 s2(2) show ?thesis by (auto simp: VectorToStringArray_def)
qed
text \<open>A text of ASCII characters can be converted.\<close>

lemma utf8_points_ascii: "\<forall>c \<in> set bs. unat c < 128 \<Longrightarrow> utf8_points bs = Some (map unat bs)"
  by (induction bs) simp_all

lemma ascii_convertible: "\<forall>c \<in> set bs. unat c < 128 \<Longrightarrow> \<exists>ws. UTF8StringToUTF16String bs = Some ws"
  by (simp add: UTF8StringToUTF16String_def from_bytes_def utf8_points_ascii)

text \<open>The two halves of an entry point.\<close>

lemma entry_converts:
  assumes "has_memory jn" and "string_at t p s = Inr (obj, ws)" and "UTF16StringToUTF8String ws = Some bs"
    and "codec bs (Some []) = Inr (True, Some cs)" and "UTF8StringToUTF16String cs = Some vs"
  obtains s' h n where "base64_entry jn t codec p s = Inr (s', Some h)" and "string_at t (Some h) s' = Inr (n, vs)"
    and "jv_vars (je_vm s') = jv_vars (je_vm s)" and "jv_refs (je_vm s') = (jv_refs (je_vm s))(h \<mapsto> (LocalRef t, n))"
proof -
  obtain a where p: "p = Some a" using assms(2) by (cases p) (simp_all add: string_at_def object_at_def)
  let ?new = "new_object_ref jn t (JString vs) s"
  have "base64_entry jn t codec p s = Inr ?new"
    using assms p by (simp add: base64_entry_def STRING_CONVERT_JavaStringToString_def STRING_CONVERT_StringToJavaString_def
        throw_range_error_def has_memory_def)
  moreover obtain s' h where n: "?new = (s', Some h)" "h = jv_next (je_vm s)"
    "s' = fst (local_ref jn t (je_next_object s) (with_object (JString vs) s))"
    unfolding new_object_ref_def with_object_def [symmetric] local_ref_eq [OF assms(1)] by simp
  moreover have "string_at t (Some h) s' = Inr (je_next_object s, vs)"
    unfolding n(2,3) local_ref_eq [OF assms(1)] by (simp add: string_at_def object_at_def usable_def)
  moreover have "jv_vars (je_vm s') = jv_vars (je_vm s)"
    "jv_refs (je_vm s') = (jv_refs (je_vm s))(h \<mapsto> (LocalRef t, je_next_object s))"
    unfolding n(2,3) local_ref_eq [OF assms(1)] by simp_all
  ultimately show thesis by (intro that [of s' h]) simp_all
qed

lemma encoders_internal:
  assumes "encoder \<in> {Base64_encode, Base64_encodeWithPadding, Base64_encodeUrlSafe, Base64_encodeUrlSafeWithPadding}"
  shows "\<exists>url_safe pad. encoder jn t = base64_entry jn t (\<lambda>i out. Base64EncodeInternal i out url_safe pad)"
proof -
  have "Base64Encode = (\<lambda>i out. Base64EncodeInternal i out False False)"
    "Base64EncodeWithPadding = (\<lambda>i out. Base64EncodeInternal i out False True)"
    "Base64EncodeUrlSafe = (\<lambda>i out. Base64EncodeInternal i out True False)"
    "Base64EncodeUrlSafeWithPadding = (\<lambda>i out. Base64EncodeInternal i out True True)"
    by (simp_all add: fun_eq_iff Base64Encode_def Base64EncodeWithPadding_def Base64EncodeUrlSafe_def
        Base64EncodeUrlSafeWithPadding_def)
  note entries = this Base64_encode_def Base64_encodeWithPadding_def Base64_encodeUrlSafe_def Base64_encodeUrlSafeWithPadding_def
  show ?thesis
    using assms by (elim insertE emptyE) (simp only: entries, (rule exI)+, rule refl)+
qed

text \<open>The Base64 entry points. For every well-formed Java string (zeros and characters outside the basic
  plane included) whose UTF-8 form is small enough, any of the four encoders returns a string, and
  \<open>decode\<close> of that string returns one with the same characters.\<close>

theorem base64_java_roundtrip:
  assumes "has_memory jn" and "string_at t p s = Inr (obj, ws)" and "UTF16StringToUTF8String ws = Some bs"
    and "int (GetBase64EncodedSize bs) + 4 \<le> INT_MAX"
    and "encoder \<in> {Base64_encode, Base64_encodeWithPadding, Base64_encodeUrlSafe, Base64_encodeUrlSafeWithPadding}"
  shows "\<exists>s1 h1 s2 h2 n. encoder jn t p s = Inr (s1, Some h1) \<and>
    Base64_decode char_signed jn t (Some h1) s1 = Inr (s2, Some h2) \<and> string_at t (Some h2) s2 = Inr (n, ws)"
proof -
  from encoders_internal [OF assms(5)] obtain url_safe pad where
    enc: "encoder jn t = base64_entry jn t (\<lambda>i out. Base64EncodeInternal i out url_safe pad)" by blast
  obtain code where code: "Base64EncodeInternal bs (Some []) url_safe pad = Inr (True, Some code)"
    "\<forall>c \<in> set code. unat c < 128" "Base64Decode char_signed code (Some []) = Inr (True, Some bs)"
    using base64_decodes_encoded [OF assms(4), of "[]" url_safe pad char_signed "[]"] by blast
  obtain cw where cw: "UTF8StringToUTF16String code = Some cw" using ascii_convertible [OF code(2)] by blast
  obtain s1 h1 n1 where s1: "encoder jn t p s = Inr (s1, Some h1)" "string_at t (Some h1) s1 = Inr (n1, cw)"
    unfolding enc by (rule entry_converts [where codec = "\<lambda>i out. Base64EncodeInternal i out url_safe pad",
      OF assms(1-3) code(1) cw]) blast
  have inverse: "UTF8StringToUTF16String a = Some w \<longleftrightarrow> UTF16StringToUTF8String w = Some a" for a w
    unfolding UTF8StringToUTF16String_def UTF16StringToUTF8String_def by (rule conversions_inverse)
  have dec: "UTF16StringToUTF8String cw = Some code" "UTF8StringToUTF16String bs = Some ws"
    using cw assms(3) inverse by blast+
  obtain s2 h2 n2 where "Base64_decode char_signed jn t (Some h1) s1 = Inr (s2, Some h2)" "string_at t (Some h2) s2 = Inr (n2, ws)"
    unfolding Base64_decode_def
    by (rule entry_converts [where codec = "Base64Decode char_signed", OF assms(1) s1(2) dec(1) code(3) dec(2)]) blast
  with s1(1) show ?thesis by blast
qed

subsection \<open>Exceptions\<close>

lemma with_scoped_ok:
  assumes "env_ok t s0" and "has_memory jn" and "jv_vars (je_vm s0) x = None" and "mk s = local_ref jn t obj s0"
    and "body (Some (jv_next (je_vm s0))) (scoped t x obj s0) = Inr (s3, r)" and "env_ok t s3" and "same_refs (scoped t x obj s0) s3"
  shows "\<exists>s4. with_scoped jn t x mk body s = Inr (s4, r) \<and> env_ok t s4 \<and> same_refs s0 s4"
proof -
  let ?h = "jv_next (je_vm s0)"
  let ?s4 = "s3\<lparr>je_vm := (je_vm s3)\<lparr>jv_refs := (jv_refs (je_vm s3))(?h := None), jv_vars := (jv_vars (je_vm s3))(x := None)\<rparr>\<rparr>"
  have fresh: "jv_refs (je_vm s0) ?h = None" using assms(1) by (simp add: env_ok_def)
  obtain s1 where p: "mk s = (s1, Some ?h)" using assms(2,4) by (simp add: local_ref_eq)
  then have "on_vm (ScopedJavaLocalRef_take t x (Some t) (Some ?h)) s1 = Inr (scoped t x obj s0)"
    using take_scoped [OF assms(2), of t x obj s0] assms(4) by simp
  moreover have "on_vm (ScopedJavaLocalRef_destroy (jn_refs jn) t x) s3 = Inr ?s4"
    by (rule destroy_scoped [OF assms(1)]) (use assms(6,7) in \<open>simp_all add: env_ok_def same_refs_def\<close>)
  ultimately have "with_scoped jn t x mk body s = Inr (?s4, r)" using p assms(5) by (simp add: with_scoped_def)
  moreover have "env_ok t ?s4" using assms(6) by (simp add: env_ok_def)
  moreover have "same_refs s0 ?s4" using assms(3,7) fresh by (simp add: same_refs_def fun_upd_idem)
  ultimately show ?thesis by blast
qed

text \<open>The classes that are asked for exist, the variables are free, the trace is well-formed.\<close>

definition info_ready :: "jni_answers \<Rightarrow> thread_id \<Rightarrow> (nat \<Rightarrow> var) \<Rightarrow> jenv \<Rightarrow> bool" where
  "info_ready jn t x s \<longleftrightarrow> has_memory jn \<and> (\<forall>name. jn_class jn name \<noteq> None) \<and> inj x \<and>
     (\<forall>i. jv_vars (je_vm s) (x i) = None) \<and>
     (\<forall>obj ws. jn_stack_trace jn obj = Some ws \<longrightarrow> Utf16ToUtf8 ws \<noteq> None)"

lemma exception_string_ok:
  assumes "env_ok t s" and "has_memory jn" and "jv_vars (je_vm s) x = None" and "Utf16ToUtf8 ws = Some text"
  shows "\<exists>s'. with_scoped jn t x (stream_to_string jn t (Some ws)) (exception_string jn t) s = Inr (s', text) \<and>
    env_ok t s' \<and> same_refs s s'"
proof -
  let ?w = "with_object (JString ws) s"
  let ?s1 = "scoped t x (je_next_object s) ?w"
  have w: "env_ok t ?w" "env_ok t ?s1" using assms(1) by (simp_all add: env_ok_def)
  have mk: "stream_to_string jn t (Some ws) s = local_ref jn t (je_next_object s) ?w"
    by (simp add: stream_to_string_def new_object_ref_def with_object_def)
  have body: "exception_string jn t (Some (jv_next (je_vm ?w))) ?s1 = Inr (?s1, text)"
    using assms by (simp add: exception_string_def ClearException_def HasException_def JavaStringToString_def string_at_def
        object_at_def usable_def has_memory_def throw_range_error_def ASSERT_NO_EXCEPTION_def env_ok_def)
  have "jv_vars (je_vm ?w) x = None" "same_refs ?s1 ?s1" using assms(3) by (simp_all add: same_refs_def)
  from with_scoped_ok [where mk = "stream_to_string jn t (Some ws)" and body = "exception_string jn t",
      OF w(1) assms(2) this(1) mk body w(2) this(2)] show ?thesis by (simp add: same_refs_def)
qed

lemma exception_string_oom:
  assumes "env_ok t s" and "has_memory jn" and "jv_vars (je_vm s) x = None"
  shows "\<exists>s' text. with_scoped jn t x (stream_to_string jn t None) (exception_string jn t) (s\<lparr>je_pending := True\<rparr>) = Inr (s', text) \<and>
    env_ok t s' \<and> same_refs s s'"
proof -
  let ?s1 = "s\<lparr>je_pending := True, je_vm := set_holder x (ScopedJavaLocalRef (Some t) None) (je_vm s)\<rparr>"
  let ?s2 = "?s1\<lparr>je_pending := False\<rparr>"
  let ?s3 = "?s2\<lparr>je_vm := drop_holder x (je_vm ?s2)\<rparr>"
  have "on_vm (ScopedJavaLocalRef_destroy (jn_refs jn) t x) ?s2 = Inr ?s3"
    by (simp add: on_vm_def ScopedJavaLocalRef_destroy_def ScopedJavaLocalRef_Reset_def local_at_def ResetLocalRef_def set_holder_def
        drop_holder_def)
  then have "with_scoped jn t x (stream_to_string jn t None) (exception_string jn t) (s\<lparr>je_pending := True\<rparr>) =
      Inr (?s3, bytes_of ''Java OOM'd in exception handling, check logcat'')"
    by (simp add: with_scoped_def stream_to_string_def on_vm_def ScopedJavaLocalRef_take_def JavaRef_new_def
        exception_string_def ClearException_def HasException_def)
  moreover have "env_ok t ?s3" "same_refs s ?s3"
    using assms(1,3) by (simp_all add: env_ok_def same_refs_def set_holder_def drop_holder_def fun_upd_idem)
  ultimately show ?thesis by blast
qed

lemma exception_text_ok:
  assumes "env_ok t s" and "info_ready jn t x s0" and "jv_vars (je_vm s) (x 5) = None"
    and "trace = jn_stack_trace jn obj"
  shows "\<exists>s' text. with_scoped jn t (x 5) (stream_to_string jn t trace) (exception_string jn t)
      (s\<lparr>je_pending := je_pending s \<or> trace = None\<rparr>) = Inr (s', text) \<and> env_ok t s' \<and> same_refs s s'"
proof (cases trace)
  case None
  with exception_string_oom [OF assms(1) _ assms(3), of jn] assms(2) show ?thesis by (simp add: info_ready_def)
next
  case (Some ws)
  with assms(2,4) obtain u where "Utf16ToUtf8 ws = Some u" unfolding info_ready_def by (metis not_None_eq)
  moreover have "s\<lparr>je_pending := je_pending s \<or> trace = None\<rparr> = s" using Some assms(1) by (simp add: env_ok_def)
  ultimately show ?thesis
    using exception_string_ok [OF assms(1) _ assms(3), of jn ws] assms(2) Some by (auto simp: info_ready_def)
qed

lemma same_refs_with_object: "same_refs (with_object ob s) s' \<longleftrightarrow> same_refs s s'"
  by (simp add: same_refs_def)

text \<open>A level of the nest: a scoped reference to a class, or to a new object.\<close>

lemma class_level:
  assumes "env_ok t s" and "info_ready jn t x s0" and "jv_vars (je_vm s) y = None" and "jn_class jn name = Some c"
    and "\<exists>s3 r. body (Some (jv_next (je_vm s))) (scoped t y c s) = Inr (s3, r) \<and> env_ok t s3 \<and> same_refs (scoped t y c s) s3"
  shows "\<exists>s4 r. with_scoped jn t y (FindClass jn t name) body s = Inr (s4, r) \<and> env_ok t s4 \<and> same_refs s s4"
proof -
  have mem: "has_memory jn" using assms(2) by (simp add: info_ready_def)
  have mk: "FindClass jn t name s = local_ref jn t c s" using assms(4) by (simp add: FindClass_def)
  from assms(5) obtain s3 r where "body (Some (jv_next (je_vm s))) (scoped t y c s) = Inr (s3, r)" "env_ok t s3"
    "same_refs (scoped t y c s) s3" by blast
  from with_scoped_ok [where mk = "FindClass jn t name" and body = body, OF assms(1) mem assms(3) mk this] show ?thesis by blast
qed

lemma object_level:
  assumes "env_ok t s" and "info_ready jn t x s0" and "jv_vars (je_vm s) y = None"
    and "\<exists>s3 r. body (Some (jv_next (je_vm s))) (scoped t y (je_next_object s) (with_object ob s)) = Inr (s3, r) \<and> env_ok t s3 \<and>
      same_refs (scoped t y (je_next_object s) (with_object ob s)) s3"
  shows "\<exists>s4 r. with_scoped jn t y (new_object_ref jn t ob) body s = Inr (s4, r) \<and> env_ok t s4 \<and> same_refs s s4"
proof -
  have mem: "has_memory jn" using assms(2) by (simp add: info_ready_def)
  let ?w = "with_object ob s"
  have mk: "new_object_ref jn t ob s = local_ref jn t (je_next_object s) ?w" by (simp add: new_object_ref_def with_object_def)
  have w: "env_ok t ?w" "jv_vars (je_vm ?w) y = None" using assms(1,3) by (simp_all add: env_ok_def)
  from assms(4) obtain s3 r where "body (Some (jv_next (je_vm ?w))) (scoped t y (je_next_object s) ?w) = Inr (s3, r)" "env_ok t s3"
    "same_refs (scoped t y (je_next_object s) ?w) s3" by auto
  from with_scoped_ok [where mk = "new_object_ref jn t ob" and body = body, OF w(1) mem w(2) mk this]
  show ?thesis by (auto simp: same_refs_with_object)
qed

lemma need_class_Some: "need_class (Some c) = Inr ()"
  by (simp add: need_class_def)

text \<open>The reference to the exception is usable, and to an object.\<close>

definition refers :: "thread_id \<Rightarrow> nat \<Rightarrow> jenv \<Rightarrow> bool" where
  "refers t e s \<longleftrightarrow> usable t e (je_vm s) \<and> je_objects s (snd (the (jv_refs (je_vm s) e))) \<noteq> None"

lemma refers_scoped: "env_ok t s \<Longrightarrow> refers t e s \<Longrightarrow> refers t e (scoped t x obj s)"
  by (cases "e = jv_next (je_vm s)") (auto simp: refers_def usable_def env_ok_def)

lemma refers_with_object: "refers t e s \<Longrightarrow> refers t e (with_object ob s)"
  by (auto simp: refers_def)

lemma GetJavaExceptionInfo_ok:
  assumes "env_ok t s" and "info_ready jn t x s" and "refers t e s"
  shows "\<exists>s' text. GetJavaExceptionInfo jn t x (Some e) s = Inr (s', text) \<and> env_ok t s' \<and> same_refs s s'"
proof -
  have x: "x i = x k \<longleftrightarrow> i = k" and v: "jv_vars (je_vm s) (x i) = None" for i k
    using assms(2) by (auto simp: info_ready_def inj_eq)
  have cls: "\<exists>c. jn_class jn n = Some c" for n using assms(2) by (auto simp: info_ready_def)
  obtain c0 c1 c3 where c: "jn_class jn ''java/lang/Throwable'' = Some c0" "jn_class jn ''java/io/ByteArrayOutputStream'' = Some c1"
    "jn_class jn ''java/io/PrintStream'' = Some c3"
    using cls [of "''java/lang/Throwable''"] cls [of "''java/io/ByteArrayOutputStream''"] cls [of "''java/io/PrintStream''"] by blast
  define a0 where "a0 = scoped t (x 0) c0 s"
  define a1 where "a1 = scoped t (x 1) c1 a0"
  define a2 where "a2 = scoped t (x 2) (je_next_object a1) (with_object JOther a1)"
  define a3 where "a3 = scoped t (x 3) c3 a2"
  define a4 where "a4 = scoped t (x 4) (je_next_object a3) (with_object JOther a3)"
  note a = a0_def a1_def a2_def a3_def a4_def
  have ok: "env_ok t a0" "env_ok t a1" "env_ok t a2" "env_ok t a3" "env_ok t a4"
    using assms(1) unfolding a by (simp_all add: env_ok_scoped env_ok_with_object)
  have free: "jv_vars (je_vm a0) (x 1) = None" "jv_vars (je_vm a1) (x 2) = None" "jv_vars (je_vm a2) (x 3) = None"
    "jv_vars (je_vm a3) (x 4) = None" "jv_vars (je_vm a4) (x 5) = None"
    unfolding a by (simp_all add: v x)
  have "refers t e a4" using assms(1,3) ok unfolding a by (simp add: refers_scoped refers_with_object env_ok_with_object)
  then obtain obj ob where th: "object_at t (Some e) a4 = Inr (obj, ob)" by (auto simp: refers_def object_at_def Let_def)
  have ps: "object_at t (Some (jv_next (je_vm a3))) a4 = Inr (je_next_object a3, JOther)"
    unfolding a4_def by (simp add: object_at_def usable_def)
  obtain s6 r where s6: "with_scoped jn t (x 5) (stream_to_string jn t (jn_stack_trace jn obj)) (exception_string jn t)
      (a4\<lparr>je_pending := je_pending a4 \<or> jn_stack_trace jn obj = None\<rparr>) = Inr (s6, r)" "env_ok t s6" "same_refs a4 s6"
    using exception_text_ok [OF ok(5) assms(2) free(5) refl] by blast
  show ?thesis
    unfolding GetJavaExceptionInfo_def
    apply (rule class_level [OF assms(1,2) v c(1)], simp only: need_class_Some obind_Inr a0_def [symmetric])
    apply (rule class_level [OF ok(1) assms(2) free(1) c(2)], simp only: need_class_Some obind_Inr a1_def [symmetric])
    apply (rule object_level [OF ok(2) assms(2) free(2)], simp only: a2_def [symmetric])
    apply (rule class_level [OF ok(3) assms(2) free(3) c(3)], simp only: need_class_Some obind_Inr a3_def [symmetric])
    apply (rule object_level [OF ok(4) assms(2) free(4)], simp only: a4_def [symmetric])
    using s6 th ps by (simp add: print_stack_trace_def Let_def)
qed

lemma CheckException_ok:
  assumes "env_ok t (s\<lparr>je_pending := False\<rparr>)" and "info_ready jn t x s" and "je_objects s (je_exception s) \<noteq> None"
  shows "\<exists>s'. CheckException g jn t x s = Inr (s', \<not> je_pending s) \<and> env_ok t s' \<and> same_refs s s'"
proof (cases "je_pending s")
  case False
  then have "s\<lparr>je_pending := False\<rparr> = s" by simp
  with False assms(1) show ?thesis by (simp add: CheckException_def HasException_def same_refs_def)
next
  case True
  have mem: "has_memory jn" using assms(2) by (simp add: info_ready_def)
  let ?h = "jv_next (je_vm s)"
  define s1 where "s1 = fst (local_ref jn t (je_exception s) s)"
  define s2 where "s2 = s1\<lparr>je_pending := False\<rparr>"
  have l: "local_ref jn t (je_exception s) s = (s1, Some ?h)" unfolding s1_def by (simp add: local_ref_eq [OF mem])
  have refs2: "jv_refs (je_vm s2) = (jv_refs (je_vm s))(?h \<mapsto> (LocalRef t, je_exception s))" "jv_vars (je_vm s2) = jv_vars (je_vm s)"
    "je_objects s2 = je_objects s"
    unfolding s2_def s1_def by (simp_all add: local_ref_eq [OF mem])
  have ok2: "env_ok t s2" using assms(1) unfolding s2_def s1_def by (simp add: local_ref_eq [OF mem] env_ok_def)
  have ready: "info_ready jn t x s2" using assms(2) refs2(2) by (simp add: info_ready_def)
  have "refers t ?h s2" using assms(3) refs2 by (simp add: refers_def usable_def)
  from GetJavaExceptionInfo_ok [OF ok2 ready this] obtain s3 u where
    s3: "(if ShouldCreateLogMessage g LOG_ERROR then GetJavaExceptionInfo jn t x (Some ?h) s2 else Inr (s2, [])) = Inr (s3, u)"
    "env_ok t s3" "same_refs s2 s3"
    using ok2 by (cases "ShouldCreateLogMessage g LOG_ERROR") (auto simp: same_refs_def)
  let ?s4 = "s3\<lparr>je_vm := (je_vm s3)\<lparr>jv_refs := (jv_refs (je_vm s3))(?h := None)\<rparr>\<rparr>"
  have "on_vm (DeleteRef t (LocalRef t) (Some ?h)) s3 = Inr ?s4"
    using s3(2,3) refs2(1) by (simp add: on_vm_def DeleteRef_def env_ok_def same_refs_def)
  then have "CheckException g jn t x s = Inr (?s4, False)"
    using True s3(1) l
    by (cases "ShouldCreateLogMessage g LOG_ERROR") (simp_all add: CheckException_def HasException_def s2_def [symmetric] Let_def)
  moreover have "env_ok t ?s4" using s3(2) by (simp add: env_ok_def)
  moreover have "same_refs s ?s4"
    using s3(3) refs2 assms(1) by (simp add: same_refs_def env_ok_def fun_upd_idem)
  ultimately show ?thesis using True by auto
qed

text \<open>\<open>CheckException\<close>. Whether or not errors are logged, and whether or not printing the stack trace throws
  itself, it answers whether there was no exception, leaves none pending, and leaves the references and
  variables as they were: the exception and all that is made to print it are released.\<close>

theorem CheckException_correct:
  assumes "env_ok t (s\<lparr>je_pending := False\<rparr>)" and "info_ready jn t x s" and "je_objects s (je_exception s) \<noteq> None"
  shows "\<exists>s'. CheckException g jn t x s = Inr (s', \<not> je_pending s) \<and> \<not> HasException s' \<and> same_refs s s'"
  using CheckException_ok [OF assms, of g] by (auto simp: env_ok_def HasException_def)

text \<open>A thread of a virtual machine that holds one string.\<close>

definition sample_jni_answers :: jni_answers where
  "sample_jni_answers =
     \<lparr>jn_refs = \<lparr>ja_attach = (\<lambda>_. True), ja_room = (\<lambda>_. True), ja_frame = (\<lambda>_. True), ja_setspecific = 0\<rparr>,
      jn_class = (\<lambda>_. Some 0), jn_chars = (\<lambda>_. True),
      jn_stack_trace = (\<lambda>_. None)\<rparr>"

definition sample_jenv :: jenv where
  "sample_jenv =
     \<lparr>je_vm = \<lparr>g_jvm = True, tls_jni_detach = (\<lambda>_. None), jv_attached = {4}, jv_refs = [0 \<mapsto> (LocalRef 4, 1)], jv_next = 1,
        jv_frames = (\<lambda>_. []), jv_collected = {}, jv_vars = Map.empty\<rparr>,
      je_objects = [0 \<mapsto> JClass, 1 \<mapsto> JString [0x48, 0x20AC, 0xD83D, 0xDE00]], je_next_object = 2, je_pending = False,
      je_exception = 0\<rparr>"

lemma sample_memory: "has_memory sample_jni_answers"
  by (simp add: has_memory_def sample_jni_answers_def)

theorem base64_java_roundtrip_witness:
  "\<exists>s1 h1 s2 h2 n. Base64_encodeUrlSafe sample_jni_answers 4 (Some 0) sample_jenv = Inr (s1, Some h1) \<and>
    Base64_decode True sample_jni_answers 4 (Some h1) s1 = Inr (s2, Some h2) \<and>
    string_at 4 (Some h2) s2 = Inr (n, [0x48, 0x20AC, 0xD83D, 0xDE00])"
proof (rule base64_java_roundtrip [OF sample_memory])
  show "string_at 4 (Some 0) sample_jenv = Inr (1, [0x48, 0x20AC, 0xD83D, 0xDE00])"
    by (simp add: string_at_def object_at_def usable_def sample_jenv_def)
  show "UTF16StringToUTF8String [0x48, 0x20AC, 0xD83D, 0xDE00] = Some [0x48, 0xE2, 0x82, 0xAC, 0xF0, 0x9F, 0x98, 0x80]"
    by (simp add: UTF16StringToUTF8String_def to_bytes_def surrogate_def utf8_bytes_def byte_of_def)
qed (simp_all add: GetBase64EncodedSize_def INT_MAX_def)

theorem string_array_roundtrip_witness:
  "\<exists>s1 s2 h. VectorToStringArray sample_jni_answers 4 7 8 9 (Some 4) [[0x48, 0x69], [], [0xE2, 0x82, 0xAC]] sample_jenv = Inr s1 \<and>
    StringArrayToVector sample_jni_answers 4 7 (Some 4) (Some h) s1 = Inr (s2, [[0x48, 0x69], [], [0xE2, 0x82, 0xAC]])"
proof -
  have "ready sample_jni_answers 4 7 8 9 sample_jenv"
    using sample_memory by (simp add: ready_def env_ok_def sample_jenv_def sample_jni_answers_def)
  moreover have "Utf8ToUtf16 [0x48, 0x69] \<noteq> None" "Utf8ToUtf16 [] \<noteq> None" "Utf8ToUtf16 [0xE2, 0x82, 0xAC] \<noteq> None"
    by (simp_all add: Utf8ToUtf16_def until_zero_def from_bytes_def continues_def surrogate_def)
  then have "Utf8ToUtf16 v \<noteq> None \<and> 0 \<notin> set v" if "v \<in> set [[0x48, 0x69], [], [0xE2, 0x82, 0xAC]]" for v
    using that by auto
  ultimately show ?thesis
    using string_array_roundtrip [of sample_jni_answers 4 7 8 9 sample_jenv "[[0x48, 0x69], [], [0xE2, 0x82, 0xAC]]"] by blast
qed

theorem CheckException_correct_witness:
  "\<exists>s'. CheckException g_log_settings sample_jni_answers 4 (\<lambda>i. 10 + i) (sample_jenv\<lparr>je_pending := True\<rparr>) = Inr (s', False) \<and>
    \<not> HasException s' \<and> jv_refs (je_vm s') = [0 \<mapsto> (LocalRef 4, 1)]"
proof -
  let ?s = "sample_jenv\<lparr>je_pending := True\<rparr>"
  have "env_ok 4 (?s\<lparr>je_pending := False\<rparr>)" by (simp add: env_ok_def sample_jenv_def)
  moreover have "info_ready sample_jni_answers 4 (\<lambda>i. 10 + i) ?s"
    using sample_memory by (auto simp: info_ready_def sample_jni_answers_def sample_jenv_def inj_def)
  moreover have "je_objects ?s (je_exception ?s) \<noteq> None" by (simp add: sample_jenv_def)
  ultimately have "\<exists>s'. CheckException g_log_settings sample_jni_answers 4 (\<lambda>i. 10 + i) ?s = Inr (s', \<not> je_pending ?s) \<and>
      \<not> HasException s' \<and> same_refs ?s s'"
    by (rule CheckException_correct)
  then show ?thesis by (auto simp: same_refs_def sample_jenv_def)
qed

end
