(* ===== verification/Java_Reference_Props.thy ===== *)
theory Java_Reference_Props
  imports Java_Reference_Laws
begin

section \<open>The reference classes keep the invariant and never fault\<close>

text \<open>
  Each operation of the reference classes, under the conditions that \<open>scoped_java_ref.h\<close> and \<open>jni_weak_ref.h\<close>
  state in their comments (a local reference stays on its thread), succeeds and keeps the invariant of
  \<open>Java_Reference_Laws\<close>. The operations of a program, in any order and on any threads, are the steps
  of a transition system; \<open>G\<close> is the set of global references that \<open>Release\<close> has given to its callers.
\<close>

definition java_ok :: "jvm \<Rightarrow> (nat \<times> ref_kind) set \<Rightarrow> bool" where
  "java_ok j R \<longleftrightarrow> jv_ok j (jv_vars j) R"

text \<open>The operation returns, in a state that keeps the invariant.\<close>

definition returns_ok :: "jvm outcome \<Rightarrow> (nat \<times> ref_kind) set \<Rightarrow> bool" where
  "returns_ok m R \<longleftrightarrow> (\<exists>j'. m = Inr j' \<and> java_ok j' R)"

lemma returns_okI: "m = Inr j' \<Longrightarrow> java_ok j' R \<Longrightarrow> returns_ok m R"
  by (simp add: returns_ok_def)

subsection \<open>Variables\<close>

lemma fits_unique: "fits hl k \<Longrightarrow> fits hl k' \<Longrightarrow> k = k'"
  by (cases hl) auto

lemma take_holder:
  assumes "java_ok j R" and "jv_vars j x = Some hl" and "holder_obj hl' = None" and "holder_obj hl \<noteq> None \<Longrightarrow> fits hl k"
  shows "jv_ok j ((jv_vars j)(x \<mapsto> hl')) (R \<union> tag k (holder_obj hl))" and "tag k (holder_obj hl) \<inter> R = {}"
proof -
  have O: "owned_ok (jv_refs j) (jv_vars j) R" and r: "jrefs_ok j" using assms(1) by (auto simp: java_ok_def jv_ok_def)
  have "owned_ok (jv_refs j) ((jv_vars j)(x \<mapsto> hl')) (R \<union> tag k (holder_obj hl)) \<and> tag k (holder_obj hl) \<inter> R = {}"
  proof (cases "holder_obj hl")
    case None
    then have "held (jv_vars j) x = Some None" using assms(2) by (simp add: held_def)
    with None owned_ok_drop(2) [OF O] assms(3) show ?thesis by simp
  next
    case (Some h)
    obtain k' where k: "fits hl k'" "owned_ok (jv_refs j) ((jv_vars j)(x \<mapsto> hl')) (insert (h, k') R)"
      by (rule owned_ok_take [OF O assms(2) Some assms(3)]) blast
    have "k' = k" using fits_unique [OF k(1)] assms(4) Some by simp
    moreover have "(h, k) \<notin> R"
      using owned_okD(3) [OF O, of h k] assms(2) Some by (auto simp: unowned_def held_def)
    ultimately show ?thesis using k(2) Some by simp
  qed
  with r show "jv_ok j ((jv_vars j)(x \<mapsto> hl')) (R \<union> tag k (holder_obj hl))" "tag k (holder_obj hl) \<inter> R = {}"
    by (simp_all add: jv_ok_def)
qed

lemma jrefs_ok_vars [simp]: "jrefs_ok (j\<lparr>jv_vars := V\<rparr>) = jrefs_ok j"
  by (simp add: jrefs_ok_def)

lemma put_holder:
  assumes "jv_ok j V (R \<union> tag k (holder_obj hl))" and "tag k (holder_obj hl) \<inter> R = {}"
    and "held V x = None \<or> held V x = Some None" and "V(x \<mapsto> hl) = (jv_vars j)(x \<mapsto> hl)"
    and "holder_obj hl \<noteq> None \<Longrightarrow> fits hl k"
  shows "java_ok (set_holder x hl j) R"
proof -
  have O: "owned_ok (jv_refs j) V (R \<union> tag k (holder_obj hl))" using assms(1) by (simp add: jv_ok_def)
  have "owned_ok (jv_refs j) (V(x \<mapsto> hl)) R"
  proof (cases "holder_obj hl")
    case None
    with owned_ok_drop(2) [OF O assms(3)] show ?thesis by simp
  next
    case (Some h)
    have "R \<union> tag k (holder_obj hl) - {(h, k)} = R" using assms(2) Some by auto
    with owned_ok_give [OF O assms(3), of h k hl] Some assms(5) show ?thesis by simp
  qed
  with assms(1,4) show ?thesis by (simp add: java_ok_def jv_ok_def set_holder_def)
qed

lemma drop_holder_ok:
  assumes "java_ok j R" and "held (jv_vars j) x = None \<or> held (jv_vars j) x = Some None"
  shows "java_ok (drop_holder x j) R"
  using assms owned_ok_drop(1) [of "jv_refs j" "jv_vars j" R x] by (auto simp: java_ok_def jv_ok_def drop_holder_def)

lemma new_holder_ok:
  assumes "java_ok j R" and "jv_vars j x = None" and "holder_obj hl = None"
  shows "java_ok (set_holder x hl j) R"
  using put_holder [of j "jv_vars j" R GlobalRef hl x] assms by (simp add: java_ok_def held_def)

lemma held_of: "jv_vars j x = Some hl \<Longrightarrow> held (jv_vars j) x = Some (holder_obj hl)" "V x = None \<Longrightarrow> held V x = None"
  by (simp_all add: held_def)

subsection \<open>Local references\<close>

text \<open>A local variable whose reference, if any, belongs to thread \<open>t\<close>.\<close>

definition local_var :: "thread_id \<Rightarrow> var \<Rightarrow> jvm \<Rightarrow> bool" where
  "local_var t x j \<longleftrightarrow> (\<exists>env p. jv_vars j x = Some (ScopedJavaLocalRef env p) \<and> (p = None \<or> env = Some t))"

lemma ScopedJavaLocalRef_Reset_obj_ok:
  assumes "works vm" and "java_ok j R" and "local_var t x j" and "arg_ok t obj j" and "env = None \<or> env = Some t"
  shows "returns_ok (ScopedJavaLocalRef_Reset_obj vm t x env obj j) R"
proof -
  from assms(3) obtain env' p where x: "jv_vars j x = Some (ScopedJavaLocalRef env' p)" "p = None \<or> env' = Some t"
    unfolding local_var_def by blast
  let ?V = "(jv_vars j)(x \<mapsto> ScopedJavaLocalRef env' None)"
  have t: "jv_ok j ?V (R \<union> tag (LocalRef t) p)" "tag (LocalRef t) p \<inter> R = {}"
    using take_holder [OF assms(2) x(1), of "ScopedJavaLocalRef env' None" "LocalRef t"] x(2) by auto
  obtain j' q where s: "SetNewLocalRef vm t env obj p j = Inr (j', t, q)" "jv_ok j' ?V (R \<union> tag (LocalRef t) q)"
    "tag (LocalRef t) q \<inter> R = {}" "jv_vars j' = jv_vars j"
    by (rule SetNewLocalRef_ok [OF assms(1) t assms(4,5)]) blast
  have "java_ok (set_holder x (ScopedJavaLocalRef (Some t) q) j') R"
    by (rule put_holder [where V = ?V and k = "LocalRef t"]) (use s in \<open>simp_all add: held_def\<close>)
  with s(1) x(1) show ?thesis by (intro returns_okI) (simp_all add: ScopedJavaLocalRef_Reset_obj_def local_at_def)
qed

text \<open>What a variable holds fits it, and can be passed on on its thread.\<close>

lemma held_fits:
  assumes "java_ok j R" and "jv_vars j y = Some hl" and "holder_obj hl = Some h"
  shows "\<exists>k obj. jv_refs j h = Some (k, obj) \<and> fits hl k"
  using owned_okD(2) [of "jv_refs j" "jv_vars j" R y hl h] assms by (simp add: java_ok_def jv_ok_def)

lemma held_arg:
  assumes "java_ok j R" and "jv_vars j y = Some hl" and "\<And>t'. fits hl (LocalRef t') \<Longrightarrow> t' = t"
  shows "arg_ok t (holder_obj hl) j"
  using held_fits [OF assms(1,2)] assms(3) by (auto simp: arg_ok_def usable_def split: option.splits ref_kind.splits)

lemma ScopedJavaLocalRef_copy_ok:
  assumes "works vm" and "java_ok j R" and "jv_vars j x = None" and "jv_vars j y = Some (ScopedJavaLocalRef env p)"
    and "env = None \<or> env = Some t"
  shows "returns_ok (ScopedJavaLocalRef_copy vm t x y j) R"
proof -
  have arg: "arg_ok t p j" using held_arg [OF assms(2,4), of t] assms(5) by auto
  have e: "env = Some t" if "p \<noteq> None"
    using held_fits [OF assms(2,4)] that assms(5) by auto
  have t: "jv_ok j (jv_vars j) (R \<union> tag (LocalRef t) None)" using assms(2) by (simp add: java_ok_def)
  obtain j' q where s: "SetNewLocalRef vm t env p None j = Inr (j', t, q)" "jv_ok j' (jv_vars j) (R \<union> tag (LocalRef t) q)"
    "tag (LocalRef t) q \<inter> R = {}" "jv_vars j' = jv_vars j"
    by (rule SetNewLocalRef_ok [OF assms(1) t _ arg assms(5)]) (simp, blast)
  have "p = None \<Longrightarrow> q = None" using s(1)
    by (auto simp: SetNewLocalRef_def NewRef_def obind_eq_Inr DeleteRef_def)
  then have "java_ok (set_holder x (ScopedJavaLocalRef env q) j') R"
    by (intro put_holder [where V = "jv_vars j" and k = "LocalRef t"]) (use s e assms(3) in \<open>auto simp: held_def\<close>)
  with s(1) assms(4) show ?thesis by (intro returns_okI) (simp_all add: ScopedJavaLocalRef_copy_def local_at_def)
qed
lemma ScopedJavaLocalRef_assign_ok:
  assumes "works vm" and "java_ok j R" and "local_var t x j" and "jv_vars j y = Some (ScopedJavaLocalRef env p)"
    and "env = None \<or> env = Some t"
  shows "returns_ok (ScopedJavaLocalRef_assign vm t x y j) R"
proof -
  have "arg_ok t p j" using held_arg [OF assms(2,4), of t] assms(5) by auto
  from ScopedJavaLocalRef_Reset_obj_ok [OF assms(1-3) this assms(5)] assms(4) show ?thesis
    by (simp add: ScopedJavaLocalRef_assign_def local_at_def)
qed

text \<open>A reference of any class whose object can be used on thread \<open>t\<close>.\<close>

definition readable :: "thread_id \<Rightarrow> var \<Rightarrow> jvm \<Rightarrow> bool" where
  "readable t y j \<longleftrightarrow> local_var t y j \<or> (\<exists>p. jv_vars j y = Some (ScopedJavaGlobalRef p))"

lemma readable_arg:
  assumes "java_ok j R" and "readable t y j"
  obtains p where "JavaRef_obj j y = Inr p" and "arg_ok t p j"
proof -
  from assms(2) obtain hl where y: "jv_vars j y = Some hl" "hl = ScopedJavaGlobalRef (holder_obj hl) \<or>
      (\<exists>env. hl = ScopedJavaLocalRef env (holder_obj hl) \<and> (holder_obj hl = None \<or> env = Some t))"
    unfolding readable_def local_var_def by force
  have "JavaRef_obj j y = Inr (holder_obj hl)" using y by (cases hl) (auto simp: JavaRef_obj_def)
  moreover have "arg_ok t (holder_obj hl) j"
  proof (cases "holder_obj hl = None")
    case True
    then show ?thesis by (simp add: arg_ok_def)
  next
    case False
    with y(2) held_arg [OF assms(1) y(1)] show ?thesis by (cases hl) auto
  qed
  ultimately show thesis by (rule that)
qed

lemma ScopedJavaLocalRef_Reset_from_ok:
  assumes "works vm" and "java_ok j R" and "jv_vars j x = Some (ScopedJavaLocalRef env p)" and "env = None \<or> env = Some t"
    and "readable t y j"
  shows "returns_ok (ScopedJavaLocalRef_Reset_from vm t x y j) R"
proof -
  have "local_var t x j" using assms(3,4) held_fits [OF assms(2,3)] by (cases p) (auto simp: local_var_def)
  moreover obtain q where "JavaRef_obj j y = Inr q" "arg_ok t q j" by (rule readable_arg [OF assms(2,5)])
  ultimately show ?thesis
    using ScopedJavaLocalRef_Reset_obj_ok [OF assms(1,2)] assms(3,4)
    by (simp add: ScopedJavaLocalRef_Reset_from_def local_at_def)
qed

lemma ScopedJavaLocalRef_from_ok:
  assumes "works vm" and "java_ok j R" and "jv_vars j x = None" and "readable t y j"
    and "\<And>env p. jv_vars j y = Some (ScopedJavaLocalRef env p) \<Longrightarrow> env = None \<or> env = Some t"
  shows "returns_ok (ScopedJavaLocalRef_from vm t x y j) R"
proof -
  let ?j = "ScopedJavaLocalRef_new x j"
  have n: "java_ok ?j R" using assms(2,3) by (simp add: ScopedJavaLocalRef_new_def new_holder_ok)
  have x: "jv_vars ?j x = Some (ScopedJavaLocalRef None None)" and v: "z \<noteq> x \<Longrightarrow> jv_vars ?j z = jv_vars j z" for z
    by (simp_all add: ScopedJavaLocalRef_new_def set_holder_def)
  have y: "y \<noteq> x" using assms(3,4) by (auto simp: readable_def local_var_def)
  have r: "readable t y ?j" using assms(4) v [OF y] by (simp add: readable_def local_var_def)
  show ?thesis
  proof (cases "\<exists>env p. jv_vars j y = Some (ScopedJavaLocalRef env p)")
    case True
    then obtain env p where e: "jv_vars j y = Some (ScopedJavaLocalRef env p)" by blast
    have "local_var t x ?j" using x by (simp add: local_var_def)
    from ScopedJavaLocalRef_assign_ok [OF assms(1) n this, of y env p] e v [OF y] assms(5) show ?thesis
      by (simp add: ScopedJavaLocalRef_from_def)
  next
    case False
    with ScopedJavaLocalRef_Reset_from_ok [OF assms(1) n x _ r] show ?thesis
      by (simp add: ScopedJavaLocalRef_from_def split: option.splits holder.splits)
  qed
qed

lemma ScopedJavaLocalRef_take_ok:
  assumes "java_ok j R" and "jv_vars j x = None"
    and "obj = None \<or> env = Some t \<and> (\<exists>h. obj = Some h \<and> is_local_of t (jv_refs j h) \<and> unowned (held (jv_vars j)) h \<and>
      h \<notin> fst ` R)"
  shows "returns_ok (ScopedJavaLocalRef_take t x env obj j) R"
proof (cases obj)
  case None
  with assms(1,2) show ?thesis
    by (simp add: returns_ok_def ScopedJavaLocalRef_take_def JavaRef_new_def new_holder_ok)
next
  case (Some h)
  with assms(3) obtain o' where h: "env = Some t" "jv_refs j h = Some (LocalRef t, o')" "unowned (held (jv_vars j)) h" "h \<notin> fst ` R"
    by (auto simp: is_local_of_def)
  have "jv_ok j (jv_vars j) (R \<union> {(h, LocalRef t)})"
    using assms(1) h owned_okD [of "jv_refs j" "jv_vars j" R]
    by (auto simp: java_ok_def jv_ok_def intro!: owned_okI)
  moreover have "tag (LocalRef t) (Some h) \<inter> R = {}" using h(4) by force
  ultimately have "java_ok (set_holder x (ScopedJavaLocalRef env obj) j) R"
    using Some h(1) assms(2) by (intro put_holder [where V = "jv_vars j" and k = "LocalRef t"]) (simp_all add: held_def)
  with Some h show ?thesis
    by (intro returns_okI) (simp_all add: ScopedJavaLocalRef_take_def JavaRef_new_def is_local_of_def)
qed

lemma ScopedJavaLocalRef_Reset_ok:
  assumes "works vm" and "java_ok j R" and "local_var t x j"
  obtains j' env where "ScopedJavaLocalRef_Reset vm t x j = Inr j'" and "java_ok j' R"
    and "jv_vars j' x = Some (ScopedJavaLocalRef env None)"
proof -
  from assms(3) obtain env p where x: "jv_vars j x = Some (ScopedJavaLocalRef env p)" "p = None \<or> env = Some t"
    unfolding local_var_def by blast
  let ?V = "(jv_vars j)(x \<mapsto> ScopedJavaLocalRef env None)"
  have t: "jv_ok j ?V (R \<union> tag (LocalRef t) p)" "tag (LocalRef t) p \<inter> R = {}"
    using take_holder [OF assms(2) x(1), of "ScopedJavaLocalRef env None" "LocalRef t"] x(2) by auto
  obtain j' where s: "ResetLocalRef vm t env p j = Inr (j', None)" "jv_ok j' ?V R" "jv_vars j' = jv_vars j"
    by (rule ResetLocalRef_ok [OF assms(1) t x(2)]) blast
  have "java_ok (set_holder x (ScopedJavaLocalRef env None) j') R"
    by (rule put_holder [where V = ?V and k = "LocalRef t"]) (use s in \<open>simp_all add: held_def\<close>)
  with s(1) x(1) show thesis
    by (intro that [of "set_holder x (ScopedJavaLocalRef env None) j'" env])
      (simp_all add: ScopedJavaLocalRef_Reset_def local_at_def set_holder_def)
qed

lemma ScopedJavaLocalRef_destroy_ok:
  assumes "works vm" and "java_ok j R" and "local_var t x j"
  shows "returns_ok (ScopedJavaLocalRef_destroy vm t x j) R"
proof -
  obtain j' env where "ScopedJavaLocalRef_Reset vm t x j = Inr j'" "java_ok j' R" "jv_vars j' x = Some (ScopedJavaLocalRef env None)"
    by (rule ScopedJavaLocalRef_Reset_ok [OF assms])
  then show ?thesis
    by (intro returns_okI [of _ "drop_holder x j'"])
      (simp_all add: ScopedJavaLocalRef_destroy_def drop_holder_ok held_def)
qed

text \<open>The caller of \<open>Release\<close> has the reference.\<close>

lemma ScopedJavaLocalRef_Release_ok:
  assumes "java_ok j R" and "jv_vars j x = Some (ScopedJavaLocalRef env p)"
  obtains j' where "ScopedJavaLocalRef_Release x j = Inr (j', p)" and "java_ok j' R"
proof -
  obtain t where t: "p \<noteq> None \<Longrightarrow> env = Some t" using held_fits [OF assms] by (cases p) auto
  let ?l = "ScopedJavaLocalRef env None"
  have "jv_ok j ((jv_vars j)(x \<mapsto> ?l)) (R \<union> tag (LocalRef t) p)"
    using take_holder(1) [OF assms, of ?l "LocalRef t"] t by auto
  then have "jv_ok j ((jv_vars j)(x \<mapsto> ?l)) R" by (cases p) (auto simp: jv_ok_def intro: owned_ok_forget)
  then have "java_ok (set_holder x ?l j) R" by (simp add: java_ok_def jv_ok_def set_holder_def)
  with assms(2) show thesis
    by (intro that) (simp_all add: ScopedJavaLocalRef_Release_def local_at_def ReleaseInternal_def)
qed
subsection \<open>Global references\<close>

lemma ScopedJavaGlobalRef_Reset_obj_ok:
  assumes "works vm" and "java_ok j R" and "jv_vars j x = Some (ScopedJavaGlobalRef p)" and "arg_ok t obj j"
    and "env = None \<or> env = Some t"
  shows "returns_ok (ScopedJavaGlobalRef_Reset_obj vm t x env obj j) R"
proof -
  let ?V = "(jv_vars j)(x \<mapsto> ScopedJavaGlobalRef None)"
  have t: "jv_ok j ?V (R \<union> tag GlobalRef p)" "tag GlobalRef p \<inter> R = {}"
    using take_holder [OF assms(2,3), of "ScopedJavaGlobalRef None" GlobalRef] by auto
  obtain j' q where s: "SetNewGlobalRef vm t env obj p j = Inr (j', q)" "jv_ok j' ?V (R \<union> tag GlobalRef q)"
    "tag GlobalRef q \<inter> R = {}" "jv_vars j' = jv_vars j"
    by (rule SetNewGlobalRef_ok [OF assms(1) t assms(4,5)]) blast
  have "java_ok (set_holder x (ScopedJavaGlobalRef q) j') R"
    by (rule put_holder [where V = ?V and k = GlobalRef]) (use s in \<open>simp_all add: held_def\<close>)
  with s(1) assms(3) show ?thesis by (intro returns_okI) (simp_all add: ScopedJavaGlobalRef_Reset_obj_def global_at_def)
qed

lemma ScopedJavaGlobalRef_Reset_from_ok:
  assumes "works vm" and "java_ok j R" and "jv_vars j x = Some (ScopedJavaGlobalRef p)" and "readable t y j"
  shows "returns_ok (ScopedJavaGlobalRef_Reset_from vm t x y j) R"
proof -
  obtain q where "JavaRef_obj j y = Inr q" "arg_ok t q j" by (rule readable_arg [OF assms(2,4)])
  with ScopedJavaGlobalRef_Reset_obj_ok [OF assms(1-3)] show ?thesis by (simp add: ScopedJavaGlobalRef_Reset_from_def)
qed

lemma ScopedJavaGlobalRef_new_ok:
  assumes "java_ok j R" and "jv_vars j x = None"
  shows "java_ok (ScopedJavaGlobalRef_new x j) R" and "jv_vars (ScopedJavaGlobalRef_new x j) = (jv_vars j)(x \<mapsto> ScopedJavaGlobalRef None)"
    and "jv_refs (ScopedJavaGlobalRef_new x j) = jv_refs j"
  using assms by (simp_all add: ScopedJavaGlobalRef_new_def new_holder_ok) (simp_all add: set_holder_def)

lemma ScopedJavaGlobalRef_from_ok:
  assumes "works vm" and "java_ok j R" and "jv_vars j x = None" and "readable t y j"
  shows "returns_ok (ScopedJavaGlobalRef_from vm t x y j) R"
proof -
  note n = ScopedJavaGlobalRef_new_ok [OF assms(2,3)]
  have "readable t y (ScopedJavaGlobalRef_new x j)"
    using assms(3,4) n(2) by (auto simp: readable_def local_var_def)
  with ScopedJavaGlobalRef_Reset_from_ok [OF assms(1) n(1), of x None] n(2) show ?thesis
    by (simp add: ScopedJavaGlobalRef_from_def)
qed

lemma ScopedJavaGlobalRef_of_ok:
  assumes "works vm" and "java_ok j R" and "jv_vars j x = None" and "arg_ok t obj j" and "env = None \<or> env = Some t"
  shows "returns_ok (ScopedJavaGlobalRef_of vm t x env obj j) R"
proof -
  note n = ScopedJavaGlobalRef_new_ok [OF assms(2,3)]
  have "arg_ok t obj (ScopedJavaGlobalRef_new x j)" using assms(4) arg_ok_refs [OF n(3)] by simp
  with ScopedJavaGlobalRef_Reset_obj_ok [OF assms(1) n(1), of x None] n(2) assms(5) show ?thesis
    by (simp add: ScopedJavaGlobalRef_of_def)
qed

lemma ScopedJavaGlobalRef_Reset_ok:
  assumes "works vm" and "java_ok j R" and "jv_vars j x = Some (ScopedJavaGlobalRef p)"
  obtains j' where "ScopedJavaGlobalRef_Reset vm t x j = Inr j'" and "java_ok j' R"
    and "jv_vars j' x = Some (ScopedJavaGlobalRef None)"
proof -
  let ?V = "(jv_vars j)(x \<mapsto> ScopedJavaGlobalRef None)"
  have t: "jv_ok j ?V (R \<union> tag GlobalRef p)" "tag GlobalRef p \<inter> R = {}"
    using take_holder [OF assms(2,3), of "ScopedJavaGlobalRef None" GlobalRef] by auto
  obtain j' where s: "ResetGlobalRef vm t p j = Inr (j', None)" "jv_ok j' ?V R" "jv_vars j' = jv_vars j"
    by (rule ResetGlobalRef_ok [OF assms(1) t]) blast
  have "java_ok (set_holder x (ScopedJavaGlobalRef None) j') R"
    by (rule put_holder [where V = ?V and k = GlobalRef]) (use s in \<open>simp_all add: held_def\<close>)
  with s(1) assms(3) show thesis
    by (intro that [of "set_holder x (ScopedJavaGlobalRef None) j'"])
      (simp_all add: ScopedJavaGlobalRef_Reset_def global_at_def set_holder_def)
qed

lemma ScopedJavaGlobalRef_destroy_ok:
  assumes "works vm" and "java_ok j R" and "jv_vars j x = Some (ScopedJavaGlobalRef p)"
  shows "returns_ok (ScopedJavaGlobalRef_destroy vm t x j) R"
proof -
  obtain j' where "ScopedJavaGlobalRef_Reset vm t x j = Inr j'" "java_ok j' R" "jv_vars j' x = Some (ScopedJavaGlobalRef None)"
    by (rule ScopedJavaGlobalRef_Reset_ok [OF assms])
  then show ?thesis
    by (intro returns_okI [of _ "drop_holder x j'"])
      (simp_all add: ScopedJavaGlobalRef_destroy_def drop_holder_ok held_def)
qed

lemma ScopedJavaGlobalRef_Release_ok:
  assumes "java_ok j R" and "jv_vars j x = Some (ScopedJavaGlobalRef p)"
  obtains j' where "ScopedJavaGlobalRef_Release x j = Inr (j', p)" and "java_ok j' (R \<union> tag GlobalRef p)"
proof -
  let ?g = "ScopedJavaGlobalRef None"
  have "jv_ok j ((jv_vars j)(x \<mapsto> ?g)) (R \<union> tag GlobalRef p)"
    using take_holder(1) [OF assms, of ?g GlobalRef] by auto
  then have "java_ok (set_holder x ?g j) (R \<union> tag GlobalRef p)" by (simp add: java_ok_def jv_ok_def set_holder_def)
  with assms(2) show thesis
    by (intro that) (simp_all add: ScopedJavaGlobalRef_Release_def global_at_def ReleaseInternal_def)
qed
subsection \<open>Weak global references\<close>

lemma JavaObjectWeakGlobalRef_Assign_ok:
  assumes "works vm" and "java_ok j R" and "jv_vars j x = Some (JavaObjectWeakGlobalRef p)"
    and "jv_vars j y = Some (JavaObjectWeakGlobalRef p')"
  shows "returns_ok (JavaObjectWeakGlobalRef_Assign vm t x y j) R"
proof (cases "y = x")
  case True
  with assms(2,3) show ?thesis by (simp add: returns_ok_def JavaObjectWeakGlobalRef_Assign_def weak_at_def)
next
  case False
  let ?V = "(jv_vars j)(x \<mapsto> JavaObjectWeakGlobalRef None)"
  have t: "jv_ok j ?V (R \<union> tag WeakGlobalRef p)" "tag WeakGlobalRef p \<inter> R = {}"
    using take_holder [OF assms(2,3), of "JavaObjectWeakGlobalRef None" WeakGlobalRef] by auto
  obtain j1 j2 where d: "AttachCurrentThread vm t j = Inr (j1, t)" "DeleteRef t WeakGlobalRef p j1 = Inr j2"
    "jv_ok j2 ?V R" "jv_vars j2 = jv_vars j" "t \<in> jv_attached j2"
    by (rule reset_ref [OF assms(1) t]) blast
  have y: "?V y = Some (JavaObjectWeakGlobalRef p')" using False assms(4) by simp
  have "arg_ok t p' j2"
    using owned_okD(2) [of "jv_refs j2" ?V R y "JavaObjectWeakGlobalRef p'"] d(3) y
    by (auto simp: arg_ok_def usable_def jv_ok_def split: option.splits)
  then obtain j3 q where n: "NewRef vm t WeakGlobalRef p' j2 = Inr (j3, q)" "jv_ok j3 ?V (R \<union> tag WeakGlobalRef q)"
    "tag WeakGlobalRef q \<inter> R = {}" "jv_vars j3 = jv_vars j2"
    by (rule NewRef_ok [OF d(3,5), of p' WeakGlobalRef vm]) (simp, blast)
  have "java_ok (set_holder x (JavaObjectWeakGlobalRef q) j3) R"
    by (rule put_holder [where V = ?V and k = WeakGlobalRef]) (use n d(4) in \<open>simp_all add: held_def\<close>)
  with False d n assms(3,4) show ?thesis
    by (intro returns_okI) (simp_all add: JavaObjectWeakGlobalRef_Assign_def weak_at_def)
qed

lemma JavaObjectWeakGlobalRef_copy_ok:
  assumes "works vm" and "java_ok j R" and "jv_vars j x = None" and "jv_vars j y = Some (JavaObjectWeakGlobalRef p)"
  shows "returns_ok (JavaObjectWeakGlobalRef_copy vm t x y j) R"
proof -
  let ?j = "JavaObjectWeakGlobalRef_new x j"
  have "java_ok ?j R" using assms(2,3) by (simp add: JavaObjectWeakGlobalRef_new_def new_holder_ok)
  moreover have "jv_vars ?j x = Some (JavaObjectWeakGlobalRef None)" "jv_vars ?j y = Some (JavaObjectWeakGlobalRef p)"
    using assms(3,4) by (auto simp: JavaObjectWeakGlobalRef_new_def set_holder_def)
  ultimately show ?thesis
    using JavaObjectWeakGlobalRef_Assign_ok [OF assms(1)] by (simp add: JavaObjectWeakGlobalRef_copy_def)
qed

lemma JavaObjectWeakGlobalRef_of_ok:
  assumes "java_ok j R" and "jv_vars j x = None" and "t \<in> jv_attached j" and "usable t h j"
    and "ja_room vm (jv_next j)" and "snd (the (jv_refs j h)) \<notin> jv_collected j"
  shows "returns_ok (JavaObjectWeakGlobalRef_of vm t x t (Some h) j) R"
proof -
  have j: "jv_ok j (jv_vars j) R" using assms(1) by (simp add: java_ok_def)
  have a: "arg_ok t (Some h) j" using assms(4) by (simp add: arg_ok_def)
  obtain j' q where n: "NewRef vm t WeakGlobalRef (Some h) j = Inr (j', q)" "jv_ok j' (jv_vars j) (R \<union> tag WeakGlobalRef q)"
    "tag WeakGlobalRef q \<inter> R = {}" "jv_vars j' = jv_vars j" "q \<noteq> None"
    by (rule NewRef_ok [OF j assms(3) a, of WeakGlobalRef vm]) (use assms(5,6) in \<open>simp, auto\<close>)
  have "java_ok (set_holder x (JavaObjectWeakGlobalRef q) j') R"
    by (rule put_holder [where V = "jv_vars j" and k = WeakGlobalRef]) (use n assms(2) in \<open>simp_all add: held_def\<close>)
  with n show ?thesis by (intro returns_okI) (simp_all add: JavaObjectWeakGlobalRef_of_def)
qed

lemma JavaObjectWeakGlobalRef_reset_ok:
  assumes "works vm" and "java_ok j R" and "jv_vars j x = Some (JavaObjectWeakGlobalRef p)"
  obtains j' where "JavaObjectWeakGlobalRef_reset vm t x j = Inr j'" and "java_ok j' R"
    and "jv_vars j' x = Some (JavaObjectWeakGlobalRef None)"
proof (cases "p = None")
  case True
  with assms(2,3) that [of j] show thesis by (simp add: JavaObjectWeakGlobalRef_reset_def weak_at_def)
next
  case False
  let ?V = "(jv_vars j)(x \<mapsto> JavaObjectWeakGlobalRef None)"
  have t: "jv_ok j ?V (R \<union> tag WeakGlobalRef p)" "tag WeakGlobalRef p \<inter> R = {}"
    using take_holder [OF assms(2,3), of "JavaObjectWeakGlobalRef None" WeakGlobalRef] by auto
  obtain j1 j2 where d: "AttachCurrentThread vm t j = Inr (j1, t)" "DeleteRef t WeakGlobalRef p j1 = Inr j2"
    "jv_ok j2 ?V R" "jv_vars j2 = jv_vars j"
    by (rule reset_ref [OF assms(1) t]) blast
  have "java_ok (set_holder x (JavaObjectWeakGlobalRef None) j2) R"
    by (rule put_holder [where V = ?V and k = WeakGlobalRef]) (use d in \<open>simp_all add: held_def\<close>)
  with False d assms(3) show thesis
    by (intro that [of "set_holder x (JavaObjectWeakGlobalRef None) j2"])
      (auto simp: JavaObjectWeakGlobalRef_reset_def weak_at_def set_holder_def)
qed

lemma JavaObjectWeakGlobalRef_destroy_ok:
  assumes "works vm" and "java_ok j R" and "jv_vars j x = Some (JavaObjectWeakGlobalRef p)"
  shows "returns_ok (JavaObjectWeakGlobalRef_destroy vm t x j) R"
proof -
  obtain j' where "JavaObjectWeakGlobalRef_reset vm t x j = Inr j'" "java_ok j' R"
    "jv_vars j' x = Some (JavaObjectWeakGlobalRef None)"
    by (rule JavaObjectWeakGlobalRef_reset_ok [OF assms])
  then show ?thesis
    by (intro returns_okI [of _ "drop_holder x j'"])
      (simp_all add: JavaObjectWeakGlobalRef_destroy_def drop_holder_ok held_def)
qed

text \<open>\<open>get\<close> gives a local reference to the object of the weak one, or none.\<close>

lemma JavaObjectWeakGlobalRef_get_ok:
  assumes "java_ok j R" and "jv_vars j z = None" and "jv_vars j x = Some (JavaObjectWeakGlobalRef p)" and "t \<in> jv_attached j"
  obtains j' q where "JavaObjectWeakGlobalRef_get vm t z x t j = Inr j'" and "java_ok j' R"
    and "jv_vars j' = (jv_vars j)(z \<mapsto> ScopedJavaLocalRef (Some t) q)"
    and "\<And>h. q = Some h \<Longrightarrow> p \<noteq> None \<and> jv_refs j' h = Some (LocalRef t, snd (the (jv_refs j (the p))))"
    and "q = None \<Longrightarrow> p = None \<or> \<not> ja_room vm (jv_next j) \<or> snd (the (jv_refs j (the p))) \<in> jv_collected j"
proof -
  have j: "jv_ok j (jv_vars j) R" using assms(1) by (simp add: java_ok_def)
  have a: "arg_ok t p j" using held_arg [OF assms(1,3), of t] by auto
  obtain j' q where n: "NewRef vm t (LocalRef t) p j = Inr (j', q)" "jv_ok j' (jv_vars j) (R \<union> tag (LocalRef t) q)"
    "tag (LocalRef t) q \<inter> R = {}" "jv_vars j' = jv_vars j"
    "q = None \<longrightarrow> p = None \<or> \<not> ja_room vm (jv_next j) \<or> snd (the (jv_refs j (the p))) \<in> jv_collected j"
    "\<And>h. q = Some h \<Longrightarrow> jv_refs j' h = Some (LocalRef t, snd (the (jv_refs j (the p))))"
    by (rule NewRef_ok [OF j assms(4) a, of "LocalRef t" vm]) (simp, blast)
  let ?j = "set_holder z (ScopedJavaLocalRef (Some t) q) j'"
  have "java_ok ?j R"
    by (rule put_holder [where V = "jv_vars j" and k = "LocalRef t"]) (use n assms(2) in \<open>simp_all add: held_def\<close>)
  moreover have "JavaRef_new t (Some t) q j' = Inr q" using n(6) by (auto simp: JavaRef_new_def is_local_of_def split: option.splits)
  moreover have "p = None \<Longrightarrow> j' = j \<and> q = None" using n(1) assms(4) by (simp add: NewRef_def)
  ultimately show thesis using n assms(3)
    by (intro that [of ?j q])
      (auto simp: JavaObjectWeakGlobalRef_get_def weak_at_def GetRealObject_def ScopedJavaLocalRef_take_def, auto simp: set_holder_def)
qed
subsection \<open>Programs\<close>

text \<open>What a thread may do: the operations of the classes; calls of the virtual machine that make a local
  reference to an object, or delete a released global one; the end of a thread; a collection.\<close>

datatype java_op =
    Attach | End_Thread | Call_Java nat | Collect nat | Delete_Released nat | Push_Frame int | Pop_Frame
  | Local_New var | Local_Copy var var | Local_From var var | Local_Take var "thread_id option" ptr | Local_Assign var var
  | Local_Reset_From var var | Local_Reset_Obj var "thread_id option" ptr | Local_Reset var | Local_Destroy var | Local_Release var
  | Global_New var | Global_From var var | Global_Of var "thread_id option" ptr | Global_Reset_From var var
  | Global_Reset_Obj var "thread_id option" ptr | Global_Reset var | Global_Destroy var | Global_Release var
  | Weak_New var | Weak_Copy var var | Weak_Of var ptr | Weak_Assign var var | Weak_Get var var | Weak_Reset var | Weak_Destroy var

text \<open>The new state and, for \<open>Release\<close>, the reference given away.\<close>

definition no_ptr :: "jvm outcome \<Rightarrow> (jvm \<times> ptr) outcome" where
  "no_ptr m = obind m (\<lambda>j. Inr (j, None))"

primrec java_exec :: "java_answers \<Rightarrow> thread_id \<Rightarrow> java_op \<Rightarrow> jvm \<Rightarrow> (jvm \<times> ptr) outcome" where
  "java_exec vm t Attach j = obind (AttachCurrentThread vm t j) (\<lambda>(j1, e). Inr (j1, None))"
| "java_exec vm t End_Thread j = no_ptr (thread_end 0 t j)"
| "java_exec vm t (Call_Java obj) j = Inr (fst (hand_out vm (LocalRef t) obj j), None)"
| "java_exec vm t (Collect obj) j = Inr (j\<lparr>jv_collected := insert obj (jv_collected j)\<rparr>, None)"
| "java_exec vm t (Delete_Released h) j = no_ptr (DeleteRef t GlobalRef (Some h) j)"
| "java_exec vm t (Push_Frame c) j = no_ptr (ScopedJavaLocalFrame_new vm t t c j)"
| "java_exec vm t Pop_Frame j = no_ptr (ScopedJavaLocalFrame_destroy t t j)"
| "java_exec vm t (Local_New x) j = Inr (ScopedJavaLocalRef_new x j, None)"
| "java_exec vm t (Local_Copy x y) j = no_ptr (ScopedJavaLocalRef_copy vm t x y j)"
| "java_exec vm t (Local_From x y) j = no_ptr (ScopedJavaLocalRef_from vm t x y j)"
| "java_exec vm t (Local_Take x env obj) j = no_ptr (ScopedJavaLocalRef_take t x env obj j)"
| "java_exec vm t (Local_Assign x y) j = no_ptr (ScopedJavaLocalRef_assign vm t x y j)"
| "java_exec vm t (Local_Reset_From x y) j = no_ptr (ScopedJavaLocalRef_Reset_from vm t x y j)"
| "java_exec vm t (Local_Reset_Obj x env obj) j = no_ptr (ScopedJavaLocalRef_Reset_obj vm t x env obj j)"
| "java_exec vm t (Local_Reset x) j = no_ptr (ScopedJavaLocalRef_Reset vm t x j)"
| "java_exec vm t (Local_Destroy x) j = no_ptr (ScopedJavaLocalRef_destroy vm t x j)"
| "java_exec vm t (Local_Release x) j = ScopedJavaLocalRef_Release x j"
| "java_exec vm t (Global_New x) j = Inr (ScopedJavaGlobalRef_new x j, None)"
| "java_exec vm t (Global_From x y) j = no_ptr (ScopedJavaGlobalRef_from vm t x y j)"
| "java_exec vm t (Global_Of x env obj) j = no_ptr (ScopedJavaGlobalRef_of vm t x env obj j)"
| "java_exec vm t (Global_Reset_From x y) j = no_ptr (ScopedJavaGlobalRef_Reset_from vm t x y j)"
| "java_exec vm t (Global_Reset_Obj x env obj) j = no_ptr (ScopedJavaGlobalRef_Reset_obj vm t x env obj j)"
| "java_exec vm t (Global_Reset x) j = no_ptr (ScopedJavaGlobalRef_Reset vm t x j)"
| "java_exec vm t (Global_Destroy x) j = no_ptr (ScopedJavaGlobalRef_destroy vm t x j)"
| "java_exec vm t (Global_Release x) j = ScopedJavaGlobalRef_Release x j"
| "java_exec vm t (Weak_New x) j = Inr (JavaObjectWeakGlobalRef_new x j, None)"
| "java_exec vm t (Weak_Copy x y) j = no_ptr (JavaObjectWeakGlobalRef_copy vm t x y j)"
| "java_exec vm t (Weak_Of x obj) j = no_ptr (JavaObjectWeakGlobalRef_of vm t x t obj j)"
| "java_exec vm t (Weak_Assign x y) j = no_ptr (JavaObjectWeakGlobalRef_Assign vm t x y j)"
| "java_exec vm t (Weak_Get z x) j = no_ptr (JavaObjectWeakGlobalRef_get vm t z x t j)"
| "java_exec vm t (Weak_Reset x) j = no_ptr (JavaObjectWeakGlobalRef_reset vm t x j)"
| "java_exec vm t (Weak_Destroy x) j = no_ptr (JavaObjectWeakGlobalRef_destroy vm t x j)"

text \<open>When a thread may do it. A variable is constructed once; a local reference is used on its thread; the
  variables that hold references of a frame go before the frame; what is passed is a live reference; a weak
  reference is made to an object that is there, while there is memory; an object that is collected has
  no strong reference.\<close>

definition env_for :: "thread_id \<Rightarrow> thread_id option \<Rightarrow> bool" where
  "env_for t env \<longleftrightarrow> env = None \<or> env = Some t"

definition on_thread :: "thread_id \<Rightarrow> var \<Rightarrow> jvm \<Rightarrow> bool" where
  "on_thread t x j \<longleftrightarrow> (\<exists>env p. jv_vars j x = Some (ScopedJavaLocalRef env p) \<and> env_for t env)"

definition is_global :: "var \<Rightarrow> jvm \<Rightarrow> bool" where
  "is_global x j \<longleftrightarrow> (\<exists>p. jv_vars j x = Some (ScopedJavaGlobalRef p))"

definition is_weak :: "var \<Rightarrow> jvm \<Rightarrow> bool" where
  "is_weak x j \<longleftrightarrow> (\<exists>p. jv_vars j x = Some (JavaObjectWeakGlobalRef p))"

primrec java_allowed :: "java_answers \<Rightarrow> thread_id \<Rightarrow> java_op \<Rightarrow> jvm \<Rightarrow> nat set \<Rightarrow> bool" where
  "java_allowed vm t Attach j G \<longleftrightarrow> True"
| "java_allowed vm t End_Thread j G \<longleftrightarrow> True"
| "java_allowed vm t (Call_Java obj) j G \<longleftrightarrow> t \<in> jv_attached j \<and> obj \<notin> jv_collected j"
| "java_allowed vm t (Collect obj) j G \<longleftrightarrow> (\<forall>h k. jv_refs j h = Some (k, obj) \<longrightarrow> k = WeakGlobalRef)"
| "java_allowed vm t (Delete_Released h) j G \<longleftrightarrow> h \<in> G \<and> t \<in> jv_attached j"
| "java_allowed vm t (Push_Frame c) j G \<longleftrightarrow> t \<in> jv_attached j \<and> ja_frame vm c"
| "java_allowed vm t Pop_Frame j G \<longleftrightarrow> t \<in> jv_attached j \<and> jv_frames j t \<noteq> [] \<and>
     (\<forall>h \<in> hd (jv_frames j t). unowned (held (jv_vars j)) h)"
| "java_allowed vm t (Local_New x) j G \<longleftrightarrow> jv_vars j x = None"
| "java_allowed vm t (Local_Copy x y) j G \<longleftrightarrow> jv_vars j x = None \<and> on_thread t y j"
| "java_allowed vm t (Local_From x y) j G \<longleftrightarrow> jv_vars j x = None \<and> (on_thread t y j \<or> is_global y j)"
| "java_allowed vm t (Local_Take x env obj) j G \<longleftrightarrow> jv_vars j x = None \<and>
     (obj = None \<or> env = Some t \<and> is_local_of t (jv_refs j (the obj)) \<and> unowned (held (jv_vars j)) (the obj))"
| "java_allowed vm t (Local_Assign x y) j G \<longleftrightarrow> local_var t x j \<and> on_thread t y j"
| "java_allowed vm t (Local_Reset_From x y) j G \<longleftrightarrow> on_thread t x j \<and> readable t y j"
| "java_allowed vm t (Local_Reset_Obj x env obj) j G \<longleftrightarrow> local_var t x j \<and> env_for t env \<and> arg_ok t obj j"
| "java_allowed vm t (Local_Reset x) j G \<longleftrightarrow> local_var t x j"
| "java_allowed vm t (Local_Destroy x) j G \<longleftrightarrow> local_var t x j"
| "java_allowed vm t (Local_Release x) j G \<longleftrightarrow> local_var t x j"
| "java_allowed vm t (Global_New x) j G \<longleftrightarrow> jv_vars j x = None"
| "java_allowed vm t (Global_From x y) j G \<longleftrightarrow> jv_vars j x = None \<and> readable t y j"
| "java_allowed vm t (Global_Of x env obj) j G \<longleftrightarrow> jv_vars j x = None \<and> env_for t env \<and> arg_ok t obj j"
| "java_allowed vm t (Global_Reset_From x y) j G \<longleftrightarrow> is_global x j \<and> readable t y j"
| "java_allowed vm t (Global_Reset_Obj x env obj) j G \<longleftrightarrow> is_global x j \<and> env_for t env \<and> arg_ok t obj j"
| "java_allowed vm t (Global_Reset x) j G \<longleftrightarrow> is_global x j"
| "java_allowed vm t (Global_Destroy x) j G \<longleftrightarrow> is_global x j"
| "java_allowed vm t (Global_Release x) j G \<longleftrightarrow> is_global x j"
| "java_allowed vm t (Weak_New x) j G \<longleftrightarrow> jv_vars j x = None"
| "java_allowed vm t (Weak_Copy x y) j G \<longleftrightarrow> jv_vars j x = None \<and> is_weak y j"
| "java_allowed vm t (Weak_Of x obj) j G \<longleftrightarrow> jv_vars j x = None \<and> t \<in> jv_attached j \<and> obj \<noteq> None \<and> arg_ok t obj j \<and>
     ja_room vm (jv_next j) \<and> snd (the (jv_refs j (the obj))) \<notin> jv_collected j"
| "java_allowed vm t (Weak_Assign x y) j G \<longleftrightarrow> is_weak x j \<and> is_weak y j"
| "java_allowed vm t (Weak_Get z x) j G \<longleftrightarrow> jv_vars j z = None \<and> is_weak x j \<and> t \<in> jv_attached j"
| "java_allowed vm t (Weak_Reset x) j G \<longleftrightarrow> is_weak x j"
| "java_allowed vm t (Weak_Destroy x) j G \<longleftrightarrow> is_weak x j"

text \<open>The references in the hands of the callers of \<open>ScopedJavaGlobalRef::Release\<close>.\<close>

fun given_away :: "java_op \<Rightarrow> ptr \<Rightarrow> nat set \<Rightarrow> nat set" where
  "given_away (Global_Release x) r G = G \<union> set_option r"
| "given_away (Delete_Released h) r G = G - {h}"
| "given_away op r G = G"

inductive java_step :: "java_answers \<Rightarrow> jvm \<times> nat set \<Rightarrow> jvm \<times> nat set \<Rightarrow> bool" for vm where
  step: "java_allowed vm t op j G \<Longrightarrow> java_exec vm t op j = Inr (j', r) \<Longrightarrow>
    java_step vm (j, G) (j', given_away op r G)"

text \<open>Some threads are attached when the library is loaded.\<close>

definition initial_jvm :: "thread_id set \<Rightarrow> jvm" where
  "initial_jvm T = \<lparr>g_jvm = False, tls_jni_detach = (\<lambda>_. None), jv_attached = T, jv_refs = Map.empty, jv_next = 0,
     jv_frames = (\<lambda>_. []), jv_collected = {}, jv_vars = Map.empty\<rparr>"

inductive java_reachable :: "java_answers \<Rightarrow> jvm \<times> nat set \<Rightarrow> bool" for vm where
  start: "InitJavaVM (initial_jvm T) = Inr j \<Longrightarrow> java_reachable vm (j, {})"
| step: "java_reachable vm s \<Longrightarrow> java_step vm s s' \<Longrightarrow> java_reachable vm s'"
subsection \<open>Every step keeps the invariant\<close>

definition released :: "nat set \<Rightarrow> (nat \<times> ref_kind) set" where
  "released G = (\<lambda>h. (h, GlobalRef)) ` G"

definition exec_safe :: "java_answers \<Rightarrow> thread_id \<Rightarrow> java_op \<Rightarrow> jvm \<Rightarrow> nat set \<Rightarrow> bool" where
  "exec_safe vm t op j G \<longleftrightarrow> (\<exists>j' r. java_exec vm t op j = Inr (j', r) \<and> java_ok j' (released (given_away op r G)))"

lemma exec_safeI:
  assumes "java_exec vm t op j = no_ptr m" and "given_away op None G = G" and "returns_ok m (released G)"
  shows "exec_safe vm t op j G"
  using assms by (auto simp: exec_safe_def returns_ok_def no_ptr_def)

lemma on_thread_local: "java_ok j R \<Longrightarrow> on_thread t x j \<Longrightarrow> local_var t x j"
  using held_fits [of j R x] by (fastforce simp: on_thread_def local_var_def env_for_def)

lemma readable_iff: "java_ok j R \<Longrightarrow> on_thread t y j \<or> is_global y j \<Longrightarrow> readable t y j"
  using on_thread_local by (auto simp: readable_def is_global_def)

lemma exec_local:
  assumes "works vm" and "java_ok j (released G)" and "java_allowed vm t op j G"
  shows "op = Local_Copy x y \<Longrightarrow> exec_safe vm t op j G" and "op = Local_From x y \<Longrightarrow> exec_safe vm t op j G"
    and "op = Local_Assign x y \<Longrightarrow> exec_safe vm t op j G" and "op = Local_Reset_From x y \<Longrightarrow> exec_safe vm t op j G"
    and "op = Local_Reset_Obj x env obj \<Longrightarrow> exec_safe vm t op j G" and "op = Local_Destroy x \<Longrightarrow> exec_safe vm t op j G"
proof -
  show "op = Local_Copy x y \<Longrightarrow> exec_safe vm t op j G"
    using assms by (auto simp: on_thread_def env_for_def intro!: exec_safeI ScopedJavaLocalRef_copy_ok)
  show "op = Local_From x y \<Longrightarrow> exec_safe vm t op j G"
    using assms readable_iff [OF assms(2)]
    by (intro exec_safeI [OF _ _ ScopedJavaLocalRef_from_ok]) (auto simp: on_thread_def env_for_def is_global_def)
  show "op = Local_Assign x y \<Longrightarrow> exec_safe vm t op j G"
    using assms by (auto simp: on_thread_def env_for_def intro!: exec_safeI ScopedJavaLocalRef_assign_ok)
  show "op = Local_Reset_From x y \<Longrightarrow> exec_safe vm t op j G"
    using assms by (auto simp: on_thread_def env_for_def intro!: exec_safeI ScopedJavaLocalRef_Reset_from_ok)
  show "op = Local_Reset_Obj x env obj \<Longrightarrow> exec_safe vm t op j G"
    using assms by (auto simp: env_for_def intro!: exec_safeI ScopedJavaLocalRef_Reset_obj_ok)
  show "op = Local_Destroy x \<Longrightarrow> exec_safe vm t op j G"
    using assms by (auto intro!: exec_safeI ScopedJavaLocalRef_destroy_ok)
qed

lemma exec_local_state:
  assumes "works vm" and "java_ok j (released G)" and "java_allowed vm t op j G"
  shows "op = Local_New x \<Longrightarrow> exec_safe vm t op j G" and "op = Local_Take x env obj \<Longrightarrow> exec_safe vm t op j G"
    and "op = Local_Reset x \<Longrightarrow> exec_safe vm t op j G" and "op = Local_Release x \<Longrightarrow> exec_safe vm t op j G"
proof -
  show "op = Local_New x \<Longrightarrow> exec_safe vm t op j G"
    using assms by (simp add: exec_safe_def ScopedJavaLocalRef_new_def new_holder_ok)
  show "op = Local_Reset x \<Longrightarrow> exec_safe vm t op j G"
    using assms by (auto simp: returns_ok_def intro!: exec_safeI elim: ScopedJavaLocalRef_Reset_ok [of vm j "released G" t x])
  show "op = Local_Release x \<Longrightarrow> exec_safe vm t op j G"
    using assms by (auto simp: exec_safe_def local_var_def elim: ScopedJavaLocalRef_Release_ok [of j "released G" x])
  show "exec_safe vm t op j G" if "op = Local_Take x env obj"
  proof (rule exec_safeI)
    have "h \<notin> fst ` released G" if "is_local_of t (jv_refs j h)" for h
      using owned_okD(3) [of "jv_refs j" "jv_vars j" "released G" h GlobalRef] assms(2) that
      by (auto simp: java_ok_def jv_ok_def released_def is_local_of_def)
    with assms that show "returns_ok (ScopedJavaLocalRef_take t x env obj j) (released G)"
      by (intro ScopedJavaLocalRef_take_ok) auto
  qed (use that in simp_all)
qed

lemma exec_global:
  assumes "works vm" and "java_ok j (released G)" and "java_allowed vm t op j G"
  shows "op = Global_New x \<Longrightarrow> exec_safe vm t op j G" and "op = Global_From x y \<Longrightarrow> exec_safe vm t op j G"
    and "op = Global_Of x env obj \<Longrightarrow> exec_safe vm t op j G" and "op = Global_Reset_From x y \<Longrightarrow> exec_safe vm t op j G"
    and "op = Global_Reset_Obj x env obj \<Longrightarrow> exec_safe vm t op j G" and "op = Global_Reset x \<Longrightarrow> exec_safe vm t op j G"
    and "op = Global_Destroy x \<Longrightarrow> exec_safe vm t op j G" and "op = Global_Release x \<Longrightarrow> exec_safe vm t op j G"
proof -
  show "op = Global_New x \<Longrightarrow> exec_safe vm t op j G"
    using assms by (simp add: exec_safe_def ScopedJavaGlobalRef_new_ok)
  show "op = Global_From x y \<Longrightarrow> exec_safe vm t op j G"
    using assms by (auto intro!: exec_safeI ScopedJavaGlobalRef_from_ok)
  show "op = Global_Of x env obj \<Longrightarrow> exec_safe vm t op j G"
    using assms by (auto simp: env_for_def intro!: exec_safeI ScopedJavaGlobalRef_of_ok)
  show "op = Global_Reset_From x y \<Longrightarrow> exec_safe vm t op j G"
    using assms by (auto simp: is_global_def intro!: exec_safeI ScopedJavaGlobalRef_Reset_from_ok)
  show "op = Global_Reset_Obj x env obj \<Longrightarrow> exec_safe vm t op j G"
    using assms by (auto simp: env_for_def is_global_def intro!: exec_safeI ScopedJavaGlobalRef_Reset_obj_ok)
  show "op = Global_Reset x \<Longrightarrow> exec_safe vm t op j G"
    using assms by (auto simp: is_global_def returns_ok_def intro!: exec_safeI
        elim: ScopedJavaGlobalRef_Reset_ok [of vm j "released G" x _ t])
  show "op = Global_Destroy x \<Longrightarrow> exec_safe vm t op j G"
    using assms by (auto simp: is_global_def intro!: exec_safeI ScopedJavaGlobalRef_destroy_ok)
  have "released (G \<union> set_option p) = released G \<union> tag GlobalRef p" for p by (auto simp: released_def tag_def)
  then show "op = Global_Release x \<Longrightarrow> exec_safe vm t op j G"
    using assms by (auto simp: exec_safe_def is_global_def elim: ScopedJavaGlobalRef_Release_ok [of j "released G" x])
qed
lemma exec_weak:
  assumes "works vm" and "java_ok j (released G)" and "java_allowed vm t op j G"
  shows "op = Weak_New x \<Longrightarrow> exec_safe vm t op j G" and "op = Weak_Copy x y \<Longrightarrow> exec_safe vm t op j G"
    and "op = Weak_Of x obj \<Longrightarrow> exec_safe vm t op j G" and "op = Weak_Assign x y \<Longrightarrow> exec_safe vm t op j G"
    and "op = Weak_Get z x \<Longrightarrow> exec_safe vm t op j G" and "op = Weak_Reset x \<Longrightarrow> exec_safe vm t op j G"
    and "op = Weak_Destroy x \<Longrightarrow> exec_safe vm t op j G"
proof -
  show "op = Weak_New x \<Longrightarrow> exec_safe vm t op j G"
    using assms by (simp add: exec_safe_def JavaObjectWeakGlobalRef_new_def new_holder_ok)
  show "op = Weak_Copy x y \<Longrightarrow> exec_safe vm t op j G"
    using assms by (auto simp: is_weak_def intro!: exec_safeI JavaObjectWeakGlobalRef_copy_ok)
  show "op = Weak_Of x obj \<Longrightarrow> exec_safe vm t op j G"
    using assms by (auto simp: arg_ok_def intro!: exec_safeI JavaObjectWeakGlobalRef_of_ok)
  show "op = Weak_Assign x y \<Longrightarrow> exec_safe vm t op j G"
    using assms by (auto simp: is_weak_def intro!: exec_safeI JavaObjectWeakGlobalRef_Assign_ok)
  show "op = Weak_Get z x \<Longrightarrow> exec_safe vm t op j G"
    using assms by (auto simp: is_weak_def returns_ok_def intro!: exec_safeI
        elim: JavaObjectWeakGlobalRef_get_ok [of j "released G" z x _ t vm])
  show "op = Weak_Reset x \<Longrightarrow> exec_safe vm t op j G"
    using assms by (auto simp: is_weak_def returns_ok_def intro!: exec_safeI
        elim: JavaObjectWeakGlobalRef_reset_ok [of vm j "released G" x _ t])
  show "op = Weak_Destroy x \<Longrightarrow> exec_safe vm t op j G"
    using assms by (auto simp: is_weak_def intro!: exec_safeI JavaObjectWeakGlobalRef_destroy_ok)
qed

text \<open>The virtual machine and the threads.\<close>

lemma ScopedJavaLocalFrame_destroy_ok:
  assumes "java_ok j (released G)" and "t \<in> jv_attached j" and "jv_frames j t = f # rest"
    and "\<And>h. h \<in> f \<Longrightarrow> unowned (held (jv_vars j)) h"
  shows "returns_ok (ScopedJavaLocalFrame_destroy t t j) (released G)"
proof -
  let ?refs = "\<lambda>h. if h \<in> f then None else jv_refs j h"
  have ok: "jrefs_ok j" "owned_ok (jv_refs j) (jv_vars j) (released G)" using assms(1) by (simp_all add: java_ok_def jv_ok_def)
  have "h \<notin> f" if "h \<in> G" for h
  proof
    assume "h \<in> f"
    from that obtain obj where "jv_refs j h = Some (GlobalRef, obj)"
      using owned_okD(3) [OF ok(2), of h GlobalRef] by (auto simp: released_def)
    with jrefs_okD(7) [OF ok(1), of f t h] assms(3) \<open>h \<in> f\<close> show False by simp
  qed
  then have R: "{(h, k). (h, k) \<in> released G \<and> h \<notin> f} = released G" by (auto simp: released_def)
  have "owned_ok ?refs (jv_vars j) (released G)"
    using owned_ok_delete [OF ok(2) assms(4), of f] unfolding R by simp
  moreover have "jrefs_ok (j\<lparr>jv_refs := ?refs, jv_frames := (jv_frames j)(t := rest)\<rparr>)"
    using ok(1) assms(3) unfolding jrefs_ok_def by simp (metis list.set_intros(2))
  ultimately show ?thesis
    using assms(2,3) by (simp add: returns_ok_def ScopedJavaLocalFrame_destroy_def java_ok_def jv_ok_def)
qed

lemma exec_vm:
  assumes "works vm" and "java_ok j (released G)" and "java_allowed vm t op j G"
  shows "op = Attach \<Longrightarrow> exec_safe vm t op j G" and "op = End_Thread \<Longrightarrow> exec_safe vm t op j G"
    and "op = Call_Java obj \<Longrightarrow> exec_safe vm t op j G" and "op = Collect obj \<Longrightarrow> exec_safe vm t op j G"
    and "op = Push_Frame c \<Longrightarrow> exec_safe vm t op j G" and "op = Pop_Frame \<Longrightarrow> exec_safe vm t op j G"
proof -
  have ok: "jrefs_ok j" "owned_ok (jv_refs j) (jv_vars j) (released G)" "jv_ok j (jv_vars j) (released G)"
    using assms(2) by (simp_all add: java_ok_def jv_ok_def)
  obtain j' where "AttachCurrentThread vm t j = Inr (j', t)" "jv_ok j' (jv_vars j) (released G)" "jv_vars j' = jv_vars j"
    by (rule AttachCurrentThread_ok [OF assms(1) ok(3), of t]) blast
  then show "op = Attach \<Longrightarrow> exec_safe vm t op j G" by (simp add: exec_safe_def java_ok_def)
  have "jrefs_ok (j\<lparr>tls_jni_detach := (tls_jni_detach j)(t := None)\<rparr>)" using ok(1) unfolding jrefs_ok_def by simp
  with ok(2) show "op = End_Thread \<Longrightarrow> exec_safe vm t op j G"
    by (simp add: exec_safe_def thread_end_def ThreadLocalPointer_destroy_def no_ptr_def java_ok_def jv_ok_def)
  show "exec_safe vm t op j G" if "op = Call_Java obj"
  proof -
    obtain j' q where h: "hand_out vm (LocalRef t) obj j = (j', q)" by (cases "hand_out vm (LocalRef t) obj j")
    have "jv_ok j' (jv_vars j) (released G \<union> tag (LocalRef t) q)" "jv_vars j' = jv_vars j"
      using hand_out_ok(1,2) [OF ok(3) _ _ h] assms(3) that by auto
    then have "java_ok j' (released G)" by (cases q) (auto simp: java_ok_def jv_ok_def intro: owned_ok_forget)
    with h that show ?thesis by (simp add: exec_safe_def)
  qed
  show "exec_safe vm t op j G" if "op = Collect obj"
  proof -
    have "jrefs_ok (j\<lparr>jv_collected := insert obj (jv_collected j)\<rparr>)"
      using ok(1) assms(3) that unfolding jrefs_ok_def by simp blast
    with ok(2) that show ?thesis by (simp add: exec_safe_def java_ok_def jv_ok_def)
  qed
  show "exec_safe vm t op j G" if "op = Push_Frame c"
  proof -
    have "jrefs_ok (j\<lparr>jv_frames := (jv_frames j)(t := {} # jv_frames j t)\<rparr>)" using ok(1) unfolding jrefs_ok_def by simp
    with ok(2) assms(3) that show ?thesis
      by (simp add: exec_safe_def no_ptr_def ScopedJavaLocalFrame_new_def java_ok_def jv_ok_def)
  qed
  show "op = Pop_Frame \<Longrightarrow> exec_safe vm t op j G"
    using assms(2,3) by (cases "jv_frames j t") (auto intro!: exec_safeI ScopedJavaLocalFrame_destroy_ok)
qed

lemma exec_delete_released:
  assumes "java_ok j (released G)" and "h \<in> G" and "t \<in> jv_attached j"
  shows "exec_safe vm t (Delete_Released h) j G"
proof -
  have "tag GlobalRef (Some h) \<subseteq> released G" using assms(2) by (simp add: released_def)
  then obtain j' where "DeleteRef t GlobalRef (Some h) j = Inr j'" "jv_ok j' (jv_vars j) (released G - tag GlobalRef (Some h))"
    "jv_vars j' = jv_vars j"
    using DeleteRef_ok [of j "jv_vars j" "released G" t GlobalRef "Some h"] assms(1,3) unfolding java_ok_def by metis
  moreover have "released G - tag GlobalRef (Some h) = released (G - {h})" by (auto simp: released_def)
  ultimately show ?thesis by (simp add: exec_safe_def no_ptr_def java_ok_def)
qed

lemma exec_all:
  assumes "works vm" and "java_ok j (released G)" and "java_allowed vm t op j G"
  shows "exec_safe vm t op j G"
  by (cases op) (use exec_local [OF assms] exec_local_state [OF assms] exec_global [OF assms] exec_weak [OF assms]
    exec_vm [OF assms] exec_delete_released [OF assms(2)] assms(3) in simp_all)

lemma reachable_ok: "java_reachable vm s \<Longrightarrow> works vm \<Longrightarrow> java_ok (fst s) (released (snd s))"
proof (induction rule: java_reachable.induct)
  case (start T j)
  then show ?case
    by (auto simp: InitJavaVM_def initial_jvm_def java_ok_def jv_ok_def jrefs_ok_def released_def obind_eq_Inr held_def
        owned_ok_def owns_ok_def)
next
  case (step s s')
  from step.hyps(2) show ?case
  proof cases
    case (step t op j G j' r)
    with exec_all [of vm j G t op] \<open>works vm\<close> "step.IH" show ?thesis by (auto simp: exec_safe_def)
  qed
qed
subsection \<open>Properties\<close>

text \<open>C27: ownership of Java references. In every state that operations within the conditions of \<open>java_allowed\<close> can reach, on
  whatever threads, what a variable holds is a live reference of its kind (a local one of its thread) that no other variable
  holds; and no reference leaks: every live global reference is either in exactly one \<open>ScopedJavaGlobalRef\<close> or was given away by
  \<open>Release\<close>, every live weak one is in one \<open>JavaObjectWeakGlobalRef\<close>. The conditions are: a variable is constructed once and used
  as what it is; a local reference is used on its own thread, by an attached thread where the class does not attach it; a
  reference that is passed in is alive, of the thread, and taken over only if nobody else holds it; a frame is pushed only if the
  virtual machine has room for it, and popped only when no variable holds a reference made in it (\<open>local_outlives_frame\<close> shows
  what happens otherwise); a weak reference is made only of a live object that is not collected, while there is memory; a
  reference that was given away is deleted once. The virtual machine can attach threads and keep thread-specific data.\<close>

theorem java_refs_owned:
  assumes "works vm" and "java_reachable vm (j, G)"
  shows "(\<forall>x hl h. jv_vars j x = Some hl \<longrightarrow> holder_obj hl = Some h \<longrightarrow>
      (\<exists>k obj. jv_refs j h = Some (k, obj) \<and> fits hl k) \<and> (\<forall>y. held (jv_vars j) y = Some (Some h) \<longrightarrow> y = x)) \<and>
    (\<forall>h obj. jv_refs j h = Some (GlobalRef, obj) \<longrightarrow>
      (h \<in> G) \<noteq> (\<exists>x. jv_vars j x = Some (ScopedJavaGlobalRef (Some h)))) \<and>
    (\<forall>h obj. jv_refs j h = Some (WeakGlobalRef, obj) \<longrightarrow> (\<exists>x. jv_vars j x = Some (JavaObjectWeakGlobalRef (Some h))))"
proof -
  have ok: "java_ok j (released G)" using reachable_ok [OF assms(2,1)] by simp
  then have O: "owned_ok (jv_refs j) (jv_vars j) (released G)" by (simp add: java_ok_def jv_ok_def)
  have fit: "fits hl k" if "jv_vars j x = Some hl" "holder_obj hl = Some h" "jv_refs j h = Some (k, obj)" for x hl h k obj
    using held_fits [OF ok that(1,2)] that(3) by auto
  have "y = x" if "jv_vars j x = Some hl" "holder_obj hl = Some h" "held (jv_vars j) y = Some (Some h)" for x y hl h
    using owns_okD(2) [OF owned_okD(1) [OF O], of y h x] that by (simp add: held_def)
  moreover have "(h \<in> G) \<noteq> (\<exists>x. jv_vars j x = Some (ScopedJavaGlobalRef (Some h)))"
    if r: "jv_refs j h = Some (GlobalRef, obj)" for h obj
  proof (cases "unowned (held (jv_vars j)) h")
    case True
    then have "h \<in> G" using owned_okD(4) [OF O r] by (auto simp: released_def)
    moreover have "jv_vars j x \<noteq> Some (ScopedJavaGlobalRef (Some h))" for x
      using True held_of(1) [of j x "ScopedJavaGlobalRef (Some h)"] by (auto simp: unowned_def)
    ultimately show ?thesis by blast
  next
    case False
    then obtain x hl where x: "jv_vars j x = Some hl" "holder_obj hl = Some h" by (auto simp: unowned_def held_def)
    with fit [OF x r] have "hl = ScopedJavaGlobalRef (Some h)" by (cases hl) auto
    moreover have "h \<notin> G" using False owned_okD(3) [OF O, of h GlobalRef] by (auto simp: released_def)
    ultimately show ?thesis using x by auto
  qed
  moreover have "\<exists>x. jv_vars j x = Some (JavaObjectWeakGlobalRef (Some h))" if r: "jv_refs j h = Some (WeakGlobalRef, obj)" for h obj
  proof -
    have "\<not> unowned (held (jv_vars j)) h" using owned_okD(4) [OF O r] by (auto simp: released_def)
    then obtain x hl where x: "jv_vars j x = Some hl" "holder_obj hl = Some h" by (auto simp: unowned_def held_def)
    with fit [OF x r] show ?thesis by (cases hl) auto
  qed
  ultimately show ?thesis using held_fits [OF ok] by blast
qed

text \<open>C28: within the conditions of \<open>java_allowed\<close> (those listed at C27, which are more than the comments of the classes state: memory
  for a weak reference, room for a frame, and no held reference when a frame is popped) no operation of the reference classes
  faults: in every state that can be reached it passes all its checks, deletes no dead reference and uses no reference of
  another thread, and it returns in such a state again.\<close>

theorem java_ops_never_fault:
  assumes "works vm" and "java_reachable vm (j, G)" and "java_allowed vm t op j G"
  shows "\<exists>j' r. java_exec vm t op j = Inr (j', r) \<and> java_reachable vm (j', given_away op r G)"
proof -
  have "java_ok j (released G)" using reachable_ok [OF assms(2,1)] by simp
  from exec_all [OF assms(1) this assms(3)] obtain j' r where e: "java_exec vm t op j = Inr (j', r)"
    by (auto simp: exec_safe_def)
  with java_reachable.step [OF assms(2) java_step.step [OF assms(3) e]] show ?thesis by blast
qed

text \<open>A thread makes a local reference to an object and a global one from it.\<close>

definition sample_answers :: java_answers where
  "sample_answers = \<lparr>ja_attach = (\<lambda>_. True), ja_room = (\<lambda>_. True), ja_frame = (\<lambda>_. True), ja_setspecific = 0\<rparr>"

definition sample_jvm :: jvm where
  "sample_jvm = \<lparr>g_jvm = True, tls_jni_detach = (\<lambda>_. None), jv_attached = {0},
     jv_refs = [0 \<mapsto> (LocalRef 0, 5), 1 \<mapsto> (GlobalRef, 5)], jv_next = 2, jv_frames = (\<lambda>_. []), jv_collected = {},
     jv_vars = [7 \<mapsto> ScopedJavaGlobalRef (Some 1)]\<rparr>"

lemma works_sample: "works sample_answers"
  by (simp add: works_def sample_answers_def)

lemma reachable_sample: "java_reachable sample_answers (sample_jvm, {})"
proof -
  let ?j = "(initial_jvm {0})\<lparr>g_jvm := True\<rparr>"
  let ?j1 = "?j\<lparr>jv_refs := [0 \<mapsto> (LocalRef 0, 5)], jv_next := 1\<rparr>"
  have "java_reachable sample_answers (?j, {})"
    by (rule java_reachable.start [where T = "{0}"]) (simp add: InitJavaVM_def initial_jvm_def)
  moreover have "java_step sample_answers (?j, {}) (?j1, given_away (Call_Java 5) None {})"
    by (rule java_step.step [where t = 0])
      (simp_all add: initial_jvm_def hand_out_def note_frame_def sample_answers_def)
  moreover have "java_step sample_answers (?j1, {}) (sample_jvm, given_away (Global_Of 7 (Some 0) (Some 0)) None {})"
    by (rule java_step.step [where t = 0])
      (simp_all add: initial_jvm_def hand_out_def note_frame_def sample_answers_def sample_jvm_def env_for_def arg_ok_def
        usable_def no_ptr_def ScopedJavaGlobalRef_of_def ScopedJavaGlobalRef_new_def ScopedJavaGlobalRef_Reset_obj_def
        SetNewGlobalRef_def AttachCurrentThread_def NewRef_def DeleteRef_def set_holder_def global_at_def)
  ultimately show ?thesis by (auto intro: java_reachable.step)
qed

theorem java_refs_owned_witness: "(1 \<in> ({} :: nat set)) \<noteq> (\<exists>x. jv_vars sample_jvm x = Some (ScopedJavaGlobalRef (Some 1)))"
proof -
  have "jv_refs sample_jvm 1 = Some (GlobalRef, 5)" by (simp add: sample_jvm_def)
  with java_refs_owned [OF works_sample reachable_sample] show ?thesis by blast
qed

theorem java_ops_never_fault_witness:
  "\<exists>j' r. java_exec sample_answers 3 (Global_Destroy 7) sample_jvm = Inr (j', r) \<and>
    java_reachable sample_answers (j', given_away (Global_Destroy 7) r {})"
  by (rule java_ops_never_fault [OF works_sample reachable_sample]) (simp add: is_global_def sample_jvm_def)

text \<open>What goes wrong outside these rules. A variable that outlives the frame of its reference deletes a
  dead reference.\<close>

lemma local_outlives_frame:
  assumes "jv_frames j t = f # rest" and "h \<in> f" and "jv_vars j x = Some (ScopedJavaLocalRef (Some t) (Some h))"
    and "t \<in> jv_attached j" and "g_jvm j" and "ScopedJavaLocalFrame_destroy t t j = Inr j'"
  shows "ScopedJavaLocalRef_destroy vm t x j' = Inl Undefined_Behaviour"
  using assms by (auto simp: ScopedJavaLocalFrame_destroy_def ScopedJavaLocalRef_destroy_def ScopedJavaLocalRef_Reset_def
      local_at_def ResetLocalRef_def AttachCurrentThread_def DeleteRef_def)

text \<open>A thread that detaches itself cannot attach again: its \<open>tls_jni_detach\<close> is still set.\<close>

lemma no_second_attachment:
  assumes "t \<notin> jv_attached j" and "ja_attach vm t" and "AttachCurrentThread vm t j = Inr (j', e)"
  shows "AttachCurrentThread vm t (DetachFromVM t j') = Inl Check_Failed"
  using assms by (auto simp: AttachCurrentThread_def DetachFromVM_def obind_eq_Inr ThreadLocalUniquePtr_get_def
      ThreadLocalPointer_get_def ThreadLocalUniquePtr_reset_def ThreadLocalPointer_swap_def split: if_splits)

text \<open>A thread that was attached stays attached when it ends: \<open>JNIDetach\<close> does nothing.\<close>

lemma thread_end_stays_attached:
  "thread_end 0 t j = Inr j' \<Longrightarrow> t \<in> jv_attached j \<Longrightarrow> t \<in> jv_attached j'"
  by (auto simp: thread_end_def obind_eq_Inr)

end
