(* ===== verification/Magisk_Detector.thy ===== *)
theory Magisk_Detector
  imports Detectors
begin

section \<open>The Magisk detector\<close>

text \<open>
  \<open>CheckEnv/src/main/cpp/magisk_detector.cpp\<close>, with the part of \<open>sscanf\<close> that it needs. The detector
  looks for the device mounted on \<open>/data\<close> in the mount table of the process and then for a system file
  that is mapped from that device. The device is kept in two static variables, so the state of the
  detector lasts from call to call, together with the number of descriptors the process has open: an
  \<open>open\<close> fails at a limit, and a descriptor that is never closed stays open.
\<close>

subsection \<open>\<open>sscanf\<close>\<close>

text \<open>
  A directive of the format; \<open>Dec\<close>, \<open>Hex\<close> and \<open>Str\<close> say whether the value is assigned (no \<open>*\<close>). What is
  left of the text after an integer; a conversion without a digit fails. A value that does not fit its
  variable is undefined behaviour.
\<close>

datatype directive = White | Lit char | Dec bool | Hex bool | Str bool

datatype scanned = Scan_Int int | Scan_Str string

definition isxdigit :: "char \<Rightarrow> bool" where
  "isxdigit c \<longleftrightarrow> isdigit c \<or> 65 \<le> (of_char c :: nat) \<and> (of_char c :: nat) \<le> 70 \<or>
                  97 \<le> (of_char c :: nat) \<and> (of_char c :: nat) \<le> 102"

definition xdigit_value :: "char \<Rightarrow> int" where
  "xdigit_value c =
     (if isdigit c then int (of_char c) - 48 else if of_char c < (97 :: nat) then int (of_char c) - 55
      else int (of_char c) - 87)"

definition xdigits_value :: "string \<Rightarrow> int" where
  "xdigits_value s = foldl (\<lambda>v c. v * 16 + xdigit_value c) 0 s"

definition scan_sign :: "string \<Rightarrow> bool \<times> string" where
  "scan_sign t = (t \<noteq> [] \<and> hd t = CHR ''-'', if t \<noteq> [] \<and> hd t \<in> {CHR ''-'', CHR ''+''} then tl t else t)"

definition scan_int :: "string \<Rightarrow> (int \<times> string) option" where
  "scan_int s =
     (case scan_sign (dropWhile isspace s) of (negative, t) \<Rightarrow>
      let ds = takeWhile isdigit t; v = digits_value ds
      in if ds = [] then None else Some (if negative then - v else v, drop (length ds) t))"

definition scan_hex :: "string \<Rightarrow> (int \<times> string) option" where
  "scan_hex s =
     (case scan_sign (dropWhile isspace s) of (negative, t) \<Rightarrow>
      let u = (if take 2 t \<in> {''0x'', ''0X''} then drop 2 t else t); ds = takeWhile isxdigit u; v = xdigits_value ds
      in if ds = [] then None else Some (if negative then - v else v, drop (length ds) u))"

text \<open>\<open>%x\<close> reads an \<open>unsigned int\<close>, which the code stores in an \<open>int\<close>.\<close>

definition int_of_unsigned :: "int \<Rightarrow> int" where
  "int_of_unsigned v = sint (word_of_int v :: 32 word)"

fun sscanf :: "directive list \<Rightarrow> string \<Rightarrow> scanned list outcome" where
  "sscanf [] s = Inr []"
| "sscanf (White # ds) s = sscanf ds (dropWhile isspace s)"
| "sscanf (Lit c # ds) s = (if s \<noteq> [] \<and> hd s = c then sscanf ds (tl s) else Inr [])"
| "sscanf (Dec assigned # ds) s =
     (case scan_int s of
        None \<Rightarrow> Inr []
      | Some (v, rest) \<Rightarrow>
          if assigned
          then obind (defined (- INT_MAX - 1 \<le> v \<and> v \<le> INT_MAX)) (\<lambda>_.
               obind (sscanf ds rest) (\<lambda>vs. Inr (Scan_Int v # vs)))
          else sscanf ds rest)"
| "sscanf (Hex assigned # ds) s =
     (case scan_hex s of
        None \<Rightarrow> Inr []
      | Some (v, rest) \<Rightarrow>
          if assigned
          then obind (defined (\<bar>v\<bar> < 2 ^ 32)) (\<lambda>_.
               obind (sscanf ds rest) (\<lambda>vs. Inr (Scan_Int (int_of_unsigned v) # vs)))
          else sscanf ds rest)"
| "sscanf (Str assigned # ds) s =
     (let t = dropWhile isspace s; w = takeWhile (\<lambda>c. \<not> isspace c) t; rest = drop (length w) t
      in if w = [] then Inr []
         else if assigned then obind (sscanf ds rest) (\<lambda>vs. Inr (Scan_Str w # vs))
         else sscanf ds rest)"

subsection \<open>The detector\<close>

text \<open>\<open>major\<close>, \<open>minor\<close>, and the descriptors that are open.\<close>

record magisk =
  mg_major :: int
  mg_minor :: int
  mg_open :: nat

definition magisk_start :: "nat \<Rightarrow> magisk" where
  "magisk_start n = \<lparr>mg_major = - 1, mg_minor = - 1, mg_open = n\<rparr>"

text \<open>
  \<open>sys_open\<close> and \<open>fdopen\<close>: the text of the file and one descriptor more, or failure. A failing \<open>fdopen\<close>
  closes the descriptor again, so it is the same as a failing \<open>open\<close>.
\<close>

definition open_stream :: "os \<Rightarrow> nat \<Rightarrow> string \<Rightarrow> magisk \<Rightarrow> (string \<times> magisk) option" where
  "open_stream s limit path m =
     (if mg_open m < limit
      then map_option (\<lambda>content. (content, m\<lparr>mg_open := mg_open m + 1\<rparr>)) (os_file s path)
      else None)"

text \<open>\<open>fclose\<close> closes the descriptor of the stream, and the \<open>close\<close> after it finds it closed.\<close>

definition close_stream :: "magisk \<Rightarrow> magisk" where
  "close_stream m = m\<lparr>mg_open := mg_open m - 1\<rparr>"

definition PATH_MAX :: nat where "PATH_MAX = 4096"

definition mount_format :: "directive list" where
  "mount_format = [Dec False, White, Dec False, White, Dec True, Lit (CHR '':''), Dec True]"

definition assign_device :: "scanned list \<Rightarrow> magisk \<Rightarrow> magisk" where
  "assign_device vs m =
     (case vs of
        [Scan_Int a] \<Rightarrow> m\<lparr>mg_major := a\<rparr>
      | Scan_Int a # Scan_Int b # _ \<Rightarrow> m\<lparr>mg_major := a, mg_minor := b\<rparr>
      | _ \<Rightarrow> m)"

fun mountinfo_loop :: "string list \<Rightarrow> magisk \<Rightarrow> magisk outcome" where
  "mountinfo_loop [] m = Inr m"
| "mountinfo_loop (line # rest) m =
     (if strstr (c_str line) ''/ /data ''
      then obind (sscanf mount_format (c_str line)) (\<lambda>vs. mountinfo_loop rest (assign_device vs m))
      else mountinfo_loop rest m)"

definition scan_mountinfo :: "os \<Rightarrow> nat \<Rightarrow> magisk \<Rightarrow> magisk outcome" where
  "scan_mountinfo s limit m =
     (case open_stream s limit ''/proc/self/mountinfo'' m of
        None \<Rightarrow> Inr m
      | Some (content, m1) \<Rightarrow>
          obind (mountinfo_loop (fgets_all (PATH_MAX - 1) content) m1) (\<lambda>m2. Inr (close_stream m2)))"

definition maps_format :: "directive list" where
  "maps_format =
    [Str False, White, Str False, White, Str False, White, Hex True, Lit (CHR '':''), Hex True, White, Str False,
     White, Str True]"

definition system_line :: "string \<Rightarrow> bool" where
  "system_line line \<longleftrightarrow>
     strstr line '' /system/'' \<or> strstr line '' /vendor/'' \<or> strstr line '' /product/'' \<or> strstr line '' /system_ext/''"

text \<open>
  The test \<open>f == major && s == minor\<close> and the message, which prints \<open>p\<close>. What \<open>sscanf\<close> did not assign is
  not initialised, and reading it is undefined behaviour.
\<close>

definition device_matches :: "magisk \<Rightarrow> scanned list \<Rightarrow> bool outcome" where
  "device_matches m vs =
     (case vs of
        Scan_Int f # vs1 \<Rightarrow>
          if f = mg_major m
          then (case vs1 of
                  Scan_Int d # vs2 \<Rightarrow>
                    if d = mg_minor m
                    then (case vs2 of Scan_Str p # _ \<Rightarrow> Inr True | _ \<Rightarrow> Inl Undefined_Behaviour)
                    else Inr False
                | _ \<Rightarrow> Inl Undefined_Behaviour)
          else Inr False
      | _ \<Rightarrow> Inl Undefined_Behaviour)"

text \<open>The loop over the maps: \<open>True\<close> is the \<open>return 1\<close> inside it.\<close>

fun maps_loop :: "string list \<Rightarrow> magisk \<Rightarrow> bool outcome" where
  "maps_loop [] m = Inr False"
| "maps_loop (line # rest) m =
     (if CHR ''/'' \<notin> set (c_str line) then maps_loop rest m
      else if system_line (c_str line)
      then obind (sscanf maps_format (c_str line)) (\<lambda>vs.
           obind (device_matches m vs) (\<lambda>found. if found then Inr True else maps_loop rest m))
      else maps_loop rest m)"

definition scan_maps :: "os \<Rightarrow> nat \<Rightarrow> magisk \<Rightarrow> (int \<times> magisk) outcome" where
  "scan_maps s limit m =
     (case open_stream s limit ''/proc/self/maps'' m of
        None \<Rightarrow> Inr (- 1, m)
      | Some (content, m1) \<Rightarrow>
          obind (maps_loop (fgets_all (PATH_MAX - 1) content) m1) (\<lambda>found.
          Inr (if found then (1, m1) else (0, close_stream m1))))"

definition haveMagicMount :: "os \<Rightarrow> nat \<Rightarrow> magisk \<Rightarrow> (int \<times> magisk) outcome" where
  "haveMagicMount s limit m =
     obind (scan_mountinfo s limit m) (\<lambda>m1.
     if mg_minor m1 = - 1 \<or> mg_major m1 = - 1 then Inr (- 1, m1) else scan_maps s limit m1)"
subsection \<open>Reading back printed numbers\<close>

named_theorems scan_simps \<open>how the directives read printed text\<close>

lemma not_sign_or_space: "isxdigit c \<Longrightarrow> \<not> isspace c \<and> c \<noteq> CHR ''-'' \<and> c \<noteq> CHR ''+''"
  by (auto simp: isxdigit_def isdigit_def isspace_def)

lemma isdigit_isxdigit: "isdigit c \<Longrightarrow> isxdigit c"
  by (simp add: isxdigit_def)

text \<open>The text of a number, after white space and before anything else.\<close>

lemma dropWhile_number:
  assumes "\<forall>c \<in> set ws. isspace c" and "h \<noteq> []" and "isxdigit (hd h)"
  shows "scan_sign (dropWhile isspace (ws @ h @ t)) = (False, h @ t)"
proof -
  have "\<not> isspace (hd h)" "hd h \<notin> {CHR ''-'', CHR ''+''}" using not_sign_or_space [OF assms(3)] by auto
  moreover from this assms(1,2) have "dropWhile isspace (ws @ h @ t) = h @ t"
    by (cases h) (auto simp: dropWhile_append)
  ultimately show ?thesis using assms(2) by (simp add: scan_sign_def)
qed

lemma takeWhile_all_append:
  "\<forall>c \<in> set h. P c \<Longrightarrow> t = [] \<or> \<not> P (hd t) \<Longrightarrow> takeWhile P (h @ t) = h"
  by (cases t) (auto simp: takeWhile_append)

lemma scan_int_dec_nat [scan_simps]:
  assumes "\<forall>c \<in> set ws. isspace c" and "t = [] \<or> \<not> isdigit (hd t)"
  shows "scan_int (ws @ dec_nat n @ t) = Some (int n, t)"
proof -
  have "takeWhile isdigit (dec_nat n @ t) = dec_nat n"
    by (rule takeWhile_all_append) (use assms(2) isdigit_dec_nat in auto)
  then show ?thesis
    using dropWhile_number [OF assms(1), of "dec_nat n" t] hd_dec_nat [of n]
    by (simp add: scan_int_def isdigit_isxdigit digits_value_dec_nat)
qed

lemma scan_hex_xdigits:
  assumes "\<forall>c \<in> set ws. isspace c" and "\<forall>c \<in> set h. isxdigit c" and "h \<noteq> []"
    and "t \<noteq> []" and "hd t \<in> {CHR '':'', CHR '' ''}"
  shows "scan_hex (ws @ h @ t) = Some (xdigits_value h, t)"
proof -
  have x: "\<not> isxdigit (CHR ''x'')" "\<not> isxdigit (CHR ''X'')" "\<not> isxdigit (CHR '':'')" "\<not> isxdigit (CHR '' '')"
    by (simp_all add: isxdigit_def isdigit_def)
  have "(h @ t) ! 1 \<notin> {CHR ''x'', CHR ''X''}"
  proof (cases "length h = 1")
    case True
    then have "(h @ t) ! 1 = hd t" using assms(4) by (simp add: nth_append hd_conv_nth)
    then show ?thesis using assms(5) by auto
  next
    case False
    then have "1 < length h" using assms(3) by (cases h) auto
    then have "(h @ t) ! 1 \<in> set h" by (simp add: nth_append)
    then show ?thesis using assms(2) x by (metis insertE singletonD)
  qed
  moreover have "take 2 (h @ t) ! 1 = (h @ t) ! 1" by (rule nth_take) simp
  ultimately have "take 2 (h @ t) \<notin> {''0x'', ''0X''}" by auto
  moreover have "takeWhile isxdigit (h @ t) = h"
    by (rule takeWhile_all_append) (use assms(2,4,5) x in auto)
  ultimately show ?thesis
    using dropWhile_number [OF assms(1), of h t] assms(2,3) by (simp add: scan_hex_def)
qed

lemma sscanf_word [scan_simps]:
  assumes "w \<noteq> []" and "\<forall>c \<in> set w. \<not> isspace c" and "\<forall>c \<in> set ws. isspace c" and "t = [] \<or> isspace (hd t)"
  shows "sscanf (Str False # ds) (ws @ w @ t) = sscanf ds t"
proof -
  have "dropWhile isspace (ws @ w @ t) = w @ t"
    using assms(1-3) by (cases w) (auto simp: dropWhile_append)
  moreover have "takeWhile (\<lambda>c. \<not> isspace c) (w @ t) = w"
    by (rule takeWhile_all_append) (use assms(2,4) in auto)
  ultimately show ?thesis using assms(1) by (simp add: Let_def)
qed

subsection \<open>Hexadecimal numbers as the kernel prints them\<close>

definition xdigit :: "nat \<Rightarrow> char" where
  "xdigit d = (if d < 10 then digit d else char_of (87 + d))"

function hex_nat :: "nat \<Rightarrow> string" where
  "hex_nat n = (if n < 16 then [xdigit n] else hex_nat (n div 16) @ [xdigit (n mod 16)])"
  by pat_completeness auto

termination by (relation "measure (\<lambda>n. n)") auto

declare hex_nat.simps [simp del]

text \<open>\<open>%02x\<close>\<close>

definition hex2 :: "nat \<Rightarrow> string" where
  "hex2 n = (if n < 16 then CHR ''0'' # hex_nat n else hex_nat n)"

lemma xdigit_props: "d < 16 \<Longrightarrow> isxdigit (xdigit d) \<and> xdigit_value (xdigit d) = int d"
  by (auto simp: xdigit_def isxdigit_def xdigit_value_def of_char_digit isdigit_def)

lemma hex_nat_props: "xdigits_value (hex_nat n) = int n \<and> (\<forall>c \<in> set (hex_nat n). isxdigit c) \<and> hex_nat n \<noteq> []"
proof (induction n rule: hex_nat.induct)
  case (1 n)
  show ?case
  proof (cases "n < 16")
    case True
    then show ?thesis by (subst (1 2 3) hex_nat.simps) (simp add: xdigits_value_def xdigit_props)
  next
    case False
    then have e: "hex_nat n = hex_nat (n div 16) @ [xdigit (n mod 16)]" by (simp add: hex_nat.simps [of n])
    have "xdigits_value (hex_nat n) = int (n div 16) * 16 + int (n mod 16)"
      using 1 [OF False] xdigit_props [of "n mod 16"] by (simp add: e xdigits_value_def)
    also have "\<dots> = int n" by (metis div_mult_mod_eq of_nat_add of_nat_mult of_nat_numeral)
    finally show ?thesis using 1 [OF False] xdigit_props [of "n mod 16"] by (auto simp: e)
  qed
qed

lemma hex2_props: "xdigits_value (hex2 n) = int n \<and> (\<forall>c \<in> set (hex2 n). isxdigit c) \<and> hex2 n \<noteq> []"
  using hex_nat_props [of n]
  by (auto simp: hex2_def xdigits_value_def xdigit_value_def isdigit_def isxdigit_def)

lemma scan_hex_hex2 [scan_simps]:
  assumes "\<forall>c \<in> set ws. isspace c" and "t \<noteq> []" and "hd t \<in> {CHR '':'', CHR '' ''}"
  shows "scan_hex (ws @ hex2 n @ t) = Some (int n, t)"
  using scan_hex_xdigits [OF assms(1) _ _ assms(2,3), of "hex2 n"] hex2_props [of n] by simp

lemma int_of_unsigned_small [scan_simps]: "0 \<le> v \<Longrightarrow> v \<le> INT_MAX \<Longrightarrow> int_of_unsigned v = v"
  unfolding int_of_unsigned_def INT_MAX_def
  by (simp add: signed_of_int signed_take_bit_int_eq_self)
text \<open>White space before a conversion that skips it anyway.\<close>

lemma white_skipped [scan_simps]:
  "sscanf (White # Dec b # ds) s = sscanf (Dec b # ds) s"
  "sscanf (White # Hex b # ds) s = sscanf (Hex b # ds) s"
  "sscanf (White # Str b # ds) s = sscanf (Str b # ds) s"
  by (simp_all add: scan_int_def scan_hex_def)

lemma sscanf_Dec_skip [scan_simps]:
  "t = [] \<or> \<not> isdigit (hd t) \<Longrightarrow> sscanf (Dec False # ds) (dec_nat n @ t) = sscanf ds t"
  "t = [] \<or> \<not> isdigit (hd t) \<Longrightarrow> sscanf (Dec False # ds) (CHR '' '' # dec_nat n @ t) = sscanf ds t"
  using scan_int_dec_nat [of "[]" t n] scan_int_dec_nat [of "'' ''" t n] by (simp_all add: isspace_def)

lemma sscanf_Dec [scan_simps]:
  assumes "t = [] \<or> \<not> isdigit (hd t)" and "int n \<le> INT_MAX"
  shows "sscanf (Dec True # ds) (dec_nat n @ t) = obind (sscanf ds t) (\<lambda>vs. Inr (Scan_Int (int n) # vs))"
    and "sscanf (Dec True # ds) (CHR '' '' # dec_nat n @ t) = obind (sscanf ds t) (\<lambda>vs. Inr (Scan_Int (int n) # vs))"
proof -
  have "- INT_MAX - 1 \<le> int n" by (simp add: INT_MAX_def)
  then show "sscanf (Dec True # ds) (dec_nat n @ t) = obind (sscanf ds t) (\<lambda>vs. Inr (Scan_Int (int n) # vs))"
    and "sscanf (Dec True # ds) (CHR '' '' # dec_nat n @ t) = obind (sscanf ds t) (\<lambda>vs. Inr (Scan_Int (int n) # vs))"
    using scan_int_dec_nat [of "[]" t n, OF _ assms(1)] scan_int_dec_nat [of "'' ''" t n, OF _ assms(1)] assms(2)
    by (simp_all add: isspace_def)
qed

lemma sscanf_Hex [scan_simps]:
  assumes "t \<noteq> []" and "hd t \<in> {CHR '':'', CHR '' ''}" and "int n \<le> INT_MAX"
  shows "sscanf (Hex True # ds) (hex2 n @ t) = obind (sscanf ds t) (\<lambda>vs. Inr (Scan_Int (int n) # vs))"
    and "sscanf (Hex True # ds) (CHR '' '' # hex2 n @ t) = obind (sscanf ds t) (\<lambda>vs. Inr (Scan_Int (int n) # vs))"
proof -
  have "int n < 2 ^ 32" using assms(3) by (simp add: INT_MAX_def)
  then show "sscanf (Hex True # ds) (hex2 n @ t) = obind (sscanf ds t) (\<lambda>vs. Inr (Scan_Int (int n) # vs))"
    and "sscanf (Hex True # ds) (CHR '' '' # hex2 n @ t) = obind (sscanf ds t) (\<lambda>vs. Inr (Scan_Int (int n) # vs))"
    using scan_hex_hex2 [of "[]" t n, OF _ assms(1,2)] scan_hex_hex2 [of "'' ''" t n, OF _ assms(1,2)]
      int_of_unsigned_small [OF _ assms(3)]
    by (simp_all add: isspace_def)
qed

lemma sscanf_Str_skip [scan_simps]:
  assumes "w \<noteq> []" and "\<forall>c \<in> set w. \<not> isspace c" and "t = [] \<or> isspace (hd t)"
  shows "sscanf (Str False # ds) (w @ t) = sscanf ds t"
    and "sscanf (Str False # ds) (CHR '' '' # w @ t) = sscanf ds t"
  using sscanf_word [OF assms(1,2) _ assms(3), of "[]" ds] sscanf_word [OF assms(1,2) _ assms(3), of "'' ''" ds]
  by (simp_all add: isspace_def)

lemma sscanf_Str [scan_simps]:
  assumes "c \<in> set s" and "\<not> isspace c"
  shows "\<exists>w. sscanf [Str True] s = Inr [Scan_Str w]"
proof -
  have "dropWhile isspace s \<noteq> []" using assms by (auto simp: dropWhile_eq_Nil_conv)
  moreover from this have "\<not> isspace (hd (dropWhile isspace s))" by (rule hd_dropWhile)
  ultimately have "takeWhile (\<lambda>c. \<not> isspace c) (dropWhile isspace s) \<noteq> []"
    by (cases "dropWhile isspace s") auto
  then show ?thesis by (simp add: Let_def)
qed

declare sscanf.simps [simp del]

lemmas sscanf_literals [scan_simps] = sscanf.simps(1,3)

subsection \<open>Where a needle can be found\<close>

lemma sublist_skip:
  assumes "hd needle \<notin> set a" and "needle \<noteq> []"
  shows "sublist needle (a @ b) \<longleftrightarrow> sublist needle b"
  using assms
proof (induction a)
  case (Cons c a)
  then have "\<not> prefix needle (c # a @ b)" by (cases needle) auto
  then show ?case using Cons by (simp add: sublist_Cons_right)
qed simp

lemma sublist_skip2:
  assumes "d \<notin> set a" and "b = [] \<or> hd b \<noteq> d"
  shows "sublist (c # d # needle) (a @ b) \<longleftrightarrow> sublist (c # d # needle) b"
  using assms(1)
proof (induction a)
  case (Cons x a)
  have "hd (a @ b) \<noteq> d" if "a @ b \<noteq> []" using Cons.prems assms(2) that by (cases a) auto
  then have "\<not> prefix (c # d # needle) (x # a @ b)" by (cases "a @ b") auto
  then show ?case using Cons by (auto simp: sublist_Cons_right)
qed simp

lemma sublist_newline:
  assumes "x \<notin> set needle" and "needle \<noteq> []"
  shows "sublist needle (b @ [x]) \<longleftrightarrow> sublist needle b"
proof (induction b)
  case Nil
  then show ?case using assms by (cases needle) (auto simp: sublist_Cons_right)
next
  case (Cons c b)
  have "prefix needle ((c # b) @ [x]) \<longleftrightarrow> prefix needle (c # b)"
    using assms prefix_snoc [of needle "c # b" x] by auto
  then show ?case using Cons by (simp add: sublist_Cons_right)
qed
subsection \<open>The files as the kernel prints them\<close>

text \<open>
  A line of \<open>/proc/self/mountinfo\<close>: mount id, parent id, device, and the rest from the root on. A line
  of \<open>/proc/self/maps\<close>: range, permissions, offset, device, inode, and the padded path.
\<close>

record mount_entry =
  mt_id :: nat
  mt_parent :: nat
  mt_major :: nat
  mt_minor :: nat
  mt_rest :: string

definition mount_line :: "mount_entry \<Rightarrow> string" where
  "mount_line e =
     dec_nat (mt_id e) @ '' '' @ dec_nat (mt_parent e) @ '' '' @ dec_nat (mt_major e) @ '':'' @
     dec_nat (mt_minor e) @ '' '' @ mt_rest e @ [NL]"

record map_entry =
  mp_range :: string
  mp_perms :: string
  mp_offset :: string
  mp_major :: nat
  mp_minor :: nat
  mp_inode :: string
  mp_path :: string

definition map_line :: "map_entry \<Rightarrow> string" where
  "map_line e =
     mp_range e @ '' '' @ mp_perms e @ '' '' @ mp_offset e @ '' '' @ hex2 (mp_major e) @ '':'' @
     hex2 (mp_minor e) @ '' '' @ mp_inode e @ '' '' @ mp_path e @ [NL]"

definition plain :: "string \<Rightarrow> bool" where
  "plain s \<longleftrightarrow> NUL \<notin> set s \<and> NL \<notin> set s"

definition field :: "string \<Rightarrow> bool" where
  "field s \<longleftrightarrow> s \<noteq> [] \<and> (\<forall>c \<in> set s. \<not> isspace c \<and> c \<noteq> NUL \<and> c \<noteq> CHR ''/'')"

definition mount_ok :: "mount_entry \<Rightarrow> bool" where
  "mount_ok e \<longleftrightarrow> int (mt_major e) \<le> INT_MAX \<and> int (mt_minor e) \<le> INT_MAX \<and> plain (mt_rest e) \<and>
                length (mount_line e) < PATH_MAX - 1"

definition map_ok :: "map_entry \<Rightarrow> bool" where
  "map_ok e \<longleftrightarrow> int (mp_major e) \<le> INT_MAX \<and> int (mp_minor e) \<le> INT_MAX \<and> plain (mp_path e) \<and>
              field (mp_range e) \<and> field (mp_perms e) \<and> field (mp_offset e) \<and> field (mp_inode e) \<and>
              length (map_line e) < PATH_MAX - 1"

text \<open>What the two searches look for.\<close>

definition is_data_mount :: "mount_entry \<Rightarrow> bool" where
  "is_data_mount e \<longleftrightarrow> strstr (mt_rest e) ''/ /data ''"

definition is_system_file :: "map_entry \<Rightarrow> bool" where
  "is_system_file e \<longleftrightarrow> system_line (CHR '' '' # mp_path e)"

lemma plain_numbers:
  "c \<in> set (dec_nat n) \<Longrightarrow> c \<noteq> NUL \<and> c \<noteq> NL \<and> c \<noteq> CHR ''/''"
  "c \<in> set (hex2 n) \<Longrightarrow> c \<noteq> NUL \<and> c \<noteq> NL \<and> c \<noteq> CHR ''/''"
  using isdigit_dec_nat [of c n] hex2_props [of n] by (auto simp: isdigit_def isxdigit_def)

lemma mount_line_ok:
  assumes "mount_ok e"
  shows "line_ok (PATH_MAX - 1) (mount_line e)" and "c_str (mount_line e) = mount_line e"
proof -
  let ?l = "dec_nat (mt_id e) @ '' '' @ dec_nat (mt_parent e) @ '' '' @ dec_nat (mt_major e) @ '':'' @
            dec_nat (mt_minor e) @ '' '' @ mt_rest e"
  have "NL \<notin> set ?l" "NUL \<notin> set (mount_line e)"
    using assms by (auto simp: mount_ok_def plain_def mount_line_def dest: plain_numbers)
  moreover have "mount_line e = ?l @ [NL]" by (simp add: mount_line_def)
  ultimately show "line_ok (PATH_MAX - 1) (mount_line e)" "c_str (mount_line e) = mount_line e"
    using assms by (auto simp: line_ok_def mount_ok_def c_text simp del: append_assoc)
qed

lemma map_line_ok:
  assumes "map_ok e"
  shows "line_ok (PATH_MAX - 1) (map_line e)" and "c_str (map_line e) = map_line e"
proof -
  let ?l = "mp_range e @ '' '' @ mp_perms e @ '' '' @ mp_offset e @ '' '' @ hex2 (mp_major e) @ '':'' @
            hex2 (mp_minor e) @ '' '' @ mp_inode e @ '' '' @ mp_path e"
  have f: "NL \<notin> set s \<and> NUL \<notin> set s" if "field s" for s
    using that by (auto simp: field_def isspace_def)
  have "NL \<notin> set ?l" "NUL \<notin> set (map_line e)"
    using assms f by (auto simp: map_ok_def plain_def map_line_def dest: plain_numbers)
  moreover have "map_line e = ?l @ [NL]" by (simp add: map_line_def)
  ultimately show "line_ok (PATH_MAX - 1) (map_line e)" "c_str (map_line e) = map_line e"
    using assms by (auto simp: line_ok_def map_ok_def c_text simp del: append_assoc)
qed
lemma data_mount_line: "strstr (mount_line e) ''/ /data '' \<longleftrightarrow> is_data_mount e"
proof -
  let ?a = "dec_nat (mt_id e) @ '' '' @ dec_nat (mt_parent e) @ '' '' @ dec_nat (mt_major e) @ '':'' @
            dec_nat (mt_minor e) @ '' ''"
  have "mount_line e = ?a @ mt_rest e @ [NL]" by (simp add: mount_line_def)
  moreover have "CHR ''/'' \<notin> set ?a" by (auto dest: plain_numbers)
  ultimately show ?thesis
    using sublist_skip [of "''/ /data ''" ?a "mt_rest e @ [NL]"] sublist_newline [of NL "''/ /data ''" "mt_rest e"]
    by (simp add: strstr_sublist is_data_mount_def)
qed

lemma sscanf_mount_line:
  assumes "mount_ok e"
  shows "sscanf mount_format (mount_line e) = Inr [Scan_Int (int (mt_major e)), Scan_Int (int (mt_minor e))]"
proof -
  have "\<not> isdigit (CHR '' '')" "\<not> isdigit (CHR '':'')" by (simp_all add: isdigit_def)
  then show ?thesis using assms by (simp add: mount_format_def mount_line_def mount_ok_def scan_simps)
qed

lemma strstr_slash: "CHR ''/'' \<in> set needle \<Longrightarrow> strstr s needle \<Longrightarrow> CHR ''/'' \<in> set s"
  using set_mono_sublist strstr_sublist by blast

lemma system_line_slash: "system_line s \<Longrightarrow> CHR ''/'' \<in> set s"
  unfolding system_line_def by (auto dest: strstr_slash [rotated])

lemma system_map_line:
  assumes "map_ok e"
  shows "system_line (map_line e) \<longleftrightarrow> is_system_file e"
proof -
  let ?a = "mp_range e @ '' '' @ mp_perms e @ '' '' @ mp_offset e @ '' '' @ hex2 (mp_major e) @ '':'' @
            hex2 (mp_minor e) @ '' '' @ mp_inode e"
  let ?p = "CHR '' '' # mp_path e"
  have l: "map_line e = ?a @ ?p @ [NL]" by (simp add: map_line_def)
  have "CHR ''/'' \<notin> set t" if "field t" for t using that by (auto simp: field_def)
  moreover have "CHR ''/'' \<notin> set (hex2 n)" for n using plain_numbers(2) by blast
  ultimately have a: "CHR ''/'' \<notin> set ?a" using assms by (simp add: map_ok_def)
  have s: "strstr (map_line e) (CHR '' '' # CHR ''/'' # n) \<longleftrightarrow> strstr ?p (CHR '' '' # CHR ''/'' # n)"
    if "NL \<notin> set n" for n
  proof -
    have "sublist (CHR '' '' # CHR ''/'' # n) (?a @ ?p @ [NL]) \<longleftrightarrow> sublist (CHR '' '' # CHR ''/'' # n) (?p @ [NL])"
      by (rule sublist_skip2 [OF a]) simp
    also have "\<dots> \<longleftrightarrow> sublist (CHR '' '' # CHR ''/'' # n) ?p"
      by (rule sublist_newline) (use that in simp_all)
    finally show ?thesis by (simp only: l strstr_sublist)
  qed
  show ?thesis
    unfolding system_line_def is_system_file_def
    using s [of "''system/''"] s [of "''vendor/''"] s [of "''product/''"] s [of "''system_ext/''"]
    by (simp del: strstr.simps)
qed

lemma sscanf_map_line:
  assumes "map_ok e" and "is_system_file e"
  shows "\<exists>p. sscanf maps_format (map_line e) =
             Inr [Scan_Int (int (mp_major e)), Scan_Int (int (mp_minor e)), Scan_Str p]"
proof -
  have "CHR ''/'' \<in> set (mp_path e)"
    using assms(2) system_line_slash [of "CHR '' '' # mp_path e"] by (simp add: is_system_file_def)
  then obtain p where p: "sscanf [Str True] (CHR '' '' # mp_path e @ [NL]) = Inr [Scan_Str p]"
    using sscanf_Str [of "CHR ''/''" "CHR '' '' # mp_path e @ [NL]"] by (auto simp: isspace_def)
  have space: "isspace (CHR '' '')" by (simp add: isspace_def)
  from p show ?thesis
    using assms(1) space by (simp add: maps_format_def map_line_def map_ok_def field_def scan_simps)
qed

subsection \<open>What the detector finds\<close>

text \<open>The device of \<open>/data\<close> after the mount table has been read, the last such mount winning.\<close>

definition data_device :: "mount_entry list \<Rightarrow> int \<times> int \<Rightarrow> int \<times> int" where
  "data_device es old =
     foldl (\<lambda>d e. if is_data_mount e then (int (mt_major e), int (mt_minor e)) else d) old es"

lemma mountinfo_loop_entries:
  assumes "\<forall>e \<in> set es. mount_ok e"
  shows "mountinfo_loop (map mount_line es) m =
         Inr (m\<lparr>mg_major := fst (data_device es (mg_major m, mg_minor m)),
                mg_minor := snd (data_device es (mg_major m, mg_minor m))\<rparr>)"
  using assms
proof (induction es arbitrary: m)
  case (Cons e es)
  then show ?case
    by (cases "is_data_mount e")
       (simp_all add: data_mount_line mount_line_ok sscanf_mount_line assign_device_def data_device_def)
qed (simp add: data_device_def)

definition from_device :: "int \<times> int \<Rightarrow> map_entry \<Rightarrow> bool" where
  "from_device d e \<longleftrightarrow> is_system_file e \<and> (int (mp_major e), int (mp_minor e)) = d"

lemma device_matches_entry:
  "device_matches m [Scan_Int a, Scan_Int b, Scan_Str p] = Inr ((a, b) = (mg_major m, mg_minor m))"
  by (simp add: device_matches_def)

lemma maps_loop_entries:
  assumes "\<forall>e \<in> set es. map_ok e"
  shows "maps_loop (map map_line es) m = Inr (list_ex (from_device (mg_major m, mg_minor m)) es)"
  using assms
proof (induction es)
  case (Cons e es)
  show ?case
  proof (cases "is_system_file e")
    case True
    then obtain p where p: "sscanf maps_format (map_line e) =
             Inr [Scan_Int (int (mp_major e)), Scan_Int (int (mp_minor e)), Scan_Str p]"
      using sscanf_map_line [of e] Cons.prems by auto
    have "CHR ''/'' \<in> set (map_line e)"
      using True system_line_slash [of "map_line e"] system_map_line [of e] Cons.prems by simp
    with p True Cons show ?thesis
      by (auto simp add: map_line_ok system_map_line device_matches_entry from_device_def)
  next
    case False
    with Cons show ?thesis by (simp add: map_line_ok system_map_line from_device_def)
  qed
qed simp
text \<open>The files of a system, or \<open>None\<close> for one that cannot be read.\<close>

definition mounts_and_maps :: "os \<Rightarrow> mount_entry list option \<Rightarrow> map_entry list option \<Rightarrow> bool" where
  "mounts_and_maps s mounts maps \<longleftrightarrow>
     os_file s ''/proc/self/mountinfo'' = map_option (\<lambda>es. concat (map mount_line es)) mounts \<and>
     os_file s ''/proc/self/maps'' = map_option (\<lambda>es. concat (map map_line es)) maps \<and>
     pred_option (list_all mount_ok) mounts \<and> pred_option (list_all map_ok) maps"

definition device_after :: "mount_entry list option \<Rightarrow> int \<times> int \<Rightarrow> int \<times> int" where
  "device_after mounts old = (case mounts of None \<Rightarrow> old | Some es \<Rightarrow> data_device es old)"

definition magic_answer :: "int \<times> int \<Rightarrow> map_entry list option \<Rightarrow> int" where
  "magic_answer d maps =
     (if fst d = - 1 \<or> snd d = - 1 then - 1
      else case maps of None \<Rightarrow> - 1 | Some es \<Rightarrow> if list_ex (from_device d) es then 1 else 0)"

lemma fgets_all_map:
  "\<forall>e \<in> set es. line_ok n (f e) \<Longrightarrow> fgets_all n (concat (map f es)) = map f es"
  by (rule fgets_all_lines) auto

lemma scan_mountinfo_entries:
  assumes "mounts_and_maps s mounts maps" and "mg_open m < limit"
  shows "scan_mountinfo s limit m =
         Inr (m\<lparr>mg_major := fst (device_after mounts (mg_major m, mg_minor m)),
                mg_minor := snd (device_after mounts (mg_major m, mg_minor m))\<rparr>)"
proof (cases mounts)
  case None
  with assms show ?thesis
    by (simp add: mounts_and_maps_def scan_mountinfo_def open_stream_def device_after_def)
next
  case (Some es)
  then have ok: "\<forall>e \<in> set es. mount_ok e" and f: "os_file s ''/proc/self/mountinfo'' = Some (concat (map mount_line es))"
    using assms(1) by (simp_all add: mounts_and_maps_def list_all_iff)
  have "fgets_all (PATH_MAX - 1) (concat (map mount_line es)) = map mount_line es"
    by (rule fgets_all_map) (use ok mount_line_ok in blast)
  with f assms(2) Some show ?thesis
    by (simp add: scan_mountinfo_def open_stream_def mountinfo_loop_entries [OF ok] device_after_def close_stream_def)
qed

lemma scan_maps_entries:
  assumes "mounts_and_maps s mounts maps" and "mg_open m < limit" and "d = (mg_major m, mg_minor m)"
  shows "scan_maps s limit m =
         (let found = (case maps of None \<Rightarrow> - 1 | Some es \<Rightarrow> if list_ex (from_device d) es then 1 else 0)
          in Inr (found, m\<lparr>mg_open := mg_open m + (if found = 1 then 1 else 0)\<rparr>))"
proof (cases maps)
  case None
  with assms(1,2) show ?thesis by (simp add: mounts_and_maps_def scan_maps_def open_stream_def)
next
  case (Some es)
  then have ok: "\<forall>e \<in> set es. map_ok e" and f: "os_file s ''/proc/self/maps'' = Some (concat (map map_line es))"
    using assms(1) by (simp_all add: mounts_and_maps_def list_all_iff)
  have "fgets_all (PATH_MAX - 1) (concat (map map_line es)) = map map_line es"
    by (rule fgets_all_map) (use ok map_line_ok in blast)
  with f assms(2,3) Some show ?thesis
    by (simp add: scan_maps_def open_stream_def maps_loop_entries [OF ok] close_stream_def)
qed

lemma haveMagicMount_entries:
  assumes "mounts_and_maps s mounts maps" and "mg_open m < limit"
    and "d = device_after mounts (mg_major m, mg_minor m)"
  shows "haveMagicMount s limit m =
         Inr (magic_answer d maps,
              \<lparr>mg_major = fst d, mg_minor = snd d,
               mg_open = mg_open m + (if magic_answer d maps = 1 then 1 else 0)\<rparr>)"
proof -
  let ?m = "m\<lparr>mg_major := fst d, mg_minor := snd d\<rparr>"
  have "scan_mountinfo s limit m = Inr ?m"
    using scan_mountinfo_entries [OF assms(1,2)] assms(3) by simp
  moreover have "mg_open ?m < limit" using assms(2) by simp
  from scan_maps_entries [OF assms(1) this, of d] have "scan_maps s limit ?m =
         (let found = (case maps of None \<Rightarrow> - 1 | Some es \<Rightarrow> if list_ex (from_device d) es then 1 else 0)
          in Inr (found, ?m\<lparr>mg_open := mg_open m + (if found = 1 then 1 else 0)\<rparr>))" by simp
  ultimately show ?thesis
    by (auto simp: haveMagicMount_def magic_answer_def Let_def split: option.splits)
qed

lemma haveMagicMount_full: "limit \<le> mg_open m \<Longrightarrow> haveMagicMount s limit m = Inr (- 1, m)"
  by (simp add: haveMagicMount_def scan_mountinfo_def scan_maps_def open_stream_def)

text \<open>C34: When the mount table and the maps are as the kernel prints them, the detector answers 1 exactly when a
  system file is mapped from the device that is mounted on \<open>/data\<close>, 0 when none is, and \<open>- 1\<close> when the
  device or the maps are not known; it remembers the device, and every answer 1 costs a descriptor.\<close>

theorem haveMagicMount_correct:
  assumes "mounts_and_maps s mounts maps" and "mg_open m < limit"
  shows "haveMagicMount s limit m =
         (let d = device_after mounts (mg_major m, mg_minor m); answer = magic_answer d maps
          in Inr (answer, \<lparr>mg_major = fst d, mg_minor = snd d,
                            mg_open = mg_open m + (if answer = 1 then 1 else 0)\<rparr>))"
  using haveMagicMount_entries [OF assms refl] by (simp add: Let_def)

subsection \<open>Repeated calls\<close>

fun magic_calls :: "os \<Rightarrow> nat \<Rightarrow> nat \<Rightarrow> magisk \<Rightarrow> (int list \<times> magisk) outcome" where
  "magic_calls s limit 0 m = Inr ([], m)"
| "magic_calls s limit (Suc k) m =
     obind (haveMagicMount s limit m) (\<lambda>(a, m1).
     obind (magic_calls s limit k m1) (\<lambda>(as, m2). Inr (a # as, m2)))"

lemma magic_calls_full:
  "limit \<le> mg_open m \<Longrightarrow> magic_calls s limit k m = Inr (replicate k (- 1), m)"
  by (induction k) (simp_all add: haveMagicMount_full)

lemma data_device_again: "data_device es (data_device es old) = data_device es old"
proof -
  have "data_device es x = data_device es y \<or> (\<forall>z. data_device es z = z)" for x y
  proof (induction es arbitrary: x y)
    case (Cons e es)
    then show ?case by (cases "is_data_mount e") (auto simp: data_device_def)
  qed (simp add: data_device_def)
  then show ?thesis by metis
qed

lemma device_after_again: "device_after mounts (device_after mounts old) = device_after mounts old"
  by (simp add: device_after_def data_device_again split: option.splits)

lemma magic_calls_detecting:
  assumes "mounts_and_maps s mounts maps"
    and "magic_answer (device_after mounts (mg_major m, mg_minor m)) maps = 1"
    and "n = limit - mg_open m" and "0 < n"
  shows "\<exists>m'. magic_calls s limit (n + k) m = Inr (replicate n 1 @ replicate k (- 1), m') \<and> mg_open m' = limit"
  using assms(2-)
proof (induction n arbitrary: m)
  case (Suc n)
  let ?d = "device_after mounts (mg_major m, mg_minor m)"
  let ?m = "\<lparr>mg_major = fst ?d, mg_minor = snd ?d, mg_open = mg_open m + 1\<rparr>"
  have h: "haveMagicMount s limit m = Inr (1, ?m)"
    using haveMagicMount_entries [OF assms(1) _ refl, of m limit] Suc.prems by simp
  show ?case
  proof (cases "n = 0")
    case True
    then have "limit \<le> mg_open ?m" using Suc.prems by simp
    from magic_calls_full [OF this, of s k] have "magic_calls s limit k ?m = Inr (replicate k (- 1), ?m)" .
    moreover have "mg_open ?m = limit" using True Suc.prems by simp
    ultimately show ?thesis using h True by simp
  next
    case False
    have "\<exists>m'. magic_calls s limit (n + k) ?m = Inr (replicate n 1 @ replicate k (- 1), m') \<and> mg_open m' = limit"
      by (rule Suc.IH) (use Suc.prems False device_after_again [of mounts] in auto)
    with h show ?thesis by auto
  qed
qed simp

text \<open>A positive answer leaves its descriptor open, so on a device that stays the same the detector answers 1
  only as often as descriptors are left, and after that always \<open>- 1\<close>.\<close>

theorem magic_answers_run_out:
  assumes "mounts_and_maps s mounts maps" and "mg_open m < limit"
    and "magic_answer (device_after mounts (mg_major m, mg_minor m)) maps = 1"
  shows "\<exists>m'. magic_calls s limit (limit - mg_open m + k) m =
              Inr (replicate (limit - mg_open m) 1 @ replicate k (- 1), m') \<and> mg_open m' = limit"
  using magic_calls_detecting [OF assms(1,3) refl] assms(2) by simp

subsection \<open>Witnesses\<close>

definition data_mount :: mount_entry where
  "data_mount =
    \<lparr>mt_id = 9, mt_parent = 8, mt_major = 25, mt_minor = 5, mt_rest = ''/ /data rw - ext4 x rw''\<rparr>"

definition module_map :: map_entry where
  "module_map =
    \<lparr>mp_range = ''7f-80'', mp_perms = ''r--p'', mp_offset = ''0'', mp_major = 25, mp_minor = 5, mp_inode = ''11'',
     mp_path = '' /system/bin/x''\<rparr>"

definition magisk_os :: os where
  "magisk_os =
    \<lparr>os_file = [''/proc/self/mountinfo'' \<mapsto> mount_line data_mount, ''/proc/self/maps'' \<mapsto> map_line module_map],
     os_command = (\<lambda>_. None), os_F_OK = (\<lambda>_. False), os_R_OK = (\<lambda>_. False), os_X_OK = (\<lambda>_. False),
     os_dlopen = (\<lambda>_. None), os_getpid = 1, os_getppid = 1, os_getuid = 0, os_ptrace = 0,
     os_nprocessors_conf = 1, os_property = (\<lambda>_. [])\<rparr>"

lemma length_dec_small [simp]: "n < 10 \<Longrightarrow> length (dec_nat n) = 1"
  by simp

lemma magisk_os_files: "mounts_and_maps magisk_os (Some [data_mount]) (Some [module_map])"
proof -
  have "length (dec_nat 9) \<le> 1" "length (dec_nat 8) \<le> 1" "length (dec_nat 25) \<le> 2" "length (dec_nat 5) \<le> 1"
    using length_dec_nat [of 25 1] by simp_all
  then have "mount_ok data_mount"
    by (simp add: mount_ok_def data_mount_def INT_MAX_def plain_def mount_line_def PATH_MAX_def)
  moreover have "map_ok module_map"
    by (simp add: map_ok_def module_map_def INT_MAX_def plain_def field_def map_line_def PATH_MAX_def isspace_def
        hex2_def hex_nat.simps)
  ultimately show ?thesis by (simp add: mounts_and_maps_def magisk_os_def)
qed

lemma magisk_os_answer: "device_after (Some [data_mount]) old = (25, 5)" "magic_answer (25, 5) (Some [module_map]) = 1"
  by (simp_all add: device_after_def data_device_def data_mount_def is_data_mount_def magic_answer_def from_device_def
      module_map_def is_system_file_def system_line_def)

theorem haveMagicMount_correct_witness:
  "haveMagicMount magisk_os 1024 (magisk_start 3) = Inr (1, \<lparr>mg_major = 25, mg_minor = 5, mg_open = 4\<rparr>)"
  using haveMagicMount_correct [OF magisk_os_files, of "magisk_start 3" 1024]
  by (simp add: magisk_start_def magisk_os_answer)

theorem magic_answers_run_out_witness:
  "\<exists>m. magic_calls magisk_os 5 4 (magisk_start 3) = Inr ([1, 1, - 1, - 1], m) \<and> mg_open m = 5"
  using magic_answers_run_out [OF magisk_os_files, of "magisk_start 3" 5 2]
  by (simp add: magisk_start_def magisk_os_answer numeral_2_eq_2 eval_nat_numeral)

end
