(* ===== verification/Qt_Jni.thy ===== *)
theory Qt_Jni
  imports Java_Reference_Laws Logging
begin

section \<open>Java objects behind QJniObject\<close>

text \<open>
  \<open>app/src/main/cpp/qjnienvironment.{h,cpp}\<close>, \<open>qjniobject.{h,cpp}\<close> and \<open>qjnihelpers.cpp\<close>, which the application
  keeps in a changed form: the caches of classes and methods are gone. A \<open>QJniObject\<close> is the address \<open>d\<close> of
  its \<open>QJniObjectPrivate\<close>, which is shared and counted; references are those of \<open>Java_References\<close>. What Java
  code answers depends on all the calls made before it; an answer \<open>None\<close> is an exception. In this theory
  the field \<open>g_jvm\<close> of \<open>jvm\<close> stands for the pointer \<open>g_javaVM\<close>. Log output is left out.
\<close>

subsection \<open>Types, values, and what Java answers\<close>

text \<open>The types of \<open>jni.h\<close>; \<open>other_object\<close> is any other class that converts to \<open>jobject\<close>, \<open>other_type\<close> any other type.\<close>

datatype jni_type =
    jobject | jclass | jstring | jobjectArray | jthrowable | jbooleanArray | jbyteArray | jshortArray | jintArray
  | jlongArray | jfloatArray | jdoubleArray | jcharArray | jboolean | jbyte | jchar | jshort | jint | jlong | jfloat
  | jdouble | jvoid | other_object | other_type

text \<open>A value, with the object behind a reference; numbers are given by their bits.\<close>

datatype jvalue = Void | Prim jni_type int | Obj "nat option"

datatype jarg = Arg_Prim jni_type int | Arg_Ref ptr

text \<open>What Java sees: a method or constructor called on an object or class, a string made, a field set.\<close>

datatype java_call =
    Java_Call nat nat "jvalue list"
  | Java_New_String "byte list"
  | Java_Set_Field nat nat jvalue

record qt_java =
  qa_refs :: java_answers
  qa_find_class :: "string \<Rightarrow> nat option"
  qa_class_of :: "nat \<Rightarrow> nat"
  qa_method :: "nat \<Rightarrow> string \<Rightarrow> string \<Rightarrow> bool \<Rightarrow> nat option"
  qa_field :: "nat \<Rightarrow> string \<Rightarrow> string \<Rightarrow> bool \<Rightarrow> nat option"
  qa_method_type :: "nat \<Rightarrow> jni_type"
  qa_field_type :: "nat \<Rightarrow> jni_type"
  qa_answer :: "java_call list \<Rightarrow> jvalue option"
  qa_new_string :: "java_call list \<Rightarrow> nat"
  qa_field_value :: "java_call list \<Rightarrow> nat \<Rightarrow> nat \<Rightarrow> jvalue"
  qa_chars :: "java_call list \<Rightarrow> nat \<Rightarrow> byte list option"
  qa_register :: "nat \<Rightarrow> bool"

record qprivate =
  m_jobject :: ptr
  m_jclass :: ptr
  m_own_jclass :: bool
  m_className :: string

record qjni =
  qj_vm :: jvm
  qj_pending :: bool
  qj_calls :: "java_call list"
  qj_priv :: "nat \<rightharpoonup> qprivate \<times> nat"
  qj_next :: nat
  qj_pinned :: nat
  g_jActivity :: ptr
  g_jService :: ptr
  g_jClassLoader :: ptr
  jniEnvTLS :: "thread_id set"
  sdkVersion :: int
  qj_initialized :: bool

text \<open>A type test that the compiler makes: code that fails it does not exist.\<close>

definition static_assert :: "bool \<Rightarrow> unit outcome" where
  "static_assert b = check b"

subsection \<open>The functions of \<open>JNIEnv\<close>\<close>

text \<open>A call through the environment of thread \<open>t\<close>. Most functions must not be called while an exception is
  pending.\<close>

definition jni_ready :: "thread_id \<Rightarrow> thread_id option \<Rightarrow> qjni \<Rightarrow> unit outcome" where
  "jni_ready t env s = defined (env = Some t \<and> t \<in> jv_attached (qj_vm s) \<and> \<not> qj_pending s)"

text \<open>A new local reference; without memory it is null and an exception is pending.\<close>

definition q_local :: "qt_java \<Rightarrow> thread_id \<Rightarrow> nat \<Rightarrow> qjni \<Rightarrow> qjni \<times> ptr" where
  "q_local qa t obj s =
     (let (j, p) = hand_out (qa_refs qa) (LocalRef t) obj (qj_vm s)
      in (s\<lparr>qj_vm := j, qj_pending := qj_pending s \<or> p = None\<rparr>, p))"

definition q_local_opt :: "qt_java \<Rightarrow> thread_id \<Rightarrow> nat option \<Rightarrow> qjni \<Rightarrow> qjni \<times> ptr" where
  "q_local_opt qa t ob s = (case ob of None \<Rightarrow> (s, None) | Some obj \<Rightarrow> q_local qa t obj s)"

definition deref :: "thread_id \<Rightarrow> ptr \<Rightarrow> qjni \<Rightarrow> nat outcome" where
  "deref t p s =
     (case p of
        None \<Rightarrow> Inl Undefined_Behaviour
      | Some h \<Rightarrow> obind (defined (usable t h (qj_vm s))) (\<lambda>_. Inr (snd (the (jv_refs (qj_vm s) h)))))"

definition deref_opt :: "thread_id \<Rightarrow> ptr \<Rightarrow> qjni \<Rightarrow> nat option outcome" where
  "deref_opt t p s = (if p = None then Inr None else obind (deref t p s) (\<lambda>obj. Inr (Some obj)))"

fun arg_value :: "thread_id \<Rightarrow> qjni \<Rightarrow> jarg \<Rightarrow> jvalue outcome" where
  "arg_value t s (Arg_Prim T v) = Inr (Prim T v)"
| "arg_value t s (Arg_Ref p) = obind (deref_opt t p s) (\<lambda>ob. Inr (Obj ob))"

fun arg_values :: "thread_id \<Rightarrow> qjni \<Rightarrow> jarg list \<Rightarrow> jvalue list outcome" where
  "arg_values t s [] = Inr []"
| "arg_values t s (a # as) = obind (arg_value t s a) (\<lambda>v. obind (arg_values t s as) (\<lambda>vs. Inr (v # vs)))"

definition env_NewGlobalRef :: "qt_java \<Rightarrow> thread_id \<Rightarrow> thread_id option \<Rightarrow> ptr \<Rightarrow> qjni \<Rightarrow> (qjni \<times> ptr) outcome" where
  "env_NewGlobalRef qa t env p s =
     obind (jni_ready t env s) (\<lambda>_.
     obind (NewRef (qa_refs qa) t GlobalRef p (qj_vm s)) (\<lambda>(j, q). Inr (s\<lparr>qj_vm := j\<rparr>, q)))"

text \<open>\<open>DeleteLocalRef\<close> and \<open>DeleteGlobalRef\<close> may be called with an exception pending.\<close>

definition env_DeleteRef :: "thread_id \<Rightarrow> thread_id option \<Rightarrow> ref_kind \<Rightarrow> ptr \<Rightarrow> qjni \<Rightarrow> (qjni \<times> unit) outcome" where
  "env_DeleteRef t env k p s =
     obind (defined (env = Some t)) (\<lambda>_. obind (DeleteRef t k p (qj_vm s)) (\<lambda>j. Inr (s\<lparr>qj_vm := j\<rparr>, ())))"

definition env_GetObjectClass :: "qt_java \<Rightarrow> thread_id \<Rightarrow> thread_id option \<Rightarrow> ptr \<Rightarrow> qjni \<Rightarrow> (qjni \<times> ptr) outcome" where
  "env_GetObjectClass qa t env p s =
     obind (jni_ready t env s) (\<lambda>_. obind (deref t p s) (\<lambda>obj. Inr (q_local qa t (qa_class_of qa obj) s)))"

definition env_FindClass :: "qt_java \<Rightarrow> thread_id \<Rightarrow> thread_id option \<Rightarrow> string \<Rightarrow> qjni \<Rightarrow> (qjni \<times> ptr) outcome" where
  "env_FindClass qa t env name s =
     obind (jni_ready t env s) (\<lambda>_.
     case qa_find_class qa name of
       None \<Rightarrow> Inr (s\<lparr>qj_pending := True\<rparr>, None)
     | Some c \<Rightarrow> Inr (q_local qa t c s))"

text \<open>\<open>GetMethodID\<close>, \<open>GetStaticMethodID\<close>, \<open>GetFieldID\<close>, \<open>GetStaticFieldID\<close>: \<open>tab\<close> is \<open>qa_method\<close> or \<open>qa_field\<close>.\<close>

definition env_GetID ::
  "(nat \<Rightarrow> string \<Rightarrow> string \<Rightarrow> bool \<Rightarrow> nat option) \<Rightarrow> thread_id \<Rightarrow> thread_id option \<Rightarrow> ptr \<Rightarrow> string \<Rightarrow> string \<Rightarrow> bool \<Rightarrow>
    qjni \<Rightarrow> (qjni \<times> nat option) outcome" where
  "env_GetID tab t env clazz name signature static s =
     obind (jni_ready t env s) (\<lambda>_.
     obind (deref t clazz s) (\<lambda>c.
     let r = tab c name signature static in Inr (s\<lparr>qj_pending := r = None\<rparr>, r)))"

definition reference_type :: "jni_type \<Rightarrow> bool" where
  "reference_type T \<longleftrightarrow>
     T \<notin> {jboolean, jbyte, jchar, jshort, jint, jlong, jfloat, jdouble, jvoid, other_type}"

text \<open>A call on an object or, for a static method or constructor, on a class. A method may only be called with
  the function for its return type.\<close>

definition env_Call ::
  "qt_java \<Rightarrow> thread_id \<Rightarrow> thread_id option \<Rightarrow> (jni_type \<Rightarrow> bool) \<Rightarrow> ptr \<Rightarrow> nat \<Rightarrow> jarg list \<Rightarrow> qjni \<Rightarrow>
    (qjni \<times> jvalue option) outcome" where
  "env_Call qa t env fits_type recv mid args s =
     obind (jni_ready t env s) (\<lambda>_.
     obind (defined (fits_type (qa_method_type qa mid))) (\<lambda>_.
     obind (deref t recv s) (\<lambda>obj.
     obind (arg_values t s args) (\<lambda>vs.
     let calls = qj_calls s @ [Java_Call mid obj vs]; a = qa_answer qa calls
     in Inr (s\<lparr>qj_calls := calls, qj_pending := a = None\<rparr>, a)))))"

text \<open>\<open>CallObjectMethodV\<close>, \<open>CallStaticObjectMethodV\<close>; \<open>CallVoidMethod\<close>, \<open>CallStaticVoidMethodV\<close>; \<open>NewObjectV\<close>.\<close>

definition object_of :: "jvalue option \<Rightarrow> nat option" where
  "object_of a = (case a of Some (Obj ob) \<Rightarrow> ob | _ \<Rightarrow> None)"

definition env_CallObject ::
  "qt_java \<Rightarrow> thread_id \<Rightarrow> thread_id option \<Rightarrow> ptr \<Rightarrow> nat \<Rightarrow> jarg list \<Rightarrow> qjni \<Rightarrow> (qjni \<times> ptr) outcome" where
  "env_CallObject qa t env recv mid args s =
     obind (env_Call qa t env reference_type recv mid args s) (\<lambda>(s1, a). Inr (q_local_opt qa t (object_of a) s1))"

definition env_CallVoid ::
  "qt_java \<Rightarrow> thread_id \<Rightarrow> thread_id option \<Rightarrow> ptr \<Rightarrow> nat \<Rightarrow> jarg list \<Rightarrow> qjni \<Rightarrow> (qjni \<times> unit) outcome" where
  "env_CallVoid qa t env recv mid args s =
     obind (env_Call qa t env (\<lambda>T. T = jvoid) recv mid args s) (\<lambda>(s1, a). Inr (s1, ()))"

definition env_NewObject ::
  "qt_java \<Rightarrow> thread_id \<Rightarrow> thread_id option \<Rightarrow> ptr \<Rightarrow> nat \<Rightarrow> jarg list \<Rightarrow> qjni \<Rightarrow> (qjni \<times> ptr) outcome" where
  "env_NewObject qa t env clazz mid args s =
     obind (env_Call qa t env (\<lambda>T. T = jvoid) clazz mid args s) (\<lambda>(s1, a). Inr (q_local_opt qa t (object_of a) s1))"

definition prim_of :: "jni_type \<Rightarrow> jvalue option \<Rightarrow> int" where
  "prim_of T a = (case a of Some (Prim T' v) \<Rightarrow> if T' = T then v else 0 | _ \<Rightarrow> 0)"

text \<open>\<open>CallIntMethodV\<close>, \<open>GetIntField\<close>, \<open>SetIntField\<close> and so on for the type \<open>T\<close>, and their static forms.\<close>

definition env_CallPrim ::
  "jni_type \<Rightarrow> qt_java \<Rightarrow> thread_id \<Rightarrow> thread_id option \<Rightarrow> ptr \<Rightarrow> nat \<Rightarrow> jarg list \<Rightarrow> qjni \<Rightarrow> (qjni \<times> int) outcome" where
  "env_CallPrim T qa t env recv mid args s =
     obind (env_Call qa t env (\<lambda>T'. T' = T) recv mid args s) (\<lambda>(s1, a). Inr (s1, prim_of T a))"

definition env_GetField ::
  "qt_java \<Rightarrow> thread_id \<Rightarrow> thread_id option \<Rightarrow> (jni_type \<Rightarrow> bool) \<Rightarrow> ptr \<Rightarrow> nat \<Rightarrow> qjni \<Rightarrow> (qjni \<times> jvalue) outcome" where
  "env_GetField qa t env fits_type recv fid s =
     obind (jni_ready t env s) (\<lambda>_.
     obind (defined (fits_type (qa_field_type qa fid))) (\<lambda>_.
     obind (deref t recv s) (\<lambda>obj. Inr (s, qa_field_value qa (qj_calls s) fid obj))))"

definition env_GetObjectField ::
  "qt_java \<Rightarrow> thread_id \<Rightarrow> thread_id option \<Rightarrow> ptr \<Rightarrow> nat \<Rightarrow> qjni \<Rightarrow> (qjni \<times> ptr) outcome" where
  "env_GetObjectField qa t env recv fid s =
     obind (env_GetField qa t env reference_type recv fid s) (\<lambda>(s1, v). Inr (q_local_opt qa t (object_of (Some v)) s1))"

definition env_GetPrimField ::
  "jni_type \<Rightarrow> qt_java \<Rightarrow> thread_id \<Rightarrow> thread_id option \<Rightarrow> ptr \<Rightarrow> nat \<Rightarrow> qjni \<Rightarrow> (qjni \<times> int) outcome" where
  "env_GetPrimField T qa t env recv fid s =
     obind (env_GetField qa t env (\<lambda>T'. T' = T) recv fid s) (\<lambda>(s1, v). Inr (s1, prim_of T (Some v)))"

definition env_SetField ::
  "qt_java \<Rightarrow> thread_id \<Rightarrow> thread_id option \<Rightarrow> (jni_type \<Rightarrow> bool) \<Rightarrow> ptr \<Rightarrow> nat \<Rightarrow> jarg \<Rightarrow> qjni \<Rightarrow> (qjni \<times> unit) outcome" where
  "env_SetField qa t env fits_type recv fid a s =
     obind (jni_ready t env s) (\<lambda>_.
     obind (defined (fits_type (qa_field_type qa fid))) (\<lambda>_.
     obind (deref t recv s) (\<lambda>obj.
     obind (arg_value t s a) (\<lambda>v. Inr (s\<lparr>qj_calls := qj_calls s @ [Java_Set_Field fid obj v]\<rparr>, ())))))"

definition env_NewStringUTF :: "qt_java \<Rightarrow> thread_id \<Rightarrow> thread_id option \<Rightarrow> byte list \<Rightarrow> qjni \<Rightarrow> (qjni \<times> ptr) outcome" where
  "env_NewStringUTF qa t env text_bytes s =
     obind (jni_ready t env s) (\<lambda>_.
     let calls = qj_calls s @ [Java_New_String text_bytes]
     in Inr (q_local qa t (qa_new_string qa calls) (s\<lparr>qj_calls := calls\<rparr>)))"
subsection \<open>QJniEnvironment\<close>

definition checkAndClearExceptions :: "thread_id \<Rightarrow> thread_id option \<Rightarrow> qjni \<Rightarrow> (qjni \<times> bool) outcome" where
  "checkAndClearExceptions t env s =
     obind (defined (env = Some t)) (\<lambda>_.
     if qj_pending s then Inr (s\<lparr>qj_pending := False\<rparr>, True) else Inr (s, False))"

text \<open>The constructor: a thread that cannot be attached has no environment.\<close>

definition QJniEnvironment_new :: "qt_java \<Rightarrow> thread_id \<Rightarrow> qjni \<Rightarrow> (qjni \<times> thread_id option) outcome" where
  "QJniEnvironment_new qa t s =
     obind (defined (g_jvm (qj_vm s))) (\<lambda>_.
     if t \<in> jv_attached (qj_vm s) then Inr (s, Some t)
     else if \<not> ja_attach (qa_refs qa) t then Inr (s, None)
     else
       let s1 = s\<lparr>qj_vm := (qj_vm s)\<lparr>jv_attached := insert t (jv_attached (qj_vm s))\<rparr>\<rparr>
       in Inr (if t \<notin> jniEnvTLS s1 then s1\<lparr>jniEnvTLS := insert t (jniEnvTLS s1)\<rparr> else s1, Some t))"

definition QJniEnvironment_destroy :: "thread_id \<Rightarrow> thread_id option \<Rightarrow> qjni \<Rightarrow> (qjni \<times> unit) outcome" where
  "QJniEnvironment_destroy t env s = obind (checkAndClearExceptions t env s) (\<lambda>(s1, cleared). Inr (s1, ()))"

text \<open>A block that begins with \<open>QJniEnvironment env;\<close>.\<close>

definition with_env ::
  "qt_java \<Rightarrow> thread_id \<Rightarrow> (thread_id option \<Rightarrow> qjni \<Rightarrow> (qjni \<times> 'r) outcome) \<Rightarrow> qjni \<Rightarrow> (qjni \<times> 'r) outcome" where
  "with_env qa t body s =
     obind (QJniEnvironment_new qa t s) (\<lambda>(s1, env).
     obind (body env s1) (\<lambda>(s2, r).
     obind (QJniEnvironment_destroy t env s2) (\<lambda>(s3, u). Inr (s3, r))))"

text \<open>The lookups of the environment, which want a class that is not null.\<close>

definition env_find ::
  "(nat \<Rightarrow> string \<Rightarrow> string \<Rightarrow> bool \<Rightarrow> nat option) \<Rightarrow> thread_id \<Rightarrow> thread_id option \<Rightarrow> ptr \<Rightarrow> string \<Rightarrow> string \<Rightarrow> bool \<Rightarrow>
    qjni \<Rightarrow> (qjni \<times> nat option) outcome" where
  "env_find tab t env clazz name signature static s =
     (if clazz = None then Inr (s, None)
      else
        obind (env_GetID tab t env clazz name signature static s) (\<lambda>(s1, r).
        obind (checkAndClearExceptions t env s1) (\<lambda>(s2, cleared). Inr (s2, if cleared then None else r))))"

definition findMethod ::
  "qt_java \<Rightarrow> thread_id \<Rightarrow> thread_id option \<Rightarrow> ptr \<Rightarrow> string \<Rightarrow> string \<Rightarrow> qjni \<Rightarrow> (qjni \<times> nat option) outcome" where
  "findMethod qa t env clazz name signature = env_find (qa_method qa) t env clazz name signature False"

definition findStaticMethod ::
  "qt_java \<Rightarrow> thread_id \<Rightarrow> thread_id option \<Rightarrow> ptr \<Rightarrow> string \<Rightarrow> string \<Rightarrow> qjni \<Rightarrow> (qjni \<times> nat option) outcome" where
  "findStaticMethod qa t env clazz name signature = env_find (qa_method qa) t env clazz name signature True"

definition findField ::
  "qt_java \<Rightarrow> thread_id \<Rightarrow> thread_id option \<Rightarrow> ptr \<Rightarrow> string \<Rightarrow> string \<Rightarrow> qjni \<Rightarrow> (qjni \<times> nat option) outcome" where
  "findField qa t env clazz name signature = env_find (qa_field qa) t env clazz name signature False"

definition findStaticField ::
  "qt_java \<Rightarrow> thread_id \<Rightarrow> thread_id option \<Rightarrow> ptr \<Rightarrow> string \<Rightarrow> string \<Rightarrow> qjni \<Rightarrow> (qjni \<times> nat option) outcome" where
  "findStaticField qa t env clazz name signature = env_find (qa_field qa) t env clazz name signature True"

definition registerNativeMethods ::
  "qt_java \<Rightarrow> thread_id \<Rightarrow> thread_id option \<Rightarrow> ptr \<Rightarrow> qjni \<Rightarrow> (qjni \<times> bool) outcome" where
  "registerNativeMethods qa t env clazz s =
     obind (jni_ready t env s) (\<lambda>_.
     obind (deref t clazz s) (\<lambda>c.
     if \<not> qa_register qa c
     then obind (checkAndClearExceptions t env (s\<lparr>qj_pending := True\<rparr>)) (\<lambda>(s1, cleared). Inr (s1, False))
     else Inr (s, True)))"

subsection \<open>QJniObject: construction and destruction\<close>

text \<open>The members of a private object are put together first; it gets its address when they are complete.\<close>

definition new_private :: "qprivate \<Rightarrow> qjni \<Rightarrow> qjni \<times> nat" where
  "new_private p s = (s\<lparr>qj_priv := (qj_priv s)(qj_next s \<mapsto> (p, 1)), qj_next := qj_next s + 1\<rparr>, qj_next s)"

definition private_at :: "qjni \<Rightarrow> nat \<Rightarrow> qprivate outcome" where
  "private_at s d = (case qj_priv s d of None \<Rightarrow> Inl Undefined_Behaviour | Some (p, n) \<Rightarrow> Inr p)"

definition empty_private :: qprivate where
  "empty_private = \<lparr>m_jobject = None, m_jclass = None, m_own_jclass = True, m_className = []\<rparr>"

definition QJniObject_new :: "qjni \<Rightarrow> (qjni \<times> nat) outcome" where
  "QJniObject_new s = Inr (new_private empty_private s)"

definition QJniObjectPrivate_destroy :: "qt_java \<Rightarrow> thread_id \<Rightarrow> qprivate \<Rightarrow> qjni \<Rightarrow> (qjni \<times> unit) outcome" where
  "QJniObjectPrivate_destroy qa t p =
     with_env qa t (\<lambda>env s.
       obind (if m_jobject p \<noteq> None then env_DeleteRef t env GlobalRef (m_jobject p) s else Inr (s, ())) (\<lambda>(s1, u).
       if m_jclass p \<noteq> None \<and> m_own_jclass p then env_DeleteRef t env GlobalRef (m_jclass p) s1 else Inr (s1, ())))"

text \<open>Copies share the private object; the last one to go destroys it.\<close>

definition QJniObject_copy :: "nat \<Rightarrow> qjni \<Rightarrow> (qjni \<times> nat) outcome" where
  "QJniObject_copy d s =
     (case qj_priv s d of
        None \<Rightarrow> Inl Undefined_Behaviour
      | Some (p, n) \<Rightarrow> Inr (s\<lparr>qj_priv := (qj_priv s)(d \<mapsto> (p, n + 1))\<rparr>, d))"

definition QJniObject_destroy :: "qt_java \<Rightarrow> thread_id \<Rightarrow> nat \<Rightarrow> qjni \<Rightarrow> (qjni \<times> unit) outcome" where
  "QJniObject_destroy qa t d s =
     (case qj_priv s d of
        None \<Rightarrow> Inl Undefined_Behaviour
      | Some (p, n) \<Rightarrow>
          if n = 1 then QJniObjectPrivate_destroy qa t p (s\<lparr>qj_priv := (qj_priv s)(d := None)\<rparr>)
          else Inr (s\<lparr>qj_priv := (qj_priv s)(d \<mapsto> (p, n - 1))\<rparr>, ()))"

text \<open>A local variable of class \<open>QJniObject\<close>.\<close>

definition with_object ::
  "qt_java \<Rightarrow> thread_id \<Rightarrow> (qjni \<Rightarrow> (qjni \<times> nat) outcome) \<Rightarrow> (nat \<Rightarrow> qjni \<Rightarrow> (qjni \<times> 'r) outcome) \<Rightarrow> qjni \<Rightarrow> (qjni \<times> 'r) outcome"
where
  "with_object qa t mk body s =
     obind (mk s) (\<lambda>(s1, d).
     obind (body d s1) (\<lambda>(s2, r).
     obind (QJniObject_destroy qa t d s2) (\<lambda>(s3, u). Inr (s3, r))))"

definition QJniObject_object :: "qjni \<Rightarrow> nat \<Rightarrow> ptr outcome" where
  "QJniObject_object s d = obind (private_at s d) (\<lambda>p. Inr (m_jobject p))"

definition QJniObject_objectClass :: "qjni \<Rightarrow> nat \<Rightarrow> ptr outcome" where
  "QJniObject_objectClass s d = obind (private_at s d) (\<lambda>p. Inr (m_jclass p))"

definition QJniObject_className :: "qjni \<Rightarrow> nat \<Rightarrow> string outcome" where
  "QJniObject_className s d = obind (private_at s d) (\<lambda>p. Inr (m_className p))"

definition QJniObject_isValid :: "qjni \<Rightarrow> nat \<Rightarrow> bool outcome" where
  "QJniObject_isValid s d = obind (private_at s d) (\<lambda>p. Inr (m_jobject p \<noteq> None))"

text \<open>The global references to an object and its class that \<open>QJniObject(jobject)\<close> and \<open>assign\<close> make.\<close>

definition adopt :: "qt_java \<Rightarrow> thread_id \<Rightarrow> thread_id option \<Rightarrow> ptr \<Rightarrow> qjni \<Rightarrow> (qjni \<times> qprivate) outcome" where
  "adopt qa t env object s =
     obind (env_NewGlobalRef qa t env object s) (\<lambda>(s1, o').
     obind (env_GetObjectClass qa t env object s1) (\<lambda>(s2, cls).
     obind (env_NewGlobalRef qa t env cls s2) (\<lambda>(s3, c).
     obind (env_DeleteRef t env (LocalRef t) cls s3) (\<lambda>(s4, u).
     Inr (s4, \<lparr>m_jobject = o', m_jclass = c, m_own_jclass = True, m_className = []\<rparr>)))))"

definition QJniObject_of :: "qt_java \<Rightarrow> thread_id \<Rightarrow> ptr \<Rightarrow> qjni \<Rightarrow> (qjni \<times> nat) outcome" where
  "QJniObject_of qa t object s =
     (if object = None then QJniObject_new s
      else with_env qa t (\<lambda>env s1. obind (adopt qa t env object s1) (\<lambda>(s2, p). Inr (new_private p s2))) s)"

definition getCleanJniObject :: "qt_java \<Rightarrow> thread_id \<Rightarrow> ptr \<Rightarrow> qjni \<Rightarrow> (qjni \<times> nat) outcome" where
  "getCleanJniObject qa t object s =
     (if object = None then QJniObject_new s
      else with_env qa t (\<lambda>env s1.
        obind (checkAndClearExceptions t env s1) (\<lambda>(s2, cleared).
        if cleared
        then obind (env_DeleteRef t env (LocalRef t) object s2) (\<lambda>(s3, u). QJniObject_new s3)
        else
          obind (QJniObject_of qa t object s2) (\<lambda>(s3, res).
          obind (env_DeleteRef t env (LocalRef t) object s3) (\<lambda>(s4, u). Inr (s4, res))))) s)"

text \<open>\<open>QJniEnvironment()->DeleteLocalRef(lref)\<close> has an environment of its own.\<close>

definition fromLocalRef :: "qt_java \<Rightarrow> thread_id \<Rightarrow> ptr \<Rightarrow> qjni \<Rightarrow> (qjni \<times> nat) outcome" where
  "fromLocalRef qa t lref s =
     obind (QJniObject_of qa t lref s) (\<lambda>(s1, obj).
     obind (with_env qa t (\<lambda>env. env_DeleteRef t env (LocalRef t) lref) s1) (\<lambda>(s2, u). Inr (s2, obj)))"

definition fromString :: "qt_java \<Rightarrow> thread_id \<Rightarrow> byte list \<Rightarrow> qjni \<Rightarrow> (qjni \<times> nat) outcome" where
  "fromString qa t text_bytes =
     with_env qa t (\<lambda>env s.
       obind (env_NewStringUTF qa t env text_bytes s) (\<lambda>(s1, res).
       obind (QJniObject_of qa t res s1) (\<lambda>(s2, obj).
       obind (env_DeleteRef t env (LocalRef t) res s2) (\<lambda>(s3, u). Inr (s3, obj)))))"
subsection \<open>Methods, fields and classes\<close>

definition getMethodID ::
  "qt_java \<Rightarrow> thread_id \<Rightarrow> thread_id option \<Rightarrow> ptr \<Rightarrow> string \<Rightarrow> string \<Rightarrow> bool \<Rightarrow> qjni \<Rightarrow> (qjni \<times> nat option) outcome" where
  "getMethodID qa t env clazz name signature isStatic s =
     obind (env_GetID (qa_method qa) t env clazz name signature isStatic s) (\<lambda>(s1, r).
     obind (checkAndClearExceptions t env s1) (\<lambda>(s2, cleared). Inr (s2, if cleared then None else r)))"

definition getFieldID ::
  "qt_java \<Rightarrow> thread_id \<Rightarrow> thread_id option \<Rightarrow> ptr \<Rightarrow> string \<Rightarrow> string \<Rightarrow> bool \<Rightarrow> qjni \<Rightarrow> (qjni \<times> nat option) outcome" where
  "getFieldID qa t env clazz name signature isStatic s =
     obind (env_GetID (qa_field qa) t env clazz name signature isStatic s) (\<lambda>(s1, r).
     obind (checkAndClearExceptions t env s1) (\<lambda>(s2, cleared). Inr (s2, if cleared then None else r)))"

text \<open>The cached variants, without a cache: of a class, whose name is not looked at, and of an object.\<close>

definition getCachedMethodID_class ::
  "qt_java \<Rightarrow> thread_id \<Rightarrow> thread_id option \<Rightarrow> ptr \<Rightarrow> string \<Rightarrow> string \<Rightarrow> string \<Rightarrow> bool \<Rightarrow> qjni \<Rightarrow>
    (qjni \<times> nat option) outcome" where
  "getCachedMethodID_class qa t env clazz className name signature isStatic =
     getMethodID qa t env clazz name signature isStatic"

definition getCachedMethodID ::
  "qt_java \<Rightarrow> thread_id \<Rightarrow> thread_id option \<Rightarrow> nat \<Rightarrow> string \<Rightarrow> string \<Rightarrow> bool \<Rightarrow> qjni \<Rightarrow> (qjni \<times> nat option) outcome" where
  "getCachedMethodID qa t env d name signature isStatic s =
     obind (private_at s d) (\<lambda>p.
     getCachedMethodID_class qa t env (m_jclass p) (m_className p) name signature isStatic s)"

definition getCachedFieldID_class ::
  "qt_java \<Rightarrow> thread_id \<Rightarrow> thread_id option \<Rightarrow> ptr \<Rightarrow> string \<Rightarrow> string \<Rightarrow> string \<Rightarrow> bool \<Rightarrow> qjni \<Rightarrow>
    (qjni \<times> nat option) outcome" where
  "getCachedFieldID_class qa t env clazz className name signature isStatic =
     getFieldID qa t env clazz name signature isStatic"

definition getCachedFieldID ::
  "qt_java \<Rightarrow> thread_id \<Rightarrow> thread_id option \<Rightarrow> nat \<Rightarrow> string \<Rightarrow> string \<Rightarrow> bool \<Rightarrow> qjni \<Rightarrow> (qjni \<times> nat option) outcome" where
  "getCachedFieldID qa t env d name signature isStatic s =
     obind (private_at s d) (\<lambda>p.
     getCachedFieldID_class qa t env (m_jclass p) (m_className p) name signature isStatic s)"

text \<open>\<open>if (id)\<close> with nothing otherwise: the result is then \<open>r\<close>.\<close>

definition if_found :: "'r \<Rightarrow> 'a option \<Rightarrow> ('a \<Rightarrow> qjni \<Rightarrow> (qjni \<times> 'r) outcome) \<Rightarrow> qjni \<Rightarrow> (qjni \<times> 'r) outcome" where
  "if_found r x body s = (case x of None \<Rightarrow> Inr (s, r) | Some a \<Rightarrow> body a s)"

definition callObjectMethod :: "qt_java \<Rightarrow> thread_id \<Rightarrow> nat \<Rightarrow> string \<Rightarrow> string \<Rightarrow> jarg list \<Rightarrow> qjni \<Rightarrow> (qjni \<times> nat) outcome" where
  "callObjectMethod qa t d methodName signature args =
     with_env qa t (\<lambda>env s.
       obind (getCachedMethodID qa t env d methodName signature False s) (\<lambda>(s1, r).
       case r of
         None \<Rightarrow> QJniObject_new s1
       | Some mid \<Rightarrow>
           obind (QJniObject_object s1 d) (\<lambda>obj.
           obind (env_CallObject qa t env obj mid args s1) (\<lambda>(s2, res). getCleanJniObject qa t res s2))))"

text \<open>\<open>DeleteLocalRef\<close> of a null pointer does nothing.\<close>

definition callObjectMethodV :: "qt_java \<Rightarrow> thread_id \<Rightarrow> nat \<Rightarrow> string \<Rightarrow> string \<Rightarrow> jarg list \<Rightarrow> qjni \<Rightarrow> (qjni \<times> nat) outcome" where
  "callObjectMethodV qa t d methodName signature args =
     with_env qa t (\<lambda>env s.
       obind (getCachedMethodID qa t env d methodName signature False s) (\<lambda>(s1, r).
       obind (if_found None r (\<lambda>mid s1.
                obind (QJniObject_object s1 d) (\<lambda>obj.
                obind (env_CallObject qa t env obj mid args s1) (\<lambda>(s2, res).
                obind (checkAndClearExceptions t env s2) (\<lambda>(s3, cleared).
                if cleared then obind (env_DeleteRef t env (LocalRef t) res s3) (\<lambda>(s4, u). Inr (s4, None))
                else Inr (s3, res))))) s1) (\<lambda>(s4, res).
       obind (QJniObject_of qa t res s4) (\<lambda>(s5, obj).
       obind (env_DeleteRef t env (LocalRef t) res s5) (\<lambda>(s6, u). Inr (s6, obj))))))"

definition toBinaryEncClassName :: "string \<Rightarrow> string" where
  "toBinaryEncClassName className = map (\<lambda>c. if c = CHR ''/'' then CHR ''.'' else c) className"

definition ascii_bytes :: "string \<Rightarrow> byte list" where
  "ascii_bytes s = map of_char s"

text \<open>The global reference to a class object, and the calls that find it: \<open>fromString(key)\<close> passes on \<open>key.c_str()\<close>.\<close>

definition class_ref :: "qt_java \<Rightarrow> thread_id \<Rightarrow> thread_id option \<Rightarrow> nat \<Rightarrow> qjni \<Rightarrow> (qjni \<times> ptr) outcome" where
  "class_ref qa t env classObject s =
     obind (checkAndClearExceptions t env s) (\<lambda>(s1, cleared).
     obind (QJniObject_object s1 classObject) (\<lambda>c.
     if \<not> cleared \<and> c \<noteq> None then env_NewGlobalRef qa t env c s1 else Inr (s1, None)))"

definition load_named :: "qt_java \<Rightarrow> thread_id \<Rightarrow> thread_id option \<Rightarrow> nat \<Rightarrow> string \<Rightarrow> qjni \<Rightarrow> (qjni \<times> ptr) outcome" where
  "load_named qa t env classLoader key =
     with_object qa t (fromString qa t (ascii_bytes key)) (\<lambda>stringName s2.
       obind (QJniObject_object s2 stringName) (\<lambda>name.
       with_object qa t (callObjectMethod qa t classLoader ''loadClass'' ''(Ljava/lang/String;)Ljava/lang/Class;'' [Arg_Ref name])
         (class_ref qa t env) s2))"

definition loadClass :: "qt_java \<Rightarrow> thread_id \<Rightarrow> string \<Rightarrow> thread_id option \<Rightarrow> bool \<Rightarrow> qjni \<Rightarrow> (qjni \<times> ptr) outcome" where
  "loadClass qa t className env binEncoded s =
     (let binEncClassName = (if binEncoded then className else toBinaryEncClassName className)
      in with_object qa t (QJniObject_of qa t (g_jClassLoader s)) (\<lambda>classLoader s1.
           obind (QJniObject_isValid s1 classLoader) (\<lambda>valid.
           if \<not> valid then Inr (s1, None) else load_named qa t env classLoader binEncClassName s1)) s)"

definition QtAndroidPrivate_findClass :: "qt_java \<Rightarrow> thread_id \<Rightarrow> string \<Rightarrow> thread_id option \<Rightarrow> qjni \<Rightarrow> (qjni \<times> ptr) outcome" where
  "QtAndroidPrivate_findClass qa t className env s =
     (let classDotEnc = toBinaryEncClassName className
      in obind (if env \<noteq> None
                then
                  obind (env_FindClass qa t env className s) (\<lambda>(s1, fclazz).
                  obind (checkAndClearExceptions t env s1) (\<lambda>(s2, cleared).
                  if cleared then Inr (s2, None)
                  else
                    obind (env_NewGlobalRef qa t env fclazz s2) (\<lambda>(s3, clazz).
                    obind (env_DeleteRef t env (LocalRef t) fclazz s3) (\<lambda>(s4, u). Inr (s4, clazz)))))
                else Inr (s, None)) (\<lambda>(s5, clazz).
         if clazz = None
         then with_env qa t (\<lambda>env' s6. loadClass qa t classDotEnc env' True s6) s5
         else Inr (s5, clazz)))"

definition QJniEnvironment_findClass :: "qt_java \<Rightarrow> thread_id \<Rightarrow> thread_id option \<Rightarrow> string \<Rightarrow> qjni \<Rightarrow> (qjni \<times> ptr) outcome" where
  "QJniEnvironment_findClass qa t env className = QtAndroidPrivate_findClass qa t className env"

definition registerNativeMethods_name ::
  "qt_java \<Rightarrow> thread_id \<Rightarrow> thread_id option \<Rightarrow> string \<Rightarrow> qjni \<Rightarrow> (qjni \<times> bool) outcome" where
  "registerNativeMethods_name qa t env className s =
     obind (QJniEnvironment_findClass qa t env className s) (\<lambda>(s1, clazz).
     if clazz = None then Inr (s1, False) else registerNativeMethods qa t env clazz s1)"

subsection \<open>QJniObject: constructors that make a Java object\<close>

text \<open>\<open>NewObject\<close> and the global reference to what it made.\<close>

definition make_object ::
  "qt_java \<Rightarrow> thread_id \<Rightarrow> thread_id option \<Rightarrow> ptr \<Rightarrow> jarg list \<Rightarrow> nat \<Rightarrow> qjni \<Rightarrow> (qjni \<times> ptr) outcome" where
  "make_object qa t env clazz args constructorId s =
     obind (env_NewObject qa t env clazz constructorId args s) (\<lambda>(s1, obj).
     if obj = None then Inr (s1, None)
     else
       obind (env_NewGlobalRef qa t env obj s1) (\<lambda>(s2, g).
       obind (env_DeleteRef t env (LocalRef t) obj s2) (\<lambda>(s3, u). Inr (s3, g))))"

definition QJniObject_of_name :: "qt_java \<Rightarrow> thread_id \<Rightarrow> string \<Rightarrow> qjni \<Rightarrow> (qjni \<times> nat) outcome" where
  "QJniObject_of_name qa t className =
     with_env qa t (\<lambda>env s.
       let name = toBinaryEncClassName className
       in obind (loadClass qa t name env True s) (\<lambda>(s1, c).
          obind (if c = None then Inr (s1, None)
                 else
                   obind (getCachedMethodID_class qa t env c name ''<init>'' ''()V'' False s1) (\<lambda>(s2, r).
                   if_found None r (make_object qa t env c []) s2)) (\<lambda>(s3, g).
          Inr (new_private \<lparr>m_jobject = g, m_jclass = c, m_own_jclass = False, m_className = name\<rparr> s3))))"

definition QJniObject_of_name_sig :: "qt_java \<Rightarrow> thread_id \<Rightarrow> string \<Rightarrow> string \<Rightarrow> jarg list \<Rightarrow> qjni \<Rightarrow> (qjni \<times> nat) outcome" where
  "QJniObject_of_name_sig qa t className signature args =
     with_env qa t (\<lambda>env s.
       let name = toBinaryEncClassName className
       in obind (loadClass qa t name env True s) (\<lambda>(s1, c).
          obind (if c = None then Inr (s1, None)
                 else
                   obind (getCachedMethodID_class qa t env c name ''<init>'' signature False s1) (\<lambda>(s2, r).
                   if_found None r (make_object qa t env c args) s2)) (\<lambda>(s3, g).
          Inr (new_private \<lparr>m_jobject = g, m_jclass = c, m_own_jclass = False, m_className = name\<rparr> s3))))"

definition QJniObject_of_class_sig :: "qt_java \<Rightarrow> thread_id \<Rightarrow> ptr \<Rightarrow> string \<Rightarrow> jarg list \<Rightarrow> qjni \<Rightarrow> (qjni \<times> nat) outcome" where
  "QJniObject_of_class_sig qa t clazz signature args =
     with_env qa t (\<lambda>env s.
       if clazz = None then QJniObject_new s
       else
         obind (env_NewGlobalRef qa t env clazz s) (\<lambda>(s1, c).
         obind (if c = None then Inr (s1, None)
                else
                  obind (getMethodID qa t env c ''<init>'' signature False s1) (\<lambda>(s2, r).
                  if_found None r (make_object qa t env c args) s2)) (\<lambda>(s3, g).
         Inr (new_private \<lparr>m_jobject = g, m_jclass = c, m_own_jclass = True, m_className = []\<rparr> s3))))"

text \<open>This one does not test for a null class, for which \<open>NewGlobalRef\<close> returns null.\<close>

definition QJniObject_of_class :: "qt_java \<Rightarrow> thread_id \<Rightarrow> ptr \<Rightarrow> qjni \<Rightarrow> (qjni \<times> nat) outcome" where
  "QJniObject_of_class qa t clazz =
     with_env qa t (\<lambda>env s.
       obind (env_NewGlobalRef qa t env clazz s) (\<lambda>(s1, c).
       obind (if c = None then Inr (s1, None)
              else
                obind (getMethodID qa t env c ''<init>'' ''()V'' False s1) (\<lambda>(s2, r).
                if_found None r (make_object qa t env c []) s2)) (\<lambda>(s3, g).
       Inr (new_private \<lparr>m_jobject = g, m_jclass = c, m_own_jclass = True, m_className = []\<rparr> s3))))"

subsection \<open>Comparison, assignment and conversion\<close>

definition isSameObject :: "qt_java \<Rightarrow> thread_id \<Rightarrow> nat \<Rightarrow> ptr \<Rightarrow> qjni \<Rightarrow> (qjni \<times> bool) outcome" where
  "isSameObject qa t d obj =
     with_env qa t (\<lambda>env s.
       obind (QJniObject_object s d) (\<lambda>mine.
       obind (jni_ready t env s) (\<lambda>_.
       obind (deref_opt t mine s) (\<lambda>a. obind (deref_opt t obj s) (\<lambda>b. Inr (s, a = b))))))"

definition isSameObject_as :: "qt_java \<Rightarrow> thread_id \<Rightarrow> nat \<Rightarrow> nat \<Rightarrow> qjni \<Rightarrow> (qjni \<times> bool) outcome" where
  "isSameObject_as qa t d e s = obind (QJniObject_object s e) (\<lambda>obj. isSameObject qa t d obj s)"

definition QJniObject_eq :: "qt_java \<Rightarrow> thread_id \<Rightarrow> nat \<Rightarrow> nat \<Rightarrow> qjni \<Rightarrow> (qjni \<times> bool) outcome" where
  "QJniObject_eq qa t d e = isSameObject_as qa t d e"

definition QJniObject_neq :: "qt_java \<Rightarrow> thread_id \<Rightarrow> nat \<Rightarrow> nat \<Rightarrow> qjni \<Rightarrow> (qjni \<times> bool) outcome" where
  "QJniObject_neq qa t d e s = obind (isSameObject_as qa t d e s) (\<lambda>(s1, b). Inr (s1, \<not> b))"

text \<open>\<open>d = std::shared_ptr(new QJniObjectPrivate())\<close> releases the old private object before the references to the
  new object are made.\<close>

definition assign :: "qt_java \<Rightarrow> thread_id \<Rightarrow> nat \<Rightarrow> ptr \<Rightarrow> qjni \<Rightarrow> (qjni \<times> nat) outcome" where
  "assign qa t d obj s =
     obind (isSameObject qa t d obj s) (\<lambda>(s1, same).
     if same then Inr (s1, d)
     else
       obind (QJniObject_destroy qa t d s1) (\<lambda>(s2, u).
       if obj = None then QJniObject_new s2
       else with_env qa t (\<lambda>env s3. obind (adopt qa t env obj s3) (\<lambda>(s4, p). Inr (new_private p s4))) s2))"

text \<open>The characters are never released.\<close>

definition qt_convertJString :: "qt_java \<Rightarrow> thread_id \<Rightarrow> ptr \<Rightarrow> qjni \<Rightarrow> (qjni \<times> byte list) outcome" where
  "qt_convertJString qa t str =
     with_env qa t (\<lambda>env s.
       obind (jni_ready t env s) (\<lambda>_.
       obind (deref t str s) (\<lambda>obj.
       case qa_chars qa (qj_calls s) obj of
         None \<Rightarrow> Inl Undefined_Behaviour
       | Some convertedValue \<Rightarrow> Inr (s\<lparr>qj_pinned := qj_pinned s + 1\<rparr>, convertedValue))))"
subsection \<open>The type templates\<close>

definition isJniPrimitiveType :: "jni_type \<Rightarrow> bool" where
  "isJniPrimitiveType T \<longleftrightarrow>
     \<not> (T \<noteq> jboolean \<and> T \<noteq> jbyte \<and> T \<noteq> jchar \<and> T \<noteq> jshort \<and> T \<noteq> jint \<and> T \<noteq> jlong \<and> T \<noteq> jfloat \<and> T \<noteq> jdouble)"

definition is_convertible_to_jobject :: "jni_type \<Rightarrow> bool" where
  "is_convertible_to_jobject T \<longleftrightarrow> reference_type T"

definition assertJniPrimitiveType :: "jni_type \<Rightarrow> unit outcome" where
  "assertJniPrimitiveType T = static_assert (isJniPrimitiveType T)"

definition assertJniObjectType :: "jni_type \<Rightarrow> unit outcome" where
  "assertJniObjectType T = static_assert (is_convertible_to_jobject T)"

definition assertJniType :: "jni_type \<Rightarrow> unit outcome" where
  "assertJniType T = static_assert (isJniPrimitiveType T \<or> is_convertible_to_jobject T)"

definition staticAssertTypeMismatch :: "'a outcome" where
  "staticAssertTypeMismatch = Inl Check_Failed"

fun getTypeSignature :: "jni_type \<Rightarrow> string outcome" where
  "getTypeSignature jobject = Inr ''Ljava/lang/Object;''"
| "getTypeSignature jclass = Inr ''Ljava/lang/Class;''"
| "getTypeSignature jstring = Inr ''Ljava/lang/String;''"
| "getTypeSignature jobjectArray = Inr ''[Ljava/lang/Object;''"
| "getTypeSignature jthrowable = Inr ''Ljava/lang/Throwable;''"
| "getTypeSignature jbooleanArray = Inr ''[Z''"
| "getTypeSignature jbyteArray = Inr ''[B''"
| "getTypeSignature jshortArray = Inr ''[S''"
| "getTypeSignature jintArray = Inr ''[I''"
| "getTypeSignature jlongArray = Inr ''[J''"
| "getTypeSignature jfloatArray = Inr ''[F''"
| "getTypeSignature jdoubleArray = Inr ''[D''"
| "getTypeSignature jcharArray = Inr ''[C''"
| "getTypeSignature jboolean = Inr ''Z''"
| "getTypeSignature jbyte = Inr ''B''"
| "getTypeSignature jchar = Inr ''C''"
| "getTypeSignature jshort = Inr ''S''"
| "getTypeSignature jint = Inr ''I''"
| "getTypeSignature jlong = Inr ''J''"
| "getTypeSignature jfloat = Inr ''F''"
| "getTypeSignature jdouble = Inr ''D''"
| "getTypeSignature jvoid = staticAssertTypeMismatch"
| "getTypeSignature other_object = staticAssertTypeMismatch"
| "getTypeSignature other_type = staticAssertTypeMismatch"

text \<open>The five dispatchers, each a chain of type tests.\<close>

definition callMethodForType ::
  "jni_type \<Rightarrow> qt_java \<Rightarrow> thread_id \<Rightarrow> thread_id option \<Rightarrow> ptr \<Rightarrow> nat \<Rightarrow> jarg list \<Rightarrow> qjni \<Rightarrow> (qjni \<times> int) outcome" where
  "callMethodForType T qa t env obj mid args s =
     (if T = jboolean then env_CallPrim jboolean qa t env obj mid args s
      else if T = jbyte then env_CallPrim jbyte qa t env obj mid args s
      else if T = jchar then env_CallPrim jchar qa t env obj mid args s
      else if T = jshort then env_CallPrim jshort qa t env obj mid args s
      else if T = jint then env_CallPrim jint qa t env obj mid args s
      else if T = jlong then env_CallPrim jlong qa t env obj mid args s
      else if T = jfloat then env_CallPrim jfloat qa t env obj mid args s
      else if T = jdouble then env_CallPrim jdouble qa t env obj mid args s
      else staticAssertTypeMismatch)"

definition callStaticMethodForType ::
  "jni_type \<Rightarrow> qt_java \<Rightarrow> thread_id \<Rightarrow> thread_id option \<Rightarrow> ptr \<Rightarrow> nat \<Rightarrow> jarg list \<Rightarrow> qjni \<Rightarrow> (qjni \<times> int) outcome" where
  "callStaticMethodForType T qa t env clazz mid args s =
     (if T = jboolean then env_CallPrim jboolean qa t env clazz mid args s
      else if T = jbyte then env_CallPrim jbyte qa t env clazz mid args s
      else if T = jchar then env_CallPrim jchar qa t env clazz mid args s
      else if T = jshort then env_CallPrim jshort qa t env clazz mid args s
      else if T = jint then env_CallPrim jint qa t env clazz mid args s
      else if T = jlong then env_CallPrim jlong qa t env clazz mid args s
      else if T = jfloat then env_CallPrim jfloat qa t env clazz mid args s
      else if T = jdouble then env_CallPrim jdouble qa t env clazz mid args s
      else staticAssertTypeMismatch)"

definition getFieldForType ::
  "jni_type \<Rightarrow> qt_java \<Rightarrow> thread_id \<Rightarrow> thread_id option \<Rightarrow> ptr \<Rightarrow> nat \<Rightarrow> qjni \<Rightarrow> (qjni \<times> int) outcome" where
  "getFieldForType T qa t env obj fid s =
     (if T = jboolean then env_GetPrimField jboolean qa t env obj fid s
      else if T = jbyte then env_GetPrimField jbyte qa t env obj fid s
      else if T = jchar then env_GetPrimField jchar qa t env obj fid s
      else if T = jshort then env_GetPrimField jshort qa t env obj fid s
      else if T = jint then env_GetPrimField jint qa t env obj fid s
      else if T = jlong then env_GetPrimField jlong qa t env obj fid s
      else if T = jfloat then env_GetPrimField jfloat qa t env obj fid s
      else if T = jdouble then env_GetPrimField jdouble qa t env obj fid s
      else staticAssertTypeMismatch)"

definition getStaticFieldForType ::
  "jni_type \<Rightarrow> qt_java \<Rightarrow> thread_id \<Rightarrow> thread_id option \<Rightarrow> ptr \<Rightarrow> nat \<Rightarrow> qjni \<Rightarrow> (qjni \<times> int) outcome" where
  "getStaticFieldForType T qa t env clazz fid s =
     (if T = jboolean then env_GetPrimField jboolean qa t env clazz fid s
      else if T = jbyte then env_GetPrimField jbyte qa t env clazz fid s
      else if T = jchar then env_GetPrimField jchar qa t env clazz fid s
      else if T = jshort then env_GetPrimField jshort qa t env clazz fid s
      else if T = jint then env_GetPrimField jint qa t env clazz fid s
      else if T = jlong then env_GetPrimField jlong qa t env clazz fid s
      else if T = jfloat then env_GetPrimField jfloat qa t env clazz fid s
      else if T = jdouble then env_GetPrimField jdouble qa t env clazz fid s
      else staticAssertTypeMismatch)"

text \<open>The value has the type \<open>T\<close>: a number for the first eight, a reference for the last.\<close>

definition setFieldForType ::
  "jni_type \<Rightarrow> qt_java \<Rightarrow> thread_id \<Rightarrow> thread_id option \<Rightarrow> ptr \<Rightarrow> nat \<Rightarrow> jarg \<Rightarrow> qjni \<Rightarrow> (qjni \<times> unit) outcome" where
  "setFieldForType T qa t env obj fid v s =
     (if T = jboolean then env_SetField qa t env (\<lambda>T'. T' = jboolean) obj fid v s
      else if T = jbyte then env_SetField qa t env (\<lambda>T'. T' = jbyte) obj fid v s
      else if T = jchar then env_SetField qa t env (\<lambda>T'. T' = jchar) obj fid v s
      else if T = jshort then env_SetField qa t env (\<lambda>T'. T' = jshort) obj fid v s
      else if T = jint then env_SetField qa t env (\<lambda>T'. T' = jint) obj fid v s
      else if T = jlong then env_SetField qa t env (\<lambda>T'. T' = jlong) obj fid v s
      else if T = jfloat then env_SetField qa t env (\<lambda>T'. T' = jfloat) obj fid v s
      else if T = jdouble then env_SetField qa t env (\<lambda>T'. T' = jdouble) obj fid v s
      else if is_convertible_to_jobject T then env_SetField qa t env reference_type obj fid v s
      else staticAssertTypeMismatch)"

definition setStaticFieldForType ::
  "jni_type \<Rightarrow> qt_java \<Rightarrow> thread_id \<Rightarrow> thread_id option \<Rightarrow> ptr \<Rightarrow> nat \<Rightarrow> jarg \<Rightarrow> qjni \<Rightarrow> (qjni \<times> unit) outcome" where
  "setStaticFieldForType T qa t env clazz fid v s =
     (if T = jboolean then env_SetField qa t env (\<lambda>T'. T' = jboolean) clazz fid v s
      else if T = jbyte then env_SetField qa t env (\<lambda>T'. T' = jbyte) clazz fid v s
      else if T = jchar then env_SetField qa t env (\<lambda>T'. T' = jchar) clazz fid v s
      else if T = jshort then env_SetField qa t env (\<lambda>T'. T' = jshort) clazz fid v s
      else if T = jint then env_SetField qa t env (\<lambda>T'. T' = jint) clazz fid v s
      else if T = jlong then env_SetField qa t env (\<lambda>T'. T' = jlong) clazz fid v s
      else if T = jfloat then env_SetField qa t env (\<lambda>T'. T' = jfloat) clazz fid v s
      else if T = jdouble then env_SetField qa t env (\<lambda>T'. T' = jdouble) clazz fid v s
      else if is_convertible_to_jobject T then env_SetField qa t env reference_type clazz fid v s
      else staticAssertTypeMismatch)"

subsection \<open>Calls\<close>

text \<open>\<open>if (env.checkAndClearExceptions()) res = {};\<close>\<close>

definition or_zero :: "thread_id \<Rightarrow> thread_id option \<Rightarrow> (qjni \<times> int) outcome \<Rightarrow> (qjni \<times> int) outcome" where
  "or_zero t env m =
     obind m (\<lambda>(s, res). obind (checkAndClearExceptions t env s) (\<lambda>(s1, cleared). Inr (s1, if cleared then 0 else res)))"

definition then_clear :: "thread_id \<Rightarrow> thread_id option \<Rightarrow> (qjni \<times> unit) outcome \<Rightarrow> (qjni \<times> unit) outcome" where
  "then_clear t env m =
     obind m (\<lambda>(s, u). obind (checkAndClearExceptions t env s) (\<lambda>(s1, cleared). Inr (s1, ())))"

definition callMethod :: "jni_type \<Rightarrow> qt_java \<Rightarrow> thread_id \<Rightarrow> nat \<Rightarrow> string \<Rightarrow> string \<Rightarrow> jarg list \<Rightarrow> qjni \<Rightarrow> (qjni \<times> int) outcome" where
  "callMethod T qa t d methodName signature args s0 =
     obind (assertJniPrimitiveType T) (\<lambda>_.
     with_env qa t (\<lambda>env s.
       obind (getCachedMethodID qa t env d methodName signature False s) (\<lambda>(s1, r).
       if_found 0 r (\<lambda>mid s1.
         obind (QJniObject_object s1 d) (\<lambda>obj. or_zero t env (callMethodForType T qa t env obj mid args s1))) s1)) s0)"

definition callVoidMethodV :: "qt_java \<Rightarrow> thread_id \<Rightarrow> thread_id option \<Rightarrow> nat \<Rightarrow> nat \<Rightarrow> jarg list \<Rightarrow> qjni \<Rightarrow> (qjni \<times> unit) outcome" where
  "callVoidMethodV qa t env d mid args s = obind (private_at s d) (\<lambda>p. env_CallVoid qa t env (m_jobject p) mid args s)"

definition callMethod_void :: "qt_java \<Rightarrow> thread_id \<Rightarrow> nat \<Rightarrow> string \<Rightarrow> string \<Rightarrow> jarg list \<Rightarrow> qjni \<Rightarrow> (qjni \<times> unit) outcome" where
  "callMethod_void qa t d methodName signature args =
     with_env qa t (\<lambda>env s.
       obind (getCachedMethodID qa t env d methodName signature False s) (\<lambda>(s1, r).
       if_found () r (\<lambda>mid s1. then_clear t env (callVoidMethodV qa t env d mid args s1)) s1))"

text \<open>The signature of a method without arguments.\<close>

definition no_args :: "jni_type \<Rightarrow> string outcome" where
  "no_args T = obind (getTypeSignature T) (\<lambda>signature. Inr (''()'' @ signature))"

text \<open>\<open>callMethod<T>(const char*)\<close> hands the \<open>std::string\<close> it has made to a parameter of type \<open>const char*\<close>: it does not
  compile for any type, so that there is nothing to model. Its specialisation for \<open>void\<close> is a call.\<close>

definition callMethod0_void :: "qt_java \<Rightarrow> thread_id \<Rightarrow> nat \<Rightarrow> string \<Rightarrow> qjni \<Rightarrow> (qjni \<times> unit) outcome" where
  "callMethod0_void qa t d methodName = callMethod_void qa t d methodName ''()V'' []"

definition callObjectMethod0 :: "jni_type \<Rightarrow> qt_java \<Rightarrow> thread_id \<Rightarrow> nat \<Rightarrow> string \<Rightarrow> qjni \<Rightarrow> (qjni \<times> nat) outcome" where
  "callObjectMethod0 T qa t d methodName s =
     obind (assertJniObjectType T) (\<lambda>_. obind (no_args T) (\<lambda>signature. callObjectMethod qa t d methodName signature [] s))"
subsection \<open>Static calls\<close>

text \<open>By the name of the class: \<open>loadClass\<close> returns a global reference, and nobody deletes it.\<close>

definition callStaticMethod_name ::
  "jni_type \<Rightarrow> qt_java \<Rightarrow> thread_id \<Rightarrow> string \<Rightarrow> string \<Rightarrow> string \<Rightarrow> jarg list \<Rightarrow> qjni \<Rightarrow> (qjni \<times> int) outcome" where
  "callStaticMethod_name T qa t className methodName signature args s0 =
     obind (assertJniPrimitiveType T) (\<lambda>_.
     with_env qa t (\<lambda>env s.
       obind (loadClass qa t className env False s) (\<lambda>(s1, clazz).
       if clazz = None then Inr (s1, 0)
       else
         obind (getCachedMethodID_class qa t env clazz (toBinaryEncClassName className) methodName signature True s1) (\<lambda>(s2, r).
         if_found 0 r (\<lambda>mid s2. or_zero t env (callStaticMethodForType T qa t env clazz mid args s2)) s2))) s0)"

definition callStaticMethod_name_void ::
  "qt_java \<Rightarrow> thread_id \<Rightarrow> string \<Rightarrow> string \<Rightarrow> string \<Rightarrow> jarg list \<Rightarrow> qjni \<Rightarrow> (qjni \<times> unit) outcome" where
  "callStaticMethod_name_void qa t className methodName signature args =
     with_env qa t (\<lambda>env s.
       obind (loadClass qa t className env False s) (\<lambda>(s1, clazz).
       if clazz = None then Inr (s1, ())
       else
         obind (getCachedMethodID_class qa t env clazz (toBinaryEncClassName className) methodName signature True s1) (\<lambda>(s2, r).
         if_found () r (\<lambda>mid s2. then_clear t env (env_CallVoid qa t env clazz mid args s2)) s2)))"

definition callStaticMethod0_name :: "jni_type \<Rightarrow> qt_java \<Rightarrow> thread_id \<Rightarrow> string \<Rightarrow> string \<Rightarrow> qjni \<Rightarrow> (qjni \<times> int) outcome" where
  "callStaticMethod0_name T qa t className methodName s =
     obind (assertJniPrimitiveType T) (\<lambda>_.
     obind (no_args T) (\<lambda>signature. callStaticMethod_name T qa t className methodName signature [] s))"

definition callStaticMethod0_name_void :: "qt_java \<Rightarrow> thread_id \<Rightarrow> string \<Rightarrow> string \<Rightarrow> qjni \<Rightarrow> (qjni \<times> unit) outcome" where
  "callStaticMethod0_name_void qa t className methodName = callStaticMethod_name_void qa t className methodName ''()V'' []"

definition callStaticMethod_id ::
  "jni_type \<Rightarrow> qt_java \<Rightarrow> thread_id \<Rightarrow> ptr \<Rightarrow> nat option \<Rightarrow> jarg list \<Rightarrow> qjni \<Rightarrow> (qjni \<times> int) outcome" where
  "callStaticMethod_id T qa t clazz methodId args s0 =
     obind (assertJniPrimitiveType T) (\<lambda>_.
     with_env qa t (\<lambda>env s.
       if clazz = None then Inr (s, 0)
       else if_found 0 methodId (\<lambda>mid s1. or_zero t env (callStaticMethodForType T qa t env clazz mid args s1)) s) s0)"

definition callStaticMethod_id_void ::
  "qt_java \<Rightarrow> thread_id \<Rightarrow> ptr \<Rightarrow> nat option \<Rightarrow> jarg list \<Rightarrow> qjni \<Rightarrow> (qjni \<times> unit) outcome" where
  "callStaticMethod_id_void qa t clazz methodId args =
     with_env qa t (\<lambda>env s.
       if clazz = None then Inr (s, ())
       else if_found () methodId (\<lambda>mid s1. then_clear t env (env_CallVoid qa t env clazz mid args s1)) s)"

definition callStaticMethod_class ::
  "jni_type \<Rightarrow> qt_java \<Rightarrow> thread_id \<Rightarrow> ptr \<Rightarrow> string \<Rightarrow> string \<Rightarrow> jarg list \<Rightarrow> qjni \<Rightarrow> (qjni \<times> int) outcome" where
  "callStaticMethod_class T qa t clazz methodName signature args s0 =
     obind (assertJniPrimitiveType T) (\<lambda>_.
     with_env qa t (\<lambda>env s.
       if clazz = None then Inr (s, 0)
       else
         obind (getMethodID qa t env clazz methodName signature True s) (\<lambda>(s2, r).
         if_found 0 r (\<lambda>mid s2. or_zero t env (callStaticMethodForType T qa t env clazz mid args s2)) s2)) s0)"

definition callStaticMethod_class_void ::
  "qt_java \<Rightarrow> thread_id \<Rightarrow> ptr \<Rightarrow> string \<Rightarrow> string \<Rightarrow> jarg list \<Rightarrow> qjni \<Rightarrow> (qjni \<times> unit) outcome" where
  "callStaticMethod_class_void qa t clazz methodName signature args =
     with_env qa t (\<lambda>env s.
       if clazz = None then Inr (s, ())
       else
         obind (getMethodID qa t env clazz methodName signature True s) (\<lambda>(s2, r).
         if_found () r (\<lambda>mid s2. then_clear t env (env_CallVoid qa t env clazz mid args s2)) s2))"

definition callStaticMethod0_class :: "jni_type \<Rightarrow> qt_java \<Rightarrow> thread_id \<Rightarrow> ptr \<Rightarrow> string \<Rightarrow> qjni \<Rightarrow> (qjni \<times> int) outcome" where
  "callStaticMethod0_class T qa t clazz methodName s =
     obind (assertJniPrimitiveType T) (\<lambda>_.
     obind (no_args T) (\<lambda>signature. callStaticMethod_class T qa t clazz methodName signature [] s))"

definition callStaticMethod0_class_void :: "qt_java \<Rightarrow> thread_id \<Rightarrow> ptr \<Rightarrow> string \<Rightarrow> qjni \<Rightarrow> (qjni \<times> unit) outcome" where
  "callStaticMethod0_class_void qa t clazz methodName = callStaticMethod_class_void qa t clazz methodName ''()V'' []"

definition callStaticObjectMethod_name ::
  "qt_java \<Rightarrow> thread_id \<Rightarrow> string \<Rightarrow> string \<Rightarrow> string \<Rightarrow> jarg list \<Rightarrow> qjni \<Rightarrow> (qjni \<times> nat) outcome" where
  "callStaticObjectMethod_name qa t className methodName signature args =
     with_env qa t (\<lambda>env s.
       obind (loadClass qa t className env False s) (\<lambda>(s1, clazz).
       if clazz = None then QJniObject_new s1
       else
         obind (getCachedMethodID_class qa t env clazz (toBinaryEncClassName className) methodName signature True s1) (\<lambda>(s2, r).
         case r of
           None \<Rightarrow> QJniObject_new s2
         | Some mid \<Rightarrow> obind (env_CallObject qa t env clazz mid args s2) (\<lambda>(s3, res). getCleanJniObject qa t res s3))))"

definition callStaticObjectMethodV_name ::
  "qt_java \<Rightarrow> thread_id \<Rightarrow> string \<Rightarrow> string \<Rightarrow> string \<Rightarrow> jarg list \<Rightarrow> qjni \<Rightarrow> (qjni \<times> nat) outcome" where
  "callStaticObjectMethodV_name qa t className methodName signature args =
     with_env qa t (\<lambda>env s.
       obind (loadClass qa t className env False s) (\<lambda>(s1, clazz).
       obind (if clazz = None then Inr (s1, None)
              else
                obind (getCachedMethodID_class qa t env clazz (toBinaryEncClassName className) methodName signature True s1) (\<lambda>(s2, r).
                if_found None r (\<lambda>mid s2.
                  obind (env_CallObject qa t env clazz mid args s2) (\<lambda>(s3, res).
                  obind (checkAndClearExceptions t env s3) (\<lambda>(s4, cleared).
                  if cleared then obind (env_DeleteRef t env (LocalRef t) res s4) (\<lambda>(s5, u). Inr (s5, None))
                  else Inr (s4, res)))) s2)) (\<lambda>(s6, res).
       obind (QJniObject_of qa t res s6) (\<lambda>(s7, obj).
       obind (env_DeleteRef t env (LocalRef t) res s7) (\<lambda>(s8, u). Inr (s8, obj))))))"

definition callStaticObjectMethod_class ::
  "qt_java \<Rightarrow> thread_id \<Rightarrow> ptr \<Rightarrow> string \<Rightarrow> string \<Rightarrow> jarg list \<Rightarrow> qjni \<Rightarrow> (qjni \<times> nat) outcome" where
  "callStaticObjectMethod_class qa t clazz methodName signature args =
     with_env qa t (\<lambda>env s.
       if clazz = None then QJniObject_new s
       else
         obind (getMethodID qa t env clazz methodName signature True s) (\<lambda>(s2, r).
         case r of
           None \<Rightarrow> QJniObject_new s2
         | Some mid \<Rightarrow> obind (env_CallObject qa t env clazz mid args s2) (\<lambda>(s3, res). getCleanJniObject qa t res s3)))"

text \<open>The private variant does not test the class.\<close>

definition callStaticObjectMethodV_class ::
  "qt_java \<Rightarrow> thread_id \<Rightarrow> ptr \<Rightarrow> string \<Rightarrow> string \<Rightarrow> jarg list \<Rightarrow> qjni \<Rightarrow> (qjni \<times> nat) outcome" where
  "callStaticObjectMethodV_class qa t clazz methodName signature args =
     with_env qa t (\<lambda>env s.
       obind (getMethodID qa t env clazz methodName signature True s) (\<lambda>(s2, r).
       case r of
         None \<Rightarrow> QJniObject_new s2
       | Some mid \<Rightarrow> obind (env_CallObject qa t env clazz mid args s2) (\<lambda>(s3, res). getCleanJniObject qa t res s3)))"

definition callStaticObjectMethod_id ::
  "qt_java \<Rightarrow> thread_id \<Rightarrow> ptr \<Rightarrow> nat option \<Rightarrow> jarg list \<Rightarrow> qjni \<Rightarrow> (qjni \<times> nat) outcome" where
  "callStaticObjectMethod_id qa t clazz methodId args =
     with_env qa t (\<lambda>env s.
       if clazz = None then QJniObject_new s
       else
         case methodId of
           None \<Rightarrow> QJniObject_new s
         | Some mid \<Rightarrow> obind (env_CallObject qa t env clazz mid args s) (\<lambda>(s3, res). getCleanJniObject qa t res s3))"

definition callStaticObjectMethod0_name :: "jni_type \<Rightarrow> qt_java \<Rightarrow> thread_id \<Rightarrow> string \<Rightarrow> string \<Rightarrow> qjni \<Rightarrow> (qjni \<times> nat) outcome" where
  "callStaticObjectMethod0_name T qa t className methodName s =
     obind (assertJniObjectType T) (\<lambda>_.
     obind (no_args T) (\<lambda>signature. callStaticObjectMethod_name qa t className methodName signature [] s))"

definition callStaticObjectMethod0_class :: "jni_type \<Rightarrow> qt_java \<Rightarrow> thread_id \<Rightarrow> ptr \<Rightarrow> string \<Rightarrow> qjni \<Rightarrow> (qjni \<times> nat) outcome" where
  "callStaticObjectMethod0_class T qa t clazz methodName s =
     obind (assertJniObjectType T) (\<lambda>_.
     obind (no_args T) (\<lambda>signature. callStaticObjectMethod_class qa t clazz methodName signature [] s))"

subsection \<open>Fields\<close>

definition getField :: "jni_type \<Rightarrow> qt_java \<Rightarrow> thread_id \<Rightarrow> nat \<Rightarrow> string \<Rightarrow> qjni \<Rightarrow> (qjni \<times> int) outcome" where
  "getField T qa t d fieldName s0 =
     obind (assertJniPrimitiveType T) (\<lambda>_.
     with_env qa t (\<lambda>env s.
       obind (getTypeSignature T) (\<lambda>signature.
       obind (getCachedFieldID qa t env d fieldName signature False s) (\<lambda>(s1, r).
       if_found 0 r (\<lambda>fid s1.
         obind (QJniObject_object s1 d) (\<lambda>obj. or_zero t env (getFieldForType T qa t env obj fid s1))) s1))) s0)"

definition getStaticField_name :: "jni_type \<Rightarrow> qt_java \<Rightarrow> thread_id \<Rightarrow> string \<Rightarrow> string \<Rightarrow> qjni \<Rightarrow> (qjni \<times> int) outcome" where
  "getStaticField_name T qa t className fieldName s0 =
     obind (assertJniPrimitiveType T) (\<lambda>_.
     with_env qa t (\<lambda>env s.
       obind (loadClass qa t className env False s) (\<lambda>(s1, clazz).
       if clazz = None then Inr (s1, 0)
       else
         obind (getTypeSignature T) (\<lambda>signature.
         obind (getCachedFieldID_class qa t env clazz (toBinaryEncClassName className) fieldName signature True s1) (\<lambda>(s2, r).
         if_found 0 r (\<lambda>fid s2. or_zero t env (getStaticFieldForType T qa t env clazz fid s2)) s2)))) s0)"

definition getStaticField_class :: "jni_type \<Rightarrow> qt_java \<Rightarrow> thread_id \<Rightarrow> ptr \<Rightarrow> string \<Rightarrow> qjni \<Rightarrow> (qjni \<times> int) outcome" where
  "getStaticField_class T qa t clazz fieldName s0 =
     obind (assertJniPrimitiveType T) (\<lambda>_.
     with_env qa t (\<lambda>env s.
       obind (getTypeSignature T) (\<lambda>signature.
       obind (getFieldID qa t env clazz fieldName signature True s) (\<lambda>(s1, r).
       if_found 0 r (\<lambda>fid s1. or_zero t env (getStaticFieldForType T qa t env clazz fid s1)) s1))) s0)"

definition getObjectField :: "qt_java \<Rightarrow> thread_id \<Rightarrow> nat \<Rightarrow> string \<Rightarrow> string \<Rightarrow> qjni \<Rightarrow> (qjni \<times> nat) outcome" where
  "getObjectField qa t d fieldName signature =
     with_env qa t (\<lambda>env s.
       obind (getCachedFieldID qa t env d fieldName signature False s) (\<lambda>(s1, r).
       case r of
         None \<Rightarrow> QJniObject_new s1
       | Some fid \<Rightarrow>
           obind (QJniObject_object s1 d) (\<lambda>obj.
           obind (env_GetObjectField qa t env obj fid s1) (\<lambda>(s2, res). getCleanJniObject qa t res s2))))"

definition getStaticObjectField_name :: "qt_java \<Rightarrow> thread_id \<Rightarrow> string \<Rightarrow> string \<Rightarrow> string \<Rightarrow> qjni \<Rightarrow> (qjni \<times> nat) outcome" where
  "getStaticObjectField_name qa t className fieldName signature =
     with_env qa t (\<lambda>env s.
       obind (loadClass qa t className env False s) (\<lambda>(s1, clazz).
       if clazz = None then QJniObject_new s1
       else
         obind (getCachedFieldID_class qa t env clazz (toBinaryEncClassName className) fieldName signature True s1) (\<lambda>(s2, r).
         case r of
           None \<Rightarrow> QJniObject_new s2
         | Some fid \<Rightarrow> obind (env_GetObjectField qa t env clazz fid s2) (\<lambda>(s3, res). getCleanJniObject qa t res s3))))"

definition getStaticObjectField_class :: "qt_java \<Rightarrow> thread_id \<Rightarrow> ptr \<Rightarrow> string \<Rightarrow> string \<Rightarrow> qjni \<Rightarrow> (qjni \<times> nat) outcome" where
  "getStaticObjectField_class qa t clazz fieldName signature =
     with_env qa t (\<lambda>env s.
       obind (getFieldID qa t env clazz fieldName signature True s) (\<lambda>(s2, r).
       case r of
         None \<Rightarrow> QJniObject_new s2
       | Some fid \<Rightarrow> obind (env_GetObjectField qa t env clazz fid s2) (\<lambda>(s3, res). getCleanJniObject qa t res s3)))"

definition setField_sig :: "jni_type \<Rightarrow> qt_java \<Rightarrow> thread_id \<Rightarrow> nat \<Rightarrow> string \<Rightarrow> string \<Rightarrow> jarg \<Rightarrow> qjni \<Rightarrow> (qjni \<times> unit) outcome" where
  "setField_sig T qa t d fieldName signature v s0 =
     obind (assertJniType T) (\<lambda>_.
     with_env qa t (\<lambda>env s.
       obind (getCachedFieldID qa t env d fieldName signature False s) (\<lambda>(s1, r).
       if_found () r (\<lambda>fid s1.
         obind (QJniObject_object s1 d) (\<lambda>obj. then_clear t env (setFieldForType T qa t env obj fid v s1))) s1)) s0)"

definition setField :: "jni_type \<Rightarrow> qt_java \<Rightarrow> thread_id \<Rightarrow> nat \<Rightarrow> string \<Rightarrow> jarg \<Rightarrow> qjni \<Rightarrow> (qjni \<times> unit) outcome" where
  "setField T qa t d fieldName v s0 =
     obind (assertJniType T) (\<lambda>_.
     with_env qa t (\<lambda>env s.
       obind (getTypeSignature T) (\<lambda>signature.
       obind (getCachedFieldID qa t env d fieldName signature False s) (\<lambda>(s1, r).
       if_found () r (\<lambda>fid s1.
         obind (QJniObject_object s1 d) (\<lambda>obj. then_clear t env (setFieldForType T qa t env obj fid v s1))) s1))) s0)"

definition setStaticField_name ::
  "jni_type \<Rightarrow> qt_java \<Rightarrow> thread_id \<Rightarrow> string \<Rightarrow> string \<Rightarrow> jarg \<Rightarrow> qjni \<Rightarrow> (qjni \<times> unit) outcome" where
  "setStaticField_name T qa t className fieldName v s0 =
     obind (assertJniType T) (\<lambda>_.
     with_env qa t (\<lambda>env s.
       obind (loadClass qa t className env False s) (\<lambda>(s1, clazz).
       if clazz = None then Inr (s1, ())
       else
         obind (getTypeSignature T) (\<lambda>signature.
         obind (getCachedFieldID_class qa t env clazz className fieldName signature True s1) (\<lambda>(s2, r).
         if_found () r (\<lambda>fid s2. then_clear t env (setStaticFieldForType T qa t env clazz fid v s2)) s2)))) s0)"

definition setStaticField_name_sig ::
  "jni_type \<Rightarrow> qt_java \<Rightarrow> thread_id \<Rightarrow> string \<Rightarrow> string \<Rightarrow> string \<Rightarrow> jarg \<Rightarrow> qjni \<Rightarrow> (qjni \<times> unit) outcome" where
  "setStaticField_name_sig T qa t className fieldName signature v s0 =
     obind (assertJniType T) (\<lambda>_.
     with_env qa t (\<lambda>env s.
       obind (loadClass qa t className env False s) (\<lambda>(s1, clazz).
       if clazz = None then Inr (s1, ())
       else
         obind (getCachedFieldID_class qa t env clazz className fieldName signature True s1) (\<lambda>(s2, r).
         if_found () r (\<lambda>fid s2. then_clear t env (setStaticFieldForType T qa t env clazz fid v s2)) s2))) s0)"

definition setStaticField_class_sig ::
  "jni_type \<Rightarrow> qt_java \<Rightarrow> thread_id \<Rightarrow> ptr \<Rightarrow> string \<Rightarrow> string \<Rightarrow> jarg \<Rightarrow> qjni \<Rightarrow> (qjni \<times> unit) outcome" where
  "setStaticField_class_sig T qa t clazz fieldName signature v s0 =
     obind (assertJniType T) (\<lambda>_.
     with_env qa t (\<lambda>env s.
       obind (getFieldID qa t env clazz fieldName signature True s) (\<lambda>(s2, r).
       if_found () r (\<lambda>fid s2. then_clear t env (setStaticFieldForType T qa t env clazz fid v s2)) s2)) s0)"

definition setStaticField_class :: "jni_type \<Rightarrow> qt_java \<Rightarrow> thread_id \<Rightarrow> ptr \<Rightarrow> string \<Rightarrow> jarg \<Rightarrow> qjni \<Rightarrow> (qjni \<times> unit) outcome" where
  "setStaticField_class T qa t clazz fieldName v s0 =
     obind (assertJniType T) (\<lambda>_.
     with_env qa t (\<lambda>env s.
       obind (getTypeSignature T) (\<lambda>signature.
       obind (getFieldID qa t env clazz fieldName signature True s) (\<lambda>(s2, r).
       if_found () r (\<lambda>fid s2. then_clear t env (setStaticFieldForType T qa t env clazz fid v s2)) s2))) s0)"

definition getObjectField0 :: "jni_type \<Rightarrow> qt_java \<Rightarrow> thread_id \<Rightarrow> nat \<Rightarrow> string \<Rightarrow> qjni \<Rightarrow> (qjni \<times> nat) outcome" where
  "getObjectField0 T qa t d fieldName s =
     obind (assertJniObjectType T) (\<lambda>_. obind (getTypeSignature T) (\<lambda>signature. getObjectField qa t d fieldName signature s))"

definition getStaticObjectField0_name :: "jni_type \<Rightarrow> qt_java \<Rightarrow> thread_id \<Rightarrow> string \<Rightarrow> string \<Rightarrow> qjni \<Rightarrow> (qjni \<times> nat) outcome" where
  "getStaticObjectField0_name T qa t className fieldName s =
     obind (assertJniObjectType T) (\<lambda>_.
     obind (getTypeSignature T) (\<lambda>signature. getStaticObjectField_name qa t className fieldName signature s))"

definition getStaticObjectField0_class :: "jni_type \<Rightarrow> qt_java \<Rightarrow> thread_id \<Rightarrow> ptr \<Rightarrow> string \<Rightarrow> qjni \<Rightarrow> (qjni \<times> nat) outcome" where
  "getStaticObjectField0_class T qa t clazz fieldName s =
     obind (assertJniObjectType T) (\<lambda>_.
     obind (getTypeSignature T) (\<lambda>signature. getStaticObjectField_class qa t clazz fieldName signature s))"

subsection \<open>Text, availability, and the start of the library\<close>

text \<open>The result of \<open>toString\<close> is looked at without a test that there is one.\<close>

definition QJniObject_toString :: "qt_java \<Rightarrow> thread_id \<Rightarrow> nat \<Rightarrow> qjni \<Rightarrow> (qjni \<times> byte list) outcome" where
  "QJniObject_toString qa t d s =
     obind (QJniObject_isValid s d) (\<lambda>valid.
     if \<not> valid then Inr (s, [])
     else
       with_object qa t (callObjectMethod0 jstring qa t d ''toString'') (\<lambda>str s1.
         obind (QJniObject_object s1 str) (\<lambda>p. qt_convertJString qa t p s1)) s)"

definition isClassAvailable :: "qt_java \<Rightarrow> thread_id \<Rightarrow> string \<Rightarrow> qjni \<Rightarrow> (qjni \<times> bool) outcome" where
  "isClassAvailable qa t className =
     with_env qa t (\<lambda>env s.
       if env = None then Inr (s, False)
       else obind (loadClass qa t className env False s) (\<lambda>(s1, clazz). Inr (s1, clazz \<noteq> None)))"

definition JNI_ERR :: int where "JNI_ERR = - 1"
definition JNI_VERSION_1_6 :: int where "JNI_VERSION_1_6 = 65542"

text \<open>The three parts of \<open>initJNI\<close>: the class is found, its class loader is asked for, and kept.\<close>

definition keep_class_loader ::
  "qt_java \<Rightarrow> thread_id \<Rightarrow> thread_id option \<Rightarrow> LogSettings \<Rightarrow> ptr \<Rightarrow> ptr \<Rightarrow> qjni \<Rightarrow> (qjni \<times> int \<times> LogSettings) outcome" where
  "keep_class_loader qa t env g jQtNative classLoader s =
     obind (env_NewGlobalRef qa t env classLoader s) (\<lambda>(s1, loader).
     obind (env_DeleteRef t env (LocalRef t) classLoader (s1\<lparr>g_jClassLoader := loader\<rparr>)) (\<lambda>(s2, u).
     obind (env_DeleteRef t env (LocalRef t) jQtNative s2) (\<lambda>(s3, u).
     obind (checkAndClearExceptions t env s3) (\<lambda>(s4, cleared).
     if cleared then Inr (s4, JNI_ERR, g)
     else Inr (s4, 0, SetLogSettings (g\<lparr>min_log_level := LOG_INFO\<rparr>) g)))))"

definition ask_class_loader ::
  "qt_java \<Rightarrow> thread_id \<Rightarrow> thread_id option \<Rightarrow> LogSettings \<Rightarrow> ptr \<Rightarrow> qjni \<Rightarrow> (qjni \<times> int \<times> LogSettings) outcome" where
  "ask_class_loader qa t env g jQtNative s =
     obind (env_GetID (qa_method qa) t env jQtNative ''classLoader'' ''()Ljava/lang/ClassLoader;'' True s) (\<lambda>(s1, r).
     obind (checkAndClearExceptions t env s1) (\<lambda>(s2, cleared).
     if cleared then Inr (s2, JNI_ERR, g)
     else
       case r of
         None \<Rightarrow> Inl Undefined_Behaviour
       | Some classLoaderMethodID \<Rightarrow>
           obind (env_CallObject qa t env jQtNative classLoaderMethodID [] s2) (\<lambda>(s3, classLoader).
           obind (checkAndClearExceptions t env s3) (\<lambda>(s4, cleared).
           if cleared then Inr (s4, JNI_ERR, g) else keep_class_loader qa t env g jQtNative classLoader s4))))"

definition initJNI :: "qt_java \<Rightarrow> thread_id \<Rightarrow> thread_id option \<Rightarrow> LogSettings \<Rightarrow> qjni \<Rightarrow> (qjni \<times> int \<times> LogSettings) outcome" where
  "initJNI qa t env g s =
     obind (env_FindClass qa t env ''com/mgg/environmentcheck/QtNative'' (s\<lparr>qj_vm := (qj_vm s)\<lparr>g_jvm := True\<rparr>\<rparr>)) (\<lambda>(s1, jQtNative).
     obind (checkAndClearExceptions t env s1) (\<lambda>(s2, cleared).
     if cleared then Inr (s2, JNI_ERR, g) else ask_class_loader qa t env g jQtNative s2))"

text \<open>The virtual machine calls this on a thread that is attached.\<close>

definition JNI_OnLoad :: "qt_java \<Rightarrow> thread_id \<Rightarrow> LogSettings \<Rightarrow> qjni \<Rightarrow> (qjni \<times> int \<times> LogSettings) outcome" where
  "JNI_OnLoad qa t g s =
     (if qj_initialized s then Inr (s, JNI_VERSION_1_6, g)
      else
        let s1 = s\<lparr>qj_initialized := True\<rparr>
        in if t \<notin> jv_attached (qj_vm s1) then Inr (s1, JNI_ERR, g)
           else
             obind (initJNI qa t (Some t) g s1) (\<lambda>(s2, ret, g1).
             Inr (s2, if ret \<noteq> 0 then ret else JNI_VERSION_1_6, g1)))"

definition QtAndroidPrivate_context :: "qjni \<Rightarrow> ptr" where
  "QtAndroidPrivate_context s =
     (if g_jActivity s \<noteq> None then g_jActivity s else if g_jService s \<noteq> None then g_jService s else None)"

definition androidSdkVersion :: "qt_java \<Rightarrow> thread_id \<Rightarrow> qjni \<Rightarrow> (qjni \<times> int) outcome" where
  "androidSdkVersion qa t s =
     (if sdkVersion s = 0
      then obind (getStaticField_name jint qa t ''android/os/Build$VERSION'' ''SDK_INT'' s) (\<lambda>(s1, v).
           Inr (s1\<lparr>sdkVersion := v\<rparr>, v))
      else Inr (s, sdkVersion s))"

end
