(* ===== verification/Qt_Jni_Laws.thy ===== *)
theory Qt_Jni_Laws
  imports Qt_Jni
begin

section \<open>What QJniObject owns\<close>

text \<open>
  The references that the operations of \<open>Qt_Jni\<close> make and delete, in a calculus of total correctness: \<open>wp m Q\<close> says
  that \<open>m\<close> does not fault and that \<open>Q\<close> holds of its result. A state is described by \<open>q_ok s R T\<close>: every
  private object has the references it owns for itself alone; \<open>R\<close> are the references that are alive and
  owned by none, \<open>T\<close> those that the running operation still has to delete or to give to an object.
\<close>

subsection \<open>Total correctness\<close>

definition wp :: "(qjni \<times> 'r) outcome \<Rightarrow> (qjni \<Rightarrow> 'r \<Rightarrow> bool) \<Rightarrow> bool" where
  "wp m Q = (case m of Inl e \<Rightarrow> False | Inr (s, r) \<Rightarrow> Q s r)"

named_theorems wp_simps \<open>rules for total correctness\<close>

lemma wp_Inr [simp, wp_simps]: "wp (Inr (s, r)) Q = Q s r"
  by (simp add: wp_def)

lemma wp_Inr_pair [wp_simps]: "wp (Inr x) Q = Q (fst x) (snd x)"
  by (simp add: wp_def split: prod.splits)

lemma wp_obind [wp_simps]: "wp (obind m k) Q = wp m (\<lambda>s r. wp (k (s, r)) Q)"
  by (simp add: wp_def obind_def split: sum.splits prod.splits)

lemma wp_defined [wp_simps]: "wp (obind (defined b) k) Q = (b \<and> wp (k ()) Q)"
  by (cases b) (simp_all add: wp_def)

lemma wp_check [wp_simps]: "wp (obind (check b) k) Q = (b \<and> wp (k ()) Q)"
  by (cases b) (simp_all add: wp_def check_def)

lemma wp_value [wp_simps]: "m = Inr x \<Longrightarrow> wp (obind m k) Q = wp (k x) Q"
  by simp

lemma wp_mono: "wp m Q \<Longrightarrow> (\<And>s r. Q s r \<Longrightarrow> Q' s r) \<Longrightarrow> wp m Q'"
  by (auto simp: wp_def split: sum.splits prod.splits)

lemma wpD: "wp m Q \<Longrightarrow> \<exists>s r. m = Inr (s, r) \<and> Q s r"
  by (auto simp: wp_def split: sum.splits prod.splits)

subsection \<open>The invariant\<close>

text \<open>The references of a private object as two variables: its object and, if it owns it, its class.\<close>

definition slot :: "(nat \<rightharpoonup> qprivate \<times> nat) \<Rightarrow> var \<Rightarrow> holder option" where
  "slot P x =
     (case P (x div 2) of
        None \<Rightarrow> None
      | Some (p, n) \<Rightarrow>
          Some (ScopedJavaGlobalRef (if even x then m_jobject p else if m_own_jclass p then m_jclass p else None)))"

definition q_ok :: "qjni \<Rightarrow> (nat \<times> ref_kind) set \<Rightarrow> (nat \<times> ref_kind) set \<Rightarrow> bool" where
  "q_ok s R T \<longleftrightarrow>
     jv_ok (qj_vm s) (slot (qj_priv s)) (R \<union> T) \<and> R \<inter> T = {} \<and> jv_collected (qj_vm s) = {} \<and>
     (\<forall>h k obj. jv_refs (qj_vm s) h = Some (k, obj) \<longrightarrow> unowned (held (slot (qj_priv s))) h \<longrightarrow> (h, k) \<in> R \<union> T) \<and>
     (\<forall>d. qj_next s \<le> d \<longrightarrow> qj_priv s d = None) \<and>
     (\<forall>d p n. qj_priv s d = Some (p, n) \<longrightarrow> 0 < n \<and> (\<forall>h. m_jclass p = Some h \<longrightarrow> \<not> m_own_jclass p \<longrightarrow> (h, GlobalRef) \<in> R)) \<and>
     (\<forall>h. g_jClassLoader s = Some h \<longrightarrow> (h, GlobalRef) \<in> R)"

text \<open>From one state to a later one: no reference that was alive has gone, and handles are not used again.\<close>

definition later :: "qjni \<Rightarrow> qjni \<Rightarrow> bool" where
  "later s s' \<longleftrightarrow>
     g_jClassLoader s' = g_jClassLoader s \<and> jv_attached (qj_vm s) \<subseteq> jv_attached (qj_vm s') \<and>
     qj_next s \<le> qj_next s' \<and> sdkVersion s' = sdkVersion s \<and> qj_initialized s' = qj_initialized s \<and>
     jv_next (qj_vm s) \<le> jv_next (qj_vm s') \<and>
     (\<forall>h < jv_next (qj_vm s). jv_refs (qj_vm s') h = jv_refs (qj_vm s) h \<or> jv_refs (qj_vm s') h = None)"

lemma later_refl [simp]: "later s s"
  by (simp add: later_def)

lemma later_trans: "later s s' \<Longrightarrow> later s' s'' \<Longrightarrow> later s s''"
  unfolding later_def by (metis (no_types, lifting) dual_order.trans order_less_le_trans)

definition healthy :: "qt_java \<Rightarrow> bool" where
  "healthy qa \<longleftrightarrow> works (qa_refs qa) \<and> (\<forall>n. ja_room (qa_refs qa) n)"

text \<open>A thread that may call Java.\<close>

definition calm :: "thread_id \<Rightarrow> qjni \<Rightarrow> bool" where
  "calm t s \<longleftrightarrow> t \<in> jv_attached (qj_vm s) \<and> \<not> qj_pending s"

lemma q_okD:
  assumes "q_ok s R T"
  shows "jv_ok (qj_vm s) (slot (qj_priv s)) (R \<union> T)" and "R \<inter> T = {}" and "jv_collected (qj_vm s) = {}"
    and "jv_refs (qj_vm s) h = Some (k, obj) \<Longrightarrow> unowned (held (slot (qj_priv s))) h \<Longrightarrow> (h, k) \<in> R \<union> T"
    and "qj_next s \<le> d \<Longrightarrow> qj_priv s d = None"
    and "qj_priv s d = Some (p, n) \<Longrightarrow> 0 < n"
    and "qj_priv s d = Some (p, n) \<Longrightarrow> m_jclass p = Some h \<Longrightarrow> \<not> m_own_jclass p \<Longrightarrow> (h, GlobalRef) \<in> R"
    and "g_jClassLoader s = Some h \<Longrightarrow> (h, GlobalRef) \<in> R"
  using assms unfolding q_ok_def by blast+

lemma q_okI:
  assumes "jv_ok (qj_vm s) (slot (qj_priv s)) (R \<union> T)" and "R \<inter> T = {}" and "jv_collected (qj_vm s) = {}"
    and "\<And>h k obj. jv_refs (qj_vm s) h = Some (k, obj) \<Longrightarrow> unowned (held (slot (qj_priv s))) h \<Longrightarrow> (h, k) \<in> R \<union> T"
    and "\<And>d. qj_next s \<le> d \<Longrightarrow> qj_priv s d = None"
    and "\<And>d p n. qj_priv s d = Some (p, n) \<Longrightarrow> 0 < n"
    and "\<And>d p n h. qj_priv s d = Some (p, n) \<Longrightarrow> m_jclass p = Some h \<Longrightarrow> \<not> m_own_jclass p \<Longrightarrow> (h, GlobalRef) \<in> R"
    and "\<And>h. g_jClassLoader s = Some h \<Longrightarrow> (h, GlobalRef) \<in> R"
  shows "q_ok s R T"
  using assms unfolding q_ok_def by blast

text \<open>Only some of the fields matter.\<close>

lemma q_ok_cong:
  assumes "q_ok s R T" and "qj_vm s' = qj_vm s" and "qj_priv s' = qj_priv s" and "qj_next s' = qj_next s"
    and "g_jClassLoader s' = g_jClassLoader s"
  shows "q_ok s' R T"
  using assms by (simp add: q_ok_def)

lemma q_ok_pending [simp]: "q_ok (s\<lparr>qj_pending := b\<rparr>) R T = q_ok s R T"
  and q_ok_calls [simp]: "q_ok (s\<lparr>qj_calls := cs\<rparr>) R T = q_ok s R T"
  and q_ok_pinned [simp]: "q_ok (s\<lparr>qj_pinned := n\<rparr>) R T = q_ok s R T"
  and later_pending [simp]: "later s (s'\<lparr>qj_pending := b\<rparr>) = later s s'"
  and later_calls [simp]: "later s (s'\<lparr>qj_calls := cs\<rparr>) = later s s'"
  and later_pinned [simp]: "later s (s'\<lparr>qj_pinned := n\<rparr>) = later s s'"
  by (simp_all add: q_ok_def later_def)

text \<open>The references of \<open>R\<close> and \<open>T\<close> are alive, and so are those of the objects.\<close>

lemma q_ok_alive:
  assumes "q_ok s R T" and "(h, k) \<in> R \<union> T"
  obtains obj where "jv_refs (qj_vm s) h = Some (k, obj)"
  using q_okD(1) [OF assms(1)] owned_okD(3) [of "jv_refs (qj_vm s)" _ "R \<union> T" h k] assms(2) by (auto simp: jv_ok_def)

lemma q_ok_object_alive:
  assumes "q_ok s R T" and "qj_priv s d = Some (p, n)" and "m_jobject p = Some h"
  obtains obj where "jv_refs (qj_vm s) h = Some (GlobalRef, obj)"
proof -
  have "slot (qj_priv s) (2 * d) = Some (ScopedJavaGlobalRef (Some h))" using assms(2,3) by (simp add: slot_def)
  with q_okD(1) [OF assms(1)] owned_okD(2) [of "jv_refs (qj_vm s)" "slot (qj_priv s)" "R \<union> T" "2 * d" _ h] that
  show thesis by (auto simp: jv_ok_def)
qed

lemma q_ok_class_alive:
  assumes "q_ok s R T" and "qj_priv s d = Some (p, n)" and "m_jclass p = Some h"
  obtains obj where "jv_refs (qj_vm s) h = Some (GlobalRef, obj)"
proof (cases "m_own_jclass p")
  case True
  then have "slot (qj_priv s) (2 * d + 1) = Some (ScopedJavaGlobalRef (Some h))" using assms(2,3) by (simp add: slot_def)
  with q_okD(1) [OF assms(1)] owned_okD(2) [of "jv_refs (qj_vm s)" "slot (qj_priv s)" "R \<union> T" "2 * d + 1" _ h] that
  show thesis by (auto simp: jv_ok_def)
next
  case False
  with q_okD(7) [OF assms(1,2,3)] q_ok_alive [OF assms(1), of h GlobalRef] that show thesis by blast
qed

lemma usable_global: "jv_refs j h = Some (GlobalRef, obj) \<Longrightarrow> usable t h j"
  and usable_local: "jv_refs j h = Some (LocalRef t, obj) \<Longrightarrow> usable t h j"
  by (simp_all add: usable_def)

lemma usable_same: "jv_refs j h = jv_refs j' h \<Longrightarrow> usable t h j = usable t h j'"
  by (simp add: usable_def)

text \<open>Nothing that was alive has gone when \<open>R\<close>, \<open>T\<close> and the private objects have only grown.\<close>

lemma q_ok_keeps:
  assumes "q_ok s R T" and "q_ok s' R' T'" and "R \<union> T \<subseteq> R' \<union> T'" and "qj_priv s \<subseteq>\<^sub>m qj_priv s'"
    and "later s s'" and "jv_refs (qj_vm s) h = Some (k, obj)"
  shows "jv_refs (qj_vm s') h = Some (k, obj)"
proof -
  have "jv_refs (qj_vm s') h \<noteq> None"
  proof (cases "unowned (held (slot (qj_priv s))) h")
    case True
    with q_okD(4) [OF assms(1,6)] assms(3) q_ok_alive [OF assms(2), of h k] show ?thesis by blast
  next
    case False
    then obtain x hl where x: "slot (qj_priv s) x = Some hl" "holder_obj hl = Some h"
      by (auto simp: unowned_def held_def)
    moreover from x(1) have "slot (qj_priv s') x = Some hl"
      using assms(4) by (force simp: slot_def map_le_def split: option.splits prod.splits)
    ultimately show ?thesis
      using q_okD(1) [OF assms(2)] owned_okD(2) [of "jv_refs (qj_vm s')" "slot (qj_priv s')" "R' \<union> T'" x hl h]
      by (auto simp: jv_ok_def)
  qed
  moreover have "h < jv_next (qj_vm s)"
    using q_okD(1) [OF assms(1)] jrefs_okD(2) [of "qj_vm s" h] assms(6) by (force simp: jv_ok_def)
  ultimately show ?thesis using assms(5,6) by (auto simp: later_def)
qed

subsection \<open>References made and deleted\<close>

lemma healthyD: "healthy qa \<Longrightarrow> works (qa_refs qa)" "healthy qa \<Longrightarrow> ja_room (qa_refs qa) n"
  by (auto simp: healthy_def)

text \<open>Changing only the references: \<open>j\<close> is the new table.\<close>

lemma q_ok_vm:
  assumes "q_ok s R T" and "jv_ok j (slot (qj_priv s)) (R \<union> T')" and "R \<inter> T' = {}" and "jv_collected j = {}"
    and "\<And>h k obj. jv_refs j h = Some (k, obj) \<Longrightarrow> unowned (held (slot (qj_priv s))) h \<Longrightarrow> (h, k) \<in> R \<union> T'"
  shows "q_ok (s\<lparr>qj_vm := j\<rparr>) R T'"
  using assms(2-) q_okD(5,6,7,8) [OF assms(1)] by (intro q_okI) auto

lemma hand_out_q_ok:
  assumes "q_ok s R T" and "\<And>t. k = LocalRef t \<Longrightarrow> t \<in> jv_attached (qj_vm s)" and "hand_out vm k obj (qj_vm s) = (j, Some h)"
  shows "q_ok (s\<lparr>qj_vm := j\<rparr>) R (insert (h, k) T)" and "later s (s\<lparr>qj_vm := j\<rparr>)" and "(h, k) \<notin> R \<union> T"
    and "jv_refs j h = Some (k, obj)" and "jv_refs (qj_vm s) h = None" and "jv_attached j = jv_attached (qj_vm s)"
proof -
  have c: "obj \<notin> jv_collected (qj_vm s)" using q_okD(3) [OF assms(1)] by simp
  note H = hand_out_ok [OF q_okD(1) [OF assms(1)] assms(2) c assms(3)]
  have j: "j = (qj_vm s)\<lparr>jv_refs := (jv_refs (qj_vm s))(h \<mapsto> (k, obj)), jv_next := h + 1, jv_frames := note_frame k h (jv_frames (qj_vm s))\<rparr>"
    and h: "h = jv_next (qj_vm s)"
    using assms(3) by (auto simp: hand_out_def Let_def split: if_splits)
  show fresh: "(h, k) \<notin> R \<union> T" using H(6) by auto
  show "jv_refs j h = Some (k, obj)" using j by simp
  show n: "jv_refs (qj_vm s) h = None"
    using q_okD(1) [OF assms(1)] jrefs_okD(2) [of "qj_vm s" h] h by (simp add: jv_ok_def)
  show "jv_attached j = jv_attached (qj_vm s)" using j by simp
  show "later s (s\<lparr>qj_vm := j\<rparr>)" using j h by (auto simp: later_def)
  show "q_ok (s\<lparr>qj_vm := j\<rparr>) R (insert (h, k) T)"
  proof (rule q_ok_vm [OF assms(1)])
    show "jv_ok j (slot (qj_priv s)) (R \<union> insert (h, k) T)" using H(1) by (simp add: insert_commute Un_insert_right)
    show "R \<inter> insert (h, k) T = {}" using fresh q_okD(2) [OF assms(1)] by auto
    show "jv_collected j = {}" using j q_okD(3) [OF assms(1)] by simp
    show "(a, l) \<in> R \<union> insert (h, k) T"
      if "jv_refs j a = Some (l, ob)" "unowned (held (slot (qj_priv s))) a" for a l ob
      using that q_okD(4) [OF assms(1), of a l ob] j by (auto split: if_splits)
  qed
qed

text \<open>A local reference, for the operation to delete.\<close>

lemma q_local_ok:
  assumes "q_ok s R T" and "healthy qa" and "t \<in> jv_attached (qj_vm s)"
  obtains s' h where "q_local qa t obj s = (s', Some h)" and "q_ok s' R (insert (h, LocalRef t) T)" and "later s s'"
    and "(h, LocalRef t) \<notin> R \<union> T" and "jv_refs (qj_vm s') h = Some (LocalRef t, obj)"
    and "qj_priv s' = qj_priv s" and "qj_pending s' = qj_pending s" and "t \<in> jv_attached (qj_vm s')" and "qj_calls s' = qj_calls s"
proof -
  obtain j h where o: "hand_out (qa_refs qa) (LocalRef t) obj (qj_vm s) = (j, Some h)"
    using healthyD(2) [OF assms(2)] by (auto simp: hand_out_def Let_def)
  have a: "\<And>t'. LocalRef t = LocalRef t' \<Longrightarrow> t' \<in> jv_attached (qj_vm s)" using assms(3) by simp
  note H = hand_out_q_ok [OF assms(1) a o]
  let ?s = "s\<lparr>qj_vm := j, qj_pending := qj_pending s \<or> False\<rparr>"
  have e: "q_local qa t obj s = (?s, Some h)" using o by (simp add: q_local_def)
  show thesis
    by (rule that [OF e]) (use H assms(3) in auto)
qed

lemma env_NewGlobalRef_ok:
  assumes "q_ok s R T" and "healthy qa" and "calm t s" and "jv_refs (qj_vm s) a = Some (k, obj)" and "usable t a (qj_vm s)"
  obtains s' h where "env_NewGlobalRef qa t (Some t) (Some a) s = Inr (s', Some h)" and "q_ok s' R (insert (h, GlobalRef) T)"
    and "later s s'" and "(h, GlobalRef) \<notin> R \<union> T" and "jv_refs (qj_vm s') h = Some (GlobalRef, obj)"
    and "qj_priv s' = qj_priv s" and "calm t s'" and "qj_calls s' = qj_calls s"
proof -
  obtain j h where o: "hand_out (qa_refs qa) GlobalRef obj (qj_vm s) = (j, Some h)"
    using healthyD(2) [OF assms(2)] by (auto simp: hand_out_def Let_def)
  have a: "\<And>t'. GlobalRef = LocalRef t' \<Longrightarrow> t' \<in> jv_attached (qj_vm s)" by simp
  note H = hand_out_q_ok [OF assms(1) a o]
  have e: "env_NewGlobalRef qa t (Some t) (Some a) s = Inr (s\<lparr>qj_vm := j\<rparr>, Some h)"
    using assms(3,4,5) q_okD(3) [OF assms(1)] o
    by (simp add: env_NewGlobalRef_def jni_ready_def calm_def NewRef_def Let_def)
  show thesis by (rule that [OF e]) (use H assms(3) in \<open>auto simp: calm_def\<close>)
qed

lemma env_DeleteRef_ok:
  assumes "q_ok s R T" and "t \<in> jv_attached (qj_vm s)" and "(h, k) \<in> T"
  obtains s' where "env_DeleteRef t (Some t) k (Some h) s = Inr (s', ())" and "q_ok s' R (T - {(h, k)})" and "later s s'"
    and "qj_priv s' = qj_priv s" and "qj_pending s' = qj_pending s" and "qj_calls s' = qj_calls s"
    and "jv_attached (qj_vm s') = jv_attached (qj_vm s)"
proof -
  note D = q_okD [OF assms(1)]
  obtain j where j: "DeleteRef t k (Some h) (qj_vm s) = Inr j" "jv_ok j (slot (qj_priv s)) (R \<union> T - tag k (Some h))"
    "jv_attached j = jv_attached (qj_vm s)" "\<And>a. Some h \<noteq> Some a \<Longrightarrow> jv_refs j a = jv_refs (qj_vm s) a"
    "jv_collected j = jv_collected (qj_vm s)" "jv_next j = jv_next (qj_vm s)"
    by (rule DeleteRef_ok [OF D(1) assms(2), of k "Some h"]) (use assms(3) in auto)
  have d: "jv_refs j h = None" using j(1) by (auto simp: DeleteRef_def obind_eq_Inr)
  have t: "R \<union> T - tag k (Some h) = R \<union> (T - {(h, k)})" using D(2) assms(3) by auto
  have "q_ok (s\<lparr>qj_vm := j\<rparr>) R (T - {(h, k)})"
  proof (rule q_ok_vm [OF assms(1)])
    show "jv_ok j (slot (qj_priv s)) (R \<union> (T - {(h, k)}))" using j(2) t by simp
    show "R \<inter> (T - {(h, k)}) = {}" using D(2) by auto
    show "jv_collected j = {}" using j(5) D(3) by simp
    show "(a, l) \<in> R \<union> (T - {(h, k)})"
      if "jv_refs j a = Some (l, ob)" "unowned (held (slot (qj_priv s))) a" for a l ob
    proof -
      have "a \<noteq> h" using that(1) d by auto
      with that D(4) [of a l ob] j(4) [of a] show ?thesis by auto
    qed
  qed
  moreover have "jv_refs j a = jv_refs (qj_vm s) a \<or> jv_refs j a = None" for a
    by (cases "a = h") (use j(4) [of a] d in auto)
  then have "later s (s\<lparr>qj_vm := j\<rparr>)" using j(3,6) by (simp add: later_def)
  ultimately show thesis using that [of "s\<lparr>qj_vm := j\<rparr>"] j(1,3) by (simp add: env_DeleteRef_def)
qed
subsection \<open>Rules for the primitives\<close>

lemma no_pending: "\<not> qj_pending s \<Longrightarrow> s\<lparr>qj_pending := False\<rparr> = s"
  by (cases s) simp

lemma wp_checkAndClear [wp_simps]:
  "wp (checkAndClearExceptions t env s) Q = (env = Some t \<and> Q (s\<lparr>qj_pending := False\<rparr>) (qj_pending s))"
proof (cases "qj_pending s")
  case True
  then show ?thesis by (simp add: checkAndClearExceptions_def wp_defined)
next
  case False
  have e: "s\<lparr>qj_pending := False\<rparr> = s" by (rule no_pending [OF False])
  show ?thesis unfolding e using False by (simp add: checkAndClearExceptions_def wp_defined)
qed

text \<open>A block with its own environment: it starts on an attached thread and ends without a pending exception.\<close>

lemma wp_with_env:
  assumes "q_ok s R T" and "healthy qa" and "\<not> qj_pending s"
    and "\<And>s1. q_ok s1 R T \<Longrightarrow> later s s1 \<Longrightarrow> calm t s1 \<Longrightarrow> qj_priv s1 = qj_priv s \<Longrightarrow> qj_calls s1 = qj_calls s \<Longrightarrow>
           jv_refs (qj_vm s1) = jv_refs (qj_vm s) \<Longrightarrow> qj_pinned s1 = qj_pinned s \<Longrightarrow>
           (t \<in> jv_attached (qj_vm s) \<Longrightarrow> s1 = s) \<Longrightarrow> wp (body (Some t) s1) (\<lambda>s2 r. Q (s2\<lparr>qj_pending := False\<rparr>) r)"
  shows "wp (with_env qa t body s) Q"
proof -
  have g: "g_jvm (qj_vm s)" using q_okD(1) [OF assms(1)] by (simp add: jv_ok_def jrefs_ok_def)
  have "\<exists>s1. QJniEnvironment_new qa t s = Inr (s1, Some t) \<and> q_ok s1 R T \<and> later s s1 \<and> calm t s1 \<and>
          qj_priv s1 = qj_priv s \<and> qj_calls s1 = qj_calls s \<and> jv_refs (qj_vm s1) = jv_refs (qj_vm s) \<and>
          qj_pinned s1 = qj_pinned s \<and> (t \<in> jv_attached (qj_vm s) \<longrightarrow> s1 = s)"
  proof (cases "t \<in> jv_attached (qj_vm s)")
    case True
    with assms(1,3) g show ?thesis by (simp add: QJniEnvironment_new_def calm_def)
  next
    case False
    define j where "j = (qj_vm s)\<lparr>jv_attached := insert t (jv_attached (qj_vm s))\<rparr>"
    have "jrefs_ok j" using q_okD(1) [OF assms(1)] unfolding jv_ok_def jrefs_ok_def j_def by simp
    then have j: "q_ok (s\<lparr>qj_vm := j\<rparr>) R T"
      using q_okD(1-4) [OF assms(1)] by (intro q_ok_vm [OF assms(1)]) (auto simp: jv_ok_def j_def)
    define s1 where "s1 = s\<lparr>qj_vm := j\<rparr>\<lparr>jniEnvTLS := insert t (jniEnvTLS s)\<rparr>"
    have "QJniEnvironment_new qa t s = Inr (s1, Some t)"
      using False g healthyD(1) [OF assms(2)]
      by (simp add: QJniEnvironment_new_def Let_def works_def s1_def j_def insert_absorb)
    moreover have "q_ok s1 R T" by (rule q_ok_cong [OF j]) (simp_all add: s1_def)
    moreover have "later s s1" "calm t s1"
      using assms(3) by (auto simp: s1_def j_def later_def calm_def)
    ultimately show ?thesis using False by (simp add: s1_def j_def)
  qed
  then obtain s1 where "QJniEnvironment_new qa t s = Inr (s1, Some t)" and
    "wp (body (Some t) s1) (\<lambda>s2 r. Q (s2\<lparr>qj_pending := False\<rparr>) r)"
    using assms(4) by blast
  then show ?thesis
    by (simp add: with_env_def wp_obind QJniEnvironment_destroy_def wp_checkAndClear)
qed

lemma wp_NewGlobalRef:
  assumes "q_ok s R T" and "healthy qa" and "calm t s" and "jv_refs (qj_vm s) a = Some (k, obj)" and "usable t a (qj_vm s)"
    and "\<And>s' h. q_ok s' R (insert (h, GlobalRef) T) \<Longrightarrow> later s s' \<Longrightarrow> (h, GlobalRef) \<notin> R \<union> T \<Longrightarrow>
           jv_refs (qj_vm s') h = Some (GlobalRef, obj) \<Longrightarrow> qj_priv s' = qj_priv s \<Longrightarrow> calm t s' \<Longrightarrow>
           qj_calls s' = qj_calls s \<Longrightarrow> Q s' (Some h)"
  shows "wp (env_NewGlobalRef qa t (Some t) (Some a) s) Q"
  by (rule env_NewGlobalRef_ok [OF assms(1-5)]) (simp add: assms(6))

lemma wp_DeleteRef:
  assumes "q_ok s R T" and "t \<in> jv_attached (qj_vm s)" and "(h, k) \<in> T"
    and "\<And>s'. q_ok s' R (T - {(h, k)}) \<Longrightarrow> later s s' \<Longrightarrow> qj_priv s' = qj_priv s \<Longrightarrow> qj_pending s' = qj_pending s \<Longrightarrow>
           qj_calls s' = qj_calls s \<Longrightarrow> jv_attached (qj_vm s') = jv_attached (qj_vm s) \<Longrightarrow> Q s' ()"
  shows "wp (env_DeleteRef t (Some t) k (Some h) s) Q"
  by (rule env_DeleteRef_ok [OF assms(1-3)]) (simp add: assms(4))

lemma env_DeleteRef_None [simp]: "env_DeleteRef t (Some t) k None s = Inr (s, ())"
  by (simp add: env_DeleteRef_def DeleteRef_def)

lemma wp_GetObjectClass:
  assumes "q_ok s R T" and "healthy qa" and "calm t s" and "jv_refs (qj_vm s) a = Some (k, obj)" and "usable t a (qj_vm s)"
    and "\<And>s' h. q_ok s' R (insert (h, LocalRef t) T) \<Longrightarrow> later s s' \<Longrightarrow> (h, LocalRef t) \<notin> R \<union> T \<Longrightarrow>
           jv_refs (qj_vm s') h = Some (LocalRef t, qa_class_of qa obj) \<Longrightarrow> qj_priv s' = qj_priv s \<Longrightarrow> calm t s' \<Longrightarrow>
           qj_calls s' = qj_calls s \<Longrightarrow> Q s' (Some h)"
  shows "wp (env_GetObjectClass qa t (Some t) (Some a) s) Q"
proof -
  have t: "t \<in> jv_attached (qj_vm s)" using assms(3) by (simp add: calm_def)
  obtain s' h where l: "q_local qa t (qa_class_of qa obj) s = (s', Some h)" "q_ok s' R (insert (h, LocalRef t) T)" "later s s'"
    "(h, LocalRef t) \<notin> R \<union> T" "jv_refs (qj_vm s') h = Some (LocalRef t, qa_class_of qa obj)" "qj_priv s' = qj_priv s"
    "qj_pending s' = qj_pending s" "t \<in> jv_attached (qj_vm s')" "qj_calls s' = qj_calls s"
    by (rule q_local_ok [OF assms(1,2) t])
  then have "Q s' (Some h)" using assms(3,6) by (simp add: calm_def)
  then show ?thesis using assms(3,4,5) l(1)
    by (simp add: env_GetObjectClass_def jni_ready_def calm_def deref_def wp_simps)
qed

lemma wp_q_local_opt:
  assumes "q_ok s R T" and "healthy qa" and "t \<in> jv_attached (qj_vm s)"
    and "\<And>s' p. q_ok s' R (tag (LocalRef t) p \<union> T) \<Longrightarrow> later s s' \<Longrightarrow> tag (LocalRef t) p \<inter> (R \<union> T) = {} \<Longrightarrow>
           (p = None \<longleftrightarrow> ob = None) \<Longrightarrow> (\<And>h. p = Some h \<Longrightarrow> jv_refs (qj_vm s') h = Some (LocalRef t, the ob)) \<Longrightarrow>
           qj_priv s' = qj_priv s \<Longrightarrow> qj_pending s' = qj_pending s \<Longrightarrow> t \<in> jv_attached (qj_vm s') \<Longrightarrow>
           qj_calls s' = qj_calls s \<Longrightarrow> Q s' p"
  shows "wp (Inr (q_local_opt qa t ob s)) Q"
proof (cases ob)
  case None
  then have "Q s None" by (intro assms(4)) (use assms(1,3) in auto)
  with None show ?thesis by (simp add: q_local_opt_def)
next
  case (Some obj)
  obtain s' h where l: "q_local qa t obj s = (s', Some h)" "q_ok s' R (insert (h, LocalRef t) T)" "later s s'"
    "(h, LocalRef t) \<notin> R \<union> T" "jv_refs (qj_vm s') h = Some (LocalRef t, obj)" "qj_priv s' = qj_priv s"
    "qj_pending s' = qj_pending s" "t \<in> jv_attached (qj_vm s')" "qj_calls s' = qj_calls s"
    by (rule q_local_ok [OF assms(1,2,3)])
  have "Q s' (Some h)" by (intro assms(4)) (use l Some in auto)
  with Some l(1) show ?thesis by (simp add: q_local_opt_def)
qed

lemma wp_GetID:
  assumes "calm t s" and "jv_refs (qj_vm s) a = Some (k, c)" and "usable t a (qj_vm s)"
    and "Q (s\<lparr>qj_pending := tab c name signature static = None\<rparr>) (tab c name signature static)"
  shows "wp (env_GetID tab t (Some t) (Some a) name signature static s) Q"
  using assms by (simp add: env_GetID_def jni_ready_def calm_def deref_def wp_simps Let_def)

lemma calm_pending [simp]: "calm t (s\<lparr>qj_pending := False\<rparr>) \<longleftrightarrow> t \<in> jv_attached (qj_vm s)"
  by (simp add: calm_def)

text \<open>Both lookups end without an exception, and change nothing.\<close>

lemma wp_getMethodID:
  assumes "calm t s" and "jv_refs (qj_vm s) a = Some (k, c)" and "usable t a (qj_vm s)"
    and "Q s (qa_method qa c name signature static)"
  shows "wp (getMethodID qa t (Some t) (Some a) name signature static s) Q"
  unfolding getMethodID_def wp_obind
  by (rule wp_GetID [OF assms(1-3)]) (use assms(1,4) in \<open>simp add: wp_simps calm_def no_pending\<close>)

lemma wp_getFieldID:
  assumes "calm t s" and "jv_refs (qj_vm s) a = Some (k, c)" and "usable t a (qj_vm s)"
    and "Q s (qa_field qa c name signature static)"
  shows "wp (getFieldID qa t (Some t) (Some a) name signature static s) Q"
  unfolding getFieldID_def wp_obind
  by (rule wp_GetID [OF assms(1-3)]) (use assms(1,4) in \<open>simp add: wp_simps calm_def no_pending\<close>)
subsection \<open>Private objects\<close>

text \<open>The references a private object owns.\<close>

definition own :: "qprivate \<Rightarrow> (nat \<times> ref_kind) set" where
  "own p = tag GlobalRef (m_jobject p) \<union> tag GlobalRef (if m_own_jclass p then m_jclass p else None)"

lemma slot_upd:
  "slot (P(d \<mapsto> (p, n))) =
     (slot P)(2 * d \<mapsto> ScopedJavaGlobalRef (m_jobject p),
              2 * d + 1 \<mapsto> ScopedJavaGlobalRef (if m_own_jclass p then m_jclass p else None))"
proof
  fix x
  consider "x = 2 * d" | "x = 2 * d + 1" | "x div 2 \<noteq> d" "x \<noteq> 2 * d" "x \<noteq> 2 * d + 1" by fastforce
  then show "slot (P(d \<mapsto> (p, n))) x = ((slot P)(2 * d \<mapsto> ScopedJavaGlobalRef (m_jobject p),
      2 * d + 1 \<mapsto> ScopedJavaGlobalRef (if m_own_jclass p then m_jclass p else None))) x"
    by cases (simp_all add: slot_def)
qed

lemma slot_del: "slot (P(d := None)) = (slot P)(2 * d := None, 2 * d + 1 := None)"
proof
  fix x
  consider "x = 2 * d" | "x = 2 * d + 1" | "x div 2 \<noteq> d" "x \<noteq> 2 * d" "x \<noteq> 2 * d + 1" by fastforce
  then show "slot (P(d := None)) x = ((slot P)(2 * d := None, 2 * d + 1 := None)) x"
    by cases (simp_all add: slot_def)
qed

lemma owned_ok_fill:
  assumes "owned_ok refs V R" and "held V x = None \<or> held V x = Some None" and "tag GlobalRef p \<subseteq> R"
  shows "owned_ok refs (V(x \<mapsto> ScopedJavaGlobalRef p)) (R - tag GlobalRef p)"
proof (cases p)
  case None
  then show ?thesis using owned_ok_drop(2) [OF assms(1,2)] by simp
next
  case (Some h)
  then show ?thesis using owned_ok_give [OF assms(1,2), of h GlobalRef "ScopedJavaGlobalRef p"] assms(3) by simp
qed

lemma owned_ok_empty:
  assumes "owned_ok refs V R" and "V x = Some (ScopedJavaGlobalRef p)"
  shows "owned_ok refs (V(x := None)) (R \<union> tag GlobalRef p)" and "tag GlobalRef p \<inter> R = {}"
proof -
  have x: "held V x = Some p" using assms(2) by (simp add: held_def)
  show "tag GlobalRef p \<inter> R = {}"
    using owned_okD(3) [OF assms(1)] x by (cases p) (auto simp: unowned_def)
  show "owned_ok refs (V(x := None)) (R \<union> tag GlobalRef p)"
  proof (cases p)
    case None
    then show ?thesis using owned_ok_drop(1) [OF assms(1)] x by simp
  next
    case (Some h)
    then have h: "holder_obj (ScopedJavaGlobalRef p) = Some h" "holder_obj (ScopedJavaGlobalRef None) = None" by simp_all
    obtain k obj where "fits (ScopedJavaGlobalRef p) k"
      "owned_ok refs (V(x \<mapsto> ScopedJavaGlobalRef None)) (insert (h, k) R)"
      by (rule owned_ok_take [OF assms h]) blast
    then have "owned_ok refs (V(x \<mapsto> ScopedJavaGlobalRef None)) (insert (h, GlobalRef) R)" by simp
    from owned_ok_drop(1) [OF this, of x] Some show ?thesis by (simp add: held_def)
  qed
qed

lemma unowned_fill:
  assumes "held V x = None \<or> held V x = Some None" and "unowned (held (V(x \<mapsto> ScopedJavaGlobalRef p))) h"
  shows "unowned (held V) h \<and> (h, k) \<notin> tag GlobalRef p"
proof (cases p)
  case None
  with unowned_upd(2) [OF assms(1), of "ScopedJavaGlobalRef p" h] assms(2) show ?thesis by simp
next
  case (Some a)
  with unowned_upd(3) [OF assms(1), of "ScopedJavaGlobalRef p" a h] assms(2) show ?thesis by auto
qed

lemma unowned_empty:
  assumes "V x = Some (ScopedJavaGlobalRef p)" and "unowned (held (V(x := None))) h"
  shows "unowned (held V) h \<or> p = Some h"
proof -
  have "held V x = Some p" using assms(1) by (simp add: held_def)
  with assms(2) show ?thesis unfolding unowned_def held_upd by (metis fun_upd_apply option.inject)
qed

lemma new_private_ok:
  assumes "q_ok s R T" and "own p \<subseteq> T" and "m_jobject p = m_jclass p \<Longrightarrow> m_jobject p = None \<or> \<not> m_own_jclass p"
    and "\<And>h. m_jclass p = Some h \<Longrightarrow> \<not> m_own_jclass p \<Longrightarrow> (h, GlobalRef) \<in> R"
  shows "q_ok (fst (new_private p s)) R (T - own p)" and "later s (fst (new_private p s))"
proof -
  note D = q_okD [OF assms(1)]
  let ?d = "qj_next s" and ?s = "fst (new_private p s)"
  let ?c = "if m_own_jclass p then m_jclass p else None"
  let ?V = "slot (qj_priv s)" and ?V1 = "(slot (qj_priv s))(2 * qj_next s \<mapsto> ScopedJavaGlobalRef (m_jobject p))"
  let ?V2 = "?V1(2 * qj_next s + 1 \<mapsto> ScopedJavaGlobalRef ?c)"
  have v: "slot (qj_priv ?s) = ?V2" by (simp add: new_private_def slot_upd)
  have n: "qj_priv s ?d = None" using D(5) by simp
  then have e: "held ?V (2 * ?d) = None \<or> held ?V (2 * ?d) = Some None"
    "held ?V1 (2 * ?d + 1) = None \<or> held ?V1 (2 * ?d + 1) = Some None" by (simp_all add: held_def slot_def)
  have o: "owned_ok (jv_refs (qj_vm s)) ?V (R \<union> T)" using D(1) by (simp add: jv_ok_def)
  have a: "tag GlobalRef (m_jobject p) \<subseteq> R \<union> T" "tag GlobalRef ?c \<subseteq> R \<union> T - tag GlobalRef (m_jobject p)"
    using assms(2,3) unfolding own_def by (cases "m_jobject p"; cases "m_jclass p"; auto)+
  from owned_ok_fill [OF owned_ok_fill [OF o e(1) a(1)] e(2) a(2)]
  have "owned_ok (jv_refs (qj_vm s)) ?V2 (R \<union> T - tag GlobalRef (m_jobject p) - tag GlobalRef ?c)" .
  moreover have "R \<union> T - tag GlobalRef (m_jobject p) - tag GlobalRef ?c = R \<union> (T - own p)"
    using D(2) assms(2) unfolding own_def by blast
  ultimately have "jv_ok (qj_vm ?s) (slot (qj_priv ?s)) (R \<union> (T - own p))"
    using D(1) v by (simp add: jv_ok_def new_private_def)
  then show "q_ok ?s R (T - own p)"
  proof (rule q_okI)
    show "R \<inter> (T - own p) = {}" using D(2) by auto
    show "jv_collected (qj_vm ?s) = {}" using D(3) by (simp add: new_private_def)
    show "(h, k) \<in> R \<union> (T - own p)"
      if "jv_refs (qj_vm ?s) h = Some (k, obj)" "unowned (held (slot (qj_priv ?s))) h" for h k obj
    proof -
      have "unowned (held ?V2) h" using that(2) v by simp
      from unowned_fill [OF e(2) this, of k] unowned_fill [OF e(1), of "m_jobject p" h k]
      have "unowned (held ?V) h" "(h, k) \<notin> own p" by (auto simp: own_def)
      with that(1) D(4) [of h k obj] show ?thesis by (simp add: new_private_def)
    qed
    show "qj_priv ?s d = None" if "qj_next ?s \<le> d" for d using that D(5) [of d] by (simp add: new_private_def)
    show "0 < n" if "qj_priv ?s d = Some (p', n)" for d p' n
      using that D(6) [of d p' n] by (auto simp: new_private_def split: if_splits)
    show "(h, GlobalRef) \<in> R" if "qj_priv ?s d = Some (p', n)" "m_jclass p' = Some h" "\<not> m_own_jclass p'" for d p' n h
      using that D(7) [of d p' n h] assms(4) [of h] by (auto simp: new_private_def split: if_splits)
    show "(h, GlobalRef) \<in> R" if "g_jClassLoader ?s = Some h" for h using that D(8) [of h] by (simp add: new_private_def)
  qed
  show "later s ?s" by (simp add: new_private_def later_def)
qed

lemma drop_private_ok:
  assumes "q_ok s R T" and "qj_priv s d = Some (p, n)"
  shows "q_ok (s\<lparr>qj_priv := (qj_priv s)(d := None)\<rparr>) R (T \<union> own p)" and "own p \<inter> (R \<union> T) = {}"
    and "m_own_jclass p \<Longrightarrow> m_jobject p = m_jclass p \<Longrightarrow> m_jobject p = None"
proof -
  note D = q_okD [OF assms(1)]
  let ?s = "s\<lparr>qj_priv := (qj_priv s)(d := None)\<rparr>"
  let ?c = "if m_own_jclass p then m_jclass p else None"
  let ?V = "slot (qj_priv s)" and ?V1 = "(slot (qj_priv s))(2 * d := None)"
  let ?V2 = "?V1(2 * d + 1 := None)"
  have v: "slot (qj_priv ?s) = ?V2" by (simp add: slot_del)
  have x: "?V (2 * d) = Some (ScopedJavaGlobalRef (m_jobject p))" "?V1 (2 * d + 1) = Some (ScopedJavaGlobalRef ?c)"
    using assms(2) by (simp_all add: slot_def)
  have o: "owned_ok (jv_refs (qj_vm s)) ?V (R \<union> T)" using D(1) by (simp add: jv_ok_def)
  note e1 = owned_ok_empty [where V = "slot (qj_priv s)" and x = "2 * d", OF o x(1)]
  note e2 = owned_ok_empty [where V = "(slot (qj_priv s))(2 * d := None)" and x = "2 * d + 1", OF e1(1) x(2)]
  show dj: "own p \<inter> (R \<union> T) = {}" using e1(2) e2(2) unfolding own_def by blast
  show "m_own_jclass p \<Longrightarrow> m_jobject p = m_jclass p \<Longrightarrow> m_jobject p = None"
    using e2(2) by (cases "m_jclass p") auto
  have "owned_ok (jv_refs (qj_vm s)) ?V2 (R \<union> (T \<union> own p))" using e2(1) unfolding own_def by (simp only: Un_assoc)
  then have "jv_ok (qj_vm s) ?V2 (R \<union> (T \<union> own p))" using D(1) by (simp only: jv_ok_def)
  then have "jv_ok (qj_vm ?s) (slot (qj_priv ?s)) (R \<union> (T \<union> own p))" unfolding v by simp
  then show "q_ok ?s R (T \<union> own p)"
  proof (rule q_okI)
    show "R \<inter> (T \<union> own p) = {}" using D(2) dj by auto
    show "jv_collected (qj_vm ?s) = {}" using D(3) by simp
    show "(h, k) \<in> R \<union> (T \<union> own p)"
      if r: "jv_refs (qj_vm ?s) h = Some (k, obj)" and u: "unowned (held (slot (qj_priv ?s))) h" for h k obj
    proof -
      have "unowned (held ?V2) h" using u v by simp
      from unowned_empty [where V = "(slot (qj_priv s))(2 * d := None)" and x = "2 * d + 1", OF x(2) this]
        unowned_empty [where V = "slot (qj_priv s)" and x = "2 * d", OF x(1), of h]
      consider "unowned (held ?V) h" | "m_jobject p = Some h" | "?c = Some h" by blast
      then show ?thesis
      proof cases
        case 1
        with r D(4) [of h k obj] show ?thesis by auto
      next
        case 2
        with q_ok_object_alive [OF assms, of h] r show ?thesis by (auto simp: own_def)
      next
        case 3
        with q_ok_class_alive [OF assms, of h] r show ?thesis by (auto simp: own_def split: if_splits)
      qed
    qed
    show "qj_priv ?s a = None" if "qj_next ?s \<le> a" for a using that D(5) [of a] by simp
    show "0 < m" if "qj_priv ?s a = Some (p', m)" for a p' m using that D(6) [of a p' m] by (auto split: if_splits)
    show "(h, GlobalRef) \<in> R" if "qj_priv ?s a = Some (p', m)" "m_jclass p' = Some h" "\<not> m_own_jclass p'" for a p' m h
      using that D(7) [of a p' m h] by (auto split: if_splits)
    show "(h, GlobalRef) \<in> R" if "g_jClassLoader ?s = Some h" for h using that D(8) [of h] by simp
  qed
qed
subsection \<open>Objects\<close>

text \<open>A method may be called on a private object that has a Java object: then it has a class too.\<close>

definition wf_private :: "qprivate \<Rightarrow> bool" where
  "wf_private p \<longleftrightarrow> (m_jobject p \<noteq> None \<longrightarrow> m_jclass p \<noteq> None)"

definition object_is :: "qjni \<Rightarrow> qprivate \<Rightarrow> nat option \<Rightarrow> bool" where
  "object_is s p ob \<longleftrightarrow>
     (case m_jobject p of None \<Rightarrow> ob = None | Some h \<Rightarrow> \<exists>obj. ob = Some obj \<and> jv_refs (qj_vm s) h = Some (GlobalRef, obj))"

text \<open>A new private object for the Java object \<open>ob\<close>, and nothing else.\<close>

definition made :: "thread_id \<Rightarrow> qjni \<Rightarrow> (nat \<times> ref_kind) set \<Rightarrow> (nat \<times> ref_kind) set \<Rightarrow> qjni \<Rightarrow> nat \<Rightarrow> nat option \<Rightarrow> bool" where
  "made t s R T s' d ob \<longleftrightarrow>
     q_ok s' R T \<and> later s s' \<and> (t \<in> jv_attached (qj_vm s) \<longrightarrow> t \<in> jv_attached (qj_vm s')) \<and> \<not> qj_pending s' \<and>
     qj_priv s d = None \<and> (\<exists>p. qj_priv s' = (qj_priv s)(d \<mapsto> (p, 1)) \<and> wf_private p \<and> object_is s' p ob)"

text \<open>Nothing but log entries in Java.\<close>

definition kept :: "thread_id \<Rightarrow> qjni \<Rightarrow> (nat \<times> ref_kind) set \<Rightarrow> (nat \<times> ref_kind) set \<Rightarrow> qjni \<Rightarrow> bool" where
  "kept t s R T s' \<longleftrightarrow> q_ok s' R T \<and> later s s' \<and> \<not> qj_pending s' \<and> qj_priv s' = qj_priv s"

lemma later_attached: "later s s' \<Longrightarrow> t \<in> jv_attached (qj_vm s) \<Longrightarrow> t \<in> jv_attached (qj_vm s')"
  by (auto simp: later_def)

lemma calmI: "t \<in> jv_attached (qj_vm s) \<Longrightarrow> \<not> qj_pending s \<Longrightarrow> calm t s"
  and calmD: "calm t s \<Longrightarrow> t \<in> jv_attached (qj_vm s)" "calm t s \<Longrightarrow> \<not> qj_pending s"
  by (simp_all add: calm_def)

lemma own_empty [simp]: "own empty_private = {}"
  by (simp add: own_def empty_private_def)

lemma later_new_private: "later s s1 \<Longrightarrow> later s (fst (new_private p s1))"
  by (auto simp: later_def new_private_def)

text \<open>Giving references to a new private object.\<close>

lemma made_new_private:
  assumes "q_ok s1 R T1" and "own p \<subseteq> T1" and "m_jobject p = m_jclass p \<Longrightarrow> m_jobject p = None \<or> \<not> m_own_jclass p"
    and "\<And>h. m_jclass p = Some h \<Longrightarrow> \<not> m_own_jclass p \<Longrightarrow> (h, GlobalRef) \<in> R" and "T1 - own p = T"
    and "later s s1" and "qj_priv s1 = qj_priv s" and "\<not> qj_pending s1" and "wf_private p" and "object_is s1 p ob"
  shows "made t s R T (fst (new_private p s1)) (snd (new_private p s1)) ob"
proof -
  let ?s = "fst (new_private p s1)"
  have "q_ok ?s R T" using new_private_ok(1) [OF assms(1-4)] assms(5) by simp
  moreover have "later s ?s" using assms(6) by (rule later_new_private)
  moreover have "qj_priv s (snd (new_private p s1)) = None" using q_okD(5) [OF assms(1)] assms(7) by (simp add: new_private_def)
  moreover have "qj_priv ?s = (qj_priv s)(snd (new_private p s1) \<mapsto> (p, 1))" "\<not> qj_pending ?s" "qj_vm ?s = qj_vm s1"
    using assms(7,8) by (simp_all add: new_private_def)
  moreover have "object_is ?s p ob" using assms(10) by (simp add: object_is_def new_private_def split: option.splits)
  ultimately show ?thesis
    using assms(9) later_attached [OF assms(6)] unfolding made_def by auto
qed

lemma wp_QJniObject_new:
  assumes "q_ok s R T" and "\<not> qj_pending s"
    and "\<And>s' d. made t s R T s' d None \<Longrightarrow> qj_calls s' = qj_calls s \<Longrightarrow> qj_pinned s' = qj_pinned s \<Longrightarrow> Q s' d"
  shows "wp (QJniObject_new s) Q"
proof -
  have "own empty_private = {}" by (simp add: own_def empty_private_def)
  then have "made t s R T (fst (new_private empty_private s)) (snd (new_private empty_private s)) None"
    by (intro made_new_private [OF assms(1)]) (use assms(2) in \<open>auto simp: empty_private_def wf_private_def object_is_def\<close>)
  from assms(3) [OF this] show ?thesis by (simp add: QJniObject_new_def new_private_def)
qed

lemma wp_QJniObjectPrivate_destroy:
  assumes "q_ok s R (T \<union> own p)" and "own p \<inter> T = {}" and "healthy qa" and "\<not> qj_pending s"
    and "m_own_jclass p \<Longrightarrow> m_jobject p = m_jclass p \<Longrightarrow> m_jobject p = None"
    and "\<And>s'. kept t s R T s' \<Longrightarrow> t \<in> jv_attached (qj_vm s') \<Longrightarrow> qj_calls s' = qj_calls s \<Longrightarrow> Q s' ()"
  shows "wp (QJniObjectPrivate_destroy qa t p s) Q"
  unfolding QJniObjectPrivate_destroy_def
proof (rule wp_with_env [OF assms(1,3,4)])
  fix s1
  assume s1: "q_ok s1 R (T \<union> own p)" "later s s1" "calm t s1" "qj_priv s1 = qj_priv s" "qj_calls s1 = qj_calls s"
  let ?c = "if m_own_jclass p then m_jclass p else None"
  have "wp (if m_jobject p \<noteq> None then env_DeleteRef t (Some t) GlobalRef (m_jobject p) s1 else Inr (s1, ()))
      (\<lambda>s2 u. q_ok s2 R (T \<union> tag GlobalRef ?c) \<and> later s s2 \<and> calm t s2 \<and> qj_priv s2 = qj_priv s \<and> qj_calls s2 = qj_calls s)"
  proof (cases "m_jobject p")
    case None
    with s1 show ?thesis by (simp add: own_def)
  next
    case (Some h)
    have "T \<union> own p - {(h, GlobalRef)} = T \<union> tag GlobalRef ?c"
      using Some assms(2,5) by (auto simp: own_def tag_def split: if_splits)
    then have "wp (env_DeleteRef t (Some t) GlobalRef (Some h) s1)
      (\<lambda>s2 u. q_ok s2 R (T \<union> tag GlobalRef ?c) \<and> later s s2 \<and> calm t s2 \<and> qj_priv s2 = qj_priv s \<and> qj_calls s2 = qj_calls s)"
      by (intro wp_DeleteRef [OF s1(1)])
         (use s1 Some in \<open>auto simp: calm_def own_def intro: later_trans\<close>)
    then show ?thesis using Some by simp
  qed
  then show "wp (obind (if m_jobject p \<noteq> None then env_DeleteRef t (Some t) GlobalRef (m_jobject p) s1 else Inr (s1, ()))
      (\<lambda>(s1, u). if m_jclass p \<noteq> None \<and> m_own_jclass p then env_DeleteRef t (Some t) GlobalRef (m_jclass p) s1 else Inr (s1, ())))
      (\<lambda>s2 r. Q (s2\<lparr>qj_pending := False\<rparr>) r)"
    unfolding wp_obind
  proof (rule wp_mono, clarsimp simp only: split_conv)
    fix s2
    assume s2: "q_ok s2 R (T \<union> tag GlobalRef ?c)" "later s s2" "calm t s2" "qj_priv s2 = qj_priv s" "qj_calls s2 = qj_calls s"
    have fin: "Q (s3\<lparr>qj_pending := False\<rparr>) ()"
      if "q_ok s3 R T" "later s s3" "t \<in> jv_attached (qj_vm s3)" "qj_priv s3 = qj_priv s" "qj_calls s3 = qj_calls s" for s3
      using that by (intro assms(6)) (simp_all add: kept_def)
    show "wp (if m_jclass p \<noteq> None \<and> m_own_jclass p then env_DeleteRef t (Some t) GlobalRef (m_jclass p) s2 else Inr (s2, ()))
      (\<lambda>s2 r. Q (s2\<lparr>qj_pending := False\<rparr>) r)"
    proof (cases ?c)
      case None
      with s2 fin show ?thesis by (auto simp: calm_def split: if_splits)
    next
      case (Some h)
      then have c: "m_own_jclass p" "m_jclass p = Some h" by (auto split: if_splits)
      then have e: "T \<union> tag GlobalRef ?c - {(h, GlobalRef)} = T" using assms(2) by (auto simp: own_def)
      have "wp (env_DeleteRef t (Some t) GlobalRef (Some h) s2) (\<lambda>s2 r. Q (s2\<lparr>qj_pending := False\<rparr>) r)"
        by (rule wp_DeleteRef [OF s2(1)], insert s2 c, simp add: calm_def, simp, rule fin)
           (use e in \<open>auto simp: calm_def intro: later_trans\<close>)
      with c show ?thesis by simp
    qed
  qed
qed
text \<open>Copies and the last one.\<close>

lemma q_ok_priv_count:
  assumes "q_ok s R T" and "qj_priv s d = Some (p, n)" and "0 < m"
  shows "q_ok (s\<lparr>qj_priv := (qj_priv s)(d \<mapsto> (p, m))\<rparr>) R T"
proof -
  have "slot ((qj_priv s)(d \<mapsto> (p, m))) = slot (qj_priv s)"
    using assms(2) by (auto simp: slot_def fun_eq_iff)
  with assms q_okD(5,6,7) [OF assms(1)] show ?thesis unfolding q_ok_def by (auto split: if_splits)
qed

lemma wp_QJniObject_destroy:
  assumes "q_ok s R T" and "healthy qa" and "\<not> qj_pending s" and "qj_priv s d = Some (p, n)"
    and "\<And>s'. q_ok s' R T \<Longrightarrow> later s s' \<Longrightarrow> \<not> qj_pending s' \<Longrightarrow>
           qj_priv s' = (qj_priv s)(d := if n = 1 then None else Some (p, n - 1)) \<Longrightarrow> qj_calls s' = qj_calls s \<Longrightarrow> Q s' ()"
  shows "wp (QJniObject_destroy qa t d s) Q"
proof (cases "n = 1")
  case True
  let ?s = "s\<lparr>qj_priv := (qj_priv s)(d := None)\<rparr>"
  note P = drop_private_ok [OF assms(1,4)]
  have "wp (QJniObjectPrivate_destroy qa t p ?s) Q"
  proof (rule wp_QJniObjectPrivate_destroy [OF P(1) _ assms(2) _ P(3)])
    show "own p \<inter> T = {}" using P(2) by auto
    show "Q s' ()" if "kept t ?s R T s'" "t \<in> jv_attached (qj_vm s')" "qj_calls s' = qj_calls ?s" for s'
      using that True by (intro assms(5)) (auto simp: kept_def later_def)
  qed (use assms(3) in auto)
  with True assms(4) show ?thesis by (simp add: QJniObject_destroy_def)
next
  case False
  let ?s = "s\<lparr>qj_priv := (qj_priv s)(d \<mapsto> (p, n - 1))\<rparr>"
  have "q_ok ?s R T" using q_okD(6) [OF assms(1,4)] False by (intro q_ok_priv_count [OF assms(1,4)]) simp
  then have "Q ?s ()" using False assms(3) by (intro assms(5)) (auto simp: later_def)
  with False assms(4) show ?thesis by (simp add: QJniObject_destroy_def)
qed

lemma made_destroyed:
  assumes "made t s R T s1 d ob" and "q_ok s2 R' T'" and "healthy qa" and "\<not> qj_pending s2" and "later s1 s2"
    and "qj_priv s2 = qj_priv s1"
    and "\<And>s'. q_ok s' R' T' \<Longrightarrow> later s s' \<Longrightarrow> \<not> qj_pending s' \<Longrightarrow> qj_priv s' = qj_priv s \<Longrightarrow>
           qj_calls s' = qj_calls s2 \<Longrightarrow> later s2 s' \<Longrightarrow> Q s' ()"
  shows "wp (QJniObject_destroy qa t d s2) Q"
proof -
  obtain p where p: "qj_priv s1 = (qj_priv s)(d \<mapsto> (p, 1))" "qj_priv s d = None" "later s s1"
    using assms(1) by (auto simp: made_def)
  show ?thesis
  proof (rule wp_QJniObject_destroy [OF assms(2-4), where d = d and p = p and n = 1])
    show "qj_priv s2 d = Some (p, 1)" using p(1) assms(6) by simp
    show "Q s' ()" if "q_ok s' R' T'" "later s2 s'" "\<not> qj_pending s'"
      "qj_priv s' = (qj_priv s2)(d := if (1::nat) = 1 then None else Some (p, 1 - 1))" "qj_calls s' = qj_calls s2" for s'
      using that p assms(5,6) later_trans [OF later_trans [OF p(3) assms(5)] that(2)] by (intro assms(7)) auto
  qed
qed

text \<open>A local variable that holds a new object.\<close>

lemma wp_with_object:
  assumes "healthy qa"
    and "wp (mk s) (\<lambda>s1 d. \<exists>ob. made t s R T s1 d ob \<and>
           wp (body d s1) (\<lambda>s2 r. \<exists>R' T'. q_ok s2 R' T' \<and> \<not> qj_pending s2 \<and> later s1 s2 \<and> qj_priv s2 = qj_priv s1 \<and>
             (\<forall>s'. q_ok s' R' T' \<longrightarrow> later s s' \<longrightarrow> \<not> qj_pending s' \<longrightarrow> qj_priv s' = qj_priv s \<longrightarrow>
                qj_calls s' = qj_calls s2 \<longrightarrow> later s2 s' \<longrightarrow> Q s' r)))"
  shows "wp (with_object qa t mk body s) Q"
  unfolding with_object_def wp_obind
proof (rule wp_mono [OF assms(2)], simp only: split_conv, elim exE conjE)
  fix s1 d ob
  assume m: "made t s R T s1 d ob"
    and b: "wp (body d s1) (\<lambda>s2 r. \<exists>R' T'. q_ok s2 R' T' \<and> \<not> qj_pending s2 \<and> later s1 s2 \<and> qj_priv s2 = qj_priv s1 \<and>
             (\<forall>s'. q_ok s' R' T' \<longrightarrow> later s s' \<longrightarrow> \<not> qj_pending s' \<longrightarrow> qj_priv s' = qj_priv s \<longrightarrow>
                qj_calls s' = qj_calls s2 \<longrightarrow> later s2 s' \<longrightarrow> Q s' r))"
  show "wp (obind (body d s1) (\<lambda>(s2, r). obind (QJniObject_destroy qa t d s2) (\<lambda>(s3, u). Inr (s3, r)))) Q"
    unfolding wp_obind
  proof (rule wp_mono [OF b], simp only: split_conv, elim exE conjE)
    fix s2 r R' T'
    assume s2: "q_ok s2 R' T'" "\<not> qj_pending s2" "later s1 s2" "qj_priv s2 = qj_priv s1"
      and q: "\<forall>s'. q_ok s' R' T' \<longrightarrow> later s s' \<longrightarrow> \<not> qj_pending s' \<longrightarrow> qj_priv s' = qj_priv s \<longrightarrow>
                qj_calls s' = qj_calls s2 \<longrightarrow> later s2 s' \<longrightarrow> Q s' r"
    show "wp (obind (QJniObject_destroy qa t d s2) (\<lambda>(s3, u). Inr (s3, r))) Q"
      unfolding wp_obind
      by (rule made_destroyed [OF m s2(1) assms(1) s2(2,3,4)]) (simp add: q)
  qed
qed

lemma wp_adopt:
  assumes "q_ok s R T" and "healthy qa" and "calm t s" and "jv_refs (qj_vm s) a = Some (k, obj)" and "usable t a (qj_vm s)"
    and "\<And>s' p. q_ok s' R (T \<union> own p) \<Longrightarrow> own p \<inter> T = {} \<Longrightarrow> later s s' \<Longrightarrow> m_own_jclass p \<Longrightarrow> wf_private p \<Longrightarrow>
           m_jobject p \<noteq> m_jclass p \<Longrightarrow> object_is s' p (Some obj) \<Longrightarrow> qj_priv s' = qj_priv s \<Longrightarrow> calm t s' \<Longrightarrow>
           qj_calls s' = qj_calls s \<Longrightarrow> Q s' p"
  shows "wp (adopt qa t (Some t) (Some a) s) Q"
  unfolding adopt_def wp_obind split_conv
proof (rule wp_NewGlobalRef [OF assms(1-5)])
  fix s1 h1
  assume s1: "q_ok s1 R (insert (h1, GlobalRef) T)" "later s s1" "(h1, GlobalRef) \<notin> R \<union> T"
    "jv_refs (qj_vm s1) h1 = Some (GlobalRef, obj)" "qj_priv s1 = qj_priv s" "calm t s1" "qj_calls s1 = qj_calls s"
  have R: "R \<union> T \<subseteq> R \<union> insert (h1, GlobalRef) T" "qj_priv s \<subseteq>\<^sub>m qj_priv s1" using s1(5) by auto
  have a1: "jv_refs (qj_vm s1) a = Some (k, obj)"
    by (rule q_ok_keeps [OF assms(1) s1(1) R s1(2) assms(4)])
  then have u1: "usable t a (qj_vm s1)" using assms(4,5) by (simp add: usable_def)
  show "wp (env_GetObjectClass qa t (Some t) (Some a) s1) (\<lambda>s r.
      wp (env_NewGlobalRef qa t (Some t) r s) (\<lambda>sa ra.
        wp (env_DeleteRef t (Some t) (LocalRef t) r sa) (\<lambda>s r'.
          wp (Inr (s, \<lparr>m_jobject = Some h1, m_jclass = ra, m_own_jclass = True, m_className = []\<rparr>)) Q)))"
  proof (rule wp_GetObjectClass [OF s1(1) assms(2) s1(6) a1 u1])
    fix s2 c
    assume s2: "q_ok s2 R (insert (c, LocalRef t) (insert (h1, GlobalRef) T))" "later s1 s2"
      "(c, LocalRef t) \<notin> R \<union> insert (h1, GlobalRef) T" "jv_refs (qj_vm s2) c = Some (LocalRef t, qa_class_of qa obj)"
      "qj_priv s2 = qj_priv s1" "calm t s2" "qj_calls s2 = qj_calls s1"
    show "wp (env_NewGlobalRef qa t (Some t) (Some c) s2) (\<lambda>sa ra.
        wp (env_DeleteRef t (Some t) (LocalRef t) (Some c) sa) (\<lambda>s r'.
          wp (Inr (s, \<lparr>m_jobject = Some h1, m_jclass = ra, m_own_jclass = True, m_className = []\<rparr>)) Q))"
    proof (rule wp_NewGlobalRef [OF s2(1) assms(2) s2(6) s2(4) usable_local [OF s2(4)]])
      fix s3 h2
      let ?p = "\<lparr>m_jobject = Some h1, m_jclass = Some h2, m_own_jclass = True, m_className = []\<rparr>"
      assume s3: "q_ok s3 R (insert (h2, GlobalRef) (insert (c, LocalRef t) (insert (h1, GlobalRef) T)))" "later s2 s3"
        "(h2, GlobalRef) \<notin> R \<union> insert (c, LocalRef t) (insert (h1, GlobalRef) T)" "qj_priv s3 = qj_priv s2" "calm t s3"
        "qj_calls s3 = qj_calls s2"
      have o: "own ?p = {(h1, GlobalRef), (h2, GlobalRef)}" by (auto simp: own_def)
      have e: "insert (h2, GlobalRef) (insert (c, LocalRef t) (insert (h1, GlobalRef) T)) - {(c, LocalRef t)} = T \<union> own ?p"
        using s2(3) by (auto simp: o)
      show "wp (env_DeleteRef t (Some t) (LocalRef t) (Some c) s3) (\<lambda>s r'. wp (Inr (s, ?p)) Q)"
      proof (rule wp_DeleteRef [OF s3(1)])
        fix s4
        assume s4: "q_ok s4 R (insert (h2, GlobalRef) (insert (c, LocalRef t) (insert (h1, GlobalRef) T)) - {(c, LocalRef t)})"
          "later s3 s4" "qj_priv s4 = qj_priv s3" "qj_pending s4 = qj_pending s3" "qj_calls s4 = qj_calls s3"
          "jv_attached (qj_vm s4) = jv_attached (qj_vm s3)"
        have l: "later s1 s4" by (rule later_trans [OF s2(2) later_trans [OF s3(2) s4(2)]])
        have q4: "q_ok s4 R (T \<union> own ?p)" using s4(1) e by simp
        have "jv_refs (qj_vm s4) h1 = Some (GlobalRef, obj)"
        proof (rule q_ok_keeps [OF s1(1) q4 _ _ l s1(4)])
          show "R \<union> insert (h1, GlobalRef) T \<subseteq> R \<union> (T \<union> own ?p)" by (auto simp: o)
        qed (use s4 s3 s2 in auto)
        then have "Q s4 ?p"
          using q4 s1 s2 s3 s4 later_trans [OF s1(2) l]
          by (intro assms(6)) (auto simp: o wf_private_def object_is_def calm_def)
        then show "wp (Inr (s4, ?p)) Q" by simp
      qed (use s3(5) in \<open>auto simp: calm_def\<close>)
    qed
  qed
qed
lemma made_clear: "made t s R T s' d ob \<Longrightarrow> made t s R T (s'\<lparr>qj_pending := False\<rparr>) d ob"
  by (auto simp: made_def object_is_def split: option.splits)

lemma made_calls: "made t s R T s' d ob \<Longrightarrow> q_ok s' R T \<and> later s s' \<and> \<not> qj_pending s'"
  by (auto simp: made_def)

text \<open>Making an object later, from a state with the same private objects.\<close>

lemma made_later:
  assumes "made t s1 R T s' d ob" and "later s s1" and "qj_priv s1 = qj_priv s" and "calm t s1"
  shows "made t s R T s' d ob"
  using assms later_trans [OF assms(2)] by (auto simp: made_def calm_def)

lemma wp_adopt_new:
  assumes "q_ok s R T" and "healthy qa" and "calm t s" and "jv_refs (qj_vm s) a = Some (k, obj)" and "usable t a (qj_vm s)"
    and "\<And>s' d. made t s R T s' d (Some obj) \<Longrightarrow> calm t s' \<Longrightarrow> qj_calls s' = qj_calls s \<Longrightarrow> Q s' d"
  shows "wp (obind (adopt qa t (Some t) (Some a) s) (\<lambda>(s2, p). Inr (new_private p s2))) Q"
  unfolding wp_obind split_conv
proof (rule wp_adopt [OF assms(1-5)])
  fix s1 p
  assume s1: "q_ok s1 R (T \<union> own p)" "own p \<inter> T = {}" "later s s1" "m_own_jclass p" "wf_private p"
    "m_jobject p \<noteq> m_jclass p" "object_is s1 p (Some obj)" "qj_priv s1 = qj_priv s" "calm t s1" "qj_calls s1 = qj_calls s"
  have "made t s R T (fst (new_private p s1)) (snd (new_private p s1)) (Some obj)"
    by (rule made_new_private [OF s1(1)]) (use s1 in \<open>auto simp: calm_def\<close>)
  then have "Q (fst (new_private p s1)) (snd (new_private p s1))"
    using s1 by (intro assms(6)) (auto simp: calm_def new_private_def)
  then show "wp (Inr (new_private p s1)) Q" by (simp add: wp_Inr_pair)
qed

lemma wp_QJniObject_of:
  assumes "q_ok s R T" and "healthy qa" and "\<not> qj_pending s"
    and "\<And>a. object = Some a \<Longrightarrow> jv_refs (qj_vm s) a = Some (k, the ob) \<and> usable t a (qj_vm s) \<and> ob \<noteq> None"
    and "object = None \<Longrightarrow> ob = None"
    and "\<And>s' d. made t s R T s' d ob \<Longrightarrow> qj_calls s' = qj_calls s \<Longrightarrow> Q s' d"
  shows "wp (QJniObject_of qa t object s) Q"
proof (cases object)
  case None
  with assms(5) have "ob = None" by simp
  then have "wp (QJniObject_new s) Q" by (intro wp_QJniObject_new [where t = t, OF assms(1,3)]) (simp add: assms(6))
  with None show ?thesis by (simp add: QJniObject_of_def)
next
  case (Some a)
  note a = assms(4) [OF Some]
  have "wp (with_env qa t (\<lambda>env s1. obind (adopt qa t env (Some a) s1) (\<lambda>(s2, p). Inr (new_private p s2))) s) Q"
  proof (rule wp_with_env [OF assms(1-3)])
    fix s1
    assume s1: "q_ok s1 R T" "later s s1" "calm t s1" "qj_priv s1 = qj_priv s" "qj_calls s1 = qj_calls s"
      "jv_refs (qj_vm s1) = jv_refs (qj_vm s)"
    have r: "jv_refs (qj_vm s1) a = Some (k, the ob)" "usable t a (qj_vm s1)" using a s1(6) usable_same [of "qj_vm s1" a "qj_vm s" t] by simp_all
    show "wp (obind (adopt qa t (Some t) (Some a) s1) (\<lambda>(s2, p). Inr (new_private p s2))) (\<lambda>s2 r. Q (s2\<lparr>qj_pending := False\<rparr>) r)"
    proof (rule wp_adopt_new [OF s1(1) assms(2) s1(3) r])
      fix s' d assume m: "made t s1 R T s' d (Some (the ob))" and c: "qj_calls s' = qj_calls s1"
      have "made t s R T (s'\<lparr>qj_pending := False\<rparr>) d ob"
        using made_later [OF made_clear [OF m] s1(2,4,3)] a by simp
      then show "Q (s'\<lparr>qj_pending := False\<rparr>) d" using c s1(5) by (intro assms(6)) auto
    qed
  qed
  with Some show ?thesis by (simp add: QJniObject_of_def)
qed

text \<open>An operation that makes an object from a local reference and deletes the reference.\<close>

lemma wp_of_local:
  assumes "q_ok s R (tag (LocalRef t) p \<union> T)" and "tag (LocalRef t) p \<inter> (R \<union> T) = {}" and "healthy qa" and "calm t s"
    and "p = None \<longleftrightarrow> ob = None" and "\<And>h. p = Some h \<Longrightarrow> jv_refs (qj_vm s) h = Some (LocalRef t, the ob)"
    and "\<And>s' d. made t s R T s' d ob \<Longrightarrow> qj_calls s' = qj_calls s \<Longrightarrow> Q s' d"
  shows "wp (obind (QJniObject_of qa t p s) (\<lambda>(s1, obj). obind (env_DeleteRef t (Some t) (LocalRef t) p s1) (\<lambda>(s2, u). Inr (s2, obj)))) Q"
  unfolding wp_obind split_conv
proof (rule wp_QJniObject_of [OF assms(1,3), where ob = ob and k = "LocalRef t"])
  show "\<not> qj_pending s" using assms(4) by (simp add: calm_def)
  show "jv_refs (qj_vm s) a = Some (LocalRef t, the ob) \<and> usable t a (qj_vm s) \<and> ob \<noteq> None" if "p = Some a" for a
    using assms(5) assms(6) [OF that] that by (simp add: usable_local)
  show "p = None \<Longrightarrow> ob = None" using assms(5) by simp
  fix s1 d
  assume m: "made t s R (tag (LocalRef t) p \<union> T) s1 d ob" and c: "qj_calls s1 = qj_calls s"
  then obtain pr where pr: "q_ok s1 R (tag (LocalRef t) p \<union> T)" "later s s1" "\<not> qj_pending s1" "qj_priv s d = None"
    "qj_priv s1 = (qj_priv s)(d \<mapsto> (pr, 1))" "wf_private pr" "object_is s1 pr ob" by (auto simp: made_def)
  have t1: "t \<in> jv_attached (qj_vm s1)" using later_attached [OF pr(2)] assms(4) by (simp add: calm_def)
  show "wp (env_DeleteRef t (Some t) (LocalRef t) p s1) (\<lambda>s r. wp (Inr (s, d)) Q)"
  proof (cases p)
    case None
    with m c show ?thesis by (simp add: assms(7))
  next
    case (Some h)
    then have q1: "q_ok s1 R (insert (h, LocalRef t) T)" and e: "insert (h, LocalRef t) T - {(h, LocalRef t)} = T"
      using pr(1) assms(2) by auto
    have "wp (env_DeleteRef t (Some t) (LocalRef t) (Some h) s1) (\<lambda>s r. wp (Inr (s, d)) Q)"
    proof (rule wp_DeleteRef [OF q1 t1])
      fix s2
      assume s2: "q_ok s2 R (insert (h, LocalRef t) T - {(h, LocalRef t)})" "later s1 s2" "qj_priv s2 = qj_priv s1"
        "qj_pending s2 = qj_pending s1" "qj_calls s2 = qj_calls s1" "jv_attached (qj_vm s2) = jv_attached (qj_vm s1)"
      have "object_is s2 pr ob"
      proof (cases "m_jobject pr")
        case None
        with pr(7) show ?thesis by (simp add: object_is_def)
      next
        case (Some a)
        obtain obj where r: "ob = Some obj" "jv_refs (qj_vm s1) a = Some (GlobalRef, obj)"
          using pr(7) Some by (auto simp: object_is_def)
        obtain obj' where "jv_refs (qj_vm s2) a = Some (GlobalRef, obj')"
          by (rule q_ok_object_alive [OF s2(1), where d = d and p = pr and n = 1 and h = a]) (use s2(3) pr(5) Some in auto)
        moreover have "a < jv_next (qj_vm s1)"
          using q_okD(1) [OF q1] jrefs_okD(2) [of "qj_vm s1" a] r(2) by (force simp: jv_ok_def)
        ultimately have "jv_refs (qj_vm s2) a = Some (GlobalRef, obj)" using s2(2) r(2) by (auto simp: later_def)
        with Some r(1) show ?thesis by (simp add: object_is_def)
      qed
      then have "made t s R T s2 d ob"
        using s2 e pr t1 later_trans [OF pr(2) s2(2)] by (auto simp: made_def)
      then show "wp (Inr (s2, d)) Q" using s2(5) c by (simp add: assms(7))
    qed simp
    with Some show ?thesis by simp
  qed
qed
text \<open>The same with a test for an exception, of which there is none.\<close>

lemma wp_getClean:
  assumes "q_ok s R (tag (LocalRef t) p \<union> T)" and "tag (LocalRef t) p \<inter> (R \<union> T) = {}" and "healthy qa"
    and "t \<in> jv_attached (qj_vm s)" and "qj_pending s \<Longrightarrow> p = None"
    and "p = None \<longleftrightarrow> ob = None" and "\<And>h. p = Some h \<Longrightarrow> jv_refs (qj_vm s) h = Some (LocalRef t, the ob)"
    and "\<And>s' d. made t (s\<lparr>qj_pending := False\<rparr>) R T s' d ob \<Longrightarrow> qj_calls s' = qj_calls s \<Longrightarrow> Q s' d"
    and "\<And>s' d b. Q s' d \<Longrightarrow> Q (s'\<lparr>qj_pending := b\<rparr>) d"
  shows "wp (getCleanJniObject qa t p s) Q"
proof (cases p)
  case None
  let ?s = "s\<lparr>qj_pending := False\<rparr>"
  have q: "q_ok ?s R T" "\<not> qj_pending ?s" using assms(1) None by simp_all
  have n: "QJniObject_new s = Inr (fst (new_private empty_private ?s)\<lparr>qj_pending := qj_pending s\<rparr>, snd (new_private empty_private ?s))"
    by (simp add: QJniObject_new_def new_private_def)
  have "wp (QJniObject_new ?s) Q"
    by (rule wp_QJniObject_new [where t = t, OF q]) (use assms(6,8) None in auto)
  then have "Q (fst (new_private empty_private ?s)) (snd (new_private empty_private ?s))"
    by (simp add: QJniObject_new_def wp_Inr_pair)
  from assms(9) [OF this, of "qj_pending s"] have "wp (QJniObject_new s) Q" unfolding n by simp
  with None show ?thesis by (simp add: getCleanJniObject_def)
next
  case (Some h)
  then have s: "calm t s" using assms(4,5) by (auto simp: calm_def)
  have n: "\<not> qj_pending s" using s by (simp add: calm_def)
  have "wp (with_env qa t (\<lambda>env s1.
        obind (checkAndClearExceptions t env s1) (\<lambda>(s2, cleared).
        if cleared
        then obind (env_DeleteRef t env (LocalRef t) (Some h) s2) (\<lambda>(s3, u). QJniObject_new s3)
        else
          obind (QJniObject_of qa t (Some h) s2) (\<lambda>(s3, res).
          obind (env_DeleteRef t env (LocalRef t) (Some h) s3) (\<lambda>(s4, u). Inr (s4, res))))) s) Q"
  proof (rule wp_with_env [OF assms(1,3) n])
    fix s1 assume "t \<in> jv_attached (qj_vm s) \<Longrightarrow> s1 = s"
    then have e: "s1 = s" using assms(4) by simp
    have "wp (obind (QJniObject_of qa t (Some h) s) (\<lambda>(s3, res).
          obind (env_DeleteRef t (Some t) (LocalRef t) (Some h) s3) (\<lambda>(s4, u). Inr (s4, res)))) (\<lambda>s2 r. Q (s2\<lparr>qj_pending := False\<rparr>) r)"
      using wp_of_local [OF assms(1,2,3) s assms(6,7), of "\<lambda>s2 r. Q (s2\<lparr>qj_pending := False\<rparr>) r"]
        assms(8,9) Some by (simp add: no_pending [OF n])
    then show "wp (obind (checkAndClearExceptions t (Some t) s1) (\<lambda>(s2, cleared).
        if cleared
        then obind (env_DeleteRef t (Some t) (LocalRef t) (Some h) s2) (\<lambda>(s3, u). QJniObject_new s3)
        else
          obind (QJniObject_of qa t (Some h) s2) (\<lambda>(s3, res).
          obind (env_DeleteRef t (Some t) (LocalRef t) (Some h) s3) (\<lambda>(s4, u). Inr (s4, res)))))
        (\<lambda>s2 r. Q (s2\<lparr>qj_pending := False\<rparr>) r)"
      unfolding e by (simp add: wp_obind wp_checkAndClear n no_pending [OF n])
  qed
  with Some show ?thesis by (simp add: getCleanJniObject_def)
qed

lemma wp_fromString:
  assumes "q_ok s R T" and "healthy qa" and "\<not> qj_pending s"
    and "\<And>s' d. made t s R T s' d (Some (qa_new_string qa (qj_calls s @ [Java_New_String str]))) \<Longrightarrow>
           qj_calls s' = qj_calls s @ [Java_New_String str] \<Longrightarrow> Q s' d"
  shows "wp (fromString qa t str s) Q"
  unfolding fromString_def
proof (rule wp_with_env [OF assms(1,2,3)])
  fix s1
  assume s1: "q_ok s1 R T" "later s s1" "calm t s1" "qj_priv s1 = qj_priv s" "qj_calls s1 = qj_calls s"
  let ?cs = "qj_calls s @ [Java_New_String str]" and ?s1 = "s1\<lparr>qj_calls := qj_calls s @ [Java_New_String str]\<rparr>"
  have q: "q_ok ?s1 R T" "t \<in> jv_attached (qj_vm ?s1)" using s1(1,3) by (simp_all add: calm_def)
  obtain s2 h where l: "q_local qa t (qa_new_string qa ?cs) ?s1 = (s2, Some h)"
    "q_ok s2 R (insert (h, LocalRef t) T)" "later ?s1 s2" "(h, LocalRef t) \<notin> R \<union> T"
    "jv_refs (qj_vm s2) h = Some (LocalRef t, qa_new_string qa ?cs)" "qj_priv s2 = qj_priv ?s1"
    "qj_pending s2 = qj_pending ?s1" "t \<in> jv_attached (qj_vm s2)" "qj_calls s2 = qj_calls ?s1"
    by (rule q_local_ok [OF q(1) assms(2) q(2)])
  have e: "env_NewStringUTF qa t (Some t) str s1 = Inr (s2, Some h)"
    using l(1) s1(3,5) by (simp add: env_NewStringUTF_def jni_ready_def calm_def Let_def)
  have c2: "calm t s2" using l(7,8) s1(3) by (simp add: calm_def)
  have ls: "later s s2" using later_trans [OF s1(2), of s2] l(3) by (simp add: later_def)
  have t2: "q_ok s2 R (tag (LocalRef t) (Some h) \<union> T)" "tag (LocalRef t) (Some h) \<inter> (R \<union> T) = {}"
    using l(2,4) by simp_all
  have "wp (obind (QJniObject_of qa t (Some h) s2) (\<lambda>(s2, obj).
      obind (env_DeleteRef t (Some t) (LocalRef t) (Some h) s2) (\<lambda>(s3, u). Inr (s3, obj))))
      (\<lambda>s2 r. Q (s2\<lparr>qj_pending := False\<rparr>) r)"
  proof (rule wp_of_local [OF t2 assms(2) c2, where ob = "Some (qa_new_string qa ?cs)"])
    fix s' d assume m: "made t s2 R T s' d (Some (qa_new_string qa ?cs))" and c: "qj_calls s' = qj_calls s2"
    have p: "qj_priv s2 = qj_priv s" using l(6) s1(4) by simp
    show "Q (s'\<lparr>qj_pending := False\<rparr>) d"
      using made_later [OF made_clear [OF m] ls p c2] c l(9) by (intro assms(4)) auto
  qed (use l(5) in auto)
  then show "wp (obind (env_NewStringUTF qa t (Some t) str s1) (\<lambda>(s1, res).
      obind (QJniObject_of qa t res s1) (\<lambda>(s2, obj).
      obind (env_DeleteRef t (Some t) (LocalRef t) res s2) (\<lambda>(s3, u). Inr (s3, obj)))))
      (\<lambda>s2 r. Q (s2\<lparr>qj_pending := False\<rparr>) r)"
    unfolding e by simp
qed
subsection \<open>Calls\<close>

text \<open>Every reference that was alive still refers to the same object.\<close>

definition keeps :: "qjni \<Rightarrow> qjni \<Rightarrow> bool" where
  "keeps s s' \<longleftrightarrow> (\<forall>h x. jv_refs (qj_vm s) h = Some x \<longrightarrow> jv_refs (qj_vm s') h = Some x)"

lemma keepsI:
  assumes "q_ok s R T" and "q_ok s' R' T'" and "R \<union> T \<subseteq> R' \<union> T'" and "qj_priv s \<subseteq>\<^sub>m qj_priv s'" and "later s s'"
  shows "keeps s s'"
  using q_ok_keeps [OF assms] by (auto simp: keeps_def)

lemma keeps_refs: "jv_refs (qj_vm s') = jv_refs (qj_vm s) \<Longrightarrow> keeps s s'"
  by (simp add: keeps_def)

primrec arg_ref :: "jarg \<Rightarrow> ptr" where
  "arg_ref (Arg_Prim T v) = None"
| "arg_ref (Arg_Ref p) = p"

definition args_ok :: "thread_id \<Rightarrow> qjni \<Rightarrow> jarg list \<Rightarrow> bool" where
  "args_ok t s args \<longleftrightarrow> (\<forall>a \<in> set args. \<forall>h. arg_ref a = Some h \<longrightarrow> usable t h (qj_vm s))"

primrec arg_val :: "qjni \<Rightarrow> jarg \<Rightarrow> jvalue" where
  "arg_val s (Arg_Prim T v) = Prim T v"
| "arg_val s (Arg_Ref p) = Obj (map_option (\<lambda>h. snd (the (jv_refs (qj_vm s) h))) p)"

lemma arg_value_ok: "args_ok t s [a] \<Longrightarrow> arg_value t s a = Inr (arg_val s a)"
  by (cases a) (auto simp: args_ok_def deref_opt_def deref_def split: option.splits)

lemma arg_values_ok: "args_ok t s args \<Longrightarrow> arg_values t s args = Inr (map (arg_val s) args)"
  by (induction args) (simp_all add: arg_value_ok args_ok_def)

lemma usable_keeps: "keeps s s' \<Longrightarrow> usable t h (qj_vm s) \<Longrightarrow> usable t h (qj_vm s')"
  by (cases "jv_refs (qj_vm s) h") (auto simp: keeps_def usable_def split: ref_kind.splits)

lemma args_keeps:
  assumes "keeps s s'" and "args_ok t s args"
  shows "args_ok t s' args" and "map (arg_val s') args = map (arg_val s) args"
proof -
  show "args_ok t s' args" using assms usable_keeps by (auto simp: args_ok_def)
  have "arg_val s' a = arg_val s a" if "a \<in> set args" for a
  proof (cases a)
    case (Arg_Ref p)
    have "jv_refs (qj_vm s') h = jv_refs (qj_vm s) h" if "p = Some h" for h
    proof -
      have "usable t h (qj_vm s)" using assms(2) \<open>a \<in> set args\<close> Arg_Ref that by (auto simp: args_ok_def)
      then obtain x where "jv_refs (qj_vm s) h = Some x" by (cases "jv_refs (qj_vm s) h") (auto simp: usable_def)
      with assms(1) show ?thesis by (cases x) (simp add: keeps_def)
    qed
    with Arg_Ref show ?thesis by (cases p) simp_all
  qed simp
  then show "map (arg_val s') args = map (arg_val s) args" by simp
qed

text \<open>The object \<open>d\<close> stands for the Java object \<open>obj\<close> of class \<open>cl\<close>.\<close>

definition valid_object :: "qjni \<Rightarrow> nat \<Rightarrow> nat \<Rightarrow> nat \<Rightarrow> bool" where
  "valid_object s d obj cl \<longleftrightarrow>
     (\<exists>p n h c. qj_priv s d = Some (p, n) \<and> m_jobject p = Some h \<and> m_jclass p = Some c \<and>
        jv_refs (qj_vm s) h = Some (GlobalRef, obj) \<and> jv_refs (qj_vm s) c = Some (GlobalRef, cl))"

lemma valid_object_keeps: "valid_object s d obj cl \<Longrightarrow> keeps s s' \<Longrightarrow> qj_priv s' d = qj_priv s d \<Longrightarrow> valid_object s' d obj cl"
  unfolding valid_object_def keeps_def by metis

lemma made_valid_object:
  assumes "made t s R T s' d (Some obj)"
  shows "\<exists>cl. valid_object s' d obj cl"
proof -
  obtain p h where p: "qj_priv s' d = Some (p, 1)" "m_jobject p = Some h" "jv_refs (qj_vm s') h = Some (GlobalRef, obj)"
    "wf_private p" "q_ok s' R T"
    using assms by (auto simp: made_def object_is_def split: option.splits)
  then obtain c where c: "m_jclass p = Some c" by (auto simp: wf_private_def)
  obtain cl where "jv_refs (qj_vm s') c = Some (GlobalRef, cl)" by (rule q_ok_class_alive [OF p(5,1) c])
  with p c show ?thesis unfolding valid_object_def by blast
qed

text \<open>The reference \<open>a\<close> may be used on thread \<open>t\<close>, and it refers to \<open>obj\<close>.\<close>

definition refers :: "thread_id \<Rightarrow> qjni \<Rightarrow> nat \<Rightarrow> nat \<Rightarrow> bool" where
  "refers t s a obj \<longleftrightarrow> usable t a (qj_vm s) \<and> (\<exists>k. jv_refs (qj_vm s) a = Some (k, obj))"

lemma refers_global: "jv_refs (qj_vm s) a = Some (GlobalRef, obj) \<Longrightarrow> refers t s a obj"
  by (simp add: refers_def usable_global)

lemma refers_keeps: "refers t s a obj \<Longrightarrow> keeps s s' \<Longrightarrow> refers t s' a obj"
  using usable_keeps [of s s' t a] by (auto simp: refers_def keeps_def)

lemma wp_env_Call:
  assumes "calm t s" and "refers t s a obj" and "args_ok t s args" and "fits_type (qa_method_type qa mid)"
    and "cs = qj_calls s @ [Java_Call mid obj (map (arg_val s) args)]"
    and "Q (s\<lparr>qj_calls := cs, qj_pending := qa_answer qa cs = None\<rparr>) (qa_answer qa cs)"
  shows "wp (env_Call qa t (Some t) fits_type (Some a) mid args s) Q"
  using assms by (auto simp: env_Call_def jni_ready_def calm_def refers_def deref_def arg_values_ok Let_def wp_simps)

lemma wp_getCachedMethodID:
  assumes "calm t s" and "valid_object s d obj cl" and "Q s (qa_method qa cl name signature static)"
  shows "wp (getCachedMethodID qa t (Some t) d name signature static s) Q"
proof -
  obtain p n c where p: "qj_priv s d = Some (p, n)" "m_jclass p = Some c" "jv_refs (qj_vm s) c = Some (GlobalRef, cl)"
    using assms(2) by (auto simp: valid_object_def)
  have "wp (getMethodID qa t (Some t) (Some c) name signature static s) Q"
    by (rule wp_getMethodID [where k = GlobalRef and c = cl]) (use assms p usable_global in auto)
  with p show ?thesis by (simp add: getCachedMethodID_def private_at_def getCachedMethodID_class_def)
qed

lemma wp_getCachedFieldID:
  assumes "calm t s" and "valid_object s d obj cl" and "Q s (qa_field qa cl name signature static)"
  shows "wp (getCachedFieldID qa t (Some t) d name signature static s) Q"
proof -
  obtain p n c where p: "qj_priv s d = Some (p, n)" "m_jclass p = Some c" "jv_refs (qj_vm s) c = Some (GlobalRef, cl)"
    using assms(2) by (auto simp: valid_object_def)
  have "wp (getFieldID qa t (Some t) (Some c) name signature static s) Q"
    by (rule wp_getFieldID [where k = GlobalRef and c = cl]) (use assms p usable_global in auto)
  with p show ?thesis by (simp add: getCachedFieldID_def private_at_def getCachedFieldID_class_def)
qed

lemma valid_object_ptr:
  assumes "valid_object s d obj cl"
  obtains h where "QJniObject_object s d = Inr (Some h)" and "jv_refs (qj_vm s) h = Some (GlobalRef, obj)"
    and "\<And>p n. qj_priv s d = Some (p, n) \<Longrightarrow> m_jobject p = Some h"
  using assms by (auto simp: valid_object_def QJniObject_object_def private_at_def)

text \<open>A call that returns an object, made by an operation on a method it has found.\<close>

definition call_result :: "qt_java \<Rightarrow> java_call list \<Rightarrow> nat option \<Rightarrow> nat \<Rightarrow> jvalue list \<Rightarrow> java_call list \<times> jvalue option" where
  "call_result qa cs r obj vs =
     (case r of
        None \<Rightarrow> (cs, None)
      | Some mid \<Rightarrow> let cs' = cs @ [Java_Call mid obj vs] in (cs', qa_answer qa cs'))"

lemma wp_CallObject:
  assumes "q_ok s R T" and "healthy qa" and "calm t s" and "refers t s a obj" and "args_ok t s args"
    and "reference_type (qa_method_type qa mid)"
    and "(cs, r) = call_result qa (qj_calls s) (Some mid) obj (map (arg_val s) args)"
    and "\<And>s' p. q_ok s' R (tag (LocalRef t) p \<union> T) \<Longrightarrow> later s s' \<Longrightarrow> tag (LocalRef t) p \<inter> (R \<union> T) = {} \<Longrightarrow>
           (p = None \<longleftrightarrow> object_of r = None) \<Longrightarrow>
           (\<And>h. p = Some h \<Longrightarrow> jv_refs (qj_vm s') h = Some (LocalRef t, the (object_of r))) \<Longrightarrow>
           qj_priv s' = qj_priv s \<Longrightarrow> (qj_pending s' \<Longrightarrow> p = None) \<Longrightarrow> t \<in> jv_attached (qj_vm s') \<Longrightarrow>
           qj_calls s' = cs \<Longrightarrow> Q s' p"
  shows "wp (env_CallObject qa t (Some t) (Some a) mid args s) Q"
  unfolding env_CallObject_def wp_obind split_conv
proof (rule wp_env_Call [where fits_type = reference_type, OF assms(3,4,5,6) refl])
  let ?cs = "qj_calls s @ [Java_Call mid obj (map (arg_val s) args)]"
  let ?s = "s\<lparr>qj_calls := ?cs, qj_pending := qa_answer qa ?cs = None\<rparr>"
  have cr: "cs = ?cs" "r = qa_answer qa ?cs" using assms(7) by (simp_all add: call_result_def Let_def)
  have t: "q_ok ?s R T" "t \<in> jv_attached (qj_vm ?s)" using assms(1,3) by (simp_all add: calm_def)
  show "wp (Inr (q_local_opt qa t (object_of (qa_answer qa ?cs)) ?s)) Q"
  proof (rule wp_q_local_opt [OF t(1) assms(2) t(2)])
    fix s' p
    assume s': "q_ok s' R (tag (LocalRef t) p \<union> T)" "later ?s s'" "tag (LocalRef t) p \<inter> (R \<union> T) = {}"
      "(p = None) = (object_of (qa_answer qa ?cs) = None)"
      "\<And>h. p = Some h \<Longrightarrow> jv_refs (qj_vm s') h = Some (LocalRef t, the (object_of (qa_answer qa ?cs)))"
      "qj_priv s' = qj_priv ?s" "qj_pending s' = qj_pending ?s" "t \<in> jv_attached (qj_vm s')" "qj_calls s' = qj_calls ?s"
    show "Q s' p"
      by (rule assms(8)) (use s' cr in \<open>auto simp: later_def object_of_def\<close>)
  qed
qed

lemma made_pending: "made t (s\<lparr>qj_pending := b\<rparr>) R T s' d ob = made t s R T s' d ob"
  by (simp add: made_def later_def)

text \<open>\<open>getCleanJniObject\<close> on the result of a call.\<close>

lemma wp_clean_call:
  assumes "q_ok s R T" and "healthy qa" and "calm t s" and "refers t s a obj" and "args_ok t s args"
    and "reference_type (qa_method_type qa mid)"
    and "(cs, r) = call_result qa (qj_calls s) (Some mid) obj (map (arg_val s) args)"
    and "\<And>s' d. made t s R T s' d (object_of r) \<Longrightarrow> qj_calls s' = cs \<Longrightarrow> Q s' d"
    and "\<And>s' d b. Q s' d \<Longrightarrow> Q (s'\<lparr>qj_pending := b\<rparr>) d"
  shows "wp (obind (env_CallObject qa t (Some t) (Some a) mid args s) (\<lambda>(s2, res). getCleanJniObject qa t res s2)) Q"
  unfolding wp_obind split_conv
proof (rule wp_CallObject [OF assms(1-7)])
  fix s2 p
  assume s2: "q_ok s2 R (tag (LocalRef t) p \<union> T)" "later s s2" "tag (LocalRef t) p \<inter> (R \<union> T) = {}"
    "(p = None) = (object_of r = None)" "\<And>h. p = Some h \<Longrightarrow> jv_refs (qj_vm s2) h = Some (LocalRef t, the (object_of r))"
    "qj_priv s2 = qj_priv s" "qj_pending s2 \<Longrightarrow> p = None" "t \<in> jv_attached (qj_vm s2)" "qj_calls s2 = cs"
  show "wp (getCleanJniObject qa t p s2) Q"
  proof (rule wp_getClean [OF s2(1,3) assms(2) s2(8,7,4,5)])
    fix s' d assume m: "made t (s2\<lparr>qj_pending := False\<rparr>) R T s' d (object_of r)" and c: "qj_calls s' = qj_calls s2"
    have "later s (s2\<lparr>qj_pending := False\<rparr>)" "qj_priv (s2\<lparr>qj_pending := False\<rparr>) = qj_priv s" "calm t (s2\<lparr>qj_pending := False\<rparr>)"
      using s2 by simp_all
    from made_later [OF m this] c s2(9) show "Q s' d" by (intro assms(8)) auto
  qed (assumption | rule assms(9))+
qed

lemma wp_callObjectMethod:
  assumes "q_ok s R T" and "healthy qa" and "\<not> qj_pending s" and "valid_object s d obj cl" and "args_ok t s args"
    and "\<And>mid. qa_method qa cl name signature False = Some mid \<Longrightarrow> reference_type (qa_method_type qa mid)"
    and "(cs, r) = call_result qa (qj_calls s) (qa_method qa cl name signature False) obj (map (arg_val s) args)"
    and "\<And>s' e. made t s R T s' e (object_of r) \<Longrightarrow> qj_calls s' = cs \<Longrightarrow> Q s' e"
  shows "wp (callObjectMethod qa t d name signature args s) Q"
  unfolding callObjectMethod_def
proof (rule wp_with_env [OF assms(1,2,3)])
  fix s1
  assume s1: "q_ok s1 R T" "later s s1" "calm t s1" "qj_priv s1 = qj_priv s" "qj_calls s1 = qj_calls s"
    "jv_refs (qj_vm s1) = jv_refs (qj_vm s)"
  let ?m = "qa_method qa cl name signature False" and ?Q = "\<lambda>s2 e. Q (s2\<lparr>qj_pending := False\<rparr>) e"
  have k: "keeps s s1" by (rule keeps_refs) (rule s1(6))
  have v: "valid_object s1 d obj cl" by (rule valid_object_keeps [OF assms(4) k]) (simp add: s1(4))
  note a = args_keeps [OF k assms(5)]
  obtain h where h: "QJniObject_object s1 d = Inr (Some h)" "jv_refs (qj_vm s1) h = Some (GlobalRef, obj)"
    by (rule valid_object_ptr [OF v])
  have fin: "?Q s' e" if "made t s1 R T s' e (object_of r)" "qj_calls s' = cs" for s' e
    using made_later [OF made_clear [OF that(1)] s1(2,4,3)] that(2) by (intro assms(8)) auto
  have "wp (case ?m of None \<Rightarrow> QJniObject_new s1
       | Some mid \<Rightarrow> obind (QJniObject_object s1 d) (\<lambda>obj.
           obind (env_CallObject qa t (Some t) obj mid args s1) (\<lambda>(s2, res). getCleanJniObject qa t res s2))) ?Q"
  proof (cases ?m)
    case None
    then have e: "cs = qj_calls s" "object_of r = None" using assms(7) by (simp_all add: call_result_def object_of_def)
    have "wp (QJniObject_new s1) ?Q"
    proof (rule wp_QJniObject_new [where t = t, OF s1(1) calmD(2) [OF s1(3)]])
      fix s' e' assume "made t s1 R T s' e' None" "qj_calls s' = qj_calls s1"
      then show "?Q s' e'" using e s1(5) by (intro fin) auto
    qed
    with None show ?thesis by simp
  next
    case (Some mid)
    have "wp (obind (env_CallObject qa t (Some t) (Some h) mid args s1) (\<lambda>(s2, res). getCleanJniObject qa t res s2)) ?Q"
    proof (rule wp_clean_call [OF s1(1) assms(2) s1(3) refers_global [OF h(2)] a(1) assms(6) [OF Some]])
      show "(cs, r) = call_result qa (qj_calls s1) (Some mid) obj (map (arg_val s1) args)"
        by (simp only: a(2) s1(5) assms(7) Some)
    qed (rule fin, use s1(5) in auto)
    with Some h(1) show ?thesis by simp
  qed
  then show "wp (obind (getCachedMethodID qa t (Some t) d name signature False s1) (\<lambda>(s1, r).
       case r of
         None \<Rightarrow> QJniObject_new s1
       | Some mid \<Rightarrow>
           obind (QJniObject_object s1 d) (\<lambda>obj.
           obind (env_CallObject qa t (Some t) obj mid args s1) (\<lambda>(s2, res). getCleanJniObject qa t res s2)))) ?Q"
    unfolding wp_obind split_conv by (intro wp_getCachedMethodID [OF s1(3) v]) simp
qed

end
