(* ===== verification/Qt_Jni_Props.thy ===== *)
theory Qt_Jni_Props
  imports Qt_Jni_Laws
begin

section \<open>Calls through QJniObject\<close>

text \<open>
  The operations that call methods and read fields, for a virtual machine that finds a method or field only
  under the type it was declared with. The operations that are given the name of a class leave the global
  reference behind that \<open>loadClass\<close> makes; all others leave nothing.
\<close>

subsection \<open>Types and descriptors\<close>

text \<open>The type that a descriptor of the JNI stands for, and the descriptor of the result of a method.\<close>

definition array_type :: "string \<Rightarrow> jni_type" where
  "array_type elem =
     (if elem = ''Z'' then jbooleanArray else if elem = ''B'' then jbyteArray else if elem = ''S'' then jshortArray
      else if elem = ''I'' then jintArray else if elem = ''J'' then jlongArray else if elem = ''F'' then jfloatArray
      else if elem = ''D'' then jdoubleArray else if elem = ''C'' then jcharArray
      else if elem = ''Ljava/lang/Object;'' then jobjectArray else other_object)"

definition class_type :: "string \<Rightarrow> jni_type" where
  "class_type name =
     (if name = ''java/lang/Object;'' then jobject else if name = ''java/lang/Class;'' then jclass
      else if name = ''java/lang/String;'' then jstring else if name = ''java/lang/Throwable;'' then jthrowable
      else other_object)"

definition descriptor_type :: "string \<Rightarrow> jni_type" where
  "descriptor_type d =
     (if d = ''Z'' then jboolean else if d = ''B'' then jbyte else if d = ''C'' then jchar else if d = ''S'' then jshort
      else if d = ''I'' then jint else if d = ''J'' then jlong else if d = ''F'' then jfloat else if d = ''D'' then jdouble
      else if d = ''V'' then jvoid
      else if d \<noteq> [] \<and> hd d = CHR ''['' then array_type (tl d)
      else if d \<noteq> [] \<and> hd d = CHR ''L'' then class_type (tl d)
      else other_type)"

definition return_descriptor :: "string \<Rightarrow> string" where
  "return_descriptor signature = drop 1 (dropWhile (\<lambda>c. c \<noteq> CHR '')'') signature)"

text \<open>What the JNI promises: a method or field is found only if it was declared with the signature.\<close>

definition typed :: "qt_java \<Rightarrow> bool" where
  "typed qa \<longleftrightarrow>
     (\<forall>c name signature static mid. qa_method qa c name signature static = Some mid \<longrightarrow>
        qa_method_type qa mid = descriptor_type (return_descriptor signature)) \<and>
     (\<forall>c name signature static fid. qa_field qa c name signature static = Some fid \<longrightarrow>
        qa_field_type qa fid = descriptor_type signature)"

lemma typedD:
  assumes "typed qa"
  shows "qa_method qa c name signature static = Some mid \<Longrightarrow> qa_method_type qa mid = descriptor_type (return_descriptor signature)"
    and "qa_field qa c name signature static = Some fid \<Longrightarrow> qa_field_type qa fid = descriptor_type signature"
  using assms unfolding typed_def by blast+

lemma return_descriptor_no_args [simp]: "return_descriptor (''()'' @ d) = d"
  by (simp add: return_descriptor_def)

text \<open>The types that the templates accept.\<close>

definition signature_exists :: "jni_type \<Rightarrow> bool" where
  "signature_exists T \<longleftrightarrow> T \<notin> {jvoid, other_object, other_type}"

lemma getTypeSignature_denotes:
  assumes "signature_exists T"
  obtains d where "getTypeSignature T = Inr d" and "descriptor_type d = T"
proof -
  have "\<exists>d. getTypeSignature T = Inr d \<and> descriptor_type d = T"
    by (cases T) (use assms in \<open>simp_all add: signature_exists_def descriptor_type_def array_type_def class_type_def\<close>)
  with that show thesis by blast
qed

lemma prim_signature: "isJniPrimitiveType T \<Longrightarrow> signature_exists T"
  by (auto simp: isJniPrimitiveType_def signature_exists_def)

lemma loader_type: "reference_type (descriptor_type (return_descriptor ''(Ljava/lang/String;)Ljava/lang/Class;''))"
  by (simp add: return_descriptor_def descriptor_type_def class_type_def reference_type_def)

subsection \<open>Numbers and nothing\<close>

lemma for_type:
  assumes "isJniPrimitiveType T"
  shows "callMethodForType T = env_CallPrim T" and "callStaticMethodForType T = env_CallPrim T"
    and "getFieldForType T = env_GetPrimField T" and "getStaticFieldForType T = env_GetPrimField T"
  by (cases T; use assms in \<open>simp add: callMethodForType_def callStaticMethodForType_def getFieldForType_def
    getStaticFieldForType_def isJniPrimitiveType_def fun_eq_iff\<close>)+

lemma wp_or_zero: "wp m (\<lambda>s r. env = Some t \<and> Q (s\<lparr>qj_pending := False\<rparr>) (if qj_pending s then 0 else r)) \<Longrightarrow> wp (or_zero t env m) Q"
  unfolding or_zero_def wp_obind split_conv wp_checkAndClear by (erule wp_mono) simp

lemma wp_then_clear: "wp m (\<lambda>s r. env = Some t \<and> Q (s\<lparr>qj_pending := False\<rparr>) ()) \<Longrightarrow> wp (then_clear t env m) Q"
  unfolding then_clear_def wp_obind split_conv wp_checkAndClear by (erule wp_mono) simp

text \<open>A call that returns a number: 0 if there was an exception.\<close>

lemma wp_prim_call:
  assumes "calm t s" and "refers t s a obj" and "args_ok t s args" and "qa_method_type qa mid = T"
    and "(cs, r) = call_result qa (qj_calls s) (Some mid) obj (map (arg_val s) args)"
    and "Q (s\<lparr>qj_calls := cs, qj_pending := False\<rparr>) (prim_of T r)"
  shows "wp (or_zero t (Some t) (env_CallPrim T qa t (Some t) (Some a) mid args s)) Q"
  unfolding env_CallPrim_def
proof (rule wp_or_zero, unfold wp_obind split_conv, rule wp_env_Call [OF assms(1-3) _ refl])
  show "qa_method_type qa mid = T" by (rule assms(4))
qed (use assms(5,6) in \<open>auto simp: call_result_def Let_def prim_of_def\<close>)

lemma wp_void_call:
  assumes "calm t s" and "refers t s a obj" and "args_ok t s args" and "qa_method_type qa mid = jvoid"
    and "(cs, r) = call_result qa (qj_calls s) (Some mid) obj (map (arg_val s) args)"
    and "Q (s\<lparr>qj_calls := cs, qj_pending := False\<rparr>) ()"
  shows "wp (then_clear t (Some t) (env_CallVoid qa t (Some t) (Some a) mid args s)) Q"
  unfolding env_CallVoid_def
proof (rule wp_then_clear, unfold wp_obind split_conv, rule wp_env_Call [OF assms(1-3) _ refl])
  show "qa_method_type qa mid = jvoid" by (rule assms(4))
qed (use assms(5,6) in \<open>auto simp: call_result_def Let_def\<close>)

lemma call_result_None: "call_result qa cs None obj vs = (cs, None)"
  by (simp add: call_result_def)

lemma wp_callMethod:
  assumes "q_ok s R T'" and "healthy qa" and "\<not> qj_pending s" and "valid_object s d obj cl" and "args_ok t s args"
    and "isJniPrimitiveType T" and "\<And>mid. qa_method qa cl name signature False = Some mid \<Longrightarrow> qa_method_type qa mid = T"
    and "(cs, r) = call_result qa (qj_calls s) (qa_method qa cl name signature False) obj (map (arg_val s) args)"
    and "\<And>s'. kept t s R T' s' \<Longrightarrow> qj_calls s' = cs \<Longrightarrow> jv_refs (qj_vm s') = jv_refs (qj_vm s) \<Longrightarrow> Q s' (prim_of T r)"
  shows "wp (callMethod T qa t d name signature args s) Q"
  unfolding callMethod_def assertJniPrimitiveType_def static_assert_def wp_check
proof (intro conjI assms(6), rule wp_with_env [OF assms(1,2,3)])
  fix s1
  assume s1: "q_ok s1 R T'" "later s s1" "calm t s1" "qj_priv s1 = qj_priv s" "qj_calls s1 = qj_calls s"
    "jv_refs (qj_vm s1) = jv_refs (qj_vm s)"
  let ?m = "qa_method qa cl name signature False"
  have k: "keeps s s1" by (rule keeps_refs) (rule s1(6))
  have v: "valid_object s1 d obj cl" by (rule valid_object_keeps [OF assms(4) k]) (simp add: s1(4))
  note a = args_keeps [OF k assms(5)]
  obtain h where h: "QJniObject_object s1 d = Inr (Some h)" "jv_refs (qj_vm s1) h = Some (GlobalRef, obj)"
    by (rule valid_object_ptr [OF v])
  have fin: "Q (s1\<lparr>qj_calls := cs, qj_pending := False\<rparr>) (prim_of T r)"
    by (rule assms(9)) (use s1 in \<open>auto simp: kept_def\<close>)
  show "wp (obind (getCachedMethodID qa t (Some t) d name signature False s1) (\<lambda>(s1, r).
       if_found 0 r (\<lambda>mid s1.
         obind (QJniObject_object s1 d) (\<lambda>obj. or_zero t (Some t) (callMethodForType T qa t (Some t) obj mid args s1))) s1))
      (\<lambda>s2 r. Q (s2\<lparr>qj_pending := False\<rparr>) r)"
    unfolding wp_obind split_conv
  proof (rule wp_getCachedMethodID [OF s1(3) v], cases ?m)
    case None
    have c: "s1\<lparr>qj_calls := qj_calls s, qj_pending := False\<rparr> = s1\<lparr>qj_pending := False\<rparr>" using s1(5) by (cases s1) simp
    show "wp (if_found 0 ?m (\<lambda>mid s1. obind (QJniObject_object s1 d) (\<lambda>obj.
            or_zero t (Some t) (callMethodForType T qa t (Some t) obj mid args s1))) s1) (\<lambda>s2 r. Q (s2\<lparr>qj_pending := False\<rparr>) r)"
      using fin None assms(8) c by (simp add: if_found_def call_result_None prim_of_def)
  next
    case (Some mid)
    have "wp (or_zero t (Some t) (env_CallPrim T qa t (Some t) (Some h) mid args s1)) (\<lambda>s2 r. Q (s2\<lparr>qj_pending := False\<rparr>) r)"
      by (rule wp_prim_call [where cs = cs and r = r, OF s1(3) refers_global [OF h(2)] a(1) assms(7) [OF Some]])
         (simp_all only: a(2) s1(5) assms(8) Some, use fin in simp)
    then show "wp (if_found 0 ?m (\<lambda>mid s1. obind (QJniObject_object s1 d) (\<lambda>obj.
            or_zero t (Some t) (callMethodForType T qa t (Some t) obj mid args s1))) s1) (\<lambda>s2 r. Q (s2\<lparr>qj_pending := False\<rparr>) r)"
      using Some h(1) by (simp add: if_found_def for_type [OF assms(6)])
  qed
qed

lemma wp_callMethod_void:
  assumes "q_ok s R T'" and "healthy qa" and "\<not> qj_pending s" and "valid_object s d obj cl" and "args_ok t s args"
    and "\<And>mid. qa_method qa cl name signature False = Some mid \<Longrightarrow> qa_method_type qa mid = jvoid"
    and "(cs, r) = call_result qa (qj_calls s) (qa_method qa cl name signature False) obj (map (arg_val s) args)"
    and "\<And>s'. kept t s R T' s' \<Longrightarrow> qj_calls s' = cs \<Longrightarrow> jv_refs (qj_vm s') = jv_refs (qj_vm s) \<Longrightarrow>
           t \<in> jv_attached (qj_vm s') \<Longrightarrow> Q s' ()"
  shows "wp (callMethod_void qa t d name signature args s) Q"
  unfolding callMethod_void_def
proof (rule wp_with_env [OF assms(1,2,3)])
  fix s1
  assume s1: "q_ok s1 R T'" "later s s1" "calm t s1" "qj_priv s1 = qj_priv s" "qj_calls s1 = qj_calls s"
    "jv_refs (qj_vm s1) = jv_refs (qj_vm s)"
  let ?m = "qa_method qa cl name signature False"
  have k: "keeps s s1" by (rule keeps_refs) (rule s1(6))
  have v: "valid_object s1 d obj cl" by (rule valid_object_keeps [OF assms(4) k]) (simp add: s1(4))
  note a = args_keeps [OF k assms(5)]
  obtain h where h: "QJniObject_object s1 d = Inr (Some h)" "jv_refs (qj_vm s1) h = Some (GlobalRef, obj)"
    by (rule valid_object_ptr [OF v])
  then have cv: "callVoidMethodV qa t (Some t) d mid args s1 = env_CallVoid qa t (Some t) (Some h) mid args s1" for mid
    by (cases "private_at s1 d") (simp_all add: callVoidMethodV_def QJniObject_object_def)
  have fin: "Q (s1\<lparr>qj_calls := cs, qj_pending := False\<rparr>) ()"
    by (rule assms(8)) (use s1 in \<open>auto simp: kept_def calm_def\<close>)
  show "wp (obind (getCachedMethodID qa t (Some t) d name signature False s1) (\<lambda>(s1, r).
       if_found () r (\<lambda>mid s1. then_clear t (Some t) (callVoidMethodV qa t (Some t) d mid args s1)) s1))
      (\<lambda>s2 r. Q (s2\<lparr>qj_pending := False\<rparr>) r)"
    unfolding wp_obind split_conv
  proof (rule wp_getCachedMethodID [OF s1(3) v], cases ?m)
    case None
    have c: "s1\<lparr>qj_calls := qj_calls s, qj_pending := False\<rparr> = s1\<lparr>qj_pending := False\<rparr>" using s1(5) by (cases s1) simp
    show "wp (if_found () ?m (\<lambda>mid s1. then_clear t (Some t) (callVoidMethodV qa t (Some t) d mid args s1)) s1)
        (\<lambda>s2 r. Q (s2\<lparr>qj_pending := False\<rparr>) r)"
      using fin None assms(7) c by (simp add: if_found_def call_result_None)
  next
    case (Some mid)
    have "wp (then_clear t (Some t) (env_CallVoid qa t (Some t) (Some h) mid args s1)) (\<lambda>s2 r. Q (s2\<lparr>qj_pending := False\<rparr>) r)"
      by (rule wp_void_call [where cs = cs and r = r, OF s1(3) refers_global [OF h(2)] a(1) assms(6) [OF Some]])
         (simp_all only: a(2) s1(5) assms(7) Some, use fin in simp)
    then show "wp (if_found () ?m (\<lambda>mid s1. then_clear t (Some t) (callVoidMethodV qa t (Some t) d mid args s1)) s1)
        (\<lambda>s2 r. Q (s2\<lparr>qj_pending := False\<rparr>) r)"
      using Some by (simp add: if_found_def cv)
  qed
qed
subsection \<open>Classes by name\<close>

text \<open>A reference of the running operation is the same in a later state.\<close>

lemma later_same:
  assumes "q_ok s R T" and "q_ok s' R' T'" and "(h, l) \<in> R' \<union> T'" and "later s s'" and "jv_refs (qj_vm s) h = Some (k, obj)"
  shows "jv_refs (qj_vm s') h = Some (k, obj)"
proof -
  obtain o' where "jv_refs (qj_vm s') h = Some (l, o')" by (rule q_ok_alive [OF assms(2,3)])
  moreover have "h < jv_next (qj_vm s)"
    using q_okD(1) [OF assms(1)] jrefs_okD(2) [of "qj_vm s" h] assms(5) by (force simp: jv_ok_def)
  ultimately show ?thesis using assms(4,5) by (auto simp: later_def)
qed

text \<open>What \<open>loadClass\<close> returns: null, or a new global reference to a class.\<close>

definition loaded :: "qjni \<Rightarrow> (nat \<times> ref_kind) set \<Rightarrow> (nat \<times> ref_kind) set \<Rightarrow> qjni \<Rightarrow> ptr \<Rightarrow> bool" where
  "loaded s R T s' p \<longleftrightarrow>
     q_ok s' R (tag GlobalRef p \<union> T) \<and> later s s' \<and> \<not> qj_pending s' \<and> qj_priv s' = qj_priv s \<and> tag GlobalRef p \<inter> (R \<union> T) = {}"

lemma loaded_None: "q_ok s' R T \<Longrightarrow> later s s' \<Longrightarrow> \<not> qj_pending s' \<Longrightarrow> qj_priv s' = qj_priv s \<Longrightarrow> loaded s R T s' None"
  by (simp add: loaded_def)

lemma wp_with_object_loaded:
  assumes "healthy qa" and "wp (mk s) (\<lambda>s1 d. \<exists>ob. made t s R T s1 d ob \<and> wp (body d s1) (loaded s1 R T))"
    and "\<And>s' p. loaded s R T s' p \<Longrightarrow> Q s' p"
  shows "wp (with_object qa t mk body s) Q"
proof (rule wp_with_object [OF assms(1)], rule wp_mono [OF assms(2)], elim exE conjE)
  fix s1 d ob assume m: "made t s R T s1 d ob" and b: "wp (body d s1) (loaded s1 R T)"
  have "wp (body d s1) (\<lambda>s2 r. \<exists>R' T'. q_ok s2 R' T' \<and> \<not> qj_pending s2 \<and> later s1 s2 \<and> qj_priv s2 = qj_priv s1 \<and>
             (\<forall>s'. q_ok s' R' T' \<longrightarrow> later s s' \<longrightarrow> \<not> qj_pending s' \<longrightarrow> qj_priv s' = qj_priv s \<longrightarrow>
                qj_calls s' = qj_calls s2 \<longrightarrow> later s2 s' \<longrightarrow> Q s' r))"
    by (rule wp_mono [OF b], intro exI [where x = R] exI [where x = "tag GlobalRef r \<union> T" for r])
       (auto simp: loaded_def intro!: assms(3))
  with m show "\<exists>ob. made t s R T s1 d ob \<and>
      wp (body d s1) (\<lambda>s2 r. \<exists>R' T'. q_ok s2 R' T' \<and> \<not> qj_pending s2 \<and> later s1 s2 \<and> qj_priv s2 = qj_priv s1 \<and>
             (\<forall>s'. q_ok s' R' T' \<longrightarrow> later s s' \<longrightarrow> \<not> qj_pending s' \<longrightarrow> qj_priv s' = qj_priv s \<longrightarrow>
                qj_calls s' = qj_calls s2 \<longrightarrow> later s2 s' \<longrightarrow> Q s' r))" by blast
qed

lemma made_object_ptr:
  assumes "made t s R T s' d ob"
  obtains p where "QJniObject_object s' d = Inr p" and "QJniObject_isValid s' d = Inr (p \<noteq> None)"
    and "p = None \<longleftrightarrow> ob = None" and "\<And>h. p = Some h \<Longrightarrow> jv_refs (qj_vm s') h = Some (GlobalRef, the ob)"
proof -
  obtain pr where "qj_priv s' d = Some (pr, 1)" "object_is s' pr ob" using assms by (auto simp: made_def)
  then show thesis
    by (intro that [of "m_jobject pr"])
       (auto simp: QJniObject_object_def QJniObject_isValid_def private_at_def object_is_def split: option.splits)
qed

lemma made_isValid: "made t s R T s' d ob \<Longrightarrow> QJniObject_isValid s' d = Inr (ob \<noteq> None)"
  by (auto simp: made_def object_is_def QJniObject_isValid_def private_at_def split: option.splits)

lemma wp_class_ref:
  assumes "made t s R T s1 d ob" and "healthy qa" and "t \<in> jv_attached (qj_vm s1)"
  shows "wp (class_ref qa t (Some t) d s1) (loaded s1 R T)"
proof -
  obtain p where p: "QJniObject_object s1 d = Inr p" "\<And>h. p = Some h \<Longrightarrow> jv_refs (qj_vm s1) h = Some (GlobalRef, the ob)"
    by (rule made_object_ptr [OF assms(1)]) blast
  have s1: "q_ok s1 R T" "\<not> qj_pending s1" using assms(1) by (simp_all add: made_def)
  have "wp (if p \<noteq> None then env_NewGlobalRef qa t (Some t) p s1 else Inr (s1, None)) (loaded s1 R T)"
  proof (cases p)
    case None
    with s1 show ?thesis by (simp add: loaded_None)
  next
    case (Some h)
    have "wp (env_NewGlobalRef qa t (Some t) (Some h) s1) (loaded s1 R T)"
      by (rule wp_NewGlobalRef [OF s1(1) assms(2) calmI [OF assms(3) s1(2)] p(2) [OF Some] usable_global [OF p(2) [OF Some]]])
         (auto simp: loaded_def calm_def)
    with Some show ?thesis by simp
  qed
  with p(1) show ?thesis by (cases p) (simp_all add: class_ref_def wp_obind wp_checkAndClear s1(2) no_pending [OF s1(2)])
qed

lemma wp_load_named:
  assumes "q_ok s R T" and "healthy qa" and "typed qa" and "calm t s" and "valid_object s d obj cl"
  shows "wp (load_named qa t (Some t) d key s) (loaded s R T)"
  unfolding load_named_def
proof (rule wp_with_object_loaded [OF assms(2)])
  let ?sig = "''(Ljava/lang/String;)Ljava/lang/Class;''"
  show "wp (fromString qa t (ascii_bytes key) s) (\<lambda>s1 e. \<exists>ob. made t s R T s1 e ob \<and>
      wp (obind (QJniObject_object s1 e) (\<lambda>name.
          with_object qa t (callObjectMethod qa t d ''loadClass'' ?sig [Arg_Ref name]) (class_ref qa t (Some t)) s1)) (loaded s1 R T))"
  proof (rule wp_fromString [OF assms(1,2) calmD(2) [OF assms(4)]], intro exI conjI, assumption)
    fix s1 e
    assume m: "made t s R T s1 e (Some (qa_new_string qa (qj_calls s @ [Java_New_String (ascii_bytes key)])))"
    obtain p where p: "QJniObject_object s1 e = Inr p"
      "\<And>h. p = Some h \<Longrightarrow> jv_refs (qj_vm s1) h = Some (GlobalRef, the (Some (qa_new_string qa (qj_calls s @ [Java_New_String (ascii_bytes key)]))))"
      by (rule made_object_ptr [OF m]) blast
    have s1: "q_ok s1 R T" "\<not> qj_pending s1" "later s s1" "qj_priv s \<subseteq>\<^sub>m qj_priv s1" "qj_priv s e = None"
      "\<exists>pr. qj_priv s1 = (qj_priv s)(e \<mapsto> (pr, 1))"
      using m by (auto simp: made_def map_le_def)
    have "d \<noteq> e" using assms(5) s1(5) by (auto simp: valid_object_def)
    then have e: "qj_priv s1 d = qj_priv s d" using s1(6) by auto
    have v: "valid_object s1 d obj cl" by (rule valid_object_keeps [OF assms(5) keepsI [OF assms(1) s1(1) _ s1(4,3)] e]) simp
    have t1: "t \<in> jv_attached (qj_vm s1)" by (rule later_attached [OF s1(3) calmD(1) [OF assms(4)]])
    have a: "args_ok t s1 [Arg_Ref p]" using p(2) usable_global by (auto simp: args_ok_def)
    have "wp (with_object qa t (callObjectMethod qa t d ''loadClass'' ?sig [Arg_Ref p]) (class_ref qa t (Some t)) s1) (loaded s1 R T)"
    proof (rule wp_with_object_loaded [OF assms(2)])
      obtain cs r where cr: "(cs, r) = call_result qa (qj_calls s1) (qa_method qa cl ''loadClass'' ?sig False) obj
          (map (arg_val s1) [Arg_Ref p])" by (metis surj_pair)
      show "wp (callObjectMethod qa t d ''loadClass'' ?sig [Arg_Ref p] s1) (\<lambda>s2 c. \<exists>ob. made t s1 R T s2 c ob \<and>
          wp (class_ref qa t (Some t) c s2) (loaded s2 R T))"
      proof (rule wp_callObjectMethod [OF s1(1) assms(2) s1(2) v a _ cr])
        show "reference_type (qa_method_type qa mid)" if "qa_method qa cl ''loadClass'' ?sig False = Some mid" for mid
          using typedD(1) [OF assms(3) that] loader_type by simp
        fix s2 c assume m2: "made t s1 R T s2 c (object_of r)"
        have "t \<in> jv_attached (qj_vm s2)" using m2 t1 by (simp add: made_def)
        from wp_class_ref [OF m2 assms(2) this] m2
        show "\<exists>ob. made t s1 R T s2 c ob \<and> wp (class_ref qa t (Some t) c s2) (loaded s2 R T)" by blast
      qed
    qed
    with p(1) show "wp (obind (QJniObject_object s1 e) (\<lambda>name.
          with_object qa t (callObjectMethod qa t d ''loadClass'' ?sig [Arg_Ref name]) (class_ref qa t (Some t)) s1)) (loaded s1 R T)"
      by simp
  qed
qed

lemma wp_loadClass:
  assumes "q_ok s R T" and "healthy qa" and "typed qa" and "calm t s" and "\<And>s' p. loaded s R T s' p \<Longrightarrow> Q s' p"
  shows "wp (loadClass qa t className (Some t) binEncoded s) Q"
  unfolding loadClass_def Let_def
proof (rule wp_with_object_loaded [OF assms(2) _ assms(5)])
  let ?name = "if binEncoded then className else toBinaryEncClassName className"
  have n: "\<not> qj_pending s" using assms(4) by (simp add: calm_def)
  define lo where "lo = map_option (\<lambda>h. snd (the (jv_refs (qj_vm s) h))) (g_jClassLoader s)"
  show "wp (QJniObject_of qa t (g_jClassLoader s) s) (\<lambda>s1 d. \<exists>ob. made t s R T s1 d ob \<and>
      wp (obind (QJniObject_isValid s1 d) (\<lambda>valid.
           if \<not> valid then Inr (s1, None) else load_named qa t (Some t) d ?name s1)) (loaded s1 R T))"
  proof (rule wp_QJniObject_of [OF assms(1,2) n, where ob = lo and k = GlobalRef], goal_cases)
    case (1 a)
    then have "(a, GlobalRef) \<in> R \<union> T" using q_okD(8) [OF assms(1)] by simp
    from q_ok_alive [OF assms(1) this] obtain x where "jv_refs (qj_vm s) a = Some (GlobalRef, x)" by blast
    with 1 show ?case by (simp add: lo_def usable_global)
  next
    case 2
    then show ?case by (simp add: lo_def)
  next
    case (3 s1 d)
    then have s1: "q_ok s1 R T" "\<not> qj_pending s1" "later s s1" by (simp_all add: made_def)
    have c1: "calm t s1" by (rule calmI [OF later_attached [OF s1(3) calmD(1) [OF assms(4)]] s1(2)])
    have p: "QJniObject_isValid s1 d = Inr (lo \<noteq> None)" by (rule made_isValid [OF 3(1)])
    show ?case
    proof (intro exI conjI, rule 3(1), cases lo)
      case None
      with p s1 show "wp (obind (QJniObject_isValid s1 d) (\<lambda>valid.
           if \<not> valid then Inr (s1, None) else load_named qa t (Some t) d ?name s1)) (loaded s1 R T)"
        by (simp add: loaded_None)
    next
      case (Some obj)
      then obtain cl where v: "valid_object s1 d obj cl" using made_valid_object [of t s R T s1 d obj] 3(1) by auto
      from wp_load_named [OF s1(1) assms(2,3) c1 v] p Some
      show "wp (obind (QJniObject_isValid s1 d) (\<lambda>valid.
           if \<not> valid then Inr (s1, None) else load_named qa t (Some t) d ?name s1)) (loaded s1 R T)" by simp
    qed
  qed
qed
subsection \<open>The rest of an operation, on a receiver\<close>

text \<open>After the lookup: a call of a method that may not have been found.\<close>

definition call_done :: "qjni \<Rightarrow> java_call list \<Rightarrow> qjni" where
  "call_done s cs = s\<lparr>qj_calls := cs, qj_pending := False\<rparr>"

lemma call_done_simps [simp]:
  "q_ok (call_done s cs) R T = q_ok s R T" "later s0 (call_done s cs) = later s0 s" "qj_priv (call_done s cs) = qj_priv s"
  "\<not> qj_pending (call_done s cs)" "qj_vm (call_done s cs) = qj_vm s" "qj_calls (call_done s cs) = cs"
  "(call_done s cs)\<lparr>qj_pending := False\<rparr> = call_done s cs"
  by (simp_all add: call_done_def)

lemma call_done_same: "\<not> qj_pending s \<Longrightarrow> call_done s (qj_calls s) = s"
  by (cases s) (simp add: call_done_def)

lemma wp_found_prim:
  assumes "calm t s" and "refers t s a obj" and "args_ok t s args" and "isJniPrimitiveType T"
    and "\<And>mid. r = Some mid \<Longrightarrow> qa_method_type qa mid = T"
    and "(cs, v) = call_result qa (qj_calls s) r obj (map (arg_val s) args)" and "Q (call_done s cs) (prim_of T v)"
  shows "wp (if_found 0 r (\<lambda>mid s. or_zero t (Some t) (callStaticMethodForType T qa t (Some t) (Some a) mid args s)) s) Q"
proof (cases r)
  case None
  with assms(6) have "cs = qj_calls s" "v = None" by (simp_all add: call_result_def)
  with assms(7) call_done_same [OF calmD(2) [OF assms(1)]] None show ?thesis by (simp add: if_found_def prim_of_def)
next
  case (Some mid)
  have "wp (or_zero t (Some t) (env_CallPrim T qa t (Some t) (Some a) mid args s)) Q"
    by (rule wp_prim_call [where cs = cs and r = v, OF assms(1-3) assms(5) [OF Some]])
       (use assms(6,7) Some in \<open>simp_all add: call_done_def\<close>)
  with Some show ?thesis by (simp add: if_found_def for_type [OF assms(4)])
qed

lemma wp_found_void:
  assumes "calm t s" and "refers t s a obj" and "args_ok t s args"
    and "\<And>mid. r = Some mid \<Longrightarrow> qa_method_type qa mid = jvoid"
    and "(cs, v) = call_result qa (qj_calls s) r obj (map (arg_val s) args)" and "Q (call_done s cs) ()"
  shows "wp (if_found () r (\<lambda>mid s. then_clear t (Some t) (env_CallVoid qa t (Some t) (Some a) mid args s)) s) Q"
proof (cases r)
  case None
  with assms(5) have "cs = qj_calls s" by (simp add: call_result_def)
  with assms(6) call_done_same [OF calmD(2) [OF assms(1)]] None show ?thesis by (simp add: if_found_def)
next
  case (Some mid)
  have "wp (then_clear t (Some t) (env_CallVoid qa t (Some t) (Some a) mid args s)) Q"
    by (rule wp_void_call [where cs = cs and r = v, OF assms(1-3) assms(4) [OF Some]])
       (use assms(5,6) Some in \<open>simp_all add: call_done_def\<close>)
  with Some show ?thesis by (simp add: if_found_def)
qed

lemma wp_found_object:
  assumes "q_ok s R T" and "healthy qa" and "calm t s" and "refers t s a obj" and "args_ok t s args"
    and "\<And>mid. r = Some mid \<Longrightarrow> reference_type (qa_method_type qa mid)"
    and "(cs, v) = call_result qa (qj_calls s) r obj (map (arg_val s) args)"
    and "\<And>s' d. made t s R T s' d (object_of v) \<Longrightarrow> qj_calls s' = cs \<Longrightarrow> Q s' d"
    and "\<And>s' d b. Q s' d \<Longrightarrow> Q (s'\<lparr>qj_pending := b\<rparr>) d"
  shows "wp (case r of
           None \<Rightarrow> QJniObject_new s
         | Some mid \<Rightarrow> obind (env_CallObject qa t (Some t) (Some a) mid args s) (\<lambda>(s3, res). getCleanJniObject qa t res s3)) Q"
proof (cases r)
  case None
  then have e: "cs = qj_calls s" "object_of v = None" using assms(7) by (simp_all add: call_result_def object_of_def)
  have "wp (QJniObject_new s) Q"
    by (rule wp_QJniObject_new [where t = t, OF assms(1) calmD(2) [OF assms(3)]]) (use e in \<open>auto intro!: assms(8)\<close>)
  with None show ?thesis by simp
next
  case (Some mid)
  have "wp (obind (env_CallObject qa t (Some t) (Some a) mid args s) (\<lambda>(s2, res). getCleanJniObject qa t res s2)) Q"
    by (rule wp_clean_call [OF assms(1-5) assms(6) [OF Some]])
       (use assms(7) Some in simp, erule assms(8), assumption, erule assms(9))
  with Some show ?thesis by simp
qed

lemma refers_lookup:
  assumes "calm t s" and "refers t s a c" and "Q s (qa_method qa c name signature static)"
  shows "wp (getMethodID qa t (Some t) (Some a) name signature static s) Q"
  using assms by (auto simp: refers_def intro: wp_getMethodID)

lemma refers_lookup_field:
  assumes "calm t s" and "refers t s a c" and "Q s (qa_field qa c name signature static)"
  shows "wp (getFieldID qa t (Some t) (Some a) name signature static s) Q"
  using assms by (auto simp: refers_def intro: wp_getFieldID)

subsection \<open>A class by its name: one reference is left behind\<close>

lemma q_ok_leak:
  assumes "q_ok s R (A \<union> T)" and "A \<inter> T = {}"
  shows "q_ok s (A \<union> R) T"
proof -
  have e: "A \<union> R \<union> T = R \<union> (A \<union> T)" by auto
  show ?thesis
    using q_okD [OF assms(1)] assms(2) by (intro q_okI) (auto simp: e)
qed

definition leaked :: "qjni \<Rightarrow> (nat \<times> ref_kind) set \<Rightarrow> (nat \<times> ref_kind) set \<Rightarrow> qjni \<Rightarrow> ptr \<Rightarrow> bool" where
  "leaked s R T s' p \<longleftrightarrow>
     q_ok s' (tag GlobalRef p \<union> R) T \<and> later s s' \<and> \<not> qj_pending s' \<and> qj_priv s' = qj_priv s \<and> tag GlobalRef p \<inter> (R \<union> T) = {}"

lemma loaded_leaked: "loaded s R T s' p \<Longrightarrow> leaked s R T s' p"
  unfolding loaded_def leaked_def by (auto intro: q_ok_leak)

lemma loaded_refers:
  assumes "loaded s R T s' (Some h)"
  obtains c where "refers t s' h c"
proof -
  have "q_ok s' R (tag GlobalRef (Some h) \<union> T)" using assms by (simp add: loaded_def)
  then obtain obj where "jv_refs (qj_vm s') h = Some (GlobalRef, obj)" by (rule q_ok_alive [of _ _ _ h GlobalRef]) auto
  then show thesis by (rule that [OF refers_global])
qed

text \<open>What holds once \<open>loadClass\<close> has run.\<close>

lemma after_load:
  assumes "q_ok s R T" and "calm t s" and "loaded s R T s' p"
  shows "q_ok s' (tag GlobalRef p \<union> R) T" and "calm t s'" and "keeps s s'"
proof -
  have l: "leaked s R T s' p" by (rule loaded_leaked [OF assms(3)])
  then show "q_ok s' (tag GlobalRef p \<union> R) T" "calm t s'"
    using later_attached [of s s' t] assms(2) by (auto simp: leaked_def calm_def)
  show "keeps s s'"
    by (rule keepsI [OF assms(1)]) (use l in \<open>auto simp: leaked_def\<close>)
qed

text \<open>A block that loads a class and goes on with it, or ends with \<open>r0\<close>.\<close>

lemma wp_with_class:
  assumes "q_ok s R T" and "healthy qa" and "typed qa" and "\<not> qj_pending s"
    and "\<And>s1 h c. q_ok s1 (insert (h, GlobalRef) R) T \<Longrightarrow> calm t s1 \<Longrightarrow> keeps s s1 \<Longrightarrow> later s s1 \<Longrightarrow> qj_priv s1 = qj_priv s \<Longrightarrow>
           (h, GlobalRef) \<notin> R \<union> T \<Longrightarrow> refers t s1 h c \<Longrightarrow> wp (found (Some t) (Some h) s1) (\<lambda>s2 r. Q (s2\<lparr>qj_pending := False\<rparr>) r)"
    and "\<And>s1. q_ok s1 R T \<Longrightarrow> calm t s1 \<Longrightarrow> later s s1 \<Longrightarrow> qj_priv s1 = qj_priv s \<Longrightarrow>
           wp (missing s1) (\<lambda>s2 r. Q (s2\<lparr>qj_pending := False\<rparr>) r)"
  shows "wp (with_env qa t (\<lambda>env s.
           obind (loadClass qa t className env False s) (\<lambda>(s1, clazz).
           if clazz = None then missing s1 else found env clazz s1)) s) Q"
proof (rule wp_with_env [OF assms(1,2,4)])
  fix s1
  assume s1: "q_ok s1 R T" "later s s1" "calm t s1" "qj_priv s1 = qj_priv s" "jv_refs (qj_vm s1) = jv_refs (qj_vm s)"
  show "wp (obind (loadClass qa t className (Some t) False s1) (\<lambda>(s1, clazz).
           if clazz = None then missing s1 else found (Some t) clazz s1)) (\<lambda>s2 r. Q (s2\<lparr>qj_pending := False\<rparr>) r)"
    unfolding wp_obind split_conv
  proof (rule wp_loadClass [OF s1(1) assms(2,3) s1(3)])
    fix s2 p assume l: "loaded s1 R T s2 p"
    note a = after_load [OF s1(1,3) l]
    have l2: "later s s2" "qj_priv s2 = qj_priv s" using l s1(4) later_trans [OF s1(2)] by (auto simp: loaded_def)
    show "wp (if p = None then missing s2 else found (Some t) p s2) (\<lambda>s2 r. Q (s2\<lparr>qj_pending := False\<rparr>) r)"
    proof (cases p)
      case None
      with assms(6) a l2 show ?thesis by simp
    next
      case (Some h)
      obtain c where "refers t s2 h c" by (rule loaded_refers [OF l [unfolded Some]])
      moreover have "keeps s s2" using a(3) s1(5) by (simp add: keeps_def)
      moreover have "(h, GlobalRef) \<notin> R \<union> T" using l Some by (auto simp: loaded_def)
      ultimately show ?thesis using assms(5) [of s2 h c] a(1,2) l2 Some by simp
    qed
  qed
qed
subsection \<open>Operations by the name of a class\<close>

lemma leakedI:
  "q_ok s' (insert (h, GlobalRef) R) T \<Longrightarrow> later s s' \<Longrightarrow> \<not> qj_pending s' \<Longrightarrow> qj_priv s' = qj_priv s \<Longrightarrow>
    (h, GlobalRef) \<notin> R \<union> T \<Longrightarrow> leaked s R T s' (Some h)"
  by (simp add: leaked_def)

lemma leaked_None: "q_ok s' R T \<Longrightarrow> later s s' \<Longrightarrow> \<not> qj_pending s' \<Longrightarrow> qj_priv s' = qj_priv s \<Longrightarrow> leaked s R T s' None"
  by (simp add: leaked_def)

text \<open>The signature \<open>sig\<close> gives a method of type \<open>T\<close>.\<close>

definition returns :: "string \<Rightarrow> jni_type \<Rightarrow> bool" where
  "returns signature T \<longleftrightarrow> descriptor_type (return_descriptor signature) = T"

definition returns_object :: "string \<Rightarrow> bool" where
  "returns_object signature \<longleftrightarrow> reference_type (descriptor_type (return_descriptor signature))"

lemma wp_callStaticMethod_name:
  assumes "q_ok s R T'" and "healthy qa" and "typed qa" and "\<not> qj_pending s" and "args_ok t s args"
    and "isJniPrimitiveType T" and "returns signature T"
    and "\<And>s' r p. leaked s R T' s' p \<Longrightarrow> (p = None \<Longrightarrow> r = 0) \<Longrightarrow> Q s' r"
  shows "wp (callStaticMethod_name T qa t className methodName signature args s) Q"
  unfolding callStaticMethod_name_def assertJniPrimitiveType_def static_assert_def wp_check
proof (intro conjI assms(6), rule wp_with_class [OF assms(1-4)], goal_cases)
  case (1 s1 h c)
  note a = args_keeps [OF 1(3) assms(5)]
  obtain cs v where cr: "(cs, v) = call_result qa (qj_calls s1) (qa_method qa c methodName signature True) c (map (arg_val s1) args)"
    by (metis surj_pair)
  show ?case
    unfolding getCachedMethodID_class_def wp_obind split_conv
  proof (rule refers_lookup [OF 1(2,7)], rule wp_found_prim [OF 1(2,7) a(1) assms(6) _ cr])
    show "qa_method_type qa mid = T" if "qa_method qa c methodName signature True = Some mid" for mid
      using typedD(1) [OF assms(3) that] assms(7) by (simp add: returns_def)
    show "Q ((call_done s1 cs)\<lparr>qj_pending := False\<rparr>) (prim_of T v)"
      using 1 by (intro assms(8) [OF leakedI]) auto
  qed
next
  case (2 s1)
  then show ?case by (auto intro!: assms(8) [OF leaked_None] simp: calm_def)
qed

lemma wp_callStaticMethod_name_void:
  assumes "q_ok s R T'" and "healthy qa" and "typed qa" and "\<not> qj_pending s" and "args_ok t s args" and "returns signature jvoid"
    and "\<And>s' p. leaked s R T' s' p \<Longrightarrow> Q s' ()"
  shows "wp (callStaticMethod_name_void qa t className methodName signature args s) Q"
  unfolding callStaticMethod_name_void_def
proof (rule wp_with_class [OF assms(1-4)], goal_cases)
  case (1 s1 h c)
  note a = args_keeps [OF 1(3) assms(5)]
  obtain cs v where cr: "(cs, v) = call_result qa (qj_calls s1) (qa_method qa c methodName signature True) c (map (arg_val s1) args)"
    by (metis surj_pair)
  show ?case
    unfolding getCachedMethodID_class_def wp_obind split_conv
  proof (rule refers_lookup [OF 1(2,7)], rule wp_found_void [OF 1(2,7) a(1) _ cr])
    show "qa_method_type qa mid = jvoid" if "qa_method qa c methodName signature True = Some mid" for mid
      using typedD(1) [OF assms(3) that] assms(6) by (simp add: returns_def)
    show "Q ((call_done s1 cs)\<lparr>qj_pending := False\<rparr>) ()"
      using 1 by (intro assms(7) [OF leakedI]) auto
  qed
next
  case (2 s1)
  then show ?case by (auto intro!: assms(7) [OF leaked_None] simp: calm_def)
qed

text \<open>The object that is returned is new; the class reference stays behind.\<close>

lemma wp_callStaticObjectMethod_name:
  assumes "q_ok s R T'" and "healthy qa" and "typed qa" and "\<not> qj_pending s" and "args_ok t s args" and "returns_object signature"
    and "\<And>s' d p ob. made t s (tag GlobalRef p \<union> R) T' s' d ob \<Longrightarrow> tag GlobalRef p \<inter> (R \<union> T') = {} \<Longrightarrow>
           (p = None \<Longrightarrow> ob = None) \<Longrightarrow> Q s' d"
  shows "wp (callStaticObjectMethod_name qa t className methodName signature args s) Q"
  unfolding callStaticObjectMethod_name_def
proof (rule wp_with_class [OF assms(1-4)], goal_cases)
  case (1 s1 h c)
  note a = args_keeps [OF 1(3) assms(5)]
  obtain cs v where cr: "(cs, v) = call_result qa (qj_calls s1) (qa_method qa c methodName signature True) c (map (arg_val s1) args)"
    by (metis surj_pair)
  show ?case
    unfolding getCachedMethodID_class_def wp_obind split_conv
  proof (rule refers_lookup [OF 1(2,7)], rule wp_found_object [OF 1(1) assms(2) 1(2,7) a(1) _ cr, unfolded wp_obind split_conv])
    show "reference_type (qa_method_type qa mid)" if "qa_method qa c methodName signature True = Some mid" for mid
      using typedD(1) [OF assms(3) that] assms(6) by (simp add: returns_object_def)
    show "Q (s'\<lparr>qj_pending := False\<rparr>) d" if "made t s1 (insert (h, GlobalRef) R) T' s' d (object_of v)" for s' d
      using made_later [OF made_clear [OF that] 1(4,5,2)] 1(6)
      by (intro assms(7) [of "Some h"]) auto
  qed simp
next
  case (2 s1)
  show ?case
  proof (rule wp_QJniObject_new [where t = t, OF 2(1) calmD(2) [OF 2(2)]])
    fix s' d assume m: "made t s1 R T' s' d None"
    show "Q (s'\<lparr>qj_pending := False\<rparr>) d"
      by (rule assms(7) [where p = None and ob = None]) (use made_later [OF made_clear [OF m] 2(3,4,2)] in simp_all)
  qed
qed

lemma wp_getStaticField_name:
  assumes "q_ok s R T'" and "healthy qa" and "typed qa" and "\<not> qj_pending s" and "isJniPrimitiveType T"
    and "\<And>s' r p. leaked s R T' s' p \<Longrightarrow> (p = None \<Longrightarrow> r = 0) \<Longrightarrow> Q s' r"
  shows "wp (getStaticField_name T qa t className fieldName s) Q"
  unfolding getStaticField_name_def assertJniPrimitiveType_def static_assert_def wp_check
proof (intro conjI assms(5), rule wp_with_class [OF assms(1-4)], goal_cases)
  case (1 s1 h c)
  obtain d where d: "getTypeSignature T = Inr d" "descriptor_type d = T"
    by (rule getTypeSignature_denotes [OF prim_signature [OF assms(5)]])
  have l: "leaked s R T' (s1\<lparr>qj_pending := False\<rparr>) (Some h)" using 1 by (intro leakedI) auto
  show ?case
    unfolding getCachedFieldID_class_def wp_obind split_conv d(1) obind_Inr
  proof (rule refers_lookup_field [OF 1(2,7)], cases "qa_field qa c fieldName d True")
    case None
    then show "wp (if_found 0 (qa_field qa c fieldName d True) (\<lambda>fid s2. or_zero t (Some t) (getStaticFieldForType T qa t (Some t) (Some h) fid s2)) s1)
        (\<lambda>s2 r. Q (s2\<lparr>qj_pending := False\<rparr>) r)"
      using assms(6) [OF l] by (simp add: if_found_def)
  next
    case (Some fid)
    have "qa_field_type qa fid = T" using typedD(2) [OF assms(3) Some] d(2) by simp
    then have "env_GetPrimField T qa t (Some t) (Some h) fid s1 = Inr (s1, prim_of T (Some (qa_field_value qa (qj_calls s1) fid c)))"
      using 1(2,7) by (auto simp: env_GetPrimField_def env_GetField_def jni_ready_def calm_def deref_def refers_def)
    then show "wp (if_found 0 (qa_field qa c fieldName d True) (\<lambda>fid s2. or_zero t (Some t) (getStaticFieldForType T qa t (Some t) (Some h) fid s2)) s1)
        (\<lambda>s2 r. Q (s2\<lparr>qj_pending := False\<rparr>) r)"
      using assms(6) [OF l] Some by (simp add: if_found_def for_type [OF assms(5)] or_zero_def wp_obind wp_checkAndClear)
  qed
next
  case (2 s1)
  then show ?case by (auto intro!: assms(6) [OF leaked_None] simp: calm_def)
qed

lemma wp_isClassAvailable:
  assumes "q_ok s R T'" and "healthy qa" and "typed qa" and "\<not> qj_pending s"
    and "\<And>s' p. leaked s R T' s' p \<Longrightarrow> Q s' (p \<noteq> None)"
  shows "wp (isClassAvailable qa t className s) Q"
  unfolding isClassAvailable_def
proof (rule wp_with_env [OF assms(1,2,4)], goal_cases)
  case (1 s1)
  have "wp (loadClass qa t className (Some t) False s1) (\<lambda>s2 p. Q (s2\<lparr>qj_pending := False\<rparr>) (p \<noteq> None))"
  proof (rule wp_loadClass [OF 1(1) assms(2,3) 1(3)])
    fix s2 p assume "loaded s1 R T' s2 p"
    then have "leaked s R T' (s2\<lparr>qj_pending := False\<rparr>) p"
      using loaded_leaked [of s1 R T' s2 p] later_trans [OF 1(2)] 1(4) by (auto simp: leaked_def)
    then show "Q (s2\<lparr>qj_pending := False\<rparr>) (p \<noteq> None)" by (rule assms(5))
  qed
  then show ?case by (simp add: wp_obind)
qed
subsection \<open>Objects that Java makes\<close>

text \<open>The global reference to a new Java object, for the private object that will own it.\<close>

lemma wp_make_object:
  assumes "q_ok s R T" and "healthy qa" and "calm t s" and "refers t s a c" and "args_ok t s args" and "qa_method_type qa mid = jvoid"
    and "\<And>s' p ob. q_ok s' R (tag GlobalRef p \<union> T) \<Longrightarrow> later s s' \<Longrightarrow> tag GlobalRef p \<inter> (R \<union> T) = {} \<Longrightarrow>
           (p = None \<longleftrightarrow> ob = None) \<Longrightarrow> (\<And>h. p = Some h \<Longrightarrow> jv_refs (qj_vm s') h = Some (GlobalRef, the ob)) \<Longrightarrow>
           qj_priv s' = qj_priv s \<Longrightarrow> t \<in> jv_attached (qj_vm s') \<Longrightarrow> Q s' p"
  shows "wp (make_object qa t (Some t) (Some a) args mid s) Q"
  unfolding make_object_def env_NewObject_def wp_obind split_conv
proof (rule wp_env_Call [where fits_type = "\<lambda>T. T = jvoid", OF assms(3,4,5,6) refl])
  let ?cs = "qj_calls s @ [Java_Call mid c (map (arg_val s) args)]"
  let ?s = "s\<lparr>qj_calls := ?cs, qj_pending := qa_answer qa ?cs = None\<rparr>"
  have t: "q_ok ?s R T" "t \<in> jv_attached (qj_vm ?s)" using assms(1,3) by (simp_all add: calm_def)
  show "wp (Inr (q_local_opt qa t (object_of (qa_answer qa ?cs)) ?s)) (\<lambda>s1 obj.
      wp (if obj = None then Inr (s1, None)
          else obind (env_NewGlobalRef qa t (Some t) obj s1) (\<lambda>(s2, g).
               obind (env_DeleteRef t (Some t) (LocalRef t) obj s2) (\<lambda>(s3, u). Inr (s3, g)))) Q)"
  proof (rule wp_q_local_opt [OF t(1) assms(2) t(2)])
    fix s1 p
    assume s1: "q_ok s1 R (tag (LocalRef t) p \<union> T)" "later ?s s1" "tag (LocalRef t) p \<inter> (R \<union> T) = {}"
      "(p = None) = (object_of (qa_answer qa ?cs) = None)"
      "\<And>h. p = Some h \<Longrightarrow> jv_refs (qj_vm s1) h = Some (LocalRef t, the (object_of (qa_answer qa ?cs)))"
      "qj_priv s1 = qj_priv ?s" "qj_pending s1 = qj_pending ?s" "t \<in> jv_attached (qj_vm s1)"
    have l1: "later s s1" using s1(2) by (simp add: later_def)
    show "wp (if p = None then Inr (s1, None)
          else obind (env_NewGlobalRef qa t (Some t) p s1) (\<lambda>(s2, g).
               obind (env_DeleteRef t (Some t) (LocalRef t) p s2) (\<lambda>(s3, u). Inr (s3, g)))) Q"
    proof (cases p)
      case None
      have "Q s1 None" by (rule assms(7) [where ob = None]) (use s1 l1 None in auto)
      with None show ?thesis by simp
    next
      case (Some h)
      let ?ob = "object_of (qa_answer qa ?cs)"
      have r: "jv_refs (qj_vm s1) h = Some (LocalRef t, the ?ob)" by (rule s1(5) [OF Some])
      have "qa_answer qa ?cs \<noteq> None" using s1(4) Some by (cases "qa_answer qa ?cs") (simp_all add: object_of_def)
      then have c1: "calm t s1" using s1(7,8) by (simp add: calm_def)
      have q1: "q_ok s1 R (insert (h, LocalRef t) T)" using s1(1) Some by simp
      have "wp (env_NewGlobalRef qa t (Some t) (Some h) s1) (\<lambda>s2 g. wp (env_DeleteRef t (Some t) (LocalRef t) (Some h) s2) (\<lambda>s3 u. Q s3 g))"
      proof (rule wp_NewGlobalRef [OF q1 assms(2) c1 r usable_local [OF r]])
        fix s2 g
        assume s2: "q_ok s2 R (insert (g, GlobalRef) (insert (h, LocalRef t) T))" "later s1 s2"
          "(g, GlobalRef) \<notin> R \<union> insert (h, LocalRef t) T" "jv_refs (qj_vm s2) g = Some (GlobalRef, the ?ob)"
          "qj_priv s2 = qj_priv s1" "calm t s2"
        have e: "insert (g, GlobalRef) (insert (h, LocalRef t) T) - {(h, LocalRef t)} = tag GlobalRef (Some g) \<union> T"
          using s1(3) Some by auto
        show "wp (env_DeleteRef t (Some t) (LocalRef t) (Some h) s2) (\<lambda>s3 u. Q s3 (Some g))"
        proof (rule wp_DeleteRef [OF s2(1)])
          fix s3
          assume s3: "q_ok s3 R (insert (g, GlobalRef) (insert (h, LocalRef t) T) - {(h, LocalRef t)})" "later s2 s3"
            "qj_priv s3 = qj_priv s2" "jv_attached (qj_vm s3) = jv_attached (qj_vm s2)"
          have q3: "q_ok s3 R (tag GlobalRef (Some g) \<union> T)" using s3(1) e by simp
          show "Q s3 (Some g)"
          proof (rule assms(7) [where ob = ?ob, OF q3])
            show "later s s3" by (rule later_trans [OF l1 later_trans [OF s2(2) s3(2)]])
            show "(Some g = None) = (?ob = None)" using s1(4) Some by simp
            show "jv_refs (qj_vm s3) a = Some (GlobalRef, the ?ob)" if "Some g = Some a" for a
              using later_same [OF s2(1) q3 _ s3(2) s2(4), of GlobalRef] that by simp
          qed (use s2 s3 s1 in \<open>auto simp: calm_def\<close>)
        qed (use s2(6) in \<open>auto simp: calm_def\<close>)
      qed
      with Some show ?thesis by (simp add: wp_obind)
    qed
  qed
qed

text \<open>An object by the name of its class. The object does not own the reference to the class, and nobody else does.\<close>

lemma wp_QJniObject_of_name_sig:
  assumes "q_ok s R T" and "healthy qa" and "typed qa" and "\<not> qj_pending s" and "args_ok t s args" and "returns signature jvoid"
    and "\<And>s' d p ob. made t s (tag GlobalRef p \<union> R) T s' d ob \<Longrightarrow> tag GlobalRef p \<inter> (R \<union> T) = {} \<Longrightarrow>
           (p = None \<Longrightarrow> ob = None) \<Longrightarrow> Q s' d"
  shows "wp (QJniObject_of_name_sig qa t className signature args s) Q"
  unfolding QJniObject_of_name_sig_def
proof (rule wp_with_env [OF assms(1,2,4)])
  fix s1
  assume s1: "q_ok s1 R T" "later s s1" "calm t s1" "qj_priv s1 = qj_priv s" "jv_refs (qj_vm s1) = jv_refs (qj_vm s)"
  let ?name = "toBinaryEncClassName className"
  show "wp (let name = ?name in obind (loadClass qa t name (Some t) True s1) (\<lambda>(s1, c).
          obind (if c = None then Inr (s1, None)
                 else
                   obind (getCachedMethodID_class qa t (Some t) c name ''<init>'' signature False s1) (\<lambda>(s2, r).
                   if_found None r (make_object qa t (Some t) c args) s2)) (\<lambda>(s3, g).
          Inr (new_private \<lparr>m_jobject = g, m_jclass = c, m_own_jclass = False, m_className = name\<rparr> s3))))
      (\<lambda>s2 r. Q (s2\<lparr>qj_pending := False\<rparr>) r)"
    unfolding Let_def wp_obind split_conv
  proof (rule wp_loadClass [OF s1(1) assms(2,3) s1(3)])
    fix s2 c assume l: "loaded s1 R T s2 c"
    note a = after_load [OF s1(1,3) l]
    have l2: "later s s2" "qj_priv s2 = qj_priv s" "tag GlobalRef c \<inter> (R \<union> T) = {}"
      using l s1(4) later_trans [OF s1(2)] by (auto simp: loaded_def)
    have k2: "keeps s s2" using a(3) s1(5) by (simp add: keeps_def)
    let ?R = "tag GlobalRef c \<union> R"
    have fin: "Q ((fst (new_private \<lparr>m_jobject = g, m_jclass = c, m_own_jclass = False, m_className = ?name\<rparr> s3))\<lparr>qj_pending := False\<rparr>)
        (snd (new_private \<lparr>m_jobject = g, m_jclass = c, m_own_jclass = False, m_className = ?name\<rparr> s3))"
      if s3: "q_ok s3 ?R (tag GlobalRef g \<union> T)" "later s2 s3" "tag GlobalRef g \<inter> (?R \<union> T) = {}" "(g = None) = (ob = None)"
        "\<And>h. g = Some h \<Longrightarrow> jv_refs (qj_vm s3) h = Some (GlobalRef, the ob)" "qj_priv s3 = qj_priv s2"
        "c = None \<Longrightarrow> g = None" for s3 g ob
    proof -
      let ?p = "\<lparr>m_jobject = g, m_jclass = c, m_own_jclass = False, m_className = ?name\<rparr>"
      let ?s3 = "s3\<lparr>qj_pending := False\<rparr>"
      have o: "own ?p = tag GlobalRef g" by (simp add: own_def)
      have q: "q_ok ?s3 ?R (tag GlobalRef g \<union> T)" using s3(1) by simp
      have "made t s ?R T (fst (new_private ?p ?s3)) (snd (new_private ?p ?s3)) ob"
        by (rule made_new_private [OF q])
           (use s3 l2 later_trans [OF l2(1) s3(2)] in \<open>auto simp: o wf_private_def object_is_def split: option.splits\<close>)
      moreover have "fst (new_private ?p ?s3) = (fst (new_private ?p s3))\<lparr>qj_pending := False\<rparr>"
        "snd (new_private ?p ?s3) = snd (new_private ?p s3)" by (simp_all add: new_private_def)
      ultimately show ?thesis using l2(3) s3(4,7) by (intro assms(7) [where p = c and ob = ob]) auto
    qed
    show "wp (if c = None then Inr (s2, None)
        else obind (getCachedMethodID_class qa t (Some t) c ?name ''<init>'' signature False s2) (\<lambda>(s2, r).
             if_found None r (make_object qa t (Some t) c args) s2))
        (\<lambda>s3 g. wp (Inr (new_private \<lparr>m_jobject = g, m_jclass = c, m_own_jclass = False, m_className = ?name\<rparr> s3))
           (\<lambda>s2 r. Q (s2\<lparr>qj_pending := False\<rparr>) r))"
      unfolding wp_Inr_pair
    proof (cases c)
      case None
      with fin [of s2 None None] a(1) show "wp (if c = None then Inr (s2, None)
        else obind (getCachedMethodID_class qa t (Some t) c ?name ''<init>'' signature False s2) (\<lambda>(s2, r).
             if_found None r (make_object qa t (Some t) c args) s2))
        (\<lambda>s3 g. Q ((fst (new_private \<lparr>m_jobject = g, m_jclass = c, m_own_jclass = False, m_className = ?name\<rparr> s3))\<lparr>qj_pending := False\<rparr>)
          (snd (new_private \<lparr>m_jobject = g, m_jclass = c, m_own_jclass = False, m_className = ?name\<rparr> s3)))" by simp
    next
      case (Some h)
      obtain k where r: "refers t s2 h k" by (rule loaded_refers [OF l [unfolded Some]])
      let ?QQ = "\<lambda>s3 g. Q ((fst (new_private \<lparr>m_jobject = g, m_jclass = c, m_own_jclass = False, m_className = ?name\<rparr> s3))\<lparr>qj_pending := False\<rparr>)
          (snd (new_private \<lparr>m_jobject = g, m_jclass = c, m_own_jclass = False, m_className = ?name\<rparr> s3))"
      have "wp (getMethodID qa t (Some t) (Some h) ''<init>'' signature False s2)
          (\<lambda>s2 r. wp (if_found None r (make_object qa t (Some t) (Some h) args) s2) ?QQ)"
      proof (rule refers_lookup [OF a(2) r], cases "qa_method qa k ''<init>'' signature False")
        case None
        with fin [of s2 None None] a(1) show "wp (if_found None (qa_method qa k ''<init>'' signature False) (make_object qa t (Some t) (Some h) args) s2) ?QQ"
          by (simp add: if_found_def)
      next
        case m: (Some mid)
        have "qa_method_type qa mid = jvoid" using typedD(1) [OF assms(3) m] assms(6) by (simp add: returns_def)
        have "wp (make_object qa t (Some t) (Some h) args mid s2) ?QQ"
        proof (rule wp_make_object [OF a(1) assms(2) a(2) r args_keeps(1) [OF k2 assms(5)] \<open>qa_method_type qa mid = jvoid\<close>])
          fix s3 g ob
          assume "q_ok s3 ?R (tag GlobalRef g \<union> T)" "later s2 s3" "tag GlobalRef g \<inter> (?R \<union> T) = {}" "(g = None) = (ob = None)"
            "\<And>h. g = Some h \<Longrightarrow> jv_refs (qj_vm s3) h = Some (GlobalRef, the ob)" "qj_priv s3 = qj_priv s2"
          then show "?QQ s3 g" by (rule fin) (simp_all add: Some)
        qed
        with m show "wp (if_found None (qa_method qa k ''<init>'' signature False) (make_object qa t (Some t) (Some h) args) s2) ?QQ"
          by (simp add: if_found_def)
      qed
      with Some show "wp (if c = None then Inr (s2, None)
        else obind (getCachedMethodID_class qa t (Some t) c ?name ''<init>'' signature False s2) (\<lambda>(s2, r).
             if_found None r (make_object qa t (Some t) c args) s2)) ?QQ"
        by (simp add: wp_obind getCachedMethodID_class_def)
    qed
  qed
qed

end
