(* ===== verification/Qt_Jni_Calls.thy ===== *)
theory Qt_Jni_Calls
  imports Qt_Jni_Props
begin

section \<open>Classes, fields, assignment and texts\<close>

text \<open>
  The remaining operations of \<open>QJniObject\<close> and \<open>QJniEnvironment\<close>: those that are given a reference to a class or the
  identifier of a method, those that read or set a field, the constructors from a class, the assignment, and the
  conversion to a text. For each of them a rule of total correctness that says which references are alive
  afterwards.
\<close>

subsection \<open>What an operation leaves\<close>

text \<open>A new object, whatever it stands for.\<close>

definition makes :: "thread_id \<Rightarrow> qjni \<Rightarrow> (nat \<times> ref_kind) set \<Rightarrow> (nat \<times> ref_kind) set \<Rightarrow> qjni \<Rightarrow> nat \<Rightarrow> bool" where
  "makes t s R T s' d \<longleftrightarrow> (\<exists>ob. made t s R T s' d ob)"

lemma makesI: "made t s R T s' d ob \<Longrightarrow> makes t s R T s' d"
  by (auto simp: makes_def)

lemma makes_clear: "makes t s R T s' d \<Longrightarrow> makes t s R T (s'\<lparr>qj_pending := False\<rparr>) d"
  by (auto simp: makes_def intro: made_clear)

lemma kept_call_done: "q_ok s R T \<Longrightarrow> kept t s R T (call_done s cs)"
  by (simp add: kept_def)

text \<open>A block with an environment, which keeps everything or makes an object.\<close>

lemma env_kept:
  assumes "q_ok s R T" and "healthy qa" and "\<not> qj_pending s"
    and "\<And>s1. q_ok s1 R T \<Longrightarrow> calm t s1 \<Longrightarrow> keeps s s1 \<Longrightarrow> qj_priv s1 = qj_priv s \<Longrightarrow>
           wp (body (Some t) s1) (\<lambda>s2 r. kept t s1 R T (s2\<lparr>qj_pending := False\<rparr>))"
  shows "wp (with_env qa t body s) (\<lambda>s' r. kept t s R T s')"
proof (rule wp_with_env [OF assms(1-3)], goal_cases)
  case (1 s1)
  show ?case
    by (rule wp_mono [OF assms(4) [OF 1(1,3) keeps_refs [OF 1(6)] 1(4)]])
       (use 1(2,4) in \<open>auto simp: kept_def intro: later_trans\<close>)
qed

lemma env_makes:
  assumes "q_ok s R T" and "healthy qa" and "\<not> qj_pending s"
    and "\<And>s1. q_ok s1 R T \<Longrightarrow> calm t s1 \<Longrightarrow> keeps s s1 \<Longrightarrow> qj_priv s1 = qj_priv s \<Longrightarrow>
           wp (body (Some t) s1) (\<lambda>s2 d. makes t s1 R T (s2\<lparr>qj_pending := False\<rparr>) d)"
  shows "wp (with_env qa t body s) (\<lambda>s' d. makes t s R T s' d)"
proof (rule wp_with_env [OF assms(1-3)], goal_cases)
  case (1 s1)
  show ?case
    by (rule wp_mono [OF assms(4) [OF 1(1,3) keeps_refs [OF 1(6)] 1(4)]])
       (use 1(2,3,4) in \<open>auto simp: makes_def intro: made_later\<close>)
qed

lemma new_makes: "q_ok s R T \<Longrightarrow> calm t s \<Longrightarrow> wp (QJniObject_new s) (\<lambda>s' d. makes t s R T (s'\<lparr>qj_pending := False\<rparr>) d)"
  by (rule wp_QJniObject_new [where t = t]) (auto simp: calm_def intro: makes_clear makesI)

subsection \<open>Once a method or field is found\<close>

lemma found_prim_kept:
  assumes "q_ok s R T'" and "calm t s" and "refers t s a obj" and "args_ok t s args" and "isJniPrimitiveType T"
    and "\<And>mid. r = Some mid \<Longrightarrow> qa_method_type qa mid = T"
  shows "wp (if_found 0 r (\<lambda>mid s. or_zero t (Some t) (callStaticMethodForType T qa t (Some t) (Some a) mid args s)) s)
    (\<lambda>s' v. kept t s R T' (s'\<lparr>qj_pending := False\<rparr>))"
proof -
  obtain cs v where cr: "(cs, v) = call_result qa (qj_calls s) r obj (map (arg_val s) args)" by (metis surj_pair)
  show ?thesis by (rule wp_found_prim [OF assms(2-6) cr]) (use assms(1) in \<open>simp_all add: kept_call_done\<close>)
qed

lemma found_void_kept:
  assumes "q_ok s R T'" and "calm t s" and "refers t s a obj" and "args_ok t s args"
    and "\<And>mid. r = Some mid \<Longrightarrow> qa_method_type qa mid = jvoid"
  shows "wp (if_found () r (\<lambda>mid s. then_clear t (Some t) (env_CallVoid qa t (Some t) (Some a) mid args s)) s)
    (\<lambda>s' v. kept t s R T' (s'\<lparr>qj_pending := False\<rparr>))"
proof -
  obtain cs v where cr: "(cs, v) = call_result qa (qj_calls s) r obj (map (arg_val s) args)" by (metis surj_pair)
  show ?thesis by (rule wp_found_void [OF assms(2-5) cr]) (use assms(1) in \<open>simp_all add: kept_call_done\<close>)
qed

lemma found_object_makes:
  assumes "q_ok s R T" and "healthy qa" and "calm t s" and "refers t s a obj" and "args_ok t s args"
    and "\<And>mid. r = Some mid \<Longrightarrow> reference_type (qa_method_type qa mid)"
  shows "wp (case r of
           None \<Rightarrow> QJniObject_new s
         | Some mid \<Rightarrow> obind (env_CallObject qa t (Some t) (Some a) mid args s) (\<lambda>(s3, res). getCleanJniObject qa t res s3))
    (\<lambda>s' d. makes t s R T (s'\<lparr>qj_pending := False\<rparr>) d)"
proof -
  obtain cs v where cr: "(cs, v) = call_result qa (qj_calls s) r obj (map (arg_val s) args)" by (metis surj_pair)
  show ?thesis by (rule wp_found_object [OF assms cr]) (auto intro: makesI makes_clear)
qed

text \<open>A field of the type it was declared with.\<close>

definition field_fits :: "jni_type \<Rightarrow> jni_type \<Rightarrow> bool" where
  "field_fits T T' \<longleftrightarrow> (if isJniPrimitiveType T then T' = T else reference_type T \<and> reference_type T')"

lemma set_for_type:
  assumes "isJniPrimitiveType T \<or> reference_type T"
  shows "setFieldForType T qa t env obj fid v s = env_SetField qa t env (field_fits T) obj fid v s"
    and "setStaticFieldForType T qa t env obj fid v s = env_SetField qa t env (field_fits T) obj fid v s"
  by (cases T; use assms in \<open>simp add: setFieldForType_def setStaticFieldForType_def field_fits_def [abs_def] isJniPrimitiveType_def
    is_convertible_to_jobject_def reference_type_def [abs_def]\<close>)+

lemma found_get_kept:
  assumes "q_ok s R T'" and "calm t s" and "refers t s a obj" and "\<And>fid. r = Some fid \<Longrightarrow> qa_field_type qa fid = T"
  shows "wp (if_found 0 r (\<lambda>fid s. or_zero t (Some t) (env_GetPrimField T qa t (Some t) (Some a) fid s)) s)
    (\<lambda>s' v. kept t s R T' (s'\<lparr>qj_pending := False\<rparr>))"
proof (cases r)
  case None
  with assms(1) show ?thesis by (simp add: if_found_def kept_def)
next
  case (Some fid)
  have "env_GetPrimField T qa t (Some t) (Some a) fid s = Inr (s, prim_of T (Some (qa_field_value qa (qj_calls s) fid obj)))"
    using assms(2,3) assms(4) [OF Some]
    by (auto simp: env_GetPrimField_def env_GetField_def jni_ready_def calm_def deref_def refers_def)
  with Some assms(1) show ?thesis by (simp add: if_found_def or_zero_def wp_obind wp_checkAndClear kept_def)
qed

lemma found_set_kept:
  assumes "q_ok s R T'" and "calm t s" and "refers t s a obj" and "args_ok t s [v]"
    and "\<And>fid. r = Some fid \<Longrightarrow> fits_type (qa_field_type qa fid)"
  shows "wp (if_found () r (\<lambda>fid s. then_clear t (Some t) (env_SetField qa t (Some t) fits_type (Some a) fid v s)) s)
    (\<lambda>s' u. kept t s R T' (s'\<lparr>qj_pending := False\<rparr>))"
proof (cases r)
  case None
  with assms(1) show ?thesis by (simp add: if_found_def kept_def)
next
  case (Some fid)
  have "env_SetField qa t (Some t) fits_type (Some a) fid v s =
      Inr (s\<lparr>qj_calls := qj_calls s @ [Java_Set_Field fid obj (arg_val s v)]\<rparr>, ())"
    using assms(2,3,4) assms(5) [OF Some]
    by (auto simp: env_SetField_def jni_ready_def calm_def deref_def refers_def arg_value_ok)
  with Some assms(1,2) show ?thesis by (simp add: if_found_def then_clear_def wp_obind wp_checkAndClear kept_def calm_def)
qed

lemma found_get_object_makes:
  assumes "q_ok s R T" and "healthy qa" and "calm t s" and "refers t s a obj"
    and "\<And>fid. r = Some fid \<Longrightarrow> reference_type (qa_field_type qa fid)"
  shows "wp (case r of
           None \<Rightarrow> QJniObject_new s
         | Some fid \<Rightarrow> obind (env_GetObjectField qa t (Some t) (Some a) fid s) (\<lambda>(s3, res). getCleanJniObject qa t res s3))
    (\<lambda>s' d. makes t s R T (s'\<lparr>qj_pending := False\<rparr>) d)"
proof (cases r)
  case None
  with new_makes [OF assms(1,3)] show ?thesis by simp
next
  case (Some fid)
  let ?ob = "object_of (Some (qa_field_value qa (qj_calls s) fid obj))"
  have "env_GetField qa t (Some t) reference_type (Some a) fid s = Inr (s, qa_field_value qa (qj_calls s) fid obj)"
    using assms(3,4) assms(5) [OF Some] by (auto simp: env_GetField_def jni_ready_def calm_def deref_def refers_def)
  moreover have "wp (Inr (q_local_opt qa t ?ob s)) (\<lambda>s3 res. wp (getCleanJniObject qa t res s3)
      (\<lambda>s' d. makes t s R T (s'\<lparr>qj_pending := False\<rparr>) d))"
  proof (rule wp_q_local_opt [OF assms(1,2) calmD(1) [OF assms(3)]], goal_cases)
    case (1 s3 p)
    have n: "\<not> qj_pending s3" using 1(7) assms(3) by (simp add: calm_def)
    show ?case
    proof (rule wp_getClean [where ob = ?ob, OF 1(1,3) assms(2) 1(8) _ 1(4,5)])
      show "qj_pending s3 \<Longrightarrow> p = None" using n by simp
      show "makes t s R T (s'\<lparr>qj_pending := False\<rparr>) d" if "made t (s3\<lparr>qj_pending := False\<rparr>) R T s' d ?ob" for s' d
        using made_later [OF made_clear [OF that], of s] 1(2,6,8) by (auto intro: makesI)
    qed simp_all
  qed
  ultimately show ?thesis using Some by (simp add: env_GetObjectField_def wp_obind wp_Inr_pair split_beta)
qed

subsection \<open>Static operations on a class\<close>

text \<open>The class may be null only where the code tests it.\<close>

definition class_ok :: "thread_id \<Rightarrow> qjni \<Rightarrow> ptr \<Rightarrow> bool" where
  "class_ok t s p \<longleftrightarrow> (\<forall>a. p = Some a \<longrightarrow> usable t a (qj_vm s))"

lemma class_refers:
  assumes "class_ok t s (Some a)" and "keeps s s'"
  obtains c where "refers t s' a c"
proof -
  have u: "usable t a (qj_vm s)" using assms(1) by (simp add: class_ok_def)
  then obtain k c where "jv_refs (qj_vm s) a = Some (k, c)" by (cases "jv_refs (qj_vm s) a") (auto simp: usable_def)
  with u have "refers t s a c" by (simp add: refers_def)
  from that [OF refers_keeps [OF this assms(2)]] show thesis .
qed

lemma wp_callStaticMethod_class:
  assumes "q_ok s R T'" and "healthy qa" and "typed qa" and "\<not> qj_pending s" and "class_ok t s p" and "args_ok t s args"
    and "isJniPrimitiveType T" and "returns signature T"
  shows "wp (callStaticMethod_class T qa t p m signature args s) (\<lambda>s' r. kept t s R T' s')"
  unfolding callStaticMethod_class_def assertJniPrimitiveType_def static_assert_def wp_check
proof (intro conjI assms(7), rule env_kept [OF assms(1,2,4)])
  fix s1 assume s1: "q_ok s1 R T'" "calm t s1" "keeps s s1"
  show "wp (if p = None then Inr (s1, 0)
       else obind (getMethodID qa t (Some t) p m signature True s1) (\<lambda>(s2, r).
         if_found 0 r (\<lambda>mid s2. or_zero t (Some t) (callStaticMethodForType T qa t (Some t) p mid args s2)) s2))
      (\<lambda>s2 r. kept t s1 R T' (s2\<lparr>qj_pending := False\<rparr>))"
  proof (cases p)
    case None
    with s1(1) show ?thesis by (simp add: kept_def)
  next
    case (Some a)
    obtain c where c: "refers t s1 a c" by (rule class_refers [OF assms(5) [unfolded Some] s1(3)])
    have "wp (getMethodID qa t (Some t) (Some a) m signature True s1)
        (\<lambda>s2 r. wp (if_found 0 r (\<lambda>mid s2. or_zero t (Some t) (callStaticMethodForType T qa t (Some t) (Some a) mid args s2)) s2)
          (\<lambda>s2 r. kept t s1 R T' (s2\<lparr>qj_pending := False\<rparr>)))"
      by (rule refers_lookup [OF s1(2) c], rule found_prim_kept [OF s1(1,2) c args_keeps(1) [OF s1(3) assms(6)] assms(7)])
         (use typedD(1) [OF assms(3)] assms(8) in \<open>auto simp: returns_def\<close>)
    with Some show ?thesis by (simp add: wp_obind)
  qed
qed

lemma wp_callStaticMethod_class_void:
  assumes "q_ok s R T'" and "healthy qa" and "typed qa" and "\<not> qj_pending s" and "class_ok t s p" and "args_ok t s args"
    and "returns signature jvoid"
  shows "wp (callStaticMethod_class_void qa t p m signature args s) (\<lambda>s' r. kept t s R T' s')"
  unfolding callStaticMethod_class_void_def
proof (rule env_kept [OF assms(1,2,4)])
  fix s1 assume s1: "q_ok s1 R T'" "calm t s1" "keeps s s1"
  show "wp (if p = None then Inr (s1, ())
       else obind (getMethodID qa t (Some t) p m signature True s1) (\<lambda>(s2, r).
         if_found () r (\<lambda>mid s2. then_clear t (Some t) (env_CallVoid qa t (Some t) p mid args s2)) s2))
      (\<lambda>s2 r. kept t s1 R T' (s2\<lparr>qj_pending := False\<rparr>))"
  proof (cases p)
    case None
    with s1(1) show ?thesis by (simp add: kept_def)
  next
    case (Some a)
    obtain c where c: "refers t s1 a c" by (rule class_refers [OF assms(5) [unfolded Some] s1(3)])
    have "wp (getMethodID qa t (Some t) (Some a) m signature True s1)
        (\<lambda>s2 r. wp (if_found () r (\<lambda>mid s2. then_clear t (Some t) (env_CallVoid qa t (Some t) (Some a) mid args s2)) s2)
          (\<lambda>s2 r. kept t s1 R T' (s2\<lparr>qj_pending := False\<rparr>)))"
      by (rule refers_lookup [OF s1(2) c], rule found_void_kept [OF s1(1,2) c args_keeps(1) [OF s1(3) assms(6)]])
         (use typedD(1) [OF assms(3)] assms(7) in \<open>auto simp: returns_def\<close>)
    with Some show ?thesis by (simp add: wp_obind)
  qed
qed

lemma wp_callStaticObjectMethod_class:
  assumes "q_ok s R T" and "healthy qa" and "typed qa" and "\<not> qj_pending s" and "class_ok t s p" and "args_ok t s args"
    and "returns_object signature"
  shows "wp (callStaticObjectMethod_class qa t p m signature args s) (\<lambda>s' d. makes t s R T s' d)"
  unfolding callStaticObjectMethod_class_def
proof (rule env_makes [OF assms(1,2,4)])
  fix s1 assume s1: "q_ok s1 R T" "calm t s1" "keeps s s1"
  show "wp (if p = None then QJniObject_new s1
       else obind (getMethodID qa t (Some t) p m signature True s1) (\<lambda>(s2, r).
         case r of
           None \<Rightarrow> QJniObject_new s2
         | Some mid \<Rightarrow> obind (env_CallObject qa t (Some t) p mid args s2) (\<lambda>(s3, res). getCleanJniObject qa t res s3)))
      (\<lambda>s2 d. makes t s1 R T (s2\<lparr>qj_pending := False\<rparr>) d)"
  proof (cases p)
    case None
    with new_makes [OF s1(1,2)] show ?thesis by simp
  next
    case (Some a)
    obtain c where c: "refers t s1 a c" by (rule class_refers [OF assms(5) [unfolded Some] s1(3)])
    have "wp (getMethodID qa t (Some t) (Some a) m signature True s1)
        (\<lambda>s2 r. wp (case r of
           None \<Rightarrow> QJniObject_new s2
         | Some mid \<Rightarrow> obind (env_CallObject qa t (Some t) (Some a) mid args s2) (\<lambda>(s3, res). getCleanJniObject qa t res s3))
          (\<lambda>s2 d. makes t s1 R T (s2\<lparr>qj_pending := False\<rparr>) d))"
      by (rule refers_lookup [OF s1(2) c],
          rule found_object_makes [OF s1(1) assms(2) s1(2) c args_keeps(1) [OF s1(3) assms(6)]])
         (use typedD(1) [OF assms(3)] assms(7) in \<open>auto simp: returns_object_def\<close>)
    with Some show ?thesis by (simp add: wp_obind)
  qed
qed

text \<open>With the identifier of a method of the right type.\<close>

lemma wp_callStaticMethod_id:
  assumes "q_ok s R T'" and "healthy qa" and "\<not> qj_pending s" and "class_ok t s p" and "args_ok t s args"
    and "isJniPrimitiveType T" and "\<And>mid. r = Some mid \<Longrightarrow> qa_method_type qa mid = T"
  shows "wp (callStaticMethod_id T qa t p r args s) (\<lambda>s' v. kept t s R T' s')"
  unfolding callStaticMethod_id_def assertJniPrimitiveType_def static_assert_def wp_check
proof (intro conjI assms(6), rule env_kept [OF assms(1,2,3)])
  fix s1 assume s1: "q_ok s1 R T'" "calm t s1" "keeps s s1"
  show "wp (if p = None then Inr (s1, 0)
       else if_found 0 r (\<lambda>mid s1. or_zero t (Some t) (callStaticMethodForType T qa t (Some t) p mid args s1)) s1)
      (\<lambda>s2 r. kept t s1 R T' (s2\<lparr>qj_pending := False\<rparr>))"
  proof (cases p)
    case None
    with s1(1) show ?thesis by (simp add: kept_def)
  next
    case (Some a)
    obtain c where c: "refers t s1 a c" by (rule class_refers [OF assms(4) [unfolded Some] s1(3)])
    from found_prim_kept [OF s1(1,2) c args_keeps(1) [OF s1(3) assms(5)] assms(6,7)] Some show ?thesis by simp
  qed
qed

lemma wp_callStaticMethod_id_void:
  assumes "q_ok s R T'" and "healthy qa" and "\<not> qj_pending s" and "class_ok t s p" and "args_ok t s args"
    and "\<And>mid. r = Some mid \<Longrightarrow> qa_method_type qa mid = jvoid"
  shows "wp (callStaticMethod_id_void qa t p r args s) (\<lambda>s' v. kept t s R T' s')"
  unfolding callStaticMethod_id_void_def
proof (rule env_kept [OF assms(1,2,3)])
  fix s1 assume s1: "q_ok s1 R T'" "calm t s1" "keeps s s1"
  show "wp (if p = None then Inr (s1, ())
       else if_found () r (\<lambda>mid s1. then_clear t (Some t) (env_CallVoid qa t (Some t) p mid args s1)) s1)
      (\<lambda>s2 r. kept t s1 R T' (s2\<lparr>qj_pending := False\<rparr>))"
  proof (cases p)
    case None
    with s1(1) show ?thesis by (simp add: kept_def)
  next
    case (Some a)
    obtain c where c: "refers t s1 a c" by (rule class_refers [OF assms(4) [unfolded Some] s1(3)])
    from found_void_kept [OF s1(1,2) c args_keeps(1) [OF s1(3) assms(5)] assms(6)] Some show ?thesis by simp
  qed
qed

lemma wp_callStaticObjectMethod_id:
  assumes "q_ok s R T" and "healthy qa" and "\<not> qj_pending s" and "class_ok t s p" and "args_ok t s args"
    and "\<And>mid. r = Some mid \<Longrightarrow> reference_type (qa_method_type qa mid)"
  shows "wp (callStaticObjectMethod_id qa t p r args s) (\<lambda>s' d. makes t s R T s' d)"
  unfolding callStaticObjectMethod_id_def
proof (rule env_makes [OF assms(1,2,3)])
  fix s1 assume s1: "q_ok s1 R T" "calm t s1" "keeps s s1"
  show "wp (if p = None then QJniObject_new s1
       else case r of
           None \<Rightarrow> QJniObject_new s1
         | Some mid \<Rightarrow> obind (env_CallObject qa t (Some t) p mid args s1) (\<lambda>(s3, res). getCleanJniObject qa t res s3))
      (\<lambda>s2 d. makes t s1 R T (s2\<lparr>qj_pending := False\<rparr>) d)"
  proof (cases p)
    case None
    with new_makes [OF s1(1,2)] show ?thesis by simp
  next
    case (Some a)
    obtain c where c: "refers t s1 a c" by (rule class_refers [OF assms(4) [unfolded Some] s1(3)])
    show ?thesis
      unfolding Some by (simp, rule found_object_makes [OF s1(1) assms(2) s1(2) c args_keeps(1) [OF s1(3) assms(5)] assms(6)])
  qed
qed

subsection \<open>Fields\<close>

text \<open>The signature of a field of type \<open>T\<close>.\<close>

definition field_signature :: "jni_type \<Rightarrow> string \<Rightarrow> bool" where
  "field_signature T signature \<longleftrightarrow> field_fits T (descriptor_type signature)"

definition jni_type_ok :: "jni_type \<Rightarrow> bool" where
  "jni_type_ok T \<longleftrightarrow> isJniPrimitiveType T \<or> reference_type T"

lemma made_signature:
  assumes "jni_type_ok T" and "signature_exists T"
  obtains d where "getTypeSignature T = Inr d" and "field_signature T d" and "descriptor_type d = T"
proof -
  obtain d where "getTypeSignature T = Inr d" "descriptor_type d = T" by (rule getTypeSignature_denotes [OF assms(2)])
  with assms(1) show thesis by (intro that) (auto simp: field_signature_def field_fits_def jni_type_ok_def)
qed

lemma if_found_object:
  "QJniObject_object s d = Inr h \<Longrightarrow>
    if_found r0 r (\<lambda>x s. obind (QJniObject_object s d) (\<lambda>obj. f obj x s)) s = if_found r0 r (\<lambda>x s. f h x s) s"
  by (cases r) (simp_all add: if_found_def)

text \<open>Of an object.\<close>

lemma valid_after:
  assumes "valid_object s d obj cl" and "keeps s s'" and "qj_priv s' = qj_priv s"
  obtains h where "valid_object s' d obj cl" and "QJniObject_object s' d = Inr (Some h)" and "refers t s' h obj"
proof -
  have v: "valid_object s' d obj cl" by (rule valid_object_keeps [OF assms(1,2)]) (simp add: assms(3))
  obtain h where h: "QJniObject_object s' d = Inr (Some h)" "jv_refs (qj_vm s') h = Some (GlobalRef, obj)" by (rule valid_object_ptr [OF v])
  show thesis by (rule that [OF v h(1) refers_global [OF h(2)]])
qed

lemma wp_getField:
  assumes "q_ok s R T'" and "healthy qa" and "typed qa" and "\<not> qj_pending s" and "valid_object s d obj cl" and "isJniPrimitiveType T"
  shows "wp (getField T qa t d f s) (\<lambda>s' r. kept t s R T' s')"
  unfolding getField_def assertJniPrimitiveType_def static_assert_def wp_check
proof (intro conjI assms(6), rule env_kept [OF assms(1,2,4)])
  fix s1 assume s1: "q_ok s1 R T'" "calm t s1" "keeps s s1" "qj_priv s1 = qj_priv s"
  obtain g where g: "getTypeSignature T = Inr g" "descriptor_type g = T" by (rule getTypeSignature_denotes [OF prim_signature [OF assms(6)]])
  obtain h where v: "valid_object s1 d obj cl" "QJniObject_object s1 d = Inr (Some h)" "refers t s1 h obj"
    by (rule valid_after [OF assms(5) s1(3,4)])
  have ty: "qa_field_type qa fid = T" if "qa_field qa cl f g False = Some fid" for fid using typedD(2) [OF assms(3) that] g(2) by simp
  show "wp (obind (getTypeSignature T) (\<lambda>signature.
       obind (getCachedFieldID qa t (Some t) d f signature False s1) (\<lambda>(s1, r).
       if_found 0 r (\<lambda>fid s1.
         obind (QJniObject_object s1 d) (\<lambda>obj. or_zero t (Some t) (getFieldForType T qa t (Some t) obj fid s1))) s1)))
      (\<lambda>s2 r. kept t s1 R T' (s2\<lparr>qj_pending := False\<rparr>))"
    unfolding g(1) obind_Inr wp_obind split_conv for_type [OF assms(6)]
    by (rule wp_getCachedFieldID [OF s1(2) v(1)], unfold if_found_object [OF v(2)], rule found_get_kept [OF s1(1,2) v(3) ty])
qed

lemma wp_setField_sig:
  assumes "q_ok s R T'" and "healthy qa" and "typed qa" and "\<not> qj_pending s" and "valid_object s d obj cl" and "args_ok t s [x]"
    and "jni_type_ok T" and "field_signature T signature"
  shows "wp (setField_sig T qa t d f signature x s) (\<lambda>s' r. kept t s R T' s')"
  unfolding setField_sig_def assertJniType_def static_assert_def wp_check is_convertible_to_jobject_def
proof (intro conjI assms(7) [unfolded jni_type_ok_def], rule env_kept [OF assms(1,2,4)])
  fix s1 assume s1: "q_ok s1 R T'" "calm t s1" "keeps s s1" "qj_priv s1 = qj_priv s"
  obtain h where v: "valid_object s1 d obj cl" "QJniObject_object s1 d = Inr (Some h)" "refers t s1 h obj"
    by (rule valid_after [OF assms(5) s1(3,4)])
  have ty: "field_fits T (qa_field_type qa fid)" if "qa_field qa cl f signature False = Some fid" for fid
    using typedD(2) [OF assms(3) that] assms(8) by (simp add: field_signature_def)
  show "wp (obind (getCachedFieldID qa t (Some t) d f signature False s1) (\<lambda>(s1, r).
       if_found () r (\<lambda>fid s1.
         obind (QJniObject_object s1 d) (\<lambda>obj. then_clear t (Some t) (setFieldForType T qa t (Some t) obj fid x s1))) s1))
      (\<lambda>s2 r. kept t s1 R T' (s2\<lparr>qj_pending := False\<rparr>))"
    unfolding wp_obind split_conv set_for_type [OF assms(7) [unfolded jni_type_ok_def]]
    by (rule wp_getCachedFieldID [OF s1(2) v(1)], unfold if_found_object [OF v(2)],
        rule found_set_kept [where fits_type = "field_fits T", OF s1(1,2) v(3) args_keeps(1) [OF s1(3) assms(6)] ty])
qed

lemma setField_signature: "getTypeSignature T = Inr g \<Longrightarrow> setField T qa t d f x s = setField_sig T qa t d f g x s"
  by (simp add: setField_def setField_sig_def)

lemma wp_getObjectField:
  assumes "q_ok s R T" and "healthy qa" and "typed qa" and "\<not> qj_pending s" and "valid_object s d obj cl"
    and "reference_type (descriptor_type signature)"
  shows "wp (getObjectField qa t d f signature s) (\<lambda>s' e. makes t s R T s' e)"
  unfolding getObjectField_def
proof (rule env_makes [OF assms(1,2,4)])
  fix s1 assume s1: "q_ok s1 R T" "calm t s1" "keeps s s1" "qj_priv s1 = qj_priv s"
  obtain h where v: "valid_object s1 d obj cl" "QJniObject_object s1 d = Inr (Some h)" "refers t s1 h obj"
    by (rule valid_after [OF assms(5) s1(3,4)])
  have ty: "reference_type (qa_field_type qa fid)" if "qa_field qa cl f signature False = Some fid" for fid
    using typedD(2) [OF assms(3) that] assms(6) by simp
  show "wp (obind (getCachedFieldID qa t (Some t) d f signature False s1) (\<lambda>(s1, r).
       case r of
         None \<Rightarrow> QJniObject_new s1
       | Some fid \<Rightarrow>
           obind (QJniObject_object s1 d) (\<lambda>obj.
           obind (env_GetObjectField qa t (Some t) obj fid s1) (\<lambda>(s2, res). getCleanJniObject qa t res s2))))
      (\<lambda>s2 e. makes t s1 R T (s2\<lparr>qj_pending := False\<rparr>) e)"
    unfolding wp_obind [of "getCachedFieldID qa t (Some t) d f signature False s1"] split_conv
    by (rule wp_getCachedFieldID [OF s1(2) v(1)], unfold v(2) obind_Inr,
        rule found_get_object_makes [OF s1(1) assms(2) s1(2) v(3) ty])
qed

text \<open>Of a class that is given by a reference: the code does not test it for null.\<close>

lemma wp_getStaticField_class:
  assumes "q_ok s R T'" and "healthy qa" and "typed qa" and "\<not> qj_pending s" and "usable t a (qj_vm s)" and "isJniPrimitiveType T"
  shows "wp (getStaticField_class T qa t (Some a) f s) (\<lambda>s' r. kept t s R T' s')"
  unfolding getStaticField_class_def assertJniPrimitiveType_def static_assert_def wp_check
proof (intro conjI assms(6), rule env_kept [OF assms(1,2,4)])
  fix s1 assume s1: "q_ok s1 R T'" "calm t s1" "keeps s s1"
  obtain g where g: "getTypeSignature T = Inr g" "descriptor_type g = T" by (rule getTypeSignature_denotes [OF prim_signature [OF assms(6)]])
  obtain c where c: "refers t s1 a c" by (rule class_refers [OF _ s1(3)]) (use assms(5) in \<open>auto simp: class_ok_def\<close>)
  have ty: "qa_field_type qa fid = T" if "qa_field qa c f g True = Some fid" for fid using typedD(2) [OF assms(3) that] g(2) by simp
  show "wp (obind (getTypeSignature T) (\<lambda>signature.
       obind (getFieldID qa t (Some t) (Some a) f signature True s1) (\<lambda>(s1, r).
       if_found 0 r (\<lambda>fid s1. or_zero t (Some t) (getStaticFieldForType T qa t (Some t) (Some a) fid s1)) s1)))
      (\<lambda>s2 r. kept t s1 R T' (s2\<lparr>qj_pending := False\<rparr>))"
    unfolding g(1) obind_Inr wp_obind split_conv for_type [OF assms(6)]
    by (rule refers_lookup_field [OF s1(2) c], rule found_get_kept [OF s1(1,2) c ty])
qed

lemma wp_setStaticField_class_sig:
  assumes "q_ok s R T'" and "healthy qa" and "typed qa" and "\<not> qj_pending s" and "usable t a (qj_vm s)" and "args_ok t s [x]"
    and "jni_type_ok T" and "field_signature T signature"
  shows "wp (setStaticField_class_sig T qa t (Some a) f signature x s) (\<lambda>s' r. kept t s R T' s')"
  unfolding setStaticField_class_sig_def assertJniType_def static_assert_def wp_check is_convertible_to_jobject_def
proof (intro conjI assms(7) [unfolded jni_type_ok_def], rule env_kept [OF assms(1,2,4)])
  fix s1 assume s1: "q_ok s1 R T'" "calm t s1" "keeps s s1"
  obtain c where c: "refers t s1 a c" by (rule class_refers [OF _ s1(3)]) (use assms(5) in \<open>auto simp: class_ok_def\<close>)
  have ty: "field_fits T (qa_field_type qa fid)" if "qa_field qa c f signature True = Some fid" for fid
    using typedD(2) [OF assms(3) that] assms(8) by (simp add: field_signature_def)
  show "wp (obind (getFieldID qa t (Some t) (Some a) f signature True s1) (\<lambda>(s2, r).
       if_found () r (\<lambda>fid s2. then_clear t (Some t) (setStaticFieldForType T qa t (Some t) (Some a) fid x s2)) s2))
      (\<lambda>s2 r. kept t s1 R T' (s2\<lparr>qj_pending := False\<rparr>))"
    unfolding wp_obind split_conv set_for_type [OF assms(7) [unfolded jni_type_ok_def]]
    by (rule refers_lookup_field [OF s1(2) c],
        rule found_set_kept [where fits_type = "field_fits T", OF s1(1,2) c args_keeps(1) [OF s1(3) assms(6)] ty])
qed

lemma setStaticField_class_signature:
  "getTypeSignature T = Inr g \<Longrightarrow> setStaticField_class T qa t p f x s = setStaticField_class_sig T qa t p f g x s"
  by (simp add: setStaticField_class_def setStaticField_class_sig_def)

lemma wp_getStaticObjectField_class:
  assumes "q_ok s R T" and "healthy qa" and "typed qa" and "\<not> qj_pending s" and "usable t a (qj_vm s)"
    and "reference_type (descriptor_type signature)"
  shows "wp (getStaticObjectField_class qa t (Some a) f signature s) (\<lambda>s' e. makes t s R T s' e)"
  unfolding getStaticObjectField_class_def
proof (rule env_makes [OF assms(1,2,4)])
  fix s1 assume s1: "q_ok s1 R T" "calm t s1" "keeps s s1"
  obtain c where c: "refers t s1 a c" by (rule class_refers [OF _ s1(3)]) (use assms(5) in \<open>auto simp: class_ok_def\<close>)
  have ty: "reference_type (qa_field_type qa fid)" if "qa_field qa c f signature True = Some fid" for fid
    using typedD(2) [OF assms(3) that] assms(6) by simp
  show "wp (obind (getFieldID qa t (Some t) (Some a) f signature True s1) (\<lambda>(s2, r).
       case r of
         None \<Rightarrow> QJniObject_new s2
       | Some fid \<Rightarrow> obind (env_GetObjectField qa t (Some t) (Some a) fid s2) (\<lambda>(s3, res). getCleanJniObject qa t res s3)))
      (\<lambda>s2 e. makes t s1 R T (s2\<lparr>qj_pending := False\<rparr>) e)"
    unfolding wp_obind [of "getFieldID qa t (Some t) (Some a) f signature True s1"] split_conv
    by (rule refers_lookup_field [OF s1(2) c], rule found_get_object_makes [OF s1(1) assms(2) s1(2) c ty])
qed

text \<open>Of a class that is given by its name.\<close>

lemma kept_leaked:
  assumes "kept t s1 (insert (h, GlobalRef) R) T s'" and "later s s1" and "qj_priv s1 = qj_priv s" and "(h, GlobalRef) \<notin> R \<union> T"
  shows "leaked s R T s' (Some h)"
  using assms later_trans [of s s1 s'] by (auto simp: kept_def leaked_def)

lemma wp_setStaticField_name_sig:
  assumes "q_ok s R T'" and "healthy qa" and "typed qa" and "\<not> qj_pending s" and "args_ok t s [x]"
    and "jni_type_ok T" and "field_signature T signature"
  shows "wp (setStaticField_name_sig T qa t c f signature x s) (\<lambda>s' r. \<exists>p. leaked s R T' s' p)"
  unfolding setStaticField_name_sig_def assertJniType_def static_assert_def wp_check is_convertible_to_jobject_def
proof (intro conjI assms(6) [unfolded jni_type_ok_def], rule wp_with_class [OF assms(1-4)], goal_cases)
  case (1 s1 h k)
  have ty: "field_fits T (qa_field_type qa fid)" if "qa_field qa k f signature True = Some fid" for fid
    using typedD(2) [OF assms(3) that] assms(7) by (simp add: field_signature_def)
  show ?case
    unfolding getCachedFieldID_class_def wp_obind split_conv set_for_type [OF assms(6) [unfolded jni_type_ok_def]]
    by (rule refers_lookup_field [OF 1(2,7)],
        rule wp_mono [OF found_set_kept [where fits_type = "field_fits T", OF 1(1,2,7) args_keeps(1) [OF 1(3) assms(5)] ty]],
        assumption, rule exI, rule kept_leaked [OF _ 1(4,5,6)])
next
  case (2 s1)
  then show ?case by (auto intro!: exI [where x = None] leaked_None simp: calm_def)
qed

lemma setStaticField_name_signature:
  "getTypeSignature T = Inr g \<Longrightarrow> setStaticField_name T qa t c f x s = setStaticField_name_sig T qa t c f g x s"
  by (simp add: setStaticField_name_def setStaticField_name_sig_def cong: if_cong)

lemma makes_leaves:
  assumes "makes t s1 (tag GlobalRef p \<union> R) T s' e" and "later s s1" and "qj_priv s1 = qj_priv s" and "calm t s1"
    and "tag GlobalRef p \<inter> (R \<union> T) = {}"
  shows "\<exists>p. makes t s (tag GlobalRef p \<union> R) T s' e \<and> tag GlobalRef p \<inter> (R \<union> T) = {}"
  using assms by (intro exI [where x = p]) (auto simp: makes_def intro: made_later)

lemma wp_getStaticObjectField_name:
  assumes "q_ok s R T" and "healthy qa" and "typed qa" and "\<not> qj_pending s" and "reference_type (descriptor_type signature)"
  shows "wp (getStaticObjectField_name qa t c f signature s)
    (\<lambda>s' e. \<exists>p. makes t s (tag GlobalRef p \<union> R) T s' e \<and> tag GlobalRef p \<inter> (R \<union> T) = {})"
  unfolding getStaticObjectField_name_def
proof (rule wp_with_class [OF assms(1-4)], goal_cases)
  case (1 s1 h k)
  have ty: "reference_type (qa_field_type qa fid)" if "qa_field qa k f signature True = Some fid" for fid
    using typedD(2) [OF assms(3) that] assms(5) by simp
  show ?case
    unfolding getCachedFieldID_class_def wp_obind [of "getFieldID qa t (Some t) (Some h) f signature True s1"] split_conv
    by (rule refers_lookup_field [OF 1(2,7)], rule wp_mono [OF found_get_object_makes [OF 1(1) assms(2) 1(2,7) ty]], assumption)
       (rule makes_leaves [where p = "Some h"], use 1 in simp_all)
next
  case (2 s1)
  show ?case
    by (rule wp_mono [OF new_makes [OF 2(1,2)]], rule makes_leaves [where p = None]) (use 2 in simp_all)
qed

subsection \<open>Objects from a class, and from a local reference\<close>

lemma wp_found_new:
  assumes "q_ok s R T" and "healthy qa" and "calm t s" and "refers t s a c" and "args_ok t s args"
    and "\<And>mid. r = Some mid \<Longrightarrow> qa_method_type qa mid = jvoid"
    and "\<And>s' p ob. q_ok s' R (tag GlobalRef p \<union> T) \<Longrightarrow> later s s' \<Longrightarrow> tag GlobalRef p \<inter> (R \<union> T) = {} \<Longrightarrow>
           (p = None \<longleftrightarrow> ob = None) \<Longrightarrow> (\<And>h. p = Some h \<Longrightarrow> jv_refs (qj_vm s') h = Some (GlobalRef, the ob)) \<Longrightarrow>
           qj_priv s' = qj_priv s \<Longrightarrow> t \<in> jv_attached (qj_vm s') \<Longrightarrow> Q s' p"
  shows "wp (if_found None r (make_object qa t (Some t) (Some a) args) s) Q"
proof (cases r)
  case None
  have "Q s None" by (rule assms(7) [where ob = None]) (use assms(1,3) in \<open>auto simp: calm_def\<close>)
  with None show ?thesis by (simp add: if_found_def)
next
  case (Some mid)
  with wp_make_object [OF assms(1-5) assms(6) [OF Some] assms(7)] show ?thesis by (simp add: if_found_def)
qed

text \<open>A private object that owns the references to its object and its class.\<close>

lemma owner_made:
  assumes "q_ok s3 R (tag GlobalRef g \<union> insert (c, GlobalRef) T)" and "later s s3" and "tag GlobalRef g \<inter> (R \<union> insert (c, GlobalRef) T) = {}"
    and "(c, GlobalRef) \<notin> R \<union> T" and "g = None \<longleftrightarrow> ob = None" and "\<And>h. g = Some h \<Longrightarrow> jv_refs (qj_vm s3) h = Some (GlobalRef, the ob)"
    and "qj_priv s3 = qj_priv s"
  defines "p \<equiv> \<lparr>m_jobject = g, m_jclass = Some c, m_own_jclass = True, m_className = []\<rparr>"
  shows "makes t s R T ((fst (new_private p s3))\<lparr>qj_pending := False\<rparr>) (snd (new_private p s3))"
proof -
  let ?s3 = "s3\<lparr>qj_pending := False\<rparr>"
  have o: "own p = tag GlobalRef g \<union> {(c, GlobalRef)}" by (auto simp: own_def p_def)
  have e: "tag GlobalRef g \<union> insert (c, GlobalRef) T - own p = T" using assms(3,4) unfolding o by blast
  have q: "q_ok ?s3 R (tag GlobalRef g \<union> insert (c, GlobalRef) T)" using assms(1) by simp
  have n: "g = Some c \<Longrightarrow> False" using assms(3) by auto
  have "made t s R T (fst (new_private p ?s3)) (snd (new_private p ?s3)) ob"
    by (rule made_new_private [OF q _ _ _ e])
       (use assms(2,5,6,7) n in \<open>auto simp: own_def p_def wf_private_def object_is_def split: option.splits\<close>)
  moreover have "fst (new_private p ?s3) = (fst (new_private p s3))\<lparr>qj_pending := False\<rparr>"
    "snd (new_private p ?s3) = snd (new_private p s3)" by (simp_all add: new_private_def)
  ultimately show ?thesis by (intro makesI [where ob = ob]) simp
qed

lemma wp_QJniObject_of_class_sig:
  assumes "q_ok s R T" and "healthy qa" and "typed qa" and "\<not> qj_pending s" and "class_ok t s p" and "args_ok t s args"
    and "returns signature jvoid"
  shows "wp (QJniObject_of_class_sig qa t p signature args s) (\<lambda>s' d. makes t s R T s' d)"
  unfolding QJniObject_of_class_sig_def
proof (rule env_makes [OF assms(1,2,4)])
  fix s1 assume s1: "q_ok s1 R T" "calm t s1" "keeps s s1"
  let ?new = "\<lambda>g c s3. new_private \<lparr>m_jobject = g, m_jclass = c, m_own_jclass = True, m_className = []\<rparr> s3"
  let ?Q = "\<lambda>s2 d. makes t s1 R T (s2\<lparr>qj_pending := False\<rparr>) d"
  show "wp (if p = None then QJniObject_new s1
       else obind (env_NewGlobalRef qa t (Some t) p s1) (\<lambda>(s1, c).
         obind (if c = None then Inr (s1, None)
                else obind (getMethodID qa t (Some t) c ''<init>'' signature False s1) (\<lambda>(s2, r).
                  if_found None r (make_object qa t (Some t) c args) s2)) (\<lambda>(s3, g). Inr (?new g c s3)))) ?Q"
  proof (cases p)
    case None
    with new_makes [OF s1(1,2)] show ?thesis by simp
  next
    case (Some a)
    obtain k where a: "refers t s1 a k" by (rule class_refers [OF assms(5) [unfolded Some] s1(3)])
    then obtain l where l: "jv_refs (qj_vm s1) a = Some (l, k)" "usable t a (qj_vm s1)" by (auto simp: refers_def)
    have "wp (env_NewGlobalRef qa t (Some t) (Some a) s1) (\<lambda>s2 c.
         wp (if c = None then Inr (s2, None)
                else obind (getMethodID qa t (Some t) c ''<init>'' signature False s2) (\<lambda>(s2, r).
                  if_found None r (make_object qa t (Some t) c args) s2)) (\<lambda>s3 g. wp (Inr (?new g c s3)) ?Q))"
    proof (rule wp_NewGlobalRef [OF s1(1) assms(2) s1(2) l], goal_cases)
      case (1 s2 c)
      have k2: "keeps s1 s2" by (rule keepsI [OF s1(1) 1(1) _ _ 1(2)]) (use 1(5) in auto)
      have a2: "args_ok t s2 args" by (rule args_keeps(1) [OF k2 args_keeps(1) [OF s1(3) assms(6)]])
      have r: "refers t s2 c k" by (rule refers_global [OF 1(4)])
      have "wp (getMethodID qa t (Some t) (Some c) ''<init>'' signature False s2) (\<lambda>s2 r.
         wp (if_found None r (make_object qa t (Some t) (Some c) args) s2) (\<lambda>s3 g. wp (Inr (?new g (Some c) s3)) ?Q))"
      proof (rule refers_lookup [OF 1(6) r], rule wp_found_new [OF 1(1) assms(2) 1(6) r a2], goal_cases)
        case (1 mid)
        then show ?case using typedD(1) [OF assms(3)] assms(7) by (simp add: returns_def)
      next
        case (2 s3 g ob)
        show ?case
          unfolding wp_Inr_pair
          by (rule owner_made [OF 2(1) later_trans [OF 1(2) 2(2)] 2(3) 1(3) 2(4,5)]) (use 2(6) 1(5) in auto)
      qed
      then show ?case by (simp add: wp_obind)
    qed
    with Some show ?thesis by (simp add: wp_obind)
  qed
qed

text \<open>The constructor without arguments, which does not test for a null class.\<close>

lemma wp_QJniObject_of_class:
  assumes "q_ok s R T" and "healthy qa" and "typed qa" and "\<not> qj_pending s" and "class_ok t s p"
  shows "wp (QJniObject_of_class qa t p s) (\<lambda>s' d. makes t s R T s' d)"
proof (cases p)
  case None
  have "wp (with_env qa t (\<lambda>env s.
       obind (env_NewGlobalRef qa t env None s) (\<lambda>(s1, c).
       obind (if c = None then Inr (s1, None)
              else
                obind (getMethodID qa t env c ''<init>'' ''()V'' False s1) (\<lambda>(s2, r).
                if_found None r (make_object qa t env c []) s2)) (\<lambda>(s3, g).
       Inr (new_private \<lparr>m_jobject = g, m_jclass = c, m_own_jclass = True, m_className = []\<rparr> s3)))) s)
      (\<lambda>s' d. makes t s R T s' d)"
  proof (rule env_makes [OF assms(1,2,4)], goal_cases)
    case (1 s1)
    then have "env_NewGlobalRef qa t (Some t) None s1 = Inr (s1, None)"
      by (simp add: env_NewGlobalRef_def jni_ready_def calm_def NewRef_def)
    with new_makes [OF 1(1,2)] show ?case by (simp add: QJniObject_new_def empty_private_def)
  qed
  with None show ?thesis by (simp add: QJniObject_of_class_def)
next
  case (Some a)
  have "QJniObject_of_class qa t (Some a) s = QJniObject_of_class_sig qa t (Some a) ''()V'' [] s"
    by (simp add: QJniObject_of_class_def QJniObject_of_class_sig_def)
  moreover have "returns ''()V'' jvoid" by (simp add: returns_def return_descriptor_def descriptor_type_def)
  ultimately show ?thesis using wp_QJniObject_of_class_sig [OF assms, of "[]" "''()V''"] Some by (simp add: args_ok_def)
qed

lemma QJniObject_of_name_no_args: "QJniObject_of_name qa t c s = QJniObject_of_name_sig qa t c ''()V'' [] s"
  by (simp add: QJniObject_of_name_def QJniObject_of_name_sig_def)

text \<open>A local reference that its owner gives away.\<close>

lemma q_ok_take:
  assumes "q_ok s R T" and "A \<subseteq> R" and "\<And>h. (h, GlobalRef) \<notin> A"
  shows "q_ok s (R - A) (A \<union> T)" and "A \<inter> (R - A \<union> T) = {}"
proof -
  have e: "R - A \<union> (A \<union> T) = R \<union> T" using assms(2) by blast
  show "A \<inter> (R - A \<union> T) = {}" using q_okD(2) [OF assms(1)] assms(2) by blast
  show "q_ok s (R - A) (A \<union> T)"
    using q_okD [OF assms(1)] assms(2,3) by (intro q_okI) (auto simp: e)
qed

lemma wp_env_attached:
  assumes "g_jvm (qj_vm s)" and "t \<in> jv_attached (qj_vm s)" and "wp (body (Some t) s) (\<lambda>s' r. Q (s'\<lparr>qj_pending := False\<rparr>) r)"
  shows "wp (with_env qa t body s) Q"
  using assms by (simp add: with_env_def QJniEnvironment_new_def wp_obind QJniEnvironment_destroy_def wp_checkAndClear)

lemma wp_fromLocalRef:
  assumes "q_ok s R {}" and "healthy qa" and "\<not> qj_pending s" and "\<And>h. p = Some h \<Longrightarrow> (h, LocalRef t) \<in> R"
  shows "wp (fromLocalRef qa t p s) (\<lambda>s' d. makes t s (R - tag (LocalRef t) p) {} s' d)"
proof (cases p)
  case None
  show ?thesis
    unfolding fromLocalRef_def wp_obind split_conv
  proof (rule wp_QJniObject_of [where ob = None, OF assms(1-3)], use None in simp, use None in simp, goal_cases)
    case (1 s1 d)
    then have q: "q_ok s1 R {}" "\<not> qj_pending s1" "later s s1" "qj_priv s d = None"
      and pr: "\<exists>p. qj_priv s1 = (qj_priv s)(d \<mapsto> (p, 1)) \<and> wf_private p \<and> object_is s1 p None" by (auto simp: made_def)
    show ?case
    proof (rule wp_with_env [OF q(1) assms(2) q(2)], goal_cases)
      case (1 s2)
      have o: "object_is s2 p' ob = object_is s1 p' ob" for p' ob using 1(6) by (simp add: object_is_def split: option.split)
      have "made t s R {} s2 d None"
        using 1(1,3,4) pr q(4) later_trans [OF q(3) 1(2)] by (auto simp: made_def calm_def o)
      with None show ?case by (auto intro: makes_clear makesI)
    qed
  qed
next
  case (Some h)
  note l = assms(4) [OF Some]
  obtain obj where r: "jv_refs (qj_vm s) h = Some (LocalRef t, obj)" by (rule q_ok_alive [OF assms(1), of h "LocalRef t"]) (use l in auto)
  have j: "jrefs_ok (qj_vm s)" using q_okD(1) [OF assms(1)] by (simp add: jv_ok_def)
  have c: "calm t s" using jrefs_okD(3) [OF j r] assms(3) by (simp add: calm_def)
  note q = q_ok_take [OF assms(1), of "tag (LocalRef t) (Some h)"]
  have q: "q_ok s (R - tag (LocalRef t) p) (tag (LocalRef t) p \<union> {})" "tag (LocalRef t) p \<inter> (R - tag (LocalRef t) p \<union> {}) = {}"
    using q_ok_take [OF assms(1), of "tag (LocalRef t) p"] l Some by auto
  have "wp (obind (QJniObject_of qa t p s) (\<lambda>(s1, obj). obind (env_DeleteRef t (Some t) (LocalRef t) p s1) (\<lambda>(s2, u). Inr (s2, obj))))
      (\<lambda>s' d. makes t s (R - tag (LocalRef t) p) {} s' d)"
    by (rule wp_of_local [OF q assms(2) c, where ob = "Some obj"]) (use r Some in \<open>auto intro: makesI\<close>)
  moreover have "wp (QJniObject_of qa t p s) (\<lambda>s1 d. g_jvm (qj_vm s1) \<and> t \<in> jv_attached (qj_vm s1))"
  proof (rule wp_QJniObject_of [where ob = "Some obj" and k = "LocalRef t", OF assms(1-3)])
    fix s1 d assume "made t s R {} s1 d (Some obj)"
    then show "g_jvm (qj_vm s1) \<and> t \<in> jv_attached (qj_vm s1)"
      using calmD(1) [OF c] q_okD(1) [of s1 R "{}"] by (auto simp: made_def jv_ok_def jrefs_ok_def)
  qed (use r Some in \<open>auto simp: usable_local\<close>)
  ultimately have "wp (QJniObject_of qa t p s) (\<lambda>s1 d. (g_jvm (qj_vm s1) \<and> t \<in> jv_attached (qj_vm s1)) \<and>
      wp (env_DeleteRef t (Some t) (LocalRef t) p s1) (\<lambda>s2 u. makes t s (R - tag (LocalRef t) p) {} s2 d))"
    unfolding wp_obind by (auto simp: wp_def split: sum.splits prod.splits)
  then show ?thesis
    unfolding fromLocalRef_def wp_obind split_conv
    by (rule wp_mono) (auto intro!: wp_env_attached elim!: wp_mono intro: makes_clear)
qed

subsection \<open>Comparison and assignment\<close>

text \<open>The reference of an object, if it has one, is alive.\<close>

lemma private_usable:
  assumes "q_ok s R T" and "qj_priv s d = Some (p, n)" and "m_jobject p = Some h"
  shows "usable t h (qj_vm s)"
  by (rule q_ok_object_alive [OF assms]) (rule usable_global)

lemma deref_opt_ok: "(\<And>h. p = Some h \<Longrightarrow> usable t h (qj_vm s)) \<Longrightarrow> deref_opt t p s = Inr (map_option (\<lambda>h. snd (the (jv_refs (qj_vm s) h))) p)"
  by (cases p) (auto simp: deref_opt_def deref_def)

lemma wp_isSameObject:
  assumes "q_ok s R T" and "healthy qa" and "\<not> qj_pending s" and "qj_priv s d = Some (p, n)" and "class_ok t s x"
    and "\<And>s' b. kept t s R T s' \<Longrightarrow> t \<in> jv_attached (qj_vm s') \<Longrightarrow> keeps s s' \<Longrightarrow> (m_jobject p = x \<Longrightarrow> b) \<Longrightarrow> Q s' b"
  shows "wp (isSameObject qa t d x s) Q"
  unfolding isSameObject_def
proof (rule wp_with_env [OF assms(1-3)], goal_cases)
  case (1 s1)
  have k: "keeps s s1" by (rule keeps_refs [OF 1(6)])
  have p: "QJniObject_object s1 d = Inr (m_jobject p)" using 1(4) assms(4) by (simp add: QJniObject_object_def private_at_def)
  have u: "usable t h (qj_vm s1)" if "m_jobject p = Some h" for h using private_usable [OF 1(1), of d p n h t] 1(4) assms(4) that by simp
  have x: "usable t h (qj_vm s1)" if "x = Some h" for h using usable_keeps [OF k] assms(5) that by (simp add: class_ok_def)
  have kp: "kept t s R T s1" using 1 by (simp add: kept_def calm_def)
  have n: "\<not> qj_pending s1" "t \<in> jv_attached (qj_vm s1)" using 1(3) by (simp_all add: calm_def)
  have "jni_ready t (Some t) s1 = Inr ()" using n by (simp add: jni_ready_def)
  then show ?case
    using assms(6) [OF kp n(2) k] by (simp add: p deref_opt_ok [OF u] deref_opt_ok [OF x] no_pending [OF n(1)])
qed

text \<open>What is alive stays alive when the references of the other private objects stay.\<close>

lemma q_ok_keeps_slot:
  assumes "q_ok s R T" and "q_ok s' R' T'" and "R \<union> T \<subseteq> R' \<union> T'" and "later s s'" and "jv_refs (qj_vm s) h = Some (k, obj)"
    and "\<And>x hl. slot (qj_priv s) x = Some hl \<Longrightarrow> holder_obj hl = Some h \<Longrightarrow> slot (qj_priv s') x = Some hl"
  shows "jv_refs (qj_vm s') h = Some (k, obj)"
proof -
  have "jv_refs (qj_vm s') h \<noteq> None"
  proof (cases "unowned (held (slot (qj_priv s))) h")
    case True
    with q_okD(4) [OF assms(1,5)] assms(3) q_ok_alive [OF assms(2), of h k] show ?thesis by blast
  next
    case False
    then obtain x hl where x: "slot (qj_priv s) x = Some hl" "holder_obj hl = Some h" by (auto simp: unowned_def held_def)
    from assms(6) [OF this] x(2) show ?thesis
      using q_okD(1) [OF assms(2)] owned_okD(2) [of "jv_refs (qj_vm s')" "slot (qj_priv s')" "R' \<union> T'" x hl h]
      by (auto simp: jv_ok_def)
  qed
  moreover have "h < jv_next (qj_vm s)"
    using q_okD(1) [OF assms(1)] jrefs_okD(2) [of "qj_vm s" h] assms(5) by (force simp: jv_ok_def)
  ultimately show ?thesis using assms(4,5) by (auto simp: later_def)
qed

text \<open>An object may not be given the reference to its own class while it is the only copy: the reference is deleted
  before the new object is made.\<close>

definition assign_ok :: "thread_id \<Rightarrow> qjni \<Rightarrow> nat \<Rightarrow> ptr \<Rightarrow> bool" where
  "assign_ok t s d x \<longleftrightarrow>
     (case qj_priv s d of
        None \<Rightarrow> False
      | Some (p, n) \<Rightarrow> class_ok t s x \<and> (n = 1 \<and> m_own_jclass p \<and> x \<noteq> None \<longrightarrow> m_jclass p \<noteq> x))"

definition reassigned :: "qjni \<Rightarrow> (nat \<times> ref_kind) set \<Rightarrow> (nat \<times> ref_kind) set \<Rightarrow> qjni \<Rightarrow> nat \<Rightarrow> bool" where
  "reassigned s R T s' d \<longleftrightarrow>
     q_ok s' R T \<and> \<not> qj_pending s' \<and>
     (\<forall>e p n. qj_priv s' e = Some (p, n) \<longrightarrow> wf_private p \<or> (\<exists>m. qj_priv s e = Some (p, m)))"

lemma made_reassigned:
  assumes "made t s2 R T s' e ob" and "qj_priv s2 = (qj_priv s)(d := if n = 1 then None else Some (p, n - 1))"
    and "qj_priv s d = Some (p, n)"
  shows "reassigned s R T (s'\<lparr>qj_pending := b\<rparr>\<lparr>qj_pending := False\<rparr>) e"
  using assms unfolding made_def reassigned_def by (auto split: if_splits)

lemma wp_assign:
  assumes "q_ok s R T" and "healthy qa" and "\<not> qj_pending s" and "assign_ok t s d x"
  shows "wp (assign qa t d x s) (\<lambda>s' e. reassigned s R T s' e)"
proof -
  obtain p n where p: "qj_priv s d = Some (p, n)" "class_ok t s x" "n = 1 \<Longrightarrow> m_own_jclass p \<Longrightarrow> x \<noteq> None \<Longrightarrow> m_jclass p \<noteq> x"
    using assms(4) by (auto simp: assign_ok_def split: option.splits)
  show ?thesis
    unfolding assign_def wp_obind split_conv
  proof (rule wp_isSameObject [OF assms(1-3) p(1,2)])
    fix s1 same assume s1: "kept t s R T s1" "t \<in> jv_attached (qj_vm s1)" "keeps s s1" "m_jobject p = x \<Longrightarrow> same"
    have q1: "q_ok s1 R T" "\<not> qj_pending s1" "qj_priv s1 = qj_priv s" using s1(1) by (simp_all add: kept_def)
    show "wp (if same then Inr (s1, d)
     else obind (QJniObject_destroy qa t d s1) (\<lambda>(s2, u).
       if x = None then QJniObject_new s2
       else with_env qa t (\<lambda>env s3. obind (adopt qa t env x s3) (\<lambda>(s4, p). Inr (new_private p s4))) s2)) (\<lambda>s' e. reassigned s R T s' e)"
    proof (cases same)
      case True
      with q1 show ?thesis by (auto simp: reassigned_def)
    next
      case False
      then have ne: "m_jobject p \<noteq> x" using s1(4) by blast
      have "wp (QJniObject_destroy qa t d s1) (\<lambda>s2 u. wp (if x = None then QJniObject_new s2
         else with_env qa t (\<lambda>env s3. obind (adopt qa t env x s3) (\<lambda>(s4, p). Inr (new_private p s4))) s2) (\<lambda>s' e. reassigned s R T s' e))"
      proof (rule wp_QJniObject_destroy [OF q1(1) assms(2) q1(2), of d p n], simp add: q1(3) p(1), goal_cases)
        case (1 s2)
        note pr = 1(4) [unfolded q1(3)]
        show ?case
        proof (cases x)
          case None
          have "wp (QJniObject_new s2) (\<lambda>s' e. reassigned s R T s' e)"
          proof (rule wp_QJniObject_new [where t = t, OF 1(1,3)])
            fix s' e assume "made t s2 R T s' e None"
            from made_reassigned [OF this pr p(1), of "qj_pending s'"] this show "reassigned s R T s' e"
              by (simp add: made_def no_pending)
          qed
          with None show ?thesis by simp
        next
          case (Some a)
          have "usable t a (qj_vm s)" using p(2) Some by (simp add: class_ok_def)
          from usable_keeps [OF s1(3) this] obtain k obj where a: "jv_refs (qj_vm s1) a = Some (k, obj)" "usable t a (qj_vm s1)"
            by (cases "jv_refs (qj_vm s1) a") (auto simp: usable_def)
          have sl: "slot (qj_priv s2) y = Some hl" if y: "slot (qj_priv s1) y = Some hl" "holder_obj hl = Some a" for y hl
          proof (cases "y div 2 = d \<and> n = 1")
            case True
            then have "hl = ScopedJavaGlobalRef (if even y then m_jobject p else if m_own_jclass p then m_jclass p else None)"
              using y(1) q1(3) p(1) by (auto simp: slot_def)
            with y(2) ne p(3) True Some show ?thesis by (auto split: if_splits)
          next
            case False
            with y(1) show ?thesis using pr q1(3) p(1) by (auto simp: slot_def)
          qed
          have r: "jv_refs (qj_vm s2) a = Some (k, obj)" by (rule q_ok_keeps_slot [OF q1(1) 1(1) _ 1(2) a(1)]) (simp, rule sl)
          have u: "usable t a (qj_vm s2)" using usable_same [of "qj_vm s2" a "qj_vm s1" t] r a by simp
          have "wp (with_env qa t (\<lambda>env s3. obind (adopt qa t env (Some a) s3) (\<lambda>(s4, p). Inr (new_private p s4))) s2)
              (\<lambda>s' e. reassigned s R T s' e)"
          proof (rule wp_env_attached)
            show "g_jvm (qj_vm s2)" using q_okD(1) [OF 1(1)] by (simp add: jv_ok_def jrefs_ok_def)
            show t2: "t \<in> jv_attached (qj_vm s2)" by (rule later_attached [OF 1(2) s1(2)])
            show "wp (obind (adopt qa t (Some t) (Some a) s2) (\<lambda>(s4, p). Inr (new_private p s4)))
                (\<lambda>s' e. reassigned s R T (s'\<lparr>qj_pending := False\<rparr>) e)"
              by (rule wp_adopt_new [OF 1(1) assms(2) calmI [OF t2 1(3)] r u])
                 (use made_reassigned [OF _ pr p(1), of t R T _ _ _ False] in simp)
          qed
          with Some show ?thesis by simp
        qed
      qed
      with False show ?thesis by (simp add: wp_obind)
    qed
  qed
qed

lemma wp_QJniObject_eq:
  assumes "q_ok s R T" and "healthy qa" and "\<not> qj_pending s" and "qj_priv s d \<noteq> None" and "qj_priv s e \<noteq> None"
  shows "wp (QJniObject_eq qa t d e s) (\<lambda>s' b. kept t s R T s')" and "wp (QJniObject_neq qa t d e s) (\<lambda>s' b. kept t s R T s')"
proof -
  obtain p n p' n' where p: "qj_priv s d = Some (p, n)" "qj_priv s e = Some (p', n')" using assms(4,5) by auto
  have x: "class_ok t s (m_jobject p')" using private_usable [OF assms(1) p(2)] by (simp add: class_ok_def)
  have o: "QJniObject_object s e = Inr (m_jobject p')" using p(2) by (simp add: QJniObject_object_def private_at_def)
  have "wp (isSameObject_as qa t d e s) (\<lambda>s' b. kept t s R T s')"
    using wp_isSameObject [OF assms(1-3) p(1) x, of "\<lambda>s' b. kept t s R T s'"] by (simp add: isSameObject_as_def o)
  then show "wp (QJniObject_eq qa t d e s) (\<lambda>s' b. kept t s R T s')" "wp (QJniObject_neq qa t d e s) (\<lambda>s' b. kept t s R T s')"
    by (simp_all add: QJniObject_eq_def QJniObject_neq_def wp_obind)
qed

subsection \<open>Texts\<close>

text \<open>The Java method \<open>toString\<close> answers with a string whose characters can be had.\<close>

definition to_string_ok :: "qt_java \<Rightarrow> qjni \<Rightarrow> nat \<Rightarrow> bool" where
  "to_string_ok qa s d \<longleftrightarrow>
     (\<forall>obj cl. valid_object s d obj cl \<longrightarrow>
        (\<exists>mid str. qa_method qa cl ''toString'' ''()Ljava/lang/String;'' False = Some mid \<and>
           object_of (qa_answer qa (qj_calls s @ [Java_Call mid obj []])) = Some str \<and>
           qa_chars qa (qj_calls s @ [Java_Call mid obj []]) str \<noteq> None))"

lemma string_type: "reference_type (descriptor_type (return_descriptor ''()Ljava/lang/String;''))"
  by (simp add: return_descriptor_def descriptor_type_def class_type_def reference_type_def)

lemma wp_convertJString:
  assumes "q_ok s R T" and "healthy qa" and "\<not> qj_pending s" and "jv_refs (qj_vm s) h = Some (GlobalRef, str)"
    and "qa_chars qa (qj_calls s) str \<noteq> None"
  shows "wp (qt_convertJString qa t (Some h) s) (\<lambda>s' r. kept t s R T s')"
  unfolding qt_convertJString_def
proof (rule wp_with_env [OF assms(1-3)], goal_cases)
  case (1 s1)
  obtain cs where "qa_chars qa (qj_calls s1) str = Some cs" using assms(5) 1(5) by auto
  moreover have "jv_refs (qj_vm s1) h = Some (GlobalRef, str)" using 1(6) assms(4) by simp
  ultimately show ?case
    using 1 by (simp add: jni_ready_def calm_def deref_def usable_global kept_def)
qed

lemma wp_QJniObject_toString:
  assumes "q_ok s R T" and "healthy qa" and "typed qa" and "\<not> qj_pending s" and "qj_priv s d = Some (p, n)"
    and "m_jobject p \<noteq> None \<Longrightarrow> valid_object s d obj cl" and "to_string_ok qa s d"
  shows "wp (QJniObject_toString qa t d s) (\<lambda>s' r. kept t s R T s')"
proof (cases "m_jobject p")
  case None
  with assms(1,4,5) show ?thesis by (simp add: QJniObject_toString_def QJniObject_isValid_def private_at_def kept_def)
next
  case (Some h)
  then have v: "valid_object s d obj cl" using assms(6) by simp
  obtain mid str where m: "qa_method qa cl ''toString'' ''()Ljava/lang/String;'' False = Some mid"
    "object_of (qa_answer qa (qj_calls s @ [Java_Call mid obj []])) = Some str"
    "qa_chars qa (qj_calls s @ [Java_Call mid obj []]) str \<noteq> None"
    using assms(7) v unfolding to_string_ok_def by blast
  have mk: "callObjectMethod0 jstring qa t d ''toString'' = callObjectMethod qa t d ''toString'' ''()Ljava/lang/String;'' []"
    by (simp add: fun_eq_iff callObjectMethod0_def assertJniObjectType_def static_assert_def is_convertible_to_jobject_def
      reference_type_def no_args_def)
  have "wp (with_object qa t (callObjectMethod qa t d ''toString'' ''()Ljava/lang/String;'' []) (\<lambda>str s1.
         obind (QJniObject_object s1 str) (\<lambda>p. qt_convertJString qa t p s1)) s) (\<lambda>s' r. kept t s R T s')"
  proof (rule wp_with_object [where R = R and T = T, OF assms(2)], rule wp_callObjectMethod [where cs = "qj_calls s @ [Java_Call mid obj []]" and
      r = "qa_answer qa (qj_calls s @ [Java_Call mid obj []])", OF assms(1,2,4) v], goal_cases)
    case 1
    show ?case by (simp add: args_ok_def)
  next
    case (2 mid')
    then show ?case using typedD(1) [OF assms(3) 2] string_type by simp
  next
    case 3
    show ?case using m(1) by (simp add: call_result_def Let_def)
  next
    case (4 s1 e)
    obtain h1 where h1: "QJniObject_object s1 e = Inr (Some h1)" "jv_refs (qj_vm s1) h1 = Some (GlobalRef, str)"
      by (rule made_object_ptr [OF 4(1)]) (use m(2) in auto)
    have q1: "q_ok s1 R T" "\<not> qj_pending s1" using 4(1) by (simp_all add: made_def)
    have "wp (qt_convertJString qa t (Some h1) s1) (\<lambda>s' r. kept t s1 R T s')"
      by (rule wp_convertJString [OF q1(1) assms(2) q1(2) h1(2)]) (use m(3) 4(2) in simp)
    then have "wp (qt_convertJString qa t (Some h1) s1) (\<lambda>s2 r. \<exists>R' T'. q_ok s2 R' T' \<and> \<not> qj_pending s2 \<and> later s1 s2 \<and>
        qj_priv s2 = qj_priv s1 \<and> (\<forall>s'. q_ok s' R' T' \<longrightarrow> later s s' \<longrightarrow> \<not> qj_pending s' \<longrightarrow> qj_priv s' = qj_priv s \<longrightarrow>
          qj_calls s' = qj_calls s2 \<longrightarrow> later s2 s' \<longrightarrow> kept t s R T s'))"
      by (rule wp_mono) (auto simp: kept_def)
    with 4(1) h1(1) show ?case by auto
  qed
  with Some assms(5) show ?thesis by (simp add: QJniObject_toString_def QJniObject_isValid_def private_at_def mk)
qed

subsection \<open>The environment\<close>

text \<open>A reference of the running operation may be null.\<close>

lemma wp_DeleteRef_opt:
  assumes "q_ok s R (tag k p \<union> T)" and "tag k p \<inter> T = {}" and "t \<in> jv_attached (qj_vm s)"
    and "\<And>s'. q_ok s' R T \<Longrightarrow> later s s' \<Longrightarrow> qj_priv s' = qj_priv s \<Longrightarrow> qj_pending s' = qj_pending s \<Longrightarrow>
           t \<in> jv_attached (qj_vm s') \<Longrightarrow> Q s' ()"
  shows "wp (env_DeleteRef t (Some t) k p s) Q"
proof (cases p)
  case None
  with assms show ?thesis by simp
next
  case (Some h)
  have e: "insert (h, k) T - {(h, k)} = T" using assms(2) Some by auto
  show ?thesis unfolding Some
    by (rule wp_DeleteRef [where T = "insert (h, k) T"]) (use assms(1,3) e in \<open>auto simp: Some intro!: assms(4)\<close>)
qed

lemma wp_NewGlobalRef_opt:
  assumes "q_ok s R T" and "healthy qa" and "calm t s" and "\<And>a. p = Some a \<Longrightarrow> jv_refs (qj_vm s) a = Some (k, ob) \<and> usable t a (qj_vm s)"
    and "\<And>s' q. q_ok s' R (tag GlobalRef q \<union> T) \<Longrightarrow> later s s' \<Longrightarrow> tag GlobalRef q \<inter> (R \<union> T) = {} \<Longrightarrow> (q = None \<longleftrightarrow> p = None) \<Longrightarrow>
           qj_priv s' = qj_priv s \<Longrightarrow> calm t s' \<Longrightarrow> Q s' q"
  shows "wp (env_NewGlobalRef qa t (Some t) p s) Q"
proof (cases p)
  case None
  then have "env_NewGlobalRef qa t (Some t) p s = Inr (s, None)"
    using assms(3) by (simp add: env_NewGlobalRef_def jni_ready_def calm_def NewRef_def)
  with assms(1,3) None show ?thesis by (simp add: assms(5))
next
  case (Some a)
  show ?thesis unfolding Some
    by (rule wp_NewGlobalRef [OF assms(1-3), of a k ob]) (use assms(4) [OF Some] Some in \<open>auto intro!: assms(5)\<close>)
qed

lemma wp_FindClass:
  assumes "q_ok s R T" and "healthy qa" and "calm t s"
    and "\<And>s' p. q_ok s' R (tag (LocalRef t) p \<union> T) \<Longrightarrow> tag (LocalRef t) p \<inter> (R \<union> T) = {} \<Longrightarrow> (qj_pending s' \<longleftrightarrow> p = None) \<Longrightarrow>
           (\<And>h. p = Some h \<Longrightarrow> \<exists>c. jv_refs (qj_vm s') h = Some (LocalRef t, c)) \<Longrightarrow>
           later s s' \<Longrightarrow> t \<in> jv_attached (qj_vm s') \<Longrightarrow> qj_priv s' = qj_priv s \<Longrightarrow> Q s' p"
  shows "wp (env_FindClass qa t (Some t) name s) Q"
proof (cases "qa_find_class qa name")
  case None
  have "Q (s\<lparr>qj_pending := True\<rparr>) None" by (rule assms(4)) (use assms(1,3) in \<open>simp_all add: calm_def\<close>)
  with None assms(3) show ?thesis by (simp add: env_FindClass_def jni_ready_def calm_def wp_simps)
next
  case (Some c)
  have t: "t \<in> jv_attached (qj_vm s)" using assms(3) by (simp add: calm_def)
  obtain s' h where l: "q_local qa t c s = (s', Some h)" "q_ok s' R (insert (h, LocalRef t) T)" "later s s'"
    "(h, LocalRef t) \<notin> R \<union> T" "jv_refs (qj_vm s') h = Some (LocalRef t, c)" "qj_priv s' = qj_priv s"
    "qj_pending s' = qj_pending s" "t \<in> jv_attached (qj_vm s')"
    by (rule q_local_ok [OF assms(1,2) t])
  have "Q s' (Some h)" by (rule assms(4)) (use l assms(3) in \<open>auto simp: calm_def\<close>)
  with Some assms(3) l(1) show ?thesis by (simp add: env_FindClass_def jni_ready_def calm_def wp_simps)
qed

text \<open>A class that the system class loader does not find is asked of the application's.\<close>

lemma wp_findClass:
  assumes "q_ok s R T" and "healthy qa" and "typed qa" and "calm t s"
  shows "wp (QtAndroidPrivate_findClass qa t c (Some t) s) (\<lambda>s' p. loaded s R T s' p)"
proof -
  have load: "wp (with_env qa t (\<lambda>env' s6. loadClass qa t d env' True s6) s5) (\<lambda>s' p. loaded s R T s' p)"
    if s5: "q_ok s5 R T" "later s s5" "calm t s5" "qj_priv s5 = qj_priv s" for s5 d
  proof (rule wp_env_attached)
    show "g_jvm (qj_vm s5)" using q_okD(1) [OF s5(1)] by (simp add: jv_ok_def jrefs_ok_def)
    show "t \<in> jv_attached (qj_vm s5)" by (rule calmD(1) [OF s5(3)])
    show "wp (loadClass qa t d (Some t) True s5) (\<lambda>s' p. loaded s R T (s'\<lparr>qj_pending := False\<rparr>) p)"
      by (rule wp_loadClass [OF s5(1) assms(2,3) s5(3)]) (use s5 in \<open>auto simp: loaded_def intro: later_trans\<close>)
  qed
  let ?rest = "\<lambda>s5 clazz. if clazz = None then with_env qa t (\<lambda>env' s6. loadClass qa t (toBinaryEncClassName c) env' True s6) s5
      else Inr (s5, clazz)"
  have "wp (env_FindClass qa t (Some t) c s) (\<lambda>s1 f.
      wp (checkAndClearExceptions t (Some t) s1) (\<lambda>s2 cleared.
      wp (if cleared then Inr (s2, None)
          else obind (env_NewGlobalRef qa t (Some t) f s2) (\<lambda>(s3, clazz).
               obind (env_DeleteRef t (Some t) (LocalRef t) f s3) (\<lambda>(s4, u). Inr (s4, clazz))))
        (\<lambda>s5 clazz. wp (?rest s5 clazz) (\<lambda>s' p. loaded s R T s' p))))"
  proof (rule wp_FindClass [OF assms(1,2,4)], goal_cases)
    case (1 s1 f)
    show ?case
    proof (cases f)
      case None
      have "wp (?rest (s1\<lparr>qj_pending := False\<rparr>) None) (\<lambda>s' p. loaded s R T s' p)"
        using load [of "s1\<lparr>qj_pending := False\<rparr>"] 1 None by simp
      with None 1(3) show ?thesis by (simp add: wp_checkAndClear)
    next
      case (Some h)
      obtain k where k: "jv_refs (qj_vm s1) h = Some (LocalRef t, k)" using 1(4) [OF Some] by blast
      have c1: "calm t s1" using 1(3,6) Some by (simp add: calm_def)
      have q1: "q_ok s1 R (insert (h, LocalRef t) T)" using 1(1) Some by simp
      have "wp (env_NewGlobalRef qa t (Some t) (Some h) s1) (\<lambda>s3 clazz.
          wp (env_DeleteRef t (Some t) (LocalRef t) (Some h) s3) (\<lambda>s4 u. wp (?rest s4 clazz) (\<lambda>s' p. loaded s R T s' p)))"
      proof (rule wp_NewGlobalRef [OF q1 assms(2) c1 k usable_local [OF k]], goal_cases)
        case n: (1 s3 g)
        have e: "insert (g, GlobalRef) (insert (h, LocalRef t) T) - {(h, LocalRef t)} = insert (g, GlobalRef) T"
          using 1(2) Some by auto
        show ?case
          by (rule wp_DeleteRef [OF n(1) calmD(1) [OF n(6)]], simp)
             (use 1(5,7) n e in \<open>auto simp: loaded_def calm_def intro: later_trans\<close>)
      qed
      with Some c1 show ?thesis by (simp add: wp_obind wp_checkAndClear calm_def no_pending)
    qed
  qed
  then show ?thesis by (simp add: QtAndroidPrivate_findClass_def Let_def wp_obind)
qed

lemma wp_registerNativeMethods:
  assumes "q_ok s R T" and "calm t s" and "refers t s a c"
  shows "wp (registerNativeMethods qa t (Some t) (Some a) s) (\<lambda>s' b. kept t s R T s')"
  using assms by (auto simp: registerNativeMethods_def jni_ready_def calm_def deref_def refers_def wp_checkAndClear wp_obind kept_def)

text \<open>The operations of an environment, in a block of its own. The class that is found belongs to the caller.\<close>

lemma wp_env_leaked:
  assumes "q_ok s R T" and "healthy qa" and "\<not> qj_pending s"
    and "\<And>s1. q_ok s1 R T \<Longrightarrow> calm t s1 \<Longrightarrow> wp (body (Some t) s1) (\<lambda>s2 r. \<exists>p. leaked s1 R T s2 p)"
  shows "wp (with_env qa t body s) (\<lambda>s' r. \<exists>p. leaked s R T s' p)"
proof (rule wp_with_env [OF assms(1-3)], goal_cases)
  case (1 s1)
  show ?case
    by (rule wp_mono [OF assms(4) [OF 1(1,3)]]) (use 1(2,4) in \<open>fastforce simp: leaked_def intro: later_trans\<close>)
qed

lemma wp_find_class_block:
  assumes "q_ok s R T" and "healthy qa" and "typed qa" and "\<not> qj_pending s"
  shows "wp (with_env qa t (\<lambda>env. QJniEnvironment_findClass qa t env c) s) (\<lambda>s' r. \<exists>p. leaked s R T s' p)"
proof (rule wp_env_leaked [OF assms(1,2,4)], goal_cases)
  case (1 s1)
  show ?case
    unfolding QJniEnvironment_findClass_def
    by (rule wp_mono [OF wp_findClass [OF 1(1) assms(2,3) 1(2)]]) (blast dest: loaded_leaked)
qed

lemma wp_register_block:
  assumes "q_ok s R T" and "healthy qa" and "typed qa" and "\<not> qj_pending s"
  shows "wp (with_env qa t (\<lambda>env. registerNativeMethods_name qa t env c) s) (\<lambda>s' r. \<exists>p. leaked s R T s' p)"
proof (rule wp_env_leaked [OF assms(1,2,4)], goal_cases)
  case (1 s1)
  show ?case
    unfolding registerNativeMethods_name_def QJniEnvironment_findClass_def wp_obind split_conv
  proof (rule wp_mono [OF wp_findClass [OF 1(1) assms(2,3) 1(2)]])
    fix s2 p assume l: "loaded s1 R T s2 p"
    note a = after_load [OF 1 l] and k = loaded_leaked [OF l]
    show "wp (if p = None then Inr (s2, False) else registerNativeMethods qa t (Some t) p s2) (\<lambda>s' r. \<exists>p. leaked s1 R T s' p)"
    proof (cases p)
      case None
      with k show ?thesis by auto
    next
      case (Some h)
      obtain x where x: "refers t s2 h x" by (rule loaded_refers [OF l [unfolded Some]])
      have "wp (registerNativeMethods qa t (Some t) (Some h) s2) (\<lambda>s' r. \<exists>p. leaked s1 R T s' p)"
        by (rule wp_mono [OF wp_registerNativeMethods [OF a(1,2) x]])
           (use k Some in \<open>auto simp: leaked_def kept_def intro!: exI [where x = "Some h"] intro: later_trans\<close>)
      with Some show ?thesis by simp
    qed
  qed
qed

text \<open>The lookups of the environment test for a null class.\<close>

lemma wp_env_find:
  assumes "q_ok s R T" and "calm t s" and "class_ok t s p"
  shows "wp (env_find tab t (Some t) p name signature static s) (\<lambda>s' r. kept t s R T s')"
proof (cases p)
  case None
  with assms(1,2) show ?thesis by (simp add: env_find_def kept_def calm_def)
next
  case (Some a)
  obtain c where "refers t s a c" by (rule class_refers [OF assms(3) [unfolded Some], of s]) (rule keeps_refs [OF refl])
  then obtain k where k: "jv_refs (qj_vm s) a = Some (k, c)" "usable t a (qj_vm s)" by (auto simp: refers_def)
  have "wp (env_GetID tab t (Some t) (Some a) name signature static s) (\<lambda>s1 r. wp (checkAndClearExceptions t (Some t) s1)
      (\<lambda>s2 cleared. kept t s R T s2))"
    by (rule wp_GetID [OF assms(2) k]) (use assms(1) in \<open>simp add: wp_checkAndClear kept_def\<close>)
  with Some show ?thesis by (simp add: env_find_def wp_obind)
qed

lemma wp_env_find_block:
  assumes "q_ok s R T" and "healthy qa" and "\<not> qj_pending s" and "class_ok t s p"
  shows "wp (with_env qa t (\<lambda>env. env_find tab t env p name signature static) s) (\<lambda>s' r. kept t s R T s')"
proof (rule env_kept [OF assms(1-3)], goal_cases)
  case (1 s1)
  have "class_ok t s1 p" using assms(4) usable_keeps [OF 1(3)] by (auto simp: class_ok_def)
  from wp_env_find [OF 1(1,2) this] show ?case by (rule wp_mono) (auto simp: kept_def)
qed

text \<open>The version of Android is asked for once.\<close>

lemma wp_androidSdkVersion:
  assumes "q_ok s R T" and "healthy qa" and "typed qa" and "\<not> qj_pending s"
  shows "wp (androidSdkVersion qa t s) (\<lambda>s' r. \<exists>p. q_ok s' (tag GlobalRef p \<union> R) T \<and> \<not> qj_pending s' \<and> qj_priv s' = qj_priv s \<and>
    tag GlobalRef p \<inter> (R \<union> T) = {})"
proof (cases "sdkVersion s = 0")
  case True
  have i: "isJniPrimitiveType jint" by (simp add: isJniPrimitiveType_def)
  have v: "q_ok (s'\<lparr>sdkVersion := n\<rparr>) R' T = q_ok s' R' T" for s' n R' by (simp add: q_ok_def)
  have "wp (getStaticField_name jint qa t ''android/os/Build$VERSION'' ''SDK_INT'' s) (\<lambda>s1 n. \<exists>p. q_ok (s1\<lparr>sdkVersion := n\<rparr>) (tag GlobalRef p \<union> R) T \<and>
      \<not> qj_pending s1 \<and> qj_priv s1 = qj_priv s \<and> tag GlobalRef p \<inter> (R \<union> T) = {})"
    by (rule wp_getStaticField_name [OF assms i]) (unfold v leaked_def, blast)
  with True show ?thesis by (simp add: androidSdkVersion_def wp_obind)
next
  case False
  with assms show ?thesis by (auto simp: androidSdkVersion_def intro!: exI [where x = None])
qed

end
