(* ===== verification/Qt_Jni_Steps.thy ===== *)
theory Qt_Jni_Steps
  imports Qt_Jni_Calls
begin

section \<open>A program that uses QJniObject\<close>

text \<open>
  What the library does after it has been loaded, as a sequence of operations on the references of the virtual
  machine. Every reference that is alive belongs to one private object, or is one of the \<open>strays\<close>: what Java
  has passed in, the class loader, and the references to classes that nobody deletes.
\<close>

subsection \<open>Loading the library\<close>

lemma q_ok_loader:
  assumes "q_ok s R (A \<union> T)" and "A \<inter> T = {}" and "\<And>h. p = Some h \<Longrightarrow> (h, GlobalRef) \<in> A \<union> R"
  shows "q_ok (s\<lparr>g_jClassLoader := p\<rparr>) (A \<union> R) T"
  using q_okD [OF q_ok_leak [OF assms(1,2)]] assms(3) by (intro q_okI) auto

text \<open>What \<open>initJNI\<close> leaves: on success only the reference to the class loader, otherwise perhaps the reference to
  the class.\<close>

definition loader_ready :: "thread_id \<Rightarrow> qjni \<Rightarrow> qjni \<Rightarrow> bool" where
  "loader_ready t s s' \<longleftrightarrow>
     q_ok s' (tag GlobalRef (g_jClassLoader s')) {} \<and> \<not> qj_pending s' \<and> t \<in> jv_attached (qj_vm s') \<and> qj_priv s' = qj_priv s"

definition loader_failed :: "thread_id \<Rightarrow> qjni \<Rightarrow> qjni \<Rightarrow> bool" where
  "loader_failed t s s' \<longleftrightarrow>
     (\<exists>p. q_ok s' (tag (LocalRef t) p) {}) \<and> \<not> qj_pending s' \<and> t \<in> jv_attached (qj_vm s') \<and> qj_priv s' = qj_priv s"

lemma loader_failedI:
  "q_ok s' {} (tag (LocalRef t) p) \<Longrightarrow> \<not> qj_pending s' \<Longrightarrow> t \<in> jv_attached (qj_vm s') \<Longrightarrow> qj_priv s' = qj_priv s \<Longrightarrow> loader_failed t s s'"
  using q_ok_leak [of s' "{}" "tag (LocalRef t) p" "{}"] by (auto simp: loader_failed_def)

definition loading :: "thread_id \<Rightarrow> qjni \<Rightarrow> qjni \<Rightarrow> int \<times> LogSettings \<Rightarrow> bool" where
  "loading t s s' x \<longleftrightarrow> (fst x = 0 \<and> loader_ready t s s') \<or> (fst x = JNI_ERR \<and> loader_failed t s s')"

lemma wp_keep_class_loader:
  assumes "q_ok s {} (tag (LocalRef t) l \<union> tag (LocalRef t) p)" and "tag (LocalRef t) l \<inter> tag (LocalRef t) p = {}" and "healthy qa"
    and "calm t s" and "\<And>h. l = Some h \<Longrightarrow> jv_refs (qj_vm s) h = Some (LocalRef t, ob)" and "qj_priv s = qj_priv s0"
  shows "wp (keep_class_loader qa t (Some t) g p l s) (loading t s0)"
  unfolding keep_class_loader_def wp_obind split_conv
proof (rule wp_NewGlobalRef_opt [OF assms(1,3,4)])
  show "jv_refs (qj_vm s) a = Some (LocalRef t, ob) \<and> usable t a (qj_vm s)" if "l = Some a" for a
    using assms(5) [OF that] usable_local by auto
  fix s1 q
  assume s1: "q_ok s1 {} (tag GlobalRef q \<union> (tag (LocalRef t) l \<union> tag (LocalRef t) p))" "qj_priv s1 = qj_priv s" "calm t s1"
  let ?s1 = "s1\<lparr>g_jClassLoader := q\<rparr>"
  have "q_ok ?s1 (tag GlobalRef q \<union> {}) (tag (LocalRef t) l \<union> tag (LocalRef t) p)"
    by (rule q_ok_loader [OF s1(1)]) (auto simp: tag_def)
  then have q1: "q_ok ?s1 (tag GlobalRef q) (tag (LocalRef t) l \<union> tag (LocalRef t) p)" by simp
  have t1: "t \<in> jv_attached (qj_vm ?s1)" using s1(3) by (simp add: calm_def)
  show "wp (env_DeleteRef t (Some t) (LocalRef t) l ?s1) (\<lambda>s2 u. wp (env_DeleteRef t (Some t) (LocalRef t) p s2) (\<lambda>s3 u.
      wp (checkAndClearExceptions t (Some t) s3) (\<lambda>s4 cleared.
      wp (if cleared then Inr (s4, JNI_ERR, g) else Inr (s4, 0, SetLogSettings (g\<lparr>min_log_level := LOG_INFO\<rparr>) g)) (loading t s0))))"
  proof (rule wp_DeleteRef_opt [OF q1 assms(2) t1], goal_cases)
    case (1 s2)
    have q2: "q_ok s2 (tag GlobalRef q) (tag (LocalRef t) p \<union> {})" using 1(1) by simp
    show ?case
    proof (rule wp_DeleteRef_opt [OF q2 _ 1(5)], goal_cases)
      case (2 s3)
      moreover have "\<not> qj_pending s3" using 1(4) 2(4) s1(3) by (simp add: calm_def)
      moreover have "g_jClassLoader s3 = q" using 1(2) 2(2) by (simp add: later_def)
      ultimately show ?case using 1(3) s1(2) assms(6) by (simp add: wp_checkAndClear no_pending loading_def loader_ready_def)
    qed simp
  qed
qed

lemma wp_ask_class_loader:
  assumes "q_ok s {} (tag (LocalRef t) (Some h))" and "healthy qa" and "typed qa" and "calm t s"
    and "jv_refs (qj_vm s) h = Some (LocalRef t, c)" and "qj_priv s = qj_priv s0"
  shows "wp (ask_class_loader qa t (Some t) g (Some h) s) (loading t s0)"
  unfolding ask_class_loader_def wp_obind split_conv
proof (rule wp_GetID [OF assms(4,5) usable_local [OF assms(5)]], cases "qa_method qa c ''classLoader'' ''()Ljava/lang/ClassLoader;'' True", goal_cases)
  case 1
  have "loader_failed t s0 s" by (rule loader_failedI [OF assms(1)]) (use assms(4,6) in \<open>auto simp: calm_def\<close>)
  with 1 assms(4) show ?case by (simp add: wp_checkAndClear loading_def calm_def no_pending)
next
  case (2 mid)
  have ty: "reference_type (qa_method_type qa mid)"
    using typedD(1) [OF assms(3) 2] by (simp add: return_descriptor_def descriptor_type_def class_type_def reference_type_def)
  have rf: "refers t s h c" using assms(5) usable_local [OF assms(5)] by (simp add: refers_def)
  obtain cs v where cr: "(cs, v) = call_result qa (qj_calls s) (Some mid) c (map (arg_val s) [])" by (metis surj_pair)
  have "wp (env_CallObject qa t (Some t) (Some h) mid [] s) (\<lambda>s3 l. wp (checkAndClearExceptions t (Some t) s3) (\<lambda>s4 cleared.
      wp (if cleared then Inr (s4, JNI_ERR, g) else keep_class_loader qa t (Some t) g (Some h) l s4) (loading t s0)))"
  proof (rule wp_CallObject [OF assms(1,2,4) rf _ ty cr], simp add: args_ok_def, goal_cases)
    case (1 s3 l)
    show ?case
    proof (cases "qj_pending s3")
      case True
      have "loader_failed t s0 (s3\<lparr>qj_pending := False\<rparr>)"
        by (rule loader_failedI [where p = "Some h"]) (use 1 True assms(6) in auto)
      with True show ?thesis by (simp add: wp_checkAndClear loading_def)
    next
      case False
      have "wp (keep_class_loader qa t (Some t) g (Some h) l s3) (loading t s0)"
        by (rule wp_keep_class_loader [OF 1(1) _ assms(2) _ 1(5)]) (use 1 False assms(6) in \<open>auto simp: calm_def\<close>)
      with False show ?thesis by (simp add: wp_checkAndClear no_pending)
    qed
  qed
  with 2 assms(4) show ?case by (simp add: wp_checkAndClear no_pending calm_def wp_obind)
qed

lemma wp_initJNI:
  assumes "q_ok (s\<lparr>qj_vm := (qj_vm s)\<lparr>g_jvm := True\<rparr>\<rparr>) {} {}" and "healthy qa" and "typed qa" and "calm t s"
  shows "wp (initJNI qa t (Some t) g s) (loading t s)"
  unfolding initJNI_def wp_obind split_conv
proof (rule wp_FindClass [OF assms(1,2)], goal_cases)
  case 1
  show ?case using assms(4) by (simp add: calm_def)
next
  case (2 s1 p)
  show ?case
  proof (cases p)
    case None
    have "loader_failed t s (s1\<lparr>qj_pending := False\<rparr>)" by (rule loader_failedI [where p = None]) (use 2 None in auto)
    with 2(3) None show ?thesis by (simp add: wp_checkAndClear loading_def)
  next
    case (Some h)
    obtain c where r: "jv_refs (qj_vm s1) h = Some (LocalRef t, c)" using 2(4) [OF Some] by blast
    have "wp (ask_class_loader qa t (Some t) g (Some h) s1) (loading t s)"
      by (rule wp_ask_class_loader [OF _ assms(2,3) _ r]) (use 2 Some in \<open>auto simp: calm_def\<close>)
    with 2(3) Some show ?thesis by (simp add: wp_checkAndClear no_pending)
  qed
qed

subsection \<open>Operations\<close>

text \<open>What a program does with the library: the constructors, the assignment, the comparisons and the public operations of
  \<open>QJniObject\<close> (the names that end in 0 are the variants whose signature the templates make), the operations of
  \<open>QJniEnvironment\<close> and \<open>androidSdkVersion\<close>. The operations that only read a member of the private object are left out,
  and so is \<open>callMethod<T>(const char*)\<close>, which compiles for no type. \<open>Pass_In\<close> is Java's part: it calls a native method
  with an object.\<close>

datatype making =
    New_Object
  | Object_Of ptr
  | Object_Of_Text "byte list"
  | Object_Of_Local ptr
  | Object_Of_Name string string "jarg list"
  | Object_Of_Name0 string
  | Object_Of_Class ptr string "jarg list"
  | Object_Of_Class0 ptr

datatype handling =
    Copy_Object nat
  | Drop_Object nat
  | Assign nat ptr
  | Equal nat nat
  | Not_Equal nat nat
  | To_Text nat

datatype calling =
    Call_Number jni_type nat string string "jarg list"
  | Call_Void nat string string "jarg list"
  | Call_Void0 nat string
  | Call_For_Object nat string string "jarg list"
  | Call_For_Object0 jni_type nat string
  | Static_Number jni_type string string string "jarg list"
  | Static_Number0 jni_type string string
  | Static_Void string string string "jarg list"
  | Static_Void0 string string
  | Static_For_Object string string string "jarg list"
  | Static_For_Object0 jni_type string string
  | Class_Number jni_type ptr string string "jarg list"
  | Class_Number0 jni_type ptr string
  | Class_Void ptr string string "jarg list"
  | Class_Void0 ptr string
  | Class_For_Object ptr string string "jarg list"
  | Class_For_Object0 jni_type ptr string
  | Id_Number jni_type ptr "nat option" "jarg list"
  | Id_Void ptr "nat option" "jarg list"
  | Id_For_Object ptr "nat option" "jarg list"

datatype accessing =
    Number_Field jni_type nat string
  | Object_Field nat string string
  | Object_Field0 jni_type nat string
  | Static_Number_Field jni_type string string
  | Static_Object_Field string string string
  | Static_Object_Field0 jni_type string string
  | Class_Number_Field jni_type ptr string
  | Class_Object_Field ptr string string
  | Class_Object_Field0 jni_type ptr string
  | Set_Field jni_type nat string string jarg
  | Set_Field0 jni_type nat string jarg
  | Set_Static_Field jni_type string string string jarg
  | Set_Static_Field0 jni_type string string jarg
  | Set_Class_Field jni_type ptr string string jarg
  | Set_Class_Field0 jni_type ptr string jarg

datatype asking =
    Class_Test string
  | Sdk_Version
  | Find_Class string
  | Find_Method ptr string string
  | Find_Static_Method ptr string string
  | Find_Field ptr string string
  | Find_Static_Field ptr string string
  | Register_Natives string
  | Register_Class_Natives ptr

datatype qt_op =
    Pass_In nat
  | Making making
  | Handling handling
  | Calling calling
  | Accessing accessing
  | Asking asking

definition state_of :: "(qjni \<times> 'r) outcome \<Rightarrow> qjni outcome" where
  "state_of m = obind m (\<lambda>(s, r). Inr s)"

primrec run_making :: "qt_java \<Rightarrow> thread_id \<Rightarrow> making \<Rightarrow> qjni \<Rightarrow> qjni outcome" where
  "run_making qa t New_Object s = state_of (QJniObject_new s)"
| "run_making qa t (Object_Of p) s = state_of (QJniObject_of qa t p s)"
| "run_making qa t (Object_Of_Text str) s = state_of (fromString qa t str s)"
| "run_making qa t (Object_Of_Local p) s = state_of (fromLocalRef qa t p s)"
| "run_making qa t (Object_Of_Name c sig args) s = state_of (QJniObject_of_name_sig qa t c sig args s)"
| "run_making qa t (Object_Of_Name0 c) s = state_of (QJniObject_of_name qa t c s)"
| "run_making qa t (Object_Of_Class p sig args) s = state_of (QJniObject_of_class_sig qa t p sig args s)"
| "run_making qa t (Object_Of_Class0 p) s = state_of (QJniObject_of_class qa t p s)"

primrec run_handling :: "qt_java \<Rightarrow> thread_id \<Rightarrow> handling \<Rightarrow> qjni \<Rightarrow> qjni outcome" where
  "run_handling qa t (Copy_Object d) s = state_of (QJniObject_copy d s)"
| "run_handling qa t (Drop_Object d) s = state_of (QJniObject_destroy qa t d s)"
| "run_handling qa t (Assign d p) s = state_of (assign qa t d p s)"
| "run_handling qa t (Equal d e) s = state_of (QJniObject_eq qa t d e s)"
| "run_handling qa t (Not_Equal d e) s = state_of (QJniObject_neq qa t d e s)"
| "run_handling qa t (To_Text d) s = state_of (QJniObject_toString qa t d s)"

primrec run_calling :: "qt_java \<Rightarrow> thread_id \<Rightarrow> calling \<Rightarrow> qjni \<Rightarrow> qjni outcome" where
  "run_calling qa t (Call_Number T d m sig args) s = state_of (callMethod T qa t d m sig args s)"
| "run_calling qa t (Call_Void d m sig args) s = state_of (callMethod_void qa t d m sig args s)"
| "run_calling qa t (Call_Void0 d m) s = state_of (callMethod0_void qa t d m s)"
| "run_calling qa t (Call_For_Object d m sig args) s = state_of (callObjectMethod qa t d m sig args s)"
| "run_calling qa t (Call_For_Object0 T d m) s = state_of (callObjectMethod0 T qa t d m s)"
| "run_calling qa t (Static_Number T c m sig args) s = state_of (callStaticMethod_name T qa t c m sig args s)"
| "run_calling qa t (Static_Number0 T c m) s = state_of (callStaticMethod0_name T qa t c m s)"
| "run_calling qa t (Static_Void c m sig args) s = state_of (callStaticMethod_name_void qa t c m sig args s)"
| "run_calling qa t (Static_Void0 c m) s = state_of (callStaticMethod0_name_void qa t c m s)"
| "run_calling qa t (Static_For_Object c m sig args) s = state_of (callStaticObjectMethod_name qa t c m sig args s)"
| "run_calling qa t (Static_For_Object0 T c m) s = state_of (callStaticObjectMethod0_name T qa t c m s)"
| "run_calling qa t (Class_Number T p m sig args) s = state_of (callStaticMethod_class T qa t p m sig args s)"
| "run_calling qa t (Class_Number0 T p m) s = state_of (callStaticMethod0_class T qa t p m s)"
| "run_calling qa t (Class_Void p m sig args) s = state_of (callStaticMethod_class_void qa t p m sig args s)"
| "run_calling qa t (Class_Void0 p m) s = state_of (callStaticMethod0_class_void qa t p m s)"
| "run_calling qa t (Class_For_Object p m sig args) s = state_of (callStaticObjectMethod_class qa t p m sig args s)"
| "run_calling qa t (Class_For_Object0 T p m) s = state_of (callStaticObjectMethod0_class T qa t p m s)"
| "run_calling qa t (Id_Number T p mid args) s = state_of (callStaticMethod_id T qa t p mid args s)"
| "run_calling qa t (Id_Void p mid args) s = state_of (callStaticMethod_id_void qa t p mid args s)"
| "run_calling qa t (Id_For_Object p mid args) s = state_of (callStaticObjectMethod_id qa t p mid args s)"

primrec run_accessing :: "qt_java \<Rightarrow> thread_id \<Rightarrow> accessing \<Rightarrow> qjni \<Rightarrow> qjni outcome" where
  "run_accessing qa t (Number_Field T d f) s = state_of (getField T qa t d f s)"
| "run_accessing qa t (Object_Field d f sig) s = state_of (getObjectField qa t d f sig s)"
| "run_accessing qa t (Object_Field0 T d f) s = state_of (getObjectField0 T qa t d f s)"
| "run_accessing qa t (Static_Number_Field T c f) s = state_of (getStaticField_name T qa t c f s)"
| "run_accessing qa t (Static_Object_Field c f sig) s = state_of (getStaticObjectField_name qa t c f sig s)"
| "run_accessing qa t (Static_Object_Field0 T c f) s = state_of (getStaticObjectField0_name T qa t c f s)"
| "run_accessing qa t (Class_Number_Field T p f) s = state_of (getStaticField_class T qa t p f s)"
| "run_accessing qa t (Class_Object_Field p f sig) s = state_of (getStaticObjectField_class qa t p f sig s)"
| "run_accessing qa t (Class_Object_Field0 T p f) s = state_of (getStaticObjectField0_class T qa t p f s)"
| "run_accessing qa t (Set_Field T d f sig x) s = state_of (setField_sig T qa t d f sig x s)"
| "run_accessing qa t (Set_Field0 T d f x) s = state_of (setField T qa t d f x s)"
| "run_accessing qa t (Set_Static_Field T c f sig x) s = state_of (setStaticField_name_sig T qa t c f sig x s)"
| "run_accessing qa t (Set_Static_Field0 T c f x) s = state_of (setStaticField_name T qa t c f x s)"
| "run_accessing qa t (Set_Class_Field T p f sig x) s = state_of (setStaticField_class_sig T qa t p f sig x s)"
| "run_accessing qa t (Set_Class_Field0 T p f x) s = state_of (setStaticField_class T qa t p f x s)"

primrec run_asking :: "qt_java \<Rightarrow> thread_id \<Rightarrow> asking \<Rightarrow> qjni \<Rightarrow> qjni outcome" where
  "run_asking qa t (Class_Test c) s = state_of (isClassAvailable qa t c s)"
| "run_asking qa t Sdk_Version s = state_of (androidSdkVersion qa t s)"
| "run_asking qa t (Find_Class c) s = state_of (with_env qa t (\<lambda>env. QJniEnvironment_findClass qa t env c) s)"
| "run_asking qa t (Find_Method p m sig) s = state_of (with_env qa t (\<lambda>env. findMethod qa t env p m sig) s)"
| "run_asking qa t (Find_Static_Method p m sig) s = state_of (with_env qa t (\<lambda>env. findStaticMethod qa t env p m sig) s)"
| "run_asking qa t (Find_Field p f sig) s = state_of (with_env qa t (\<lambda>env. findField qa t env p f sig) s)"
| "run_asking qa t (Find_Static_Field p f sig) s = state_of (with_env qa t (\<lambda>env. findStaticField qa t env p f sig) s)"
| "run_asking qa t (Register_Natives c) s = state_of (with_env qa t (\<lambda>env. registerNativeMethods_name qa t env c) s)"
| "run_asking qa t (Register_Class_Natives p) s = state_of (with_env qa t (\<lambda>env. registerNativeMethods qa t env p) s)"

primrec run_op :: "qt_java \<Rightarrow> thread_id \<Rightarrow> qt_op \<Rightarrow> qjni \<Rightarrow> qjni outcome" where
  "run_op qa t (Pass_In obj) s = Inr (fst (q_local qa t obj s))"
| "run_op qa t (Making x) s = run_making qa t x s"
| "run_op qa t (Handling x) s = run_handling qa t x s"
| "run_op qa t (Calling x) s = run_calling qa t x s"
| "run_op qa t (Accessing x) s = run_accessing qa t x s"
| "run_op qa t (Asking x) s = run_asking qa t x s"

lemmas run_ops = run_making.simps [THEN trans [OF run_op.simps(2)]]
  run_handling.simps [THEN trans [OF run_op.simps(3)]]
  run_calling.simps [THEN trans [OF run_op.simps(4)]]
  run_accessing.simps [THEN trans [OF run_op.simps(5)]]
  run_asking.simps [THEN trans [OF run_op.simps(6)]]

text \<open>What the caller has to see to: objects exist, those that are called or read are valid, references are null (where the
  code tests it) or ones that this thread may use, the signature is that of the operation, a local reference that is given
  away is alive and of this thread, \<open>toString\<close> answers with a string, and an object is not given the reference to its own
  class while it is the only copy.\<close>

definition object_exists :: "qjni \<Rightarrow> nat \<Rightarrow> bool" where
  "object_exists s d \<longleftrightarrow> qj_priv s d \<noteq> None"

definition object_valid :: "qjni \<Rightarrow> nat \<Rightarrow> bool" where
  "object_valid s d \<longleftrightarrow> QJniObject_isValid s d = Inr True"

definition class_live :: "thread_id \<Rightarrow> qjni \<Rightarrow> ptr \<Rightarrow> bool" where
  "class_live t s p \<longleftrightarrow> p \<noteq> None \<and> class_ok t s p"

definition local_or_null :: "thread_id \<Rightarrow> qjni \<Rightarrow> ptr \<Rightarrow> bool" where
  "local_or_null t s p \<longleftrightarrow> (case p of None \<Rightarrow> True | Some h \<Rightarrow> map_option fst (jv_refs (qj_vm s) h) = Some (LocalRef t))"

definition id_returns :: "qt_java \<Rightarrow> nat option \<Rightarrow> (jni_type \<Rightarrow> bool) \<Rightarrow> bool" where
  "id_returns qa r fits_type \<longleftrightarrow> (case r of None \<Rightarrow> True | Some mid \<Rightarrow> fits_type (qa_method_type qa mid))"

definition object_type :: "jni_type \<Rightarrow> bool" where
  "object_type T \<longleftrightarrow> reference_type T \<and> signature_exists T"

definition value_type :: "jni_type \<Rightarrow> bool" where
  "value_type T \<longleftrightarrow> jni_type_ok T \<and> signature_exists T"

definition value_signature :: "jni_type \<Rightarrow> string \<Rightarrow> bool" where
  "value_signature T sig \<longleftrightarrow> jni_type_ok T \<and> field_signature T sig"

primrec making_ok :: "qt_java \<Rightarrow> thread_id \<Rightarrow> qjni \<Rightarrow> making \<Rightarrow> bool" where
  "making_ok qa t s New_Object = True"
| "making_ok qa t s (Object_Of p) = class_ok t s p"
| "making_ok qa t s (Object_Of_Text x) = True"
| "making_ok qa t s (Object_Of_Local p) = local_or_null t s p"
| "making_ok qa t s (Object_Of_Name c sig args) = (args_ok t s args \<and> returns sig jvoid)"
| "making_ok qa t s (Object_Of_Name0 x) = True"
| "making_ok qa t s (Object_Of_Class p sig args) = (class_ok t s p \<and> args_ok t s args \<and> returns sig jvoid)"
| "making_ok qa t s (Object_Of_Class0 p) = class_ok t s p"

primrec handling_ok :: "qt_java \<Rightarrow> thread_id \<Rightarrow> qjni \<Rightarrow> handling \<Rightarrow> bool" where
  "handling_ok qa t s (Copy_Object d) = object_exists s d"
| "handling_ok qa t s (Drop_Object d) = object_exists s d"
| "handling_ok qa t s (Assign d p) = assign_ok t s d p"
| "handling_ok qa t s (Equal d e) = (object_exists s d \<and> object_exists s e)"
| "handling_ok qa t s (Not_Equal d e) = (object_exists s d \<and> object_exists s e)"
| "handling_ok qa t s (To_Text d) = (object_exists s d \<and> to_string_ok qa s d)"

primrec calling_ok :: "qt_java \<Rightarrow> thread_id \<Rightarrow> qjni \<Rightarrow> calling \<Rightarrow> bool" where
  "calling_ok qa t s (Call_Number T d m sig args) = (object_valid s d \<and> args_ok t s args \<and> isJniPrimitiveType T \<and> returns sig T)"
| "calling_ok qa t s (Call_Void d m sig args) = (object_valid s d \<and> args_ok t s args \<and> returns sig jvoid)"
| "calling_ok qa t s (Call_Void0 d m) = object_valid s d"
| "calling_ok qa t s (Call_For_Object d m sig args) = (object_valid s d \<and> args_ok t s args \<and> returns_object sig)"
| "calling_ok qa t s (Call_For_Object0 T d m) = (object_valid s d \<and> object_type T)"
| "calling_ok qa t s (Static_Number T c m sig args) = (args_ok t s args \<and> isJniPrimitiveType T \<and> returns sig T)"
| "calling_ok qa t s (Static_Number0 T c m) = isJniPrimitiveType T"
| "calling_ok qa t s (Static_Void c m sig args) = (args_ok t s args \<and> returns sig jvoid)"
| "calling_ok qa t s (Static_Void0 x0 x1) = True"
| "calling_ok qa t s (Static_For_Object c m sig args) = (args_ok t s args \<and> returns_object sig)"
| "calling_ok qa t s (Static_For_Object0 T c m) = object_type T"
| "calling_ok qa t s (Class_Number T p m sig args) = (class_ok t s p \<and> args_ok t s args \<and> isJniPrimitiveType T \<and> returns sig T)"
| "calling_ok qa t s (Class_Number0 T p m) = (class_ok t s p \<and> isJniPrimitiveType T)"
| "calling_ok qa t s (Class_Void p m sig args) = (class_ok t s p \<and> args_ok t s args \<and> returns sig jvoid)"
| "calling_ok qa t s (Class_Void0 p m) = class_ok t s p"
| "calling_ok qa t s (Class_For_Object p m sig args) = (class_ok t s p \<and> args_ok t s args \<and> returns_object sig)"
| "calling_ok qa t s (Class_For_Object0 T p m) = (class_ok t s p \<and> object_type T)"
| "calling_ok qa t s (Id_Number T p r args) = (class_ok t s p \<and> args_ok t s args \<and> isJniPrimitiveType T \<and> id_returns qa r (\<lambda>T'. T' = T))"
| "calling_ok qa t s (Id_Void p r args) = (class_ok t s p \<and> args_ok t s args \<and> id_returns qa r (\<lambda>T. T = jvoid))"
| "calling_ok qa t s (Id_For_Object p r args) = (class_ok t s p \<and> args_ok t s args \<and> id_returns qa r reference_type)"

primrec accessing_ok :: "qt_java \<Rightarrow> thread_id \<Rightarrow> qjni \<Rightarrow> accessing \<Rightarrow> bool" where
  "accessing_ok qa t s (Number_Field T d f) = (object_valid s d \<and> isJniPrimitiveType T)"
| "accessing_ok qa t s (Object_Field d f sig) = (object_valid s d \<and> reference_type (descriptor_type sig))"
| "accessing_ok qa t s (Object_Field0 T d f) = (object_valid s d \<and> object_type T)"
| "accessing_ok qa t s (Static_Number_Field T c f) = isJniPrimitiveType T"
| "accessing_ok qa t s (Static_Object_Field c f sig) = reference_type (descriptor_type sig)"
| "accessing_ok qa t s (Static_Object_Field0 T c f) = object_type T"
| "accessing_ok qa t s (Class_Number_Field T p f) = (class_live t s p \<and> isJniPrimitiveType T)"
| "accessing_ok qa t s (Class_Object_Field p f sig) = (class_live t s p \<and> reference_type (descriptor_type sig))"
| "accessing_ok qa t s (Class_Object_Field0 T p f) = (class_live t s p \<and> object_type T)"
| "accessing_ok qa t s (Set_Field T d f sig x) = (object_valid s d \<and> args_ok t s [x] \<and> value_signature T sig)"
| "accessing_ok qa t s (Set_Field0 T d f x) = (object_valid s d \<and> args_ok t s [x] \<and> value_type T)"
| "accessing_ok qa t s (Set_Static_Field T c f sig x) = (args_ok t s [x] \<and> value_signature T sig)"
| "accessing_ok qa t s (Set_Static_Field0 T c f x) = (args_ok t s [x] \<and> value_type T)"
| "accessing_ok qa t s (Set_Class_Field T p f sig x) = (class_live t s p \<and> args_ok t s [x] \<and> value_signature T sig)"
| "accessing_ok qa t s (Set_Class_Field0 T p f x) = (class_live t s p \<and> args_ok t s [x] \<and> value_type T)"

primrec asking_ok :: "qt_java \<Rightarrow> thread_id \<Rightarrow> qjni \<Rightarrow> asking \<Rightarrow> bool" where
  "asking_ok qa t s (Class_Test x) = True"
| "asking_ok qa t s Sdk_Version = True"
| "asking_ok qa t s (Find_Class x) = True"
| "asking_ok qa t s (Find_Method p m sig) = class_ok t s p"
| "asking_ok qa t s (Find_Static_Method p m sig) = class_ok t s p"
| "asking_ok qa t s (Find_Field p f sig) = class_ok t s p"
| "asking_ok qa t s (Find_Static_Field p f sig) = class_ok t s p"
| "asking_ok qa t s (Register_Natives x) = True"
| "asking_ok qa t s (Register_Class_Natives p) = class_live t s p"

primrec op_ok :: "qt_java \<Rightarrow> thread_id \<Rightarrow> qjni \<Rightarrow> qt_op \<Rightarrow> bool" where
  "op_ok qa t s (Pass_In obj) = (t \<in> jv_attached (qj_vm s))"
| "op_ok qa t s (Making x) = making_ok qa t s x"
| "op_ok qa t s (Handling x) = handling_ok qa t s x"
| "op_ok qa t s (Calling x) = calling_ok qa t s x"
| "op_ok qa t s (Accessing x) = accessing_ok qa t s x"
| "op_ok qa t s (Asking x) = asking_ok qa t s x"

text \<open>The operations that are given the name of a class keep a reference to it, and the local reference that
  \<open>fromLocalRef\<close> is given goes.\<close>

definition names_class :: "qt_op \<Rightarrow> bool" where
  [simp]: "names_class op =
     (case op of
          Making (Object_Of_Name c sig args) \<Rightarrow> True
        | Making (Object_Of_Name0 c) \<Rightarrow> True
        | Calling (Static_Number T c m sig args) \<Rightarrow> True
        | Calling (Static_Number0 T c m) \<Rightarrow> True
        | Calling (Static_Void c m sig args) \<Rightarrow> True
        | Calling (Static_Void0 c m) \<Rightarrow> True
        | Calling (Static_For_Object c m sig args) \<Rightarrow> True
        | Calling (Static_For_Object0 T c m) \<Rightarrow> True
        | Accessing (Static_Number_Field T c f) \<Rightarrow> True
        | Accessing (Static_Object_Field c f sig) \<Rightarrow> True
        | Accessing (Static_Object_Field0 T c f) \<Rightarrow> True
        | Accessing (Set_Static_Field T c f sig x) \<Rightarrow> True
        | Accessing (Set_Static_Field0 T c f x) \<Rightarrow> True
        | Asking (Class_Test c) \<Rightarrow> True
        | Asking (Sdk_Version) \<Rightarrow> True
        | Asking (Find_Class c) \<Rightarrow> True
        | Asking (Register_Natives c) \<Rightarrow> True
      | _ \<Rightarrow> False)"

definition passes_in :: "qt_op \<Rightarrow> bool" where
  [simp]: "passes_in op = (case op of Pass_In obj \<Rightarrow> True | _ \<Rightarrow> False)"

definition consumed :: "thread_id \<Rightarrow> qt_op \<Rightarrow> (nat \<times> ref_kind) set" where
  [simp]: "consumed t op = (case op of Making (Object_Of_Local p) \<Rightarrow> tag (LocalRef t) p | _ \<Rightarrow> {})"

text \<open>The state of the library after \<open>JNI_OnLoad\<close> has succeeded, and after any number of operations on any threads.\<close>

definition qt_start :: "thread_id \<Rightarrow> qjni" where
  "qt_start t =
     \<lparr>qj_vm = \<lparr>g_jvm = False, tls_jni_detach = Map.empty, jv_attached = {t}, jv_refs = Map.empty, jv_next = 0,
        jv_frames = (\<lambda>t. []), jv_collected = {}, jv_vars = Map.empty\<rparr>,
      qj_pending = False, qj_calls = [], qj_priv = Map.empty, qj_next = 0, qj_pinned = 0, g_jActivity = None,
      g_jService = None, g_jClassLoader = None, jniEnvTLS = {}, sdkVersion = 0, qj_initialized = False\<rparr>"

inductive qt_reachable :: "qt_java \<Rightarrow> qjni \<Rightarrow> bool" for qa where
  start: "JNI_OnLoad qa t g (qt_start t) = Inr (s, JNI_VERSION_1_6, g') \<Longrightarrow> qt_reachable qa s"
| step: "qt_reachable qa s \<Longrightarrow> op_ok qa t s op \<Longrightarrow> run_op qa t op s = Inr s' \<Longrightarrow> qt_reachable qa s'"

text \<open>The references that no private object owns.\<close>

definition strays :: "qjni \<Rightarrow> (nat \<times> ref_kind) set" where
  "strays s = {(h, k). (\<exists>obj. jv_refs (qj_vm s) h = Some (k, obj)) \<and> unowned (held (slot (qj_priv s))) h}"

lemma strays_eq: "q_ok s R {} \<Longrightarrow> strays s = R"
  using q_okD(1,4) [of s R "{}"] owned_okD(3) [of "jv_refs (qj_vm s)" "slot (qj_priv s)" R]
  by (fastforce simp: strays_def jv_ok_def)

definition qt_inv :: "qjni \<Rightarrow> bool" where
  "qt_inv s \<longleftrightarrow> q_ok s (strays s) {} \<and> \<not> qj_pending s \<and> (\<forall>d p n. qj_priv s d = Some (p, n) \<longrightarrow> wf_private p)"

lemma qt_invD:
  assumes "qt_inv s"
  shows "q_ok s (strays s) {}" and "\<not> qj_pending s" and "qj_priv s d = Some (p, n) \<Longrightarrow> wf_private p"
  using assms unfolding qt_inv_def by blast+

lemma qt_invI:
  assumes "q_ok s R {}" and "\<not> qj_pending s" and "\<And>d p n. qj_priv s d = Some (p, n) \<Longrightarrow> wf_private p"
  shows "qt_inv s"
  using assms strays_eq [OF assms(1)] unfolding qt_inv_def by simp

lemma object_validD:
  assumes "qt_inv s" and "object_valid s d"
  obtains obj cl where "valid_object s d obj cl"
proof -
  obtain p n h where p: "qj_priv s d = Some (p, n)" "m_jobject p = Some h"
    using assms(2) by (auto simp: object_valid_def QJniObject_isValid_def private_at_def split: option.splits)
  obtain c where c: "m_jclass p = Some c" using qt_invD(3) [OF assms(1) p(1)] p(2) by (auto simp: wf_private_def)
  obtain obj where "jv_refs (qj_vm s) h = Some (GlobalRef, obj)" by (rule q_ok_object_alive [OF qt_invD(1) [OF assms(1)] p])
  moreover obtain cl where "jv_refs (qj_vm s) c = Some (GlobalRef, cl)" by (rule q_ok_class_alive [OF qt_invD(1) [OF assms(1)] p(1) c])
  ultimately show thesis using p c that unfolding valid_object_def by blast
qed

subsection \<open>Every operation runs to its end\<close>

text \<open>The invariant, with at most one more stray.\<close>

definition grown :: "qjni \<Rightarrow> ref_kind \<Rightarrow> ptr \<Rightarrow> qjni \<Rightarrow> bool" where
  "grown s k p s' \<longleftrightarrow> qt_inv s' \<and> strays s' = tag k p \<union> strays s \<and> tag k p \<inter> strays s = {}"

lemma grownI:
  assumes "qt_inv s" and "q_ok s' (tag k p \<union> strays s) {}" and "tag k p \<inter> strays s = {}" and "\<not> qj_pending s'"
    and "\<And>d p n. qj_priv s' d = Some (p, n) \<Longrightarrow> wf_private p"
  shows "grown s k p s'"
  using qt_invI [OF assms(2,4,5)] strays_eq [OF assms(2)] assms(3) by (simp add: grown_def)

lemma made_grown:
  assumes "qt_inv s" and "made t s (tag k p \<union> strays s) {} s' d ob" and "tag k p \<inter> strays s = {}"
  shows "grown s k p s'"
  by (rule grownI [OF assms(1) _ assms(3)]) (use assms(2) qt_invD(3) [OF assms(1)] in \<open>auto simp: made_def split: if_splits\<close>)

lemma leaked_grown:
  assumes "qt_inv s" and "leaked s (strays s) {} s' p"
  shows "grown s GlobalRef p s'"
  by (rule grownI [OF assms(1)]) (use assms(2) qt_invD(3) [OF assms(1)] in \<open>auto simp: leaked_def\<close>)

lemma kept_grown:
  assumes "qt_inv s" and "kept t s (strays s) {} s'"
  shows "grown s k None s'"
  by (rule grownI [OF assms(1)]) (use assms(2) qt_invD(3) [OF assms(1)] in \<open>auto simp: kept_def\<close>)

text \<open>What an operation leaves: a stray of its own only if it names a class, or if Java passes an object in.\<close>

definition op_done :: "thread_id \<Rightarrow> qjni \<Rightarrow> qt_op \<Rightarrow> qjni \<Rightarrow> bool" where
  "op_done t s op s' \<longleftrightarrow>
     qt_inv s' \<and>
     (\<exists>p. strays s' = tag (if passes_in op then LocalRef t else GlobalRef) p \<union> (strays s - consumed t op) \<and>
        tag (if passes_in op then LocalRef t else GlobalRef) p \<inter> strays s = {} \<and> (p \<noteq> None \<longrightarrow> names_class op \<or> passes_in op))"

definition finishes :: "qt_java \<Rightarrow> thread_id \<Rightarrow> qjni \<Rightarrow> qt_op \<Rightarrow> bool" where
  "finishes qa t s op \<longleftrightarrow> (\<exists>s'. run_op qa t op s = Inr s' \<and> op_done t s op s')"

lemma finishesI:
  assumes "run_op qa t op s = state_of m" and "wp m (\<lambda>s' r. op_done t s op s')"
  shows "finishes qa t s op"
  using wpD [OF assms(2)] assms(1) by (auto simp: finishes_def state_of_def obind_eq_Inr)

lemma grown_done:
  assumes "grown s GlobalRef p s'" and "consumed t op = {}" and "\<not> passes_in op" and "p \<noteq> None \<Longrightarrow> names_class op"
  shows "op_done t s op s'"
  unfolding op_done_def using assms by (intro conjI exI [where x = p]) (auto simp: grown_def)

text \<open>The four ways an operation may end: with everything as it was, with a new object, with a reference to a class left
  behind, and with both.\<close>

lemma finishes_kept:
  assumes "qt_inv s" and "run_op qa t op s = state_of m" and "wp m (\<lambda>s' r. kept t s (strays s) {} s')"
    and "consumed t op = {}" and "\<not> passes_in op"
  shows "finishes qa t s op"
  by (rule finishesI [OF assms(2) wp_mono [OF assms(3)]]) (rule grown_done [OF kept_grown [OF assms(1)] assms(4,5)], simp_all)

lemma makes_grown: "qt_inv s \<Longrightarrow> makes t s (tag k p \<union> strays s) {} s' d \<Longrightarrow> tag k p \<inter> strays s = {} \<Longrightarrow> grown s k p s'"
  by (auto simp: makes_def intro: made_grown)

lemma finishes_makes:
  assumes "qt_inv s" and "run_op qa t op s = state_of m" and "wp m (\<lambda>s' d. makes t s (strays s) {} s' d)"
    and "consumed t op = {}" and "\<not> passes_in op"
  shows "finishes qa t s op"
  by (rule finishesI [OF assms(2) wp_mono [OF assms(3)]])
     (rule grown_done [OF makes_grown [OF assms(1), where p = None] assms(4,5)], simp_all)

lemma finishes_leaks:
  assumes "qt_inv s" and "run_op qa t op s = state_of m" and "wp m (\<lambda>s' r. \<exists>p. leaked s (strays s) {} s' p)"
    and "consumed t op = {}" and "\<not> passes_in op" and "names_class op"
  shows "finishes qa t s op"
  by (rule finishesI [OF assms(2) wp_mono [OF assms(3)]]) (use assms(6) in \<open>auto intro: grown_done [OF leaked_grown [OF assms(1)] assms(4,5)]\<close>)

lemma finishes_makes_leaks:
  assumes "qt_inv s" and "run_op qa t op s = state_of m"
    and "wp m (\<lambda>s' d. \<exists>p. makes t s (tag GlobalRef p \<union> strays s) {} s' d \<and> tag GlobalRef p \<inter> (strays s \<union> {}) = {})"
    and "consumed t op = {}" and "\<not> passes_in op" and "names_class op"
  shows "finishes qa t s op"
  by (rule finishesI [OF assms(2) wp_mono [OF assms(3)]])
     (use assms(6) in \<open>auto intro: grown_done [OF makes_grown [OF assms(1)] assms(4,5)]\<close>)

text \<open>Operations on objects that exist.\<close>

lemma existing_finish:
  assumes "qt_inv s" and "healthy qa" and "typed qa" and "object_exists s d"
  shows "finishes qa t s (Handling (Copy_Object d))" and "finishes qa t s (Handling (Drop_Object d))"
    and "object_exists s e \<Longrightarrow> finishes qa t s (Handling (Equal d e))" and "object_exists s e \<Longrightarrow> finishes qa t s (Handling (Not_Equal d e))"
    and "to_string_ok qa s d \<Longrightarrow> finishes qa t s (Handling (To_Text d))"
proof -
  obtain p n where p: "qj_priv s d = Some (p, n)" using assms(4) by (auto simp: object_exists_def)
  note a = qt_invD(1) [OF assms(1)] assms(2)
  note nx = qt_invD(2) [OF assms(1)]
  have copy: "wp (QJniObject_copy d s) (\<lambda>s' r. grown s GlobalRef None s')"
  proof -
    let ?s = "s\<lparr>qj_priv := (qj_priv s)(d \<mapsto> (p, n + 1))\<rparr>"
    have "q_ok ?s (strays s) {}" by (rule q_ok_priv_count [OF a(1) p]) simp
    then have "grown s GlobalRef None ?s"
      by (intro grownI [OF assms(1)]) (use qt_invD(2,3) [OF assms(1)] p in \<open>auto split: if_splits\<close>)
    with p show ?thesis by (simp add: QJniObject_copy_def)
  qed
  show "finishes qa t s (Handling (Copy_Object d))"
    by (rule finishesI, rule run_ops, rule wp_mono [OF copy], erule grown_done) simp_all
  have drop: "wp (QJniObject_destroy qa t d s) (\<lambda>s' r. grown s GlobalRef None s')"
    by (rule wp_QJniObject_destroy [OF a nx p], rule grownI [OF assms(1)])
       (use qt_invD(3) [OF assms(1)] p in \<open>auto split: if_splits\<close>)
  show "finishes qa t s (Handling (Drop_Object d))"
    by (rule finishesI, rule run_ops, rule wp_mono [OF drop], erule grown_done) simp_all
  have d: "qj_priv s d \<noteq> None" using p by simp
  show "finishes qa t s (Handling (Equal d e))" if "object_exists s e"
    by (rule finishes_kept [OF assms(1)], rule run_ops, rule wp_QJniObject_eq(1) [OF a nx d that [unfolded object_exists_def]]) simp_all
  show "finishes qa t s (Handling (Not_Equal d e))" if "object_exists s e"
    by (rule finishes_kept [OF assms(1)], rule run_ops, rule wp_QJniObject_eq(2) [OF a nx d that [unfolded object_exists_def]]) simp_all
  show "finishes qa t s (Handling (To_Text d))" if ok: "to_string_ok qa s d"
  proof -
    obtain obj cl where v: "m_jobject p \<noteq> None \<Longrightarrow> valid_object s d obj cl"
    proof (cases "m_jobject p = None")
      case False
      with p have "object_valid s d" by (simp add: object_valid_def QJniObject_isValid_def private_at_def)
      from object_validD [OF assms(1) this] that show thesis by blast
    qed (simp add: that)
    show ?thesis
      by (rule finishes_kept [OF assms(1)], rule run_ops, rule wp_QJniObject_toString [OF a assms(3) nx p v ok]) simp_all
  qed
qed

lemma assign_finish:
  assumes "qt_inv s" and "healthy qa" and "assign_ok t s d x"
  shows "finishes qa t s (Handling (Assign d x))"
proof -
  have "wp (assign qa t d x s) (\<lambda>s' r. grown s GlobalRef None s')"
  proof (rule wp_mono [OF wp_assign [OF qt_invD(1) [OF assms(1)] assms(2) qt_invD(2) [OF assms(1)] assms(3)]], rule grownI [OF assms(1)])
    fix s' r e p n assume "reassigned s (strays s) {} s' r" "qj_priv s' e = Some (p, n)"
    then show "wf_private p" using qt_invD(3) [OF assms(1)] unfolding reassigned_def by blast
  qed (auto simp: reassigned_def)
  then have "wp (assign qa t d x s) (\<lambda>s' r. op_done t s (Handling (Assign d x)) s')" by (rule wp_mono) (erule grown_done, simp_all)
  then show ?thesis by (rule finishesI [OF run_ops(11)])
qed

text \<open>Constructors.\<close>

lemma local_stray:
  assumes "qt_inv s" and "jv_refs (qj_vm s) h = Some (LocalRef t, obj)"
  shows "(h, LocalRef t) \<in> strays s"
proof -
  have "owned_ok (jv_refs (qj_vm s)) (slot (qj_priv s)) (strays s \<union> {})"
    using q_okD(1) [OF qt_invD(1) [OF assms(1)]] by (simp add: jv_ok_def)
  from owned_okD(2) [OF this] have "fits hl (LocalRef t)" if "slot (qj_priv s) x = Some hl" "holder_obj hl = Some h" for x hl
    using that assms(2) by fastforce
  moreover have "hl = ScopedJavaGlobalRef (holder_obj hl)" if "slot (qj_priv s) x = Some hl" for x hl
    using that by (auto simp: slot_def split: option.splits)
  ultimately have "unowned (held (slot (qj_priv s))) h" unfolding unowned_def held_def by (metis (no_types, lifting) fits.simps(2) map_option_eq_Some ref_kind.distinct(1))
  with assms(2) show ?thesis by (auto simp: strays_def)
qed

lemma from_local_finish:
  assumes "qt_inv s" and "healthy qa" and "local_or_null t s p"
  shows "finishes qa t s (Making (Object_Of_Local p))"
proof (rule finishesI, rule run_ops)
  have l: "(h, LocalRef t) \<in> strays s" if "p = Some h" for h
    using assms(3) local_stray [OF assms(1), of h t] that by (auto simp: local_or_null_def)
  show "wp (fromLocalRef qa t p s) (\<lambda>s' r. op_done t s (Making (Object_Of_Local p)) s')"
  proof (rule wp_mono [OF wp_fromLocalRef [OF qt_invD(1) [OF assms(1)] assms(2) qt_invD(2) [OF assms(1)] l]], assumption)
    fix s' d assume m: "makes t s (strays s - tag (LocalRef t) p) {} s' d"
    then have q: "q_ok s' (strays s - tag (LocalRef t) p) {}" by (auto simp: makes_def made_def)
    have "qt_inv s'" by (rule qt_invI [OF q]) (use m qt_invD(3) [OF assms(1)] in \<open>auto simp: makes_def made_def split: if_splits\<close>)
    then show "op_done t s (Making (Object_Of_Local p)) s'" using strays_eq [OF q] by (auto simp: op_done_def)
  qed
qed

lemma constructor_finish:
  assumes "qt_inv s" and "healthy qa" and "typed qa"
  shows "finishes qa t s (Making New_Object)" and "finishes qa t s (Making (Object_Of_Text str))"
    and "class_ok t s p \<Longrightarrow> finishes qa t s (Making (Object_Of p))"
    and "class_ok t s p \<Longrightarrow> args_ok t s args \<Longrightarrow> returns sig jvoid \<Longrightarrow> finishes qa t s (Making (Object_Of_Class p sig args))"
    and "class_ok t s p \<Longrightarrow> finishes qa t s (Making (Object_Of_Class0 p))"
    and "args_ok t s args \<Longrightarrow> returns sig jvoid \<Longrightarrow> finishes qa t s (Making (Object_Of_Name c sig args))"
    and "finishes qa t s (Making (Object_Of_Name0 c))"
proof -
  note a = qt_invD(1) [OF assms(1)] assms(2)
  note n = qt_invD(2) [OF assms(1)]
  show "finishes qa t s (Making New_Object)"
    by (rule finishes_makes [OF assms(1)], rule run_ops, rule wp_QJniObject_new [OF a(1) n], erule makesI) simp_all
  show "finishes qa t s (Making (Object_Of_Text str))"
    by (rule finishes_makes [OF assms(1)], rule run_ops, rule wp_fromString [OF a n], erule makesI) simp_all
  show "finishes qa t s (Making (Object_Of p))" if p: "class_ok t s p"
  proof -
    have "\<exists>k ob. \<forall>h. p = Some h \<longrightarrow> jv_refs (qj_vm s) h = Some (k, ob)"
      using p by (cases p) (auto simp: class_ok_def usable_def split: option.splits)
    then obtain k ob where o: "\<And>h. p = Some h \<Longrightarrow> jv_refs (qj_vm s) h = Some (k, ob)" by blast
    show ?thesis
      by (rule finishes_makes [OF assms(1)], rule run_ops,
          rule wp_QJniObject_of [where ob = "if p = None then None else Some ob" and k = k, OF a n])
         (use o p in \<open>auto simp: class_ok_def intro: makesI\<close>)
  qed
  show "finishes qa t s (Making (Object_Of_Class p sig args))" if "class_ok t s p" "args_ok t s args" "returns sig jvoid"
    by (rule finishes_makes [OF assms(1)], rule run_ops, rule wp_QJniObject_of_class_sig [OF a assms(3) n that]) simp_all
  show "finishes qa t s (Making (Object_Of_Class0 p))" if "class_ok t s p"
    by (rule finishes_makes [OF assms(1)], rule run_ops, rule wp_QJniObject_of_class [OF a assms(3) n that]) simp_all
  have named: "wp (QJniObject_of_name_sig qa t c sig args s)
      (\<lambda>s' d. \<exists>p. makes t s (tag GlobalRef p \<union> strays s) {} s' d \<and> tag GlobalRef p \<inter> (strays s \<union> {}) = {})"
    if "args_ok t s args" "returns sig jvoid" for args sig
    by (rule wp_QJniObject_of_name_sig [OF a assms(3) n that]) (auto intro: makesI)
  show "finishes qa t s (Making (Object_Of_Name c sig args))" if "args_ok t s args" "returns sig jvoid"
    by (rule finishes_makes_leaks [OF assms(1)], rule run_ops, rule named [OF that]) simp_all
  have "returns ''()V'' jvoid" by (simp add: returns_def return_descriptor_def descriptor_type_def)
  from named [OF _ this, of "[]"] have "wp (QJniObject_of_name qa t c s)
      (\<lambda>s' d. \<exists>p. makes t s (tag GlobalRef p \<union> strays s) {} s' d \<and> tag GlobalRef p \<inter> (strays s \<union> {}) = {})"
    by (simp add: QJniObject_of_name_no_args args_ok_def)
  from finishes_makes_leaks [OF assms(1) run_ops(6) this] show "finishes qa t s (Making (Object_Of_Name0 c))" by simp
qed

text \<open>Calls and fields of a valid object.\<close>

lemma made_for:
  assumes "getTypeSignature T = Inr g"
  shows "isJniPrimitiveType T \<Longrightarrow> callStaticMethod0_name T qa t c m s = callStaticMethod_name T qa t c m (''()'' @ g) [] s"
    and "isJniPrimitiveType T \<Longrightarrow> callStaticMethod0_class T qa t p m s = callStaticMethod_class T qa t p m (''()'' @ g) [] s"
    and "reference_type T \<Longrightarrow> callObjectMethod0 T qa t d m s = callObjectMethod qa t d m (''()'' @ g) [] s"
    and "reference_type T \<Longrightarrow> callStaticObjectMethod0_name T qa t c m s = callStaticObjectMethod_name qa t c m (''()'' @ g) [] s"
    and "reference_type T \<Longrightarrow> callStaticObjectMethod0_class T qa t p m s = callStaticObjectMethod_class qa t p m (''()'' @ g) [] s"
    and "reference_type T \<Longrightarrow> getObjectField0 T qa t d f s = getObjectField qa t d f g s"
    and "reference_type T \<Longrightarrow> getStaticObjectField0_name T qa t c f s = getStaticObjectField_name qa t c f g s"
    and "reference_type T \<Longrightarrow> getStaticObjectField0_class T qa t p f s = getStaticObjectField_class qa t p f g s"
  using assms by (simp_all add: callStaticMethod0_name_def callStaticMethod0_class_def callObjectMethod0_def
    callStaticObjectMethod0_name_def callStaticObjectMethod0_class_def getObjectField0_def getStaticObjectField0_name_def
    getStaticObjectField0_class_def assertJniPrimitiveType_def assertJniObjectType_def static_assert_def
    is_convertible_to_jobject_def no_args_def)

lemma no_args_returns:
  "descriptor_type g = T \<Longrightarrow> returns (''()'' @ g) T"
  "reference_type T \<Longrightarrow> descriptor_type g = T \<Longrightarrow> returns_object (''()'' @ g)"
  "returns ''()V'' jvoid"
  by (simp_all add: returns_def returns_object_def return_descriptor_def descriptor_type_def)

lemma object_finish:
  assumes "qt_inv s" and "healthy qa" and "typed qa" and "object_valid s d"
  shows "args_ok t s args \<Longrightarrow> isJniPrimitiveType T \<Longrightarrow> returns sig T \<Longrightarrow> finishes qa t s (Calling (Call_Number T d m sig args))"
    and "args_ok t s args \<Longrightarrow> returns sig jvoid \<Longrightarrow> finishes qa t s (Calling (Call_Void d m sig args))"
    and "finishes qa t s (Calling (Call_Void0 d m))"
    and "args_ok t s args \<Longrightarrow> returns_object sig \<Longrightarrow> finishes qa t s (Calling (Call_For_Object d m sig args))"
    and "object_type T \<Longrightarrow> finishes qa t s (Calling (Call_For_Object0 T d m))"
    and "isJniPrimitiveType T \<Longrightarrow> finishes qa t s (Accessing (Number_Field T d f))"
    and "reference_type (descriptor_type sig) \<Longrightarrow> finishes qa t s (Accessing (Object_Field d f sig))"
    and "object_type T \<Longrightarrow> finishes qa t s (Accessing (Object_Field0 T d f))"
    and "args_ok t s [x] \<Longrightarrow> value_signature T sig \<Longrightarrow> finishes qa t s (Accessing (Set_Field T d f sig x))"
    and "args_ok t s [x] \<Longrightarrow> value_type T \<Longrightarrow> finishes qa t s (Accessing (Set_Field0 T d f x))"
proof -
  obtain obj cl where v: "valid_object s d obj cl" by (rule object_validD [OF assms(1,4)])
  note a = qt_invD(1) [OF assms(1)] assms(2) qt_invD(2) [OF assms(1)] v
  note b = qt_invD(1) [OF assms(1)] assms(2,3) qt_invD(2) [OF assms(1)] v
  note ty = typedD(1) [OF assms(3)]
  have cr: "\<exists>cs r. (cs, r) = call_result qa (qj_calls s) (qa_method qa cl m sig False) obj (map (arg_val s) args)" for sig args
    by (metis surj_pair)
  show "finishes qa t s (Calling (Call_Number T d m sig args))" if h: "args_ok t s args" "isJniPrimitiveType T" "returns sig T"
  proof (rule finishes_kept [OF assms(1)], rule run_ops)
    obtain cs r where c: "(cs, r) = call_result qa (qj_calls s) (qa_method qa cl m sig False) obj (map (arg_val s) args)" using cr by blast
    show "wp (callMethod T qa t d m sig args s) (\<lambda>s' r. kept t s (strays s) {} s')"
      by (rule wp_callMethod [OF a h(1,2) _ c]) (use ty h(3) in \<open>auto simp: returns_def\<close>)
  qed simp_all
  have void: "wp (callMethod_void qa t d m sig args s) (\<lambda>s' r. kept t s (strays s) {} s')" if h: "args_ok t s args" "returns sig jvoid" for sig args
  proof -
    obtain cs r where c: "(cs, r) = call_result qa (qj_calls s) (qa_method qa cl m sig False) obj (map (arg_val s) args)" using cr by blast
    show ?thesis by (rule wp_callMethod_void [OF a h(1) _ c]) (use ty h(2) in \<open>auto simp: returns_def\<close>)
  qed
  show "finishes qa t s (Calling (Call_Void d m sig args))" if "args_ok t s args" "returns sig jvoid"
    by (rule finishes_kept [OF assms(1)], rule run_ops, rule void [OF that]) simp_all
  show "finishes qa t s (Calling (Call_Void0 d m))"
    by (rule finishes_kept [OF assms(1)], rule run_ops, unfold callMethod0_void_def, rule void) (simp_all add: args_ok_def no_args_returns)
  have object: "wp (callObjectMethod qa t d m sig args s) (\<lambda>s' e. makes t s (strays s) {} s' e)"
    if h: "args_ok t s args" "returns_object sig" for sig args
  proof -
    obtain cs r where c: "(cs, r) = call_result qa (qj_calls s) (qa_method qa cl m sig False) obj (map (arg_val s) args)" using cr by blast
    show ?thesis by (rule wp_callObjectMethod [OF a h(1) _ c]) (use ty h(2) in \<open>auto simp: returns_object_def intro: makesI\<close>)
  qed
  show "finishes qa t s (Calling (Call_For_Object d m sig args))" if "args_ok t s args" "returns_object sig"
    by (rule finishes_makes [OF assms(1)], rule run_ops, rule object [OF that]) simp_all
  show "finishes qa t s (Accessing (Number_Field T d f))" if "isJniPrimitiveType T"
    by (rule finishes_kept [OF assms(1)], rule run_ops, rule wp_getField [OF b that]) simp_all
  show "finishes qa t s (Accessing (Object_Field d f sig))" if "reference_type (descriptor_type sig)"
    by (rule finishes_makes [OF assms(1)], rule run_ops, rule wp_getObjectField [OF b that]) simp_all
  show "finishes qa t s (Calling (Call_For_Object0 T d m))" "finishes qa t s (Accessing (Object_Field0 T d f))" if T: "object_type T"
  proof -
    obtain g where g: "getTypeSignature T = Inr g" "descriptor_type g = T"
      by (rule getTypeSignature_denotes [of T]) (use T in \<open>simp add: object_type_def\<close>)
    have r: "reference_type T" using T by (simp add: object_type_def)
    show "finishes qa t s (Calling (Call_For_Object0 T d m))"
      by (rule finishes_makes [OF assms(1)], rule run_ops, unfold made_for(3) [OF g(1) r], rule object)
         (simp_all add: args_ok_def no_args_returns(2) [OF r g(2)] del: append.simps)
    show "finishes qa t s (Accessing (Object_Field0 T d f))"
      by (rule finishes_makes [OF assms(1)], rule run_ops, unfold made_for(6) [OF g(1) r], rule wp_getObjectField [OF b])
         (simp_all add: g(2) r)
  qed
  show "finishes qa t s (Accessing (Set_Field T d f sig x))" if h: "args_ok t s [x]" "value_signature T sig"
    by (rule finishes_kept [OF assms(1)], rule run_ops, rule wp_setField_sig [OF b h(1)]) (use h(2) in \<open>simp_all add: value_signature_def\<close>)
  show "finishes qa t s (Accessing (Set_Field0 T d f x))" if h: "args_ok t s [x]" "value_type T"
  proof -
    have T: "jni_type_ok T" "signature_exists T" using h(2) by (simp_all add: value_type_def)
    obtain g where g: "getTypeSignature T = Inr g" "field_signature T g" by (rule made_signature [OF T]) blast
    show ?thesis
      by (rule finishes_kept [OF assms(1)], rule run_ops, unfold setField_signature [OF g(1)], rule wp_setField_sig [OF b h(1) T(1) g(2)]) simp_all
  qed
qed

text \<open>Static calls and fields by a reference to the class.\<close>

lemma class_finish:
  assumes "qt_inv s" and "healthy qa" and "typed qa" and "class_ok t s p"
  shows "args_ok t s args \<Longrightarrow> isJniPrimitiveType T \<Longrightarrow> returns sig T \<Longrightarrow> finishes qa t s (Calling (Class_Number T p m sig args))"
    and "isJniPrimitiveType T \<Longrightarrow> finishes qa t s (Calling (Class_Number0 T p m))"
    and "args_ok t s args \<Longrightarrow> returns sig jvoid \<Longrightarrow> finishes qa t s (Calling (Class_Void p m sig args))"
    and "finishes qa t s (Calling (Class_Void0 p m))"
    and "args_ok t s args \<Longrightarrow> returns_object sig \<Longrightarrow> finishes qa t s (Calling (Class_For_Object p m sig args))"
    and "object_type T \<Longrightarrow> finishes qa t s (Calling (Class_For_Object0 T p m))"
    and "args_ok t s args \<Longrightarrow> isJniPrimitiveType T \<Longrightarrow> id_returns qa r (\<lambda>T'. T' = T) \<Longrightarrow> finishes qa t s (Calling (Id_Number T p r args))"
    and "args_ok t s args \<Longrightarrow> id_returns qa r (\<lambda>T. T = jvoid) \<Longrightarrow> finishes qa t s (Calling (Id_Void p r args))"
    and "args_ok t s args \<Longrightarrow> id_returns qa r reference_type \<Longrightarrow> finishes qa t s (Calling (Id_For_Object p r args))"
proof -
  note b = qt_invD(1) [OF assms(1)] assms(2,3) qt_invD(2) [OF assms(1)] assms(4)
  note c = qt_invD(1) [OF assms(1)] assms(2) qt_invD(2) [OF assms(1)] assms(4)
  have e: "args_ok t s []" by (simp add: args_ok_def)
  show "finishes qa t s (Calling (Class_Number T p m sig args))" if "args_ok t s args" "isJniPrimitiveType T" "returns sig T"
    by (rule finishes_kept [OF assms(1)], rule run_ops, rule wp_callStaticMethod_class [OF b that]) simp_all
  show "finishes qa t s (Calling (Class_Number0 T p m))" if T: "isJniPrimitiveType T"
  proof -
    obtain g where g: "getTypeSignature T = Inr g" "descriptor_type g = T" by (rule getTypeSignature_denotes [OF prim_signature [OF T]])
    show ?thesis
      by (rule finishes_kept [OF assms(1)], rule run_ops, unfold made_for(2) [OF g(1) T],
          rule wp_callStaticMethod_class [OF b e T no_args_returns(1) [OF g(2)]]) simp_all
  qed
  show "finishes qa t s (Calling (Class_Void p m sig args))" if "args_ok t s args" "returns sig jvoid"
    by (rule finishes_kept [OF assms(1)], rule run_ops, rule wp_callStaticMethod_class_void [OF b that]) simp_all
  show "finishes qa t s (Calling (Class_Void0 p m))"
    by (rule finishes_kept [OF assms(1)], rule run_ops, unfold callStaticMethod0_class_void_def,
        rule wp_callStaticMethod_class_void [OF b e no_args_returns(3)]) simp_all
  show "finishes qa t s (Calling (Class_For_Object p m sig args))" if "args_ok t s args" "returns_object sig"
    by (rule finishes_makes [OF assms(1)], rule run_ops, rule wp_callStaticObjectMethod_class [OF b that]) simp_all
  show "finishes qa t s (Calling (Class_For_Object0 T p m))" if T: "object_type T"
  proof -
    obtain g where g: "getTypeSignature T = Inr g" "descriptor_type g = T"
      by (rule getTypeSignature_denotes [of T]) (use T in \<open>simp add: object_type_def\<close>)
    have r: "reference_type T" using T by (simp add: object_type_def)
    show ?thesis
      by (rule finishes_makes [OF assms(1)], rule run_ops, unfold made_for(5) [OF g(1) r],
          rule wp_callStaticObjectMethod_class [OF b e no_args_returns(2) [OF r g(2)]]) simp_all
  qed
  show "finishes qa t s (Calling (Id_Number T p r args))" if "args_ok t s args" "isJniPrimitiveType T" "id_returns qa r (\<lambda>T'. T' = T)"
    by (rule finishes_kept [OF assms(1)], rule run_ops, rule wp_callStaticMethod_id [OF c that(1,2)])
       (use that(3) in \<open>auto simp: id_returns_def\<close>)
  show "finishes qa t s (Calling (Id_Void p r args))" if "args_ok t s args" "id_returns qa r (\<lambda>T. T = jvoid)"
    by (rule finishes_kept [OF assms(1)], rule run_ops, rule wp_callStaticMethod_id_void [OF c that(1)])
       (use that(2) in \<open>auto simp: id_returns_def\<close>)
  show "finishes qa t s (Calling (Id_For_Object p r args))" if "args_ok t s args" "id_returns qa r reference_type"
    by (rule finishes_makes [OF assms(1)], rule run_ops, rule wp_callStaticObjectMethod_id [OF c that(1)])
       (use that(2) in \<open>auto simp: id_returns_def\<close>)
qed

lemma class_field_finish:
  assumes "qt_inv s" and "healthy qa" and "typed qa" and "class_live t s p"
  shows "isJniPrimitiveType T \<Longrightarrow> finishes qa t s (Accessing (Class_Number_Field T p f))"
    and "reference_type (descriptor_type sig) \<Longrightarrow> finishes qa t s (Accessing (Class_Object_Field p f sig))"
    and "object_type T \<Longrightarrow> finishes qa t s (Accessing (Class_Object_Field0 T p f))"
    and "args_ok t s [x] \<Longrightarrow> value_signature T sig \<Longrightarrow> finishes qa t s (Accessing (Set_Class_Field T p f sig x))"
    and "args_ok t s [x] \<Longrightarrow> value_type T \<Longrightarrow> finishes qa t s (Accessing (Set_Class_Field0 T p f x))"
    and "finishes qa t s (Asking (Register_Class_Natives p))"
proof -
  obtain a where p: "p = Some a" "usable t a (qj_vm s)" using assms(4) by (auto simp: class_live_def class_ok_def)
  note b = qt_invD(1) [OF assms(1)] assms(2,3) qt_invD(2) [OF assms(1)] p(2)
  note n = qt_invD(1) [OF assms(1)] assms(2) qt_invD(2) [OF assms(1)]
  show "finishes qa t s (Accessing (Class_Number_Field T p f))" if "isJniPrimitiveType T" unfolding p(1)
    by (rule finishes_kept [OF assms(1)], rule run_ops, rule wp_getStaticField_class [OF b that]) simp_all
  show "finishes qa t s (Accessing (Class_Object_Field p f sig))" if "reference_type (descriptor_type sig)" unfolding p(1)
    by (rule finishes_makes [OF assms(1)], rule run_ops, rule wp_getStaticObjectField_class [OF b that]) simp_all
  show "finishes qa t s (Accessing (Class_Object_Field0 T p f))" if T: "object_type T"
  proof -
    obtain g where g: "getTypeSignature T = Inr g" "descriptor_type g = T"
      by (rule getTypeSignature_denotes [of T]) (use T in \<open>simp add: object_type_def\<close>)
    have r: "reference_type T" using T by (simp add: object_type_def)
    show ?thesis unfolding p(1)
      by (rule finishes_makes [OF assms(1)], rule run_ops, unfold made_for(8) [OF g(1) r],
          rule wp_getStaticObjectField_class [OF b]) (simp_all add: g(2) r)
  qed
  show "finishes qa t s (Accessing (Set_Class_Field T p f sig x))" if h: "args_ok t s [x]" "value_signature T sig" unfolding p(1)
    by (rule finishes_kept [OF assms(1)], rule run_ops, rule wp_setStaticField_class_sig [OF b h(1)])
       (use h(2) in \<open>simp_all add: value_signature_def\<close>)
  show "finishes qa t s (Accessing (Set_Class_Field0 T p f x))" if h: "args_ok t s [x]" "value_type T"
  proof -
    have T: "jni_type_ok T" "signature_exists T" using h(2) by (simp_all add: value_type_def)
    obtain g where g: "getTypeSignature T = Inr g" "field_signature T g" by (rule made_signature [OF T]) blast
    show ?thesis unfolding p(1)
      by (rule finishes_kept [OF assms(1)], rule run_ops, unfold setStaticField_class_signature [OF g(1)],
          rule wp_setStaticField_class_sig [OF b h(1) T(1) g(2)]) simp_all
  qed
  have "wp (with_env qa t (\<lambda>env. registerNativeMethods qa t env p) s) (\<lambda>s' r. kept t s (strays s) {} s')"
  proof (rule env_kept [OF n], goal_cases)
    case (1 s1)
    obtain c where c: "refers t s1 a c" by (rule class_refers [OF _ 1(3), of t a]) (use p(2) in \<open>simp_all add: class_ok_def\<close>)
    show ?case unfolding p(1) by (rule wp_mono [OF wp_registerNativeMethods [OF 1(1,2) c]]) (auto simp: kept_def)
  qed
  from finishes_kept [OF assms(1) run_ops(58) this] show "finishes qa t s (Asking (Register_Class_Natives p))" by simp
qed

text \<open>Operations that are given the name of a class.\<close>

lemma named_finish:
  assumes "qt_inv s" and "healthy qa" and "typed qa"
  shows "args_ok t s args \<Longrightarrow> isJniPrimitiveType T \<Longrightarrow> returns sig T \<Longrightarrow> finishes qa t s (Calling (Static_Number T c m sig args))"
    and "isJniPrimitiveType T \<Longrightarrow> finishes qa t s (Calling (Static_Number0 T c m))"
    and "args_ok t s args \<Longrightarrow> returns sig jvoid \<Longrightarrow> finishes qa t s (Calling (Static_Void c m sig args))"
    and "finishes qa t s (Calling (Static_Void0 c m))"
    and "args_ok t s args \<Longrightarrow> returns_object sig \<Longrightarrow> finishes qa t s (Calling (Static_For_Object c m sig args))"
    and "object_type T \<Longrightarrow> finishes qa t s (Calling (Static_For_Object0 T c m))"
    and "isJniPrimitiveType T \<Longrightarrow> finishes qa t s (Accessing (Static_Number_Field T c f))"
    and "reference_type (descriptor_type sig) \<Longrightarrow> finishes qa t s (Accessing (Static_Object_Field c f sig))"
    and "object_type T \<Longrightarrow> finishes qa t s (Accessing (Static_Object_Field0 T c f))"
    and "args_ok t s [x] \<Longrightarrow> value_signature T sig \<Longrightarrow> finishes qa t s (Accessing (Set_Static_Field T c f sig x))"
    and "args_ok t s [x] \<Longrightarrow> value_type T \<Longrightarrow> finishes qa t s (Accessing (Set_Static_Field0 T c f x))"
    and "finishes qa t s (Asking (Class_Test c))" and "finishes qa t s (Asking Sdk_Version)"
    and "finishes qa t s (Asking (Find_Class c))" and "finishes qa t s (Asking (Register_Natives c))"
proof -
  note a = qt_invD(1) [OF assms(1)] assms(2,3) qt_invD(2) [OF assms(1)]
  have e: "args_ok t s []" by (simp add: args_ok_def)
  have number: "wp (callStaticMethod_name T qa t c m sig args s) (\<lambda>s' r. \<exists>p. leaked s (strays s) {} s' p)"
    if "args_ok t s args" "isJniPrimitiveType T" "returns sig T" for sig args
    by (rule wp_callStaticMethod_name [OF a that]) blast
  show "finishes qa t s (Calling (Static_Number T c m sig args))" if "args_ok t s args" "isJniPrimitiveType T" "returns sig T"
    by (rule finishes_leaks [OF assms(1)], rule run_ops, rule number [OF that]) simp_all
  show "finishes qa t s (Calling (Static_Number0 T c m))" if T: "isJniPrimitiveType T"
  proof -
    obtain g where g: "getTypeSignature T = Inr g" "descriptor_type g = T" by (rule getTypeSignature_denotes [OF prim_signature [OF T]])
    show ?thesis
      by (rule finishes_leaks [OF assms(1)], rule run_ops, unfold made_for(1) [OF g(1) T],
          rule number [OF e T no_args_returns(1) [OF g(2)]]) simp_all
  qed
  have void: "wp (callStaticMethod_name_void qa t c m sig args s) (\<lambda>s' r. \<exists>p. leaked s (strays s) {} s' p)"
    if "args_ok t s args" "returns sig jvoid" for sig args
    by (rule wp_callStaticMethod_name_void [OF a that]) blast
  show "finishes qa t s (Calling (Static_Void c m sig args))" if "args_ok t s args" "returns sig jvoid"
    by (rule finishes_leaks [OF assms(1)], rule run_ops, rule void [OF that]) simp_all
  show "finishes qa t s (Calling (Static_Void0 c m))"
    by (rule finishes_leaks [OF assms(1)], rule run_ops, unfold callStaticMethod0_name_void_def, rule void [OF e no_args_returns(3)]) simp_all
  have object: "wp (callStaticObjectMethod_name qa t c m sig args s)
      (\<lambda>s' d. \<exists>p. makes t s (tag GlobalRef p \<union> strays s) {} s' d \<and> tag GlobalRef p \<inter> (strays s \<union> {}) = {})"
    if "args_ok t s args" "returns_object sig" for sig args
    by (rule wp_callStaticObjectMethod_name [OF a that]) (auto intro: makesI)
  show "finishes qa t s (Calling (Static_For_Object c m sig args))" if "args_ok t s args" "returns_object sig"
    by (rule finishes_makes_leaks [OF assms(1)], rule run_ops, rule object [OF that]) simp_all
  show "finishes qa t s (Accessing (Static_Number_Field T c f))" if "isJniPrimitiveType T"
    by (rule finishes_leaks [OF assms(1)], rule run_ops, rule wp_getStaticField_name [OF a that], blast) simp_all
  show "finishes qa t s (Accessing (Static_Object_Field c f sig))" if "reference_type (descriptor_type sig)"
    by (rule finishes_makes_leaks [OF assms(1)], rule run_ops, rule wp_getStaticObjectField_name [OF a that]) simp_all
  show "finishes qa t s (Calling (Static_For_Object0 T c m))" "finishes qa t s (Accessing (Static_Object_Field0 T c f))" if T: "object_type T"
  proof -
    obtain g where g: "getTypeSignature T = Inr g" "descriptor_type g = T"
      by (rule getTypeSignature_denotes [of T]) (use T in \<open>simp add: object_type_def\<close>)
    have r: "reference_type T" using T by (simp add: object_type_def)
    show "finishes qa t s (Calling (Static_For_Object0 T c m))"
      by (rule finishes_makes_leaks [OF assms(1)], rule run_ops, unfold made_for(4) [OF g(1) r],
          rule object [OF e no_args_returns(2) [OF r g(2)]]) simp_all
    show "finishes qa t s (Accessing (Static_Object_Field0 T c f))"
      by (rule finishes_makes_leaks [OF assms(1)], rule run_ops, unfold made_for(7) [OF g(1) r],
          rule wp_getStaticObjectField_name [OF a]) (simp_all add: g(2) r)
  qed
  show "finishes qa t s (Accessing (Set_Static_Field T c f sig x))" if h: "args_ok t s [x]" "value_signature T sig"
    by (rule finishes_leaks [OF assms(1)], rule run_ops, rule wp_setStaticField_name_sig [OF a h(1)])
       (use h(2) in \<open>simp_all add: value_signature_def\<close>)
  show "finishes qa t s (Accessing (Set_Static_Field0 T c f x))" if h: "args_ok t s [x]" "value_type T"
  proof -
    have T: "jni_type_ok T" "signature_exists T" using h(2) by (simp_all add: value_type_def)
    obtain g where g: "getTypeSignature T = Inr g" "field_signature T g" by (rule made_signature [OF T]) blast
    show ?thesis
      by (rule finishes_leaks [OF assms(1)], rule run_ops, unfold setStaticField_name_signature [OF g(1)],
          rule wp_setStaticField_name_sig [OF a h(1) T(1) g(2)]) simp_all
  qed
  show "finishes qa t s (Asking (Class_Test c))"
    by (rule finishes_leaks [OF assms(1)], rule run_ops, rule wp_isClassAvailable [OF a], blast) simp_all
  show "finishes qa t s (Asking Sdk_Version)"
  proof (rule finishesI, rule run_ops, rule wp_mono [OF wp_androidSdkVersion [OF a]], elim exE)
    fix s' r p assume r: "q_ok s' (tag GlobalRef p \<union> strays s) {} \<and> \<not> qj_pending s' \<and> qj_priv s' = qj_priv s \<and>
      tag GlobalRef p \<inter> (strays s \<union> {}) = {}"
    show "op_done t s (Asking Sdk_Version) s'"
      by (rule grown_done [OF grownI [OF assms(1)]]) (use r qt_invD(3) [OF assms(1)] in auto)
  qed
  show "finishes qa t s (Asking (Find_Class c))"
    by (rule finishes_leaks [OF assms(1)], rule run_ops, rule wp_find_class_block [OF a]) simp_all
  show "finishes qa t s (Asking (Register_Natives c))"
    by (rule finishes_leaks [OF assms(1)], rule run_ops, rule wp_register_block [OF a]) simp_all
qed

lemma lookup_finish:
  assumes "qt_inv s" and "healthy qa" and "class_ok t s p"
  shows "finishes qa t s (Asking (Find_Method p m sig))" and "finishes qa t s (Asking (Find_Static_Method p m sig))"
    and "finishes qa t s (Asking (Find_Field p m sig))" and "finishes qa t s (Asking (Find_Static_Field p m sig))"
proof -
  note a = qt_invD(1) [OF assms(1)] assms(2) qt_invD(2) [OF assms(1)] assms(3)
  show "finishes qa t s (Asking (Find_Method p m sig))" "finishes qa t s (Asking (Find_Static_Method p m sig))"
    "finishes qa t s (Asking (Find_Field p m sig))" "finishes qa t s (Asking (Find_Static_Field p m sig))"
    by (rule finishes_kept [OF assms(1)], rule run_ops,
        unfold findMethod_def findStaticMethod_def findField_def findStaticField_def, rule wp_env_find_block [OF a]; simp)+
qed

lemma pass_in_finish:
  assumes "qt_inv s" and "healthy qa" and "t \<in> jv_attached (qj_vm s)"
  shows "finishes qa t s (Pass_In obj)"
proof -
  obtain s' h where l: "q_local qa t obj s = (s', Some h)" "q_ok s' (strays s) (insert (h, LocalRef t) {})" "later s s'"
    "(h, LocalRef t) \<notin> strays s \<union> {}" "qj_priv s' = qj_priv s" "qj_pending s' = qj_pending s"
    by (rule q_local_ok [OF qt_invD(1) [OF assms(1)] assms(2,3)])
  have "q_ok s' (tag (LocalRef t) (Some h) \<union> strays s) {}" using q_ok_leak [of s' "strays s" "{(h, LocalRef t)}" "{}"] l(2) by simp
  then have "grown s (LocalRef t) (Some h) s'"
    by (rule grownI [OF assms(1)]) (use l qt_invD(2,3) [OF assms(1)] in auto)
  with l(1) show ?thesis unfolding finishes_def op_done_def by (auto simp: grown_def intro!: exI [where x = "Some h"])
qed

lemma run_op_done:
  assumes "qt_inv s" and "healthy qa" and "typed qa" and "op_ok qa t s op"
  shows "finishes qa t s op"
proof (cases op)
  case (Pass_In obj)
  with assms pass_in_finish show ?thesis by simp
next
  case (Making x)
  with assms show ?thesis by (cases x) (simp_all add: constructor_finish from_local_finish)
next
  case (Handling x)
  with assms show ?thesis by (cases x) (simp_all add: existing_finish assign_finish)
next
  case (Calling x)
  with assms show ?thesis by (cases x) (simp_all add: object_finish class_finish named_finish)
next
  case (Accessing x)
  with assms show ?thesis by (cases x) (simp_all add: object_finish class_field_finish named_finish)
next
  case (Asking x)
  with assms show ?thesis by (cases x) (simp_all add: class_field_finish named_finish lookup_finish)
qed

text \<open>So the invariant holds in every state.\<close>

lemma start_q_ok: "q_ok ((qt_start t)\<lparr>qj_initialized := b, qj_vm := (qj_vm (qt_start t))\<lparr>g_jvm := True\<rparr>\<rparr>) {} {}"
proof -
  have "slot Map.empty = Map.empty" by (simp add: slot_def fun_eq_iff)
  then show ?thesis
    by (simp add: q_ok_def qt_start_def jv_ok_def jrefs_ok_def owned_ok_def owns_ok_def unowned_def held_def)
qed

lemma JNI_OnLoad_start:
  assumes "healthy qa" and "typed qa"
  shows "wp (JNI_OnLoad qa t g (qt_start t)) (\<lambda>s' x. qt_inv s' \<and> t \<in> jv_attached (qj_vm s') \<and> qj_priv s' = Map.empty \<and>
           (fst x = JNI_VERSION_1_6 \<and> strays s' = tag GlobalRef (g_jClassLoader s') \<or> fst x = JNI_ERR))"
proof -
  let ?s = "(qt_start t)\<lparr>qj_initialized := True\<rparr>"
  have i: "\<not> qj_initialized (qt_start t)" "t \<in> jv_attached (qj_vm ?s)" "qj_priv ?s = Map.empty" by (simp_all add: qt_start_def)
  have "wp (initJNI qa t (Some t) g ?s) (loading t ?s)"
    by (rule wp_initJNI [OF _ assms]) (use start_q_ok [of t True] in \<open>simp_all add: calm_def qt_start_def\<close>)
  then have "wp (initJNI qa t (Some t) g ?s) (\<lambda>s' x. qt_inv s' \<and> t \<in> jv_attached (qj_vm s') \<and> qj_priv s' = Map.empty \<and>
      (fst x = 0 \<and> strays s' = tag GlobalRef (g_jClassLoader s') \<or> fst x = JNI_ERR))"
  proof (rule wp_mono)
    fix s' x assume "loading t ?s s' x"
    then show "qt_inv s' \<and> t \<in> jv_attached (qj_vm s') \<and> qj_priv s' = Map.empty \<and>
      (fst x = 0 \<and> strays s' = tag GlobalRef (g_jClassLoader s') \<or> fst x = JNI_ERR)"
      using i(3) strays_eq unfolding loading_def loader_ready_def loader_failed_def by (auto intro: qt_invI)
  qed
  then show ?thesis using i by (auto simp: JNI_OnLoad_def Let_def wp_obind JNI_ERR_def elim!: wp_mono)
qed

lemma qt_reachable_inv:
  assumes "qt_reachable qa s" and "healthy qa" and "typed qa"
  shows "qt_inv s"
  using assms(1)
proof induction
  case (start t g s g')
  with wpD [OF JNI_OnLoad_start [OF assms(2,3), of t g]] show ?case by auto
next
  case (step s t op s')
  with run_op_done [OF step.IH assms(2,3) step.hyps(2)] show ?case by (auto simp: finishes_def op_done_def)
qed

subsection \<open>A virtual machine to try it on\<close>

definition demo_java :: qt_java where
  "demo_java =
     \<lparr>qa_refs = \<lparr>ja_attach = (\<lambda>t. True), ja_room = (\<lambda>n. True), ja_frame = (\<lambda>n. True), ja_setspecific = 0\<rparr>,
      qa_find_class = (\<lambda>name. Some 1), qa_class_of = (\<lambda>obj. 2),
      qa_method = (\<lambda>c name signature static. if signature = ''()Ljava/lang/ClassLoader;'' then Some 0
         else if signature = ''(Ljava/lang/String;)Ljava/lang/Class;'' then Some 1 else if signature = ''()I'' then Some 2 else None),
      qa_field = (\<lambda>c name signature static. None),
      qa_method_type = (\<lambda>mid. if mid = 0 then other_object else if mid = 1 then jclass else jint),
      qa_field_type = (\<lambda>fid. jint),
      qa_answer = (\<lambda>cs. case last cs of
         Java_Call mid obj vs \<Rightarrow> if mid = 2 then Some (Prim jint 7) else Some (Obj (Some (length cs))) | _ \<Rightarrow> None),
      qa_new_string = (\<lambda>cs. 9), qa_field_value = (\<lambda>cs fid obj. Prim jint 0), qa_chars = (\<lambda>cs obj. None),
      qa_register = (\<lambda>c. True)\<rparr>"

lemma demo_healthy: "healthy demo_java"
  by (simp add: healthy_def works_def demo_java_def)

lemma demo_typed: "typed demo_java"
  unfolding typed_def by (auto simp: demo_java_def return_descriptor_def descriptor_type_def class_type_def split: if_splits)

lemmas jni_run = jni_ready_def q_local_def hand_out_def checkAndClearExceptions_def env_GetID_def deref_def usable_def
  env_CallObject_def env_Call_def q_local_opt_def object_of_def env_NewGlobalRef_def NewRef_def env_DeleteRef_def DeleteRef_def
  reference_type_def Let_def note_frame_def

text \<open>The library loaded, with the class loader behind the reference 2; and one object for the class loader.\<close>

definition demo_vm :: "(nat \<rightharpoonup> ref_kind \<times> nat) \<Rightarrow> nat \<Rightarrow> jvm" where
  "demo_vm refs n =
     \<lparr>g_jvm = True, tls_jni_detach = Map.empty, jv_attached = {0}, jv_refs = refs, jv_next = n, jv_frames = (\<lambda>t. []),
      jv_collected = {}, jv_vars = Map.empty\<rparr>"

definition demo_state :: "jvm \<Rightarrow> (nat \<rightharpoonup> qprivate \<times> nat) \<Rightarrow> nat \<Rightarrow> qjni" where
  "demo_state vm priv n =
     \<lparr>qj_vm = vm, qj_pending = False, qj_calls = [Java_Call 0 1 []], qj_priv = priv, qj_next = n, qj_pinned = 0, g_jActivity = None,
      g_jService = None, g_jClassLoader = Some 2, jniEnvTLS = {}, sdkVersion = 0, qj_initialized = True\<rparr>"

definition demo_loaded :: qjni where
  "demo_loaded = demo_state (demo_vm [2 \<mapsto> (GlobalRef, 1)] 3) Map.empty 0"

definition demo_object :: qjni where
  "demo_object =
     demo_state (demo_vm [2 \<mapsto> (GlobalRef, 1), 3 \<mapsto> (GlobalRef, 1), 5 \<mapsto> (GlobalRef, 2)] 6)
       [0 \<mapsto> (\<lparr>m_jobject = Some 3, m_jclass = Some 5, m_own_jclass = True, m_className = []\<rparr>, 1)] 1"

lemma demo_loaded_reachable: "qt_reachable demo_java demo_loaded"
proof (rule qt_reachable.start)
  show "JNI_OnLoad demo_java 0 g (qt_start 0) = Inr (demo_loaded, JNI_VERSION_1_6, SetLogSettings (g\<lparr>min_log_level := LOG_INFO\<rparr>) g)" for g
    by (simp add: jni_run JNI_OnLoad_def initJNI_def env_FindClass_def ask_class_loader_def keep_class_loader_def qt_start_def
      demo_java_def demo_loaded_def demo_state_def demo_vm_def fun_upd_twist numeral_2_eq_2)
qed

lemma demo_object_made: "QJniObject_of demo_java 0 (Some 2) demo_loaded = Inr (demo_object, 0)"
  by (simp add: jni_run QJniObject_of_def with_env_def QJniEnvironment_new_def QJniEnvironment_destroy_def adopt_def
    env_GetObjectClass_def new_private_def demo_java_def demo_loaded_def demo_object_def demo_state_def demo_vm_def fun_upd_twist numeral_2_eq_2)

lemma demo_object_reachable: "qt_reachable demo_java demo_object"
proof (rule qt_reachable.step [OF demo_loaded_reachable])
  show "op_ok demo_java 0 demo_loaded (Making (Object_Of (Some 2)))"
    by (simp add: class_ok_def demo_loaded_def demo_state_def demo_vm_def usable_def)
  show "run_op demo_java 0 (Making (Object_Of (Some 2))) demo_loaded = Inr demo_object" by (simp add: state_of_def demo_object_made)
qed


subsection \<open>Properties\<close>



definition object_sound :: "qjni \<Rightarrow> nat \<Rightarrow> nat \<Rightarrow> bool" where
  "object_sound s d h \<longleftrightarrow>
     (case qj_priv s d of
        None \<Rightarrow> False
      | Some (p, n) \<Rightarrow>
          0 < n \<and> map_option fst (jv_refs (qj_vm s) h) = Some GlobalRef \<and>
          (\<exists>c. m_jclass p = Some c \<and> map_option fst (jv_refs (qj_vm s) c) = Some GlobalRef))"

definition sole_holder :: "qjni \<Rightarrow> nat \<Rightarrow> nat \<Rightarrow> bool" where
  "sole_holder s d h \<longleftrightarrow> (\<forall>e. QJniObject_object s e = Inr (Some h) \<longrightarrow> e = d)"

lemma slot_shared:
  assumes "q_ok s R T" and "slot (qj_priv s) x = Some (ScopedJavaGlobalRef (Some h))" and "slot (qj_priv s) y = Some (ScopedJavaGlobalRef (Some h))"
  shows "x = y"
proof -
  have "owns_ok (held (slot (qj_priv s))) (dom (jv_refs (qj_vm s)))"
    using q_okD(1) [OF assms(1)] by (simp add: jv_ok_def owned_ok_def)
  then have "held (slot (qj_priv s)) x = Some (Some h) \<Longrightarrow> held (slot (qj_priv s)) y = Some (Some h) \<Longrightarrow> x = y"
    unfolding owns_ok_def by blast
  with assms(2,3) show ?thesis by (simp add: held_def)
qed

text \<open>C32: in every state that the operations of \<open>run_op\<close> can reach (constructors from classes, names, texts and references, assignment,
  calls and fields among them), an object that is valid holds a global reference that is alive, and knows a class whose
  global reference is alive; no other private object has the same reference, and at least one copy of the object exists. The
  program keeps to the conditions of \<open>op_ok\<close>, and the virtual machine has memory, can attach the threads and is typed.\<close>

theorem qt_objects_alive:
  assumes "qt_reachable qa s" and "healthy qa" and "typed qa" and "QJniObject_object s d = Inr (Some h)"
  shows "object_sound s d h \<and> sole_holder s d h"
proof -
  note inv = qt_reachable_inv [OF assms(1-3)]
  note q = qt_invD(1) [OF inv]
  have priv: "\<exists>p n. qj_priv s e = Some (p, n) \<and> m_jobject p = Some h" if "QJniObject_object s e = Inr (Some h)" for e
    using that by (auto simp: QJniObject_object_def private_at_def obind_eq_Inr split: option.splits)
  then have sl: "slot (qj_priv s) (2 * e) = Some (ScopedJavaGlobalRef (Some h))" if "QJniObject_object s e = Inr (Some h)" for e
    using that by (fastforce simp: slot_def)
  obtain p n where p: "qj_priv s d = Some (p, n)" "m_jobject p = Some h" using priv [OF assms(4)] by blast
  obtain c where c: "m_jclass p = Some c" using qt_invD(3) [OF inv p(1)] p(2) by (auto simp: wf_private_def)
  obtain obj where "jv_refs (qj_vm s) h = Some (GlobalRef, obj)" by (rule q_ok_object_alive [OF q p])
  moreover obtain cl where "jv_refs (qj_vm s) c = Some (GlobalRef, cl)" by (rule q_ok_class_alive [OF q p(1) c])
  ultimately have "object_sound s d h" using p c q_okD(6) [OF q p(1)] by (simp add: object_sound_def)
  moreover have "e = d" if "QJniObject_object s e = Inr (Some h)" for e
    using slot_shared [OF q sl [OF that] sl [OF assms(4)]] by simp
  ultimately show ?thesis by (simp add: sole_holder_def)
qed

theorem qt_objects_alive_witness: "object_sound demo_object 0 3 \<and> sole_holder demo_object 0 3"
  by (rule qt_objects_alive [OF demo_object_reachable demo_healthy demo_typed])
     (simp add: QJniObject_object_def private_at_def demo_object_def demo_state_def)

text \<open>C33: an operation leaves the references that no object owns as they were: only an operation that is given the name of a class
  leaves a new one, at most one and global (its \<open>loadClass\<close> makes it and nothing deletes it), and \<open>fromLocalRef\<close> deletes the local
  reference it is given. (A call from Java, which passes a local reference in, is no operation of the library.) The conditions are
  those of C31.\<close>

theorem qt_operations_leave:
  assumes "qt_reachable qa s" and "healthy qa" and "typed qa" and "op_ok qa t s op" and "run_op qa t op s = Inr s'" and "\<not> passes_in op"
  shows "\<exists>p. strays s' = tag GlobalRef p \<union> (strays s - consumed t op) \<and> tag GlobalRef p \<inter> strays s = {} \<and> (p \<noteq> None \<longrightarrow> names_class op)"
  using run_op_done [OF qt_reachable_inv [OF assms(1-3)] assms(2-4)] assms(5,6) by (auto simp: finishes_def op_done_def)

theorem qt_operations_leave_witness: "strays demo_object = strays demo_loaded"
proof -
  have "op_ok demo_java 0 demo_loaded (Making (Object_Of (Some 2)))"
    by (simp add: class_ok_def demo_loaded_def demo_state_def demo_vm_def usable_def)
  moreover have "run_op demo_java 0 (Making (Object_Of (Some 2))) demo_loaded = Inr demo_object" by (simp add: state_of_def demo_object_made)
  ultimately show ?thesis
    using qt_operations_leave [OF demo_loaded_reachable demo_healthy demo_typed, of 0 "Making (Object_Of (Some 2))" demo_object] by simp
qed

fun class_tests :: "qt_java \<Rightarrow> thread_id \<Rightarrow> string list \<Rightarrow> qjni \<Rightarrow> (qjni \<times> bool list) outcome" where
  "class_tests qa t [] s = Inr (s, [])"
| "class_tests qa t (c # cs) s =
     obind (isClassAvailable qa t c s) (\<lambda>(s1, b). obind (class_tests qa t cs s1) (\<lambda>(s2, bs). Inr (s2, b # bs)))"

lemma demo_class_tests:
  "\<exists>s'. class_tests demo_java 0 [''android/os/Build''] demo_loaded = Inr (s', [True])"
  by (simp add: jni_run isClassAvailable_def loadClass_def QJniObject_of_def with_env_def with_object_def load_named_def fromString_def
    callObjectMethod_def class_ref_def getCleanJniObject_def env_NewStringUTF_def getCachedMethodID_def getCachedMethodID_class_def
    getMethodID_def QJniObject_object_def QJniObject_isValid_def private_at_def QJniObject_destroy_def QJniObjectPrivate_destroy_def
    QJniEnvironment_new_def QJniEnvironment_destroy_def adopt_def deref_opt_def
    env_GetObjectClass_def new_private_def demo_java_def demo_loaded_def demo_state_def demo_vm_def toBinaryEncClassName_def)

lemma finite_strays: "q_ok s R T \<Longrightarrow> finite (strays s)"
proof -
  assume q: "q_ok s R T"
  have "strays s \<subseteq> (\<lambda>h. (h, fst (the (jv_refs (qj_vm s) h)))) ` {h. h < jv_next (qj_vm s)}"
    using q_okD(1) [OF q] jrefs_okD(2) [of "qj_vm s"] unfolding strays_def jv_ok_def
    by (force simp: not_less [symmetric])
  then show ?thesis by (rule finite_subset) simp
qed

lemma class_tests_strays:
  assumes "qt_inv s" and "healthy qa" and "typed qa" and "class_tests qa t cs s = Inr (s', bs)"
  shows "qt_inv s' \<and> card (strays s') = card (strays s) + length (filter (\<lambda>b. b) bs)"
  using assms(1,4)
proof (induction cs arbitrary: s bs)
  case (Cons c cs)
  obtain s1 b bs' where r: "isClassAvailable qa t c s = Inr (s1, b)" "class_tests qa t cs s1 = Inr (s', bs')" "bs = b # bs'"
    using Cons.prems(2) by (auto simp: obind_eq_Inr)
  have "wp (isClassAvailable qa t c s) (\<lambda>s' r. \<exists>p. grown s GlobalRef p s' \<and> r = (p \<noteq> None))"
    by (rule wp_isClassAvailable [OF qt_invD(1) [OF Cons.prems(1)] assms(2,3) qt_invD(2) [OF Cons.prems(1)]])
       (use leaked_grown [OF Cons.prems(1)] in blast)
  then obtain p where p: "grown s GlobalRef p s1" "b = (p \<noteq> None)" using r(1) by (auto simp: wp_def)
  have "card (strays s1) = card (strays s) + (if b then 1 else 0)"
    using p finite_strays [OF qt_invD(1) [OF Cons.prems(1)]] by (cases p) (auto simp: grown_def)
  with Cons.IH [OF _ r(2)] p(1) r(3) show ?case by (simp add: grown_def)
qed simp

text \<open>Every class that \<open>isClassAvailable\<close> finds costs one global reference that nothing deletes: after any number
  of tests there are as many more references without an owner as there were answers \<open>true\<close>.\<close>

theorem isClassAvailable_leaks:
  assumes "qt_reachable qa s" and "healthy qa" and "typed qa" and "class_tests qa t cs s = Inr (s', bs)"
  shows "card (strays s') = card (strays s) + length (filter (\<lambda>b. b) bs)"
  using class_tests_strays [OF qt_reachable_inv [OF assms(1-3)] assms(2-4)] by simp

theorem isClassAvailable_leaks_witness:
  "\<exists>s'. class_tests demo_java 0 [''android/os/Build''] demo_loaded = Inr (s', [True]) \<and> card (strays s') = card (strays demo_loaded) + 1"
proof -
  obtain s' where r: "class_tests demo_java 0 [''android/os/Build''] demo_loaded = Inr (s', [True])" using demo_class_tests by blast
  show ?thesis using isClassAvailable_leaks [OF demo_loaded_reachable demo_healthy demo_typed r] r by simp
qed

end
