(* ===== verification/Context_Queries.thy ===== *)
theory Context_Queries
  imports Qt_Jni_Props Signatures Detectors Utf_Conversion
begin

section \<open>Questions to the context of the application\<close>

text \<open>
  The JNI code of \<open>CheckEnv/src/main/cpp/check_sign.cpp\<close> and \<open>check_multi_open.cpp\<close>, which asks the Java object
  \<open>Context\<close> for the signing certificate and for the name of the package, and \<open>getApplication\<close> of
  \<open>check_sign.cpp\<close> and \<open>app/src/main/cpp/native-lib.cpp\<close>. The environment is that of \<open>Qt_Jni\<close>; its private objects
  are not used here. Native methods run on an attached thread, so the environment is always that of the thread.
\<close>

subsection \<open>More functions of \<open>JNIEnv\<close>\<close>

text \<open>The bytes of a byte array, the elements of an array of objects, the characters of a string, none without
  memory. None of these objects changes here.\<close>

record java_contents =
  jc_bytes :: "nat \<Rightarrow> byte list"
  jc_elements :: "nat \<Rightarrow> nat option list"
  jc_chars :: "nat \<Rightarrow> char16 list option"

definition env_GetByteArray :: "java_contents \<Rightarrow> thread_id \<Rightarrow> thread_id option \<Rightarrow> ptr \<Rightarrow> qjni \<Rightarrow> byte list outcome" where
  "env_GetByteArray jc t env arr s = obind (jni_ready t env s) (\<lambda>_. obind (deref t arr s) (\<lambda>obj. Inr (jc_bytes jc obj)))"

definition env_GetArrayLength :: "java_contents \<Rightarrow> thread_id \<Rightarrow> thread_id option \<Rightarrow> ptr \<Rightarrow> qjni \<Rightarrow> nat outcome" where
  "env_GetArrayLength jc t env arr s = obind (env_GetByteArray jc t env arr s) (\<lambda>bs. Inr (length bs))"

definition env_GetObjectArrayElement ::
  "qt_java \<Rightarrow> java_contents \<Rightarrow> thread_id \<Rightarrow> thread_id option \<Rightarrow> ptr \<Rightarrow> nat \<Rightarrow> qjni \<Rightarrow> (qjni \<times> ptr) outcome" where
  "env_GetObjectArrayElement qa jc t env arr i s =
     obind (jni_ready t env s) (\<lambda>_.
     obind (deref t arr s) (\<lambda>obj.
     if i < length (jc_elements jc obj) then Inr (q_local_opt qa t (jc_elements jc obj ! i) s)
     else Inr (s\<lparr>qj_pending := True\<rparr>, None)))"

text \<open>\<open>GetStringUTFChars\<close> keeps the characters until \<open>ReleaseStringUTFChars\<close>.\<close>

definition env_GetStringUTFChars ::
  "qt_java \<Rightarrow> thread_id \<Rightarrow> thread_id option \<Rightarrow> ptr \<Rightarrow> qjni \<Rightarrow> (qjni \<times> byte list option) outcome" where
  "env_GetStringUTFChars qa t env str s =
     obind (jni_ready t env s) (\<lambda>_.
     obind (deref t str s) (\<lambda>obj.
     case qa_chars qa (qj_calls s) obj of
       None \<Rightarrow> Inr (s\<lparr>qj_pending := True\<rparr>, None)
     | Some bs \<Rightarrow> Inr (s\<lparr>qj_pinned := qj_pinned s + 1\<rparr>, Some bs)))"

definition env_ReleaseStringUTFChars :: "thread_id \<Rightarrow> thread_id option \<Rightarrow> qjni \<Rightarrow> (qjni \<times> unit) outcome" where
  "env_ReleaseStringUTFChars t env s = obind (defined (env = Some t)) (\<lambda>_. Inr (s\<lparr>qj_pinned := qj_pinned s - 1\<rparr>, ()))"

text \<open>A call through a method identifier that was looked up before; it must not be null.\<close>

definition need_id :: "'a option \<Rightarrow> 'a outcome" where
  "need_id r = (case r of None \<Rightarrow> Inl Undefined_Behaviour | Some x \<Rightarrow> Inr x)"

definition call_object_id ::
  "qt_java \<Rightarrow> thread_id \<Rightarrow> thread_id option \<Rightarrow> ptr \<Rightarrow> nat option \<Rightarrow> jarg list \<Rightarrow> qjni \<Rightarrow> (qjni \<times> ptr) outcome" where
  "call_object_id qa t env obj methodID args s = obind (need_id methodID) (\<lambda>mid. env_CallObject qa t env obj mid args s)"

definition get_object_field_id ::
  "qt_java \<Rightarrow> thread_id \<Rightarrow> thread_id option \<Rightarrow> ptr \<Rightarrow> nat option \<Rightarrow> qjni \<Rightarrow> (qjni \<times> ptr) outcome" where
  "get_object_field_id qa t env obj fieldID s = obind (need_id fieldID) (\<lambda>fid. env_GetObjectField qa t env obj fid s)"

text \<open>\<open>JavaStringToString\<close> of \<open>jni_string.hpp\<close>.\<close>

definition text_of :: "byte list \<Rightarrow> string" where
  "text_of bs = map (\<lambda>b. char_of (unat b)) bs"

definition q_JavaStringToString :: "java_contents \<Rightarrow> thread_id \<Rightarrow> thread_id option \<Rightarrow> ptr \<Rightarrow> qjni \<Rightarrow> (qjni \<times> string) outcome" where
  "q_JavaStringToString jc t env str s =
     (if env = None \<or> str = None then Inr (s, [])
      else
        obind (jni_ready t env s) (\<lambda>_.
        obind (deref t str s) (\<lambda>obj.
        case jc_chars jc obj of
          None \<Rightarrow> Inr (s\<lparr>qj_pending := True\<rparr>, [])
        | Some chars \<Rightarrow>
            (case UTF16StringToUTF8String chars of
               None \<Rightarrow> Inl Range_Error
             | Some u8_string \<Rightarrow> Inr (s, text_of u8_string)))))"

subsection \<open>\<open>check_sign.cpp\<close>\<close>

text \<open>Nothing is tested on the way: a lookup that fails, or a null result, is used as it is.\<close>

definition signatures_of ::
  "qt_java \<Rightarrow> java_contents \<Rightarrow> thread_id \<Rightarrow> thread_id option \<Rightarrow> ptr \<Rightarrow> qjni \<Rightarrow> (qjni \<times> ptr) outcome" where
  "signatures_of qa jc t env packageInfo s =
     obind (env_GetObjectClass qa t env packageInfo s) (\<lambda>(s1, packageinfo_clazz).
     obind (env_GetID (qa_field qa) t env packageinfo_clazz ''signatures'' ''[Landroid/content/pm/Signature;'' False s1) (\<lambda>(s2, fieldID_signatures).
     obind (get_object_field_id qa t env packageInfo fieldID_signatures s2) (\<lambda>(s3, signature_arr).
     obind (env_GetObjectArrayElement qa jc t env signature_arr 0 s3) (\<lambda>(s4, signature).
     obind (env_GetObjectClass qa t env signature s4) (\<lambda>(s5, signature_clazz).
     obind (env_GetID (qa_method qa) t env signature_clazz ''toByteArray'' ''()[B'' False s5) (\<lambda>(s6, methodID_byteArray).
     call_object_id qa t env signature methodID_byteArray [] s6))))))"

definition getSignatureByte ::
  "qt_java \<Rightarrow> java_contents \<Rightarrow> thread_id \<Rightarrow> thread_id option \<Rightarrow> ptr \<Rightarrow> qjni \<Rightarrow> (qjni \<times> ptr) outcome" where
  "getSignatureByte qa jc t env context s =
     obind (env_GetObjectClass qa t env context s) (\<lambda>(s1, context_clazz).
     obind (env_GetID (qa_method qa) t env context_clazz ''getPackageManager'' ''()Landroid/content/pm/PackageManager;'' False s1)
       (\<lambda>(s2, methodID_getPackageManager).
     obind (call_object_id qa t env context methodID_getPackageManager [] s2) (\<lambda>(s3, packageManager).
     obind (env_GetObjectClass qa t env packageManager s3) (\<lambda>(s4, packageManager_clazz).
     obind (env_GetID (qa_method qa) t env packageManager_clazz ''getPackageInfo''
              ''(Ljava/lang/String;I)Landroid/content/pm/PackageInfo;'' False s4) (\<lambda>(s5, methodID_getPackageInfo).
     obind (env_GetID (qa_method qa) t env context_clazz ''getPackageName'' ''()Ljava/lang/String;'' False s5) (\<lambda>(s6, methodID_getPackageName).
     obind (call_object_id qa t env context methodID_getPackageName [] s6) (\<lambda>(s7, application_package).
     obind (env_GetStringUTFChars qa t env application_package s7) (\<lambda>(s8, package_name).
     obind (call_object_id qa t env packageManager methodID_getPackageInfo [Arg_Ref application_package, Arg_Prim jint 64] s8)
       (\<lambda>(s9, packageInfo).
     signatures_of qa jc t env packageInfo s9)))))))))"

text \<open>The two entry points. The array made with \<open>new\<close> for the bytes is never deleted. The expected text is
  converted three times, to be compared, to be printed and to be logged.\<close>

definition cert_bytes ::
  "qt_java \<Rightarrow> java_contents \<Rightarrow> thread_id \<Rightarrow> thread_id option \<Rightarrow> ptr \<Rightarrow> qjni \<Rightarrow> (qjni \<times> byte list) outcome" where
  "cert_bytes qa jc t env context s =
     obind (getSignatureByte qa jc t env context s) (\<lambda>(s1, cert_byteArray).
     obind (env_GetArrayLength jc t env cert_byteArray s1) (\<lambda>n.
     obind (env_GetByteArray jc t env cert_byteArray s1) (\<lambda>bytes. Inr (s1, take n bytes))))"

definition CheckSign_getSignature ::
  "hash_library \<Rightarrow> qt_java \<Rightarrow> java_contents \<Rightarrow> thread_id \<Rightarrow> ptr \<Rightarrow> qjni \<Rightarrow> (qjni \<times> ptr) outcome" where
  "CheckSign_getSignature h qa jc t context s =
     obind (cert_bytes qa jc t (Some t) context s) (\<lambda>(s1, cert).
     obind (getSignature h cert) (\<lambda>resultStr. env_NewStringUTF qa t (Some t) (ascii_bytes resultStr) s1))"

definition CheckSign_checkSignature ::
  "hash_library \<Rightarrow> qt_java \<Rightarrow> java_contents \<Rightarrow> thread_id \<Rightarrow> ptr \<Rightarrow> ptr \<Rightarrow> qjni \<Rightarrow> (qjni \<times> ptr) outcome" where
  "CheckSign_checkSignature h qa jc t context signature_md5 s =
     obind (cert_bytes qa jc t (Some t) context s) (\<lambda>(s1, cert).
     obind (q_JavaStringToString jc t (Some t) signature_md5 s1) (\<lambda>(s2, compared).
     obind (q_JavaStringToString jc t (Some t) signature_md5 s2) (\<lambda>(s3, printed).
     obind (q_JavaStringToString jc t (Some t) signature_md5 s3) (\<lambda>(s4, logged).
     obind (checkSignature h cert printed) (\<lambda>resultStr.
     env_NewStringUTF qa t (Some t) (ascii_bytes resultStr) s4)))))"

text \<open>\<open>getApplication\<close>: the class is released, an exception of the lookup is not cleared.\<close>

definition getApplication :: "qt_java \<Rightarrow> thread_id \<Rightarrow> thread_id option \<Rightarrow> qjni \<Rightarrow> (qjni \<times> ptr) outcome" where
  "getApplication qa t env s =
     obind (env_FindClass qa t env ''android/app/ActivityThread'' s) (\<lambda>(s1, activity_thread_clz).
     if activity_thread_clz \<noteq> None
     then
       obind (env_GetID (qa_method qa) t env activity_thread_clz ''currentApplication'' ''()Landroid/app/Application;'' True s1)
         (\<lambda>(s2, currentApplication).
       obind (case currentApplication of
                None \<Rightarrow> Inr (s2, None)
              | Some mid \<Rightarrow> env_CallObject qa t env activity_thread_clz mid [] s2) (\<lambda>(s3, application).
       obind (env_DeleteRef t env (LocalRef t) activity_thread_clz s3) (\<lambda>(s4, u). Inr (s4, application))))
     else Inr (s1, None))"

subsection \<open>\<open>check_multi_open.cpp\<close>\<close>

definition errorCatch :: "thread_id \<Rightarrow> thread_id option \<Rightarrow> qjni \<Rightarrow> (qjni \<times> int) outcome" where
  "errorCatch t env s =
     obind (defined (env = Some t)) (\<lambda>_.
     if qj_pending s then Inr (s\<lparr>qj_pending := False\<rparr>, 1) else Inr (s, - 1))"

definition getPackageName_jni :: "qt_java \<Rightarrow> thread_id \<Rightarrow> thread_id option \<Rightarrow> ptr \<Rightarrow> qjni \<Rightarrow> (qjni \<times> ptr) outcome" where
  "getPackageName_jni qa t env context s =
     obind (env_GetObjectClass qa t env context s) (\<lambda>(s1, clazz).
     if clazz = None then obind (errorCatch t env s1) (\<lambda>(s2, r). Inr (s2, None))
     else
       obind (env_GetID (qa_method qa) t env clazz ''getPackageName'' ''()Ljava/lang/String;'' False s1) (\<lambda>(s2, mId).
       case mId of
         None \<Rightarrow> obind (errorCatch t env s2) (\<lambda>(s3, r). Inr (s3, None))
       | Some mid \<Rightarrow>
           obind (env_CallObject qa t env context mid [] s2) (\<lambda>(s3, packageName).
           obind (env_DeleteRef t env (LocalRef t) clazz s3) (\<lambda>(s4, u). Inr (s4, packageName)))))"

text \<open>The shell command and its answer, for a name of which \<open>sprintf\<close> stops at a NUL; a null name is undefined.\<close>

definition list_directory :: "os \<Rightarrow> byte list option \<Rightarrow> int outcome" where
  "list_directory sys name =
     obind (need_id name) (\<lambda>bs.
     obind (sprintf_into 256 (''ls /data/data/'' @ c_str (text_of bs @ [NUL]))) (\<lambda>path.
     case os_command sys path of
       None \<Rightarrow> Inr (- 1)
     | Some out \<Rightarrow>
         (case fgets 32 out of
            None \<Rightarrow> Inr 1
          | Some (buff, _) \<Rightarrow> if length (c_str buff) \<noteq> 0 then Inr 0 else Inr 1)))"

definition CheckMultiOpen_Ext :: "os \<Rightarrow> qt_java \<Rightarrow> thread_id \<Rightarrow> ptr \<Rightarrow> qjni \<Rightarrow> (qjni \<times> int) outcome" where
  "CheckMultiOpen_Ext sys qa t context s =
     (if \<not> os_F_OK sys ''/system/bin/ls'' then Inr (s, - 1)
      else
        obind (getPackageName_jni qa t (Some t) context s) (\<lambda>(s1, packageName).
        if packageName = None then Inr (s1, - 1)
        else
          obind (env_GetStringUTFChars qa t (Some t) packageName s1) (\<lambda>(s2, name).
          obind (list_directory sys name) (\<lambda>answer.
          obind (env_ReleaseStringUTFChars t (Some t) s2) (\<lambda>(s3, u). Inr (s3, answer))))))"

definition isNativeCheckUserDualAppByDataDir :: "os \<Rightarrow> java_contents \<Rightarrow> thread_id \<Rightarrow> ptr \<Rightarrow> qjni \<Rightarrow> (qjni \<times> bool) outcome" where
  "isNativeCheckUserDualAppByDataDir sys jc t data_dir s =
     obind (q_JavaStringToString jc t (Some t) data_dir s) (\<lambda>(s1, dir). Inr (s1, isUserDualApp sys dir))"


subsection \<open>What is left in the frame\<close>

text \<open>So many more local references of the thread, and everything else as it was.\<close>

definition gained :: "thread_id \<Rightarrow> qjni \<Rightarrow> (nat \<times> ref_kind) set \<Rightarrow> nat \<Rightarrow> qjni \<Rightarrow> bool" where
  "gained t s R n s' \<longleftrightarrow>
     (\<exists>L. q_ok s' R L \<and> finite L \<and> card L = n \<and> L \<subseteq> {(h, k). k = LocalRef t}) \<and> calm t s' \<and> later s s' \<and> keeps s s' \<and>
     qj_priv s' = qj_priv s"

lemma gained_start: "q_ok s R {} \<Longrightarrow> calm t s \<Longrightarrow> gained t s R 0 s"
  by (auto simp: gained_def keeps_def intro!: exI [where x = "{}"])

lemma gained_calm: "gained t s R n s' \<Longrightarrow> calm t s'"
  by (simp add: gained_def)

text \<open>One more.\<close>

lemma gained_more:
  assumes "gained t s R n s1" and "q_ok s1 R L" "finite L" "card L = n" "L \<subseteq> {(h, k). k = LocalRef t}"
    and "q_ok s2 R (insert (h, LocalRef t) L)" and "(h, LocalRef t) \<notin> R \<union> L"
    and "calm t s2" and "later s1 s2" and "qj_priv s2 = qj_priv s1"
  shows "gained t s R (Suc n) s2" and "keeps s1 s2"
proof -
  show k: "keeps s1 s2" by (rule keepsI [OF assms(2,6) _ _ assms(9)]) (use assms(10) in auto)
  then have "keeps s s2" using assms(1) by (auto simp: gained_def keeps_def)
  moreover have "later s s2" using assms(1) later_trans [OF _ assms(9)] by (auto simp: gained_def)
  ultimately show "gained t s R (Suc n) s2"
    using assms unfolding gained_def by (intro conjI exI [where x = "insert (h, LocalRef t) L"]) auto
qed

lemma gained_class:
  assumes "gained t s R n s1" and "healthy qa" and "refers t s1 p obj"
    and "\<And>s2 h. gained t s R (Suc n) s2 \<Longrightarrow> keeps s1 s2 \<Longrightarrow> refers t s2 h (qa_class_of qa obj) \<Longrightarrow> qj_calls s2 = qj_calls s1 \<Longrightarrow> Q s2 (Some h)"
  shows "wp (env_GetObjectClass qa t (Some t) (Some p) s1) Q"
proof -
  obtain L where L: "q_ok s1 R L" "finite L" "card L = n" "L \<subseteq> {(h, k). k = LocalRef t}" using assms(1) by (auto simp: gained_def)
  obtain k where p: "jv_refs (qj_vm s1) p = Some (k, obj)" "usable t p (qj_vm s1)" using assms(3) by (auto simp: refers_def)
  show ?thesis
  proof (rule wp_GetObjectClass [OF L(1) assms(2) gained_calm [OF assms(1)] p])
    fix s2 h
    assume s2: "q_ok s2 R (insert (h, LocalRef t) L)" "later s1 s2" "(h, LocalRef t) \<notin> R \<union> L"
      "jv_refs (qj_vm s2) h = Some (LocalRef t, qa_class_of qa obj)" "qj_priv s2 = qj_priv s1" "calm t s2" "qj_calls s2 = qj_calls s1"
    note g = gained_more [OF assms(1) L s2(1,3,6,2,5)]
    have "refers t s2 h (qa_class_of qa obj)" using s2(4) usable_local [OF s2(4)] by (auto simp: refers_def)
    with g s2(7) show "Q s2 (Some h)" by (intro assms(4))
  qed
qed

text \<open>A lookup that succeeds changes nothing.\<close>

lemma gained_id:
  assumes "calm t s1" and "refers t s1 p c" and "tab c name signature False = Some r" and "Q s1 (Some r)"
  shows "wp (env_GetID tab t (Some t) (Some p) name signature False s1) Q"
proof -
  obtain k where p: "jv_refs (qj_vm s1) p = Some (k, c)" "usable t p (qj_vm s1)" using assms(2) by (auto simp: refers_def)
  show ?thesis by (rule wp_GetID [OF assms(1) p]) (use assms in \<open>simp add: no_pending calm_def\<close>)
qed

text \<open>A call that returns an object.\<close>

lemma gained_local:
  assumes "gained t s R n s1" and "healthy qa"
    and "\<And>s2 h. gained t s R (Suc n) s2 \<Longrightarrow> keeps s1 s2 \<Longrightarrow> refers t s2 h obj \<Longrightarrow> qj_calls s2 = qj_calls s1 \<Longrightarrow> Q s2 (Some h)"
  shows "wp (Inr (q_local_opt qa t (Some obj) s1)) Q"
proof -
  obtain L where L: "q_ok s1 R L" "finite L" "card L = n" "L \<subseteq> {(h, k). k = LocalRef t}" using assms(1) by (auto simp: gained_def)
  have t: "t \<in> jv_attached (qj_vm s1)" using gained_calm [OF assms(1)] by (simp add: calm_def)
  obtain s2 h where s2: "q_local qa t obj s1 = (s2, Some h)" "q_ok s2 R (insert (h, LocalRef t) L)" "later s1 s2"
    "(h, LocalRef t) \<notin> R \<union> L" "jv_refs (qj_vm s2) h = Some (LocalRef t, obj)" "qj_priv s2 = qj_priv s1"
    "qj_pending s2 = qj_pending s1" "t \<in> jv_attached (qj_vm s2)" "qj_calls s2 = qj_calls s1"
    by (rule q_local_ok [OF L(1) assms(2) t])
  have c: "calm t s2" using s2(7,8) gained_calm [OF assms(1)] by (simp add: calm_def)
  note g = gained_more [OF assms(1) L s2(2,4) c s2(3,6)]
  have "refers t s2 h obj" using s2(5) usable_local [OF s2(5)] by (auto simp: refers_def)
  with g s2(1,9) assms(3) show ?thesis by (simp add: q_local_opt_def wp_simps)
qed

lemma gained_calls: "gained t s R n s1 \<Longrightarrow> gained t s R n (s1\<lparr>qj_calls := cs\<rparr>)"
  and gained_pinned: "gained t s R n s1 \<Longrightarrow> gained t s R n (s1\<lparr>qj_pinned := m\<rparr>)"
  by (auto simp: gained_def keeps_def calm_def)

lemma gained_call:
  assumes "gained t s R n s1" and "healthy qa" and "refers t s1 p obj" and "args_ok t s1 args" and "reference_type (qa_method_type qa mid)"
    and "qa_answer qa (qj_calls s1 @ [Java_Call mid obj (map (arg_val s1) args)]) = Some (Obj (Some res))"
    and "\<And>s2 h. gained t s R (Suc n) s2 \<Longrightarrow> keeps s1 s2 \<Longrightarrow> refers t s2 h res \<Longrightarrow> Q s2 (Some h)"
  shows "wp (call_object_id qa t (Some t) (Some p) (Some mid) args s1) Q"
  unfolding call_object_id_def need_id_def option.case obind_Inr env_CallObject_def wp_obind split_conv
proof (rule wp_env_Call [where fits_type = reference_type, OF gained_calm [OF assms(1)] assms(3,4,5) refl])
  let ?cs = "qj_calls s1 @ [Java_Call mid obj (map (arg_val s1) args)]"
  have e: "s1\<lparr>qj_calls := ?cs, qj_pending := qa_answer qa ?cs = None\<rparr> = s1\<lparr>qj_calls := ?cs\<rparr>"
    using assms(6) gained_calm [OF assms(1)] no_pending [of "s1\<lparr>qj_calls := ?cs\<rparr>"] by (simp add: calm_def)
  have "wp (Inr (q_local_opt qa t (Some res) (s1\<lparr>qj_calls := ?cs\<rparr>))) Q"
    by (rule gained_local [OF gained_calls [OF assms(1)] assms(2)]) (use assms(7) in \<open>auto simp: keeps_def\<close>)
  then show "wp (Inr (q_local_opt qa t (object_of (qa_answer qa ?cs)) (s1\<lparr>qj_calls := ?cs, qj_pending := qa_answer qa ?cs = None\<rparr>))) Q"
    unfolding e by (simp add: object_of_def assms(6))
qed


subsection \<open>The certificate\<close>

text \<open>What the documentation of Android says of the objects the code asks for: the methods and the field exist, they
  throw no exception, and the list of signatures is not empty.\<close>

record apk =
  ak_context :: nat
  ak_manager :: nat
  ak_name :: nat
  ak_info :: nat
  ak_signatures :: nat
  ak_signature :: nat
  ak_cert :: nat

definition method_answers :: "qt_java \<Rightarrow> nat \<Rightarrow> string \<Rightarrow> string \<Rightarrow> jvalue list \<Rightarrow> nat \<Rightarrow> bool" where
  "method_answers qa obj name signature vs res \<longleftrightarrow>
     (\<exists>mid. qa_method qa (qa_class_of qa obj) name signature False = Some mid \<and>
        (\<forall>cs. qa_answer qa (cs @ [Java_Call mid obj vs]) = Some (Obj (Some res))))"

definition installed :: "qt_java \<Rightarrow> java_contents \<Rightarrow> apk \<Rightarrow> bool" where
  "installed qa jc a \<longleftrightarrow>
     method_answers qa (ak_context a) ''getPackageManager'' ''()Landroid/content/pm/PackageManager;'' [] (ak_manager a) \<and>
     method_answers qa (ak_context a) ''getPackageName'' ''()Ljava/lang/String;'' [] (ak_name a) \<and>
     method_answers qa (ak_manager a) ''getPackageInfo'' ''(Ljava/lang/String;I)Landroid/content/pm/PackageInfo;''
       [Obj (Some (ak_name a)), Prim jint 64] (ak_info a) \<and>
     (\<forall>cs. qa_chars qa cs (ak_name a) \<noteq> None) \<and>
     (\<exists>fid. qa_field qa (qa_class_of qa (ak_info a)) ''signatures'' ''[Landroid/content/pm/Signature;'' False = Some fid \<and>
        (\<forall>cs. qa_field_value qa cs fid (ak_info a) = Obj (Some (ak_signatures a)))) \<and>
     (\<exists>rest. jc_elements jc (ak_signatures a) = Some (ak_signature a) # rest) \<and>
     method_answers qa (ak_signature a) ''toByteArray'' ''()[B'' [] (ak_cert a)"

lemma method_answersE:
  assumes "method_answers qa obj name signature vs res" and "typed qa" and "returns_object signature"
  obtains mid where "qa_method qa (qa_class_of qa obj) name signature False = Some mid"
    and "reference_type (qa_method_type qa mid)" and "\<And>cs. qa_answer qa (cs @ [Java_Call mid obj vs]) = Some (Obj (Some res))"
  using assms typedD(1) [OF assms(2)] by (auto simp: method_answers_def returns_object_def)

lemma android_types:
  "returns_object ''()Landroid/content/pm/PackageManager;''" "returns_object ''()Ljava/lang/String;''"
  "returns_object ''(Ljava/lang/String;I)Landroid/content/pm/PackageInfo;''" "returns_object ''()[B''"
  "reference_type (descriptor_type ''[Landroid/content/pm/Signature;'')"
  by (simp_all add: returns_object_def return_descriptor_def descriptor_type_def class_type_def array_type_def reference_type_def)

lemma gained_object_field:
  assumes "gained t s R n s1" and "healthy qa" and "refers t s1 p obj" and "reference_type (qa_field_type qa fid)"
    and "qa_field_value qa (qj_calls s1) fid obj = Obj (Some res)"
    and "\<And>s2 h. gained t s R (Suc n) s2 \<Longrightarrow> keeps s1 s2 \<Longrightarrow> refers t s2 h res \<Longrightarrow> Q s2 (Some h)"
  shows "wp (get_object_field_id qa t (Some t) (Some p) (Some fid) s1) Q"
proof -
  have "wp (Inr (q_local_opt qa t (Some res) s1)) Q" by (rule gained_local [OF assms(1,2)]) (use assms(6) in blast)
  then show ?thesis
    using gained_calm [OF assms(1)] assms(3,4,5)
    by (auto simp: get_object_field_id_def need_id_def env_GetObjectField_def env_GetField_def jni_ready_def calm_def deref_def refers_def
        object_of_def wp_simps)
qed

lemma gained_element:
  assumes "gained t s R n s1" and "healthy qa" and "refers t s1 p obj" and "jc_elements jc obj = Some res # rest"
    and "\<And>s2 h. gained t s R (Suc n) s2 \<Longrightarrow> keeps s1 s2 \<Longrightarrow> refers t s2 h res \<Longrightarrow> Q s2 (Some h)"
  shows "wp (env_GetObjectArrayElement qa jc t (Some t) (Some p) 0 s1) Q"
proof -
  have "wp (Inr (q_local_opt qa t (Some res) s1)) Q" by (rule gained_local [OF assms(1,2)]) (use assms(5) in blast)
  then show ?thesis
    using gained_calm [OF assms(1)] assms(3,4)
    by (auto simp: env_GetObjectArrayElement_def jni_ready_def calm_def deref_def refers_def wp_simps)
qed

lemma wp_signatures_of:
  assumes "gained t s R n s0" and "healthy qa" and "typed qa" and "installed qa jc a" and "refers t s0 p (ak_info a)"
    and "\<And>s' h. gained t s R (n + 5) s' \<Longrightarrow> refers t s' h (ak_cert a) \<Longrightarrow> Q s' (Some h)"
  shows "wp (signatures_of qa jc t (Some t) (Some p) s0) Q"
proof -
  obtain fid where fid: "qa_field qa (qa_class_of qa (ak_info a)) ''signatures'' ''[Landroid/content/pm/Signature;'' False = Some fid"
    "\<And>cs. qa_field_value qa cs fid (ak_info a) = Obj (Some (ak_signatures a))" using assms(4) by (auto simp: installed_def)
  have ft: "reference_type (qa_field_type qa fid)" using typedD(2) [OF assms(3) fid(1)] android_types(5) by simp
  obtain rest where el: "jc_elements jc (ak_signatures a) = Some (ak_signature a) # rest" using assms(4) by (auto simp: installed_def)
  obtain mid where mid: "qa_method qa (qa_class_of qa (ak_signature a)) ''toByteArray'' ''()[B'' False = Some mid"
    "reference_type (qa_method_type qa mid)" "\<And>cs. qa_answer qa (cs @ [Java_Call mid (ak_signature a) []]) = Some (Obj (Some (ak_cert a)))"
    using method_answersE [OF _ assms(3) android_types(4)] assms(4) unfolding installed_def by metis
  show ?thesis
    unfolding signatures_of_def wp_obind split_conv
  proof (rule gained_class [OF assms(1,2,5)], goal_cases)
    case (1 s1 c)
    show ?case
    proof (rule gained_id [where tab = "qa_field qa", OF gained_calm [OF 1(1)] 1(3) fid(1)],
        rule gained_object_field [OF 1(1) assms(2) refers_keeps [OF assms(5) 1(2)] ft fid(2)], goal_cases)
      case (1 s2 arr)
      show ?case
      proof (rule gained_element [OF 1(1) assms(2) 1(3) el], goal_cases)
        case (1 s3 sg)
        show ?case
        proof (rule gained_class [OF 1(1) assms(2) 1(3)], goal_cases)
          case (1 s4 c')
          have sg: "refers t s4 sg (ak_signature a)" by (rule refers_keeps [OF _ 1(2)]) fact
          show ?case
            by (rule gained_id [where tab = "qa_method qa", OF gained_calm [OF 1(1)] 1(3) mid(1)],
                rule gained_call [OF 1(1) assms(2) sg _ mid(2)])
               (use mid(3) assms(6) in \<open>auto simp: args_ok_def eval_nat_numeral\<close>)
        qed
      qed
    qed
  qed
qed


lemma wp_getSignatureByte:
  assumes "gained t s R n s0" and "healthy qa" and "typed qa" and "installed qa jc a" and "refers t s0 p (ak_context a)"
    and "\<And>s' h. gained t s R (n + 10) s' \<Longrightarrow> refers t s' h (ak_cert a) \<Longrightarrow> Q s' (Some h)"
  shows "wp (getSignatureByte qa jc t (Some t) (Some p) s0) Q"
proof -
  obtain m1 where m1: "qa_method qa (qa_class_of qa (ak_context a)) ''getPackageManager'' ''()Landroid/content/pm/PackageManager;'' False = Some m1"
    "reference_type (qa_method_type qa m1)" "\<And>cs. qa_answer qa (cs @ [Java_Call m1 (ak_context a) []]) = Some (Obj (Some (ak_manager a)))"
    using method_answersE [OF _ assms(3) android_types(1)] assms(4) unfolding installed_def by metis
  obtain m2 where m2: "qa_method qa (qa_class_of qa (ak_context a)) ''getPackageName'' ''()Ljava/lang/String;'' False = Some m2"
    "reference_type (qa_method_type qa m2)" "\<And>cs. qa_answer qa (cs @ [Java_Call m2 (ak_context a) []]) = Some (Obj (Some (ak_name a)))"
    using method_answersE [OF _ assms(3) android_types(2)] assms(4) unfolding installed_def by metis
  obtain m3 where m3: "qa_method qa (qa_class_of qa (ak_manager a)) ''getPackageInfo'' ''(Ljava/lang/String;I)Landroid/content/pm/PackageInfo;'' False = Some m3"
    "reference_type (qa_method_type qa m3)"
    "\<And>cs. qa_answer qa (cs @ [Java_Call m3 (ak_manager a) [Obj (Some (ak_name a)), Prim jint 64]]) = Some (Obj (Some (ak_info a)))"
    using method_answersE [OF _ assms(3) android_types(3)] assms(4) unfolding installed_def by metis
  have chars: "\<exists>bs. qa_chars qa cs (ak_name a) = Some bs" for cs using assms(4) by (auto simp: installed_def)
  show ?thesis
    unfolding getSignatureByte_def wp_obind split_conv
  proof (rule gained_class [OF assms(1,2,5)], goal_cases)
    case (1 s1 cc)
    note ctx1 = refers_keeps [OF assms(5) 1(2)] and cc1 = 1(3)
    show ?case
    proof (rule gained_id [where tab = "qa_method qa", OF gained_calm [OF 1(1)] 1(3) m1(1)],
        rule gained_call [where res = "ak_manager a", OF 1(1) assms(2) ctx1 _ m1(2)], goal_cases)
      case (3 s2 pm)
      note ctx2 = refers_keeps [OF ctx1 3(2)] and cc2 = refers_keeps [OF cc1 3(2)] and pm2 = 3(3)
      show ?case
      proof (rule gained_class [OF 3(1) assms(2) pm2], goal_cases)
        case (1 s3 mc)
        note ctx3 = refers_keeps [OF ctx2 1(2)] and cc3 = refers_keeps [OF cc2 1(2)] and pm3 = refers_keeps [OF pm2 1(2)]
        note c3 = gained_calm [OF 1(1)]
        show ?case
        proof (rule gained_id [where tab = "qa_method qa", OF c3 1(3) m3(1)], rule gained_id [where tab = "qa_method qa", OF c3 cc3 m2(1)],
            rule gained_call [where res = "ak_name a", OF 1(1) assms(2) ctx3 _ m2(2)], goal_cases)
          case (3 s4 nm)
          obtain bs where bs: "qa_chars qa (qj_calls s4) (ak_name a) = Some bs" using chars by blast
          let ?s4 = "s4\<lparr>qj_pinned := qj_pinned s4 + 1\<rparr>"
          have k4: "keeps s4 ?s4" by (rule keeps_refs) simp
          note g4 = gained_pinned [OF 3(1), of "qj_pinned s4 + 1"] and pm4 = refers_keeps [OF refers_keeps [OF pm3 3(2)] k4]
            and nm4 = refers_keeps [OF 3(3) k4]
          have a4: "args_ok t ?s4 [Arg_Ref (Some nm), Arg_Prim jint 64]"
            using nm4 by (auto simp: args_ok_def refers_def)
          have v4: "map (arg_val ?s4) [Arg_Ref (Some nm), Arg_Prim jint 64] = [Obj (Some (ak_name a)), Prim jint 64]"
            using nm4 by (auto simp: refers_def)
          have "wp (call_object_id qa t (Some t) (Some pm) (Some m3) [Arg_Ref (Some nm), Arg_Prim jint 64] ?s4)
              (\<lambda>s9 packageInfo. wp (signatures_of qa jc t (Some t) packageInfo s9) Q)"
          proof (rule gained_call [where res = "ak_info a", OF g4 assms(2) pm4 a4 m3(2)], goal_cases)
            case 1
            show ?case unfolding v4 by (rule m3(3))
          next
            case (2 s5 inf)
            show ?case
              by (rule wp_signatures_of [OF 2(1) assms(2-4) 2(3)]) (use assms(6) in \<open>simp add: eval_nat_numeral\<close>)
          qed
          with bs 3(3) gained_calm [OF 3(1)] show ?case
            by (auto simp: env_GetStringUTFChars_def jni_ready_def calm_def deref_def refers_def wp_simps)
        qed (use m2(3) in \<open>auto simp: args_ok_def\<close>)
      qed
    qed (use m1(3) in \<open>auto simp: args_ok_def\<close>)
  qed
qed

lemma wp_cert_bytes:
  assumes "gained t s R n s0" and "healthy qa" and "typed qa" and "installed qa jc a" and "refers t s0 p (ak_context a)"
    and "\<And>s'. gained t s R (n + 10) s' \<Longrightarrow> Q s' (jc_bytes jc (ak_cert a))"
  shows "wp (cert_bytes qa jc t (Some t) (Some p) s0) Q"
  unfolding cert_bytes_def wp_obind split_conv
proof (rule wp_getSignatureByte [OF assms(1-5)], goal_cases)
  case (1 s' h)
  then show ?case using gained_calm [OF 1(1)] assms(6)
    by (auto simp: env_GetArrayLength_def env_GetByteArray_def jni_ready_def calm_def deref_def refers_def wp_simps)
qed


subsection \<open>The entry points of the signature check\<close>

lemma wp_NewStringUTF_gained:
  assumes "gained t s R n s1" and "healthy qa"
    and "\<And>s2 h. gained t s R (Suc n) s2 \<Longrightarrow> refers t s2 h (qa_new_string qa (qj_calls s2)) \<Longrightarrow> last (qj_calls s2) = Java_New_String str \<Longrightarrow> Q s2 (Some h)"
  shows "wp (env_NewStringUTF qa t (Some t) str s1) Q"
proof -
  let ?cs = "qj_calls s1 @ [Java_New_String str]"
  have "wp (Inr (q_local_opt qa t (Some (qa_new_string qa ?cs)) (s1\<lparr>qj_calls := ?cs\<rparr>))) Q"
    by (rule gained_local [OF gained_calls [OF assms(1)] assms(2)]) (auto intro!: assms(3))
  then show ?thesis using gained_calm [OF assms(1)]
    by (simp add: env_NewStringUTF_def jni_ready_def calm_def q_local_opt_def Let_def wp_simps)
qed

lemma text_of_given:
  assumes "calm t s" and "refers t s p e" and "jc_chars jc e = Some ws" and "UTF16StringToUTF8String ws = Some bs"
  shows "q_JavaStringToString jc t (Some t) (Some p) s = Inr (s, text_of bs)"
  using assms by (auto simp: q_JavaStringToString_def jni_ready_def calm_def deref_def refers_def)

text \<open>The report for the expected text and the certificate.\<close>

definition signature_report :: "hash_library \<Rightarrow> byte list \<Rightarrow> string \<Rightarrow> string" where
  "signature_report h cert expected =
     expected_label @ expected @ actual_label @ colon_pairs (md5 h cert) @ result_label @
       (if expected = colon_pairs (md5 h cert) then normal_text else abnormal_text)"

text \<open>Without its expected text the report has at most 116 bytes and a terminating zero.\<close>

lemma checkSignature_report:
  assumes "md5_text h"
  shows "checkSignature h cert expected =
    (if length (c_str expected) \<le> 883 then Inr (signature_report h cert (c_str expected)) else Inl Undefined_Behaviour)"
proof -
  have md5: "length (md5 h b) = 32" "set (md5 h b) \<subseteq> set hex_digits" for b using assms(1) by (simp_all add: md5_text_def)
  obtain r where r: "formatSignature (md5 h cert) (replicate 128 NUL) = Inr r" "c_str r = colon_pairs (md5 h cert)"
    using formatSignature_hex [OF md5(2)] md5(1) by force
  have pairs: "length (colon_pairs (md5 h cert)) = 47" using md5(1) by (simp add: length_colon_pairs)
  have labels: "length expected_label = 15" "length actual_label = 23" "length result_label = 17"
    "length normal_text = 15" "length abnormal_text = 14"
    by (simp_all add: expected_label_def actual_label_def result_label_def normal_text_def abnormal_text_def)
  have "checkSignature h cert expected = sprintf_into 1000 (signature_report h cert (c_str expected))"
    using r by (auto simp: checkSignature_def hashByteArray_def Let_def signature_report_def)
  moreover have "length (signature_report h cert (c_str expected)) < 1000 \<longleftrightarrow> length (c_str expected) \<le> 883"
    using labels pairs by (auto simp: signature_report_def)
  ultimately show ?thesis by (auto simp: sprintf_into_def)
qed

text \<open>C35: On a device that answers as Android documents it, for any expected text that can be converted, cut off at
  its first zero: if at most 883 bytes of it are left, the signature check reports that text, the fingerprint (the MD5 of
  the first signing certificate as capital pairs with colons), and that all is normal exactly if the two are the same;
  and it leaves eleven local references to the frame of the call, and no global one. A longer text overflows the buffer
  of the report.\<close>

theorem CheckSign_checkSignature_correct:
  assumes "q_ok s R {}" and "calm t s" and "healthy qa" and "typed qa" and "installed qa jc a" and "refers t s p (ak_context a)"
    and "refers t s e expected" and "jc_chars jc expected = Some ws" and "UTF16StringToUTF8String ws = Some bs" and "md5_text h"
  shows "if length (c_str (text_of bs)) \<le> 883
    then \<exists>s' r. CheckSign_checkSignature h qa jc t (Some p) (Some e) s = Inr (s', Some r) \<and> gained t s R 11 s' \<and>
      last (qj_calls s') = Java_New_String (ascii_bytes (signature_report h (jc_bytes jc (ak_cert a)) (c_str (text_of bs))))
    else CheckSign_checkSignature h qa jc t (Some p) (Some e) s = Inl Undefined_Behaviour"
proof -
  let ?report = "signature_report h (jc_bytes jc (ak_cert a)) (c_str (text_of bs))"
  have "wp (cert_bytes qa jc t (Some t) (Some p) s) (\<lambda>s1 cert. cert = jc_bytes jc (ak_cert a) \<and> gained t s R 10 s1)"
    by (rule wp_cert_bytes [OF gained_start [OF assms(1,2)] assms(3-6)]) (simp add: eval_nat_numeral)
  from wpD [OF this] obtain s1 where s1: "cert_bytes qa jc t (Some t) (Some p) s = Inr (s1, jc_bytes jc (ak_cert a))"
    "gained t s R 10 s1" by blast
  have "keeps s s1" using s1(2) by (simp add: gained_def)
  then have e: "q_JavaStringToString jc t (Some t) (Some e) s1 = Inr (s1, text_of bs)"
    by (intro text_of_given [OF gained_calm [OF s1(2)] refers_keeps [OF assms(7)] assms(8,9)])
  note run = s1(1) e checkSignature_report [OF assms(10)]
  show ?thesis
  proof (cases "length (c_str (text_of bs)) \<le> 883")
    case True
    have "wp (env_NewStringUTF qa t (Some t) (ascii_bytes ?report) s1)
        (\<lambda>s' r. (\<exists>q. r = Some q) \<and> gained t s R 11 s' \<and> last (qj_calls s') = Java_New_String (ascii_bytes ?report))"
      by (rule wp_NewStringUTF_gained [OF s1(2) assms(3)]) (simp add: eval_nat_numeral)
    from wpD [OF this] obtain s' q where "env_NewStringUTF qa t (Some t) (ascii_bytes ?report) s1 = Inr (s', Some q)"
      "gained t s R 11 s'" "last (qj_calls s') = Java_New_String (ascii_bytes ?report)" by blast
    with True show ?thesis by (simp add: CheckSign_checkSignature_def run)
  qed (simp add: CheckSign_checkSignature_def run)
qed

text \<open>Without a package manager, because the call throws or returns null, the next step is undefined.\<close>

lemma getSignatureByte_unchecked:
  assumes "q_ok s R {}" and "calm t s" and "healthy qa" and "typed qa" and "refers t s p ctx"
    and "qa_method qa (qa_class_of qa ctx) ''getPackageManager'' ''()Landroid/content/pm/PackageManager;'' False = Some mid"
    and "object_of (qa_answer qa (qj_calls s @ [Java_Call mid ctx []])) = None"
  shows "getSignatureByte qa jc t (Some t) (Some p) s = Inl Undefined_Behaviour"
proof -
  have "wp (env_GetObjectClass qa t (Some t) (Some p) s)
      (\<lambda>s1 c. \<exists>h. c = Some h \<and> calm t s1 \<and> refers t s1 p ctx \<and> refers t s1 h (qa_class_of qa ctx) \<and> qj_calls s1 = qj_calls s)"
    by (rule gained_class [OF gained_start [OF assms(1,2)] assms(3,5)]) (use refers_keeps [OF assms(5)] gained_calm in blast)
  from wpD [OF this] obtain s1 h where s1: "env_GetObjectClass qa t (Some t) (Some p) s = Inr (s1, Some h)" "calm t s1"
    "refers t s1 p ctx" "refers t s1 h (qa_class_of qa ctx)" "qj_calls s1 = qj_calls s" by blast
  have "wp (env_GetID (qa_method qa) t (Some t) (Some h) ''getPackageManager'' ''()Landroid/content/pm/PackageManager;'' False s1)
      (\<lambda>s2 r. s2 = s1 \<and> r = Some mid)"
    by (rule gained_id [where tab = "qa_method qa", OF s1(2,4) assms(6)]) simp
  from wpD [OF this] have id: "env_GetID (qa_method qa) t (Some t) (Some h) ''getPackageManager'' ''()Landroid/content/pm/PackageManager;'' False s1 =
      Inr (s1, Some mid)" by blast
  let ?cs = "qj_calls s @ [Java_Call mid ctx []]"
  have ty: "reference_type (qa_method_type qa mid)"
    using typedD(1) [OF assms(4,6)] android_types(1) by (simp add: returns_object_def)
  have "call_object_id qa t (Some t) (Some p) (Some mid) [] s1 =
      Inr (s1\<lparr>qj_calls := ?cs, qj_pending := qa_answer qa ?cs = None\<rparr>, None)"
    using s1(2,3,5) ty assms(7)
    by (auto simp: call_object_id_def need_id_def env_CallObject_def env_Call_def jni_ready_def calm_def deref_def refers_def
        q_local_opt_def Let_def)
  moreover have "env_GetObjectClass qa t (Some t) None s' = Inl Undefined_Behaviour" for s'
    by (simp add: env_GetObjectClass_def deref_def jni_ready_def defined_def)
  ultimately show ?thesis by (simp add: getSignatureByte_def s1(1) id)
qed

subsection \<open>The name of the package\<close>

text \<open>Whatever Java does the function returns; an exception of the call itself is left to the caller, and the
  reference to the class stays behind if the method does not exist.\<close>

lemma wp_getPackageName_jni:
  assumes "q_ok s R {}" and "healthy qa" and "typed qa" and "calm t s" and "refers t s p ctx"
    and "\<And>s' r l v. q_ok s' R (tag (LocalRef t) r \<union> tag (LocalRef t) l) \<Longrightarrow> t \<in> jv_attached (qj_vm s') \<Longrightarrow> (qj_pending s' \<longrightarrow> r = None) \<Longrightarrow>
           (l \<noteq> None \<longrightarrow> r = None \<and> qa_method qa (qa_class_of qa ctx) ''getPackageName'' ''()Ljava/lang/String;'' False = None) \<Longrightarrow>
           (\<forall>h. r = Some h \<longrightarrow> jv_refs (qj_vm s') h = Some (LocalRef t, the (object_of v))) \<Longrightarrow>
           (\<forall>mid. qa_method qa (qa_class_of qa ctx) ''getPackageName'' ''()Ljava/lang/String;'' False = Some mid \<longrightarrow>
              v = qa_answer qa (qj_calls s @ [Java_Call mid ctx []]) \<and> (r = None \<longleftrightarrow> object_of v = None)) \<Longrightarrow> Q s' r"
  shows "wp (getPackageName_jni qa t (Some t) (Some p) s) Q"
proof -
  let ?m = "qa_method qa (qa_class_of qa ctx) ''getPackageName'' ''()Ljava/lang/String;'' False"
  obtain k where p: "jv_refs (qj_vm s) p = Some (k, ctx)" "usable t p (qj_vm s)" using assms(5) by (auto simp: refers_def)
  show ?thesis
    unfolding getPackageName_jni_def wp_obind split_conv
  proof (rule wp_GetObjectClass [OF assms(1,2,4) p], goal_cases)
    case (1 s1 c)
    have rc: "usable t c (qj_vm s1)" by (rule usable_local [OF 1(4)])
    have k: "keeps s s1" by (rule keepsI [OF assms(1) 1(1)]) (use 1(2,5) in auto)
    have rp: "refers t s1 p ctx" by (rule refers_keeps [OF assms(5) k])
    show ?case
    proof (cases ?m)
      case None
      have "Q s1 None" by (rule assms(6) [of s1 None "Some c" None]) (use 1 None in \<open>auto simp: calm_def\<close>)
      then show ?thesis
        using None 1(4,6) rc
        by (simp add: env_GetID_def jni_ready_def calm_def deref_def wp_simps errorCatch_def Let_def no_pending)
    next
      case (Some mid)
      have ty: "reference_type (qa_method_type qa mid)"
        using typedD(1) [OF assms(3) Some] android_types(2) by (simp add: returns_object_def)
      obtain cs v where cr: "(cs, v) = call_result qa (qj_calls s1) (Some mid) ctx (map (arg_val s1) [])" by (metis surj_pair)
      have "wp (env_CallObject qa t (Some t) (Some p) mid [] s1) (\<lambda>s3 packageName. wp (env_DeleteRef t (Some t) (LocalRef t) (Some c) s3) (\<lambda>s4 u. Q s4 packageName))"
      proof (rule wp_CallObject [OF 1(1) assms(2) 1(6) rp _ ty cr], simp add: args_ok_def, goal_cases)
        case c: (1 s3 r)
        have e: "tag (LocalRef t) r \<union> insert (c, LocalRef t) {} - {(c, LocalRef t)} = tag (LocalRef t) r" using c(3) by auto
        show ?case
        proof (rule wp_DeleteRef [OF c(1,8)], goal_cases)
          case (2 s4)
          have "jv_refs (qj_vm s4) h = Some (LocalRef t, the (object_of v))" if "r = Some h" for h
            by (rule later_same [OF c(1) 2(1) _ 2(2) c(5) [OF that], of "LocalRef t"]) (use e that in auto)
          then show ?case
            using 2 c e cr 1(7) Some by (intro assms(6) [of s4 r None v]) (auto simp: call_result_def Let_def)
        qed simp
      qed
      with Some 1(4,6) rc show ?thesis
        by (simp add: env_GetID_def jni_ready_def calm_def deref_def wp_simps Let_def no_pending)
    qed
  qed
qed


lemma list_directory_shell: "os_F_OK sys ''/system/bin/ls'' \<Longrightarrow> list_directory sys (Some bs) = moreOpenCheckExt (Some (c_str (text_of bs @ [NUL]))) sys"
  by (simp add: list_directory_def moreOpenCheckExt_def need_id_def)

text \<open>The entry point is the shell test of \<open>Detectors\<close> on the name that Java gives, and gives up without one.\<close>

theorem CheckMultiOpen_Ext_correct:
  assumes "q_ok s R {}" and "healthy qa" and "typed qa" and "calm t s" and "refers t s p ctx"
    and "method_answers qa ctx ''getPackageName'' ''()Ljava/lang/String;'' [] nm" and "\<And>cs. qa_chars qa cs nm = Some bs"
  shows "\<exists>s'. CheckMultiOpen_Ext sys qa t (Some p) s =
      obind (moreOpenCheckExt (Some (c_str (text_of bs @ [NUL]))) sys) (\<lambda>r. Inr (s', r))"
proof (cases "os_F_OK sys ''/system/bin/ls''")
  case True
  obtain mid where mid: "qa_method qa (qa_class_of qa ctx) ''getPackageName'' ''()Ljava/lang/String;'' False = Some mid"
    "\<And>cs. qa_answer qa (cs @ [Java_Call mid ctx []]) = Some (Obj (Some nm))"
    using method_answersE [OF assms(6,3) android_types(2)] by metis
  have "wp (getPackageName_jni qa t (Some t) (Some p) s) (\<lambda>s1 r. \<exists>h. r = Some h \<and> calm t s1 \<and> refers t s1 h nm)"
  proof (rule wp_getPackageName_jni [OF assms(1-5)], goal_cases)
    case (1 s1 r l v)
    then obtain h where h: "r = Some h" using mid by (auto simp: object_of_def)
    then have "jv_refs (qj_vm s1) h = Some (LocalRef t, nm)" using 1 mid by (auto simp: object_of_def)
    with h 1 usable_local [OF this] show ?case by (auto simp: calm_def refers_def)
  qed
  from wpD [OF this] obtain s1 h where s1: "getPackageName_jni qa t (Some t) (Some p) s = Inr (s1, Some h)" "calm t s1" "refers t s1 h nm"
    by blast
  have "env_GetStringUTFChars qa t (Some t) (Some h) s1 = Inr (s1\<lparr>qj_pinned := qj_pinned s1 + 1\<rparr>, Some bs)"
    using s1(2,3) assms(7) by (auto simp: env_GetStringUTFChars_def jni_ready_def calm_def deref_def refers_def)
  with True s1(1) show ?thesis
    by (auto simp: CheckMultiOpen_Ext_def list_directory_shell env_ReleaseStringUTFChars_def)
qed (simp add: CheckMultiOpen_Ext_def moreOpenCheckExt_def)

subsection \<open>A device to try it on\<close>

definition demo_device :: qt_java where
  "demo_device =
     \<lparr>qa_refs = \<lparr>ja_attach = (\<lambda>t. True), ja_room = (\<lambda>n. True), ja_frame = (\<lambda>n. True), ja_setspecific = 0\<rparr>,
      qa_find_class = (\<lambda>name. None), qa_class_of = (\<lambda>obj. 100 + obj),
      qa_method = (\<lambda>c name signature static. if signature = ''()Landroid/content/pm/PackageManager;'' then Some 1
         else if signature = ''()Ljava/lang/String;'' then Some 2
         else if signature = ''(Ljava/lang/String;I)Landroid/content/pm/PackageInfo;'' then Some 3
         else if signature = ''()[B'' then Some 4 else None),
      qa_field = (\<lambda>c name signature static. if signature = ''[Landroid/content/pm/Signature;'' then Some 5 else None),
      qa_method_type = (\<lambda>mid. if mid = 2 then jstring else if mid = 4 then jbyteArray else other_object),
      qa_field_type = (\<lambda>fid. other_object),
      qa_answer = (\<lambda>cs. case last cs of Java_Call mid obj vs \<Rightarrow> Some (Obj (Some (10 + mid))) | _ \<Rightarrow> None),
      qa_new_string = (\<lambda>cs. 9), qa_field_value = (\<lambda>cs fid obj. Obj (Some 15)), qa_chars = (\<lambda>cs obj. Some [97]),
      qa_register = (\<lambda>c. True)\<rparr>"

definition demo_contents :: java_contents where
  "demo_contents = \<lparr>jc_bytes = (\<lambda>obj. [1]), jc_elements = (\<lambda>obj. [Some 16]), jc_chars = (\<lambda>obj. Some [65, 65])\<rparr>"

definition demo_apk :: apk where
  "demo_apk = \<lparr>ak_context = 10, ak_manager = 11, ak_name = 12, ak_info = 13, ak_signatures = 15, ak_signature = 16, ak_cert = 14\<rparr>"

text \<open>A native method with two arguments.\<close>

definition demo_frame :: qjni where
  "demo_frame =
     \<lparr>qj_vm = \<lparr>g_jvm = True, tls_jni_detach = Map.empty, jv_attached = {0}, jv_refs = [0 \<mapsto> (LocalRef 0, 10), 1 \<mapsto> (LocalRef 0, 20)],
        jv_next = 2, jv_frames = (\<lambda>t. []), jv_collected = {}, jv_vars = Map.empty\<rparr>,
      qj_pending = False, qj_calls = [], qj_priv = Map.empty, qj_next = 0, qj_pinned = 0, g_jActivity = None,
      g_jService = None, g_jClassLoader = None, jniEnvTLS = {}, sdkVersion = 0, qj_initialized = True\<rparr>"

lemma demo_device_ok: "healthy demo_device" "typed demo_device" "installed demo_device demo_contents demo_apk"
proof -
  show "healthy demo_device" by (simp add: healthy_def works_def demo_device_def)
  show "typed demo_device"
    unfolding typed_def by (auto simp: demo_device_def return_descriptor_def descriptor_type_def class_type_def array_type_def split: if_splits)
  show "installed demo_device demo_contents demo_apk"
    by (simp add: installed_def method_answers_def demo_device_def demo_contents_def demo_apk_def)
qed

lemma demo_frame_ok: "q_ok demo_frame {(0, LocalRef 0), (1, LocalRef 0)} {}" "calm 0 demo_frame" "refers 0 demo_frame 0 10" "refers 0 demo_frame 1 20"
proof -
  have "slot Map.empty = Map.empty" by (simp add: slot_def fun_eq_iff)
  then show "q_ok demo_frame {(0, LocalRef 0), (1, LocalRef 0)} {}"
    by (auto simp: q_ok_def demo_frame_def jv_ok_def jrefs_ok_def owned_ok_def owns_ok_def unowned_def held_def local_kind_def split: if_splits)
qed (simp_all add: calm_def refers_def usable_def demo_frame_def)

theorem CheckSign_checkSignature_correct_witness:
  "\<exists>s' r. CheckSign_checkSignature constant_hash demo_device demo_contents 0 (Some 0) (Some 1) demo_frame = Inr (s', Some r) \<and>
     gained 0 demo_frame {(0, LocalRef 0), (1, LocalRef 0)} 11 s' \<and>
     last (qj_calls s') = Java_New_String (ascii_bytes (signature_report constant_hash [1] ''AA''))"
proof -
  have t: "text_of [65, 65] = ''AA''" by code_simp
  have n: "c_str ''AA'' = ''AA''" by (simp add: c_str_def)
  have h: "md5_text constant_hash" by (simp add: md5_text_def constant_hash_def hex_digits_def)
  have u: "UTF16StringToUTF8String [65, 65] = Some [65, 65]"
    by (simp add: UTF16StringToUTF8String_def to_bytes_def utf8_bytes_def byte_of_def surrogate_def)
  have c: "refers 0 demo_frame 0 (ak_context demo_apk)" "jc_chars demo_contents 20 = Some [65, 65]"
    using demo_frame_ok(3) by (simp_all add: demo_apk_def demo_contents_def)
  show ?thesis
    using CheckSign_checkSignature_correct [OF demo_frame_ok(1,2) demo_device_ok c(1) demo_frame_ok(4) c(2) u h] t n
    by (simp add: demo_contents_def demo_apk_def)
qed

end
