(* ===== verification/Detector_Entries.thy ===== *)
theory Detector_Entries
  imports Context_Queries Java_Strings Detector_Props
begin

section \<open>The entry points of the detectors\<close>

text \<open>
  The native methods of \<open>CheckEnv/src/main/cpp/check_hook.cpp\<close>, \<open>check_device_uuid.cpp\<close>, \<open>check_env.cpp\<close>
  and \<open>check_cpu.cpp\<close>, and of \<open>app/src/main/cpp/native-lib.cpp\<close>, that turn the answer of a detector into a Java string. Those that call \<open>NewStringUTF\<close> run in
  the environment of \<open>Qt_Jni\<close>, those that call \<open>StringToJavaString\<close> in that of \<open>Java_Strings\<close>. The methods that
  return a number or a truth value return what the detector returns.
\<close>

text \<open>\<open>env->NewStringUTF(s.c_str())\<close>.\<close>

definition answer_text :: "qt_java \<Rightarrow> thread_id \<Rightarrow> string \<Rightarrow> qjni \<Rightarrow> (qjni \<times> ptr) outcome" where
  "answer_text qa t r s = env_NewStringUTF qa t (Some t) (ascii_bytes (c_str r)) s"

definition CheckHook_checkHookByMap :: "os \<Rightarrow> qt_java \<Rightarrow> thread_id \<Rightarrow> qjni \<Rightarrow> (qjni \<times> ptr) outcome" where
  "CheckHook_checkHookByMap sys qa t s = obind (checkHookByMap sys) (\<lambda>r. answer_text qa t r s)"

definition CheckHook_checkHookByPackage :: "os \<Rightarrow> qt_java \<Rightarrow> thread_id \<Rightarrow> qjni \<Rightarrow> (qjni \<times> ptr) outcome" where
  "CheckHook_checkHookByPackage sys qa t s = answer_text qa t (checkHookByPackage sys) s"

definition CheckCpu_nativeCheckCpuAbi :: "target \<Rightarrow> qt_java \<Rightarrow> thread_id \<Rightarrow> qjni \<Rightarrow> (qjni \<times> ptr) outcome" where
  "CheckCpu_nativeCheckCpuAbi cpu qa t s = answer_text qa t (nativeCheckCpuAbi cpu) s"

definition CheckEnv_stringFromJNI :: "qt_java \<Rightarrow> thread_id \<Rightarrow> qjni \<Rightarrow> (qjni \<times> ptr) outcome" where
  "CheckEnv_stringFromJNI qa t s = answer_text qa t ''check env'' s"

definition nativeCheckRandomUUId :: "os \<Rightarrow> jni_answers \<Rightarrow> thread_id \<Rightarrow> jenv \<Rightarrow> (jenv \<times> ptr) outcome" where
  "nativeCheckRandomUUId sys jn t s = STRING_CONVERT_StringToJavaString jn t t (ascii_bytes (getUuid sys)) s"

definition nativeCheckRandomBootId :: "os \<Rightarrow> jni_answers \<Rightarrow> thread_id \<Rightarrow> jenv \<Rightarrow> (jenv \<times> ptr) outcome" where
  "nativeCheckRandomBootId sys jn t s = STRING_CONVERT_StringToJavaString jn t t (ascii_bytes (getBootId sys)) s"

text \<open>The macro \<open>ABI\<close> of \<open>native-lib.cpp\<close> for the macros the compiler has defined, and the text it is put into.\<close>

definition ABI :: "(string \<Rightarrow> bool) \<Rightarrow> string" where
  "ABI def =
     (if def ''__arm__'' then
        (if def ''__ARM_ARCH_7A__'' then
           (if def ''__ARM_NEON__''
            then (if def ''__ARM_PCS_VFP'' then ''armeabi-v7a/NEON (hard-float)'' else ''armeabi-v7a/NEON'')
            else (if def ''__ARM_PCS_VFP'' then ''armeabi-v7a (hard-float)'' else ''armeabi-v7a''))
         else ''armeabi'')
      else if def ''__i386__'' then ''x86''
      else if def ''__x86_64__'' then ''x86_64''
      else if def ''__mips64'' then ''mips64''
      else if def ''__mips__'' then ''mips''
      else if def ''__aarch64__'' then ''arm64-v8a''
      else ''unknown'')"

definition MainActivity_stringFromJNI :: "(string \<Rightarrow> bool) \<Rightarrow> qt_java \<Rightarrow> thread_id \<Rightarrow> qjni \<Rightarrow> (qjni \<times> ptr) outcome" where
  "MainActivity_stringFromJNI def qa t s = answer_text qa t (''Hello from JNI !  Compiled with ABI '' @ ABI def @ ''.'') s"

subsection \<open>What they answer\<close>

text \<open>One new string with the text of the detector.\<close>

lemma answer_text_correct:
  assumes "gained t s R n s1" and "healthy qa"
  obtains s2 h where "answer_text qa t r s1 = Inr (s2, Some h)" "gained t s R (Suc n) s2"
    "Qt_Jni_Laws.refers t s2 h (qa_new_string qa (qj_calls s2))" "last (qj_calls s2) = Java_New_String (ascii_bytes (c_str r))"
proof -
  have "wp (answer_text qa t r s1) (\<lambda>s2 p. \<exists>h. p = Some h \<and> gained t s R (Suc n) s2 \<and>
      Qt_Jni_Laws.refers t s2 h (qa_new_string qa (qj_calls s2)) \<and> last (qj_calls s2) = Java_New_String (ascii_bytes (c_str r)))"
    unfolding answer_text_def by (rule wp_NewStringUTF_gained [OF assms]) simp
  from wpD [OF this] show thesis using that by blast
qed

text \<open>An ASCII text is its own encoding.\<close>

lemma from_bytes_ascii:
  assumes "list_all (\<lambda>b. unat b < 128) bs"
  shows "from_bytes bs = Some (map (\<lambda>b. unit_of (unat b)) bs)"
proof -
  have "concat (map utf16_units (map unat bs)) = map (\<lambda>b. unit_of (unat b)) bs"
    using assms by (induction bs) (auto simp: utf16_units_def)
  then show ?thesis using assms by (simp add: from_bytes_def utf8_points_ascii list_all_iff)
qed

lemma unat_of_char: "unat (of_char c :: byte) = of_char c"
proof -
  have "(of_char c :: byte) = of_nat (of_char c)" by (simp add: of_char_def)
  then show ?thesis by (simp add: unsigned_of_nat take_bit_nat_eq_self)
qed

text \<open>The kernel keeps a fresh identifier in each of the two files, in ASCII, with a newline; the native methods
  answer the identifier without it. A text that is not UTF-8 throws \<open>std::range_error\<close> through the native method.\<close>

definition kernel_text :: "string \<Rightarrow> bool" where
  "kernel_text u \<longleftrightarrow> u \<noteq> [] \<and> list_all (\<lambda>c. c \<noteq> NUL \<and> of_char c < (128 :: nat)) u"

lemma read_identifier:
  assumes "os_file sys path = Some (u @ [NL])" and "kernel_text u" and "path \<noteq> []"
  shows "read_or_cat sys path = u" and "UTF8StringToUTF16String (ascii_bytes u) = Some (map (\<lambda>c. unit_of (of_char c)) u)"
proof -
  have n: "NUL \<notin> set u" "u \<noteq> []" using assms(2) by (auto simp: kernel_text_def list_all_iff)
  then have "readFile sys path = u"
    using readFile_NUL_free [OF assms(3,1)] by (simp add: cut_newline_def)
  then show "read_or_cat sys path = u" using n by (simp add: read_or_cat_def c_str_id)
  have "list_all (\<lambda>b. unat b < 128) (ascii_bytes u)"
    using assms(2) by (simp add: ascii_bytes_def list_all_iff kernel_text_def unat_of_char)
  from from_bytes_ascii [OF this]
  show "UTF8StringToUTF16String (ascii_bytes u) = Some (map (\<lambda>c. unit_of (of_char c)) u)"
    by (simp add: UTF8StringToUTF16String_def ascii_bytes_def unat_of_char)
qed

theorem nativeCheckRandom_answers:
  assumes "kernel_text u"
  shows "os_file sys ''/proc/sys/kernel/random/uuid'' = Some (u @ [NL]) \<Longrightarrow>
      nativeCheckRandomUUId sys jn t s = Inr (new_object_ref jn t (JString (map (\<lambda>c. unit_of (of_char c)) u)) s)"
    and "os_file sys ''/proc/sys/kernel/random/boot_id'' = Some (u @ [NL]) \<Longrightarrow>
      nativeCheckRandomBootId sys jn t s = Inr (new_object_ref jn t (JString (map (\<lambda>c. unit_of (of_char c)) u)) s)"
  using assms by (simp_all add: nativeCheckRandomUUId_def nativeCheckRandomBootId_def getUuid_def getBootId_def
      STRING_CONVERT_StringToJavaString_def throw_range_error_def read_identifier)

text \<open>The test for hooking packages always has an answer.\<close>

theorem checkHook_answers:
  assumes "q_ok s R {}" and "calm t s" and "healthy qa"
  obtains s2 h where "CheckHook_checkHookByPackage sys qa t s = Inr (s2, Some h)" "gained t s R 1 s2"
    "last (qj_calls s2) = Java_New_String (ascii_bytes (c_str (checkHookByPackage sys)))"
  using answer_text_correct [OF gained_start [OF assms(1,2)] assms(3), of "checkHookByPackage sys"]
  unfolding CheckHook_checkHookByPackage_def by (metis One_nat_def)

text \<open>The two libraries name the same processor where both know it, but the first calls every 32-bit ARM
  \<open>armeabi-v7\<close>.\<close>

fun predefined :: "target \<Rightarrow> string \<Rightarrow> bool" where
  "predefined i386 m \<longleftrightarrow> m = ''__i386__''"
| "predefined x86_64 m \<longleftrightarrow> m = ''__x86_64__''"
| "predefined aarch64 m \<longleftrightarrow> m = ''__aarch64__''"
| "predefined arm m \<longleftrightarrow> m = ''__arm__''"
| "predefined other_target m \<longleftrightarrow> False"

lemma ABI_names_target:
  "ABI (predefined cpu) = nativeCheckCpuAbi cpu \<longleftrightarrow> cpu \<in> {i386, x86_64, aarch64}"
  by (cases cpu) (simp_all add: ABI_def)

end
