(* ===== verification/Task_Executors.thy ===== *)
theory Task_Executors
  imports Threads Message_Loop_Laws
begin

section \<open>Task executors\<close>

text \<open>
  \<open>app/src/main/cpp/DefaultTaskExecutor.{h,cpp}\<close>, \<open>ArchTaskExecutor.{h,cpp}\<close> and the executor that
  \<open>MainViewModel.cpp\<close> owns. The executor starts four threads, of which it uses the runner of one, and
  takes the thread that constructs it for the main thread. The state is the process of \<open>Threads\<close>.
\<close>

subsection \<open>\<open>DefaultTaskExecutor\<close>\<close>

record DefaultTaskExecutor =
  de_task_runners :: TaskRunners
  de_main_thread :: thread_id

definition DefaultTaskExecutor_new :: "thread_id \<Rightarrow> TaskRunners \<Rightarrow> DefaultTaskExecutor" where
  "DefaultTaskExecutor_new self task_runners = \<lparr>de_task_runners = task_runners, de_main_thread = self\<rparr>"

definition DefaultTaskExecutor_Create :: "thread_id \<Rightarrow> TaskRunners \<Rightarrow> DefaultTaskExecutor" where
  "DefaultTaskExecutor_Create self task_runners = DefaultTaskExecutor_new self task_runners"

text \<open>\<open>RefPtr::operator->\<close> checks that the runner is not null.\<close>

definition post_to :: "TaskRunner option \<Rightarrow> 'c closure \<Rightarrow> 'c world \<Rightarrow> 'c world outcome" where
  "post_to r task w = obind (check (r \<noteq> None)) (\<lambda>_. TaskRunner_PostTask (the r) task w)"

definition DefaultTaskExecutor_executeOnDiskIO :: "DefaultTaskExecutor \<Rightarrow> 'c closure \<Rightarrow> 'c world \<Rightarrow> 'c world outcome" where
  "DefaultTaskExecutor_executeOnDiskIO e task = post_to (trs_io (de_task_runners e)) task"

definition DefaultTaskExecutor_postToMainThread :: "DefaultTaskExecutor \<Rightarrow> 'c closure \<Rightarrow> 'c world \<Rightarrow> 'c world outcome" where
  "DefaultTaskExecutor_postToMainThread e task = post_to (trs_platform (de_task_runners e)) task"

definition DefaultTaskExecutor_executeOnMainThread :: "DefaultTaskExecutor \<Rightarrow> 'c closure \<Rightarrow> 'c world \<Rightarrow> 'c world outcome" where
  "DefaultTaskExecutor_executeOnMainThread e task = post_to (trs_platform (de_task_runners e)) task"

definition DefaultTaskExecutor_isMainThread :: "DefaultTaskExecutor \<Rightarrow> thread_id \<Rightarrow> bool" where
  "DefaultTaskExecutor_isMainThread e tid \<longleftrightarrow> tid = de_main_thread e"

subsection \<open>\<open>ArchTaskExecutor\<close>\<close>

record ArchTaskExecutor =
  ae_thread_host :: ThreadHost
  ae_default_task_executor :: DefaultTaskExecutor

text \<open>\<open>Current()\<close> makes an empty pointer and returns what it holds. \<open>GetWeakPtr\<close> throws (\<open>None\<close>)
  unless the executor is held by a \<open>std::shared_ptr\<close>.\<close>

definition ArchTaskExecutor_Current :: "ArchTaskExecutor option" where
  "ArchTaskExecutor_Current = (let executor = None; isolate_data = executor in isolate_data)"

definition ArchTaskExecutor_GetWeakPtr :: "bool \<Rightarrow> ArchTaskExecutor \<Rightarrow> ArchTaskExecutor option" where
  "ArchTaskExecutor_GetWeakPtr shared ae = (if shared then Some ae else None)"

text \<open>\<open>thread_host_->raster_thread->GetTaskRunner()\<close> and its like.\<close>

definition host_runner :: "Thread option \<Rightarrow> TaskRunner outcome" where
  "host_runner t = obind (defined (t \<noteq> None)) (\<lambda>_. Inr (Thread_GetTaskRunner (the t)))"

definition ArchTaskExecutor_new :: "ndk \<Rightarrow> thread_id \<Rightarrow> 'c process \<Rightarrow> ('c process \<times> ArchTaskExecutor) outcome" where
  "ArchTaskExecutor_new n self p =
     obind (ThreadHost_new_masked n ''Forever_ArchTaskExecutor''
              (((Type_value IO OR Type_value Platform) OR Type_value UI) OR Type_value RASTER) p) (\<lambda>(p1, thread_host).
     obind (MessageLoop_EnsureInitializedForCurrentThread n self (pr_world p1)) (\<lambda>w2.
     obind (MessageLoop_GetCurrent self w2) (\<lambda>current.
     let platform_task_runner = lp_task_runner current
     in obind (host_runner (ho_raster_thread thread_host)) (\<lambda>raster_task_runner.
        obind (host_runner (ho_ui_thread thread_host)) (\<lambda>ui_task_runner.
        obind (host_runner (ho_io_thread thread_host)) (\<lambda>io_task_runner.
        let task_runners = TaskRunners_new ''Forever_ArchTaskExecutor'' (Some platform_task_runner)
              (Some raster_task_runner) (Some ui_task_runner) (Some io_task_runner)
        in Inr (p1\<lparr>pr_world := w2\<rparr>,
                \<lparr>ae_thread_host = thread_host,
                 ae_default_task_executor = DefaultTaskExecutor_Create self task_runners\<rparr>)))))))"

definition ArchTaskExecutor_executeOnDiskIO :: "ArchTaskExecutor \<Rightarrow> 'c closure \<Rightarrow> 'c world \<Rightarrow> 'c world outcome" where
  "ArchTaskExecutor_executeOnDiskIO ae = DefaultTaskExecutor_executeOnDiskIO (ae_default_task_executor ae)"

definition ArchTaskExecutor_postToMainThread :: "ArchTaskExecutor \<Rightarrow> 'c closure \<Rightarrow> 'c world \<Rightarrow> 'c world outcome" where
  "ArchTaskExecutor_postToMainThread ae = DefaultTaskExecutor_postToMainThread (ae_default_task_executor ae)"

definition ArchTaskExecutor_executeOnMainThread :: "ArchTaskExecutor \<Rightarrow> 'c closure \<Rightarrow> 'c world \<Rightarrow> 'c world outcome" where
  "ArchTaskExecutor_executeOnMainThread ae = DefaultTaskExecutor_executeOnMainThread (ae_default_task_executor ae)"

definition ArchTaskExecutor_isMainThread :: "ArchTaskExecutor \<Rightarrow> thread_id \<Rightarrow> bool" where
  "ArchTaskExecutor_isMainThread ae = DefaultTaskExecutor_isMainThread (ae_default_task_executor ae)"

text \<open>The constructor of \<open>MainViewModel\<close>; the two closures print the identifier of the thread that calls them.\<close>

definition MainViewModel_new ::
  "ndk \<Rightarrow> thread_id \<Rightarrow> 'c \<Rightarrow> 'c \<Rightarrow> 'c process \<Rightarrow> ('c process \<times> ArchTaskExecutor) outcome" where
  "MainViewModel_new n self print_main print_io p =
     obind (ArchTaskExecutor_new n self p) (\<lambda>(p1, arch_task_executor).
     obind (ArchTaskExecutor_executeOnMainThread arch_task_executor (Some print_main) (pr_world p1)) (\<lambda>w2.
     obind (ArchTaskExecutor_executeOnDiskIO arch_task_executor (Some print_io) w2) (\<lambda>w3.
     Inr (p1\<lparr>pr_world := w3\<rparr>, arch_task_executor))))"

text \<open>The destructor of a thread waits until its loop has ended. \<open>MessageLoopImpl_DoRun\<close>, applied to a loop that its
  thread is already running, is the rest of that run: the flags it sets are set, and \<open>polls\<close> are the results of
  \<open>ALooper_pollOnce\<close> still to come on the thread. Members are destroyed in the reverse order.\<close>

definition Thread_end ::
  "ndk \<Rightarrow> 'c exec \<Rightarrow> (thread_id \<Rightarrow> 'c) \<Rightarrow> (thread_id \<Rightarrow> 'c poll list) \<Rightarrow> Thread option \<Rightarrow> 'c world \<Rightarrow> 'c world run" where
  "Thread_end n exec terminate polls thread w =
     (case thread of
        None \<Rightarrow> Some (Inr w)
      | Some t \<Rightarrow>
          dbind (Some (Thread_destroy (terminate (th_thread t)) t w)) (\<lambda>(w1, join).
          if join
          then dbind (Some (runner_loop (th_task_runner t))) (\<lambda>a.
                 MessageLoopImpl_DoRun n exec (th_thread t) a (polls (th_thread t)) w1)
          else Some (Inr w1)))"

definition ThreadHost_destroy ::
  "ndk \<Rightarrow> 'c exec \<Rightarrow> (thread_id \<Rightarrow> 'c) \<Rightarrow> (thread_id \<Rightarrow> 'c poll list) \<Rightarrow> ThreadHost \<Rightarrow> 'c world \<Rightarrow> 'c world run" where
  "ThreadHost_destroy n exec terminate polls h w =
     dbind (Thread_end n exec terminate polls (ho_profiler_thread h) w) (\<lambda>w1.
     dbind (Thread_end n exec terminate polls (ho_io_thread h) w1) (\<lambda>w2.
     dbind (Thread_end n exec terminate polls (ho_raster_thread h) w2) (\<lambda>w3.
     dbind (Thread_end n exec terminate polls (ho_ui_thread h) w3) (\<lambda>w4.
     Thread_end n exec terminate polls (ho_platform_thread h) w4))))"

definition ArchTaskExecutor_destroy ::
  "ndk \<Rightarrow> 'c exec \<Rightarrow> (thread_id \<Rightarrow> 'c) \<Rightarrow> (thread_id \<Rightarrow> 'c poll list) \<Rightarrow> ArchTaskExecutor \<Rightarrow> 'c world \<Rightarrow> 'c world run" where
  "ArchTaskExecutor_destroy n exec terminate polls ae = ThreadHost_destroy n exec terminate polls (ae_thread_host ae)"

subsection \<open>Worlds in which posting works\<close>

text \<open>Registering a task, on a queue that no other has subsumed.\<close>

lemma RegisterTask_adds:
  fixes q :: "'c MessageLoopTaskQueues" and c time
  assumes "queues_ok q" and e: "queue_entries q i = Some e" and "te_subsumed_by e = kUnmerged"
  obtains q' t where "MessageLoopTaskQueues_RegisterTask i c time kUnspecified q = Inr q'"
    and "dt_task t = c" "dt_target_time t = time" and "pending q' i = add_mset t (pending q i)"
    and "\<And>k. k \<noteq> i \<Longrightarrow> pending q' k = pending q k"
    and "\<And>k. map_option te_subsumed_by (queue_entries q' k) = map_option te_subsumed_by (queue_entries q k)"
proof -
  let ?t = "\<lparr>dt_order = order_value (order_counter q), dt_task = c, dt_target_time = time, dt_grade = kUnspecified\<rparr>"
  have i: "serving i e = i" using assms(3) by (simp add: serving_def)
  obtain q' where "MessageLoopTaskQueues_RegisterTask i c time kUnspecified q = Inr q'"
    "pending q' i = add_mset ?t (pending q i)" "\<forall>k. k \<noteq> i \<longrightarrow> pending q' k = pending q k"
    "\<forall>k. map_option te_subsumed_by (queue_entries q' k) = map_option te_subsumed_by (queue_entries q k)"
    using RegisterTask_pending [OF assms(1) e, of c time kUnspecified, unfolded i] by auto
  then show thesis by (intro that [of q' ?t]) simp_all
qed

definition world_ok :: "'c world \<Rightarrow> bool" where
  "world_ok w \<longleftrightarrow> queues_ok (w_queues w) \<and>
     (\<forall>a l. w_loops w a = Some l \<longrightarrow> a < w_next_loop w \<and> queue_entries (w_queues w) (ml_queue_id l) \<noteq> None) \<and>
     (\<forall>a b l m. w_loops w a = Some l \<longrightarrow> w_loops w b = Some m \<longrightarrow> ml_queue_id l = ml_queue_id m \<longrightarrow> a = b) \<and>
     (\<forall>k lp. w_tls_message_loop w k = Some lp \<longrightarrow>
        lp_task_runner lp = \<lparr>tr_loop = Some (lp_loop lp)\<rparr> \<and> w_loops w (lp_loop lp) \<noteq> None) \<and>
     (\<forall>j k lp lq. w_tls_message_loop w j = Some lp \<longrightarrow> w_tls_message_loop w k = Some lq \<longrightarrow> lp_loop lp = lp_loop lq \<longrightarrow> j = k)"

lemma world_okD:
  assumes "world_ok w"
  shows "queues_ok (w_queues w)" and "w_loops w a = Some l \<Longrightarrow> a < w_next_loop w"
    and "w_loops w a = Some l \<Longrightarrow> queue_entries (w_queues w) (ml_queue_id l) \<noteq> None"
    and "w_loops w a = Some l \<Longrightarrow> w_loops w b = Some m \<Longrightarrow> ml_queue_id l = ml_queue_id m \<Longrightarrow> a = b"
    and "w_tls_message_loop w k = Some lp \<Longrightarrow> lp_task_runner lp = \<lparr>tr_loop = Some (lp_loop lp)\<rparr>"
    and "w_tls_message_loop w k = Some lp \<Longrightarrow> w_loops w (lp_loop lp) \<noteq> None"
    and "w_tls_message_loop w j = Some lq \<Longrightarrow> w_tls_message_loop w k = Some lp \<Longrightarrow> lp_loop lq = lp_loop lp \<Longrightarrow> j = k"
  using assms unfolding world_ok_def by blast+

lemma world_okI:
  assumes "queues_ok (w_queues w)"
    and "\<And>a l. w_loops w a = Some l \<Longrightarrow> a < w_next_loop w \<and> queue_entries (w_queues w) (ml_queue_id l) \<noteq> None"
    and "\<And>a b l m. w_loops w a = Some l \<Longrightarrow> w_loops w b = Some m \<Longrightarrow> ml_queue_id l = ml_queue_id m \<Longrightarrow> a = b"
    and "\<And>k lp. w_tls_message_loop w k = Some lp \<Longrightarrow>
           lp_task_runner lp = \<lparr>tr_loop = Some (lp_loop lp)\<rparr> \<and> w_loops w (lp_loop lp) \<noteq> None"
    and "\<And>j k lp lq. w_tls_message_loop w j = Some lp \<Longrightarrow> w_tls_message_loop w k = Some lq \<Longrightarrow> lp_loop lp = lp_loop lq \<Longrightarrow> j = k"
  shows "world_ok w"
  using assms unfolding world_ok_def by blast

text \<open>The loop of a thread, and the tasks that are pending at it.\<close>

definition loop_of :: "'c world \<Rightarrow> thread_id \<Rightarrow> MessageLoopImpl option" where
  "loop_of w k = (case w_tls_message_loop w k of None \<Rightarrow> None | Some lp \<Rightarrow> w_loops w (lp_loop lp))"

definition tasks_of :: "'c world \<Rightarrow> thread_id \<Rightarrow> 'c DelayedTask multiset" where
  "tasks_of w k = (case loop_of w k of None \<Rightarrow> {#} | Some l \<Rightarrow> pending (w_queues w) (ml_queue_id l))"

text \<open>The thread has a loop that has not been terminated, whose queue is its own.\<close>

definition open_loop :: "'c world \<Rightarrow> thread_id \<Rightarrow> bool" where
  "open_loop w k \<longleftrightarrow> (\<exists>l. loop_of w k = Some l \<and> \<not> ml_terminated l \<and>
     map_option te_subsumed_by (queue_entries (w_queues w) (ml_queue_id l)) = Some kUnmerged)"

lemma loop_of_inj:
  assumes "world_ok w" and "loop_of w j = Some l" and "loop_of w k = Some m" and "ml_queue_id l = ml_queue_id m"
  shows "j = k"
proof -
  obtain lp lq where l: "w_tls_message_loop w j = Some lp" "w_loops w (lp_loop lp) = Some l"
    "w_tls_message_loop w k = Some lq" "w_loops w (lp_loop lq) = Some m"
    using assms(2,3) by (auto simp: loop_of_def split: option.splits)
  from world_okD(4) [OF assms(1) l(2,4) assms(4)] world_okD(7) [OF assms(1) l(1,3)] show ?thesis by blast
qed

text \<open>A task that the runner of an open loop is given is pending at that loop, and nothing else happens.\<close>

definition given :: "thread_id \<Rightarrow> 'c \<Rightarrow> 'c world \<Rightarrow> 'c world \<Rightarrow> bool" where
  "given k c w w' \<longleftrightarrow>
     (\<exists>t. dt_task t = Some c \<and> dt_target_time t = TimePoint_Now (w_clock w) \<and> tasks_of w' k = add_mset t (tasks_of w k)) \<and>
     (\<forall>j. j \<noteq> k \<longrightarrow> tasks_of w' j = tasks_of w j)"

definition same_loops :: "'c world \<Rightarrow> 'c world \<Rightarrow> bool" where
  "same_loops w w' \<longleftrightarrow> w_tls_message_loop w' = w_tls_message_loop w \<and> w_loops w' = w_loops w \<and> w_clock w' = w_clock w \<and>
     (\<forall>k. open_loop w' k = open_loop w k)"

lemma PostTask_given:
  assumes "world_ok w" and "open_loop w k" and "w_tls_message_loop w k = Some lp"
  obtains w' where "TaskRunner_PostTask (lp_task_runner lp) (Some c) w = Inr w'" "given k c w w'" "same_loops w w'" "world_ok w'"
proof -
  from assms(2,3) obtain l e where l: "loop_of w k = Some l" "w_loops w (lp_loop lp) = Some l" "\<not> ml_terminated l"
    "queue_entries (w_queues w) (ml_queue_id l) = Some e" "te_subsumed_by e = kUnmerged"
    by (auto simp: open_loop_def loop_of_def)
  obtain q' t where q': "MessageLoopTaskQueues_RegisterTask (ml_queue_id l) (Some c) (TimePoint_Now (w_clock w)) kUnspecified (w_queues w) = Inr q'"
    "dt_task t = Some c" "dt_target_time t = TimePoint_Now (w_clock w)"
    "pending q' (ml_queue_id l) = add_mset t (pending (w_queues w) (ml_queue_id l))"
    "\<And>j. j \<noteq> ml_queue_id l \<Longrightarrow> pending q' j = pending (w_queues w) j"
    "\<And>j. map_option te_subsumed_by (queue_entries q' j) = map_option te_subsumed_by (queue_entries (w_queues w) j)"
    by (rule RegisterTask_adds [OF world_okD(1) [OF assms(1)] l(4,5)]) blast
  let ?w = "w\<lparr>w_queues := q'\<rparr>"
  have "TaskRunner_PostTask (lp_task_runner lp) (Some c) w = Inr ?w"
    using l world_okD(5) [OF assms(1,3)] q'(1)
    by (simp add: TaskRunner_PostTask_def runner_loop_def MessageLoopImpl_PostTask_def loop_at_def on_queues_def)
  moreover have lo: "loop_of ?w j = loop_of w j" for j by (simp add: loop_of_def split: option.split)
  have "tasks_of ?w j = tasks_of w j" if "j \<noteq> k" for j
  proof (cases "loop_of w j")
    case (Some m)
    then have "ml_queue_id m \<noteq> ml_queue_id l" using loop_of_inj [OF assms(1) l(1) Some] that by auto
    with Some q'(5) show ?thesis by (simp add: tasks_of_def lo)
  qed (simp add: tasks_of_def lo)
  then have "given k c w ?w" using q' l(1) by (auto simp: given_def tasks_of_def lo)
  moreover have "same_loops w ?w" by (simp add: same_loops_def open_loop_def lo q'(6))
  moreover have "queue_entries q' j \<noteq> None \<longleftrightarrow> queue_entries (w_queues w) j \<noteq> None" for j
    using q'(6) [of j] by (cases "queue_entries q' j"; cases "queue_entries (w_queues w) j") simp_all
  then have "world_ok ?w"
    using assms(1) RegisterTask_ok [OF _ q'(1)] unfolding world_ok_def by simp
  ultimately show thesis by (rule that)
qed

subsection \<open>Starting threads\<close>

text \<open>What was there is unchanged, and the loops that are new have nothing to do.\<close>

definition grows :: "nat \<Rightarrow> 'c world \<Rightarrow> 'c world \<Rightarrow> bool" where
  "grows n w w' \<longleftrightarrow>
     world_ok w' \<and> w_clock w' = w_clock w \<and>
     unat (task_queue_id_counter (w_queues w')) = unat (task_queue_id_counter (w_queues w)) + n \<and>
     (\<forall>k lp. w_tls_message_loop w k = Some lp \<longrightarrow> w_tls_message_loop w' k = Some lp) \<and>
     (\<forall>k. w_tls_message_loop w k \<noteq> None \<longrightarrow> loop_of w' k = loop_of w k \<and> tasks_of w' k = tasks_of w k \<and>
        (open_loop w k \<longrightarrow> open_loop w' k)) \<and>
     (\<forall>k. w_tls_message_loop w k = None \<longrightarrow> tasks_of w' k = {#} \<and> (w_tls_message_loop w' k \<noteq> None \<longrightarrow> open_loop w' k))"

definition has_room :: "nat \<Rightarrow> 'c world \<Rightarrow> bool" where
  "has_room n w \<longleftrightarrow> unat (task_queue_id_counter (w_queues w)) + n < 2 ^ 64 - 1"

lemma grows_refl: "world_ok w \<Longrightarrow> grows 0 w w"
  by (auto simp: grows_def tasks_of_def loop_of_def)

lemma growsD:
  assumes "grows n w w'"
  shows "world_ok w'" and "w_clock w' = w_clock w"
    and "unat (task_queue_id_counter (w_queues w')) = unat (task_queue_id_counter (w_queues w)) + n"
    and "w_tls_message_loop w k = Some lp \<Longrightarrow> w_tls_message_loop w' k = Some lp"
    and "w_tls_message_loop w k \<noteq> None \<Longrightarrow> loop_of w' k = loop_of w k"
    and "w_tls_message_loop w k \<noteq> None \<Longrightarrow> tasks_of w' k = tasks_of w k"
    and "w_tls_message_loop w k \<noteq> None \<Longrightarrow> open_loop w k \<Longrightarrow> open_loop w' k"
    and "w_tls_message_loop w k = None \<Longrightarrow> tasks_of w' k = {#}"
    and "w_tls_message_loop w k = None \<Longrightarrow> w_tls_message_loop w' k \<noteq> None \<Longrightarrow> open_loop w' k"
  using assms unfolding grows_def by blast+

lemma grows_trans:
  assumes "grows m w w1" and "grows n w1 w2"
  shows "grows (m + n) w w2"
proof -
  note a = growsD [OF assms(1)] and b = growsD [OF assms(2)]
  have "w_tls_message_loop w1 k \<noteq> None" if "w_tls_message_loop w k \<noteq> None" for k using a(4) that by (cases "w_tls_message_loop w k") auto
  note old = this
  have "tasks_of w2 k = {#} \<and> (w_tls_message_loop w2 k \<noteq> None \<longrightarrow> open_loop w2 k)" if "w_tls_message_loop w k = None" for k
    using a(8,9) [OF that] b(6,7,8,9) [of k] by (cases "w_tls_message_loop w1 k") simp_all
  then show ?thesis unfolding grows_def using a(1-7) b(1-7) old by simp
qed

lemma grows_room: "grows m w w1 \<Longrightarrow> has_room (m + n) w \<Longrightarrow> has_room n w1"
  by (simp add: grows_def has_room_def)

text \<open>A new queue with its wakeable.\<close>

lemma pending_old:
  assumes "queues_ok q" and "\<And>i. queue_entries q i \<noteq> None \<Longrightarrow> queue_entries q' i = queue_entries q i"
    and "queue_entries q i \<noteq> None"
  shows "pending q' i = pending q i"
proof -
  obtain e where e: "queue_entries q i = Some e" using assms(3) by blast
  have "available_at q' s = available_at q s" if "s \<in> set (te_owner_of e)" for s
    using assms(2) [OF owned_present [OF assms(1) e that]] by (simp add: available_at_def)
  then show ?thesis using assms(2) [OF assms(3)] e by (simp add: pending_def cong: map_cong)
qed

lemma EnsureInitialized_grows:
  assumes "ndk_ok n" and "world_ok w" and "has_room 0 w" and "w_tls_message_loop w k = None"
  obtains w' where "MessageLoop_EnsureInitializedForCurrentThread n k w = Inr w'" and "grows 1 w w'"
    and "w_tls_message_loop w' = (w_tls_message_loop w)
           (k \<mapsto> \<lparr>lp_loop = w_next_loop w, lp_task_runner = \<lparr>tr_loop = Some (w_next_loop w)\<rparr>\<rparr>)"
proof -
  let ?q = "w_queues w" and ?i = "task_queue_id_counter (w_queues w)" and ?a = "w_next_loop w"
  let ?e = "(TaskQueueEntry_new ?i)\<lparr>te_wakeable := Some ?a\<rparr>"
  let ?q' = "?q\<lparr>task_queue_id_counter := ?i + 1, queue_entries := (queue_entries ?q)(?i \<mapsto> ?e)\<rparr>"
  let ?l = "\<lparr>ml_queue_id = ?i, ml_terminated = False, ml_looper = AcquireLooperForThread n k,
    ml_timer_fd = timerfd_create n, ml_running = False\<rparr>"
  let ?lp = "\<lparr>lp_loop = ?a, lp_task_runner = \<lparr>tr_loop = Some ?a\<rparr>\<rparr>"
  let ?w = "w\<lparr>w_queues := ?q', w_next_loop := ?a + 1, w_loops := (w_loops w)(?a \<mapsto> ?l),
    w_tls_message_loop := (w_tls_message_loop w)(k \<mapsto> ?lp)\<rparr>"
  note ok = world_okD [OF assms(2)]
  have "ALooper_forThread n k \<noteq> 0 \<or> ALooper_prepare n k \<noteq> 0" using assms(1) unfolding ndk_ok_def by blast
  then have "AcquireLooperForThread n k \<noteq> 0" by (auto simp: AcquireLooperForThread_def Let_def)
  with assms(1,4) have run: "MessageLoop_EnsureInitializedForCurrentThread n k w = Inr ?w"
    by (simp add: MessageLoop_EnsureInitializedForCurrentThread_def MessageLoopAndroid_new_def
      MessageLoopImpl_init_def MessageLoopTaskQueues_CreateTaskQueue_def MessageLoopTaskQueues_SetWakeable_def
      update_entry_def TaskQueueEntry_new_def ndk_ok_def Let_def)
  have "unat (- 1 :: 64 word) = 2 ^ 64 - 1" by (simp add: unsigned_minus_1_eq_mask mask_eq_exp_minus_1)
  then have less: "?i \<noteq> - 1" using assms(3) by (auto simp: has_room_def)
  have nowhere: "w_loops w ?a = None" using ok(2) [of ?a] by (cases "w_loops w ?a") auto
  let ?qa = "?q\<lparr>task_queue_id_counter := ?i + 1, queue_entries := (queue_entries ?q)(?i \<mapsto> TaskQueueEntry_new ?i)\<rparr>"
  have c: "MessageLoopTaskQueues_CreateTaskQueue ?q = (?qa, ?i)"
    by (simp add: MessageLoopTaskQueues_CreateTaskQueue_def Let_def)
  from CreateTaskQueue_ok [OF ok(1) _ c] less have qa: "queues_ok ?qa" and fresh: "queue_entries ?q ?i = None"
    by (simp_all only: kUnmerged_def) simp_all
  have "MessageLoopTaskQueues_SetWakeable ?i (Some ?a) ?qa = Inr ?q'"
    by (simp add: MessageLoopTaskQueues_SetWakeable_def update_entry_def TaskQueueEntry_new_def)
  with qa have q': "queues_ok ?q'" by (rule SetWakeable_ok)
  have lo: "loop_of ?w j = (if j = k then Some ?l else loop_of w j)" for j
  proof (cases "w_tls_message_loop w j")
    case (Some lp)
    then have "lp_loop lp \<noteq> ?a" using ok(6) [OF Some] nowhere by auto
    with Some assms(4) show ?thesis by (auto simp: loop_of_def)
  qed (simp add: loop_of_def)
  have old: "queue_entries ?q' j = queue_entries ?q j" if "queue_entries ?q j \<noteq> None" for j using that fresh by auto
  have here: "queue_entries ?q (ml_queue_id m) \<noteq> None" if "loop_of w j = Some m" for j m
    using that ok(3) by (auto simp: loop_of_def split: option.splits)
  have empty: "pending ?q' ?i = {#}" by (simp add: pending_def TaskQueueEntry_new_def available_def TaskSource_new_def)
  have tasks: "tasks_of ?w j = (if j = k then {#} else tasks_of w j)" for j
  proof (cases "j = k")
    case True
    then show ?thesis using empty unfolding tasks_of_def lo by simp
  next
    case False
    then show ?thesis using pending_old [OF ok(1) old here] unfolding tasks_of_def lo
      by (cases "loop_of w j") simp_all
  qed
  have open_new: "open_loop ?w k" unfolding open_loop_def lo by (simp add: TaskQueueEntry_new_def)
  have open_old: "open_loop ?w j" if o: "open_loop w j" and "j \<noteq> k" for j
  proof -
    obtain m where m: "loop_of w j = Some m" "\<not> ml_terminated m"
      "map_option te_subsumed_by (queue_entries ?q (ml_queue_id m)) = Some kUnmerged" using o unfolding open_loop_def by blast
    with that(2) old [OF here [OF m(1)]] show ?thesis unfolding open_loop_def lo by simp
  qed
  have w_ok: "world_ok ?w"
  proof (rule world_okI)
    show "queues_ok (w_queues ?w)" using q' by simp
    show "b < w_next_loop ?w \<and> queue_entries (w_queues ?w) (ml_queue_id m) \<noteq> None" if "w_loops ?w b = Some m" for b m
      using that ok(2,3) [of b m] by (auto split: if_splits)
    show "b = d" if "w_loops ?w b = Some m" "w_loops ?w d = Some m'" "ml_queue_id m = ml_queue_id m'" for b d m m'
    proof -
      have "ml_queue_id x \<noteq> ?i" if "w_loops w c = Some x" for c x using ok(3) [OF that] fresh by auto
      with that ok(4) [of b m d m'] show ?thesis by (simp split: if_splits) fastforce+
    qed
    show "lp_task_runner lp = \<lparr>tr_loop = Some (lp_loop lp)\<rparr> \<and> w_loops ?w (lp_loop lp) \<noteq> None"
      if "w_tls_message_loop ?w j = Some lp" for j lp
      using that ok(5,6) [of j lp] by (simp split: if_splits) auto
    show "j = j'" if "w_tls_message_loop ?w j = Some lp" "w_tls_message_loop ?w j' = Some lp'" "lp_loop lp = lp_loop lp'" for j j' lp lp'
    proof -
      have "lp_loop x \<noteq> ?a" if "w_tls_message_loop w c = Some x" for c x using ok(6) [OF that] nowhere by auto
      with that ok(7) [of j lp j' lp'] show ?thesis by (simp split: if_splits) fastforce+
    qed
  qed
  have room: "unat (?i + 1) = unat ?i + 1" using assms(3) by (simp add: has_room_def unat_word_ariths)
  have none: "loop_of w j = None" if "w_tls_message_loop w j = None" for j using that by (simp add: loop_of_def)
  have "grows 1 w ?w"
    unfolding grows_def using w_ok room tasks open_new open_old lo none assms(4) by (auto simp: tasks_of_def [of w])
  with run show thesis by (rule that) simp
qed

lemma Thread_new_grows:
  assumes "ndk_ok n" and "world_ok (pr_world p)" and "has_room 0 (pr_world p)" and "fresh_threads p"
    and "Thread_new n Thread_SetCurrentThreadName config p = Inr (p', t)"
  shows "grows 1 (pr_world p) (pr_world p')" and "fresh_threads p'"
proof -
  have "w_tls_message_loop (pr_world p) (pr_next_thread p) = None" using assms(4) by (simp add: fresh_threads_def)
  from EnsureInitialized_grows [OF assms(1-3) this] obtain w' where
    w': "MessageLoop_EnsureInitializedForCurrentThread n (pr_next_thread p) (pr_world p) = Inr w'" "grows 1 (pr_world p) w'"
    "w_tls_message_loop w' = (w_tls_message_loop (pr_world p)) (pr_next_thread p \<mapsto>
       \<lparr>lp_loop = w_next_loop (pr_world p), lp_task_runner = \<lparr>tr_loop = Some (w_next_loop (pr_world p))\<rparr>\<rparr>)" by blast
  with assms(5) have p': "pr_world p' = w'" "pr_next_thread p' = pr_next_thread p + 1"
    by (auto simp: Thread_new_def Let_def obind_eq_Inr)
  have names: "pr_names p' k = pr_names p k" if "k \<noteq> pr_next_thread p" for k
    using assms(5) that by (auto simp: Thread_new_def Let_def obind_eq_Inr Thread_SetCurrentThreadName_def SetThreadName_other)
  show "grows 1 (pr_world p) (pr_world p')" using w'(2) p'(1) by simp
  show "fresh_threads p'" using assms(4) w'(3) p' names by (simp add: fresh_threads_def)
qed

lemma create_all_grows:
  assumes "ndk_ok n" and "world_ok (pr_world p)" and "has_room (length types) (pr_world p)" and "fresh_threads p"
    and "create_all n c types p = Inr (p', rs)" and "hc_config_setter c = Thread_SetCurrentThreadName"
  shows "\<exists>m \<le> length types. grows m (pr_world p) (pr_world p')"
  using assms(2-5)
proof (induction types arbitrary: p rs)
  case Nil
  then show ?case by (auto intro: grows_refl)
next
  case (Cons type types)
  from Cons.prems(4) obtain p1 r rs' where p1: "create_if_needed n type (config_for c type) c p = Inr (p1, r)"
    "create_all n c types p1 = Inr (p', rs')" by (auto simp: obind_eq_Inr)
  have room: "has_room 0 (pr_world p)" using Cons.prems(2) by (simp add: has_room_def)
  have "\<exists>m \<le> 1. grows m (pr_world p) (pr_world p1) \<and> fresh_threads p1"
  proof (cases "isThreadNeeded c type")
    case True
    with p1(1) assms(6) obtain config t where "Thread_new n Thread_SetCurrentThreadName config p = Inr (p1, t)"
      by (auto simp: create_if_needed_def ThreadHost_CreateThread_def obind_eq_Inr Let_def)
    from Thread_new_grows [OF assms(1) Cons.prems(1) room Cons.prems(3) this] show ?thesis by blast
  next
    case False
    with p1(1) Cons.prems(1,3) show ?thesis by (auto simp: create_if_needed_def intro: grows_refl)
  qed
  then obtain m where m: "m \<le> 1" "grows m (pr_world p) (pr_world p1)" "fresh_threads p1" by blast
  have "has_room (length types) (pr_world p1)"
    by (rule grows_room [OF m(2)]) (use Cons.prems(2) m(1) in \<open>simp add: has_room_def\<close>)
  from Cons.IH [OF growsD(1) [OF m(2)] this m(3) p1(2)] obtain m' where
    "m' \<le> length types" "grows m' (pr_world p1) (pr_world p')" by blast
  with grows_trans [OF m(2)] m(1) show ?case by (intro exI [where x = "m + m'"] conjI) simp_all
qed

text \<open>The loop of the constructing thread: it is open if it exists.\<close>

lemma EnsureInitialized_open:
  assumes "ndk_ok n" and "world_ok w" and "has_room 0 w" and "w_tls_message_loop w k \<noteq> None \<Longrightarrow> open_loop w k"
  obtains w' m lp where "MessageLoop_EnsureInitializedForCurrentThread n k w = Inr w'" "grows m w w'"
    "w_tls_message_loop w' k = Some lp" "open_loop w' k"
proof (cases "w_tls_message_loop w k")
  case None
  from EnsureInitialized_grows [OF assms(1-3) None] obtain w' where
    w': "MessageLoop_EnsureInitializedForCurrentThread n k w = Inr w'" "grows 1 w w'" "w_tls_message_loop w' k \<noteq> None"
    by (metis fun_upd_same option.distinct(1))
  from w'(3) obtain lp where "w_tls_message_loop w' k = Some lp" by blast
  with w'(1,2) growsD(9) [OF w'(2) None w'(3)] show thesis by (intro that)
next
  case (Some lp)
  then show thesis using that [of w 0 lp] assms(4) grows_refl [OF assms(2)] by (simp add: MessageLoop_EnsureInitializedForCurrentThread_def)
qed

subsection \<open>The threads of an executor\<close>

definition executor_config :: ThreadHostConfig where
  "executor_config = ThreadHostConfig_masked ''Forever_ArchTaskExecutor''
     (((Type_value IO OR Type_value Platform) OR Type_value UI) OR Type_value RASTER) Thread_SetCurrentThreadName"

lemma executor_needs: "isThreadNeeded executor_config type \<longleftrightarrow> type \<noteq> Profiler"
  by (cases type) (simp_all add: isThreadNeeded_def ThreadHostConfig_masked_def executor_config_def)

lemma executor_configs: "config_for executor_config type = None" "hc_config_setter executor_config = Thread_SetCurrentThreadName"
  by (cases type) (simp_all add: ThreadHostConfig_masked_def executor_config_def)

lemma executor_name: "expected_name executor_config type = MakeThreadName type ''Forever_ArchTaskExecutor''"
  by (simp add: expected_name_def executor_configs) (simp add: ThreadHostConfig_masked_def executor_config_def)

text \<open>The parts of a new executor: its four threads, and the runners that it uses.\<close>

definition executor_parts :: "'c process \<Rightarrow> ArchTaskExecutor \<Rightarrow> thread_id \<Rightarrow> Thread \<Rightarrow> 'c process \<Rightarrow> bool" where
  "executor_parts p ae self io p' \<longleftrightarrow>
     (\<exists>m lp. grows m (pr_world p) (pr_world p') \<and> w_tls_message_loop (pr_world p') self = Some lp \<and> open_loop (pr_world p') self \<and>
        trs_platform (de_task_runners (ae_default_task_executor ae)) = Some (lp_task_runner lp)) \<and>
     (\<exists>lp. w_tls_message_loop (pr_world p') (th_thread io) = Some lp \<and> th_task_runner io = lp_task_runner lp) \<and>
     trs_io (de_task_runners (ae_default_task_executor ae)) = Some (th_task_runner io) \<and>
     de_main_thread (ae_default_task_executor ae) = self \<and> pr_next_thread p \<le> th_thread io \<and>
     ho_io_thread (ae_thread_host ae) = Some io \<and> pr_names p' (th_thread io) = None"

lemma ArchTaskExecutor_new_parts:
  assumes "ndk_ok n" and "world_ok (pr_world p)" and "has_room 6 (pr_world p)" and "fresh_threads p" and "self < pr_next_thread p"
    and "w_tls_message_loop (pr_world p) self \<noteq> None \<Longrightarrow> open_loop (pr_world p) self"
  obtains p' ae io where "ArchTaskExecutor_new n self p = Inr (p', ae)" and "executor_parts p ae self io p'"
proof -
  let ?c = executor_config
  from create_all_serves [OF assms(1) executor_configs(2) assms(4), of all_types] obtain p1 rs where
    rs: "create_all n ?c all_types p = Inr (p1, rs)" "map fst rs = all_types" "extends p p1"
    "\<forall>slot \<in> set rs. slot_ok ?c p p1 slot" by (elim exE conjE) (rule that)
  from rs(2) obtain r1 r2 r3 r4 r5 where
    r: "rs = [(Platform, r1), (UI, r2), (RASTER, r3), (IO, r4), (Profiler, r5)]" by (auto simp: map_eq_Cons_conv)
  have slots: "slot_ok ?c p p1 (UI, r2)" "slot_ok ?c p p1 (RASTER, r3)" "slot_ok ?c p p1 (IO, r4)" using rs(4) r by simp_all
  then obtain ui raster io where t: "r2 = Some ui" "r3 = Some raster" "r4 = Some io"
    unfolding slot_ok_def executor_needs by auto
  let ?h = "\<lparr>ho_name_prefix = hc_name_prefix ?c, ho_platform_thread = r1, ho_ui_thread = r2, ho_raster_thread = r3,
    ho_io_thread = r4, ho_profiler_thread = r5\<rparr>"
  have host: "ThreadHost_new n ?c p = Inr (p1, ?h)" using rs(1) r by (simp add: ThreadHost_new_all del: create_all.simps)
  have "has_room (length all_types + 1) (pr_world p)" using assms(3) by (simp add: has_room_def)
  moreover have "has_room (length all_types) (pr_world p)" using assms(3) by (simp add: has_room_def)
  ultimately obtain m where m: "m \<le> length all_types" "grows m (pr_world p) (pr_world p1)"
    using create_all_grows [OF assms(1,2) _ assms(4) rs(1) executor_configs(2)] by blast
  have room: "has_room 0 (pr_world p1)" using grows_room [OF m(2), of 0] m(1) assms(3) by (simp add: has_room_def)
  have same: "w_tls_message_loop (pr_world p1) self = w_tls_message_loop (pr_world p) self" using rs(3) assms(5) by (simp add: extends_def)
  have "open_loop (pr_world p1) self" if "w_tls_message_loop (pr_world p1) self \<noteq> None"
    using that same assms(6) growsD(7) [OF m(2)] by simp
  from EnsureInitialized_open [OF assms(1) growsD(1) [OF m(2)] room this] obtain w2 m' lp where
    w2: "MessageLoop_EnsureInitializedForCurrentThread n self (pr_world p1) = Inr w2" "grows m' (pr_world p1) w2"
    "w_tls_message_loop w2 self = Some lp" "open_loop w2 self" by blast
  have io: "serves p1 io" "pr_next_thread p \<le> th_thread io" "pr_names p1 (th_thread io) = None"
    using slots(3) t(3) by (simp_all add: slot_ok_def executor_name name_given_def c_str_def)
  then obtain a where "w_tls_message_loop (pr_world p1) (th_thread io) = Some \<lparr>lp_loop = a, lp_task_runner = th_task_runner io\<rparr>"
    unfolding serves_def by blast
  then obtain lq where lq: "w_tls_message_loop (pr_world p1) (th_thread io) = Some lq" "th_task_runner io = lp_task_runner lq" by (metis MessageLoop.select_convs(2))
  let ?p = "p1\<lparr>pr_world := w2\<rparr>"
  let ?ae = "\<lparr>ae_thread_host = ?h, ae_default_task_executor = DefaultTaskExecutor_Create self
    (TaskRunners_new ''Forever_ArchTaskExecutor'' (Some (lp_task_runner lp)) (Some (th_task_runner raster))
      (Some (th_task_runner ui)) (Some (th_task_runner io)))\<rparr>"
  have new: "ArchTaskExecutor_new n self p = Inr (?p, ?ae)"
    unfolding ArchTaskExecutor_new_def ThreadHost_new_masked_def executor_config_def [symmetric] host
    using w2(1,3) t by (simp add: host_runner_def MessageLoop_GetCurrent_def Thread_GetTaskRunner_def)
  have "executor_parts p ?ae self io ?p"
    unfolding executor_parts_def using grows_trans [OF m(2) w2(2)] w2(3,4) growsD(4) [OF w2(2) lq(1)] lq(2) io(2,3) t(3)
    by (auto simp: DefaultTaskExecutor_Create_def DefaultTaskExecutor_new_def TaskRunners_new_def)
  with new show thesis by (rule that)
qed

text \<open>A loop with one task, which is due, takes it when it next looks.\<close>

lemma next_invocation_only:
  fixes w :: "'c world"
  assumes "queues_ok (w_queues w)" and "queue_entries (w_queues w) i \<noteq> None" and "pending (w_queues w) i = {#u#}"
    and "dt_task u = Some c" and "dt_target_time u \<le> now"
  shows "\<exists>q'. next_invocation tid i now w = Inr (w\<lparr>w_queues := q'\<rparr>, Some c) \<and> pending q' i = {#}"
proof -
  obtain e where e: "queue_entries (w_queues w) i = Some e" using assms(2) by blast
  have "next_time (w_queues w) i \<le> now" using assms(3,5) by (simp add: next_time_def)
  moreover have "pending (w_queues w) i \<noteq> {#}" using assms(3) by simp
  ultimately obtain q' t where "MessageLoopTaskQueues_GetNextTaskToRun tid i now (w_queues w) = Inr (q', dt_task t)"
    "earliest t (pending (w_queues w) i)" "pending q' i = pending (w_queues w) i - {#t#}"
    using GetNextTaskToRun_takes [OF assms(1) e] by metis
  with assms(3,4) show ?thesis by (auto simp: next_invocation_def earliest_def)
qed

text \<open>The tasks of the constructor.\<close>

lemma MainViewModel_new_posts:
  assumes "ndk_ok n" and "world_ok (pr_world p)" and "has_room 6 (pr_world p)" and "fresh_threads p" and "self < pr_next_thread p"
    and "w_tls_message_loop (pr_world p) self \<noteq> None \<Longrightarrow> open_loop (pr_world p) self"
  shows "\<exists>p' ae io t u l. MainViewModel_new n self print_main print_io p = Inr (p', ae) \<and>
    ho_io_thread (ae_thread_host ae) = Some io \<and> pr_next_thread p \<le> th_thread io \<and> pr_names p' (th_thread io) = None \<and>
    dt_task t = Some print_main \<and> tasks_of (pr_world p') self = add_mset t (tasks_of (pr_world p) self) \<and>
    dt_task u = Some print_io \<and> tasks_of (pr_world p') (th_thread io) = {#u#} \<and>
    (\<forall>k. k \<noteq> self \<longrightarrow> k \<noteq> th_thread io \<longrightarrow> tasks_of (pr_world p') k = tasks_of (pr_world p) k) \<and>
    loop_of (pr_world p') (th_thread io) = Some l \<and>
    (\<forall>now \<ge> TimePoint_Now (w_clock (pr_world p)). \<exists>w.
       next_invocation (th_thread io) (ml_queue_id l) now (pr_world p') = Inr (w, Some print_io) \<and>
       tasks_of w (th_thread io) = {#}) \<and>
    (\<forall>k. ArchTaskExecutor_isMainThread ae k \<longleftrightarrow> k = self)"
proof -
  obtain p1 ae io where new: "ArchTaskExecutor_new n self p = Inr (p1, ae)" and "executor_parts p ae self io p1"
    by (rule ArchTaskExecutor_new_parts [OF assms])
  then obtain m lp lq where parts: "grows m (pr_world p) (pr_world p1)" "w_tls_message_loop (pr_world p1) self = Some lp"
    "open_loop (pr_world p1) self" "trs_platform (de_task_runners (ae_default_task_executor ae)) = Some (lp_task_runner lp)"
    "w_tls_message_loop (pr_world p1) (th_thread io) = Some lq" "th_task_runner io = lp_task_runner lq"
    "trs_io (de_task_runners (ae_default_task_executor ae)) = Some (th_task_runner io)"
    "de_main_thread (ae_default_task_executor ae) = self" "pr_next_thread p \<le> th_thread io"
    "ho_io_thread (ae_thread_host ae) = Some io" "pr_names p1 (th_thread io) = None" unfolding executor_parts_def by blast
  note g = growsD [OF parts(1)]
  have none: "w_tls_message_loop (pr_world p) (th_thread io) = None" using assms(4) parts(9) by (simp add: fresh_threads_def)
  have io: "open_loop (pr_world p1) (th_thread io)" using g(9) [OF none] parts(5) by simp
  obtain w2 where w2: "TaskRunner_PostTask (lp_task_runner lp) (Some print_main) (pr_world p1) = Inr w2"
    "given self print_main (pr_world p1) w2" "same_loops (pr_world p1) w2" "world_ok w2"
    by (rule PostTask_given [OF g(1) parts(3,2)])
  have io2: "open_loop w2 (th_thread io)" "w_tls_message_loop w2 (th_thread io) = Some lq" using w2(3) io parts(5) by (simp_all add: same_loops_def)
  from PostTask_given [OF w2(4) this] obtain w3 where w3: "TaskRunner_PostTask (lp_task_runner lq) (Some print_io) w2 = Inr w3"
    "given (th_thread io) print_io w2 w3" "same_loops w2 w3" "world_ok w3" by blast
  have ne: "th_thread io \<noteq> self" using parts(9) assms(5) by auto
  have old: "tasks_of (pr_world p1) k = (if k = th_thread io then {#} else tasks_of (pr_world p) k)" for k
    using g(6,8) [of k] none by (cases "w_tls_message_loop (pr_world p) k") (auto simp: tasks_of_def [of "pr_world p"] loop_of_def)
  have "MainViewModel_new n self print_main print_io p = Inr (p1\<lparr>pr_world := w3\<rparr>, ae)"
    using new parts(4,6,7) w2(1) w3(1)
    by (simp add: MainViewModel_new_def ArchTaskExecutor_executeOnMainThread_def ArchTaskExecutor_executeOnDiskIO_def
        DefaultTaskExecutor_executeOnMainThread_def DefaultTaskExecutor_executeOnDiskIO_def post_to_def)
  moreover obtain t where "dt_task t = Some print_main" "tasks_of w2 self = add_mset t (tasks_of (pr_world p) self)"
    using w2(2) old [of self] ne by (auto simp: given_def)
  moreover have "w_clock w2 = w_clock (pr_world p)" using w2(3) g(2) by (simp add: same_loops_def)
  then obtain u where u: "dt_task u = Some print_io" "tasks_of w3 (th_thread io) = {#u#}"
    "dt_target_time u = TimePoint_Now (w_clock (pr_world p))"
    using w3(2) w2(2) old ne by (auto simp: given_def)
  moreover have "tasks_of w3 k = tasks_of w2 k" if "k \<noteq> th_thread io" for k using w3(2) that by (simp add: given_def)
  moreover have "tasks_of w2 k = tasks_of (pr_world p) k" if "k \<noteq> self" "k \<noteq> th_thread io" for k
    using w2(2) that old by (simp add: given_def)
  moreover obtain l where l: "loop_of w3 (th_thread io) = Some l" using io2(1) w3(3) unfolding same_loops_def open_loop_def by blast
  moreover have "\<exists>w. next_invocation (th_thread io) (ml_queue_id l) now w3 = Inr (w, Some print_io) \<and> tasks_of w (th_thread io) = {#}"
    if "TimePoint_Now (w_clock (pr_world p)) \<le> now" for now
  proof -
    have p3: "pending (w_queues w3) (ml_queue_id l) = {#u#}" using u(2) l by (simp add: tasks_of_def)
    have "queue_entries (w_queues w3) (ml_queue_id l) \<noteq> None"
      using l world_okD(3) [OF w3(4)] by (auto simp: loop_of_def split: option.splits)
    from next_invocation_only [OF world_okD(1) [OF w3(4)] this p3 u(1)] u(3) that obtain q' where
      "next_invocation (th_thread io) (ml_queue_id l) now w3 = Inr (w3\<lparr>w_queues := q'\<rparr>, Some print_io)"
      "pending q' (ml_queue_id l) = {#}" by metis
    moreover have "loop_of (w3\<lparr>w_queues := q'\<rparr>) (th_thread io) = Some l" using l by (simp add: loop_of_def split: option.splits)
    ultimately show ?thesis by (intro exI [of _ "w3\<lparr>w_queues := q'\<rparr>"]) (simp add: tasks_of_def)
  qed
  ultimately show ?thesis using parts(8-11) ne
    by (intro exI [of _ "p1\<lparr>pr_world := w3\<rparr>"] exI [of _ ae] exI [of _ io] exI [of _ t] exI [of _ u] exI [of _ l])
      (simp add: ArchTaskExecutor_isMainThread_def DefaultTaskExecutor_isMainThread_def)
qed

text \<open>C36: on a system that gives threads their loopers and timers, the constructor of \<open>MainViewModel\<close> ends.
  Its first statement hands the first closure to the loop of the thread it runs on, although the
  method is called \<open>execute\<close>. Its last one hands the second to the loop of the new input and
  output thread of the executor's host (which has no name, since the prefix is too long). The state is that of this
  last statement: from there the next task that the loop of that thread takes, whenever it looks, is the
  closure, and then it has none. No other loop gets a task, and only the constructing thread counts as the
  main thread.\<close>

theorem MainViewModel_posts_tasks:
  assumes "ndk_ok n" and "world_ok (pr_world p)" and "has_room 6 (pr_world p)" and "fresh_threads p" and "self < pr_next_thread p"
    and "w_tls_message_loop (pr_world p) self \<noteq> None \<Longrightarrow> open_loop (pr_world p) self"
  shows "\<exists>p' ae io t u l. MainViewModel_new n self print_main print_io p = Inr (p', ae) \<and>
    ho_io_thread (ae_thread_host ae) = Some io \<and> pr_next_thread p \<le> th_thread io \<and> pr_names p' (th_thread io) = None \<and>
    dt_task t = Some print_main \<and> tasks_of (pr_world p') self = add_mset t (tasks_of (pr_world p) self) \<and>
    dt_task u = Some print_io \<and> tasks_of (pr_world p') (th_thread io) = {#u#} \<and>
    (\<forall>k. k \<noteq> self \<longrightarrow> k \<noteq> th_thread io \<longrightarrow> tasks_of (pr_world p') k = tasks_of (pr_world p) k) \<and>
    loop_of (pr_world p') (th_thread io) = Some l \<and>
    (\<forall>now \<ge> TimePoint_Now (w_clock (pr_world p)). \<exists>w.
       next_invocation (th_thread io) (ml_queue_id l) now (pr_world p') = Inr (w, Some print_io) \<and>
       tasks_of w (th_thread io) = {#}) \<and>
    (\<forall>k. ArchTaskExecutor_isMainThread ae k \<longleftrightarrow> k = self)"
  by (rule MainViewModel_new_posts [OF assms])

lemma sample_process_ok: "world_ok (pr_world sample_process)" "has_room 6 (pr_world sample_process)" "fresh_threads sample_process"
  by (simp_all add: world_ok_def sample_process_def queues_ok_new has_room_def fresh_threads_def)
    (simp add: MessageLoopTaskQueues_new_def)

theorem MainViewModel_posts_tasks_witness:
  "\<exists>p' ae io t u. MainViewModel_new sample_ndk 0 70 71 sample_process = Inr (p', ae) \<and>
     ho_io_thread (ae_thread_host ae) = Some io \<and> dt_task t = Some 70 \<and> tasks_of (pr_world p') 0 = {#t#} \<and>
     dt_task u = Some 71 \<and> tasks_of (pr_world p') (th_thread io) = {#u#}"
proof -
  have "ndk_ok sample_ndk" by (simp add: ndk_ok_def sample_ndk_def)
  moreover have "(0 :: nat) < pr_next_thread sample_process" "w_tls_message_loop (pr_world sample_process) 0 = None"
    by (simp_all add: sample_process_def)
  moreover from this(2) have "tasks_of (pr_world sample_process) 0 = {#}" by (simp add: tasks_of_def loop_of_def)
  ultimately show ?thesis using MainViewModel_posts_tasks [OF _ sample_process_ok, of sample_ndk 0 70 71] by auto
qed

subsection \<open>The end of an executor\<close>

text \<open>What other threads do while a loop waits never clears \<open>terminated_\<close> either.\<close>

definition polls_keep :: "'c poll list \<Rightarrow> loop_addr \<Rightarrow> bool" where
  "polls_keep polls a \<longleftrightarrow>
     list_all (\<lambda>p. \<forall>w w'. poll_meanwhile p w = Inr w' \<longrightarrow> terminated_at w a \<longrightarrow> terminated_at w' a) polls"

lemma update_keeps_terminated:
  "update_loop b f w = Inr w' \<Longrightarrow> (\<And>l. ml_terminated l \<Longrightarrow> ml_terminated (f l)) \<Longrightarrow> terminated_at w a \<Longrightarrow> terminated_at w' a"
  by (auto simp: update_loop_def loop_at_def obind_eq_Inr terminated_at_def split: option.splits if_splits)

lemma poll_loop_keeps_terminated:
  "MessageLoopAndroid_poll_loop exec tid b polls w = Some (Inr w') \<Longrightarrow> keeps_terminated exec a \<Longrightarrow> polls_keep polls a \<Longrightarrow>
     terminated_at w a \<Longrightarrow> terminated_at w' a"
proof (induction exec tid b polls w rule: MessageLoopAndroid_poll_loop.induct)
  case (1 exec tid b polls w)
  obtain l where l: "loop_at w b = Inr l"
    using 1(2) by (cases "loop_at w b") (simp_all add: MessageLoopAndroid_poll_loop.simps)
  show ?case
  proof (cases "ml_running l")
    case False
    with 1(2,5) l show ?thesis by (simp add: MessageLoopAndroid_poll_loop.simps)
  next
    case True
    then obtain p rest where p: "polls = p # rest"
      using 1(2) l by (cases polls) (simp_all add: MessageLoopAndroid_poll_loop.simps)
    obtain w1 w2 w3 where w1: "poll_meanwhile p w = Inr w1"
      and w2: "(case poll_event p of None \<Rightarrow> Some (Inr w1) | Some r \<Rightarrow> MessageLoopAndroid_OnEventFired exec tid b r w1) = Some (Inr w2)"
      and w3: "(if poll_result p = ALOOPER_POLL_TIMEOUT \<or> poll_result p = ALOOPER_POLL_ERROR
               then update_loop b (\<lambda>l. l\<lparr>ml_running := False\<rparr>) w2 else Inr w2) = Inr w3"
      and w': "MessageLoopAndroid_poll_loop exec tid b rest w3 = Some (Inr w')"
      using 1(2) l True unfolding p by (subst (asm) MessageLoopAndroid_poll_loop.simps) (simp add: dbind_eq_Some_Inr, blast)
    have "terminated_at w1 a" using 1(4,5) p w1 by (auto simp: polls_keep_def)
    then have "terminated_at w2 a"
      using w2 FlushTasks_keeps_terminated [OF _ 1(3)]
      by (auto simp: MessageLoopAndroid_OnEventFired_def MessageLoopImpl_RunExpiredTasksNow_def split: option.splits if_splits)
    then have "terminated_at w3 a" using w3 by (auto split: if_splits intro: update_keeps_terminated)
    moreover have "polls_keep rest a" using 1(4) p by (simp add: polls_keep_def)
    ultimately show ?thesis using 1(1) [OF _ p w' 1(3), of l] True by simp
  qed
qed

lemma DoRun_keeps_terminated:
  assumes "MessageLoopImpl_DoRun n exec tid b polls w = Some (Inr w')" and "keeps_terminated exec a" and "polls_keep polls a"
    and "terminated_at w a"
  shows "terminated_at w' a"
proof -
  obtain l where l: "loop_at w b = Inr l" using assms(1) by (cases "loop_at w b") (simp_all add: MessageLoopImpl_DoRun_def)
  show ?thesis
  proof (cases "ml_terminated l")
    case False
    with assms(1) l obtain w1 w2 w3 w4 where
      w1: "update_loop b (\<lambda>l. l\<lparr>ml_running := True\<rparr>) w = Inr w1" "MessageLoopAndroid_poll_loop exec tid b polls w1 = Some (Inr w2)"
      and w3: "update_loop b (\<lambda>l. l\<lparr>ml_terminated := True\<rparr>) w2 = Inr w3"
      and w4: "MessageLoopImpl_RunExpiredTasksNow exec tid b w3 = Some (Inr w4)"
      and w': "on_queues (MessageLoopTaskQueues_DisposeTasks (ml_queue_id l)) w4 = Inr w'"
      by (auto simp: MessageLoopImpl_DoRun_def MessageLoopAndroid_Run_def dbind_eq_Some_Inr)
    have "terminated_at w1 a" by (rule update_keeps_terminated [OF w1(1) _ assms(4)]) simp
    then have "terminated_at w2 a" by (rule poll_loop_keeps_terminated [OF w1(2) assms(2,3)])
    then have "terminated_at w3 a" by (rule update_keeps_terminated [OF w3, rotated]) simp
    with w4 have "terminated_at w4 a"
      unfolding MessageLoopImpl_RunExpiredTasksNow_def by (rule FlushTasks_keeps_terminated [OF _ assms(2)])
    with w' show ?thesis by (auto simp: on_queues_def obind_eq_Inr terminated_at_def)
  qed (use assms(1,4) l in \<open>simp add: MessageLoopImpl_DoRun_def\<close>)
qed

lemma DoRun_terminates:
  assumes "MessageLoopImpl_DoRun n exec tid b polls w = Some (Inr w')" and "keeps_terminated exec b"
  shows "terminated_at w' b"
proof -
  obtain l where l: "loop_at w b = Inr l" using assms(1) by (cases "loop_at w b") (simp_all add: MessageLoopImpl_DoRun_def)
  show ?thesis
  proof (cases "ml_terminated l")
    case True
    with assms(1) l show ?thesis
      by (auto simp: MessageLoopImpl_DoRun_def terminated_at_def loop_at_def split: option.splits)
  next
    case False
    with assms(1) l obtain w2 w3 w4 where
      w3: "update_loop b (\<lambda>l. l\<lparr>ml_terminated := True\<rparr>) w2 = Inr w3"
      and w4: "MessageLoopImpl_RunExpiredTasksNow exec tid b w3 = Some (Inr w4)"
      and w': "on_queues (MessageLoopTaskQueues_DisposeTasks (ml_queue_id l)) w4 = Inr w'"
      by (auto simp: MessageLoopImpl_DoRun_def dbind_eq_Some_Inr)
    have "terminated_at w3 b" using w3 by (auto simp: update_loop_def obind_eq_Inr terminated_at_def)
    with w4 have "terminated_at w4 b"
      unfolding MessageLoopImpl_RunExpiredTasksNow_def by (rule FlushTasks_keeps_terminated [OF _ assms(2)])
    with w' show ?thesis by (auto simp: on_queues_def obind_eq_Inr terminated_at_def)
  qed
qed

text \<open>One thread of the host, and then all of them.\<close>

definition programs_keep :: "'c exec \<Rightarrow> (thread_id \<Rightarrow> 'c poll list) \<Rightarrow> bool" where
  "programs_keep exec polls \<longleftrightarrow> (\<forall>a k. keeps_terminated exec a \<and> polls_keep (polls k) a)"

definition ended :: "Thread option \<Rightarrow> 'c world \<Rightarrow> bool" where
  "ended thread w \<longleftrightarrow> list_all (\<lambda>t. \<exists>a. th_task_runner t = \<lparr>tr_loop = Some a\<rparr> \<and> terminated_at w a)
     (case thread of None \<Rightarrow> [] | Some t \<Rightarrow> [t])"

definition unjoined :: "Thread option \<Rightarrow> bool" where
  "unjoined thread \<longleftrightarrow> list_all (\<lambda>t. \<not> th_joined t) (case thread of None \<Rightarrow> [] | Some t \<Rightarrow> [t])"

lemma Thread_end_ended:
  assumes "Thread_end n exec terminate polls thread w = Some (Inr w')" and "programs_keep exec polls" and "unjoined thread"
  shows "ended thread w'" and "terminated_at w a \<Longrightarrow> terminated_at w' a"
proof -
  have "ended thread w' \<and> (terminated_at w a \<longrightarrow> terminated_at w' a)"
  proof (cases thread)
    case (Some t)
    then obtain w1 b where w1: "TaskRunner_PostTask (th_task_runner t) (Some (terminate (th_thread t))) w = Inr w1"
      and b: "tr_loop (th_task_runner t) = Some b"
      and run: "MessageLoopImpl_DoRun n exec (th_thread t) b (polls (th_thread t)) w1 = Some (Inr w')"
      using assms(1,3)
      by (auto simp: Thread_end_def Thread_destroy_def Thread_Join_def unjoined_def runner_loop_def dbind_eq_Some_Inr obind_eq_Inr
          split: option.splits)
    have k: "keeps_terminated exec c" "polls_keep (polls (th_thread t)) c" for c using assms(2) by (simp_all add: programs_keep_def)
    have "terminated_at w1 a" if "terminated_at w a"
      using that w1 by (auto simp: TaskRunner_PostTask_def MessageLoopImpl_PostTask_def on_queues_def obind_eq_Inr terminated_at_def
          split: if_splits)
    then have "terminated_at w a \<longrightarrow> terminated_at w' a" using DoRun_keeps_terminated [OF run k] by blast
    moreover have "th_task_runner t = \<lparr>tr_loop = Some b\<rparr>" using b by (cases "th_task_runner t") simp
    ultimately show ?thesis using DoRun_terminates [OF run k(1)] Some by (simp add: ended_def)
  qed (use assms(1) in \<open>simp add: Thread_end_def ended_def\<close>)
  then show "ended thread w'" and "terminated_at w a \<Longrightarrow> terminated_at w' a" by simp_all
qed

lemma ended_keeps:
  "ended thread w \<Longrightarrow> Thread_end n exec terminate polls other w = Some (Inr w') \<Longrightarrow> programs_keep exec polls \<Longrightarrow> unjoined other \<Longrightarrow>
     ended thread w'"
  using Thread_end_ended(2) by (fastforce simp: ended_def split: option.splits)

text \<open>When the destructor returns, the loop of every thread of the host has ended for good, so that a task posted to
  one of them through a runner that somebody has kept is dropped.\<close>

theorem ArchTaskExecutor_destroy_ends:
  assumes "ArchTaskExecutor_destroy n exec terminate polls ae w = Some (Inr w')" and "programs_keep exec polls"
    and "\<And>type. unjoined (host_thread (ae_thread_host ae) type)"
    and "host_thread (ae_thread_host ae) type = Some t"
  shows "TaskRunner_PostTask (th_task_runner t) (Some c) w' = Inr w'"
proof -
  let ?h = "ae_thread_host ae"
  obtain w1 w2 w3 w4 where w: "Thread_end n exec terminate polls (ho_profiler_thread ?h) w = Some (Inr w1)"
    "Thread_end n exec terminate polls (ho_io_thread ?h) w1 = Some (Inr w2)"
    "Thread_end n exec terminate polls (ho_raster_thread ?h) w2 = Some (Inr w3)"
    "Thread_end n exec terminate polls (ho_ui_thread ?h) w3 = Some (Inr w4)"
    "Thread_end n exec terminate polls (ho_platform_thread ?h) w4 = Some (Inr w')"
    using assms(1) by (auto simp: ArchTaskExecutor_destroy_def ThreadHost_destroy_def dbind_eq_Some_Inr)
  have j: "unjoined (ho_profiler_thread ?h)" "unjoined (ho_io_thread ?h)" "unjoined (ho_raster_thread ?h)"
    "unjoined (ho_ui_thread ?h)" "unjoined (ho_platform_thread ?h)"
    using assms(3) [of Profiler] assms(3) [of IO] assms(3) [of RASTER] assms(3) [of UI] assms(3) [of Platform] by simp_all
  note e = Thread_end_ended(1) [OF _ assms(2)] and k = ended_keeps [OF _ _ assms(2)]
  have "ended (host_thread ?h type) w'"
    using k [OF k [OF k [OF k [OF e [OF w(1) j(1)] w(2) j(2)] w(3) j(3)] w(4) j(4)] w(5) j(5)]
      k [OF k [OF k [OF e [OF w(2) j(2)] w(3) j(3)] w(4) j(4)] w(5) j(5)]
      k [OF k [OF e [OF w(3) j(3)] w(4) j(4)] w(5) j(5)] k [OF e [OF w(4) j(4)] w(5) j(5)] e [OF w(5) j(5)]
    by (cases type) simp_all
  with assms(4) show ?thesis
    by (auto simp: ended_def terminated_at_def TaskRunner_PostTask_def runner_loop_def MessageLoopImpl_PostTask_def loop_at_def)
qed

end
