(* ===== verification/View_Models.thy ===== *)
theory View_Models
  imports Context_Queries Task_Executors Qt_Jni_Steps
begin

section \<open>View models\<close>

text \<open>
  \<open>app/src/main/cpp/ViewModel.{h,cpp}\<close>, \<open>MainViewModel.{h,cpp}\<close>, \<open>QtJniNativeViewModel.cpp\<close> and
  \<open>NativeObjectReference.cpp\<close>: the native half of a Kotlin view model. The native object keeps the reference to
  the Java object that \<open>nativeBind\<close> is called with as it is. The state is that of the Qt classes, the process of the
  task executors, and the native objects by address; a Java \<open>long\<close> is an address, or 0. The generated flatbuffer code is
  a parameter.
\<close>

subsection \<open>\<open>ViewModel\<close>\<close>

record ViewModel =
  bind_java_view_model :: ptr
  view_model_is_attached :: bool

definition ViewModel_new :: ViewModel where
  "ViewModel_new = \<lparr>bind_java_view_model = None, view_model_is_attached = False\<rparr>"

text \<open>The buffers that \<open>CreateLoadingViewParamsDirect\<close> and \<open>CreateToastParamsDirect\<close> fill, the numbers of two properties,
  and the Java array that \<open>NewByteArray\<close> makes, once it is filled.\<close>

record generated =
  fb_loading :: "byte list \<Rightarrow> byte list"
  fb_toast :: "byte list \<Rightarrow> byte list"
  Property_SHOW_TOAST :: int
  Property_UI_DATA :: int
  new_byte_array :: "java_call list \<Rightarrow> byte list \<Rightarrow> nat"

definition ViewModel_setJavaViewModel :: "ptr \<Rightarrow> ViewModel \<Rightarrow> ViewModel" where
  "ViewModel_setJavaViewModel p vm = vm\<lparr>bind_java_view_model := p\<rparr>"

definition ViewModel_getJavaViewModel :: "ViewModel \<Rightarrow> ptr" where
  "ViewModel_getJavaViewModel vm = bind_java_view_model vm"

definition ViewModel_isViewModelAttached :: "ViewModel \<Rightarrow> bool" where
  "ViewModel_isViewModelAttached vm = view_model_is_attached vm"

definition ViewModel_handle :: "int \<Rightarrow> string \<Rightarrow> ViewModel \<Rightarrow> qjni \<Rightarrow> (qjni \<times> unit) outcome" where
  "ViewModel_handle key v vm s =
     (if ViewModel_getJavaViewModel vm = None then Inr (s, ())
      else if \<not> ViewModel_isViewModelAttached vm then Inr (s, ())
      else Inr (s, ()))"

definition ViewModel_setProp ::
  "qt_java \<Rightarrow> thread_id \<Rightarrow> int \<Rightarrow> byte list \<Rightarrow> ViewModel \<Rightarrow> qjni \<Rightarrow> (qjni \<times> unit) outcome" where
  "ViewModel_setProp qa t key v vm s =
     (if ViewModel_getJavaViewModel vm = None then Inr (s, ())
      else if \<not> ViewModel_isViewModelAttached vm then Inr (s, ())
      else
        with_object qa t (fromString qa t v) (\<lambda>jstring_value.
        with_object qa t (QJniObject_of qa t (bind_java_view_model vm)) (\<lambda>jniObject s2.
          obind (QJniObject_object s2 jstring_value) (\<lambda>str.
          callMethod_void qa t jniObject ''setProp'' ''(ILjava/lang/String;)V'' [Arg_Prim jint key, Arg_Ref str] s2))) s)"

definition ViewModel_setViewModelAttached ::
  "qt_java \<Rightarrow> thread_id \<Rightarrow> bool \<Rightarrow> ViewModel \<Rightarrow> qjni \<Rightarrow> (qjni \<times> ViewModel) outcome" where
  "ViewModel_setViewModelAttached qa t state vm s =
     (let vm1 = vm\<lparr>view_model_is_attached := state\<rparr>
      in if bind_java_view_model vm1 \<noteq> None \<and> view_model_is_attached vm1
         then
           obind (with_object qa t (QJniObject_of qa t (bind_java_view_model vm1)) (\<lambda>jniObject.
                    callMethod_void qa t jniObject ''setViewModelAttached'' ''(Z)V''
                      [Arg_Prim jboolean (of_bool (view_model_is_attached vm1))]) s)
             (\<lambda>(s1, u). Inr (s1, vm1))
         else Inr (s, vm1))"

text \<open>A new byte array with the contents of a buffer; the local reference is left to the frame.\<close>

definition java_bytes ::
  "qt_java \<Rightarrow> generated \<Rightarrow> thread_id \<Rightarrow> thread_id option \<Rightarrow> byte list \<Rightarrow> qjni \<Rightarrow> (qjni \<times> ptr) outcome" where
  "java_bytes qa fb t env buf s =
     obind (jni_ready t env s) (\<lambda>_.
     let (s1, ret) = q_local qa t (new_byte_array fb (qj_calls s) buf) s
     in obind (jni_ready t env s1) (\<lambda>_. obind (deref t ret s1) (\<lambda>obj. Inr (s1, ret))))"

definition ViewModel_showLoading ::
  "qt_java \<Rightarrow> generated \<Rightarrow> thread_id \<Rightarrow> byte list \<Rightarrow> ViewModel \<Rightarrow> qjni \<Rightarrow> (qjni \<times> unit) outcome" where
  "ViewModel_showLoading qa fb t msg vm =
     with_object qa t (QJniObject_of qa t (bind_java_view_model vm)) (\<lambda>jniObject.
     with_env qa t (\<lambda>env s.
       obind (java_bytes qa fb t env (fb_loading fb msg) s) (\<lambda>(s1, ret).
       callMethod_void qa t jniObject ''showLoading'' ''([B)V'' [Arg_Ref ret] s1)))"

definition ViewModel_hiddenLoading :: "qt_java \<Rightarrow> thread_id \<Rightarrow> ViewModel \<Rightarrow> qjni \<Rightarrow> (qjni \<times> unit) outcome" where
  "ViewModel_hiddenLoading qa t vm =
     with_object qa t (QJniObject_of qa t (bind_java_view_model vm)) (\<lambda>jniObject.
     callMethod_void qa t jniObject ''hiddenLoading'' ''()V'' [])"

definition ViewModel_showToast ::
  "qt_java \<Rightarrow> generated \<Rightarrow> thread_id \<Rightarrow> byte list \<Rightarrow> ViewModel \<Rightarrow> qjni \<Rightarrow> (qjni \<times> unit) outcome" where
  "ViewModel_showToast qa fb t params vm =
     with_object qa t (fromString qa t params) (\<lambda>jstring_params.
     with_object qa t (QJniObject_of qa t (bind_java_view_model vm)) (\<lambda>jniObject s.
       obind (QJniObject_object s jstring_params) (\<lambda>str.
       obind (callMethod_void qa t jniObject ''showToast'' ''(Ljava/lang/String;)V'' [Arg_Ref str] s) (\<lambda>(s1, u).
       with_env qa t (\<lambda>env s2.
         obind (java_bytes qa fb t env (fb_toast fb params) s2) (\<lambda>(s3, ret).
         callMethod_void qa t jniObject ''showToast'' ''([B)V'' [Arg_Ref ret] s3)) s1))))"

text \<open>\<open>MainViewModel\<close> overrides \<open>bind\<close>; \<open>unBind\<close>, in both classes, only logs.\<close>

definition MainViewModel_bind :: "qt_java \<Rightarrow> generated \<Rightarrow> thread_id \<Rightarrow> ViewModel \<Rightarrow> qjni \<Rightarrow> (qjni \<times> unit) outcome" where
  "MainViewModel_bind qa fb t vm s =
     obind (ViewModel_setProp qa t (Property_SHOW_TOAST fb) (ascii_bytes ''1'') vm s) (\<lambda>(s1, _).
     obind (ViewModel_setProp qa t (Property_UI_DATA fb) (ascii_bytes ''test ui data'') vm s1) (\<lambda>(s2, _).
     obind (ViewModel_showLoading qa fb t (ascii_bytes ''FOREVER'') vm s2) (\<lambda>(s3, _).
     ViewModel_hiddenLoading qa t vm s3)))"

definition MainViewModel_unBind :: "ViewModel \<Rightarrow> ViewModel" where
  "MainViewModel_unBind vm = vm"

subsection \<open>The native methods\<close>

text \<open>The virtual machine hands the arguments to a native method as local references and deletes, when the method
  returns, every local reference that the thread has got since. Here \<open>this\<close> comes first.\<close>

fun pass_arguments :: "qt_java \<Rightarrow> thread_id \<Rightarrow> nat list \<Rightarrow> qjni \<Rightarrow> qjni \<times> ptr list" where
  "pass_arguments qa t [] s = (s, [])"
| "pass_arguments qa t (obj # objs) s =
     (let (s1, p) = q_local qa t obj s; (s2, ps) = pass_arguments qa t objs s1 in (s2, p # ps))"

definition leave_native :: "thread_id \<Rightarrow> nat \<Rightarrow> qjni \<Rightarrow> qjni" where
  "leave_native t n s =
     s\<lparr>qj_vm := (qj_vm s)\<lparr>jv_refs := (\<lambda>h.
         case jv_refs (qj_vm s) h of
           Some (LocalRef t', obj) \<Rightarrow> if t' = t \<and> n \<le> h then None else Some (LocalRef t', obj)
         | r \<Rightarrow> r)\<rparr>\<rparr>"

definition native_call ::
  "qt_java \<Rightarrow> thread_id \<Rightarrow> nat list \<Rightarrow> (ptr list \<Rightarrow> qjni \<Rightarrow> (qjni \<times> 'r) outcome) \<Rightarrow> qjni \<Rightarrow> (qjni \<times> 'r) outcome" where
  "native_call qa t objs body s =
     (let (s1, ps) = pass_arguments qa t objs s
      in obind (body ps s1) (\<lambda>(s2, r). Inr (leave_native t (jv_next (qj_vm s)) s2, r)))"

record MainViewModel =
  mv_base :: ViewModel
  arch_task_executor :: ArchTaskExecutor

record 'c views =
  vs_jni :: qjni
  vs_process :: "'c process"
  vs_models :: "nat \<rightharpoonup> MainViewModel"
  vs_next :: nat

definition view_at :: "'c views \<Rightarrow> nat \<Rightarrow> MainViewModel outcome" where
  "view_at v peer = (case vs_models v peer of None \<Rightarrow> Inl Undefined_Behaviour | Some mv \<Rightarrow> Inr mv)"

definition nativeCreate :: "ndk \<Rightarrow> thread_id \<Rightarrow> 'c \<Rightarrow> 'c \<Rightarrow> 'c views \<Rightarrow> ('c views \<times> nat) outcome" where
  "nativeCreate n t print_main print_io v =
     obind (MainViewModel_new n t print_main print_io (vs_process v)) (\<lambda>(p, executor).
     Inr (v\<lparr>vs_process := p, vs_next := vs_next v + 1,
            vs_models := (vs_models v)(vs_next v \<mapsto> \<lparr>mv_base = ViewModel_new, arch_task_executor = executor\<rparr>)\<rparr>,
          vs_next v))"

definition update_view ::
  "nat \<Rightarrow> (ViewModel \<Rightarrow> qjni \<Rightarrow> (qjni \<times> ViewModel) outcome) \<Rightarrow> 'c views \<Rightarrow> 'c views outcome" where
  "update_view peer f v =
     obind (view_at v peer) (\<lambda>mv.
     obind (f (mv_base mv) (vs_jni v)) (\<lambda>(s, vm).
     Inr (v\<lparr>vs_jni := s, vs_models := (vs_models v)(peer \<mapsto> mv\<lparr>mv_base := vm\<rparr>)\<rparr>)))"

definition nativeBind :: "qt_java \<Rightarrow> generated \<Rightarrow> thread_id \<Rightarrow> nat \<Rightarrow> nat \<Rightarrow> nat \<Rightarrow> 'c views \<Rightarrow> 'c views outcome" where
  "nativeBind qa fb t this nativePeer obj =
     update_view nativePeer (\<lambda>vm. native_call qa t [this, obj] (\<lambda>ps s.
       let vm1 = ViewModel_setJavaViewModel (ps ! 1) vm
       in obind (ViewModel_setViewModelAttached qa t True vm1 s) (\<lambda>(s1, vm2).
          obind (MainViewModel_bind qa fb t vm2 s1) (\<lambda>(s2, _). Inr (s2, vm2)))))"

definition nativeUnBind :: "qt_java \<Rightarrow> thread_id \<Rightarrow> nat \<Rightarrow> nat \<Rightarrow> 'c views \<Rightarrow> 'c views outcome" where
  "nativeUnBind qa t this native_ptr =
     update_view native_ptr (\<lambda>vm. native_call qa t [this] (\<lambda>ps s.
       obind (ViewModel_setViewModelAttached qa t False vm s) (\<lambda>(s1, vm1). Inr (s1, MainViewModel_unBind vm1))))"

definition nativeHandleIntKey ::
  "qt_java \<Rightarrow> java_contents \<Rightarrow> thread_id \<Rightarrow> nat \<Rightarrow> nat \<Rightarrow> int \<Rightarrow> nat \<Rightarrow> 'c views \<Rightarrow> 'c views outcome" where
  "nativeHandleIntKey qa jc t this native_ptr key text =
     update_view native_ptr (\<lambda>vm. native_call qa t [this, text] (\<lambda>ps s.
       obind (q_JavaStringToString jc t (Some t) (ps ! 1) s) (\<lambda>(s1, v).
       obind (ViewModel_handle key (c_str v) vm s1) (\<lambda>(s2, _). Inr (s2, vm)))))"

text \<open>\<open>delete reinterpret_cast<ViewModel *>(ptr)\<close>: the destructor is virtual and ends the threads of the executor.\<close>

definition delete_view ::
  "ndk \<Rightarrow> 'c exec \<Rightarrow> (thread_id \<Rightarrow> 'c) \<Rightarrow> (thread_id \<Rightarrow> 'c poll list) \<Rightarrow> nat \<Rightarrow> 'c views \<Rightarrow> 'c views run" where
  "delete_view n exec terminate polls peer v =
     (if peer = 0 then Some (Inr v)
      else
        dbind (Some (view_at v peer)) (\<lambda>mv.
        dbind (ArchTaskExecutor_destroy n exec terminate polls (arch_task_executor mv) (pr_world (vs_process v))) (\<lambda>w.
        Some (Inr (v\<lparr>vs_process := (vs_process v)\<lparr>pr_world := w\<rparr>, vs_models := (vs_models v)(peer := None)\<rparr>)))))"

definition nativeRelease ::
  "ndk \<Rightarrow> 'c exec \<Rightarrow> (thread_id \<Rightarrow> 'c) \<Rightarrow> (thread_id \<Rightarrow> 'c poll list) \<Rightarrow> nat \<Rightarrow> 'c views \<Rightarrow> ('c views \<times> nat) run" where
  "nativeRelease n exec terminate polls nativePeer v =
     dbind (delete_view n exec terminate polls nativePeer v) (\<lambda>v1. Some (Inr (v1, 0)))"

text \<open>The finalizer, whose address Java gets from \<open>nativeGetFinalizerPtr\<close> and gives back to \<open>nativeCleanUp\<close>.\<close>

definition finalize_mixed ::
  "ndk \<Rightarrow> 'c exec \<Rightarrow> (thread_id \<Rightarrow> 'c) \<Rightarrow> (thread_id \<Rightarrow> 'c poll list) \<Rightarrow> nat \<Rightarrow> 'c views \<Rightarrow> 'c views run" where
  "finalize_mixed = delete_view"

definition nativeCleanUp :: "(nat \<Rightarrow> 'c views \<Rightarrow> 'c views run) \<Rightarrow> nat \<Rightarrow> 'c views \<Rightarrow> 'c views run" where
  "nativeCleanUp finalize_func native_ptr = finalize_func native_ptr"

subsection \<open>The frame of a native method\<close>

lemma gained_again:
  assumes "q_ok s0 R L" and "L \<subseteq> L'" and "q_ok s' R L'" and "finite L'" and "L' \<subseteq> {(h, k). k = LocalRef t}"
    and "calm t s0" and "later s0 s'" and "\<not> qj_pending s'" and "qj_priv s' = qj_priv s0"
  shows "gained t s0 R (card L') s'"
proof -
  have "keeps s0 s'" by (rule keepsI [OF assms(1,3) _ _ assms(7)]) (use assms(2,9) in auto)
  moreover have "calm t s'" using assms(6,8) later_attached [OF assms(7)] by (simp add: calm_def)
  ultimately show ?thesis using assms unfolding gained_def by blast
qed

text \<open>The local references of a frame are still there later.\<close>

lemma locals_kept:
  assumes "q_ok s R L" and "L \<subseteq> {(h, k). k = LocalRef t}" and "q_ok s' R L'" and "keeps s s'"
  shows "L \<subseteq> L'"
proof
  fix x assume x: "x \<in> L"
  then obtain h where h: "x = (h, LocalRef t)" using assms(2) by auto
  obtain obj where "jv_refs (qj_vm s) h = Some (LocalRef t, obj)" by (rule q_ok_alive [OF assms(1)]) (use x h in auto)
  then have r: "jv_refs (qj_vm s') h = Some (LocalRef t, obj)" using assms(4) by (simp add: keeps_def)
  have "unowned (held (slot (qj_priv s'))) h"
  proof (rule ccontr)
    assume "\<not> unowned (held (slot (qj_priv s'))) h"
    then obtain y hl where y: "slot (qj_priv s') y = Some hl" "holder_obj hl = Some h" by (auto simp: unowned_def held_def)
    then have "fits hl (LocalRef t)"
      using owned_okD(2) [of "jv_refs (qj_vm s')" _ "R \<union> L'" y hl h] q_okD(1) [OF assms(3)] r by (auto simp: jv_ok_def)
    with y(1) show False by (auto simp: slot_def split: option.splits)
  qed
  from q_okD(4) [OF assms(3) r this] show "x \<in> L'" using h x q_okD(2) [OF assms(1)] by auto
qed

lemma gained_keeps: "gained t s R n s' \<Longrightarrow> keeps s s'"
  by (auto simp: gained_def)

text \<open>A later part of a method that starts in a state of the frame.\<close>

lemma gained_restart: "gained t s R n s1 \<Longrightarrow> gained t s1 R n s1"
  unfolding gained_def by (auto simp: keeps_def)

lemma gained_trans:
  assumes "gained t s R n s1" and "gained t s1 R m s2"
  shows "gained t s R m s2"
  using assms later_trans unfolding gained_def keeps_def by fastforce

text \<open>When the method returns, the references are those at the start.\<close>

lemma leave_ok:
  assumes "q_ok s R {}" and "gained t s R n s'"
  shows "q_ok (leave_native t (jv_next (qj_vm s)) s') R {}"
proof -
  let ?n = "jv_next (qj_vm s)" and ?s = "leave_native t (jv_next (qj_vm s)) s'"
  obtain L where L: "q_ok s' R L" "L \<subseteq> {(h, k). k = LocalRef t}" "later s s'" "qj_priv s' = qj_priv s"
    using assms(2) by (auto simp: gained_def)
  let ?V = "slot (qj_priv s')"
  note D = q_okD [OF L(1)] and E = q_okD [OF assms(1)]
  have same: "qj_priv ?s = qj_priv s'" "qj_next ?s = qj_next s'" "g_jClassLoader ?s = g_jClassLoader s'"
    "jv_collected (qj_vm ?s) = jv_collected (qj_vm s')" by (simp_all add: leave_native_def)
  have sub: "jv_refs (qj_vm s') h = Some x" if "jv_refs (qj_vm ?s) h = Some x" for h x
    using that by (auto simp: leave_native_def split: option.splits ref_kind.splits if_splits)
  have stays: "jv_refs (qj_vm ?s) h = Some (k, obj)" if "jv_refs (qj_vm s') h = Some (k, obj)" "k = LocalRef t \<Longrightarrow> h < ?n" for h k obj
    using that by (auto simp: leave_native_def split: ref_kind.splits)
  have gone: "h < ?n" if "jv_refs (qj_vm ?s) h = Some (LocalRef t, obj)" for h obj
    using that by (auto simp: leave_native_def split: option.splits ref_kind.splits if_splits)
  have old: "h < ?n" if r: "(h, k) \<in> R" for h k
  proof -
    obtain obj where "jv_refs (qj_vm s) h = Some (k, obj)" by (rule q_ok_alive [OF assms(1)]) (use r in auto)
    then show ?thesis using E(1) jrefs_okD(2) [of "qj_vm s" h] by (force simp: jv_ok_def)
  qed
  have owned: "(h, k) \<in> R" if r: "jv_refs (qj_vm ?s) h = Some (k, obj)" and u: "unowned (held ?V) h" for h k obj
  proof (cases "k = LocalRef t")
    case True
    with gone r have "h < ?n" by blast
    then have "jv_refs (qj_vm s) h = Some (k, obj)" using L(3) sub [OF r] by (auto simp: later_def)
    then show ?thesis using E(4) [of h k obj] u L(4) by simp
  next
    case False
    with D(4) [OF sub [OF r] u] L(2) show ?thesis by auto
  qed
  have "jrefs_ok (qj_vm ?s)"
  proof -
    have f: "g_jvm (qj_vm ?s) = g_jvm (qj_vm s')" "jv_next (qj_vm ?s) = jv_next (qj_vm s')"
      "jv_attached (qj_vm ?s) = jv_attached (qj_vm s')" "tls_jni_detach (qj_vm ?s) = tls_jni_detach (qj_vm s')"
      "jv_frames (qj_vm ?s) = jv_frames (qj_vm s')" by (simp_all add: leave_native_def)
    have n: "jv_refs (qj_vm ?s) h = None" if "jv_refs (qj_vm s') h = None" for h
      using that sub by (cases "jv_refs (qj_vm ?s) h") force+
    have "jrefs_ok (qj_vm s')" using D(1) by (simp add: jv_ok_def)
    note J = this [unfolded jrefs_ok_def]
    show ?thesis
      unfolding jrefs_ok_def f same(4)
      by (intro conjI; (use J n sub in blast))
  qed
  moreover have "owned_ok (jv_refs (qj_vm ?s)) ?V R"
  proof (rule owned_okI)
    have O: "owned_ok (jv_refs (qj_vm s')) ?V (R \<union> L)" using D(1) by (simp add: jv_ok_def)
    show holders: "\<exists>k obj. jv_refs (qj_vm ?s) h = Some (k, obj) \<and> fits hl k" if v: "?V x = Some hl" "holder_obj hl = Some h" for x hl h
    proof -
      obtain k obj where k: "jv_refs (qj_vm s') h = Some (k, obj)" "fits hl k" using owned_okD(2) [OF O v] by blast
      have "k = GlobalRef" using v(1) k(2) by (auto simp: slot_def split: option.splits)
      with stays [OF k(1)] k(2) show ?thesis by blast
    qed
    show "owns_ok (held ?V) (dom (jv_refs (qj_vm ?s)))"
      unfolding owns_ok_def
    proof (intro conjI allI impI)
      show "r \<in> dom (jv_refs (qj_vm ?s))" if "held ?V x = Some (Some r)" for x r
        using that holders by (fastforce simp: held_def)
      show "x = y" if "held ?V x = Some (Some r)" "held ?V y = Some (Some r)" for x y r
        using owned_okD(1) [OF O] that unfolding owns_ok_def by blast
    qed
    show "unowned (held ?V) h \<and> (\<exists>obj. jv_refs (qj_vm ?s) h = Some (k, obj))" if r: "(h, k) \<in> R" for h k
      using owned_okD(3) [OF O, of h k] r stays [of h k] old [OF r] by blast
    show "(h, k) \<in> R" if "jv_refs (qj_vm ?s) h = Some (k, obj)" "\<not> local_kind k" "unowned (held ?V) h" for h k obj
      by (rule owned [OF that(1,3)])
  qed
  ultimately show ?thesis
    using D(3,5,6,7,8) owned same by (intro q_okI) (simp_all add: jv_ok_def)
qed

subsection \<open>Calls on the Java object\<close>

text \<open>A new object knows the class of its Java object.\<close>

lemma QJniObject_of_class:
  assumes "q_ok s R T" and "healthy qa" and "calm t s" and "refers t s a obj"
    and "QJniObject_of qa t (Some a) s = Inr (s', d)"
  shows "valid_object s' d obj (qa_class_of qa obj)"
proof -
  have c: "jv_collected (qj_vm s) = {}" by (rule q_okD(3) [OF assms(1)])
  have g: "g_jvm (qj_vm s)" using q_okD(1) [OF assms(1)] by (simp add: jv_ok_def jrefs_ok_def)
  obtain k where a: "usable t a (qj_vm s)" "jv_refs (qj_vm s) a = Some (k, obj)" using assms(4) by (auto simp: refers_def)
  have n: "jv_next (qj_vm s) \<le> a \<Longrightarrow> False"
    using q_okD(1) [OF assms(1)] jrefs_okD(2) [of "qj_vm s" a] a(2) by (simp add: jv_ok_def)
  have ne: "a \<noteq> jv_next (qj_vm s)" "a \<noteq> jv_next (qj_vm s) + 1" "a \<noteq> jv_next (qj_vm s) + 2" using n by auto
  show ?thesis
    using assms(2,3,5) c g a ne
    by (auto simp: QJniObject_of_def with_env_def QJniEnvironment_new_def calm_def adopt_def env_NewGlobalRef_def jni_ready_def NewRef_def
        hand_out_def healthy_def Let_def env_GetObjectClass_def deref_def q_local_def env_DeleteRef_def DeleteRef_def usable_def
        QJniEnvironment_destroy_def checkAndClearExceptions_def new_private_def valid_object_def obind_eq_Inr)
qed

text \<open>A void method that exists; what it throws is cleared.\<close>

definition has_void :: "qt_java \<Rightarrow> nat \<Rightarrow> string \<Rightarrow> string \<Rightarrow> nat \<Rightarrow> bool" where
  "has_void qa obj name signature mid \<longleftrightarrow>
     qa_method qa (qa_class_of qa obj) name signature False = Some mid \<and> qa_method_type qa mid = jvoid"

lemma wp_void_gained:
  assumes "gained t s R n s0" and "healthy qa" and "valid_object s0 d obj (qa_class_of qa obj)" and "args_ok t s0 args"
    and "has_void qa obj name signature mid"
    and "\<And>s'. gained t s0 R n s' \<Longrightarrow> qj_calls s' = qj_calls s0 @ [Java_Call mid obj (map (arg_val s0) args)] \<Longrightarrow> Q s' ()"
  shows "wp (callMethod_void qa t d name signature args s0) Q"
proof -
  obtain L where L: "q_ok s0 R L" "finite L" "card L = n" "L \<subseteq> {(h, k). k = LocalRef t}" and c: "calm t s0"
    using assms(1) by (auto simp: gained_def)
  let ?cs = "qj_calls s0 @ [Java_Call mid obj (map (arg_val s0) args)]"
  have m: "qa_method qa (qa_class_of qa obj) name signature False = Some mid" "qa_method_type qa mid = jvoid"
    using assms(5) by (simp_all add: has_void_def)
  show ?thesis
  proof (rule wp_callMethod_void [OF L(1) assms(2) _ assms(3,4), where cs = ?cs and r = "qa_answer qa ?cs"])
    show "\<not> qj_pending s0" using c by (simp add: calm_def)
    fix s' assume s': "kept t s0 R L s'" "qj_calls s' = ?cs"
    have "gained t s0 R n s'"
      using gained_again [OF L(1) subset_refl _ L(2,4) c, of s'] s'(1) L(3) by (simp add: kept_def)
    then show "Q s' ()" using s'(2) by (rule assms(6))
  qed (use m in \<open>auto simp: call_result_def Let_def\<close>)
qed

text \<open>A block with its own environment, on the attached thread.\<close>

lemma wp_with_env_gained:
  assumes "gained t s R n s0" and "healthy qa" and "wp (body (Some t) s0) (\<lambda>s2 r. calm t s2 \<and> Q s2 r)"
  shows "wp (with_env qa t body s0) Q"
proof -
  obtain L where L: "q_ok s0 R L" and c: "calm t s0" using assms(1) by (auto simp: gained_def)
  show ?thesis
  proof (rule wp_with_env [OF L assms(2)])
    show "\<not> qj_pending s0" using c by (simp add: calm_def)
    fix s1 assume "t \<in> jv_attached (qj_vm s0) \<Longrightarrow> s1 = s0"
    then have "s1 = s0" using c by (simp add: calm_def)
    with wp_mono [OF assms(3)] show "wp (body (Some t) s1) (\<lambda>s2 r. Q (s2\<lparr>qj_pending := False\<rparr>) r)"
      by (fastforce simp: calm_def no_pending)
  qed
qed

text \<open>A block with a local object: what it leaves in the frame stays, and the object goes.\<close>

lemma wp_with_object_gained:
  assumes "gained t s R n s0" and "healthy qa"
    and "\<And>L. q_ok s0 R L \<Longrightarrow> L \<subseteq> {(h, k). k = LocalRef t} \<Longrightarrow> finite L \<Longrightarrow> card L = n \<Longrightarrow>
           wp (mk s0) (\<lambda>s1 d. (\<exists>ob. made t s0 R L s1 d ob) \<and>
           wp (body d s1) (\<lambda>s2 r. \<exists>m. gained t s1 R m s2 \<and>
             (\<forall>s'. gained t s0 R m s' \<longrightarrow> qj_calls s' = qj_calls s2 \<longrightarrow> Q s' r)))"
  shows "wp (with_object qa t mk body s0) Q"
proof -
  obtain L where L: "q_ok s0 R L" "finite L" "card L = n" "L \<subseteq> {(h, k). k = LocalRef t}" and c: "calm t s0"
    using assms(1) by (auto simp: gained_def)
  show ?thesis
  proof (rule wp_with_object [OF assms(2)], rule wp_mono [OF assms(3) [OF L(1,4,2,3)]], elim exE conjE)
    fix s1 d ob
    assume m: "made t s0 R L s1 d ob"
      and b: "wp (body d s1) (\<lambda>s2 r. \<exists>m. gained t s1 R m s2 \<and> (\<forall>s'. gained t s0 R m s' \<longrightarrow> qj_calls s' = qj_calls s2 \<longrightarrow> Q s' r))"
    have "wp (body d s1) (\<lambda>s2 r. \<exists>R' T'. q_ok s2 R' T' \<and> \<not> qj_pending s2 \<and> later s1 s2 \<and> qj_priv s2 = qj_priv s1 \<and>
             (\<forall>s'. q_ok s' R' T' \<longrightarrow> later s0 s' \<longrightarrow> \<not> qj_pending s' \<longrightarrow> qj_priv s' = qj_priv s0 \<longrightarrow>
                qj_calls s' = qj_calls s2 \<longrightarrow> later s2 s' \<longrightarrow> Q s' r))"
    proof (rule wp_mono [OF b], elim exE conjE)
      fix s2 r m'
      assume g: "gained t s1 R m' s2" and q: "\<forall>s'. gained t s0 R m' s' \<longrightarrow> qj_calls s' = qj_calls s2 \<longrightarrow> Q s' r"
      obtain L' where L': "q_ok s2 R L'" "finite L'" "card L' = m'" "L' \<subseteq> {(h, k). k = LocalRef t}" "later s1 s2"
        "qj_priv s2 = qj_priv s1" "calm t s2" "keeps s1 s2" using g by (auto simp: gained_def)
      have "q_ok s1 R L" using m by (simp add: made_def)
      then have "L \<subseteq> L'" by (rule locals_kept [OF _ L(4) L'(1,8)])
      then have "Q s' r" if "q_ok s' R L'" "later s0 s'" "\<not> qj_pending s'" "qj_priv s' = qj_priv s0" "qj_calls s' = qj_calls s2" for s'
        using q gained_again [OF L(1) _ that(1) L'(2,4) c that(2,3,4)] L'(3) that(5) by blast
      with L' show "\<exists>R' T'. q_ok s2 R' T' \<and> \<not> qj_pending s2 \<and> later s1 s2 \<and> qj_priv s2 = qj_priv s1 \<and>
             (\<forall>s'. q_ok s' R' T' \<longrightarrow> later s0 s' \<longrightarrow> \<not> qj_pending s' \<longrightarrow> qj_priv s' = qj_priv s0 \<longrightarrow>
                qj_calls s' = qj_calls s2 \<longrightarrow> later s2 s' \<longrightarrow> Q s' r)"
        by (intro exI [of _ R] exI [of _ L']) (auto simp: calm_def)
    qed
    with m show "\<exists>ob. made t s0 R L s1 d ob \<and> wp (body d s1) (\<lambda>s2 r. \<exists>R' T'. q_ok s2 R' T' \<and> \<not> qj_pending s2 \<and> later s1 s2 \<and>
        qj_priv s2 = qj_priv s1 \<and> (\<forall>s'. q_ok s' R' T' \<longrightarrow> later s0 s' \<longrightarrow> \<not> qj_pending s' \<longrightarrow> qj_priv s' = qj_priv s0 \<longrightarrow>
                qj_calls s' = qj_calls s2 \<longrightarrow> later s2 s' \<longrightarrow> Q s' r))" by blast
  qed
qed

text \<open>The start of such a block.\<close>

lemma made_gained:
  assumes "made t s0 R L s1 d ob" and "q_ok s0 R L" and "L \<subseteq> {(h, k). k = LocalRef t}" and "finite L" and "card L = n" and "calm t s0"
  shows "gained t s1 R n s1" and "keeps s0 s1" and "qj_priv s0 \<subseteq>\<^sub>m qj_priv s1" and "qj_priv s0 d = None"
proof -
  have m: "q_ok s1 R L" "later s0 s1" "\<not> qj_pending s1" "qj_priv s0 d = None" "qj_priv s0 \<subseteq>\<^sub>m qj_priv s1"
    using assms(1) by (auto simp: made_def map_le_def)
  show "keeps s0 s1" by (rule keepsI [OF assms(2) m(1) subset_refl m(5,2)])
  have "calm t s1" using m(2,3) assms(6) later_attached [OF m(2)] by (simp add: calm_def)
  with m(1) assms(3,4,5) show "gained t s1 R n s1" by (auto simp: gained_def keeps_def)
  show "qj_priv s0 \<subseteq>\<^sub>m qj_priv s1" "qj_priv s0 d = None" by (rule m(5), rule m(4))
qed

text \<open>A local object for the Java object of the view model.\<close>

lemma wp_on_view:
  assumes "gained t s R n s0" and "healthy qa" and "refers t s0 p obj"
    and "\<And>s1 d. gained t s1 R n s1 \<Longrightarrow> keeps s0 s1 \<Longrightarrow> valid_object s1 d obj (qa_class_of qa obj) \<Longrightarrow> qj_calls s1 = qj_calls s0 \<Longrightarrow>
           qj_priv s0 \<subseteq>\<^sub>m qj_priv s1 \<Longrightarrow>
           wp (body d s1) (\<lambda>s2 r. \<exists>m. gained t s1 R m s2 \<and> (\<forall>s'. gained t s0 R m s' \<longrightarrow> qj_calls s' = qj_calls s2 \<longrightarrow> Q s' r))"
  shows "wp (with_object qa t (QJniObject_of qa t (Some p)) body s0) Q"
proof (rule wp_with_object_gained [OF assms(1,2)])
  fix L assume L: "q_ok s0 R L" "L \<subseteq> {(h, k). k = LocalRef t}" "finite L" "card L = n"
  have c: "calm t s0" by (rule gained_calm [OF assms(1)])
  obtain k where k: "jv_refs (qj_vm s0) p = Some (k, obj)" "usable t p (qj_vm s0)" using assms(3) by (auto simp: refers_def)
  have "wp (QJniObject_of qa t (Some p) s0) (\<lambda>s1 d. made t s0 R L s1 d (Some obj) \<and> qj_calls s1 = qj_calls s0)"
    by (rule wp_QJniObject_of [OF L(1) assms(2), where k = k]) (use c k in \<open>auto simp: calm_def\<close>)
  from wpD [OF this] obtain s1 d where s1: "QJniObject_of qa t (Some p) s0 = Inr (s1, d)" "made t s0 R L s1 d (Some obj)"
    "qj_calls s1 = qj_calls s0" by blast
  note g = made_gained [OF s1(2) L c]
  show "wp (QJniObject_of qa t (Some p) s0) (\<lambda>s1 d. (\<exists>ob. made t s0 R L s1 d ob) \<and>
      wp (body d s1) (\<lambda>s2 r. \<exists>m. gained t s1 R m s2 \<and> (\<forall>s'. gained t s0 R m s' \<longrightarrow> qj_calls s' = qj_calls s2 \<longrightarrow> Q s' r)))"
    unfolding s1(1) using s1(2) assms(4) [OF g(1,2) QJniObject_of_class [OF L(1) assms(2) c assms(3) s1(1)] s1(3) g(3)] by auto
qed

lemma wp_view_call:
  assumes "gained t s R n s0" and "healthy qa" and "refers t s0 p obj" and "args_ok t s0 args"
    and "has_void qa obj name signature mid"
    and "\<And>s1 d. keeps s0 s1 \<Longrightarrow> qj_priv s0 \<subseteq>\<^sub>m qj_priv s1 \<Longrightarrow> body d s1 = callMethod_void qa t d name signature args s1"
    and "\<And>s'. gained t s0 R n s' \<Longrightarrow> qj_calls s' = qj_calls s0 @ [Java_Call mid obj (map (arg_val s0) args)] \<Longrightarrow> Q s' ()"
  shows "wp (with_object qa t (QJniObject_of qa t (Some p)) body s0) Q"
proof (rule wp_on_view [OF assms(1-3)])
  fix s1 d
  assume s1: "gained t s1 R n s1" "keeps s0 s1" "valid_object s1 d obj (qa_class_of qa obj)" "qj_calls s1 = qj_calls s0"
    "qj_priv s0 \<subseteq>\<^sub>m qj_priv s1"
  note a = args_keeps [OF s1(2) assms(4)]
  show "wp (body d s1) (\<lambda>s2 r. \<exists>m. gained t s1 R m s2 \<and> (\<forall>s'. gained t s0 R m s' \<longrightarrow> qj_calls s' = qj_calls s2 \<longrightarrow> Q s' r))"
    unfolding assms(6) [OF s1(2,5)]
    by (rule wp_void_gained [OF s1(1) assms(2) s1(3) a(1) assms(5)]) (use assms(7) s1(4) a(2) in auto)
qed

text \<open>The methods of a Kotlin view model that the native code calls.\<close>

record view_methods =
  vm_setViewModelAttached :: nat
  vm_setProp :: nat
  vm_showLoading :: nat
  vm_hiddenLoading :: nat

definition view_class :: "qt_java \<Rightarrow> nat \<Rightarrow> view_methods \<Rightarrow> bool" where
  "view_class qa obj m \<longleftrightarrow>
     has_void qa obj ''setViewModelAttached'' ''(Z)V'' (vm_setViewModelAttached m) \<and>
     has_void qa obj ''setProp'' ''(ILjava/lang/String;)V'' (vm_setProp m) \<and>
     has_void qa obj ''showLoading'' ''([B)V'' (vm_showLoading m) \<and>
     has_void qa obj ''hiddenLoading'' ''()V'' (vm_hiddenLoading m)"

lemma gained_refers: "gained t s0 R n s' \<Longrightarrow> refers t s0 p obj \<Longrightarrow> refers t s' p obj"
  using refers_keeps gained_keeps by blast

lemma wp_setViewModelAttached:
  assumes "gained t s R n s0" and "healthy qa" and "refers t s0 p obj" and "view_class qa obj m" and "bind_java_view_model vm = Some p"
    and "\<And>s'. gained t s R n s' \<Longrightarrow> refers t s' p obj \<Longrightarrow>
           qj_calls s' = qj_calls s0 @ [Java_Call (vm_setViewModelAttached m) obj [Prim jboolean 1]] \<Longrightarrow> Q s' (vm\<lparr>view_model_is_attached := True\<rparr>)"
  shows "wp (ViewModel_setViewModelAttached qa t True vm s0) Q"
proof -
  have "wp (with_object qa t (QJniObject_of qa t (Some p)) (\<lambda>d.
      callMethod_void qa t d ''setViewModelAttached'' ''(Z)V'' [Arg_Prim jboolean 1]) s0) (\<lambda>s' u. Q s' (vm\<lparr>view_model_is_attached := True\<rparr>))"
    by (rule wp_view_call [OF assms(1-3)])
      (use assms(4) gained_trans [OF assms(1)] gained_refers [OF _ assms(3)] in
        \<open>auto simp: args_ok_def view_class_def intro!: assms(6)\<close>)
  with assms(5) show ?thesis by (simp add: ViewModel_setViewModelAttached_def wp_obind)
qed

lemma wp_setProp:
  assumes "gained t s R n s0" and "healthy qa" and "refers t s0 p obj" and "view_class qa obj m"
    and "vm = \<lparr>bind_java_view_model = Some p, view_model_is_attached = True\<rparr>" and "cs = qj_calls s0 @ [Java_New_String v]"
    and "\<And>s'. gained t s R n s' \<Longrightarrow> refers t s' p obj \<Longrightarrow>
           qj_calls s' = cs @ [Java_Call (vm_setProp m) obj [Prim jint key, Obj (Some (qa_new_string qa cs))]] \<Longrightarrow> Q s' ()"
  shows "wp (ViewModel_setProp qa t key v vm s0) Q"
proof -
  have "wp (with_object qa t (fromString qa t v) (\<lambda>jstring_value.
        with_object qa t (QJniObject_of qa t (Some p)) (\<lambda>jniObject s2.
          obind (QJniObject_object s2 jstring_value) (\<lambda>str.
          callMethod_void qa t jniObject ''setProp'' ''(ILjava/lang/String;)V'' [Arg_Prim jint key, Arg_Ref str] s2))) s0) Q"
  proof (rule wp_with_object_gained [OF assms(1,2)])
    fix L assume L: "q_ok s0 R L" "L \<subseteq> {(h, k). k = LocalRef t}" "finite L" "card L = n"
    have c: "calm t s0" by (rule gained_calm [OF assms(1)])
    show "wp (fromString qa t v s0) (\<lambda>s1 e. (\<exists>ob. made t s0 R L s1 e ob) \<and>
        wp (with_object qa t (QJniObject_of qa t (Some p)) (\<lambda>d s2. obind (QJniObject_object s2 e) (\<lambda>str.
            callMethod_void qa t d ''setProp'' ''(ILjava/lang/String;)V'' [Arg_Prim jint key, Arg_Ref str] s2)) s1)
          (\<lambda>s2 r. \<exists>m. gained t s1 R m s2 \<and> (\<forall>s'. gained t s0 R m s' \<longrightarrow> qj_calls s' = qj_calls s2 \<longrightarrow> Q s' r)))"
    proof (rule wp_fromString [OF L(1) assms(2)])
      show "\<not> qj_pending s0" using c by (simp add: calm_def)
      fix s1 e
      assume m: "made t s0 R L s1 e (Some (qa_new_string qa (qj_calls s0 @ [Java_New_String v])))"
        and calls: "qj_calls s1 = qj_calls s0 @ [Java_New_String v]"
      note g = made_gained [OF m L c]
      obtain pr hs where pr: "qj_priv s1 e = Some (pr, 1)" "m_jobject pr = Some hs"
        "jv_refs (qj_vm s1) hs = Some (GlobalRef, qa_new_string qa cs)"
        using m assms(6) by (auto simp: made_def object_is_def split: option.splits)
      have "wp (with_object qa t (QJniObject_of qa t (Some p)) (\<lambda>d s2. obind (QJniObject_object s2 e) (\<lambda>str.
            callMethod_void qa t d ''setProp'' ''(ILjava/lang/String;)V'' [Arg_Prim jint key, Arg_Ref str] s2)) s1)
          (\<lambda>s2 r. \<exists>m. gained t s1 R m s2 \<and> (\<forall>s'. gained t s0 R m s' \<longrightarrow> qj_calls s' = qj_calls s2 \<longrightarrow> Q s' r))"
      proof (rule wp_view_call [OF g(1) assms(2) refers_keeps [OF assms(3) g(2)], where args = "[Arg_Prim jint key, Arg_Ref (Some hs)]"])
        show "args_ok t s1 [Arg_Prim jint key, Arg_Ref (Some hs)]"
          using pr(3) by (auto simp: args_ok_def usable_def)
        show "has_void qa obj ''setProp'' ''(ILjava/lang/String;)V'' (vm_setProp m)" using assms(4) by (simp add: view_class_def)
        show "obind (QJniObject_object s2 e) (\<lambda>str. callMethod_void qa t d ''setProp'' ''(ILjava/lang/String;)V'' [Arg_Prim jint key, Arg_Ref str] s2) =
            callMethod_void qa t d ''setProp'' ''(ILjava/lang/String;)V'' [Arg_Prim jint key, Arg_Ref (Some hs)] s2"
          if "qj_priv s1 \<subseteq>\<^sub>m qj_priv s2" for s2 d
        proof -
          have "qj_priv s2 e = Some (pr, 1)" using that pr(1) by (auto simp: map_le_def dom_def)
          with pr(2) show ?thesis by (simp add: QJniObject_object_def private_at_def)
        qed
        fix s2 assume s2: "gained t s1 R n s2"
          "qj_calls s2 = qj_calls s1 @ [Java_Call (vm_setProp m) obj (map (arg_val s1) [Arg_Prim jint key, Arg_Ref (Some hs)])]"
        show "\<exists>m. gained t s1 R m s2 \<and> (\<forall>s'. gained t s0 R m s' \<longrightarrow> qj_calls s' = qj_calls s2 \<longrightarrow> Q s' ())"
          using s2 calls pr(3) assms(6) gained_trans [OF assms(1)] gained_refers [OF _ assms(3)]
          by (intro exI [of _ n]) (auto intro!: assms(7))
      qed
      with m show "(\<exists>ob. made t s0 R L s1 e ob) \<and> wp (with_object qa t (QJniObject_of qa t (Some p)) (\<lambda>d s2. obind (QJniObject_object s2 e) (\<lambda>str.
            callMethod_void qa t d ''setProp'' ''(ILjava/lang/String;)V'' [Arg_Prim jint key, Arg_Ref str] s2)) s1)
          (\<lambda>s2 r. \<exists>m. gained t s1 R m s2 \<and> (\<forall>s'. gained t s0 R m s' \<longrightarrow> qj_calls s' = qj_calls s2 \<longrightarrow> Q s' r))" by blast
    qed
  qed
  with assms(5) show ?thesis
    by (simp add: ViewModel_setProp_def ViewModel_getJavaViewModel_def ViewModel_isViewModelAttached_def)
qed

lemma wp_java_bytes:
  assumes "gained t s R n s0" and "healthy qa"
    and "\<And>s1 h. gained t s R (Suc n) s1 \<Longrightarrow> keeps s0 s1 \<Longrightarrow> refers t s1 h (new_byte_array fb (qj_calls s0) buf) \<Longrightarrow>
           qj_calls s1 = qj_calls s0 \<Longrightarrow> qj_priv s1 = qj_priv s0 \<Longrightarrow> Q s1 (Some h)"
  shows "wp (java_bytes qa fb t (Some t) buf s0) Q"
proof -
  let ?a = "new_byte_array fb (qj_calls s0) buf"
  have priv: "qj_priv s1 = qj_priv s0" if "gained t s R (Suc n) s1" for s1
    using that assms(1) by (auto simp: gained_def)
  have "wp (Inr (q_local_opt qa t (Some ?a) s0)) (\<lambda>s1 p. calm t s1 \<and> (\<exists>h. p = Some h \<and> refers t s1 h ?a) \<and> Q s1 p)"
    by (rule gained_local [OF assms(1,2)]) (use assms(3) gained_calm priv in auto)
  then show ?thesis using gained_calm [OF assms(1)]
    by (auto simp: java_bytes_def jni_ready_def calm_def q_local_opt_def wp_def deref_def refers_def split: prod.splits)
qed

lemma wp_showLoading:
  assumes "gained t s R n s0" and "healthy qa" and "refers t s0 p obj" and "view_class qa obj m" and "bind_java_view_model vm = Some p"
    and "\<And>s'. gained t s R (Suc n) s' \<Longrightarrow> refers t s' p obj \<Longrightarrow>
           qj_calls s' = qj_calls s0 @ [Java_Call (vm_showLoading m) obj [Obj (Some (new_byte_array fb (qj_calls s0) (fb_loading fb msg)))]] \<Longrightarrow>
           Q s' ()"
  shows "wp (ViewModel_showLoading qa fb t msg vm s0) Q"
  unfolding ViewModel_showLoading_def assms(5)
proof (rule wp_on_view [OF assms(1-3)])
  fix s1 d
  let ?a = "new_byte_array fb (qj_calls s0) (fb_loading fb msg)"
  assume s1: "gained t s1 R n s1" "valid_object s1 d obj (qa_class_of qa obj)" "qj_calls s1 = qj_calls s0"
  show "wp (with_env qa t (\<lambda>env s. obind (java_bytes qa fb t env (fb_loading fb msg) s) (\<lambda>(s1, ret).
            callMethod_void qa t d ''showLoading'' ''([B)V'' [Arg_Ref ret] s1)) s1)
          (\<lambda>s2 r. \<exists>m. gained t s1 R m s2 \<and> (\<forall>s'. gained t s0 R m s' \<longrightarrow> qj_calls s' = qj_calls s2 \<longrightarrow> Q s' r))"
  proof (rule wp_with_env_gained [OF s1(1) assms(2)], unfold wp_obind split_conv, rule wp_java_bytes [OF s1(1) assms(2)])
    fix s2 h
    assume s2: "gained t s1 R (Suc n) s2" "keeps s1 s2" "refers t s2 h (new_byte_array fb (qj_calls s1) (fb_loading fb msg))"
      "qj_calls s2 = qj_calls s1" "qj_priv s2 = qj_priv s1"
    have v: "valid_object s2 d obj (qa_class_of qa obj)" by (rule valid_object_keeps [OF s1(2) s2(2)]) (simp add: s2(5))
    have a: "args_ok t s2 [Arg_Ref (Some h)]" "map (arg_val s2) [Arg_Ref (Some h)] = [Obj (Some ?a)]"
      using s2(3) s1(3) by (auto simp: args_ok_def refers_def)
    have hv: "has_void qa obj ''showLoading'' ''([B)V'' (vm_showLoading m)" using assms(4) by (simp add: view_class_def)
    show "wp (callMethod_void qa t d ''showLoading'' ''([B)V'' [Arg_Ref (Some h)] s2)
        (\<lambda>s2 r. calm t s2 \<and> (\<exists>m. gained t s1 R m s2 \<and> (\<forall>s'. gained t s0 R m s' \<longrightarrow> qj_calls s' = qj_calls s2 \<longrightarrow> Q s' r)))"
    proof (rule wp_void_gained [OF s2(1) assms(2) v a(1) hv])
      fix s3 assume s3: "gained t s2 R (Suc n) s3" "qj_calls s3 = qj_calls s2 @ [Java_Call (vm_showLoading m) obj (map (arg_val s2) [Arg_Ref (Some h)])]"
      have "Q s' ()" if "gained t s0 R (Suc n) s'" "qj_calls s' = qj_calls s3" for s'
        by (rule assms(6) [OF gained_trans [OF assms(1) that(1)] gained_refers [OF that(1) assms(3)]])
          (simp add: that(2) s3(2) s2(4) s1(3) a(2) del: list.map)
      with gained_trans [OF s2(1) s3(1)] gained_calm [OF s3(1)]
      show "calm t s3 \<and> (\<exists>m. gained t s1 R m s3 \<and> (\<forall>s'. gained t s0 R m s' \<longrightarrow> qj_calls s' = qj_calls s3 \<longrightarrow> Q s' ()))" by blast
    qed
  qed
qed

lemma wp_hiddenLoading:
  assumes "gained t s R n s0" and "healthy qa" and "refers t s0 p obj" and "view_class qa obj m" and "bind_java_view_model vm = Some p"
    and "\<And>s'. gained t s R n s' \<Longrightarrow> qj_calls s' = qj_calls s0 @ [Java_Call (vm_hiddenLoading m) obj []] \<Longrightarrow> Q s' ()"
  shows "wp (ViewModel_hiddenLoading qa t vm s0) Q"
  unfolding ViewModel_hiddenLoading_def assms(5)
  by (rule wp_view_call [OF assms(1-3), where args = "[]"])
    (use assms(4) gained_trans [OF assms(1)] in \<open>auto simp: args_ok_def view_class_def intro!: assms(6)\<close>)

text \<open>What Java sees of a call of \<open>nativeBind\<close>, after the calls \<open>cs\<close>.\<close>

definition bind_calls :: "qt_java \<Rightarrow> generated \<Rightarrow> view_methods \<Rightarrow> nat \<Rightarrow> java_call list \<Rightarrow> java_call list" where
  "bind_calls qa fb m obj cs =
     (let c1 = cs @ [Java_Call (vm_setViewModelAttached m) obj [Prim jboolean 1], Java_New_String (ascii_bytes ''1'')];
          c2 = c1 @ [Java_Call (vm_setProp m) obj [Prim jint (Property_SHOW_TOAST fb), Obj (Some (qa_new_string qa c1))],
                     Java_New_String (ascii_bytes ''test ui data'')];
          c3 = c2 @ [Java_Call (vm_setProp m) obj [Prim jint (Property_UI_DATA fb), Obj (Some (qa_new_string qa c2))]]
      in c3 @ [Java_Call (vm_showLoading m) obj [Obj (Some (new_byte_array fb c3 (fb_loading fb (ascii_bytes ''FOREVER''))))],
               Java_Call (vm_hiddenLoading m) obj []])"

lemma wp_bind:
  assumes "gained t s R n s0" and "healthy qa" and "refers t s0 p obj" and "view_class qa obj m" and "bind_java_view_model vm = Some p"
    and "\<And>s'. gained t s R (Suc n) s' \<Longrightarrow> qj_calls s' = bind_calls qa fb m obj (qj_calls s0) \<Longrightarrow>
           Q s' \<lparr>bind_java_view_model = Some p, view_model_is_attached = True\<rparr>"
  shows "wp (obind (ViewModel_setViewModelAttached qa t True vm s0) (\<lambda>(s1, vm2).
          obind (MainViewModel_bind qa fb t vm2 s1) (\<lambda>(s2, _). Inr (s2, vm2)))) Q"
  unfolding wp_obind split_conv
proof (rule wp_setViewModelAttached [OF assms(1-5)])
  fix s1 assume s1: "gained t s R n s1" "refers t s1 p obj"
    "qj_calls s1 = qj_calls s0 @ [Java_Call (vm_setViewModelAttached m) obj [Prim jboolean 1]]"
  let ?vm = "vm\<lparr>view_model_is_attached := True\<rparr>"
  have vm: "?vm = \<lparr>bind_java_view_model = Some p, view_model_is_attached = True\<rparr>" "bind_java_view_model ?vm = Some p"
    using assms(5) by (cases vm; simp)+
  show "wp (MainViewModel_bind qa fb t ?vm s1) (\<lambda>s _. wp (Inr (s, ?vm)) Q)"
    unfolding MainViewModel_bind_def wp_obind split_conv
  proof (rule wp_setProp [OF s1(1) assms(2) s1(2) assms(4) vm(1) refl])
    fix s2 assume s2: "gained t s R n s2" "refers t s2 p obj"
      "qj_calls s2 = (qj_calls s1 @ [Java_New_String (ascii_bytes ''1'')]) @ [Java_Call (vm_setProp m) obj
         [Prim jint (Property_SHOW_TOAST fb), Obj (Some (qa_new_string qa (qj_calls s1 @ [Java_New_String (ascii_bytes ''1'')])))]]"
    show "wp (ViewModel_setProp qa t (Property_UI_DATA fb) (ascii_bytes ''test ui data'') ?vm s2)
        (\<lambda>s _. wp (ViewModel_showLoading qa fb t (ascii_bytes ''FOREVER'') ?vm s)
          (\<lambda>s _. wp (ViewModel_hiddenLoading qa t ?vm s) (\<lambda>s _. wp (Inr (s, ?vm)) Q)))"
    proof (rule wp_setProp [OF s2(1) assms(2) s2(2) assms(4) vm(1) refl], rule wp_showLoading [OF _ assms(2) _ assms(4) vm(2)],
        assumption, assumption, rule wp_hiddenLoading [OF _ assms(2) _ assms(4) vm(2)], assumption, assumption)
      fix s3 s4 s5
      assume "gained t s R (Suc n) s5"
        "qj_calls s3 = (qj_calls s2 @ [Java_New_String (ascii_bytes ''test ui data'')]) @ [Java_Call (vm_setProp m) obj
           [Prim jint (Property_UI_DATA fb), Obj (Some (qa_new_string qa (qj_calls s2 @ [Java_New_String (ascii_bytes ''test ui data'')])))]]"
        "qj_calls s4 = qj_calls s3 @ [Java_Call (vm_showLoading m) obj
           [Obj (Some (new_byte_array fb (qj_calls s3) (fb_loading fb (ascii_bytes ''FOREVER''))))]]"
        "qj_calls s5 = qj_calls s4 @ [Java_Call (vm_hiddenLoading m) obj []]"
      then show "wp (Inr (s5, ?vm)) Q"
        using assms(6) [of s5] vm(1) s1(3) s2(3) by (simp add: bind_calls_def Let_def)
    qed
  qed
qed

subsection \<open>The native methods as Kotlin calls them\<close>

lemma q_local_fresh: "q_local qa t obj s = (s', Some h) \<Longrightarrow> h = jv_next (qj_vm s) \<and> jv_next (qj_vm s') = jv_next (qj_vm s) + 1"
  by (auto simp: q_local_def hand_out_def Let_def split: if_splits)

lemma pass_arguments_gained:
  assumes "gained t s R n s0" and "healthy qa"
  shows "\<exists>s1 hs. pass_arguments qa t objs s0 = (s1, map Some hs) \<and> gained t s R (n + length objs) s1 \<and> keeps s0 s1 \<and>
    list_all2 (refers t s1) hs objs \<and> (\<forall>h \<in> set hs. jv_next (qj_vm s0) \<le> h) \<and> qj_calls s1 = qj_calls s0"
  using assms(1)
proof (induction objs arbitrary: n s0)
  case (Cons obj objs)
  have "wp (Inr (q_local_opt qa t (Some obj) s0)) (\<lambda>s1 p. \<exists>h. p = Some h \<and> gained t s R (Suc n) s1 \<and> keeps s0 s1 \<and> refers t s1 h obj \<and>
      qj_calls s1 = qj_calls s0)"
    by (rule gained_local [OF Cons.prems assms(2)]) simp
  then obtain s1 h where s1: "q_local qa t obj s0 = (s1, Some h)" "gained t s R (Suc n) s1" "keeps s0 s1" "refers t s1 h obj"
    "qj_calls s1 = qj_calls s0" by (auto simp: q_local_opt_def wp_def split: prod.splits)
  note fresh = q_local_fresh [OF s1(1)]
  from Cons.IH [OF s1(2)] obtain s2 hs where s2: "pass_arguments qa t objs s1 = (s2, map Some hs)" "gained t s R (Suc n + length objs) s2"
    "keeps s1 s2" "list_all2 (refers t s2) hs objs" "\<forall>h \<in> set hs. jv_next (qj_vm s1) \<le> h" "qj_calls s2 = qj_calls s1" by blast
  have "keeps s0 s2" using s1(3) s2(3) by (simp add: keeps_def)
  moreover have "refers t s2 h obj" by (rule refers_keeps [OF s1(4) s2(3)])
  moreover have "\<forall>h \<in> set hs. jv_next (qj_vm s0) \<le> h" using s2(5) fresh by auto
  ultimately show ?case using s1(1,5) s2 fresh by (intro exI [of _ s2] exI [of _ "h # hs"]) simp
qed (simp add: keeps_def)

text \<open>A native method that keeps to its frame leaves nothing behind.\<close>

lemma leave_frame:
  assumes "q_ok s R {}" and "gained t s R n s'"
  shows "q_ok (leave_native t (jv_next (qj_vm s)) s') R {}" and "calm t (leave_native t (jv_next (qj_vm s)) s')"
    and "qj_calls (leave_native t (jv_next (qj_vm s)) s') = qj_calls s'" and "g_jClassLoader (leave_native t (jv_next (qj_vm s)) s') = g_jClassLoader s"
    and "jv_next (qj_vm (leave_native t (jv_next (qj_vm s)) s')) = jv_next (qj_vm s')"
  using leave_ok [OF assms] assms(2) by (auto simp: leave_native_def gained_def calm_def later_def)

text \<open>Nothing that is handed out during the call is alive after it.\<close>

lemma leave_fresh:
  assumes "q_ok s R {}" and "gained t s R n s'" and "jv_next (qj_vm s) \<le> h"
  shows "jv_refs (qj_vm (leave_native t (jv_next (qj_vm s)) s')) h = None"
proof -
  let ?s = "leave_native t (jv_next (qj_vm s)) s'"
  have none: "jv_refs (qj_vm s) h = None"
    using q_okD(1) [OF assms(1)] jrefs_okD(2) [of "qj_vm s" h] assms(3) by (cases "jv_refs (qj_vm s) h") (auto simp: jv_ok_def)
  have priv: "qj_priv ?s = qj_priv s" using assms(2) by (simp add: leave_native_def gained_def)
  show ?thesis
  proof (rule ccontr)
    assume "jv_refs (qj_vm ?s) h \<noteq> None"
    then obtain k obj where r: "jv_refs (qj_vm ?s) h = Some (k, obj)" by auto
    have "unowned (held (slot (qj_priv ?s))) h"
    proof (rule ccontr)
      assume "\<not> unowned (held (slot (qj_priv ?s))) h"
      then obtain y hl where y: "slot (qj_priv s) y = Some hl" "holder_obj hl = Some h" by (auto simp: unowned_def held_def priv)
      have "owned_ok (jv_refs (qj_vm s)) (slot (qj_priv s)) (R \<union> {})" using q_okD(1) [OF assms(1)] by (simp add: jv_ok_def)
      from owned_okD(2) [OF this y] have "jv_refs (qj_vm s) h \<noteq> None" by auto
      with none show False by simp
    qed
    with q_okD(4) [OF leave_ok [OF assms(1,2)] r] have "(h, k) \<in> R" by simp
    with q_ok_alive [OF assms(1), of h k] none show False by auto
  qed
qed

lemma wp_native_call:
  assumes "q_ok s R {}" and "calm t s" and "healthy qa"
    and "\<And>s1 hs. gained t s R (length objs) s1 \<Longrightarrow> list_all2 (refers t s1) hs objs \<Longrightarrow> qj_calls s1 = qj_calls s \<Longrightarrow>
           \<forall>h \<in> set hs. jv_next (qj_vm s) \<le> h \<Longrightarrow>
           wp (body (map Some hs) s1) (\<lambda>s2 r. \<exists>n. gained t s R n s2 \<and> Q (leave_native t (jv_next (qj_vm s)) s2) r)"
  shows "wp (native_call qa t objs body s) Q"
proof -
  obtain s1 hs where s1: "pass_arguments qa t objs s = (s1, map Some hs)" "gained t s R (length objs) s1"
    "list_all2 (refers t s1) hs objs" "\<forall>h \<in> set hs. jv_next (qj_vm s) \<le> h" "qj_calls s1 = qj_calls s"
    using pass_arguments_gained [OF gained_start [OF assms(1,2)] assms(3), of objs] by auto
  have "wp (body (map Some hs) s1) (\<lambda>s2 r. wp (Inr (leave_native t (jv_next (qj_vm s)) s2, r)) Q)"
    by (rule wp_mono [OF assms(4) [OF s1(2,3,5,4)]]) auto
  with s1(1) show ?thesis by (simp add: native_call_def wp_obind)
qed

text \<open>The stored reference after the call: an object cannot be made from it.\<close>

lemma dead_object:
  assumes "q_ok s R T" and "healthy qa" and "calm t s" and "jv_refs (qj_vm s) h = None"
  shows "QJniObject_of qa t (Some h) s = Inl Undefined_Behaviour"
  using assms
  by (auto simp: QJniObject_of_def with_env_def QJniEnvironment_new_def calm_def adopt_def env_NewGlobalRef_def jni_ready_def NewRef_def
      Let_def usable_def q_okD(3) jv_ok_def jrefs_ok_def dest!: q_okD(1))

lemma dead_view:
  assumes "q_ok s R T" and "healthy qa" and "calm t s" and "jv_refs (qj_vm s) h = None" and "bind_java_view_model vm = Some h"
  shows "ViewModel_hiddenLoading qa t vm s = Inl Undefined_Behaviour" and "ViewModel_showLoading qa fb t msg vm s = Inl Undefined_Behaviour"
  using dead_object [OF assms(1-4)] assms(5)
  by (simp_all add: ViewModel_hiddenLoading_def ViewModel_showLoading_def with_object_def)

lemma wp_nativeBind_frame:
  assumes "q_ok s R {}" and "calm t s" and "healthy qa" and "view_class qa obj m"
  shows "wp (native_call qa t [this, obj] (\<lambda>ps s.
       let vm1 = ViewModel_setJavaViewModel (ps ! 1) vm
       in obind (ViewModel_setViewModelAttached qa t True vm1 s) (\<lambda>(s1, vm2).
          obind (MainViewModel_bind qa fb t vm2 s1) (\<lambda>(s2, _). Inr (s2, vm2)))) s)
     (\<lambda>s' vm'. q_ok s' R {} \<and> calm t s' \<and> g_jClassLoader s' = g_jClassLoader s \<and> qj_calls s' = bind_calls qa fb m obj (qj_calls s) \<and>
        (\<exists>h. vm' = \<lparr>bind_java_view_model = Some h, view_model_is_attached = True\<rparr> \<and> jv_refs (qj_vm s') h = None))"
proof (rule wp_native_call [OF assms(1-3)])
  fix s1 hs
  assume s1: "gained t s R (length [this, obj]) s1" "list_all2 (refers t s1) hs [this, obj]" "qj_calls s1 = qj_calls s"
    "\<forall>h \<in> set hs. jv_next (qj_vm s) \<le> h"
  then obtain h0 h where hs: "hs = [h0, h]" "refers t s1 h obj" "jv_next (qj_vm s) \<le> h"
    by (auto simp: list_all2_Cons2)
  let ?vm = "ViewModel_setJavaViewModel (Some h) vm"
  have b: "bind_java_view_model ?vm = Some h" by (simp add: ViewModel_setJavaViewModel_def)
  show "wp (let vm1 = ViewModel_setJavaViewModel (map Some hs ! 1) vm
       in obind (ViewModel_setViewModelAttached qa t True vm1 s1) (\<lambda>(s1, vm2).
          obind (MainViewModel_bind qa fb t vm2 s1) (\<lambda>(s2, _). Inr (s2, vm2))))
     (\<lambda>s2 vm'. \<exists>n. gained t s R n s2 \<and> q_ok (leave_native t (jv_next (qj_vm s)) s2) R {} \<and> calm t (leave_native t (jv_next (qj_vm s)) s2) \<and> g_jClassLoader (leave_native t (jv_next (qj_vm s)) s2) = g_jClassLoader s \<and>
        qj_calls (leave_native t (jv_next (qj_vm s)) s2) = bind_calls qa fb m obj (qj_calls s) \<and>
        (\<exists>h. vm' = \<lparr>bind_java_view_model = Some h, view_model_is_attached = True\<rparr> \<and> jv_refs (qj_vm (leave_native t (jv_next (qj_vm s)) s2)) h = None))"
    unfolding hs(1) Let_def list.map nth_Cons_Suc nth_Cons_0 One_nat_def
  proof (rule wp_bind [OF s1(1) assms(3) hs(2) assms(4) b])
    fix s2 assume s2: "gained t s R (Suc (length [this, obj])) s2" "qj_calls s2 = bind_calls qa fb m obj (qj_calls s1)"
    note e = leave_frame [OF assms(1) s2(1)] leave_fresh [OF assms(1) s2(1) hs(3)]
    show "\<exists>n. gained t s R n s2 \<and> q_ok (leave_native t (jv_next (qj_vm s)) s2) R {} \<and> calm t (leave_native t (jv_next (qj_vm s)) s2) \<and>
        g_jClassLoader (leave_native t (jv_next (qj_vm s)) s2) = g_jClassLoader s \<and>
        qj_calls (leave_native t (jv_next (qj_vm s)) s2) = bind_calls qa fb m obj (qj_calls s) \<and>
        (\<exists>h'. \<lparr>bind_java_view_model = Some h, view_model_is_attached = True\<rparr> = \<lparr>bind_java_view_model = Some h', view_model_is_attached = True\<rparr> \<and>
           jv_refs (qj_vm (leave_native t (jv_next (qj_vm s)) s2)) h' = None)"
      using s2 e s1(3) by (intro exI [of _ "Suc (length [this, obj])"] conjI exI [of _ h]) simp_all
  qed
qed

text \<open>C37: a call of \<open>nativeBind\<close> on a live peer, for a Java view model that has the four methods, returns. Java sees exactly
  \<open>setViewModelAttached(true)\<close>, the two \<open>setProp\<close>, \<open>showLoading\<close> and \<open>hiddenLoading\<close>, in this order and with these arguments,
  and no reference is left behind in the virtual machine. The price is that the native object still holds the local reference of the
  call, which is gone: it says that it is attached, and every later \<open>showLoading\<close> or \<open>hiddenLoading\<close> on it is undefined.\<close>

theorem nativeBind_correct:
  assumes "q_ok (vs_jni v) R {}" and "calm t (vs_jni v)" and "healthy qa" and "vs_models v peer = Some mv" and "view_class qa obj m"
  shows "\<exists>v' h. nativeBind qa fb t this peer obj v = Inr v' \<and> q_ok (vs_jni v') R {} \<and> calm t (vs_jni v') \<and>
     qj_calls (vs_jni v') = bind_calls qa fb m obj (qj_calls (vs_jni v)) \<and> vs_process v' = vs_process v \<and>
     vs_models v' = (vs_models v)(peer \<mapsto> mv\<lparr>mv_base := \<lparr>bind_java_view_model = Some h, view_model_is_attached = True\<rparr>\<rparr>) \<and>
     ViewModel_hiddenLoading qa t (mv_base (the (vs_models v' peer))) (vs_jni v') = Inl Undefined_Behaviour \<and>
     ViewModel_showLoading qa fb t msg (mv_base (the (vs_models v' peer))) (vs_jni v') = Inl Undefined_Behaviour"
proof -
  from wpD [OF wp_nativeBind_frame [OF assms(1,2,3,5), where this = this and vm = "mv_base mv" and fb = fb]]
  obtain s' h where s': "native_call qa t [this, obj] (\<lambda>ps s.
       let vm1 = ViewModel_setJavaViewModel (ps ! 1) (mv_base mv)
       in obind (ViewModel_setViewModelAttached qa t True vm1 s) (\<lambda>(s1, vm2).
          obind (MainViewModel_bind qa fb t vm2 s1) (\<lambda>(s2, _). Inr (s2, vm2)))) (vs_jni v) =
      Inr (s', \<lparr>bind_java_view_model = Some h, view_model_is_attached = True\<rparr>)"
    "q_ok s' R {}" "calm t s'" "qj_calls s' = bind_calls qa fb m obj (qj_calls (vs_jni v))" "jv_refs (qj_vm s') h = None" by blast
  let ?vm = "\<lparr>bind_java_view_model = Some h, view_model_is_attached = True\<rparr>"
  have "nativeBind qa fb t this peer obj v =
      Inr (v\<lparr>vs_jni := s', vs_models := (vs_models v)(peer \<mapsto> mv\<lparr>mv_base := ?vm\<rparr>)\<rparr>)"
    using s'(1) assms(4) by (simp add: nativeBind_def update_view_def view_at_def)
  with s'(2-4) dead_view [OF s'(2) assms(3) s'(3,5), of ?vm] show ?thesis by auto
qed

subsection \<open>The life of the view models\<close>

text \<open>Java loads the library, and then makes, binds, unbinds, asks and releases view models, in any order, on its main thread.
  It only passes addresses that the native code has given it and not yet deleted.\<close>

definition well_formed_text :: "java_contents \<Rightarrow> nat \<Rightarrow> bool" where
  "well_formed_text jc text \<longleftrightarrow> (case jc_chars jc text of None \<Rightarrow> False | Some chars \<Rightarrow> UTF16StringToUTF8String chars \<noteq> None)"

inductive views_reachable :: "qt_java \<Rightarrow> java_contents \<Rightarrow> generated \<Rightarrow> thread_id \<Rightarrow> 'c views \<Rightarrow> bool" for qa jc fb t where
  start: "JNI_OnLoad qa t g (qt_start t) = Inr (s, JNI_VERSION_1_6, g') \<Longrightarrow>
    views_reachable qa jc fb t \<lparr>vs_jni = s, vs_process = p, vs_models = Map.empty, vs_next = 1\<rparr>"
| create: "views_reachable qa jc fb t v \<Longrightarrow> nativeCreate n t print_main print_io v = Inr (v', peer) \<Longrightarrow> views_reachable qa jc fb t v'"
| bind: "views_reachable qa jc fb t v \<Longrightarrow> view_class qa obj m \<Longrightarrow> nativeBind qa fb t this peer obj v = Inr v' \<Longrightarrow>
    views_reachable qa jc fb t v'"
| unbind: "views_reachable qa jc fb t v \<Longrightarrow> nativeUnBind qa t this peer v = Inr v' \<Longrightarrow> views_reachable qa jc fb t v'"
| handle: "views_reachable qa jc fb t v \<Longrightarrow> well_formed_text jc text \<Longrightarrow> nativeHandleIntKey qa jc t this peer key text v = Inr v' \<Longrightarrow>
    views_reachable qa jc fb t v'"
| release: "views_reachable qa jc fb t v \<Longrightarrow> nativeRelease n exec terminate polls peer v = Some (Inr (v', r)) \<Longrightarrow>
    views_reachable qa jc fb t v'"

text \<open>Between the calls, Java's references are those of the class loader, no private object is left, and no exception is pending.\<close>

definition jni_idle :: "thread_id \<Rightarrow> qjni \<Rightarrow> bool" where
  "jni_idle t s \<longleftrightarrow> q_ok s (tag GlobalRef (g_jClassLoader s)) {} \<and> calm t s \<and> qj_priv s = Map.empty"

lemma leave_priv: "gained t s R n s' \<Longrightarrow> qj_priv (leave_native t h s') = qj_priv s"
  by (simp add: gained_def leave_native_def)

lemma jni_idle_frame: "jni_idle t s \<Longrightarrow> gained t s (tag GlobalRef (g_jClassLoader s)) n s' \<Longrightarrow> jni_idle t (leave_native t (jv_next (qj_vm s)) s')"
  using leave_frame(1,2,4) [of s "tag GlobalRef (g_jClassLoader s)" t n s'] leave_priv [of t s "tag GlobalRef (g_jClassLoader s)" n s']
  by (simp add: jni_idle_def)

lemma jni_idle_refs:
  assumes "jni_idle t s"
  shows "dom (jv_refs (qj_vm s)) = set_option (g_jClassLoader s)"
proof -
  have q: "q_ok s (tag GlobalRef (g_jClassLoader s)) {}" "qj_priv s = Map.empty" using assms by (simp_all add: jni_idle_def)
  have "unowned (held (slot (qj_priv s))) h" for h by (simp add: unowned_def held_def slot_def q(2))
  then have sub: "h \<in> set_option (g_jClassLoader s)" if "jv_refs (qj_vm s) h = Some (k, obj)" for h k obj
    using q_okD(4) [OF q(1) that] by (auto simp: tag_def split: option.splits)
  have sup: "jv_refs (qj_vm s) h \<noteq> None" if "g_jClassLoader s = Some h" for h
    by (rule q_ok_alive [OF q(1), of h GlobalRef]) (simp_all add: tag_def that)
  show ?thesis
  proof (rule set_eqI)
    fix h show "h \<in> dom (jv_refs (qj_vm s)) \<longleftrightarrow> h \<in> set_option (g_jClassLoader s)" using sub [of h] sup [of h] by auto
  qed
qed

lemma jni_idle_call:
  assumes "jni_idle t s" and "healthy qa"
    and "\<And>s1 hs. gained t s (tag GlobalRef (g_jClassLoader s)) (length objs) s1 \<Longrightarrow> list_all2 (refers t s1) hs objs \<Longrightarrow>
           wp (body (map Some hs) s1) (\<lambda>s2 r. \<exists>n. gained t s (tag GlobalRef (g_jClassLoader s)) n s2)"
  shows "wp (native_call qa t objs body s) (\<lambda>s' r. jni_idle t s')"
proof (rule wp_native_call [OF _ _ assms(2)])
  show "q_ok s (tag GlobalRef (g_jClassLoader s)) {}" "calm t s" using assms(1) by (simp_all add: jni_idle_def)
  fix s1 hs assume "gained t s (tag GlobalRef (g_jClassLoader s)) (length objs) s1" "list_all2 (refers t s1) hs objs"
  note body = assms(3) [OF this]
  show "wp (body (map Some hs) s1)
      (\<lambda>s2 r. \<exists>n. gained t s (tag GlobalRef (g_jClassLoader s)) n s2 \<and> jni_idle t (leave_native t (jv_next (qj_vm s)) s2))"
    by (rule wp_mono [OF body]) (blast intro: jni_idle_frame [OF assms(1)])
qed

text \<open>The three methods that use the Java object or a text of Java.\<close>

lemma update_view_idle:
  assumes "jni_idle t (vs_jni v)" and "vs_models v peer = Some mv" and "wp (f (mv_base mv) (vs_jni v)) (\<lambda>s' r. jni_idle t s')"
  shows "\<exists>v'. update_view peer f v = Inr v' \<and> jni_idle t (vs_jni v')"
  using wpD [OF assms(3)] assms(2) by (auto simp: update_view_def view_at_def)

lemma nativeBind_idle:
  assumes "jni_idle t (vs_jni v)" and "healthy qa" and "vs_models v peer = Some mv" and "view_class qa obj m"
  shows "\<exists>v'. nativeBind qa fb t this peer obj v = Inr v' \<and> jni_idle t (vs_jni v')"
  unfolding nativeBind_def
proof (rule update_view_idle [OF assms(1,3)], rule jni_idle_call [OF assms(1,2)])
  fix s1 hs assume s1: "gained t (vs_jni v) (tag GlobalRef (g_jClassLoader (vs_jni v))) (length [this, obj]) s1"
    "list_all2 (refers t s1) hs [this, obj]"
  then obtain h0 h where hs: "hs = [h0, h]" "refers t s1 h obj" by (auto simp: list_all2_Cons2)
  have b: "bind_java_view_model (ViewModel_setJavaViewModel (map Some hs ! 1) (mv_base mv)) = Some h"
    by (simp add: ViewModel_setJavaViewModel_def hs)
  show "wp (let vm1 = ViewModel_setJavaViewModel (map Some hs ! 1) (mv_base mv)
       in obind (ViewModel_setViewModelAttached qa t True vm1 s1) (\<lambda>(s1, vm2).
          obind (MainViewModel_bind qa fb t vm2 s1) (\<lambda>(s2, _). Inr (s2, vm2))))
     (\<lambda>s2 r. \<exists>n. gained t (vs_jni v) (tag GlobalRef (g_jClassLoader (vs_jni v))) n s2)"
    unfolding Let_def by (rule wp_bind [OF s1(1) assms(2) hs(2) assms(4) b]) blast
qed

lemma nativeUnBind_idle:
  assumes "jni_idle t (vs_jni v)" and "healthy qa" and "vs_models v peer = Some mv"
  shows "\<exists>v'. nativeUnBind qa t this peer v = Inr v' \<and> jni_idle t (vs_jni v')"
  unfolding nativeUnBind_def
  by (rule update_view_idle [OF assms(1,3)], rule jni_idle_call [OF assms(1,2)])
    (auto simp: ViewModel_setViewModelAttached_def Let_def wp_simps)

lemma nativeHandleIntKey_idle:
  assumes "jni_idle t (vs_jni v)" and "healthy qa" and "vs_models v peer = Some mv" and "well_formed_text jc text"
  shows "\<exists>v'. nativeHandleIntKey qa jc t this peer key text v = Inr v' \<and> jni_idle t (vs_jni v')"
  unfolding nativeHandleIntKey_def
proof (rule update_view_idle [OF assms(1,3)], rule jni_idle_call [OF assms(1,2)])
  fix s1 hs assume s1: "gained t (vs_jni v) (tag GlobalRef (g_jClassLoader (vs_jni v))) (length [this, text]) s1"
    "list_all2 (refers t s1) hs [this, text]"
  then obtain h0 h where hs: "hs = [h0, h]" "refers t s1 h text" by (auto simp: list_all2_Cons2)
  obtain ws bs where "jc_chars jc text = Some ws" "UTF16StringToUTF8String ws = Some bs"
    using assms(4) by (auto simp: well_formed_text_def split: option.splits)
  from text_of_given [OF gained_calm [OF s1(1)] hs(2) this] s1(1)
  show "wp (obind (q_JavaStringToString jc t (Some t) (map Some hs ! 1) s1) (\<lambda>(s1, str).
       obind (ViewModel_handle key (c_str str) (mv_base mv) s1) (\<lambda>(s2, _). Inr (s2, mv_base mv))))
     (\<lambda>s2 r. \<exists>n. gained t (vs_jni v) (tag GlobalRef (g_jClassLoader (vs_jni v))) n s2)"
    by (auto simp: hs(1) ViewModel_handle_def wp_simps)
qed

text \<open>A text with an unpaired surrogate throws out of the method.\<close>

lemma nativeHandleIntKey_throws:
  assumes "jni_idle t (vs_jni v)" and "healthy qa" and "vs_models v peer = Some mv"
    and "jc_chars jc text = Some ws" and "UTF16StringToUTF8String ws = None"
  shows "nativeHandleIntKey qa jc t this peer key text v = Inl Range_Error"
proof -
  have "q_ok (vs_jni v) (tag GlobalRef (g_jClassLoader (vs_jni v))) {}" "calm t (vs_jni v)"
    using assms(1) by (simp_all add: jni_idle_def)
  from pass_arguments_gained [OF gained_start [OF this] assms(2), of "[this, text]"] obtain s1 hs where
    s1: "pass_arguments qa t [this, text] (vs_jni v) = (s1, map Some hs)"
    "gained t (vs_jni v) (tag GlobalRef (g_jClassLoader (vs_jni v))) (0 + length [this, text]) s1"
    "list_all2 (refers t s1) hs [this, text]" by auto
  then obtain h0 h where hs: "hs = [h0, h]" "refers t s1 h text" by (auto simp: list_all2_Cons2)
  have "q_JavaStringToString jc t (Some t) (Some h) s1 = Inl Range_Error"
    using gained_calm [OF s1(2)] hs(2) assms(4,5)
    by (auto simp: q_JavaStringToString_def jni_ready_def calm_def deref_def refers_def)
  then show ?thesis
    using assms(3) s1(1) hs(1) by (simp add: nativeHandleIntKey_def update_view_def view_at_def native_call_def)
qed

lemma delete_view_jni:
  "delete_view n exec terminate polls peer v = Some (Inr v') \<Longrightarrow> vs_jni v' = vs_jni v"
  by (auto simp: delete_view_def dbind_eq_Some_Inr split: if_splits)

lemma update_view_live: "update_view peer f v = Inr v' \<Longrightarrow> \<exists>mv. vs_models v peer = Some mv"
  by (auto simp: update_view_def view_at_def obind_eq_Inr split: option.splits)

lemma views_reachable_idle:
  assumes "views_reachable qa jc fb t v" and "healthy qa" and "typed qa"
  shows "jni_idle t (vs_jni v)"
  using assms(1)
proof induction
  case (start g s g' p)
  have r: "qt_inv s" "t \<in> jv_attached (qj_vm s)" "qj_priv s = Map.empty" "strays s = tag GlobalRef (g_jClassLoader s)"
    using wpD [OF JNI_OnLoad_start [OF assms(2,3), of t g]] start by (auto simp: JNI_VERSION_1_6_def JNI_ERR_def)
  then show ?case using qt_invD(1,2) [OF r(1)] by (simp add: jni_idle_def calm_def)
next
  case (create v n print_main print_io v' peer)
  then show ?case by (auto simp: nativeCreate_def obind_eq_Inr)
next
  case (bind v obj m this peer v')
  obtain mv where "vs_models v peer = Some mv" using bind.hyps(3) update_view_live unfolding nativeBind_def by blast
  from nativeBind_idle [OF bind.IH assms(2) this bind.hyps(2), where this = this and fb = fb] bind.hyps(3) show ?case by force
next
  case (unbind v this peer v')
  obtain mv where "vs_models v peer = Some mv" using unbind.hyps(2) update_view_live unfolding nativeUnBind_def by blast
  from nativeUnBind_idle [OF unbind.IH assms(2) this, where this = this] unbind.hyps(2) show ?case by force
next
  case (handle v words this peer key v')
  obtain mv where "vs_models v peer = Some mv" using handle.hyps(3) update_view_live unfolding nativeHandleIntKey_def by blast
  from nativeHandleIntKey_idle [OF handle.IH assms(2) this handle.hyps(2), where this = this and key = key] handle.hyps(3) show ?case by force
next
  case (release v n exec terminate polls peer v' r)
  then show ?case by (auto simp: nativeRelease_def dbind_eq_Some_Inr dest: delete_view_jni)
qed

text \<open>C38: whatever view models Java has made, bound, unbound, asked and released since the library was loaded (bound to objects
  with the methods of a view model, asked with texts that can be converted), the next call of \<open>nativeBind\<close> with such an object or of
  \<open>nativeUnBind\<close> on a view model that is still there returns; the next call of \<open>nativeHandleIntKey\<close> returns exactly if its text can be
  converted, and a text with an unpaired surrogate throws \<open>std::range_error\<close> out of the native method. Between the calls the only reference
  that the native code keeps alive in the virtual machine is that of the class loader. Java's answers are typed, and the virtual machine has
  memory and can attach the thread.\<close>

theorem native_methods_return:
  assumes "views_reachable qa jc fb t v" and "healthy qa" and "typed qa" and "vs_models v peer = Some mv" and "view_class qa obj m"
    and "jc_chars jc text = Some ws"
  shows "(\<exists>v'. nativeBind qa fb t this peer obj v = Inr v') \<and> (\<exists>v'. nativeUnBind qa t this peer v = Inr v') \<and>
    (if UTF16StringToUTF8String ws = None then nativeHandleIntKey qa jc t this peer key text v = Inl Range_Error
     else \<exists>v'. nativeHandleIntKey qa jc t this peer key text v = Inr v') \<and>
    dom (jv_refs (qj_vm (vs_jni v))) = set_option (g_jClassLoader (vs_jni v))"
proof -
  note i = views_reachable_idle [OF assms(1-3)]
  have h: "\<exists>v'. nativeHandleIntKey qa jc t this peer key text v = Inr v'" if "UTF16StringToUTF8String ws \<noteq> None"
    using nativeHandleIntKey_idle [OF i assms(2,4), of jc "text" this key] assms(6) that by (auto simp: well_formed_text_def)
  show ?thesis
  proof (intro conjI)
    show "\<exists>v'. nativeBind qa fb t this peer obj v = Inr v'" using nativeBind_idle [OF i assms(2,4,5)] by blast
    show "\<exists>v'. nativeUnBind qa t this peer v = Inr v'" using nativeUnBind_idle [OF i assms(2,4)] by blast
    show "if UTF16StringToUTF8String ws = None then nativeHandleIntKey qa jc t this peer key text v = Inl Range_Error
      else \<exists>v'. nativeHandleIntKey qa jc t this peer key text v = Inr v'"
      using nativeHandleIntKey_throws [OF i assms(2,4,6)] h by simp
    show "dom (jv_refs (qj_vm (vs_jni v))) = set_option (g_jClassLoader (vs_jni v))" by (rule jni_idle_refs [OF i])
  qed
qed

subsection \<open>A view model to try it on\<close>

definition demo_views :: qt_java where
  "demo_views = demo_java\<lparr>
     qa_method := (\<lambda>c name signature static. if signature = ''(Z)V'' then Some 10 else if signature = ''(ILjava/lang/String;)V'' then Some 11
       else if signature = ''([B)V'' then Some 12 else if signature = ''()V'' then Some 13 else qa_method demo_java c name signature static),
     qa_method_type := (\<lambda>mid. if 10 \<le> mid then jvoid else qa_method_type demo_java mid)\<rparr>"

definition demo_methods :: view_methods where
  "demo_methods = \<lparr>vm_setViewModelAttached = 10, vm_setProp = 11, vm_showLoading = 12, vm_hiddenLoading = 13\<rparr>"

definition demo_generated :: generated where
  "demo_generated = \<lparr>fb_loading = rev, fb_toast = (\<lambda>bs. 0 # bs), Property_SHOW_TOAST = 1, Property_UI_DATA = 2, new_byte_array = (\<lambda>cs bs. 50 + length cs)\<rparr>"

definition demo_executor :: ArchTaskExecutor where
  "demo_executor =
     \<lparr>ae_thread_host = \<lparr>ho_name_prefix = [], ho_platform_thread = None, ho_ui_thread = None, ho_raster_thread = None, ho_io_thread = None,
        ho_profiler_thread = None\<rparr>,
      ae_default_task_executor = DefaultTaskExecutor_Create 0 (TaskRunners_new [] None None None None)\<rparr>"

definition demo_view :: "nat views" where
  "demo_view = \<lparr>vs_jni = demo_frame, vs_process = sample_process,
     vs_models = [7 \<mapsto> \<lparr>mv_base = ViewModel_new, arch_task_executor = demo_executor\<rparr>], vs_next = 8\<rparr>"

lemma demo_views_ok: "healthy demo_views" "typed demo_views" "view_class demo_views 30 demo_methods"
proof -
  show "healthy demo_views" by (simp add: healthy_def works_def demo_views_def demo_java_def)
  have r: "descriptor_type (return_descriptor ''(Z)V'') = jvoid" "descriptor_type (return_descriptor ''(ILjava/lang/String;)V'') = jvoid"
    "descriptor_type (return_descriptor ''([B)V'') = jvoid" "descriptor_type (return_descriptor ''()V'') = jvoid"
    by (simp_all add: return_descriptor_def descriptor_type_def)
  have small: "mid < 10" if "qa_method demo_java c name signature static = Some mid" for c name signature static mid
    using that by (auto simp: demo_java_def split: if_splits)
  show "typed demo_views"
    unfolding typed_def
  proof (intro conjI allI impI)
    fix c name signature static mid
    assume q: "qa_method demo_views c name signature static = Some mid"
    consider "signature \<in> {''(Z)V'', ''(ILjava/lang/String;)V'', ''([B)V'', ''()V''}" "10 \<le> mid"
      | "qa_method demo_java c name signature static = Some mid" using q by (simp add: demo_views_def split: if_splits)
    then show "qa_method_type demo_views mid = descriptor_type (return_descriptor signature)"
    proof cases
      case 1 with r show ?thesis by (auto simp: demo_views_def)
    next
      case 2 with typedD(1) [OF demo_typed 2] small [OF 2] show ?thesis by (simp add: demo_views_def)
    qed
  next
    fix c name signature static fid assume "qa_field demo_views c name signature static = Some fid"
    then show "qa_field_type demo_views fid = descriptor_type signature"
      using typedD(2) [OF demo_typed, of c name signature static fid] by (simp add: demo_views_def)
  qed
  show "view_class demo_views 30 demo_methods" by (simp add: view_class_def has_void_def demo_views_def demo_methods_def)
qed

theorem nativeBind_correct_witness:
  "\<exists>v'. nativeBind demo_views demo_generated 0 40 7 30 demo_view = Inr v' \<and>
     qj_calls (vs_jni v') = bind_calls demo_views demo_generated demo_methods 30 [] \<and>
     ViewModel_hiddenLoading demo_views 0 (mv_base (the (vs_models v' 7))) (vs_jni v') = Inl Undefined_Behaviour"
proof -
  have v: "vs_jni demo_view = demo_frame" "qj_calls demo_frame = []"
    "vs_models demo_view 7 = Some \<lparr>mv_base = ViewModel_new, arch_task_executor = demo_executor\<rparr>"
    by (simp_all add: demo_view_def demo_frame_def)
  show ?thesis
    using nativeBind_correct [where v = demo_view and t = 0 and R = "{(0, LocalRef 0), (1, LocalRef 0)}", unfolded v(1),
        OF demo_frame_ok(1,2) demo_views_ok(1) v(3) demo_views_ok(3), where this = 40 and fb = demo_generated] v(2) by auto
qed

lemma demo_views_started:
  "views_reachable demo_views demo_contents demo_generated 0 \<lparr>vs_jni = demo_loaded, vs_process = sample_process, vs_models = Map.empty, vs_next = 1\<rparr>"
proof (rule views_reachable.start)
  show "JNI_OnLoad demo_views 0 g (qt_start 0) = Inr (demo_loaded, JNI_VERSION_1_6, SetLogSettings (g\<lparr>min_log_level := LOG_INFO\<rparr>) g)" for g
    by (simp add: jni_run JNI_OnLoad_def initJNI_def env_FindClass_def ask_class_loader_def keep_class_loader_def qt_start_def
      demo_views_def demo_java_def demo_loaded_def demo_state_def demo_vm_def fun_upd_twist numeral_2_eq_2)
qed

lemma sample_view_model: "\<exists>p ae. MainViewModel_new sample_ndk 0 70 71 sample_process = Inr (p, ae)"
proof -
  have "ndk_ok sample_ndk" "(0 :: nat) < pr_next_thread sample_process" "w_tls_message_loop (pr_world sample_process) 0 = None"
    by (simp_all add: ndk_ok_def sample_ndk_def sample_process_def)
  with MainViewModel_new_posts [OF _ sample_process_ok, of sample_ndk 0 70 71] show ?thesis by auto
qed

theorem native_methods_return_witness:
  "\<exists>v peer v1 v2. nativeCreate sample_ndk 0 70 71
       \<lparr>vs_jni = demo_loaded, vs_process = sample_process, vs_models = Map.empty, vs_next = 1\<rparr> = Inr (v, peer) \<and>
     nativeBind demo_views demo_generated 0 40 peer 30 v = Inr v1 \<and>
     nativeHandleIntKey demo_views demo_contents 0 40 peer 1 20 v = Inr v2 \<and> dom (jv_refs (qj_vm (vs_jni v))) = {2}"
proof -
  let ?start = "\<lparr>vs_jni = demo_loaded, vs_process = sample_process, vs_models = Map.empty, vs_next = 1\<rparr> :: nat views"
  obtain p ae where m: "MainViewModel_new sample_ndk 0 70 71 sample_process = Inr (p, ae)" using sample_view_model by blast
  let ?mv = "\<lparr>mv_base = ViewModel_new, arch_task_executor = ae\<rparr>"
  let ?v = "\<lparr>vs_jni = demo_loaded, vs_process = p, vs_models = [1 \<mapsto> ?mv], vs_next = 2\<rparr>"
  have c: "nativeCreate sample_ndk 0 70 71 ?start = Inr (?v, 1)" using m by (simp add: nativeCreate_def)
  have s: "vs_models ?v 1 = Some ?mv" by simp
  have w: "jc_chars demo_contents 20 = Some [65, 65]" "UTF16StringToUTF8String [65, 65] \<noteq> None"
    by (simp_all add: demo_contents_def UTF16StringToUTF8String_def to_bytes_def utf8_bytes_def byte_of_def surrogate_def)
  have l: "g_jClassLoader demo_loaded = Some 2" by (simp add: demo_loaded_def demo_state_def)
  note r = native_methods_return [OF views_reachable.create [OF demo_views_started c] demo_views_ok(1,2) s demo_views_ok(3) w(1),
      where this = 40 and key = 1]
  obtain v1 where v1: "nativeBind demo_views demo_generated 0 40 1 30 ?v = Inr v1" using r by blast
  obtain v2 where v2: "nativeHandleIntKey demo_views demo_contents 0 40 1 1 20 ?v = Inr v2" using r w(2) by auto
  have d: "dom (jv_refs (qj_vm (vs_jni ?v))) = {2}" using r l by simp
  show ?thesis by (intro exI conjI, rule c, rule v1, rule v2, rule d)
qed

end
