(* ===== verification/Looper_Scheduler.thy ===== *)
theory Looper_Scheduler
  imports Env_Prelude
begin

unbundle bit_operations_syntax

section \<open>The scheduler on a looper\<close>

text \<open>
  \<open>app/src/main/cpp/android/scheduler.hpp\<close>, an adapted copy of a scheduler of Realm: functions that any thread
  hands in run on the thread of an \<open>ALooper\<close>, which is woken through a pipe. The looper keeps the bare address of
  the scheduler, so the callback looks the address up among the live schedulers before it takes a reference.
  The queue of functions is a class that the repository does not have, and is a parameter. \<open>ALooper\<close>, pipes and
  reference counts are explicit; what the kernel and the looper answer is a parameter. Operations are
  divided where another thread can come between: at the end of a critical section and around each system call.
\<close>

subsection \<open>State\<close>

record ('q, 'f) invocation_queue =
  iq_empty :: 'q
  iq_push :: "'f \<Rightarrow> 'q \<Rightarrow> 'q"
  iq_invoke_all :: "'q \<Rightarrow> 'q \<times> 'f list"

record 'q ALooperScheduler =
  as_queue :: 'q
  as_looper :: "nat option"
  as_thread :: nat
  as_initialized :: bool
  as_read :: int
  as_write :: int

text \<open>Where a callback stands: it is about to look the scheduler up, has a reference to it, has read the pipe.\<close>

datatype stage = Delivered | Found | Cleared

record callback =
  cb_stage :: stage
  cb_fd :: int
  cb_events :: "32 word"

text \<open>
  The ends of pipes by descriptor (the pipe, and whether it is the end to write), the bytes in each pipe, and what
  the looper watches. For each address: the object, its strong references, the threads that have pushed a function
  but not yet written to the pipe, the callback in flight (a looper runs one at a time), and two histories, the
  functions pushed and called since the object was constructed.
\<close>

record ('q, 'f) looper_world =
  lw_ends :: "int \<rightharpoonup> nat \<times> bool"
  lw_nonblocking :: "int set"
  lw_bytes :: "nat \<Rightarrow> nat"
  lw_next_pipe :: nat
  lw_registered :: "int \<rightharpoonup> nat"
  s_live_schedulers :: "nat list"
  lw_objects :: "nat \<rightharpoonup> 'q ALooperScheduler"
  lw_strong :: "nat \<Rightarrow> nat"
  lw_notifying :: "nat \<Rightarrow> nat"
  lw_callback :: "nat \<rightharpoonup> callback"
  lw_pushed :: "nat \<Rightarrow> 'f list"
  lw_called :: "nat \<Rightarrow> 'f list"

text \<open>What \<open>pipe\<close>, \<open>fcntl\<close> and \<open>ALooper_addFd\<close> answer.\<close>

record looper_answers =
  la_pipe :: "(int \<times> int) option"
  la_fcntl :: "int \<Rightarrow> bool"
  la_addFd :: int

definition EBADF :: nat where "EBADF = 9"

definition EAGAIN :: nat where "EAGAIN = 11"

definition ALOOPER_EVENT_INPUT :: "32 word" where "ALOOPER_EVENT_INPUT = 1"

definition ALOOPER_EVENT_HANGUP :: "32 word" where "ALOOPER_EVENT_HANGUP = 8"

subsection \<open>Pipes\<close>

definition open_pipe :: "int \<Rightarrow> int \<Rightarrow> ('q, 'f) looper_world \<Rightarrow> ('q, 'f) looper_world" where
  "open_pipe r wr w =
     w\<lparr>lw_ends := (lw_ends w)(r \<mapsto> (lw_next_pipe w, False), wr \<mapsto> (lw_next_pipe w, True)),
       lw_nonblocking := lw_nonblocking w - {r, wr}, lw_bytes := (lw_bytes w)(lw_next_pipe w := 0),
       lw_next_pipe := lw_next_pipe w + 1\<rparr>"

definition close_end :: "int \<Rightarrow> ('q, 'f) looper_world \<Rightarrow> ('q, 'f) looper_world" where
  "close_end fd w = w\<lparr>lw_ends := (lw_ends w)(fd := None)\<rparr>"

definition set_nonblocking :: "int \<Rightarrow> ('q, 'f) looper_world \<Rightarrow> ('q, 'f) looper_world" where
  "set_nonblocking fd w = w\<lparr>lw_nonblocking := insert fd (lw_nonblocking w)\<rparr>"

text \<open>\<open>write\<close> of one byte: the byte is in the pipe, or there is an \<open>errno\<close>, or the thread waits for room.\<close>

datatype ('q, 'f) written = Wrote "('q, 'f) looper_world" | Errno nat | Blocks

definition write_byte :: "nat \<Rightarrow> int \<Rightarrow> ('q, 'f) looper_world \<Rightarrow> ('q, 'f) written" where
  "write_byte capacity fd w =
     (case lw_ends w fd of
        Some (p, True) \<Rightarrow>
          if lw_bytes w p < capacity then Wrote (w\<lparr>lw_bytes := (lw_bytes w)(p := lw_bytes w p + 1)\<rparr>)
          else if fd \<in> lw_nonblocking w then Errno EAGAIN else Blocks
      | _ \<Rightarrow> Errno EBADF)"

text \<open>\<open>notify_fd\<close>; it throws \<open>std::system_error\<close> for any error but a full pipe.\<close>

datatype ('q, 'f) notified = Notified "('q, 'f) looper_world" | System_Error nat | Waits

definition notify_fd :: "nat \<Rightarrow> int \<Rightarrow> ('q, 'f) looper_world \<Rightarrow> ('q, 'f) notified" where
  "notify_fd capacity write_fd w =
     (case write_byte capacity write_fd w of
        Wrote w1 \<Rightarrow> Notified w1
      | Errno err \<Rightarrow> if err \<noteq> EAGAIN then System_Error err else Notified w
      | Blocks \<Rightarrow> Waits)"

subsection \<open>\<open>ALooperScheduler\<close>\<close>

definition ALooperScheduler_new :: "('q, 'f) invocation_queue \<Rightarrow> nat option \<Rightarrow> nat \<Rightarrow> 'q ALooperScheduler" where
  "ALooperScheduler_new iq looper self =
     \<lparr>as_queue = iq_empty iq, as_looper = looper, as_thread = self, as_initialized = False, as_read = -1, as_write = -1\<rparr>"

definition ALooperScheduler_can_invoke :: "'q ALooperScheduler \<Rightarrow> bool" where
  "ALooperScheduler_can_invoke s = True"

definition ALooperScheduler_is_on_thread :: "nat \<Rightarrow> 'q ALooperScheduler \<Rightarrow> bool" where
  "ALooperScheduler_is_on_thread self s \<longleftrightarrow> as_thread s = self"

text \<open>The argument is \<open>None\<close> for a scheduler of another class.\<close>

definition ALooperScheduler_is_same_as :: "'q ALooperScheduler option \<Rightarrow> 'q ALooperScheduler \<Rightarrow> bool" where
  "ALooperScheduler_is_same_as other s = (case other of None \<Rightarrow> False | Some oth \<Rightarrow> as_thread oth = as_thread s)"

definition put_scheduler :: "nat \<Rightarrow> 'q ALooperScheduler \<Rightarrow> ('q, 'f) looper_world \<Rightarrow> ('q, 'f) looper_world" where
  "put_scheduler a s w = w\<lparr>lw_objects := (lw_objects w)(a \<mapsto> s)\<rparr>"

text \<open>\<open>init\<close>; the flag has no lock, so one thread at a time may be in it.\<close>

definition ALooperScheduler_init ::
  "looper_answers \<Rightarrow> nat \<Rightarrow> 'q ALooperScheduler \<Rightarrow> ('q, 'f) looper_world \<Rightarrow> ('q, 'f) looper_world \<times> 'q ALooperScheduler" where
  "ALooperScheduler_init la this s w =
     (if as_initialized s then (w, s)
      else
        let s1 = s\<lparr>as_initialized := True\<rparr>;
            w1 = w\<lparr>s_live_schedulers := s_live_schedulers w @ [this]\<rparr>
        in case la_pipe la of
             None \<Rightarrow> (w1, s1)
           | Some (r, wr) \<Rightarrow>
               let w2 = open_pipe r wr w1;
                   w3 = (if la_fcntl la r
                         then let w' = set_nonblocking r w2 in if la_fcntl la wr then set_nonblocking wr w' else w'
                         else w2)
               in if la_addFd la \<noteq> 1 then (close_end wr (close_end r w3), s1)
                  else (w3\<lparr>lw_registered := (lw_registered w3)(r \<mapsto> this)\<rparr>, s1\<lparr>as_read := r, as_write := wr\<rparr>))"

text \<open>\<open>invoke\<close> up to the push; the answer says whether the pipe is to be written.\<close>

definition ALooperScheduler_invoke ::
  "('q, 'f) invocation_queue \<Rightarrow> looper_answers \<Rightarrow> nat \<Rightarrow> 'f \<Rightarrow> ('q, 'f) looper_world \<Rightarrow> (('q, 'f) looper_world \<times> bool) outcome" where
  "ALooperScheduler_invoke iq la this fn w =
     (case lw_objects w this of
        None \<Rightarrow> Inl Undefined_Behaviour
      | Some s \<Rightarrow>
          if as_looper s = None then Inr (w, False)
          else
            let (w1, s1) = ALooperScheduler_init la this s w
            in Inr ((put_scheduler this (s1\<lparr>as_queue := iq_push iq fn (as_queue s1)\<rparr>) w1)
                      \<lparr>lw_pushed := (lw_pushed w1)(this := lw_pushed w1 this @ [fn])\<rparr>, True))"

text \<open>The end of \<open>invoke\<close>.\<close>

definition ALooperScheduler_notify :: "nat \<Rightarrow> nat \<Rightarrow> ('q, 'f) looper_world \<Rightarrow> ('q, 'f) notified outcome" where
  "ALooperScheduler_notify capacity this w =
     (case lw_objects w this of None \<Rightarrow> Inl Undefined_Behaviour | Some s \<Rightarrow> Inr (notify_fd capacity (as_write s) w))"

text \<open>The destructor, up to the lock and from there.\<close>

definition ALooperScheduler_close :: "'q ALooperScheduler \<Rightarrow> ('q, 'f) looper_world \<Rightarrow> ('q, 'f) looper_world" where
  "ALooperScheduler_close s w =
     (if as_looper s = None then w
      else if as_initialized s
      then close_end (as_read s) (close_end (as_write s) (w\<lparr>lw_registered := (lw_registered w)(as_read s := None)\<rparr>))
      else w)"

definition ALooperScheduler_forget :: "nat \<Rightarrow> 'q ALooperScheduler \<Rightarrow> ('q, 'f) looper_world \<Rightarrow> ('q, 'f) looper_world" where
  "ALooperScheduler_forget this s w =
     (let w1 = (if as_looper s \<noteq> None \<and> as_initialized s
                then w\<lparr>s_live_schedulers := filter (\<lambda>a. a \<noteq> this) (s_live_schedulers w)\<rparr> else w)
      in w1\<lparr>lw_objects := (lw_objects w1)(this := None)\<rparr>)"

subsection \<open>\<open>looper_callback\<close>\<close>

text \<open>The lookup under the lock: nothing (\<open>None\<close>) when \<open>shared_from_this\<close> throws \<open>std::bad_weak_ptr\<close>, and
  otherwise the world and whether there is a reference.\<close>

definition looper_callback_find :: "nat \<Rightarrow> ('q, 'f) looper_world \<Rightarrow> (('q, 'f) looper_world \<times> bool) option outcome" where
  "looper_callback_find data w =
     (if data \<in> set (s_live_schedulers w)
      then if lw_objects w data = None then Inl Undefined_Behaviour
           else if lw_strong w data = 0 then Inr None
           else Inr (Some (w\<lparr>lw_strong := (lw_strong w)(data := lw_strong w data + 1)\<rparr>, True))
      else Inr (Some (w, False)))"

text \<open>\<open>read(fd, buff.data(), 1024)\<close>; a blocking read of an empty pipe does not return (\<open>None\<close>).\<close>

definition looper_callback_read :: "int \<Rightarrow> ('q, 'f) looper_world \<Rightarrow> ('q, 'f) looper_world option" where
  "looper_callback_read fd w =
     (case lw_ends w fd of
        Some (p, False) \<Rightarrow>
          if lw_bytes w p = 0 \<and> fd \<notin> lw_nonblocking w then None
          else Some (w\<lparr>lw_bytes := (lw_bytes w)(p := lw_bytes w p - min (lw_bytes w p) 1024)\<rparr>)
      | _ \<Rightarrow> Some w)"

definition looper_callback_run :: "('q, 'f) invocation_queue \<Rightarrow> nat \<Rightarrow> ('q, 'f) looper_world \<Rightarrow> ('q, 'f) looper_world outcome" where
  "looper_callback_run iq data w =
     (case lw_objects w data of
        None \<Rightarrow> Inl Undefined_Behaviour
      | Some s \<Rightarrow>
          let (q, fns) = iq_invoke_all iq (as_queue s)
          in Inr ((put_scheduler data (s\<lparr>as_queue := q\<rparr>) w)\<lparr>lw_called := (lw_called w)(data := lw_called w data @ fns)\<rparr>))"

text \<open>The looper stops watching the descriptor when the callback returns 0.\<close>

definition looper_callback_result :: "32 word \<Rightarrow> int" where
  "looper_callback_result events = (if events AND ALOOPER_EVENT_HANGUP \<noteq> 0 then 0 else 1)"

definition looper_callback_return :: "nat \<Rightarrow> callback \<Rightarrow> ('q, 'f) looper_world \<Rightarrow> ('q, 'f) looper_world" where
  "looper_callback_return data cb w =
     (let w1 = w\<lparr>lw_callback := (lw_callback w)(data := None)\<rparr>
      in if looper_callback_result (cb_events cb) = 0
         then w1\<lparr>lw_registered := (lw_registered w1)(cb_fd cb := None)\<rparr> else w1)"

subsection \<open>Interleavings\<close>

definition in_flight :: "nat \<Rightarrow> ('q, 'f) looper_world \<Rightarrow> nat" where
  "in_flight a w = lw_notifying w a +
     (case lw_callback w a of None \<Rightarrow> 0 | Some cb \<Rightarrow> if cb_stage cb = Delivered then 0 else 1)"

definition looper_start :: "('q, 'f) looper_world" where
  "looper_start =
     \<lparr>lw_ends = Map.empty, lw_nonblocking = {}, lw_bytes = (\<lambda>p. 0), lw_next_pipe = 0, lw_registered = Map.empty,
      s_live_schedulers = [], lw_objects = Map.empty, lw_strong = (\<lambda>a. 0), lw_notifying = (\<lambda>a. 0), lw_callback = Map.empty,
      lw_pushed = (\<lambda>a. []), lw_called = (\<lambda>a. [])\<rparr>"

text \<open>Descriptors that the kernel hands out are not in use.\<close>

definition answers_ok :: "looper_answers \<Rightarrow> ('q, 'f) looper_world \<Rightarrow> bool" where
  "answers_ok la w \<longleftrightarrow>
     (case la_pipe la of None \<Rightarrow> True | Some (r, wr) \<Rightarrow> 0 \<le> r \<and> 0 \<le> wr \<and> r \<noteq> wr \<and> lw_ends w r = None \<and> lw_ends w wr = None)"

text \<open>
  A thread that invokes has a reference to the scheduler, and so has a callback that has found it; other
  references may be released at any time. The destructor runs when the last one goes. An address is not given to a new
  object while a callback for it is in flight (the false positive that the source speaks of), and the events
  are the looper's: there is input only if the pipe is not empty, and a hang-up only if nobody can write to it.
\<close>

inductive looper_step ::
  "('q, 'f) invocation_queue \<Rightarrow> nat \<Rightarrow> ('q, 'f) looper_world \<Rightarrow> ('q, 'f) looper_world \<Rightarrow> bool" for iq capacity where
  construct: "lw_objects w a = None \<Longrightarrow> lw_callback w a = None \<Longrightarrow>
    looper_step iq capacity w ((put_scheduler a (ALooperScheduler_new iq looper self) w)
      \<lparr>lw_strong := (lw_strong w)(a := 1), lw_pushed := (lw_pushed w)(a := []), lw_called := (lw_called w)(a := [])\<rparr>)"
| share: "0 < lw_strong w a \<Longrightarrow> looper_step iq capacity w (w\<lparr>lw_strong := (lw_strong w)(a := lw_strong w a + 1)\<rparr>)"
| invoke: "in_flight a w < lw_strong w a \<Longrightarrow> answers_ok la w \<Longrightarrow> ALooperScheduler_invoke iq la a fn w = Inr (w1, True) \<Longrightarrow>
    looper_step iq capacity w (w1\<lparr>lw_notifying := (lw_notifying w1)(a := lw_notifying w1 a + 1)\<rparr>)"
| invoke_nowhere: "in_flight a w < lw_strong w a \<Longrightarrow> ALooperScheduler_invoke iq la a fn w = Inr (w1, False) \<Longrightarrow>
    looper_step iq capacity w w1"
| notify: "0 < lw_notifying w a \<Longrightarrow> ALooperScheduler_notify capacity a w = Inr (Notified w1) \<Longrightarrow>
    looper_step iq capacity w (w1\<lparr>lw_notifying := (lw_notifying w1)(a := lw_notifying w1 a - 1)\<rparr>)"
| notify_throws: "0 < lw_notifying w a \<Longrightarrow> ALooperScheduler_notify capacity a w = Inr (System_Error err) \<Longrightarrow>
    looper_step iq capacity w (w\<lparr>lw_notifying := (lw_notifying w)(a := lw_notifying w a - 1)\<rparr>)"
| release: "in_flight a w < lw_strong w a \<Longrightarrow> 1 < lw_strong w a \<Longrightarrow>
    looper_step iq capacity w (w\<lparr>lw_strong := (lw_strong w)(a := lw_strong w a - 1)\<rparr>)"
| destroy: "in_flight a w = 0 \<Longrightarrow> lw_strong w a = 1 \<Longrightarrow> lw_objects w a = Some s \<Longrightarrow>
    looper_step iq capacity w (ALooperScheduler_close s (w\<lparr>lw_strong := (lw_strong w)(a := 0)\<rparr>))"
| forget: "lw_strong w a = 0 \<Longrightarrow> lw_objects w a = Some s \<Longrightarrow> looper_step iq capacity w (ALooperScheduler_forget a s w)"
| deliver: "lw_registered w fd = Some a \<Longrightarrow> lw_callback w a = None \<Longrightarrow> lw_ends w fd = Some (p, False) \<Longrightarrow>
    (events AND ALOOPER_EVENT_INPUT \<noteq> 0 \<Longrightarrow> 0 < lw_bytes w p) \<Longrightarrow>
    (events AND ALOOPER_EVENT_HANGUP \<noteq> 0 \<Longrightarrow> (p, True) \<notin> ran (lw_ends w)) \<Longrightarrow>
    looper_step iq capacity w (w\<lparr>lw_callback := (lw_callback w)(a \<mapsto> \<lparr>cb_stage = Delivered, cb_fd = fd, cb_events = events\<rparr>)\<rparr>)"
| no_input: "lw_callback w a = Some cb \<Longrightarrow> cb_stage cb = Delivered \<Longrightarrow> cb_events cb AND ALOOPER_EVENT_INPUT = 0 \<Longrightarrow>
    looper_step iq capacity w (looper_callback_return a cb w)"
| gone: "lw_callback w a = Some cb \<Longrightarrow> cb_stage cb = Delivered \<Longrightarrow> cb_events cb AND ALOOPER_EVENT_INPUT \<noteq> 0 \<Longrightarrow>
    looper_callback_find a w = Inr (Some (w1, False)) \<Longrightarrow> looper_step iq capacity w (looper_callback_return a cb w1)"
| found: "lw_callback w a = Some cb \<Longrightarrow> cb_stage cb = Delivered \<Longrightarrow> cb_events cb AND ALOOPER_EVENT_INPUT \<noteq> 0 \<Longrightarrow>
    looper_callback_find a w = Inr (Some (w1, True)) \<Longrightarrow>
    looper_step iq capacity w (w1\<lparr>lw_callback := (lw_callback w1)(a \<mapsto> cb\<lparr>cb_stage := Found\<rparr>)\<rparr>)"
| read: "lw_callback w a = Some cb \<Longrightarrow> cb_stage cb = Found \<Longrightarrow> looper_callback_read (cb_fd cb) w = Some w1 \<Longrightarrow>
    looper_step iq capacity w (w1\<lparr>lw_callback := (lw_callback w1)(a \<mapsto> cb\<lparr>cb_stage := Cleared\<rparr>)\<rparr>)"
| run: "lw_callback w a = Some cb \<Longrightarrow> cb_stage cb = Cleared \<Longrightarrow> looper_callback_run iq a w = Inr w1 \<Longrightarrow>
    looper_step iq capacity w (looper_callback_return a cb w1)"

inductive looper_reachable :: "('q, 'f) invocation_queue \<Rightarrow> nat \<Rightarrow> ('q, 'f) looper_world \<Rightarrow> bool" for iq capacity where
  start: "looper_reachable iq capacity looper_start"
| step: "looper_reachable iq capacity w \<Longrightarrow> looper_step iq capacity w w' \<Longrightarrow> looper_reachable iq capacity w'"

text \<open>What the code needs of the queue: it keeps the functions in order, and \<open>invoke_all\<close> calls all of them.\<close>

definition invocation_queue_ok :: "('q, 'f) invocation_queue \<Rightarrow> ('q \<Rightarrow> 'f list) \<Rightarrow> bool" where
  "invocation_queue_ok iq pending \<longleftrightarrow>
     pending (iq_empty iq) = [] \<and> (\<forall>fn q. pending (iq_push iq fn q) = pending q @ [fn]) \<and>
     (\<forall>q. snd (iq_invoke_all iq q) = pending q \<and> pending (fst (iq_invoke_all iq q)) = [])"

subsection \<open>The invariant\<close>

text \<open>A scheduler whose pipe is open and watched.\<close>

definition wired :: "nat \<Rightarrow> 'q ALooperScheduler \<Rightarrow> nat \<Rightarrow> ('q, 'f) looper_world \<Rightarrow> bool" where
  "wired a s p w \<longleftrightarrow>
     lw_ends w (as_read s) = Some (p, False) \<and> lw_ends w (as_write s) = Some (p, True) \<and> lw_registered w (as_read s) = Some a"

definition woken :: "nat \<Rightarrow> nat \<Rightarrow> ('q, 'f) looper_world \<Rightarrow> bool" where
  "woken a p w \<longleftrightarrow> 0 < lw_bytes w p \<or> 0 < lw_notifying w a \<or> map_option cb_stage (lw_callback w a) = Some Cleared"

definition scheduler_ok :: "('q \<Rightarrow> 'f list) \<Rightarrow> nat \<Rightarrow> 'q ALooperScheduler \<Rightarrow> ('q, 'f) looper_world \<Rightarrow> bool" where
  "scheduler_ok pending a s w \<longleftrightarrow>
     (as_read s = -1 \<longleftrightarrow> as_write s = -1) \<and> (as_write s \<noteq> -1 \<longrightarrow> as_initialized s) \<and>
     (as_initialized s \<longrightarrow> as_looper s \<noteq> None) \<and> (\<not> as_initialized s \<longrightarrow> lw_pushed w a = []) \<and>
     (as_write s = -1 \<longrightarrow> lw_called w a = []) \<and> lw_called w a @ pending (as_queue s) = lw_pushed w a \<and>
     (0 < lw_strong w a \<longrightarrow> as_write s \<noteq> -1 \<longrightarrow> (\<exists>p. wired a s p w \<and> (pending (as_queue s) \<noteq> [] \<longrightarrow> woken a p w)))"

definition callback_ok :: "nat \<Rightarrow> callback \<Rightarrow> ('q, 'f) looper_world \<Rightarrow> bool" where
  "callback_ok a cb w \<longleftrightarrow>
     cb_events cb AND ALOOPER_EVENT_HANGUP = 0 \<and>
     (0 < lw_strong w a \<longrightarrow>
       (\<exists>s p. lw_objects w a = Some s \<and> cb_fd cb = as_read s \<and> wired a s p w \<and>
          (cb_stage cb = Cleared \<or> cb_stage cb = Delivered \<and> cb_events cb AND ALOOPER_EVENT_INPUT = 0 \<or> 0 < lw_bytes w p)))"

definition looper_inv :: "('q \<Rightarrow> 'f list) \<Rightarrow> ('q, 'f) looper_world \<Rightarrow> bool" where
  "looper_inv pending w \<longleftrightarrow>
     (\<forall>a s. lw_objects w a = Some s \<longrightarrow> scheduler_ok pending a s w) \<and>
     (\<forall>a cb. lw_callback w a = Some cb \<longrightarrow> callback_ok a cb w) \<and>
     (\<forall>a. a \<in> set (s_live_schedulers w) \<longleftrightarrow> (\<exists>s. lw_objects w a = Some s \<and> as_initialized s)) \<and>
     (\<forall>a. 0 < lw_strong w a \<longrightarrow> lw_objects w a \<noteq> None) \<and> (\<forall>a. in_flight a w \<le> lw_strong w a) \<and>
     lw_ends w (-1) = None \<and> (\<forall>fd p b. lw_ends w fd = Some (p, b) \<longrightarrow> p < lw_next_pipe w) \<and>
     (\<forall>fd fd' x. lw_ends w fd = Some x \<longrightarrow> lw_ends w fd' = Some x \<longrightarrow> fd = fd') \<and>
     (\<forall>fd a. lw_registered w fd = Some a \<longrightarrow>
        0 < lw_strong w a \<and> (\<exists>s. lw_objects w a = Some s \<and> as_read s = fd \<and> as_write s \<noteq> -1))"

lemma looper_invD:
  assumes "looper_inv pending w"
  shows "lw_objects w a = Some s \<Longrightarrow> scheduler_ok pending a s w"
    and "lw_callback w a = Some cb \<Longrightarrow> callback_ok a cb w"
    and "a \<in> set (s_live_schedulers w) \<longleftrightarrow> (\<exists>s. lw_objects w a = Some s \<and> as_initialized s)"
    and "0 < lw_strong w a \<Longrightarrow> \<exists>s. lw_objects w a = Some s"
    and "in_flight a w \<le> lw_strong w a" and "lw_ends w (-1) = None" and "lw_ends w fd = Some (p, b) \<Longrightarrow> p < lw_next_pipe w"
    and "lw_ends w fd = Some x \<Longrightarrow> lw_ends w fd' = Some x \<Longrightarrow> fd = fd'"
    and "lw_registered w fd = Some a \<Longrightarrow> 0 < lw_strong w a \<and> (\<exists>s. lw_objects w a = Some s \<and> as_read s = fd \<and> as_write s \<noteq> -1)"
  using assms unfolding looper_inv_def by blast+

lemma looper_invI:
  assumes "\<And>a s. lw_objects w a = Some s \<Longrightarrow> scheduler_ok pending a s w"
    and "\<And>a cb. lw_callback w a = Some cb \<Longrightarrow> callback_ok a cb w"
    and "\<And>a. a \<in> set (s_live_schedulers w) \<longleftrightarrow> (\<exists>s. lw_objects w a = Some s \<and> as_initialized s)"
    and "\<And>a. 0 < lw_strong w a \<Longrightarrow> lw_objects w a \<noteq> None"
    and "\<And>a. in_flight a w \<le> lw_strong w a" and "lw_ends w (-1) = None" and "\<And>fd p b. lw_ends w fd = Some (p, b) \<Longrightarrow> p < lw_next_pipe w"
    and "\<And>fd fd' x. lw_ends w fd = Some x \<Longrightarrow> lw_ends w fd' = Some x \<Longrightarrow> fd = fd'"
    and "\<And>fd a. lw_registered w fd = Some a \<Longrightarrow> 0 < lw_strong w a \<and> (\<exists>s. lw_objects w a = Some s \<and> as_read s = fd \<and> as_write s \<noteq> -1)"
  shows "looper_inv pending w"
  using assms unfolding looper_inv_def by blast

lemma looper_inv_start: "looper_inv pending looper_start"
  by (rule looper_invI) (simp_all add: looper_start_def in_flight_def)

lemma scheduler_ok_frame:
  assumes "scheduler_ok pending a s w" and "lw_called w' a = lw_called w a" and "lw_pushed w' a = lw_pushed w a"
    and "0 < lw_strong w' a \<Longrightarrow> 0 < lw_strong w a"
    and "\<And>p. 0 < lw_strong w' a \<Longrightarrow> wired a s p w \<Longrightarrow> wired a s p w' \<and> (woken a p w \<longrightarrow> woken a p w')"
  shows "scheduler_ok pending a s w'"
  using assms unfolding scheduler_ok_def by metis

lemma callback_ok_frame:
  assumes "callback_ok a cb w" and "0 < lw_strong w' a \<Longrightarrow> 0 < lw_strong w a" and "lw_objects w' a = lw_objects w a"
    and "\<And>s p. 0 < lw_strong w' a \<Longrightarrow> wired a s p w \<Longrightarrow> wired a s p w' \<and> lw_bytes w p \<le> lw_bytes w' p"
  shows "callback_ok a cb w'"
  using assms unfolding callback_ok_def by (metis order_less_le_trans)

lemmas looper_frame = wired_def woken_def in_flight_def

text \<open>A step that changes references, notifications and callbacks only.\<close>

lemma looper_inv_local:
  assumes "looper_inv pending w"
    and "lw_ends w' = lw_ends w" and "lw_next_pipe w' = lw_next_pipe w" and "lw_registered w' = lw_registered w" and "lw_bytes w' = lw_bytes w"
    and "s_live_schedulers w' = s_live_schedulers w" and "lw_objects w' = lw_objects w" and "lw_called w' = lw_called w" and "lw_pushed w' = lw_pushed w"
    and "\<And>b. 0 < lw_strong w' b \<longleftrightarrow> 0 < lw_strong w b" and "\<And>b. in_flight b w' \<le> lw_strong w' b"
    and "\<And>b s p. lw_objects w b = Some s \<Longrightarrow> 0 < lw_strong w b \<Longrightarrow> wired b s p w \<Longrightarrow> woken b p w \<Longrightarrow> woken b p w'"
    and "\<And>b cb. lw_callback w' b = Some cb \<Longrightarrow> callback_ok b cb w"
  shows "looper_inv pending w'"
proof (rule looper_invI)
  note I = looper_invD [OF assms(1)] and same = assms(2-9)
  have wired: "wired b s p w' \<longleftrightarrow> wired b s p w" for b s p by (simp add: wired_def same)
  fix a
  show "scheduler_ok pending a s w'" if "lw_objects w' a = Some s" for s
  proof (rule scheduler_ok_frame [OF I(1)])
    show o: "lw_objects w a = Some s" using that same by simp
    show "0 < lw_strong w' a \<Longrightarrow> 0 < lw_strong w a" by (simp add: assms(10))
    show "wired a s p w' \<and> (woken a p w \<longrightarrow> woken a p w')" if "0 < lw_strong w' a" "wired a s p w" for p
      using assms(12) [OF o] that assms(10) wired by simp
  qed (simp_all add: same)
  show "callback_ok a cb w'" if "lw_callback w' a = Some cb" for cb
    by (rule callback_ok_frame [OF assms(13) [OF that]]) (simp_all add: same wired assms(10))
  show "a \<in> set (s_live_schedulers w') \<longleftrightarrow> (\<exists>s. lw_objects w' a = Some s \<and> as_initialized s)" using I(3) by (simp add: same)
  show "lw_objects w' a \<noteq> None" if "0 < lw_strong w' a" using I(4) [of a] that by (simp add: same assms(10))
  show "in_flight a w' \<le> lw_strong w' a" by (rule assms(11))
  show "lw_ends w' (-1) = None" using I(6) by (simp add: same)
  show "p < lw_next_pipe w'" if "lw_ends w' fd = Some (p, b)" for fd p b using I(7) that by (simp add: same)
  show "fd = fd'" if "lw_ends w' fd = Some x" "lw_ends w' fd' = Some x" for fd fd' x using I(8) that by (simp add: same)
  show "0 < lw_strong w' a \<and> (\<exists>s. lw_objects w' a = Some s \<and> as_read s = fd \<and> as_write s \<noteq> -1)" if "lw_registered w' fd = Some a" for fd
    using I(9) that by (simp add: same assms(10))
qed

lemma stage_cases: "(c :: stage) \<noteq> Delivered \<Longrightarrow> c = Found \<or> c = Cleared"
  by (cases c) simp_all

lemma share_inv:
  assumes "looper_inv pending w" and "0 < lw_strong w a" and "in_flight a w \<le> n" and "0 < n"
  shows "looper_inv pending (w\<lparr>lw_strong := (lw_strong w)(a := n)\<rparr>)"
  by (rule looper_inv_local [OF assms(1)])
    (use assms looper_invD(2,5) [OF assms(1)] in \<open>auto simp: in_flight_def woken_def\<close>)

lemma return_inv:
  assumes "looper_inv pending w" and "lw_callback w a = Some cb" and "cb_stage cb = Cleared \<Longrightarrow> 0 < lw_strong w a \<Longrightarrow>
      \<forall>s. lw_objects w a = Some s \<longrightarrow> pending (as_queue s) = []"
  shows "looper_inv pending (looper_callback_return a cb w)"
proof -
  have "cb_events cb AND ALOOPER_EVENT_HANGUP = 0" using looper_invD(2) [OF assms(1,2)] by (simp add: callback_ok_def)
  then have e: "looper_callback_return a cb w = w\<lparr>lw_callback := (lw_callback w)(a := None)\<rparr>"
    by (simp add: looper_callback_return_def looper_callback_result_def)
  note I = looper_invD [OF assms(1)]
  show ?thesis unfolding e
  proof (rule looper_invI)
    let ?w = "w\<lparr>lw_callback := (lw_callback w)(a := None)\<rparr>"
    have wired: "wired b s p ?w \<longleftrightarrow> wired b s p w" for b s p by (simp add: wired_def)
    fix b
    show "scheduler_ok pending b s ?w" if s: "lw_objects ?w b = Some s" for s
    proof (cases "b = a \<and> cb_stage cb = Cleared")
      case False
      then show ?thesis using s assms(2) by (intro scheduler_ok_frame [OF I(1)]) (auto simp: wired woken_def)
    next
      case True
      then show ?thesis using I(1) [of b s] s assms(3) by (auto simp: scheduler_ok_def wired)
    qed
    show "callback_ok b c ?w" if "lw_callback ?w b = Some c" for c
      by (rule callback_ok_frame [OF I(2)]) (use that in \<open>simp_all add: wired split: if_splits\<close>)
    show "in_flight b ?w \<le> lw_strong ?w b" using I(5) [of b] by (auto simp: in_flight_def)
  qed (use I(3,4,6-9) in \<open>auto; fail\<close>)+
qed

text \<open>What \<open>init\<close> leaves: nothing but the entry among the live schedulers, or a pipe that the looper watches.\<close>

definition kept_by_init :: "nat \<Rightarrow> ('q, 'f) looper_world \<Rightarrow> ('q, 'f) looper_world \<Rightarrow> bool" where
  "kept_by_init a w w1 \<longleftrightarrow>
     lw_objects w1 = lw_objects w \<and> lw_strong w1 = lw_strong w \<and> lw_notifying w1 = lw_notifying w \<and> lw_callback w1 = lw_callback w \<and>
     lw_pushed w1 = lw_pushed w \<and> lw_called w1 = lw_called w \<and> set (s_live_schedulers w1) = insert a (set (s_live_schedulers w)) \<and>
     (\<forall>p < lw_next_pipe w. lw_bytes w1 p = lw_bytes w p) \<and> lw_next_pipe w \<le> lw_next_pipe w1"

lemma init_result:
  assumes "ALooperScheduler_init la a s w = (w1, s1)" and "\<not> as_initialized s" and "answers_ok la w"
  obtains "kept_by_init a w w1" and "s1 = s\<lparr>as_initialized := True\<rparr>" and "lw_ends w1 = lw_ends w" and "lw_registered w1 = lw_registered w"
  | r wr where "kept_by_init a w w1" and "s1 = s\<lparr>as_initialized := True, as_read := r, as_write := wr\<rparr>"
    and "lw_ends w1 = (lw_ends w)(r \<mapsto> (lw_next_pipe w, False), wr \<mapsto> (lw_next_pipe w, True))" and "lw_registered w1 = (lw_registered w)(r \<mapsto> a)"
    and "r \<noteq> wr" and "0 \<le> r" and "0 \<le> wr" and "lw_ends w r = None" and "lw_ends w wr = None" and "lw_next_pipe w1 = lw_next_pipe w + 1"
proof (cases "la_pipe la")
  case None
  with assms have "w1 = w\<lparr>s_live_schedulers := s_live_schedulers w @ [a]\<rparr>" "s1 = s\<lparr>as_initialized := True\<rparr>"
    by (simp_all add: ALooperScheduler_init_def Let_def)
  then show thesis by (intro that(1)) (simp_all add: kept_by_init_def)
next
  case (Some x)
  then obtain r wr where x: "la_pipe la = Some (r, wr)" by (cases x) simp
  then have ok: "r \<noteq> wr" "0 \<le> r" "0 \<le> wr" "lw_ends w r = None" "lw_ends w wr = None" using assms(3) by (simp_all add: answers_ok_def)
  show thesis
  proof (cases "la_addFd la = 1")
    case False
    have "lw_ends w1 = lw_ends w"
      using assms(1,2) x False ok by (auto simp: ALooperScheduler_init_def Let_def close_end_def open_pipe_def set_nonblocking_def split: if_splits)
    then show thesis
      using assms(1,2) x False
      by (intro that(1)) (auto simp: ALooperScheduler_init_def Let_def close_end_def open_pipe_def set_nonblocking_def kept_by_init_def split: if_splits)
  next
    case True
    then show thesis
      using assms(1,2) x ok
      by (intro that(2) [of wr r])
        (auto simp: ALooperScheduler_init_def Let_def close_end_def open_pipe_def set_nonblocking_def kept_by_init_def split: if_splits)
  qed
qed

lemma construct_inv:
  assumes "looper_inv pending w" and "invocation_queue_ok iq pending" and "lw_objects w a = None" and "lw_callback w a = None"
  shows "looper_inv pending ((put_scheduler a (ALooperScheduler_new iq looper self) w)
      \<lparr>lw_strong := (lw_strong w)(a := 1), lw_pushed := (lw_pushed w)(a := []), lw_called := (lw_called w)(a := [])\<rparr>)" (is "looper_inv _ ?w")
proof (rule looper_invI)
  note I = looper_invD [OF assms(1)]
  have s: "lw_strong w a = 0" using I(4) [of a] assms(3) by auto
  then have z: "lw_strong w a = 0" "in_flight a w = 0" using I(5) [of a] by simp_all
  have wired: "wired b s p ?w \<longleftrightarrow> wired b s p w" for b s p by (simp add: wired_def put_scheduler_def)
  have live: "a \<notin> set (s_live_schedulers w)" using I(3) [of a] assms(3) by simp
  fix b
  show "scheduler_ok pending b s ?w" if s: "lw_objects ?w b = Some s" for s
  proof (cases "b = a")
    case True
    with s assms(2) show ?thesis by (auto simp: scheduler_ok_def put_scheduler_def ALooperScheduler_new_def invocation_queue_ok_def)
  next
    case False
    then show ?thesis using s by (intro scheduler_ok_frame [OF I(1)]) (auto simp: wired_def woken_def put_scheduler_def)
  qed
  show "callback_ok b c ?w" if "lw_callback ?w b = Some c" for c
    by (rule callback_ok_frame [OF I(2)]) (use that assms(4) in \<open>auto simp: wired_def put_scheduler_def split: if_splits\<close>)
  show "b \<in> set (s_live_schedulers ?w) \<longleftrightarrow> (\<exists>s. lw_objects ?w b = Some s \<and> as_initialized s)"
    using I(3) [of b] live by (auto simp: put_scheduler_def ALooperScheduler_new_def)
  show "in_flight b ?w \<le> lw_strong ?w b" using I(5) [of b] z by (auto simp: in_flight_def put_scheduler_def)
  show "lw_objects ?w b \<noteq> None" if "0 < lw_strong ?w b" using that I(4) [of b] by (auto simp: put_scheduler_def split: if_splits)
  show "lw_ends ?w (-1) = None" using I(6) by (simp add: put_scheduler_def)
  show "p < lw_next_pipe ?w" if "lw_ends ?w fd = Some (p, c)" for fd p c using I(7) that by (simp add: put_scheduler_def)
  show "fd = fd'" if "lw_ends ?w fd = Some x" "lw_ends ?w fd' = Some x" for fd fd' x using I(8) that by (simp add: put_scheduler_def)
  show "0 < lw_strong ?w b \<and> (\<exists>s. lw_objects ?w b = Some s \<and> as_read s = fd \<and> as_write s \<noteq> -1)" if "lw_registered ?w fd = Some b" for fd
    using that I(9) [of fd b] z(1) by (auto simp: put_scheduler_def)
qed

text \<open>Invoking: the push, together with the notification that is now due.\<close>

definition pushed_on :: "('q, 'f) invocation_queue \<Rightarrow> nat \<Rightarrow> 'f \<Rightarrow> 'q ALooperScheduler \<Rightarrow> ('q, 'f) looper_world \<Rightarrow> ('q, 'f) looper_world" where
  "pushed_on iq a fn s1 w1 =
     (put_scheduler a (s1\<lparr>as_queue := iq_push iq fn (as_queue s1)\<rparr>) w1)
       \<lparr>lw_pushed := (lw_pushed w1)(a := lw_pushed w1 a @ [fn]), lw_notifying := (lw_notifying w1)(a := lw_notifying w1 a + 1)\<rparr>"

lemma wired_queue [simp]: "wired a (s\<lparr>as_queue := q\<rparr>) p w \<longleftrightarrow> wired a s p w"
  by (simp add: wired_def)

lemma push_inv:
  assumes "looper_inv pending w" and "invocation_queue_ok iq pending" and "lw_objects w a = Some s" and "as_initialized s" and "in_flight a w < lw_strong w a"
  shows "looper_inv pending (pushed_on iq a fn s w)"
proof -
  let ?w = "pushed_on iq a fn s w"
  note I = looper_invD [OF assms(1)]
  have wired: "wired b s' p ?w \<longleftrightarrow> wired b s' p w" for b s' p by (simp add: wired_def put_scheduler_def pushed_on_def)
  show ?thesis
  proof (rule looper_invI)
    fix b
    show "scheduler_ok pending b s' ?w" if s: "lw_objects ?w b = Some s'" for s'
    proof (cases "b = a")
      case True
      then have s': "s' = s\<lparr>as_queue := iq_push iq fn (as_queue s)\<rparr>" using s by (simp add: put_scheduler_def pushed_on_def)
      have f: "lw_called ?w b = lw_called w a" "lw_pushed ?w b = lw_pushed w a @ [fn]" "lw_strong ?w b = lw_strong w a" "woken a p ?w" for p
        using True by (simp_all add: put_scheduler_def pushed_on_def woken_def)
      have "pending (iq_push iq fn (as_queue s)) = pending (as_queue s) @ [fn]" using assms(2) by (simp add: invocation_queue_ok_def)
      then show ?thesis using I(1) [OF assms(3)] True assms(4) unfolding s' scheduler_ok_def f(1-3) wired wired_queue
        by (auto simp: f(4) simp flip: append_assoc)
    next
      case False
      then show ?thesis using s by (intro scheduler_ok_frame [OF I(1)]) (auto simp: wired_def woken_def put_scheduler_def pushed_on_def)
    qed
    show "callback_ok b c ?w" if "lw_callback ?w b = Some c" for c
    proof -
      have "lw_callback w b = Some c" using that by (simp add: put_scheduler_def pushed_on_def)
      from I(2) [OF this] show ?thesis using assms(3)
        by (fastforce simp: callback_ok_def wired_def put_scheduler_def pushed_on_def)
    qed
    show "b \<in> set (s_live_schedulers ?w) \<longleftrightarrow> (\<exists>s. lw_objects ?w b = Some s \<and> as_initialized s)"
      using I(3) [of b] assms(3) by (auto simp: put_scheduler_def pushed_on_def)
    show "in_flight b ?w \<le> lw_strong ?w b" using I(5) [of b] assms(5) by (auto simp: in_flight_def put_scheduler_def pushed_on_def)
    show "lw_objects ?w b \<noteq> None" if "0 < lw_strong ?w b" using that I(4) [of b] by (auto simp: put_scheduler_def pushed_on_def)
    show "lw_ends ?w (-1) = None" using I(6) by (simp add: put_scheduler_def pushed_on_def)
    show "p < lw_next_pipe ?w" if "lw_ends ?w fd = Some (p, c)" for fd p c using I(7) that by (simp add: put_scheduler_def pushed_on_def)
    show "fd = fd'" if "lw_ends ?w fd = Some x" "lw_ends ?w fd' = Some x" for fd fd' x using I(8) that by (simp add: put_scheduler_def pushed_on_def)
    show "0 < lw_strong ?w b \<and> (\<exists>s. lw_objects ?w b = Some s \<and> as_read s = fd \<and> as_write s \<noteq> -1)" if "lw_registered ?w fd = Some b" for fd
      using that I(9) [of fd b] assms(3) by (auto simp: put_scheduler_def pushed_on_def)
  qed
qed

text \<open>The first call makes the pipe.\<close>

lemma init_inv:
  assumes "looper_inv pending w" and "lw_objects w a = Some s" and "as_looper s \<noteq> None"
    and "0 < lw_strong w a" and "answers_ok la w" and "ALooperScheduler_init la a s w = (w1, s1)"
  shows "looper_inv pending (put_scheduler a s1 w1)" and "lw_strong w1 a = lw_strong w a" and "in_flight a w1 = in_flight a w"
proof -
  note I = looper_invD [OF assms(1)]
  have "looper_inv pending (put_scheduler a s1 w1) \<and> lw_strong w1 a = lw_strong w a \<and> in_flight a w1 = in_flight a w"
  proof (cases "as_initialized s")
    case True
    then have "w1 = w" "s1 = s" using assms(6) by (simp_all add: ALooperScheduler_init_def)
    then show ?thesis using assms(1,2) by (simp add: put_scheduler_def fun_upd_idem)
  next
    case False
    have fresh: "as_write s = -1" "as_read s = -1" "lw_called w a = []" "pending (as_queue s) = lw_pushed w a"
      using I(1) [OF assms(2)] False by (auto simp: scheduler_ok_def)
    have nocb: "lw_callback w a = None"
    proof (rule ccontr)
      assume "lw_callback w a \<noteq> None"
      then obtain c where "lw_callback w a = Some c" by auto
      from I(2) [OF this] I(6) assms(2,4) fresh show False by (auto simp: callback_ok_def wired_def)
    qed
    let ?w = "put_scheduler a s1 w1"
    have main: "looper_inv pending ?w"
      if k: "kept_by_init a w w1" and s1: "as_initialized s1" "as_looper s1 = as_looper s" "as_queue s1 = as_queue s"
          "as_read s1 = -1 \<longleftrightarrow> as_write s1 = -1" "as_write s1 \<noteq> -1 \<Longrightarrow> wired a s1 (lw_next_pipe w) w1"
        and ends: "lw_ends w1 (-1) = None" "\<And>fd p b. lw_ends w1 fd = Some (p, b) \<Longrightarrow> p < lw_next_pipe w1"
          "\<And>fd fd' x. lw_ends w1 fd = Some x \<Longrightarrow> lw_ends w1 fd' = Some x \<Longrightarrow> fd = fd'"
        and old: "\<And>fd x. lw_ends w fd = Some x \<Longrightarrow> lw_ends w1 fd = Some x"
          "\<And>fd b. lw_registered w fd = Some b \<Longrightarrow> lw_registered w1 fd = Some b"
          "\<And>fd b. lw_registered w1 fd = Some b \<Longrightarrow> lw_registered w fd = Some b \<or> b = a \<and> fd = as_read s1 \<and> as_write s1 \<noteq> -1"
    proof (rule looper_invI)
      have K: "lw_objects w1 = lw_objects w" "lw_strong w1 = lw_strong w" "lw_notifying w1 = lw_notifying w" "lw_callback w1 = lw_callback w"
        "lw_pushed w1 = lw_pushed w" "lw_called w1 = lw_called w" "set (s_live_schedulers w1) = insert a (set (s_live_schedulers w))"
        "\<And>p. p < lw_next_pipe w \<Longrightarrow> lw_bytes w1 p = lw_bytes w p"
        using k by (simp_all add: kept_by_init_def)
      have wired: "wired b s' p ?w \<longleftrightarrow> wired b s' p w1" for b s' p by (simp add: wired_def put_scheduler_def)
      have kept: "wired b s' p ?w \<and> lw_bytes ?w p = lw_bytes w p" if "wired b s' p w" for b s' p
        using that old(1,2) I(7) K(8) unfolding wired by (auto simp: wired_def put_scheduler_def)
      fix b
      show "scheduler_ok pending b s' ?w" if s: "lw_objects ?w b = Some s'" for s'
      proof (cases "b = a")
        case True
        then have "s' = s1" using s by (simp add: put_scheduler_def)
        moreover have "lw_called ?w a = []" "lw_pushed ?w a = lw_pushed w a" using fresh(3) by (simp_all add: put_scheduler_def K)
        moreover have "lw_pushed w a = []" using I(1) [OF assms(2)] False by (simp add: scheduler_ok_def)
        ultimately show ?thesis using True s1 fresh(4) assms(3) by (auto simp: scheduler_ok_def wired)
      next
        case False
        then show ?thesis using s kept by (intro scheduler_ok_frame [OF I(1)]) (auto simp: kept woken_def put_scheduler_def K)
      qed
      show "callback_ok b c ?w" if "lw_callback ?w b = Some c" for c
        by (rule callback_ok_frame [OF I(2)]) (use that nocb kept in \<open>auto simp: put_scheduler_def K\<close>)
      show "b \<in> set (s_live_schedulers ?w) \<longleftrightarrow> (\<exists>s. lw_objects ?w b = Some s \<and> as_initialized s)"
        using I(3) [of b] s1(1) by (auto simp: put_scheduler_def K)
      show "in_flight b ?w \<le> lw_strong ?w b" using I(5) [of b] by (simp add: in_flight_def put_scheduler_def K)
      show "lw_objects ?w b \<noteq> None" if "0 < lw_strong ?w b" using that I(4) [of b] by (auto simp: put_scheduler_def K)
      show "lw_ends ?w (-1) = None" using ends(1) by (simp add: put_scheduler_def)
      show "p < lw_next_pipe ?w" if "lw_ends ?w fd = Some (p, c)" for fd p c using ends(2) that by (simp add: put_scheduler_def)
      show "fd = fd'" if "lw_ends ?w fd = Some x" "lw_ends ?w fd' = Some x" for fd fd' x using ends(3) that by (simp add: put_scheduler_def)
      show "0 < lw_strong ?w b \<and> (\<exists>s. lw_objects ?w b = Some s \<and> as_read s = fd \<and> as_write s \<noteq> -1)" if "lw_registered ?w fd = Some b" for fd
        using old(3) [of fd b] that I(9) [of fd b] assms(2,4) fresh(1) by (auto simp: put_scheduler_def K)
    qed
    show ?thesis
    proof (cases rule: init_result [OF assms(6) False assms(5)])
      case 1
      have "looper_inv pending ?w"
      proof (rule main [OF 1(1)])
        show "p < lw_next_pipe w1" if "lw_ends w1 fd = Some (p, b)" for fd p b
          using that I(7) [of fd p b] 1(1,3) by (simp add: kept_by_init_def)
        show "fd = fd'" if "lw_ends w1 fd = Some x" "lw_ends w1 fd' = Some x" for fd fd' x
          using that I(8) [of fd x fd'] 1(3) by simp
      qed (use 1 I(6) fresh in \<open>auto\<close>)
      with 1(1) show ?thesis by (simp add: kept_by_init_def in_flight_def)
    next
      case (2 r wr)
      have reg: "lw_registered w r = None"
      proof (rule ccontr)
        assume "lw_registered w r \<noteq> None"
        then obtain b where "lw_registered w r = Some b" by auto
        from I(9) [OF this] obtain sb where sb: "lw_objects w b = Some sb" "as_read sb = r" "as_write sb \<noteq> -1" "0 < lw_strong w b" by blast
        with I(1) [OF sb(1)] 2(8) show False by (auto simp: scheduler_ok_def wired_def)
      qed
      have new: "lw_ends w fd \<noteq> Some (lw_next_pipe w, b)" for fd b using I(7) by blast
      have "looper_inv pending ?w"
      proof (rule main [OF 2(1)])
        show "fd = fd'" if "lw_ends w1 fd = Some x" "lw_ends w1 fd' = Some x" for fd fd' x
          using that I(8) [of fd x fd'] new 2(5) unfolding 2(3) by (auto split: if_splits)
        show "p < lw_next_pipe w1" if "lw_ends w1 fd = Some (p, b)" for fd p b
          using that I(7) [of fd p b] unfolding 2(3,10) by (auto split: if_splits)
      qed (use 2 I(6) reg in \<open>auto simp: wired_def split: if_splits\<close>)
      with 2(1) show ?thesis by (simp add: kept_by_init_def in_flight_def)
    qed
  qed
  then show "looper_inv pending (put_scheduler a s1 w1)" and "lw_strong w1 a = lw_strong w a" and "in_flight a w1 = in_flight a w" by simp_all
qed

lemma invoke_result:
  assumes "ALooperScheduler_invoke iq la a fn w = Inr (w1, b)"
  obtains s where "lw_objects w a = Some s" and "as_looper s = None" and "w1 = w" and "\<not> b"
  | s w2 s2 where "lw_objects w a = Some s" and "as_looper s \<noteq> None" and "b" and "ALooperScheduler_init la a s w = (w2, s2)"
    and "w1 = (put_scheduler a (s2\<lparr>as_queue := iq_push iq fn (as_queue s2)\<rparr>) w2)\<lparr>lw_pushed := (lw_pushed w2)(a := lw_pushed w2 a @ [fn])\<rparr>"
  using assms by (auto simp: ALooperScheduler_invoke_def split: option.splits if_splits prod.splits)

lemma init_initialized: "ALooperScheduler_init la a s w = (w1, s1) \<Longrightarrow> as_initialized s1"
  by (auto simp: ALooperScheduler_init_def Let_def split: if_splits option.splits prod.splits)

lemma invoke_inv:
  assumes "looper_inv pending w" and "invocation_queue_ok iq pending" and "in_flight a w < lw_strong w a" and "answers_ok la w"
    and "ALooperScheduler_invoke iq la a fn w = Inr (w1, True)"
  shows "looper_inv pending (w1\<lparr>lw_notifying := (lw_notifying w1)(a := lw_notifying w1 a + 1)\<rparr>)"
proof -
  obtain s w2 s2 where s: "lw_objects w a = Some s" "as_looper s \<noteq> None" "ALooperScheduler_init la a s w = (w2, s2)"
    and w1: "w1 = (put_scheduler a (s2\<lparr>as_queue := iq_push iq fn (as_queue s2)\<rparr>) w2)\<lparr>lw_pushed := (lw_pushed w2)(a := lw_pushed w2 a @ [fn])\<rparr>"
    using assms(5) by (rule invoke_result) auto
  have "0 < lw_strong w a" using assms(3) by simp
  note i = init_inv [OF assms(1) s(1,2) this assms(4) s(3)]
  have "looper_inv pending (pushed_on iq a fn s2 (put_scheduler a s2 w2))"
    by (rule push_inv [OF i(1) assms(2)])
      (use init_initialized [OF s(3)] i(2,3) assms(3) in \<open>simp_all add: put_scheduler_def in_flight_def\<close>)
  moreover have "pushed_on iq a fn s2 (put_scheduler a s2 w2) = w1\<lparr>lw_notifying := (lw_notifying w1)(a := lw_notifying w1 a + 1)\<rparr>"
    unfolding w1 by (simp add: pushed_on_def put_scheduler_def)
  ultimately show ?thesis by simp
qed

text \<open>Notifying: a thread leaves once its byte is in the pipe, or the pipe is full.\<close>

lemma bytes_inv:
  assumes "looper_inv pending w" and "\<And>p. lw_bytes w p \<le> f p"
  shows "looper_inv pending (w\<lparr>lw_bytes := f\<rparr>)" (is "looper_inv _ ?w")
proof -
  note I = looper_invD [OF assms(1)]
  have wired: "wired b s p ?w \<longleftrightarrow> wired b s p w" for b s p by (simp add: wired_def)
  have woken: "woken b p w \<Longrightarrow> woken b p ?w" for b p using assms(2) [of p] by (auto simp: woken_def)
  show ?thesis
  proof (rule looper_invI)
    fix b
    show "scheduler_ok pending b s ?w" if "lw_objects ?w b = Some s" for s
      by (rule scheduler_ok_frame [OF I(1)]) (use that woken in \<open>simp_all add: wired\<close>)
    show "callback_ok b c ?w" if "lw_callback ?w b = Some c" for c
      by (rule callback_ok_frame [OF I(2)]) (use that assms(2) in \<open>simp_all add: wired\<close>)
    show "in_flight b ?w \<le> lw_strong ?w b" using I(5) [of b] by (simp add: in_flight_def)
  qed (use I(3,4,6-9) in \<open>auto; fail\<close>)+
qed

lemma notified_inv:
  assumes "looper_inv pending w" and "\<And>s p. lw_objects w a = Some s \<Longrightarrow> wired a s p w \<Longrightarrow> 0 < lw_bytes w p"
  shows "looper_inv pending (w\<lparr>lw_notifying := (lw_notifying w)(a := lw_notifying w a - 1)\<rparr>)" (is "looper_inv _ ?w")
proof (rule looper_inv_local [OF assms(1)])
  fix b
  show "in_flight b ?w \<le> lw_strong ?w b" using looper_invD(5) [OF assms(1), of b] by (auto simp: in_flight_def)
  show "woken b p ?w" if "lw_objects w b = Some s" "wired b s p w" "woken b p w" for s p
    using assms(2) that by (cases "b = a") (auto simp: woken_def)
  show "callback_ok b cb w" if "lw_callback ?w b = Some cb" for cb using looper_invD(2) [OF assms(1)] that by simp
qed simp_all

lemma notify_inv:
  assumes "looper_inv pending w" and "0 < capacity" and "ALooperScheduler_notify capacity a w = Inr r"
  shows "r = Notified w1 \<Longrightarrow> looper_inv pending (w1\<lparr>lw_notifying := (lw_notifying w1)(a := lw_notifying w1 a - 1)\<rparr>)"
    and "r = System_Error err \<Longrightarrow> looper_inv pending (w\<lparr>lw_notifying := (lw_notifying w)(a := lw_notifying w a - 1)\<rparr>)"
proof -
  obtain s where s: "lw_objects w a = Some s" "r = notify_fd capacity (as_write s) w"
    using assms(3) by (auto simp: ALooperScheduler_notify_def split: option.splits)
  show "looper_inv pending (w\<lparr>lw_notifying := (lw_notifying w)(a := lw_notifying w a - 1)\<rparr>)" if e: "r = System_Error err"
  proof (rule notified_inv [OF assms(1)])
    fix s' p assume "lw_objects w a = Some s'" "wired a s' p w"
    with s e show "0 < lw_bytes w p" by (auto simp: wired_def notify_fd_def write_byte_def split: if_splits)
  qed
  show "looper_inv pending (w1\<lparr>lw_notifying := (lw_notifying w1)(a := lw_notifying w1 a - 1)\<rparr>)" if n: "r = Notified w1"
  proof -
    obtain p where p: "lw_ends w (as_write s) = Some (p, True)"
      "w1 = w\<lparr>lw_bytes := (lw_bytes w)(p := lw_bytes w p + 1)\<rparr> \<or> w1 = w \<and> capacity \<le> lw_bytes w p"
      using n s(2)
      by (auto simp: notify_fd_def write_byte_def EBADF_def EAGAIN_def split: written.splits option.splits prod.splits bool.splits if_splits)
    have i: "looper_inv pending w1"
      using p(2) assms(1) bytes_inv [OF assms(1), of "(lw_bytes w)(p := lw_bytes w p + 1)"] by auto
    show ?thesis
    proof (rule notified_inv [OF i])
      fix s' p' assume "lw_objects w1 a = Some s'" "wired a s' p' w1"
      then have "s' = s" "lw_ends w (as_write s) = Some (p', True)" using p(2) s(1) by (auto simp: wired_def)
      with p assms(2) show "0 < lw_bytes w1 p'" by auto
    qed
  qed
qed

text \<open>The end of a scheduler.\<close>

lemma destroy_inv:
  assumes "looper_inv pending w" and "in_flight a w = 0" and "lw_strong w a = 1" and "lw_objects w a = Some s"
  shows "looper_inv pending (ALooperScheduler_close s (w\<lparr>lw_strong := (lw_strong w)(a := 0)\<rparr>))" (is "looper_inv _ ?w")
proof -
  note I = looper_invD [OF assms(1)]
  have ok: "scheduler_ok pending a s w" by (rule I(1) [OF assms(4)])
  have fields: "lw_objects ?w = lw_objects w" "lw_strong ?w = (lw_strong w)(a := 0)" "lw_notifying ?w = lw_notifying w" "lw_callback ?w = lw_callback w"
    "lw_pushed ?w = lw_pushed w" "lw_called ?w = lw_called w" "s_live_schedulers ?w = s_live_schedulers w" "lw_bytes ?w = lw_bytes w"
    "lw_next_pipe ?w = lw_next_pipe w"
    by (simp_all add: ALooperScheduler_close_def close_end_def)
  have ends: "lw_ends ?w fd = (if as_initialized s \<and> (fd = as_read s \<or> fd = as_write s) then None else lw_ends w fd)" for fd
    using ok by (auto simp: ALooperScheduler_close_def close_end_def scheduler_ok_def)
  have reg: "lw_registered ?w fd = (if as_initialized s \<and> fd = as_read s then None else lw_registered w fd)" for fd
    using ok by (auto simp: ALooperScheduler_close_def close_end_def scheduler_ok_def)
  have other: "wired b s' p ?w" if b: "b \<noteq> a" and w: "wired b s' p w" for b s' p
  proof (cases "as_write s = -1")
    case True
    with ok have "as_read s = -1" by (simp add: scheduler_ok_def)
    with True w I(6) show ?thesis by (auto simp: wired_def ends reg)
  next
    case False
    then obtain q where q: "wired a s q w" using ok assms(3) by (auto simp: scheduler_ok_def)
    have "as_read s' \<noteq> as_read s" using q w b by (auto simp: wired_def)
    moreover have "as_write s' \<noteq> as_write s"
    proof
      assume "as_write s' = as_write s"
      then have "q = p" using q w by (simp add: wired_def)
      then have "as_read s' = as_read s" using q w by (intro I(8)) (simp_all add: wired_def)
      with calculation show False by simp
    qed
    moreover have "as_write s' \<noteq> as_read s" "as_read s' \<noteq> as_write s" using q w by (auto simp: wired_def)
    ultimately show ?thesis using w by (simp add: wired_def ends reg)
  qed
  show ?thesis
  proof (rule looper_invI)
    fix b
    show "scheduler_ok pending b s' ?w" if "lw_objects ?w b = Some s'" for s'
      by (rule scheduler_ok_frame [OF I(1)]) (use that other in \<open>auto simp: fields woken_def split: if_splits\<close>)
    show "callback_ok b c ?w" if "lw_callback ?w b = Some c" for c
      by (rule callback_ok_frame [OF I(2)]) (use that other in \<open>auto simp: fields split: if_splits\<close>)
    show "b \<in> set (s_live_schedulers ?w) \<longleftrightarrow> (\<exists>s. lw_objects ?w b = Some s \<and> as_initialized s)" using I(3) by (simp add: fields)
    show "lw_objects ?w b \<noteq> None" if "0 < lw_strong ?w b" using that I(4) [of b] by (auto simp: fields split: if_splits)
    show "in_flight b ?w \<le> lw_strong ?w b" using I(5) [of b] assms(2) by (auto simp: in_flight_def fields)
    show "lw_ends ?w (-1) = None" using I(6) by (simp add: ends)
    show "p < lw_next_pipe ?w" if "lw_ends ?w fd = Some (p, c)" for fd p c using I(7) that by (auto simp: ends fields split: if_splits)
    show "fd = fd'" if "lw_ends ?w fd = Some x" "lw_ends ?w fd' = Some x" for fd fd' x using I(8) that by (auto simp: ends split: if_splits)
    show "0 < lw_strong ?w b \<and> (\<exists>s. lw_objects ?w b = Some s \<and> as_read s = fd \<and> as_write s \<noteq> -1)" if "lw_registered ?w fd = Some b" for fd
    proof -
      have r: "lw_registered w fd = Some b" "\<not> (as_initialized s \<and> fd = as_read s)" using that by (auto simp: reg split: if_splits)
      from I(9) [OF r(1)] obtain s' where s': "0 < lw_strong w b" "lw_objects w b = Some s'" "as_read s' = fd" "as_write s' \<noteq> -1" by blast
      have "b \<noteq> a" using r(2) s' assms(4) ok by (auto simp: scheduler_ok_def)
      with s' show ?thesis by (auto simp: fields)
    qed
  qed
qed

lemma forget_inv:
  assumes "looper_inv pending w" and "lw_strong w a = 0" and "lw_objects w a = Some s"
  shows "looper_inv pending (ALooperScheduler_forget a s w)" (is "looper_inv _ ?w")
proof -
  note I = looper_invD [OF assms(1)]
  have wired: "wired b s' p ?w \<longleftrightarrow> wired b s' p w" for b s' p by (simp add: wired_def ALooperScheduler_forget_def Let_def)
  have fields: "lw_strong ?w = lw_strong w" "lw_notifying ?w = lw_notifying w" "lw_callback ?w = lw_callback w" "lw_registered ?w = lw_registered w"
    "lw_pushed ?w = lw_pushed w" "lw_called ?w = lw_called w" "lw_bytes ?w = lw_bytes w" "lw_next_pipe ?w = lw_next_pipe w" "lw_ends ?w = lw_ends w"
    "lw_objects ?w = (lw_objects w)(a := None)"
    by (simp_all add: ALooperScheduler_forget_def Let_def)
  have live: "set (s_live_schedulers ?w) = set (s_live_schedulers w) - {a}"
    using I(1) [OF assms(3)] I(3) [of a] assms(3) by (auto simp: ALooperScheduler_forget_def Let_def scheduler_ok_def)
  show ?thesis
  proof (rule looper_invI)
    fix b
    show "scheduler_ok pending b s' ?w" if "lw_objects ?w b = Some s'" for s'
      by (rule scheduler_ok_frame [OF I(1)]) (use that in \<open>auto simp: fields wired woken_def split: if_splits\<close>)
    show "callback_ok b c ?w" if "lw_callback ?w b = Some c" for c
    proof (cases "b = a")
      case True
      then show ?thesis using I(2) [of b c] that assms(2) by (auto simp: callback_ok_def fields)
    next
      case False
      then show ?thesis using that by (intro callback_ok_frame [OF I(2)]) (auto simp: fields wired)
    qed
    show "b \<in> set (s_live_schedulers ?w) \<longleftrightarrow> (\<exists>s. lw_objects ?w b = Some s \<and> as_initialized s)"
      using I(3) [of b] by (auto simp: fields live)
    show "lw_objects ?w b \<noteq> None" if "0 < lw_strong ?w b" using that I(4) [of b] assms(2) by (auto simp: fields)
    show "in_flight b ?w \<le> lw_strong ?w b" using I(5) [of b] by (simp add: in_flight_def fields)
    show "lw_ends ?w (-1) = None" using I(6) by (simp add: fields)
    show "p < lw_next_pipe ?w" if "lw_ends ?w fd = Some (p, c)" for fd p c using I(7) that by (simp add: fields)
    show "fd = fd'" if "lw_ends ?w fd = Some x" "lw_ends ?w fd' = Some x" for fd fd' x using I(8) that by (simp add: fields)
    show "0 < lw_strong ?w b \<and> (\<exists>s. lw_objects ?w b = Some s \<and> as_read s = fd \<and> as_write s \<noteq> -1)" if "lw_registered ?w fd = Some b" for fd
      using I(9) [of fd b] that assms(2) by (auto simp: fields)
  qed
qed

text \<open>The callback.\<close>

lemma deliver_inv:
  assumes "looper_inv pending w" and "lw_registered w fd = Some a" and "lw_callback w a = None" and "lw_ends w fd = Some (p, False)"
    and "events AND ALOOPER_EVENT_INPUT \<noteq> 0 \<Longrightarrow> 0 < lw_bytes w p"
    and "events AND ALOOPER_EVENT_HANGUP \<noteq> 0 \<Longrightarrow> (p, True) \<notin> ran (lw_ends w)"
  shows "looper_inv pending (w\<lparr>lw_callback := (lw_callback w)(a \<mapsto> \<lparr>cb_stage = Delivered, cb_fd = fd, cb_events = events\<rparr>)\<rparr>)"
    (is "looper_inv _ ?w")
proof (rule looper_inv_local [OF assms(1)])
  note I = looper_invD [OF assms(1)]
  obtain s where s: "0 < lw_strong w a" "lw_objects w a = Some s" "as_read s = fd" "as_write s \<noteq> -1" using I(9) [OF assms(2)] by blast
  then obtain q where q: "wired a s q w" using I(1) [OF s(2)] by (auto simp: scheduler_ok_def)
  then have "q = p" using assms(4) s(3) by (simp add: wired_def)
  with q have qp: "wired a s p w" by simp
  then have "(p, True) \<in> ran (lw_ends w)" by (auto simp: wired_def ran_def)
  with assms(6) have hang: "events AND ALOOPER_EVENT_HANGUP = 0" by blast
  fix b
  show "in_flight b ?w \<le> lw_strong ?w b" using I(5) [of b] assms(3) by (auto simp: in_flight_def)
  show "woken b p' ?w" if "woken b p' w" for p' using that assms(3) by (auto simp: woken_def)
  show "callback_ok b cb w" if c: "lw_callback ?w b = Some cb" for cb
  proof (cases "b = a")
    case True
    then have "cb = \<lparr>cb_stage = Delivered, cb_fd = fd, cb_events = events\<rparr>" using c by simp
    with True hang s(2,3) qp assms(5) show ?thesis by (auto simp: callback_ok_def)
  qed (use I(2) [of b cb] c in simp)
qed simp_all

lemma found_inv:
  assumes "looper_inv pending w" and "lw_callback w a = Some cb" and "cb_stage cb = Delivered" and "cb_events cb AND ALOOPER_EVENT_INPUT \<noteq> 0"
    and "looper_callback_find a w = Inr (Some (w1, True))"
  shows "looper_inv pending (w1\<lparr>lw_callback := (lw_callback w1)(a \<mapsto> cb\<lparr>cb_stage := Found\<rparr>)\<rparr>)" (is "looper_inv _ ?w")
proof -
  have w1: "w1 = w\<lparr>lw_strong := (lw_strong w)(a := lw_strong w a + 1)\<rparr>" "0 < lw_strong w a"
    using assms(5) by (auto simp: looper_callback_find_def split: if_splits)
  have "in_flight a w \<le> lw_strong w a" by (rule looper_invD(5) [OF assms(1)])
  then have i: "looper_inv pending w1" unfolding w1(1) by (intro share_inv [OF assms(1) w1(2)]) auto
  have f: "in_flight b w1 \<le> (if b = a then lw_strong w a else lw_strong w b)" for b
    using looper_invD(5) [OF assms(1), of b] by (auto simp: w1(1) in_flight_def)
  show ?thesis
  proof (rule looper_inv_local [OF i])
    fix b
    show "in_flight b ?w \<le> lw_strong ?w b" using f [of b] assms(2,3) by (auto simp: in_flight_def w1(1) split: if_splits)
    show "woken b p ?w" if "woken b p w1" for p using that assms(2,3) by (auto simp: woken_def w1(1))
    show "callback_ok b c w1" if c: "lw_callback ?w b = Some c" for c
    proof (cases "b = a")
      case True
      then have "c = cb\<lparr>cb_stage := Found\<rparr>" using c by simp
      moreover have "callback_ok a cb w1" using looper_invD(2) [OF i, of a cb] assms(2) by (simp add: w1(1))
      ultimately show ?thesis using True assms(3,4) by (auto simp: callback_ok_def)
    qed (use looper_invD(2) [OF i, of b c] c in simp)
  qed simp_all
qed

lemma callback_wired:
  assumes "looper_inv pending w" and "lw_callback w a = Some cb" and "cb_stage cb \<noteq> Delivered"
  obtains s p where "0 < lw_strong w a" and "lw_objects w a = Some s" and "cb_fd cb = as_read s" and "wired a s p w"
    and "cb_stage cb = Cleared \<or> 0 < lw_bytes w p"
proof -
  have "0 < in_flight a w" using assms(2,3) by (simp add: in_flight_def)
  then have p: "0 < lw_strong w a" using looper_invD(5) [OF assms(1), of a] by simp
  with looper_invD(2) [OF assms(1,2)] assms(3) show thesis using that by (auto simp: callback_ok_def)
qed

lemma wired_pipe:
  assumes "looper_inv pending w" and "wired a s p w" and "wired b s' p w"
  shows "b = a"
proof -
  have "as_read s' = as_read s" by (rule looper_invD(8) [OF assms(1)]) (use assms(2,3) in \<open>simp_all add: wired_def\<close>)
  with assms(2,3) show ?thesis by (simp add: wired_def)
qed

lemma read_inv:
  assumes "looper_inv pending w" and "lw_callback w a = Some cb" and "cb_stage cb = Found" and "looper_callback_read (cb_fd cb) w = Some w1"
  shows "looper_inv pending (w1\<lparr>lw_callback := (lw_callback w1)(a \<mapsto> cb\<lparr>cb_stage := Cleared\<rparr>)\<rparr>)" (is "looper_inv _ ?w")
proof -
  note I = looper_invD [OF assms(1)]
  obtain s p where s: "0 < lw_strong w a" "lw_objects w a = Some s" "cb_fd cb = as_read s" "wired a s p w"
    by (rule callback_wired [OF assms(1,2)]) (simp add: assms(3))
  obtain n where w1: "w1 = w\<lparr>lw_bytes := (lw_bytes w)(p := n)\<rparr>"
    using assms(4) s(3,4) by (auto simp: looper_callback_read_def wired_def split: if_splits)
  have wired: "wired b s' q ?w \<longleftrightarrow> wired b s' q w" for b s' q by (simp add: wired_def w1)
  have bytes: "lw_bytes ?w q = lw_bytes w q" if "wired b s' q w" "b \<noteq> a" for b s' q
    using wired_pipe [OF assms(1) s(4)] that by (auto simp: w1)
  show ?thesis
  proof (rule looper_invI)
    fix b
    show "scheduler_ok pending b s' ?w" if "lw_objects ?w b = Some s'" for s'
    proof (rule scheduler_ok_frame [OF I(1)])
      show "lw_objects w b = Some s'" using that by (simp add: w1)
      show "wired b s' q ?w \<and> (woken b q w \<longrightarrow> woken b q ?w)" if q: "wired b s' q w" for q
      proof (cases "b = a")
        case True
        then show ?thesis using q by (simp add: wired) (simp add: woken_def)
      next
        case False
        from bytes [OF q False] have "woken b q ?w \<longleftrightarrow> woken b q w" unfolding woken_def using False by (simp add: w1)
        then show ?thesis using q by (simp add: wired)
      qed
    qed (simp_all add: w1)
    show "callback_ok b c ?w" if c: "lw_callback ?w b = Some c" for c
    proof (cases "b = a")
      case True
      then have "c = cb\<lparr>cb_stage := Cleared\<rparr>" using c by (simp add: w1)
      then show ?thesis using I(2) [OF assms(2)] True by (auto simp: callback_ok_def wired) (auto simp: w1)
    next
      case False
      show ?thesis
      proof (rule callback_ok_frame [OF I(2)])
        show "lw_callback w b = Some c" using c False by (simp add: w1)
        show "wired b s' q ?w \<and> lw_bytes w q \<le> lw_bytes ?w q" if "wired b s' q w" for s' q
          using bytes [OF that False] that by (simp add: wired)
      qed (simp_all add: w1)
    qed
    show "in_flight b ?w \<le> lw_strong ?w b" using I(5) [of b] assms(2,3) by (auto simp: in_flight_def w1)
  qed (use I(3,4,6-9) in \<open>auto simp: w1; fail\<close>)+
qed

lemma run_inv:
  assumes "looper_inv pending w" and "invocation_queue_ok iq pending" and "lw_callback w a = Some cb" and "cb_stage cb = Cleared"
    and "looper_callback_run iq a w = Inr w1"
  shows "looper_inv pending (looper_callback_return a cb w1)"
proof (rule return_inv)
  note I = looper_invD [OF assms(1)]
  obtain s p where s: "0 < lw_strong w a" "lw_objects w a = Some s" "wired a s p w"
    by (rule callback_wired [OF assms(1,3)]) (simp add: assms(4))
  let ?q = "fst (iq_invoke_all iq (as_queue s))" and ?fns = "snd (iq_invoke_all iq (as_queue s))"
  have w1: "w1 = (put_scheduler a (s\<lparr>as_queue := ?q\<rparr>) w)\<lparr>lw_called := (lw_called w)(a := lw_called w a @ ?fns)\<rparr>"
    using assms(5) s(2) by (simp add: looper_callback_run_def split: prod.splits)
  have q: "pending ?q = []" "?fns = pending (as_queue s)" using assms(2) by (simp_all add: invocation_queue_ok_def)
  show "lw_callback w1 a = Some cb" using assms(3) by (simp add: w1 put_scheduler_def)
  show "\<forall>s. lw_objects w1 a = Some s \<longrightarrow> pending (as_queue s) = []" by (simp add: w1 put_scheduler_def q(1))
  have wired: "wired b s' r w1 \<longleftrightarrow> wired b s' r w" for b s' r by (simp add: wired_def w1 put_scheduler_def)
  have ne: "as_write s \<noteq> -1" using s(3) I(6) by (auto simp: wired_def)
  show "looper_inv pending w1"
  proof (rule looper_invI)
    fix b
    show "scheduler_ok pending b s' w1" if s': "lw_objects w1 b = Some s'" for s'
    proof (cases "b = a")
      case True
      then have "s' = s\<lparr>as_queue := ?q\<rparr>" using s' by (simp add: w1 put_scheduler_def)
      moreover have "lw_called w1 a = lw_called w a @ pending (as_queue s)" "lw_pushed w1 a = lw_pushed w a" "lw_strong w1 a = lw_strong w a"
        by (simp_all add: w1 put_scheduler_def q(2))
      ultimately show ?thesis using I(1) [OF s(2)] True ne s(3) q(1) by (auto simp: scheduler_ok_def wired)
    next
      case False
      then show ?thesis using s' by (intro scheduler_ok_frame [OF I(1)]) (auto simp: wired_def woken_def w1 put_scheduler_def)
    qed
    show "callback_ok b c w1" if c: "lw_callback w1 b = Some c" for c
    proof -
      have "lw_callback w b = Some c" using c by (simp add: w1 put_scheduler_def)
      from I(2) [OF this] show ?thesis using s(2) by (fastforce simp: callback_ok_def wired_def w1 put_scheduler_def)
    qed
    show "b \<in> set (s_live_schedulers w1) \<longleftrightarrow> (\<exists>s. lw_objects w1 b = Some s \<and> as_initialized s)"
      using I(3) [of b] s(2) by (auto simp: w1 put_scheduler_def)
    show "lw_objects w1 b \<noteq> None" if "0 < lw_strong w1 b" using that I(4) [of b] by (auto simp: w1 put_scheduler_def)
    show "in_flight b w1 \<le> lw_strong w1 b" using I(5) [of b] by (simp add: in_flight_def w1 put_scheduler_def)
    show "lw_ends w1 (-1) = None" using I(6) by (simp add: w1 put_scheduler_def)
    show "p < lw_next_pipe w1" if "lw_ends w1 fd = Some (p, c)" for fd p c using I(7) that by (simp add: w1 put_scheduler_def)
    show "fd = fd'" if "lw_ends w1 fd = Some x" "lw_ends w1 fd' = Some x" for fd fd' x using I(8) that by (simp add: w1 put_scheduler_def)
    show "0 < lw_strong w1 b \<and> (\<exists>s. lw_objects w1 b = Some s \<and> as_read s = fd \<and> as_write s \<noteq> -1)" if "lw_registered w1 fd = Some b" for fd
      using I(9) [of fd b] that s(2) by (auto simp: w1 put_scheduler_def)
  qed
qed

lemma looper_step_inv:
  assumes "looper_step iq capacity w w'" and "looper_inv pending w" and "invocation_queue_ok iq pending" and "0 < capacity"
  shows "looper_inv pending w'"
  using assms(1)
proof cases
  case construct
  then show ?thesis using construct_inv [OF assms(2,3)] by simp
next
  case (share a)
  have "in_flight a w \<le> lw_strong w a" by (rule looper_invD(5) [OF assms(2)])
  then show ?thesis unfolding share(1) by (intro share_inv [OF assms(2) share(2)]) auto
next
  case invoke
  then show ?thesis using invoke_inv [OF assms(2,3)] by simp
next
  case invoke_nowhere
  from invoke_nowhere(2) have "w' = w" by (rule invoke_result) simp_all
  with assms(2) show ?thesis by simp
next
  case notify
  then show ?thesis using notify_inv(1) [OF assms(2,4)] by simp
next
  case notify_throws
  then show ?thesis using notify_inv(2) [OF assms(2,4)] by simp
next
  case (release a)
  then show ?thesis unfolding release(1) by (intro share_inv [OF assms(2)]) auto
next
  case destroy
  then show ?thesis using destroy_inv [OF assms(2)] by simp
next
  case forget
  then show ?thesis using forget_inv [OF assms(2)] by simp
next
  case deliver
  then show ?thesis using deliver_inv [OF assms(2)] by simp
next
  case no_input
  then show ?thesis using return_inv [OF assms(2) no_input(2)] by simp
next
  case (gone a cb w1)
  then have "w1 = w" by (auto simp: looper_callback_find_def split: if_splits)
  with gone show ?thesis using return_inv [OF assms(2) gone(2)] by simp
next
  case found
  then show ?thesis using found_inv [OF assms(2)] by simp
next
  case read
  then show ?thesis using read_inv [OF assms(2)] by simp
next
  case run
  then show ?thesis using run_inv [OF assms(2,3)] by simp
qed

lemma looper_reachable_inv:
  assumes "looper_reachable iq capacity w" and "invocation_queue_ok iq pending" and "0 < capacity"
  shows "looper_inv pending w"
  using assms(1) by induction (simp_all add: looper_inv_start looper_step_inv [OF _ _ assms(2,3)])

subsection \<open>Nothing is lost\<close>

lemma rtranclp_then: "looper_step iq capacity w w1 \<Longrightarrow> \<exists>w2. (looper_step iq capacity)\<^sup>*\<^sup>* w1 w2 \<and> P w2 \<Longrightarrow>
    \<exists>w2. (looper_step iq capacity)\<^sup>*\<^sup>* w w2 \<and> P w2"
  by (meson converse_rtranclp_into_rtranclp)

definition all_called :: "nat \<Rightarrow> 'f list \<Rightarrow> ('q, 'f) looper_world \<Rightarrow> bool" where
  "all_called a fns w \<longleftrightarrow> lw_called w a = fns \<and> lw_pushed w a = fns"

lemma cleared_runs:
  assumes "looper_inv pending w" and "invocation_queue_ok iq pending" and "lw_callback w a = Some cb" and "cb_stage cb = Cleared"
  shows "\<exists>w2. (looper_step iq capacity)\<^sup>*\<^sup>* w w2 \<and> all_called a (lw_pushed w a) w2"
proof -
  obtain s where s: "lw_objects w a = Some s" by (rule callback_wired [OF assms(1,3)]) (simp add: assms(4))
  let ?r = "iq_invoke_all iq (as_queue s)"
  let ?w = "(put_scheduler a (s\<lparr>as_queue := fst ?r\<rparr>) w)\<lparr>lw_called := (lw_called w)(a := lw_called w a @ snd ?r)\<rparr>"
  have "looper_callback_run iq a w = Inr ?w" using s by (simp add: looper_callback_run_def split_beta)
  moreover have "snd ?r = pending (as_queue s)" using assms(2) by (simp add: invocation_queue_ok_def)
  ultimately obtain w1 where w1: "looper_callback_run iq a w = Inr w1" "lw_called w1 a = lw_called w a @ pending (as_queue s)" "lw_pushed w1 a = lw_pushed w a"
    by (simp add: put_scheduler_def)
  have "lw_called w a @ pending (as_queue s) = lw_pushed w a" using looper_invD(1) [OF assms(1) s] by (simp add: scheduler_ok_def)
  with w1 have "all_called a (lw_pushed w a) (looper_callback_return a cb w1)"
    by (simp add: all_called_def looper_callback_return_def Let_def)
  with looper_step.run [OF assms(3,4) w1(1)] show ?thesis by blast
qed

lemma found_runs:
  assumes "looper_inv pending w" and "invocation_queue_ok iq pending" and "0 < capacity" and "lw_callback w a = Some cb" and "cb_stage cb = Found"
  shows "\<exists>w2. (looper_step iq capacity)\<^sup>*\<^sup>* w w2 \<and> all_called a (lw_pushed w a) w2"
proof -
  obtain s p where s: "cb_fd cb = as_read s" "wired a s p w" "0 < lw_bytes w p"
    by (rule callback_wired [OF assms(1,4)]) (simp_all add: assms(5))
  then obtain w1 where w1: "looper_callback_read (cb_fd cb) w = Some w1" "lw_pushed w1 = lw_pushed w"
    by (simp add: looper_callback_read_def wired_def)
  note st = looper_step.read [OF assms(4,5) w1(1), of iq capacity]
  show ?thesis
    using rtranclp_then [OF st, where P = "all_called a (lw_pushed w a)"]
      cleared_runs [OF looper_step_inv [OF st assms(1,2,3)] assms(2), of a "cb\<lparr>cb_stage := Cleared\<rparr>" capacity] w1(2) by simp
qed

lemma input_runs:
  assumes "looper_inv pending w" and "invocation_queue_ok iq pending" and "0 < capacity" and "lw_callback w a = Some cb"
    and "cb_stage cb = Delivered" and "cb_events cb AND ALOOPER_EVENT_INPUT \<noteq> 0" and "0 < lw_strong w a"
  shows "\<exists>w2. (looper_step iq capacity)\<^sup>*\<^sup>* w w2 \<and> all_called a (lw_pushed w a) w2"
proof -
  obtain s p where s: "lw_objects w a = Some s" "cb_fd cb = as_read s" "wired a s p w"
    using looper_invD(2) [OF assms(1,4)] assms(7) by (auto simp: callback_ok_def)
  have "as_write s \<noteq> -1" using s(3) looper_invD(6) [OF assms(1)] by (auto simp: wired_def)
  then have "as_initialized s" using looper_invD(1) [OF assms(1) s(1)] by (simp add: scheduler_ok_def)
  with s(1) have "a \<in> set (s_live_schedulers w)" using looper_invD(3) [OF assms(1)] by blast
  then have f: "looper_callback_find a w = Inr (Some (w\<lparr>lw_strong := (lw_strong w)(a := lw_strong w a + 1)\<rparr>, True))"
    using s(1) assms(7) by (simp add: looper_callback_find_def)
  note st = looper_step.found [OF assms(4,5,6) f, of iq capacity]
  show ?thesis
    using rtranclp_then [OF st, where P = "all_called a (lw_pushed w a)"]
      found_runs [OF looper_step_inv [OF st assms(1,2,3)] assms(2,3), of a "cb\<lparr>cb_stage := Found\<rparr>"] by simp
qed

lemma waiting_runs:
  assumes "looper_inv pending w" and "invocation_queue_ok iq pending" and "0 < capacity" and "lw_callback w a = None"
    and "lw_objects w a = Some s" and "0 < lw_strong w a" and "wired a s p w" and "0 < lw_bytes w p"
  shows "\<exists>w2. (looper_step iq capacity)\<^sup>*\<^sup>* w w2 \<and> all_called a (lw_pushed w a) w2"
proof -
  have "looper_step iq capacity w (w\<lparr>lw_callback := (lw_callback w)(a \<mapsto> \<lparr>cb_stage = Delivered, cb_fd = as_read s, cb_events = ALOOPER_EVENT_INPUT\<rparr>)\<rparr>)"
    by (rule looper_step.deliver) (use assms(4,7,8) in \<open>auto simp: wired_def ALOOPER_EVENT_INPUT_def ALOOPER_EVENT_HANGUP_def\<close>)
  note st = this
  show ?thesis
    using rtranclp_then [OF st, where P = "all_called a (lw_pushed w a)"]
      input_runs [OF looper_step_inv [OF st assms(1,2,3)] assms(2,3), of a "\<lparr>cb_stage = Delivered, cb_fd = as_read s, cb_events = ALOOPER_EVENT_INPUT\<rparr>"]
      assms(6) by (simp add: ALOOPER_EVENT_INPUT_def)
qed

lemma idle_runs:
  assumes "looper_inv pending w" and "invocation_queue_ok iq pending" and "0 < capacity" and "lw_callback w a = None"
    and "lw_objects w a = Some s" and "0 < lw_strong w a" and "wired a s p w" and "woken a p w"
  shows "\<exists>w2. (looper_step iq capacity)\<^sup>*\<^sup>* w w2 \<and> all_called a (lw_pushed w a) w2"
proof (cases "0 < lw_bytes w p")
  case True
  show ?thesis by (rule waiting_runs [OF assms(1-7) True])
next
  case False
  then have n: "0 < lw_notifying w a" using assms(4,8) by (simp add: woken_def)
  have "ALooperScheduler_notify capacity a w = Inr (Notified (w\<lparr>lw_bytes := (lw_bytes w)(p := lw_bytes w p + 1)\<rparr>))"
    using assms(3,5,7) False by (simp add: ALooperScheduler_notify_def notify_fd_def write_byte_def wired_def)
  note st = looper_step.notify [OF n this, of iq]
  show ?thesis
    using rtranclp_then [OF st, where P = "all_called a (lw_pushed w a)"]
      waiting_runs [OF looper_step_inv [OF st assms(1,2,3)] assms(2,3), of a s p] assms(4-7) by (simp add: wired_def)
qed

text \<open>C39: whatever has happened before, while somebody has a reference to a scheduler whose pipe could be made, the functions
  handed to it have been called in their order up to some point, and a few steps of the thread that still has to write to the pipe and of
  the looper suffice to call all of them; so no wake-up is lost, however the threads interleave and however small the pipe is.\<close>

theorem looper_calls_everything:
  assumes "looper_reachable iq capacity w" and "invocation_queue_ok iq pending" and "0 < capacity"
    and "lw_objects w a = Some s" and "0 < lw_strong w a" and "as_write s \<noteq> -1"
  shows "lw_called w a @ pending (as_queue s) = lw_pushed w a \<and>
    (\<exists>w2. (looper_step iq capacity)\<^sup>*\<^sup>* w w2 \<and> lw_called w2 a = lw_pushed w a \<and> lw_pushed w2 a = lw_pushed w a)"
proof -
  note i = looper_reachable_inv [OF assms(1-3)]
  have ok: "lw_called w a @ pending (as_queue s) = lw_pushed w a" "\<exists>p. wired a s p w \<and> (pending (as_queue s) \<noteq> [] \<longrightarrow> woken a p w)"
    using looper_invD(1) [OF i assms(4)] assms(5,6) by (simp_all add: scheduler_ok_def)
  then obtain p where p: "wired a s p w" "pending (as_queue s) \<noteq> [] \<Longrightarrow> woken a p w" by blast
  have "\<exists>w2. (looper_step iq capacity)\<^sup>*\<^sup>* w w2 \<and> all_called a (lw_pushed w a) w2"
  proof (cases "pending (as_queue s) = []")
    case True
    with ok(1) show ?thesis by (intro exI [of _ w]) (simp add: all_called_def)
  next
    case False
    show ?thesis
    proof (cases "lw_callback w a")
      case None
      show ?thesis by (rule idle_runs [OF i assms(2,3) None assms(4,5) p(1) p(2) [OF False]])
    next
      case (Some cb)
      consider "cb_stage cb = Cleared" | "cb_stage cb = Found" | "cb_stage cb = Delivered" "cb_events cb AND ALOOPER_EVENT_INPUT \<noteq> 0"
        | "cb_stage cb = Delivered" "cb_events cb AND ALOOPER_EVENT_INPUT = 0" by (cases "cb_stage cb") auto
      then show ?thesis
      proof cases
        case 1 show ?thesis by (rule cleared_runs [OF i assms(2) Some 1])
      next
        case 2 show ?thesis by (rule found_runs [OF i assms(2,3) Some 2])
      next
        case 3 show ?thesis by (rule input_runs [OF i assms(2,3) Some 3 assms(5)])
      next
        case 4
        note st = looper_step.no_input [OF Some 4, of iq capacity]
        have e: "looper_callback_return a cb w = w\<lparr>lw_callback := (lw_callback w)(a := None)\<rparr>"
          using looper_invD(2) [OF i Some] by (simp add: looper_callback_return_def looper_callback_result_def callback_ok_def)
        have "woken a p (looper_callback_return a cb w)" using p(2) [OF False] Some 4(1) by (simp add: e woken_def)
        then show ?thesis
          using rtranclp_then [OF st, where P = "all_called a (lw_pushed w a)"]
            idle_runs [OF looper_step_inv [OF st i assms(2,3)] assms(2,3), of a s p] assms(4,5) p(1) by (simp add: e wired_def)
      qed
    qed
  qed
  with ok(1) show ?thesis by (simp add: all_called_def)
qed

text \<open>No callback and no invocation touches a scheduler that has been freed, and the read in a callback does not block even
  when the pipe could not be made non-blocking. The lookup throws in exactly one case: the scheduler is listed as live but has no
  reference any more, which is to say that its destructor has not got to the lock.\<close>

theorem looper_callbacks_defined:
  assumes "looper_reachable iq capacity w" and "invocation_queue_ok iq pending" and "0 < capacity" and "lw_callback w a = Some cb"
  shows "(cb_stage cb = Delivered \<longrightarrow> looper_callback_find a w \<noteq> Inl Undefined_Behaviour \<and>
      (looper_callback_find a w = Inr None \<longleftrightarrow> a \<in> set (s_live_schedulers w) \<and> lw_strong w a = 0)) \<and>
    (cb_stage cb = Found \<longrightarrow> looper_callback_read (cb_fd cb) w \<noteq> None) \<and>
    (cb_stage cb = Cleared \<longrightarrow> (\<exists>w'. looper_callback_run iq a w = Inr w')) \<and>
    (0 < lw_notifying w a \<longrightarrow> (\<exists>r. ALooperScheduler_notify capacity a w = Inr r))"
proof -
  note i = looper_reachable_inv [OF assms(1-3)]
  have "lw_objects w a \<noteq> None" if "a \<in> set (s_live_schedulers w)" using that looper_invD(3) [OF i, of a] by auto
  then have "looper_callback_find a w \<noteq> Inl Undefined_Behaviour"
    "looper_callback_find a w = Inr None \<longleftrightarrow> a \<in> set (s_live_schedulers w) \<and> lw_strong w a = 0"
    by (auto simp: looper_callback_find_def)
  moreover have "looper_callback_read (cb_fd cb) w \<noteq> None" if "cb_stage cb = Found"
    by (rule callback_wired [OF i assms(4)]) (use that in \<open>auto simp: looper_callback_read_def wired_def\<close>)
  moreover have "\<exists>w'. looper_callback_run iq a w = Inr w'" if "cb_stage cb = Cleared"
    by (rule callback_wired [OF i assms(4)]) (use that in \<open>auto simp: looper_callback_run_def split: prod.splits\<close>)
  moreover have "\<exists>r. ALooperScheduler_notify capacity a w = Inr r" if "0 < lw_notifying w a"
    using that looper_invD(4,5) [OF i, of a] by (auto simp: ALooperScheduler_notify_def in_flight_def)
  ultimately show ?thesis by blast
qed

text \<open>A scheduler without a pipe keeps every function for ever, and every invocation throws.\<close>

theorem broken_pipe_never_runs:
  assumes "looper_reachable iq capacity w" and "invocation_queue_ok iq pending" and "0 < capacity"
    and "lw_objects w a = Some s" and "as_write s = -1"
  shows "lw_called w a = []" and "pending (as_queue s) = lw_pushed w a"
    and "ALooperScheduler_notify capacity a w = Inr (System_Error EBADF)"
proof -
  note i = looper_reachable_inv [OF assms(1-3)]
  show "lw_called w a = []" "pending (as_queue s) = lw_pushed w a"
    using looper_invD(1) [OF i assms(4)] assms(5) by (auto simp: scheduler_ok_def)
  show "ALooperScheduler_notify capacity a w = Inr (System_Error EBADF)"
    using looper_invD(6) [OF i] assms(4,5) by (simp add: ALooperScheduler_notify_def notify_fd_def write_byte_def EBADF_def EAGAIN_def)
qed

subsection \<open>A scheduler to try it on\<close>

definition list_queue :: "('f list, 'f) invocation_queue" where
  "list_queue = \<lparr>iq_empty = [], iq_push = (\<lambda>fn q. q @ [fn]), iq_invoke_all = (\<lambda>q. ([], q))\<rparr>"

lemma list_queue_ok: "invocation_queue_ok list_queue (\<lambda>q. q)"
  by (simp add: invocation_queue_ok_def list_queue_def)

definition demo_answers :: looper_answers where
  "demo_answers = \<lparr>la_pipe = Some (3, 4), la_fcntl = (\<lambda>fd. True), la_addFd = 1\<rparr>"

text \<open>The scheduler at address 0, with the descriptors 3 and 4 for a pipe that has room for one byte.\<close>

definition demo_scheduler :: "nat list \<Rightarrow> nat list ALooperScheduler" where
  "demo_scheduler fns = \<lparr>as_queue = fns, as_looper = Some 5, as_thread = 9, as_initialized = True, as_read = 3, as_write = 4\<rparr>"

definition demo_looper :: "nat \<Rightarrow> nat \<Rightarrow> nat list \<Rightarrow> callback option \<Rightarrow> (nat list, nat) looper_world" where
  "demo_looper bytes notifying fns cb =
     \<lparr>lw_ends = [3 \<mapsto> (0, False), 4 \<mapsto> (0, True)], lw_nonblocking = {3, 4}, lw_bytes = (\<lambda>p. 0)(0 := bytes), lw_next_pipe = 1,
      lw_registered = [3 \<mapsto> 0], s_live_schedulers = [0], lw_objects = [0 \<mapsto> demo_scheduler fns], lw_strong = (\<lambda>a. 0)(0 := 1),
      lw_notifying = (\<lambda>a. 0)(0 := notifying), lw_callback = Map.empty(0 := cb), lw_pushed = (\<lambda>a. [])(0 := fns), lw_called = (\<lambda>a. [])\<rparr>"

lemma looper_reach: "looper_reachable iq capacity w \<Longrightarrow> looper_step iq capacity w w1 \<Longrightarrow> w1 = w' \<Longrightarrow> looper_reachable iq capacity w'"
  by (auto intro: looper_reachable.step)

lemmas looper_run = ALooperScheduler_invoke_def ALooperScheduler_init_def ALooperScheduler_new_def put_scheduler_def open_pipe_def
  set_nonblocking_def answers_ok_def in_flight_def ALooperScheduler_notify_def notify_fd_def write_byte_def EAGAIN_def
  list_queue_def demo_answers_def demo_scheduler_def demo_looper_def looper_start_def

lemma demo_first: "looper_reachable list_queue 1 (demo_looper 0 1 [7] None)"
proof -
  let ?s = "looper_start :: (nat list, nat) looper_world"
  let ?w = "(put_scheduler 0 (ALooperScheduler_new list_queue (Some 5) 9) ?s)
    \<lparr>lw_strong := (lw_strong ?s)(0 := 1), lw_pushed := (lw_pushed ?s)(0 := []), lw_called := (lw_called ?s)(0 := [])\<rparr>"
  have "looper_reachable list_queue 1 ?w"
    by (rule looper_reachable.step [OF looper_reachable.start looper_step.construct]) (simp_all add: looper_start_def)
  then show ?thesis
    by (rule looper_reach [OF _ looper_step.invoke [where a = 0 and la = demo_answers and fn = 7]])
      ((simp add: looper_run Let_def fun_eq_iff insert_commute)+)
qed

lemma demo_notified: "looper_reachable list_queue 1 (demo_looper 1 0 [7] None)"
  by (rule looper_reach [OF demo_first looper_step.notify [where a = 0]]) ((simp add: looper_run fun_eq_iff)+)

lemma demo_second: "looper_reachable list_queue 1 (demo_looper 1 1 [7, 8] None)"
  by (rule looper_reach [OF demo_notified
        looper_step.invoke [where a = 0 and la = "\<lparr>la_pipe = None, la_fcntl = (\<lambda>fd. True), la_addFd = 1\<rparr>" and fn = 8]])
    ((simp add: looper_run fun_eq_iff)+)

lemma demo_delivered: "looper_reachable list_queue 1 (demo_looper 1 0 [7] (Some \<lparr>cb_stage = Delivered, cb_fd = 3, cb_events = ALOOPER_EVENT_INPUT\<rparr>))"
  by (rule looper_reach [OF demo_notified
        looper_step.deliver [where a = 0 and fd = 3 and p = 0 and events = ALOOPER_EVENT_INPUT]])
    (simp_all add: looper_run ALOOPER_EVENT_INPUT_def ALOOPER_EVENT_HANGUP_def)

text \<open>The comment in the source says that a callback during the destructor fails its second check. It does: it throws.\<close>

theorem looper_callback_throws:
  "\<exists>w cb. looper_reachable (list_queue :: (nat list, nat) invocation_queue) 1 w \<and> lw_callback w 0 = Some cb \<and> cb_stage cb = Delivered \<and>
     cb_events cb = ALOOPER_EVENT_INPUT \<and> looper_callback_find 0 w = Inr None"
proof -
  let ?w = "demo_looper 1 0 [7] (Some \<lparr>cb_stage = Delivered, cb_fd = 3, cb_events = ALOOPER_EVENT_INPUT\<rparr>)"
  let ?v = "ALooperScheduler_close (demo_scheduler [7]) (?w\<lparr>lw_strong := (lw_strong ?w)(0 := 0)\<rparr>)"
  have "looper_reachable list_queue 1 ?v"
    by (rule looper_reachable.step [OF demo_delivered looper_step.destroy]) (simp_all add: looper_run)
  moreover have "lw_callback ?v 0 = Some \<lparr>cb_stage = Delivered, cb_fd = 3, cb_events = ALOOPER_EVENT_INPUT\<rparr>"
    "looper_callback_find 0 ?v = Inr None"
    by (simp_all add: looper_run ALooperScheduler_close_def close_end_def looper_callback_find_def)
  ultimately show ?thesis by fastforce
qed

theorem looper_calls_everything_witness:
  "\<exists>w2. (looper_step list_queue 1)\<^sup>*\<^sup>* (demo_looper 1 1 [7, 8] None) w2 \<and> lw_called w2 0 = [7, 8]"
proof -
  have "lw_objects (demo_looper 1 1 [7, 8] None) 0 = Some (demo_scheduler [7, 8])" "lw_pushed (demo_looper 1 1 [7, 8] None) 0 = [7, 8]"
    by (simp_all add: demo_looper_def)
  then show ?thesis using looper_calls_everything [OF demo_second list_queue_ok, of 0 "demo_scheduler [7, 8]"]
    by (auto simp: demo_looper_def demo_scheduler_def)
qed

theorem looper_callbacks_defined_witness:
  "looper_callback_find 0 (demo_looper 1 0 [7] (Some \<lparr>cb_stage = Delivered, cb_fd = 3, cb_events = ALOOPER_EVENT_INPUT\<rparr>)) \<noteq> Inl Undefined_Behaviour"
  using looper_callbacks_defined [OF demo_delivered list_queue_ok, of 0 "\<lparr>cb_stage = Delivered, cb_fd = 3, cb_events = ALOOPER_EVENT_INPUT\<rparr>"]
  by (simp add: demo_looper_def)

end
