(* ===== verification/Time_Doubles.thy ===== *)
theory Time_Doubles
  imports Complex_Main "HOL-Library.Log_Nat" Time_Points
begin

section \<open>Times as \<open>double\<close> values\<close>

text \<open>
  The rest of \<open>app/src/main/cpp/timer/time_delta.h\<close> and \<open>timer/time_point.cc\<close>: the conversions between times and \<open>double\<close>, and
  the wall clock; and \<open>timer/chrono_timestamp_provider.{h,cc}\<close>. A finite \<open>double\<close> is a rational number, and every
  operation on it is the exact one followed by rounding to 53 bits, to the nearest and on a tie to the even mantissa, as IEEE 754 has it for
  binary64. Exponents are not bounded below: where the hardware has a subnormal result, both it and the model's are less than
  a nanosecond. An infinite value or a NaN is \<open>None\<close>.
\<close>

subsection \<open>binary64\<close>

definition half_even :: "rat \<Rightarrow> int" where
  "half_even x = (let f = \<lfloor>x\<rfloor>; r = x - of_int f in if r < 1 / 2 \<or> r = 1 / 2 \<and> even f then f else f + 1)"

text \<open>The exponent of the leading bit.\<close>

definition binade :: "rat \<Rightarrow> int" where
  "binade x = (let (n, d) = quotient_of \<bar>x\<bar>; k = bitlen n - bitlen d in if \<bar>x\<bar> < 2 powi k then k - 1 else k)"

definition fl :: "rat \<Rightarrow> rat" where
  "fl x = (if x = 0 then 0 else let u = 2 powi (binade x - 52) in of_int (half_even (x / u)) * u)"

text \<open>The conversion of a \<open>double\<close> to \<open>int64_t\<close> drops the fraction, and is undefined if the result does not fit.\<close>

definition truncated :: "rat \<Rightarrow> int" where
  "truncated x = (if 0 \<le> x then \<lfloor>x\<rfloor> else \<lceil>x\<rceil>)"

definition int64_of_double :: "rat option \<Rightarrow> int outcome" where
  "int64_of_double v = (case v of None \<Rightarrow> Inl Undefined_Behaviour | Some x \<Rightarrow> int64 (truncated x))"

subsection \<open>Conversions of \<open>TimeDelta\<close>\<close>

definition kDefaultFrameBudget :: rat where
  "kDefaultFrameBudget = fl (1000 / 60)"

definition RefreshRateToFrameBudget :: "rat \<Rightarrow> rat option" where
  "RefreshRateToFrameBudget refresh_rate = (if refresh_rate = 0 then None else Some (fl (1000 / refresh_rate)))"

definition FromSecondsF :: "rat option \<Rightarrow> TimeDelta outcome" where
  "FromSecondsF seconds =
     obind (int64_of_double (map_option (\<lambda>s. fl (s * (1000 * 1000 * 1000))) seconds)) (\<lambda>n. Inr (FromNanoseconds n))"

definition FromMillisecondsF :: "rat option \<Rightarrow> TimeDelta outcome" where
  "FromMillisecondsF millis =
     obind (int64_of_double (map_option (\<lambda>m. fl (m * (1000 * 1000))) millis)) (\<lambda>n. Inr (FromNanoseconds n))"

definition ToNanosecondsF :: "TimeDelta \<Rightarrow> rat" where
  "ToNanosecondsF d = fl (of_int d)"

definition ToMicrosecondsF :: "TimeDelta \<Rightarrow> rat" where
  "ToMicrosecondsF d = fl (fl (of_int d) / 1000)"

definition ToMillisecondsF :: "TimeDelta \<Rightarrow> rat" where
  "ToMillisecondsF d = fl (fl (of_int d) / (1000 * 1000))"

definition ToSecondsF :: "TimeDelta \<Rightarrow> rat" where
  "ToSecondsF d = fl (fl (of_int d) / (1000 * 1000 * 1000))"

subsection \<open>The other clocks\<close>

text \<open>\<open>duration_cast\<close> to nanoseconds, from ticks that are a whole number of nanoseconds (one for the steady clock of the
  library, a thousand for its system clock).\<close>

definition NanosSinceEpoch :: "int \<Rightarrow> int \<Rightarrow> int outcome" where
  "NanosSinceEpoch period ticks = int64 (ticks * period)"

definition CurrentWallTime :: "int \<Rightarrow> TimePoint outcome" where
  "CurrentWallTime system_clock_ticks = NanosSinceEpoch 1000 system_clock_ticks"

definition ChronoTimestampProvider_Now :: "clock \<Rightarrow> TimePoint" where
  "ChronoTimestampProvider_Now c = (let ticks_since_epoch = steady_clock c in FromTicks ticks_since_epoch)"

definition ChronoTicksSinceEpoch :: "clock \<Rightarrow> TimePoint" where
  "ChronoTicksSinceEpoch c = ChronoTimestampProvider_Now c"

text \<open>The provider does not go through the clock source of \<open>TimePoint\<close>: they agree as long as none has been set.\<close>

lemma ChronoTicksSinceEpoch_is_Now: "gSteadyClockSource c = None \<Longrightarrow> ChronoTicksSinceEpoch c = TimePoint_Now c"
  by (simp add: ChronoTicksSinceEpoch_def ChronoTimestampProvider_Now_def TimePoint_Now_def FromTicks_def)

subsection \<open>Rounding\<close>

lemma half_even_near: "\<bar>of_int (half_even x) - x\<bar> \<le> 1 / 2"
proof -
  have "of_int \<lfloor>x\<rfloor> \<le> x" "x < of_int \<lfloor>x\<rfloor> + 1" by linarith+
  then show ?thesis unfolding half_even_def Let_def by (auto simp: not_less)
qed

lemma half_even_int [simp]: "half_even (of_int i) = i"
  by (simp add: half_even_def)

lemma bitlen_rat: "0 < n \<Longrightarrow> 2 powi (bitlen n - 1) \<le> (of_int n :: rat) \<and> (of_int n :: rat) < 2 powi bitlen n"
proof -
  assume n: "0 < n"
  then have p: "1 \<le> bitlen n" by (simp add: bitlen_alt_def)
  have b: "2 ^ nat (bitlen n - 1) \<le> n" "n < 2 ^ nat (bitlen n)" using bitlen_bounds [OF n] by simp_all
  have "(2 :: rat) ^ nat (bitlen n - 1) \<le> of_int n" "(of_int n :: rat) < 2 ^ nat (bitlen n)"
    using b by (metis of_int_le_iff of_int_numeral of_int_power, metis of_int_less_iff of_int_numeral of_int_power)
  with p show ?thesis by (simp add: power_int_def)
qed

lemma powi_mult: "(2 :: rat) powi (a + b) = 2 powi a * 2 powi b"
  by (simp add: power_int_add)

lemma binade_bounds:
  assumes "x \<noteq> 0"
  shows "2 powi binade x \<le> \<bar>x\<bar>" and "\<bar>x\<bar> < 2 powi (binade x + 1)"
proof -
  obtain n d where q: "quotient_of \<bar>x\<bar> = (n, d)" by fastforce
  have x: "\<bar>x\<bar> = of_int n / of_int d" "0 < d" using q quotient_of_div quotient_of_denom_pos by blast+
  have n: "0 < n"
  proof -
    have "0 < (of_int n / of_int d :: rat)" using assms x(1) by simp
    with x(2) show ?thesis by (simp add: zero_less_divide_iff)
  qed
  let ?k = "bitlen n - bitlen d"
  note bn = bitlen_rat [OF n] and bd = bitlen_rat [OF x(2)]
  have d: "0 < (of_int d :: rat)" using x(2) by simp
  have "2 powi (?k - 1) * of_int d \<le> 2 powi (?k - 1) * (2 :: rat) powi bitlen d" using bd by (intro mult_left_mono) simp_all
  also have "\<dots> = 2 powi (bitlen n - 1)" by (simp flip: powi_mult)
  finally have lo: "2 powi (?k - 1) \<le> \<bar>x\<bar>" using bn d x(1) by (simp add: pos_le_divide_eq)
  have "(2 :: rat) powi bitlen n = 2 powi (?k + 1) * 2 powi (bitlen d - 1)" by (simp flip: powi_mult)
  also have "\<dots> \<le> 2 powi (?k + 1) * of_int d" using bd by (intro mult_left_mono) simp_all
  finally have hi: "\<bar>x\<bar> < 2 powi (?k + 1)" using bn d x(1) by (simp add: pos_divide_less_eq)
  show "2 powi binade x \<le> \<bar>x\<bar>" using lo by (simp add: binade_def q Let_def)
  show "\<bar>x\<bar> < 2 powi (binade x + 1)" using hi by (simp add: binade_def q Let_def)
qed

text \<open>The relative error of an operation.\<close>

lemma fl_error: "\<bar>fl x - x\<bar> \<le> \<bar>x\<bar> / 2 ^ 53"
proof (cases "x = 0")
  case False
  let ?u = "2 powi (binade x - 52) :: rat"
  have u: "0 < ?u" by simp
  have "fl x - x = (of_int (half_even (x / ?u)) - x / ?u) * ?u" using False u by (simp add: fl_def Let_def field_simps)
  then have "\<bar>fl x - x\<bar> = \<bar>of_int (half_even (x / ?u)) - x / ?u\<bar> * ?u" using u by (simp add: abs_mult)
  also have "\<dots> \<le> 1 / 2 * ?u" using half_even_near u by (intro mult_right_mono) simp_all
  also have "\<dots> = 2 powi binade x / 2 ^ 53"
  proof -
    have "?u * 2 ^ 52 = 2 powi binade x" using powi_mult [of "binade x - 52" 52] by (simp add: power_int_def)
    then show ?thesis by (simp add: field_simps)
  qed
  also have "\<dots> \<le> \<bar>x\<bar> / 2 ^ 53" using binade_bounds(1) [OF False] by (simp add: divide_right_mono)
  finally show ?thesis .
qed (simp add: fl_def)

text \<open>Whole numbers of at most 53 bits are exact.\<close>

lemma fl_int:
  assumes "\<bar>i\<bar> < 2 ^ 53"
  shows "fl (of_int i) = of_int i"
proof (cases "i = 0")
  case False
  let ?x = "of_int i :: rat" and ?e = "binade (of_int i)"
  have x: "?x \<noteq> 0" using False by simp
  have "2 powi ?e \<le> \<bar>?x\<bar>" by (rule binade_bounds(1) [OF x])
  also have "\<bar>?x\<bar> < 2 powi 53" using assms by (simp add: power_int_def flip: of_int_abs)
  finally have p: "(2 :: rat) powi ?e < 2 powi 53" .
  have e: "?e \<le> 52"
  proof (rule ccontr)
    assume "\<not> ?e \<le> 52"
    then have "(2 :: rat) powi 53 \<le> 2 powi ?e" by (intro power_int_increasing) simp_all
    with p show False by simp
  qed
  have "?x / 2 powi (?e - 52) = of_int (i * 2 ^ nat (52 - ?e))"
    using e by (auto simp: power_int_def power_one_over)
  then have "half_even (?x / 2 powi (?e - 52)) = i * 2 ^ nat (52 - ?e)" by (simp only: half_even_int)
  moreover have "of_int (i * 2 ^ nat (52 - ?e)) * 2 powi (?e - 52) = ?x" using e by (auto simp: power_int_def power_one_over)
  ultimately show ?thesis using x by (simp add: fl_def Let_def)
qed (simp add: fl_def)

subsection \<open>There and back\<close>

lemma truncated_near:
  assumes "\<bar>y - of_int d\<bar> < 1"
  shows "\<bar>truncated y\<bar> \<le> \<bar>d\<bar>" and "\<bar>d\<bar> \<le> \<bar>truncated y\<bar> + 1" and "0 \<le> d * truncated y"
proof -
  have y: "of_int d - 1 < y" "y < of_int d + 1" using assms by linarith+
  have "\<bar>truncated y\<bar> \<le> \<bar>d\<bar> \<and> \<bar>d\<bar> \<le> \<bar>truncated y\<bar> + 1 \<and> 0 \<le> d * truncated y"
  proof (cases "0 \<le> y")
    case True
    then have "truncated y = \<lfloor>y\<rfloor>" "0 \<le> \<lfloor>y\<rfloor>" by (simp_all add: truncated_def)
    moreover have "d - 1 \<le> \<lfloor>y\<rfloor>" "\<lfloor>y\<rfloor> \<le> d" using y by linarith+
    ultimately have t: "truncated y \<le> d" "d - 1 \<le> truncated y" "0 \<le> truncated y" by simp_all
    then have "0 \<le> d * truncated y" by (intro mult_nonneg_nonneg) linarith+
    with t show ?thesis by linarith
  next
    case False
    then have "truncated y = \<lceil>y\<rceil>" "\<lceil>y\<rceil> \<le> 0" by (simp_all add: truncated_def)
    moreover have "d \<le> \<lceil>y\<rceil>" "\<lceil>y\<rceil> \<le> d + 1" using y by linarith+
    ultimately have t: "d \<le> truncated y" "truncated y \<le> d + 1" "truncated y \<le> 0" by simp_all
    then have "0 \<le> d * truncated y" by (intro mult_nonpos_nonpos) linarith+
    with t show ?thesis by linarith
  qed
  then show "\<bar>truncated y\<bar> \<le> \<bar>d\<bar>" and "\<bar>d\<bar> \<le> \<bar>truncated y\<bar> + 1" "0 \<le> d * truncated y" by simp_all
qed

text \<open>C40: a time of at most 26 days, converted to seconds as a \<open>double\<close> and back, is defined, never grows, keeps its sign (or
  becomes 0) and loses at most one nanosecond. It does lose it, for times as short as 15 nanoseconds: the conversion back truncates where it should round.\<close>

theorem seconds_there_and_back:
  assumes "\<bar>d\<bar> \<le> 2 ^ 51"
  shows "(\<exists>d'. FromSecondsF (Some (ToSecondsF d)) = Inr d' \<and> \<bar>d'\<bar> \<le> \<bar>d\<bar> \<and> \<bar>d\<bar> \<le> \<bar>d'\<bar> + 1 \<and> 0 \<le> d * d') \<and>
    FromSecondsF (Some (ToSecondsF 15)) = Inr 14"
proof
  let ?g = "10 ^ 9 :: rat"
  let ?x = "fl (of_int d / ?g)" and ?e = "\<bar>of_int d\<bar> / 2 ^ 53 :: rat"
  let ?y = "fl (?x * ?g)"
  have s: "ToSecondsF d = ?x" using fl_int [of d] assms by (simp add: ToSecondsF_def)
  have d: "\<bar>of_int d\<bar> \<le> (2 ^ 51 :: rat)" using assms by (metis of_int_abs of_int_le_iff of_int_numeral of_int_power)
  have "\<bar>?x - of_int d / ?g\<bar> \<le> \<bar>of_int d / ?g\<bar> / 2 ^ 53" by (rule fl_error)
  then have "\<bar>?x - of_int d / ?g\<bar> * ?g \<le> \<bar>of_int d / ?g\<bar> / 2 ^ 53 * ?g" by (intro mult_right_mono) simp_all
  then have a: "\<bar>?x * ?g - of_int d\<bar> \<le> ?e" by (simp add: abs_mult [symmetric] abs_divide field_simps)
  have "?e \<le> 1 / 4" using d by simp
  with a have b: "\<bar>?x * ?g - of_int d\<bar> \<le> 1 / 4" by linarith
  with d have "\<bar>?x * ?g\<bar> \<le> 2 ^ 51 + 1 / 4" by linarith
  then have "\<bar>?x * ?g\<bar> / 2 ^ 53 < 1 / 2" by simp
  moreover have "\<bar>?y - ?x * ?g\<bar> \<le> \<bar>?x * ?g\<bar> / 2 ^ 53" by (rule fl_error)
  ultimately have near: "\<bar>?y - of_int d\<bar> < 1" using b by linarith
  note t = truncated_near [OF near]
  have "\<bar>truncated ?y\<bar> \<le> 2 ^ 51" using t(1) assms by linarith
  then have "is_int64 (truncated ?y)" unfolding is_int64_def INT64_MIN_def INT64_MAX_def by (simp add: abs_le_iff)
  then show "\<exists>d'. FromSecondsF (Some (ToSecondsF d)) = Inr d' \<and> \<bar>d'\<bar> \<le> \<bar>d\<bar> \<and> \<bar>d\<bar> \<le> \<bar>d'\<bar> + 1 \<and> 0 \<le> d * d'"
    using t by (simp add: FromSecondsF_def s int64_of_double_def FromNanoseconds_def)
  show "FromSecondsF (Some (ToSecondsF 15)) = Inr 14" by code_simp
qed

theorem seconds_there_and_back_witness:
  "\<exists>d'. FromSecondsF (Some (ToSecondsF 15)) = Inr d' \<and> \<bar>d'\<bar> \<le> 15 \<and> 15 \<le> \<bar>d'\<bar> + 1"
  using seconds_there_and_back [of 15] by simp

end
