(* ===== verification/Library_Entries.thy ===== *)
theory Library_Entries
  imports Java_Strings Java_Reference_Laws Utf_Conversion
begin

section \<open>Entry points over other libraries\<close>

text \<open>
  \<open>app/src/main/cpp/jni_double_conversion.cpp\<close>, over the double-conversion library, and
  \<open>app/src/main/cpp/library_loader.cc\<close>, over classes that the repository does not have. Both libraries are parameters.
\<close>

subsection \<open>\<open>jni_double_conversion.cpp\<close>\<close>

text \<open>A converter and what it makes of a number (a text in a buffer of 168 bytes, up to its NUL) and of a text (a
  number, and how many characters it has used); the values of the flags and of \<open>double\<close> are the library's.\<close>

record 'd double_conversion =
  dc_zero :: 'd
  dc_nan :: 'd
  dc_to_string_flags :: nat
  dc_to_double_flags :: nat
  dc_ToFixed :: "nat \<Rightarrow> 'd \<Rightarrow> int \<Rightarrow> byte list"
  dc_StringToDouble :: "nat \<Rightarrow> 'd \<Rightarrow> byte list \<Rightarrow> int \<Rightarrow> 'd \<times> int"

definition nativeDoubleToString ::
  "'d double_conversion \<Rightarrow> jni_answers \<Rightarrow> thread_id \<Rightarrow> 'd \<Rightarrow> jenv \<Rightarrow> (jenv \<times> ptr) outcome" where
  "nativeDoubleToString dc jn t v s =
     (let built = dc_ToFixed dc (dc_to_string_flags dc) (dc_zero dc) 0
      in STRING_CONVERT_StringToJavaString jn t t built s)"

text \<open>A pointer to characters, and whether what it points to is still there. The string that
  \<open>JavaStringToString\<close> returns is destroyed at the end of the expression that calls \<open>c_str()\<close> on it.\<close>

record c_pointer =
  cp_text :: "byte list"
  cp_alive :: bool

definition strlen_of :: "c_pointer \<Rightarrow> int outcome" where
  "strlen_of p = obind (defined (cp_alive p)) (\<lambda>_. Inr (int (length (takeWhile (\<lambda>b. b \<noteq> 0) (cp_text p)))))"

definition nativeStringToDouble ::
  "'d double_conversion \<Rightarrow> jni_answers \<Rightarrow> thread_id \<Rightarrow> ptr \<Rightarrow> jenv \<Rightarrow> (jenv \<times> 'd) outcome" where
  "nativeStringToDouble dc jn t v s =
     obind (STRING_CONVERT_JavaStringToString jn t (Some t) v s) (\<lambda>(s1, str).
     let msg = \<lparr>cp_text = str, cp_alive = False\<rparr>
     in obind (strlen_of msg) (\<lambda>len.
        let (result, processed_characters_count16) =
              dc_StringToDouble dc (dc_to_double_flags dc) (dc_nan dc) (cp_text msg) len;
            processed_all = (len = processed_characters_count16)
        in Inr (s1, result)))"

text \<open>The number is not looked at; the text is, but too late.\<close>

lemma nativeDoubleToString_constant: "nativeDoubleToString dc jn t v s = nativeDoubleToString dc jn t w s"
  by (simp add: nativeDoubleToString_def)

lemma nativeStringToDouble_dangles:
  "STRING_CONVERT_JavaStringToString jn t (Some t) v s = Inr (s1, str) \<Longrightarrow>
     nativeStringToDouble dc jn t v s = Inl Undefined_Behaviour"
  by (simp add: nativeStringToDouble_def strlen_of_def)

subsection \<open>\<open>library_loader.cc\<close>\<close>

text \<open>What the four classes answer when they register their native methods, with the state they leave.\<close>

record registrations =
  FlutterMain_Register :: "thread_id \<Rightarrow> jvm \<Rightarrow> jvm \<times> bool"
  PlatformViewAndroid_Register :: "thread_id \<Rightarrow> jvm \<Rightarrow> jvm \<times> bool"
  VsyncWaiterAndroid_Register :: "thread_id \<Rightarrow> jvm \<Rightarrow> jvm \<times> bool"
  AndroidImageGenerator_Register :: "thread_id \<Rightarrow> jvm \<Rightarrow> jvm \<times> bool"

definition checked_register :: "(thread_id \<Rightarrow> jvm \<Rightarrow> jvm \<times> bool) \<Rightarrow> thread_id \<Rightarrow> jvm \<Rightarrow> jvm outcome" where
  "checked_register register env j = (let (j1, result) = register env j in obind (check result) (\<lambda>_. Inr j1))"

definition library_JNI_OnLoad :: "registrations \<Rightarrow> java_answers \<Rightarrow> thread_id \<Rightarrow> jvm \<Rightarrow> (jvm \<times> int) outcome" where
  "library_JNI_OnLoad reg vm t j =
     obind (InitJavaVM j) (\<lambda>j1.
     obind (AttachCurrentThread vm t j1) (\<lambda>(j2, env).
     obind (checked_register (FlutterMain_Register reg) env j2) (\<lambda>j3.
     obind (checked_register (PlatformViewAndroid_Register reg) env j3) (\<lambda>j4.
     obind (checked_register (VsyncWaiterAndroid_Register reg) env j4) (\<lambda>j5.
     obind (checked_register (AndroidImageGenerator_Register reg) env j5) (\<lambda>j6.
     Inr (j6, 65542)))))))"

text \<open>The library loads once only, and only with every class registered.\<close>

lemma library_JNI_OnLoad_twice: "g_jvm j \<Longrightarrow> library_JNI_OnLoad reg vm t j = Inl Check_Failed"
  by (simp add: library_JNI_OnLoad_def InitJavaVM_def)

lemma library_JNI_OnLoad_unregistered:
  assumes "\<And>env j. \<not> snd (AndroidImageGenerator_Register reg env j)"
  shows "library_JNI_OnLoad reg vm t j \<noteq> Inr r"
  using assms by (auto simp: library_JNI_OnLoad_def checked_register_def obind_eq_Inr split: prod.splits)
    (metis snd_conv)

end
