(* ===== verification/Spec2Isabelle.thy ===== *)
theory Spec2Isabelle
  imports Message_Loop_Laws Weak_Pointers Shared_Pointers Latches_And_Switches Base32_Codec Ascii_Trie
    Concurrent_Loop Threads Detector_Props Signatures Logging Snappy_Bindings
    Java_Strings Java_Reference_Props Magisk_Detector Qt_Jni_Steps Detector_Entries View_Models
    Looper_Scheduler Time_Doubles Library_Entries
begin

text \<open>
  A verification of the native code of EnvironmentCheck, an Android application that examines the device
  it runs on. The code has two halves. The library under \<open>src/app/src/main/cpp\<close> is a run-time system:
  task queues and message loops, threads, smart pointers and synchronisation objects. The library
  under \<open>src/CheckEnv/src/main/cpp\<close> holds the detectors (debuggers, hooking frameworks, root, second
  instances, signatures) and the codecs they use. Paths below are relative to these two directories.

  \<^bold>\<open>How the parts work together.\<close> A thread (\<open>thread.cc\<close>) makes a message loop (\<open>message_loop.cc\<close>,
  \<open>android/message_loop_android.cc\<close>), which owns a queue of the one \<open>MessageLoopTaskQueues\<close> and waits on
  a timer descriptor (\<open>linux/timerfd.cc\<close>). A task runner posts closures to the queue of a loop; the queue
  arms the timer of the loop that serves it for the earliest task; when the timer fires the loop
  fetches and calls the tasks that are due. Queues can be merged, so that one loop serves several.
  Loops and runners are held by intrusive reference-counted pointers, other objects by weak, unique
  and shared pointers. The concurrent message loop is a separate pool of worker threads.

  \<^bold>\<open>Conventions.\<close> A definition has the name of the function it models, with the class in front where
  several classes share it. Objects are records; pointers are addresses into explicit heaps, where
  the code depends on aliasing. An operation that can fail returns \<open>fault + 'a\<close>: a failed check (the
  debug build), an exception of a container or of an empty \<open>std::function\<close>, or undefined behaviour.
  Integers have their C++ width wherever they can wrap (\<open>64 word\<close> counts, \<open>32 word\<close> counters) and are
  otherwise integers whose overflow is a fault. An operation that holds a mutex is one atomic step; one
  that waits is a sequence of steps, one for each stretch between waits. What a closure does, what
  the kernel, the NDK, a clock or a hash library answers, are parameters.

  \<^bold>\<open>The theories.\<close>
  \<^item> \<open>Env_Prelude\<close>: faults, \<open>std::set\<close> and \<open>std::map\<close> as lists, integer types, C++ division.
  \<^item> \<open>Time_Points\<close>: \<open>timer/time_delta.h\<close>, \<open>timer/time_point.{h,cc}\<close>, \<open>linux/timerfd.cc\<close>. Conversions, and
    the time a timer is armed for, which is wrong for times before the epoch. \<open>Time_Doubles\<close>: the conversions to
    and from \<open>double\<close>, with the rounding of binary64, and \<open>timer/chrono_timestamp_provider.{h,cc}\<close>.
  \<^item> \<open>Task_Source\<close>, \<open>Task_Queues\<close>, \<open>Task_Queue_Laws\<close>, \<open>Task_Queue_Steps\<close>, \<open>Task_Queue_Props\<close>,
    \<open>Task_Order\<close>: \<open>delayed_task.{h,cc}\<close>, \<open>task_source.{h,cc}\<close>, \<open>message_loop_task_queues.{h,cc}\<close>. The heap
    of a source is specified by the locale \<open>task_heap\<close>. Shown: the well-formedness of the queues and
    their merge graph in every reachable state, what each operation does on every branch and under which
    preconditions it does not fault, that merging is a refinement of linking nodes of a graph, that what is
    taken was registered first. One access is not guarded by any check, the grade that is read through a
    reference to a task already popped: where the memory is gone, the model stores an indeterminate grade,
    and the properties say exactly when.
  \<^item> \<open>Message_Loop\<close>, \<open>Message_Loop_Laws\<close>: \<open>message_loop_impl.cc\<close>, \<open>message_loop.cc\<close>, \<open>task_runner.cc\<close>,
    \<open>task_runners.cc\<close>, \<open>memory/task_runner_checker.cc\<close>, \<open>android/message_loop_android.cc\<close>. Flushing is
    proved once in the locale \<open>task_supply\<close>, which the queues interpret: it ends and calls the due tasks in
    order. A loop that has run is closed for good; one terminated before it runs keeps its tasks.
  \<^item> \<open>Threads\<close>: \<open>thread.cc\<close>, \<open>thread_host.cc\<close>, \<open>thread_local.cc\<close> on top of the message loops. A name of 16 bytes or
    more is refused by \<open>pthread_setname_np\<close>, and the thread stays without one.
  \<^item> \<open>Concurrent_Loop\<close>: \<open>concurrent_message_loop.cc\<close> as workers and posters that interleave; whoever
    posts or terminates gives the notification that the operation returns. Conservation of tasks, no lost
    wake-up, that after a shutdown the workers end without further help, and the tasks they leave behind.
  \<^item> \<open>Ref_Counting\<close>, \<open>Ref_Counting_Laws\<close>: \<open>memory/ref_counted*.h\<close>, \<open>memory/ref_ptr*.h\<close>: the count of an
    object is the number of its pointers. \<open>Weak_Pointers\<close>: \<open>memory/weak_ptr*.{h,cc}\<close>, built on it.
  \<^item> \<open>Unique_Ownership\<close>: \<open>memory/unique_ptr.h\<close>, \<open>unique_object.h\<close>, \<open>unique_fd.{h,cc}\<close>; the traits of
    the generic owner are the locale \<open>unique_traits\<close>, interpreted for descriptors and directories.
    \<open>Shared_Pointers\<close>: \<open>memory/atomic.h\<close>, \<open>memory/shared_ptr.h\<close>.
  \<^item> \<open>Waitable_Events\<close>, \<open>Latches_And_Switches\<close>: \<open>synchronization/*\<close>, \<open>closure.h\<close>: systems of any number
    of threads, with spurious wake-ups.
  \<^item> \<open>Base64_Codec\<close>: \<open>base64.cc\<close>; \<open>Base32_Codec\<close>: \<open>base32.{h,cc}\<close>, \<open>hex_codec.cc\<close>. Equivalence of the loops
    over buffers with recursive decoders, and round trips. \<open>Ascii_Trie\<close>: \<open>ascii_trie.cc\<close>.
  \<^item> \<open>C_Text\<close>: the C library's strings, line input and decimal numbers. \<open>Detectors\<close>, \<open>Detector_Props\<close>:
    \<open>common.cpp\<close>, \<open>mobile_info.cpp\<close>, \<open>check_multi_open.cpp\<close>, \<open>check_debug.cpp\<close>, \<open>check_root.cpp\<close>,
    \<open>check_cpu.cpp\<close>, over a record of what the system answers. \<open>Signatures\<close>: \<open>check_sign.cpp\<close>.
    \<open>Context_Queries\<close>: the JNI calls of \<open>check_sign.cpp\<close> and \<open>check_multi_open.cpp\<close>, up to the report on the
    certificate. \<open>Detector_Entries\<close>: the entry points that make a string, with those of \<open>check_hook.cpp\<close>,
    \<open>check_device_uuid.cpp\<close>, \<open>check_env.cpp\<close> and \<open>native-lib.cpp\<close>.
    \<open>Magisk_Detector\<close>: \<open>magisk_detector.cpp\<close>, with the descriptors that its tests use up.
  \<^item> \<open>Logging\<close>: \<open>log/*\<close>: a failed check ends the process, whatever the settings. \<open>Snappy_Bindings\<close>:
    \<open>snappy_natvie.cpp\<close>, over memory and pinned arrays: what the entry points hand to the library and back, for
    any behaviour of the library, and that the arrays are released.
  \<^item> \<open>Utf_Conversion\<close>: \<open>string_conversion.{h,cc}\<close> with the library's \<open>codecvt_utf8_utf16\<close>: round trip of
    text without a NUL, and the errors.
  \<^item> \<open>Java_References\<close>, \<open>Java_Reference_Laws\<close>, \<open>Java_Reference_Props\<close>: \<open>android/scoped_java_ref.{h,cc}\<close>,
    \<open>android/jni_weak_ref.{h,cc}\<close> and the attachment of threads in \<open>android/jni_util.cc\<close>, over a table of the
    references the virtual machine has issued: every live reference has one owner. \<open>Java_Strings\<close>: the
    strings, arrays, lists and exceptions of \<open>android/jni_util.cc\<close>, \<open>jni_string.hpp\<close>, \<open>jni_base64.cpp\<close>.
  \<^item> \<open>Qt_Jni\<close>: \<open>qjnienvironment.{h,cpp}\<close>, \<open>qjniobject.{h,cpp}\<close>, \<open>qjnihelpers.cpp\<close>, the classes that the
    application has adapted from Qt, over the same table of references. \<open>Qt_Jni_Laws\<close> has weakest
    preconditions for the JNI functions and the constructors, \<open>Qt_Jni_Props\<close> for the calls and fields,
    \<open>Qt_Jni_Calls\<close> for those on classes and identifiers, for assignment, comparison and the environment.
    \<open>Qt_Jni_Steps\<close> runs a program of the 58 public operations from \<open>JNI_OnLoad\<close> on, under stated conditions
    on the arguments: none is undefined, the references of the objects are alive, and only operations that are
    given the name of a class leak. Arguments of variadic calls are taken to have the types that the signature names.
  \<^item> \<open>Looper_Scheduler\<close>: \<open>android/scheduler.hpp\<close>, as threads that invoke, a looper that calls back, and destructors that
    interleave: no function is lost, and no callback uses an object that is freed. \<open>Library_Entries\<close>:
    \<open>jni_double_conversion.cpp\<close>, \<open>library_loader.cc\<close>.
  \<^item> \<open>Task_Executors\<close>: \<open>DefaultTaskExecutor.{h,cpp}\<close>, \<open>ArchTaskExecutor.{h,cpp}\<close> on top of \<open>Threads\<close>: which
    loop gets which task, and that the destructor ends the loops. \<open>View_Models\<close>: \<open>ViewModel.{h,cpp}\<close>,
    \<open>MainViewModel.{h,cpp}\<close>, \<open>QtJniNativeViewModel.cpp\<close>, \<open>NativeObjectReference.cpp\<close> on top of the Qt classes and
    the executors, with the frame of local references that a native method runs in: the methods return in
    every reachable state, unless a text cannot be converted, and leave no reference, but the object keeps one that is dead.

  \<^bold>\<open>Bounds.\<close> Loops are total functions, with two exceptions: flushing a message loop may go on for ever
  if closures keep posting, so it is a partial function, proved to return for closures that add no
  due task; and the loop of \<open>Base32Encode\<close> has fuel \<open>8 n + 16\<close>, proved to be enough. Task order is kept for
  fewer than \<open>2 ^ 32\<close> registrations, after which the counter has wrapped; reference counts are exact
  below \<open>2 ^ 64\<close> pointers. The codecs index with \<open>int\<close>, so their texts have to be shorter than \<open>2 ^ 31\<close>.

  \<^bold>\<open>Not modelled.\<close> The code that flatbuffers has generated; macros and templates that only pass on to the
  classes above or to the C++ library (\<open>macros.h\<close>, \<open>make_copyable.h\<close>, \<open>meta/move.h\<close>, \<open>internal/type_traits.h\<close>, \<open>util/any.hpp\<close>, \<open>size.h\<close>); snappy (a parameter, of which only is assumed that the compressed form fits into the room for the largest one),
  \<open>nlohmann/json\<close>, flatbuffers, double-conversion and \<open>linux_syscall_support.h\<close>, which are third-party code; the
  queue class of the Realm scheduler and the Flutter classes that \<open>library_loader.cc\<close> registers, which the
  repository does not have and which are parameters; and everything in Kotlin and Java.
\<close>

end
